(* ===== verification/Prelude.thy ===== *)
theory Prelude
  imports Main "HOL-Library.Word"
begin

text \<open>
  Shared vocabulary of the development: bytes and C memory blocks as lists, the
  faults a C access can run into as values of a sum type, C strings, little-endian
  encodings, and the textual conversions of printf that the daemon uses.

  A memory block is a list of bytes of the block's size.  Every read and write names
  its offset and size, and one that leaves the block is the value \<open>Inl OobRead\<close> or
  \<open>Inl OobWrite\<close>, where the C program has undefined behaviour.
\<close>

named_theorems mem_simps
named_theorems fault_simps

type_synonym byte = "8 word"
type_synonym u16 = "16 word"
type_synonym u32 = "32 word"

text \<open>What a step of the C code can run into instead of returning.\<close>

datatype fault =
    OobRead          \<comment> \<open>a read outside its memory block\<close>
  | OobWrite         \<comment> \<open>a write outside its memory block\<close>
  | NullDeref        \<comment> \<open>an access through NULL\<close>
  | ExitCall         \<comment> \<open>the code calls exit\<close>
  | NoReply          \<comment> \<open>the client waits for a datagram that never comes\<close>
  | OutOfFuel        \<comment> \<open>a bounded unrolling of a loop was too short\<close>

lemma unat_byte [simp]: "unat (b :: byte) < 256"
  using unsigned_less [of b, where ?'a = nat] by simp

lemma unat_u16 [simp]: "unat (w :: u16) < 65536"
  using unsigned_less [of w, where ?'a = nat] by simp

lemma unat_u32 [simp]: "unat (w :: u32) < 4294967296"
  using unsigned_less [of w, where ?'a = nat] by simp

lemma take_whole_append: "n = length xs \<Longrightarrow> take n (xs @ ys) = xs"
  by simp

lemma drop_whole_append: "n = length xs \<Longrightarrow> drop n (xs @ ys) = ys"
  by simp

subsection \<open>Sequencing of fallible steps\<close>

definition rbind :: "'e + 'a \<Rightarrow> ('a \<Rightarrow> 'e + 'b) \<Rightarrow> 'e + 'b" where
  "rbind m k = (case m of Inl e \<Rightarrow> Inl e | Inr a \<Rightarrow> k a)"

lemma rbind_Inl [simp]: "rbind (Inl e) k = Inl e"
  by (simp add: rbind_def)

lemma rbind_Inr [simp]: "rbind (Inr a) k = k a"
  by (simp add: rbind_def)

lemma rbind_eq_Inr: "rbind m k = Inr b \<longleftrightarrow> (\<exists>a. m = Inr a \<and> k a = Inr b)"
  by (cases m) auto

lemma rbind_eq_Inl: "rbind m k = Inl e \<longleftrightarrow> m = Inl e \<or> (\<exists>a. m = Inr a \<and> k a = Inl e)"
  by (cases m) auto

lemma rbind_assoc: "rbind (rbind m k) l = rbind m (\<lambda>a. rbind (k a) l)"
  by (cases m) auto

lemma rbind_if: "rbind (if b then m else n) k = (if b then rbind m k else rbind n k)"
  by simp

subsection \<open>Memory blocks\<close>

definition mread :: "nat \<Rightarrow> nat \<Rightarrow> byte list \<Rightarrow> fault + byte list" where
  "mread off n b = (if off + n \<le> length b then Inr (take n (drop off b)) else Inl OobRead)"

definition mwrite :: "nat \<Rightarrow> byte list \<Rightarrow> byte list \<Rightarrow> fault + byte list" where
  "mwrite off src b =
     (if off + length src \<le> length b
      then Inr (take off b @ src @ drop (off + length src) b) else Inl OobWrite)"

lemma mread_Inr [mem_simps]: "off + n \<le> length b \<Longrightarrow> mread off n b = Inr (take n (drop off b))"
  by (simp add: mread_def)

lemma mread_Inl [fault_simps]: "length b < off + n \<Longrightarrow> mread off n b = Inl OobRead"
  by (simp add: mread_def)

lemma mwrite_Inr [mem_simps]:
  "off + length src \<le> length b \<Longrightarrow>
   mwrite off src b = Inr (take off b @ src @ drop (off + length src) b)"
  by (simp add: mwrite_def)

lemma mwrite_Inl [fault_simps]: "length b < off + length src \<Longrightarrow> mwrite off src b = Inl OobWrite"
  by (simp add: mwrite_def)

lemma mwrite_length: "mwrite off src b = Inr b' \<Longrightarrow> length b' = length b"
  by (auto simp: mwrite_def split: if_splits)

lemma mread_length: "mread off n b = Inr d \<Longrightarrow> length d = n"
  by (auto simp: mread_def split: if_splits)

lemma mread_after_mwrite:
  "mwrite off src b = Inr b' \<Longrightarrow> mread off (length src) b' = Inr src"
  by (auto simp: mwrite_def mread_def split: if_splits)

text \<open>memset (p, 0, n) at the start of a block.\<close>

definition mzero :: "nat \<Rightarrow> byte list \<Rightarrow> fault + byte list" where
  "mzero n b = mwrite 0 (replicate n 0) b"

lemma mzero_Inr [mem_simps]: "n \<le> length b \<Longrightarrow> mzero n b = Inr (replicate n 0 @ drop n b)"
  by (simp add: mzero_def mwrite_def)

lemma mzero_Inl [fault_simps]: "length b < n \<Longrightarrow> mzero n b = Inl OobWrite"
  by (simp add: mzero_def mwrite_def)

subsection \<open>C strings\<close>

text \<open>The string at an offset of a block: up to the first NUL, which must be in the block.\<close>

definition cstr :: "nat \<Rightarrow> byte list \<Rightarrow> fault + byte list" where
  "cstr off b =
     (if 0 \<in> set (drop off b) then Inr (takeWhile (\<lambda>c. c \<noteq> 0) (drop off b)) else Inl OobRead)"

lemma cstr_terminated [mem_simps]:
  "0 \<notin> set t \<Longrightarrow> cstr off (pre @ t @ 0 # rest) = Inr t" if "length pre = off"
proof -
  assume "0 \<notin> set t"
  then have "takeWhile (\<lambda>c. c \<noteq> 0) (t @ 0 # rest) = t @ takeWhile (\<lambda>c. c \<noteq> 0) (0 # rest)"
    by (intro takeWhile_append2) auto
  with that show ?thesis by (auto simp: cstr_def)
qed

lemma cstr_no_nul: "cstr off b = Inr t \<Longrightarrow> 0 \<notin> set t"
  by (auto simp: cstr_def split: if_splits dest: set_takeWhileD)

lemma cstr_within: "cstr off b = Inr t \<Longrightarrow> off + length t < length b"
proof -
  assume a: "cstr off b = Inr t"
  then have z: "0 \<in> set (drop off b)" and t: "t = takeWhile (\<lambda>c. c \<noteq> 0) (drop off b)"
    by (auto simp: cstr_def split: if_splits)
  have "length t \<noteq> length (drop off b)"
  proof
    assume "length t = length (drop off b)"
    then have "takeWhile (\<lambda>c. c \<noteq> 0) (drop off b) = drop off b"
      using t by (metis append_eq_conv_conj takeWhile_eq_take take_all order_refl)
    then have "0 \<notin> set (drop off b)"
      by (metis (mono_tags, lifting) set_takeWhileD)
    then show False using z by simp
  qed
  moreover have "length t \<le> length (drop off b)"
    unfolding t by (rule length_takeWhile_le)
  ultimately show ?thesis by simp
qed

subsection \<open>Little-endian encodings\<close>

fun le_bytes :: "nat \<Rightarrow> nat \<Rightarrow> byte list" where
  "le_bytes 0 n = []"
| "le_bytes (Suc k) n = of_nat n # le_bytes k (n div 256)"

fun le_val :: "byte list \<Rightarrow> nat" where
  "le_val [] = 0"
| "le_val (b # bs) = unat b + 256 * le_val bs"

lemma length_le_bytes [simp]: "length (le_bytes k n) = k"
  by (induction k arbitrary: n) auto

lemma le_val_le_bytes: "le_val (le_bytes k n) = n mod 256 ^ k"
proof (induction k arbitrary: n)
  case 0
  then show ?case by simp
next
  case (Suc k)
  have "n mod 256 + 256 * (n div 256 mod 256 ^ k) = n mod (256 * 256 ^ k)"
    using mod_mult2_eq [of n 256 "256 ^ k"] by simp
  then show ?case by (simp add: Suc.IH unat_of_nat)
qed

lemma le_val_bound: "le_val bs < 256 ^ length bs"
proof (induction bs)
  case Nil
  then show ?case by simp
next
  case (Cons b bs)
  have b: "unat b < 256" by simp
  define m :: nat where "m = 256 ^ length bs"
  from Cons have "le_val bs < m" by (simp add: m_def)
  with b have "unat b + 256 * le_val bs < 256 * m" by linarith
  then have "unat b + 256 * le_val bs < 256 * 256 ^ length bs" by (simp only: m_def)
  then show ?case by simp
qed

lemma le_bytes_le_val: "le_bytes (length bs) (le_val bs) = bs"
proof (induction bs)
  case Nil
  then show ?case by simp
next
  case (Cons b bs)
  have b: "unat b < 256" by simp
  have "(of_nat (unat b + 256 * le_val bs) :: byte) = of_nat (unat b)"
    by (rule word_unat_eq_iff [THEN iffD2]) (simp only: unat_of_nat, simp)
  moreover have "(unat b + 256 * le_val bs) div 256 = le_val bs" using b by simp
  ultimately show ?case using Cons by simp
qed

text \<open>An \<open>unsigned int\<close> and an \<open>unsigned short\<close> in memory, least significant byte first.\<close>

definition le32 :: "u32 \<Rightarrow> byte list" where
  "le32 w = le_bytes 4 (unat w)"

definition rd32 :: "byte list \<Rightarrow> u32" where
  "rd32 bs = of_nat (le_val bs)"

definition le16 :: "u16 \<Rightarrow> byte list" where
  "le16 w = le_bytes 2 (unat w)"

definition rd16 :: "byte list \<Rightarrow> u16" where
  "rd16 bs = of_nat (le_val bs)"

lemma length_le32 [simp]: "length (le32 w) = 4"
  by (simp add: le32_def)

lemma length_le16 [simp]: "length (le16 w) = 2"
  by (simp add: le16_def)

lemma rd32_le32 [simp]: "rd32 (le32 w) = w"
  by (simp add: rd32_def le32_def le_val_le_bytes)

lemma rd16_le16 [simp]: "rd16 (le16 w) = w"
  by (simp add: rd16_def le16_def le_val_le_bytes)

lemma le32_rd32: "length bs = 4 \<Longrightarrow> le32 (rd32 bs) = bs"
  using le_val_bound [of bs] le_bytes_le_val [of bs]
  by (simp add: rd32_def le32_def unat_of_nat)


lemma unat_of_nat_u32 [simp]: "k < 4294967296 \<Longrightarrow> unat (of_nat k :: u32) = k"
  by (simp add: unat_of_nat)

lemma of_nat_u32_eq_0: "k < 4294967296 \<Longrightarrow> (of_nat k :: u32) = 0 \<longleftrightarrow> k = 0"
  by (auto simp: word_of_nat_eq_0_iff dest: nat_dvd_not_less [rotated])

end
