(* ===== verification/Rlog.thy ===== *)
theory Rlog
  imports Prelude
begin

text \<open>
  The daemon's log, server/src/rlog.c: a ring buffer (rbuf_init, rbuf_flush, rbuf_put,
  rbuf_get) over the static array g_rlog_buf, and the log operations on top of it
  (rlog_init, rlog_printf2buf, rlog_dump, rlog_size).

  Pointers of \<open>rbuf_t\<close> are offsets from \<open>rbuf_start\<close>; \<open>rb_mem = None\<close> is a NULL
  \<open>rbuf_start\<close>.  \<open>size_t\<close> subtraction wraps at 64 bits.  The abstract log is the whole
  history of bytes put; \<open>log_repr\<close> relates it to the ring, which keeps its last 512 bytes.
\<close>

definition RLOG_MAX_LOG_BUF_SIZE :: nat where "RLOG_MAX_LOG_BUF_SIZE = 512"
definition RLOG_MAX_ONE_LOG_SIZE :: nat where "RLOG_MAX_ONE_LOG_SIZE = 128"

record rbuf =
  rb_size :: nat
  rb_used :: nat
  rb_full :: bool
  rb_mem :: "byte list option"
  rb_end :: nat
  rb_head :: nat

definition size_sub :: "nat \<Rightarrow> nat \<Rightarrow> nat" where
  "size_sub a b = (if b \<le> a then a - b else 2 ^ 64 + a - b)"

lemma size_sub_le [simp]: "b \<le> a \<Longrightarrow> size_sub a b = a - b"
  by (simp add: size_sub_def)

text \<open>The zero-initialised static \<open>g_rlog_hdl\<close>.\<close>

definition rbuf_zero :: rbuf where
  "rbuf_zero = \<lparr>rb_size = 0, rb_used = 0, rb_full = False, rb_mem = None, rb_end = 0, rb_head = 0\<rparr>"

definition rbuf_init :: "rbuf \<Rightarrow> byte list option \<Rightarrow> nat \<Rightarrow> rbuf" where
  "rbuf_init rb buf sz =
     (if buf = None \<or> sz = 0 then rb
      else rb\<lparr>rb_mem := buf, rb_end := sz, rb_size := sz, rb_used := 0,
              rb_full := False, rb_head := 0\<rparr>)"

text \<open>Accesses through a pointer into the ring; zero bytes may be copied through NULL.\<close>

definition ring_write :: "nat \<Rightarrow> byte list \<Rightarrow> rbuf \<Rightarrow> fault + rbuf" where
  "ring_write off d rb =
     (case rb_mem rb of
        None \<Rightarrow> (if d = [] then Inr rb else Inl NullDeref)
      | Some m \<Rightarrow> rbind (mwrite off d m) (\<lambda>m'. Inr (rb\<lparr>rb_mem := Some m'\<rparr>)))"

definition ring_read :: "nat \<Rightarrow> nat \<Rightarrow> rbuf \<Rightarrow> fault + byte list" where
  "ring_read off n rb =
     (case rb_mem rb of
        None \<Rightarrow> (if n = 0 then Inr [] else Inl NullDeref)
      | Some m \<Rightarrow> mread off n m)"

definition rbuf_flush :: "rbuf \<Rightarrow> fault + rbuf" where
  "rbuf_flush rb = ring_write 0 (replicate (rb_size rb) 0) (rb\<lparr>rb_head := 0\<rparr>)"

definition rbuf_size :: "rbuf \<Rightarrow> nat" where "rbuf_size rb = rb_size rb"
definition rbuf_usedsize :: "rbuf \<Rightarrow> nat" where "rbuf_usedsize rb = rb_used rb"

definition rbuf_account :: "nat \<Rightarrow> rbuf \<Rightarrow> rbuf" where
  "rbuf_account count rb =
     (if rb_full rb then rb
      else if rb_size rb < rb_used rb + count then rb\<lparr>rb_full := True, rb_used := 512\<rparr>
      else rb\<lparr>rb_used := rb_used rb + count\<rparr>)"

definition rbuf_put :: "rbuf \<Rightarrow> byte list \<Rightarrow> nat \<Rightarrow> fault + rbuf" where
  "rbuf_put rb data count =
     (let left = size_sub (rb_end rb) (rb_head rb) in
      rbind
        (if count \<le> left
         then rbind (mread 0 count data) (\<lambda>d.
              rbind (ring_write (rb_head rb) d rb) (\<lambda>rb1.
              Inr (rb1\<lparr>rb_head := rb_head rb + count\<rparr>)))
         else let over_size = count - left in
              rbind (mread 0 left data) (\<lambda>d1.
              rbind (ring_write (rb_head rb) d1 rb) (\<lambda>rb1.
              rbind (mread left over_size data) (\<lambda>d2.
              rbind (ring_write 0 d2 rb1) (\<lambda>rb2.
              Inr (rb2\<lparr>rb_head := over_size\<rparr>))))))
        (\<lambda>rb'. Inr (rbuf_account count rb')))"

text \<open>rbuf_get: the bytes it stores into the caller's block.\<close>

definition rbuf_get :: "rbuf \<Rightarrow> nat \<Rightarrow> nat \<Rightarrow> fault + byte list" where
  "rbuf_get rb count offset =
     (let off_head = (if rb_full rb then rb_head rb + offset else offset);
          left = size_sub (rb_end rb) off_head
      in if count \<le> left then ring_read off_head count rb
         else let over_size = count - left in
              rbind (ring_read off_head left rb) (\<lambda>d1.
              rbind (ring_read 0 over_size rb) (\<lambda>d2. Inr (d1 @ d2))))"

subsection \<open>The log\<close>

text \<open>rlog_init with the current contents of g_rlog_buf.\<close>

definition rlog_init :: "byte list \<Rightarrow> rbuf \<Rightarrow> rbuf" where
  "rlog_init g_rlog_buf hdl = rbuf_init hdl (Some g_rlog_buf) RLOG_MAX_LOG_BUF_SIZE"

text \<open>
  \<open>msg\<close> is the whole formatted message; vsnprintf keeps \<open>RLOG_MAX_ONE_LOG_SIZE - 2\<close>
  of its bytes and terminates them.
\<close>

definition rlog_tmp_buf :: "byte list \<Rightarrow> byte list" where
  "rlog_tmp_buf msg = takeWhile (\<lambda>c. c \<noteq> 0) (take (RLOG_MAX_ONE_LOG_SIZE - 2) msg)"

definition rlog_printf2buf :: "byte list \<Rightarrow> rbuf \<Rightarrow> fault + rbuf \<times> nat" where
  "rlog_printf2buf msg hdl =
     (let tmp = rlog_tmp_buf msg
      in rbind (rbuf_put hdl tmp (length tmp)) (\<lambda>hdl'. Inr (hdl', length tmp)))"

text \<open>rlog_dump: None where it returns without touching the caller's block.\<close>

definition rlog_dump :: "rbuf \<Rightarrow> nat \<Rightarrow> nat \<Rightarrow> fault + byte list option" where
  "rlog_dump hdl count offset =
     (if rbuf_size hdl < offset then Inr None
      else rbind (rbuf_get hdl count offset) (\<lambda>d. Inr (Some d)))"

definition rlog_size :: "rbuf \<Rightarrow> nat" where
  "rlog_size hdl = rbuf_usedsize hdl"

subsection \<open>The ring seen as a list: oldest byte first\<close>

definition ring_view :: "nat \<Rightarrow> nat \<Rightarrow> byte list \<Rightarrow> byte list" where
  "ring_view n h m = drop h (take n m) @ take h m"

lemma length_ring_view: "h \<le> n \<Longrightarrow> n \<le> length m \<Longrightarrow> length (ring_view n h m) = n"
  by (simp add: ring_view_def)

lemma ring_view_straight:
  assumes "h + length d \<le> n" and "n \<le> length m"
  shows "ring_view n (h + length d) (take h m @ d @ drop (h + length d) m)
         = drop (length d) (ring_view n h m @ d)"
  using assms by (simp add: ring_view_def drop_take add.commute)

lemma ring_view_wrap:
  assumes "h \<le> n" and "n \<le> length m" and "n - h \<le> length d" and "length d \<le> n"
  defines "l \<equiv> n - h"
  defines "m1 \<equiv> take h m @ take l d @ drop n m"
  shows "ring_view n (length d - l) (drop l d @ drop (length d - l) m1)
         = drop (length d) (ring_view n h m @ d)"
proof -
  have over: "length d - l \<le> h" using assms by simp
  have lm: "length (take l d) = l" using assms by simp
  have lt: "length (drop l d) = length d - l" by simp
  have "drop (length d - l) (take n (drop l d @ drop (length d - l) m1))
        = take (n - (length d - l)) (drop (length d - l) m1)"
    unfolding drop_take by (simp add: lt)
  also have "\<dots> = take (n - (length d - l)) (drop (length d - l) (take h m) @ take l d @ drop n m)"
    using over assms(1,2) by (simp add: m1_def)
  also have "\<dots> = drop (length d - l) (take h m) @ take l d"
  proof -
    have "n - (length d - l) = length (drop (length d - l) (take h m) @ take l d)"
      using assms(1-4) over lm by (auto simp: l_def min_def)
    from take_whole_append [OF this, of "drop n m"] show ?thesis by (simp only: append_assoc)
  qed
  finally have a: "drop (length d - l) (take n (drop l d @ drop (length d - l) m1))
        = drop (length d - l) (take h m) @ take l d" .
  have b: "drop (length d) (ring_view n h m @ d) = drop (length d - l) (take h m) @ d"
    using assms over by (simp add: ring_view_def)
  show ?thesis
    unfolding b unfolding ring_view_def a by simp
qed

subsection \<open>The log's abstraction\<close>

text \<open>
  \<open>log_repr h rb\<close>: the ring holds the history \<open>h\<close>, whole while it fits and its last
  512 bytes afterwards.
\<close>

definition log_repr :: "byte list \<Rightarrow> rbuf \<Rightarrow> bool" where
  "log_repr h rb \<longleftrightarrow>
     (\<exists>m. rb_mem rb = Some m \<and> 512 \<le> length m \<and>
        rb_size rb = 512 \<and> rb_end rb = 512 \<and> rb_head rb \<le> 512 \<and>
        (if rb_full rb then rb_used rb = 512 \<and> 512 < length h
         else rb_used rb = length h \<and> length h \<le> 512 \<and> rb_head rb = length h) \<and>
        drop (512 - rb_used rb) (ring_view 512 (rb_head rb) m) = drop (length h - 512) h)"

definition rlog_ok :: "rbuf \<Rightarrow> bool" where
  "rlog_ok rb \<longleftrightarrow> (\<exists>h. log_repr h rb)"

lemma rlog_okI [intro]: "log_repr h rb \<Longrightarrow> rlog_ok rb"
  by (auto simp: rlog_ok_def)

lemma log_repr_init:
  "512 \<le> length g \<Longrightarrow> log_repr [] (rlog_init g hdl)"
  by (auto simp: log_repr_def rlog_init_def rbuf_init_def RLOG_MAX_LOG_BUF_SIZE_def
      length_ring_view)


lemma log_repr_put_view:
  assumes h: "drop (512 - u) v = drop (length h - 512) h" and lv: "length v = 512"
    and u: "u = min (length h) 512" and d: "length d \<le> 512"
  shows "drop (512 - min (length (h @ d)) 512) (drop (length d) (v @ d))
         = drop (length (h @ d) - 512) (h @ d)"
proof -
  have split: "v @ d = take (512 - u) v @ drop (length h - 512) h @ d"
    using h by (metis append.assoc append_take_drop_id)
  have lt: "length (take (512 - u) v) = 512 - u" using lv by simp
  show ?thesis
    using u d lt unfolding split by (auto simp: min_def add.commute)
qed

lemma rbuf_put_log_repr:
  assumes r: "log_repr h rb" and d: "length d \<le> 512"
  shows "\<exists>rb'. rbuf_put rb d (length d) = Inr rb' \<and> log_repr (h @ d) rb'"
proof -
  from r obtain m where m: "rb_mem rb = Some m" "512 \<le> length m" "rb_size rb = 512"
      "rb_end rb = 512" "rb_head rb \<le> 512"
    and st: "if rb_full rb then rb_used rb = 512 \<and> 512 < length h
         else rb_used rb = length h \<and> length h \<le> 512 \<and> rb_head rb = length h"
    and v: "drop (512 - rb_used rb) (ring_view 512 (rb_head rb) m) = drop (length h - 512) h"
    by (auto simp: log_repr_def)
  have u: "rb_used rb = min (length h) 512" using st by (auto split: if_splits)
  have lv: "length (ring_view 512 (rb_head rb) m) = 512"
    using m by (simp add: length_ring_view)
  note view = log_repr_put_view [OF v lv u d]
  show ?thesis
  proof (cases "length d \<le> 512 - rb_head rb")
    case True
    define m' where "m' = take (rb_head rb) m @ d @ drop (rb_head rb + length d) m"
    have "ring_view 512 (rb_head rb + length d) m' = drop (length d) (ring_view 512 (rb_head rb) m @ d)"
      unfolding m'_def using True m by (intro ring_view_straight) auto
    with view have v': "drop (512 - min (length (h @ d)) 512) (ring_view 512 (rb_head rb + length d) m')
        = drop (length (h @ d) - 512) (h @ d)" by simp
    have put: "rbuf_put rb d (length d)
        = Inr (rbuf_account (length d) (rb\<lparr>rb_mem := Some m', rb_head := rb_head rb + length d\<rparr>))"
      using True m by (simp add: rbuf_put_def ring_write_def mread_def mwrite_def m'_def)
    show ?thesis
      unfolding put using True m st v' d
      by (auto simp: log_repr_def rbuf_account_def m'_def split: if_splits)
  next
    case False
    define l where "l = 512 - rb_head rb"
    define m1 where "m1 = take (rb_head rb) m @ take l d @ drop 512 m"
    define m' where "m' = drop l d @ drop (length d - l) m1"
    have "ring_view 512 (length d - l) m' = drop (length d) (ring_view 512 (rb_head rb) m @ d)"
      unfolding m'_def m1_def l_def using False m d by (intro ring_view_wrap) auto
    with view have v': "drop (512 - min (length (h @ d)) 512) (ring_view 512 (length d - l) m')
        = drop (length (h @ d) - 512) (h @ d)" by simp
    have lm1: "length m1 = length m" using False m d by (simp add: m1_def l_def)
    have lm': "length m' = length m" using False m d by (simp add: m'_def lm1 l_def)
    have put: "rbuf_put rb d (length d)
        = Inr (rbuf_account (length d) (rb\<lparr>rb_mem := Some m', rb_head := length d - l\<rparr>))"
      using False m d lm1
      by (simp add: rbuf_put_def ring_write_def mread_def mwrite_def m'_def m1_def l_def Let_def
          min_def)
    have over: "length d - l \<le> rb_head rb" using d by (simp add: l_def)
    show ?thesis
      unfolding put using False m st v' d lm' over
      by (auto simp: log_repr_def rbuf_account_def l_def split: if_splits)
  qed
qed

text \<open>Reading the whole used size back gives the kept part of the history.\<close>

lemma rbuf_get_log_repr:
  assumes r: "log_repr h rb"
  shows "rbuf_get rb (rb_used rb) 0 = Inr (drop (length h - 512) h)"
proof -
  from r obtain m where m: "rb_mem rb = Some m" "512 \<le> length m" "rb_size rb = 512"
      "rb_end rb = 512" "rb_head rb \<le> 512"
    and st: "if rb_full rb then rb_used rb = 512 \<and> 512 < length h
         else rb_used rb = length h \<and> length h \<le> 512 \<and> rb_head rb = length h"
    and v: "drop (512 - rb_used rb) (ring_view 512 (rb_head rb) m) = drop (length h - 512) h"
    by (auto simp: log_repr_def)
  show ?thesis
  proof (cases "rb_full rb")
    case True
    with st have "rb_used rb = 512" by simp
    with True m v show ?thesis
      by (cases "rb_head rb = 0")
        (auto simp: rbuf_get_def ring_read_def mread_def ring_view_def Let_def drop_take)
  next
    case False
    with st v m have "take (length h) m = h"
      by (simp add: ring_view_def)
    with False m st show ?thesis
      by (auto simp: rbuf_get_def ring_read_def mread_def Let_def)
  qed
qed

lemma length_rlog_tmp_buf: "length (rlog_tmp_buf msg) \<le> 126"
proof -
  have "length (rlog_tmp_buf msg) \<le> length (take 126 msg)"
    unfolding rlog_tmp_buf_def RLOG_MAX_ONE_LOG_SIZE_def
    by (simp add: length_takeWhile_le del: length_take)
  then show ?thesis by simp
qed

lemma rlog_printf2buf_log_repr:
  assumes "log_repr h rb"
  shows "\<exists>rb'. rlog_printf2buf msg rb = Inr (rb', length (rlog_tmp_buf msg)) \<and>
           log_repr (h @ rlog_tmp_buf msg) rb'"
proof -
  have "length (rlog_tmp_buf msg) \<le> 512"
    using length_rlog_tmp_buf [of msg] by simp
  from rbuf_put_log_repr [OF assms this] show ?thesis
    by (auto simp: rlog_printf2buf_def Let_def)
qed

lemma rlog_dump_log_repr:
  "log_repr h rb \<Longrightarrow> rlog_dump rb (rlog_size rb) 0 = Inr (Some (drop (length h - 512) h))"
  by (simp add: rlog_dump_def rlog_size_def rbuf_usedsize_def rbuf_size_def rbuf_get_log_repr)

lemma rlog_size_log_repr: "log_repr h rb \<Longrightarrow> rlog_size rb = min (length h) 512"
  by (auto simp: log_repr_def rlog_size_def rbuf_usedsize_def split: if_splits)

end
