(* ===== verification/CmdParse.thy ===== *)
theory CmdParse
  imports Prelude
begin

text \<open>
  The daemon's command-line parsing, server/src/udb_debug.c: is_blank,
  is_multi_cmd, parse_command (tokens at spaces), parse_commands_with_pipes (commands at
  bars) and check_built_in, with the strtok of the C library they call.  A string is the
  list of its bytes before the NUL.  The reference \<open>split_on\<close> cuts a string at every
  delimiter; strtok gives its non-empty pieces.
\<close>

definition ascii :: "string \<Rightarrow> byte list" where
  "ascii s = map of_char s"

lemma length_ascii [simp]: "length (ascii t) = length t"
  by (simp add: ascii_def)

abbreviation (input) SPACE :: byte where "SPACE \<equiv> 0x20"
abbreviation (input) BAR :: byte where "BAR \<equiv> 0x7C"
abbreviation (input) NEWLINE :: byte where "NEWLINE \<equiv> 0x0A"

definition ARG_MAX_COUNT :: nat where "ARG_MAX_COUNT = 256"

text \<open>isspace in the C locale.\<close>

definition isspace :: "byte \<Rightarrow> bool" where
  "isspace c \<longleftrightarrow> c = 0x20 \<or> (0x09 \<le> c \<and> c \<le> 0x0D)"

definition is_blank :: "byte list \<Rightarrow> bool" where
  "is_blank s \<longleftrightarrow> list_all isspace s"

definition is_multi_cmd :: "byte list \<Rightarrow> bool" where
  "is_multi_cmd s \<longleftrightarrow> list_ex (\<lambda>c. c = 0x3B) s"

subsection \<open>strtok\<close>

text \<open>One call of strtok_r: the token and the saved rest, None at the end of the string.\<close>

definition strtok_r :: "byte \<Rightarrow> byte list \<Rightarrow> (byte list \<times> byte list) option" where
  "strtok_r d s =
     (case dropWhile (\<lambda>c. c = d) s of
        [] \<Rightarrow> None
      | c # cs \<Rightarrow> Some (takeWhile (\<lambda>c. c \<noteq> d) (c # cs), drop 1 (dropWhile (\<lambda>c. c \<noteq> d) (c # cs))))"

lemma strtok_r_shorter: "strtok_r d s = Some (t, r) \<Longrightarrow> length r < length s"
proof -
  assume a: "strtok_r d s = Some (t, r)"
  obtain c cs where u: "dropWhile (\<lambda>c. c = d) s = c # cs"
    using a by (auto simp: strtok_r_def split: list.splits)
  have r: "r = drop 1 (dropWhile (\<lambda>c. c \<noteq> d) (c # cs))"
    using a u by (simp add: strtok_r_def)
  have "length (c # cs) \<le> length s"
    using length_dropWhile_le [of "\<lambda>c. c = d" s] u by simp
  moreover have "length (dropWhile (\<lambda>c. c \<noteq> d) (c # cs)) \<le> length (c # cs)"
    by (rule length_dropWhile_le)
  moreover have "length r < length (c # cs)"
    using \<open>length (dropWhile (\<lambda>c. c \<noteq> d) (c # cs)) \<le> length (c # cs)\<close> unfolding r
    by (cases "dropWhile (\<lambda>c. c \<noteq> d) (c # cs)") auto
  ultimately show ?thesis by linarith
qed

text \<open>Calling strtok until it returns NULL.\<close>

function strtok_all :: "byte \<Rightarrow> byte list \<Rightarrow> byte list list" where
  "strtok_all d s = (case strtok_r d s of None \<Rightarrow> [] | Some (t, r) \<Rightarrow> t # strtok_all d r)"
  by pat_completeness auto
termination
  by (relation "measure (\<lambda>(d, s). length s)") (auto simp: strtok_r_shorter)

declare strtok_all.simps [simp del]

lemma strtok_all_None: "strtok_r d s = None \<Longrightarrow> strtok_all d s = []"
  by (subst strtok_all.simps) simp

lemma strtok_all_Some: "strtok_r d s = Some (t, r) \<Longrightarrow> strtok_all d s = t # strtok_all d r"
  by (subst strtok_all.simps) simp

lemma strtok_r_Nil [simp]: "strtok_r d [] = None"
  by (simp add: strtok_r_def)

lemma strtok_all_Nil [simp]: "strtok_all d [] = []"
  by (simp add: strtok_all_None)

lemma strtok_all_delim: "strtok_all d (d # cs) = strtok_all d cs"
proof -
  have "strtok_r d (d # cs) = strtok_r d cs" by (simp add: strtok_r_def)
  then show ?thesis
    by (cases "strtok_r d cs") (auto simp: strtok_all_None strtok_all_Some)
qed

fun split_on :: "byte \<Rightarrow> byte list \<Rightarrow> byte list list" where
  "split_on d [] = [[]]"
| "split_on d (c # cs) =
     (if c = d then [] # split_on d cs
      else (case split_on d cs of [] \<Rightarrow> [[c]] | w # ws \<Rightarrow> (c # w) # ws))"

lemma split_on_nonempty [simp]: "split_on d s \<noteq> []"
  by (induction s) (auto split: list.splits)

lemma length_split_on: "length (split_on d s) = Suc (count_list s d)"
  by (induction s) (auto split: list.splits)

lemma split_on_no_delim: "d \<notin> set s \<Longrightarrow> split_on d s = [s]"
  by (induction s) auto

lemma split_on_token:
  "d \<notin> set t \<Longrightarrow> split_on d (t @ d # r) = t # split_on d r"
  by (induction t) auto

lemma split_on_pieces: "w \<in> set (split_on d s) \<Longrightarrow> d \<notin> set w"
  by (induction s arbitrary: w) (auto split: list.splits if_splits)

lemma strtok_all_split_on: "strtok_all d s = filter (\<lambda>w. w \<noteq> []) (split_on d s)"
proof (induction "length s" arbitrary: s rule: less_induct)
  case less
  show ?case
  proof (cases s)
    case Nil
    then show ?thesis by simp
  next
    case (Cons c cs)
    show ?thesis
    proof (cases "c = d")
      case True
      with Cons have "strtok_all d s = strtok_all d cs"
        by (simp add: strtok_all_delim)
      with less [of cs] Cons True show ?thesis by simp
    next
      case False
      define t where "t = takeWhile (\<lambda>c. c \<noteq> d) s"
      define u where "u = dropWhile (\<lambda>c. c \<noteq> d) s"
      have s: "s = t @ u" by (simp add: t_def u_def)
      have t: "t \<noteq> []" "d \<notin> set t"
        using False Cons by (auto simp: t_def dest: set_takeWhileD)
      have step: "strtok_r d s = Some (t, drop 1 u)"
        using False Cons by (simp add: strtok_r_def t_def u_def)
      show ?thesis
      proof (cases u)
        case Nil
        then show ?thesis using s t strtok_all_Some [OF step]
          by (simp add: split_on_no_delim)
      next
        case (Cons e v)
        have "e = d"
          using Cons hd_dropWhile [of "\<lambda>c. c \<noteq> d" s] by (simp add: u_def)
        with Cons s have s': "s = t @ d # v" by simp
        then have "strtok_all d v = filter (\<lambda>w. w \<noteq> []) (split_on d v)"
          by (intro less) simp
        then show ?thesis
          using strtok_all_Some [OF step] Cons t s' by (simp add: split_on_token)
      qed
    qed
  qed
qed

lemma strtok_all_nonempty: "t \<in> set (strtok_all d s) \<Longrightarrow> t \<noteq> []"
  by (simp add: strtok_all_split_on)

lemma strtok_all_no_delim: "t \<in> set (strtok_all d s) \<Longrightarrow> d \<notin> set t"
  by (auto simp: strtok_all_split_on split_on_pieces)

lemma length_strtok_all_le: "length (strtok_all d s) \<le> Suc (count_list s d)"
  by (simp add: strtok_all_split_on length_split_on [symmetric])

lemma length_strtok_all_eq:
  "length (strtok_all d s) = Suc (count_list s d) \<longleftrightarrow> [] \<notin> set (split_on d s)"
proof (cases "[] \<in> set (split_on d s)")
  case True
  then have "length (filter (\<lambda>w. w \<noteq> []) (split_on d s)) < length (split_on d s)"
    by (intro length_filter_less [of "[]"]) auto
  with True show ?thesis by (simp add: strtok_all_split_on length_split_on [symmetric])
next
  case False
  then have "filter (\<lambda>w. w \<noteq> []) (split_on d s) = split_on d s"
    by (intro filter_True) auto
  with False show ?thesis by (simp add: strtok_all_split_on length_split_on [symmetric])
qed

subsection \<open>Commands\<close>

record command =
  c_argc :: nat
  c_name :: "byte list option"
  c_argv :: "byte list list"

record commands =
  cmd_count :: nat
  cmds :: "command option list"

text \<open>parse_command: at most ARG_MAX_COUNT tokens; \<open>name\<close> is \<open>argv[0]\<close>, NULL without one.\<close>

definition parse_command :: "byte list \<Rightarrow> command" where
  "parse_command input =
     (let argv = take ARG_MAX_COUNT (strtok_all SPACE input)
      in \<lparr>c_argc = length argv,
          c_name = (case argv of [] \<Rightarrow> None | a # _ \<Rightarrow> Some a),
          c_argv = argv\<rparr>)"

text \<open>
  parse_commands_with_pipes: one slot for each bar and one more, filled from the tokens;
  the slots strtok leaves over stay NULL (calloc).
\<close>

definition parse_commands_with_pipes :: "byte list \<Rightarrow> commands" where
  "parse_commands_with_pipes input =
     (let commandCount = count_list input BAR + 1;
          tokens = take commandCount (strtok_all BAR input)
      in \<lparr>cmd_count = commandCount,
          cmds = map (Some \<circ> parse_command) tokens
                 @ replicate (commandCount - length tokens) None\<rparr>)"

text \<open>The for loop of uvc_runcmd_input_handle reads name, argc and argv of every slot.\<close>

definition read_all_slots :: "commands \<Rightarrow> fault + unit" where
  "read_all_slots cs = (if None \<in> set (cmds cs) then Inl NullDeref else Inr ())"

text \<open>check_built_in: strcmp through a NULL name is a fault.\<close>

definition check_built_in :: "command \<Rightarrow> fault + bool" where
  "check_built_in c =
     (case c_name c of
        None \<Rightarrow> Inl NullDeref
      | Some n \<Rightarrow> Inr (n = ascii ''exit'' \<or> n = ascii ''cd''))"

lemma length_cmds: "length (cmds (parse_commands_with_pipes s)) = cmd_count (parse_commands_with_pipes s)"
  by (simp add: parse_commands_with_pipes_def Let_def)

lemma take_all_tokens:
  "take (Suc (count_list s d)) (strtok_all d s) = strtok_all d s"
  by (simp add: length_strtok_all_le)

text \<open>A slot is NULL exactly when a stretch between two bars (or at an end) is empty.\<close>

lemma read_all_slots_iff:
  "read_all_slots (parse_commands_with_pipes s) = Inr () \<longleftrightarrow> [] \<notin> set (split_on BAR s)"
proof -
  have "read_all_slots (parse_commands_with_pipes s) = Inr ()
        \<longleftrightarrow> Suc (count_list s BAR) - length (strtok_all BAR s) = 0"
    by (auto simp: read_all_slots_def parse_commands_with_pipes_def Let_def take_all_tokens)
  also have "\<dots> \<longleftrightarrow> length (strtok_all BAR s) = Suc (count_list s BAR)"
    using length_strtok_all_le [of BAR s] by auto
  finally show ?thesis by (simp add: length_strtok_all_eq)
qed

lemma parse_single:
  assumes "BAR \<notin> set s" and "s \<noteq> []"
  shows "parse_commands_with_pipes s = \<lparr>cmd_count = 1, cmds = [Some (parse_command s)]\<rparr>"
proof -
  have "count_list s BAR = 0" using assms by (simp add: count_list_0_iff)
  moreover have "strtok_all BAR s = [s]"
    using assms by (simp add: strtok_all_split_on split_on_no_delim)
  ultimately show ?thesis by (simp add: parse_commands_with_pipes_def)
qed

text \<open>A string that is not blank has a token, so its name is not NULL.\<close>

lemma parse_command_name:
  assumes "\<not> is_blank s"
  shows "\<exists>n. c_name (parse_command s) = Some n \<and> n \<noteq> [] \<and> SPACE \<notin> set n"
proof -
  have ex: "\<exists>w \<in> set (split_on d s). w \<noteq> []" if "c \<in> set s" "c \<noteq> d" for c d :: byte
    using that by (induction s) (auto split: list.splits)
  from assms obtain c where "c \<in> set s" "\<not> isspace c"
    by (auto simp: is_blank_def list_all_iff)
  then have "\<exists>w \<in> set (split_on SPACE s). w \<noteq> []"
    by (intro ex [of c]) (auto simp: isspace_def)
  then have "strtok_all SPACE s \<noteq> []" by (auto simp: strtok_all_split_on filter_empty_conv)
  then obtain n ns where n: "strtok_all SPACE s = n # ns" by (cases "strtok_all SPACE s") auto
  then have "n \<noteq> []" "SPACE \<notin> set n"
    using strtok_all_nonempty [of n SPACE s] strtok_all_no_delim [of n SPACE s] by auto
  with n show ?thesis by (simp add: parse_command_def ARG_MAX_COUNT_def)
qed

subsection \<open>Comparing with a prefix\<close>

text \<open>strncmp (p, b, strlen (p)) == 0: it stops at the first difference, a NUL of \<open>b\<close> included.\<close>

fun has_prefix :: "byte list \<Rightarrow> byte list \<Rightarrow> fault + bool" where
  "has_prefix [] b = Inr True"
| "has_prefix (p # ps) [] = Inl OobRead"
| "has_prefix (p # ps) (b # bs) = (if b = p then has_prefix ps bs else Inr False)"

lemma has_prefix_append: "has_prefix p (p @ r) = Inr True"
  by (induction p) auto

lemma has_prefix_long: "length p \<le> length b \<Longrightarrow> \<exists>v. has_prefix p b = Inr v"
  by (induction p b rule: has_prefix.induct) auto

lemma has_prefix_True: "has_prefix p b = Inr True \<longleftrightarrow> (\<exists>r. b = p @ r)"
  by (induction p b rule: has_prefix.induct) auto

end
