(* ===== verification/Popen.thy ===== *)
theory Popen
  imports CmdParse
begin

text \<open>
  The daemon's own popen and pclose, server/src/udb_debug.c.  The static
  array \<open>childpid\<close> maps a descriptor to the child writing to it (0 for none); it is NULL
  until the first call.  What the kernel answers to getrlimit, pipe, fork, fdopen, fclose
  and waitpid is a record of results; the command the child execs is part of the result.
\<close>

datatype wait_result = WaitStat int | WaitEINTR | WaitErr

record popen_sys =
  sys_rlimit :: "nat option"
  sys_calloc :: bool
  sys_pipe :: "(nat \<times> nat) option"
  sys_fork :: "nat option"
  sys_fdopen :: bool
  sys_fclose :: bool
  sys_wait :: "wait_result list"

record popen_tab =
  childpid :: "(nat \<Rightarrow> nat) option"
  maxfd :: nat

definition popen_tab_zero :: popen_tab where
  "popen_tab_zero = \<lparr>childpid = None, maxfd = 0\<rparr>"

text \<open>The argument vector of the child's execlp.\<close>

definition popen_argv :: "bool \<Rightarrow> byte list \<Rightarrow> byte list list" where
  "popen_argv force_timeout cmd =
     (if force_timeout
      then (case cmd of
              c # cs \<Rightarrow>
                if c = 0x2D then [ascii ''sh'', ascii ''-c'', cs]
                else [ascii ''timeout'', ascii ''3'', ascii ''sh'', ascii ''-c'', cmd]
            | [] \<Rightarrow> [ascii ''timeout'', ascii ''3'', ascii ''sh'', ascii ''-c'', cmd])
      else [ascii ''sh'', ascii ''-c'', cmd])"

text \<open>First call: allocate the array of \<open>maxfd\<close> zeros. False where popen returns NULL.\<close>

definition popen_first :: "popen_sys \<Rightarrow> popen_tab \<Rightarrow> popen_tab \<times> bool" where
  "popen_first sys tab =
     (case childpid tab of
        Some _ \<Rightarrow> (tab, True)
      | None \<Rightarrow>
          (case sys_rlimit sys of
             None \<Rightarrow> (tab, False)
           | Some n \<Rightarrow>
               if sys_calloc sys then (tab\<lparr>maxfd := n, childpid := Some (\<lambda>_. 0)\<rparr>, True)
               else (tab\<lparr>maxfd := n\<rparr>, False)))"

definition set_childpid :: "nat \<Rightarrow> nat \<Rightarrow> popen_tab \<Rightarrow> fault + popen_tab" where
  "set_childpid fd pid tab =
     (case childpid tab of
        None \<Rightarrow> Inl NullDeref
      | Some f \<Rightarrow>
          if fd < maxfd tab then Inr (tab\<lparr>childpid := Some (f(fd := pid))\<rparr>) else Inl OobWrite)"

text \<open>uvc_popen: the descriptor of the stream and the child's argv, None for NULL.\<close>

definition uvc_popen ::
  "popen_sys \<Rightarrow> byte list \<Rightarrow> byte list \<Rightarrow> bool \<Rightarrow> popen_tab
   \<Rightarrow> fault + popen_tab \<times> (nat \<times> byte list list) option" where
  "uvc_popen sys cmdstring type force_timeout tab =
     (if type \<noteq> ascii ''r'' \<and> type \<noteq> ascii ''w'' then Inr (tab, None)
      else case popen_first sys tab of (tab, ok) \<Rightarrow>
        if \<not> ok then Inr (tab, None)
        else case sys_pipe sys of
          None \<Rightarrow> Inr (tab, None)
        | Some (pfd0, pfd1) \<Rightarrow>
            (case sys_fork sys of
               None \<Rightarrow> Inr (tab, None)
             | Some pid \<Rightarrow>
                 if \<not> sys_fdopen sys then Inr (tab, None)
                 else let fd = (if type = ascii ''r'' then pfd0 else pfd1) in
                   rbind (set_childpid fd pid tab) (\<lambda>tab'.
                   Inr (tab', Some (fd, popen_argv force_timeout cmdstring)))))"

text \<open>
  The waitpid loop of uvc_pclose over the results of the successive calls; None when the
  results run out while it still waits.
\<close>

fun wait_loop :: "wait_result list \<Rightarrow> int option" where
  "wait_loop [] = None"
| "wait_loop (WaitStat st # rs) = Some st"
| "wait_loop (WaitEINTR # rs) = wait_loop rs"
| "wait_loop (WaitErr # rs) = Some (-1)"

definition uvc_pclose :: "popen_sys \<Rightarrow> nat option \<Rightarrow> popen_tab \<Rightarrow> fault + popen_tab \<times> int" where
  "uvc_pclose sys fp tab =
     (case childpid tab of
        None \<Rightarrow> Inr (tab, -1)
      | Some f \<Rightarrow>
          (case fp of
             None \<Rightarrow> Inr (tab, -1)
           | Some fd \<Rightarrow>
               if maxfd tab \<le> fd then Inl OobRead
               else if f fd = 0 then Inr (tab, -1)
               else let tab' = tab\<lparr>childpid := Some (f(fd := 0))\<rparr> in
                 if \<not> sys_fclose sys then Inr (tab', -1)
                 else case wait_loop (sys_wait sys) of
                        None \<Rightarrow> Inl OutOfFuel
                      | Some st \<Rightarrow> Inr (tab', st)))"

subsection \<open>Properties of the pair\<close>

lemma wait_loop_EINTR: "wait_loop (replicate k WaitEINTR @ WaitStat st # rs) = Some st"
  by (induction k) auto

lemma wait_loop_enough:
  "\<exists>r \<in> set rs. r \<noteq> WaitEINTR \<Longrightarrow> \<exists>st. wait_loop rs = Some st"
  by (induction rs rule: wait_loop.induct) auto

lemma popen_first_ok: "popen_first sys tab = (tab', True) \<Longrightarrow> \<exists>f. childpid tab' = Some f"
  by (auto simp: popen_first_def split: option.splits if_splits)

text \<open>The fields uvc_popen reports agree with the kernel's answers.\<close>

lemma uvc_popen_Some:
  assumes "uvc_popen sys cmd ty ft tab = Inr (tab', Some (fd, argv))"
  shows "argv = popen_argv ft cmd \<and> fd < maxfd tab' \<and>
         (\<exists>f pid. sys_fork sys = Some pid \<and> childpid tab' = Some (f(fd := pid)))"
  using assms
  by (auto simp: uvc_popen_def set_childpid_def rbind_eq_Inr Let_def
      split: if_splits prod.splits option.splits)

lemma popen_pclose_status:
  assumes p: "uvc_popen sys cmd ty ft tab = Inr (tab1, Some (fd, argv))"
    and pid: "\<forall>pid. sys_fork sys = Some pid \<longrightarrow> pid \<noteq> 0"
    and c: "sys_fclose sys2" and w: "sys_wait sys2 = replicate k WaitEINTR @ WaitStat st # rs"
  shows "\<exists>tab2 f. uvc_pclose sys2 (Some fd) tab1 = Inr (tab2, st) \<and>
           childpid tab2 = Some f \<and> f fd = 0"
  using uvc_popen_Some [OF p] pid c w
  by (auto simp: uvc_pclose_def wait_loop_EINTR Let_def)

text \<open>A state in which both always succeed: enough kernel resources and answers.\<close>

definition popen_sys_ok :: "popen_sys \<Rightarrow> popen_tab \<Rightarrow> bool" where
  "popen_sys_ok sys tab \<longleftrightarrow>
     (\<exists>n p0 p1 pid. sys_rlimit sys = Some n \<and> sys_calloc sys \<and> sys_pipe sys = Some (p0, p1) \<and>
        sys_fork sys = Some pid \<and> 0 < pid \<and> sys_fdopen sys \<and> sys_fclose sys \<and>
        p0 < n \<and> p1 < n \<and> (childpid tab \<noteq> None \<longrightarrow> maxfd tab = n)) \<and>
     (\<exists>r \<in> set (sys_wait sys). r \<noteq> WaitEINTR)"

lemma popen_pclose_ok:
  assumes "popen_sys_ok sys tab"
  shows "\<exists>tab1 fd tab2 st. uvc_popen sys cmd (ascii ''r'') ft tab = Inr (tab1, Some (fd, popen_argv ft cmd)) \<and>
           uvc_pclose sys (Some fd) tab1 = Inr (tab2, st) \<and> popen_sys_ok sys tab2"
proof -
  from assms obtain n p0 p1 pid where s: "sys_rlimit sys = Some n" "sys_calloc sys"
      "sys_pipe sys = Some (p0, p1)" "sys_fork sys = Some pid" "0 < pid" "sys_fdopen sys"
      "sys_fclose sys" "p0 < n" "p1 < n" "childpid tab \<noteq> None \<longrightarrow> maxfd tab = n"
    by (auto simp: popen_sys_ok_def)
  from assms obtain st where w: "wait_loop (sys_wait sys) = Some st"
    using wait_loop_enough by (auto simp: popen_sys_ok_def)
  obtain tab0 f where first: "popen_first sys tab = (tab0, True)" "childpid tab0 = Some f"
      "maxfd tab0 = n"
    using s by (cases "childpid tab") (auto simp: popen_first_def)
  define tab1 where "tab1 = tab0\<lparr>childpid := Some (f(p0 := pid))\<rparr>"
  define tab2 where "tab2 = tab1\<lparr>childpid := Some (f(p0 := 0))\<rparr>"
  have "uvc_popen sys cmd (ascii ''r'') ft tab = Inr (tab1, Some (p0, popen_argv ft cmd))"
    using s first by (simp add: uvc_popen_def set_childpid_def tab1_def)
  moreover have "uvc_pclose sys (Some p0) tab1 = Inr (tab2, st)"
    using s first w by (simp add: uvc_pclose_def tab1_def tab2_def Let_def)
  moreover have "popen_sys_ok sys tab2"
    using assms s first by (auto simp: popen_sys_ok_def tab1_def tab2_def)
  ultimately show ?thesis by blast
qed

end
