(* ===== verification/UdbState.thy ===== *)
theory UdbState
  imports Rlog Popen
begin

text \<open>
  The state of the daemon: the globals of server/src/udb_debug.c, the log of rlog.c, the
  three stack variables net_debugd.c hands to the bridge (request buffer, response buffer,
  response length), and the parts of the operating system its calls change (files, working
  directory, the stream of the command being run).  The environment \<open>env\<close> holds what the
  operating system answers.

  \<open>udb_runcmd_ctrl.pullout\<close> and \<open>udb_runcmd_wait_ctrl.pullout\<close> both point to the static
  array runcmd_buf: a pointer is a \<open>buf_ref\<close> and the arrays are fields of the state, so the
  sharing is kept.  The arrays are functions from the offset; every access is checked
  against the array's size.
\<close>

named_theorems handler_defs

subsection \<open>Constants of the protocol\<close>

definition UDB_PROT_SIZE_DEFAULT :: nat where "UDB_PROT_SIZE_DEFAULT = 64"
definition UDB_PROT_SIZE_USB2_CTRL :: nat where "UDB_PROT_SIZE_USB2_CTRL = 64"
definition UDB_PROT_SIZE_USB2_BULK :: nat where "UDB_PROT_SIZE_USB2_BULK = 512"
definition UDB_PROT_SIZE_NET_UDP :: nat where "UDB_PROT_SIZE_NET_UDP = 1470"
definition UDB_MAX_PKG_COUNT :: nat where "UDB_MAX_PKG_COUNT = 1024 * 10"
definition UDB_BUF_SIZE :: nat where
  "UDB_BUF_SIZE = UDB_PROT_SIZE_DEFAULT * UDB_MAX_PKG_COUNT"
definition UDB_CMD_CHANNEL_ID_OFFSET :: nat where "UDB_CMD_CHANNEL_ID_OFFSET = 3"
definition UDB_CMD_PKG_CONTENT_OFFSET :: nat where "UDB_CMD_PKG_CONTENT_OFFSET = 4"
definition MSHCMD_BUF_SIZE :: nat where "MSHCMD_BUF_SIZE = 512"

lemmas offset_defs [simp] = UDB_CMD_CHANNEL_ID_OFFSET_def UDB_CMD_PKG_CONTENT_OFFSET_def

lemma UDB_BUF_SIZE_eq: "UDB_BUF_SIZE = 655360"
  by (simp add: UDB_BUF_SIZE_def UDB_PROT_SIZE_DEFAULT_def UDB_MAX_PKG_COUNT_def)

text \<open>\<open>udb_chan_id_e\<close> and its numbering.\<close>

datatype udb_chan_id =
    UDB_AUTH
  | UDB_RUN_CMD | UDB_RUN_CMD_PULLOUT
  | UDB_RUN_CMD_WAIT | UDB_RUN_CMD_WAIT_PULLOUT
  | UDB_MSH_CMD | UDB_MSH_CMD_PULLOUT
  | UDB_PULL_FILE_INIT | UDB_PULL_FILE_PULLOUT
  | UDB_PUSH_FILE_INIT | UDB_PUSH_FILE_PROC | UDB_PUSH_FILE_FINI
  | UDB_RAWSET | UDB_RAWGET | NONE_CHAN

fun chan_code :: "udb_chan_id \<Rightarrow> byte" where
  "chan_code UDB_AUTH = 0x01"
| "chan_code UDB_RUN_CMD = 0x02"
| "chan_code UDB_RUN_CMD_PULLOUT = 0x03"
| "chan_code UDB_RUN_CMD_WAIT = 0x04"
| "chan_code UDB_RUN_CMD_WAIT_PULLOUT = 0x05"
| "chan_code UDB_MSH_CMD = 0x06"
| "chan_code UDB_MSH_CMD_PULLOUT = 0x07"
| "chan_code UDB_PULL_FILE_INIT = 0x11"
| "chan_code UDB_PULL_FILE_PULLOUT = 0x12"
| "chan_code UDB_PUSH_FILE_INIT = 0x21"
| "chan_code UDB_PUSH_FILE_PROC = 0x22"
| "chan_code UDB_PUSH_FILE_FINI = 0x23"
| "chan_code UDB_RAWSET = 0xfd"
| "chan_code UDB_RAWGET = 0xfe"
| "chan_code NONE_CHAN = 0xff"

lemma chan_code_inj: "chan_code a = chan_code b \<longleftrightarrow> a = b"
  by (cases a; cases b) auto

subsection \<open>Control blocks\<close>

datatype buf_ref = RuncmdBuf | MshcmdBuf

text \<open>struct udb_runcmd_unit and struct udb_mshcmd_unit.\<close>

record cctl =
  pullout :: "buf_ref option"
  total_size :: u32
  used_size :: u32
  cp_offset :: u32

definition cctl_zero :: cctl where
  "cctl_zero = \<lparr>pullout = None, total_size = 0, used_size = 0, cp_offset = 0\<rparr>"

text \<open>struct udb_runcmd_wait_unit.\<close>

record wctl =
  w_pullout :: "buf_ref option"
  single_instance :: byte
  cmd_finish :: byte
  pull_finish :: byte
  w_total_size :: u32
  w_used_size :: u32
  w_cp_offset :: u32
  tm_last_update :: u32

definition wctl_zero :: wctl where
  "wctl_zero = \<lparr>w_pullout = None, single_instance = 0, cmd_finish = 0, pull_finish = 0,
     w_total_size = 0, w_used_size = 0, w_cp_offset = 0, tm_last_update = 0\<rparr>"

text \<open>struct udb_pullfile_unit; its heap block is owned by it alone.\<close>

record pctl =
  p_pullout :: "byte list option"
  p_used_size :: u32
  p_cp_offset :: u32

definition pctl_zero :: pctl where
  "pctl_zero = \<lparr>p_pullout = None, p_used_size = 0, p_cp_offset = 0\<rparr>"

text \<open>
  A stream opened for writing: its file and the bytes stdio still buffers.  (The fields
  file_len and already_wlen of struct udb_pushfile_unit are never read or written.)
\<close>

record wstream =
  ws_file :: "byte list"
  ws_pending :: "byte list"

text \<open>
  The thread of udb_debug_runcmd_wait: created (its argument still points into the
  request buffer) or reading the output that is left, with its copy of the command.
\<close>

datatype wait_thread =
    WtCreated
  | WtReading "byte list" nat "byte list"

record udbd =
  req :: "byte list"
  rsp :: "byte list"
  rsp_len :: int
  prot_size :: nat
  udb_auth_ok :: bool
  run_ctl :: cctl
  wait_ctl :: wctl
  pull_ctl :: pctl
  push_fp :: "wstream option"
  msh_ctl :: cctl
  runcmd_buf :: "nat \<Rightarrow> byte"
  mshcmd_buf :: "nat \<Rightarrow> byte"
  popen_st :: popen_tab
  wait_thr :: "wait_thread option"
  rlog :: rbuf
  files :: "byte list \<Rightarrow> byte list option"
  cwd :: "byte list"

text \<open>
  What the operating system answers: the clock, the kernel's side of popen, a command run
  in a directory (its output and the files it leaves), chdir, the file a path names, whether
  it can be opened for writing, allocation, strerror, and how many buffered bytes stdio
  writes out early.
\<close>

record env =
  e_clock :: "nat \<times> nat"
  e_popen :: "popen_tab \<Rightarrow> popen_sys"
  e_exec :: "(byte list \<Rightarrow> byte list option) \<Rightarrow> byte list \<Rightarrow> byte list list
             \<Rightarrow> byte list \<times> (byte list \<Rightarrow> byte list option)"
  e_chdir :: "byte list \<Rightarrow> byte list \<Rightarrow> byte list option"
  e_resolve :: "byte list \<Rightarrow> byte list \<Rightarrow> byte list"
  e_creat :: "byte list \<Rightarrow> bool"
  e_malloc :: "nat \<Rightarrow> bool"
  e_strerror :: "byte list"
  e_spill :: "byte list \<Rightarrow> nat"

text \<open>os_time_get_boot_ms: milliseconds in 32 bits.\<close>

definition os_time_get_boot_ms :: "env \<Rightarrow> u32" where
  "os_time_get_boot_ms E = (case e_clock E of (sec, nsec) \<Rightarrow> of_nat (sec * 1000 + nsec div 1000000))"

subsection \<open>Accesses to the shared buffers\<close>

definition sbuf_size :: "buf_ref \<Rightarrow> nat" where
  "sbuf_size r = (case r of RuncmdBuf \<Rightarrow> UDB_BUF_SIZE | MshcmdBuf \<Rightarrow> MSHCMD_BUF_SIZE)"

definition sbuf :: "buf_ref \<Rightarrow> udbd \<Rightarrow> nat \<Rightarrow> byte" where
  "sbuf r s = (case r of RuncmdBuf \<Rightarrow> runcmd_buf s | MshcmdBuf \<Rightarrow> mshcmd_buf s)"

definition sbuf_upd :: "buf_ref \<Rightarrow> (nat \<Rightarrow> byte) \<Rightarrow> udbd \<Rightarrow> udbd" where
  "sbuf_upd r f s = (case r of RuncmdBuf \<Rightarrow> s\<lparr>runcmd_buf := f\<rparr> | MshcmdBuf \<Rightarrow> s\<lparr>mshcmd_buf := f\<rparr>)"

definition fput :: "nat \<Rightarrow> byte list \<Rightarrow> (nat \<Rightarrow> byte) \<Rightarrow> nat \<Rightarrow> byte" where
  "fput off d f = (\<lambda>i. if off \<le> i \<and> i < off + length d then d ! (i - off) else f i)"

definition fget :: "nat \<Rightarrow> nat \<Rightarrow> (nat \<Rightarrow> byte) \<Rightarrow> byte list" where
  "fget off n f = map f [off..<off + n]"

definition sbuf_read :: "buf_ref option \<Rightarrow> nat \<Rightarrow> nat \<Rightarrow> udbd \<Rightarrow> fault + byte list" where
  "sbuf_read p off n s =
     (case p of
        None \<Rightarrow> (if n = 0 then Inr [] else Inl NullDeref)
      | Some r \<Rightarrow> if off + n \<le> sbuf_size r then Inr (fget off n (sbuf r s)) else Inl OobRead)"

definition sbuf_write :: "buf_ref option \<Rightarrow> nat \<Rightarrow> byte list \<Rightarrow> udbd \<Rightarrow> fault + udbd" where
  "sbuf_write p off d s =
     (case p of
        None \<Rightarrow> (if d = [] then Inr s else Inl NullDeref)
      | Some r \<Rightarrow> if off + length d \<le> sbuf_size r
                  then Inr (sbuf_upd r (fput off d (sbuf r s)) s) else Inl OobWrite)"

text \<open>memset (p, 0, n).\<close>

definition sbuf_zero :: "buf_ref option \<Rightarrow> nat \<Rightarrow> udbd \<Rightarrow> fault + udbd" where
  "sbuf_zero p n s =
     (case p of
        None \<Rightarrow> (if n = 0 then Inr s else Inl NullDeref)
      | Some r \<Rightarrow> if n \<le> sbuf_size r
                  then Inr (sbuf_upd r (\<lambda>i. if i < n then 0 else sbuf r s i) s) else Inl OobWrite)"

text \<open>strlen at an offset of an array of size \<open>n\<close>: None if no NUL is found inside it.\<close>

fun nul_at :: "(nat \<Rightarrow> byte) \<Rightarrow> nat \<Rightarrow> nat \<Rightarrow> nat option" where
  "nul_at f i 0 = None"
| "nul_at f i (Suc k) = (if f i = 0 then Some 0 else map_option Suc (nul_at f (Suc i) k))"

definition sbuf_strlen :: "buf_ref option \<Rightarrow> nat \<Rightarrow> udbd \<Rightarrow> fault + nat" where
  "sbuf_strlen p off s =
     (case p of
        None \<Rightarrow> Inl NullDeref
      | Some r \<Rightarrow> (case nul_at (sbuf r s) off (sbuf_size r - off) of
                     None \<Rightarrow> Inl OobRead | Some n \<Rightarrow> Inr n))"

lemma length_fget [simp]: "length (fget off n f) = n"
  by (simp add: fget_def)

lemma fget_0 [simp]: "fget off 0 f = []"
  by (simp add: fget_def)

lemma fget_fput_same: "fget off (length d) (fput off d f) = d"
  by (rule nth_equalityI) (auto simp: fget_def fput_def)

lemma fget_fput_prefix: "n \<le> length d \<Longrightarrow> fget 0 n (fput 0 d f) = take n d"
  by (rule nth_equalityI) (auto simp: fget_def fput_def)

lemma fget_split: "m \<le> n \<Longrightarrow> fget off n f = fget off m f @ fget (off + m) (n - m) f"
  using upt_add_eq_append [of off "off + m" "n - m"] by (simp add: fget_def)

lemma take_fget: "take m (fget off n f) = fget off (min m n) f"
  by (simp add: fget_def take_map min_def)

lemma drop_fget: "drop m (fget off n f) = fget (off + m) (n - m) f"
  by (cases "m \<le> n") (auto simp: fget_def drop_map)

subsection \<open>The response buffer\<close>

definition put_rsp :: "nat \<Rightarrow> byte list \<Rightarrow> udbd \<Rightarrow> fault + udbd" where
  "put_rsp off d s = rbind (mwrite off d (rsp s)) (\<lambda>r. Inr (s\<lparr>rsp := r\<rparr>))"

definition clear_rsp :: "udbd \<Rightarrow> fault + udbd" where
  "clear_rsp s = rbind (mzero (prot_size s) (rsp s)) (\<lambda>r. Inr (s\<lparr>rsp := r\<rparr>))"

definition set_rsp_len :: "udbd \<Rightarrow> udbd" where
  "set_rsp_len s = s\<lparr>rsp_len := int (prot_size s)\<rparr>"

lemma put_rsp_Inr:
  "off + length d \<le> length (rsp s) \<Longrightarrow>
   put_rsp off d s = Inr (s\<lparr>rsp := take off (rsp s) @ d @ drop (off + length d) (rsp s)\<rparr>)"
  by (simp add: put_rsp_def mwrite_def)

lemma put_rsp_0:
  "length d \<le> length (rsp s) \<Longrightarrow> put_rsp 0 d s = Inr (s\<lparr>rsp := d @ drop (length d) (rsp s)\<rparr>)"
  by (simp add: put_rsp_Inr)

lemma clear_rsp_Inr:
  "prot_size s \<le> length (rsp s) \<Longrightarrow>
   clear_rsp s = Inr (s\<lparr>rsp := replicate (prot_size s) 0 @ drop (prot_size s) (rsp s)\<rparr>)"
  by (simp add: clear_rsp_def mzero_Inr)

subsection \<open>Pulling a chunk out of a static buffer\<close>

text \<open>
  The common body of udb_debug_runcmd_pullout and udb_debug_msh_pullout: a request beyond
  what was produced gets the cleared response; otherwise the chunk is copied and the offset
  advances, and when everything is out the control block is reset (True).
\<close>

definition pull_chunk :: "cctl \<Rightarrow> u32 \<Rightarrow> udbd \<Rightarrow> fault + udbd \<times> cctl \<times> bool" where
  "pull_chunk c cp_size s =
     (if used_size c < cp_offset c + cp_size then Inr (set_rsp_len s, c, False)
      else
        rbind (sbuf_read (pullout c) (unat (cp_offset c)) (unat cp_size) s) (\<lambda>d.
        rbind (put_rsp 0 d s) (\<lambda>s.
        if cp_offset c + cp_size = used_size c
        then Inr (set_rsp_len s, c\<lparr>used_size := 0, cp_offset := 0, total_size := 0\<rparr>, True)
        else Inr (set_rsp_len s, c\<lparr>cp_offset := cp_offset c + cp_size\<rparr>, False))))"

subsection \<open>printf\<close>

text \<open>
  In the daemon's files printf is a macro (rlog.h): it puts the message into the log and
  then prints it.  The macro calls the log twice, first with the empty tag.
\<close>

definition hook_printf :: "byte list \<Rightarrow> udbd \<Rightarrow> fault + udbd" where
  "hook_printf msg s =
     rbind (rlog_printf2buf [] (rlog s)) (\<lambda>(l1, _).
     rbind (rlog_printf2buf msg l1) (\<lambda>(l2, _). Inr (s\<lparr>rlog := l2\<rparr>)))"

lemma rlog_tmp_buf_Nil [simp]: "rlog_tmp_buf [] = []"
  by (simp add: rlog_tmp_buf_def)

lemma hook_printf_repr:
  assumes "log_repr h (rlog s)"
  shows "\<exists>l. hook_printf msg s = Inr (s\<lparr>rlog := l\<rparr>) \<and> log_repr (h @ rlog_tmp_buf msg) l"
proof -
  obtain l1 where 1: "rlog_printf2buf [] (rlog s) = Inr (l1, 0)" "log_repr h l1"
    using rlog_printf2buf_log_repr [OF assms, of "[]"] by auto
  obtain l2 where 2: "rlog_printf2buf msg l1 = Inr (l2, length (rlog_tmp_buf msg))"
      "log_repr (h @ rlog_tmp_buf msg) l2"
    using rlog_printf2buf_log_repr [OF 1(2), of msg] by auto
  show ?thesis using 1 2 by (intro exI [of _ l2]) (simp add: hook_printf_def)
qed

lemma hook_printf_ok:
  "rlog_ok (rlog s) \<Longrightarrow> \<exists>l. hook_printf msg s = Inr (s\<lparr>rlog := l\<rparr>) \<and> rlog_ok l"
  using hook_printf_repr [of _ s msg] by (auto simp: rlog_ok_def)

text \<open>Decimal (%d) and hexadecimal (%x) conversion.\<close>

fun dec_digits :: "nat \<Rightarrow> byte list" where
  "dec_digits n = (if n < 10 then [of_nat (48 + n)]
                   else dec_digits (n div 10) @ [of_nat (48 + n mod 10)])"

declare dec_digits.simps [simp del]

definition fmt_d :: "int \<Rightarrow> byte list" where
  "fmt_d i = (if i < 0 then 0x2D # dec_digits (nat (- i)) else dec_digits (nat i))"

definition hex_digit :: "nat \<Rightarrow> byte" where
  "hex_digit d = of_nat (if d < 10 then 48 + d else 87 + d)"

fun hex_digits :: "nat \<Rightarrow> byte list" where
  "hex_digits n = (if n < 16 then [hex_digit n]
                   else hex_digits (n div 16) @ [hex_digit (n mod 16)])"

declare hex_digits.simps [simp del]

end
