(* ===== verification/RunCmd.thy ===== *)
theory RunCmd
  imports UdbState
begin

text \<open>
  Running a command and pulling its output out, server/src/udb_debug.c:
  uvc_runcmd_input_handle (the built-in commands), udb_debug_runcmd and
  udb_debug_runcmd_pullout.
\<close>

subsection \<open>Built-in commands\<close>

text \<open>
  uvc_runcmd_input_handle, run on the string of the command: the new state and 1 (a
  built-in was run), -1 (it failed) or 0 (not a built-in).  The copy \<open>input\<close> has room for
  strlen bytes and the last one is overwritten: on the empty string the write is before
  the block.
\<close>

definition cd_target :: "byte list \<Rightarrow> byte list" where
  "cd_target arg = (if arg \<noteq> [] \<and> last arg = NEWLINE then butlast arg else arg)"

definition run_built_in :: "env \<Rightarrow> command \<Rightarrow> udbd \<Rightarrow> fault + udbd \<times> int" where
  "run_built_in E c s =
     (if c_name c = Some (ascii ''exit'')
      then rbind (hook_printf (ascii ''exit?'' @ [NEWLINE]) s) (\<lambda>s'. Inr (s', 1))
      else if c_argc c < 2 then Inr (s, -1)
      else case e_chdir E (cwd s) (cd_target (c_argv c ! 1)) of
             None \<Rightarrow> Inr (s, -1)
           | Some d \<Rightarrow> Inr (s\<lparr>cwd := d\<rparr>, 1))"

definition uvc_runcmd_input_handle :: "env \<Rightarrow> byte list \<Rightarrow> udbd \<Rightarrow> fault + udbd \<times> int" where
  "uvc_runcmd_input_handle E cmd s =
     (if cmd = [] then Inl OobWrite
      else let input = butlast cmd in
      if input \<noteq> [] \<and> \<not> is_blank input \<and> \<not> is_multi_cmd input \<and> hd input \<noteq> BAR
      then let cs = parse_commands_with_pipes input in
        rbind (read_all_slots cs) (\<lambda>_.
        if 1 < cmd_count cs then Inr (s, 0)
        else case cmds cs of
               Some c # _ \<Rightarrow>
                 rbind (check_built_in c) (\<lambda>b. if b then run_built_in E c s else Inr (s, 0))
             | _ \<Rightarrow> Inl NullDeref)
      else Inr (s, 0))"

subsection \<open>udb_debug_runcmd\<close>

text \<open>The child's output, what fread and pclose do with the stream uvc_popen gave.\<close>

definition run_child :: "env \<Rightarrow> byte list list \<Rightarrow> udbd \<Rightarrow> byte list \<times> udbd" where
  "run_child E argv s = (case e_exec E (files s) (cwd s) argv of (out, fs) \<Rightarrow> (out, s\<lparr>files := fs\<rparr>))"

definition do_popen ::
  "env \<Rightarrow> byte list \<Rightarrow> bool \<Rightarrow> udbd \<Rightarrow> fault + udbd \<times> (nat \<times> byte list list) option" where
  "do_popen E cmd force_timeout s =
     rbind (uvc_popen (e_popen E (popen_st s)) cmd (ascii ''r'') force_timeout (popen_st s))
       (\<lambda>(tab, r). Inr (s\<lparr>popen_st := tab\<rparr>, r))"

definition do_pclose :: "env \<Rightarrow> popen_sys \<Rightarrow> nat \<Rightarrow> udbd \<Rightarrow> fault + udbd" where
  "do_pclose E sys fd s =
     rbind (uvc_pclose sys (Some fd) (popen_st s)) (\<lambda>(tab, _). Inr (s\<lparr>popen_st := tab\<rparr>))"

text \<open>The label exec_finish.\<close>

definition exec_finish :: "u32 \<Rightarrow> udbd \<Rightarrow> fault + udbd" where
  "exec_finish nr s =
     rbind (put_rsp 0 (le32 nr) s) (\<lambda>s.
     let s = set_rsp_len s in
     Inr (s\<lparr>run_ctl := (run_ctl s)\<lparr>used_size := nr, cp_offset := 0\<rparr>\<rparr>))"

text \<open>A built-in was run: the reply is a newline.\<close>

definition runcmd_builtin_done :: "udbd \<Rightarrow> fault + udbd" where
  "runcmd_builtin_done s =
     rbind (hook_printf [NEWLINE] s) (\<lambda>s.
     rbind (sbuf_write (pullout (run_ctl s)) 0 [NEWLINE] s) (\<lambda>s.
     exec_finish 1 s))"

text \<open>popen gave NULL: log, clear the buffer, leave the response alone.\<close>

definition runcmd_popen_failed :: "env \<Rightarrow> byte list \<Rightarrow> udbd \<Rightarrow> fault + udbd" where
  "runcmd_popen_failed E cmd s =
     rbind (hook_printf (ascii ''popen error '' @ e_strerror E @ ascii '': cmd: '' @ cmd @ [NEWLINE]) s) (\<lambda>s.
     sbuf_zero (pullout (run_ctl s)) (unat (total_size (run_ctl s))) s)"

text \<open>popen gave a stream: read its output into the cleared buffer, up to one byte less.\<close>

definition runcmd_read :: "env \<Rightarrow> popen_sys \<Rightarrow> nat \<Rightarrow> byte list list \<Rightarrow> udbd \<Rightarrow> fault + udbd" where
  "runcmd_read E sys fd argv s =
     rbind (sbuf_zero (pullout (run_ctl s)) (unat (total_size (run_ctl s))) s) (\<lambda>s.
     case run_child E argv s of (out, s) \<Rightarrow>
     let data = take (unat (total_size (run_ctl s) - 1)) out in
     rbind (sbuf_write (pullout (run_ctl s)) 0 data s) (\<lambda>s.
     rbind (do_pclose E sys fd s) (\<lambda>s.
     exec_finish (of_nat (length data)) s)))"

definition runcmd_exec :: "env \<Rightarrow> byte list \<Rightarrow> udbd \<Rightarrow> fault + udbd" where
  "runcmd_exec E cmd s =
     (let sys = e_popen E (popen_st s) in
      rbind (do_popen E cmd True s) (\<lambda>(s, r).
      case r of
        None \<Rightarrow> runcmd_popen_failed E cmd s
      | Some (fd, argv) \<Rightarrow> runcmd_read E sys fd argv s))"

definition runcmd_setup :: "udbd \<Rightarrow> udbd" where
  "runcmd_setup s =
     s\<lparr>run_ctl := (run_ctl s)\<lparr>pullout := Some RuncmdBuf, total_size := of_nat UDB_BUF_SIZE\<rparr>\<rparr>"

definition udb_debug_runcmd :: "env \<Rightarrow> udbd \<Rightarrow> fault + udbd" where
  "udb_debug_runcmd E s =
     (let s = runcmd_setup s in
      rbind (cstr UDB_CMD_PKG_CONTENT_OFFSET (req s)) (\<lambda>cmd.
      rbind (uvc_runcmd_input_handle E cmd s) (\<lambda>(s, ret).
      if 0 < ret then runcmd_builtin_done s
      else
        rbind (if ret < 0 then hook_printf (ascii ''run build-in cmd Err, continue'' @ [NEWLINE]) s
               else Inr s) (\<lambda>s.
        runcmd_exec E cmd s))))"

subsection \<open>udb_debug_runcmd_pullout\<close>

definition udb_debug_runcmd_pullout :: "udbd \<Rightarrow> fault + udbd" where
  "udb_debug_runcmd_pullout s =
     rbind (mread UDB_CMD_PKG_CONTENT_OFFSET 4 (req s)) (\<lambda>cp_size.
     rbind (clear_rsp s) (\<lambda>s.
     rbind (pull_chunk (run_ctl s) (rd32 cp_size) s) (\<lambda>(s, c, finished).
     if finished then sbuf_zero (Some RuncmdBuf) UDB_BUF_SIZE (s\<lparr>run_ctl := c\<rparr>)
     else Inr (s\<lparr>run_ctl := c\<rparr>))))"

end
