(* ===== verification/RunWait.thy ===== *)
theory RunWait
  imports RunCmd
begin

text \<open>
  The commands that run while the client polls, server/src/udb_debug.c:
  udb_debug_runcmd_wait, its thread udb_debug_runcmd_wait_thread and
  udb_debug_runcmd_wait_pullout.  The thread shares the state with the handlers: it is a
  step function of its own (\<open>wait_thread_step\<close>), one step for its start, one for each line
  of output and one for the end of the output.  Steps of the thread and of the loop
  (whole handlers, the sending, the clearing of the buffers) interleave in any order; each
  is atomic.  The thread is started in the middle of its handler, but what the handler does
  behind pthread_create (the answer, the read offset) the thread's start does not touch.
\<close>

definition udb_debug_runcmd_wait :: "env \<Rightarrow> udbd \<Rightarrow> fault + udbd" where
  "udb_debug_runcmd_wait E s =
     (if single_instance (wait_ctl s) = 1
      then rbind (put_rsp 0 [0] s) (\<lambda>s.
           rbind (cstr UDB_CMD_PKG_CONTENT_OFFSET (req s)) (\<lambda>cmd.
           rbind (hook_printf (ascii ''runcmd: ['' @ cmd @ ascii ''] error'' @ [NEWLINE]) (set_rsp_len s)) (\<lambda>s.
           hook_printf (ascii ''runcmd: only support single instance'' @ [NEWLINE]) s)))
      else
        let w = (wait_ctl s)\<lparr>w_pullout := Some RuncmdBuf, w_total_size := of_nat UDB_BUF_SIZE,
                  single_instance := 1, tm_last_update := os_time_get_boot_ms E\<rparr> in
        rbind (put_rsp 0 [1] (s\<lparr>wait_ctl := w, wait_thr := Some WtCreated\<rparr>)) (\<lambda>s.
        Inr ((set_rsp_len s)\<lparr>wait_ctl := w\<lparr>w_cp_offset := 0\<rparr>\<rparr>)))"

text \<open>The label exit_handle: the thread is gone and another command may be started.\<close>

definition wait_exit :: "udbd \<Rightarrow> udbd" where
  "wait_exit s = s\<lparr>wait_ctl := (wait_ctl s)\<lparr>single_instance := 0\<rparr>, wait_thr := None\<rparr>"

text \<open>
  Start: the thread resets the counters and copies the command out of the request buffer
  as it is now.  The copy has UDB_PROT_SIZE bytes, zeroed first; a command that fills it
  leaves no NUL and popen reads past its end.
\<close>

definition wait_thread_start :: "env \<Rightarrow> udbd \<Rightarrow> fault + udbd" where
  "wait_thread_start E s =
     (let s = s\<lparr>wait_ctl := (wait_ctl s)\<lparr>w_used_size := 0, cmd_finish := 0\<rparr>\<rparr> in
      rbind (cstr UDB_CMD_PKG_CONTENT_OFFSET (req s)) (\<lambda>cmd.
      rbind (mwrite 0 cmd (replicate (prot_size s) 0)) (\<lambda>thread_cmd.
      rbind (cstr 0 thread_cmd) (\<lambda>cmd.
      rbind (do_popen E cmd False s) (\<lambda>(s, r).
      case r of
        None \<Rightarrow> rbind (hook_printf (ascii ''popen error: '' @ e_strerror E @ ascii ''/n'') s) (\<lambda>s.
                Inr (wait_exit s))
      | Some (fd, argv) \<Rightarrow>
          (case run_child E argv s of (out, s) \<Rightarrow>
           Inr (s\<lparr>wait_thr := Some (WtReading cmd fd out)\<rparr>)))))))"

text \<open>fgets with a buffer of \<open>n\<close> bytes: at most \<open>n - 1\<close> bytes, through the first newline.\<close>

fun fgets :: "nat \<Rightarrow> byte list \<Rightarrow> byte list \<times> byte list" where
  "fgets n [] = ([], [])"
| "fgets 0 (c # cs) = ([], c # cs)"
| "fgets (Suc n) (c # cs) =
     (if n = 0 then ([], c # cs)
      else if c = NEWLINE then ([c], cs)
      else (case fgets n cs of (l, r) \<Rightarrow> (c # l, r)))"

definition FGETS_SIZE :: nat where "FGETS_SIZE = 1024"

definition tm_diff :: "env \<Rightarrow> wctl \<Rightarrow> u32" where
  "tm_diff E w =
     (let tm_curr = os_time_get_boot_ms E in
      if tm_last_update w < tm_curr then tm_curr - tm_last_update w
      else tm_last_update w - tm_curr)"

text \<open>One turn of the fgets loop, or what follows the loop when the output has ended.\<close>

definition wait_thread_read ::
  "env \<Rightarrow> byte list \<Rightarrow> nat \<Rightarrow> byte list \<Rightarrow> udbd \<Rightarrow> fault + udbd" where
  "wait_thread_read E cmd fd out s =
     (let w = wait_ctl s; sys = e_popen E (popen_st s) in
      if out = [] then
        rbind (do_pclose E sys fd s) (\<lambda>s.
        Inr (wait_exit (s\<lparr>wait_ctl := (wait_ctl s)\<lparr>cmd_finish := 1\<rparr>\<rparr>)))
      else case fgets FGETS_SIZE out of (line, rest) \<Rightarrow>
        if 300 < tm_diff E w then
          rbind (hook_printf (ascii ''udb: ['' @ cmd @ ascii ''] timeout'' @ [NEWLINE]) s) (\<lambda>s.
          rbind (do_pclose E sys fd s) (\<lambda>s.
          rbind (hook_printf (ascii ''udb: ['' @ cmd @ ascii ''] close done'' @ [NEWLINE]) s) (\<lambda>s.
          Inr (wait_exit s))))
        else
          let str = takeWhile (\<lambda>c. c \<noteq> 0) line; len = length str + 1 in
          rbind (sbuf_write (w_pullout w) (unat (w_used_size w)) (str @ [0]) s) (\<lambda>s.
          Inr (s\<lparr>wait_ctl := w\<lparr>w_used_size := w_used_size w + of_nat len\<rparr>,
                 wait_thr := Some (WtReading cmd fd rest)\<rparr>)))"

definition wait_thread_step :: "env \<Rightarrow> udbd \<Rightarrow> fault + udbd" where
  "wait_thread_step E s =
     (case wait_thr s of
        None \<Rightarrow> Inr s
      | Some WtCreated \<Rightarrow> wait_thread_start E s
      | Some (WtReading cmd fd out) \<Rightarrow> wait_thread_read E cmd fd out s)"

subsection \<open>udb_debug_runcmd_wait_pullout\<close>

text \<open>The state byte and the size the handler settles on before it looks for the NUL.\<close>

definition wait_pull_size :: "nat \<Rightarrow> wctl \<Rightarrow> byte \<times> u32" where
  "wait_pull_size prot w =
     (let cp_size = of_nat prot - 1;
          left = w_used_size w - w_cp_offset w;
          beyond = (w_used_size w < w_cp_offset w + cp_size);
          fin = (if cmd_finish w = 1 \<and> beyond then 1 else 0);
          cp_size = (if beyond then left else cp_size)
      in (fin, if left \<le> cp_size then left else cp_size))"

text \<open>The copy behind the state byte: it ends with the first NUL.  The size copied.\<close>

definition wait_copy :: "wctl \<Rightarrow> u32 \<Rightarrow> udbd \<Rightarrow> fault + udbd \<times> u32" where
  "wait_copy w cp_size s =
     rbind (sbuf_strlen (w_pullout w) (unat (w_cp_offset w)) s) (\<lambda>n.
     let cp_size = (if n + 1 < unat cp_size then of_nat (n + 1) else cp_size) in
     if cp_size = 0 then Inr (s, cp_size)
     else rbind (sbuf_read (w_pullout w) (unat (w_cp_offset w)) (unat cp_size) s) (\<lambda>d.
          rbind (put_rsp 1 d s) (\<lambda>s. Inr (s, cp_size))))"

text \<open>The end of the output: counters and buffer are cleared.\<close>

definition wait_finish :: "udbd \<Rightarrow> fault + udbd" where
  "wait_finish s =
     (if pull_finish (wait_ctl s) = 1
      then sbuf_zero (Some RuncmdBuf) UDB_BUF_SIZE
             (s\<lparr>wait_ctl := (wait_ctl s)\<lparr>w_used_size := 0, w_cp_offset := 0, w_total_size := 0\<rparr>\<rparr>)
      else Inr s)"

definition udb_debug_runcmd_wait_pullout :: "env \<Rightarrow> udbd \<Rightarrow> fault + udbd" where
  "udb_debug_runcmd_wait_pullout E s =
     rbind (clear_rsp s) (\<lambda>s.
     let w = wait_ctl s in
     case wait_pull_size (prot_size s) w of (fin, cp_size) \<Rightarrow>
     rbind (put_rsp 0 [fin] s) (\<lambda>s.
     rbind (wait_copy w cp_size (set_rsp_len s)) (\<lambda>(s, cp_size).
     rbind (wait_finish (s\<lparr>wait_ctl := w\<lparr>pull_finish := fin,
                             w_cp_offset := w_cp_offset w + cp_size\<rparr>\<rparr>)) (\<lambda>s.
     Inr (s\<lparr>wait_ctl := (wait_ctl s)\<lparr>tm_last_update := os_time_get_boot_ms E\<rparr>\<rparr>)))))"

end
