(* ===== verification/FileXfer.thy ===== *)
theory FileXfer
  imports UdbState
begin

text \<open>
  Moving files, server/src/udb_debug.c: udb_debug_pullfile_init and
  udb_debug_pullfile_pullout (device to host), udb_debug_pushfile_init,
  udb_debug_pushfile_proc and udb_debug_pushfile_fini (host to device).

  A file read is a regular file; the block malloc gives is filled with its contents.  A
  stream opened for writing truncates its file; written bytes reach the file when stdio
  decides (\<open>e_spill\<close>), the rest at fclose.
\<close>

subsection \<open>Pull\<close>

text \<open>The branches of udb_debug_pullfile_init on fopen, before the reply is written.\<close>

definition pullfile_open :: "env \<Rightarrow> byte list \<Rightarrow> udbd \<Rightarrow> fault + udbd" where
  "pullfile_open E path s =
     (case files s (e_resolve E (cwd s) path) of
        None \<Rightarrow>
          rbind (hook_printf (ascii ''Error opening input file '' @ path @ [NEWLINE]) s) (\<lambda>s.
          Inr (s\<lparr>pull_ctl := \<lparr>p_pullout = None, p_used_size = 0, p_cp_offset = 0\<rparr>\<rparr>))
      | Some content \<Rightarrow>
          rbind (hook_printf (path @ ascii '' size is '' @
                   fmt_d (sint (of_nat (length content) :: u32)) @ [NEWLINE]) s) (\<lambda>s.
          if \<not> e_malloc E (length content) \<and> content \<noteq> [] then Inl NullDeref
          else Inr (s\<lparr>pull_ctl := \<lparr>p_pullout = Some content,
                        p_used_size = of_nat (length content), p_cp_offset = 0\<rparr>\<rparr>)))"

definition udb_debug_pullfile_init :: "env \<Rightarrow> udbd \<Rightarrow> fault + udbd" where
  "udb_debug_pullfile_init E s =
     rbind (cstr 4 (req s)) (\<lambda>path.
     rbind (pullfile_open E path s) (\<lambda>s.
     rbind (put_rsp 0 (le32 (p_used_size (pull_ctl s))) s) (\<lambda>s.
     Inr (set_rsp_len s))))"

text \<open>A read of the heap block through \<open>pullout\<close>.\<close>

definition heap_read :: "byte list option \<Rightarrow> nat \<Rightarrow> nat \<Rightarrow> fault + byte list" where
  "heap_read p off n =
     (case p of None \<Rightarrow> (if n = 0 then Inr [] else Inl NullDeref) | Some b \<Rightarrow> mread off n b)"

definition udb_debug_pullfile_pullout :: "udbd \<Rightarrow> fault + udbd" where
  "udb_debug_pullfile_pullout s =
     rbind (mread UDB_CMD_PKG_CONTENT_OFFSET 4 (req s)) (\<lambda>arg.
     let cp_size = rd32 arg in
     rbind (clear_rsp s) (\<lambda>s.
     let c = pull_ctl s in
     if p_used_size c < p_cp_offset c + cp_size then Inr (set_rsp_len s)
     else
       rbind (heap_read (p_pullout c) (unat (p_cp_offset c)) (unat cp_size)) (\<lambda>d.
       rbind (put_rsp 0 d s) (\<lambda>s.
       let s = set_rsp_len s in
       if p_cp_offset c + cp_size = p_used_size c
       then Inr (s\<lparr>pull_ctl := \<lparr>p_pullout = None, p_used_size = 0, p_cp_offset = 0\<rparr>\<rparr>)
       else Inr (s\<lparr>pull_ctl := c\<lparr>p_cp_offset := p_cp_offset c + cp_size\<rparr>\<rparr>)))))"

subsection \<open>Streams\<close>

definition file_append :: "byte list \<Rightarrow> byte list \<Rightarrow> udbd \<Rightarrow> udbd" where
  "file_append k d s =
     (case files s k of None \<Rightarrow> s | Some c \<Rightarrow> s\<lparr>files := (files s)(k \<mapsto> c @ d)\<rparr>)"

text \<open>fwrite (d, length d, 1, fp).\<close>

definition do_fwrite :: "env \<Rightarrow> byte list \<Rightarrow> udbd \<Rightarrow> fault + udbd" where
  "do_fwrite E d s =
     (case push_fp s of
        None \<Rightarrow> Inl NullDeref
      | Some w \<Rightarrow>
          let pend = ws_pending w @ d; n = e_spill E pend in
          Inr ((file_append (ws_file w) (take n pend) s)
                 \<lparr>push_fp := Some (w\<lparr>ws_pending := drop n pend\<rparr>)\<rparr>))"

definition do_fclose :: "udbd \<Rightarrow> fault + udbd" where
  "do_fclose s =
     (case push_fp s of
        None \<Rightarrow> Inl NullDeref
      | Some w \<Rightarrow> Inr ((file_append (ws_file w) (ws_pending w) s)\<lparr>push_fp := None\<rparr>))"

definition do_fopen_wb :: "env \<Rightarrow> byte list \<Rightarrow> udbd \<Rightarrow> udbd" where
  "do_fopen_wb E path s =
     (let k = e_resolve E (cwd s) path in
      if e_creat E k
      then s\<lparr>files := (files s)(k \<mapsto> []), push_fp := Some \<lparr>ws_file = k, ws_pending = []\<rparr>\<rparr>
      else s\<lparr>push_fp := None\<rparr>)"

subsection \<open>Push\<close>

definition udb_debug_pushfile_init :: "env \<Rightarrow> udbd \<Rightarrow> fault + udbd" where
  "udb_debug_pushfile_init E s =
     rbind (if push_fp s \<noteq> None then do_fclose s else Inr s) (\<lambda>s.
     rbind (cstr 8 (req s)) (\<lambda>path.
     let s = do_fopen_wb E path s in
     if push_fp s = None then
       rbind (hook_printf (ascii ''Error opening output file '' @ path @ [NEWLINE]) s) (\<lambda>s.
       rbind (put_rsp 0 (ascii ''INITNO'') s) (\<lambda>s. Inr (set_rsp_len s)))
     else
       rbind (mread UDB_CMD_PKG_CONTENT_OFFSET 4 (req s)) (\<lambda>arg.
       let file_len = rd32 arg in
       rbind (hook_printf (path @ ascii '' size is '' @ fmt_d (sint file_len) @ ascii '', 0x''
                @ hex_digits (unat file_len) @ [NEWLINE]) s) (\<lambda>s.
       rbind (put_rsp 0 (ascii ''INITOK'') s) (\<lambda>s. Inr (set_rsp_len s))))))"

definition udb_debug_pushfile_proc :: "env \<Rightarrow> udbd \<Rightarrow> fault + udbd" where
  "udb_debug_pushfile_proc E s =
     rbind
       (if prot_size s = UDB_PROT_SIZE_DEFAULT
        then rbind (mread UDB_CMD_PKG_CONTENT_OFFSET 1 (req s)) (\<lambda>wr.
             rbind (mread 5 (unat (hd wr)) (req s)) (\<lambda>d. do_fwrite E d s))
        else rbind (mread UDB_CMD_PKG_CONTENT_OFFSET 2 (req s)) (\<lambda>wr.
             rbind (mread 6 (unat (rd16 wr)) (req s)) (\<lambda>d. do_fwrite E d s)))
       (\<lambda>s.
     rbind (put_rsp 0 (ascii ''PROCOK'') s) (\<lambda>s. Inr (set_rsp_len s)))"

definition udb_debug_pushfile_fini :: "udbd \<Rightarrow> fault + udbd" where
  "udb_debug_pushfile_fini s =
     rbind (do_fclose s) (\<lambda>s.
     rbind (put_rsp 0 (ascii ''FINIOK'') s) (\<lambda>s. Inr (set_rsp_len s)))"

end
