(* ===== verification/MshCmd.thy ===== *)
theory MshCmd
  imports UdbState
begin

text \<open>
  The daemon's own shell, server/src/udb_debug.c: udb_debug_msh with its help and log
  commands, and udb_debug_msh_pullout.
\<close>

definition msh_help_msg :: "byte list" where
  "msh_help_msg = ascii ''not support msh cmd'' @ [NEWLINE] @ [NEWLINE]"

text \<open>What both commands do once the reply is in the buffer.\<close>

definition msh_reply :: "u32 \<Rightarrow> udbd \<Rightarrow> fault + udbd" where
  "msh_reply nr s =
     rbind (put_rsp 0 (le32 nr)
              (s\<lparr>msh_ctl := (msh_ctl s)\<lparr>used_size := nr, cp_offset := 0\<rparr>\<rparr>)) (\<lambda>s.
     Inr (set_rsp_len s))"

definition udb_debug_msh_cmd_help :: "udbd \<Rightarrow> fault + udbd" where
  "udb_debug_msh_cmd_help s =
     rbind (sbuf_write (pullout (msh_ctl s)) 0 msh_help_msg s) (\<lambda>s.
     msh_reply (of_nat (length msh_help_msg)) s)"

definition udb_debug_msh_cmd_log :: "udbd \<Rightarrow> fault + udbd" where
  "udb_debug_msh_cmd_log s =
     (let nr = rlog_size (rlog s) in
      rbind (rlog_dump (rlog s) nr 0) (\<lambda>d.
      rbind (case d of None \<Rightarrow> Inr s
             | Some bytes \<Rightarrow> sbuf_write (pullout (msh_ctl s)) 0 bytes s) (\<lambda>s.
      msh_reply (of_nat nr) s)))"

definition udb_debug_msh :: "udbd \<Rightarrow> fault + udbd" where
  "udb_debug_msh s =
     (let s = s\<lparr>msh_ctl := (msh_ctl s)\<lparr>pullout := Some MshcmdBuf,
                                       total_size := of_nat MSHCMD_BUF_SIZE\<rparr>\<rparr> in
      rbind (sbuf_zero (pullout (msh_ctl s)) (unat (total_size (msh_ctl s))) s) (\<lambda>s.
      rbind (mread UDB_CMD_PKG_CONTENT_OFFSET 1 (req s)) (\<lambda>c.
      rbind (if c = [0] then udb_debug_msh_cmd_help s
             else rbind (has_prefix (ascii ''log'') (drop UDB_CMD_PKG_CONTENT_OFFSET (req s))) (\<lambda>b.
                  if b then udb_debug_msh_cmd_log s else Inr s)) (\<lambda>s.
      Inr (set_rsp_len s))))) "

definition udb_debug_msh_pullout :: "udbd \<Rightarrow> fault + udbd" where
  "udb_debug_msh_pullout s =
     rbind (mread UDB_CMD_PKG_CONTENT_OFFSET 4 (req s)) (\<lambda>cp_size.
     rbind (clear_rsp s) (\<lambda>s.
     rbind (pull_chunk (msh_ctl s) (rd32 cp_size) s) (\<lambda>(s, c, finished).
     if finished then sbuf_zero (Some MshcmdBuf) MSHCMD_BUF_SIZE (s\<lparr>msh_ctl := c\<rparr>)
     else Inr (s\<lparr>msh_ctl := c\<rparr>))))"

end
