(* ===== verification/Bridge.thy ===== *)
theory Bridge
  imports RunWait FileXfer MshCmd
begin

text \<open>
  The dispatcher udb_debug_bridge with the authentication handler udb_debug_auth
  (server/src/udb_debug.c), and the UDP loop that calls it (server/src/net_debugd.c,
  net_debugd_entry_thread).  One turn of the loop is \<open>net_debugd_step\<close>; the daemon is the
  step relation \<open>udbd_step\<close>, in which the steps of such a turn (receive, handle, send, clear)
  interleave with the steps of the thread of a waiting command.
\<close>

definition AUTH_KEY :: "byte list" where
  "AUTH_KEY = ascii ''0303060303070701''"

text \<open>strncmp (buf + 4, key, 16) == 0, a NUL ending both strings early.\<close>

definition udb_debug_auth :: "udbd \<Rightarrow> fault + udbd" where
  "udb_debug_auth s =
     rbind (has_prefix AUTH_KEY (drop 4 (req s))) (\<lambda>b.
     if b then rbind (put_rsp 0 (ascii ''AUTHOK'') (s\<lparr>udb_auth_ok := True\<rparr>)) (\<lambda>s. Inr (set_rsp_len s))
     else rbind (put_rsp 0 (ascii ''AUTHNO'') s) (\<lambda>s. Inr (set_rsp_len s)))"

datatype udb_layer = UDB_LAYER_DEF | UDB_LAYER_UVC_HS | UDB_LAYER_CDC_HS | UDB_LAYER_NET | UDB_LAYER_OTHER

fun layer_prot_size :: "udb_layer \<Rightarrow> nat" where
  "layer_prot_size UDB_LAYER_DEF = UDB_PROT_SIZE_DEFAULT"
| "layer_prot_size UDB_LAYER_UVC_HS = UDB_PROT_SIZE_USB2_CTRL"
| "layer_prot_size UDB_LAYER_CDC_HS = UDB_PROT_SIZE_USB2_BULK"
| "layer_prot_size UDB_LAYER_NET = UDB_PROT_SIZE_NET_UDP"
| "layer_prot_size UDB_LAYER_OTHER = UDB_PROT_SIZE_DEFAULT"

definition udb_dispatch :: "env \<Rightarrow> byte \<Rightarrow> udbd \<Rightarrow> fault + udbd" where
  "udb_dispatch E chan_id s =
     (if chan_id = chan_code UDB_RUN_CMD then udb_debug_runcmd E s
      else if chan_id = chan_code UDB_RUN_CMD_PULLOUT then udb_debug_runcmd_pullout s
      else if chan_id = chan_code UDB_RUN_CMD_WAIT then udb_debug_runcmd_wait E s
      else if chan_id = chan_code UDB_RUN_CMD_WAIT_PULLOUT then udb_debug_runcmd_wait_pullout E s
      else if chan_id = chan_code UDB_PULL_FILE_INIT then udb_debug_pullfile_init E s
      else if chan_id = chan_code UDB_PULL_FILE_PULLOUT then udb_debug_pullfile_pullout s
      else if chan_id = chan_code UDB_PUSH_FILE_INIT then udb_debug_pushfile_init E s
      else if chan_id = chan_code UDB_PUSH_FILE_PROC then udb_debug_pushfile_proc E s
      else if chan_id = chan_code UDB_PUSH_FILE_FINI then udb_debug_pushfile_fini s
      else if chan_id = chan_code UDB_MSH_CMD then udb_debug_msh s
      else if chan_id = chan_code UDB_MSH_CMD_PULLOUT then udb_debug_msh_pullout s
      else rbind (clear_rsp s) (\<lambda>s. hook_printf (ascii ''unknow cmd'' @ [NEWLINE]) (set_rsp_len s)))"

definition udb_debug_bridge :: "env \<Rightarrow> udb_layer \<Rightarrow> udbd \<Rightarrow> fault + udbd" where
  "udb_debug_bridge E layer s =
     (let s = s\<lparr>prot_size := layer_prot_size layer\<rparr> in
      rbind (mread UDB_CMD_CHANNEL_ID_OFFSET 1 (req s)) (\<lambda>c.
      let chan_id = hd c in
      if chan_id = chan_code UDB_AUTH then udb_debug_auth s
      else if \<not> udb_auth_ok s then Inr s
      else udb_dispatch E chan_id s))"

subsection \<open>The UDP loop\<close>

definition MAX_MSG_LENGTH :: nat where "MAX_MSG_LENGTH = 1470"

text \<open>What recvfrom gives: an error or a datagram, cut to the buffer.\<close>

datatype recv_result = RecvErr | RecvMsg "byte list"

definition net_clear :: "udbd \<Rightarrow> udbd" where
  "net_clear s = s\<lparr>req := replicate MAX_MSG_LENGTH 0, rsp := replicate MAX_MSG_LENGTH 0\<rparr>"

text \<open>recvfrom into the request buffer: the bytes of the datagram, the old ones behind.\<close>

definition net_store :: "byte list \<Rightarrow> udbd \<Rightarrow> udbd" where
  "net_store d s = s\<lparr>req := d @ drop (length d) (req s)\<rparr>"

definition net_handle :: "env \<Rightarrow> udbd \<Rightarrow> fault + udbd" where
  "net_handle E s =
     (if take 3 (req s) = ascii ''udb'' then udb_debug_bridge E UDB_LAYER_NET s
      else rbind (hook_printf (ascii ''net debugd unknow cmd'' @ [NEWLINE]) s) (\<lambda>s.
           rbind (put_rsp 0 (ascii ''unknow cmd'') (s\<lparr>rsp_len := int (length (ascii ''unknow cmd''))\<rparr>)) (\<lambda>s.
           Inr s)))"

text \<open>One turn: the new state and the datagram sent back, None where nothing is sent.\<close>

definition net_debugd_step :: "env \<Rightarrow> recv_result \<Rightarrow> udbd \<Rightarrow> fault + udbd \<times> byte list option" where
  "net_debugd_step E r s =
     (case r of
        RecvErr \<Rightarrow> Inr (net_clear s, None)
      | RecvMsg msg \<Rightarrow>
          let d = take MAX_MSG_LENGTH msg; readc = length d; s = net_store d s in
          if 1 < readc \<and> readc < 64 then Inr (net_clear s, None)
          else rbind (net_handle E s) (\<lambda>s.
               rbind (mread 0 (nat (rsp_len s)) (rsp s)) (\<lambda>reply.
               Inr ((net_clear s)\<lparr>rsp_len := 0\<rparr>, Some reply))))"

subsection \<open>The daemon\<close>

text \<open>
  Start of the daemon (main.c and the head of the thread): the log is initialised, main
  prints its banner, the globals are zero; the two buffers hold whatever the stack held.
\<close>

definition udbd_start :: "byte list \<Rightarrow> byte list \<Rightarrow> (byte list \<Rightarrow> byte list option) \<Rightarrow> byte list \<Rightarrow> udbd" where
  "udbd_start stack_buf stack_result fs dir =
     \<lparr>req = stack_buf, rsp = stack_result, rsp_len = 0, prot_size = UDB_PROT_SIZE_DEFAULT,
      udb_auth_ok = False, run_ctl = cctl_zero, wait_ctl = wctl_zero, pull_ctl = pctl_zero,
      push_fp = None, msh_ctl = cctl_zero, runcmd_buf = (\<lambda>_. 0), mshcmd_buf = (\<lambda>_. 0),
      popen_st = popen_tab_zero, wait_thr = None,
      rlog = rlog_init (replicate (RLOG_MAX_LOG_BUF_SIZE + 1) 0) rbuf_zero,
      files = fs, cwd = dir\<rparr>"

definition main_prologue :: "byte list \<Rightarrow> udbd \<Rightarrow> fault + udbd" where
  "main_prologue build_time s =
     rbind (hook_printf (ascii ''HI, Build time: '' @ build_time @ [NEWLINE]) s) (\<lambda>s.
     hook_printf (ascii ''Net Debugd init'' @ [NEWLINE]) s)"

text \<open>
  The daemon runs two threads.  Where the loop stands in its turn is its phase: it waits for
  a datagram, has one in its buffer and is about to handle it, has an answer to send, or is
  about to clear the buffers (with the length of the answer when one was sent, or sending
  it failed: the loop goes the same way).  The thread of a waiting command takes its steps in
  any phase, so it may copy its command out of the request buffer before the loop clears that
  buffer or after.
\<close>

datatype net_phase = NetIdle | NetHandling | NetSending | NetClearing bool

inductive udbd_step :: "net_phase \<times> udbd \<Rightarrow> net_phase \<times> udbd \<Rightarrow> bool" where
  recv_error: "udbd_step (NetIdle, s) (NetClearing False, s)"
| recv_short: "d = take MAX_MSG_LENGTH msg \<Longrightarrow> 1 < length d \<and> length d < 64 \<Longrightarrow>
    udbd_step (NetIdle, s) (NetClearing False, net_store d s)"
| recv_datagram: "d = take MAX_MSG_LENGTH msg \<Longrightarrow> \<not> (1 < length d \<and> length d < 64) \<Longrightarrow>
    udbd_step (NetIdle, s) (NetHandling, net_store d s)"
| handle: "net_handle E s = Inr s' \<Longrightarrow> udbd_step (NetHandling, s) (NetSending, s')"
| send: "mread 0 (nat (rsp_len s)) (rsp s) = Inr reply \<Longrightarrow> udbd_step (NetSending, s) (NetClearing True, s)"
| clear_dropped: "udbd_step (NetClearing False, s) (NetIdle, net_clear s)"
| clear_sent: "udbd_step (NetClearing True, s) (NetIdle, (net_clear s)\<lparr>rsp_len := 0\<rparr>)"
| thread_turn: "wait_thread_step E s = Inr s' \<Longrightarrow> udbd_step (p, s) (p, s')"

inductive udbd_reachable :: "net_phase \<times> udbd \<Rightarrow> bool" where
  boot: "length b = MAX_MSG_LENGTH \<Longrightarrow> length r = MAX_MSG_LENGTH \<Longrightarrow>
         main_prologue bt (udbd_start b r fs dir) = Inr s \<Longrightarrow> udbd_reachable (NetIdle, s)"
| run: "udbd_reachable c \<Longrightarrow> udbd_step c c' \<Longrightarrow> udbd_reachable c'"

inductive_cases udbd_stepE: "udbd_step c c'"

lemma udbd_reachable_path: "udbd_step\<^sup>*\<^sup>* c c' \<Longrightarrow> udbd_reachable c \<Longrightarrow> udbd_reachable c'"
  by (induction rule: rtranclp_induct) (auto intro: udbd_reachable.run)

text \<open>A turn of the loop is a path of the daemon in which the thread takes no step.\<close>

lemma net_turn_path:
  assumes "net_debugd_step E r s = Inr (s', reply)"
  shows "udbd_step\<^sup>*\<^sup>* (NetIdle, s) (NetIdle, s')"
proof (cases r)
  case RecvErr
  with assms have "s' = net_clear s" by (simp add: net_debugd_step_def)
  then show ?thesis
    by (simp add: converse_rtranclp_into_rtranclp [OF recv_error r_into_rtranclp [of udbd_step, OF clear_dropped]])
next
  case (RecvMsg msg)
  define d where "d = take MAX_MSG_LENGTH msg"
  show ?thesis
  proof (cases "1 < length d \<and> length d < 64")
    case True
    with assms RecvMsg have "s' = net_clear (net_store d s)"
      by (simp add: net_debugd_step_def Let_def d_def)
    with recv_short [OF d_def True, of s] show ?thesis
      by (metis clear_dropped converse_rtranclp_into_rtranclp r_into_rtranclp)
  next
    case False
    with assms RecvMsg obtain s1 where h: "net_handle E (net_store d s) = Inr s1"
      and r: "mread 0 (nat (rsp_len s1)) (rsp s1) \<noteq> Inl OobRead" "s' = (net_clear s1)\<lparr>rsp_len := 0\<rparr>"
      by (auto simp: net_debugd_step_def Let_def d_def [symmetric] rbind_eq_Inr)
    then obtain data where m: "mread 0 (nat (rsp_len s1)) (rsp s1) = Inr data"
      by (auto simp: mread_def split: if_splits)
    have "udbd_step\<^sup>*\<^sup>* (NetIdle, s) (NetClearing True, s1)"
      by (rule rtranclp.rtrancl_into_rtrancl, rule rtranclp.rtrancl_into_rtrancl, rule r_into_rtranclp,
          rule recv_datagram [OF d_def False], rule udbd_step.handle [OF h], rule send [OF m])
    then show ?thesis
      unfolding r(2) by (rule rtranclp.rtrancl_into_rtrancl) (rule clear_sent)
  qed
qed

end
