(* ===== verification/UdbInv.thy ===== *)
theory UdbInv
  imports Bridge
begin

text \<open>
  The invariant of the daemon (\<open>udbd_inv\<close>) and its preservation by every handler, by the
  dispatcher, by a turn of the UDP loop and by the thread of a waiting command.
\<close>

subsection \<open>The invariant\<close>

text \<open>
  A control block over a static array: what is left to pull is inside what was produced,
  what was produced is inside the array.
\<close>

definition cctl_ok :: "buf_ref \<Rightarrow> cctl \<Rightarrow> bool" where
  "cctl_ok r c \<longleftrightarrow>
     (pullout c = Some r \<or> pullout c = None \<and> used_size c = 0) \<and>
     cp_offset c \<le> used_size c \<and> unat (used_size c) \<le> sbuf_size r"

definition pctl_ok :: "pctl \<Rightarrow> bool" where
  "pctl_ok p \<longleftrightarrow>
     p_cp_offset p \<le> p_used_size p \<and>
     (case p_pullout p of None \<Rightarrow> p_used_size p = 0 | Some b \<Rightarrow> unat (p_used_size p) \<le> length b)"

definition wctl_ok :: "wctl \<Rightarrow> bool" where
  "wctl_ok w \<longleftrightarrow>
     (w_pullout w = Some RuncmdBuf \<or> w_pullout w = None) \<and>
     unat (w_used_size w) \<le> UDB_BUF_SIZE \<and> unat (w_cp_offset w) \<le> UDB_BUF_SIZE"

text \<open>A running thread implies that a command was started and its instance flag is set.\<close>

definition wthr_ok :: "udbd \<Rightarrow> bool" where
  "wthr_ok s \<longleftrightarrow>
     (wait_thr s \<noteq> None \<longleftrightarrow> single_instance (wait_ctl s) = 1) \<and>
     (wait_thr s \<noteq> None \<longrightarrow> w_pullout (wait_ctl s) = Some RuncmdBuf)"

definition udbd_inv :: "udbd \<Rightarrow> bool" where
  "udbd_inv s \<longleftrightarrow>
     length (req s) = MAX_MSG_LENGTH \<and> length (rsp s) = MAX_MSG_LENGTH \<and>
     prot_size s \<le> MAX_MSG_LENGTH \<and> 0 \<le> rsp_len s \<and> rsp_len s \<le> int MAX_MSG_LENGTH \<and>
     rlog_ok (rlog s) \<and>
     cctl_ok RuncmdBuf (run_ctl s) \<and> cctl_ok MshcmdBuf (msh_ctl s) \<and>
     pctl_ok (pull_ctl s) \<and> wctl_ok (wait_ctl s) \<and> wthr_ok s \<and>
     runcmd_buf s (UDB_BUF_SIZE - 1) = 0"

lemma udbd_invD:
  assumes "udbd_inv s"
  shows "length (req s) = 1470" "length (rsp s) = 1470" "prot_size s \<le> 1470" "rlog_ok (rlog s)"
    "cctl_ok RuncmdBuf (run_ctl s)" "cctl_ok MshcmdBuf (msh_ctl s)" "pctl_ok (pull_ctl s)"
    "wctl_ok (wait_ctl s)" "wthr_ok s" "runcmd_buf s 655359 = 0" "0 \<le> rsp_len s" "rsp_len s \<le> 1470"
  using assms by (simp_all add: udbd_inv_def MAX_MSG_LENGTH_def UDB_BUF_SIZE_eq)

subsection \<open>What the primitives change\<close>

named_theorems step_dest

lemma hook_printf_dest:
  "hook_printf msg s = Inr s' \<Longrightarrow> rlog_ok (rlog s) \<Longrightarrow> \<exists>l. s' = s\<lparr>rlog := l\<rparr> \<and> rlog_ok l"
  using hook_printf_ok [of s msg] by auto

lemma put_rsp_dest:
  "put_rsp off d s = Inr s' \<Longrightarrow> \<exists>r. s' = s\<lparr>rsp := r\<rparr> \<and> length r = length (rsp s)"
  by (auto simp: put_rsp_def rbind_eq_Inr dest: mwrite_length)

lemma clear_rsp_dest:
  "clear_rsp s = Inr s' \<Longrightarrow> \<exists>r. s' = s\<lparr>rsp := r\<rparr> \<and> length r = length (rsp s)"
  by (auto simp: clear_rsp_def mzero_def rbind_eq_Inr dest: mwrite_length)

lemma udbd_inv_rlog [step_dest]: "hook_printf msg s = Inr s' \<Longrightarrow> udbd_inv s \<Longrightarrow> udbd_inv s'"
  by (drule hook_printf_dest) (auto simp: udbd_inv_def wthr_ok_def)

lemma udbd_inv_put_rsp [step_dest]: "put_rsp off d s = Inr s' \<Longrightarrow> udbd_inv s \<Longrightarrow> udbd_inv s'"
  by (drule put_rsp_dest) (auto simp: udbd_inv_def wthr_ok_def)

lemma udbd_inv_clear_rsp [step_dest]: "clear_rsp s = Inr s' \<Longrightarrow> udbd_inv s \<Longrightarrow> udbd_inv s'"
  by (drule clear_rsp_dest) (auto simp: udbd_inv_def wthr_ok_def)

lemma udbd_inv_set_rsp_len [simp, intro]: "udbd_inv s \<Longrightarrow> udbd_inv (set_rsp_len s)"
  by (simp add: set_rsp_len_def udbd_inv_def wthr_ok_def)

lemma udbd_inv_frame [simp]:
  "udbd_inv (s\<lparr>popen_st := t\<rparr>) = udbd_inv s"
  "udbd_inv (s\<lparr>files := f\<rparr>) = udbd_inv s"
  "udbd_inv (s\<lparr>cwd := d\<rparr>) = udbd_inv s"
  "udbd_inv (s\<lparr>push_fp := p\<rparr>) = udbd_inv s"
  "udbd_inv (s\<lparr>udb_auth_ok := a\<rparr>) = udbd_inv s"
  by (simp_all add: udbd_inv_def wthr_ok_def)

lemma udbd_inv_rsp_len [simp]:
  "udbd_inv s \<Longrightarrow> 0 \<le> n \<Longrightarrow> n \<le> 1470 \<Longrightarrow> udbd_inv (s\<lparr>rsp_len := n\<rparr>)"
  by (simp add: udbd_inv_def wthr_ok_def MAX_MSG_LENGTH_def)

lemma udbd_inv_mshcmd_buf [simp]: "udbd_inv (s\<lparr>mshcmd_buf := f\<rparr>) = udbd_inv s"
  by (simp add: udbd_inv_def wthr_ok_def)

lemma udbd_inv_run_ctl:
  "udbd_inv s \<Longrightarrow> cctl_ok RuncmdBuf c \<Longrightarrow> udbd_inv (s\<lparr>run_ctl := c\<rparr>)"
  by (simp add: udbd_inv_def wthr_ok_def)

lemma udbd_inv_msh_ctl:
  "udbd_inv s \<Longrightarrow> cctl_ok MshcmdBuf c \<Longrightarrow> udbd_inv (s\<lparr>msh_ctl := c\<rparr>)"
  by (simp add: udbd_inv_def wthr_ok_def)

lemma udbd_inv_pull_ctl: "udbd_inv s \<Longrightarrow> pctl_ok c \<Longrightarrow> udbd_inv (s\<lparr>pull_ctl := c\<rparr>)"
  by (simp add: udbd_inv_def wthr_ok_def)

lemma udbd_inv_runcmd_buf:
  "udbd_inv s \<Longrightarrow> f (UDB_BUF_SIZE - 1) = 0 \<Longrightarrow> udbd_inv (s\<lparr>runcmd_buf := f\<rparr>)"
  by (simp add: udbd_inv_def wthr_ok_def)

lemma sbuf_simps [simp]:
  "sbuf_size RuncmdBuf = UDB_BUF_SIZE" "sbuf_size MshcmdBuf = MSHCMD_BUF_SIZE"
  "sbuf RuncmdBuf s = runcmd_buf s" "sbuf MshcmdBuf s = mshcmd_buf s"
  "sbuf_upd RuncmdBuf f s = s\<lparr>runcmd_buf := f\<rparr>" "sbuf_upd MshcmdBuf f s = s\<lparr>mshcmd_buf := f\<rparr>"
  by (simp_all add: sbuf_size_def sbuf_def sbuf_upd_def)

lemma sbuf_zero_run_dest [step_dest]:
  "sbuf_zero (Some RuncmdBuf) n s = Inr s' \<Longrightarrow> udbd_inv s \<Longrightarrow> udbd_inv s'"
  by (auto simp: sbuf_zero_def udbd_invD UDB_BUF_SIZE_eq split: if_splits
      intro!: udbd_inv_runcmd_buf)

lemma sbuf_zero_msh_dest [step_dest]:
  "sbuf_zero (Some MshcmdBuf) n s = Inr s' \<Longrightarrow> udbd_inv s \<Longrightarrow> udbd_inv s'"
  by (auto simp: sbuf_zero_def split: if_splits)

text \<open>A write into the command buffer that ends before its last byte, or with a NUL there.\<close>

lemma sbuf_write_run_dest:
  assumes "sbuf_write (Some RuncmdBuf) off d s = Inr s'" and "udbd_inv s"
    and "off + length d < UDB_BUF_SIZE \<or> d \<noteq> [] \<and> last d = 0"
  shows "udbd_inv s'"
proof -
  have s': "s' = s\<lparr>runcmd_buf := fput off d (runcmd_buf s)\<rparr>" and le: "off + length d \<le> UDB_BUF_SIZE"
    using assms(1) by (auto simp: sbuf_write_def split: if_splits)
  have "fput off d (runcmd_buf s) (UDB_BUF_SIZE - 1) = 0"
  proof (cases "off + length d < UDB_BUF_SIZE")
    case True
    then show ?thesis using udbd_invD(10) [OF assms(2)] by (auto simp: fput_def UDB_BUF_SIZE_eq)
  next
    case False
    with assms(3) le have d: "d \<noteq> []" "last d = 0" "off + length d = UDB_BUF_SIZE" by auto
    then have "0 < length d" by simp
    with d have "off \<le> UDB_BUF_SIZE - 1 \<and> UDB_BUF_SIZE - 1 - off = length d - 1" by linarith
    then show ?thesis using d by (auto simp: fput_def last_conv_nth UDB_BUF_SIZE_eq)
  qed
  then show ?thesis unfolding s' by (rule udbd_inv_runcmd_buf [OF assms(2)])
qed

lemma sbuf_write_msh_dest [step_dest]:
  "sbuf_write (Some MshcmdBuf) off d s = Inr s' \<Longrightarrow> udbd_inv s \<Longrightarrow> udbd_inv s'"
  by (auto simp: sbuf_write_def split: if_splits)

lemma do_popen_dest: "do_popen E cmd ft s = Inr (s', r) \<Longrightarrow> \<exists>t. s' = s\<lparr>popen_st := t\<rparr>"
  by (auto simp: do_popen_def rbind_eq_Inr)

lemma do_pclose_dest: "do_pclose E sys fd s = Inr s' \<Longrightarrow> \<exists>t. s' = s\<lparr>popen_st := t\<rparr>"
  by (auto simp: do_pclose_def rbind_eq_Inr)

lemma udbd_inv_popen [step_dest]: "do_popen E cmd ft s = Inr (s', r) \<Longrightarrow> udbd_inv s \<Longrightarrow> udbd_inv s'"
  by (drule do_popen_dest) auto

lemma udbd_inv_pclose [step_dest]: "do_pclose E sys fd s = Inr s' \<Longrightarrow> udbd_inv s \<Longrightarrow> udbd_inv s'"
  by (drule do_pclose_dest) auto

lemma udbd_inv_run_child [step_dest]: "run_child E argv s = (out, s') \<Longrightarrow> udbd_inv s \<Longrightarrow> udbd_inv s'"
  by (auto simp: run_child_def split: prod.splits)

subsection \<open>The handlers\<close>

lemma run_built_in_inv [step_dest]:
  "run_built_in E c s = Inr (s', v) \<Longrightarrow> udbd_inv s \<Longrightarrow> udbd_inv s'"
  by (auto simp: run_built_in_def rbind_eq_Inr dest: step_dest split: if_splits option.splits)

lemma input_handle_inv [step_dest]:
  "uvc_runcmd_input_handle E cmd s = Inr (s', v) \<Longrightarrow> udbd_inv s \<Longrightarrow> udbd_inv s'"
  by (auto simp: uvc_runcmd_input_handle_def rbind_eq_Inr Let_def dest: step_dest
      split: if_splits list.splits option.splits)

lemma run_ctl_frames:
  "hook_printf msg s = Inr s' \<Longrightarrow> run_ctl s' = run_ctl s"
  "put_rsp off d s = Inr s' \<Longrightarrow> run_ctl s' = run_ctl s"
  "do_popen E cmd ft s = Inr (s', r) \<Longrightarrow> run_ctl s' = run_ctl s"
  "do_pclose E sys fd s = Inr s' \<Longrightarrow> run_ctl s' = run_ctl s"
  "run_child E argv s = (out, s') \<Longrightarrow> run_ctl s' = run_ctl s"
  "sbuf_zero (Some b) n s = Inr s' \<Longrightarrow> run_ctl s' = run_ctl s"
  "sbuf_write (Some b) off d s = Inr s' \<Longrightarrow> run_ctl s' = run_ctl s"
  "run_ctl (set_rsp_len s) = run_ctl s"
  by (auto simp: hook_printf_def put_rsp_def do_popen_def do_pclose_def run_child_def sbuf_zero_def
      sbuf_write_def sbuf_upd_def set_rsp_len_def rbind_eq_Inr split: prod.splits if_splits buf_ref.splits)

lemma run_built_in_run_ctl: "run_built_in E c s = Inr (s', v) \<Longrightarrow> run_ctl s' = run_ctl s"
  by (auto simp: run_built_in_def rbind_eq_Inr run_ctl_frames split: if_splits option.splits)

lemma input_handle_run_ctl:
  "uvc_runcmd_input_handle E cmd s = Inr (s', v) \<Longrightarrow> run_ctl s' = run_ctl s"
  by (auto simp: uvc_runcmd_input_handle_def rbind_eq_Inr Let_def run_built_in_run_ctl
      split: if_splits list.splits option.splits)


text \<open>The state between the set-up of udb_debug_runcmd and its end.\<close>

definition run_ready :: "udbd \<Rightarrow> bool" where
  "run_ready s \<longleftrightarrow> udbd_inv s \<and> pullout (run_ctl s) = Some RuncmdBuf \<and> total_size (run_ctl s) = 655360"

named_theorems ready_dest

lemma run_ready_step [ready_dest]:
  "hook_printf msg s = Inr s' \<Longrightarrow> run_ready s \<Longrightarrow> run_ready s'"
  "do_popen E cmd ft s = Inr (s', r) \<Longrightarrow> run_ready s \<Longrightarrow> run_ready s'"
  "do_pclose E sys fd s = Inr s' \<Longrightarrow> run_ready s \<Longrightarrow> run_ready s'"
  "run_child E argv s = (out, s') \<Longrightarrow> run_ready s \<Longrightarrow> run_ready s'"
  "sbuf_zero (Some RuncmdBuf) n s = Inr s' \<Longrightarrow> run_ready s \<Longrightarrow> run_ready s'"
  "uvc_runcmd_input_handle E cmd s = Inr (s', v) \<Longrightarrow> run_ready s \<Longrightarrow> run_ready s'"
  by (auto simp: run_ready_def run_ctl_frames input_handle_run_ctl dest: step_dest)

lemma run_ready_write [ready_dest]:
  "sbuf_write (Some RuncmdBuf) off d s = Inr s' \<Longrightarrow> off + length d < 655360 \<Longrightarrow> run_ready s \<Longrightarrow>
   run_ready s'"
  by (auto simp: run_ready_def run_ctl_frames UDB_BUF_SIZE_eq dest: sbuf_write_run_dest)

lemma run_ready_setup: "udbd_inv s \<Longrightarrow> run_ready (runcmd_setup s)"
  using udbd_invD(5) [of s]
  by (auto simp: run_ready_def runcmd_setup_def cctl_ok_def UDB_BUF_SIZE_eq
      intro!: udbd_inv_run_ctl)

lemma exec_finish_inv:
  assumes "exec_finish nr s = Inr s'" and "run_ready s" and "unat nr \<le> UDB_BUF_SIZE"
  shows "udbd_inv s'"
proof -
  from assms(1) obtain s1 where p: "put_rsp 0 (le32 nr) s = Inr s1"
    and s': "s' = (set_rsp_len s1)\<lparr>run_ctl := (run_ctl s1)\<lparr>used_size := nr, cp_offset := 0\<rparr>\<rparr>"
    by (auto simp: exec_finish_def rbind_eq_Inr run_ctl_frames)
  from p assms(2) have "udbd_inv s1" "pullout (run_ctl s1) = Some RuncmdBuf"
    by (auto simp: run_ready_def run_ctl_frames(2) dest: udbd_inv_put_rsp)
  then show ?thesis
    unfolding s' using assms(3) by (intro udbd_inv_run_ctl) (auto simp: cctl_ok_def)
qed

lemma runcmd_builtin_done_inv:
  assumes "runcmd_builtin_done s = Inr s'" and "run_ready s"
  shows "udbd_inv s'"
proof -
  from assms(1) obtain s1 s2 where a: "hook_printf [NEWLINE] s = Inr s1"
      "sbuf_write (pullout (run_ctl s1)) 0 [NEWLINE] s1 = Inr s2" "exec_finish 1 s2 = Inr s'"
    unfolding runcmd_builtin_done_def rbind_eq_Inr by blast
  have r1: "run_ready s1" using run_ready_step(1) [OF a(1) assms(2)] .
  with a(2) have "run_ready s2"
    using run_ready_write [of 0 "[NEWLINE]" s1 s2] by (simp add: run_ready_def)
  from exec_finish_inv [OF a(3) this] show ?thesis by (simp add: UDB_BUF_SIZE_eq)
qed

lemma run_ready_inv: "run_ready s \<Longrightarrow> udbd_inv s"
  by (simp add: run_ready_def)

lemma run_ready_ctl: "run_ready s \<Longrightarrow> pullout (run_ctl s) = Some RuncmdBuf \<and> total_size (run_ctl s) = 655360"
  by (simp add: run_ready_def)

lemma runcmd_popen_failed_inv:
  assumes "runcmd_popen_failed E cmd s = Inr s'" and "run_ready s"
  shows "udbd_inv s'"
proof -
  from assms(1) obtain s1 where
      h: "hook_printf (ascii ''popen error '' @ e_strerror E @ ascii '': cmd: '' @ cmd @ [NEWLINE]) s = Inr s1"
    and z: "sbuf_zero (pullout (run_ctl s1)) (unat (total_size (run_ctl s1))) s1 = Inr s'"
    by (auto simp only: runcmd_popen_failed_def rbind_eq_Inr)
  have r1: "run_ready s1" using run_ready_step(1) [OF h assms(2)] .
  with z have "sbuf_zero (Some RuncmdBuf) 655360 s1 = Inr s'" by (simp add: run_ready_def)
  then show ?thesis by (rule sbuf_zero_run_dest [OF _ run_ready_inv [OF r1]])
qed

lemma runcmd_read_inv:
  assumes a: "runcmd_read E sys fd argv s = Inr s'" and r: "run_ready s"
  shows "udbd_inv s'"
proof -
  from a obtain s1 where z: "sbuf_zero (Some RuncmdBuf) 655360 s = Inr s1"
    and k: "(case run_child E argv s1 of (out, s) \<Rightarrow>
     let data = take (unat (total_size (run_ctl s) - 1)) out in
     rbind (sbuf_write (pullout (run_ctl s)) 0 data s) (\<lambda>s.
     rbind (do_pclose E sys fd s) (\<lambda>s.
     exec_finish (of_nat (length data)) s))) = Inr s'"
    using run_ready_ctl [OF r] by (auto simp: runcmd_read_def rbind_eq_Inr)
  obtain out s2 where c: "run_child E argv s1 = (out, s2)" by (cases "run_child E argv s1")
  have r2: "run_ready s2" using run_ready_step(4) [OF c run_ready_step(5) [OF z r]] .
  from k c run_ready_ctl [OF r2] obtain s3 s4 where
      w: "sbuf_write (Some RuncmdBuf) 0 (take 655359 out) s2 = Inr s3"
    and p: "do_pclose E sys fd s3 = Inr s4"
    and e: "exec_finish (of_nat (length (take 655359 out))) s4 = Inr s'"
    by (auto simp: rbind_eq_Inr Let_def simp del: length_take)
  have "run_ready s4"
    by (rule run_ready_step(3) [OF p run_ready_write [OF w _ r2]]) simp
  from exec_finish_inv [OF e this] show ?thesis
    by (auto simp: unat_of_nat UDB_BUF_SIZE_eq min_def)
qed

lemma udb_debug_runcmd_inv [step_dest]:
  assumes r: "udb_debug_runcmd E s = Inr s'" and i: "udbd_inv s"
  shows "udbd_inv s'"
proof -
  note r0 = run_ready_setup [OF i]
  from r obtain cmd s1 ret where
      h: "uvc_runcmd_input_handle E cmd (runcmd_setup s) = Inr (s1, ret)"
    and k: "if 0 < ret then runcmd_builtin_done s1 = Inr s'
       else rbind (if ret < 0 then hook_printf (ascii ''run build-in cmd Err, continue'' @ [NEWLINE]) s1
               else Inr s1) (runcmd_exec E cmd) = Inr s'"
    unfolding udb_debug_runcmd_def Let_def by (auto simp: rbind_eq_Inr split: if_splits)
  have r1: "run_ready s1" using run_ready_step(6) [OF h r0] .
  show ?thesis
  proof (cases "0 < ret")
    case True
    with k r1 show ?thesis by (auto intro: runcmd_builtin_done_inv)
  next
    case False
    with k obtain s2 where s2: "run_ready s2" "runcmd_exec E cmd s2 = Inr s'"
      using r1 by (auto simp: rbind_eq_Inr split: if_splits dest: run_ready_step(1))
    then show ?thesis
      by (auto simp: runcmd_exec_def Let_def rbind_eq_Inr split: option.splits
          dest: run_ready_step(2) runcmd_popen_failed_inv runcmd_read_inv)
  qed
qed

lemma cctl_ok_advance:
  "cctl_ok r c \<Longrightarrow> \<not> used_size c < cp_offset c + n \<Longrightarrow> cctl_ok r (c\<lparr>cp_offset := cp_offset c + n\<rparr>)"
  by (auto simp: cctl_ok_def)

lemma cctl_ok_reset: "cctl_ok r c \<Longrightarrow> cctl_ok r (c\<lparr>used_size := 0, cp_offset := 0, total_size := 0\<rparr>)"
  by (auto simp: cctl_ok_def)

lemma clear_rsp_frames:
  "clear_rsp s = Inr s' \<Longrightarrow> run_ctl s' = run_ctl s \<and> msh_ctl s' = msh_ctl s \<and> pull_ctl s' = pull_ctl s \<and>
     wait_ctl s' = wait_ctl s \<and> wait_thr s' = wait_thr s \<and> prot_size s' = prot_size s \<and>
     runcmd_buf s' = runcmd_buf s \<and> mshcmd_buf s' = mshcmd_buf s"
  by (auto simp: clear_rsp_def rbind_eq_Inr)

lemma pull_chunk_inv:
  assumes "pull_chunk c n s = Inr (s', c', fin)" and "udbd_inv s" and "cctl_ok r c"
  shows "udbd_inv s' \<and> cctl_ok r c'"
  using assms cctl_ok_reset [OF assms(3)] cctl_ok_advance [OF assms(3), of n]
  by (auto simp: pull_chunk_def rbind_eq_Inr split: if_splits dest: udbd_inv_put_rsp)

lemma udb_debug_runcmd_pullout_inv [step_dest]:
  assumes a: "udb_debug_runcmd_pullout s = Inr s'" and i: "udbd_inv s"
  shows "udbd_inv s'"
proof -
  from a obtain n s1 s2 c fin where s1: "clear_rsp s = Inr s1"
    and p: "pull_chunk (run_ctl s1) n s1 = Inr (s2, c, fin)"
    and k: "(if fin then sbuf_zero (Some RuncmdBuf) UDB_BUF_SIZE (s2\<lparr>run_ctl := c\<rparr>)
             else Inr (s2\<lparr>run_ctl := c\<rparr>)) = Inr s'"
    by (auto simp: udb_debug_runcmd_pullout_def rbind_eq_Inr)
  have i1: "udbd_inv s1" using udbd_inv_clear_rsp [OF s1 i] .
  from pull_chunk_inv [OF p i1 udbd_invD(5) [OF i1]] k show ?thesis
    by (auto split: if_splits dest: udbd_inv_run_ctl sbuf_zero_run_dest)
qed

lemma udb_debug_msh_pullout_inv [step_dest]:
  assumes a: "udb_debug_msh_pullout s = Inr s'" and i: "udbd_inv s"
  shows "udbd_inv s'"
proof -
  from a obtain n s1 s2 c fin where s1: "clear_rsp s = Inr s1"
    and p: "pull_chunk (msh_ctl s1) n s1 = Inr (s2, c, fin)"
    and k: "(if fin then sbuf_zero (Some MshcmdBuf) MSHCMD_BUF_SIZE (s2\<lparr>msh_ctl := c\<rparr>)
             else Inr (s2\<lparr>msh_ctl := c\<rparr>)) = Inr s'"
    by (auto simp: udb_debug_msh_pullout_def rbind_eq_Inr)
  have i1: "udbd_inv s1" using udbd_inv_clear_rsp [OF s1 i] .
  from pull_chunk_inv [OF p i1 udbd_invD(6) [OF i1]] k show ?thesis
    by (auto split: if_splits dest: udbd_inv_msh_ctl sbuf_zero_msh_dest)
qed

text \<open>File transfer.\<close>

lemma udbd_inv_file_append [simp]: "udbd_inv (file_append k d s) = udbd_inv s"
  by (simp add: file_append_def split: option.split)

lemma udbd_inv_fwrite [step_dest]: "do_fwrite E d s = Inr s' \<Longrightarrow> udbd_inv s \<Longrightarrow> udbd_inv s'"
  by (auto simp: do_fwrite_def Let_def split: option.splits)

lemma udbd_inv_fclose [step_dest]: "do_fclose s = Inr s' \<Longrightarrow> udbd_inv s \<Longrightarrow> udbd_inv s'"
  by (auto simp: do_fclose_def split: option.splits)

lemma udbd_inv_fopen_wb [simp]: "udbd_inv (do_fopen_wb E path s) = udbd_inv s"
  using udbd_inv_frame by (simp add: do_fopen_wb_def Let_def udbd_inv_def wthr_ok_def)

lemma pull_file_ok:
  "pctl_ok \<lparr>p_pullout = None, p_used_size = 0, p_cp_offset = 0\<rparr>"
  "pctl_ok \<lparr>p_pullout = Some b, p_used_size = of_nat (length b), p_cp_offset = 0\<rparr>"
  "pctl_ok \<lparr>p_pullout = Some b, p_used_size = 0, p_cp_offset = 0\<rparr>"
  by (auto simp: pctl_ok_def unat_of_nat)


lemma pullfile_open_inv:
  "pullfile_open E path s = Inr s' \<Longrightarrow> udbd_inv s \<Longrightarrow> udbd_inv s'"
  by (auto simp: pullfile_open_def rbind_eq_Inr pull_file_ok split: option.splits if_splits
      dest!: udbd_inv_rlog intro!: udbd_inv_pull_ctl)

lemma udb_debug_pullfile_init_inv [step_dest]:
  "udb_debug_pullfile_init E s = Inr s' \<Longrightarrow> udbd_inv s \<Longrightarrow> udbd_inv s'"
  by (auto simp: udb_debug_pullfile_init_def rbind_eq_Inr dest!: pullfile_open_inv udbd_inv_put_rsp)

lemma udb_debug_pullfile_pullout_inv [step_dest]:
  assumes a: "udb_debug_pullfile_pullout s = Inr s'" and i: "udbd_inv s"
  shows "udbd_inv s'"
proof -
  from a obtain n s1 where s1: "clear_rsp s = Inr s1"
    and k: "(if p_used_size (pull_ctl s1) < p_cp_offset (pull_ctl s1) + n then Inr (set_rsp_len s1)
     else
       rbind (heap_read (p_pullout (pull_ctl s1)) (unat (p_cp_offset (pull_ctl s1))) (unat n)) (\<lambda>d.
       rbind (put_rsp 0 d s1) (\<lambda>s.
       let s = set_rsp_len s in
       if p_cp_offset (pull_ctl s1) + n = p_used_size (pull_ctl s1)
       then Inr (s\<lparr>pull_ctl := \<lparr>p_pullout = None, p_used_size = 0, p_cp_offset = 0\<rparr>\<rparr>)
       else Inr (s\<lparr>pull_ctl := (pull_ctl s1)\<lparr>p_cp_offset := p_cp_offset (pull_ctl s1) + n\<rparr>\<rparr>)))) = Inr s'"
    unfolding udb_debug_pullfile_pullout_def Let_def rbind_eq_Inr by blast
  have i1: "udbd_inv s1" using udbd_inv_clear_rsp [OF s1 i] .
  show ?thesis
  proof (cases "p_used_size (pull_ctl s1) < p_cp_offset (pull_ctl s1) + n")
    case True
    with k i1 show ?thesis by auto
  next
    case False
    with k obtain d s2 where s2: "put_rsp 0 d s1 = Inr s2"
      and k2: "s' = (set_rsp_len s2)\<lparr>pull_ctl := \<lparr>p_pullout = None, p_used_size = 0, p_cp_offset = 0\<rparr>\<rparr> \<or>
        s' = (set_rsp_len s2)\<lparr>pull_ctl := (pull_ctl s1)\<lparr>p_cp_offset := p_cp_offset (pull_ctl s1) + n\<rparr>\<rparr>"
      by (auto simp: rbind_eq_Inr Let_def split: if_splits)
    have "pctl_ok ((pull_ctl s1)\<lparr>p_cp_offset := p_cp_offset (pull_ctl s1) + n\<rparr>)"
      using udbd_invD(7) [OF i1] False by (auto simp: pctl_ok_def word_gt_0 split: option.splits)
    moreover have i2: "udbd_inv (set_rsp_len s2)" using udbd_inv_put_rsp [OF s2 i1] by simp
    ultimately show ?thesis
      using k2 udbd_inv_pull_ctl [OF i2 pull_file_ok(1)] by (auto intro: udbd_inv_pull_ctl)
  qed
qed

lemma udb_debug_pushfile_init_inv [step_dest]:
  assumes "udb_debug_pushfile_init E s = Inr s'" and i: "udbd_inv s"
  shows "udbd_inv s'"
proof -
  from assms(1) obtain s1 path where s1: "(if push_fp s \<noteq> None then do_fclose s else Inr s) = Inr s1"
    and k: "(let s = do_fopen_wb E path s1 in
     if push_fp s = None then
       rbind (hook_printf (ascii ''Error opening output file '' @ path @ [NEWLINE]) s) (\<lambda>s.
       rbind (put_rsp 0 (ascii ''INITNO'') s) (\<lambda>s. Inr (set_rsp_len s)))
     else
       rbind (mread UDB_CMD_PKG_CONTENT_OFFSET 4 (req s)) (\<lambda>arg.
       let file_len = rd32 arg in
       rbind (hook_printf (path @ ascii '' size is '' @ fmt_d (sint file_len) @ ascii '', 0x''
                @ hex_digits (unat file_len) @ [NEWLINE]) s) (\<lambda>s.
       rbind (put_rsp 0 (ascii ''INITOK'') s) (\<lambda>s. Inr (set_rsp_len s))))) = Inr s'"
    unfolding udb_debug_pushfile_init_def rbind_eq_Inr by blast
  have "udbd_inv s1" using s1 i by (auto split: if_splits dest: udbd_inv_fclose)
  then have "udbd_inv (do_fopen_wb E path s1)" by simp
  with k show ?thesis
    by (auto simp: rbind_eq_Inr Let_def split: if_splits dest!: udbd_inv_rlog udbd_inv_put_rsp)
qed

lemma udb_debug_pushfile_proc_inv [step_dest]:
  "udb_debug_pushfile_proc E s = Inr s' \<Longrightarrow> udbd_inv s \<Longrightarrow> udbd_inv s'"
  by (auto simp: udb_debug_pushfile_proc_def rbind_eq_Inr split: if_splits
      dest!: udbd_inv_fwrite udbd_inv_put_rsp)

lemma udb_debug_pushfile_fini_inv [step_dest]:
  "udb_debug_pushfile_fini s = Inr s' \<Longrightarrow> udbd_inv s \<Longrightarrow> udbd_inv s'"
  by (auto simp: udb_debug_pushfile_fini_def rbind_eq_Inr dest!: udbd_inv_fclose udbd_inv_put_rsp)

text \<open>The daemon's own shell.\<close>

lemma msh_ctl_frames:
  "sbuf_zero (Some b) n s = Inr s' \<Longrightarrow> msh_ctl s' = msh_ctl s"
  "sbuf_write (Some b) off d s = Inr s' \<Longrightarrow> msh_ctl s' = msh_ctl s"
  by (auto simp: sbuf_zero_def sbuf_write_def sbuf_upd_def split: if_splits buf_ref.splits)

lemma msh_reply_inv:
  assumes "msh_reply nr s = Inr s'" and "udbd_inv s" and "pullout (msh_ctl s) = Some MshcmdBuf"
    and "unat nr \<le> MSHCMD_BUF_SIZE"
  shows "udbd_inv s'"
proof -
  have "udbd_inv (s\<lparr>msh_ctl := (msh_ctl s)\<lparr>used_size := nr, cp_offset := 0\<rparr>\<rparr>)"
    using assms by (intro udbd_inv_msh_ctl) (auto simp: cctl_ok_def)
  with assms(1) show ?thesis
    by (auto simp: msh_reply_def rbind_eq_Inr dest!: udbd_inv_put_rsp)
qed

lemma udbd_inv_rlog_size: "udbd_inv s \<Longrightarrow> rlog_size (rlog s) \<le> 512"
  using udbd_invD(4) [of s] by (auto simp: rlog_ok_def rlog_size_log_repr)

lemma udb_debug_msh_inv [step_dest]:
  assumes a: "udb_debug_msh s = Inr s'" and i: "udbd_inv s"
  shows "udbd_inv s'"
proof -
  define s0 where "s0 = s\<lparr>msh_ctl := (msh_ctl s)\<lparr>pullout := Some MshcmdBuf, total_size := of_nat MSHCMD_BUF_SIZE\<rparr>\<rparr>"
  have i0: "udbd_inv s0" and p0: "pullout (msh_ctl s0) = Some MshcmdBuf"
    unfolding s0_def using udbd_invD(6) [OF i] i
    by (auto intro!: udbd_inv_msh_ctl simp: cctl_ok_def)
  from a obtain s1 s2 where z: "sbuf_zero (pullout (msh_ctl s0)) (unat (total_size (msh_ctl s0))) s0 = Inr s1"
    and k: "udb_debug_msh_cmd_help s1 = Inr s2 \<or> udb_debug_msh_cmd_log s1 = Inr s2 \<or> s1 = s2"
    and s': "s' = set_rsp_len s2"
    unfolding udb_debug_msh_def Let_def s0_def [symmetric]
    by (auto simp: rbind_eq_Inr split: if_splits)
  have z': "sbuf_zero (Some MshcmdBuf) (unat (total_size (msh_ctl s0))) s0 = Inr s1" using z p0 by simp
  have i1: "udbd_inv s1" and p1: "pullout (msh_ctl s1) = Some MshcmdBuf"
    using sbuf_zero_msh_dest [OF z' i0] msh_ctl_frames(1) [OF z'] p0 by auto
  have w: "udbd_inv s2" if "sbuf_write (pullout (msh_ctl s1)) 0 d s1 = Inr b"
      "msh_reply (of_nat n) b = Inr s2" "n \<le> 512" for d b n
  proof -
    have wr: "sbuf_write (Some MshcmdBuf) 0 d s1 = Inr b" using that(1) p1 by simp
    show ?thesis
      using msh_reply_inv [OF that(2) sbuf_write_msh_dest [OF wr i1]] msh_ctl_frames(2) [OF wr] p1 that(3)
      by (auto simp: unat_of_nat MSHCMD_BUF_SIZE_def)
  qed
  have h1: "udbd_inv s2" if "udb_debug_msh_cmd_help s1 = Inr s2"
    using that w [where n = "length msh_help_msg"]
    by (auto simp only: udb_debug_msh_cmd_help_def rbind_eq_Inr) (simp add: msh_help_msg_def ascii_def)
  have h2: "udbd_inv s2" if "udb_debug_msh_cmd_log s1 = Inr s2"
    using that w msh_reply_inv [OF _ i1 p1] udbd_inv_rlog_size [OF i1]
    by (auto simp: udb_debug_msh_cmd_log_def Let_def rbind_eq_Inr unat_of_nat MSHCMD_BUF_SIZE_def
        split: option.splits)
  show ?thesis using k i1 h1 h2 by (auto simp: s')
qed

lemma udb_debug_auth_inv [step_dest]: "udb_debug_auth s = Inr s' \<Longrightarrow> udbd_inv s \<Longrightarrow> udbd_inv s'"
  by (auto simp: udb_debug_auth_def rbind_eq_Inr split: if_splits dest!: udbd_inv_put_rsp)


subsection \<open>The waiting command\<close>

lemma udbd_inv_wait_ctl:
  "udbd_inv s \<Longrightarrow> wctl_ok w \<Longrightarrow> single_instance w = single_instance (wait_ctl s) \<Longrightarrow>
   w_pullout w = w_pullout (wait_ctl s) \<Longrightarrow> udbd_inv (s\<lparr>wait_ctl := w\<rparr>)"
  by (simp add: udbd_inv_def wthr_ok_def)

lemma wait_frames:
  "hook_printf msg s = Inr s' \<Longrightarrow> wait_ctl s' = wait_ctl s \<and> wait_thr s' = wait_thr s"
  "put_rsp off d s = Inr s' \<Longrightarrow> wait_ctl s' = wait_ctl s \<and> wait_thr s' = wait_thr s"
  "do_popen E cmd ft s = Inr (s', r) \<Longrightarrow> wait_ctl s' = wait_ctl s \<and> wait_thr s' = wait_thr s"
  "do_pclose E sys fd s = Inr s' \<Longrightarrow> wait_ctl s' = wait_ctl s \<and> wait_thr s' = wait_thr s"
  "run_child E argv s = (out, s') \<Longrightarrow> wait_ctl s' = wait_ctl s \<and> wait_thr s' = wait_thr s"
  "sbuf_zero (Some b) n s = Inr s' \<Longrightarrow> wait_ctl s' = wait_ctl s \<and> wait_thr s' = wait_thr s"
  "sbuf_write (Some b) off d s = Inr s' \<Longrightarrow> wait_ctl s' = wait_ctl s \<and> wait_thr s' = wait_thr s"
  "wait_ctl (set_rsp_len s) = wait_ctl s" "wait_thr (set_rsp_len s) = wait_thr s"
  by (auto simp: hook_printf_def put_rsp_def do_popen_def do_pclose_def run_child_def sbuf_zero_def
      sbuf_write_def sbuf_upd_def set_rsp_len_def rbind_eq_Inr split: prod.splits if_splits buf_ref.splits)

lemma udb_debug_runcmd_wait_inv [step_dest]:
  assumes a: "udb_debug_runcmd_wait E s = Inr s'" and i: "udbd_inv s"
  shows "udbd_inv s'"
proof (cases "single_instance (wait_ctl s) = 1")
  case True
  with a i show ?thesis
    by (auto simp: udb_debug_runcmd_wait_def rbind_eq_Inr dest!: udbd_inv_put_rsp udbd_inv_rlog)
next
  case False
  define w where "w = (wait_ctl s)\<lparr>w_pullout := Some RuncmdBuf, w_total_size := of_nat UDB_BUF_SIZE,
                  single_instance := 1, tm_last_update := os_time_get_boot_ms E\<rparr>"
  have i0: "udbd_inv (s\<lparr>wait_ctl := w, wait_thr := Some WtCreated\<rparr>)"
    using i udbd_invD(8) [OF i] by (auto simp: udbd_inv_def wthr_ok_def wctl_ok_def w_def)
  from a False obtain s1 where p: "put_rsp 0 [1] (s\<lparr>wait_ctl := w, wait_thr := Some WtCreated\<rparr>) = Inr s1"
    and s': "s' = (set_rsp_len s1)\<lparr>wait_ctl := w\<lparr>w_cp_offset := 0\<rparr>\<rparr>"
    by (auto simp: udb_debug_runcmd_wait_def rbind_eq_Inr w_def Let_def)
  have "udbd_inv (set_rsp_len s1)" using udbd_inv_put_rsp [OF p i0] by simp
  moreover have "wctl_ok (w\<lparr>w_cp_offset := 0\<rparr>)"
    using udbd_invD(8) [OF i] by (auto simp: wctl_ok_def w_def)
  ultimately show ?thesis
    unfolding s' using wait_frames(2) [OF p] by (intro udbd_inv_wait_ctl) (auto simp: wait_frames)
qed

lemma nul_at_bound: "nul_at f i k = Some n \<Longrightarrow> n < k \<and> f (i + n) = 0"
  by (induction f i k arbitrary: n rule: nul_at.induct) (auto split: if_splits)

lemma nul_at_Some: "f (i + n) = 0 \<Longrightarrow> n < k \<Longrightarrow> \<exists>m \<le> n. nul_at f i k = Some m"
proof (induction k arbitrary: i n)
  case 0
  then show ?case by simp
next
  case (Suc k)
  show ?case
  proof (cases "f i = 0")
    case True
    then show ?thesis by simp
  next
    case False
    with Suc.prems obtain n' where n: "n = Suc n'" by (cases n) auto
    with Suc.IH [of "Suc i" n'] Suc.prems obtain m where "m \<le> n'" "nul_at f (Suc i) k = Some m" by auto
    with False n show ?thesis by (intro exI [of _ "Suc m"]) auto
  qed
qed

text \<open>The chunk the handler copies ends before the end of the buffer: it stops at a NUL.\<close>

lemma wait_copy_inv:
  assumes c: "wait_copy w k s = Inr (s', m)" and i: "udbd_inv s" and w: "wctl_ok w"
  shows "udbd_inv s' \<and> wait_ctl s' = wait_ctl s \<and>
         wctl_ok (w\<lparr>pull_finish := fin, w_cp_offset := w_cp_offset w + m\<rparr>)"
proof -
  from c obtain n where n: "sbuf_strlen (w_pullout w) (unat (w_cp_offset w)) s = Inr n"
    by (auto simp: wait_copy_def rbind_eq_Inr)
  with c have m: "m = (if n + 1 < unat k then of_nat (n + 1) else k)"
    and s': "s' = s \<or> (\<exists>d. put_rsp 1 d s = Inr s')"
    by (auto simp: wait_copy_def rbind_eq_Inr Let_def split: if_split_asm)
  from w n have "w_pullout w = Some RuncmdBuf"
    by (auto simp: wctl_ok_def sbuf_strlen_def)
  with n have "nul_at (runcmd_buf s) (unat (w_cp_offset w)) (UDB_BUF_SIZE - unat (w_cp_offset w)) = Some n"
    by (auto simp: sbuf_strlen_def split: option.splits)
  from nul_at_bound [OF this] have "n < 655360 - unat (w_cp_offset w)"
    by (simp add: UDB_BUF_SIZE_eq)
  then have b: "unat (w_cp_offset w) + (n + 1) \<le> 655360" by linarith
  then have "unat m \<le> n + 1"
    unfolding m by (simp only: unat_of_nat split: if_split) simp
  with b have "unat (w_cp_offset w) + unat m \<le> 655360" by simp
  then have "unat (w_cp_offset w + m) \<le> UDB_BUF_SIZE"
    by (simp add: unat_word_ariths UDB_BUF_SIZE_eq)
  with w i s' show ?thesis
    by (auto simp: wctl_ok_def dest: udbd_inv_put_rsp wait_frames(2))
qed

lemma wait_finish_inv: "wait_finish s = Inr s' \<Longrightarrow> udbd_inv s \<Longrightarrow> udbd_inv s'"
  using udbd_invD(8) [of s]
  by (auto simp: wait_finish_def wctl_ok_def split: if_splits
      intro!: sbuf_zero_run_dest [of _ _ s'] udbd_inv_wait_ctl)

lemma udb_debug_runcmd_wait_pullout_inv [step_dest]:
  assumes a: "udb_debug_runcmd_wait_pullout E s = Inr s'" and i: "udbd_inv s"
  shows "udbd_inv s'"
proof -
  from a obtain s1 where s1: "clear_rsp s = Inr s1"
    and k: "(let w = wait_ctl s1 in
     case wait_pull_size (prot_size s1) w of (fin, cp_size) \<Rightarrow>
     rbind (put_rsp 0 [fin] s1) (\<lambda>s.
     rbind (wait_copy w cp_size (set_rsp_len s)) (\<lambda>(s, cp_size).
     rbind (wait_finish (s\<lparr>wait_ctl := w\<lparr>pull_finish := fin,
                             w_cp_offset := w_cp_offset w + cp_size\<rparr>\<rparr>)) (\<lambda>s.
     Inr (s\<lparr>wait_ctl := (wait_ctl s)\<lparr>tm_last_update := os_time_get_boot_ms E\<rparr>\<rparr>))))) = Inr s'"
    unfolding udb_debug_runcmd_wait_pullout_def rbind_eq_Inr by blast
  obtain fin k where f: "wait_pull_size (prot_size s1) (wait_ctl s1) = (fin, k)"
    by (cases "wait_pull_size (prot_size s1) (wait_ctl s1)")
  with k obtain s2 s3 m s4 where s2: "put_rsp 0 [fin] s1 = Inr s2"
    and c: "wait_copy (wait_ctl s1) k (set_rsp_len s2) = Inr (s3, m)"
    and s4: "wait_finish (s3\<lparr>wait_ctl := (wait_ctl s1)\<lparr>pull_finish := fin,
                             w_cp_offset := w_cp_offset (wait_ctl s1) + m\<rparr>\<rparr>) = Inr s4"
    and s': "s' = s4\<lparr>wait_ctl := (wait_ctl s4)\<lparr>tm_last_update := os_time_get_boot_ms E\<rparr>\<rparr>"
    by (auto simp: rbind_eq_Inr Let_def)
  have i1: "udbd_inv s1" using udbd_inv_clear_rsp [OF s1 i] .
  have i2: "udbd_inv (set_rsp_len s2)" using udbd_inv_put_rsp [OF s2 i1] by simp
  have w2: "wait_ctl (set_rsp_len s2) = wait_ctl s1" using wait_frames(2) [OF s2] by (simp add: wait_frames)
  note c' = wait_copy_inv [OF c i2 udbd_invD(8) [OF i1], of fin]
  have "udbd_inv (s3\<lparr>wait_ctl := (wait_ctl s1)\<lparr>pull_finish := fin,
                             w_cp_offset := w_cp_offset (wait_ctl s1) + m\<rparr>\<rparr>)"
    using c' w2 by (intro udbd_inv_wait_ctl) auto
  from wait_finish_inv [OF s4 this] have i4: "udbd_inv s4" .
  show ?thesis
    unfolding s' using i4 udbd_invD(8) [OF i4] by (intro udbd_inv_wait_ctl) (auto simp: wctl_ok_def)
qed

text \<open>The thread.\<close>

lemma udbd_inv_wait_exit: "udbd_inv s \<Longrightarrow> udbd_inv (wait_exit s)"
  by (auto simp: udbd_inv_def wthr_ok_def wctl_ok_def wait_exit_def)

lemma udbd_inv_wait_thr:
  "udbd_inv s \<Longrightarrow> wait_thr s \<noteq> None \<Longrightarrow> udbd_inv (s\<lparr>wait_thr := Some t\<rparr>)"
  by (auto simp: udbd_inv_def wthr_ok_def)

lemma wait_thread_start_inv:
  assumes a: "wait_thread_start E s = Inr s'" and i: "udbd_inv s" and t: "wait_thr s \<noteq> None"
  shows "udbd_inv s'"
proof -
  define s0 where "s0 = s\<lparr>wait_ctl := (wait_ctl s)\<lparr>w_used_size := 0, cmd_finish := 0\<rparr>\<rparr>"
  have i0: "udbd_inv s0" and t0: "wait_thr s0 \<noteq> None"
    unfolding s0_def using i t udbd_invD(8) [OF i]
    by (auto intro!: udbd_inv_wait_ctl simp: wctl_ok_def)
  from a obtain cmd s1 r where p: "do_popen E cmd False s0 = Inr (s1, r)"
    and k: "(case r of
        None \<Rightarrow> rbind (hook_printf (ascii ''popen error: '' @ e_strerror E @ ascii ''/n'') s1) (\<lambda>s.
                Inr (wait_exit s))
      | Some (fd, argv) \<Rightarrow>
          (case run_child E argv s1 of (out, s) \<Rightarrow>
           Inr (s\<lparr>wait_thr := Some (WtReading cmd fd out)\<rparr>))) = Inr s'"
    by (auto simp: wait_thread_start_def Let_def rbind_eq_Inr s0_def [symmetric])
  have i1: "udbd_inv s1" "wait_thr s1 \<noteq> None"
    using udbd_inv_popen [OF p i0] wait_frames(3) [OF p] t0 by auto
  show ?thesis
    using k i1
    by (auto simp: rbind_eq_Inr split: option.splits prod.splits
        dest: udbd_inv_rlog udbd_inv_run_child wait_frames(5) intro!: udbd_inv_wait_exit udbd_inv_wait_thr)
qed

lemma wait_thread_read_inv:
  assumes a: "wait_thread_read E cmd fd out s = Inr s'" and i: "udbd_inv s" and t: "wait_thr s \<noteq> None"
  shows "udbd_inv s'"
proof -
  have wi: "udbd_inv (b\<lparr>wait_ctl := (wait_ctl b)\<lparr>cmd_finish := 1\<rparr>\<rparr>)" if "udbd_inv b" for b
    using that udbd_invD(8) [OF that] by (intro udbd_inv_wait_ctl) (auto simp: wctl_ok_def)
  have p: "w_pullout (wait_ctl s) = Some RuncmdBuf" using udbd_invD(9) [OF i] t by (auto simp: wthr_ok_def)
  have wr: "udbd_inv (b\<lparr>wait_ctl := (wait_ctl s)\<lparr>w_used_size := w_used_size (wait_ctl s) + of_nat (length str + 1)\<rparr>,
                 wait_thr := Some t'\<rparr>)"
    if b: "sbuf_write (Some RuncmdBuf) (unat (w_used_size (wait_ctl s))) (str @ [0]) s = Inr b" for b str t'
  proof -
    have ib: "udbd_inv b" using sbuf_write_run_dest [OF b i] by simp
    have "unat (w_used_size (wait_ctl s)) + (length str + 1) \<le> 655360"
      using b by (auto simp: sbuf_write_def UDB_BUF_SIZE_eq split: if_splits)
    then have "unat (w_used_size (wait_ctl s) + of_nat (length str + 1)) \<le> UDB_BUF_SIZE"
      by (simp only: unat_word_ariths unat_of_nat) (simp add: UDB_BUF_SIZE_eq)
    then have "wctl_ok ((wait_ctl s)\<lparr>w_used_size := w_used_size (wait_ctl s) + of_nat (length str + 1)\<rparr>)"
      using udbd_invD(8) [OF i] by (auto simp: wctl_ok_def)
    with ib wait_frames(7) [OF b] t show ?thesis by (simp add: udbd_inv_def wthr_ok_def)
  qed
  show ?thesis
    using a i p wr
    by (auto simp: wait_thread_read_def Let_def rbind_eq_Inr split: if_splits prod.splits
        dest!: udbd_inv_pclose udbd_inv_rlog intro!: udbd_inv_wait_exit wi)
qed

lemma wait_thread_step_inv: "wait_thread_step E s = Inr s' \<Longrightarrow> udbd_inv s \<Longrightarrow> udbd_inv s'"
  by (auto simp: wait_thread_step_def split: option.splits wait_thread.splits
      intro: wait_thread_start_inv wait_thread_read_inv)

subsection \<open>The dispatcher, the loop, the daemon\<close>

lemma unknown_chan_inv [step_dest]:
  "rbind (clear_rsp s) (\<lambda>s. hook_printf msg (set_rsp_len s)) = Inr s' \<Longrightarrow> udbd_inv s \<Longrightarrow> udbd_inv s'"
  by (auto simp: rbind_eq_Inr dest!: udbd_inv_clear_rsp intro: udbd_inv_rlog)

lemma udb_dispatch_inv: "udb_dispatch E c s = Inr s' \<Longrightarrow> udbd_inv s \<Longrightarrow> udbd_inv s'"
  by (auto simp: udb_dispatch_def split: if_splits dest: step_dest)

lemma layer_prot_size_le: "layer_prot_size l \<le> 1470"
  by (cases l) (simp_all add: UDB_PROT_SIZE_DEFAULT_def UDB_PROT_SIZE_USB2_CTRL_def
      UDB_PROT_SIZE_USB2_BULK_def UDB_PROT_SIZE_NET_UDP_def)

lemma udbd_inv_prot_size: "udbd_inv s \<Longrightarrow> n \<le> 1470 \<Longrightarrow> udbd_inv (s\<lparr>prot_size := n\<rparr>)"
  by (simp add: udbd_inv_def wthr_ok_def MAX_MSG_LENGTH_def)

lemma udb_debug_bridge_inv:
  assumes "udb_debug_bridge E l s = Inr s'" and "udbd_inv s"
  shows "udbd_inv s'"
  using assms udbd_inv_prot_size [OF assms(2) layer_prot_size_le [of l]]
  by (auto simp: udb_debug_bridge_def rbind_eq_Inr Let_def split: if_splits
      dest: udb_debug_auth_inv udb_dispatch_inv)

lemma net_handle_inv: "net_handle E s = Inr s' \<Longrightarrow> udbd_inv s \<Longrightarrow> udbd_inv s'"
  by (auto simp: net_handle_def rbind_eq_Inr split: if_splits dest!: udbd_inv_rlog udbd_inv_put_rsp
      intro: udb_debug_bridge_inv intro!: udbd_inv_rsp_len)

lemma udbd_inv_net_clear: "udbd_inv s \<Longrightarrow> udbd_inv (net_clear s)"
  by (simp add: udbd_inv_def wthr_ok_def net_clear_def)

lemma udbd_inv_net_store:
  "udbd_inv s \<Longrightarrow> length d \<le> MAX_MSG_LENGTH \<Longrightarrow> udbd_inv (net_store d s)"
  by (simp add: udbd_inv_def wthr_ok_def net_store_def)

lemma net_debugd_step_inv:
  assumes "net_debugd_step E r s = Inr (s', reply)" and "udbd_inv s"
  shows "udbd_inv s'"
proof (cases r)
  case RecvErr
  with assms show ?thesis by (auto simp: net_debugd_step_def udbd_inv_net_clear)
next
  case (RecvMsg msg)
  have i: "udbd_inv (net_store (take MAX_MSG_LENGTH msg) s)"
    using assms(2) by (rule udbd_inv_net_store) simp
  with assms RecvMsg show ?thesis
    by (auto simp: net_debugd_step_def Let_def rbind_eq_Inr split: if_splits
        intro!: udbd_inv_rsp_len udbd_inv_net_clear dest: net_handle_inv)
qed

lemma udbd_step_inv:
  assumes "udbd_step c c'" and "udbd_inv (snd c)"
  shows "udbd_inv (snd c')"
  using assms
  by (cases rule: udbd_step.cases)
    (simp_all add: udbd_inv_net_store udbd_inv_net_clear udbd_inv_rsp_len net_handle_inv wait_thread_step_inv)

lemma udbd_start_inv:
  assumes "length b = MAX_MSG_LENGTH" and "length r = MAX_MSG_LENGTH"
  shows "udbd_inv (udbd_start b r fs dir)"
proof -
  have "rlog_ok (rlog_init (replicate (RLOG_MAX_LOG_BUF_SIZE + 1) 0) rbuf_zero)"
    using log_repr_init [of "replicate (RLOG_MAX_LOG_BUF_SIZE + 1) 0" rbuf_zero]
    by (auto simp: RLOG_MAX_LOG_BUF_SIZE_def)
  with assms show ?thesis
    by (simp add: udbd_inv_def udbd_start_def cctl_ok_def cctl_zero_def pctl_ok_def pctl_zero_def
        wctl_ok_def wctl_zero_def wthr_ok_def UDB_PROT_SIZE_DEFAULT_def MAX_MSG_LENGTH_def)
qed

lemma udbd_reachable_inv: "udbd_reachable c \<Longrightarrow> udbd_inv (snd c)"
proof (induction rule: udbd_reachable.induct)
  case (boot b r bt fs dir s)
  then show ?case
    using udbd_start_inv [of b r fs dir]
    by (auto simp: main_prologue_def rbind_eq_Inr dest!: udbd_inv_rlog)
next
  case (run c c')
  then show ?case by (auto intro: udbd_step_inv)
qed

end
