(* ===== verification/Client.thy ===== *)
theory Client
  imports UdbState
begin

text \<open>
  The client's side of the protocol, client/src: the request header (udb.h), auth.cpp,
  raw.cpp, file.cpp (pull_file, push_file) and shell.cpp (exec_cmd, exec_cmd_wait,
  msh_exec_cmd, interactive_shell).  The device at the other end of udb_ctrl_write and
  udb_ctrl_read is a parameter \<open>xfer\<close>: it takes the datagram written and gives the one to
  read, None if none ever comes.  \<open>P\<close> is the protocol size of the handle.

  The request buffer has \<open>P\<close> bytes and every memcpy into it is checked against that; the
  read buffer has \<open>P + 1\<close>.  The loops run on fuel: a turn for each
  packet of \<open>P\<close> bytes is enough, which the properties that use them state.
\<close>

type_synonym 's device = "'s \<Rightarrow> byte list \<Rightarrow> fault + 's \<times> byte list option"

subsection \<open>Requests\<close>

text \<open>set_udb_channel_header on a cleared buffer of \<open>P\<close> bytes.\<close>

definition set_udb_channel_header :: "udb_chan_id \<Rightarrow> byte list \<Rightarrow> fault + byte list" where
  "set_udb_channel_header chan buf = mwrite 0 (ascii ''udb'' @ [chan_code chan]) buf"

definition new_request :: "nat \<Rightarrow> udb_chan_id \<Rightarrow> fault + byte list" where
  "new_request P chan = set_udb_channel_header chan (replicate P 0)"

text \<open>
  udb_ctrl_write followed by udb_ctrl_read into a cleared buffer of \<open>P + 1\<close> bytes, of which
  at most \<open>P\<close> are received.
\<close>

definition udb_xfer :: "'s device \<Rightarrow> nat \<Rightarrow> 's \<Rightarrow> byte list \<Rightarrow> fault + 's \<times> byte list \<times> nat" where
  "udb_xfer xfer P s wbuf =
     rbind (xfer s wbuf) (\<lambda>(s', reply).
     case reply of
       None \<Rightarrow> Inl NoReply
     | Some d \<Rightarrow> let d = take P d in
         Inr (s', d @ drop (length d) (replicate (P + 1) 0), length d))"

subsection \<open>auth and rawset\<close>

definition auth_cmd :: "byte list" where
  "auth_cmd = ascii ''0303060303070701''"

text \<open>auth: the state of the device afterwards and the bytes dumphex shows.\<close>

definition auth :: "'s device \<Rightarrow> nat \<Rightarrow> 's \<Rightarrow> fault + 's \<times> byte list" where
  "auth xfer P s =
     rbind (new_request P UDB_AUTH) (\<lambda>wb.
     rbind (mwrite 4 auth_cmd wb) (\<lambda>wb.
     rbind (udb_xfer xfer P s wb) (\<lambda>(s, rb, nr_read).
     Inr (s, take nr_read rb))))"

text \<open>raw_set: the bytes of the arguments (already converted by strtoul), one by one.\<close>

fun raw_fill :: "byte list \<Rightarrow> nat \<Rightarrow> byte list \<Rightarrow> fault + byte list" where
  "raw_fill [] i wb = Inr wb"
| "raw_fill (b # bs) i wb = rbind (mwrite i [b] wb) (\<lambda>wb. raw_fill bs (Suc i) wb)"

definition raw_set :: "'s device \<Rightarrow> nat \<Rightarrow> byte list \<Rightarrow> 's \<Rightarrow> fault + 's \<times> byte list" where
  "raw_set xfer P args s =
     rbind (raw_fill args 0 (replicate P 0)) (\<lambda>wb.
     rbind (udb_xfer xfer P s wb) (\<lambda>(s, rb, nr_read).
     Inr (s, take nr_read rb)))"

subsection \<open>The pull-out loop\<close>

text \<open>
  The loop that pull_file, exec_cmd, msh_exec_cmd and interactive_shell repeat: ask for the
  next chunk on a channel, hand the reply to \<open>sink\<close> (fwrite of cp_size bytes, or printf of
  the buffer as a string), until nothing is left.  It always asks at least once.
\<close>

definition pull_size :: "nat \<Rightarrow> u32 \<Rightarrow> u32" where
  "pull_size P get_size = (if unat get_size < P then get_size else of_nat P)"

definition pull_request :: "nat \<Rightarrow> udb_chan_id \<Rightarrow> u32 \<Rightarrow> fault + byte list" where
  "pull_request P chan cp_size = rbind (new_request P chan) (mwrite 4 (le32 cp_size))"

fun pullout_loop ::
  "nat \<Rightarrow> (u32 \<Rightarrow> byte list \<Rightarrow> fault + byte list) \<Rightarrow> 's device \<Rightarrow> nat \<Rightarrow> udb_chan_id
   \<Rightarrow> u32 \<Rightarrow> 's \<Rightarrow> byte list \<Rightarrow> fault + 's \<times> byte list" where
  "pullout_loop 0 sink xfer P chan get_size s out = Inl OutOfFuel"
| "pullout_loop (Suc fuel) sink xfer P chan get_size s out =
     (let cp_size = pull_size P get_size in
      rbind (pull_request P chan cp_size) (\<lambda>wb.
      rbind (udb_xfer xfer P s wb) (\<lambda>(s, rb, _).
      rbind (sink cp_size rb) (\<lambda>d.
      let left = get_size - cp_size in
      if left = 0 then Inr (s, out @ d)
      else pullout_loop fuel sink xfer P chan left s (out @ d)))))"

text \<open>fwrite (read_buf, 1, cp_size, fp) and printf ("%s", read_buf).\<close>

definition sink_file :: "u32 \<Rightarrow> byte list \<Rightarrow> fault + byte list" where
  "sink_file cp_size rb = mread 0 (unat cp_size) rb"

definition sink_text :: "u32 \<Rightarrow> byte list \<Rightarrow> fault + byte list" where
  "sink_text cp_size rb = cstr 0 rb"

text \<open>
  The prompt of interactive_shell: the last byte of the string is dropped if it is a
  newline; on the empty string the byte before the buffer is read.
\<close>

definition sink_prompt :: "u32 \<Rightarrow> byte list \<Rightarrow> fault + byte list" where
  "sink_prompt cp_size rb =
     rbind (cstr 0 rb) (\<lambda>t.
     if t = [] then Inl OobRead
     else Inr (if last t = NEWLINE then butlast t else t))"

subsection \<open>pull_file\<close>

text \<open>The bytes written to the local file.\<close>

definition pull_file :: "nat \<Rightarrow> 's device \<Rightarrow> nat \<Rightarrow> byte list \<Rightarrow> 's \<Rightarrow> fault + 's \<times> byte list" where
  "pull_file fuel xfer P dev_path s =
     rbind (new_request P UDB_PULL_FILE_INIT) (\<lambda>wb.
     rbind (mwrite 4 dev_path wb) (\<lambda>wb.
     rbind (udb_xfer xfer P s wb) (\<lambda>(s, rb, _).
     rbind (mread 0 4 rb) (\<lambda>sz.
     pullout_loop fuel sink_file xfer P UDB_PULL_FILE_PULLOUT (rd32 sz) s []))))"

subsection \<open>push_file\<close>

definition push_max_pkg_size :: "nat \<Rightarrow> u16" where
  "push_max_pkg_size P =
     (if P = UDB_PROT_SIZE_DEFAULT then of_nat P - 4 - 1 else of_nat P - 4 - 2)"

text \<open>
  One UDB_PUSH_FILE_PROC request with the next bytes of the file: a one-byte length with
  the default protocol size, a two-byte length otherwise.
\<close>

definition push_request :: "nat \<Rightarrow> u16 \<Rightarrow> byte list \<Rightarrow> fault + byte list \<times> byte list" where
  "push_request P cp_size rest =
     rbind (new_request P UDB_PUSH_FILE_PROC) (\<lambda>wb.
     if P = UDB_PROT_SIZE_DEFAULT then
       (let onebyte_cp_size = (ucast cp_size :: byte); n = unat onebyte_cp_size in
        rbind (mwrite 4 [onebyte_cp_size] wb) (\<lambda>wb.
        rbind (mwrite 5 (take n rest) wb) (\<lambda>wb. Inr (wb, drop n rest))))
     else
       (let n = unat cp_size in
        rbind (mwrite 4 (le16 cp_size) wb) (\<lambda>wb.
        rbind (mwrite 6 (take n rest) wb) (\<lambda>wb. Inr (wb, drop n rest)))))"

fun push_loop :: "nat \<Rightarrow> 's device \<Rightarrow> nat \<Rightarrow> u32 \<Rightarrow> byte list \<Rightarrow> 's \<Rightarrow> fault + 's" where
  "push_loop 0 xfer P left_size rest s = Inl OutOfFuel"
| "push_loop (Suc fuel) xfer P left_size rest s =
     (let m = push_max_pkg_size P;
          cp_size = (if unat left_size < unat m then ucast left_size else m) in
      rbind (push_request P cp_size rest) (\<lambda>(wb, rest).
      rbind (udb_xfer xfer P s wb) (\<lambda>(s, _).
      let left = left_size - ucast cp_size in
      if left = 0 then Inr s else push_loop fuel xfer P left rest s)))"

definition push_file :: "nat \<Rightarrow> 's device \<Rightarrow> nat \<Rightarrow> byte list \<Rightarrow> byte list \<Rightarrow> 's \<Rightarrow> fault + 's" where
  "push_file fuel xfer P content dev_path s =
     (let file_size = (of_nat (length content) :: u32) in
      rbind (new_request P UDB_PUSH_FILE_INIT) (\<lambda>wb.
      rbind (mwrite 4 (le32 file_size) wb) (\<lambda>wb.
      rbind (mwrite 8 dev_path wb) (\<lambda>wb.
      rbind (udb_xfer xfer P s wb) (\<lambda>(s, _).
      rbind (push_loop fuel xfer P file_size content s) (\<lambda>s.
      rbind (new_request P UDB_PUSH_FILE_FINI) (\<lambda>wb.
      rbind (udb_xfer xfer P s wb) (\<lambda>(s, _). Inr s))))))))"

subsection \<open>Commands\<close>

text \<open>The words of the command, each with a space behind it; no word starts at 60 or later.\<close>

fun put_args :: "byte list list \<Rightarrow> nat \<Rightarrow> byte list \<Rightarrow> fault + byte list" where
  "put_args [] offset wb = Inr wb"
| "put_args (a # as) offset wb =
     rbind (mwrite offset a wb) (\<lambda>wb.
     rbind (mwrite (offset + length a) [SPACE] wb) (\<lambda>wb.
     let offset = offset + length a + 1 in
     if 60 \<le> offset then Inr wb else put_args as offset wb))"

definition command_request :: "nat \<Rightarrow> udb_chan_id \<Rightarrow> byte list list \<Rightarrow> fault + byte list" where
  "command_request P chan args = rbind (new_request P chan) (put_args args 4)"

text \<open>exec_cmd and msh_exec_cmd: what they print.\<close>

definition exec_on ::
  "udb_chan_id \<Rightarrow> udb_chan_id \<Rightarrow> nat \<Rightarrow> 's device \<Rightarrow> nat \<Rightarrow> byte list list \<Rightarrow> 's
   \<Rightarrow> fault + 's \<times> byte list" where
  "exec_on cmd_chan pull_chan fuel xfer P args s =
     rbind (command_request P cmd_chan args) (\<lambda>wb.
     rbind (udb_xfer xfer P s wb) (\<lambda>(s, rb, _).
     rbind (mread 0 4 rb) (\<lambda>sz.
     pullout_loop fuel sink_text xfer P pull_chan (rd32 sz) s [])))"

definition exec_cmd :: "nat \<Rightarrow> 's device \<Rightarrow> nat \<Rightarrow> byte list list \<Rightarrow> 's \<Rightarrow> fault + 's \<times> byte list" where
  "exec_cmd = exec_on UDB_RUN_CMD UDB_RUN_CMD_PULLOUT"

definition msh_exec_cmd :: "nat \<Rightarrow> 's device \<Rightarrow> nat \<Rightarrow> byte list list \<Rightarrow> 's \<Rightarrow> fault + 's \<times> byte list" where
  "msh_exec_cmd = exec_on UDB_MSH_CMD UDB_MSH_CMD_PULLOUT"

text \<open>exec_cmd_wait: poll until the state byte is 1; what was printed so far.\<close>

fun wait_loop_client :: "nat \<Rightarrow> 's device \<Rightarrow> nat \<Rightarrow> 's \<Rightarrow> byte list \<Rightarrow> fault + 's \<times> byte list" where
  "wait_loop_client 0 xfer P s out = Inl OutOfFuel"
| "wait_loop_client (Suc fuel) xfer P s out =
     rbind (new_request P UDB_RUN_CMD_WAIT_PULLOUT) (\<lambda>wb.
     rbind (udb_xfer xfer P s wb) (\<lambda>(s, rb, _).
     rbind (cstr 1 rb) (\<lambda>t.
     rbind (mread 0 1 rb) (\<lambda>st.
     if st = [1] then Inr (s, out @ t) else wait_loop_client fuel xfer P s (out @ t)))))"

definition exec_cmd_wait :: "nat \<Rightarrow> 's device \<Rightarrow> nat \<Rightarrow> byte list list \<Rightarrow> 's \<Rightarrow> fault + 's \<times> byte list" where
  "exec_cmd_wait fuel xfer P args s =
     rbind (command_request P UDB_RUN_CMD_WAIT args) (\<lambda>wb.
     rbind (udb_xfer xfer P s wb) (\<lambda>(s, rb, _).
     rbind (mread 0 1 rb) (\<lambda>support.
     if support \<noteq> [1] then Inr (s, []) else wait_loop_client fuel xfer P s [])))"


subsection \<open>interactive_shell\<close>

text \<open>
  One command of the shell: the request (its payload is the line with its NUL, or the
  four bytes of "pwd"), then the pull-out loop.
\<close>

definition shell_cmd ::
  "nat \<Rightarrow> (u32 \<Rightarrow> byte list \<Rightarrow> fault + byte list) \<Rightarrow> 's device \<Rightarrow> nat \<Rightarrow> byte list \<Rightarrow> 's
   \<Rightarrow> fault + 's \<times> byte list" where
  "shell_cmd fuel sink xfer P payload s =
     rbind (new_request P UDB_RUN_CMD) (\<lambda>wb.
     rbind (mwrite 4 payload wb) (\<lambda>wb.
     rbind (udb_xfer xfer P s wb) (\<lambda>(s, rb, _).
     rbind (mread 0 4 rb) (\<lambda>sz.
     pullout_loop fuel sink xfer P UDB_RUN_CMD_PULLOUT (rd32 sz) s []))))"

definition pwd_cmd :: "byte list" where
  "pwd_cmd = ascii ''pwd'' @ [NEWLINE]"

text \<open>
  The loop over the lines fgets gives (each of at most \<open>P - 5\<close> bytes): the command's output,
  then the prompt.  A line that starts with "exit" ends the process.
\<close>

fun shell_lines :: "nat \<Rightarrow> 's device \<Rightarrow> nat \<Rightarrow> byte list list \<Rightarrow> 's \<Rightarrow> fault + 's \<times> byte list" where
  "shell_lines fuel xfer P [] s = Inr (s, [])"
| "shell_lines fuel xfer P (l # ls) s =
     (if take 4 l = ascii ''exit'' then Inr (s, ascii ''exit'' @ [NEWLINE])
      else rbind (shell_cmd fuel sink_text xfer P (l @ [0]) s) (\<lambda>(s, out).
           rbind (shell_cmd fuel sink_prompt xfer P pwd_cmd s) (\<lambda>(s, prompt).
           rbind (shell_lines fuel xfer P ls s) (\<lambda>(s, more).
           Inr (s, out @ prompt @ ascii ''>'' @ more)))))"

definition interactive_shell :: "nat \<Rightarrow> 's device \<Rightarrow> nat \<Rightarrow> byte list list \<Rightarrow> 's \<Rightarrow> fault + 's \<times> byte list" where
  "interactive_shell fuel xfer P ls s =
     rbind (shell_cmd fuel sink_text xfer P pwd_cmd s) (\<lambda>(s, prompt).
     rbind (shell_lines fuel xfer P ls s) (\<lambda>(s, out).
     Inr (s, prompt @ ascii ''>'' @ out)))"

end
