(* ===== verification/ChunkService.thy ===== *)
theory ChunkService
  imports Client
begin

text \<open>
  The contract between the client's pull-out loop and the device: a channel on which each
  request for \<open>n\<close> bytes gives the next \<open>n\<close> bytes of what is pending, padded with zeros to
  the protocol size.  Under it the client's loop returns exactly the pending bytes.  The
  daemon's three pull-out channels are interpretations (theory NetDevice).
\<close>

lemma new_request_Inr:
  "4 \<le> P \<Longrightarrow> new_request P ch = Inr (ascii ''udb'' @ [chan_code ch] @ replicate (P - 4) 0)"
  by (simp add: new_request_def set_udb_channel_header_def mwrite_def ascii_def)

lemma pull_request_Inr:
  "8 \<le> P \<Longrightarrow> pull_request P ch n
     = Inr (ascii ''udb'' @ [chan_code ch] @ le32 n @ replicate (P - 8) 0)"
  by (simp add: pull_request_def new_request_Inr mwrite_def ascii_def)

locale chunk_service =
  fixes xfer :: "'s device" and P :: nat and chan :: udb_chan_id
    and pending :: "'s \<Rightarrow> byte list \<Rightarrow> bool"
  assumes P_bounds: "8 \<le> P" "P < 65536"
    and pending_length: "pending s xs \<Longrightarrow> length xs < 2 ^ 32"
    and chunk: "pending s xs \<Longrightarrow> n \<le> length xs \<Longrightarrow> n \<le> P \<Longrightarrow>
      \<exists>s'. xfer s (ascii ''udb'' @ [chan_code chan] @ le32 (of_nat n) @ replicate (P - 8) 0)
             = Inr (s', Some (take n xs @ replicate (P - n) 0)) \<and> pending s' (drop n xs)"
begin

lemma pull_size_min:
  assumes "pending s xs"
  shows "pull_size P (of_nat (length xs)) = of_nat (min (length xs) P)"
  using pending_length [OF assms] by (auto simp: pull_size_def unat_of_nat min_def)

lemma xfer_chunk:
  assumes p: "pending s xs" and n: "n = min (length xs) P"
  shows "\<exists>s'. udb_xfer xfer P s (ascii ''udb'' @ [chan_code chan] @ le32 (of_nat n) @ replicate (P - 8) 0)
            = Inr (s', take n xs @ replicate (P + 1 - n) 0, P) \<and> pending s' (drop n xs)"
proof -
  obtain s' where s': "xfer s (ascii ''udb'' @ [chan_code chan] @ le32 (of_nat n) @ replicate (P - 8) 0)
             = Inr (s', Some (take n xs @ replicate (P - n) 0))" "pending s' (drop n xs)"
    using chunk [OF p, of n] n by auto
  have r: "replicate (P - n) 0 @ [0 :: byte] = replicate (P + 1 - n) 0"
    using n by (simp add: replicate_append_same Suc_diff_le)
  have "drop P (replicate (P + 1) (0 :: byte)) = [0]"
    by (simp only: drop_replicate) simp
  then have "udb_xfer xfer P s (ascii ''udb'' @ [chan_code chan] @ le32 (of_nat n) @ replicate (P - 8) 0)
      = Inr (s', take n xs @ replicate (P - n) 0 @ [0], P)"
    using s'(1) n by (simp add: udb_xfer_def Let_def)
  with s'(2) show ?thesis by (simp only: r) blast
qed

text \<open>One turn: what is left, and the chunk handed to the sink.\<close>

lemma pullout_loop_turn:
  assumes p: "pending s xs" and n: "n = min (length xs) P"
  obtains s' where "pending s' (drop n xs)"
    and "pullout_loop (Suc fuel) sink xfer P chan (of_nat (length xs)) s out =
      rbind (sink (of_nat n) (take n xs @ replicate (P + 1 - n) 0)) (\<lambda>d.
        if length xs \<le> P then Inr (s', out @ d)
        else pullout_loop fuel sink xfer P chan (of_nat (length (drop n xs))) s' (out @ d))"
proof -
  obtain s' where s': "udb_xfer xfer P s (ascii ''udb'' @ [chan_code chan] @ le32 (of_nat n) @ replicate (P - 8) 0)
            = Inr (s', take n xs @ replicate (P + 1 - n) 0, P)" "pending s' (drop n xs)"
    using xfer_chunk [OF p n] by auto
  have len: "length xs < 2 ^ 32" using pending_length [OF p] .
  have left: "(of_nat (length xs) :: u32) - of_nat n = of_nat (length (drop n xs))"
    using n by (simp add: of_nat_diff)
  have zero: "((of_nat (length (drop n xs)) :: u32) = 0) \<longleftrightarrow> length xs \<le> P"
    using len n by (subst of_nat_u32_eq_0) auto
  have "pullout_loop (Suc fuel) sink xfer P chan (of_nat (length xs)) s out =
      rbind (sink (of_nat n) (take n xs @ replicate (P + 1 - n) 0)) (\<lambda>d.
        if length xs \<le> P then Inr (s', out @ d)
        else pullout_loop fuel sink xfer P chan (of_nat (length (drop n xs))) s' (out @ d))"
    unfolding pullout_loop.simps Let_def pull_size_min [OF p] n [symmetric]
      pull_request_Inr [OF P_bounds(1)] rbind_Inr s'(1) left zero prod.case ..
  with s'(2) show ?thesis by (rule that)
qed

text \<open>
  A sink that gives back the chunk (whatever the padding) makes the loop return the pending
  bytes; \<open>fuel\<close> protocol-sized chunks are enough.
\<close>

lemma pullout_loop_pending:
  assumes sink: "\<And>d k. set d \<subseteq> set xs \<Longrightarrow> length d \<le> P \<Longrightarrow> 0 < k \<Longrightarrow>
      sink (of_nat (length d)) (d @ replicate k 0) = Inr d"
    and p: "pending s xs" and fuel: "0 < fuel" "length xs \<le> fuel * P"
  shows "\<exists>s'. pullout_loop fuel sink xfer P chan (of_nat (length xs)) s out = Inr (s', out @ xs) \<and>
           pending s' []"
  using assms
proof (induction fuel arbitrary: s xs out)
  case 0
  then show ?case by simp
next
  case (Suc fuel)
  define n where "n = min (length xs) P"
  obtain s' where p': "pending s' (drop n xs)"
    and turn: "pullout_loop (Suc fuel) sink xfer P chan (of_nat (length xs)) s out =
      rbind (sink (of_nat n) (take n xs @ replicate (P + 1 - n) 0)) (\<lambda>d.
        if length xs \<le> P then Inr (s', out @ d)
        else pullout_loop fuel sink xfer P chan (of_nat (length (drop n xs))) s' (out @ d))"
    using pullout_loop_turn [OF Suc.prems(2) n_def, where fuel = fuel and sink = sink and out = out]
    by blast
  have d: "sink (of_nat n) (take n xs @ replicate (P + 1 - n) 0) = Inr (take n xs)"
    using Suc.prems(1) [of "take n xs" "P + 1 - n", OF set_take_subset] by (simp add: n_def)
  show ?case
  proof (cases "length xs \<le> P")
    case True
    then have "drop n xs = []" "take n xs = xs" by (simp_all add: n_def)
    with turn d True p' show ?thesis by auto
  next
    case False
    have f: "0 < fuel" using Suc.prems(4) False by (cases fuel) auto
    have "length xs = P + length (drop n xs)" "length xs \<le> P + fuel * P"
      using Suc.prems(4) False by (simp_all add: n_def)
    then have "length (drop n xs) \<le> fuel * P" by linarith
    note f = f this
    have "\<exists>s''. pullout_loop fuel sink xfer P chan (of_nat (length (drop n xs))) s' (out @ take n xs)
        = Inr (s'', (out @ take n xs) @ drop n xs) \<and> pending s'' []"
    proof (rule Suc.IH [OF _ p' f])
      fix d :: "byte list" and k :: nat
      assume d: "set d \<subseteq> set (drop n xs)" "length d \<le> P" "0 < k"
      from d(1) have "set d \<subseteq> set xs" using set_drop_subset [of n xs] by simp
      then show "sink (of_nat (length d)) (d @ replicate k 0) = Inr d"
        by (rule Suc.prems(1) [OF _ d(2,3)])
    qed
    with turn d False show ?thesis by simp
  qed
qed

lemma pullout_loop_file:
  assumes "pending s xs" and "0 < fuel" and "length xs \<le> fuel * P"
  shows "\<exists>s'. pullout_loop fuel sink_file xfer P chan (of_nat (length xs)) s out = Inr (s', out @ xs) \<and>
           pending s' []"
proof (rule pullout_loop_pending [OF _ assms])
  fix d :: "byte list" and k
  assume "length d \<le> P"
  then have "unat (of_nat (length d) :: u32) = length d" using P_bounds by (simp add: unat_of_nat)
  then show "sink_file (of_nat (length d)) (d @ replicate k 0) = Inr d"
    by (simp add: sink_file_def mread_def)
qed

lemma pullout_loop_text:
  assumes "pending s xs" and "0 \<notin> set xs" and "0 < fuel" and "length xs \<le> fuel * P"
  shows "\<exists>s'. pullout_loop fuel sink_text xfer P chan (of_nat (length xs)) s out = Inr (s', out @ xs) \<and>
           pending s' []"
proof (rule pullout_loop_pending [OF _ assms(1,3,4)])
  fix d :: "byte list" and k :: nat
  assume "set d \<subseteq> set xs" and "0 < k"
  with assms(2) show "sink_text (of_nat (length d)) (d @ replicate k 0) = Inr d"
    using cstr_terminated [of "[]" 0 d "replicate (k - 1) 0"]
    by (cases k) (auto simp: sink_text_def)
qed

end

end
