(* ===== verification/NetDevice.thy ===== *)
theory NetDevice
  imports UdbInv ChunkService
begin

text \<open>
  The daemon as the client's device: one datagram in, one turn of the UDP loop, one
  datagram back.  The three pull-out channels of the daemon are interpretations of
  \<open>chunk_service\<close>: what is pending is what the control block has not handed out yet.
\<close>

definition net_device :: "env \<Rightarrow> udbd device" where
  "net_device E s msg = net_debugd_step E (RecvMsg msg) s"

text \<open>What the loop does once the bridge has returned with a response of full length.\<close>

definition net_reply :: "udbd \<Rightarrow> fault + udbd \<times> byte list option" where
  "net_reply s = rbind (mread 0 (nat (rsp_len s)) (rsp s)) (\<lambda>reply.
     Inr ((net_clear s)\<lparr>rsp_len := 0\<rparr>, Some reply))"

lemma net_device_bridge:
  assumes i: "udbd_inv s" and body: "length body = 1466"
  shows "net_device E s (ascii ''udb'' @ [c] @ body)
    = rbind (udb_debug_bridge E UDB_LAYER_NET (s\<lparr>req := ascii ''udb'' @ [c] @ body\<rparr>)) net_reply"
proof -
  have st: "net_store (ascii ''udb'' @ [c] @ body) s = s\<lparr>req := ascii ''udb'' @ [c] @ body\<rparr>"
    using udbd_invD(1) [OF i] body by (simp add: net_store_def)
  have tk: "take MAX_MSG_LENGTH (ascii ''udb'' @ [c] @ body) = ascii ''udb'' @ [c] @ body"
    using body by (simp add: MAX_MSG_LENGTH_def)
  have nr: "net_reply = (\<lambda>s. rbind (mread 0 (nat (rsp_len s)) (rsp s)) (\<lambda>reply.
     Inr ((net_clear s)\<lparr>rsp_len := 0\<rparr>, Some reply)))"
    by (rule ext) (simp add: net_reply_def)
  have t3: "take 3 (ascii ''udb'' @ [c] @ body) = ascii ''udb''" by simp
  have len: "\<not> (1 < length (ascii ''udb'' @ [c] @ body) \<and> length (ascii ''udb'' @ [c] @ body) < 64)"
    using body by simp
  have rq: "req (s\<lparr>req := ascii ''udb'' @ [c] @ body\<rparr>) = ascii ''udb'' @ [c] @ body" by simp
  show ?thesis
    unfolding net_device_def net_debugd_step_def recv_result.case Let_def tk st nr net_handle_def rq
    using t3 len by (simp only: if_False if_True simp_thms)
qed

text \<open>The state the dispatcher starts from.\<close>

definition net_request :: "byte list \<Rightarrow> udbd \<Rightarrow> udbd" where
  "net_request msg s = s\<lparr>req := msg, prot_size := 1470\<rparr>"

lemma net_device_dispatch:
  assumes "udbd_inv s" and "length body = 1466" and "udb_auth_ok s" and "ch \<noteq> UDB_AUTH"
  shows "net_device E s (ascii ''udb'' @ [chan_code ch] @ body)
    = rbind (udb_dispatch E (chan_code ch)
         (net_request (ascii ''udb'' @ [chan_code ch] @ body) s)) net_reply"
  unfolding net_device_bridge [OF assms(1,2)]
  using assms by (simp add: udb_debug_bridge_def mread_def ascii_def
      chan_code_inj [where b = UDB_AUTH] net_request_def UDB_PROT_SIZE_NET_UDP_def Let_def
      del: chan_code.simps)

lemma net_reply_full:
  "length (rsp s) = 1470 \<Longrightarrow> rsp_len s = 1470 \<Longrightarrow>
   net_reply s = Inr ((net_clear s)\<lparr>rsp_len := 0\<rparr>, Some (rsp s))"
  by (simp add: net_reply_def mread_def)

lemma udbd_inv_net_request:
  "udbd_inv s \<Longrightarrow> length msg = 1470 \<Longrightarrow> udbd_inv (net_request msg s)"
  by (simp add: udbd_inv_def wthr_ok_def net_request_def MAX_MSG_LENGTH_def)

lemma net_request_simps [simp]:
  "req (net_request m s) = m" "prot_size (net_request m s) = 1470" "rsp (net_request m s) = rsp s"
  "run_ctl (net_request m s) = run_ctl s" "msh_ctl (net_request m s) = msh_ctl s"
  "pull_ctl (net_request m s) = pull_ctl s" "wait_ctl (net_request m s) = wait_ctl s"
  "udb_auth_ok (net_request m s) = udb_auth_ok s" "push_fp (net_request m s) = push_fp s"
  "files (net_request m s) = files s" "cwd (net_request m s) = cwd s"
  "runcmd_buf (net_request m s) = runcmd_buf s" "mshcmd_buf (net_request m s) = mshcmd_buf s"
  "rlog (net_request m s) = rlog s" "wait_thr (net_request m s) = wait_thr s"
  "popen_st (net_request m s) = popen_st s" "rsp_len (net_request m s) = rsp_len s"
  by (simp_all add: net_request_def)

subsection \<open>One chunk out of a static buffer\<close>

definition ctl_left :: "cctl \<Rightarrow> nat" where
  "ctl_left c = unat (used_size c) - unat (cp_offset c)"

lemma cp_offset_add:
  assumes "cctl_ok r c" and "n \<le> ctl_left c"
  shows "unat (cp_offset c + of_nat n) = unat (cp_offset c) + n"
    and "\<not> used_size c < cp_offset c + of_nat n"
    and "cp_offset c + of_nat n = used_size c \<longleftrightarrow> n = ctl_left c"
proof -
  have le: "unat (cp_offset c) \<le> unat (used_size c)"
    using assms(1) by (simp add: cctl_ok_def word_le_nat_alt)
  have u: "unat (used_size c) < 4294967296" by simp
  show a: "unat (cp_offset c + of_nat n) = unat (cp_offset c) + n"
  proof -
    have n: "n < 4294967296" "unat (cp_offset c) + n < 4294967296"
      using assms(2) le u unfolding ctl_left_def by linarith+
    then have "unat (of_nat n :: u32) = n" by simp
    with n(2) show ?thesis by (simp only: unat_word_ariths) simp
  qed
  show "\<not> used_size c < cp_offset c + of_nat n"
    using a assms(2) le by (simp add: word_less_nat_alt ctl_left_def)
  show "cp_offset c + of_nat n = used_size c \<longleftrightarrow> n = ctl_left c"
    using a le assms(2) by (auto simp: word_unat_eq_iff ctl_left_def)
qed

lemma pull_chunk_ok:
  assumes c: "cctl_ok r c" and n: "n \<le> ctl_left c" "n \<le> length (rsp s)"
  shows "pull_chunk c (of_nat n) s =
    Inr (set_rsp_len (s\<lparr>rsp := fget (unat (cp_offset c)) n (sbuf r s) @ drop n (rsp s)\<rparr>),
      (if n = ctl_left c then c\<lparr>used_size := 0, cp_offset := 0, total_size := 0\<rparr>
       else c\<lparr>cp_offset := cp_offset c + of_nat n\<rparr>), n = ctl_left c)"
proof -
  have sz: "sbuf_size r < 4294967296" by (cases r) (simp_all add: UDB_BUF_SIZE_eq MSHCMD_BUF_SIZE_def)
  have le: "unat (cp_offset c) \<le> unat (used_size c)" "unat (used_size c) \<le> sbuf_size r"
    using c by (simp_all add: cctl_ok_def word_le_nat_alt)
  have un: "unat (of_nat n :: u32) = n"
    using n(1) le sz by (intro unat_of_nat_u32) (simp add: ctl_left_def)
  have rd: "sbuf_read (pullout c) (unat (cp_offset c)) n s = Inr (fget (unat (cp_offset c)) n (sbuf r s))"
    using c n(1) le by (auto simp: cctl_ok_def sbuf_read_def ctl_left_def)
  show ?thesis
    unfolding pull_chunk_def un rd rbind_Inr
    using cp_offset_add [OF c n(1)] n(2) by (simp add: put_rsp_0)
qed

text \<open>What a channel still has to hand out.\<close>

definition ctl_pending :: "cctl \<Rightarrow> (nat \<Rightarrow> byte) \<Rightarrow> byte list" where
  "ctl_pending c f = fget (unat (cp_offset c)) (ctl_left c) f"

lemma ctl_pending_take: "n \<le> ctl_left c \<Longrightarrow> fget (unat (cp_offset c)) n f = take n (ctl_pending c f)"
  by (simp add: ctl_pending_def take_fget min_def)

lemma ctl_pending_advance:
  "cctl_ok r c \<Longrightarrow> n \<le> ctl_left c \<Longrightarrow>
   ctl_pending (c\<lparr>cp_offset := cp_offset c + of_nat n\<rparr>) f = drop n (ctl_pending c f)"
  using cp_offset_add(1) [of r c n] by (simp add: ctl_pending_def drop_fget ctl_left_def)

lemma ctl_pending_reset [simp]:
  "ctl_pending (c\<lparr>used_size := 0, cp_offset := 0, total_size := t\<rparr>) f = []"
  by (simp add: ctl_pending_def ctl_left_def)

lemma length_ctl_pending [simp]: "length (ctl_pending c f) = ctl_left c"
  by (simp add: ctl_pending_def)

subsection \<open>A turn whose handler answers\<close>

text \<open>The state in which the loop waits for the next datagram.\<close>

definition net_idle :: "udbd \<Rightarrow> udbd" where
  "net_idle s = (net_clear s)\<lparr>rsp_len := 0\<rparr>"

lemma net_idle_simps [simp]:
  "run_ctl (net_idle s) = run_ctl s" "msh_ctl (net_idle s) = msh_ctl s"
  "pull_ctl (net_idle s) = pull_ctl s" "wait_ctl (net_idle s) = wait_ctl s"
  "udb_auth_ok (net_idle s) = udb_auth_ok s" "push_fp (net_idle s) = push_fp s"
  "files (net_idle s) = files s" "cwd (net_idle s) = cwd s"
  "runcmd_buf (net_idle s) = runcmd_buf s" "mshcmd_buf (net_idle s) = mshcmd_buf s"
  "rlog (net_idle s) = rlog s" "wait_thr (net_idle s) = wait_thr s" "popen_st (net_idle s) = popen_st s"
  by (simp_all add: net_idle_def net_clear_def)

lemma net_device_answer:
  assumes "udbd_inv s" and "length body = 1466" and "udb_auth_ok s" and "ch \<noteq> UDB_AUTH"
    and "udb_dispatch E (chan_code ch) (net_request (ascii ''udb'' @ [chan_code ch] @ body) s) = Inr s1"
    and "rsp_len s1 = 1470"
  shows "net_device E s (ascii ''udb'' @ [chan_code ch] @ body) = Inr (net_idle s1, Some (rsp s1)) \<and>
         udbd_inv (net_idle s1)"
proof -
  have "udbd_inv s1"
    using assms(5) by (rule udb_dispatch_inv) (simp add: udbd_inv_net_request assms)
  then show ?thesis
    unfolding net_device_dispatch [OF assms(1-4)] assms(5) rbind_Inr
    using assms(6) udbd_invD(2) [of s1] by (simp add: net_reply_full udbd_inv_net_clear net_idle_def)
qed

text \<open>A pull-out request whose handler gives the chunk \<open>d\<close> and leaves \<open>Q\<close>.\<close>

lemma chunk_turn:
  assumes i: "udbd_inv s" and a: "udb_auth_ok s" and ch: "ch \<noteq> UDB_AUTH"
    and h: "\<And>m. m = ascii ''udb'' @ [chan_code ch] @ le32 w @ replicate (1470 - 8) 0 \<Longrightarrow>
      udbd_inv (net_request m s) \<Longrightarrow>
      \<exists>s1. udb_dispatch E (chan_code ch) (net_request m s) = Inr s1 \<and> rsp_len s1 = 1470 \<and>
        rsp s1 = d \<and> udb_auth_ok s1 = udb_auth_ok s \<and> Q (net_idle s1)"
  shows "\<exists>s'. net_device E s (ascii ''udb'' @ [chan_code ch] @ le32 w @ replicate (1470 - 8) 0)
      = Inr (s', Some d) \<and> udbd_inv s' \<and> udb_auth_ok s' \<and> Q s'"
proof -
  define body where "body = le32 w @ replicate (1470 - 8) (0 :: byte)"
  have b: "length body = 1466" by (simp add: body_def)
  have "length (ascii ''udb'' @ [chan_code ch] @ body) = 1470" using b by simp
  note im = udbd_inv_net_request [OF i this]
  obtain s1 where s1: "udb_dispatch E (chan_code ch) (net_request (ascii ''udb'' @ [chan_code ch] @ body) s) = Inr s1"
      "rsp_len s1 = 1470" "rsp s1 = d" "udb_auth_ok s1" "Q (net_idle s1)"
    using h [OF _ im] a unfolding body_def by blast
  from net_device_answer [OF i b a ch s1(1,2)] s1 show ?thesis
    unfolding body_def by (intro exI [of _ "net_idle s1"]) simp
qed

text \<open>The arguments of a pull-out request, as the handlers read them.\<close>

lemma pull_request_arg:
  "mread UDB_CMD_PKG_CONTENT_OFFSET 4 (ascii ''udb'' @ [c] @ le32 w @ rest) = Inr (le32 w)"
  by (simp add: mread_def ascii_def)

lemma clear_rsp_full:
  "prot_size s = 1470 \<Longrightarrow> length (rsp s) = 1470 \<Longrightarrow> clear_rsp s = Inr (s\<lparr>rsp := replicate 1470 0\<rparr>)"
  by (simp add: clear_rsp_Inr)

subsection \<open>UDB_RUN_CMD_PULLOUT\<close>

definition run_pending :: "udbd \<Rightarrow> byte list \<Rightarrow> bool" where
  "run_pending s xs \<longleftrightarrow> udbd_inv s \<and> udb_auth_ok s \<and> ctl_pending (run_ctl s) (runcmd_buf s) = xs"

lemma udb_debug_runcmd_pullout_chunk:
  assumes i: "udbd_inv s" and p: "prot_size s = 1470"
    and r: "req s = ascii ''udb'' @ [c] @ le32 (of_nat n) @ rest"
    and n: "n \<le> ctl_left (run_ctl s)" "n \<le> 1470"
  shows "\<exists>s'. udb_debug_runcmd_pullout s = Inr s' \<and> rsp_len s' = 1470 \<and>
      rsp s' = take n (ctl_pending (run_ctl s) (runcmd_buf s)) @ replicate (1470 - n) 0 \<and>
      ctl_pending (run_ctl s') (runcmd_buf s') = drop n (ctl_pending (run_ctl s) (runcmd_buf s)) \<and>
      udb_auth_ok s' = udb_auth_ok s"
proof -
  define c where "c = run_ctl s"
  note ok = udbd_invD(5) [OF i, folded c_def]
  define s1 where "s1 = s\<lparr>rsp := replicate 1470 (0 :: byte)\<rparr>"
  have cl: "clear_rsp s = Inr s1"
    unfolding s1_def using p udbd_invD(2) [OF i] by (rule clear_rsp_full)
  define s2 where "s2 = set_rsp_len (s1\<lparr>rsp := take n (ctl_pending c (runcmd_buf s)) @ replicate (1470 - n) 0\<rparr>)"
  have ch: "pull_chunk c (of_nat n) s1 = Inr (s2,
      (if n = ctl_left c then c\<lparr>used_size := 0, cp_offset := 0, total_size := 0\<rparr>
       else c\<lparr>cp_offset := cp_offset c + of_nat n\<rparr>), n = ctl_left c)"
    using pull_chunk_ok [OF ok, of n s1] n
    by (simp add: c_def [symmetric] s1_def s2_def ctl_pending_take)
  have c1: "run_ctl s1 = c" by (simp add: s1_def c_def)
  have e: "udb_debug_runcmd_pullout s =
      (if n = ctl_left c then sbuf_zero (Some RuncmdBuf) UDB_BUF_SIZE
           (s2\<lparr>run_ctl := c\<lparr>used_size := 0, cp_offset := 0, total_size := 0\<rparr>\<rparr>)
       else Inr (s2\<lparr>run_ctl := c\<lparr>cp_offset := cp_offset c + of_nat n\<rparr>\<rparr>))"
    unfolding udb_debug_runcmd_pullout_def r pull_request_arg rbind_Inr cl c1 rd32_le32 ch by simp
  show ?thesis
  proof (cases "n = ctl_left c")
    case True
    then show ?thesis
      unfolding e c_def [symmetric] by (simp add: sbuf_zero_def s2_def s1_def set_rsp_len_def p)
  next
    case False
    then show ?thesis
      unfolding e c_def [symmetric] using ctl_pending_advance [OF ok] n
      by (simp add: s2_def s1_def set_rsp_len_def p c_def)
  qed
qed

lemma run_chunk:
  assumes p: "run_pending s xs" and n: "n \<le> length xs" "n \<le> 1470"
  shows "\<exists>s'. net_device E s (ascii ''udb'' @ [chan_code UDB_RUN_CMD_PULLOUT] @ le32 (of_nat n) @ replicate (1470 - 8) 0)
      = Inr (s', Some (take n xs @ replicate (1470 - n) 0)) \<and> run_pending s' (drop n xs)"
  unfolding run_pending_def
proof (rule chunk_turn)
  show i: "udbd_inv s" and auth: "udb_auth_ok s" using p by (simp_all add: run_pending_def)
  have xs: "ctl_pending (run_ctl s) (runcmd_buf s) = xs" using p by (simp add: run_pending_def)
  fix m assume m: "m = ascii ''udb'' @ [chan_code UDB_RUN_CMD_PULLOUT] @ le32 (of_nat n) @ replicate (1470 - 8) 0"
    and im: "udbd_inv (net_request m s)"
  have left: "n \<le> ctl_left (run_ctl s)" using n(1) xs by auto
  show "\<exists>s1. udb_dispatch E (chan_code UDB_RUN_CMD_PULLOUT) (net_request m s) = Inr s1 \<and> rsp_len s1 = 1470 \<and>
      rsp s1 = take n xs @ replicate (1470 - n) 0 \<and> udb_auth_ok s1 = udb_auth_ok s \<and>
      ctl_pending (run_ctl (net_idle s1)) (runcmd_buf (net_idle s1)) = drop n xs"
    using udb_debug_runcmd_pullout_chunk [OF im, of "chan_code UDB_RUN_CMD_PULLOUT" n] m left n(2) xs
    by (auto simp: udb_dispatch_def)
qed simp

lemma length_run_pending: "run_pending s xs \<Longrightarrow> length xs < 2 ^ 32"
  using unat_u32 by (auto simp: run_pending_def ctl_left_def less_imp_diff_less)

interpretation run_chan: chunk_service "net_device E" 1470 UDB_RUN_CMD_PULLOUT run_pending for E
  by (unfold_locales, simp, simp, erule length_run_pending, erule run_chunk, assumption+)

subsection \<open>UDB_MSH_CMD_PULLOUT\<close>

definition msh_pending :: "udbd \<Rightarrow> byte list \<Rightarrow> bool" where
  "msh_pending s xs \<longleftrightarrow> udbd_inv s \<and> udb_auth_ok s \<and> ctl_pending (msh_ctl s) (mshcmd_buf s) = xs"

lemma udb_debug_msh_pullout_chunk:
  assumes i: "udbd_inv s" and p: "prot_size s = 1470"
    and r: "req s = ascii ''udb'' @ [c] @ le32 (of_nat n) @ rest"
    and n: "n \<le> ctl_left (msh_ctl s)" "n \<le> 1470"
  shows "\<exists>s'. udb_debug_msh_pullout s = Inr s' \<and> rsp_len s' = 1470 \<and>
      rsp s' = take n (ctl_pending (msh_ctl s) (mshcmd_buf s)) @ replicate (1470 - n) 0 \<and>
      ctl_pending (msh_ctl s') (mshcmd_buf s') = drop n (ctl_pending (msh_ctl s) (mshcmd_buf s)) \<and>
      udb_auth_ok s' = udb_auth_ok s"
proof -
  define c where "c = msh_ctl s"
  note ok = udbd_invD(6) [OF i, folded c_def]
  define s1 where "s1 = s\<lparr>rsp := replicate 1470 (0 :: byte)\<rparr>"
  have cl: "clear_rsp s = Inr s1"
    unfolding s1_def using p udbd_invD(2) [OF i] by (rule clear_rsp_full)
  define s2 where "s2 = set_rsp_len (s1\<lparr>rsp := take n (ctl_pending c (mshcmd_buf s)) @ replicate (1470 - n) 0\<rparr>)"
  have ch: "pull_chunk c (of_nat n) s1 = Inr (s2,
      (if n = ctl_left c then c\<lparr>used_size := 0, cp_offset := 0, total_size := 0\<rparr>
       else c\<lparr>cp_offset := cp_offset c + of_nat n\<rparr>), n = ctl_left c)"
    using pull_chunk_ok [OF ok, of n s1] n
    by (simp add: c_def [symmetric] s1_def s2_def ctl_pending_take)
  have c1: "msh_ctl s1 = c" by (simp add: s1_def c_def)
  have e: "udb_debug_msh_pullout s =
      (if n = ctl_left c then sbuf_zero (Some MshcmdBuf) MSHCMD_BUF_SIZE
           (s2\<lparr>msh_ctl := c\<lparr>used_size := 0, cp_offset := 0, total_size := 0\<rparr>\<rparr>)
       else Inr (s2\<lparr>msh_ctl := c\<lparr>cp_offset := cp_offset c + of_nat n\<rparr>\<rparr>))"
    unfolding udb_debug_msh_pullout_def r pull_request_arg rbind_Inr cl c1 rd32_le32 ch by simp
  show ?thesis
  proof (cases "n = ctl_left c")
    case True
    then show ?thesis
      unfolding e c_def [symmetric] by (simp add: sbuf_zero_def s2_def s1_def set_rsp_len_def p)
  next
    case False
    then show ?thesis
      unfolding e c_def [symmetric] using ctl_pending_advance [OF ok] n
      by (simp add: s2_def s1_def set_rsp_len_def p c_def)
  qed
qed

lemma msh_chunk:
  assumes p: "msh_pending s xs" and n: "n \<le> length xs" "n \<le> 1470"
  shows "\<exists>s'. net_device E s (ascii ''udb'' @ [chan_code UDB_MSH_CMD_PULLOUT] @ le32 (of_nat n) @ replicate (1470 - 8) 0)
      = Inr (s', Some (take n xs @ replicate (1470 - n) 0)) \<and> msh_pending s' (drop n xs)"
  unfolding msh_pending_def
proof (rule chunk_turn)
  show i: "udbd_inv s" and auth: "udb_auth_ok s" using p by (simp_all add: msh_pending_def)
  have xs: "ctl_pending (msh_ctl s) (mshcmd_buf s) = xs" using p by (simp add: msh_pending_def)
  fix m assume m: "m = ascii ''udb'' @ [chan_code UDB_MSH_CMD_PULLOUT] @ le32 (of_nat n) @ replicate (1470 - 8) 0"
    and im: "udbd_inv (net_request m s)"
  have left: "n \<le> ctl_left (msh_ctl s)" using n(1) xs by auto
  show "\<exists>s1. udb_dispatch E (chan_code UDB_MSH_CMD_PULLOUT) (net_request m s) = Inr s1 \<and> rsp_len s1 = 1470 \<and>
      rsp s1 = take n xs @ replicate (1470 - n) 0 \<and> udb_auth_ok s1 = udb_auth_ok s \<and>
      ctl_pending (msh_ctl (net_idle s1)) (mshcmd_buf (net_idle s1)) = drop n xs"
    using udb_debug_msh_pullout_chunk [OF im, of "chan_code UDB_MSH_CMD_PULLOUT" n] m left n(2) xs
    by (auto simp: udb_dispatch_def)
qed simp

lemma length_msh_pending: "msh_pending s xs \<Longrightarrow> length xs < 2 ^ 32"
  using unat_u32 by (auto simp: msh_pending_def ctl_left_def less_imp_diff_less)

interpretation msh_chan: chunk_service "net_device E" 1470 UDB_MSH_CMD_PULLOUT msh_pending for E
  by (unfold_locales, simp, simp, erule length_msh_pending, erule msh_chunk, assumption+)

subsection \<open>UDB_PULL_FILE_PULLOUT\<close>

definition file_left :: "pctl \<Rightarrow> nat" where
  "file_left p = unat (p_used_size p) - unat (p_cp_offset p)"

definition file_pending :: "pctl \<Rightarrow> byte list" where
  "file_pending p = (case p_pullout p of None \<Rightarrow> []
     | Some b \<Rightarrow> take (file_left p) (drop (unat (p_cp_offset p)) b))"

definition pull_pending :: "udbd \<Rightarrow> byte list \<Rightarrow> bool" where
  "pull_pending s xs \<longleftrightarrow> udbd_inv s \<and> udb_auth_ok s \<and> file_pending (pull_ctl s) = xs"

lemma length_file_pending [simp]: "pctl_ok p \<Longrightarrow> length (file_pending p) = file_left p"
  by (auto simp: file_pending_def pctl_ok_def file_left_def word_le_nat_alt split: option.splits)

lemma p_cp_offset_add:
  assumes "pctl_ok p" and "n \<le> file_left p"
  shows "unat (p_cp_offset p + of_nat n) = unat (p_cp_offset p) + n"
    and "\<not> p_used_size p < p_cp_offset p + of_nat n"
    and "p_cp_offset p + of_nat n = p_used_size p \<longleftrightarrow> n = file_left p"
proof -
  have le: "unat (p_cp_offset p) \<le> unat (p_used_size p)"
    using assms(1) by (simp add: pctl_ok_def word_le_nat_alt)
  have n: "n < 4294967296" "unat (p_cp_offset p) + n < 4294967296"
    using assms(2) le unat_u32 [of "p_used_size p"] unfolding file_left_def by linarith+
  then have "unat (of_nat n :: u32) = n" by simp
  with n(2) show a: "unat (p_cp_offset p + of_nat n) = unat (p_cp_offset p) + n"
    by (simp only: unat_word_ariths) simp
  show "\<not> p_used_size p < p_cp_offset p + of_nat n"
    using a assms(2) le by (simp add: word_less_nat_alt file_left_def)
  show "p_cp_offset p + of_nat n = p_used_size p \<longleftrightarrow> n = file_left p"
    using a le assms(2) by (auto simp: word_unat_eq_iff file_left_def)
qed

lemma heap_read_pending:
  assumes "pctl_ok p" and "n \<le> file_left p"
  shows "heap_read (p_pullout p) (unat (p_cp_offset p)) n = Inr (take n (file_pending p))"
  using assms
  by (auto simp: heap_read_def file_pending_def pctl_ok_def mread_def file_left_def word_le_nat_alt
      min_def split: option.splits)

lemma file_pending_advance:
  assumes "pctl_ok p" and "n \<le> file_left p"
  shows "file_pending (p\<lparr>p_cp_offset := p_cp_offset p + of_nat n\<rparr>) = drop n (file_pending p)"
  using p_cp_offset_add(1) [OF assms]
  by (simp add: file_pending_def file_left_def drop_take add.commute split: option.splits)

lemma udb_debug_pullfile_pullout_chunk:
  assumes i: "udbd_inv s" and p: "prot_size s = 1470"
    and r: "req s = ascii ''udb'' @ [c] @ le32 (of_nat n) @ rest"
    and n: "n \<le> file_left (pull_ctl s)" "n \<le> 1470"
  shows "\<exists>s'. udb_debug_pullfile_pullout s = Inr s' \<and> rsp_len s' = 1470 \<and>
      rsp s' = take n (file_pending (pull_ctl s)) @ replicate (1470 - n) 0 \<and>
      file_pending (pull_ctl s') = drop n (file_pending (pull_ctl s)) \<and>
      udb_auth_ok s' = udb_auth_ok s"
proof -
  define c where "c = pull_ctl s"
  note ok = udbd_invD(7) [OF i, folded c_def]
  define s1 where "s1 = s\<lparr>rsp := replicate 1470 (0 :: byte)\<rparr>"
  have cl: "clear_rsp s = Inr s1"
    unfolding s1_def using p udbd_invD(2) [OF i] by (rule clear_rsp_full)
  have nl: "n \<le> file_left c" using n(1) by (simp add: c_def)
  have un: "unat (of_nat n :: u32) = n" using n(2) by simp
  have c1: "pull_ctl s1 = c" by (simp add: s1_def c_def)
  have len: "length (take n (file_pending c)) = n" using nl length_file_pending [OF ok] by simp
  define d where "d = take n (file_pending c)"
  define s2 where "s2 = set_rsp_len (s1\<lparr>rsp := d @ replicate (1470 - n) 0\<rparr>)"
  have pr: "put_rsp 0 d s1 = Inr (s1\<lparr>rsp := d @ replicate (1470 - n) 0\<rparr>)"
    using len n(2) by (subst put_rsp_0) (simp_all add: d_def [symmetric] s1_def)
  have e: "udb_debug_pullfile_pullout s =
      Inr (if n = file_left c then s2\<lparr>pull_ctl := \<lparr>p_pullout = None, p_used_size = 0, p_cp_offset = 0\<rparr>\<rparr>
           else s2\<lparr>pull_ctl := c\<lparr>p_cp_offset := p_cp_offset c + of_nat n\<rparr>\<rparr>)"
    unfolding udb_debug_pullfile_pullout_def r pull_request_arg rbind_Inr cl c1 rd32_le32 un Let_def
      heap_read_pending [OF ok nl, folded d_def] pr p_cp_offset_add(3) [OF ok nl]
    using p_cp_offset_add(2) [OF ok nl] by (simp add: s2_def)
  have none: "file_pending \<lparr>p_pullout = None, p_used_size = 0, p_cp_offset = 0\<rparr> = []"
    by (simp add: file_pending_def)
  have end_ok: "drop n (file_pending c) = []" if "n = file_left c"
    using that length_file_pending [OF ok] by simp
  show ?thesis
    unfolding e c_def [symmetric] using file_pending_advance [OF ok nl] none end_ok
    by (simp add: s2_def s1_def set_rsp_len_def p d_def)
qed

lemma pull_chunk_turn:
  assumes p: "pull_pending s xs" and n: "n \<le> length xs" "n \<le> 1470"
  shows "\<exists>s'. net_device E s (ascii ''udb'' @ [chan_code UDB_PULL_FILE_PULLOUT] @ le32 (of_nat n) @ replicate (1470 - 8) 0)
      = Inr (s', Some (take n xs @ replicate (1470 - n) 0)) \<and> pull_pending s' (drop n xs)"
  unfolding pull_pending_def
proof (rule chunk_turn)
  show i: "udbd_inv s" and auth: "udb_auth_ok s" using p by (simp_all add: pull_pending_def)
  have xs: "file_pending (pull_ctl s) = xs" using p by (simp add: pull_pending_def)
  fix m assume m: "m = ascii ''udb'' @ [chan_code UDB_PULL_FILE_PULLOUT] @ le32 (of_nat n) @ replicate (1470 - 8) 0"
    and im: "udbd_inv (net_request m s)"
  have left: "n \<le> file_left (pull_ctl s)"
    using n(1) xs length_file_pending [OF udbd_invD(7) [OF i]] by simp
  show "\<exists>s1. udb_dispatch E (chan_code UDB_PULL_FILE_PULLOUT) (net_request m s) = Inr s1 \<and> rsp_len s1 = 1470 \<and>
      rsp s1 = take n xs @ replicate (1470 - n) 0 \<and> udb_auth_ok s1 = udb_auth_ok s \<and>
      file_pending (pull_ctl (net_idle s1)) = drop n xs"
    using udb_debug_pullfile_pullout_chunk [OF im, of "chan_code UDB_PULL_FILE_PULLOUT" n] m left n(2) xs
    by (auto simp: udb_dispatch_def)
qed simp

lemma length_pull_pending: "pull_pending s xs \<Longrightarrow> length xs < 2 ^ 32"
  using length_file_pending [OF udbd_invD(7), of s]
  by (auto simp: pull_pending_def file_left_def less_imp_diff_less)

interpretation pull_chan: chunk_service "net_device E" 1470 UDB_PULL_FILE_PULLOUT pull_pending for E
  by (unfold_locales, simp, simp, erule length_pull_pending, erule pull_chunk_turn, assumption+)

end
