(* ===== verification/PushService.thy ===== *)
theory PushService
  imports ChunkService
begin

text \<open>
  The contract between the client's push loop and the device: a device that has received
  \<open>xs\<close> answers a UDB_PUSH_FILE_PROC request with \<open>d\<close> and has then received \<open>xs @ d\<close>.
  Under it the client's loop delivers the whole file, whatever its size.
\<close>

lemma push_request_Inr:
  assumes "7 \<le> P" and "P \<noteq> 64" and "n \<le> P - 6" and "n < 65536" and "n \<le> length rest"
  shows "push_request P (of_nat n) rest =
    Inr (ascii ''udb'' @ [chan_code UDB_PUSH_FILE_PROC] @ le16 (of_nat n) @ take n rest @ replicate (P - 6 - n) 0,
         drop n rest)"
proof -
  have u: "unat (of_nat n :: u16) = n" using assms(4) by (simp add: unat_of_nat)
  have l: "length (take n rest) = n" using assms(5) by simp
  define hdr where "hdr = ascii ''udb'' @ [chan_code UDB_PUSH_FILE_PROC]"
  have h: "length hdr = 4" by (simp add: hdr_def)
  have nr: "new_request P UDB_PUSH_FILE_PROC = Inr (hdr @ replicate (P - 4) 0)"
    using assms(1) by (simp add: new_request_Inr hdr_def)
  have w1: "mwrite 4 (le16 (of_nat n)) (hdr @ replicate (P - 4) 0)
      = Inr (hdr @ le16 (of_nat n) @ replicate (P - 6) 0)"
    using assms(1) h by (simp add: mwrite_def)
  have w2: "mwrite 6 (take n rest) (hdr @ le16 (of_nat n) @ replicate (P - 6) 0)
      = Inr (hdr @ le16 (of_nat n) @ take n rest @ replicate (P - 6 - n) 0)"
    using assms h l by (simp add: mwrite_def)
  show ?thesis
    unfolding push_request_def nr rbind_Inr u Let_def w1 w2 UDB_PROT_SIZE_DEFAULT_def
    using assms(2) by (simp add: hdr_def)
qed

lemma push_max_pkg_size_eq:
  assumes "7 \<le> P" and "P < 65536" and "P \<noteq> 64"
  shows "push_max_pkg_size P = of_nat (P - 6)"
proof -
  have "(of_nat P :: u16) - 4 - 2 = of_nat P - of_nat 6" by simp
  also have "\<dots> = of_nat (P - 6)" using assms(1) by (subst of_nat_diff) simp_all
  finally show ?thesis using assms(3) by (simp add: push_max_pkg_size_def UDB_PROT_SIZE_DEFAULT_def)
qed

locale push_service =
  fixes xfer :: "'s device" and P :: nat and received :: "'s \<Rightarrow> byte list \<Rightarrow> bool"
  assumes P_bounds: "7 \<le> P" "P < 65536" "P \<noteq> 64"
    and proc: "received s xs \<Longrightarrow> length d \<le> P - 6 \<Longrightarrow>
      \<exists>s' r. xfer s (ascii ''udb'' @ [chan_code UDB_PUSH_FILE_PROC] @ le16 (of_nat (length d)) @ d
                       @ replicate (P - 6 - length d) 0) = Inr (s', Some r) \<and> received s' (xs @ d)"
begin

lemma cp_size_min:
  assumes "length rest < 2 ^ 32"
  shows "(if unat (of_nat (length rest) :: u32) < unat (push_max_pkg_size P)
          then ucast (of_nat (length rest) :: u32) else push_max_pkg_size P)
         = (of_nat (min (length rest) (P - 6)) :: u16)"
proof -
  have m: "unat (push_max_pkg_size P) = P - 6"
    unfolding push_max_pkg_size_eq [OF P_bounds] unat_of_nat using P_bounds by simp
  have l: "unat (of_nat (length rest) :: u32) = length rest" using assms by simp
  have "ucast (of_nat (length rest) :: u32) = (of_nat (length rest) :: u16)"
    using assms by (simp add: unsigned_of_nat take_bit_nat_eq_self)
  then show ?thesis
    unfolding m l using P_bounds by (simp add: push_max_pkg_size_eq min_def)
qed

lemma push_loop_received:
  assumes "received s xs" and "length rest < 2 ^ 32" and "0 < fuel" and "length rest \<le> fuel * (P - 6)"
  shows "\<exists>s'. push_loop fuel xfer P (of_nat (length rest)) rest s = Inr s' \<and> received s' (xs @ rest)"
  using assms
proof (induction fuel arbitrary: s xs rest)
  case 0
  then show ?case by simp
next
  case (Suc fuel)
  define n where "n = min (length rest) (P - 6)"
  have n: "n \<le> P - 6" "n < 65536" "n \<le> length rest" using P_bounds by (simp_all add: n_def)
  have l: "length (take n rest) = n" using n by simp
  define msg where "msg = ascii ''udb'' @ [chan_code UDB_PUSH_FILE_PROC] @ le16 (of_nat n)
      @ take n rest @ replicate (P - 6 - n) 0"
  obtain s1 r where s1: "xfer s msg = Inr (s1, Some r)" "received s1 (xs @ take n rest)"
    using proc [OF Suc.prems(1), of "take n rest"] n(1) unfolding l msg_def by blast
  obtain rb where x: "udb_xfer xfer P s msg = Inr (s1, rb)"
    using s1(1) by (simp add: udb_xfer_def Let_def)
  have u: "unat (of_nat n :: u16) = n" using n(2) by (simp add: unat_of_nat)
  have left: "(of_nat (length rest) :: u32) - ucast (of_nat n :: u16) = of_nat (length (drop n rest))"
    using n(2,3) by (simp add: of_nat_diff unsigned_of_nat take_bit_nat_eq_self)
  have zero: "((of_nat (length (drop n rest)) :: u32) = 0) \<longleftrightarrow> length rest \<le> P - 6"
    using Suc.prems(2) by (subst of_nat_u32_eq_0) (auto simp: n_def)
  have turn: "push_loop (Suc fuel) xfer P (of_nat (length rest)) rest s
      = (if length rest \<le> P - 6 then Inr s1
         else push_loop fuel xfer P (of_nat (length (drop n rest))) (drop n rest) s1)"
    unfolding push_loop.simps Let_def cp_size_min [OF Suc.prems(2)] n_def [symmetric]
      push_request_Inr [OF P_bounds(1,3) n] msg_def [symmetric] rbind_Inr prod.case x left zero ..
  show ?case
  proof (cases "length rest \<le> P - 6")
    case True
    then have "take n rest = rest" by (simp add: n_def)
    with True s1 turn show ?thesis by simp
  next
    case False
    then have f: "0 < fuel" using Suc.prems(4) by (cases fuel) auto
    have "length rest = (P - 6) + length (drop n rest)" "length rest \<le> (P - 6) + fuel * (P - 6)"
      using Suc.prems(4) False by (simp_all add: n_def)
    then have fu: "length (drop n rest) \<le> fuel * (P - 6)" by linarith
    have "length (drop n rest) < 2 ^ 32" using Suc.prems(2) by (simp add: less_imp_diff_less)
    from Suc.IH [OF s1(2) this f fu] turn False show ?thesis by simp
  qed
qed

end

end
