(* ===== verification/EndToEnd.thy ===== *)
theory EndToEnd
  imports NetDevice PushService
begin

text \<open>
  The client against the daemon, whole operations: auth, pull_file, push_file, exec_cmd and
  the log command of the daemon's shell, over UDP (protocol size 1470).
\<close>

subsection \<open>A request with a payload\<close>

text \<open>The datagram with a payload at offset 4, and the string the handlers find in it.\<close>

definition payload_msg :: "udb_chan_id \<Rightarrow> byte list \<Rightarrow> byte list" where
  "payload_msg ch p = ascii ''udb'' @ [chan_code ch] @ p @ replicate (1466 - length p) 0"

lemma length_payload_msg [simp]: "length p \<le> 1466 \<Longrightarrow> length (payload_msg ch p) = 1470"
  by (simp add: payload_msg_def)

lemma payload_request:
  assumes "length p \<le> 1466"
  shows "rbind (new_request 1470 ch) (mwrite 4 p) = Inr (payload_msg ch p)"
  using assms by (simp add: new_request_Inr mwrite_def payload_msg_def)

lemma cstr_payload_msg:
  assumes "length p < 1466" and "0 \<notin> set p"
  shows "cstr 4 (payload_msg ch p) = Inr p"
proof -
  obtain k where k: "1466 - length p = Suc k" using assms(1) by (cases "1466 - length p") auto
  show ?thesis
    unfolding payload_msg_def k using cstr_terminated [of "ascii ''udb'' @ [chan_code ch]" 4 p] assms
    by simp
qed

lemma xfer_answer:
  assumes i: "udbd_inv s" and p: "length p \<le> 1466" and a: "udb_auth_ok s" and ch: "ch \<noteq> UDB_AUTH"
    and d: "udb_dispatch E (chan_code ch) (net_request (payload_msg ch p) s) = Inr s1"
    and r: "rsp_len s1 = 1470"
  shows "udb_xfer (net_device E) 1470 s (payload_msg ch p) = Inr (net_idle s1, rsp s1 @ [0], 1470)"
    and "udbd_inv (net_idle s1)"
proof -
  have b: "length (p @ replicate (1466 - length p) (0 :: byte)) = 1466" using p by simp
  note x = net_device_answer [OF i b a ch d [unfolded payload_msg_def] r]
  then show "udbd_inv (net_idle s1)" by simp
  have "udbd_inv s1"
    using d by (rule udb_dispatch_inv) (simp add: udbd_inv_net_request i p)
  then have l: "length (rsp s1) = 1470" by (rule udbd_invD)
  have z: "drop 1470 (replicate (1470 + 1) (0 :: byte)) = [0]" by (simp only: drop_replicate) simp
  show "udb_xfer (net_device E) 1470 s (payload_msg ch p) = Inr (net_idle s1, rsp s1 @ [0], 1470)"
    unfolding udb_xfer_def payload_msg_def using x l z by (simp add: Let_def del: replicate_Suc)
qed

text \<open>The size the client reads from the answer.\<close>

lemma mread_size: "length (le32 w @ rest @ [0]) \<ge> 4 \<Longrightarrow> mread 0 4 ((le32 w @ rest) @ [0]) = Inr (le32 w)"
  by (simp add: mread_def)

lemma hook_printf_state:
  assumes "rlog_ok (rlog s)"
  obtains l where "hook_printf msg s = Inr (s\<lparr>rlog := l\<rparr>)"
  using hook_printf_ok [OF assms, of msg] by blast

subsection \<open>Pulling a file\<close>

lemma udb_debug_pullfile_init_file:
  assumes i: "udbd_inv s" and p: "prot_size s = 1470" and r: "cstr 4 (req s) = Inr path"
    and f: "files s (e_resolve E (cwd s) path) = Some content"
    and m: "e_malloc E (length content) \<or> content = []" and len: "length content < 2 ^ 32"
  shows "\<exists>s'. udb_debug_pullfile_init E s = Inr s' \<and> rsp_len s' = 1470 \<and>
      rsp s' = le32 (of_nat (length content)) @ drop 4 (rsp s) \<and>
      file_pending (pull_ctl s') = content \<and> udb_auth_ok s' = udb_auth_ok s \<and> files s' = files s"
proof -
  obtain l where h: "hook_printf (path @ ascii '' size is '' @
       fmt_d (sint (of_nat (length content) :: u32)) @ [NEWLINE]) s = Inr (s\<lparr>rlog := l\<rparr>)"
    by (rule hook_printf_state [OF udbd_invD(4) [OF i]])
  define c where "c = \<lparr>p_pullout = Some content, p_used_size = of_nat (length content), p_cp_offset = 0\<rparr>"
  have o: "pullfile_open E path s = Inr (s\<lparr>rlog := l, pull_ctl := c\<rparr>)"
    unfolding pullfile_open_def f option.case h rbind_Inr using m by (auto simp: c_def)
  have pc: "file_pending c = content" using len by (simp add: c_def file_pending_def file_left_def)
  have "4 \<le> length (rsp s)" using udbd_invD(2) [OF i] by simp
  then have put: "put_rsp 0 (le32 (p_used_size c)) (s\<lparr>rlog := l, pull_ctl := c\<rparr>)
      = Inr (s\<lparr>rlog := l, pull_ctl := c, rsp := le32 (of_nat (length content)) @ drop 4 (rsp s)\<rparr>)"
    by (subst put_rsp_0) (simp_all add: c_def)
  have sz: "p_used_size (pull_ctl (s\<lparr>rlog := l, pull_ctl := c\<rparr>)) = p_used_size c" by simp
  show ?thesis
    unfolding udb_debug_pullfile_init_def r rbind_Inr o sz put using pc p by (simp add: set_rsp_len_def)
qed

lemma udb_debug_pullfile_init_missing:
  assumes i: "udbd_inv s" and p: "prot_size s = 1470" and r: "cstr 4 (req s) = Inr path"
    and f: "files s (e_resolve E (cwd s) path) = None"
  shows "\<exists>s'. udb_debug_pullfile_init E s = Inr s' \<and> rsp_len s' = 1470 \<and>
      rsp s' = le32 0 @ drop 4 (rsp s) \<and> file_pending (pull_ctl s') = [] \<and>
      udb_auth_ok s' = udb_auth_ok s \<and> files s' = files s"
proof -
  obtain l where h: "hook_printf (ascii ''Error opening input file '' @ path @ [NEWLINE]) s = Inr (s\<lparr>rlog := l\<rparr>)"
    by (rule hook_printf_state [OF udbd_invD(4) [OF i]])
  define c where "c = \<lparr>p_pullout = None :: byte list option, p_used_size = 0, p_cp_offset = 0\<rparr>"
  have o: "pullfile_open E path s = Inr (s\<lparr>rlog := l, pull_ctl := c\<rparr>)"
    unfolding pullfile_open_def f option.case h rbind_Inr by (simp add: c_def)
  have "4 \<le> length (rsp s)" using udbd_invD(2) [OF i] by simp
  then have put: "put_rsp 0 (le32 (p_used_size c)) (s\<lparr>rlog := l, pull_ctl := c\<rparr>)
      = Inr (s\<lparr>rlog := l, pull_ctl := c, rsp := le32 0 @ drop 4 (rsp s)\<rparr>)"
    by (subst put_rsp_0) (simp_all add: c_def)
  have sz: "p_used_size (pull_ctl (s\<lparr>rlog := l, pull_ctl := c\<rparr>)) = p_used_size c" by simp
  show ?thesis
    unfolding udb_debug_pullfile_init_def r rbind_Inr o sz put using p
    by (simp add: set_rsp_len_def c_def file_pending_def)
qed

lemma pull_file_content:
  assumes i: "udbd_inv s" and a: "udb_auth_ok s"
    and path: "0 \<notin> set path" "length path < 1466"
    and f: "files s (e_resolve E (cwd s) path) = r"
    and c: "content = (case r of None \<Rightarrow> [] | Some c \<Rightarrow> c)"
    and m: "e_malloc E (length content) \<or> content = []" and len: "length content < 2 ^ 32"
    and fuel: "0 < fuel" "length content \<le> fuel * 1470"
  shows "\<exists>s'. pull_file fuel (net_device E) 1470 path s = Inr (s', content) \<and> pull_pending s' []"
proof -
  define m where "m = payload_msg UDB_PULL_FILE_INIT path"
  have lp: "length path \<le> 1466" using path by simp
  have im: "udbd_inv (net_request m s)"
    using i lp by (intro udbd_inv_net_request) (simp_all add: m_def)
  have cs: "cstr 4 (req (net_request m s)) = Inr path"
    using cstr_payload_msg [OF path(2,1)] by (simp add: m_def)
  obtain s1 where s1: "udb_debug_pullfile_init E (net_request m s) = Inr s1" "rsp_len s1 = 1470"
      "rsp s1 = le32 (of_nat (length content)) @ drop 4 (rsp s)"
      "file_pending (pull_ctl s1) = content" "udb_auth_ok s1"
  proof (cases r)
    case None
    then show ?thesis
      using udb_debug_pullfile_init_missing [OF im _ cs, of E] f a c that by auto
  next
    case (Some x)
    then show ?thesis
      using udb_debug_pullfile_init_file [OF im _ cs, of E content] f a c assms(7) len that by auto
  qed
  have d: "udb_dispatch E (chan_code UDB_PULL_FILE_INIT) (net_request m s) = Inr s1"
    using s1(1) by (simp add: udb_dispatch_def)
  note x = xfer_answer [OF i lp a _ d [unfolded m_def] s1(2)]
  have pend: "pull_pending (net_idle s1) content"
    using x(2) s1(4,5) by (simp add: pull_pending_def)
  have rq: "rbind (new_request 1470 UDB_PULL_FILE_INIT) (\<lambda>wb. rbind (mwrite 4 path wb) k)
      = k (payload_msg UDB_PULL_FILE_INIT path)" for k :: "byte list \<Rightarrow> fault + udbd \<times> byte list"
    using payload_request [OF lp, of UDB_PULL_FILE_INIT] by (simp add: rbind_assoc [symmetric])
  have "pull_file fuel (net_device E) 1470 path s
      = pullout_loop fuel sink_file (net_device E) 1470 UDB_PULL_FILE_PULLOUT
          (of_nat (length content)) (net_idle s1) []"
    unfolding pull_file_def rq using x(1) s1(3) by (simp add: mread_def)
  with pull_chan.pullout_loop_file [OF pend fuel, of E "[]"] show ?thesis by simp
qed

subsection \<open>Running a command\<close>

text \<open>The words the client sends, each with a space behind it: no word starts at 60 or later.\<close>

fun sent_args :: "nat \<Rightarrow> byte list list \<Rightarrow> byte list list" where
  "sent_args offset [] = []"
| "sent_args offset (a # as) =
     a # (if 60 \<le> offset + length a + 1 then [] else sent_args (offset + length a + 1) as)"

definition cmd_line :: "byte list list \<Rightarrow> byte list" where
  "cmd_line args = concat (map (\<lambda>a. a @ [SPACE]) args)"

lemma cmd_line_simps [simp]:
  "cmd_line [] = []" "cmd_line (a # as) = a @ [SPACE] @ cmd_line as"
  by (simp_all add: cmd_line_def)

lemma sent_args_all: "offset + length (cmd_line args) \<le> 60 \<Longrightarrow> sent_args offset args = args"
proof (induction offset args rule: sent_args.induct)
  case (2 offset a as)
  then show ?case by (cases as) auto
qed simp

lemma put_args_line:
  assumes "length pre = offset" and "length (cmd_line (sent_args offset args)) \<le> k"
  shows "put_args args offset (pre @ replicate k 0)
    = Inr (pre @ cmd_line (sent_args offset args) @ replicate (k - length (cmd_line (sent_args offset args))) 0)"
  using assms
proof (induction args arbitrary: pre offset k)
  case Nil
  then show ?case by simp
next
  case (Cons a args)
  have w1: "mwrite offset a (pre @ replicate k 0) = Inr (pre @ a @ replicate (k - length a) 0)"
    using Cons.prems by (auto simp: mwrite_def)
  have k: "k - length a = Suc (k - length a - 1)" using Cons.prems by auto
  have w2: "mwrite (offset + length a) [SPACE] (pre @ a @ replicate (k - length a) 0)
      = Inr ((pre @ a @ [SPACE]) @ replicate (k - length a - 1) 0)"
    using Cons.prems by (subst k) (simp add: mwrite_def)
  show ?case
  proof (cases "60 \<le> offset + length a + 1")
    case True
    then show ?thesis using w1 w2 by simp
  next
    case False
    have "put_args args (offset + length a + 1) ((pre @ a @ [SPACE]) @ replicate (k - length a - 1) 0)
      = Inr ((pre @ a @ [SPACE]) @ cmd_line (sent_args (offset + length a + 1) args)
          @ replicate (k - length a - 1 - length (cmd_line (sent_args (offset + length a + 1) args))) 0)"
      using Cons.prems False by (intro Cons.IH) auto
    with w1 w2 False show ?thesis by simp
  qed
qed

lemma command_request_line:
  assumes "length (cmd_line (sent_args 4 args)) \<le> 1466"
  shows "command_request 1470 ch args = Inr (payload_msg ch (cmd_line (sent_args 4 args)))"
  using put_args_line [of "ascii ''udb'' @ [chan_code ch]" 4 args 1466] assms
  by (simp add: command_request_def new_request_Inr payload_msg_def)

text \<open>
  The commands that are not built into the daemon: one word string among several, or a
  pipeline without an empty stage whose only stage is not exit or cd.
\<close>

definition external_cmd :: "byte list \<Rightarrow> bool" where
  "external_cmd cmd \<longleftrightarrow> cmd \<noteq> [] \<and>
     (let input = butlast cmd in
      is_blank input \<or> is_multi_cmd input \<or> hd input = BAR \<or>
      [] \<notin> set (split_on BAR input) \<and>
      (BAR \<in> set input \<or>
       hd (filter (\<lambda>w. w \<noteq> []) (split_on SPACE input)) \<notin> {ascii ''exit'', ascii ''cd''}))"

lemma hd_of_take: "take k xs = n # ys \<Longrightarrow> hd xs = n"
  by (cases xs; cases k) auto

lemma external_cmd_handle:
  assumes "external_cmd cmd"
  shows "uvc_runcmd_input_handle E cmd s = Inr (s, 0)"
proof -
  define input where "input = butlast cmd"
  have ne: "cmd \<noteq> []" using assms by (simp add: external_cmd_def)
  show ?thesis
  proof (cases "input \<noteq> [] \<and> \<not> is_blank input \<and> \<not> is_multi_cmd input \<and> hd input \<noteq> BAR")
    case False
    then show ?thesis using ne by (auto simp: uvc_runcmd_input_handle_def Let_def input_def)
  next
    case True
    then have p: "[] \<notin> set (split_on BAR input)"
      and b: "BAR \<in> set input \<or>
        hd (filter (\<lambda>w. w \<noteq> []) (split_on SPACE input)) \<notin> {ascii ''exit'', ascii ''cd''}"
      using assms by (auto simp: external_cmd_def Let_def input_def)
    have r: "read_all_slots (parse_commands_with_pipes input) = Inr ()"
      using p read_all_slots_iff by blast
    show ?thesis
    proof (cases "BAR \<in> set input")
      case bar: True
      then have "count_list input BAR \<noteq> 0" by (simp add: count_list_0_iff)
      then have "1 < cmd_count (parse_commands_with_pipes input)"
        by (simp add: parse_commands_with_pipes_def Let_def)
      then show ?thesis
        unfolding uvc_runcmd_input_handle_def input_def [symmetric] Let_def using ne True r by simp
    next
      case nobar: False
      note single = parse_single [OF nobar]
      obtain n where n: "c_name (parse_command input) = Some n"
        using parse_command_name [of input] True by blast
      have "n = hd (filter (\<lambda>w. w \<noteq> []) (split_on SPACE input))"
        using n by (auto simp: parse_command_def Let_def strtok_all_split_on ARG_MAX_COUNT_def
            split: list.splits dest: hd_of_take)
      with b nobar have "check_built_in (parse_command input) = Inr False"
        using n by (simp add: check_built_in_def)
      then show ?thesis
        unfolding uvc_runcmd_input_handle_def input_def [symmetric] Let_def
        using ne True r single by simp
    qed
  qed
qed

text \<open>Running the command in a ready state: the output is what is pending.\<close>

lemma runcmd_exec_output:
  assumes r: "run_ready s" and sys: "popen_sys_ok (e_popen E (popen_st s)) (popen_st s)"
    and e: "e_exec E (files s) (cwd s) (popen_argv True cmd) = (out, fs)"
    and data: "data = take 655359 out"
  shows "\<exists>s'. runcmd_exec E cmd s = Inr s' \<and> rsp_len s' = int (prot_size s) \<and>
      rsp s' = le32 (of_nat (length data)) @ drop 4 (rsp s) \<and>
      ctl_pending (run_ctl s') (runcmd_buf s') = data \<and> files s' = fs \<and>
      udb_auth_ok s' = udb_auth_ok s"
proof -
  obtain tab1 fd tab2 st where
      po: "uvc_popen (e_popen E (popen_st s)) cmd (ascii ''r'') True (popen_st s)
             = Inr (tab1, Some (fd, popen_argv True cmd))"
    and pc: "uvc_pclose (e_popen E (popen_st s)) (Some fd) tab1 = Inr (tab2, st)"
    using popen_pclose_ok [OF sys] by blast
  note ctl = run_ready_ctl [OF r]
  have ld: "length data \<le> 655359" by (simp add: data)
  then have ld': "length data < 4294967296" by simp
  define s1 where "s1 = s\<lparr>popen_st := tab1, runcmd_buf := (\<lambda>i. if i < 655360 then 0 else runcmd_buf s i)\<rparr>"
  have z: "sbuf_zero (pullout (run_ctl (s\<lparr>popen_st := tab1\<rparr>)))
      (unat (total_size (run_ctl (s\<lparr>popen_st := tab1\<rparr>)))) (s\<lparr>popen_st := tab1\<rparr>) = Inr s1"
    using ctl by (simp add: sbuf_zero_def UDB_BUF_SIZE_eq s1_def cong: if_cong)
  define s2 where "s2 = s1\<lparr>files := fs\<rparr>"
  have ch: "run_child E (popen_argv True cmd) s1 = (out, s2)"
    using e by (simp add: run_child_def s1_def s2_def)
  have u: "unat (total_size (run_ctl s2) - 1) = 655359"
    using ctl by (simp add: s2_def s1_def)
  define s3 where "s3 = s2\<lparr>runcmd_buf := fput 0 data (runcmd_buf s2)\<rparr>"
  have w: "sbuf_write (pullout (run_ctl s2)) 0 data s2 = Inr s3"
    using ctl ld by (simp add: sbuf_write_def s3_def s2_def s1_def UDB_BUF_SIZE_eq)
  define s4 where "s4 = s3\<lparr>popen_st := tab2\<rparr>"
  have c: "do_pclose E (e_popen E (popen_st s)) fd s3 = Inr s4"
    using pc by (simp add: do_pclose_def s4_def s3_def s2_def s1_def)
  have "4 \<le> length (rsp s4)"
    using udbd_invD(2) [OF run_ready_inv [OF r]] by (simp add: s4_def s3_def s2_def s1_def)
  then have f: "exec_finish (of_nat (length data)) s4 = Inr ((set_rsp_len
      (s4\<lparr>rsp := le32 (of_nat (length data)) @ drop 4 (rsp s4)\<rparr>))\<lparr>run_ctl := (run_ctl s4)
        \<lparr>used_size := of_nat (length data), cp_offset := 0\<rparr>\<rparr>)"
    by (simp add: exec_finish_def put_rsp_0 set_rsp_len_def)
  have rd: "runcmd_read E (e_popen E (popen_st s)) fd (popen_argv True cmd) (s\<lparr>popen_st := tab1\<rparr>)
      = exec_finish (of_nat (length data)) s4"
    unfolding runcmd_read_def z rbind_Inr ch prod.case Let_def u data [symmetric] w c ..
  have x: "runcmd_exec E cmd s = exec_finish (of_nat (length data)) s4"
    unfolding runcmd_exec_def Let_def do_popen_def po rbind_Inr prod.case option.case by (rule rd)
  show ?thesis
    unfolding x f using ld' fget_fput_same [of 0 data]
    by (simp add: s4_def s3_def s2_def s1_def set_rsp_len_def ctl_pending_def ctl_left_def)
qed

lemma udb_debug_runcmd_external:
  assumes i: "udbd_inv s" and p: "prot_size s = 1470" and q: "cstr 4 (req s) = Inr cmd"
    and x: "external_cmd cmd" and sys: "popen_sys_ok (e_popen E (popen_st s)) (popen_st s)"
    and e: "e_exec E (files s) (cwd s) (popen_argv True cmd) = (out, fs)"
  shows "\<exists>s'. udb_debug_runcmd E s = Inr s' \<and> rsp_len s' = 1470 \<and>
      rsp s' = le32 (of_nat (length (take 655359 out))) @ drop 4 (rsp s) \<and>
      ctl_pending (run_ctl s') (runcmd_buf s') = take 655359 out \<and> files s' = fs \<and>
      udb_auth_ok s' = udb_auth_ok s"
proof -
  have r: "run_ready (runcmd_setup s)" by (rule run_ready_setup [OF i])
  have d: "udb_debug_runcmd E s = runcmd_exec E cmd (runcmd_setup s)"
    using q external_cmd_handle [OF x, of E "runcmd_setup s"]
    by (simp add: udb_debug_runcmd_def Let_def runcmd_setup_def)
  show ?thesis
    unfolding d using runcmd_exec_output [OF r, of E cmd out fs "take 655359 out"] sys e p
    by (simp add: runcmd_setup_def)
qed

lemma exec_cmd_output:
  assumes i: "udbd_inv s" and a: "udb_auth_ok s"
    and c: "cmd = cmd_line (sent_args 4 args)" "0 \<notin> set cmd" "length cmd < 1466" "external_cmd cmd"
    and sys: "popen_sys_ok (e_popen E (popen_st s)) (popen_st s)"
    and e: "e_exec E (files s) (cwd s) (popen_argv True cmd) = (out, fs)"
    and o: "0 \<notin> set out" and fuel: "0 < fuel" "length (take 655359 out) \<le> fuel * 1470"
  shows "\<exists>s'. exec_cmd fuel (net_device E) 1470 args s = Inr (s', take 655359 out) \<and> run_pending s' []"
proof -
  define m where "m = payload_msg UDB_RUN_CMD cmd"
  have lc: "length cmd \<le> 1466" using c by simp
  have im: "udbd_inv (net_request m s)"
    using i lc by (intro udbd_inv_net_request) (simp_all add: m_def)
  have cs: "cstr 4 (req (net_request m s)) = Inr cmd"
    using cstr_payload_msg [OF c(3,2)] by (simp add: m_def)
  obtain s1 where s1: "udb_debug_runcmd E (net_request m s) = Inr s1" "rsp_len s1 = 1470"
      "rsp s1 = le32 (of_nat (length (take 655359 out))) @ drop 4 (rsp s)"
      "ctl_pending (run_ctl s1) (runcmd_buf s1) = take 655359 out" "udb_auth_ok s1"
    using udb_debug_runcmd_external [OF im _ cs c(4), of E out fs] sys e a by auto
  have d: "udb_dispatch E (chan_code UDB_RUN_CMD) (net_request m s) = Inr s1"
    using s1(1) by (simp add: udb_dispatch_def)
  note x = xfer_answer [OF i lc a _ d [unfolded m_def] s1(2)]
  have pend: "run_pending (net_idle s1) (take 655359 out)"
    using x(2) s1(4,5) by (simp add: run_pending_def)
  have o': "0 \<notin> set (take 655359 out)" using o by (meson in_set_takeD)
  have "exec_cmd fuel (net_device E) 1470 args s
      = pullout_loop fuel sink_text (net_device E) 1470 UDB_RUN_CMD_PULLOUT
          (of_nat (length (take 655359 out))) (net_idle s1) []"
    unfolding exec_cmd_def exec_on_def using x(1) s1(3) command_request_line [of args UDB_RUN_CMD] c(1) lc
    by (simp add: mread_def)
  with run_chan.pullout_loop_text [OF pend o' fuel, of E "[]"] show ?thesis by simp
qed

subsection \<open>The log command\<close>

lemma udb_debug_msh_log:
  assumes i: "udbd_inv s" and p: "prot_size s = 1470"
    and q: "req s = ascii ''udb'' @ [c] @ ascii ''log'' @ rest"
    and h: "log_repr h (rlog s)" and d: "data = drop (length h - 512) h"
  shows "\<exists>s'. udb_debug_msh s = Inr s' \<and> rsp_len s' = 1470 \<and>
      rsp s' = le32 (of_nat (length data)) @ drop 4 (rsp s) \<and>
      ctl_pending (msh_ctl s') (mshcmd_buf s') = data \<and> udb_auth_ok s' = udb_auth_ok s"
proof -
  define s1 where "s1 = s\<lparr>msh_ctl := (msh_ctl s)\<lparr>pullout := Some MshcmdBuf, total_size := of_nat MSHCMD_BUF_SIZE\<rparr>,
      mshcmd_buf := (\<lambda>i. if i < 512 then 0 else mshcmd_buf s i)\<rparr>"
  have z: "sbuf_zero (Some MshcmdBuf) 512
      (s\<lparr>msh_ctl := (msh_ctl s)\<lparr>pullout := Some MshcmdBuf, total_size := of_nat MSHCMD_BUF_SIZE\<rparr>\<rparr>) = Inr s1"
    by (simp add: sbuf_zero_def s1_def MSHCMD_BUF_SIZE_def cong: if_cong)
  have ld: "length data \<le> 512" by (simp add: d)
  have sz: "rlog_size (rlog s) = length data" using rlog_size_log_repr [OF h] by (simp add: d)
  have dump: "rlog_dump (rlog s) (length data) 0 = Inr (Some data)"
    using rlog_dump_log_repr [OF h] unfolding sz d .
  define s2 where "s2 = s1\<lparr>mshcmd_buf := fput 0 data (mshcmd_buf s1)\<rparr>"
  have w: "sbuf_write (pullout (msh_ctl s1)) 0 data s1 = Inr s2"
    using ld by (simp add: sbuf_write_def s2_def s1_def MSHCMD_BUF_SIZE_def)
  have "4 \<le> length (rsp s2)" using udbd_invD(2) [OF i] by (simp add: s2_def s1_def)
  then have rp: "msh_reply (of_nat (length data)) s2 = Inr (set_rsp_len (s2\<lparr>msh_ctl := (msh_ctl s2)
        \<lparr>used_size := of_nat (length data), cp_offset := 0\<rparr>,
        rsp := le32 (of_nat (length data)) @ drop 4 (rsp s2)\<rparr>))"
    by (simp add: msh_reply_def put_rsp_0)
  have rl: "rlog s1 = rlog s" by (simp add: s1_def)
  have lg: "udb_debug_msh_cmd_log s1 = msh_reply (of_nat (length data)) s2"
    unfolding udb_debug_msh_cmd_log_def Let_def rl sz dump rbind_Inr option.case w ..
  have c1: "mread UDB_CMD_PKG_CONTENT_OFFSET 1 (req s1) = Inr [of_char (CHR ''l'')]"
    by (simp add: s1_def q mread_def ascii_def)
  have hp: "has_prefix (ascii ''log'') (drop UDB_CMD_PKG_CONTENT_OFFSET (req s1)) = Inr True"
    using has_prefix_append [of "ascii ''log''" rest] by (simp add: s1_def q)
  have nz: "of_char (CHR ''l'') \<noteq> (0 :: byte)" by simp
  have e: "udb_debug_msh s = rbind (msh_reply (of_nat (length data)) s2) (\<lambda>s. Inr (set_rsp_len s))"
    unfolding udb_debug_msh_def Let_def
    using z c1 hp nz lg by (simp add: MSHCMD_BUF_SIZE_def)
  have ld': "length data < 4294967296" using ld by simp
  show ?thesis
    unfolding e rp using ld' fget_fput_same [of 0 data] p
    by (simp add: s2_def s1_def set_rsp_len_def ctl_pending_def ctl_left_def)
qed

lemma msh_log_output:
  assumes i: "udbd_inv s" and a: "udb_auth_ok s"
    and c: "cmd_line (sent_args 4 args) = ascii ''log'' @ rest" "length rest < 1463"
    and h: "log_repr h (rlog s)" "0 \<notin> set h" and fuel: "0 < fuel"
  shows "\<exists>s'. msh_exec_cmd fuel (net_device E) 1470 args s = Inr (s', drop (length h - 512) h) \<and>
      msh_pending s' []"
proof -
  define cmd where "cmd = cmd_line (sent_args 4 args)"
  define m where "m = payload_msg UDB_MSH_CMD cmd"
  define data where "data = drop (length h - 512) h"
  have lc: "length cmd \<le> 1466" using c by (simp add: cmd_def)
  have im: "udbd_inv (net_request m s)"
    using i lc by (intro udbd_inv_net_request) (simp_all add: m_def)
  obtain s1 where s1: "udb_debug_msh (net_request m s) = Inr s1" "rsp_len s1 = 1470"
      "rsp s1 = le32 (of_nat (length data)) @ drop 4 (rsp s)"
      "ctl_pending (msh_ctl s1) (mshcmd_buf s1) = data" "udb_auth_ok s1"
    using udb_debug_msh_log [OF im, of "chan_code UDB_MSH_CMD" _ h data] h(1) a c(1)
    by (auto simp: m_def cmd_def payload_msg_def data_def)
  have d: "udb_dispatch E (chan_code UDB_MSH_CMD) (net_request m s) = Inr s1"
    using s1(1) by (simp add: udb_dispatch_def)
  note x = xfer_answer [OF i lc a _ d [unfolded m_def] s1(2)]
  have pend: "msh_pending (net_idle s1) data"
    using x(2) s1(4,5) by (simp add: msh_pending_def)
  have o: "0 \<notin> set data" using h(2) by (auto simp: data_def dest: in_set_dropD)
  have ld: "length data \<le> fuel * 1470" using fuel by (simp add: data_def)
  have "msh_exec_cmd fuel (net_device E) 1470 args s
      = pullout_loop fuel sink_text (net_device E) 1470 UDB_MSH_CMD_PULLOUT
          (of_nat (length data)) (net_idle s1) []"
    unfolding msh_exec_cmd_def exec_on_def using x(1) s1(3) command_request_line [of args UDB_MSH_CMD] lc
    by (simp add: mread_def cmd_def)
  with msh_chan.pullout_loop_text [OF pend o fuel ld, of E "[]"] show ?thesis by (simp add: data_def)
qed

subsection \<open>Authentication\<close>

lemma auth_key_session:
  assumes i: "udbd_inv s" and z: "rsp s = replicate 1470 0"
  shows "\<exists>s'. auth (net_device E) 1470 s = Inr (s', ascii ''AUTHOK'' @ replicate 1464 0) \<and>
      udb_auth_ok s' \<and> udbd_inv s' \<and> files s' = files s \<and> cwd s' = cwd s \<and>
      (\<exists>reply. net_device E s (payload_msg UDB_AUTH auth_cmd) = Inr (s', reply)) \<and>
      popen_st s' = popen_st s \<and> wait_ctl s' = wait_ctl s"
proof -
  define m where "m = payload_msg UDB_AUTH auth_cmd"
  define body where "body = auth_cmd @ replicate (1466 - length auth_cmd) (0 :: byte)"
  have b: "length body = 1466" by (simp add: body_def auth_cmd_def)
  have lm: "length auth_cmd = 16" by (simp add: auth_cmd_def)
  have m: "m = ascii ''udb'' @ [chan_code UDB_AUTH] @ body" by (simp add: m_def payload_msg_def body_def)
  define s1 where "s1 = set_rsp_len ((s\<lparr>req := m, prot_size := 1470, udb_auth_ok := True\<rparr>)
      \<lparr>rsp := ascii ''AUTHOK'' @ replicate 1464 0\<rparr>)"
  have key: "AUTH_KEY = auth_cmd" by (simp add: AUTH_KEY_def auth_cmd_def)
  have d4: "drop 4 m = auth_cmd @ replicate (1466 - length auth_cmd) 0"
    by (simp add: m_def payload_msg_def)
  have br: "udb_debug_bridge E UDB_LAYER_NET (s\<lparr>req := m\<rparr>) = Inr s1"
  proof -
    have c: "mread UDB_CMD_CHANNEL_ID_OFFSET 1 m = Inr [chan_code UDB_AUTH]"
      by (simp add: mread_def m)
    have p: "put_rsp 0 (ascii ''AUTHOK'') (s\<lparr>req := m, prot_size := 1470, udb_auth_ok := True\<rparr>)
       = Inr (s\<lparr>req := m, prot_size := 1470, udb_auth_ok := True, rsp := ascii ''AUTHOK'' @ replicate 1464 0\<rparr>)"
      by (subst put_rsp_0) (simp_all add: z)
    show ?thesis
      using c has_prefix_append [of auth_cmd "replicate (1466 - length auth_cmd) 0"] p
      by (simp add: udb_debug_bridge_def Let_def udb_debug_auth_def key d4
          UDB_PROT_SIZE_NET_UDP_def s1_def del: replicate_Suc)
  qed
  have rep: "net_reply s1 = Inr (net_idle s1, Some (ascii ''AUTHOK'' @ replicate 1464 0))"
    by (simp add: net_reply_def s1_def set_rsp_len_def mread_def net_idle_def)
  have x: "net_device E s m = Inr (net_idle s1, Some (ascii ''AUTHOK'' @ replicate 1464 0))"
    using net_device_bridge [OF i b, of E "chan_code UDB_AUTH"] unfolding m [symmetric] br rbind_Inr rep .
  have inv: "udbd_inv (net_idle s1)"
    using net_debugd_step_inv [of E "RecvMsg m" s] x i by (simp add: net_device_def)
  have dz: "drop 1470 (replicate (1470 + 1) (0 :: byte)) = [0]" by (simp only: drop_replicate) simp
  have "udb_xfer (net_device E) 1470 s m
      = Inr (net_idle s1, (ascii ''AUTHOK'' @ replicate 1464 0) @ [0], 1470)"
    unfolding udb_xfer_def x using dz by (simp add: Let_def del: replicate_Suc)
  then have "auth (net_device E) 1470 s = Inr (net_idle s1, ascii ''AUTHOK'' @ replicate 1464 0)"
    unfolding auth_def using payload_request [of auth_cmd UDB_AUTH] lm
    by (simp add: rbind_assoc [symmetric] m_def)
  with inv x show ?thesis by (auto simp: s1_def set_rsp_len_def net_idle_def net_clear_def m_def)
qed

lemma auth_key_answer:
  assumes "udbd_inv s" and "rsp s = replicate 1470 0"
  shows "\<exists>s'. auth (net_device E) 1470 s = Inr (s', ascii ''AUTHOK'' @ replicate 1464 0) \<and>
      udb_auth_ok s' \<and> udbd_inv s'"
  using auth_key_session [OF assms] by blast

subsection \<open>Pushing a file\<close>

text \<open>
  A push of the file \<open>k\<close> in progress: what the file holds and what stdio still buffers is
  what was received.
\<close>

definition push_received :: "byte list \<Rightarrow> udbd \<Rightarrow> byte list \<Rightarrow> bool" where
  "push_received k s xs \<longleftrightarrow> udbd_inv s \<and> udb_auth_ok s \<and>
     (\<exists>c w. push_fp s = Some w \<and> ws_file w = k \<and> files s k = Some c \<and> c @ ws_pending w = xs)"

lemma put_rsp_short:
  assumes "udbd_inv s" and "length d \<le> 1470"
  obtains r where "put_rsp 0 d s = Inr (s\<lparr>rsp := d @ r\<rparr>)"
  using put_rsp_0 [of d s] udbd_invD(2) [OF assms(1)] assms(2) by auto

lemma do_fwrite_received:
  assumes "push_fp s = Some w" and "files s (ws_file w) = Some c"
  shows "\<exists>c' w'. do_fwrite E d s = Inr (s\<lparr>files := (files s)(ws_file w \<mapsto> c'), push_fp := Some w'\<rparr>) \<and>
    ws_file w' = ws_file w \<and> c' @ ws_pending w' = (c @ ws_pending w) @ d"
proof (intro exI conjI)
  let ?p = "ws_pending w @ d"
  let ?n = "e_spill E ?p"
  show "do_fwrite E d s = Inr (s\<lparr>files := (files s)(ws_file w \<mapsto> c @ take ?n ?p),
      push_fp := Some (w\<lparr>ws_pending := drop ?n ?p\<rparr>)\<rparr>)"
    using assms by (simp add: do_fwrite_def Let_def file_append_def)
qed (simp_all del: take_append drop_append)

lemma udb_debug_pushfile_proc_received:
  assumes i: "udbd_inv s" and p: "prot_size s = 1470" and a: "udb_auth_ok s"
    and r: "req s = ascii ''udb'' @ [c] @ le16 (of_nat (length d)) @ d @ rest" and d: "length d \<le> 1464"
    and st: "push_fp s = Some w" "ws_file w = k" "files s k = Some f" "f @ ws_pending w = xs"
  shows "\<exists>s' f' w'. udb_debug_pushfile_proc E s = Inr s' \<and> rsp_len s' = 1470 \<and> udb_auth_ok s' \<and>
    push_fp s' = Some w' \<and> ws_file w' = k \<and> files s' k = Some f' \<and> f' @ ws_pending w' = xs @ d"
proof -
  obtain f' w' where fw: "do_fwrite E d s = Inr (s\<lparr>files := (files s)(k \<mapsto> f'), push_fp := Some w'\<rparr>)"
    and w': "ws_file w' = k" "f' @ ws_pending w' = xs @ d"
    using do_fwrite_received [OF st(1), of f E d] st by auto
  define s1 where "s1 = s\<lparr>files := (files s)(k \<mapsto> f'), push_fp := Some w'\<rparr>"
  have i1: "udbd_inv s1" using i by (simp add: s1_def)
  have m1: "mread UDB_CMD_PKG_CONTENT_OFFSET 2 (req s) = Inr (le16 (of_nat (length d)))"
    by (simp add: r mread_def)
  have u: "unat (rd16 (le16 (of_nat (length d)))) = length d" using d by (simp add: unat_of_nat)
  have m2: "mread 6 (length d) (req s) = Inr d" by (simp add: r mread_def)
  obtain rr where pr: "put_rsp 0 (ascii ''PROCOK'') s1 = Inr (s1\<lparr>rsp := ascii ''PROCOK'' @ rr\<rparr>)"
    by (rule put_rsp_short [OF i1, of "ascii ''PROCOK''"]) simp_all
  have ps: "\<not> prot_size s = UDB_PROT_SIZE_DEFAULT" using p by (simp add: UDB_PROT_SIZE_DEFAULT_def)
  have "udb_debug_pushfile_proc E s = Inr (set_rsp_len (s1\<lparr>rsp := ascii ''PROCOK'' @ rr\<rparr>))"
    unfolding udb_debug_pushfile_proc_def if_not_P [OF ps] m1 rbind_Inr u m2 fw s1_def [symmetric] pr ..
  then show ?thesis using w' a p by (simp add: set_rsp_len_def s1_def)
qed

lemma push_proc_turn:
  assumes st: "push_received k s xs" and d: "length d \<le> 1470 - 6"
  shows "\<exists>s' r. net_device E s (ascii ''udb'' @ [chan_code UDB_PUSH_FILE_PROC] @ le16 (of_nat (length d)) @ d
      @ replicate (1470 - 6 - length d) 0) = Inr (s', Some r) \<and> push_received k s' (xs @ d)"
proof -
  define body where "body = le16 (of_nat (length d)) @ d @ replicate (1470 - 6 - length d) (0 :: byte)"
  define m where "m = ascii ''udb'' @ [chan_code UDB_PUSH_FILE_PROC] @ body"
  have b: "length body = 1466" using d by (simp add: body_def)
  obtain c w where i: "udbd_inv s" "udb_auth_ok s" and w: "push_fp s = Some w" "ws_file w = k"
      "files s k = Some c" "c @ ws_pending w = xs"
    using st by (auto simp: push_received_def)
  have "length m = 1470" using b by (simp add: m_def)
  note im = udbd_inv_net_request [OF i(1) this]
  obtain s1 f' w' where s1: "udb_debug_pushfile_proc E (net_request m s) = Inr s1" "rsp_len s1 = 1470"
      "udb_auth_ok s1" "push_fp s1 = Some w'" "ws_file w' = k" "files s1 k = Some f'"
      "f' @ ws_pending w' = xs @ d"
    using udb_debug_pushfile_proc_received [OF im, of "chan_code UDB_PUSH_FILE_PROC" d _ w k c xs E] d i w
    by (auto simp: m_def body_def)
  have ds: "udb_dispatch E (chan_code UDB_PUSH_FILE_PROC) (net_request m s) = Inr s1"
    using s1(1) by (simp add: udb_dispatch_def)
  from net_device_answer [OF i(1) b i(2) _ ds [unfolded m_def] s1(2)] s1 show ?thesis
    unfolding body_def push_received_def by auto
qed

interpretation push_chan: push_service "net_device E" 1470 "push_received k" for E k
  by (unfold_locales, simp, simp, simp, erule push_proc_turn, assumption)

lemma udb_debug_pushfile_init_open:
  assumes i: "udbd_inv s" and p: "prot_size s = 1470" and a: "udb_auth_ok s"
    and r: "req s = payload_msg ch (le32 sz @ path)" and path: "length path < 1462" "0 \<notin> set path"
    and fp: "push_fp s = None" and k: "k = e_resolve E (cwd s) path" and c: "e_creat E k"
  shows "\<exists>s' w. udb_debug_pushfile_init E s = Inr s' \<and> rsp_len s' = 1470 \<and> udb_auth_ok s' \<and>
    push_fp s' = Some w \<and> ws_file w = k \<and> files s' k = Some [] \<and> ws_pending w = [] \<and>
    take 6 (rsp s') = ascii ''INITOK''"
proof -
  define s1 where "s1 = s\<lparr>files := (files s)(k \<mapsto> []), push_fp := Some \<lparr>ws_file = k, ws_pending = []\<rparr>\<rparr>"
  obtain j where j: "1466 - length (le32 sz @ path) = Suc j" using path
    by (cases "1466 - length (le32 sz @ path)") auto
  have cs: "cstr 8 (req s) = Inr path"
    unfolding r payload_msg_def j
    using cstr_terminated [of "ascii ''udb'' @ [chan_code ch] @ le32 sz" 8 path] path by simp
  have m1: "mread UDB_CMD_PKG_CONTENT_OFFSET 4 (req s1) = Inr (le32 sz)"
    unfolding s1_def using r path by (simp add: mread_def payload_msg_def)
  have fo: "do_fopen_wb E path s = s1" using k c by (simp add: do_fopen_wb_def s1_def Let_def)
  have i1: "udbd_inv s1" using i by (simp add: s1_def)
  obtain l where h: "hook_printf (path @ ascii '' size is '' @ fmt_d (sint (rd32 (le32 sz))) @ ascii '', 0x''
                @ hex_digits (unat (rd32 (le32 sz))) @ [NEWLINE]) s1 = Inr (s1\<lparr>rlog := l\<rparr>)"
    by (rule hook_printf_state [OF udbd_invD(4) [OF i1]])
  have i2: "udbd_inv (s1\<lparr>rlog := l\<rparr>)" using udbd_inv_rlog [OF h i1] .
  obtain rr where pr: "put_rsp 0 (ascii ''INITOK'') (s1\<lparr>rlog := l\<rparr>)
      = Inr (s1\<lparr>rlog := l, rsp := ascii ''INITOK'' @ rr\<rparr>)"
    by (rule put_rsp_short [OF i2, of "ascii ''INITOK''"]) simp_all
  have n1: "\<not> push_fp s \<noteq> None" and n2: "\<not> push_fp s1 = None" using fp by (simp_all add: s1_def)
  have "udb_debug_pushfile_init E s = Inr (set_rsp_len (s1\<lparr>rlog := l, rsp := ascii ''INITOK'' @ rr\<rparr>))"
    unfolding udb_debug_pushfile_init_def if_not_P [OF n1] rbind_Inr cs fo Let_def if_not_P [OF n2]
      m1 h pr ..
  then show ?thesis using a p by (simp add: set_rsp_len_def s1_def)
qed

lemma udb_debug_pushfile_fini_received:
  assumes i: "udbd_inv s" and p: "prot_size s = 1470"
    and st: "push_fp s = Some w" "files s (ws_file w) = Some c" and xs: "c @ ws_pending w = xs"
  shows "\<exists>s'. udb_debug_pushfile_fini s = Inr s' \<and> rsp_len s' = 1470 \<and>
    files s' (ws_file w) = Some xs \<and> push_fp s' = None"
proof -
  define s1 where "s1 = s\<lparr>files := (files s)(ws_file w \<mapsto> xs), push_fp := None\<rparr>"
  have c: "do_fclose s = Inr s1" using st xs by (simp add: do_fclose_def file_append_def s1_def)
  have i1: "udbd_inv s1" using i by (simp add: s1_def)
  obtain rr where pr: "put_rsp 0 (ascii ''FINIOK'') s1 = Inr (s1\<lparr>rsp := ascii ''FINIOK'' @ rr\<rparr>)"
    by (rule put_rsp_short [OF i1, of "ascii ''FINIOK''"]) simp_all
  have "udb_debug_pushfile_fini s = Inr (set_rsp_len (s1\<lparr>rsp := ascii ''FINIOK'' @ rr\<rparr>))"
    unfolding udb_debug_pushfile_fini_def c rbind_Inr pr ..
  then show ?thesis using p by (simp add: set_rsp_len_def s1_def)
qed

lemma push_init_request:
  assumes "length path < 1462"
  shows "rbind (new_request 1470 ch) (\<lambda>wb. rbind (mwrite 4 (le32 sz) wb) (\<lambda>wb.
      rbind (mwrite 8 path wb) f)) = f (payload_msg ch (le32 sz @ path))"
proof -
  define h where "h = ascii ''udb'' @ [chan_code ch] @ le32 sz"
  have lh: "length h = 8" by (simp add: h_def)
  have w1: "rbind (new_request 1470 ch) (mwrite 4 (le32 sz)) = Inr (h @ replicate 1462 0)"
    using payload_request [of "le32 sz" ch] by (simp add: payload_msg_def h_def)
  have w2: "mwrite 8 path (h @ replicate 1462 0) = Inr (h @ path @ replicate (1462 - length path) 0)"
    using assms lh by (simp add: mwrite_def)
  have "payload_msg ch (le32 sz @ path) = h @ path @ replicate (1462 - length path) 0"
    by (simp add: payload_msg_def h_def)
  with w1 w2 show ?thesis unfolding rbind_assoc [symmetric] by simp
qed

lemma push_file_content:
  assumes i: "udbd_inv s" and a: "udb_auth_ok s" and fp: "push_fp s = None"
    and path: "0 \<notin> set path" "length path < 1462"
    and k: "k = e_resolve E (cwd s) path" and c: "e_creat E k" and len: "length content < 2 ^ 32"
    and fuel: "0 < fuel" "length content \<le> fuel * 1464"
  shows "\<exists>s'. push_file fuel (net_device E) 1470 content path s = Inr s' \<and> files s' k = Some content \<and>
      push_fp s' = None \<and> udbd_inv s'"
proof -
  define sz where "sz = (of_nat (length content) :: u32)"
  define m where "m = payload_msg UDB_PUSH_FILE_INIT (le32 sz @ path)"
  have lp: "length (le32 sz @ path) \<le> 1466" using path by simp
  then have im: "udbd_inv (net_request m s)"
    using i by (intro udbd_inv_net_request) (simp_all add: m_def)
  obtain s1 w where s1: "udb_debug_pushfile_init E (net_request m s) = Inr s1" "rsp_len s1 = 1470"
      "udb_auth_ok s1" "push_fp s1 = Some w" "ws_file w = k" "files s1 k = Some []" "ws_pending w = []"
    using udb_debug_pushfile_init_open [OF im, of UDB_PUSH_FILE_INIT sz path k E] fp path k c a
    by (auto simp: m_def)
  have d1: "udb_dispatch E (chan_code UDB_PUSH_FILE_INIT) (net_request m s) = Inr s1"
    using s1(1) by (simp add: udb_dispatch_def)
  note x1 = xfer_answer [OF i lp a _ d1 [unfolded m_def] s1(2)]
  have rc: "push_received k (net_idle s1) []"
    using x1(2) s1 by (simp add: push_received_def)
  obtain s2 where s2: "push_loop fuel (net_device E) 1470 sz content (net_idle s1) = Inr s2"
      "push_received k s2 content"
    using push_chan.push_loop_received [OF rc len fuel(1), of E] fuel(2) by (auto simp: sz_def)
  obtain c2 w2 where i2: "udbd_inv s2" "udb_auth_ok s2" and w2: "push_fp s2 = Some w2" "ws_file w2 = k"
      "files s2 k = Some c2" "c2 @ ws_pending w2 = content"
    using s2(2) by (auto simp: push_received_def)
  define m2 where "m2 = payload_msg UDB_PUSH_FILE_FINI []"
  have im2: "udbd_inv (net_request m2 s2)"
    using i2 by (intro udbd_inv_net_request) (simp_all add: m2_def)
  obtain s3 where s3: "udb_debug_pushfile_fini (net_request m2 s2) = Inr s3" "rsp_len s3 = 1470"
      "files s3 k = Some content" "push_fp s3 = None"
    using udb_debug_pushfile_fini_received [OF im2, of w2 c2 content] w2 by auto
  have d2: "udb_dispatch E (chan_code UDB_PUSH_FILE_FINI) (net_request m2 s2) = Inr s3"
    using s3(1) by (simp add: udb_dispatch_def)
  have l0: "length ([] :: byte list) \<le> 1466" by simp
  note x2 = xfer_answer [OF i2(1) l0 i2(2) _ d2 [unfolded m2_def] s3(2)]
  have rq: "rbind (new_request 1470 UDB_PUSH_FILE_INIT) (\<lambda>wb. rbind (mwrite 4 (le32 sz) wb) (\<lambda>wb.
      rbind (mwrite 8 path wb) f)) = f m" for f :: "byte list \<Rightarrow> fault + udbd"
    unfolding m_def by (rule push_init_request) (use path in simp_all)
  have rq2: "new_request 1470 UDB_PUSH_FILE_FINI = Inr (payload_msg UDB_PUSH_FILE_FINI [])"
    by (simp add: new_request_Inr payload_msg_def)
  have y1: "udb_xfer (net_device E) 1470 s m = Inr (net_idle s1, rsp s1 @ [0], 1470)"
    using x1(1) by (simp add: m_def)
  have y2: "udb_xfer (net_device E) 1470 s2 (payload_msg UDB_PUSH_FILE_FINI []) = Inr (net_idle s3, rsp s3 @ [0], 1470)"
    by (rule x2(1)) simp
  have "push_file fuel (net_device E) 1470 content path s = Inr (net_idle s3)"
    unfolding push_file_def sz_def [symmetric] Let_def rq y1 rbind_Inr prod.case s2(1) rq2 y2 ..
  with s3 x2(2) show ?thesis by simp
qed

end
