(* ===== verification/NoFault.thy ===== *)
theory NoFault
  imports UdbInv
begin

text \<open>
  Requests the daemon handles without running into undefined behaviour.  \<open>request_ok\<close> says
  for each channel what the request (and the kernel) must satisfy; under it and the
  invariant every handler returns, and so does the turn of the UDP loop.  The conditions
  are the checks the handlers themselves do not make.
\<close>

subsection \<open>Conditions\<close>

text \<open>
  A command whose parse reads no empty slot: not empty, and when it is parsed as a pipeline,
  no stage is empty.
\<close>

definition runnable_cmd :: "byte list \<Rightarrow> bool" where
  "runnable_cmd cmd \<longleftrightarrow> cmd \<noteq> [] \<and>
     (let input = butlast cmd in
      input = [] \<or> is_blank input \<or> is_multi_cmd input \<or> hd input = BAR \<or>
      [] \<notin> set (split_on BAR input))"

text \<open>The descriptors of the pipe are in the table and the child is eventually reaped.\<close>

definition popen_safe :: "popen_sys \<Rightarrow> popen_tab \<Rightarrow> bool" where
  "popen_safe sys tab \<longleftrightarrow>
     (case sys_pipe sys of None \<Rightarrow> True
      | Some (p0, p1) \<Rightarrow> p0 < (case childpid tab of None \<Rightarrow> (case sys_rlimit sys of None \<Rightarrow> Suc p0 | Some n \<Rightarrow> n)
                              | Some _ \<Rightarrow> maxfd tab)) \<and>
     list_ex (\<lambda>r. r \<noteq> WaitEINTR) (sys_wait sys)"

text \<open>A pull-out request for at most a response, not beyond 32 bits.\<close>

definition pull_arg_ok :: "u32 \<Rightarrow> udbd \<Rightarrow> bool" where
  "pull_arg_ok off s \<longleftrightarrow>
     (let n = unat (rd32 (take 4 (drop 4 (req s)))) in n \<le> prot_size s \<and> unat off + n < 2 ^ 32)"

definition request_string :: "nat \<Rightarrow> udbd \<Rightarrow> bool" where
  "request_string off s \<longleftrightarrow> 0 \<in> set (drop off (req s))"

definition push_arg_ok :: "udbd \<Rightarrow> bool" where
  "push_arg_ok s \<longleftrightarrow>
     (if prot_size s = UDB_PROT_SIZE_DEFAULT then 5 + unat (req s ! 4) \<le> length (req s)
      else 6 + unat (rd16 (take 2 (drop 4 (req s)))) \<le> length (req s))"

definition request_ok :: "env \<Rightarrow> byte \<Rightarrow> udbd \<Rightarrow> bool" where
  "request_ok E c s \<longleftrightarrow>
     (c = chan_code UDB_RUN_CMD \<longrightarrow>
        request_string 4 s \<and> runnable_cmd (takeWhile (\<lambda>b. b \<noteq> 0) (drop 4 (req s))) \<and>
        popen_safe (e_popen E (popen_st s)) (popen_st s)) \<and>
     (c = chan_code UDB_RUN_CMD_PULLOUT \<longrightarrow> pull_arg_ok (cp_offset (run_ctl s)) s) \<and>
     (c = chan_code UDB_RUN_CMD_WAIT \<longrightarrow> request_string 4 s) \<and>
     (c = chan_code UDB_RUN_CMD_WAIT_PULLOUT \<longrightarrow>
        w_pullout (wait_ctl s) \<noteq> None \<and> unat (w_cp_offset (wait_ctl s)) < UDB_BUF_SIZE \<and>
        w_cp_offset (wait_ctl s) \<le> w_used_size (wait_ctl s)) \<and>
     (c = chan_code UDB_PULL_FILE_INIT \<longrightarrow> request_string 4 s \<and> (\<forall>n. e_malloc E n)) \<and>
     (c = chan_code UDB_PULL_FILE_PULLOUT \<longrightarrow> pull_arg_ok (p_cp_offset (pull_ctl s)) s) \<and>
     (c = chan_code UDB_PUSH_FILE_INIT \<longrightarrow> request_string 8 s) \<and>
     (c = chan_code UDB_PUSH_FILE_PROC \<longrightarrow> push_fp s \<noteq> None \<and> push_arg_ok s) \<and>
     (c = chan_code UDB_PUSH_FILE_FINI \<longrightarrow> push_fp s \<noteq> None) \<and>
     (c = chan_code UDB_MSH_CMD_PULLOUT \<longrightarrow> pull_arg_ok (cp_offset (msh_ctl s)) s)"

subsection \<open>Steps that return\<close>

lemma request_string_cstr:
  "request_string off s \<Longrightarrow> cstr off (req s) = Inr (takeWhile (\<lambda>b. b \<noteq> 0) (drop off (req s)))"
  by (simp add: request_string_def cstr_def)

lemma hook_printf_returns:
  assumes "udbd_inv s"
  obtains l where "hook_printf msg s = Inr (s\<lparr>rlog := l\<rparr>)" and "udbd_inv (s\<lparr>rlog := l\<rparr>)"
proof -
  obtain l where l: "hook_printf msg s = Inr (s\<lparr>rlog := l\<rparr>)"
    using hook_printf_ok [OF udbd_invD(4) [OF assms], of msg] by blast
  from that [OF l udbd_inv_rlog [OF l assms]] show ?thesis .
qed

lemma put_rsp_returns:
  assumes "udbd_inv s" and "off + length d \<le> 1470"
  obtains r where "put_rsp off d s = Inr (s\<lparr>rsp := r\<rparr>)" and "udbd_inv (s\<lparr>rsp := r\<rparr>)"
proof -
  define r where "r = take off (rsp s) @ d @ drop (off + length d) (rsp s)"
  have l: "put_rsp off d s = Inr (s\<lparr>rsp := r\<rparr>)"
    unfolding r_def by (rule put_rsp_Inr) (simp add: assms(2) udbd_invD(2) [OF assms(1)])
  from that [OF l udbd_inv_put_rsp [OF l assms(1)]] show ?thesis .
qed

lemma clear_rsp_returns:
  assumes "udbd_inv s"
  obtains r where "clear_rsp s = Inr (s\<lparr>rsp := r\<rparr>)" and "udbd_inv (s\<lparr>rsp := r\<rparr>)"
proof -
  have l: "clear_rsp s = Inr (s\<lparr>rsp := replicate (prot_size s) 0 @ drop (prot_size s) (rsp s)\<rparr>)"
    by (rule clear_rsp_Inr) (simp add: udbd_invD [OF assms])
  from that [OF l udbd_inv_clear_rsp [OF l assms]] show ?thesis .
qed

lemma rbind_returns: "m = Inr a \<Longrightarrow> \<exists>b. k a = Inr b \<Longrightarrow> \<exists>b. rbind m k = Inr b"
  by auto

subsection \<open>Running a command\<close>

lemma run_built_in_returns:
  assumes "udbd_inv s"
  shows "\<exists>s' v. run_built_in E c s = Inr (s', v) \<and> popen_st s' = popen_st s"
proof -
  obtain l where "hook_printf (ascii ''exit?'' @ [NEWLINE]) s = Inr (s\<lparr>rlog := l\<rparr>)"
    by (rule hook_printf_returns [OF assms])
  then show ?thesis by (auto simp: run_built_in_def split: option.splits)
qed

lemma input_handle_returns:
  assumes i: "udbd_inv s" and r: "runnable_cmd cmd"
  shows "\<exists>s' v. uvc_runcmd_input_handle E cmd s = Inr (s', v) \<and> popen_st s' = popen_st s"
proof -
  define input where "input = butlast cmd"
  have ne: "cmd \<noteq> []" using r by (simp add: runnable_cmd_def)
  show ?thesis
  proof (cases "input \<noteq> [] \<and> \<not> is_blank input \<and> \<not> is_multi_cmd input \<and> hd input \<noteq> BAR")
    case False
    then show ?thesis using ne by (auto simp: uvc_runcmd_input_handle_def Let_def input_def)
  next
    case True
    then have "[] \<notin> set (split_on BAR input)"
      using r by (auto simp: runnable_cmd_def Let_def input_def)
    then have slots: "read_all_slots (parse_commands_with_pipes input) = Inr ()"
      using read_all_slots_iff by blast
    show ?thesis
    proof (cases "BAR \<in> set input")
      case bar: True
      then have "count_list input BAR \<noteq> 0" by (simp add: count_list_0_iff)
      then have "1 < cmd_count (parse_commands_with_pipes input)"
        by (simp add: parse_commands_with_pipes_def Let_def)
      then show ?thesis
        unfolding uvc_runcmd_input_handle_def input_def [symmetric] Let_def using ne True slots by simp
    next
      case nobar: False
      obtain n where n: "c_name (parse_command input) = Some n"
        using parse_command_name [of input] True by blast
      obtain b where b: "check_built_in (parse_command input) = Inr b"
        using n by (simp add: check_built_in_def)
      show ?thesis
        unfolding uvc_runcmd_input_handle_def input_def [symmetric] Let_def
        using ne True slots parse_single [OF nobar] b run_built_in_returns [OF i, of E "parse_command input"]
        by (cases b) auto
    qed
  qed
qed

lemma popen_pclose_safe:
  assumes "popen_safe sys tab"
  shows "\<exists>tab1 r. uvc_popen sys cmd (ascii ''r'') ft tab = Inr (tab1, r) \<and>
    (\<forall>fd argv. r = Some (fd, argv) \<longrightarrow> (\<exists>tab2 st. uvc_pclose sys (Some fd) tab1 = Inr (tab2, st)))"
proof -
  have "\<exists>r \<in> set (sys_wait sys). r \<noteq> WaitEINTR"
    using assms by (auto simp: popen_safe_def list_ex_iff)
  then obtain st where w: "wait_loop (sys_wait sys) = Some st" using wait_loop_enough by blast
  obtain tab0 ok where f: "popen_first sys tab = (tab0, ok)" by (cases "popen_first sys tab")
  show ?thesis
  proof (cases "ok \<and> sys_pipe sys \<noteq> None \<and> sys_fork sys \<noteq> None \<and> sys_fdopen sys")
    case False
    then show ?thesis using f
      by (auto simp: uvc_popen_def split: option.splits)
  next
    case True
    then obtain p0 p1 pid where k: "sys_pipe sys = Some (p0, p1)" "sys_fork sys = Some pid"
        "sys_fdopen sys" "ok" by auto
    obtain g where g: "childpid tab0 = Some g" and lt: "p0 < maxfd tab0"
      using f k assms by (auto simp: popen_first_def popen_safe_def split: option.splits if_splits)
    define tab1 where "tab1 = tab0\<lparr>childpid := Some (g(p0 := pid))\<rparr>"
    have "uvc_popen sys cmd (ascii ''r'') ft tab = Inr (tab1, Some (p0, popen_argv ft cmd))"
      using f k g lt by (simp add: uvc_popen_def set_childpid_def tab1_def)
    moreover have "\<exists>tab2 st. uvc_pclose sys (Some p0) tab1 = Inr (tab2, st)"
      using lt w by (auto simp: uvc_pclose_def tab1_def Let_def)
    ultimately show ?thesis by blast
  qed
qed

lemma exec_finish_returns:
  assumes "udbd_inv s"
  shows "\<exists>s'. exec_finish nr s = Inr s'"
proof -
  obtain r where "put_rsp 0 (le32 nr) s = Inr (s\<lparr>rsp := r\<rparr>)"
    by (rule put_rsp_returns [OF assms, of 0 "le32 nr"]) simp_all
  then show ?thesis by (simp add: exec_finish_def Let_def)
qed

lemma run_ready_rlog: "run_ready (s\<lparr>rlog := l\<rparr>) \<longleftrightarrow> udbd_inv (s\<lparr>rlog := l\<rparr>) \<and>
    pullout (run_ctl s) = Some RuncmdBuf \<and> total_size (run_ctl s) = 655360"
  by (simp add: run_ready_def)

lemma run_zero_returns:
  assumes "run_ready s"
  obtains s' where "sbuf_zero (pullout (run_ctl s)) (unat (total_size (run_ctl s))) s = Inr s'"
    and "run_ready s'" and "popen_st s' = popen_st s"
proof -
  define s' where "s' = s\<lparr>runcmd_buf := (\<lambda>i. if i < 655360 then 0 else runcmd_buf s i)\<rparr>"
  have z: "sbuf_zero (Some RuncmdBuf) 655360 s = Inr s'"
    by (simp add: sbuf_zero_def UDB_BUF_SIZE_eq s'_def cong: if_cong)
  from run_ready_ctl [OF assms]
  have "sbuf_zero (pullout (run_ctl s)) (unat (total_size (run_ctl s))) s = Inr s'"
    using z by simp
  from that [OF this run_ready_step(5) [OF z assms]] show ?thesis by (simp add: s'_def)
qed

lemma run_write_returns:
  assumes "run_ready s" and "length d < 655360"
  obtains s' where "sbuf_write (pullout (run_ctl s)) 0 d s = Inr s'"
    and "run_ready s'" and "popen_st s' = popen_st s"
proof -
  define s' where "s' = s\<lparr>runcmd_buf := fput 0 d (runcmd_buf s)\<rparr>"
  have w: "sbuf_write (Some RuncmdBuf) 0 d s = Inr s'"
    using assms(2) by (simp add: sbuf_write_def UDB_BUF_SIZE_eq s'_def)
  from run_ready_ctl [OF assms(1)] have "sbuf_write (pullout (run_ctl s)) 0 d s = Inr s'"
    using w by simp
  from that [OF this run_ready_write [OF w _ assms(1)]] assms(2) show ?thesis by (simp add: s'_def)
qed

lemma runcmd_read_returns:
  assumes r: "run_ready s" and c: "uvc_pclose sys (Some fd) (popen_st s) = Inr (tab, st)"
  shows "\<exists>s'. runcmd_read E sys fd argv s = Inr s'"
proof -
  obtain s1 where s1: "sbuf_zero (pullout (run_ctl s)) (unat (total_size (run_ctl s))) s = Inr s1"
      "run_ready s1" "popen_st s1 = popen_st s" by (rule run_zero_returns [OF r])
  obtain out s2 where s2: "run_child E argv s1 = (out, s2)" by (cases "run_child E argv s1")
  have r2: "run_ready s2" "popen_st s2 = popen_st s"
    using run_ready_step(4) [OF s2 s1(2)] s2 s1(3) by (auto simp: run_child_def split: prod.splits)
  have u: "unat (total_size (run_ctl s2) - 1) = 655359" using run_ready_ctl [OF r2(1)] by simp
  obtain s3 where s3: "sbuf_write (pullout (run_ctl s2)) 0 (take 655359 out) s2 = Inr s3"
      "run_ready s3" "popen_st s3 = popen_st s2" by (rule run_write_returns [OF r2(1), of "take 655359 out"]) auto
  have s4: "do_pclose E sys fd s3 = Inr (s3\<lparr>popen_st := tab\<rparr>)"
    using c s3(3) r2(2) by (simp add: do_pclose_def)
  have "udbd_inv (s3\<lparr>popen_st := tab\<rparr>)" using run_ready_inv [OF s3(2)] by simp
  from exec_finish_returns [OF this] show ?thesis
    unfolding runcmd_read_def s1(1) rbind_Inr s2 prod.case Let_def u s3(1) s4 .
qed

lemma runcmd_exec_returns:
  assumes r: "run_ready s" and p: "popen_safe (e_popen E (popen_st s)) (popen_st s)"
  shows "\<exists>s'. runcmd_exec E cmd s = Inr s'"
proof -
  obtain tab r where po: "uvc_popen (e_popen E (popen_st s)) cmd (ascii ''r'') True (popen_st s) = Inr (tab, r)"
    and pc: "\<And>fd argv. r = Some (fd, argv) \<Longrightarrow>
       \<exists>tab2 st. uvc_pclose (e_popen E (popen_st s)) (Some fd) tab = Inr (tab2, st)"
    using popen_pclose_safe [OF p, of cmd True] by blast
  have r1: "run_ready (s\<lparr>popen_st := tab\<rparr>)" using assms(1) by (simp add: run_ready_def)
  have do: "do_popen E cmd True s = Inr (s\<lparr>popen_st := tab\<rparr>, r)" by (simp add: do_popen_def po)
  show ?thesis
  proof (cases r)
    case None
    obtain l where l: "hook_printf (ascii ''popen error '' @ e_strerror E @ ascii '': cmd: '' @ cmd @ [NEWLINE])
        (s\<lparr>popen_st := tab\<rparr>) = Inr (s\<lparr>popen_st := tab, rlog := l\<rparr>)" "udbd_inv (s\<lparr>popen_st := tab, rlog := l\<rparr>)"
      by (rule hook_printf_returns [OF run_ready_inv [OF r1]])
    have "run_ready (s\<lparr>popen_st := tab, rlog := l\<rparr>)"
      using l(2) r1 by (simp add: run_ready_def)
    then obtain s2 where "sbuf_zero (pullout (run_ctl (s\<lparr>popen_st := tab, rlog := l\<rparr>)))
        (unat (total_size (run_ctl (s\<lparr>popen_st := tab, rlog := l\<rparr>)))) (s\<lparr>popen_st := tab, rlog := l\<rparr>) = Inr s2"
      by (rule run_zero_returns)
    with None do l(1) show ?thesis by (simp add: runcmd_exec_def runcmd_popen_failed_def)
  next
    case (Some x)
    obtain fd argv where x: "x = (fd, argv)" by (cases x)
    obtain tab2 st where "uvc_pclose (e_popen E (popen_st s)) (Some fd) tab = Inr (tab2, st)"
      using pc Some x by blast
    then have "uvc_pclose (e_popen E (popen_st s)) (Some fd) (popen_st (s\<lparr>popen_st := tab\<rparr>)) = Inr (tab2, st)"
      by simp
    from runcmd_read_returns [OF r1 this] Some x do show ?thesis by (simp add: runcmd_exec_def)
  qed
qed

lemma runcmd_builtin_returns:
  assumes r: "run_ready s"
  shows "\<exists>s'. runcmd_builtin_done s = Inr s'"
proof -
  obtain l where l: "hook_printf [NEWLINE] s = Inr (s\<lparr>rlog := l\<rparr>)"
    by (rule hook_printf_returns [OF run_ready_inv [OF r]])
  obtain s2 where s2: "sbuf_write (pullout (run_ctl (s\<lparr>rlog := l\<rparr>))) 0 [NEWLINE] (s\<lparr>rlog := l\<rparr>) = Inr s2" "run_ready s2"
    by (rule run_write_returns [OF run_ready_step(1) [OF l r], of "[NEWLINE]"]) simp_all
  from exec_finish_returns [OF run_ready_inv [OF s2(2)]] l s2(1) show ?thesis
    by (simp add: runcmd_builtin_done_def)
qed

lemma udb_debug_runcmd_returns:
  assumes i: "udbd_inv s" and q: "cstr 4 (req s) = Inr cmd" and c: "runnable_cmd cmd"
    and p: "popen_safe (e_popen E (popen_st s)) (popen_st s)"
  shows "\<exists>s'. udb_debug_runcmd E s = Inr s'"
proof -
  have r: "run_ready (runcmd_setup s)" by (rule run_ready_setup [OF i])
  obtain s1 ret where s1: "uvc_runcmd_input_handle E cmd (runcmd_setup s) = Inr (s1, ret)"
      "popen_st s1 = popen_st s"
    using input_handle_returns [OF run_ready_inv [OF r] c, of E] by (auto simp: runcmd_setup_def)
  have r1: "run_ready s1" by (rule run_ready_step(6) [OF s1(1) r])
  define s2 where "s2 = (if ret < 0 then hook_printf (ascii ''run build-in cmd Err, continue'' @ [NEWLINE]) s1 else Inr s1)"
  obtain s3 where s3: "s2 = Inr s3" "run_ready s3" "popen_st s3 = popen_st s"
  proof (cases "ret < 0")
    case True
    obtain l where "hook_printf (ascii ''run build-in cmd Err, continue'' @ [NEWLINE]) s1 = Inr (s1\<lparr>rlog := l\<rparr>)"
      by (rule hook_printf_returns [OF run_ready_inv [OF r1]])
    with True that [of "s1\<lparr>rlog := l\<rparr>"] s1(2) run_ready_step(1) [OF this r1] show ?thesis
      by (simp add: s2_def)
  next
    case False
    with that [of s1] r1 s1(2) show ?thesis by (simp add: s2_def)
  qed
  have q': "cstr UDB_CMD_PKG_CONTENT_OFFSET (req (runcmd_setup s)) = Inr cmd"
    using q by (simp add: runcmd_setup_def)
  show ?thesis
    unfolding udb_debug_runcmd_def Let_def q' rbind_Inr s1(1) prod.case s2_def [symmetric] s3(1)
    using runcmd_builtin_returns [OF r1] runcmd_exec_returns [OF s3(2), of E cmd] p s3(3) by simp
qed

subsection \<open>Pulling out\<close>

lemma pull_arg_read:
  assumes "udbd_inv s"
  shows "mread UDB_CMD_PKG_CONTENT_OFFSET 4 (req s) = Inr (take 4 (drop 4 (req s)))"
  using udbd_invD(1) [OF assms] by (simp add: mread_def)

lemma pull_chunk_returns:
  assumes i: "udbd_inv s" and c: "cctl_ok r c" and n: "unat n \<le> 1470" "unat (cp_offset c) + unat n < 2 ^ 32"
  shows "\<exists>s' c' f. pull_chunk c n s = Inr (s', c', f)"
proof (cases "used_size c < cp_offset c + n")
  case True
  then show ?thesis by (auto simp: pull_chunk_def)
next
  case False
  have u: "unat (cp_offset c + n) = unat (cp_offset c) + unat n"
    using n(2) by (simp add: unat_word_ariths)
  have le: "unat (cp_offset c) + unat n \<le> unat (used_size c)"
    using False u by (simp add: word_less_nat_alt)
  obtain d where d: "sbuf_read (pullout c) (unat (cp_offset c)) (unat n) s = Inr d" "length d = unat n"
    using c le by (auto simp: cctl_ok_def sbuf_read_def)
  obtain rr where "put_rsp 0 d s = Inr (s\<lparr>rsp := rr\<rparr>)"
    by (rule put_rsp_returns [OF i, of 0 d]) (use d n(1) in simp_all)
  with False d show ?thesis by (auto simp: pull_chunk_def)
qed

lemma clear_then_chunk:
  assumes i: "udbd_inv s" and a: "pull_arg_ok off s"
  shows "unat (rd32 (take 4 (drop 4 (req s)))) \<le> 1470"
    and "unat off + unat (rd32 (take 4 (drop 4 (req s)))) < 2 ^ 32"
  using a udbd_invD(3) [OF i] by (simp_all add: pull_arg_ok_def Let_def)

lemma udb_debug_runcmd_pullout_returns:
  assumes i: "udbd_inv s" and a: "pull_arg_ok (cp_offset (run_ctl s)) s"
  shows "\<exists>s'. udb_debug_runcmd_pullout s = Inr s'"
proof -
  obtain r where r: "clear_rsp s = Inr (s\<lparr>rsp := r\<rparr>)" "udbd_inv (s\<lparr>rsp := r\<rparr>)"
    by (rule clear_rsp_returns [OF i])
  have c: "run_ctl (s\<lparr>rsp := r\<rparr>) = run_ctl s" by simp
  obtain s1 c1 f where "pull_chunk (run_ctl s) (rd32 (take 4 (drop 4 (req s)))) (s\<lparr>rsp := r\<rparr>) = Inr (s1, c1, f)"
    using pull_chunk_returns [OF r(2) udbd_invD(5) [OF i] clear_then_chunk [OF i a]] by blast
  then show ?thesis
    unfolding udb_debug_runcmd_pullout_def pull_arg_read [OF i] r(1) rbind_Inr c by (simp add: sbuf_zero_def)
qed

lemma udb_debug_msh_pullout_returns:
  assumes i: "udbd_inv s" and a: "pull_arg_ok (cp_offset (msh_ctl s)) s"
  shows "\<exists>s'. udb_debug_msh_pullout s = Inr s'"
proof -
  obtain r where r: "clear_rsp s = Inr (s\<lparr>rsp := r\<rparr>)" "udbd_inv (s\<lparr>rsp := r\<rparr>)"
    by (rule clear_rsp_returns [OF i])
  have c: "msh_ctl (s\<lparr>rsp := r\<rparr>) = msh_ctl s" by simp
  obtain s1 c1 f where "pull_chunk (msh_ctl s) (rd32 (take 4 (drop 4 (req s)))) (s\<lparr>rsp := r\<rparr>) = Inr (s1, c1, f)"
    using pull_chunk_returns [OF r(2) udbd_invD(6) [OF i] clear_then_chunk [OF i a]] by blast
  then show ?thesis
    unfolding udb_debug_msh_pullout_def pull_arg_read [OF i] r(1) rbind_Inr c by (simp add: sbuf_zero_def)
qed

lemma udb_debug_pullfile_pullout_returns:
  assumes i: "udbd_inv s" and a: "pull_arg_ok (p_cp_offset (pull_ctl s)) s"
  shows "\<exists>s'. udb_debug_pullfile_pullout s = Inr s'"
proof -
  define n where "n = rd32 (take 4 (drop 4 (req s)))"
  define c where "c = pull_ctl s"
  obtain r where r: "clear_rsp s = Inr (s\<lparr>rsp := r\<rparr>)" "udbd_inv (s\<lparr>rsp := r\<rparr>)"
    by (rule clear_rsp_returns [OF i])
  have cs: "pull_ctl (s\<lparr>rsp := r\<rparr>) = c" by (simp add: c_def)
  note n' = clear_then_chunk [OF i a, folded n_def c_def]
  show ?thesis
  proof (cases "p_used_size c < p_cp_offset c + n")
    case True
    then show ?thesis
      unfolding udb_debug_pullfile_pullout_def pull_arg_read [OF i] r(1) rbind_Inr cs Let_def n_def [symmetric]
      by simp
  next
    case False
    have u: "unat (p_cp_offset c + n) = unat (p_cp_offset c) + unat n"
      using n'(2) by (simp add: unat_word_ariths)
    have le: "unat (p_cp_offset c) + unat n \<le> unat (p_used_size c)"
      using False u by (simp add: word_less_nat_alt)
    obtain d where d: "heap_read (p_pullout c) (unat (p_cp_offset c)) (unat n) = Inr d" "length d = unat n"
      using udbd_invD(7) [OF i, folded c_def] le
      by (auto simp: pctl_ok_def heap_read_def mread_def split: option.splits)
    obtain rr where "put_rsp 0 d (s\<lparr>rsp := r\<rparr>) = Inr (s\<lparr>rsp := rr\<rparr>)"
      using put_rsp_returns [OF r(2), of 0 d] d n'(1) by auto
    then show ?thesis
      unfolding udb_debug_pullfile_pullout_def pull_arg_read [OF i] r(1) rbind_Inr cs Let_def n_def [symmetric]
      using False d(1) by simp
  qed
qed

subsection \<open>The other handlers\<close>

lemma finish_reply:
  assumes "udbd_inv s" and "length d \<le> 1470"
  shows "\<exists>s'. rbind (put_rsp 0 d s) (\<lambda>s. Inr (set_rsp_len s)) = Inr s'"
proof -
  obtain r where "put_rsp 0 d s = Inr (s\<lparr>rsp := r\<rparr>)"
    by (rule put_rsp_returns [OF assms(1), of 0 d]) (use assms(2) in simp_all)
  then show ?thesis by simp
qed

lemma udb_debug_pullfile_init_returns:
  assumes i: "udbd_inv s" and q: "request_string 4 s" and m: "\<forall>n. e_malloc E n"
  shows "\<exists>s'. udb_debug_pullfile_init E s = Inr s'"
proof -
  define path where "path = takeWhile (\<lambda>b. b \<noteq> 0) (drop 4 (req s))"
  have "\<exists>s1. pullfile_open E path s = Inr s1"
  proof (cases "files s (e_resolve E (cwd s) path)")
    case None
    obtain l where "hook_printf (ascii ''Error opening input file '' @ path @ [NEWLINE]) s = Inr (s\<lparr>rlog := l\<rparr>)"
      by (rule hook_printf_returns [OF i])
    with None show ?thesis by (simp add: pullfile_open_def)
  next
    case (Some content)
    obtain l where "hook_printf (path @ ascii '' size is '' @
       fmt_d (sint (of_nat (length content) :: u32)) @ [NEWLINE]) s = Inr (s\<lparr>rlog := l\<rparr>)"
      by (rule hook_printf_returns [OF i])
    with Some m show ?thesis by (simp add: pullfile_open_def)
  qed
  then obtain s1 where s1: "pullfile_open E path s = Inr s1" ..
  have "length (le32 (p_used_size (pull_ctl s1))) \<le> 1470" by simp
  from finish_reply [OF pullfile_open_inv [OF s1 i] this] show ?thesis
    unfolding udb_debug_pullfile_init_def request_string_cstr [OF q] path_def [symmetric] rbind_Inr s1 .
qed

lemma udb_debug_pushfile_init_returns:
  assumes i: "udbd_inv s" and q: "request_string 8 s"
  shows "\<exists>s'. udb_debug_pushfile_init E s = Inr s'"
proof -
  define path where "path = takeWhile (\<lambda>b. b \<noteq> 0) (drop 8 (req s))"
  obtain s1 where s1: "(if push_fp s \<noteq> None then do_fclose s else Inr s) = Inr s1" "udbd_inv s1" "req s1 = req s"
    using i by (cases "push_fp s")
      (auto simp: do_fclose_def file_append_def split: option.splits)
  define s2 where "s2 = do_fopen_wb E path s1"
  have i2: "udbd_inv s2" using s1(2) by (simp add: s2_def)
  have r2: "req s2 = req s" using s1(3) by (simp add: s2_def do_fopen_wb_def Let_def)
  have q1: "cstr 8 (req s1) = Inr path" using request_string_cstr [OF q] s1(3) by (simp add: path_def)
  show ?thesis
  proof (cases "push_fp s2 = None")
    case True
    obtain l where l: "hook_printf (ascii ''Error opening output file '' @ path @ [NEWLINE]) s2 = Inr (s2\<lparr>rlog := l\<rparr>)"
      "udbd_inv (s2\<lparr>rlog := l\<rparr>)" by (rule hook_printf_returns [OF i2])
    have six: "length (ascii ''INITNO'') \<le> 1470" by simp
    from finish_reply [OF l(2) six] show ?thesis
      unfolding udb_debug_pushfile_init_def s1(1) rbind_Inr q1 Let_def s2_def [symmetric]
      using True l(1) by simp
  next
    case False
    have a: "mread UDB_CMD_PKG_CONTENT_OFFSET 4 (req s2) = Inr (take 4 (drop 4 (req s2)))"
      by (rule pull_arg_read [OF i2])
    define fl where "fl = rd32 (take 4 (drop 4 (req s2)))"
    obtain l where l: "hook_printf (path @ ascii '' size is '' @ fmt_d (sint fl) @ ascii '', 0x''
                @ hex_digits (unat fl) @ [NEWLINE]) s2 = Inr (s2\<lparr>rlog := l\<rparr>)"
      "udbd_inv (s2\<lparr>rlog := l\<rparr>)" by (rule hook_printf_returns [OF i2])
    have six: "length (ascii ''INITOK'') \<le> 1470" by simp
    from finish_reply [OF l(2) six] show ?thesis
      unfolding udb_debug_pushfile_init_def s1(1) rbind_Inr q1 Let_def s2_def [symmetric] a fl_def [symmetric] l(1)
        if_not_P [OF False] .
  qed
qed

lemma do_fwrite_returns: "push_fp s \<noteq> None \<Longrightarrow> \<exists>s'. do_fwrite E d s = Inr s'"
  by (auto simp: do_fwrite_def Let_def)

lemma udb_debug_pushfile_proc_returns:
  assumes i: "udbd_inv s" and f: "push_fp s \<noteq> None" and a: "push_arg_ok s"
  shows "\<exists>s'. udb_debug_pushfile_proc E s = Inr s'"
proof -
  have lr: "length (req s) = 1470" by (rule udbd_invD(1) [OF i])
  have "\<exists>s1. (if prot_size s = UDB_PROT_SIZE_DEFAULT
        then rbind (mread UDB_CMD_PKG_CONTENT_OFFSET 1 (req s)) (\<lambda>wr.
             rbind (mread 5 (unat (hd wr)) (req s)) (\<lambda>d. do_fwrite E d s))
        else rbind (mread UDB_CMD_PKG_CONTENT_OFFSET 2 (req s)) (\<lambda>wr.
             rbind (mread 6 (unat (rd16 wr)) (req s)) (\<lambda>d. do_fwrite E d s))) = Inr s1"
  proof (cases "prot_size s = UDB_PROT_SIZE_DEFAULT")
    case True
    have "hd (take 1 (drop 4 (req s))) = req s ! 4"
      using lr by (simp add: hd_drop_conv_nth)
    then have d: "5 + unat (hd (take 1 (drop 4 (req s)))) \<le> length (req s)"
      using a True by (simp add: push_arg_ok_def)
    show ?thesis
      unfolding if_P [OF True] using lr d do_fwrite_returns [OF f] by (simp add: mread_def)
  next
    case False
    have d: "6 + unat (rd16 (take 2 (drop 4 (req s)))) \<le> length (req s)"
      using a False by (simp add: push_arg_ok_def)
    show ?thesis
      unfolding if_not_P [OF False] using lr d do_fwrite_returns [OF f] by (simp add: mread_def)
  qed
  then obtain s1 where s1: "(if prot_size s = UDB_PROT_SIZE_DEFAULT
        then rbind (mread UDB_CMD_PKG_CONTENT_OFFSET 1 (req s)) (\<lambda>wr.
             rbind (mread 5 (unat (hd wr)) (req s)) (\<lambda>d. do_fwrite E d s))
        else rbind (mread UDB_CMD_PKG_CONTENT_OFFSET 2 (req s)) (\<lambda>wr.
             rbind (mread 6 (unat (rd16 wr)) (req s)) (\<lambda>d. do_fwrite E d s))) = Inr s1" ..
  have i1: "udbd_inv s1"
    using s1 i by (auto simp: rbind_eq_Inr split: if_splits dest: udbd_inv_fwrite)
  have six: "length (ascii ''PROCOK'') \<le> 1470" by simp
  show ?thesis
    unfolding udb_debug_pushfile_proc_def s1 rbind_Inr by (rule finish_reply [OF i1 six])
qed

lemma udb_debug_pushfile_fini_returns:
  assumes i: "udbd_inv s" and f: "push_fp s \<noteq> None"
  shows "\<exists>s'. udb_debug_pushfile_fini s = Inr s'"
proof -
  obtain s1 where s1: "do_fclose s = Inr s1" using f by (auto simp: do_fclose_def)
  have six: "length (ascii ''FINIOK'') \<le> 1470" by simp
  show ?thesis
    unfolding udb_debug_pushfile_fini_def s1 rbind_Inr
    by (rule finish_reply [OF udbd_inv_fclose [OF s1 i] six])
qed

lemma msh_reply_returns: "udbd_inv (s\<lparr>msh_ctl := (msh_ctl s)\<lparr>used_size := nr, cp_offset := 0\<rparr>\<rparr>) \<Longrightarrow>
  \<exists>s'. msh_reply nr s = Inr s'"
  unfolding msh_reply_def by (rule finish_reply) simp_all

lemma length_msh_help_msg: "length msh_help_msg = 21"
  by (simp add: msh_help_msg_def)

lemma udb_debug_msh_returns:
  assumes i: "udbd_inv s"
  shows "\<exists>s'. udb_debug_msh s = Inr s'"
proof -
  define s1 where "s1 = s\<lparr>msh_ctl := (msh_ctl s)\<lparr>pullout := Some MshcmdBuf, total_size := of_nat MSHCMD_BUF_SIZE\<rparr>,
      mshcmd_buf := (\<lambda>i. if i < 512 then 0 else mshcmd_buf s i)\<rparr>"
  have z: "sbuf_zero (Some MshcmdBuf) 512
      (s\<lparr>msh_ctl := (msh_ctl s)\<lparr>pullout := Some MshcmdBuf, total_size := of_nat MSHCMD_BUF_SIZE\<rparr>\<rparr>) = Inr s1"
    by (simp add: sbuf_zero_def s1_def MSHCMD_BUF_SIZE_def cong: if_cong)
  have i1: "udbd_inv s1"
    unfolding s1_def using i udbd_invD(6) [OF i]
    by (auto simp: cctl_ok_def intro!: udbd_inv_msh_ctl)
  have rep: "\<exists>s'. rbind (sbuf_write (pullout (msh_ctl s1)) 0 d s1) (\<lambda>s. msh_reply (of_nat (length d)) s) = Inr s'"
    if d: "length d \<le> 512" for d
  proof -
    have w: "sbuf_write (pullout (msh_ctl s1)) 0 d s1 = Inr (s1\<lparr>mshcmd_buf := fput 0 d (mshcmd_buf s1)\<rparr>)"
      using d by (simp add: sbuf_write_def s1_def MSHCMD_BUF_SIZE_def)
    have "cctl_ok MshcmdBuf ((msh_ctl s1)\<lparr>used_size := of_nat (length d), cp_offset := 0\<rparr>)"
      using d by (simp add: cctl_ok_def s1_def MSHCMD_BUF_SIZE_def)
    then have "udbd_inv ((s1\<lparr>mshcmd_buf := fput 0 d (mshcmd_buf s1)\<rparr>)
        \<lparr>msh_ctl := (msh_ctl (s1\<lparr>mshcmd_buf := fput 0 d (mshcmd_buf s1)\<rparr>))
           \<lparr>used_size := of_nat (length d), cp_offset := 0\<rparr>\<rparr>)"
      using i1 by (intro udbd_inv_msh_ctl) simp_all
    from msh_reply_returns [OF this] show ?thesis unfolding w rbind_Inr .
  qed
  have hlp: "\<exists>s'. udb_debug_msh_cmd_help s1 = Inr s'"
    unfolding udb_debug_msh_cmd_help_def by (rule rep) (simp add: length_msh_help_msg)
  obtain h where h: "log_repr h (rlog s1)" using udbd_invD(4) [OF i1] by (auto simp: rlog_ok_def)
  define data where "data = drop (length h - 512) h"
  have ld: "length data \<le> 512" by (simp add: data_def)
  have sz: "rlog_size (rlog s1) = length data" using rlog_size_log_repr [OF h] by (simp add: data_def)
  have dump: "rlog_dump (rlog s1) (length data) 0 = Inr (Some data)"
    using rlog_dump_log_repr [OF h] unfolding sz data_def .
  have log: "\<exists>s'. udb_debug_msh_cmd_log s1 = Inr s'"
    unfolding udb_debug_msh_cmd_log_def Let_def sz dump rbind_Inr option.case by (rule rep [OF ld])
  have c1: "mread UDB_CMD_PKG_CONTENT_OFFSET 1 (req s1) = Inr (take 1 (drop 4 (req s1)))"
    using udbd_invD(1) [OF i1] by (simp add: mread_def)
  obtain b where b: "has_prefix (ascii ''log'') (drop UDB_CMD_PKG_CONTENT_OFFSET (req s1)) = Inr b"
    using has_prefix_long [of "ascii ''log''" "drop 4 (req s1)"] udbd_invD(1) [OF i1] by auto
  show ?thesis
    unfolding udb_debug_msh_def Let_def
    using z c1 b hlp log by (auto simp: MSHCMD_BUF_SIZE_def)
qed

lemma udb_debug_auth_returns:
  assumes i: "udbd_inv s"
  shows "\<exists>s'. udb_debug_auth s = Inr s'"
proof -
  obtain b where b: "has_prefix AUTH_KEY (drop 4 (req s)) = Inr b"
    using has_prefix_long [of AUTH_KEY "drop 4 (req s)"] udbd_invD(1) [OF i] by (auto simp: AUTH_KEY_def)
  have ok: "length (ascii ''AUTHOK'') \<le> 1470" and no: "length (ascii ''AUTHNO'') \<le> 1470" by simp_all
  have "udbd_inv (s\<lparr>udb_auth_ok := True\<rparr>)" using i by simp
  from finish_reply [OF this ok] finish_reply [OF i no] b show ?thesis
    by (cases b) (simp_all add: udb_debug_auth_def)
qed

subsection \<open>The waiting command\<close>

lemma udb_debug_runcmd_wait_returns:
  assumes i: "udbd_inv s" and q: "request_string 4 s"
  shows "\<exists>s'. udb_debug_runcmd_wait E s = Inr s'"
proof (cases "single_instance (wait_ctl s) = 1")
  case True
  obtain r where r: "put_rsp 0 [0] s = Inr (s\<lparr>rsp := r\<rparr>)" "udbd_inv (s\<lparr>rsp := r\<rparr>)"
    by (rule put_rsp_returns [OF i, of 0 "[0]"]) simp_all
  define cmd where "cmd = takeWhile (\<lambda>b. b \<noteq> 0) (drop 4 (req s))"
  have q1: "cstr UDB_CMD_PKG_CONTENT_OFFSET (req (s\<lparr>rsp := r\<rparr>)) = Inr cmd"
    using request_string_cstr [OF q] by (simp add: cmd_def)
  define s1 where "s1 = set_rsp_len (s\<lparr>rsp := r\<rparr>)"
  have i1: "udbd_inv s1" using r(2) by (simp add: s1_def)
  obtain l where l: "hook_printf (ascii ''runcmd: ['' @ cmd @ ascii ''] error'' @ [NEWLINE]) s1 = Inr (s1\<lparr>rlog := l\<rparr>)"
    "udbd_inv (s1\<lparr>rlog := l\<rparr>)" by (rule hook_printf_returns [OF i1])
  obtain l2 where "hook_printf (ascii ''runcmd: only support single instance'' @ [NEWLINE]) (s1\<lparr>rlog := l\<rparr>)
      = Inr (s1\<lparr>rlog := l, rlog := l2\<rparr>)" by (rule hook_printf_returns [OF l(2)])
  then show ?thesis
    unfolding udb_debug_runcmd_wait_def if_P [OF True] r(1) rbind_Inr q1 s1_def [symmetric] l(1) by blast
next
  case False
  define w where "w = (wait_ctl s)\<lparr>w_pullout := Some RuncmdBuf, w_total_size := of_nat UDB_BUF_SIZE,
                  single_instance := 1, tm_last_update := os_time_get_boot_ms E\<rparr>"
  have "put_rsp 0 [1] (s\<lparr>wait_ctl := w, wait_thr := Some WtCreated\<rparr>) =
      Inr (s\<lparr>wait_ctl := w, wait_thr := Some WtCreated, rsp := [1] @ drop 1 (rsp s)\<rparr>)"
    using udbd_invD(2) [OF i] by (subst put_rsp_0) simp_all
  then show ?thesis
    unfolding udb_debug_runcmd_wait_def if_not_P [OF False] Let_def w_def [symmetric] by simp
qed

lemma nul_at_found:
  assumes i: "udbd_inv s" and c: "off < UDB_BUF_SIZE"
  obtains n where "nul_at (runcmd_buf s) off (UDB_BUF_SIZE - off) = Some n" and "off + n < UDB_BUF_SIZE"
proof -
  have "runcmd_buf s (off + (UDB_BUF_SIZE - 1 - off)) = 0"
    using udbd_invD(10) [OF i] c by (simp add: UDB_BUF_SIZE_eq)
  moreover have "UDB_BUF_SIZE - 1 - off < UDB_BUF_SIZE - off" using c by simp
  ultimately obtain m where "nul_at (runcmd_buf s) off (UDB_BUF_SIZE - off) = Some m" "m \<le> UDB_BUF_SIZE - 1 - off"
    using nul_at_Some [of "runcmd_buf s" off "UDB_BUF_SIZE - 1 - off"] by blast
  with c that show ?thesis by force
qed

lemma wait_pull_size_le:
  assumes P: "0 < P" "P \<le> 1470" and le: "w_cp_offset w \<le> w_used_size w"
    and c: "unat (w_cp_offset w) < 655360"
  shows "unat (snd (wait_pull_size P w)) \<le> P - 1"
proof -
  define cp where "cp = (of_nat P - 1 :: u32)"
  have cp: "unat cp = P - 1"
  proof -
    have "cp = of_nat (P - 1)" using P by (simp add: cp_def of_nat_diff)
    then show ?thesis using P by (simp only: unat_of_nat_u32)
  qed
  have left: "unat (w_used_size w - w_cp_offset w) = unat (w_used_size w) - unat (w_cp_offset w)"
    using le by (simp add: unat_sub)
  have sum: "unat (w_cp_offset w + cp) = unat (w_cp_offset w) + (P - 1)"
    using cp c P(2) by (simp add: unat_word_ariths)
  have s: "snd (wait_pull_size P w) =
     (let k = (if w_used_size w < w_cp_offset w + cp then w_used_size w - w_cp_offset w else cp)
      in if w_used_size w - w_cp_offset w \<le> k then w_used_size w - w_cp_offset w else k)"
    by (simp add: wait_pull_size_def Let_def cp_def)
  show ?thesis
    unfolding s Let_def using cp left sum
    by (auto simp: word_less_nat_alt word_le_nat_alt split: if_splits)
qed

lemma wait_copy_returns:
  assumes i: "udbd_inv s" and p: "w_pullout w = Some RuncmdBuf" and c: "unat (w_cp_offset w) < UDB_BUF_SIZE"
    and k: "unat k \<le> 1469"
  shows "\<exists>s' m. wait_copy w k s = Inr (s', m)"
proof -
  obtain n where n: "nul_at (runcmd_buf s) (unat (w_cp_offset w)) (UDB_BUF_SIZE - unat (w_cp_offset w)) = Some n"
      "unat (w_cp_offset w) + n < UDB_BUF_SIZE"
    by (rule nul_at_found [OF i c])
  have sl: "sbuf_strlen (w_pullout w) (unat (w_cp_offset w)) s = Inr n"
    using n(1) p by (simp add: sbuf_strlen_def)
  define m where "m = (if n + 1 < unat k then of_nat (n + 1) else k)"
  have m: "unat m \<le> n + 1" "unat m \<le> 1469"
  proof -
    have "n + 1 < unat k \<Longrightarrow> unat (of_nat (n + 1) :: u32) = n + 1"
      using k by (intro unat_of_nat_u32) simp
    with k show "unat m \<le> n + 1" "unat m \<le> 1469" by (auto simp: m_def simp del: of_nat_add)
  qed
  have rd: "sbuf_read (w_pullout w) (unat (w_cp_offset w)) (unat m) s
      = Inr (fget (unat (w_cp_offset w)) (unat m) (runcmd_buf s))"
    using p n(2) m(1) by (simp add: sbuf_read_def)
  obtain r where "put_rsp 1 (fget (unat (w_cp_offset w)) (unat m) (runcmd_buf s)) s = Inr (s\<lparr>rsp := r\<rparr>)"
    by (rule put_rsp_returns [OF i, of 1 "fget (unat (w_cp_offset w)) (unat m) (runcmd_buf s)"])
      (use m(2) in simp_all)
  then show ?thesis
    unfolding wait_copy_def sl rbind_Inr Let_def m_def [symmetric] using rd by auto
qed

lemma wait_finish_returns: "\<exists>s'. wait_finish s = Inr s'"
  by (simp add: wait_finish_def sbuf_zero_def)

lemma udb_debug_runcmd_wait_pullout_returns:
  assumes i: "udbd_inv s" and P: "0 < prot_size s" and p: "w_pullout (wait_ctl s) \<noteq> None"
    and c: "unat (w_cp_offset (wait_ctl s)) < UDB_BUF_SIZE" "w_cp_offset (wait_ctl s) \<le> w_used_size (wait_ctl s)"
  shows "\<exists>s'. udb_debug_runcmd_wait_pullout E s = Inr s'"
proof -
  define w where "w = wait_ctl s"
  obtain r where r: "clear_rsp s = Inr (s\<lparr>rsp := r\<rparr>)" "udbd_inv (s\<lparr>rsp := r\<rparr>)"
    by (rule clear_rsp_returns [OF i])
  obtain fin k where k: "wait_pull_size (prot_size s) w = (fin, k)" by (cases "wait_pull_size (prot_size s) w")
  have kle: "unat k \<le> 1469"
    using wait_pull_size_le [OF P udbd_invD(3) [OF i] c(2)] k c(1) udbd_invD(3) [OF i]
    by (simp add: w_def UDB_BUF_SIZE_eq)
  obtain r1 where r1: "put_rsp 0 [fin] (s\<lparr>rsp := r\<rparr>) = Inr (s\<lparr>rsp := r, rsp := r1\<rparr>)" "udbd_inv (s\<lparr>rsp := r, rsp := r1\<rparr>)"
    by (rule put_rsp_returns [OF r(2), of 0 "[fin]"]) simp_all
  have pw: "w_pullout w = Some RuncmdBuf"
    using p udbd_invD(8) [OF i] by (auto simp: w_def wctl_ok_def)
  obtain s1 m where s1: "wait_copy w k (set_rsp_len (s\<lparr>rsp := r, rsp := r1\<rparr>)) = Inr (s1, m)"
    using wait_copy_returns [OF _ pw _ kle] r1(2) c(1) by (metis udbd_inv_set_rsp_len w_def)
  obtain s2 where s2: "wait_finish (s1\<lparr>wait_ctl := w\<lparr>pull_finish := fin, w_cp_offset := w_cp_offset w + m\<rparr>\<rparr>) = Inr s2"
    using wait_finish_returns by blast
  have w1: "wait_ctl (s\<lparr>rsp := r\<rparr>) = w" and p1: "prot_size (s\<lparr>rsp := r\<rparr>) = prot_size s"
    by (simp_all add: w_def)
  show ?thesis
    unfolding udb_debug_runcmd_wait_pullout_def r(1) rbind_Inr Let_def w1 p1 k prod.case r1(1) s1 s2
    by blast
qed

subsection \<open>The dispatcher and the loop\<close>

lemma unknown_chan_returns:
  assumes i: "udbd_inv s"
  shows "\<exists>s'. rbind (clear_rsp s) (\<lambda>s. hook_printf msg (set_rsp_len s)) = Inr s'"
proof -
  obtain r where r: "clear_rsp s = Inr (s\<lparr>rsp := r\<rparr>)" "udbd_inv (s\<lparr>rsp := r\<rparr>)"
    by (rule clear_rsp_returns [OF i])
  obtain l where "hook_printf msg (set_rsp_len (s\<lparr>rsp := r\<rparr>)) = Inr (set_rsp_len (s\<lparr>rsp := r\<rparr>)\<lparr>rlog := l\<rparr>)"
    by (rule hook_printf_returns [OF udbd_inv_set_rsp_len [OF r(2)]])
  with r show ?thesis by simp
qed

lemma if_returns:
  "(b \<Longrightarrow> \<exists>x. f = Inr x) \<Longrightarrow> (\<not> b \<Longrightarrow> \<exists>x. g = Inr x) \<Longrightarrow> \<exists>x. (if b then f else g) = Inr x"
  by simp

lemma udb_dispatch_returns:
  assumes i: "udbd_inv s" and P: "0 < prot_size s" and r: "request_ok E c s"
  shows "\<exists>s'. udb_dispatch E c s = Inr s'"
proof -
  note q = r [unfolded request_ok_def]
  have h0: "\<exists>s'. udb_debug_runcmd E s = Inr s'" if "c = chan_code UDB_RUN_CMD"
    using q that by (intro udb_debug_runcmd_returns [OF i request_string_cstr]) (simp_all del: chan_code.simps)
  have h1: "\<exists>s'. udb_debug_runcmd_pullout s = Inr s'" if "c = chan_code UDB_RUN_CMD_PULLOUT"
    using q that by (intro udb_debug_runcmd_pullout_returns [OF i]) (simp_all del: chan_code.simps)
  have h2: "\<exists>s'. udb_debug_runcmd_wait E s = Inr s'" if "c = chan_code UDB_RUN_CMD_WAIT"
    using q that by (intro udb_debug_runcmd_wait_returns [OF i]) (simp_all del: chan_code.simps)
  have h3: "\<exists>s'. udb_debug_runcmd_wait_pullout E s = Inr s'" if "c = chan_code UDB_RUN_CMD_WAIT_PULLOUT"
    using q that by (intro udb_debug_runcmd_wait_pullout_returns [OF i P]) (simp_all del: chan_code.simps)
  have h4: "\<exists>s'. udb_debug_pullfile_init E s = Inr s'" if "c = chan_code UDB_PULL_FILE_INIT"
    using q that by (intro udb_debug_pullfile_init_returns [OF i]) (simp_all del: chan_code.simps)
  have h5: "\<exists>s'. udb_debug_pullfile_pullout s = Inr s'" if "c = chan_code UDB_PULL_FILE_PULLOUT"
    using q that by (intro udb_debug_pullfile_pullout_returns [OF i]) (simp_all del: chan_code.simps)
  have h6: "\<exists>s'. udb_debug_pushfile_init E s = Inr s'" if "c = chan_code UDB_PUSH_FILE_INIT"
    using q that by (intro udb_debug_pushfile_init_returns [OF i]) (simp_all del: chan_code.simps)
  have h7: "\<exists>s'. udb_debug_pushfile_proc E s = Inr s'" if "c = chan_code UDB_PUSH_FILE_PROC"
    using q that by (intro udb_debug_pushfile_proc_returns [OF i]) (simp_all del: chan_code.simps)
  have h8: "\<exists>s'. udb_debug_pushfile_fini s = Inr s'" if "c = chan_code UDB_PUSH_FILE_FINI"
    using q that by (intro udb_debug_pushfile_fini_returns [OF i]) (simp_all del: chan_code.simps)
  have h9: "\<exists>s'. udb_debug_msh_pullout s = Inr s'" if "c = chan_code UDB_MSH_CMD_PULLOUT"
    using q that by (intro udb_debug_msh_pullout_returns [OF i]) (simp_all del: chan_code.simps)
  show ?thesis
    unfolding udb_dispatch_def
    by (intro if_returns unknown_chan_returns [OF i] udb_debug_msh_returns [OF i]) (erule h0 h1 h2 h3 h4 h5 h6 h7 h8 h9)+
qed

text \<open>A datagram whose request, if it is one and the client is authenticated, is well-formed.\<close>

definition datagram_ok :: "env \<Rightarrow> udbd \<Rightarrow> byte list \<Rightarrow> bool" where
  "datagram_ok E s msg \<longleftrightarrow>
     (let s1 = (net_store (take MAX_MSG_LENGTH msg) s)\<lparr>prot_size := UDB_PROT_SIZE_NET_UDP\<rparr> in
      udb_auth_ok s \<longrightarrow> take 3 (req s1) = ascii ''udb'' \<longrightarrow> req s1 ! 3 \<noteq> chan_code UDB_AUTH \<longrightarrow>
      request_ok E (req s1 ! 3) s1)"

lemma udb_debug_bridge_returns:
  assumes i: "udbd_inv s"
    and r: "udb_auth_ok s \<Longrightarrow> req s ! 3 \<noteq> chan_code UDB_AUTH \<Longrightarrow>
            request_ok E (req s ! 3) (s\<lparr>prot_size := UDB_PROT_SIZE_NET_UDP\<rparr>)"
  shows "\<exists>s'. udb_debug_bridge E UDB_LAYER_NET s = Inr s'"
proof -
  define s1 where "s1 = s\<lparr>prot_size := UDB_PROT_SIZE_NET_UDP\<rparr>"
  have i1: "udbd_inv s1" unfolding s1_def using i by (rule udbd_inv_prot_size) (simp add: UDB_PROT_SIZE_NET_UDP_def)
  have c: "mread UDB_CMD_CHANNEL_ID_OFFSET 1 (req s1) = Inr [req s ! 3]"
    using udbd_invD(1) [OF i] by (simp add: mread_def s1_def take_Suc_conv_app_nth)
  have b: "udb_debug_bridge E UDB_LAYER_NET s =
      (if req s ! 3 = chan_code UDB_AUTH then udb_debug_auth s1
       else if \<not> udb_auth_ok s1 then Inr s1 else udb_dispatch E (req s ! 3) s1)"
    unfolding udb_debug_bridge_def Let_def layer_prot_size.simps s1_def [symmetric] c rbind_Inr by simp
  have P: "0 < prot_size s1" by (simp add: s1_def UDB_PROT_SIZE_NET_UDP_def)
  show ?thesis
    unfolding b using udb_debug_auth_returns [OF i1] udb_dispatch_returns [OF i1 P, of E "req s ! 3"] r
    by (auto simp: s1_def)
qed

lemma net_debugd_step_returns:
  assumes i: "udbd_inv s" and d: "datagram_ok E s msg"
  shows "\<exists>s' reply. net_debugd_step E (RecvMsg msg) s = Inr (s', reply)"
proof -
  define s1 where "s1 = net_store (take MAX_MSG_LENGTH msg) s"
  have i1: "udbd_inv s1" unfolding s1_def by (rule udbd_inv_net_store [OF i]) simp
  have a1: "udb_auth_ok s1 = udb_auth_ok s" by (simp add: s1_def net_store_def)
  have "\<exists>s2. net_handle E s1 = Inr s2"
  proof (cases "take 3 (req s1) = ascii ''udb''")
    case True
    have "\<exists>s2. udb_debug_bridge E UDB_LAYER_NET s1 = Inr s2"
      using d True a1 by (intro udb_debug_bridge_returns [OF i1]) (simp add: datagram_ok_def Let_def s1_def [symmetric])
    with True show ?thesis by (simp add: net_handle_def)
  next
    case False
    obtain l where l: "hook_printf (ascii ''net debugd unknow cmd'' @ [NEWLINE]) s1 = Inr (s1\<lparr>rlog := l\<rparr>)"
      "udbd_inv (s1\<lparr>rlog := l\<rparr>)" by (rule hook_printf_returns [OF i1])
    define s2 where "s2 = s1\<lparr>rlog := l, rsp_len := int (length (ascii ''unknow cmd''))\<rparr>"
    have i2: "udbd_inv s2" unfolding s2_def using udbd_inv_rsp_len [OF l(2)] by simp
    obtain r where "put_rsp 0 (ascii ''unknow cmd'') s2 = Inr (s2\<lparr>rsp := r\<rparr>)"
      by (rule put_rsp_returns [OF i2, of 0 "ascii ''unknow cmd''"]) simp_all
    with False l(1) show ?thesis by (simp add: net_handle_def s2_def)
  qed
  then obtain s2 where s2: "net_handle E s1 = Inr s2" ..
  have i2: "udbd_inv s2" by (rule net_handle_inv [OF s2 i1])
  have rd: "mread 0 (nat (rsp_len s2)) (rsp s2) = Inr (take (nat (rsp_len s2)) (rsp s2))"
    using udbd_invD(2,11,12) [OF i2] by (simp add: mread_def)
  show ?thesis
    unfolding net_debugd_step_def recv_result.case Let_def s1_def [symmetric] s2 rbind_Inr rd by simp
qed

end
