(* ===== verification/Session.thy ===== *)
theory Session
  imports UdbInv
begin

text \<open>
  Sessions of the daemon: runs of the UDP loop over a list of datagrams (\<open>net_run\<close>), what a
  client that has not sent the key can change, and when a session is opened.
\<close>

fun net_run :: "env \<Rightarrow> recv_result list \<Rightarrow> udbd \<Rightarrow> fault + udbd \<times> byte list option list" where
  "net_run E [] s = Inr (s, [])"
| "net_run E (r # rs) s =
     rbind (net_debugd_step E r s) (\<lambda>(s, reply).
     rbind (net_run E rs s) (\<lambda>(s, replies). Inr (s, reply # replies)))"

text \<open>The daemon between two datagrams: both buffers cleared, no response pending.\<close>

definition net_waiting :: "udbd \<Rightarrow> bool" where
  "net_waiting s \<longleftrightarrow> req s = replicate MAX_MSG_LENGTH 0 \<and> rsp s = replicate MAX_MSG_LENGTH 0 \<and> rsp_len s = 0"

text \<open>The datagrams that carry the key.\<close>

definition auth_datagram :: "byte list \<Rightarrow> bool" where
  "auth_datagram msg \<longleftrightarrow>
     64 \<le> length msg \<and> take 20 msg = ascii ''udb'' @ [chan_code UDB_AUTH] @ AUTH_KEY"

text \<open>
  What an unauthenticated client may change: the protocol size in use and the log, besides
  the buffers of the loop.  Everything else of the state is \<open>protected\<close>.
\<close>

definition protected :: "udbd \<Rightarrow> udbd" where
  "protected s = s\<lparr>req := [], rsp := [], rsp_len := 0, prot_size := 0, rlog := rbuf_zero\<rparr>"

subsection \<open>No handler touches the authentication flag\<close>

named_theorems auth_frame

lemma auth_frame_prims [auth_frame]:
  "hook_printf msg s = Inr s' \<Longrightarrow> udb_auth_ok s' = udb_auth_ok s"
  "put_rsp off d s = Inr s' \<Longrightarrow> udb_auth_ok s' = udb_auth_ok s"
  "clear_rsp s = Inr s' \<Longrightarrow> udb_auth_ok s' = udb_auth_ok s"
  "do_popen E cmd ft s = Inr (s', r) \<Longrightarrow> udb_auth_ok s' = udb_auth_ok s"
  "do_pclose E sys fd s = Inr s' \<Longrightarrow> udb_auth_ok s' = udb_auth_ok s"
  "run_child E argv s = (out, s') \<Longrightarrow> udb_auth_ok s' = udb_auth_ok s"
  "sbuf_zero b n s = Inr s' \<Longrightarrow> udb_auth_ok s' = udb_auth_ok s"
  "sbuf_write b off d s = Inr s' \<Longrightarrow> udb_auth_ok s' = udb_auth_ok s"
  "do_fwrite E d s = Inr s' \<Longrightarrow> udb_auth_ok s' = udb_auth_ok s"
  "do_fclose s = Inr s' \<Longrightarrow> udb_auth_ok s' = udb_auth_ok s"
  by (auto simp: hook_printf_def put_rsp_def clear_rsp_def do_popen_def do_pclose_def run_child_def
      sbuf_zero_def sbuf_write_def sbuf_upd_def do_fwrite_def do_fclose_def file_append_def Let_def
      rbind_eq_Inr split: prod.splits if_splits buf_ref.splits option.splits)

lemma auth_frame_simps [simp]:
  "udb_auth_ok (set_rsp_len s) = udb_auth_ok s"
  "udb_auth_ok (do_fopen_wb E path s) = udb_auth_ok s"
  "udb_auth_ok (runcmd_setup s) = udb_auth_ok s"
  "udb_auth_ok (wait_exit s) = udb_auth_ok s"
  "udb_auth_ok (snd (run_child E argv s)) = udb_auth_ok s"
  by (simp_all add: set_rsp_len_def do_fopen_wb_def Let_def runcmd_setup_def wait_exit_def run_child_def
      split: prod.splits)

lemma run_built_in_auth [auth_frame]:
  "run_built_in E c s = Inr (s', v) \<Longrightarrow> udb_auth_ok s' = udb_auth_ok s"
  by (auto simp: run_built_in_def rbind_eq_Inr dest: auth_frame split: if_splits option.splits)

lemma input_handle_auth [auth_frame]:
  "uvc_runcmd_input_handle E cmd s = Inr (s', v) \<Longrightarrow> udb_auth_ok s' = udb_auth_ok s"
  by (auto simp: uvc_runcmd_input_handle_def rbind_eq_Inr Let_def dest: auth_frame
      split: if_splits list.splits option.splits)

lemma exec_finish_auth [auth_frame]: "exec_finish nr s = Inr s' \<Longrightarrow> udb_auth_ok s' = udb_auth_ok s"
  by (auto simp: exec_finish_def rbind_eq_Inr Let_def dest: auth_frame)

lemma runcmd_parts_auth [auth_frame]:
  "runcmd_builtin_done s = Inr s' \<Longrightarrow> udb_auth_ok s' = udb_auth_ok s"
  "runcmd_popen_failed E cmd s = Inr s' \<Longrightarrow> udb_auth_ok s' = udb_auth_ok s"
  "runcmd_read E sys fd argv s = Inr s' \<Longrightarrow> udb_auth_ok s' = udb_auth_ok s"
  by (auto simp: runcmd_builtin_done_def runcmd_popen_failed_def runcmd_read_def rbind_eq_Inr Let_def
      case_prod_beta dest!: auth_frame)

lemma runcmd_exec_auth [auth_frame]: "runcmd_exec E cmd s = Inr s' \<Longrightarrow> udb_auth_ok s' = udb_auth_ok s"
  by (auto simp: runcmd_exec_def rbind_eq_Inr Let_def dest!: auth_frame split: prod.splits option.splits)

lemma udb_debug_runcmd_auth [auth_frame]: "udb_debug_runcmd E s = Inr s' \<Longrightarrow> udb_auth_ok s' = udb_auth_ok s"
  by (auto simp: udb_debug_runcmd_def rbind_eq_Inr Let_def dest!: auth_frame split: if_splits)

lemma pull_chunk_auth [auth_frame]: "pull_chunk c n s = Inr (s', c', f) \<Longrightarrow> udb_auth_ok s' = udb_auth_ok s"
  by (auto simp: pull_chunk_def rbind_eq_Inr dest!: auth_frame split: if_splits)

lemma pullout_auth [auth_frame]:
  "udb_debug_runcmd_pullout s = Inr s' \<Longrightarrow> udb_auth_ok s' = udb_auth_ok s"
  "udb_debug_msh_pullout s = Inr s' \<Longrightarrow> udb_auth_ok s' = udb_auth_ok s"
  by (auto simp: udb_debug_runcmd_pullout_def udb_debug_msh_pullout_def rbind_eq_Inr
      dest!: auth_frame_prims(3,7) pull_chunk_auth split: if_splits)

lemma pullfile_pullout_auth [auth_frame]:
  assumes "udb_debug_pullfile_pullout s = Inr s'"
  shows "udb_auth_ok s' = udb_auth_ok s"
proof -
  from assms obtain n s1 where s1: "clear_rsp s = Inr s1"
    and k: "(if p_used_size (pull_ctl s1) < p_cp_offset (pull_ctl s1) + n then Inr (set_rsp_len s1)
     else
       rbind (heap_read (p_pullout (pull_ctl s1)) (unat (p_cp_offset (pull_ctl s1))) (unat n)) (\<lambda>d.
       rbind (put_rsp 0 d s1) (\<lambda>s.
       let s = set_rsp_len s in
       if p_cp_offset (pull_ctl s1) + n = p_used_size (pull_ctl s1)
       then Inr (s\<lparr>pull_ctl := \<lparr>p_pullout = None, p_used_size = 0, p_cp_offset = 0\<rparr>\<rparr>)
       else Inr (s\<lparr>pull_ctl := (pull_ctl s1)\<lparr>p_cp_offset := p_cp_offset (pull_ctl s1) + n\<rparr>\<rparr>)))) = Inr s'"
    unfolding udb_debug_pullfile_pullout_def Let_def rbind_eq_Inr by blast
  define beyond fin where "beyond = (p_used_size (pull_ctl s1) < p_cp_offset (pull_ctl s1) + n)"
    and "fin = (p_cp_offset (pull_ctl s1) + n = p_used_size (pull_ctl s1))"
  from k have "udb_auth_ok s' = udb_auth_ok s1"
    unfolding beyond_def [symmetric] fin_def [symmetric]
    by (cases beyond; cases fin) (auto simp: rbind_eq_Inr Let_def dest!: auth_frame_prims(2))
  with auth_frame_prims(3) [OF s1] show ?thesis by simp
qed

lemma pullfile_open_auth [auth_frame]: "pullfile_open E path s = Inr s' \<Longrightarrow> udb_auth_ok s' = udb_auth_ok s"
  unfolding pullfile_open_def
  by (cases "files s (e_resolve E (cwd s) path)")
    (auto simp: rbind_eq_Inr dest!: auth_frame_prims(1) split: if_splits)

lemma open_stream_auth [auth_frame]:
  "(if push_fp s \<noteq> None then do_fclose s else Inr s) = Inr s' \<Longrightarrow> udb_auth_ok s' = udb_auth_ok s"
  by (auto dest: auth_frame split: if_splits)

lemma pullfile_init_auth [auth_frame]: "udb_debug_pullfile_init E s = Inr s' \<Longrightarrow> udb_auth_ok s' = udb_auth_ok s"
  by (auto simp: udb_debug_pullfile_init_def rbind_eq_Inr dest!: auth_frame)

lemma pushfile_init_auth [auth_frame]:
  assumes "udb_debug_pushfile_init E s = Inr s'"
  shows "udb_auth_ok s' = udb_auth_ok s"
proof -
  from assms obtain s1 path where s1: "(if push_fp s \<noteq> None then do_fclose s else Inr s) = Inr s1"
    and k: "(let s = do_fopen_wb E path s1 in
     if push_fp s = None then
       rbind (hook_printf (ascii ''Error opening output file '' @ path @ [NEWLINE]) s) (\<lambda>s.
       rbind (put_rsp 0 (ascii ''INITNO'') s) (\<lambda>s. Inr (set_rsp_len s)))
     else
       rbind (mread UDB_CMD_PKG_CONTENT_OFFSET 4 (req s)) (\<lambda>arg.
       let file_len = rd32 arg in
       rbind (hook_printf (path @ ascii '' size is '' @ fmt_d (sint file_len) @ ascii '', 0x''
                @ hex_digits (unat file_len) @ [NEWLINE]) s) (\<lambda>s.
       rbind (put_rsp 0 (ascii ''INITOK'') s) (\<lambda>s. Inr (set_rsp_len s))))) = Inr s'"
    unfolding udb_debug_pushfile_init_def rbind_eq_Inr by blast
  define s2 where "s2 = do_fopen_wb E path s1"
  have "udb_auth_ok s2 = udb_auth_ok s" using open_stream_auth [OF s1] by (simp add: s2_def)
  with k show ?thesis
    unfolding s2_def [symmetric] Let_def
    by (cases "push_fp s2") (auto simp: rbind_eq_Inr dest!: auth_frame_prims(1,2))
qed

lemma pushfile_rest_auth [auth_frame]:
  "udb_debug_pushfile_proc E s = Inr s' \<Longrightarrow> udb_auth_ok s' = udb_auth_ok s"
  "udb_debug_pushfile_fini s = Inr s' \<Longrightarrow> udb_auth_ok s' = udb_auth_ok s"
  by (auto simp: udb_debug_pushfile_proc_def udb_debug_pushfile_fini_def rbind_eq_Inr
      dest!: auth_frame_prims split: if_splits)

lemma msh_auth [auth_frame]:
  "msh_reply nr s = Inr s' \<Longrightarrow> udb_auth_ok s' = udb_auth_ok s"
  by (auto simp: msh_reply_def rbind_eq_Inr dest!: auth_frame)

lemma msh_cmds_auth [auth_frame]:
  "udb_debug_msh_cmd_help s = Inr s' \<Longrightarrow> udb_auth_ok s' = udb_auth_ok s"
  "udb_debug_msh_cmd_log s = Inr s' \<Longrightarrow> udb_auth_ok s' = udb_auth_ok s"
  by (auto simp: udb_debug_msh_cmd_help_def udb_debug_msh_cmd_log_def rbind_eq_Inr Let_def
      dest!: auth_frame split: option.splits)

lemma udb_debug_msh_auth [auth_frame]: "udb_debug_msh s = Inr s' \<Longrightarrow> udb_auth_ok s' = udb_auth_ok s"
  by (auto simp: udb_debug_msh_def rbind_eq_Inr Let_def dest!: auth_frame split: if_splits)

lemma wait_copy_auth [auth_frame]: "wait_copy w k s = Inr (s', m) \<Longrightarrow> udb_auth_ok s' = udb_auth_ok s"
  by (auto simp: wait_copy_def rbind_eq_Inr Let_def dest!: auth_frame split: if_splits)

lemma wait_finish_auth [auth_frame]: "wait_finish s = Inr s' \<Longrightarrow> udb_auth_ok s' = udb_auth_ok s"
  by (auto simp: wait_finish_def dest!: auth_frame split: if_splits)

lemma wait_auth [auth_frame]:
  "udb_debug_runcmd_wait E s = Inr s' \<Longrightarrow> udb_auth_ok s' = udb_auth_ok s"
  "udb_debug_runcmd_wait_pullout E s = Inr s' \<Longrightarrow> udb_auth_ok s' = udb_auth_ok s"
  by (auto simp: udb_debug_runcmd_wait_def udb_debug_runcmd_wait_pullout_def rbind_eq_Inr Let_def
      case_prod_beta dest!: auth_frame split: if_splits)

lemma unknown_chan_auth [auth_frame]:
  "rbind (clear_rsp s) (\<lambda>s. hook_printf msg (set_rsp_len s)) = Inr s' \<Longrightarrow> udb_auth_ok s' = udb_auth_ok s"
  by (auto simp: rbind_eq_Inr dest!: auth_frame)

lemma udb_dispatch_auth: "udb_dispatch E c s = Inr s' \<Longrightarrow> udb_auth_ok s' = udb_auth_ok s"
  by (auto simp: udb_dispatch_def split: if_splits dest: auth_frame)

subsection \<open>One turn of the loop\<close>

lemma has_prefix_take: "length p \<le> length b \<Longrightarrow> has_prefix p b = Inr (take (length p) b = p)"
  by (induction p b rule: has_prefix.induct) auto

text \<open>The request the bridge sees, for a datagram that is not dropped.\<close>

lemma net_store_waiting:
  assumes "net_waiting s" and "length d \<le> 1470"
  shows "net_store d s = s\<lparr>req := d @ replicate (1470 - length d) 0\<rparr>"
  using assms by (simp add: net_store_def net_waiting_def MAX_MSG_LENGTH_def)

lemma net_waiting_after: "net_debugd_step E r s = Inr (s', reply) \<Longrightarrow> net_waiting s \<Longrightarrow> net_waiting s'"
  by (auto simp: net_debugd_step_def net_waiting_def net_clear_def net_store_def Let_def rbind_eq_Inr
      split: recv_result.splits if_splits)

lemma request_key:
  assumes d: "length d \<le> 1470" "\<not> (1 < length d \<and> length d < 64)"
  defines "q \<equiv> d @ replicate (1470 - length d) (0 :: byte)"
  shows "take 3 q = ascii ''udb'' \<and> q ! 3 = chan_code UDB_AUTH \<and> take 16 (drop 4 q) = AUTH_KEY
    \<longleftrightarrow> auth_datagram d"
proof (cases "length d < 64")
  case True
  with d(2) have "length d \<le> 1" by linarith
  moreover have "\<not> auth_datagram d" using True by (simp add: auth_datagram_def)
  moreover have "take 3 q \<noteq> ascii ''udb''"
  proof
    assume a: "take 3 q = ascii ''udb''"
    have "q ! 1 = 0" using \<open>length d \<le> 1\<close> by (simp add: q_def nth_append)
    moreover have "q ! 1 = take 3 q ! 1" by simp
    ultimately show False unfolding a by (simp add: ascii_def)
  qed
  ultimately show ?thesis by blast
next
  case False
  have l: "length q = 1470" using d by (simp add: q_def)
  have t: "take 20 q = take 20 d" using False by (simp add: q_def)
  have split: "take 20 q = take 3 q @ [q ! 3] @ take 16 (drop 4 q)"
  proof -
    have "take 20 q = take 4 q @ take 16 (drop 4 q)" using take_add [of 4 16 q] by simp
    moreover have "take 4 q = take 3 q @ [q ! 3]" using l take_Suc_conv_app_nth [of 3 q] by simp
    ultimately show ?thesis by simp
  qed
  have "length (take 3 q) = length (ascii ''udb'')" using l by simp
  then show ?thesis
    unfolding auth_datagram_def t [symmetric] split using False by (auto simp: append_eq_append_conv)
qed

lemma udb_debug_auth_key:
  assumes "length (req s) = 1470" and "udb_debug_auth s = Inr s'"
  shows "udb_auth_ok s' \<longleftrightarrow> udb_auth_ok s \<or> take 16 (drop 4 (req s)) = AUTH_KEY"
proof -
  have l: "length AUTH_KEY = 16" by (simp add: AUTH_KEY_def)
  have "has_prefix AUTH_KEY (drop 4 (req s)) = Inr (take 16 (drop 4 (req s)) = AUTH_KEY)"
    using has_prefix_take [of AUTH_KEY "drop 4 (req s)"] assms(1) unfolding l by simp
  with assms(2) show ?thesis
    by (auto simp: udb_debug_auth_def rbind_eq_Inr dest!: auth_frame_prims(2) split: if_splits)
qed

lemma bridge_auth:
  assumes l: "length (req s) = 1470" and b: "udb_debug_bridge E lay s = Inr s'"
  shows "udb_auth_ok s' \<longleftrightarrow> udb_auth_ok s \<or> req s ! 3 = chan_code UDB_AUTH \<and> take 16 (drop 4 (req s)) = AUTH_KEY"
proof -
  define s1 where "s1 = s\<lparr>prot_size := layer_prot_size lay\<rparr>"
  have c: "mread UDB_CMD_CHANNEL_ID_OFFSET 1 (req s1) = Inr [req s ! 3]"
    using l by (simp add: mread_def s1_def take_Suc_conv_app_nth)
  have b': "(if req s ! 3 = chan_code UDB_AUTH then udb_debug_auth s1
       else if \<not> udb_auth_ok s1 then Inr s1 else udb_dispatch E (req s ! 3) s1) = Inr s'"
    using b unfolding udb_debug_bridge_def Let_def s1_def [symmetric] c rbind_Inr list.sel(1) .
  show ?thesis
  proof (cases "req s ! 3 = chan_code UDB_AUTH")
    case True
    with b' l udb_debug_auth_key [of s1 s'] show ?thesis by (simp add: s1_def)
  next
    case False
    with b' show ?thesis using udb_dispatch_auth [of E "req s ! 3" s1 s']
      by (cases "udb_auth_ok s") (auto simp: s1_def)
  qed
qed

lemma net_turn_auth:
  assumes w: "net_waiting s" and t: "net_debugd_step E (RecvMsg msg) s = Inr (s', reply)"
  shows "udb_auth_ok s' \<longleftrightarrow> udb_auth_ok s \<or> auth_datagram (take 1470 msg)"
proof -
  define d where "d = take 1470 msg"
  have ld: "length d \<le> 1470" by (simp add: d_def)
  define s1 where "s1 = s\<lparr>req := d @ replicate (1470 - length d) 0\<rparr>"
  have st: "net_store d s = s1" using net_store_waiting [OF w ld] by (simp add: s1_def)
  have t': "(if 1 < length d \<and> length d < 64 then Inr (net_clear s1, None)
      else rbind (net_handle E s1) (\<lambda>s. rbind (mread 0 (nat (rsp_len s)) (rsp s)) (\<lambda>reply.
               Inr ((net_clear s)\<lparr>rsp_len := 0\<rparr>, Some reply)))) = Inr (s', reply)"
    using t unfolding net_debugd_step_def recv_result.case Let_def MAX_MSG_LENGTH_def d_def [symmetric] st .
  show ?thesis
  proof (cases "1 < length d \<and> length d < 64")
    case True
    with t' show ?thesis by (auto simp: net_clear_def s1_def d_def auth_datagram_def)
  next
    case False
    then obtain s2 where h: "net_handle E s1 = Inr s2" and s': "udb_auth_ok s' = udb_auth_ok s2"
      using t' by (auto simp: rbind_eq_Inr net_clear_def)
    have l1: "length (req s1) = 1470" using ld by (simp add: s1_def)
    have q: "req s1 = d @ replicate (1470 - length d) 0" by (simp add: s1_def)
    note k = request_key [OF ld False, folded q]
    show ?thesis
    proof (cases "take 3 (req s1) = ascii ''udb''")
      case True
      with h have "udb_debug_bridge E UDB_LAYER_NET s1 = Inr s2" by (simp add: net_handle_def)
      from bridge_auth [OF l1 this] k True s' show ?thesis by (auto simp: s1_def d_def)
    next
      case no: False
      with h k s' show ?thesis
        by (auto simp: net_handle_def rbind_eq_Inr s1_def d_def dest!: auth_frame_prims(1,2))
    qed
  qed
qed

text \<open>Without the flag and without the key, a turn leaves the protected state alone.\<close>

definition refusals :: "byte list option set" where
  "refusals = {None, Some [], Some (ascii ''unknow cmd''), Some (ascii ''AUTHNO'' @ replicate 1464 0)}"

lemma hook_printf_only_rlog: "hook_printf msg s = Inr s' \<Longrightarrow> \<exists>l. s' = s\<lparr>rlog := l\<rparr>"
  by (auto simp: hook_printf_def rbind_eq_Inr)

lemma unauth_bridge:
  assumes l: "length (req s) = 1470" and z: "rsp s = replicate 1470 0" "rsp_len s = 0"
    and a: "\<not> udb_auth_ok s" "\<not> (req s ! 3 = chan_code UDB_AUTH \<and> take 16 (drop 4 (req s)) = AUTH_KEY)"
    and b: "udb_debug_bridge E UDB_LAYER_NET s = Inr s'"
  shows "s' = s\<lparr>prot_size := 1470\<rparr> \<or>
         s' = s\<lparr>prot_size := 1470, rsp := ascii ''AUTHNO'' @ replicate 1464 0, rsp_len := 1470\<rparr>"
proof -
  define s1 where "s1 = s\<lparr>prot_size := 1470\<rparr>"
  have c: "mread UDB_CMD_CHANNEL_ID_OFFSET 1 (req s1) = Inr [req s ! 3]"
    using l by (simp add: mread_def s1_def take_Suc_conv_app_nth)
  have ps: "s\<lparr>prot_size := layer_prot_size UDB_LAYER_NET\<rparr> = s1"
    by (simp add: s1_def UDB_PROT_SIZE_NET_UDP_def)
  have b': "(if req s ! 3 = chan_code UDB_AUTH then udb_debug_auth s1 else Inr s1) = Inr s'"
    using b a(1) unfolding udb_debug_bridge_def Let_def ps c rbind_Inr by (simp add: s1_def split: if_splits)
  show ?thesis
  proof (cases "req s ! 3 = chan_code UDB_AUTH")
    case True
    have lk: "length AUTH_KEY = 16" by (simp add: AUTH_KEY_def)
    have "has_prefix AUTH_KEY (drop 4 (req s1)) = Inr False"
      using has_prefix_take [of AUTH_KEY "drop 4 (req s)"] l a(2) True unfolding lk by (simp add: s1_def)
    moreover have "put_rsp 0 (ascii ''AUTHNO'') s1 = Inr (s1\<lparr>rsp := ascii ''AUTHNO'' @ replicate 1464 0\<rparr>)"
      by (subst put_rsp_0) (simp_all add: s1_def z)
    ultimately show ?thesis using b' True by (simp add: udb_debug_auth_def set_rsp_len_def s1_def)
  next
    case False
    with b' show ?thesis by (simp add: s1_def)
  qed
qed

lemma unauth_turn:
  assumes w: "net_waiting s" and a: "\<not> udb_auth_ok s" and n: "\<not> auth_datagram (take 1470 msg)"
    and t: "net_debugd_step E (RecvMsg msg) s = Inr (s', reply)"
  shows "protected s' = protected s \<and> reply \<in> refusals"
proof -
  define d where "d = take 1470 msg"
  have ld: "length d \<le> 1470" by (simp add: d_def)
  define s1 where "s1 = s\<lparr>req := d @ replicate (1470 - length d) 0\<rparr>"
  have st: "net_store d s = s1" using net_store_waiting [OF w ld] by (simp add: s1_def)
  have p1: "protected s1 = protected s" by (simp add: s1_def protected_def)
  have t': "(if 1 < length d \<and> length d < 64 then Inr (net_clear s1, None)
      else rbind (net_handle E s1) (\<lambda>s. rbind (mread 0 (nat (rsp_len s)) (rsp s)) (\<lambda>reply.
               Inr ((net_clear s)\<lparr>rsp_len := 0\<rparr>, Some reply)))) = Inr (s', reply)"
    using t unfolding net_debugd_step_def recv_result.case Let_def MAX_MSG_LENGTH_def d_def [symmetric] st .
  show ?thesis
  proof (cases "1 < length d \<and> length d < 64")
    case True
    with t' p1 show ?thesis by (auto simp: net_clear_def protected_def refusals_def)
  next
    case False
    then obtain s2 where h: "net_handle E s1 = Inr s2" and s': "protected s' = protected s2"
      and r: "mread 0 (nat (rsp_len s2)) (rsp s2) = Inr (the reply)" "reply \<noteq> None"
      using t' by (auto simp: rbind_eq_Inr net_clear_def protected_def)
    have l1: "length (req s1) = 1470" and z: "rsp s1 = replicate 1470 0" "rsp_len s1 = 0"
      using ld w by (simp_all add: s1_def net_waiting_def MAX_MSG_LENGTH_def)
    have q: "req s1 = d @ replicate (1470 - length d) 0" by (simp add: s1_def)
    note k = request_key [OF ld False, folded q]
    show ?thesis
    proof (cases "take 3 (req s1) = ascii ''udb''")
      case True
      then have b: "udb_debug_bridge E UDB_LAYER_NET s1 = Inr s2" using h by (simp add: net_handle_def)
      have "\<not> udb_auth_ok s1" using a by (simp add: s1_def)
      from unauth_bridge [OF l1 z this _ b] k n True show ?thesis
        using s' p1 r z by (auto simp: protected_def d_def refusals_def mread_def)
    next
      case no: False
      then obtain lg where lg: "put_rsp 0 (ascii ''unknow cmd'')
          (s1\<lparr>rlog := lg, rsp_len := int (length (ascii ''unknow cmd''))\<rparr>) = Inr s2"
        using h by (auto simp: net_handle_def rbind_eq_Inr dest!: hook_printf_only_rlog)
      then have s2: "s2 = s1\<lparr>rlog := lg, rsp_len := 10, rsp := ascii ''unknow cmd'' @ replicate 1460 0\<rparr>"
        using put_rsp_0 [of "ascii ''unknow cmd''" "s1\<lparr>rlog := lg, rsp_len := int (length (ascii ''unknow cmd''))\<rparr>"] z
        by simp
      then show ?thesis
        using s' p1 r by (auto simp: protected_def refusals_def mread_def)
    qed
  qed
qed

lemma unauth_run:
  assumes "net_waiting s" and "\<not> udb_auth_ok s"
    and "\<forall>msg. RecvMsg msg \<in> set rs \<longrightarrow> \<not> auth_datagram (take 1470 msg)"
    and "net_run E rs s = Inr (s', replies)"
  shows "protected s' = protected s \<and> set replies \<subseteq> refusals"
  using assms
proof (induction rs arbitrary: s replies)
  case Nil
  then show ?case by simp
next
  case (Cons r rs)
  obtain s1 reply rest where t: "net_debugd_step E r s = Inr (s1, reply)" and k: "net_run E rs s1 = Inr (s', rest)"
    and rp: "replies = reply # rest"
    using Cons.prems(4) by (auto simp: rbind_eq_Inr)
  have w1: "net_waiting s1" by (rule net_waiting_after [OF t Cons.prems(1)])
  have "protected s1 = protected s \<and> reply \<in> refusals"
  proof (cases r)
    case RecvErr
    with t show ?thesis by (auto simp: net_debugd_step_def net_clear_def protected_def refusals_def)
  next
    case (RecvMsg msg)
    with Cons.prems t show ?thesis using unauth_turn [of s msg E s1 reply] by auto
  qed
  moreover from this have "udb_auth_ok s1 = udb_auth_ok s"
    by (metis protected_def udbd.select_convs(5) udbd.update_convs(1,2,3,4,15) udbd.surjective)
  ultimately show ?case using Cons.IH [OF w1 _ _ k] Cons.prems(2,3) rp by auto
qed

end
