(* ===== verification/WaitQueue.thy ===== *)
theory WaitQueue
  imports EndToEnd NoFault
begin

text \<open>
  The output of a waiting command as a queue of lines: the thread appends each line it
  reads (\<open>wait_thread_read\<close>), each poll of the client takes the first one
  (udb_debug_runcmd_wait_pullout), in any interleaving.  The end of the output is where
  the daemon and its client disagree: the poll that reports the end still hands out one
  line only, and clears the buffer.
\<close>

definition queue_bytes :: "byte list list \<Rightarrow> byte list" where
  "queue_bytes ls = concat (map (\<lambda>l. l @ [0]) ls)"

lemma queue_bytes_simps [simp]:
  "queue_bytes [] = []" "queue_bytes (l # ls) = l @ 0 # queue_bytes ls"
  "queue_bytes (ls @ ls') = queue_bytes ls @ queue_bytes ls'"
  by (simp_all add: queue_bytes_def)

lemma length_queue_bytes: "length (queue_bytes ls) = length (concat ls) + length ls"
  by (induction ls) simp_all

definition wait_left :: "wctl \<Rightarrow> nat" where
  "wait_left w = unat (w_used_size w) - unat (w_cp_offset w)"

definition wait_queue :: "udbd \<Rightarrow> byte list list \<Rightarrow> bool" where
  "wait_queue s ls \<longleftrightarrow>
     (let w = wait_ctl s in
      udbd_inv s \<and> w_pullout w = Some RuncmdBuf \<and> w_cp_offset w \<le> w_used_size w \<and>
      unat (w_used_size w) < 655360 \<and>
      fget (unat (w_cp_offset w)) (wait_left w) (runcmd_buf s) = queue_bytes ls \<and>
      (\<forall>l \<in> set ls. 0 \<notin> set l \<and> length l \<le> 1023))"

lemma wait_queueD:
  assumes "wait_queue s ls"
  shows "udbd_inv s" "w_pullout (wait_ctl s) = Some RuncmdBuf"
    "unat (w_cp_offset (wait_ctl s)) \<le> unat (w_used_size (wait_ctl s))"
    "unat (w_used_size (wait_ctl s)) < 655360"
    "fget (unat (w_cp_offset (wait_ctl s))) (wait_left (wait_ctl s)) (runcmd_buf s) = queue_bytes ls"
    "\<And>l. l \<in> set ls \<Longrightarrow> 0 \<notin> set l" "\<And>l. l \<in> set ls \<Longrightarrow> length l \<le> 1023"
    "wait_left (wait_ctl s) = length (queue_bytes ls)"
proof -
  show "wait_left (wait_ctl s) = length (queue_bytes ls)"
    using assms length_fget [of "unat (w_cp_offset (wait_ctl s))" "wait_left (wait_ctl s)" "runcmd_buf s"]
    by (auto simp: wait_queue_def Let_def simp del: length_fget)
qed (use assms in \<open>auto simp: wait_queue_def Let_def word_le_nat_alt\<close>)

subsection \<open>What a poll settles on\<close>

lemma wait_pull_size_eq:
  assumes "unat (w_cp_offset w) \<le> unat (w_used_size w)" and "unat (w_used_size w) < 655360"
  shows "wait_pull_size 1470 w =
    (if cmd_finish w = 1 \<and> wait_left w < 1469 then 1 else 0, of_nat (min 1469 (wait_left w)))"
proof -
  have left: "unat (w_used_size w - w_cp_offset w) = wait_left w"
    using assms(1) by (simp add: unat_sub word_le_nat_alt wait_left_def)
  have l: "w_used_size w - w_cp_offset w = of_nat (wait_left w)"
    unfolding left [symmetric] by simp
  have sum: "unat (w_cp_offset w + 1469) = unat (w_cp_offset w) + 1469"
    using assms by (simp add: unat_word_ariths)
  have b: "w_used_size w < w_cp_offset w + 1469 \<longleftrightarrow> wait_left w < 1469"
    unfolding word_less_nat_alt sum using assms(1) by (auto simp: wait_left_def)
  have lt: "wait_left w < 655360" using assms(2) by (simp add: wait_left_def)
  have le: "(of_nat (wait_left w) :: u32) \<le> 1469 \<longleftrightarrow> wait_left w \<le> 1469"
    using lt by (simp add: word_le_nat_alt)
  show ?thesis
    using b le by (auto simp: wait_pull_size_def Let_def l min_def)
qed

lemma nul_at_first:
  assumes "map f [off..<off + k] = t @ 0 # r" and "0 \<notin> set t" and "k \<le> n"
  shows "nul_at f off n = Some (length t)"
  using assms
proof (induction t arbitrary: off k n)
  case Nil
  then obtain k' where k: "k = Suc k'" by (cases k) auto
  have "map f [off..<off + k] = f off # map f [Suc off..<off + k]"
    using k by (simp add: upt_conv_Cons del: upt_Suc)
  with Nil.prems(1) have "f off = 0" by simp
  moreover obtain n' where "n = Suc n'" using Nil.prems k by (cases n) auto
  ultimately show ?case by simp
next
  case (Cons c t)
  then obtain k' where k: "k = Suc k'" by (cases k) auto
  with Cons.prems obtain n' where n: "n = Suc n'" by (cases n) auto
  have "map f [off..<off + k] = f off # map f [Suc off..<Suc off + k']"
    using k by (simp add: upt_conv_Cons del: upt_Suc)
  with Cons.prems(1) have "f off = c" "map f [Suc off..<Suc off + k'] = t @ 0 # r" by auto
  with Cons.IH [of "Suc off" k' n'] Cons.prems k n show ?case by auto
qed

text \<open>The copy takes the first line with its NUL.\<close>

lemma wait_copy_line:
  assumes q: "wait_queue s (l # ls)" and w: "w = wait_ctl s"
    and k: "k = of_nat (min 1469 (wait_left w))"
  shows "wait_copy w k s = Inr (s\<lparr>rsp := take 1 (rsp s) @ l @ [0] @ drop (length l + 2) (rsp s)\<rparr>,
           of_nat (length l + 1))"
proof -
  note d = wait_queueD [OF q, folded w]
  have ll: "length l \<le> 1023" using d(7) by simp
  have wl: "wait_left w = length l + 1 + length (queue_bytes ls)" using d(8) by simp
  have nul: "nul_at (runcmd_buf s) (unat (w_cp_offset w)) (UDB_BUF_SIZE - unat (w_cp_offset w)) = Some (length l)"
  proof (rule nul_at_first)
    show "map (runcmd_buf s) [unat (w_cp_offset w)..<unat (w_cp_offset w) + wait_left w] = l @ 0 # queue_bytes ls"
      using d(5) by (simp add: fget_def del: upt_Suc)
    show "0 \<notin> set l" using d(6) by simp
    show "wait_left w \<le> UDB_BUF_SIZE - unat (w_cp_offset w)"
      using d(3,4) by (simp add: wait_left_def UDB_BUF_SIZE_eq)
  qed
  have sl: "sbuf_strlen (w_pullout w) (unat (w_cp_offset w)) s = Inr (length l)"
    using nul d(2) by (simp add: sbuf_strlen_def)
  have uk: "unat k = min 1469 (wait_left w)"
    unfolding k by (rule unat_of_nat_u32) simp
  have m: "(if length l + 1 < unat k then of_nat (length l + 1) else k) = (of_nat (length l + 1) :: u32)"
    using wl ll unfolding uk by (auto simp: k min_def)
  have um: "unat (of_nat (length l + 1) :: u32) = length l + 1"
    by (rule unat_of_nat_u32) (use ll in simp)
  have nz: "(of_nat (length l + 1) :: u32) \<noteq> 0"
    by (subst of_nat_u32_eq_0) (use ll in simp_all)
  have g: "fget (unat (w_cp_offset w)) (length l + 1) (runcmd_buf s) = l @ [0]"
  proof -
    have "fget (unat (w_cp_offset w)) (length l + 1) (runcmd_buf s) = take (length l + 1) (queue_bytes (l # ls))"
      unfolding d(5) [symmetric] take_fget using wl by (simp add: min_def)
    then show ?thesis by simp
  qed
  have inb: "unat (w_cp_offset w) + (length l + 1) \<le> UDB_BUF_SIZE"
    using d(3,4) wl by (simp add: wait_left_def UDB_BUF_SIZE_eq)
  have rd: "sbuf_read (w_pullout w) (unat (w_cp_offset w)) (length l + 1) s = Inr (l @ [0])"
    using inb g d(2) by (simp add: sbuf_read_def)
  have pr: "put_rsp 1 (l @ [0]) s = Inr (s\<lparr>rsp := take 1 (rsp s) @ (l @ [0]) @ drop (1 + length (l @ [0])) (rsp s)\<rparr>)"
    by (rule put_rsp_Inr) (use ll udbd_invD(2) [OF d(1)] in simp)
  show ?thesis
    unfolding wait_copy_def sl rbind_Inr Let_def m if_not_P [OF nz] um rd pr by simp
qed

lemma wait_copy_empty:
  assumes q: "wait_queue s []" and w: "w = wait_ctl s"
  shows "wait_copy w (of_nat (min 1469 (wait_left w))) s = Inr (s, 0)"
proof -
  note d = wait_queueD [OF q, folded w]
  have c: "unat (w_cp_offset w) < UDB_BUF_SIZE" using d(3,4) by (simp add: UDB_BUF_SIZE_eq)
  obtain n where n: "nul_at (runcmd_buf s) (unat (w_cp_offset w)) (UDB_BUF_SIZE - unat (w_cp_offset w)) = Some n"
    by (rule nul_at_found [OF d(1) c])
  then have sl: "sbuf_strlen (w_pullout w) (unat (w_cp_offset w)) s = Inr n"
    using d(2) by (simp add: sbuf_strlen_def)
  have "wait_left w = 0" using d(8) by simp
  then show ?thesis unfolding wait_copy_def sl by simp
qed

subsection \<open>A poll\<close>

definition first_line :: "byte list list \<Rightarrow> byte list" where
  "first_line ls = (case ls of [] \<Rightarrow> [] | l # _ \<Rightarrow> l)"

text \<open>The state byte: the command has ended and what is left would fit one response.\<close>

definition poll_state :: "udbd \<Rightarrow> byte list list \<Rightarrow> byte" where
  "poll_state s ls = (if cmd_finish (wait_ctl s) = 1 \<and> length (queue_bytes ls) < 1469 then 1 else 0)"

lemma wait_queue_after_copy:
  assumes q: "wait_queue s ls" and n: "n = (case ls of [] \<Rightarrow> 0 | l # _ \<Rightarrow> length l + 1)"
    and s': "udbd_inv s'" "runcmd_buf s' = runcmd_buf s"
      "wait_ctl s' = (wait_ctl s)\<lparr>pull_finish := f, w_cp_offset := w_cp_offset (wait_ctl s) + of_nat n,
         tm_last_update := t\<rparr>"
  shows "wait_queue s' (tl ls)"
proof -
  note d = wait_queueD [OF q]
  have nl: "n \<le> wait_left (wait_ctl s)" using d(8) n by (auto split: list.splits)
  have u: "unat (w_cp_offset (wait_ctl s) + of_nat n) = unat (w_cp_offset (wait_ctl s)) + n"
  proof -
    have "unat (of_nat n :: u32) = n"
      by (rule unat_of_nat_u32) (use nl d(4) in \<open>simp add: wait_left_def\<close>)
    then show ?thesis
      using nl d(3,4) by (simp only: unat_word_ariths) (simp add: wait_left_def)
  qed
  have left: "wait_left (wait_ctl s') = wait_left (wait_ctl s) - n"
    using u by (simp add: s'(3) wait_left_def)
  have "fget (unat (w_cp_offset (wait_ctl s'))) (wait_left (wait_ctl s')) (runcmd_buf s')
      = drop n (queue_bytes ls)"
    unfolding d(5) [symmetric] drop_fget left s'(2) using u by (simp add: s'(3))
  also have "\<dots> = queue_bytes (tl ls)" using n by (cases ls) auto
  finally have g: "fget (unat (w_cp_offset (wait_ctl s'))) (wait_left (wait_ctl s')) (runcmd_buf s')
      = queue_bytes (tl ls)" .
  have t: "\<forall>l \<in> set (tl ls). 0 \<notin> set l \<and> length l \<le> 1023" using d(6,7) by (cases ls) auto
  have "unat (w_cp_offset (wait_ctl s) + of_nat n) \<le> unat (w_used_size (wait_ctl s))"
    using u nl d(3) by (simp add: wait_left_def)
  then show ?thesis
    using g t d(2,4) s'(1) unfolding wait_queue_def Let_def
    by (simp add: s'(3) word_le_nat_alt)
qed

lemma wait_queue_cleared:
  assumes "wait_queue s ls" and "udbd_inv s'"
    and "wait_ctl s' = (wait_ctl s)\<lparr>pull_finish := f, w_used_size := 0, w_cp_offset := 0, w_total_size := 0,
          tm_last_update := t\<rparr>"
  shows "wait_queue s' []"
  using assms wait_queueD(2) [OF assms(1)] by (simp add: wait_queue_def Let_def wait_left_def)

lemma wait_poll:
  assumes q: "wait_queue s ls" and P: "prot_size s = 1470"
  shows "\<exists>s'. udb_debug_runcmd_wait_pullout E s = Inr s' \<and> rsp_len s' = 1470 \<and>
    rsp s' = poll_state s ls # first_line ls @ replicate (1469 - length (first_line ls)) 0 \<and>
    udb_auth_ok s' = udb_auth_ok s \<and> wait_thr s' = wait_thr s \<and>
    cmd_finish (wait_ctl s') = cmd_finish (wait_ctl s) \<and>
    wait_queue s' (if poll_state s ls = 1 then [] else tl ls) \<and>
    tm_last_update (wait_ctl s') = os_time_get_boot_ms E \<and>
    (poll_state s ls \<noteq> 1 \<longrightarrow> w_used_size (wait_ctl s') = w_used_size (wait_ctl s)) \<and>
    popen_st s' = popen_st s"
proof -
  note d = wait_queueD [OF q]
  define fin where "fin = poll_state s ls"
  define w where "w = wait_ctl s"
  define n where "n = (case ls of [] \<Rightarrow> 0 | l # _ \<Rightarrow> length l + 1)"
  define s1 where "s1 = s\<lparr>rsp := replicate 1470 (0 :: byte)\<rparr>"
  have cl: "clear_rsp s = Inr s1"
    unfolding s1_def using P udbd_invD(2) [OF d(1)] by (rule clear_rsp_full)
  have i1: "udbd_inv s1" by (rule udbd_inv_clear_rsp [OF cl d(1)])
  have w1: "wait_ctl s1 = w" and p1: "prot_size s1 = 1470" using P by (simp_all add: s1_def w_def)
  have sz: "wait_pull_size 1470 w = (fin, of_nat (min 1469 (wait_left w)))"
    using wait_pull_size_eq [of w] d(3,4,8) by (simp add: w_def fin_def poll_state_def)
  define s2 where "s2 = s1\<lparr>rsp := fin # replicate 1469 0\<rparr>"
  have pf: "put_rsp 0 [fin] s1 = Inr s2" by (subst put_rsp_0) (simp_all add: s1_def s2_def)
  have i2: "udbd_inv s2" by (rule udbd_inv_put_rsp [OF pf i1])
  define s3 where "s3 = set_rsp_len s2"
  have i3: "udbd_inv s3" using i2 by (simp add: s3_def)
  have q3: "wait_queue s3 ls"
    using q i3 by (simp add: wait_queue_def Let_def s3_def s2_def s1_def set_rsp_len_def)
  have w3: "w = wait_ctl s3" by (simp add: w_def s3_def s2_def s1_def set_rsp_len_def)
  define s4 where "s4 = s3\<lparr>rsp := fin # first_line ls @ replicate (1469 - length (first_line ls)) 0\<rparr>"
  have ll: "length (first_line ls) \<le> 1023" using d(7) by (auto simp: first_line_def split: list.splits)
  have cp: "wait_copy w (of_nat (min 1469 (wait_left w))) s3 = Inr (s4, of_nat n)"
  proof (cases ls)
    case Nil
    then show ?thesis
      using wait_copy_empty [OF q3 [unfolded Nil] w3]
      by (simp add: s4_def s3_def s2_def n_def first_line_def set_rsp_len_def)
  next
    case (Cons l ls')
    have "[0] @ drop (length l + 2) (fin # replicate 1469 0) = replicate (1469 - length l) (0 :: byte)"
      using ll Cons by (simp add: first_line_def Suc_diff_Suc flip: replicate_Suc)
    then show ?thesis
      using wait_copy_line [OF q3 [unfolded Cons] w3 refl] Cons
      by (simp add: s4_def s3_def s2_def n_def first_line_def set_rsp_len_def)
  qed
  have i4: "udbd_inv s4"
    using i3 ll by (simp add: s4_def udbd_inv_def wthr_ok_def MAX_MSG_LENGTH_def)
  define s5 where "s5 = s4\<lparr>wait_ctl := w\<lparr>pull_finish := fin, w_cp_offset := w_cp_offset w + of_nat n\<rparr>\<rparr>"
  define t where "t = os_time_get_boot_ms E"
  have run: "udb_debug_runcmd_wait_pullout E s = rbind (wait_finish s5)
      (\<lambda>s. Inr (s\<lparr>wait_ctl := (wait_ctl s)\<lparr>tm_last_update := t\<rparr>\<rparr>))"
    unfolding udb_debug_runcmd_wait_pullout_def cl rbind_Inr Let_def w1 p1 sz prod.case pf s3_def [symmetric]
      cp s5_def [symmetric] t_def [symmetric] ..
  show ?thesis
  proof (cases "fin = 1")
    case True
    define s6 where "s6 = s5\<lparr>wait_ctl := (wait_ctl s5)\<lparr>w_used_size := 0, w_cp_offset := 0, w_total_size := 0\<rparr>,
        runcmd_buf := (\<lambda>i. if i < UDB_BUF_SIZE then 0 else runcmd_buf s5 i)\<rparr>"
    have fin6: "wait_finish s5 = Inr s6"
      using True by (simp add: wait_finish_def s5_def s6_def sbuf_zero_def cong: if_cong)
    define s7 where "s7 = s6\<lparr>wait_ctl := (wait_ctl s6)\<lparr>tm_last_update := t\<rparr>\<rparr>"
    have res: "udb_debug_runcmd_wait_pullout E s = Inr s7" by (simp add: run fin6 s7_def)
    have i7: "udbd_inv s7" by (rule udb_debug_runcmd_wait_pullout_inv [OF res d(1)])
    have "wait_queue s7 []"
      by (rule wait_queue_cleared [OF q i7]) (simp add: s7_def s6_def s5_def w_def)
    with res True show ?thesis
      by (simp add: fin_def [symmetric] s7_def s6_def s5_def s4_def s3_def s2_def s1_def set_rsp_len_def w_def P t_def)
  next
    case False
    have fin5: "wait_finish s5 = Inr s5" using False by (simp add: wait_finish_def s5_def)
    define s7 where "s7 = s5\<lparr>wait_ctl := (wait_ctl s5)\<lparr>tm_last_update := t\<rparr>\<rparr>"
    have res: "udb_debug_runcmd_wait_pullout E s = Inr s7" by (simp add: run fin5 s7_def)
    have i7: "udbd_inv s7" by (rule udb_debug_runcmd_wait_pullout_inv [OF res d(1)])
    have "wait_queue s7 (tl ls)"
      by (rule wait_queue_after_copy [OF q n_def i7])
        (simp_all add: s7_def s5_def s4_def s3_def s2_def s1_def set_rsp_len_def w_def)
    with res False show ?thesis
      by (simp add: fin_def [symmetric] s7_def s5_def s4_def s3_def s2_def s1_def set_rsp_len_def w_def P t_def)
  qed
qed

subsection \<open>The thread\<close>

lemma fgets_split: "fgets n out = (line, rest) \<Longrightarrow> line @ rest = out"
  by (induction n out arbitrary: line rest rule: fgets.induct) (auto split: if_splits prod.splits)

lemma fgets_length: "fgets n out = (line, rest) \<Longrightarrow> length line \<le> n - 1"
  by (induction n out arbitrary: line rest rule: fgets.induct) (auto split: if_splits prod.splits)

lemma fgets_progress: "1 < n \<Longrightarrow> out \<noteq> [] \<Longrightarrow> fgets n out = (line, rest) \<Longrightarrow> line \<noteq> []"
  by (cases n; cases out) (auto split: if_splits prod.splits)

lemma fgets_newline: "fgets n out = (line, rest) \<Longrightarrow> NEWLINE \<notin> set (butlast line)"
  by (induction n out arbitrary: line rest rule: fgets.induct) (auto split: if_splits prod.splits)

lemma fget_fput_append:
  "off + n = m \<Longrightarrow> fget off (n + length d) (fput m d f) = fget off n f @ d"
  by (rule nth_equalityI) (auto simp: fget_def fput_def nth_append)

lemma thread_reads_line:
  assumes q: "wait_queue s ls" and r: "wait_thr s = Some (WtReading cmd fd out)" and ne: "out \<noteq> []"
    and f: "fgets FGETS_SIZE out = (line, rest)" and t: "\<not> 300 < tm_diff E (wait_ctl s)"
    and str: "str = takeWhile (\<lambda>c. c \<noteq> 0) line"
    and room: "unat (w_used_size (wait_ctl s)) + length str + 1 < 655360"
  shows "\<exists>s'. wait_thread_step E s = Inr s' \<and> wait_queue s' (ls @ [str]) \<and>
    wait_thr s' = Some (WtReading cmd fd rest) \<and> udb_auth_ok s' = udb_auth_ok s \<and>
    cmd_finish (wait_ctl s') = cmd_finish (wait_ctl s) \<and>
    tm_last_update (wait_ctl s') = tm_last_update (wait_ctl s) \<and>
    unat (w_used_size (wait_ctl s')) = unat (w_used_size (wait_ctl s)) + length str + 1 \<and>
    popen_st s' = popen_st s"
proof -
  define w where "w = wait_ctl s"
  note d = wait_queueD [OF q, folded w_def]
  define u where "u = unat (w_used_size w)"
  define s1 where "s1 = s\<lparr>runcmd_buf := fput u (str @ [0]) (runcmd_buf s)\<rparr>"
  have w1: "sbuf_write (w_pullout w) u (str @ [0]) s = Inr s1"
    using d(2) room by (simp add: sbuf_write_def s1_def UDB_BUF_SIZE_eq u_def w_def)
  define s2 where "s2 = s1\<lparr>wait_ctl := w\<lparr>w_used_size := w_used_size w + of_nat (length str + 1)\<rparr>,
                 wait_thr := Some (WtReading cmd fd rest)\<rparr>"
  have st: "wait_thread_step E s = Inr s2"
    unfolding wait_thread_step_def r option.case wait_thread.case wait_thread_read_def Let_def
      if_not_P [OF ne] f prod.case if_not_P [OF t [folded w_def]] w_def [symmetric] str [symmetric] u_def [symmetric] w1 rbind_Inr
      s2_def ..
  have i2: "udbd_inv s2" by (rule wait_thread_step_inv [OF st d(1)])
  have us: "unat (w_used_size w + of_nat (length str + 1)) = u + length str + 1"
  proof -
    have "unat (of_nat (length str + 1) :: u32) = length str + 1"
      by (rule unat_of_nat_u32) (use room in \<open>simp add: u_def w_def\<close>)
    then show ?thesis
      using room by (simp only: unat_word_ariths) (simp add: u_def w_def)
  qed
  have left: "wait_left (wait_ctl s2) = wait_left w + length (str @ [0 :: byte])"
    using us d(3) by (simp add: s2_def wait_left_def u_def)
  have "fget (unat (w_cp_offset w)) (wait_left w + length (str @ [0 :: byte])) (fput u (str @ [0]) (runcmd_buf s))
      = fget (unat (w_cp_offset w)) (wait_left w) (runcmd_buf s) @ (str @ [0])"
    by (rule fget_fput_append) (use d(3) in \<open>simp add: wait_left_def u_def\<close>)
  then have g: "fget (unat (w_cp_offset (wait_ctl s2))) (wait_left (wait_ctl s2)) (runcmd_buf s2)
      = queue_bytes (ls @ [str])"
    unfolding left d(5) by (simp add: s2_def s1_def d(5))
  have "length line \<le> 1023" using fgets_length [OF f] by (simp add: FGETS_SIZE_def)
  then have l: "length str \<le> 1023" using length_takeWhile_le [of "\<lambda>c. c \<noteq> 0" line] unfolding str by linarith
  have z: "0 \<notin> set str" unfolding str by (auto dest: set_takeWhileD)
  have w2: "wait_ctl s2 = w\<lparr>w_used_size := w_used_size w + of_nat (length str + 1)\<rparr>" by (simp add: s2_def)
  have "wait_queue s2 (ls @ [str])"
    unfolding wait_queue_def Let_def using i2 d(2,3,6,7) g l z us room
    by (auto simp: w2 word_le_nat_alt u_def w_def [symmetric] simp del: of_nat_add)
  with st us show ?thesis by (simp add: s2_def s1_def w_def u_def)
qed

subsection \<open>The client's polling loop\<close>

lemma poll_turn:
  assumes q: "wait_queue s ls" and a: "udb_auth_ok s"
  shows "\<exists>s'. udb_xfer (net_device E) 1470 s (payload_msg UDB_RUN_CMD_WAIT_PULLOUT [])
      = Inr (s', (poll_state s ls # first_line ls @ replicate (1469 - length (first_line ls)) 0) @ [0], 1470) \<and>
    udb_auth_ok s' \<and> wait_thr s' = wait_thr s \<and> cmd_finish (wait_ctl s') = cmd_finish (wait_ctl s) \<and>
    wait_queue s' (if poll_state s ls = 1 then [] else tl ls) \<and>
    tm_last_update (wait_ctl s') = os_time_get_boot_ms E \<and>
    (poll_state s ls \<noteq> 1 \<longrightarrow> w_used_size (wait_ctl s') = w_used_size (wait_ctl s)) \<and>
    popen_st s' = popen_st s"
proof -
  define m where "m = payload_msg UDB_RUN_CMD_WAIT_PULLOUT []"
  have lm: "length m = 1470" by (simp add: m_def)
  have i: "udbd_inv s" by (rule wait_queueD [OF q])
  have qm: "wait_queue (net_request m s) ls"
    using q udbd_inv_net_request [OF i lm] by (simp add: wait_queue_def Let_def)
  have ps: "poll_state (net_request m s) ls = poll_state s ls" by (simp add: poll_state_def)
  obtain s1 where s1: "udb_debug_runcmd_wait_pullout E (net_request m s) = Inr s1" "rsp_len s1 = 1470"
      "rsp s1 = poll_state s ls # first_line ls @ replicate (1469 - length (first_line ls)) 0"
      "udb_auth_ok s1" "wait_thr s1 = wait_thr s" "cmd_finish (wait_ctl s1) = cmd_finish (wait_ctl s)"
      "wait_queue s1 (if poll_state s ls = 1 then [] else tl ls)"
      "tm_last_update (wait_ctl s1) = os_time_get_boot_ms E"
      "poll_state s ls \<noteq> 1 \<longrightarrow> w_used_size (wait_ctl s1) = w_used_size (wait_ctl s)" "popen_st s1 = popen_st s"
    using wait_poll [OF qm, of E] a unfolding ps by auto
  have d: "udb_dispatch E (chan_code UDB_RUN_CMD_WAIT_PULLOUT) (net_request m s) = Inr s1"
    using s1(1) by (simp add: udb_dispatch_def)
  note x = xfer_answer [OF i _ a _ d [unfolded m_def] s1(2)]
  have "wait_queue (net_idle s1) (if poll_state s ls = 1 then [] else tl ls)"
    using s1(7) x(2) by (simp add: wait_queue_def Let_def)
  with x(1) s1 show ?thesis by auto
qed

lemma wait_loop_client_turn:
  assumes q: "wait_queue s ls" and a: "udb_auth_ok s"
  obtains s' where "udb_auth_ok s'" "wait_thr s' = wait_thr s"
    "cmd_finish (wait_ctl s') = cmd_finish (wait_ctl s)"
    "wait_queue s' (if poll_state s ls = 1 then [] else tl ls)"
    "wait_loop_client (Suc fuel) (net_device E) 1470 s out =
      (if poll_state s ls = 1 then Inr (s', out @ first_line ls)
       else wait_loop_client fuel (net_device E) 1470 s' (out @ first_line ls))"
proof -
  obtain s' where x: "udb_xfer (net_device E) 1470 s (payload_msg UDB_RUN_CMD_WAIT_PULLOUT [])
      = Inr (s', (poll_state s ls # first_line ls @ replicate (1469 - length (first_line ls)) 0) @ [0], 1470)"
    and s': "udb_auth_ok s'" "wait_thr s' = wait_thr s" "cmd_finish (wait_ctl s') = cmd_finish (wait_ctl s)"
      "wait_queue s' (if poll_state s ls = 1 then [] else tl ls)"
    using poll_turn [OF q a] by blast
  have nr: "new_request 1470 UDB_RUN_CMD_WAIT_PULLOUT = Inr (payload_msg UDB_RUN_CMD_WAIT_PULLOUT [])"
    by (simp add: new_request_Inr payload_msg_def)
  have z: "0 \<notin> set (first_line ls)"
    using wait_queueD(6) [OF q] by (auto simp: first_line_def split: list.splits)
  have ll: "length (first_line ls) \<le> 1023"
    using wait_queueD(7) [OF q] by (auto simp: first_line_def split: list.splits)
  then obtain k where k: "1469 - length (first_line ls) = Suc k" by (cases "1469 - length (first_line ls)") auto
  have c: "cstr 1 ((poll_state s ls # first_line ls @ replicate (1469 - length (first_line ls)) 0) @ [0])
      = Inr (first_line ls)"
    using cstr_terminated [of "[poll_state s ls]" 1 "first_line ls" "replicate k 0 @ [0]"] z by (simp add: k)
  have r: "mread 0 1 ((poll_state s ls # first_line ls @ replicate (1469 - length (first_line ls)) 0) @ [0])
      = Inr [poll_state s ls]" by (simp add: mread_def)
  have "wait_loop_client (Suc fuel) (net_device E) 1470 s out =
      (if poll_state s ls = 1 then Inr (s', out @ first_line ls)
       else wait_loop_client fuel (net_device E) 1470 s' (out @ first_line ls))"
    unfolding wait_loop_client.simps nr rbind_Inr x prod.case c r by simp
  with s' show ?thesis by (rule that)
qed

text \<open>
  Once the command has ended, the lines the client prints: all of those that leave at
  least a full response behind, and one more.
\<close>

fun delivered :: "byte list list \<Rightarrow> byte list list" where
  "delivered [] = []"
| "delivered (l # ls) =
     (if length (queue_bytes (l # ls)) < 1469 then [l] else l # delivered ls)"

lemma wait_loop_client_ended:
  assumes "wait_queue s ls" and "udb_auth_ok s" and "cmd_finish (wait_ctl s) = 1" and "length ls < fuel"
  shows "\<exists>s'. wait_loop_client fuel (net_device E) 1470 s out = Inr (s', out @ concat (delivered ls)) \<and>
    wait_queue s' []"
  using assms
proof (induction fuel arbitrary: s ls out)
  case 0
  then show ?case by simp
next
  case (Suc fuel)
  obtain s' where s': "udb_auth_ok s'" "cmd_finish (wait_ctl s') = 1"
      "wait_queue s' (if poll_state s ls = 1 then [] else tl ls)"
      "wait_loop_client (Suc fuel) (net_device E) 1470 s out =
      (if poll_state s ls = 1 then Inr (s', out @ first_line ls)
       else wait_loop_client fuel (net_device E) 1470 s' (out @ first_line ls))"
    using wait_loop_client_turn [OF Suc.prems(1,2)] Suc.prems(3) by metis
  show ?case
  proof (cases "poll_state s ls = 1")
    case True
    then have "concat (delivered ls) = first_line ls"
      by (cases ls) (auto simp: poll_state_def first_line_def split: if_splits)
    with True s' show ?thesis by auto
  next
    case False
    then obtain l ls' where ls: "ls = l # ls'"
      using Suc.prems(3) by (cases ls) (auto simp: poll_state_def)
    have "\<exists>s''. wait_loop_client fuel (net_device E) 1470 s' (out @ l)
        = Inr (s'', (out @ l) @ concat (delivered ls')) \<and> wait_queue s'' []"
      using s' False ls Suc.prems(4) by (intro Suc.IH) auto
    with s' False ls Suc.prems(3) show ?thesis
      by (auto simp: first_line_def poll_state_def split: if_splits)
  qed
qed

text \<open>A thread that left without the end mark (popen failed, or a timeout): no poll ends the loop.\<close>

lemma wait_loop_client_stuck:
  assumes "wait_queue s ls" and "udb_auth_ok s" and "cmd_finish (wait_ctl s) \<noteq> 1"
  shows "wait_loop_client fuel (net_device E) 1470 s out = Inl OutOfFuel"
  using assms
proof (induction fuel arbitrary: s ls out)
  case 0
  then show ?case by simp
next
  case (Suc fuel)
  have ps: "poll_state s ls \<noteq> 1" using Suc.prems(3) by (simp add: poll_state_def)
  obtain s' where s': "udb_auth_ok s'" "cmd_finish (wait_ctl s') = cmd_finish (wait_ctl s)"
      "wait_queue s' (if poll_state s ls = 1 then [] else tl ls)"
      "wait_loop_client (Suc fuel) (net_device E) 1470 s out =
      (if poll_state s ls = 1 then Inr (s', out @ first_line ls)
       else wait_loop_client fuel (net_device E) 1470 s' (out @ first_line ls))"
    using wait_loop_client_turn [OF Suc.prems(1,2)] by metis
  have q: "wait_queue s' (tl ls)" using s'(3) ps by simp
  have f: "cmd_finish (wait_ctl s') \<noteq> 1" using s'(2) Suc.prems(3) by simp
  show ?case using Suc.IH [OF q s'(1) f] s'(4) ps by simp
qed

subsection \<open>Any interleaving\<close>

lemma fgets_shorter:
  assumes "out \<noteq> []" and "(line, rest) = fgets FGETS_SIZE out"
  shows "length rest < length out"
proof -
  have "line \<noteq> []" using fgets_progress [OF _ assms(1) assms(2) [symmetric]] by (simp add: FGETS_SIZE_def)
  moreover have "line @ rest = out" by (rule fgets_split [OF assms(2) [symmetric]])
  ultimately show ?thesis by auto
qed

text \<open>The lines the thread reads, one after another.\<close>

function fgets_all :: "byte list \<Rightarrow> byte list list" where
  "fgets_all out =
     (if out = [] then [] else case fgets FGETS_SIZE out of (line, rest) \<Rightarrow> line # fgets_all rest)"
  by pat_completeness auto
termination
  by (relation "measure length") (auto simp: fgets_shorter)

declare fgets_all.simps [simp del]

lemma fgets_all_Nil [simp]: "fgets_all [] = []"
  by (subst fgets_all.simps) simp

lemma fgets_all_Cons:
  "out \<noteq> [] \<Longrightarrow> fgets FGETS_SIZE out = (line, rest) \<Longrightarrow> fgets_all out = line # fgets_all rest"
  by (subst fgets_all.simps) simp

subsection \<open>The end of the thread\<close>

lemma wait_queue_other:
  assumes "wait_queue s ls" and "udbd_inv s'" and "runcmd_buf s' = runcmd_buf s"
    and "wait_ctl s' = (wait_ctl s)\<lparr>cmd_finish := f, single_instance := i\<rparr>"
  shows "wait_queue s' ls"
  using assms by (simp add: wait_queue_def Let_def wait_left_def)

text \<open>fgets gives NULL: the stream is closed and the end mark set.\<close>

lemma thread_ends:
  assumes q: "wait_queue s ls" and r: "wait_thr s = Some (WtReading cmd fd [])"
    and c: "uvc_pclose (e_popen E (popen_st s)) (Some fd) (popen_st s) = Inr (tab, st)"
  shows "\<exists>s'. wait_thread_step E s = Inr s' \<and> wait_queue s' ls \<and> wait_thr s' = None \<and>
    udb_auth_ok s' = udb_auth_ok s \<and> cmd_finish (wait_ctl s') = 1"
proof -
  define s' where "s' = s\<lparr>popen_st := tab, wait_ctl := (wait_ctl s)\<lparr>cmd_finish := 1, single_instance := 0\<rparr>,
      wait_thr := None\<rparr>"
  have st: "wait_thread_step E s = Inr s'"
    using r c by (simp add: wait_thread_step_def wait_thread_read_def Let_def do_pclose_def wait_exit_def s'_def)
  have "wait_queue s' ls"
    by (rule wait_queue_other [OF q wait_thread_step_inv [OF st wait_queueD(1) [OF q]]]) (simp_all add: s'_def)
  with st show ?thesis by (simp add: s'_def)
qed

text \<open>The client has not polled for more than 300 ms: the thread leaves without the mark.\<close>

lemma thread_times_out:
  assumes q: "wait_queue s ls" and r: "wait_thr s = Some (WtReading cmd fd out)" and ne: "out \<noteq> []"
    and t: "300 < tm_diff E (wait_ctl s)"
    and c: "uvc_pclose (e_popen E (popen_st s)) (Some fd) (popen_st s) = Inr (tab, st)"
  shows "\<exists>s'. wait_thread_step E s = Inr s' \<and> wait_queue s' ls \<and> wait_thr s' = None \<and>
    udb_auth_ok s' = udb_auth_ok s \<and> cmd_finish (wait_ctl s') = cmd_finish (wait_ctl s)"
proof -
  obtain line rest where f: "fgets FGETS_SIZE out = (line, rest)" by (cases "fgets FGETS_SIZE out")
  obtain l1 where l1: "hook_printf (ascii ''udb: ['' @ cmd @ ascii ''] timeout'' @ [NEWLINE]) s = Inr (s\<lparr>rlog := l1\<rparr>)"
    and i1: "udbd_inv (s\<lparr>rlog := l1\<rparr>)" by (rule hook_printf_returns [OF wait_queueD(1) [OF q]])
  have p: "do_pclose E (e_popen E (popen_st s)) fd (s\<lparr>rlog := l1\<rparr>) = Inr (s\<lparr>rlog := l1, popen_st := tab\<rparr>)"
    using c by (simp add: do_pclose_def)
  obtain l2 where l2: "hook_printf (ascii ''udb: ['' @ cmd @ ascii ''] close done'' @ [NEWLINE])
      (s\<lparr>rlog := l1, popen_st := tab\<rparr>) = Inr (s\<lparr>rlog := l1, popen_st := tab, rlog := l2\<rparr>)"
    by (rule hook_printf_returns [OF udbd_inv_pclose [OF p i1]])
  define s' where "s' = wait_exit (s\<lparr>popen_st := tab, rlog := l2\<rparr>)"
  have st: "wait_thread_step E s = Inr s'"
    unfolding wait_thread_step_def r option.case wait_thread.case wait_thread_read_def Let_def
      if_not_P [OF ne] f prod.case if_P [OF t] l1 rbind_Inr p l2 s'_def by simp
  have "wait_queue s' ls"
    by (rule wait_queue_other [OF q wait_thread_step_inv [OF st wait_queueD(1) [OF q]],
          where f = "cmd_finish (wait_ctl s)" and i = 0])
      (simp_all add: s'_def wait_exit_def)
  with st show ?thesis by (simp add: s'_def wait_exit_def)
qed

text \<open>The buffer holds 655360 bytes; the thread does not look whether the next line fits.\<close>

lemma thread_overflows:
  assumes p: "w_pullout (wait_ctl s) = Some RuncmdBuf" and r: "wait_thr s = Some (WtReading cmd fd out)"
    and ne: "out \<noteq> []" and f: "fgets FGETS_SIZE out = (line, rest)" and t: "\<not> 300 < tm_diff E (wait_ctl s)"
    and full: "655360 < unat (w_used_size (wait_ctl s)) + length (takeWhile (\<lambda>c. c \<noteq> 0) line) + 1"
  shows "wait_thread_step E s = Inl OobWrite"
proof -
  have "sbuf_write (w_pullout (wait_ctl s)) (unat (w_used_size (wait_ctl s))) (takeWhile (\<lambda>c. c \<noteq> 0) line @ [0]) s
      = Inl OobWrite"
    using p full by (simp add: sbuf_write_def UDB_BUF_SIZE_eq)
  then show ?thesis
    unfolding wait_thread_step_def r option.case wait_thread.case wait_thread_read_def Let_def
      if_not_P [OF ne] f prod.case if_not_P [OF t] by simp
qed

subsection \<open>Schedules\<close>

text \<open>
  A schedule: True is a step of the thread, False a poll of the client, each with what the
  clock and the kernel say at that time.  The texts of the answers in their order.
\<close>

fun wait_sched :: "(bool \<times> env) list \<Rightarrow> udbd \<Rightarrow> fault + udbd \<times> byte list list" where
  "wait_sched [] s = Inr (s, [])"
| "wait_sched ((True, E) # bs) s = rbind (wait_thread_step E s) (wait_sched bs)"
| "wait_sched ((False, E) # bs) s =
     rbind (udb_xfer (net_device E) 1470 s (payload_msg UDB_RUN_CMD_WAIT_PULLOUT [])) (\<lambda>(s, rb, _).
     rbind (cstr 1 rb) (\<lambda>t.
     rbind (wait_sched bs s) (\<lambda>(s, ts). Inr (s, t # ts))))"

text \<open>The time of the last poll, and a thread step more than 300 ms away from it.\<close>

fun last_poll :: "u32 \<Rightarrow> (bool \<times> env) list \<Rightarrow> u32" where
  "last_poll t [] = t"
| "last_poll t ((True, E) # bs) = last_poll t bs"
| "last_poll t ((False, E) # bs) = last_poll (os_time_get_boot_ms E) bs"

definition late_read :: "u32 \<Rightarrow> (bool \<times> env) list \<Rightarrow> bool" where
  "late_read t bs \<longleftrightarrow> (\<exists>pre E post. bs = pre @ (True, E) # post \<and>
     300 < \<bar>uint (os_time_get_boot_ms E) - uint (last_poll t pre)\<bar>)"

lemma late_read_thread:
  "300 < \<bar>uint (os_time_get_boot_ms E) - uint t\<bar> \<or> late_read t bs \<Longrightarrow> late_read t ((True, E) # bs)"
  unfolding late_read_def by (metis append_Cons append_Nil last_poll.simps(1,2))

lemma late_read_poll: "late_read (os_time_get_boot_ms E) bs \<Longrightarrow> late_read t ((False, E) # bs)"
  unfolding late_read_def by (metis append_Cons last_poll.simps(3))

lemma tm_diff_abs:
  "300 < tm_diff E w \<longleftrightarrow> 300 < \<bar>uint (os_time_get_boot_ms E) - uint (tm_last_update w)\<bar>"
proof -
  have d: "uint (a - b) = uint a - uint b" if "b \<le> a" for a b :: u32
    using that by (simp add: uint_sub_lem word_le_def)
  have l: "300 < x \<longleftrightarrow> 300 < uint x" for x :: u32 by (simp add: word_less_def)
  show ?thesis
    unfolding tm_diff_def Let_def l
    by (cases "tm_last_update w < os_time_get_boot_ms E") (auto simp: d word_less_def word_le_def)
qed

lemma sched_poll:
  assumes q: "wait_queue s ls" and a: "udb_auth_ok s"
  obtains s1 where "wait_sched ((False, E) # bs) s
      = rbind (wait_sched bs s1) (\<lambda>(s', ts). Inr (s', first_line ls # ts))"
    and "udb_auth_ok s1" and "wait_thr s1 = wait_thr s" and "cmd_finish (wait_ctl s1) = cmd_finish (wait_ctl s)"
    and "wait_queue s1 (if poll_state s ls = 1 then [] else tl ls)"
    and "tm_last_update (wait_ctl s1) = os_time_get_boot_ms E"
    and "poll_state s ls \<noteq> 1 \<longrightarrow> w_used_size (wait_ctl s1) = w_used_size (wait_ctl s)"
    and "popen_st s1 = popen_st s"
proof -
  obtain s1 where x: "udb_xfer (net_device E) 1470 s (payload_msg UDB_RUN_CMD_WAIT_PULLOUT [])
      = Inr (s1, (poll_state s ls # first_line ls @ replicate (1469 - length (first_line ls)) 0) @ [0], 1470)"
    and s1: "udb_auth_ok s1" "wait_thr s1 = wait_thr s" "cmd_finish (wait_ctl s1) = cmd_finish (wait_ctl s)"
      "wait_queue s1 (if poll_state s ls = 1 then [] else tl ls)"
      "tm_last_update (wait_ctl s1) = os_time_get_boot_ms E"
      "poll_state s ls \<noteq> 1 \<longrightarrow> w_used_size (wait_ctl s1) = w_used_size (wait_ctl s)"
      "popen_st s1 = popen_st s"
    using poll_turn [OF q a, of E] a by auto
  have z: "0 \<notin> set (first_line ls)" "length (first_line ls) \<le> 1023"
    using wait_queueD(6,7) [OF q] by (auto simp: first_line_def split: list.splits)
  obtain k where k: "1469 - length (first_line ls) = Suc k" using z(2) by (cases "1469 - length (first_line ls)") auto
  have c: "cstr 1 ((poll_state s ls # first_line ls @ replicate (1469 - length (first_line ls)) 0) @ [0])
      = Inr (first_line ls)"
    using cstr_terminated [of "[poll_state s ls]" 1 "first_line ls" "replicate k 0 @ [0]"] z by (simp add: k)
  have "wait_sched ((False, E) # bs) s = rbind (wait_sched bs s1) (\<lambda>(s', ts). Inr (s', first_line ls # ts))"
    unfolding wait_sched.simps x rbind_Inr prod.case c ..
  from that [OF this s1] show ?thesis .
qed

text \<open>When the thread is gone, only polls do something; the one that reports the end clears the rest.\<close>

lemma wait_sched_idle:
  assumes "wait_queue s ls" and "udb_auth_ok s" and "wait_thr s = None"
  shows "\<exists>s' ts ls' lost. wait_sched bs s = Inr (s', ts) \<and> wait_queue s' ls' \<and> wait_thr s' = None \<and>
    cmd_finish (wait_ctl s') = cmd_finish (wait_ctl s) \<and> concat ts @ concat ls' @ lost = concat ls \<and>
    (lost = [] \<or> cmd_finish (wait_ctl s) = 1 \<and> ls' = [] \<and> length lost < 1468) \<and> length ls' \<le> length ls"
  using assms
proof (induction bs arbitrary: s ls)
  case Nil
  then show ?case by auto
next
  case (Cons be bs)
  obtain b E where be: "be = (b, E)" by (cases be)
  show ?case
  proof (cases b)
    case True
    then have "wait_sched (be # bs) s = wait_sched bs s"
      using Cons.prems(3) by (simp add: be wait_thread_step_def)
    with Cons.IH [OF Cons.prems] show ?thesis by simp
  next
    case False
    obtain s1 where e: "wait_sched ((False, E) # bs) s
        = rbind (wait_sched bs s1) (\<lambda>(s', ts). Inr (s', first_line ls # ts))"
      and s1: "udb_auth_ok s1" "wait_thr s1 = None" "cmd_finish (wait_ctl s1) = cmd_finish (wait_ctl s)"
      and q1: "wait_queue s1 (if poll_state s ls = 1 then [] else tl ls)"
      using sched_poll [OF Cons.prems(1,2), of E bs] Cons.prems(3) by metis
    obtain s' ts ls' lost where r: "wait_sched bs s1 = Inr (s', ts)" "wait_queue s' ls'" "wait_thr s' = None"
        "cmd_finish (wait_ctl s') = cmd_finish (wait_ctl s)"
        "concat ts @ concat ls' @ lost = concat (if poll_state s ls = 1 then [] else tl ls)"
        "lost = [] \<or> cmd_finish (wait_ctl s) = 1 \<and> ls' = [] \<and> length lost < 1468"
        "length ls' \<le> length (if poll_state s ls = 1 then [] else tl ls)"
      using Cons.IH [OF q1 s1(1,2)] s1(3) by metis
    have e': "wait_sched (be # bs) s = Inr (s', first_line ls # ts)" using e r(1) False be by simp
    have hd: "concat ls = first_line ls @ concat (tl ls)" by (cases ls) (simp_all add: first_line_def)
    show ?thesis
    proof (cases "poll_state s ls = 1")
      case True
      then have c: "cmd_finish (wait_ctl s) = 1" "length (queue_bytes ls) < 1469"
        by (auto simp: poll_state_def split: if_splits)
      have "length (concat (tl ls)) \<le> length (queue_bytes (tl ls))" by (simp add: length_queue_bytes)
      then have l: "tl ls = [] \<or> length (concat (tl ls)) < 1468" using c(2) by (cases ls) auto
      have "concat ts = []" "ls' = []" using r(5,7) True by auto
      with e' r(2-4) c(1) hd l show ?thesis
        by (intro exI [of _ s'] exI [of _ "first_line ls # ts"] exI [of _ "[]"] exI [of _ "concat (tl ls)"]) auto
    next
      case False
      with r(5) hd have "concat (first_line ls # ts) @ concat ls' @ lost = concat ls" by simp
      moreover have "length ls' \<le> length ls" using r(7) False by (cases ls) simp_all
      ultimately show ?thesis using e' r(2-4,6) by blast
    qed
  qed
qed

text \<open>
  What a schedule may come to: the thread still reads; it has read everything (then the poll
  that reports the end may drop lines); or it left because a read came too late.
\<close>

definition wait_outcome :: "byte list \<Rightarrow> nat \<Rightarrow> bool \<Rightarrow> udbd \<Rightarrow> byte list list \<Rightarrow> byte list \<Rightarrow> byte list \<Rightarrow> bool" where
  "wait_outcome cmd fd late s ls lost unread \<longleftrightarrow>
     wait_thr s = Some (WtReading cmd fd unread) \<and> cmd_finish (wait_ctl s) \<noteq> 1 \<and> lost = [] \<or>
     wait_thr s = None \<and> cmd_finish (wait_ctl s) = 1 \<and> unread = [] \<and>
       (lost = [] \<or> ls = [] \<and> length lost < 1468) \<or>
     wait_thr s = None \<and> cmd_finish (wait_ctl s) \<noteq> 1 \<and> unread \<noteq> [] \<and> lost = [] \<and> late"

lemma wait_outcome_late: "wait_outcome cmd fd l s ls lost unread \<Longrightarrow> (l \<Longrightarrow> l') \<Longrightarrow> wait_outcome cmd fd l' s ls lost unread"
  by (auto simp: wait_outcome_def)

lemma wait_sched_reading:
  assumes "wait_queue s ls" and "udb_auth_ok s" and "cmd_finish (wait_ctl s) \<noteq> 1"
    and "wait_thr s = Some (WtReading cmd fd out)" and "0 \<notin> set out"
    and "unat (w_used_size (wait_ctl s)) + 2 * length out < 655360"
    and "\<forall>E \<in> snd ` set bs. \<exists>r. uvc_pclose (e_popen E (popen_st s)) (Some fd) (popen_st s) = Inr r"
  shows "\<exists>s' ts ls' lost unread. wait_sched bs s = Inr (s', ts) \<and> wait_queue s' ls' \<and>
    concat ts @ concat ls' @ lost @ unread = concat ls @ out \<and>
    wait_outcome cmd fd (late_read (tm_last_update (wait_ctl s)) bs) s' ls' lost unread"
  using assms
proof (induction bs arbitrary: s ls out)
  case Nil
  then show ?case by (intro exI [of _ s] exI [of _ "[]"] exI [of _ ls] exI [of _ out]) (simp add: wait_outcome_def)
next
  case (Cons be bs)
  obtain b E where be: "be = (b, E)" by (cases be)
  obtain tab st where pc: "uvc_pclose (e_popen E (popen_st s)) (Some fd) (popen_st s) = Inr (tab, st)"
    using Cons.prems(7) be by auto
  note q = Cons.prems(1)
  show ?case
  proof (cases b)
    case False
    have ps: "poll_state s ls \<noteq> 1" using Cons.prems(3) by (simp add: poll_state_def)
    obtain s1 where e: "wait_sched ((False, E) # bs) s
        = rbind (wait_sched bs s1) (\<lambda>(s', ts). Inr (s', first_line ls # ts))"
      and s1: "udb_auth_ok s1" "wait_thr s1 = wait_thr s" "cmd_finish (wait_ctl s1) = cmd_finish (wait_ctl s)"
        "wait_queue s1 (tl ls)" "tm_last_update (wait_ctl s1) = os_time_get_boot_ms E"
        "w_used_size (wait_ctl s1) = w_used_size (wait_ctl s)" "popen_st s1 = popen_st s"
      by (rule sched_poll [OF q Cons.prems(2), of E bs], rule that, assumption) (simp_all add: ps)
    have p1: "cmd_finish (wait_ctl s1) \<noteq> 1" "wait_thr s1 = Some (WtReading cmd fd out)"
        "unat (w_used_size (wait_ctl s1)) + 2 * length out < 655360"
      using s1 Cons.prems(3,4,6) by simp_all
    have p2: "\<forall>E \<in> snd ` set bs. \<exists>r. uvc_pclose (e_popen E (popen_st s1)) (Some fd) (popen_st s1) = Inr r"
      using Cons.prems(7) s1(7) by simp
    obtain s' ts ls' lost unread where r: "wait_sched bs s1 = Inr (s', ts)" "wait_queue s' ls'"
        "concat ts @ concat ls' @ lost @ unread = concat (tl ls) @ out"
        "wait_outcome cmd fd (late_read (tm_last_update (wait_ctl s1)) bs) s' ls' lost unread"
      using Cons.IH [OF s1(4,1) p1(1,2) Cons.prems(5) p1(3) p2] by blast
    have "wait_sched (be # bs) s = Inr (s', first_line ls # ts)" using e r(1) False be by simp
    moreover have "concat (first_line ls # ts) @ concat ls' @ lost @ unread = concat ls @ out"
      using r(3) by (cases ls) (simp_all add: first_line_def)
    moreover have "wait_outcome cmd fd (late_read (tm_last_update (wait_ctl s)) (be # bs)) s' ls' lost unread"
      by (rule wait_outcome_late [OF r(4)]) (use s1(5) False be late_read_poll in simp)
    ultimately show ?thesis using r(2) by blast
  next
    case b: True
    show ?thesis
    proof (cases "out = []")
      case True
      obtain s1 where s1: "wait_thread_step E s = Inr s1" "wait_queue s1 ls" "wait_thr s1 = None"
          "udb_auth_ok s1" "cmd_finish (wait_ctl s1) = 1"
        using thread_ends [OF q Cons.prems(4) [unfolded True] pc] Cons.prems(2) by auto
      obtain s' ts ls' lost where r: "wait_sched bs s1 = Inr (s', ts)" "wait_queue s' ls'" "wait_thr s' = None"
          "cmd_finish (wait_ctl s') = 1" "concat ts @ concat ls' @ lost = concat ls"
          "lost = [] \<or> ls' = [] \<and> length lost < 1468"
        using wait_sched_idle [OF s1(2,4,3), of bs] s1(5) by auto
      have "wait_sched (be # bs) s = Inr (s', ts)" using s1(1) r(1) b be by simp
      moreover have "concat ts @ concat ls' @ lost @ [] = concat ls @ out" using r(5) True by simp
      ultimately show ?thesis using r(2-4,6) unfolding wait_outcome_def by blast
    next
      case ne: False
      obtain line rest where f: "fgets FGETS_SIZE out = (line, rest)" by (cases "fgets FGETS_SIZE out")
      show ?thesis
      proof (cases "300 < tm_diff E (wait_ctl s)")
        case True
        obtain s1 where s1: "wait_thread_step E s = Inr s1" "wait_queue s1 ls" "wait_thr s1 = None"
            "udb_auth_ok s1" "cmd_finish (wait_ctl s1) \<noteq> 1"
          using thread_times_out [OF q Cons.prems(4) ne True pc] Cons.prems(2,3) by auto
        obtain s' ts ls' where r: "wait_sched bs s1 = Inr (s', ts)" "wait_queue s' ls'" "wait_thr s' = None"
            "cmd_finish (wait_ctl s') \<noteq> 1" "concat ts @ concat ls' = concat ls"
          using wait_sched_idle [OF s1(2,4,3), of bs] s1(5) by auto
        have "late_read (tm_last_update (wait_ctl s)) (be # bs)"
          unfolding be using late_read_thread True b by (simp add: tm_diff_abs)
        moreover have "wait_sched (be # bs) s = Inr (s', ts)" using s1(1) r(1) b be by simp
        moreover have "concat ts @ concat ls' @ [] @ out = concat ls @ out" using r(5) by simp
        ultimately show ?thesis using r(2-4) ne unfolding wait_outcome_def by blast
      next
        case t: False
        have sp: "line @ rest = out" using fgets_split [OF f] .
        then have z: "0 \<notin> set line" "0 \<notin> set rest" using Cons.prems(5) by auto
        from z(1) have "takeWhile (\<lambda>c. c \<noteq> 0) line = line" unfolding takeWhile_eq_all_conv by auto
        then have str: "line = takeWhile (\<lambda>c. c \<noteq> 0) line" by (rule sym)
        have ln: "0 < length line" using fgets_progress [OF _ ne f] by (simp add: FGETS_SIZE_def)
        have lo: "length out = length line + length rest" using sp by auto
        then have room: "unat (w_used_size (wait_ctl s)) + length line + 1 < 655360"
          using Cons.prems(6) ln by linarith
        obtain s1 where s1: "wait_thread_step E s = Inr s1" "wait_queue s1 (ls @ [line])"
            "wait_thr s1 = Some (WtReading cmd fd rest)" "udb_auth_ok s1" "cmd_finish (wait_ctl s1) \<noteq> 1"
            "tm_last_update (wait_ctl s1) = tm_last_update (wait_ctl s)"
            "unat (w_used_size (wait_ctl s1)) = unat (w_used_size (wait_ctl s)) + length line + 1"
            "popen_st s1 = popen_st s"
          using thread_reads_line [OF q Cons.prems(4) ne f t str room] Cons.prems(2,3) by auto
        have u: "unat (w_used_size (wait_ctl s1)) + 2 * length rest < 655360"
          using s1(7) Cons.prems(6) lo ln by linarith
        have p2: "\<forall>E \<in> snd ` set bs. \<exists>r. uvc_pclose (e_popen E (popen_st s1)) (Some fd) (popen_st s1) = Inr r"
          using Cons.prems(7) s1(8) by simp
        obtain s' ts ls' lost unread where r: "wait_sched bs s1 = Inr (s', ts)" "wait_queue s' ls'"
            "concat ts @ concat ls' @ lost @ unread = concat (ls @ [line]) @ rest"
            "wait_outcome cmd fd (late_read (tm_last_update (wait_ctl s1)) bs) s' ls' lost unread"
          using Cons.IH [OF s1(2,4,5,3) z(2) u p2] by blast
        have "wait_sched (be # bs) s = Inr (s', ts)" using s1(1) r(1) b be by simp
        moreover have "concat ts @ concat ls' @ lost @ unread = concat ls @ out" using r(3) sp by simp
        moreover have "wait_outcome cmd fd (late_read (tm_last_update (wait_ctl s)) (be # bs)) s' ls' lost unread"
          by (rule wait_outcome_late [OF r(4)]) (use s1(6) b be late_read_thread in simp)
        ultimately show ?thesis using r(2) by blast
      qed
    qed
  qed
qed

end
