(* ===== verification/Demo.thy ===== *)
theory Demo
  imports WaitQueue Session
begin

text \<open>
  A concrete environment and concrete states of the daemon, at which the properties with
  hypotheses are applied (their witnesses).
\<close>

definition demo_sys :: popen_sys where
  "demo_sys = \<lparr>sys_rlimit = Some 16, sys_calloc = True, sys_pipe = Some (5, 6), sys_fork = Some 100,
     sys_fdopen = True, sys_fclose = True, sys_wait = [WaitEINTR, WaitStat 0]\<rparr>"

definition demo_env :: env where
  "demo_env = \<lparr>e_clock = (1, 500000000), e_popen = (\<lambda>_. demo_sys),
     e_exec = (\<lambda>fs dir argv. (ascii ''hello'' @ [NEWLINE], fs)),
     e_chdir = (\<lambda>d p. Some p), e_resolve = (\<lambda>d p. p),
     e_creat = (\<lambda>p. p \<noteq> ascii ''/ro''), e_malloc = (\<lambda>_. True),
     e_strerror = ascii ''error'', e_spill = (\<lambda>p. length p div 2)\<rparr>"

definition demo_files :: "byte list \<Rightarrow> byte list option" where
  "demo_files p = (if p = ascii ''/a'' then Some (ascii ''contents'') else None)"

definition demo_boot :: udbd where
  "demo_boot = udbd_start (replicate 1470 0) (replicate 1470 0) demo_files (ascii ''/'')"

definition demo_auth :: udbd where
  "demo_auth = demo_boot\<lparr>udb_auth_ok := True\<rparr>"

lemma demo_boot_inv [simp]: "udbd_inv demo_boot"
  unfolding demo_boot_def by (rule udbd_start_inv) (simp_all add: MAX_MSG_LENGTH_def)

lemma demo_auth_inv [simp]: "udbd_inv demo_auth"
  by (simp add: demo_auth_def)

lemma demo_boot_simps [simp]:
  "udb_auth_ok demo_boot = False" "files demo_boot = demo_files" "cwd demo_boot = ascii ''/''"
  "popen_st demo_boot = popen_tab_zero" "push_fp demo_boot = None" "wait_ctl demo_boot = wctl_zero"
  "wait_thr demo_boot = None" "net_waiting demo_boot" "runcmd_buf demo_boot = (\<lambda>_. 0)"
  by (simp_all add: demo_boot_def udbd_start_def net_waiting_def MAX_MSG_LENGTH_def)

lemma demo_auth_simps [simp]:
  "udb_auth_ok demo_auth = True" "files demo_auth = demo_files" "cwd demo_auth = ascii ''/''"
  "popen_st demo_auth = popen_tab_zero" "push_fp demo_auth = None" "wait_ctl demo_auth = wctl_zero"
  "wait_thr demo_auth = None" "net_waiting demo_auth" "runcmd_buf demo_auth = (\<lambda>_. 0)"
  by (simp_all add: demo_auth_def demo_boot_def udbd_start_def net_waiting_def MAX_MSG_LENGTH_def)

lemma demo_env_simps [simp]:
  "e_popen demo_env t = demo_sys" "e_exec demo_env fs d argv = (ascii ''hello'' @ [NEWLINE], fs)"
  "e_resolve demo_env d p = p" "e_malloc demo_env n"
  "e_creat demo_env p \<longleftrightarrow> p \<noteq> ascii ''/ro''"
  by (simp_all add: demo_env_def)

lemma demo_popen_sys_ok [simp]: "popen_sys_ok demo_sys popen_tab_zero"
  by (auto simp: popen_sys_ok_def demo_sys_def popen_tab_zero_def)

lemma demo_popen_safe [simp]: "popen_safe demo_sys popen_tab_zero"
  by (simp add: popen_safe_def demo_sys_def popen_tab_zero_def)

text \<open>A waiting command that has ended with two lines of output, none of them pulled.\<close>

definition demo_lines :: "byte list list" where
  "demo_lines = [ascii ''one'' @ [NEWLINE], ascii ''two'' @ [NEWLINE]]"

definition demo_ended :: udbd where
  "demo_ended = demo_auth\<lparr>
     wait_ctl := wctl_zero\<lparr>w_pullout := Some RuncmdBuf, cmd_finish := 1, w_used_size := 10\<rparr>,
     runcmd_buf := fput 0 (queue_bytes demo_lines) (\<lambda>_. 0)\<rparr>"

lemma length_demo_lines: "length (queue_bytes demo_lines) = 10"
  by (simp add: demo_lines_def)

lemma demo_ended_queue [simp]: "wait_queue demo_ended demo_lines"
proof -
  have "fget 0 10 (fput 0 (queue_bytes demo_lines) (\<lambda>_. 0)) = queue_bytes demo_lines"
    using fget_fput_same [of 0 "queue_bytes demo_lines" "\<lambda>_. 0"] by (simp add: length_demo_lines)
  moreover have "udbd_inv demo_ended"
    using udbd_invD [OF demo_auth_inv]
    by (auto simp: udbd_inv_def demo_ended_def wthr_ok_def wctl_ok_def wctl_zero_def fput_def
        length_demo_lines UDB_BUF_SIZE_eq MAX_MSG_LENGTH_def)
  moreover have "\<forall>l \<in> set demo_lines. 0 \<notin> set l \<and> length l \<le> 1023"
    by (simp add: demo_lines_def ascii_def)
  ultimately show ?thesis
    by (simp add: wait_queue_def Let_def demo_ended_def wait_left_def wctl_zero_def)
qed

lemma demo_ended_simps [simp]:
  "udb_auth_ok demo_ended = True" "cmd_finish (wait_ctl demo_ended) = 1" "wait_thr demo_ended = None"
  by (simp_all add: demo_ended_def)

end
