(* ===== verification/Hazards.thy ===== *)
theory Hazards
  imports Demo
begin

text \<open>
  Requests the daemon does not survive, and the race of the waiting command: where the
  conditions of \<open>request_ok\<close> are not only sufficient.
\<close>

subsection \<open>Which commands the built-in parser survives\<close>

text \<open>
  The lines that are parsed as a pipeline (the others are left to the shell): something but
  white space, no semicolon, no bar in front.
\<close>

definition pipeline_line :: "byte list \<Rightarrow> bool" where
  "pipeline_line input \<longleftrightarrow> (\<exists>c \<in> set input. \<not> isspace c) \<and> 0x3B \<notin> set input \<and> hd input \<noteq> BAR"

lemma runnable_cmd_pipeline:
  "runnable_cmd cmd \<longleftrightarrow> cmd \<noteq> [] \<and> \<not> (pipeline_line (butlast cmd) \<and> [] \<in> set (split_on BAR (butlast cmd)))"
  by (cases "butlast cmd = []")
    (auto simp: runnable_cmd_def pipeline_line_def Let_def is_blank_def is_multi_cmd_def list_all_iff list_ex_iff)

lemma input_handle_empty_stage:
  assumes "cmd \<noteq> []" and "\<not> runnable_cmd cmd"
  shows "uvc_runcmd_input_handle E cmd s = Inl NullDeref"
proof -
  define input where "input = butlast cmd"
  have c: "input \<noteq> [] \<and> \<not> is_blank input \<and> \<not> is_multi_cmd input \<and> hd input \<noteq> BAR"
    and e: "[] \<in> set (split_on BAR input)"
    using assms by (auto simp: runnable_cmd_def Let_def input_def)
  have "read_all_slots (parse_commands_with_pipes input) = Inl NullDeref"
    using e read_all_slots_iff [of input] by (auto simp: read_all_slots_def split: if_splits)
  with c assms(1) show ?thesis by (simp add: uvc_runcmd_input_handle_def Let_def input_def)
qed

text \<open>
  C11. What uvc_runcmd_input_handle does on every command: on the empty one, and on no
  other, it writes before its buffer; it dereferences NULL (the slot that strtok left over)
  exactly on the lines it parses as a pipeline in which a stage is empty ("a||b", or a
  trailing bar); on all the others it returns.  The line is the command without its last
  byte.  A line that is blank, holds a semicolon or starts with a bar is not parsed, so it
  returns even with an empty stage.
\<close>

theorem input_handle_returns_iff:
  assumes "udbd_inv s"
  shows "(uvc_runcmd_input_handle E cmd s = Inl OobWrite \<longleftrightarrow> cmd = []) \<and>
    (uvc_runcmd_input_handle E cmd s = Inl NullDeref \<longleftrightarrow>
       pipeline_line (butlast cmd) \<and> [] \<in> set (split_on BAR (butlast cmd))) \<and>
    ((\<exists>r. uvc_runcmd_input_handle E cmd s = Inr r) \<longleftrightarrow>
       cmd \<noteq> [] \<and> \<not> (pipeline_line (butlast cmd) \<and> [] \<in> set (split_on BAR (butlast cmd))))"
proof (cases "runnable_cmd cmd")
  case True
  then obtain r where "uvc_runcmd_input_handle E cmd s = Inr r"
    using input_handle_returns [OF assms] by blast
  with True show ?thesis by (auto simp: runnable_cmd_pipeline)
next
  case False
  have "\<not> pipeline_line (butlast [])" by (simp add: pipeline_line_def)
  moreover have "uvc_runcmd_input_handle E [] s = Inl OobWrite" by (simp add: uvc_runcmd_input_handle_def)
  ultimately show ?thesis
    using False input_handle_empty_stage [of cmd E s] runnable_cmd_pipeline [of cmd]
    by (cases "cmd = []") auto
qed

lemma input_handle_returns_iff_witness:
  "uvc_runcmd_input_handle demo_env (ascii ''ls| '') demo_auth = Inl NullDeref \<and>
   uvc_runcmd_input_handle demo_env [] demo_auth = Inl OobWrite \<and>
   (\<exists>r. uvc_runcmd_input_handle demo_env (ascii ''ls|wc '') demo_auth = Inr r) \<and>
   (\<exists>r. uvc_runcmd_input_handle demo_env (ascii ''|ls| '') demo_auth = Inr r)"
  using input_handle_returns_iff [OF demo_auth_inv, of demo_env "ascii ''ls| ''"]
    input_handle_returns_iff [OF demo_auth_inv, of demo_env "[]"]
    input_handle_returns_iff [OF demo_auth_inv, of demo_env "ascii ''ls|wc ''"]
    input_handle_returns_iff [OF demo_auth_inv, of demo_env "ascii ''|ls| ''"]
  by (simp add: pipeline_line_def ascii_def isspace_def)

subsection \<open>Pull-out requests larger than a response\<close>

lemma udb_debug_runcmd_pullout_overflow:
  assumes i: "udbd_inv s" and p: "prot_size s = 1470"
    and r: "req s = ascii ''udb'' @ [c] @ le32 n @ rest"
    and n: "1470 < unat n" "unat (cp_offset (run_ctl s)) + unat n \<le> unat (used_size (run_ctl s))"
  shows "udb_debug_runcmd_pullout s = Inl OobWrite"
proof -
  define k where "k = run_ctl s"
  note ok = udbd_invD(5) [OF i, folded k_def]
  define s1 where "s1 = s\<lparr>rsp := replicate 1470 (0 :: byte)\<rparr>"
  have cl: "clear_rsp s = Inr s1"
    unfolding s1_def using p udbd_invD(2) [OF i] by (rule clear_rsp_full)
  have u: "unat (cp_offset k + n) = unat (cp_offset k) + unat n"
  proof -
    have "unat (cp_offset k) + unat n < 4294967296"
      using n(2) unat_u32 [of "used_size (run_ctl s)"] unfolding k_def by linarith
    then show ?thesis by (simp add: unat_word_ariths)
  qed
  have c1: "\<not> used_size k < cp_offset k + n"
    using n(2) u by (simp add: k_def word_less_nat_alt)
  have some: "pullout k = Some RuncmdBuf" using ok n by (auto simp: cctl_ok_def k_def)
  have rd: "sbuf_read (pullout k) (unat (cp_offset k)) (unat n) s1
      = Inr (fget (unat (cp_offset k)) (unat n) (runcmd_buf s1))"
    using ok n(2) some by (simp add: cctl_ok_def sbuf_read_def k_def)
  have wr: "put_rsp 0 (fget (unat (cp_offset k)) (unat n) (runcmd_buf s1)) s1 = Inl OobWrite"
    using n(1) by (simp add: put_rsp_def mwrite_def s1_def)
  have "pull_chunk k n s1 = Inl OobWrite"
    unfolding pull_chunk_def if_not_P [OF c1] rd rbind_Inr wr by simp
  moreover have "run_ctl s1 = k" by (simp add: s1_def k_def)
  ultimately show ?thesis
    unfolding udb_debug_runcmd_pullout_def r pull_request_arg rbind_Inr cl rd32_le32 by simp
qed

lemma net_device_fault:
  assumes "udbd_inv s" and "length p \<le> 1466" and "udb_auth_ok s" and "ch \<noteq> UDB_AUTH"
    and "udb_dispatch E (chan_code ch) (net_request (payload_msg ch p) s) = Inl e"
  shows "net_device E s (payload_msg ch p) = Inl e"
proof -
  have "length (p @ replicate (1466 - length p) (0 :: byte)) = 1466" using assms(2) by simp
  from net_device_dispatch [OF assms(1) this assms(3,4), of E] assms(5) show ?thesis
    by (simp add: payload_msg_def)
qed

text \<open>
  C12. UDB_RUN_CMD_PULLOUT does not bound the requested size by the response: with more
  than 1470 bytes of output pending, a request for more than 1470 of them makes the daemon
  write beyond its response buffer.
\<close>

theorem oversized_pullout_overflows:
  assumes "run_pending s xs" and "1470 < n" and "n \<le> length xs"
  shows "net_device E s (payload_msg UDB_RUN_CMD_PULLOUT (le32 (of_nat n))) = Inl OobWrite"
proof -
  define m where "m = payload_msg UDB_RUN_CMD_PULLOUT (le32 (of_nat n))"
  have i: "udbd_inv s" "udb_auth_ok s" and xs: "ctl_left (run_ctl s) = length xs"
    using assms(1) by (auto simp: run_pending_def)
  have un: "unat (of_nat n :: u32) = n"
    using assms(3) length_run_pending [OF assms(1)] by (intro unat_of_nat_u32) simp
  have im: "udbd_inv (net_request m s)" by (rule udbd_inv_net_request [OF i(1)]) (simp add: m_def)
  have "udb_debug_runcmd_pullout (net_request m s) = Inl OobWrite"
    by (rule udb_debug_runcmd_pullout_overflow [OF im, of "chan_code UDB_RUN_CMD_PULLOUT" "of_nat n"])
      (use un assms(2,3) xs in \<open>simp_all add: m_def payload_msg_def ctl_left_def\<close>)
  then show ?thesis
    unfolding m_def by (intro net_device_fault [OF i(1) _ i(2)]) (simp_all add: udb_dispatch_def)
qed

definition demo_output :: udbd where
  "demo_output = demo_auth\<lparr>run_ctl :=
     \<lparr>pullout = Some RuncmdBuf, total_size = 655360, used_size = 2000, cp_offset = 0\<rparr>\<rparr>"

lemma demo_output_pending: "run_pending demo_output (replicate 2000 0)"
proof -
  have "udbd_inv demo_output"
    unfolding demo_output_def
    by (rule udbd_inv_run_ctl) (simp_all add: cctl_ok_def UDB_BUF_SIZE_eq)
  then show ?thesis
    by (simp add: run_pending_def demo_output_def ctl_pending_def ctl_left_def fget_def map_replicate_const)
qed

lemma oversized_pullout_overflows_witness:
  "net_device demo_env demo_output (payload_msg UDB_RUN_CMD_PULLOUT (le32 (of_nat 1500))) = Inl OobWrite"
  by (rule oversized_pullout_overflows [OF demo_output_pending]) simp_all

subsection \<open>Pushing where no file can be created\<close>

lemma udb_debug_pushfile_init_refused:
  assumes i: "udbd_inv s" and p: "prot_size s = 1470"
    and r: "req s = payload_msg ch (le32 sz @ path)" and path: "length path < 1462" "0 \<notin> set path"
    and fp: "push_fp s = None" and c: "\<not> e_creat E (e_resolve E (cwd s) path)"
  shows "\<exists>s'. udb_debug_pushfile_init E s = Inr s' \<and> rsp_len s' = 1470 \<and>
    udb_auth_ok s' = udb_auth_ok s \<and> push_fp s' = None \<and> files s' = files s \<and>
    take 6 (rsp s') = ascii ''INITNO''"
proof -
  obtain j where j: "1466 - length (le32 sz @ path) = Suc j" using path
    by (cases "1466 - length (le32 sz @ path)") auto
  have cs: "cstr 8 (req s) = Inr path"
    unfolding r payload_msg_def j
    using cstr_terminated [of "ascii ''udb'' @ [chan_code ch] @ le32 sz" 8 path] path by simp
  have fo: "do_fopen_wb E path s = s" using c fp by (simp add: do_fopen_wb_def Let_def)
  obtain l where h: "hook_printf (ascii ''Error opening output file '' @ path @ [NEWLINE]) s = Inr (s\<lparr>rlog := l\<rparr>)"
    by (rule hook_printf_state [OF udbd_invD(4) [OF i]])
  have i2: "udbd_inv (s\<lparr>rlog := l\<rparr>)" using udbd_inv_rlog [OF h i] .
  obtain rr where pr: "put_rsp 0 (ascii ''INITNO'') (s\<lparr>rlog := l\<rparr>) = Inr (s\<lparr>rlog := l, rsp := ascii ''INITNO'' @ rr\<rparr>)"
    by (rule put_rsp_short [OF i2, of "ascii ''INITNO''"]) simp_all
  have n1: "\<not> push_fp s \<noteq> None" using fp by simp
  have "udb_debug_pushfile_init E s = Inr (set_rsp_len (s\<lparr>rlog := l, rsp := ascii ''INITNO'' @ rr\<rparr>))"
    unfolding udb_debug_pushfile_init_def if_not_P [OF n1] rbind_Inr cs fo Let_def if_P [OF fp] h pr ..
  then show ?thesis using p fp by (simp add: set_rsp_len_def)
qed

lemma udb_debug_pushfile_proc_no_stream:
  assumes i: "udbd_inv s" and p: "prot_size s = 1470" and a: "push_arg_ok s" and f: "push_fp s = None"
  shows "udb_debug_pushfile_proc E s = Inl NullDeref"
proof -
  have P: "\<not> prot_size s = UDB_PROT_SIZE_DEFAULT" using p by (simp add: UDB_PROT_SIZE_DEFAULT_def)
  have w: "\<And>d. do_fwrite E d s = Inl NullDeref" using f by (simp add: do_fwrite_def)
  have d: "6 + unat (rd16 (take 2 (drop 4 (req s)))) \<le> 1470"
    using a P udbd_invD(1) [OF i] by (simp add: push_arg_ok_def)
  show ?thesis
    unfolding udb_debug_pushfile_proc_def if_not_P [OF P]
    using d udbd_invD(1) [OF i] w by (simp add: mread_def)
qed

text \<open>
  push_file does not look at the answer to UDB_PUSH_FILE_INIT: where the daemon cannot
  create the file (it answers INITNO), the client sends UDB_PUSH_FILE_PROC all the same and
  the daemon passes a NULL stream to fwrite, whatever the file.
\<close>

theorem push_refused_crashes:
  assumes i: "udbd_inv s" and a: "udb_auth_ok s" and fp: "push_fp s = None"
    and path: "0 \<notin> set path" "length path < 1462"
    and c: "\<not> e_creat E (e_resolve E (cwd s) path)" and len: "length content < 2 ^ 32" and fuel: "0 < fuel"
  shows "push_file fuel (net_device E) 1470 content path s = Inl NullDeref"
proof -
  define sz where "sz = (of_nat (length content) :: u32)"
  define m where "m = payload_msg UDB_PUSH_FILE_INIT (le32 sz @ path)"
  have lp: "length (le32 sz @ path) \<le> 1466" using path by simp
  then have im: "udbd_inv (net_request m s)"
    using i by (intro udbd_inv_net_request) (simp_all add: m_def)
  obtain s1 where s1: "udb_debug_pushfile_init E (net_request m s) = Inr s1" "rsp_len s1 = 1470"
      "udb_auth_ok s1" "push_fp s1 = None"
    using udb_debug_pushfile_init_refused [OF im, of UDB_PUSH_FILE_INIT sz path E] fp path c a
    by (auto simp: m_def)
  have d1: "udb_dispatch E (chan_code UDB_PUSH_FILE_INIT) (net_request m s) = Inr s1"
    using s1(1) by (simp add: udb_dispatch_def)
  note x1 = xfer_answer [OF i lp a _ d1 [unfolded m_def] s1(2), folded m_def]
  define n where "n = min (length content) 1464"
  define p where "p = le16 (of_nat n) @ take n content"
  have lpp: "length p \<le> 1466" by (simp add: p_def n_def)
  define q where "q = payload_msg UDB_PUSH_FILE_PROC p"
  have i1: "udbd_inv (net_idle s1)" using x1(2) by simp
  have iq: "udbd_inv (net_request q (net_idle s1))"
    using i1 lpp by (intro udbd_inv_net_request) (simp_all add: q_def)
  have un: "unat (of_nat n :: u16) = n" by (simp add: n_def unat_of_nat)
  have "push_arg_ok (net_request q (net_idle s1))"
    by (simp add: push_arg_ok_def UDB_PROT_SIZE_DEFAULT_def q_def payload_msg_def p_def un) (simp add: n_def)
  then have "udb_debug_pushfile_proc E (net_request q (net_idle s1)) = Inl NullDeref"
    using s1(4) by (intro udb_debug_pushfile_proc_no_stream [OF iq]) simp_all
  then have dq: "net_device E (net_idle s1) q = Inl NullDeref"
    unfolding q_def using i1 lpp s1(3)
    by (intro net_device_fault) (simp_all add: udb_dispatch_def)
  have qm: "q = ascii ''udb'' @ [chan_code UDB_PUSH_FILE_PROC] @ le16 (of_nat n) @ take n content @ replicate (1470 - 6 - n) 0"
  proof -
    have "length p = n + 2" by (simp add: p_def n_def)
    then show ?thesis by (simp add: q_def payload_msg_def p_def)
  qed
  have cp: "(if unat sz < unat (push_max_pkg_size 1470) then ucast sz else push_max_pkg_size 1470) = (of_nat n :: u16)"
    unfolding sz_def by (subst push_chan.cp_size_min [OF len]) (simp add: n_def)
  obtain f where f: "fuel = Suc f" using fuel by (cases fuel) auto
  have pr: "push_request 1470 (of_nat n) content = Inr (q, drop n content)"
    unfolding qm by (rule push_request_Inr) (simp_all add: n_def)
  have xq: "udb_xfer (net_device E) 1470 (net_idle s1) q = Inl NullDeref" by (simp add: udb_xfer_def dq)
  have loop: "push_loop fuel (net_device E) 1470 sz content (net_idle s1) = Inl NullDeref"
    unfolding f push_loop.simps Let_def cp pr rbind_Inr prod.case xq rbind_Inl ..
  have "rbind (new_request 1470 UDB_PUSH_FILE_INIT) (\<lambda>wb. rbind (mwrite 4 (le32 sz) wb) (\<lambda>wb.
      rbind (mwrite 8 path wb) f)) = f m" for f :: "byte list \<Rightarrow> fault + udbd"
    unfolding m_def by (rule push_init_request) (use path in simp_all)
  then show ?thesis
    unfolding push_file_def sz_def [symmetric] Let_def using x1(1) loop by simp
qed

lemma push_refused_crashes_witness:
  "push_file 1 (net_device demo_env) 1470 (ascii ''data'') (ascii ''/ro'') demo_auth = Inl NullDeref"
  by (rule push_refused_crashes) (simp_all, simp_all add: ascii_def)

subsection \<open>The waiting command\<close>

text \<open>
  What exec_cmd_wait prints once the command has ended (no thread step is pending):
  one line for each poll, and the poll that leaves less than 1469 bytes is the last.  Of
  the lines in the last 1468 bytes of the output only the first is printed; the daemon
  clears the others.
\<close>

theorem wait_prints_delivered:
  assumes "wait_queue s ls" and "udb_auth_ok s" and "cmd_finish (wait_ctl s) = 1" and "length ls < fuel"
  shows "\<exists>s'. wait_loop_client fuel (net_device E) 1470 s [] = Inr (s', concat (delivered ls)) \<and>
    wait_queue s' []"
  using wait_loop_client_ended [OF assms, of E "[]"] by simp

text \<open>Two lines of output, one printed.\<close>

lemma wait_prints_delivered_witness:
  "(\<exists>s'. wait_loop_client 3 (net_device demo_env) 1470 demo_ended [] = Inr (s', ascii ''one'' @ [NEWLINE]) \<and>
     wait_queue s' []) \<and> concat demo_lines = ascii ''one'' @ [NEWLINE] @ ascii ''two'' @ [NEWLINE]"
proof -
  have "concat (delivered demo_lines) = ascii ''one'' @ [NEWLINE]"
    by (simp add: demo_lines_def ascii_def)
  with wait_prints_delivered [OF demo_ended_queue, of 3 demo_env] show ?thesis
    by (simp add: demo_lines_def)
qed

text \<open>
  C13. A thread that leaves without the end mark (popen failed, or the client was slow and
  the thread timed out) leaves the client polling: with cmd_finish not 1 no number of
  polls ends the loop of exec_cmd_wait.
\<close>

theorem wait_never_ends:
  assumes "wait_queue s ls" and "udb_auth_ok s" and "cmd_finish (wait_ctl s) \<noteq> 1"
  shows "wait_loop_client fuel (net_device E) 1470 s out = Inl OutOfFuel"
  by (rule wait_loop_client_stuck [OF assms])

lemma wait_exit_queue:
  assumes "wait_queue s ls"
  shows "wait_queue (wait_exit s) ls"
  using assms udbd_inv_wait_exit [of s]
  by (simp add: wait_queue_def Let_def wait_exit_def wait_left_def)

definition demo_timed_out :: udbd where
  "demo_timed_out = wait_exit (demo_ended\<lparr>wait_ctl := (wait_ctl demo_ended)\<lparr>cmd_finish := 0\<rparr>\<rparr>)"

lemma demo_timed_out_queue: "wait_queue demo_timed_out demo_lines"
proof -
  have "udbd_inv (demo_ended\<lparr>wait_ctl := (wait_ctl demo_ended)\<lparr>cmd_finish := 0\<rparr>\<rparr>)"
    using wait_queueD(1) [OF demo_ended_queue]
    by (auto simp: udbd_inv_def wthr_ok_def wctl_ok_def)
  then have "wait_queue (demo_ended\<lparr>wait_ctl := (wait_ctl demo_ended)\<lparr>cmd_finish := 0\<rparr>\<rparr>) demo_lines"
    using demo_ended_queue by (simp add: wait_queue_def Let_def wait_left_def)
  then show ?thesis unfolding demo_timed_out_def by (rule wait_exit_queue)
qed

lemma wait_never_ends_witness:
  "wait_loop_client 5 (net_device demo_env) 1470 demo_timed_out [] = Inl OutOfFuel"
  by (rule wait_never_ends [OF demo_timed_out_queue]) (simp_all add: demo_timed_out_def wait_exit_def)

lemma udb_debug_runcmd_wait_starts:
  assumes i: "udbd_inv s" and p: "prot_size s = 1470" and f: "single_instance (wait_ctl s) \<noteq> 1"
  shows "\<exists>s'. udb_debug_runcmd_wait E s = Inr s' \<and> rsp_len s' = 1470 \<and> rsp s' = [1] @ drop 1 (rsp s) \<and>
    wait_ctl s' = (wait_ctl s)\<lparr>w_pullout := Some RuncmdBuf, w_total_size := of_nat UDB_BUF_SIZE,
      single_instance := 1, tm_last_update := os_time_get_boot_ms E, w_cp_offset := 0\<rparr> \<and>
    wait_thr s' = Some WtCreated \<and> udb_auth_ok s' = udb_auth_ok s \<and> runcmd_buf s' = runcmd_buf s"
proof -
  define w where "w = (wait_ctl s)\<lparr>w_pullout := Some RuncmdBuf, w_total_size := of_nat UDB_BUF_SIZE,
                  single_instance := 1, tm_last_update := os_time_get_boot_ms E\<rparr>"
  have "put_rsp 0 [1] (s\<lparr>wait_ctl := w, wait_thr := Some WtCreated\<rparr>) =
      Inr (s\<lparr>wait_ctl := w, wait_thr := Some WtCreated, rsp := [1] @ drop 1 (rsp s)\<rparr>)"
    using udbd_invD(2) [OF i] by (subst put_rsp_0) simp_all
  then show ?thesis
    unfolding udb_debug_runcmd_wait_def if_not_P [OF f] Let_def w_def [symmetric]
    using p by (simp add: set_rsp_len_def w_def)
qed

text \<open>
  The end mark of the previous command is cleared by the new thread, not by the request
  that starts it: while the thread has not run, exec_cmd_wait of a second command reads the
  old mark on its first poll and returns without output, with the command still to start.
\<close>

theorem wait_reports_previous_end:
  assumes i: "udbd_inv s" and a: "udb_auth_ok s" and f: "single_instance (wait_ctl s) \<noteq> 1"
    and e: "cmd_finish (wait_ctl s) = 1" "w_used_size (wait_ctl s) = 0"
    and l: "length (cmd_line (sent_args 4 args)) \<le> 1466" and fuel: "0 < fuel"
  shows "\<exists>s'. exec_cmd_wait fuel (net_device E) 1470 args s = Inr (s', []) \<and>
    wait_thr s' = Some WtCreated"
proof -
  define cmd where "cmd = cmd_line (sent_args 4 args)"
  define m where "m = payload_msg UDB_RUN_CMD_WAIT cmd"
  have im: "udbd_inv (net_request m s)"
    using i l by (intro udbd_inv_net_request) (simp_all add: m_def cmd_def)
  obtain s1 where s1: "udb_debug_runcmd_wait E (net_request m s) = Inr s1" "rsp_len s1 = 1470"
      "rsp s1 = [1] @ drop 1 (rsp s)"
      "wait_ctl s1 = (wait_ctl s)\<lparr>w_pullout := Some RuncmdBuf, w_total_size := of_nat UDB_BUF_SIZE,
         single_instance := 1, tm_last_update := os_time_get_boot_ms E, w_cp_offset := 0\<rparr>"
      "wait_thr s1 = Some WtCreated" "udb_auth_ok s1"
    using udb_debug_runcmd_wait_starts [OF im, of E] f a by auto
  have d: "udb_dispatch E (chan_code UDB_RUN_CMD_WAIT) (net_request m s) = Inr s1"
    using s1(1) by (simp add: udb_dispatch_def)
  note x = xfer_answer [OF i l [folded cmd_def] a _ d [unfolded m_def] s1(2)]
  define t where "t = net_idle s1"
  have q: "wait_queue t []"
    using x(2) s1(4) e(2) by (simp add: wait_queue_def Let_def t_def wait_left_def)
  have ct: "cmd_finish (wait_ctl t) = 1" "udb_auth_ok t" "wait_thr t = Some WtCreated"
    using s1 e by (simp_all add: t_def)
  obtain f where f: "fuel = Suc f" using fuel by (cases fuel) auto
  obtain s' where s': "wait_thr s' = wait_thr t"
      "wait_loop_client (Suc f) (net_device E) 1470 t [] =
      (if poll_state t [] = 1 then Inr (s', [] @ first_line [])
       else wait_loop_client f (net_device E) 1470 s' ([] @ first_line []))"
    using wait_loop_client_turn [OF q ct(2), where E = E and fuel = f and out = "[]"] by metis
  have "poll_state t [] = 1" using ct(1) by (simp add: poll_state_def)
  with s' have "wait_loop_client fuel (net_device E) 1470 t [] = Inr (s', [])"
    by (simp add: f first_line_def)
  moreover have "mread 0 1 (rsp s1 @ [0]) = Inr [1]" by (simp add: s1(3) mread_def)
  moreover have "command_request 1470 UDB_RUN_CMD_WAIT args = Inr (payload_msg UDB_RUN_CMD_WAIT cmd)"
    using command_request_line [of args UDB_RUN_CMD_WAIT] l by (simp add: cmd_def)
  ultimately have "exec_cmd_wait fuel (net_device E) 1470 args s = Inr (s', [])"
    unfolding exec_cmd_wait_def using x(1) by (simp add: t_def)
  with s'(1) ct(3) show ?thesis by auto
qed

definition demo_idle :: udbd where
  "demo_idle = demo_auth\<lparr>wait_ctl := wctl_zero\<lparr>w_pullout := Some RuncmdBuf, cmd_finish := 1\<rparr>\<rparr>"

lemma wait_reports_previous_end_witness:
  "\<exists>s'. exec_cmd_wait 1 (net_device demo_env) 1470 [ascii ''reboot''] demo_idle = Inr (s', []) \<and>
     wait_thr s' = Some WtCreated"
proof -
  have "udbd_inv demo_idle"
    using udbd_invD [OF demo_auth_inv]
    by (auto simp: udbd_inv_def demo_idle_def wthr_ok_def wctl_ok_def wctl_zero_def UDB_BUF_SIZE_eq
        MAX_MSG_LENGTH_def)
  then show ?thesis
    by (rule wait_reports_previous_end) (simp_all add: demo_idle_def wctl_zero_def)
qed

subsection \<open>The thread and the request buffer\<close>

text \<open>What the thread starts is the command that is in the request buffer when it copies it.\<close>

lemma wait_thread_start_copies:
  fixes E :: env
  assumes c: "cstr 4 (req s) = Inr cmd" and n: "0 \<notin> set cmd" and l: "length cmd < prot_size s"
    and sys: "popen_sys_ok (e_popen E (popen_st s)) (popen_st s)"
  shows "\<exists>s' fd. wait_thread_start E s = Inr s' \<and>
    wait_thr s' = Some (WtReading cmd fd (fst (e_exec E (files s) (cwd s) (popen_argv False cmd))))"
proof -
  obtain tab fd where p: "uvc_popen (e_popen E (popen_st s)) cmd (ascii ''r'') False (popen_st s)
      = Inr (tab, Some (fd, popen_argv False cmd))"
    using popen_pclose_ok [OF sys, of cmd False] by blast
  obtain k where k: "prot_size s - length cmd = Suc k" using l by (cases "prot_size s - length cmd") auto
  have w: "mwrite 0 cmd (replicate (prot_size s) 0) = Inr (cmd @ 0 # replicate k 0)"
    using l k by (simp add: mwrite_def)
  have c2: "cstr 0 (cmd @ 0 # replicate k 0) = Inr cmd"
    using cstr_terminated [of "[]" 0 cmd "replicate k 0"] n by simp
  obtain out fs where x: "e_exec E (files s) (cwd s) (popen_argv False cmd) = (out, fs)"
    by (cases "e_exec E (files s) (cwd s) (popen_argv False cmd)")
  show ?thesis
    using c w c2 p x by (simp add: wait_thread_start_def do_popen_def run_child_def Let_def)
qed

text \<open>The request is in the buffer until the loop clears it, behind the answer.\<close>

lemma wait_request_handled:
  assumes i: "udbd_inv s" and a: "udb_auth_ok s" and f: "single_instance (wait_ctl s) \<noteq> 1"
    and l: "length cmd < 1466"
  shows "\<exists>s1. udbd_step\<^sup>*\<^sup>* (NetIdle, s) (NetSending, s1) \<and> req s1 = payload_msg UDB_RUN_CMD_WAIT cmd \<and>
    prot_size s1 = 1470 \<and> rsp_len s1 = 1470 \<and> wait_thr s1 = Some WtCreated \<and>
    popen_st s1 = popen_st s \<and> files s1 = files s \<and> cwd s1 = cwd s"
proof -
  define m where "m = payload_msg UDB_RUN_CMD_WAIT cmd"
  define body where "body = cmd @ replicate (1466 - length cmd) (0 :: byte)"
  have m: "m = ascii ''udb'' @ [chan_code UDB_RUN_CMD_WAIT] @ body" by (simp add: m_def payload_msg_def body_def)
  have lm: "length m = 1470" using l by (simp add: m_def)
  have st: "net_store m s = s\<lparr>req := m\<rparr>" using udbd_invD(1) [OF i] lm by (simp add: net_store_def)
  define w where "w = (wait_ctl s)\<lparr>w_pullout := Some RuncmdBuf, w_total_size := of_nat UDB_BUF_SIZE,
                  single_instance := 1, tm_last_update := os_time_get_boot_ms E\<rparr>"
  define s1 where "s1 = s\<lparr>req := m, prot_size := 1470, wait_thr := Some WtCreated, rsp := [1] @ drop 1 (rsp s),
      rsp_len := 1470, wait_ctl := w\<lparr>w_cp_offset := 0\<rparr>\<rparr>"
  have d: "udb_debug_runcmd_wait E (net_request m s) = Inr s1"
  proof -
    have "put_rsp 0 [1] ((net_request m s)\<lparr>wait_ctl := w, wait_thr := Some WtCreated\<rparr>) =
        Inr ((net_request m s)\<lparr>wait_ctl := w, wait_thr := Some WtCreated, rsp := [1] @ drop 1 (rsp s)\<rparr>)"
      using udbd_invD(2) [OF i] by (subst put_rsp_0) (simp_all add: MAX_MSG_LENGTH_def)
    then show ?thesis
      using f by (simp add: udb_debug_runcmd_wait_def Let_def w_def [symmetric] set_rsp_len_def s1_def net_request_def)
  qed
  have h: "net_handle E (net_store m s) = Inr s1"
  proof -
    have "mread UDB_CMD_CHANNEL_ID_OFFSET 1 m = Inr [chan_code UDB_RUN_CMD_WAIT]" by (simp add: m mread_def)
    then show ?thesis
      using d a unfolding st by (simp add: net_handle_def m udb_debug_bridge_def Let_def
          UDB_PROT_SIZE_NET_UDP_def udb_dispatch_def net_request_def) 
  qed
  have tk: "m = take MAX_MSG_LENGTH m" using lm by (simp add: MAX_MSG_LENGTH_def)
  have "udbd_step (NetIdle, s) (NetHandling, net_store m s)"
    by (rule recv_datagram [OF tk]) (use lm in simp)
  then have "udbd_step\<^sup>*\<^sup>* (NetIdle, s) (NetSending, s1)"
    using udbd_step.handle [OF h] by (meson converse_rtranclp_into_rtranclp r_into_rtranclp)
  then show ?thesis by (intro exI [of _ s1]) (simp add: s1_def m_def)
qed

lemma thread_before_clear:
  fixes E :: env and cmd :: "byte list"
  assumes "req h = payload_msg UDB_RUN_CMD_WAIT cmd" and "prot_size h = 1470" and "wait_thr h = Some WtCreated"
    and "0 \<notin> set cmd" and "length cmd < 1466" and "popen_sys_ok (e_popen E (popen_st h)) (popen_st h)"
  shows "\<exists>t fd. wait_thread_step E h = Inr t \<and>
      wait_thr t = Some (WtReading cmd fd (fst (e_exec E (files h) (cwd h) (popen_argv False cmd))))"
proof -
  have "cstr 4 (req h) = Inr cmd" unfolding assms(1) by (rule cstr_payload_msg [OF assms(5,4)])
  then show ?thesis
    using wait_thread_start_copies [of h cmd E] assms(2-6) by (auto simp: wait_thread_step_def)
qed

lemma thread_after_clear:
  fixes E :: env
  assumes "prot_size h = 1470" and "wait_thr h = Some WtCreated" and "popen_sys_ok (e_popen E (popen_st h)) (popen_st h)"
    and "c = (net_clear h)\<lparr>rsp_len := 0\<rparr>"
  shows "\<exists>t fd. wait_thread_step E c = Inr t \<and>
      wait_thr t = Some (WtReading [] fd (fst (e_exec E (files h) (cwd h) (popen_argv False []))))"
proof -
  have "cstr 4 (req c) = Inr []"
    using cstr_terminated [of "replicate 4 0" 4 "[]" "replicate 1465 0"]
    by (simp add: assms(4) net_clear_def MAX_MSG_LENGTH_def del: replicate_Suc flip: replicate_Suc replicate_add)
  then show ?thesis
    using wait_thread_start_copies [of c "[]" E] assms(1-3) by (auto simp: assms(4) net_clear_def wait_thread_step_def)
qed

text \<open>
  C16. The order in which the two threads get to the request buffer decides what is run.  A
  request to wait for \<open>cmd\<close> leads to a state in which the answer is about to be sent and the
  thread is created; from there the loop sends and clears the buffers.  A thread that takes
  its first step before the loop has cleared the request starts \<open>cmd\<close>; if it comes right after,
  it starts the empty command.
\<close>

theorem wait_command_race:
  fixes E :: env and cmd :: "byte list"
  assumes "udbd_reachable (NetIdle, s)" and "udb_auth_ok s" and "single_instance (wait_ctl s) \<noteq> 1"
    and "0 \<notin> set cmd" and "length cmd < 1466"
    and "popen_sys_ok (e_popen E (popen_st s)) (popen_st s)"
  shows "\<exists>h c. udbd_step\<^sup>*\<^sup>* (NetIdle, s) (NetSending, h) \<and> req h = payload_msg UDB_RUN_CMD_WAIT cmd \<and>
    udbd_step (NetSending, h) (NetClearing True, h) \<and> udbd_step (NetClearing True, h) (NetIdle, c) \<and>
    (\<exists>t fd. wait_thread_step E h = Inr t \<and>
      wait_thr t = Some (WtReading cmd fd (fst (e_exec E (files s) (cwd s) (popen_argv False cmd))))) \<and>
    (\<exists>t fd. wait_thread_step E c = Inr t \<and>
      wait_thr t = Some (WtReading [] fd (fst (e_exec E (files s) (cwd s) (popen_argv False [])))))"
proof -
  have i: "udbd_inv s" using udbd_reachable_inv [OF assms(1)] by simp
  obtain h where h: "udbd_step\<^sup>*\<^sup>* (NetIdle, s) (NetSending, h)" "req h = payload_msg UDB_RUN_CMD_WAIT cmd"
      "prot_size h = 1470" "rsp_len h = 1470" "wait_thr h = Some WtCreated"
      "popen_st h = popen_st s" "files h = files s" "cwd h = cwd s"
    using wait_request_handled [OF i assms(2,3,5)] by blast
  define c where "c = (net_clear h)\<lparr>rsp_len := 0\<rparr>"
  have "udbd_inv h" using udbd_reachable_inv [OF udbd_reachable_path [OF h(1) assms(1)]] by simp
  then have "mread 0 (nat (rsp_len h)) (rsp h) = Inr (rsp h)"
    using udbd_invD(2) h(4) by (simp add: mread_def)
  note loop = send [OF this] clear_sent [of h, folded c_def]
  have pop: "popen_sys_ok (e_popen E (popen_st h)) (popen_st h)" unfolding h(6) by (rule assms(6))
  show ?thesis
    using h(1,2) loop thread_before_clear [OF h(2,3,5) assms(4,5) pop, unfolded h(7,8)]
      thread_after_clear [OF h(3,5) pop c_def, unfolded h(7,8)] by blast
qed

text \<open>A reachable state with an open session: start, and a datagram with the key.\<close>

lemma demo_prologue: "\<exists>s. main_prologue [] demo_boot = Inr s \<and> popen_st s = popen_tab_zero \<and>
    wait_ctl s = wctl_zero \<and> rsp s = replicate 1470 0 \<and> udbd_inv s"
proof -
  obtain l where l: "hook_printf (ascii ''HI, Build time: '' @ [] @ [NEWLINE]) demo_boot = Inr (demo_boot\<lparr>rlog := l\<rparr>)"
    "udbd_inv (demo_boot\<lparr>rlog := l\<rparr>)" by (rule hook_printf_returns [OF demo_boot_inv])
  obtain l2 where "hook_printf (ascii ''Net Debugd init'' @ [NEWLINE]) (demo_boot\<lparr>rlog := l\<rparr>)
      = Inr (demo_boot\<lparr>rlog := l, rlog := l2\<rparr>)" "udbd_inv (demo_boot\<lparr>rlog := l, rlog := l2\<rparr>)"
    by (rule hook_printf_returns [OF l(2)])
  with l(1) show ?thesis by (simp add: main_prologue_def demo_boot_def udbd_start_def)
qed

lemma demo_session: "\<exists>s. udbd_reachable (NetIdle, s) \<and> udb_auth_ok s \<and> popen_st s = popen_tab_zero \<and>
    wait_ctl s = wctl_zero"
proof -
  obtain s where s: "main_prologue [] demo_boot = Inr s" "popen_st s = popen_tab_zero"
      "wait_ctl s = wctl_zero" "rsp s = replicate 1470 0" "udbd_inv s"
    using demo_prologue by blast
  have r: "udbd_reachable (NetIdle, s)"
    using s(1) unfolding demo_boot_def by (intro udbd_reachable.boot) (simp_all add: MAX_MSG_LENGTH_def)
  obtain s' reply where s': "udb_auth_ok s'" "popen_st s' = popen_st s" "wait_ctl s' = wait_ctl s"
      "net_device demo_env s (payload_msg UDB_AUTH auth_cmd) = Inr (s', reply)"
    using auth_key_session [OF s(5,4), of demo_env] by blast
  have "udbd_reachable (NetIdle, s')"
    by (rule udbd_reachable_path [OF net_turn_path r]) (use s'(4) in \<open>simp add: net_device_def\<close>)
  with s s' show ?thesis by auto
qed

lemma demo_session_can_wait:
  obtains s where "udbd_reachable (NetIdle, s)" and "udb_auth_ok s" and "single_instance (wait_ctl s) \<noteq> 1"
    and "popen_sys_ok (e_popen demo_env (popen_st s)) (popen_st s)"
proof -
  obtain s where s: "udbd_reachable (NetIdle, s)" "udb_auth_ok s" "popen_st s = popen_tab_zero"
      "wait_ctl s = wctl_zero"
    using demo_session by blast
  show ?thesis by (rule that [OF s(1,2)]) (simp_all add: s(3,4) wctl_zero_def)
qed

lemma demo_thread_first:
  "\<exists>t fd out. udbd_reachable (NetSending, t) \<and> wait_thr t = Some (WtReading (ascii ''ls'') fd out)"
proof -
  obtain s where s: "udbd_reachable (NetIdle, s)" "udb_auth_ok s" "single_instance (wait_ctl s) \<noteq> 1"
      "popen_sys_ok (e_popen demo_env (popen_st s)) (popen_st s)" by (rule demo_session_can_wait)
  have "udbd_inv s" using udbd_reachable_inv [OF s(1)] by simp
  then obtain h where h: "udbd_step\<^sup>*\<^sup>* (NetIdle, s) (NetSending, h)"
      "req h = payload_msg UDB_RUN_CMD_WAIT (ascii ''ls'')" "prot_size h = 1470" "wait_thr h = Some WtCreated"
      "popen_st h = popen_st s"
    using wait_request_handled [OF _ s(2,3), of "ascii ''ls''"] by (auto simp: ascii_def)
  from thread_before_clear [OF h(2,3,4), of demo_env] obtain t fd where t: "wait_thread_step demo_env h = Inr t"
      "wait_thr t = Some (WtReading (ascii ''ls'') fd (fst (e_exec demo_env (files h) (cwd h) (popen_argv False (ascii ''ls'')))))"
    using s(4) h(5) by (auto simp: ascii_def)
  from udbd_reachable.run [OF udbd_reachable_path [OF h(1) s(1)] thread_turn [OF t(1)]] t(2) show ?thesis by blast
qed

theorem wait_command_race_witness:
  "\<exists>s h t c u fd out fd' out'. udbd_reachable (NetIdle, s) \<and> udbd_step\<^sup>*\<^sup>* (NetIdle, s) (NetSending, h) \<and>
    wait_thread_step demo_env h = Inr t \<and> wait_thr t = Some (WtReading (ascii ''ls'') fd out) \<and>
    udbd_step (NetClearing True, h) (NetIdle, c) \<and>
    wait_thread_step demo_env c = Inr u \<and> wait_thr u = Some (WtReading [] fd' out')"
proof -
  obtain s where s: "udbd_reachable (NetIdle, s)" "udb_auth_ok s" "single_instance (wait_ctl s) \<noteq> 1"
      "popen_sys_ok (e_popen demo_env (popen_st s)) (popen_st s)" by (rule demo_session_can_wait)
  have l: "0 \<notin> set (ascii ''ls'')" "length (ascii ''ls'') < 1466" by (simp_all add: ascii_def)
  from wait_command_race [OF s(1-3) l s(4)] s(1) show ?thesis by blast
qed

end
