(* ===== verification/Guarantees.thy ===== *)
theory Guarantees
  imports Demo
begin

text \<open>
  Properties of the daemon's components: the command-line parser, popen and pclose, the
  queue of a waiting command, and the transfers of files that do not exist.
\<close>

text \<open>
  strtok, as parse_command and parse_commands_with_pipes call it until it returns NULL,
  gives the non-empty pieces of the string between delimiters, in order.
\<close>

theorem strtok_is_split: "strtok_all d s = filter (\<lambda>w. w \<noteq> []) (split_on d s)"
  by (rule strtok_all_split_on)

text \<open>
  parse_commands_with_pipes fills every slot it counted exactly when no piece between
  two bars (or before the first, or behind the last) is empty.
\<close>

theorem pipe_slots_filled_iff:
  "None \<notin> set (cmds (parse_commands_with_pipes s)) \<longleftrightarrow> [] \<notin> set (split_on BAR s)"
  using read_all_slots_iff [of s] by (simp add: read_all_slots_def split: if_splits)

text \<open>
  C14. What uvc_popen opens, uvc_pclose closes: it finds the child of the stream, waits for
  it through any number of interrupted waits and gives its status, and the descriptor is
  free again.
\<close>

theorem popen_then_pclose:
  assumes "uvc_popen sys cmd ty ft tab = Inr (tab1, Some (fd, argv))"
    and "\<forall>pid. sys_fork sys = Some pid \<longrightarrow> pid \<noteq> 0"
    and "sys_fclose sys2" and "sys_wait sys2 = replicate k WaitEINTR @ WaitStat st # rs"
  shows "\<exists>tab2 f. uvc_pclose sys2 (Some fd) tab1 = Inr (tab2, st) \<and> childpid tab2 = Some f \<and> f fd = 0"
  by (rule popen_pclose_status [OF assms])

lemma popen_then_pclose_witness:
  "\<exists>tab1 tab2 f. uvc_popen demo_sys (ascii ''ls'') (ascii ''r'') True popen_tab_zero
       = Inr (tab1, Some (5, popen_argv True (ascii ''ls''))) \<and>
     uvc_pclose demo_sys (Some 5) tab1 = Inr (tab2, 0) \<and> childpid tab2 = Some f \<and> f 5 = 0"
proof -
  obtain tab1 where p: "uvc_popen demo_sys (ascii ''ls'') (ascii ''r'') True popen_tab_zero
       = Inr (tab1, Some (5, popen_argv True (ascii ''ls'')))"
    by (simp add: uvc_popen_def demo_sys_def popen_tab_zero_def popen_first_def set_childpid_def)
  from popen_then_pclose [OF p, of demo_sys 1 0 "[]"] p show ?thesis by (simp add: demo_sys_def)
qed

text \<open>
  The thread's reads cut the output into lines: their concatenation is the output, none
  is longer than 1023 bytes, and a newline only ends one.
\<close>

lemma fgets_all_induct:
  assumes "P []" and "\<And>out line rest. out \<noteq> [] \<Longrightarrow> fgets FGETS_SIZE out = (line, rest) \<Longrightarrow> P rest \<Longrightarrow> P out"
  shows "P out"
proof (induction out rule: fgets_all.induct)
  case (1 out)
  show ?case
  proof (cases "out = []")
    case False
    obtain line rest where f: "fgets FGETS_SIZE out = (line, rest)" by (cases "fgets FGETS_SIZE out")
    from 1 [OF False f [symmetric]] show ?thesis by (rule assms(2) [OF False f])
  qed (simp add: assms(1))
qed

theorem thread_lines_partition:
  "concat (fgets_all out) = out \<and>
   list_all (\<lambda>l. length l \<le> 1023 \<and> NEWLINE \<notin> set (butlast l)) (fgets_all out)"
proof (induction out rule: fgets_all_induct)
  case 1
  show ?case by simp
next
  case (2 out line rest)
  from fgets_length [OF 2(2)] fgets_newline [OF 2(2)] fgets_split [OF 2(2)] 2(3) show ?case
    by (simp add: fgets_all_Cons [OF 2(1,2)] FGETS_SIZE_def)
qed

text \<open>
  C15. The output of a waiting command under any interleaving of the thread's steps and the
  client's polls (each a whole turn of the UDP loop), each at its own time.  The texts of the polls, what is queued, what was
  lost and what the thread has not read are together the lines queued at first followed by
  the output, in order.  While the thread reads nothing is lost.  When it has ended by
  itself everything was read, and at most 1467 bytes are lost, to the poll that reports the
  end.  It leaves before the end only when one of its reads comes more than 300 ms away from
  the last poll; then the rest of the output is lost.  The output has no NUL bytes and
  fits into the buffer of 655360 bytes with a NUL behind each line (the thread does not
  look), and closing the stream returns.
\<close>

theorem wait_keeps_order:
  assumes "wait_queue s ls" and "udb_auth_ok s" and "cmd_finish (wait_ctl s) \<noteq> 1"
    and "wait_thr s = Some (WtReading cmd fd out)" and "0 \<notin> set out"
    and "unat (w_used_size (wait_ctl s)) + 2 * length out < 655360"
    and "\<forall>E \<in> snd ` set bs. \<exists>r. uvc_pclose (e_popen E (popen_st s)) (Some fd) (popen_st s) = Inr r"
  shows "\<exists>s' ts ls' lost unread. wait_sched bs s = Inr (s', ts) \<and> wait_queue s' ls' \<and>
    concat ts @ concat ls' @ lost @ unread = concat ls @ out \<and>
    (wait_thr s' = Some (WtReading cmd fd unread) \<and> cmd_finish (wait_ctl s') \<noteq> 1 \<and> lost = [] \<or>
     wait_thr s' = None \<and> cmd_finish (wait_ctl s') = 1 \<and> unread = [] \<and>
       (lost = [] \<or> ls' = [] \<and> length lost < 1468) \<or>
     wait_thr s' = None \<and> cmd_finish (wait_ctl s') \<noteq> 1 \<and> unread \<noteq> [] \<and> lost = [] \<and>
       late_read (tm_last_update (wait_ctl s)) bs)"
  using wait_sched_reading [OF assms] unfolding wait_outcome_def .

definition demo_reading :: udbd where
  "demo_reading = demo_auth\<lparr>
     wait_ctl := wctl_zero\<lparr>w_pullout := Some RuncmdBuf, single_instance := 1, tm_last_update := 1500\<rparr>,
     wait_thr := Some (WtReading (ascii ''ls'') 5 (ascii ''one'' @ [NEWLINE] @ ascii ''two''))\<rparr>"

lemma demo_reading_queue: "wait_queue demo_reading []"
proof -
  have "udbd_inv demo_reading"
    using udbd_invD [OF demo_auth_inv]
    by (auto simp: udbd_inv_def demo_reading_def wthr_ok_def wctl_ok_def wctl_zero_def UDB_BUF_SIZE_eq
        MAX_MSG_LENGTH_def)
  then show ?thesis by (simp add: wait_queue_def Let_def demo_reading_def wait_left_def wctl_zero_def)
qed

text \<open>A poll, a read, a poll, and a read 700 ms later.\<close>

lemma wait_keeps_order_witness:
  "\<exists>s' ts ls' lost unread.
    wait_sched [(False, demo_env), (True, demo_env), (False, demo_env), (True, demo_env\<lparr>e_clock := (2, 200000000)\<rparr>)]
      demo_reading = Inr (s', ts) \<and> wait_queue s' ls' \<and>
    concat ts @ concat ls' @ lost @ unread = concat [] @ ascii ''one'' @ [NEWLINE] @ ascii ''two'' \<and>
    (wait_thr s' = Some (WtReading (ascii ''ls'') 5 unread) \<and> cmd_finish (wait_ctl s') \<noteq> 1 \<and> lost = [] \<or>
     wait_thr s' = None \<and> cmd_finish (wait_ctl s') = 1 \<and> unread = [] \<and>
       (lost = [] \<or> ls' = [] \<and> length lost < 1468) \<or>
     wait_thr s' = None \<and> cmd_finish (wait_ctl s') \<noteq> 1 \<and> unread \<noteq> [] \<and> lost = [] \<and>
       late_read (tm_last_update (wait_ctl demo_reading))
         [(False, demo_env), (True, demo_env), (False, demo_env), (True, demo_env\<lparr>e_clock := (2, 200000000)\<rparr>)])"
  by (rule wait_keeps_order [OF demo_reading_queue])
    (simp_all add: demo_reading_def wctl_zero_def ascii_def uvc_pclose_def popen_tab_zero_def)

text \<open>
  Pulling a file that does not exist gives an empty local file, the same as pulling an
  empty one: UDB_PULL_FILE_INIT has no answer for the error.
\<close>

theorem pull_missing_file:
  assumes "udbd_inv s" and "udb_auth_ok s" and "0 \<notin> set path" and "length path < 1466"
    and "files s (e_resolve E (cwd s) path) = None" and "0 < fuel"
  shows "\<exists>s'. pull_file fuel (net_device E) 1470 path s = Inr (s', []) \<and> pull_pending s' []"
  by (rule pull_file_content [where r = None]) (use assms in simp_all)

lemma pull_missing_file_witness:
  "\<exists>s'. pull_file 1 (net_device demo_env) 1470 (ascii ''/none'') demo_auth = Inr (s', []) \<and> pull_pending s' []"
  by (rule pull_missing_file) (simp_all add: demo_files_def, simp_all add: ascii_def)

end
