(* ===== verification/DfuCrc.thy ===== *)
theory DfuCrc
  imports Prelude
begin

unbundle bit_operations_syntax

text \<open>
  The CRC-32 of dfu-util (the table and crc32_byte of external/dfu-util/src/dfu_file.c),
  against the reference that divides by the reflected polynomial one bit at a time, and what
  the suffix relies on: two inputs of equal length that differ in one byte have different
  checksums.
\<close>

subsection \<open>The CRC\<close>

definition crc32_table :: "u32 list" where
  "crc32_table =
  [0x00000000, 0x77073096, 0xee0e612c, 0x990951ba, 0x076dc419, 0x706af48f,
   0xe963a535, 0x9e6495a3, 0x0edb8832, 0x79dcb8a4, 0xe0d5e91e, 0x97d2d988,
   0x09b64c2b, 0x7eb17cbd, 0xe7b82d07, 0x90bf1d91, 0x1db71064, 0x6ab020f2,
   0xf3b97148, 0x84be41de, 0x1adad47d, 0x6ddde4eb, 0xf4d4b551, 0x83d385c7,
   0x136c9856, 0x646ba8c0, 0xfd62f97a, 0x8a65c9ec, 0x14015c4f, 0x63066cd9,
   0xfa0f3d63, 0x8d080df5, 0x3b6e20c8, 0x4c69105e, 0xd56041e4, 0xa2677172,
   0x3c03e4d1, 0x4b04d447, 0xd20d85fd, 0xa50ab56b, 0x35b5a8fa, 0x42b2986c,
   0xdbbbc9d6, 0xacbcf940, 0x32d86ce3, 0x45df5c75, 0xdcd60dcf, 0xabd13d59,
   0x26d930ac, 0x51de003a, 0xc8d75180, 0xbfd06116, 0x21b4f4b5, 0x56b3c423,
   0xcfba9599, 0xb8bda50f, 0x2802b89e, 0x5f058808, 0xc60cd9b2, 0xb10be924,
   0x2f6f7c87, 0x58684c11, 0xc1611dab, 0xb6662d3d, 0x76dc4190, 0x01db7106,
   0x98d220bc, 0xefd5102a, 0x71b18589, 0x06b6b51f, 0x9fbfe4a5, 0xe8b8d433,
   0x7807c9a2, 0x0f00f934, 0x9609a88e, 0xe10e9818, 0x7f6a0dbb, 0x086d3d2d,
   0x91646c97, 0xe6635c01, 0x6b6b51f4, 0x1c6c6162, 0x856530d8, 0xf262004e,
   0x6c0695ed, 0x1b01a57b, 0x8208f4c1, 0xf50fc457, 0x65b0d9c6, 0x12b7e950,
   0x8bbeb8ea, 0xfcb9887c, 0x62dd1ddf, 0x15da2d49, 0x8cd37cf3, 0xfbd44c65,
   0x4db26158, 0x3ab551ce, 0xa3bc0074, 0xd4bb30e2, 0x4adfa541, 0x3dd895d7,
   0xa4d1c46d, 0xd3d6f4fb, 0x4369e96a, 0x346ed9fc, 0xad678846, 0xda60b8d0,
   0x44042d73, 0x33031de5, 0xaa0a4c5f, 0xdd0d7cc9, 0x5005713c, 0x270241aa,
   0xbe0b1010, 0xc90c2086, 0x5768b525, 0x206f85b3, 0xb966d409, 0xce61e49f,
   0x5edef90e, 0x29d9c998, 0xb0d09822, 0xc7d7a8b4, 0x59b33d17, 0x2eb40d81,
   0xb7bd5c3b, 0xc0ba6cad, 0xedb88320, 0x9abfb3b6, 0x03b6e20c, 0x74b1d29a,
   0xead54739, 0x9dd277af, 0x04db2615, 0x73dc1683, 0xe3630b12, 0x94643b84,
   0x0d6d6a3e, 0x7a6a5aa8, 0xe40ecf0b, 0x9309ff9d, 0x0a00ae27, 0x7d079eb1,
   0xf00f9344, 0x8708a3d2, 0x1e01f268, 0x6906c2fe, 0xf762575d, 0x806567cb,
   0x196c3671, 0x6e6b06e7, 0xfed41b76, 0x89d32be0, 0x10da7a5a, 0x67dd4acc,
   0xf9b9df6f, 0x8ebeeff9, 0x17b7be43, 0x60b08ed5, 0xd6d6a3e8, 0xa1d1937e,
   0x38d8c2c4, 0x4fdff252, 0xd1bb67f1, 0xa6bc5767, 0x3fb506dd, 0x48b2364b,
   0xd80d2bda, 0xaf0a1b4c, 0x36034af6, 0x41047a60, 0xdf60efc3, 0xa867df55,
   0x316e8eef, 0x4669be79, 0xcb61b38c, 0xbc66831a, 0x256fd2a0, 0x5268e236,
   0xcc0c7795, 0xbb0b4703, 0x220216b9, 0x5505262f, 0xc5ba3bbe, 0xb2bd0b28,
   0x2bb45a92, 0x5cb36a04, 0xc2d7ffa7, 0xb5d0cf31, 0x2cd99e8b, 0x5bdeae1d,
   0x9b64c2b0, 0xec63f226, 0x756aa39c, 0x026d930a, 0x9c0906a9, 0xeb0e363f,
   0x72076785, 0x05005713, 0x95bf4a82, 0xe2b87a14, 0x7bb12bae, 0x0cb61b38,
   0x92d28e9b, 0xe5d5be0d, 0x7cdcefb7, 0x0bdbdf21, 0x86d3d2d4, 0xf1d4e242,
   0x68ddb3f8, 0x1fda836e, 0x81be16cd, 0xf6b9265b, 0x6fb077e1, 0x18b74777,
   0x88085ae6, 0xff0f6a70, 0x66063bca, 0x11010b5c, 0x8f659eff, 0xf862ae69,
   0x616bffd3, 0x166ccf45, 0xa00ae278, 0xd70dd2ee, 0x4e048354, 0x3903b3c2,
   0xa7672661, 0xd06016f7, 0x4969474d, 0x3e6e77db, 0xaed16a4a, 0xd9d65adc,
   0x40df0b66, 0x37d83bf0, 0xa9bcae53, 0xdebb9ec5, 0x47b2cf7f, 0x30b5ffe9,
   0xbdbdf21c, 0xcabac28a, 0x53b39330, 0x24b4a3a6, 0xbad03605, 0xcdd70693,
   0x54de5729, 0x23d967bf, 0xb3667a2e, 0xc4614ab8, 0x5d681b02, 0x2a6f2b94,
   0xb40bbe37, 0xc30c8ea1, 0x5a05df1b, 0x2d02ef8d]"

definition crc32_byte :: "u32 \<Rightarrow> byte \<Rightarrow> u32" where
  "crc32_byte accum delta =
     (crc32_table ! unat ((accum XOR ucast delta) AND 0xff)) XOR drop_bit 8 accum"

definition crc32 :: "u32 \<Rightarrow> byte list \<Rightarrow> u32" where
  "crc32 crc buf = fold (\<lambda>b c. crc32_byte c b) buf crc"

text \<open>The reference: the reflected polynomial 0xEDB88320, one bit at a time.\<close>

definition crc_step :: "u32 \<Rightarrow> u32" where
  "crc_step c = (if bit c 0 then drop_bit 1 c XOR 0xedb88320 else drop_bit 1 c)"

definition crc_bitwise :: "u32 \<Rightarrow> byte list \<Rightarrow> u32" where
  "crc_bitwise crc buf = fold (\<lambda>b c. (crc_step ^^ 8) (c XOR ucast b)) buf crc"

text \<open>The table is the reference on each byte; the check runs on integers.\<close>

definition crc_int :: "int \<Rightarrow> int" where
  "crc_int c = (if c mod 2 = 1 then (c div 2) XOR 0xedb88320 else c div 2)"

primrec crc_rows :: "int \<Rightarrow> u32 list \<Rightarrow> bool" where
  "crc_rows i [] = True"
| "crc_rows i (t # ts) =
     (crc_int (crc_int (crc_int (crc_int (crc_int (crc_int (crc_int (crc_int i))))))) = uint t \<and>
      crc_rows (i + 1) ts)"

lemma crc32_table_rows: "crc_rows 0 crc32_table"
  by (simp add: crc32_table_def crc_int_def)

lemma crc32_table_length: "length crc32_table = 256"
  by (simp add: crc32_table_def)

lemma uint_crc_step: "uint (crc_step c) = crc_int (uint c)"
proof -
  have b: "bit c 0 \<longleftrightarrow> uint c mod 2 = 1"
    using bit_uint_iff [of c 0] by (simp add: bit_0 odd_iff_mod_2_eq_one)
  have d: "uint (drop_bit 1 c) = uint c div 2"
    by (simp add: drop_bit_Suc uint_div)
  show ?thesis unfolding crc_step_def crc_int_def b by (simp add: d [simplified] unsigned_xor_eq)
qed

lemma crc_rows_nth:
  "crc_rows i ts \<Longrightarrow> k < length ts \<Longrightarrow>
   crc_int (crc_int (crc_int (crc_int (crc_int (crc_int (crc_int (crc_int (i + int k)))))))) = uint (ts ! k)"
proof (induction ts arbitrary: i k)
  case Nil then show ?case by simp
next
  case (Cons t ts)
  show ?case
  proof (cases k)
    case 0 with Cons show ?thesis by simp
  next
    case (Suc j)
    then show ?thesis using Cons.IH [of "i + 1" j] Cons.prems by (simp add: add.assoc)
  qed
qed

lemma funpow_8: "(f ^^ 8) x = f (f (f (f (f (f (f (f x)))))))"
  by (simp add: numeral_eq_Suc)

lemma crc32_table_nth:
  fixes x :: u32
  assumes "unat x < 256" shows "crc32_table ! unat x = (crc_step ^^ 8) x"
proof (rule word_uint_eqI)
  show "uint (crc32_table ! unat x) = uint ((crc_step ^^ 8) x)"
    using crc_rows_nth [OF crc32_table_rows, of "unat x"] assms
    by (simp add: funpow_8 uint_crc_step crc32_table_length)
qed

lemma crc_step_xor: "crc_step (x XOR y) = crc_step x XOR crc_step y"
  by (auto simp: crc_step_def bit_simps ac_simps drop_bit_xor)

lemma crc_steps_xor: "(crc_step ^^ n) (x XOR y) = (crc_step ^^ n) x XOR (crc_step ^^ n) y"
  by (induction n) (simp_all add: crc_step_xor)

lemma crc_steps_shift: "n \<le> k \<Longrightarrow> (crc_step ^^ n) (x AND NOT (mask k)) = drop_bit n (x AND NOT (mask k))"
proof (induction n)
  case 0 then show ?case by simp
next
  case (Suc n)
  then have "\<not> bit (drop_bit n (x AND NOT (mask k))) 0"
    by (simp add: bit_simps)
  then show ?case using Suc by (simp add: crc_step_def drop_bit_drop_bit)
qed

lemma crc_steps_table:
  "(crc_step ^^ 8) x = (crc32_table ! unat (x AND 0xff)) XOR drop_bit 8 x"
proof -
  have m: "(0xff :: u32) = mask 8" by (simp add: mask_eq_exp_minus_1)
  have lo: "unat (x AND 0xff) < 256"
    unfolding m using take_bit_nat_less_exp [of 8 "unat x"]
    by (simp add: unsigned_take_bit_eq flip: take_bit_eq_mask)
  have "(crc_step ^^ 8) x = (crc_step ^^ 8) ((x AND 0xff) XOR (x AND NOT (mask 8)))"
    unfolding m by (rule arg_cong [where f = "crc_step ^^ 8"]) (auto intro!: bit_eqI simp: bit_simps)
  also have "\<dots> = (crc32_table ! unat (x AND 0xff)) XOR drop_bit 8 (x AND NOT (mask 8))"
    by (simp add: crc_steps_xor crc_steps_shift crc32_table_nth [OF lo])
  also have "drop_bit 8 (x AND NOT (mask 8)) = drop_bit 8 x"
    using bit_imp_le_length [of x] by (intro bit_eqI) (fastforce simp: bit_simps)
  finally show ?thesis .
qed

lemma crc32_byte_steps: "crc32_byte c b = (crc_step ^^ 8) (c XOR ucast b)"
proof -
  have "drop_bit 8 (c XOR ucast b) = drop_bit 8 c"
    using bit_imp_le_length [of b] by (intro bit_eqI) (auto simp: bit_simps)
  then show ?thesis by (simp add: crc32_byte_def crc_steps_table)
qed

lemma crc32_bitwise: "crc32 crc buf = crc_bitwise crc buf"
  by (simp add: crc32_def crc_bitwise_def crc32_byte_steps)

lemma xor_cancel_left: "x XOR y = x XOR z \<Longrightarrow> y = z" for x y z :: u32
proof -
  assume "x XOR y = x XOR z"
  then have "x XOR (x XOR y) = x XOR (x XOR z)" by simp
  then show "y = z" by (simp flip: xor.assoc)
qed

text \<open>A step can be undone: the top bit of the result tells which branch was taken.\<close>

lemma crc_step_inj: "crc_step x = crc_step y \<longleftrightarrow> x = y"
proof
  assume e: "crc_step x = crc_step y"
  have top: "bit (crc_step z) 31 \<longleftrightarrow> bit z 0" for z
    using bit_imp_le_length [of z 32] by (auto simp: crc_step_def bit_simps)
  have z: "bit x 0 \<longleftrightarrow> bit y 0" using top e by metis
  then have d: "drop_bit 1 x = drop_bit 1 y"
    using e xor_cancel_left [of "0xedb88320" "drop_bit 1 x" "drop_bit 1 y"]
    by (auto simp: crc_step_def xor.commute split: if_splits)
  show "x = y"
  proof (rule bit_eqI)
    fix n
    show "bit x n \<longleftrightarrow> bit y n"
    proof (cases n)
      case 0 with z show ?thesis by simp
    next
      case (Suc k)
      then show ?thesis using arg_cong [OF d, of "\<lambda>w. bit w k"] by (simp add: bit_simps)
    qed
  qed
qed simp

lemma crc_steps_inj: "(crc_step ^^ n) x = (crc_step ^^ n) y \<longleftrightarrow> x = y"
  by (induction n) (simp_all add: crc_step_inj)

lemma crc32_byte_inj: "crc32_byte c b = crc32_byte c' b \<longleftrightarrow> c = c'"
proof -
  have "c XOR w = c' XOR w \<longleftrightarrow> c = c'" for w :: u32
    using xor_cancel_left [of w c c'] by (auto simp: xor.commute)
  then show ?thesis by (simp add: crc32_byte_steps crc_steps_inj)
qed

lemma crc32_byte_differs: "b \<noteq> b' \<Longrightarrow> crc32_byte c b \<noteq> crc32_byte c b'"
proof -
  assume n: "b \<noteq> b'"
  have "c XOR ucast b = c XOR ucast b' \<Longrightarrow> (ucast b :: u32) = ucast b'"
    by (rule xor_cancel_left)
  moreover have "(ucast b :: u32) \<noteq> ucast b'"
  proof
    assume "(ucast b :: u32) = ucast b'"
    then have "unat (ucast b :: u32) = unat (ucast b' :: u32)" by simp
    then have "unat b = unat b'" using unat_byte [of b] unat_byte [of b'] by (simp add: unsigned_ucast_eq take_bit_nat_eq_self)
    then have "b = b'" by (simp add: word_unat_eq_iff)
    with n show False by simp
  qed
  ultimately show ?thesis by (auto simp: crc32_byte_steps crc_steps_inj)
qed

lemma crc32_append: "crc32 c (xs @ ys) = crc32 (crc32 c xs) ys"
  by (simp add: crc32_def)

lemma crc32_inj: "crc32 c xs = crc32 c' xs \<longleftrightarrow> c = c'"
  by (induction xs arbitrary: c c') (simp_all add: crc32_def crc32_byte_inj)

text \<open>One changed byte changes the checksum.\<close>

lemma crc32_one_byte:
  assumes "i < length xs" and "b \<noteq> xs ! i"
  shows "crc32 c (xs[i := b]) \<noteq> crc32 c xs"
proof -
  have e: "xs = take i xs @ xs ! i # drop (Suc i) xs"
    using assms(1) by (simp add: id_take_nth_drop)
  have u: "xs[i := b] = take i xs @ b # drop (Suc i) xs"
    using assms(1) by (simp add: upd_conv_take_nth_drop)
  have "crc32_byte d b \<noteq> crc32_byte d (xs ! i)" for d
    using assms(2) by (rule crc32_byte_differs)
  then have "crc32 d (b # t) \<noteq> crc32 d (xs ! i # t)" for d t
    using crc32_inj by (simp add: crc32_def)
  then show ?thesis by (metis e u crc32_append)
qed

end
