(* ===== verification/DfuFile.thy ===== *)
theory DfuFile
  imports DfuCrc CmdParse
begin

unbundle bit_operations_syntax

text \<open>
  The firmware files of dfu-util (external/dfu-util/src/dfu_file.c): the CRC-32 of the DFU
  suffix, the probing of a TI Stellaris or NXP LPC prefix, dfu_load_file and
  dfu_store_file.  A call of err or errx is the value \<open>Inl (Exit code)\<close>; an access outside
  the firmware buffer, or an int that overflows, is \<open>Inl (Undef f)\<close>.  The answers of the
  kernel (open, lseek, read, malloc, write) are arguments.  The messages on the terminal are not
  modelled.
\<close>

datatype dfu_stop = Exit nat | Undef fault | IntOverflow

definition lift_mem :: "fault + 'a \<Rightarrow> dfu_stop + 'a" where
  "lift_mem m = (case m of Inl f \<Rightarrow> Inl (Undef f) | Inr a \<Rightarrow> Inr a)"

lemma lift_mem_simps [simp]: "lift_mem (Inl f) = Inl (Undef f)" "lift_mem (Inr a) = Inr a"
  by (simp_all add: lift_mem_def)

definition INT_MAX :: nat where "INT_MAX = 2147483647"

text \<open>The exit codes of portable.h.\<close>

definition EX_USAGE :: nat where "EX_USAGE = 64"
definition EX_DATAERR :: nat where "EX_DATAERR = 65"
definition EX_NOINPUT :: nat where "EX_NOINPUT = 66"
definition EX_SOFTWARE :: nat where "EX_SOFTWARE = 70"
definition EX_CANTCREAT :: nat where "EX_CANTCREAT = 73"
definition EX_IOERR :: nat where "EX_IOERR = 74"
definition EX_PROTOCOL :: nat where "EX_PROTOCOL = 76"

definition DFU_SUFFIX_LENGTH :: nat where "DFU_SUFFIX_LENGTH = 16"
definition LMDFU_PREFIX_LENGTH :: nat where "LMDFU_PREFIX_LENGTH = 8"
definition LPCDFU_PREFIX_LENGTH :: nat where "LPCDFU_PREFIX_LENGTH = 16"
definition STDIN_CHUNK_SIZE :: nat where "STDIN_CHUNK_SIZE = 65536"

lemmas dfu_lengths = DFU_SUFFIX_LENGTH_def LMDFU_PREFIX_LENGTH_def LPCDFU_PREFIX_LENGTH_def

datatype suffix_req = NO_SUFFIX | NEEDS_SUFFIX | MAYBE_SUFFIX
datatype prefix_req = NO_PREFIX | NEEDS_PREFIX | MAYBE_PREFIX
datatype prefix_type = ZERO_PREFIX | LMDFU_PREFIX | LPCDFU_UNENCRYPTED_PREFIX

record dfu_file =
  fname :: string
  firmware :: "byte list"
  total :: nat
  prefix_size :: nat
  suffix_size :: nat
  lmdfu_address :: u32
  prefix_kind :: prefix_type
  dwCRC :: u32
  bcdDFU :: u16
  idVendor :: u16
  idProduct :: u16
  bcdDevice :: u16

subsection \<open>The prefix\<close>

text \<open>The flag is probe_prefix's result 1; the file is what it leaves.\<close>

definition probe_prefix :: "dfu_file \<Rightarrow> bool \<times> dfu_file" where
  "probe_prefix file =
     (let prefix = firmware file in
      if total file < LMDFU_PREFIX_LENGTH then (True, file)
      else if prefix ! 0 = 0x01 \<and> prefix ! 1 = 0x00 then
        (let payload_length = rd32 [prefix ! 4, prefix ! 5, prefix ! 6, prefix ! 7];
             expected = (of_nat (total file) :: u32) - of_nat LMDFU_PREFIX_LENGTH - of_nat (suffix_size file) in
         if payload_length \<noteq> expected then (True, file)
         else
           (let file = file \<lparr> prefix_kind := LMDFU_PREFIX, prefix_size := LMDFU_PREFIX_LENGTH,
                              lmdfu_address := 1024 * ucast (rd16 [prefix ! 2, prefix ! 3]) \<rparr> in
            (prefix_size file + suffix_size file > total file, file)))
      else if prefix ! 0 AND 0x3f = 0x1a \<and> prefix ! 1 AND 0x3f = 0x3f then
        (let file = file \<lparr> prefix_kind := LPCDFU_UNENCRYPTED_PREFIX,
                           prefix_size := LPCDFU_PREFIX_LENGTH \<rparr> in
         (prefix_size file + suffix_size file > total file, file))
      else (prefix_size file + suffix_size file > total file, file))"

subsection \<open>Reading the file\<close>

text \<open>
  What one read of the file answers: up to \<open>Suc n\<close> bytes (none at the end of the file),
  EINTR, or another error.  The loop keeps the position of the descriptor beside read_total,
  because the code adds the result -1 of an interrupted read to read_total.
\<close>

datatype read_ans = ReadData nat | ReadEintr | ReadErr

definition READ_MAX :: nat where "READ_MAX = 0x7ffff000"

primrec read_loop :: "byte list \<Rightarrow> nat \<Rightarrow> read_ans list \<Rightarrow> nat \<Rightarrow> int \<Rightarrow> byte list
    \<Rightarrow> dfu_stop + (int \<times> byte list)" where
  "read_loop data tot [] pos read_total buf =
     (if read_total < int tot then Inl (Undef OutOfFuel) else Inr (read_total, buf))"
| "read_loop data tot (a # as) pos read_total buf =
     (if read_total < int tot then
        (let to_read = min (nat (int tot - read_total)) READ_MAX in
         case a of
           ReadData n \<Rightarrow>
             (let bs = take (min (Suc n) to_read) (drop pos data) in
              if bs = [] then Inr (read_total, buf)
              else if read_total < 0 then Inl (Undef OobWrite)
              else rbind (lift_mem (mwrite (nat read_total) bs buf)) (\<lambda>buf.
                   read_loop data tot as (pos + length bs) (read_total + int (length bs)) buf))
         | ReadEintr \<Rightarrow> read_loop data tot as pos (read_total - 1) buf
         | ReadErr \<Rightarrow> Inr (read_total, buf))
      else Inr (read_total, buf))"

text \<open>fread fills a chunk unless the input ends.\<close>

function stdin_loop :: "byte list \<Rightarrow> byte list \<Rightarrow> byte list" where
  "stdin_loop input fw =
     (if length (take STDIN_CHUNK_SIZE input) = STDIN_CHUNK_SIZE
      then stdin_loop (drop STDIN_CHUNK_SIZE input) (fw @ take STDIN_CHUNK_SIZE input)
      else fw @ take STDIN_CHUNK_SIZE input)"
  by pat_completeness auto
termination
  by (relation "measure (\<lambda>(input, fw). length input)") (auto simp: STDIN_CHUNK_SIZE_def)

declare stdin_loop.simps [simp del]

record load_env =
  le_stdin :: "byte list"       \<comment> \<open>all of the standard input\<close>
  le_open :: bool
  le_seek_end :: int            \<comment> \<open>lseek (f, 0, SEEK_END)\<close>
  le_seek_set :: bool
  le_alloc :: "nat \<Rightarrow> bool"      \<comment> \<open>malloc of that size succeeds\<close>
  le_data :: "byte list"        \<comment> \<open>the bytes of the file\<close>
  le_reads :: "read_ans list"

definition load_bytes :: "load_env \<Rightarrow> suffix_req \<Rightarrow> dfu_file \<Rightarrow> dfu_stop + (suffix_req \<times> dfu_file)" where
  "load_bytes e check_suffix file =
     (if fname file = ''-'' then
        (let fw = stdin_loop (le_stdin e) [] in
         Inr (MAYBE_SUFFIX, file \<lparr> firmware := fw, total := length fw \<rparr>))
      else if \<not> le_open e then Inl (Exit EX_NOINPUT)
      else if le_seek_end e < 0 then Inl (Exit EX_SOFTWARE)
      else if \<not> le_seek_set e then Inl (Exit EX_IOERR)
      else
        (let tot = nat (le_seek_end e) in
         if \<not> le_alloc e tot then Inl (Exit EX_SOFTWARE)
         else
           rbind (read_loop (le_data e) tot (le_reads e) 0 0 (replicate tot 0)) (\<lambda>(read_total, buf).
           if read_total \<noteq> int tot then Inl (Exit EX_IOERR)
           else Inr (check_suffix, file \<lparr> firmware := buf, total := tot \<rparr>))))"

subsection \<open>The suffix\<close>

text \<open>
  The flag is missing_suffix.  The loop that computes the CRC counts with an int, so it
  overflows when the file has more than INT_MAX + 4 bytes.
\<close>

definition parse_suffix :: "dfu_file \<Rightarrow> dfu_stop + (bool \<times> dfu_file)" where
  "parse_suffix file =
     (if total file < DFU_SUFFIX_LENGTH then Inr (True, file)
      else if total file - 4 > INT_MAX then Inl IntOverflow
      else
        (let dfusuffix = drop (total file - DFU_SUFFIX_LENGTH) (firmware file);
             crc = crc32 0xffffffff (take (total file - 4) (firmware file)) in
         if dfusuffix ! 10 \<noteq> 0x44 \<or> dfusuffix ! 9 \<noteq> 0x46 \<or> dfusuffix ! 8 \<noteq> 0x55
         then Inr (True, file)
         else
           (let file = file \<lparr> dwCRC := rd32 [dfusuffix ! 12, dfusuffix ! 13, dfusuffix ! 14, dfusuffix ! 15] \<rparr> in
            if dwCRC file \<noteq> crc then Inr (True, file)
            else
              (let file = file \<lparr> bcdDFU := rd16 [dfusuffix ! 6, dfusuffix ! 7],
                                 suffix_size := unat (dfusuffix ! 11) \<rparr> in
               if suffix_size file < DFU_SUFFIX_LENGTH then Inl (Exit EX_DATAERR)
               else if suffix_size file > total file then Inl (Exit EX_DATAERR)
               else Inr (False, file \<lparr> idVendor := rd16 [dfusuffix ! 4, dfusuffix ! 5],
                                       idProduct := rd16 [dfusuffix ! 2, dfusuffix ! 3],
                                       bcdDevice := rd16 [dfusuffix ! 0, dfusuffix ! 1] \<rparr>)))))"

definition load_defaults :: "dfu_file \<Rightarrow> dfu_file" where
  "load_defaults file = file \<lparr> prefix_size := 0, suffix_size := 0, bcdDFU := 0, idVendor := 0xffff,
     idProduct := 0xffff, bcdDevice := 0xffff, lmdfu_address := 0 \<rparr>"

definition check_requirements :: "bool \<Rightarrow> suffix_req \<Rightarrow> prefix_req \<Rightarrow> dfu_file \<Rightarrow> dfu_stop + dfu_file" where
  "check_requirements missing_suffix check_suffix check_prefix file =
     (if missing_suffix \<and> check_suffix = NEEDS_SUFFIX then Inl (Exit EX_DATAERR)
      else if \<not> missing_suffix \<and> check_suffix = NO_SUFFIX then Inl (Exit EX_DATAERR)
      else
        (case probe_prefix file of (res, file) \<Rightarrow>
         if (res \<or> prefix_size file = 0) \<and> check_prefix = NEEDS_PREFIX then Inl (Exit EX_DATAERR)
         else if prefix_size file \<noteq> 0 \<and> check_prefix = NO_PREFIX then Inl (Exit EX_DATAERR)
         else Inr file))"

definition dfu_load_file :: "load_env \<Rightarrow> suffix_req \<Rightarrow> prefix_req \<Rightarrow> dfu_file \<Rightarrow> dfu_stop + dfu_file" where
  "dfu_load_file e check_suffix check_prefix file =
     rbind (load_bytes e check_suffix (load_defaults file)) (\<lambda>(check_suffix, file).
     rbind (parse_suffix file) (\<lambda>(missing_suffix, file).
     check_requirements missing_suffix check_suffix check_prefix file))"

subsection \<open>Writing a file\<close>

text \<open>
  \<open>full out n\<close> says that a write of n bytes behind the bytes out is complete.  The result
  of a call is the CRC and the bytes of the file so far.  The parameter size is an int: a
  larger length is negative there, and the loop over the bytes leaves the buffer, as it does
  for a negative one.
\<close>

definition dfu_file_write_crc ::
    "(byte list \<Rightarrow> nat \<Rightarrow> bool) \<Rightarrow> byte list \<Rightarrow> u32 \<Rightarrow> byte list \<Rightarrow> nat \<Rightarrow> int
     \<Rightarrow> dfu_stop + (u32 \<times> byte list)" where
  "dfu_file_write_crc full out crc buf off n =
     (if n < 0 \<or> n > int INT_MAX then Inl (Undef OobRead)
      else rbind (lift_mem (mread off (nat n) buf)) (\<lambda>bs.
        if full out (nat n) then Inr (crc32 crc bs, out @ bs) else Inl (Exit EX_IOERR)))"

definition lmdfu_prefix :: "dfu_file \<Rightarrow> byte list" where
  "lmdfu_prefix file =
     (let addr = lmdfu_address file div 1024;
          len = (of_nat (total file) :: u32) - of_nat (prefix_size file) - of_nat (suffix_size file) in
      [0x01, 0x00, ucast (addr AND 0xff), ucast (drop_bit 8 addr), ucast (len AND 0xff),
       ucast (drop_bit 8 len), ucast (drop_bit 16 len), ucast (drop_bit 24 len)])"

definition lpcdfu_prefix :: "dfu_file \<Rightarrow> byte list" where
  "lpcdfu_prefix file =
     (let len = of_int ((int (total file) - int (suffix_size file) + 511) div 512) :: u32 in
      [0x1a, 0x3f, ucast (len AND 0xff), ucast (drop_bit 8 len AND 0xff)] @
      replicate 8 0 @ replicate 4 0xff)"

definition dfu_suffix_head :: "dfu_file \<Rightarrow> byte list" where
  "dfu_suffix_head file =
     [ucast (bcdDevice file AND 0xff), ucast (drop_bit 8 (bcdDevice file)),
      ucast (idProduct file AND 0xff), ucast (drop_bit 8 (idProduct file)),
      ucast (idVendor file AND 0xff), ucast (drop_bit 8 (idVendor file)),
      ucast (bcdDFU file AND 0xff), ucast (drop_bit 8 (bcdDFU file)),
      0x55, 0x46, 0x44, of_nat DFU_SUFFIX_LENGTH]"

definition dfu_suffix_crc :: "u32 \<Rightarrow> byte list" where
  "dfu_suffix_crc crc =
     [ucast crc, ucast (drop_bit 8 crc), ucast (drop_bit 16 crc), ucast (drop_bit 24 crc)]"

definition store_prefix ::
    "(byte list \<Rightarrow> nat \<Rightarrow> bool) \<Rightarrow> dfu_file \<Rightarrow> bool \<Rightarrow> dfu_stop + (u32 \<times> byte list)" where
  "store_prefix full file write_prefix =
     (if \<not> write_prefix then Inr (0xffffffff, [])
      else
        (case prefix_kind file of
           LMDFU_PREFIX \<Rightarrow>
             dfu_file_write_crc full [] 0xffffffff (lmdfu_prefix file) 0 (int LMDFU_PREFIX_LENGTH)
         | LPCDFU_UNENCRYPTED_PREFIX \<Rightarrow>
             dfu_file_write_crc full [] 0xffffffff (lpcdfu_prefix file) 0 (int LPCDFU_PREFIX_LENGTH)
         | ZERO_PREFIX \<Rightarrow> Inr (0xffffffff, [])))"

definition dfu_store_file ::
    "bool \<Rightarrow> (byte list \<Rightarrow> nat \<Rightarrow> bool) \<Rightarrow> dfu_file \<Rightarrow> bool \<Rightarrow> bool \<Rightarrow> dfu_stop + byte list" where
  "dfu_store_file opened full file write_suffix write_prefix =
     (if \<not> opened then Inl (Exit EX_CANTCREAT)
      else
        rbind (store_prefix full file write_prefix) (\<lambda>(crc, out).
        rbind (dfu_file_write_crc full out crc (firmware file) (prefix_size file)
                 (int (total file) - int (prefix_size file) - int (suffix_size file))) (\<lambda>(crc, out).
        if \<not> write_suffix then Inr out
        else
          rbind (dfu_file_write_crc full out crc (dfu_suffix_head file) 0 (int DFU_SUFFIX_LENGTH - 4)) (\<lambda>(crc, out).
          rbind (dfu_file_write_crc full out crc (dfu_suffix_crc crc) 0 4) (\<lambda>(crc, out).
          Inr out)))))"

subsection \<open>What reading returns\<close>

text \<open>A regular file that is there, is not interrupted and fits in memory.\<close>

definition plain_file :: "load_env \<Rightarrow> byte list \<Rightarrow> bool" where
  "plain_file e d =
     (le_open e \<and> le_seek_end e = int (length d) \<and> le_seek_set e \<and> le_alloc e (length d) \<and>
      le_data e = d \<and> length d \<le> length (le_reads e) \<and> (\<forall>a\<in>set (le_reads e). \<exists>n. a = ReadData n))"

lemma mwrite_tail:
  "pos + length bs \<le> tot \<Longrightarrow> length pre = pos \<Longrightarrow>
   mwrite pos bs (pre @ replicate (tot - pos) 0) = Inr (pre @ bs @ replicate (tot - (pos + length bs)) 0)"
  by (simp add: mwrite_def)

lemma read_loop_ReadData:
  "read_total < int tot \<Longrightarrow>
   bs = take (min (Suc n) (min (nat (int tot - read_total)) READ_MAX)) (drop pos data) \<Longrightarrow>
   read_loop data tot (ReadData n # as) pos read_total buf =
     (if bs = [] then Inr (read_total, buf)
      else if read_total < 0 then Inl (Undef OobWrite)
      else rbind (lift_mem (mwrite (nat read_total) bs buf)) (\<lambda>buf.
           read_loop data tot as (pos + length bs) (read_total + int (length bs)) buf))"
  by (simp only: read_loop.simps Let_def read_ans.case if_True)

lemma read_loop_data:
  assumes "\<forall>a\<in>set as. \<exists>n. a = ReadData n" and "pos \<le> length data"
    and "length data - pos \<le> length as"
  shows "read_loop data (length data) as pos (int pos)
           (take pos data @ replicate (length data - pos) 0) = Inr (int (length data), data)"
  using assms
proof (induction as arbitrary: pos)
  case Nil
  then show ?case by simp
next
  case (Cons a as)
  then obtain n where a: "a = ReadData n" by auto
  show ?case
  proof (cases "pos < length data")
    case False
    with Cons.prems show ?thesis by simp
  next
    case True
    define m where "m = min (Suc n) (min (length data - pos) READ_MAX)"
    define bs where "bs = take m (drop pos data)"
    have m: "0 < m" "m \<le> length data - pos" using True by (auto simp: m_def READ_MAX_def)
    then have lb: "length bs = m" by (simp add: bs_def)
    then have bs: "bs \<noteq> []" using m by auto
    have nx: "take pos data @ bs = take (pos + m) data" by (simp add: bs_def take_add)
    have w: "mwrite pos bs (take pos data @ replicate (length data - pos) 0)
        = Inr (take (pos + m) data @ replicate (length data - (pos + m)) 0)"
      using mwrite_tail [of pos bs "length data" "take pos data"] m lb True nx
      by (simp flip: append_assoc)
    have "nat (int (length data) - int pos) = length data - pos" by linarith
    then have chunk: "bs = take (min (Suc n) (min (nat (int (length data) - int pos)) READ_MAX)) (drop pos data)"
      by (simp add: bs_def m_def)
    have "read_loop data (length data) (a # as) pos (int pos)
            (take pos data @ replicate (length data - pos) 0)
        = read_loop data (length data) as (pos + m) (int (pos + m))
            (take (pos + m) data @ replicate (length data - (pos + m)) 0)"
      using read_loop_ReadData [OF _ chunk, of as] True bs lb w
      by (simp add: a del: read_loop.simps)
    then show ?thesis using Cons.IH [of "pos + m"] Cons.prems m by simp
  qed
qed

text \<open>Once read_total lags behind the descriptor the loop cannot reach the size.\<close>

lemma read_loop_behind:
  "read_total < int pos \<Longrightarrow> pos \<le> length data \<Longrightarrow>
   read_loop data (length data) as pos read_total buf = Inr (r, b) \<Longrightarrow> r < int (length data)"
proof (induction as arbitrary: pos read_total buf)
  case Nil
  then show ?case by (auto split: if_splits)
next
  case (Cons a as)
  have g: "read_total < int (length data)" using Cons.prems by simp
  show ?case
  proof (cases a)
    case (ReadData n)
    define bs where
      "bs = take (min (Suc n) (min (nat (int (length data) - read_total)) READ_MAX)) (drop pos data)"
    have l: "pos + length bs \<le> length data" using Cons.prems by (auto simp: bs_def)
    show ?thesis
    proof (cases "bs = [] \<or> read_total < 0")
      case True
      with Cons.prems g show ?thesis
        using read_loop_ReadData [OF g bs_def] by (auto simp: ReadData simp del: read_loop.simps split: if_splits)
    next
      case False
      then obtain buf' where "read_loop data (length data) as (pos + length bs)
          (read_total + int (length bs)) buf' = Inr (r, b)"
        using Cons.prems(3) read_loop_ReadData [OF g bs_def]
        by (auto simp: ReadData rbind_eq_Inr simp del: read_loop.simps)
      then show ?thesis
        using Cons.IH [of "read_total + int (length bs)" "pos + length bs" buf'] l Cons.prems(1) by simp
    qed
  next
    case ReadEintr
    with Cons.prems g show ?thesis by (auto simp: Let_def intro: Cons.IH [of "read_total - 1" pos])
  next
    case ReadErr
    with Cons.prems g show ?thesis by (auto simp: Let_def)
  qed
qed

lemma stdin_loop_all: "stdin_loop input fw = fw @ input"
proof (induction input fw rule: stdin_loop.induct)
  case (1 input fw)
  show ?case
  proof (cases "length (take STDIN_CHUNK_SIZE input) = STDIN_CHUNK_SIZE")
    case True
    with 1 show ?thesis by (subst stdin_loop.simps) simp
  next
    case False
    then have "take STDIN_CHUNK_SIZE input = input" by (auto simp: min_def split: if_splits)
    with False show ?thesis by (subst stdin_loop.simps) simp
  qed
qed

lemma load_bytes_file:
  assumes "plain_file e d" and "fname file \<noteq> ''-''"
  shows "load_bytes e c file = Inr (c, file \<lparr> firmware := d, total := length d \<rparr>)"
  using assms read_loop_data [of "le_reads e" 0 d]
  by (simp add: load_bytes_def plain_file_def)

lemma read_loop_length:
  "read_loop data tot as pos read_total buf = Inr (r, b) \<Longrightarrow> length b = length buf"
proof (induction as arbitrary: pos read_total buf)
  case Nil
  then show ?case by (auto split: if_splits)
next
  case (Cons a as)
  show ?case
  proof (cases a)
    case (ReadData n)
    define bs where
      "bs = take (min (Suc n) (min (nat (int tot - read_total)) READ_MAX)) (drop pos data)"
    from Cons.prems show ?thesis
      by (auto simp: ReadData Let_def bs_def [symmetric] rbind_eq_Inr lift_mem_def
          dest!: Cons.IH mwrite_length split: if_splits sum.splits)
  next
    case ReadEintr
    with Cons.prems show ?thesis by (auto simp: Let_def split: if_splits dest: Cons.IH)
  next
    case ReadErr
    with Cons.prems show ?thesis by (auto simp: Let_def split: if_splits)
  qed
qed

end
