(* ===== verification/FirmwareFile.thy ===== *)
theory FirmwareFile
  imports DfuFile
begin

unbundle bit_operations_syntax

text \<open>
  What storing and loading a firmware file promise together: the bytes dfu_store_file writes,
  that dfu_load_file reads the same fields and the same payload back, that it refuses a
  stored file with one changed byte, and where prefix and suffix lie in a file it accepts.
\<close>

definition payload :: "dfu_file \<Rightarrow> byte list" where
  "payload file =
     take (total file - prefix_size file - suffix_size file) (drop (prefix_size file) (firmware file))"

definition stored_prefix :: "dfu_file \<Rightarrow> bool \<Rightarrow> byte list" where
  "stored_prefix file write_prefix =
     (if \<not> write_prefix then []
      else case prefix_kind file of
        LMDFU_PREFIX \<Rightarrow> lmdfu_prefix file
      | LPCDFU_UNENCRYPTED_PREFIX \<Rightarrow> lpcdfu_prefix file
      | ZERO_PREFIX \<Rightarrow> [])"

definition stored_suffix :: "dfu_file \<Rightarrow> byte list \<Rightarrow> byte list" where
  "stored_suffix file body =
     dfu_suffix_head file @ le32 (crc32 0xffffffff (body @ dfu_suffix_head file))"

lemma ucast_byte: "ucast (w :: 'a::len word) = (of_nat (unat w) :: byte)"
  by simp

lemma ucast_and_ff: "ucast (w AND 0xff) = (ucast w :: byte)" for w :: "'a::len word"
proof -
  have m: "(0xff :: 'a word) = mask 8" unfolding mask_eq_exp_minus_1 by simp
  show ?thesis
    unfolding m
    by (intro bit_eqI) (auto simp: bit_unsigned_iff bit_and_iff bit_mask_iff dest: bit_imp_possible_bit)
qed

lemma ucast_drop_bit:
  "ucast (drop_bit n w) = (of_nat (unat w div 2 ^ n) :: byte)" for w :: "'a::len word"
proof -
  have "unat (drop_bit n w) = unat w div 2 ^ n"
    by (simp add: unsigned_drop_bit_eq drop_bit_eq_div [where 'a = nat] take_bit_nat_eq_self)
  then show ?thesis by (metis of_nat_unat)
qed

lemma le32_explicit:
  "le32 w = [ucast w, ucast (drop_bit 8 w), ucast (drop_bit 16 w), ucast (drop_bit 24 w)]"
proof -
  have "le32 w = [of_nat (unat w), of_nat (unat w div 256), of_nat (unat w div 256 div 256),
      of_nat (unat w div 256 div 256 div 256)]"
    by (simp only: le32_def numeral_eq_Suc pred_numeral_simps BitM.simps le_bytes.simps)
  then show ?thesis by (simp add: ucast_drop_bit div_mult2_eq [symmetric])
qed

lemma le16_explicit: "le16 w = [ucast (w AND 0xff), ucast (drop_bit 8 w)]"
proof -
  have "le16 w = [of_nat (unat w), of_nat (unat w div 256)]"
    by (simp only: le16_def numeral_eq_Suc pred_numeral_simps BitM.simps le_bytes.simps)
  then show ?thesis by (simp add: ucast_drop_bit ucast_and_ff)
qed

lemma dfu_suffix_crc_le32: "dfu_suffix_crc crc = le32 crc"
  by (simp add: dfu_suffix_crc_def le32_explicit)

lemma dfu_suffix_head_le16:
  "dfu_suffix_head file = le16 (bcdDevice file) @ le16 (idProduct file) @ le16 (idVendor file) @
     le16 (bcdDFU file) @ [0x55, 0x46, 0x44, 16]"
  by (simp add: dfu_suffix_head_def le16_explicit DFU_SUFFIX_LENGTH_def)

lemma length_dfu_suffix_head [simp]: "length (dfu_suffix_head file) = 12"
  by (simp add: dfu_suffix_head_def)

lemma length_stored_suffix [simp]: "length (stored_suffix file body) = 16"
  by (simp add: stored_suffix_def)

subsection \<open>The bytes dfu_store_file writes\<close>

lemma write_crc_Inr:
  "dfu_file_write_crc full out crc buf off n = Inr (c, out') \<Longrightarrow>
   0 \<le> n \<and> n \<le> int INT_MAX \<and> off + nat n \<le> length buf \<and>
   c = crc32 crc (take (nat n) (drop off buf)) \<and> out' = out @ take (nat n) (drop off buf)"
  by (auto simp: dfu_file_write_crc_def rbind_eq_Inr lift_mem_def mread_def split: if_splits)

lemma store_prefix_Inr:
  "store_prefix full file wp = Inr (c, out) \<Longrightarrow>
   out = stored_prefix file wp \<and> c = crc32 0xffffffff (stored_prefix file wp)"
  by (auto simp: store_prefix_def stored_prefix_def crc32_def [of _ "[]"] dfu_lengths lmdfu_prefix_def
      lpcdfu_prefix_def Let_def split: if_splits prefix_type.splits dest!: write_crc_Inr)

lemma store_bytes:
  assumes "dfu_store_file opened full file ws wp = Inr out"
  shows "out = stored_prefix file wp @ payload file @
           (if ws then stored_suffix file (stored_prefix file wp @ payload file) else [])"
    and "prefix_size file + suffix_size file \<le> total file"
    and "total file - suffix_size file \<le> length (firmware file)"
proof -
  from assms obtain c1 o1 c2 o2 where
    1: "store_prefix full file wp = Inr (c1, o1)" and
    2: "dfu_file_write_crc full o1 c1 (firmware file) (prefix_size file)
          (int (total file) - int (prefix_size file) - int (suffix_size file)) = Inr (c2, o2)" and
    3: "(if \<not> ws then Inr o2
        else rbind (dfu_file_write_crc full o2 c2 (dfu_suffix_head file) 0 (int DFU_SUFFIX_LENGTH - 4)) (\<lambda>(crc, out).
          rbind (dfu_file_write_crc full out crc (dfu_suffix_crc crc) 0 4) (\<lambda>(crc, out).
          Inr out))) = Inr out"
    unfolding dfu_store_file_def
    by (auto simp: rbind_eq_Inr case_prod_beta simp del: not_less split: if_splits)
  note p = store_prefix_Inr [OF 1]
  note w = write_crc_Inr [OF 2]
  show "prefix_size file + suffix_size file \<le> total file" using w by linarith
  then have n: "nat (int (total file) - int (prefix_size file) - int (suffix_size file))
      = total file - prefix_size file - suffix_size file" by linarith
  then show "total file - suffix_size file \<le> length (firmware file)" using w by linarith
  have o2: "o2 = stored_prefix file wp @ payload file"
    and c2: "c2 = crc32 0xffffffff (stored_prefix file wp @ payload file)"
    using p w n by (simp_all add: payload_def crc32_append)
  show "out = stored_prefix file wp @ payload file @
           (if ws then stored_suffix file (stored_prefix file wp @ payload file) else [])"
  proof (cases ws)
    case False with 3 o2 show ?thesis by simp
  next
    case True
    then obtain c3 o3 c4 where
      a: "dfu_file_write_crc full o2 c2 (dfu_suffix_head file) 0 (int DFU_SUFFIX_LENGTH - 4) = Inr (c3, o3)" and
      b: "dfu_file_write_crc full o3 c3 (dfu_suffix_crc c3) 0 4 = Inr (c4, out)"
      using 3 by (auto simp: rbind_eq_Inr case_prod_beta)
    show ?thesis
      using True write_crc_Inr [OF a] write_crc_Inr [OF b] o2 c2
      by (simp add: stored_suffix_def dfu_suffix_crc_le32 crc32_append dfu_lengths)
  qed
qed

text \<open>Storing a well-formed file succeeds when every write does.\<close>

lemma write_crc_ok:
  assumes "0 \<le> n" and "n \<le> int INT_MAX" and "off + nat n \<le> length buf"
  shows "dfu_file_write_crc (\<lambda>_ _. True) out crc buf off n =
    Inr (crc32 crc (take (nat n) (drop off buf)), out @ take (nat n) (drop off buf))"
  using assms by (simp add: dfu_file_write_crc_def mread_def)

lemma store_prefix_ok:
  "store_prefix (\<lambda>_ _. True) f wp = Inr (crc32 0xffffffff (stored_prefix f wp), stored_prefix f wp)"
proof -
  have l: "length (lmdfu_prefix f) = 8" "length (lpcdfu_prefix f) = 16"
    by (simp_all add: lmdfu_prefix_def lpcdfu_prefix_def Let_def)
  show ?thesis
    by (cases "prefix_kind f")
       (simp_all add: store_prefix_def stored_prefix_def write_crc_ok dfu_lengths l INT_MAX_def
          crc32_def [of _ "[]"])
qed

lemma store_returns:
  assumes "prefix_size f + suffix_size f \<le> total f" and "total f \<le> INT_MAX"
    and "total f - suffix_size f \<le> length (firmware f)"
  shows "dfu_store_file True (\<lambda>_ _. True) f ws wp = Inr (stored_prefix f wp @ payload f @
           (if ws then stored_suffix f (stored_prefix f wp @ payload f) else []))"
proof -
  define k where "k = total f - prefix_size f - suffix_size f"
  have k: "int (total f) - int (prefix_size f) - int (suffix_size f) = int k"
    using assms(1) by (simp add: k_def)
  have "dfu_file_write_crc (\<lambda>_ _. True) (stored_prefix f wp)
      (crc32 0xffffffff (stored_prefix f wp)) (firmware f) (prefix_size f) (int k)
    = Inr (crc32 0xffffffff (stored_prefix f wp @ payload f), stored_prefix f wp @ payload f)"
  proof -
    have pk: "payload f = take k (drop (prefix_size f) (firmware f))"
      by (simp add: payload_def k_def)
    have "prefix_size f + k \<le> length (firmware f)" "k \<le> INT_MAX"
      using assms by (simp_all add: k_def)
    then show ?thesis by (subst write_crc_ok) (simp_all add: pk crc32_append)
  qed
  moreover have "int DFU_SUFFIX_LENGTH - 4 = 12" by (simp add: DFU_SUFFIX_LENGTH_def)
  moreover have "12 \<le> int INT_MAX" "4 \<le> int INT_MAX" by (simp_all add: INT_MAX_def)
  ultimately show ?thesis
    unfolding dfu_store_file_def store_prefix_ok k
    by (simp add: write_crc_ok dfu_suffix_crc_le32 stored_suffix_def crc32_append)
qed

subsection \<open>Reading it back\<close>

text \<open>The sixteen bytes of a suffix, read at their offsets.\<close>

lemma nth_append_at: "k = length a \<Longrightarrow> (a @ x # b) ! k = x"
  by simp

lemma rd16_le16_nth: "rd16 [le16 w ! 0, le16 w ! 1] = w"
proof -
  have "[le16 w ! 0, le16 w ! 1] = le16 w"
    by (simp add: le16_explicit)
  then show ?thesis by (simp only: rd16_le16)
qed

lemma rd32_le32_nth: "rd32 [le32 w ! 0, le32 w ! 1, le32 w ! 2, le32 w ! 3] = w"
proof -
  have "[le32 w ! 0, le32 w ! 1, le32 w ! 2, le32 w ! 3] = le32 w"
    by (simp add: le32_explicit numeral_eq_Suc)
  then show ?thesis by (simp only: rd32_le32)
qed

lemma stored_suffix_nth:
  fixes g body
  defines "s \<equiv> stored_suffix g body"
  shows "s ! 0 = le16 (bcdDevice g) ! 0" "s ! 1 = le16 (bcdDevice g) ! 1"
    "s ! 2 = le16 (idProduct g) ! 0" "s ! 3 = le16 (idProduct g) ! 1"
    "s ! 4 = le16 (idVendor g) ! 0" "s ! 5 = le16 (idVendor g) ! 1"
    "s ! 6 = le16 (bcdDFU g) ! 0" "s ! 7 = le16 (bcdDFU g) ! 1"
    "s ! 8 = 0x55" "s ! 9 = 0x46" "s ! 10 = 0x44" "s ! 11 = 16"
    "s ! 12 = le32 (crc32 0xffffffff (body @ dfu_suffix_head g)) ! 0"
    "s ! 13 = le32 (crc32 0xffffffff (body @ dfu_suffix_head g)) ! 1"
    "s ! 14 = le32 (crc32 0xffffffff (body @ dfu_suffix_head g)) ! 2"
    "s ! 15 = le32 (crc32 0xffffffff (body @ dfu_suffix_head g)) ! 3"
  by (simp_all add: s_def stored_suffix_def dfu_suffix_head_le16 nth_append)

lemma parse_suffix_stored:
  assumes fw: "firmware f = body @ stored_suffix g body" and tot: "total f = length body + 16"
    and le: "length body + 12 \<le> INT_MAX"
  shows "parse_suffix f = Inr (False, f \<lparr> dwCRC := crc32 0xffffffff (body @ dfu_suffix_head g),
           bcdDFU := bcdDFU g, suffix_size := 16, idVendor := idVendor g,
           idProduct := idProduct g, bcdDevice := bcdDevice g \<rparr>)"
proof -
  have d: "drop (total f - DFU_SUFFIX_LENGTH) (firmware f) = stored_suffix g body"
    by (simp add: fw tot DFU_SUFFIX_LENGTH_def)
  have t: "take (total f - 4) (firmware f) = body @ dfu_suffix_head g"
    by (simp add: fw tot stored_suffix_def)
  note n = stored_suffix_nth [of g body]
  show ?thesis
    unfolding parse_suffix_def Let_def d t n rd16_le16_nth rd32_le32_nth
    using le by (simp add: tot DFU_SUFFIX_LENGTH_def)
qed

lemma unat_ucast_u16: "unat (ucast a :: u32) = unat (a :: u16)"
proof -
  have "unat a < 4294967296" using unat_u16 [of a] by linarith
  then show ?thesis by (simp add: unsigned_ucast_eq take_bit_nat_eq_self)
qed

lemma probe_prefix_lmdfu:
  assumes fw: "firmware f = lmdfu_prefix g @ rest" and tot: "total f = 8 + length rest"
    and s: "suffix_size f \<le> length rest"
    and len: "(of_nat (total g) :: u32) - of_nat (prefix_size g) - of_nat (suffix_size g)
        = of_nat (length rest - suffix_size f)"
    and addr: "lmdfu_address g = 1024 * ucast (a :: u16)"
  shows "probe_prefix f = (False, f \<lparr> prefix_kind := LMDFU_PREFIX, prefix_size := 8,
           lmdfu_address := lmdfu_address g \<rparr>)"
proof -
  define w :: u32 where "w = of_nat (length rest - suffix_size f)"
  have ad: "lmdfu_address g div 1024 = ucast a"
  proof -
    have "unat a < 4194304" using unat_u16 [of a] by linarith
    then have "unat (1024 * ucast a :: u32) = 1024 * unat a"
      by (simp add: unat_word_ariths unat_ucast_u16)
    then have "unat (lmdfu_address g div 1024) = unat (ucast a :: u32)"
      unfolding addr unat_div by (simp add: unat_ucast_u16)
    then show ?thesis by (simp add: word_unat_eq_iff)
  qed
  have l16: "[ucast (ucast a AND 0xff :: u32), ucast (drop_bit 8 (ucast a :: u32))] = le16 a"
  proof -
    have c: "ucast (ucast a :: u32) = (ucast a :: byte)" by (metis ucast_byte unat_ucast_u16)
    show ?thesis by (simp only: le16_explicit ucast_and_ff ucast_drop_bit unat_ucast_u16 c)
  qed
  have p: "firmware f = [1, 0] @ le16 a @ le32 w @ rest"
    unfolding fw lmdfu_prefix_def Let_def len ad w_def le32_explicit ucast_and_ff
    by (simp add: l16 [symmetric] ucast_and_ff)
  have e: "(of_nat (total f) :: u32) - of_nat LMDFU_PREFIX_LENGTH - of_nat (suffix_size f) = w"
    using s by (simp add: tot w_def dfu_lengths of_nat_diff)
  have r: "firmware f ! 0 = 1" "firmware f ! 1 = 0"
    "[firmware f ! 2, firmware f ! 3] = [le16 a ! 0, le16 a ! 1]"
    "[firmware f ! 4, firmware f ! 5, firmware f ! 6, firmware f ! 7] = [le32 w ! 0, le32 w ! 1, le32 w ! 2, le32 w ! 3]"
    unfolding p by (simp_all add: nth_append)
  show ?thesis
    unfolding probe_prefix_def Let_def e r rd16_le16_nth rd32_le32_nth
    using s by (simp add: tot dfu_lengths addr)
qed

lemma probe_prefix_lpcdfu:
  assumes "firmware f = lpcdfu_prefix g @ rest" and "total f = 16 + length rest"
    and "suffix_size f \<le> length rest"
  shows "probe_prefix f = (False, f \<lparr> prefix_kind := LPCDFU_UNENCRYPTED_PREFIX, prefix_size := 16 \<rparr>)"
proof -
  have "firmware f ! 0 = 0x1a" "firmware f ! 1 = 0x3f"
    using assms(1) by (simp_all add: lpcdfu_prefix_def Let_def)
  then show ?thesis
    using assms(2,3) by (simp add: probe_prefix_def dfu_lengths)
qed

lemma load_plain_file:
  assumes "plain_file e d" and "fname f0 \<noteq> ''-''"
  shows "dfu_load_file e cs cp f0 =
    rbind (parse_suffix (load_defaults f0 \<lparr> firmware := d, total := length d \<rparr>))
      (\<lambda>(missing_suffix, file). check_requirements missing_suffix cs cp file)"
  using load_bytes_file [OF assms(1), of "load_defaults f0" cs] assms(2)
  by (simp add: dfu_load_file_def load_defaults_def)

text \<open>A checksum that does not fit counts as a missing suffix.\<close>

lemma parse_suffix_mismatch:
  assumes "length (firmware f) = total f" and "total f \<le> INT_MAX"
    and "rd32 (drop (total f - 4) (firmware f)) \<noteq> crc32 0xffffffff (take (total f - 4) (firmware f))"
  obtains f' where "parse_suffix f = Inr (True, f')"
proof (cases "total f < DFU_SUFFIX_LENGTH")
  case True
  then show ?thesis using that by (simp add: parse_suffix_def)
next
  case False
  define s where "s = drop (total f - DFU_SUFFIX_LENGTH) (firmware f)"
  have ls: "length s = 16" using assms(1) False by (simp add: s_def DFU_SUFFIX_LENGTH_def)
  have "drop (total f - 4) (firmware f) = drop 12 s"
    using False by (simp add: s_def DFU_SUFFIX_LENGTH_def)
  also have "\<dots> = [s ! 12, s ! 13, s ! 14, s ! 15]"
    using ls by (intro nth_equalityI) (auto simp: less_Suc_eq numeral_eq_Suc)
  finally have "rd32 [s ! 12, s ! 13, s ! 14, s ! 15] \<noteq> crc32 0xffffffff (take (total f - 4) (firmware f))"
    using assms(3) by simp
  moreover have "\<not> INT_MAX < total f - 4" using assms(2) by linarith
  ultimately have "\<exists>f'. parse_suffix f = Inr (True, f')"
    unfolding parse_suffix_def Let_def s_def [symmetric] using False by simp
  then show ?thesis using that by blast
qed

lemma parse_suffix_Inr:
  assumes "parse_suffix f = Inr (m, f')" and "suffix_size f = 0"
  shows "firmware f' = firmware f \<and> total f' = total f \<and> suffix_size f' \<le> total f' \<and>
         prefix_size f' = prefix_size f"
  using assms by (auto simp: parse_suffix_def Let_def split: if_splits)

lemma check_requirements_Inr:
  assumes "check_requirements m cs cp f = Inr f'" and "prefix_size f = 0"
  shows "firmware f' = firmware f \<and> total f' = total f \<and> suffix_size f' = suffix_size f \<and>
         (cp = NEEDS_PREFIX \<longrightarrow> prefix_size f' + suffix_size f' \<le> total f' \<and> prefix_size f' \<noteq> 0) \<and>
         (cp = NO_PREFIX \<longrightarrow> prefix_size f' = 0)"
proof -
  obtain r g where g: "probe_prefix f = (r, g)" by fastforce
  have keep: "firmware g = firmware f \<and> total g = total f \<and> suffix_size g = suffix_size f \<and>
      (\<not> r \<longrightarrow> prefix_size g + suffix_size g \<le> total g)"
    using g by (auto simp: probe_prefix_def Let_def split: if_splits)
  from assms(1) have "f' = g" "cp = NEEDS_PREFIX \<longrightarrow> \<not> r \<and> prefix_size g \<noteq> 0"
    "cp = NO_PREFIX \<longrightarrow> prefix_size g = 0"
    by (auto simp: check_requirements_def g split: if_splits)
  with keep show ?thesis by auto
qed

lemma load_bytes_Inr:
  assumes "load_bytes e cs f = Inr (cs', f')"
  shows "length (firmware f') = total f' \<and> prefix_size f' = prefix_size f \<and>
         suffix_size f' = suffix_size f"
  using assms read_loop_length [of "le_data e" "nat (le_seek_end e)" "le_reads e" 0 0]
  by (auto simp: load_bytes_def Let_def rbind_eq_Inr split: if_splits)

subsection \<open>Properties\<close>


text \<open>
  C20. The checksum dfu-util computes through its table, over any bytes and from any start
  value, is the one of the reflected CRC-32 polynomial taken bit by bit.
\<close>
theorem crc32_is_bitwise: "crc32 crc buf = crc_bitwise crc buf"
  by (rule crc32_bitwise)

text \<open>
  C19. When one byte of a file that dfu_store_file wrote with a suffix is changed, wherever it
  is, dfu_load_file refuses the file if a suffix is required: the program exits with
  EX_DATAERR.
\<close>
theorem corrupted_file_refused:
  assumes "dfu_store_file opened full file True wp = Inr out" and "length out \<le> INT_MAX"
    and "i < length out" and "b \<noteq> out ! i"
    and "plain_file e (out[i := b])" and "fname f0 \<noteq> ''-''"
  shows "dfu_load_file e NEEDS_SUFFIX check_prefix f0 = Inl (Exit EX_DATAERR)"
proof -
  define body where "body = stored_prefix file wp @ payload file @ dfu_suffix_head file"
  have out: "out = body @ le32 (crc32 0xffffffff body)"
    using store_bytes(1) [OF assms(1)] by (simp add: body_def stored_suffix_def)
  define d where "d = out[i := b]"
  have ld: "length d = length body + 4" by (simp add: d_def out)
  define f1 where "f1 = load_defaults f0 \<lparr> firmware := d, total := length d \<rparr>"
  have "rd32 (drop (length body) d) \<noteq> crc32 0xffffffff (take (length body) d)"
  proof (cases "i < length body")
    case True
    then have "take (length body) d = body[i := b]" "drop (length body) d = le32 (crc32 0xffffffff body)"
      by (simp_all add: d_def out list_update_append)
    moreover have "b \<noteq> body ! i" using True assms(4) by (simp add: out nth_append)
    ultimately show ?thesis
      using crc32_one_byte [OF True, of b "0xffffffff"] by (metis rd32_le32)
  next
    case False
    define c where "c = (le32 (crc32 0xffffffff body))[i - length body := b]"
    have t: "take (length body) d = body" "drop (length body) d = c"
      using False by (simp_all add: d_def out c_def list_update_append)
    have "i - length body < 4" using False assms(3) by (simp add: out)
    moreover have "b \<noteq> le32 (crc32 0xffffffff body) ! (i - length body)"
      using False assms(4) by (simp add: out nth_append)
    ultimately have "c \<noteq> le32 (crc32 0xffffffff body)"
      by (metis c_def length_le32 nth_list_update_eq)
    moreover have "le32 (rd32 c) = c" by (rule le32_rd32) (simp add: c_def)
    ultimately show ?thesis unfolding t by metis
  qed
  then obtain f2 where "parse_suffix f1 = Inr (True, f2)"
    using parse_suffix_mismatch [of f1] assms(2) by (auto simp: f1_def ld out)
  then show ?thesis
    using load_plain_file [OF assms(5,6)] by (simp add: f1_def d_def check_requirements_def)
qed

text \<open>
  Whatever the input and the answers of the kernel: a file that dfu_load_file accepts has
  as many bytes in memory as its total size says, its suffix lies inside, and when a prefix is
  required there is one and prefix and suffix together fit into the file.
\<close>
lemma loaded_file_bounds:
  assumes "dfu_load_file e check_suffix check_prefix f0 = Inr f"
  shows "length (firmware f) = total f \<and> suffix_size f \<le> total f \<and>
    (check_prefix = NEEDS_PREFIX \<longrightarrow> prefix_size f \<noteq> 0 \<and> prefix_size f + suffix_size f \<le> total f) \<and>
    (check_prefix = NO_PREFIX \<longrightarrow> prefix_size f = 0)"
proof -
  from assms obtain cs f1 m f2 where
    1: "load_bytes e check_suffix (load_defaults f0) = Inr (cs, f1)" and
    2: "parse_suffix f1 = Inr (m, f2)" and
    3: "check_requirements m cs check_prefix f2 = Inr f"
    by (auto simp: dfu_load_file_def rbind_eq_Inr)
  note a = load_bytes_Inr [OF 1]
  have s0: "suffix_size f1 = 0" "prefix_size f1 = 0" using a by (simp_all add: load_defaults_def)
  note b = parse_suffix_Inr [OF 2 s0(1)]
  have "prefix_size f2 = 0" using b s0 by simp
  note c = check_requirements_Inr [OF 3 this]
  show ?thesis using a b c by auto
qed

text \<open>
  With an optional prefix the bound is lost: a file of 8 to 15 bytes that starts like an
  unencrypted NXP prefix is accepted, with a prefix of 16 bytes that is longer than the file,
  and storing it again reads outside the firmware buffer.
\<close>
theorem short_lpc_file_accepted:
  assumes "plain_file e d" and "fname f0 \<noteq> ''-''" and "8 \<le> length d" and "length d < 16"
    and "d ! 0 AND 0x3f = 0x1a" and "d ! 1 AND 0x3f = 0x3f"
  shows "\<exists>f. dfu_load_file e MAYBE_SUFFIX MAYBE_PREFIX f0 = Inr f \<and> prefix_size f = 16 \<and>
    total f < prefix_size f \<and> dfu_store_file True full f ws False = Inl (Undef OobRead)"
proof -
  define f1 where "f1 = load_defaults f0 \<lparr> firmware := d, total := length d \<rparr>"
  have ps: "parse_suffix f1 = Inr (True, f1)"
    using assms(4) by (simp add: parse_suffix_def f1_def DFU_SUFFIX_LENGTH_def)
  have ne: "\<not> (d ! 0 = 1)"
  proof
    assume "d ! 0 = 1"
    with assms(5) show False by simp
  qed
  define f where "f = f1 \<lparr> prefix_kind := LPCDFU_UNENCRYPTED_PREFIX, prefix_size := 16 \<rparr>"
  have pp: "probe_prefix f1 = (True, f)"
    using assms(3,4,5,6) ne by (simp add: probe_prefix_def f1_def f_def load_defaults_def dfu_lengths)
  have "dfu_load_file e MAYBE_SUFFIX MAYBE_PREFIX f0 = Inr f"
    using load_plain_file [OF assms(1,2)] ps pp by (simp add: f1_def check_requirements_def)
  moreover have "dfu_store_file True full f ws False = Inl (Undef OobRead)"
    using assms(4) by (simp add: dfu_store_file_def store_prefix_def dfu_file_write_crc_def f_def f1_def
        load_defaults_def)
  ultimately show ?thesis using assms(4) by (auto simp: f_def f1_def)
qed

text \<open>
  A read that a signal interrupts is not retried: the -1 it returns is added to the count
  of the bytes read, so after reads of fewer bytes than the file has and one EINTR the file is
  never loaded, whatever the later reads answer.
\<close>
theorem interrupted_read_fails:
  assumes "le_data e = d" and "le_seek_end e = int (length d)"
    and "le_reads e = map ReadData ns @ ReadEintr # as"
    and "sum_list (map Suc ns) < length d" and "fname f0 \<noteq> ''-''"
  shows "\<exists>stop. dfu_load_file e check_suffix check_prefix f0 = Inl stop"
proof -
  have "\<forall>pos buf. pos + sum_list (map Suc ns) < length d \<longrightarrow>
      read_loop d (length d) (map ReadData ns @ ReadEintr # as) pos (int pos) buf = Inr (r, b) \<longrightarrow>
      r < int (length d)" for r b
  proof (induction ns)
    case Nil
    then show ?case by (auto simp: Let_def dest!: read_loop_behind [rotated 2])
  next
    case (Cons n ns)
    show ?case
    proof (intro allI impI)
      fix pos buf
      assume lt: "pos + sum_list (map Suc (n # ns)) < length d"
        and rl: "read_loop d (length d) (map ReadData (n # ns) @ ReadEintr # as) pos (int pos) buf = Inr (r, b)"
      define bs where
        "bs = take (min (Suc n) (min (nat (int (length d) - int pos)) READ_MAX)) (drop pos d)"
      have g: "int pos < int (length d)" using lt by simp
      have l: "length bs \<le> Suc n" "0 < length bs" "pos + length bs \<le> length d"
        using g by (auto simp: bs_def READ_MAX_def)
      then obtain buf' where "read_loop d (length d) (map ReadData ns @ ReadEintr # as)
          (pos + length bs) (int (pos + length bs)) buf' = Inr (r, b)"
        using rl read_loop_ReadData [OF g bs_def, of "map ReadData ns @ ReadEintr # as" buf]
        by (auto simp: rbind_eq_Inr simp del: read_loop.simps)
      moreover have "pos + length bs + sum_list (map Suc ns) < length d" using lt l by simp
      ultimately show "r < int (length d)" using Cons.IH by blast
    qed
  qed
  from this [rule_format, of 0] have
    "read_loop d (length d) (le_reads e) 0 0 buf = Inr (r, b) \<Longrightarrow> r \<noteq> int (length d)" for r b buf
    using assms(3,4) by fastforce
  then have "\<exists>stop. load_bytes e check_suffix (load_defaults f0) = Inl stop"
    using assms(1,2,5)
    by (cases "read_loop d (length d) (le_reads e) 0 0 (replicate (length d) 0)")
       (auto simp: load_bytes_def load_defaults_def Let_def)
  then show ?thesis by (auto simp: dfu_load_file_def)
qed

subsection \<open>Witnesses\<close>

text \<open>Three bytes of firmware with a Stellaris prefix, and the environment that reads a file back.\<close>

definition demo_fw :: dfu_file where
  "demo_fw = \<lparr> fname = ''fw.dfu'', firmware = [1, 2, 3], total = 3, prefix_size = 0, suffix_size = 0,
     lmdfu_address = 0x1000, prefix_kind = LMDFU_PREFIX, dwCRC = 0, bcdDFU = 0x100,
     idVendor = 0x1cbe, idProduct = 0xff, bcdDevice = 0 \<rparr>"

definition demo_out :: "byte list" where
  "demo_out = lmdfu_prefix demo_fw @ [1, 2, 3] @ stored_suffix demo_fw (lmdfu_prefix demo_fw @ [1, 2, 3])"

definition demo_load :: "byte list \<Rightarrow> load_env" where
  "demo_load d = \<lparr> le_stdin = [], le_open = True, le_seek_end = int (length d), le_seek_set = True,
     le_alloc = (\<lambda>_. True), le_data = d, le_reads = replicate (length d) (ReadData 4095) \<rparr>"

lemma demo_store: "dfu_store_file True (\<lambda>_ _. True) demo_fw True True = Inr demo_out"
proof -
  have "stored_prefix demo_fw True = lmdfu_prefix demo_fw" "payload demo_fw = [1, 2, 3]"
    by (simp_all add: stored_prefix_def payload_def demo_fw_def)
  moreover have "dfu_store_file True (\<lambda>_ _. True) demo_fw True True =
      Inr (stored_prefix demo_fw True @ payload demo_fw @
        (if True then stored_suffix demo_fw (stored_prefix demo_fw True @ payload demo_fw) else []))"
    by (rule store_returns) (simp_all add: demo_fw_def INT_MAX_def)
  ultimately show ?thesis by (simp add: demo_out_def)
qed

lemma demo_plain: "plain_file (demo_load d) d"
  by (auto simp: plain_file_def demo_load_def)

lemma length_demo_out: "length demo_out = 27"
  by (simp add: demo_out_def lmdfu_prefix_def Let_def)


theorem corrupted_file_refused_witness:
  "dfu_load_file (demo_load (demo_out[20 := demo_out ! 20 + 1])) NEEDS_SUFFIX NO_PREFIX demo_fw
     = Inl (Exit EX_DATAERR)"
proof -
  have "demo_out ! 20 + 1 \<noteq> demo_out ! 20" by simp
  then show ?thesis
    using corrupted_file_refused [OF demo_store _ _ _ demo_plain, of 20 "demo_out ! 20 + 1" demo_fw NO_PREFIX]
    by (simp add: length_demo_out INT_MAX_def demo_fw_def)
qed

theorem short_lpc_file_accepted_witness:
  "\<exists>f. dfu_load_file (demo_load [0x1a, 0x3f, 1, 0, 0, 0, 0, 0]) MAYBE_SUFFIX MAYBE_PREFIX demo_fw = Inr f \<and>
     dfu_store_file True (\<lambda>_ _. True) f True False = Inl (Undef OobRead)"
  using short_lpc_file_accepted [OF demo_plain, of demo_fw "[0x1a, 0x3f, 1, 0, 0, 0, 0, 0]"
      "\<lambda>_ _. True" True]
  by (auto simp: demo_fw_def)

theorem interrupted_read_fails_witness:
  "\<exists>stop. dfu_load_file ((demo_load [1, 2, 3, 4]) \<lparr> le_reads := [ReadData 1, ReadEintr, ReadData 9, ReadData 0] \<rparr>)
     MAYBE_SUFFIX MAYBE_PREFIX demo_fw = Inl stop"
  using interrupted_read_fails [of "(demo_load [1, 2, 3, 4]) \<lparr> le_reads := [ReadData 1, ReadEintr, ReadData 9, ReadData 0] \<rparr>"
      "[1, 2, 3, 4]" "[1]" "[ReadData 9, ReadData 0]" demo_fw]
  by (simp add: demo_load_def demo_fw_def)

end
