(* ===== verification/DfuseMem.thy ===== *)
theory DfuseMem
  imports DfuFile
begin

unbundle bit_operations_syntax

text \<open>
  The memory map of a DfuSe device (external/dfu-util/src/dfuse_mem.c): the list of segments,
  its lookup, and parse_memory_layout, which reads the map from the interface string with
  sscanf.  What the code uses of sscanf is modelled: the conversions %d, %x, %c, %[ and %n,
  the literals between them, and that %n is only stored when everything before it matched.
  A pointer moved past the end of the string is \<open>Undef OobRead\<close>.
\<close>

definition DFUSE_READABLE :: nat where "DFUSE_READABLE = 1"
definition DFUSE_ERASABLE :: nat where "DFUSE_ERASABLE = 2"
definition DFUSE_WRITEABLE :: nat where "DFUSE_WRITEABLE = 4"

record memsegment =
  seg_start :: u32
  seg_end :: u32
  pagesize :: int
  memtype :: nat

text \<open>The linked list is a list; a new segment goes to its end.\<close>

primrec add_segment :: "memsegment list \<Rightarrow> memsegment \<Rightarrow> memsegment list" where
  "add_segment [] segment = [segment]"
| "add_segment (x # segment_list) segment = x # add_segment segment_list segment"

primrec find_segment :: "memsegment list \<Rightarrow> u32 \<Rightarrow> memsegment option" where
  "find_segment [] address = None"
| "find_segment (x # segment_list) address =
     (if seg_start x \<le> address \<and> seg_end x \<ge> address then Some x
      else find_segment segment_list address)"

lemma add_segment_append: "add_segment segs x = segs @ [x]"
  by (induction segs) simp_all

lemma find_segment_Some:
  "find_segment segs a = Some x \<Longrightarrow> x \<in> set segs \<and> seg_start x \<le> a \<and> a \<le> seg_end x"
  by (induction segs) (auto split: if_splits)

lemma find_segment_None:
  "find_segment segs a = None \<longleftrightarrow> (\<forall>x\<in>set segs. \<not> (seg_start x \<le> a \<and> a \<le> seg_end x))"
  by (induction segs) auto

subsection \<open>The conversions of sscanf\<close>

definition code :: "char \<Rightarrow> nat" where "code c = of_char c"

definition isspace :: "char \<Rightarrow> bool" where
  "isspace c = (code c = 32 \<or> 9 \<le> code c \<and> code c \<le> 13)"

definition isdigit :: "char \<Rightarrow> bool" where
  "isdigit c = (48 \<le> code c \<and> code c \<le> 57)"

definition digit_val :: "char \<Rightarrow> nat" where
  "digit_val c = (if isdigit c then code c - 48
                  else if 97 \<le> code c then code c - 87 else code c - 55)"

definition isxdigit :: "char \<Rightarrow> bool" where
  "isxdigit c = (isdigit c \<or> 65 \<le> code c \<and> code c \<le> 70 \<or> 97 \<le> code c \<and> code c \<le> 102)"

definition digits_val :: "nat \<Rightarrow> string \<Rightarrow> nat" where
  "digits_val base ds = fold (\<lambda>c v. base * v + digit_val c) ds 0"

text \<open>An optional sign behind white space.\<close>

definition scan_sign :: "string \<Rightarrow> bool \<times> string" where
  "scan_sign s =
     (let s = dropWhile isspace s in
      if take 1 s = ''-'' then (True, drop 1 s)
      else if take 1 s = ''+'' then (False, drop 1 s) else (False, s))"

text \<open>%d goes through strtol, which saturates, and is stored in an int.\<close>

definition to_int32 :: "int \<Rightarrow> int" where
  "to_int32 v = sint (word_of_int v :: u32)"

definition scan_d :: "string \<Rightarrow> (int \<times> string) option" where
  "scan_d s =
     (case scan_sign s of (neg, s) \<Rightarrow>
      let ds = takeWhile isdigit s; v = int (digits_val 10 ds) in
      if ds = [] then None
      else Some (to_int32 (if neg then max (- v) (- 9223372036854775808)
                           else min v 9223372036854775807),
                 dropWhile isdigit s))"

text \<open>%x goes through strtoul and is stored in an unsigned int; a further 0x may precede the digits.\<close>

definition scan_x :: "string \<Rightarrow> (u32 \<times> string) option" where
  "scan_x s =
     (case scan_sign s of (neg, s) \<Rightarrow>
      let s = (if take 2 s = ''0x'' \<or> take 2 s = ''0X'' then drop 2 s else s);
          ds = takeWhile isxdigit s; v = digits_val 16 ds in
      if ds = [] then None
      else Some (if v > 18446744073709551615 then - 1
                 else if neg then - of_nat v else of_nat v,
                 dropWhile isxdigit s))"

definition scan_lit :: "string \<Rightarrow> string \<Rightarrow> string option" where
  "scan_lit l s = (if take (length l) s = l then Some (drop (length l) s) else None)"

text \<open>%[^...]: at least one character outside the given ones.\<close>

definition scan_until :: "(char \<Rightarrow> bool) \<Rightarrow> string \<Rightarrow> (string \<times> string) option" where
  "scan_until stop s =
     (let t = takeWhile (\<lambda>c. \<not> stop c) s in if t = [] then None else Some (t, drop (length t) s))"

subsection \<open>The three calls\<close>

text \<open>"@%[^/]%n": the name and the number of characters read.\<close>

definition scan_name :: "string \<Rightarrow> (string \<times> nat) option" where
  "scan_name s =
     (case scan_lit ''@'' s of None \<Rightarrow> None
      | Some s1 \<Rightarrow>
        (case scan_until (\<lambda>c. c = CHR ''/'') s1 of None \<Rightarrow> None
         | Some (name, s2) \<Rightarrow> Some (name, length s - length s2)))"

text \<open>"/0x%x/%n": when the second slash is missing the count keeps its old value.\<close>

definition scan_address :: "string \<Rightarrow> nat \<Rightarrow> (u32 \<times> nat) option" where
  "scan_address s scanned =
     (case scan_lit ''/0x'' s of None \<Rightarrow> None
      | Some s1 \<Rightarrow>
        (case scan_x s1 of None \<Rightarrow> None
         | Some (address, s2) \<Rightarrow>
           (case scan_lit ''/'' s2 of None \<Rightarrow> Some (address, scanned)
            | Some s3 \<Rightarrow> Some (address, length s - length s3))))"

text \<open>
  "%d*%d%c%[^,/]%n", as far as the loop goes on (three or four conversions): sectors, size,
  multiplier, the type string if it matched, and the count, which keeps its old value when it
  did not.
\<close>

definition scan_segment :: "string \<Rightarrow> nat \<Rightarrow> (int \<times> int \<times> char \<times> string option \<times> nat) option" where
  "scan_segment s scanned =
     (case scan_d s of None \<Rightarrow> None
      | Some (sectors, s1) \<Rightarrow>
        (case scan_lit ''*'' s1 of None \<Rightarrow> None
         | Some s2 \<Rightarrow>
           (case scan_d s2 of None \<Rightarrow> None
            | Some (sz, s3) \<Rightarrow>
              (case s3 of [] \<Rightarrow> None
               | multiplier # s4 \<Rightarrow>
                 (case scan_until (\<lambda>c. c = CHR '','' \<or> c = CHR ''/'') s4 of
                    None \<Rightarrow> Some (sectors, sz, multiplier, None, scanned)
                  | Some (typestring, s5) \<Rightarrow>
                      Some (sectors, sz, multiplier, Some typestring, length s - length s5))))))"

subsection \<open>parse_memory_layout\<close>

definition int_ok :: "int \<Rightarrow> dfu_stop + int" where
  "int_ok v = (if - 2147483648 \<le> v \<and> v \<le> 2147483647 then Inr v else Inl IntOverflow)"

definition advance :: "nat \<Rightarrow> string \<Rightarrow> dfu_stop + string" where
  "advance n s = (if n \<le> length s then Inr (drop n s) else Inl (Undef OobRead))"

text \<open>The type identifier of a segment; None is the continue behind the warning.\<close>

definition segment_type :: "string option \<Rightarrow> char option option" where
  "segment_type typestring =
     (case typestring of None \<Rightarrow> Some None
      | Some t \<Rightarrow> if length t = 1 \<and> hd t \<noteq> CHR ''/'' then Some (Some (hd t)) else None)"

text \<open>The switch over the multiplier: the size, and the type where the multiplier stands for it.\<close>

definition apply_multiplier :: "char \<Rightarrow> char option \<Rightarrow> int \<Rightarrow> dfu_stop + (int \<times> char option)" where
  "apply_multiplier multiplier ty sz =
     (if multiplier = CHR ''B'' then Inr (sz, ty)
      else if multiplier = CHR ''K'' then rbind (int_ok (sz * 1024)) (\<lambda>sz. Inr (sz, ty))
      else if multiplier = CHR ''M'' then rbind (int_ok (sz * (1024 * 1024))) (\<lambda>sz. Inr (sz, ty))
      else if multiplier \<in> set ''abcdefg'' \<and> ty = None then Inr (sz, Some multiplier)
      else Inr (sz, ty))"

definition make_segment :: "u32 \<Rightarrow> int \<Rightarrow> int \<Rightarrow> char \<Rightarrow> memsegment" where
  "make_segment address sectors sz ty =
     \<lparr> seg_start = address, seg_end = address + word_of_int (sectors * sz) - 1, pagesize = sz,
       memtype = code ty AND 7 \<rparr>"

text \<open>
  One turn of the loop over the segments of an address, behind its sscanf: the string, the
  address and the list it leaves, and whether the loop goes on.
\<close>

definition segment_turn ::
    "string \<Rightarrow> string \<Rightarrow> u32 \<Rightarrow> memsegment list \<Rightarrow> int \<times> int \<times> char \<times> string option \<times> nat
     \<Rightarrow> dfu_stop + (bool \<times> string \<times> u32 \<times> memsegment list)" where
  "segment_turn name s address segs r =
     (case r of (sectors, sz, multiplier, typestring, scanned) \<Rightarrow>
      rbind (advance scanned s) (\<lambda>s.
      case segment_type typestring of None \<Rightarrow> Inr (True, s, address, segs)
      | Some ty \<Rightarrow>
        rbind (apply_multiplier multiplier
                 (if name = ''Device Feature'' then Some (CHR ''e'') else ty) sz) (\<lambda>(sz, ty).
        case ty of None \<Rightarrow> Inr (True, s, address, segs)
        | Some ty \<Rightarrow>
          rbind (int_ok (sectors * sz)) (\<lambda>bytes.
            let segs = add_segment segs (make_segment address sectors sz ty);
                address = address + word_of_int bytes in
            if take 1 s = '','' then Inr (True, drop 1 s, address, segs)
            else Inr (False, s, address, segs)))))"

text \<open>The loops carry the string, the count and the list; the fuel bounds their turns.\<close>

primrec layout_segments ::
    "nat \<Rightarrow> string \<Rightarrow> string \<Rightarrow> nat \<Rightarrow> u32 \<Rightarrow> memsegment list
     \<Rightarrow> dfu_stop + (string \<times> nat \<times> memsegment list)" where
  "layout_segments 0 name s scanned address segs = Inl (Undef OutOfFuel)"
| "layout_segments (Suc n) name s scanned address segs =
     (case scan_segment s scanned of None \<Rightarrow> Inr (s, scanned, segs)
      | Some r \<Rightarrow>
        rbind (segment_turn name s address segs r) (\<lambda>(again, s, address, segs).
        let scanned = snd (snd (snd (snd r))) in
        if again then layout_segments n name s scanned address segs else Inr (s, scanned, segs)))"

primrec layout_addresses ::
    "nat \<Rightarrow> string \<Rightarrow> string \<Rightarrow> nat \<Rightarrow> memsegment list \<Rightarrow> dfu_stop + memsegment list" where
  "layout_addresses 0 name s scanned segs = Inl (Undef OutOfFuel)"
| "layout_addresses (Suc n) name s scanned segs =
     (case scan_address s scanned of None \<Rightarrow> Inr segs
      | Some (address, scanned) \<Rightarrow>
        rbind (advance scanned s) (\<lambda>s.
        rbind (layout_segments (Suc (length s)) name s scanned address segs) (\<lambda>(s, scanned, segs).
        layout_addresses n name s scanned segs)))"

definition parse_memory_layout :: "string \<Rightarrow> dfu_stop + memsegment list" where
  "parse_memory_layout intf_desc =
     (case scan_name intf_desc of None \<Rightarrow> Inr []
      | Some (name, scanned) \<Rightarrow>
        rbind (advance scanned intf_desc) (\<lambda>s.
        layout_addresses (Suc (length s)) name s scanned []))"

subsection \<open>The parser stops\<close>

lemma scan_lit_length: "scan_lit l s = Some r \<Longrightarrow> length s = length l + length r"
proof -
  assume a: "scan_lit l s = Some r"
  then have "take (length l) s = l" "r = drop (length l) s" by (auto simp: scan_lit_def split: if_splits)
  then have "s = l @ r" by (metis append_take_drop_id)
  then show ?thesis by simp
qed

lemma scan_sign_length: "scan_sign s = (neg, r) \<Longrightarrow> length r \<le> length s"
  using length_dropWhile_le [of isspace s] by (auto simp: scan_sign_def Let_def split: if_splits)

lemma dropWhile_shorter: "takeWhile P s \<noteq> [] \<Longrightarrow> length (dropWhile P s) < length s"
  using takeWhile_dropWhile_id [of P s] by (metis length_append length_greater_0_conv less_add_same_cancel2)

lemma scan_d_length: "scan_d s = Some (v, r) \<Longrightarrow> length r < length s"
proof -
  assume a: "scan_d s = Some (v, r)"
  obtain neg t where t: "scan_sign s = (neg, t)" by fastforce
  from a t have "takeWhile isdigit t \<noteq> []" "r = dropWhile isdigit t"
    by (auto simp: scan_d_def Let_def split: if_splits)
  then show ?thesis using dropWhile_shorter scan_sign_length [OF t] by fastforce
qed

lemma scan_x_length: "scan_x s = Some (v, r) \<Longrightarrow> length r < length s"
proof -
  assume a: "scan_x s = Some (v, r)"
  obtain neg t where t: "scan_sign s = (neg, t)" by fastforce
  define u where "u = (if take 2 t = ''0x'' \<or> take 2 t = ''0X'' then drop 2 t else t)"
  from a t have "takeWhile isxdigit u \<noteq> []" "r = dropWhile isxdigit u"
    by (auto simp: scan_x_def Let_def u_def [symmetric] split: if_splits)
  moreover have "length u \<le> length t" by (simp add: u_def)
  ultimately show ?thesis using dropWhile_shorter scan_sign_length [OF t] by fastforce
qed

lemma scan_until_length: "scan_until stop s = Some (t, r) \<Longrightarrow> length s = length t + length r \<and> t \<noteq> []"
  using length_takeWhile_le [of "\<lambda>c. \<not> stop c" s]
  by (auto simp: scan_until_def Let_def split: if_splits)

text \<open>Every count that is stored is positive, so every turn of the loops moves the pointer.\<close>

lemma scan_name_count: "scan_name s = Some (name, k) \<Longrightarrow> 0 < k"
  by (auto simp: scan_name_def split: option.splits dest!: scan_lit_length scan_until_length)

lemma scan_address_count: "scan_address s k = Some (a, k') \<Longrightarrow> 0 < k \<Longrightarrow> 0 < k'"
  by (auto simp: scan_address_def split: option.splits dest!: scan_lit_length scan_x_length)

lemma scan_segment_count:
  "scan_segment s k = Some (sectors, sz, m, t, k') \<Longrightarrow> 0 < k \<Longrightarrow> 0 < k'"
  by (auto simp: scan_segment_def split: option.splits list.splits
      dest!: scan_lit_length scan_d_length scan_until_length)

lemma advance_Inr: "advance n s = Inr r \<Longrightarrow> length r = length s - n \<and> n \<le> length s"
  by (auto simp: advance_def split: if_splits)

lemma int_ok_no_fuel [simp]: "int_ok v \<noteq> Inl (Undef OutOfFuel)"
  by (simp add: int_ok_def)

lemma advance_no_fuel [simp]: "advance n s \<noteq> Inl (Undef OutOfFuel)"
  by (simp add: advance_def)

lemma apply_multiplier_no_fuel [simp]: "apply_multiplier m ty sz \<noteq> Inl (Undef OutOfFuel)"
  by (auto simp: apply_multiplier_def int_ok_def)

lemma rbind_no_fuel:
  "m \<noteq> Inl f \<Longrightarrow> (\<And>a. m = Inr a \<Longrightarrow> k a \<noteq> Inl f) \<Longrightarrow> rbind m k \<noteq> Inl f"
  by (cases m) auto

lemma segment_turn_no_fuel: "segment_turn name s a segs r \<noteq> Inl (Undef OutOfFuel)"
  by (cases r) (auto simp: segment_turn_def Let_def rbind_eq_Inl split: option.splits if_splits)

lemma segment_turn_shorter:
  assumes "segment_turn name s a segs (sectors, sz, m, t, k) = Inr (again, s', a', segs')"
  shows "k \<le> length s \<and> length s' \<le> length s - k"
proof -
  from assms obtain s1 where s1: "advance k s = Inr s1" and
    rest: "(case segment_type t of None \<Rightarrow> Inr (True, s1, a, segs)
      | Some ty \<Rightarrow>
        rbind (apply_multiplier m (if name = ''Device Feature'' then Some (CHR ''e'') else ty) sz) (\<lambda>(sz, ty).
        case ty of None \<Rightarrow> Inr (True, s1, a, segs)
        | Some ty \<Rightarrow>
          rbind (int_ok (sectors * sz)) (\<lambda>bytes.
            let segs = add_segment segs (make_segment a sectors sz ty);
                address = a + word_of_int bytes in
            if take 1 s1 = '','' then Inr (True, drop 1 s1, address, segs)
            else Inr (False, s1, address, segs)))) = Inr (again, s', a', segs')"
    unfolding segment_turn_def prod.case rbind_eq_Inr by blast
  have "length s' \<le> length s1"
  proof (cases "segment_type t")
    case None
    with rest show ?thesis by simp
  next
    case (Some ty)
    with rest obtain r where r: "(case r of (sz, ty) \<Rightarrow>
        case ty of None \<Rightarrow> Inr (True, s1, a, segs)
        | Some ty \<Rightarrow>
          rbind (int_ok (sectors * sz)) (\<lambda>bytes.
            let segs = add_segment segs (make_segment a sectors sz ty);
                address = a + word_of_int bytes in
            if take 1 s1 = '','' then Inr (True, drop 1 s1, address, segs)
            else Inr (False, s1, address, segs))) = Inr (again, s', a', segs')"
      unfolding Some option.case rbind_eq_Inr by blast
    then show ?thesis
      by (cases r, cases "snd r") (auto simp: rbind_eq_Inr Let_def split: if_splits)
  qed
  with advance_Inr [OF s1] show ?thesis by simp
qed

text \<open>The loop over segments ends within its fuel and leaves no longer a string.\<close>

lemma layout_segments_stops:
  "0 < k \<Longrightarrow> length s < n \<Longrightarrow> layout_segments n name s k a segs \<noteq> Inl (Undef OutOfFuel)"
proof (induction n arbitrary: s k a segs)
  case 0
  then show ?case by simp
next
  case (Suc n)
  show ?case
  proof (cases "scan_segment s k")
    case None
    then show ?thesis by simp
  next
    case (Some r)
    then obtain sectors sz m t k' where r: "r = (sectors, sz, m, t, k')" by (cases r) auto
    have k': "0 < k'" using scan_segment_count Some r Suc.prems by simp
    show ?thesis
      unfolding layout_segments.simps Some option.case
    proof (intro rbind_no_fuel segment_turn_no_fuel)
      fix st assume st: "segment_turn name s a segs r = Inr st"
      obtain again s' a' segs' where e: "st = (again, s', a', segs')" by (cases st) auto
      have "length s' < n"
        using segment_turn_shorter [of name s a segs sectors sz m t k'] st k' Suc.prems r e by fastforce
      then show "(case st of (again, s, address, segs) \<Rightarrow> let scanned = snd (snd (snd (snd r))) in
          if again then layout_segments n name s scanned address segs else Inr (s, scanned, segs))
          \<noteq> Inl (Undef OutOfFuel)"
        using Suc.IH [of k' s'] k' by (simp add: e r)
    qed
  qed
qed

lemma layout_segments_shorter:
  "layout_segments n name s k a segs = Inr (s', k', segs') \<Longrightarrow> 0 < k \<Longrightarrow>
   length s' \<le> length s \<and> 0 < k'"
proof (induction n arbitrary: s k a segs)
  case 0
  then show ?case by simp
next
  case (Suc n)
  show ?case
  proof (cases "scan_segment s k")
    case None
    then show ?thesis using Suc.prems by simp
  next
    case (Some r)
    then obtain sectors sz m t k1 where r: "r = (sectors, sz, m, t, k1)" by (cases r) auto
    have k1: "0 < k1" using scan_segment_count Some r Suc.prems by simp
    from Suc.prems(1) obtain again u a1 segs1 where
      st: "segment_turn name s a segs (sectors, sz, m, t, k1) = Inr (again, u, a1, segs1)" and
      rest: "(if again then layout_segments n name u k1 a1 segs1 else Inr (u, k1, segs1)) = Inr (s', k', segs')"
      by (auto simp: Some r rbind_eq_Inr)
    show ?thesis
      using segment_turn_shorter [OF st] rest k1 Suc.IH [of u k1 a1 segs1]
      by (auto split: if_splits)
  qed
qed

lemma layout_addresses_stops:
  "0 < k \<Longrightarrow> length s < n \<Longrightarrow> layout_addresses n name s k segs \<noteq> Inl (Undef OutOfFuel)"
proof (induction n arbitrary: s k segs)
  case 0
  then show ?case by simp
next
  case (Suc n)
  show ?case
  proof (cases "scan_address s k")
    case None
    then show ?thesis by simp
  next
    case (Some r)
    then obtain a k' where r: "scan_address s k = Some (a, k')" by (cases r) auto
    have k': "0 < k'" using scan_address_count [OF r] Suc.prems by simp
    show ?thesis
      unfolding layout_addresses.simps r option.case prod.case
    proof (intro rbind_no_fuel layout_segments_stops k' advance_no_fuel)
      fix s1 st
      assume s1: "advance k' s = Inr s1"
        and st: "layout_segments (Suc (length s1)) name s1 k' a segs = Inr st"
      obtain u k2 segs2 where e: "st = (u, k2, segs2)" by (cases st) auto
      have "length u \<le> length s1" "0 < k2" "length s1 < length s"
        using layout_segments_shorter [OF st [unfolded e] k'] k' advance_Inr [OF s1] by linarith+
      then show "(case st of (s, scanned, segs) \<Rightarrow> layout_addresses n name s scanned segs)
          \<noteq> Inl (Undef OutOfFuel)"
        using Suc by (simp add: e)
    qed simp
  qed
qed

lemma parse_memory_layout_stops: "parse_memory_layout s \<noteq> Inl (Undef OutOfFuel)"
  using layout_addresses_stops scan_name_count
  by (auto simp: parse_memory_layout_def rbind_eq_Inl simp del: layout_addresses.simps split: option.splits)

end
