(* ===== verification/DfuseLayout.thy ===== *)
theory DfuseLayout
  imports DfuseMem
begin

text \<open>
  What parse_memory_layout promises: on a layout string of the grammar of UM0424 it returns
  the segments the string describes, region by region and one behind the other; it stops on
  every string; and on a segment without a type identifier, which the code means to accept, it
  moves by a count that belongs to an earlier sscanf.
\<close>

subsection \<open>The grammar\<close>

record seg_syntax =
  sy_sectors :: string
  sy_size :: string
  sy_mult :: char
  sy_type :: char

type_synonym region_syntax = "string \<times> seg_syntax list"

definition factor :: "char \<Rightarrow> int" where
  "factor m = (if m = CHR ''K'' then 1024 else if m = CHR ''M'' then 1024 * 1024 else 1)"

definition sy_sector_count :: "seg_syntax \<Rightarrow> int" where
  "sy_sector_count x = int (digits_val 10 (sy_sectors x))"

definition sy_sector_size :: "seg_syntax \<Rightarrow> int" where
  "sy_sector_size x = int (digits_val 10 (sy_size x)) * factor (sy_mult x)"

definition digit_string :: "string \<Rightarrow> bool" where
  "digit_string ds = (ds \<noteq> [] \<and> list_all isdigit ds \<and> digits_val 10 ds \<le> 2147483647)"

definition valid_seg :: "seg_syntax \<Rightarrow> bool" where
  "valid_seg x =
     (digit_string (sy_sectors x) \<and> digit_string (sy_size x) \<and>
      sy_sector_size x \<le> 2147483647 \<and> sy_sector_count x * sy_sector_size x \<le> 2147483647 \<and>
      \<not> isdigit (sy_mult x) \<and> sy_type x \<noteq> CHR '','' \<and> sy_type x \<noteq> CHR ''/'')"

definition valid_hex :: "string \<Rightarrow> bool" where
  "valid_hex h = (h \<noteq> [] \<and> list_all isxdigit h \<and> digits_val 16 h < 4294967296)"

definition valid_region :: "region_syntax \<Rightarrow> bool" where
  "valid_region r = (valid_hex (fst r) \<and> snd r \<noteq> [] \<and> list_all valid_seg (snd r))"

definition render_seg :: "seg_syntax \<Rightarrow> string" where
  "render_seg x = sy_sectors x @ ''*'' @ sy_size x @ [sy_mult x, sy_type x]"

fun render_segs :: "seg_syntax list \<Rightarrow> string" where
  "render_segs [] = []"
| "render_segs [x] = render_seg x"
| "render_segs (x # xs) = render_seg x @ CHR '','' # render_segs xs"

definition render_region :: "region_syntax \<Rightarrow> string" where
  "render_region r = ''/0x'' @ fst r @ ''/'' @ render_segs (snd r)"

definition render_layout :: "string \<Rightarrow> region_syntax list \<Rightarrow> string" where
  "render_layout name rs = ''@'' @ name @ concat (map render_region rs)"

text \<open>
  The segments a layout means: each starts where the one before it ends, and its last address
  is one below that.  The last three bits of the type say what can be done with it; in the
  layout that STM32F4 devices call "Device Feature" every segment has the type e.
\<close>

definition named_type :: "string \<Rightarrow> char \<Rightarrow> char" where
  "named_type name ty = (if name = ''Device Feature'' then CHR ''e'' else ty)"

primrec region_segs :: "string \<Rightarrow> u32 \<Rightarrow> seg_syntax list \<Rightarrow> memsegment list" where
  "region_segs name a [] = []"
| "region_segs name a (x # xs) =
     (let next_start = a + word_of_int (sy_sector_count x * sy_sector_size x) in
      \<lparr> seg_start = a, seg_end = next_start - 1, pagesize = sy_sector_size x,
        memtype = of_char (named_type name (sy_type x)) mod 8 \<rparr> #
      region_segs name next_start xs)"

definition layout_segs :: "string \<Rightarrow> region_syntax list \<Rightarrow> memsegment list" where
  "layout_segs name rs = concat (map (\<lambda>(h, xs). region_segs name (of_nat (digits_val 16 h)) xs) rs)"

lemma make_segment_spec:
  "make_segment a n sz ty = \<lparr> seg_start = a, seg_end = a + word_of_int (n * sz) - 1, pagesize = sz,
     memtype = of_char ty mod 8 \<rparr>"
  using take_bit_eq_mask [of 3 "code ty"] by (simp add: make_segment_def code_def take_bit_eq_mod mask_numeral)

subsection \<open>The conversions on rendered text\<close>

lemma takeWhile_stop:
  "list_all P xs \<Longrightarrow> \<not> P c \<Longrightarrow> takeWhile P (xs @ c # ys) = xs"
  "list_all P xs \<Longrightarrow> \<not> P c \<Longrightarrow> dropWhile P (xs @ c # ys) = c # ys"
  by (induction xs) auto

lemma isdigit_sign: "isdigit c \<Longrightarrow> \<not> isspace c \<and> c \<noteq> CHR ''-'' \<and> c \<noteq> CHR ''+''"
  by (auto simp: isdigit_def isspace_def code_def)

lemma isxdigit_sign: "isxdigit c \<Longrightarrow> \<not> isspace c \<and> c \<noteq> CHR ''-'' \<and> c \<noteq> CHR ''+'' \<and> c \<noteq> CHR ''x'' \<and> c \<noteq> CHR ''X''"
  by (auto simp: isxdigit_def isdigit_def isspace_def code_def)

lemma scan_sign_none:
  "\<not> isspace c \<Longrightarrow> c \<noteq> CHR ''-'' \<Longrightarrow> c \<noteq> CHR ''+'' \<Longrightarrow> scan_sign (c # s) = (False, c # s)"
  by (simp add: scan_sign_def)

lemma to_int32_small: "- 2147483648 \<le> v \<Longrightarrow> v \<le> 2147483647 \<Longrightarrow> to_int32 v = v"
  by (simp add: to_int32_def signed_of_int signed_take_bit_int_eq_self)

lemma scan_d_digits:
  assumes "digit_string ds" and "\<not> isdigit c"
  shows "scan_d (ds @ c # r) = Some (int (digits_val 10 ds), c # r)"
proof -
  from assms obtain d ds' where d: "ds = d # ds'" "isdigit d" by (cases ds) (auto simp: digit_string_def)
  then have s: "scan_sign (ds @ c # r) = (False, ds @ c # r)"
    using isdigit_sign [of d] by (simp add: scan_sign_none)
  have tw: "takeWhile isdigit (ds @ c # r) = ds" "dropWhile isdigit (ds @ c # r) = c # r"
    using assms takeWhile_stop [of isdigit ds c r] by (simp_all add: digit_string_def)
  show ?thesis
    using assms(1) unfolding scan_d_def s prod.case Let_def tw
    by (simp add: digit_string_def to_int32_small)
qed

lemma scan_x_digits:
  assumes "valid_hex h" and "\<not> isxdigit c" and "c \<noteq> CHR ''x''" and "c \<noteq> CHR ''X''"
  shows "scan_x (h @ c # r) = Some (of_nat (digits_val 16 h), c # r)"
proof -
  from assms obtain d h' where d: "h = d # h'" "isxdigit d" "list_all isxdigit h'"
    by (cases h) (auto simp: valid_hex_def)
  then have s: "scan_sign (h @ c # r) = (False, h @ c # r)"
    using isxdigit_sign [of d] by (simp add: scan_sign_none)
  have p: "take 2 (h @ c # r) \<noteq> ''0x''" "take 2 (h @ c # r) \<noteq> ''0X''"
    using d assms(3,4) isxdigit_sign by (cases h'; auto simp: numeral_2_eq_2)+
  have tw: "takeWhile isxdigit (h @ c # r) = h" "dropWhile isxdigit (h @ c # r) = c # r"
    using assms takeWhile_stop [of isxdigit h c r] by (simp_all add: valid_hex_def)
  show ?thesis
    using assms(1) p unfolding scan_x_def s prod.case Let_def
    by (simp add: tw valid_hex_def)
qed

definition ends_segment :: "string \<Rightarrow> bool" where
  "ends_segment r = (r = [] \<or> hd r = CHR '','' \<or> hd r = CHR ''/'')"

lemma scan_segment_render:
  assumes "valid_seg x" and "ends_segment r"
  shows "scan_segment (render_seg x @ r) k =
    Some (sy_sector_count x, int (digits_val 10 (sy_size x)), sy_mult x, Some [sy_type x], length (render_seg x))"
proof -
  have a: "scan_d (sy_sectors x @ CHR ''*'' # sy_size x @ sy_mult x # sy_type x # r)
      = Some (sy_sector_count x, CHR ''*'' # sy_size x @ sy_mult x # sy_type x # r)"
    unfolding sy_sector_count_def
    using assms(1) by (intro scan_d_digits) (auto simp: valid_seg_def isdigit_def code_def)
  have b: "scan_d (sy_size x @ sy_mult x # sy_type x # r)
      = Some (int (digits_val 10 (sy_size x)), sy_mult x # sy_type x # r)"
    using assms(1) by (intro scan_d_digits) (auto simp: valid_seg_def)
  have c: "scan_until (\<lambda>c. c = CHR '','' \<or> c = CHR ''/'') (sy_type x # r) = Some ([sy_type x], r)"
    using assms by (cases r) (auto simp: scan_until_def valid_seg_def ends_segment_def)
  show ?thesis
    by (simp add: scan_segment_def render_seg_def a scan_lit_def b c)
qed

lemma apply_multiplier_factor:
  assumes "0 \<le> v" and "v * factor m \<le> 2147483647"
  shows "apply_multiplier m (Some t) v = Inr (v * factor m, Some t)"
  using assms by (auto simp: apply_multiplier_def factor_def int_ok_def)

lemma segment_turn_render:
  assumes v: "valid_seg x"
  shows "segment_turn name (render_seg x @ r) a segs
      (sy_sector_count x, int (digits_val 10 (sy_size x)), sy_mult x, Some [sy_type x], length (render_seg x))
    = Inr (take 1 r = '','', if take 1 r = '','' then drop 1 r else r,
        a + word_of_int (sy_sector_count x * sy_sector_size x),
        segs @ [make_segment a (sy_sector_count x) (sy_sector_size x) (named_type name (sy_type x))])"
proof -
  have m: "apply_multiplier (sy_mult x) (Some ty) (int (digits_val 10 (sy_size x)))
      = Inr (sy_sector_size x, Some ty)" for ty
    unfolding sy_sector_size_def
    using v by (intro apply_multiplier_factor) (auto simp: valid_seg_def sy_sector_size_def)
  have "0 \<le> sy_sector_count x" "0 \<le> sy_sector_size x"
    by (simp_all add: sy_sector_count_def sy_sector_size_def factor_def)
  then have "0 \<le> sy_sector_count x * sy_sector_size x" by simp
  then have i: "int_ok (sy_sector_count x * sy_sector_size x) = Inr (sy_sector_count x * sy_sector_size x)"
    using v by (simp add: int_ok_def valid_seg_def)
  have t: "segment_type (Some [sy_type x]) = Some (Some (sy_type x))"
    using v by (simp add: segment_type_def valid_seg_def)
  show ?thesis
    by (simp add: segment_turn_def advance_def t m i add_segment_append Let_def named_type_def)
qed

text \<open>A region, and then all of them.\<close>

definition ends_region :: "string \<Rightarrow> bool" where
  "ends_region r = (r = [] \<or> hd r = CHR ''/'')"

lemma layout_segments_render:
  "xs \<noteq> [] \<Longrightarrow> list_all valid_seg xs \<Longrightarrow> ends_region r \<Longrightarrow> length xs \<le> n \<Longrightarrow>
   \<exists>k'. layout_segments n name (render_segs xs @ r) k a segs = Inr (r, k', segs @ region_segs name a xs)"
proof (induction xs arbitrary: n k a segs)
  case Nil
  then show ?case by simp
next
  case (Cons x xs)
  then obtain n' where n': "n = Suc n'" by (cases n) auto
  have v: "valid_seg x" using Cons.prems by simp
  show ?case
  proof (cases xs)
    case Nil
    have "ends_segment r" "take 1 r \<noteq> '',''"
      using Cons.prems(3) by (cases r; auto simp: ends_region_def ends_segment_def)+
    then show ?thesis
      using scan_segment_render [OF v, of r k] segment_turn_render [OF v, of name r a segs]
      by (simp add: n' Nil make_segment_spec Let_def)
  next
    case (Cons y ys)
    define rest where "rest = CHR '','' # render_segs xs @ r"
    have e: "ends_segment rest" by (simp add: rest_def ends_segment_def)
    have "render_segs (x # xs) @ r = render_seg x @ rest" by (simp add: rest_def Cons)
    then show ?thesis
      using scan_segment_render [OF v e, of k] segment_turn_render [OF v, of name rest a segs]
        Cons.IH [of n' "length (render_seg x)"
          "a + word_of_int (sy_sector_count x * sy_sector_size x)"
          "segs @ [make_segment a (sy_sector_count x) (sy_sector_size x) (named_type name (sy_type x))]"] Cons.prems Cons
      by (simp add: n' rest_def make_segment_spec Let_def)
  qed
qed

lemma render_segs_length: "length xs \<le> length (render_segs xs)"
proof (induction xs rule: render_segs.induct)
  case (3 x y ys)
  then show ?case by (simp add: render_seg_def)
qed (simp_all add: render_seg_def)

lemma advance_region: "advance (length h + 4) (''/0x'' @ h @ CHR ''/'' # r) = Inr r"
proof -
  have "drop (length h + 4) ((''/0x'' @ h @ ''/'') @ r) = r"
    by (rule drop_whole_append) simp
  then show ?thesis by (simp add: advance_def)
qed

lemma layout_addresses_render:
  "list_all valid_region rs \<Longrightarrow> length rs < n \<Longrightarrow>
   layout_addresses n name (concat (map render_region rs)) k segs = Inr (segs @ layout_segs name rs)"
proof (induction rs arbitrary: n k segs)
  case Nil
  then show ?case by (cases n) (simp_all add: scan_address_def scan_lit_def layout_segs_def)
next
  case (Cons r rs)
  obtain h xs where r: "r = (h, xs)" by (cases r) auto
  obtain n' where n': "n = Suc n'" using Cons.prems by (cases n) auto
  define tl where "tl = concat (map render_region rs)"
  have tl: "ends_region tl"
    by (cases rs) (auto simp: tl_def ends_region_def render_region_def)
  have v: "valid_hex h" "xs \<noteq> []" "list_all valid_seg xs"
    using Cons.prems by (simp_all add: r valid_region_def)
  define s where "s = concat (map render_region (r # rs))"
  have s: "s = ''/0x'' @ h @ CHR ''/'' # render_segs xs @ tl"
    by (simp add: s_def tl_def r render_region_def)
  have x: "scan_x (h @ CHR ''/'' # render_segs xs @ tl)
      = Some (of_nat (digits_val 16 h), CHR ''/'' # render_segs xs @ tl)"
    using v by (intro scan_x_digits) (auto simp: isxdigit_def isdigit_def code_def)
  have a: "scan_address s k = Some (of_nat (digits_val 16 h), length h + 4)"
    unfolding scan_address_def by (simp add: s scan_lit_def x)
  have adv: "advance (length h + 4) s = Inr (render_segs xs @ tl)"
    unfolding s by (rule advance_region)
  obtain k' where seg: "layout_segments (Suc (length (render_segs xs @ tl))) name (render_segs xs @ tl)
      (length h + 4) (of_nat (digits_val 16 h)) segs
      = Inr (tl, k', segs @ region_segs name (of_nat (digits_val 16 h)) xs)"
    using layout_segments_render [OF v(2,3) tl, of "Suc (length (render_segs xs @ tl))"
        name "length h + 4" "of_nat (digits_val 16 h)" segs] render_segs_length [of xs] by auto
  have "layout_addresses n name s k segs = layout_addresses n' name tl k'
      (segs @ region_segs name (of_nat (digits_val 16 h)) xs)"
    unfolding n' layout_addresses.simps a option.case prod.case adv rbind_Inr seg ..
  also have "\<dots> = Inr (segs @ layout_segs name (r # rs))"
    using Cons by (simp add: tl_def n' layout_segs_def r)
  finally show ?case by (simp only: s_def)
qed

lemma regions_length: "length rs \<le> length (concat (map render_region rs))"
proof (induction rs)
  case (Cons r rs)
  then show ?case by (simp add: render_region_def)
qed simp

subsection \<open>Properties\<close>

text \<open>
  C21. On every layout string of the DfuSe grammar (a name, then regions of an address and
  comma-separated segments, each with its type) whose addresses fit 32 bits and whose
  numbers, page sizes and segment sizes fit an int, parse_memory_layout returns exactly the
  segments the string describes, in order, each starting where the one before it ends; under
  the name "Device Feature" they all get the type e.
\<close>
theorem parse_layout_correct:
  assumes "name \<noteq> []" and "list_all (\<lambda>c. c \<noteq> CHR ''/'') name"
    and "rs \<noteq> []" and "list_all valid_region rs"
  shows "parse_memory_layout (render_layout name rs) = Inr (layout_segs name rs)"
proof -
  obtain r rs' where rs: "rs = r # rs'" using assms(3) by (cases rs) auto
  define tl where "tl = concat (map render_region rs)"
  obtain t where t: "tl = CHR ''/'' # t" by (auto simp: tl_def rs render_region_def)
  have "list_all (\<lambda>c. \<not> (c = CHR ''/'')) name" using assms(2) by simp
  then have "scan_until (\<lambda>c. c = CHR ''/'') (name @ tl) = Some (name, tl)"
    using assms(1) takeWhile_stop(1) [of "\<lambda>c. \<not> (c = CHR ''/'')" name "CHR ''/''" t]
    by (simp add: scan_until_def t)
  then have nm: "scan_name (render_layout name rs) = Some (name, length name + 1)"
    by (simp add: scan_name_def render_layout_def scan_lit_def tl_def)
  have adv: "advance (length name + 1) (render_layout name rs) = Inr tl"
    by (simp add: advance_def render_layout_def tl_def)
  show ?thesis
    unfolding parse_memory_layout_def nm option.case prod.case adv rbind_Inr
    using layout_addresses_render [OF assms(4), of "Suc (length tl)" name "length name + 1" "[]"]
      regions_length [of rs] by (simp add: tl_def)
qed

text \<open>
  The loops of parse_memory_layout end on every string: the bounds on their turns are never
  what ends them.  (It need not return: see below.)
\<close>
theorem parse_layout_terminates: "parse_memory_layout s \<noteq> Inl (Undef OutOfFuel)"
  by (rule parse_memory_layout_stops)

text \<open>
  A layout whose only segment has no type identifier behind a multiplier that the code
  takes for one (a to g) makes the parser leave the string: its sscanf does not store the
  count, and the pointer moves by the count of the address before it.
\<close>
theorem missing_type_leaves_string:
  assumes "digit_string n1" and "digit_string n2" and "m \<in> set ''abcdefg''"
    and "length n1 + length n2 + 2 < length h + 4" and "valid_hex h"
    and "name \<noteq> []" and "list_all (\<lambda>c. c \<noteq> CHR ''/'') name"
  shows "parse_memory_layout (''@'' @ name @ ''/0x'' @ h @ ''/'' @ n1 @ ''*'' @ n2 @ [m]) = Inl (Undef OobRead)"
proof -
  define tl where "tl = n1 @ CHR ''*'' # n2 @ [m]"
  define s where "s = ''/0x'' @ h @ CHR ''/'' # tl"
  have "list_all (\<lambda>c. \<not> (c = CHR ''/'')) name" using assms(7) by simp
  then have "scan_until (\<lambda>c. c = CHR ''/'') (name @ s) = Some (name, s)"
    using assms(6) takeWhile_stop(1) [of "\<lambda>c. \<not> (c = CHR ''/'')" name "CHR ''/''"]
    by (simp add: scan_until_def s_def)
  then have nm: "scan_name (CHR ''@'' # name @ s) = Some (name, length name + 1)"
    by (simp add: scan_name_def scan_lit_def)
  have x: "scan_x (h @ CHR ''/'' # tl) = Some (of_nat (digits_val 16 h), CHR ''/'' # tl)"
    using assms(5) by (intro scan_x_digits) (auto simp: isxdigit_def isdigit_def code_def)
  have a: "scan_address s k = Some (of_nat (digits_val 16 h), length h + 4)" for k
    unfolding scan_address_def by (simp add: s_def scan_lit_def x)
  have m: "\<not> isdigit m" using assms(3) by (auto simp: isdigit_def code_def)
  have d1: "scan_d (n1 @ CHR ''*'' # n2 @ [m]) = Some (int (digits_val 10 n1), CHR ''*'' # n2 @ [m])"
    using assms(1) by (intro scan_d_digits) (auto simp: isdigit_def code_def)
  have d2: "scan_d (n2 @ [m]) = Some (int (digits_val 10 n2), [m])"
    using scan_d_digits [OF assms(2) m, of "[]"] by simp
  have g: "scan_segment tl k = Some (int (digits_val 10 n1), int (digits_val 10 n2), m, None, k)" for k
    by (simp add: scan_segment_def tl_def d1 scan_lit_def d2 scan_until_def)
  have adv: "advance (length h + 4) tl = Inl (Undef OobRead)"
    using assms(4) by (simp add: advance_def tl_def)
  have "segment_turn name tl a segs (u, v, m, None, length h + 4) = Inl (Undef OobRead)" for a segs u v
    by (simp add: segment_turn_def adv)
  then have "layout_addresses (Suc n) name s k [] = Inl (Undef OobRead)" for n k
    using advance_region [of h tl] by (simp add: a g s_def [symmetric] del: append.simps)
  moreover have "advance (length name + 1) (CHR ''@'' # name @ s) = Inr s"
    by (simp add: advance_def)
  ultimately have "parse_memory_layout (CHR ''@'' # name @ s) = Inl (Undef OobRead)"
    unfolding parse_memory_layout_def nm option.case prod.case by simp
  then show ?thesis by (simp add: s_def tl_def)
qed

subsection \<open>Witnesses\<close>

definition stm32_layout :: "region_syntax list" where
  "stm32_layout =
     [(''08000000'', [\<lparr> sy_sectors = ''04'', sy_size = ''016'', sy_mult = CHR ''K'', sy_type = CHR ''g'' \<rparr>,
                      \<lparr> sy_sectors = ''01'', sy_size = ''064'', sy_mult = CHR ''K'', sy_type = CHR ''g'' \<rparr>])]"

lemma stm32_rendered:
  "render_layout ''Internal Flash  '' stm32_layout = ''@Internal Flash  /0x08000000/04*016Kg,01*064Kg''"
  by (simp add: render_layout_def stm32_layout_def render_region_def render_seg_def)

theorem parse_layout_correct_witness:
  "parse_memory_layout ''@Internal Flash  /0x08000000/04*016Kg,01*064Kg'' =
     Inr [\<lparr> seg_start = 0x08000000, seg_end = 0x0800FFFF, pagesize = 0x4000, memtype = 7 \<rparr>,
          \<lparr> seg_start = 0x08010000, seg_end = 0x0801FFFF, pagesize = 0x10000, memtype = 7 \<rparr>]"
proof -
  have v: "list_all valid_region stm32_layout"
    by (simp add: stm32_layout_def valid_region_def valid_hex_def valid_seg_def digit_string_def
        isxdigit_def isdigit_def code_def digits_val_def digit_val_def sy_sector_size_def
        sy_sector_count_def factor_def)
  have l: "layout_segs ''Internal Flash  '' stm32_layout =
      [\<lparr> seg_start = 0x08000000, seg_end = 0x0800FFFF, pagesize = 0x4000, memtype = 7 \<rparr>,
       \<lparr> seg_start = 0x08010000, seg_end = 0x0801FFFF, pagesize = 0x10000, memtype = 7 \<rparr>]"
    by (simp add: stm32_layout_def layout_segs_def named_type_def Let_def isdigit_def code_def
        digits_val_def digit_val_def sy_sector_size_def sy_sector_count_def factor_def)
  show ?thesis
    using parse_layout_correct [OF _ _ _ v, of "''Internal Flash  ''"] stm32_rendered l
    by (simp add: stm32_layout_def)
qed

theorem missing_type_leaves_string_witness:
  "parse_memory_layout ''@Flash/0x08000000/04*016g'' = Inl (Undef OobRead)"
  using missing_type_leaves_string [of "''04''" "''016''" "CHR ''g''" "''08000000''" "''Flash''"]
  by (simp add: digit_string_def valid_hex_def isxdigit_def isdigit_def code_def digits_val_def digit_val_def)

end
