(* ===== verification/Dfu.thy ===== *)
theory Dfu
  imports DfuseMem
begin

unbundle bit_operations_syntax

text \<open>
  The DFU class requests (external/dfu-util/src/dfu.c), the interface record of dfu.h, and the
  quirks of particular devices (quirks.c).

  libusb and the device behind it are a parameter: the record \<open>usb\<close> holds what a control
  transfer, a sleep, a bus reset and the choice of an alternate setting do to the state \<open>'d\<close>
  of the device.  A transfer answers libusb's result (negative for an error) and, for a
  request to the host, the bytes received.
\<close>

record 'd usb =
  control :: "byte \<Rightarrow> byte \<Rightarrow> u16 \<Rightarrow> u16 \<Rightarrow> byte list \<Rightarrow> nat \<Rightarrow> 'd \<Rightarrow> int \<times> byte list \<times> 'd"
  milli_sleep :: "nat \<Rightarrow> 'd \<Rightarrow> 'd"
  reset_device :: "'d \<Rightarrow> int \<times> 'd"
  set_alt_setting :: "byte \<Rightarrow> byte \<Rightarrow> 'd \<Rightarrow> int \<times> 'd"

text \<open>An interface; the list of dfu_if structs chained by next is a list of these.\<close>

record dfu_if =
  quirks :: u16
  if_vendor :: u16
  if_product :: u16
  if_bcdDevice :: u16
  if_dev :: nat             \<comment> \<open>the libusb_device pointer\<close>
  configuration :: byte
  interface :: byte
  altsetting :: byte
  alt_name :: string
  serial_name :: "string option"
  mem_layout :: "memsegment list"

record dfu_status =
  bStatus :: byte
  bwPollTimeout :: nat
  bState :: byte
  iString :: byte

subsection \<open>States, status codes and requests\<close>

definition STATE_DFU_IDLE :: byte where "STATE_DFU_IDLE = 2"
definition STATE_DFU_DNBUSY :: byte where "STATE_DFU_DNBUSY = 4"
definition STATE_DFU_DNLOAD_IDLE :: byte where "STATE_DFU_DNLOAD_IDLE = 5"
definition STATE_DFU_MANIFEST_SYNC :: byte where "STATE_DFU_MANIFEST_SYNC = 6"
definition STATE_DFU_MANIFEST :: byte where "STATE_DFU_MANIFEST = 7"
definition STATE_DFU_MANIFEST_WAIT_RESET :: byte where "STATE_DFU_MANIFEST_WAIT_RESET = 8"
definition STATE_DFU_ERROR :: byte where "STATE_DFU_ERROR = 10"

definition DFU_STATUS_OK :: byte where "DFU_STATUS_OK = 0"
definition DFU_STATUS_ERROR_UNKNOWN :: byte where "DFU_STATUS_ERROR_UNKNOWN = 14"

definition DFU_DETACH :: byte where "DFU_DETACH = 0"
definition DFU_DNLOAD :: byte where "DFU_DNLOAD = 1"
definition DFU_UPLOAD :: byte where "DFU_UPLOAD = 2"
definition DFU_GETSTATUS :: byte where "DFU_GETSTATUS = 3"
definition DFU_CLRSTATUS :: byte where "DFU_CLRSTATUS = 4"
definition DFU_GETSTATE :: byte where "DFU_GETSTATE = 5"
definition DFU_ABORT :: byte where "DFU_ABORT = 6"

lemmas dfu_states = STATE_DFU_IDLE_def STATE_DFU_DNBUSY_def STATE_DFU_DNLOAD_IDLE_def
  STATE_DFU_MANIFEST_SYNC_def STATE_DFU_MANIFEST_def STATE_DFU_MANIFEST_WAIT_RESET_def
  STATE_DFU_ERROR_def DFU_STATUS_OK_def DFU_STATUS_ERROR_UNKNOWN_def

lemmas dfu_requests = DFU_DETACH_def DFU_DNLOAD_def DFU_UPLOAD_def DFU_GETSTATUS_def
  DFU_CLRSTATUS_def DFU_GETSTATE_def DFU_ABORT_def

text \<open>Class requests to the interface, towards the device and towards the host.\<close>

definition REQ_OUT :: byte where "REQ_OUT = 0x21"
definition REQ_IN :: byte where "REQ_IN = 0xa1"

subsection \<open>Quirks\<close>

definition QUIRK_POLLTIMEOUT :: u16 where "QUIRK_POLLTIMEOUT = 1"
definition QUIRK_FORCE_DFU11 :: u16 where "QUIRK_FORCE_DFU11 = 2"
definition QUIRK_UTF8_SERIAL :: u16 where "QUIRK_UTF8_SERIAL = 4"
definition QUIRK_DFUSE_LAYOUT :: u16 where "QUIRK_DFUSE_LAYOUT = 8"
definition QUIRK_DFUSE_LEAVE :: u16 where "QUIRK_DFUSE_LEAVE = 16"
definition DEFAULT_POLLTIMEOUT :: nat where "DEFAULT_POLLTIMEOUT = 5"

lemmas quirk_bits = QUIRK_POLLTIMEOUT_def QUIRK_FORCE_DFU11_def QUIRK_UTF8_SERIAL_def
  QUIRK_DFUSE_LAYOUT_def QUIRK_DFUSE_LEAVE_def

definition get_quirks :: "u16 \<Rightarrow> u16 \<Rightarrow> u16 \<Rightarrow> u16" where
  "get_quirks vendor product bcd =
     (let q = 0;
          q = (if (vendor = 0x1d50 \<or> vendor = 0x1457) \<and> product \<ge> 0x5117 \<and> product \<le> 0x5126
               then q OR QUIRK_POLLTIMEOUT else q);
          q = (if vendor = 0x16c0 \<and> (product = 0x076b \<or> product = 0x0762 \<or> product = 0x076c)
               then q OR QUIRK_POLLTIMEOUT else q);
          q = (if vendor = 0x1eaf \<and> product = 0x0003 \<and> bcd = 0x0200 then q OR QUIRK_FORCE_DFU11 else q);
          q = (if vendor = 0x0908 \<and> (product = 0x02c4 \<or> product = 0x02c5) \<and> bcd = 0
               then q OR QUIRK_POLLTIMEOUT else q);
          q = (if vendor = 0x0763 \<and> product = 0x2806 then q OR QUIRK_POLLTIMEOUT else q);
          q = (if vendor = 0x28e9 \<and> product = 0x0189
               then q OR QUIRK_UTF8_SERIAL OR QUIRK_DFUSE_LAYOUT OR QUIRK_DFUSE_LEAVE else q)
      in q)"

definition has_quirk :: "dfu_if \<Rightarrow> u16 \<Rightarrow> bool" where
  "has_quirk dif q = (quirks dif AND q \<noteq> 0)"

definition GD32VF103_FLASH_BASE :: u32 where "GD32VF103_FLASH_BASE = 0x08000000"

text \<open>Writes through the pointer find_segment returns change the first segment that matches.\<close>

primrec update_segment :: "memsegment list \<Rightarrow> u32 \<Rightarrow> (memsegment \<Rightarrow> memsegment) \<Rightarrow> memsegment list" where
  "update_segment [] address f = []"
| "update_segment (x # segs) address f =
     (if seg_start x \<le> address \<and> seg_end x \<ge> address then f x # segs
      else x # update_segment segs address f)"

definition gd32_page_count :: "char \<Rightarrow> int" where
  "gd32_page_count c =
     (if c = CHR ''B'' then 128 else if c = CHR ''8'' then 64
      else if c = CHR ''6'' then 32 else if c = CHR ''4'' then 16 else 128)"

definition fixup_dfuse_layout :: "dfu_if \<Rightarrow> memsegment list \<Rightarrow> memsegment list" where
  "fixup_dfuse_layout dif segs =
     (case serial_name dif of None \<Rightarrow> segs
      | Some serial \<Rightarrow>
        if if_vendor dif = 0x28e9 \<and> if_product dif = 0x0189 \<and> altsetting dif = 0 \<and>
           length serial = 4 \<and> serial ! 0 = CHR ''3'' \<and> serial ! 3 = CHR ''J''
        then (case find_segment segs GD32VF103_FLASH_BASE of None \<Rightarrow> segs
              | Some _ \<Rightarrow> update_segment segs GD32VF103_FLASH_BASE (\<lambda>seg.
                  seg \<lparr> pagesize := 1024,
                        seg_end := seg_start seg + word_of_int (gd32_page_count (serial ! 2) * 1024) - 1 \<rparr>))
        else segs)"

subsection \<open>Requests\<close>

text \<open>The macro milli_sleep does nothing for 0.\<close>

definition pause :: "'d usb \<Rightarrow> nat \<Rightarrow> 'd \<Rightarrow> 'd" where
  "pause U msec d = (if msec \<noteq> 0 then milli_sleep U msec d else d)"

definition dfu_detach :: "'d usb \<Rightarrow> u16 \<Rightarrow> u16 \<Rightarrow> 'd \<Rightarrow> int \<times> 'd" where
  "dfu_detach U iface timeout d =
     (case control U REQ_OUT DFU_DETACH timeout iface [] 0 d of (rc, _, d) \<Rightarrow> (rc, d))"

text \<open>The length is an unsigned short: a larger chunk is cut to its lower 16 bits.\<close>

definition dfu_download :: "'d usb \<Rightarrow> u16 \<Rightarrow> u16 \<Rightarrow> u16 \<Rightarrow> byte list \<Rightarrow> 'd \<Rightarrow> int \<times> 'd" where
  "dfu_download U iface len transaction data d =
     (case control U REQ_OUT DFU_DNLOAD transaction iface (take (unat len) data) (unat len) d of
        (rc, _, d) \<Rightarrow> (rc, d))"

definition dfu_upload :: "'d usb \<Rightarrow> u16 \<Rightarrow> u16 \<Rightarrow> u16 \<Rightarrow> 'd \<Rightarrow> int \<times> byte list \<times> 'd" where
  "dfu_upload U iface len transaction d =
     control U REQ_IN DFU_UPLOAD transaction iface [] (unat len) d"

definition dfu_get_status :: "'d usb \<Rightarrow> dfu_if \<Rightarrow> 'd \<Rightarrow> int \<times> dfu_status \<times> 'd" where
  "dfu_get_status U dif d =
     (case control U REQ_IN DFU_GETSTATUS 0 (ucast (interface dif)) [] 6 d of (result, buffer, d) \<Rightarrow>
      (result,
       if result = 6 then
         \<lparr> bStatus = buffer ! 0,
           bwPollTimeout =
             (if has_quirk dif QUIRK_POLLTIMEOUT then DEFAULT_POLLTIMEOUT
              else le_val [buffer ! 1, buffer ! 2, buffer ! 3]),
           bState = buffer ! 4, iString = buffer ! 5 \<rparr>
       else
         \<lparr> bStatus = DFU_STATUS_ERROR_UNKNOWN, bwPollTimeout = 0, bState = STATE_DFU_ERROR, iString = 0 \<rparr>,
       d))"

definition dfu_clear_status :: "'d usb \<Rightarrow> u16 \<Rightarrow> 'd \<Rightarrow> int \<times> 'd" where
  "dfu_clear_status U iface d =
     (case control U REQ_OUT DFU_CLRSTATUS 0 iface [] 0 d of (rc, _, d) \<Rightarrow> (rc, d))"

definition dfu_get_state :: "'d usb \<Rightarrow> u16 \<Rightarrow> 'd \<Rightarrow> int \<times> 'd" where
  "dfu_get_state U iface d =
     (case control U REQ_IN DFU_GETSTATE 0 iface [] 1 d of (result, buffer, d) \<Rightarrow>
      (if result < 1 then - 1 else int (unat (buffer ! 0)), d))"

definition dfu_abort :: "'d usb \<Rightarrow> u16 \<Rightarrow> 'd \<Rightarrow> int \<times> 'd" where
  "dfu_abort U iface d =
     (case control U REQ_OUT DFU_ABORT 0 iface [] 0 d of (rc, _, d) \<Rightarrow> (rc, d))"

definition dfu_abort_to_idle :: "'d usb \<Rightarrow> dfu_if \<Rightarrow> 'd \<Rightarrow> dfu_stop + (int \<times> 'd)" where
  "dfu_abort_to_idle U dif d =
     (case dfu_abort U (ucast (interface dif)) d of (ret, d) \<Rightarrow>
      if ret < 0 then Inl (Exit EX_IOERR)
      else
        (case dfu_get_status U dif d of (ret, dst, d) \<Rightarrow>
         if ret < 0 then Inl (Exit EX_IOERR)
         else if bState dst \<noteq> STATE_DFU_IDLE then Inl (Exit EX_IOERR)
         else Inr (ret, pause U (bwPollTimeout dst) d)))"

subsection \<open>Names\<close>

definition dfu_state_to_string :: "nat \<Rightarrow> string option" where
  "dfu_state_to_string state =
     (let names = [''appIDLE'', ''appDETACH'', ''dfuIDLE'', ''dfuDNLOAD-SYNC'', ''dfuDNBUSY'',
        ''dfuDNLOAD-IDLE'', ''dfuMANIFEST-SYNC'', ''dfuMANIFEST'', ''dfuMANIFEST-WAIT-RESET'',
        ''dfuUPLOAD-IDLE'', ''dfuERROR''] in
      if state \<le> 10 then Some (names ! state) else None)"

definition dfu_status_names :: "string list" where
  "dfu_status_names =
     [''No error condition is present'',
      ''File is not targeted for use by this device'',
      ''File is for this device but fails some vendor-specific test'',
      ''Device is unable to write memory'',
      ''Memory erase function failed'',
      ''Memory erase check failed'',
      ''Program memory function failed'',
      ''Programmed memory failed verification'',
      ''Cannot program memory due to received address that is out of range'',
      ''Received DFU_DNLOAD with wLength = 0, but device does not think that it has all data yet'',
      ''Device'' @ [CHR 0x27] @ ''s firmware is corrupt. It cannot return to run-time (non-DFU) operations'',
      ''iString indicates a vendor specific error'',
      ''Device detected unexpected USB reset signalling'',
      ''Device detected unexpected power on reset'',
      ''Something went wrong, but the device does not know what it was'',
      ''Device stalled an unexpected request'']"

definition dfu_status_to_string :: "nat \<Rightarrow> string" where
  "dfu_status_to_string status =
     (if status > 15 then ''INVALID'' else dfu_status_names ! status)"

lemma dfu_status_names_length: "length dfu_status_names = 16"
  by (simp add: dfu_status_names_def)

lemma find_segment_update:
  assumes "find_segment segs a = Some x" and "seg_start (f x) \<le> a" and "a \<le> seg_end (f x)"
  shows "find_segment (update_segment segs a f) a = Some (f x)"
  using assms(1) by (induction segs) (auto simp: assms split: if_splits)

end
