(* ===== verification/DfuLoad.thy ===== *)
theory DfuLoad
  imports Dfu
begin

unbundle bit_operations_syntax

text \<open>
  The transfers of the DFU 1.1 protocol (external/dfu-util/src/dfu_load.c): dfuload_do_upload
  reads blocks until a short one, dfuload_do_dnload sends the firmware in blocks, waits for the
  device after each, and ends with an empty block and the wait for manifestation.  The fuel
  bounds the turns of each loop; the loops that wait for the device have a bound of their own,
  as the code polls for ever.  Progress output and the allocation of the transfer buffer are
  not modelled.
\<close>

definition OFF_MAX :: int where "OFF_MAX = 9223372036854775807"

subsection \<open>Upload\<close>

text \<open>The result: what the function returns, the bytes written to the file, the device.\<close>

primrec upload_loop ::
    "nat \<Rightarrow> 'd usb \<Rightarrow> dfu_if \<Rightarrow> int \<Rightarrow> (byte list \<Rightarrow> nat \<Rightarrow> bool) \<Rightarrow> int \<Rightarrow> u16 \<Rightarrow> byte list \<Rightarrow> 'd
     \<Rightarrow> dfu_stop + (int \<times> byte list \<times> 'd)" where
  "upload_loop 0 U dif xfer_size full total_bytes transaction out d = Inl (Undef OutOfFuel)"
| "upload_loop (Suc n) U dif xfer_size full total_bytes transaction out d =
     (case dfu_upload U (ucast (interface dif)) (word_of_int xfer_size) transaction d of (rc, buf, d) \<Rightarrow>
      if rc < 0 then Inr (rc, out, d)
      else
        rbind (dfu_file_write_crc full out 0 buf 0 rc) (\<lambda>(_, out).
        let total_bytes = total_bytes + rc in
        if total_bytes > OFF_MAX then Inl (Exit EX_SOFTWARE)
        else if rc < xfer_size then Inr (0, out, d)
        else upload_loop n U dif xfer_size full total_bytes (transaction + 1) out d))"

definition dfuload_do_upload ::
    "nat \<Rightarrow> 'd usb \<Rightarrow> dfu_if \<Rightarrow> int \<Rightarrow> (byte list \<Rightarrow> nat \<Rightarrow> bool) \<Rightarrow> 'd
     \<Rightarrow> dfu_stop + (int \<times> byte list \<times> 'd)" where
  "dfuload_do_upload n U dif xfer_size full d =
     (if xfer_size < 0 then Inl (Exit EX_SOFTWARE)        \<comment> \<open>dfu_malloc\<close>
      else upload_loop n U dif xfer_size full 0 0 [] d)"

subsection \<open>Download\<close>

text \<open>The wait for the device behind a block: the last status.\<close>

primrec dnload_wait :: "nat \<Rightarrow> 'd usb \<Rightarrow> dfu_if \<Rightarrow> 'd \<Rightarrow> dfu_stop + (dfu_status \<times> 'd)" where
  "dnload_wait 0 U dif d = Inl (Undef OutOfFuel)"
| "dnload_wait (Suc n) U dif d =
     (case dfu_get_status U dif d of (ret, dst, d) \<Rightarrow>
      if ret < 0 then Inl (Exit EX_IOERR)
      else if bState dst = STATE_DFU_DNLOAD_IDLE \<or> bState dst = STATE_DFU_ERROR then Inr (dst, d)
      else dnload_wait n U dif (pause U (bwPollTimeout dst) d))"

definition dnload_chunk_size :: "int \<Rightarrow> int \<Rightarrow> int \<Rightarrow> int" where
  "dnload_chunk_size expected_size bytes_sent xfer_size =
     (if expected_size - bytes_sent < xfer_size then expected_size - bytes_sent else xfer_size)"

text \<open>
  The loop over the blocks.  \<open>Inl ret\<close> is the goto out with that result; \<open>Inr\<close> the number of
  the next block.
\<close>

primrec dnload_loop ::
    "nat \<Rightarrow> nat \<Rightarrow> 'd usb \<Rightarrow> dfu_if \<Rightarrow> int \<Rightarrow> dfu_file \<Rightarrow> nat \<Rightarrow> u16 \<Rightarrow> 'd
     \<Rightarrow> dfu_stop + ((int + u16) \<times> 'd)" where
  "dnload_loop 0 polls U dif xfer_size file bytes_sent transaction d =
     (if int bytes_sent < int (total file) - int (suffix_size file) then Inl (Undef OutOfFuel)
      else Inr (Inr transaction, d))"
| "dnload_loop (Suc n) polls U dif xfer_size file bytes_sent transaction d =
     (let expected_size = int (total file) - int (suffix_size file) in
      if int bytes_sent < expected_size then
        (let chunk_size = dnload_chunk_size expected_size (int bytes_sent) xfer_size;
             len = (word_of_int chunk_size :: u16) in
         rbind (lift_mem (mread bytes_sent (unat len) (firmware file))) (\<lambda>data.
         case dfu_download U (ucast (interface dif)) len transaction data d of (ret, d) \<Rightarrow>
         if ret < 0 then Inr (Inl ret, d)
         else
           rbind (dnload_wait polls U dif d) (\<lambda>(dst, d).
           if bStatus dst \<noteq> DFU_STATUS_OK then Inr (Inl (- 1), d)
           else dnload_loop n polls U dif xfer_size file (nat (int bytes_sent + chunk_size))
                  (transaction + 1) d)))
      else Inr (Inr transaction, d))"

text \<open>The wait for manifestation, from the label get_status on.\<close>

primrec manifest_wait :: "nat \<Rightarrow> 'd usb \<Rightarrow> dfu_if \<Rightarrow> 'd \<Rightarrow> dfu_stop + (int \<times> 'd)" where
  "manifest_wait 0 U dif d = Inl (Undef OutOfFuel)"
| "manifest_wait (Suc n) U dif d =
     (case dfu_get_status U dif d of (ret, dst, d) \<Rightarrow>
      if ret < 0 then Inr (ret, d)
      else
        (let d = pause U (bwPollTimeout dst) d in
         if bState dst = STATE_DFU_MANIFEST_SYNC \<or> bState dst = STATE_DFU_MANIFEST
         then manifest_wait n U dif (pause U 1000 d)
         else if bState dst = STATE_DFU_MANIFEST_WAIT_RESET then Inr (reset_device U d)
         else Inr (ret, d)))"

definition dfuload_do_dnload ::
    "nat \<Rightarrow> nat \<Rightarrow> 'd usb \<Rightarrow> dfu_if \<Rightarrow> int \<Rightarrow> dfu_file \<Rightarrow> 'd \<Rightarrow> dfu_stop + (int \<times> 'd)" where
  "dfuload_do_dnload n polls U dif xfer_size file d =
     rbind (dnload_loop n polls U dif xfer_size file 0 0 d) (\<lambda>(r, d).
     case r of Inl ret \<Rightarrow> Inr (ret, d)
     | Inr transaction \<Rightarrow>
       (case dfu_download U (ucast (interface dif)) 0 transaction [] d of (ret, d) \<Rightarrow>
        if ret < 0 then Inl (Exit EX_IOERR) else manifest_wait polls U dif d))"

subsection \<open>What the protocol promises of the device\<close>

text \<open>
  A DFU 1.1 device that is downloaded to.  It takes a block whose number is the count of the
  blocks before it, then answers GETSTATUS with a busy state at most \<open>busy d\<close> times while it
  sleeps, then with dfuDNLOAD-IDLE and OK.  The empty block starts manifestation, which is as
  long at most.  \<open>image\<close> is what it has been sent.
\<close>

record 'd dnload_view =
  ready :: "'d \<Rightarrow> bool"
  writing :: "'d \<Rightarrow> bool"
  manifesting :: "'d \<Rightarrow> bool"
  image :: "'d \<Rightarrow> byte list"
  blocks :: "'d \<Rightarrow> nat"
  busy :: "'d \<Rightarrow> nat"

definition takes_blocks :: "'d usb \<Rightarrow> dfu_if \<Rightarrow> 'd dnload_view \<Rightarrow> bool" where
  "takes_blocks U dif V \<longleftrightarrow>
     (\<forall>d data. ready V d \<longrightarrow> data \<noteq> [] \<longrightarrow> length data \<le> 65535 \<longrightarrow>
        (case control U REQ_OUT DFU_DNLOAD (of_nat (blocks V d)) (ucast (interface dif)) data (length data) d of
           (rc, _, d') \<Rightarrow> 0 \<le> rc \<and> writing V d' \<and> image V d' = image V d @ data \<and>
             blocks V d' = blocks V d + 1))"

definition reports_written :: "'d usb \<Rightarrow> dfu_if \<Rightarrow> 'd dnload_view \<Rightarrow> bool" where
  "reports_written U dif V \<longleftrightarrow>
     (\<forall>d. writing V d \<longrightarrow>
        (case dfu_get_status U dif d of (rc, dst, d') \<Rightarrow> 0 \<le> rc \<and>
           (if busy V d = 0
            then bState dst = STATE_DFU_DNLOAD_IDLE \<and> bStatus dst = DFU_STATUS_OK \<and> ready V d' \<and>
              image V d' = image V d \<and> blocks V d' = blocks V d
            else bState dst \<noteq> STATE_DFU_DNLOAD_IDLE \<and> bState dst \<noteq> STATE_DFU_ERROR \<and>
              (let d'' = pause U (bwPollTimeout dst) d' in
               writing V d'' \<and> busy V d'' < busy V d \<and> image V d'' = image V d \<and>
               blocks V d'' = blocks V d))))"

definition manifests :: "'d usb \<Rightarrow> dfu_if \<Rightarrow> 'd dnload_view \<Rightarrow> bool" where
  "manifests U dif V \<longleftrightarrow>
     (\<forall>d. ready V d \<longrightarrow>
        (case control U REQ_OUT DFU_DNLOAD (of_nat (blocks V d)) (ucast (interface dif)) [] 0 d of
           (rc, _, d') \<Rightarrow> 0 \<le> rc \<and> manifesting V d' \<and> image V d' = image V d)) \<and>
     (\<forall>d. manifesting V d \<longrightarrow>
        (case dfu_get_status U dif d of (rc, dst, d') \<Rightarrow> 0 \<le> rc \<and>
           (let d'' = pause U (bwPollTimeout dst) d' in
            if busy V d = 0
            then bState dst = STATE_DFU_IDLE \<and> image V d'' = image V d
            else (bState dst = STATE_DFU_MANIFEST_SYNC \<or> bState dst = STATE_DFU_MANIFEST) \<and>
              (let d3 = pause U 1000 d'' in
               manifesting V d3 \<and> busy V d3 < busy V d \<and> image V d3 = image V d))))"

lemma dnload_wait_written:
  assumes "reports_written U dif V"
  shows "writing V d \<Longrightarrow> busy V d < n \<Longrightarrow>
    \<exists>dst d'. dnload_wait n U dif d = Inr (dst, d') \<and> bStatus dst = DFU_STATUS_OK \<and> ready V d' \<and>
      image V d' = image V d \<and> blocks V d' = blocks V d"
proof (induction n arbitrary: d)
  case 0
  then show ?case by simp
next
  case (Suc n)
  obtain rc dst d1 where g: "dfu_get_status U dif d = (rc, dst, d1)" by (cases "dfu_get_status U dif d")
  from assms [unfolded reports_written_def, rule_format, OF Suc.prems(1)] have *: "0 \<le> rc \<and> (if busy V d = 0
            then bState dst = STATE_DFU_DNLOAD_IDLE \<and> bStatus dst = DFU_STATUS_OK \<and> ready V d1 \<and>
              image V d1 = image V d \<and> blocks V d1 = blocks V d
            else bState dst \<noteq> STATE_DFU_DNLOAD_IDLE \<and> bState dst \<noteq> STATE_DFU_ERROR \<and>
              (let d'' = pause U (bwPollTimeout dst) d1 in
               writing V d'' \<and> busy V d'' < busy V d \<and> image V d'' = image V d \<and>
               blocks V d'' = blocks V d))"
    unfolding g prod.case .
  show ?case
  proof (cases "busy V d = 0")
    case True
    with * g show ?thesis by simp
  next
    case False
    define d2 where "d2 = pause U (bwPollTimeout dst) d1"
    from * False have st: "\<not> rc < 0" "bState dst \<noteq> STATE_DFU_DNLOAD_IDLE" "bState dst \<noteq> STATE_DFU_ERROR"
      and d2: "writing V d2" "busy V d2 < busy V d" "image V d2 = image V d" "blocks V d2 = blocks V d"
      by (simp_all add: d2_def Let_def)
    have "dnload_wait (Suc n) U dif d = dnload_wait n U dif d2"
      using st by (simp add: g d2_def)
    then show ?thesis using Suc.IH [OF d2(1)] d2 Suc.prems(2) by simp
  qed
qed

lemma unat_word_of_int_u16: "k \<le> 65535 \<Longrightarrow> unat (word_of_int (int k) :: u16) = k"
  by (simp add: unat_of_nat)

lemma dnload_loop_sends:
  assumes "takes_blocks U dif V" and "reports_written U dif V" and "\<forall>d. busy V d < polls"
    and "total file - suffix_size file \<le> length (firmware file)"
    and "suffix_size file \<le> total file" and "0 < xfer" and "xfer \<le> 65535"
  shows "ready V d \<Longrightarrow> sent \<le> total file - suffix_size file \<Longrightarrow>
    total file - suffix_size file - sent \<le> n \<Longrightarrow>
    \<exists>d'. dnload_loop n polls U dif (int xfer) file sent (of_nat (blocks V d)) d
        = Inr (Inr (of_nat (blocks V d')), d') \<and> ready V d' \<and>
      image V d' = image V d @ take (total file - suffix_size file - sent) (drop sent (firmware file))"
proof (induction n arbitrary: d sent)
  case 0
  then have "\<not> int sent < int (total file) - int (suffix_size file)" by linarith
  with 0 show ?case by auto
next
  case (Suc n)
  define E where "E = total file - suffix_size file"
  have E: "int (total file) - int (suffix_size file) = int E" using assms(5) by (simp add: E_def)
  show ?case
  proof (cases "sent < E")
    case False
    then have "dnload_loop (Suc n) polls U dif (int xfer) file sent (of_nat (blocks V d)) d
        = Inr (Inr (of_nat (blocks V d)), d)"
      unfolding dnload_loop.simps E Let_def by simp
    then show ?thesis using Suc.prems(1) False unfolding E_def [symmetric] by auto
  next
    case True
    define k where "k = min (E - sent) xfer"
    define data where "data = take k (drop sent (firmware file))"
    have k: "0 < k" "sent + k \<le> E" "k \<le> 65535" using True assms(6,7) by (auto simp: k_def)
    have lf: "E \<le> length (firmware file)" using assms(4) by (simp add: E_def)
    have ck: "dnload_chunk_size (int E) (int sent) (int xfer) = int k"
      using True by (auto simp: dnload_chunk_size_def k_def)
    have rd: "mread sent k (firmware file) = Inr data"
      using k lf by (simp add: mread_def data_def)
    have ld: "length data = k" using k lf by (simp add: data_def)
    obtain rc buf d1 where c: "control U REQ_OUT DFU_DNLOAD (of_nat (blocks V d)) (ucast (interface dif)) data k d
        = (rc, buf, d1)" by (cases "control U REQ_OUT DFU_DNLOAD (of_nat (blocks V d)) (ucast (interface dif)) data k d")
    have ne: "data \<noteq> []" "length data \<le> 65535" using ld k by auto
    from assms(1) [unfolded takes_blocks_def, rule_format, OF Suc.prems(1) ne]
    have d1: "0 \<le> rc" "writing V d1" "image V d1 = image V d @ data" "blocks V d1 = blocks V d + 1"
      using c by (simp_all add: ld)
    have dl: "dfu_download U (ucast (interface dif)) (word_of_int (int k)) (of_nat (blocks V d)) data d = (rc, d1)"
      unfolding dfu_download_def unat_word_of_int_u16 [OF k(3)] using c by (simp add: ld)
    obtain dst d2 where w: "dnload_wait polls U dif d1 = Inr (dst, d2)" "bStatus dst = DFU_STATUS_OK"
      and d2: "ready V d2" "image V d2 = image V d1" "blocks V d2 = blocks V d1"
      using dnload_wait_written [OF assms(2) d1(2), of polls] assms(3) by blast
    have nx: "nat (int sent + int k) = sent + k" by simp
    have tr: "of_nat (blocks V d) + 1 = (of_nat (blocks V d2) :: u16)" using d1 d2 by simp
    have step: "dnload_loop (Suc n) polls U dif (int xfer) file sent (of_nat (blocks V d)) d
        = dnload_loop n polls U dif (int xfer) file (sent + k) (of_nat (blocks V d2)) d2"
      unfolding dnload_loop.simps E Let_def ck unat_word_of_int_u16 [OF k(3)] rd nx tr
      using True d1(1) w by (simp add: dl [simplified])
    have "image V d @ data @ take (E - (sent + k)) (drop (sent + k) (firmware file))
        = image V d @ take (E - sent) (drop sent (firmware file))"
      using k by (simp add: data_def take_add [symmetric] add.commute [of sent k] flip: drop_drop)
    then show ?thesis
      using Suc.IH [OF d2(1), of "sent + k"] Suc.prems k d1 d2 unfolding step E_def [symmetric] by auto
  qed
qed

lemma manifest_wait_ends:
  assumes "manifests U dif V"
  shows "manifesting V d \<Longrightarrow> busy V d < n \<Longrightarrow>
    \<exists>ret d'. manifest_wait n U dif d = Inr (ret, d') \<and> 0 \<le> ret \<and> image V d' = image V d"
proof (induction n arbitrary: d)
  case 0
  then show ?case by simp
next
  case (Suc n)
  obtain rc dst d1 where g: "dfu_get_status U dif d = (rc, dst, d1)" by (cases "dfu_get_status U dif d")
  define d2 where "d2 = pause U (bwPollTimeout dst) d1"
  from assms [unfolded manifests_def, THEN conjunct2, rule_format, OF Suc.prems(1)]
  have *: "0 \<le> rc \<and> (if busy V d = 0
            then bState dst = STATE_DFU_IDLE \<and> image V d2 = image V d
            else (bState dst = STATE_DFU_MANIFEST_SYNC \<or> bState dst = STATE_DFU_MANIFEST) \<and>
              (let d3 = pause U 1000 d2 in
               manifesting V d3 \<and> busy V d3 < busy V d \<and> image V d3 = image V d))"
    unfolding g prod.case Let_def d2_def .
  show ?case
  proof (cases "busy V d = 0")
    case True
    with * have "\<not> rc < 0" "bState dst = STATE_DFU_IDLE" "image V d2 = image V d" by simp_all
    then show ?thesis using * by (auto simp: g d2_def [symmetric] Let_def dfu_states)
  next
    case False
    define d3 where "d3 = pause U 1000 d2"
    from * False have st: "\<not> rc < 0" "bState dst = STATE_DFU_MANIFEST_SYNC \<or> bState dst = STATE_DFU_MANIFEST"
      and d3: "manifesting V d3" "busy V d3 < busy V d" "image V d3 = image V d"
      by (simp_all add: d3_def Let_def)
    have "manifest_wait (Suc n) U dif d = manifest_wait n U dif d3"
      using st by (simp add: g d3_def d2_def Let_def)
    then show ?thesis using Suc.IH [OF d3(1)] d3 Suc.prems(2) by simp
  qed
qed

subsection \<open>Properties\<close>

text \<open>
  Downloading to a device that follows the DFU protocol returns without an error, for every
  block size of 1 to 65535 bytes, and the device has then been sent the file from its first
  byte to the beginning of the suffix, in order and nothing else.
\<close>
lemma dnload_sends_firmware:
  assumes "takes_blocks U dif V" and "reports_written U dif V" and "manifests U dif V"
    and "\<forall>d. busy V d < polls"
    and "suffix_size file \<le> total file" and "total file \<le> length (firmware file)"
    and "0 < xfer" and "xfer \<le> 65535" and "total file \<le> n"
    and "ready V d" and "blocks V d = 0"
  shows "\<exists>ret d'. dfuload_do_dnload n polls U dif (int xfer) file d = Inr (ret, d') \<and> 0 \<le> ret \<and>
    image V d' = image V d @ take (total file - suffix_size file) (firmware file)"
proof -
  have "total file - suffix_size file \<le> length (firmware file)" "total file - suffix_size file \<le> n"
    using assms(6,9) by simp_all
  then obtain d1 where d1: "dnload_loop n polls U dif (int xfer) file 0 (of_nat (blocks V d)) d
        = Inr (Inr (of_nat (blocks V d1)), d1)" "ready V d1"
      "image V d1 = image V d @ take (total file - suffix_size file) (firmware file)"
    using dnload_loop_sends [OF assms(1,2,4) _ assms(5,7,8,10), of 0 n] by auto
  obtain rc buf d2 where c: "control U REQ_OUT DFU_DNLOAD (of_nat (blocks V d1)) (ucast (interface dif)) [] 0 d1
      = (rc, buf, d2)" by (cases "control U REQ_OUT DFU_DNLOAD (of_nat (blocks V d1)) (ucast (interface dif)) [] 0 d1")
  from assms(3) [unfolded manifests_def, THEN conjunct1, rule_format, OF d1(2)]
  have d2: "0 \<le> rc" "manifesting V d2" "image V d2 = image V d1" by (simp_all add: c)
  obtain ret d3 where "manifest_wait polls U dif d2 = Inr (ret, d3)" "0 \<le> ret" "image V d3 = image V d2"
    using manifest_wait_ends [OF assms(3) d2(2), of polls] assms(4) by blast
  then show ?thesis
    using d1 d2 c assms(11) by (simp add: dfuload_do_dnload_def dfu_download_def)
qed

text \<open>A device that is uploaded from: \<open>rest\<close> is what it still has to send.\<close>

definition sends_blocks :: "'d usb \<Rightarrow> dfu_if \<Rightarrow> ('d \<Rightarrow> byte list) \<Rightarrow> bool" where
  "sends_blocks U dif left \<longleftrightarrow>
     (\<forall>d t k. case control U REQ_IN DFU_UPLOAD t (ucast (interface dif)) [] k d of (rc, buf, d') \<Rightarrow>
        rc = int (length buf) \<and> buf = take k (left d) \<and> left d' = drop k (left d))"

lemma upload_loop_reads:
  assumes "sends_blocks U dif left" and "0 < xfer" and "xfer \<le> 65535"
  shows "length (left d) < n \<Longrightarrow> total_bytes + int (length (left d)) \<le> OFF_MAX \<Longrightarrow>
    \<exists>d'. upload_loop n U dif (int xfer) (\<lambda>_ _. True) total_bytes t out d = Inr (0, out @ left d, d')"
proof (induction n arbitrary: d total_bytes t out)
  case 0
  then show ?case by simp
next
  case (Suc n)
  obtain rc buf d1 where c: "control U REQ_IN DFU_UPLOAD t (ucast (interface dif)) [] xfer d = (rc, buf, d1)"
    by (cases "control U REQ_IN DFU_UPLOAD t (ucast (interface dif)) [] xfer d")
  have *: "rc = int (length buf)" "buf = take xfer (left d)" "left d1 = drop xfer (left d)"
    using assms(1) [unfolded sends_blocks_def, rule_format, where t = t and k = xfer and d = d] by (simp_all add: c)
  have u: "dfu_upload U (ucast (interface dif)) (word_of_int (int xfer)) t d = (rc, buf, d1)"
    unfolding dfu_upload_def unat_word_of_int_u16 [OF assms(3)] by (rule c)
  have "length buf \<le> xfer" using * by simp
  then have w: "dfu_file_write_crc (\<lambda>_ _. True) out 0 buf 0 rc = Inr (crc32 0 buf, out @ buf)"
    using assms(3) *(1) by (simp add: dfu_file_write_crc_def mread_def INT_MAX_def)
  have m: "\<not> total_bytes + rc > OFF_MAX" using Suc.prems * by simp
  show ?case
  proof (cases "rc < int xfer")
    case True
    then have "buf = left d" using * by simp
    then show ?thesis using True u w m * by simp
  next
    case False
    then have "length (left d1) < n" "total_bytes + rc + int (length (left d1)) \<le> OFF_MAX"
      using * Suc.prems assms(2) by auto
    then show ?thesis
      using Suc.IH [of d1 "total_bytes + rc" "t + 1" "out @ buf"] False u w m * by (simp add: Let_def)
  qed
qed

text \<open>
  C22. Uploading from a device that sends its content in blocks returns 0, and the file holds
  exactly that content, for every block size of 1 to 65535 bytes.
\<close>
theorem upload_reads_device:
  assumes "sends_blocks U dif left" and "0 < xfer" and "xfer \<le> 65535"
    and "length (left d) < n" and "int (length (left d)) \<le> OFF_MAX"
  shows "\<exists>d'. dfuload_do_upload n U dif (int xfer) (\<lambda>_ _. True) d = Inr (0, left d, d')"
  using upload_loop_reads [OF assms(1-4), of 0 0 "[]"] assms(5) by (simp add: dfuload_do_upload_def)

subsection \<open>Witnesses\<close>

text \<open>A device with a download area and a content to upload; it is busy twice behind a block.\<close>

record demo_dev =
  dv_state :: byte
  dv_image :: "byte list"
  dv_blocks :: nat
  dv_busy :: nat
  dv_left :: "byte list"

definition demo_control ::
    "byte \<Rightarrow> byte \<Rightarrow> u16 \<Rightarrow> u16 \<Rightarrow> byte list \<Rightarrow> nat \<Rightarrow> demo_dev \<Rightarrow> int \<times> byte list \<times> demo_dev" where
  "demo_control ty req v ix data len d =
     (if req = DFU_DNLOAD \<and> data \<noteq> [] then
        (int len, [], d \<lparr> dv_state := STATE_DFU_DNBUSY, dv_image := dv_image d @ data,
                       dv_blocks := dv_blocks d + 1, dv_busy := 2 \<rparr>)
      else if req = DFU_DNLOAD then
        (0, [], d \<lparr> dv_state := STATE_DFU_MANIFEST, dv_busy := 2 \<rparr>)
      else if req = DFU_GETSTATUS \<and> dv_busy d = 0 then
        (let s = (if dv_state d = STATE_DFU_MANIFEST \<or> dv_state d = STATE_DFU_IDLE then STATE_DFU_IDLE
                  else STATE_DFU_DNLOAD_IDLE) in
         (6, [0, 0, 0, 0, s, 0], d \<lparr> dv_state := s \<rparr>))
      else if req = DFU_GETSTATUS then
        (6, [0, 1, 0, 0, dv_state d, 0], d \<lparr> dv_busy := dv_busy d - 1 \<rparr>)
      else if req = DFU_UPLOAD then
        (int (length (take len (dv_left d))), take len (dv_left d), d \<lparr> dv_left := drop len (dv_left d) \<rparr>)
      else (0, [], d))"

definition demo_usb :: "demo_dev usb" where
  "demo_usb = \<lparr> control = demo_control, milli_sleep = (\<lambda>_ d. d), reset_device = (\<lambda>d. (0, d)),
     set_alt_setting = (\<lambda>_ _ d. (0, d)) \<rparr>"

definition demo_if :: dfu_if where
  "demo_if = \<lparr> quirks = 0, if_vendor = 0x0483, if_product = 0xdf11, if_bcdDevice = 0x2200, if_dev = 1,
     configuration = 1, interface = 0, altsetting = 0, alt_name = ''@Internal Flash  /0x08000000/04*016Kg'',
     serial_name = None, mem_layout = [] \<rparr>"

definition demo_view :: "demo_dev dnload_view" where
  "demo_view = \<lparr> ready = (\<lambda>d. dv_state d = STATE_DFU_IDLE \<or> dv_state d = STATE_DFU_DNLOAD_IDLE),
     writing = (\<lambda>d. dv_state d = STATE_DFU_DNBUSY \<and> dv_busy d \<le> 2),
     manifesting = (\<lambda>d. dv_state d = STATE_DFU_MANIFEST \<and> dv_busy d \<le> 2),
     image = dv_image, blocks = dv_blocks, busy = (\<lambda>d. min (dv_busy d) 2) \<rparr>"

definition demo_start :: demo_dev where
  "demo_start = \<lparr> dv_state = STATE_DFU_IDLE, dv_image = [], dv_blocks = 0, dv_busy = 0, dv_left = [9, 8, 7] \<rparr>"

lemma demo_takes_blocks: "takes_blocks demo_usb dif demo_view"
  by (simp add: takes_blocks_def demo_usb_def demo_view_def demo_control_def dfu_requests)

lemma demo_reports_written: "reports_written demo_usb dif demo_view"
  by (auto simp: reports_written_def demo_usb_def demo_view_def demo_control_def dfu_requests
      dfu_get_status_def dfu_states pause_def Let_def)

lemma demo_manifests: "manifests demo_usb dif demo_view"
  by (auto simp: manifests_def demo_usb_def demo_view_def demo_control_def dfu_requests
      dfu_get_status_def dfu_states pause_def Let_def)

theorem upload_reads_device_witness:
  "\<exists>d'. dfuload_do_upload 10 demo_usb demo_if (int 2) (\<lambda>_ _. True) demo_start = Inr (0, [9, 8, 7], d')"
proof -
  have "sends_blocks demo_usb demo_if dv_left"
    by (simp add: sends_blocks_def demo_usb_def demo_control_def dfu_requests)
  then show ?thesis
    using upload_reads_device [of demo_usb demo_if dv_left 2 demo_start 10]
    by (simp add: demo_start_def OFF_MAX_def)
qed

end
