(* ===== verification/Dfuse.thy ===== *)
theory Dfuse
  imports Dfu
begin

unbundle bit_operations_syntax

text \<open>
  The DfuSe extension of STMicroelectronics (external/dfu-util/src/dfuse.c): the options of the
  command line, the special commands, the download of an element with its page erases, raw
  and DfuSe files, and the upload.  The static variables of the file are the record
  \<open>dfuse_st\<close>.  One fuel bounds the turns of every loop that the code does not bound itself.
\<close>

record dfuse_st =
  last_erased_page :: u32
  dfuse_address :: u32
  dfuse_address_present :: bool
  dfuse_length :: u32
  dfuse_force :: nat
  dfuse_leave :: bool
  dfuse_unprotect :: bool
  dfuse_mass_erase :: bool
  dfuse_will_reset :: bool

definition dfuse_init :: dfuse_st where
  "dfuse_init = \<lparr> last_erased_page = 1, dfuse_address = 0, dfuse_address_present = False,
     dfuse_length = 0, dfuse_force = 0, dfuse_leave = False, dfuse_unprotect = False,
     dfuse_mass_erase = False, dfuse_will_reset = False \<rparr>"

datatype dfuse_command = SET_ADDRESS | ERASE_PAGE | MASS_ERASE | READ_UNPROTECT

definition quad2uint :: "byte list \<Rightarrow> u32" where
  "quad2uint p = rd32 [p ! 0, p ! 1, p ! 2, p ! 3]"

subsection \<open>Options\<close>

text \<open>strtoul with base 0: the number and the text behind it, which is all of it when there is none.\<close>

definition strtoul0 :: "string \<Rightarrow> u32 \<times> string" where
  "strtoul0 s =
     (case scan_sign s of (neg, t) \<Rightarrow>
      let hex = (take 2 t = ''0x'' \<or> take 2 t = ''0X'') \<and> length t > 2 \<and> isxdigit (t ! 2);
          base = (if hex then 16 else if take 1 t = ''0'' then 8 else 10 :: nat);
          isdig = (if hex then isxdigit else (\<lambda>c. isdigit c \<and> digit_val c < base));
          t = (if hex then drop 2 t else t);
          ds = takeWhile isdig t; v = digits_val base ds in
      if ds = [] then (0, s)
      else (if v > 18446744073709551615 then - 1 else if neg then - of_nat v else of_nat v,
            dropWhile isdig t))"

definition option_word :: "string \<Rightarrow> string" where
  "option_word s = takeWhile (\<lambda>c. c \<noteq> CHR '':'') s"

text \<open>
  strncmp with the length of the word: true for every beginning of the keyword.  The pointer
  then moves by the length of the keyword.
\<close>

definition keyword :: "string \<Rightarrow> string \<Rightarrow> bool" where
  "keyword s k = (take (length (option_word s)) k = option_word s)"

definition parse_option :: "string \<Rightarrow> dfuse_st \<Rightarrow> dfu_stop + (string \<times> dfuse_st)" where
  "parse_option s st =
     (if take 1 s = '':'' then Inr (drop 1 s, st)
      else if keyword s ''force'' then
        rbind (advance 5 s) (\<lambda>s. Inr (s, st \<lparr> dfuse_force := dfuse_force st + 1 \<rparr>))
      else if keyword s ''leave'' then rbind (advance 5 s) (\<lambda>s. Inr (s, st \<lparr> dfuse_leave := True \<rparr>))
      else if keyword s ''unprotect'' then
        rbind (advance 9 s) (\<lambda>s. Inr (s, st \<lparr> dfuse_unprotect := True \<rparr>))
      else if keyword s ''mass-erase'' then
        rbind (advance 10 s) (\<lambda>s. Inr (s, st \<lparr> dfuse_mass_erase := True \<rparr>))
      else if keyword s ''will-reset'' then
        rbind (advance 10 s) (\<lambda>s. Inr (s, st \<lparr> dfuse_will_reset := True \<rparr>))
      else
        (case strtoul0 s of (number, rest) \<Rightarrow>
         if rest = drop (length (option_word s)) s
         then Inr (rest, st \<lparr> dfuse_length := number \<rparr>) else Inl (Exit EX_USAGE)))"

primrec options_loop :: "nat \<Rightarrow> string \<Rightarrow> dfuse_st \<Rightarrow> dfu_stop + dfuse_st" where
  "options_loop 0 s st = (if s = [] then Inr st else Inl (Undef OutOfFuel))"
| "options_loop (Suc n) s st =
     (if s = [] then Inr st
      else rbind (parse_option s st) (\<lambda>(s, st). options_loop n s st))"

definition dfuse_parse_options :: "string \<Rightarrow> dfuse_st \<Rightarrow> dfu_stop + dfuse_st" where
  "dfuse_parse_options s st =
     (if take 1 s \<noteq> '':'' then
        (case strtoul0 s of (number, rest) \<Rightarrow>
         let options = drop (length (option_word s)) s in
         if rest = options
         then options_loop (length options) options
                (st \<lparr> dfuse_address := number, dfuse_address_present := True \<rparr>)
         else Inl (Exit EX_USAGE))
      else options_loop (length s) s st)"

subsection \<open>Requests and special commands\<close>

definition dfuse_upload :: "'d usb \<Rightarrow> dfu_if \<Rightarrow> u16 \<Rightarrow> u16 \<Rightarrow> 'd \<Rightarrow> int \<times> byte list \<times> 'd" where
  "dfuse_upload U dif len transaction d =
     control U REQ_IN DFU_UPLOAD transaction (ucast (interface dif)) [] (unat len) d"

definition dfuse_download :: "'d usb \<Rightarrow> dfu_if \<Rightarrow> byte list \<Rightarrow> u16 \<Rightarrow> 'd \<Rightarrow> int \<times> 'd" where
  "dfuse_download U dif data transaction d =
     (case control U REQ_OUT DFU_DNLOAD transaction (ucast (interface dif)) data (length data) d of
        (rc, _, d) \<Rightarrow> (rc, d))"

definition LIBUSB_ERROR_PIPE :: int where "LIBUSB_ERROR_PIPE = - 9"

definition page_start :: "u32 \<Rightarrow> int \<Rightarrow> u32" where
  "page_start address page_size = address AND NOT (word_of_int (page_size - 1))"

text \<open>The command byte and the length; erasing a page needs an erasable segment.\<close>

definition special_setup :: "dfu_if \<Rightarrow> u32 \<Rightarrow> dfuse_command \<Rightarrow> dfuse_st \<Rightarrow> dfu_stop + (byte \<times> nat \<times> dfuse_st)" where
  "special_setup dif address command st =
     (case command of
        ERASE_PAGE \<Rightarrow>
          (case find_segment (mem_layout dif) address of None \<Rightarrow> Inl (Exit EX_USAGE)
           | Some segment \<Rightarrow>
             if memtype segment AND DFUSE_ERASABLE = 0 then Inl (Exit EX_USAGE)
             else Inr (0x41, 5, st \<lparr> last_erased_page := page_start address (pagesize segment) \<rparr>))
      | SET_ADDRESS \<Rightarrow> Inr (0x21, 5, st)
      | MASS_ERASE \<Rightarrow> Inr (0x41, 1, st)
      | READ_UNPROTECT \<Rightarrow> Inr (0x92, 1, st))"

text \<open>The loop over GETSTATUS with its variables; the result is the last ret.\<close>

primrec special_poll ::
    "nat \<Rightarrow> 'd usb \<Rightarrow> dfu_if \<Rightarrow> dfuse_command \<Rightarrow> bool \<Rightarrow> nat \<Rightarrow> nat \<Rightarrow> nat \<Rightarrow> 'd \<Rightarrow> dfu_stop + (int \<times> 'd)" where
  "special_poll 0 U dif command firstpoll zerotimeouts polltimeout stalls d = Inl (Undef OutOfFuel)"
| "special_poll (Suc n) U dif command firstpoll zerotimeouts polltimeout stalls d =
     (case dfu_get_status U dif d of (ret, dst, d) \<Rightarrow>
      let stalled = (ret = LIBUSB_ERROR_PIPE \<and> polltimeout \<noteq> 0 \<and> stalls < 3);
          dst = (if stalled then dst \<lparr> bState := STATE_DFU_DNBUSY \<rparr> else dst);
          stalls = (if stalled then stalls + 1 else stalls);
          polltimeout = (if stalled then polltimeout else bwPollTimeout dst) in
      if \<not> stalled \<and> ret < 0 then Inl (Exit EX_IOERR)
      else if firstpoll \<and> bState dst \<noteq> STATE_DFU_DNBUSY then Inl (Exit EX_PROTOCOL)
      else
        (let polltimeout = (if firstpoll \<and> command = MASS_ERASE \<and> bwPollTimeout dst = 100
                            then 35000 else polltimeout);
             d = pause U polltimeout d in
         if command = READ_UNPROTECT then Inr (ret, d)
         else
           (let zerotimeouts = (if bwPollTimeout dst = 0 then zerotimeouts + 1 else 0) in
            if zerotimeouts = 100 then Inl (Exit EX_IOERR)
            else if bState dst = STATE_DFU_DNBUSY
            then special_poll n U dif command False zerotimeouts polltimeout stalls d
            else if bStatus dst \<noteq> DFU_STATUS_OK then Inl (Exit EX_IOERR)
            else Inr (ret, d))))"

definition dfuse_special_command ::
    "nat \<Rightarrow> 'd usb \<Rightarrow> dfu_if \<Rightarrow> u32 \<Rightarrow> dfuse_command \<Rightarrow> dfuse_st \<Rightarrow> 'd \<Rightarrow> dfu_stop + (int \<times> dfuse_st \<times> 'd)" where
  "dfuse_special_command n U dif address command st d =
     rbind (special_setup dif address command st) (\<lambda>(cmd, len, st).
     case dfuse_download U dif (take len (cmd # le32 address)) 0 d of (ret, d) \<Rightarrow>
     if ret < 0 then Inl (Exit EX_IOERR)
     else rbind (special_poll n U dif command True 0 0 0 d) (\<lambda>(ret, d). Inr (ret, st, d)))"

subsection \<open>Downloading a chunk\<close>

primrec chunk_poll :: "nat \<Rightarrow> 'd usb \<Rightarrow> dfu_if \<Rightarrow> bool \<Rightarrow> 'd \<Rightarrow> dfu_stop + (dfu_status \<times> 'd)" where
  "chunk_poll 0 U dif will_reset d = Inl (Undef OutOfFuel)"
| "chunk_poll (Suc n) U dif will_reset d =
     (case dfu_get_status U dif d of (ret, dst, d) \<Rightarrow>
      if ret < 0 then Inl (Exit EX_IOERR)
      else
        (let d = pause U (bwPollTimeout dst) d in
         if bState dst \<noteq> STATE_DFU_DNLOAD_IDLE \<and> bState dst \<noteq> STATE_DFU_ERROR \<and>
            bState dst \<noteq> STATE_DFU_MANIFEST \<and> \<not> (will_reset \<and> bState dst = STATE_DFU_DNBUSY)
         then chunk_poll n U dif will_reset d
         else Inr (dst, d)))"

text \<open>The number of bytes sent, or -1.\<close>

definition dfuse_dnload_chunk ::
    "nat \<Rightarrow> 'd usb \<Rightarrow> dfu_if \<Rightarrow> byte list \<Rightarrow> u16 \<Rightarrow> dfuse_st \<Rightarrow> 'd \<Rightarrow> dfu_stop + (int \<times> 'd)" where
  "dfuse_dnload_chunk n U dif data transaction st d =
     (case dfuse_download U dif data transaction d of (bytes_sent, d) \<Rightarrow>
      if bytes_sent < 0 then Inl (Exit EX_IOERR)
      else rbind (chunk_poll n U dif (dfuse_will_reset st) d) (\<lambda>(dst, d).
           if bStatus dst \<noteq> DFU_STATUS_OK then Inr (- 1, d) else Inr (bytes_sent, d)))"

definition dfuse_do_leave :: "nat \<Rightarrow> 'd usb \<Rightarrow> dfu_if \<Rightarrow> dfuse_st \<Rightarrow> 'd \<Rightarrow> dfu_stop + (dfuse_st \<times> 'd)" where
  "dfuse_do_leave n U dif st d =
     rbind (if dfuse_address_present st
            then rbind (dfuse_special_command n U dif (dfuse_address st) SET_ADDRESS st d)
                   (\<lambda>(_, st, d). Inr (st, d))
            else Inr (st, d)) (\<lambda>(st, d).
     if has_quirk dif QUIRK_DFUSE_LEAVE then
       (case dfuse_download U dif [] 2 d of (_, d) \<Rightarrow>
        case dfu_get_status U dif d of (_, _, d) \<Rightarrow> Inr (st, d))
     else rbind (dfuse_dnload_chunk n U dif [] 2 st d) (\<lambda>(_, d). Inr (st, d)))"

subsection \<open>Downloading an element\<close>

definition writeable :: "dfuse_st \<Rightarrow> memsegment option \<Rightarrow> bool" where
  "writeable st segment =
     (dfuse_force st \<noteq> 0 \<or>
      (case segment of None \<Rightarrow> False | Some seg \<Rightarrow> memtype seg AND DFUSE_WRITEABLE \<noteq> 0))"

text \<open>A page is not erased again when it was the last one to be erased.\<close>

definition erase_unless_last ::
    "nat \<Rightarrow> 'd usb \<Rightarrow> dfu_if \<Rightarrow> u32 \<Rightarrow> int \<Rightarrow> dfuse_st \<Rightarrow> 'd \<Rightarrow> dfu_stop + (dfuse_st \<times> 'd)" where
  "erase_unless_last n U dif address page_size st d =
     (if page_start address page_size \<noteq> last_erased_page st
      then rbind (dfuse_special_command n U dif address ERASE_PAGE st d) (\<lambda>(_, st, d). Inr (st, d))
      else Inr (st, d))"

text \<open>The loop that erases the pages of a chunk; the bound is address + chunk_size, in 32 bits.\<close>

primrec erase_loop ::
    "nat \<Rightarrow> nat \<Rightarrow> 'd usb \<Rightarrow> dfu_if \<Rightarrow> u32 \<Rightarrow> u32 \<Rightarrow> int \<Rightarrow> dfuse_st \<Rightarrow> 'd \<Rightarrow> dfu_stop + (dfuse_st \<times> 'd)" where
  "erase_loop 0 n U dif erase_address bound page_size st d =
     (if erase_address < bound then Inl (Undef OutOfFuel) else Inr (st, d))"
| "erase_loop (Suc k) n U dif erase_address bound page_size st d =
     (if erase_address < bound then
        rbind (erase_unless_last n U dif erase_address page_size st d) (\<lambda>(st, d).
        erase_loop k n U dif (erase_address + word_of_int page_size) bound page_size st d)
      else Inr (st, d))"

definition erase_chunk ::
    "nat \<Rightarrow> 'd usb \<Rightarrow> dfu_if \<Rightarrow> u32 \<Rightarrow> int \<Rightarrow> int \<Rightarrow> dfuse_st \<Rightarrow> 'd \<Rightarrow> dfu_stop + (dfuse_st \<times> 'd)" where
  "erase_chunk n U dif address chunk_size page_size st d =
     rbind (erase_loop n n U dif address (address + word_of_int chunk_size) page_size st d) (\<lambda>(st, d).
     erase_unless_last n U dif (address + word_of_int chunk_size - 1) page_size st d)"

definition last_chunk :: "int \<Rightarrow> int \<Rightarrow> int \<Rightarrow> int" where
  "last_chunk p bytes xfer_size = (if p + xfer_size > bytes then bytes - p else xfer_size)"

text \<open>First pass; p is an int, so the step is checked for overflow.\<close>

primrec erase_pass ::
    "nat \<Rightarrow> nat \<Rightarrow> 'd usb \<Rightarrow> dfu_if \<Rightarrow> u32 \<Rightarrow> int \<Rightarrow> int \<Rightarrow> int \<Rightarrow> dfuse_st \<Rightarrow> 'd \<Rightarrow> dfu_stop + (dfuse_st \<times> 'd)" where
  "erase_pass 0 n U dif start bytes xfer_size p st d =
     (if p < bytes then Inl (Undef OutOfFuel) else Inr (st, d))"
| "erase_pass (Suc k) n U dif start bytes xfer_size p st d =
     (if p < bytes then
        (let address = start + word_of_int p; segment = find_segment (mem_layout dif) address in
         if \<not> writeable st segment then Inl (Exit EX_USAGE)
         else
           rbind (int_ok (p + xfer_size)) (\<lambda>next.
           rbind (case segment of None \<Rightarrow> Inr (st, d)
                  | Some seg \<Rightarrow>
                    if memtype seg AND DFUSE_ERASABLE \<noteq> 0 \<and> \<not> dfuse_mass_erase st
                    then erase_chunk n U dif address (last_chunk p bytes xfer_size) (pagesize seg) st d
                    else Inr (st, d)) (\<lambda>(st, d).
           erase_pass k n U dif start bytes xfer_size next st d)))
      else Inr (st, d))"

text \<open>Second pass; \<open>data\<close> is the offset of the element in the firmware.\<close>

primrec write_pass ::
    "nat \<Rightarrow> nat \<Rightarrow> 'd usb \<Rightarrow> dfu_if \<Rightarrow> u32 \<Rightarrow> int \<Rightarrow> byte list \<Rightarrow> nat \<Rightarrow> int \<Rightarrow> int \<Rightarrow> dfuse_st \<Rightarrow> 'd
     \<Rightarrow> dfu_stop + (dfuse_st \<times> 'd)" where
  "write_pass 0 n U dif start bytes fw data xfer_size p st d =
     (if p < bytes then Inl (Undef OutOfFuel) else Inr (st, d))"
| "write_pass (Suc k) n U dif start bytes fw data xfer_size p st d =
     (if p < bytes then
        rbind (int_ok (p + xfer_size)) (\<lambda>next.
        let address = start + word_of_int p; chunk_size = last_chunk p bytes xfer_size in
        rbind (dfuse_special_command n U dif address SET_ADDRESS st d) (\<lambda>(_, st, d).
        rbind (lift_mem (mread (data + nat p) (unat (word_of_int chunk_size :: u16)) fw)) (\<lambda>bs.
        rbind (dfuse_dnload_chunk n U dif bs 2 st d) (\<lambda>(ret, d).
        if ret \<noteq> chunk_size then Inl (Exit EX_IOERR)
        else write_pass k n U dif start bytes fw data xfer_size next st d))))
      else Inr (st, d))"

definition dfuse_dnload_element ::
    "nat \<Rightarrow> 'd usb \<Rightarrow> dfu_if \<Rightarrow> u32 \<Rightarrow> u32 \<Rightarrow> byte list \<Rightarrow> nat \<Rightarrow> int \<Rightarrow> dfuse_st \<Rightarrow> 'd
     \<Rightarrow> dfu_stop + (dfuse_st \<times> 'd)" where
  "dfuse_dnload_element n U dif start dwElementSize fw data xfer_size st d =
     (if \<not> writeable st (find_segment (mem_layout dif) (start + dwElementSize - 1))
      then Inl (Exit EX_USAGE)
      else
        rbind (erase_pass n n U dif start (sint dwElementSize) xfer_size 0 st d) (\<lambda>(st, d).
        write_pass n n U dif start (sint dwElementSize) fw data xfer_size 0 st d))"

definition dfuse_do_bin_dnload ::
    "nat \<Rightarrow> 'd usb \<Rightarrow> dfu_if \<Rightarrow> int \<Rightarrow> dfu_file \<Rightarrow> u32 \<Rightarrow> dfuse_st \<Rightarrow> 'd \<Rightarrow> dfu_stop + (dfuse_st \<times> 'd)" where
  "dfuse_do_bin_dnload n U dif xfer_size file start_address st d =
     dfuse_dnload_element n U dif start_address
       (of_int (int (total file) - int (suffix_size file) - int (prefix_size file)))
       (firmware file) (prefix_size file) xfer_size st d"

subsection \<open>DfuSe files\<close>

text \<open>
  dfuse_memcpy with the pointer as an offset into the firmware and the count of the bytes left;
  without a destination nothing is read, and a negative size moves the pointer back.
\<close>

definition dfuse_memcpy :: "bool \<Rightarrow> byte list \<Rightarrow> int \<Rightarrow> int \<Rightarrow> int \<Rightarrow> dfu_stop + (byte list \<times> int \<times> int)" where
  "dfuse_memcpy dst fw src rem bytes =
     (if bytes > rem then Inl (Exit EX_NOINPUT)
      else
        rbind (if \<not> dst then Inr []
               else if src < 0 \<or> bytes < 0 then Inl (Undef OobRead)
               else lift_mem (mread (nat src) (nat bytes) fw)) (\<lambda>bs.
        rbind (int_ok (rem - bytes)) (\<lambda>rem. Inr (bs, src + bytes, rem))))"

text \<open>The loop over the elements of an image; \<open>adif\<close> is None when its elements are skipped.\<close>

primrec elements_loop ::
    "nat \<Rightarrow> nat \<Rightarrow> 'd usb \<Rightarrow> dfu_if option \<Rightarrow> int \<Rightarrow> byte list \<Rightarrow> bool \<Rightarrow> int \<Rightarrow> int \<Rightarrow> dfuse_st \<Rightarrow> 'd
     \<Rightarrow> dfu_stop + (bool \<times> int \<times> int \<times> dfuse_st \<times> 'd)" where
  "elements_loop 0 n U adif xfer_size fw saved data rem st d = Inr (saved, data, rem, st, d)"
| "elements_loop (Suc k) n U adif xfer_size fw saved data rem st d =
     rbind (dfuse_memcpy True fw data rem 8) (\<lambda>(elementheader, data, rem).
     let dwElementAddress = quad2uint elementheader;
         dwElementSize = quad2uint (drop 4 elementheader);
         st = (if saved then st else st \<lparr> dfuse_address := dwElementAddress \<rparr>) in
     if sint dwElementSize > rem then Inl (Exit EX_DATAERR)
     else
       rbind (case adif of None \<Rightarrow> Inr (st, d)
              | Some dif \<Rightarrow>
                if data < 0 then Inl (Undef OobRead)
                else dfuse_dnload_element n U dif dwElementAddress dwElementSize fw (nat data) xfer_size st d)
         (\<lambda>(st, d).
       rbind (dfuse_memcpy False fw data rem (sint dwElementSize)) (\<lambda>(_, data, rem).
       elements_loop k n U adif xfer_size fw True data rem st d)))"

primrec images_loop ::
    "nat \<Rightarrow> nat \<Rightarrow> 'd usb \<Rightarrow> dfu_if list \<Rightarrow> int \<Rightarrow> byte list \<Rightarrow> bool \<Rightarrow> int \<Rightarrow> int \<Rightarrow> dfuse_st \<Rightarrow> 'd
     \<Rightarrow> dfu_stop + (dfuse_st \<times> 'd)" where
  "images_loop 0 n U difs xfer_size fw saved data rem st d = Inr (st, d)"
| "images_loop (Suc k) n U difs xfer_size fw saved data rem st d =
     rbind (dfuse_memcpy True fw data rem 274) (\<lambda>(targetprefix, data, rem).
     if take 6 targetprefix \<noteq> ascii ''Target'' then Inl (Exit EX_DATAERR)
     else
       rbind (if targetprefix ! 7 \<noteq> 0 then lift_mem (cstr 11 targetprefix) else Inr []) (\<lambda>_.
       let bAlternateSetting = targetprefix ! 6;
           dwNbElements = sint (quad2uint (drop 270 targetprefix));
           adif = find (\<lambda>dif. bAlternateSetting = altsetting dif) difs in
       rbind (case adif of None \<Rightarrow> Inr d
              | Some dif \<Rightarrow>
                (case set_alt_setting U (interface dif) (altsetting dif) d of (ret, d) \<Rightarrow>
                 if ret < 0 then Inl (Exit EX_IOERR) else Inr d)) (\<lambda>d.
       rbind (elements_loop (nat dwNbElements) n U adif xfer_size fw saved data rem st d)
         (\<lambda>(saved, data, rem, st, d).
       images_loop k n U difs xfer_size fw saved data rem st d))))"

definition dfuse_do_dfuse_dnload ::
    "nat \<Rightarrow> 'd usb \<Rightarrow> dfu_if list \<Rightarrow> int \<Rightarrow> dfu_file \<Rightarrow> dfuse_st \<Rightarrow> 'd \<Rightarrow> dfu_stop + (dfuse_st \<times> 'd)" where
  "dfuse_do_dfuse_dnload n U difs xfer_size file st d =
     (let rem = to_int32 (int (total file) - int (prefix_size file) - int (suffix_size file));
          data = int (prefix_size file) in
      if rem < 11 + 274 + 8 then Inl (Exit EX_DATAERR)
      else
        rbind (dfuse_memcpy True (firmware file) data rem 11) (\<lambda>(dfuprefix, data, rem).
        if take 5 dfuprefix \<noteq> ascii ''DfuSe'' then Inl (Exit EX_DATAERR)
        else if dfuprefix ! 5 \<noteq> 1 then Inl (Exit EX_DATAERR)
        else images_loop (unat (dfuprefix ! 10)) n U difs xfer_size (firmware file) False data rem st d))"

subsection \<open>Download and upload\<close>

text \<open>The memory map of an interface, from its name.\<close>

definition load_layout :: "dfu_if \<Rightarrow> dfu_stop + dfu_if" where
  "load_layout dif =
     rbind (parse_memory_layout (alt_name dif)) (\<lambda>layout.
     if layout = [] then Inl (Exit EX_IOERR)
     else Inr (dif \<lparr> mem_layout :=
       (if has_quirk dif QUIRK_DFUSE_LAYOUT then fixup_dfuse_layout dif layout else layout) \<rparr>))"

primrec load_layouts :: "dfu_if list \<Rightarrow> dfu_stop + dfu_if list" where
  "load_layouts [] = Inr []"
| "load_layouts (dif # difs) =
     rbind (load_layout dif) (\<lambda>dif. rbind (load_layouts difs) (\<lambda>difs. Inr (dif # difs)))"

text \<open>
  The file is None in command mode, without a file name.  The functions below return 0 where
  they return at all (dfuse_do_dnload the last result of the command for READ_UNPROTECT), so
  the model leaves the result out.
\<close>

definition dnload_content ::
    "nat \<Rightarrow> 'd usb \<Rightarrow> dfu_if list \<Rightarrow> int \<Rightarrow> dfu_file option \<Rightarrow> dfuse_st \<Rightarrow> 'd \<Rightarrow> dfu_stop + (dfuse_st \<times> 'd)" where
  "dnload_content n U difs xfer_size file st d =
     (case file of None \<Rightarrow> Inr (st, d)
      | Some file \<Rightarrow>
        if dfuse_address_present st then
          (if bcdDFU file = 0x11a then Inl (Exit EX_USAGE)
           else dfuse_do_bin_dnload n U (hd difs) xfer_size file (dfuse_address st) st d)
        else if bcdDFU file \<noteq> 0x11a then Inl (Exit EX_USAGE)
        else dfuse_do_dfuse_dnload n U difs xfer_size file st d)"

definition dfuse_do_dnload ::
    "nat \<Rightarrow> 'd usb \<Rightarrow> dfu_if list \<Rightarrow> int \<Rightarrow> dfu_file option \<Rightarrow> string option \<Rightarrow> dfuse_st \<Rightarrow> 'd
     \<Rightarrow> dfu_stop + (dfuse_st \<times> 'd)" where
  "dfuse_do_dnload n U difs xfer_size file options st d =
     rbind (case options of None \<Rightarrow> Inr st | Some s \<Rightarrow> dfuse_parse_options s st) (\<lambda>st.
     rbind (load_layouts difs) (\<lambda>difs.
     if dfuse_unprotect st then
       (if dfuse_force st = 0 then Inl (Exit EX_USAGE)
        else rbind (dfuse_special_command n U (hd difs) 0 READ_UNPROTECT st d) (\<lambda>(_, st, d). Inr (st, d)))
     else
       rbind (if \<not> dfuse_mass_erase st then Inr (st, d)
              else if dfuse_force st = 0 then Inl (Exit EX_USAGE)
              else rbind (dfuse_special_command n U (hd difs) 0 MASS_ERASE st d)
                     (\<lambda>(_, st, d). Inr (st, d))) (\<lambda>(st, d).
       rbind (dnload_content n U difs xfer_size file st d) (\<lambda>(st, d).
       rbind (if dfuse_will_reset st then Inr d
              else rbind (dfu_abort_to_idle U (hd difs) d) (\<lambda>(_, d). Inr d)) (\<lambda>d.
       if dfuse_leave st then dfuse_do_leave n U (hd difs) st d else Inr (st, d))))))"

text \<open>
  The loop of the upload: the result, the bytes written, the device.  \<open>room\<close> is the size of buf:
  an answer longer than that is written behind it.
\<close>

primrec dfuse_upload_loop ::
    "nat \<Rightarrow> 'd usb \<Rightarrow> dfu_if \<Rightarrow> int \<Rightarrow> int \<Rightarrow> int \<Rightarrow> (byte list \<Rightarrow> nat \<Rightarrow> bool) \<Rightarrow> int \<Rightarrow> u16 \<Rightarrow> byte list \<Rightarrow> 'd
     \<Rightarrow> dfu_stop + (int \<times> byte list \<times> 'd)" where
  "dfuse_upload_loop 0 U dif room limit xfer_size full total_bytes transaction out d = Inl (Undef OutOfFuel)"
| "dfuse_upload_loop (Suc k) U dif room limit xfer_size full total_bytes transaction out d =
     (let xfer_size = (if limit - total_bytes < xfer_size then limit - total_bytes else xfer_size) in
      case dfuse_upload U dif (word_of_int xfer_size) transaction d of (rc, buf, d) \<Rightarrow>
      if rc < 0 then Inr (rc, out, d)
      else if rc > room then Inl (Undef OobWrite)
      else
        rbind (dfu_file_write_crc full out 0 buf 0 rc) (\<lambda>(_, out).
        rbind (int_ok (total_bytes + rc)) (\<lambda>total_bytes.
        if rc < xfer_size \<or> total_bytes \<ge> limit then Inr (0, out, d)
        else dfuse_upload_loop k U dif room limit xfer_size full total_bytes (transaction + 1) out d)))"

definition upload_limit :: "dfuse_st \<Rightarrow> memsegment option \<Rightarrow> int" where
  "upload_limit st segment =
     (if dfuse_length st \<noteq> 0 then sint (dfuse_length st)
      else case segment of
        Some seg \<Rightarrow> sint (seg_end seg - dfuse_address st + 1)
      | None \<Rightarrow> 0x4000)"

definition readable :: "dfuse_st \<Rightarrow> memsegment option \<Rightarrow> bool" where
  "readable st segment =
     (dfuse_force st \<noteq> 0 \<or>
      (case segment of None \<Rightarrow> False | Some seg \<Rightarrow> memtype seg AND DFUSE_READABLE \<noteq> 0))"

definition dfuse_do_upload ::
    "nat \<Rightarrow> 'd usb \<Rightarrow> dfu_if \<Rightarrow> int \<Rightarrow> (byte list \<Rightarrow> nat \<Rightarrow> bool) \<Rightarrow> string option \<Rightarrow> dfuse_st \<Rightarrow> 'd
     \<Rightarrow> dfu_stop + (int \<times> byte list \<times> dfuse_st \<times> 'd)" where
  "dfuse_do_upload n U dif xfer_size full options st d =
     rbind (if xfer_size < 0 then Inl (Exit EX_SOFTWARE) else Inr ()) (\<lambda>_.     \<comment> \<open>dfu_malloc\<close>
     rbind (case options of None \<Rightarrow> Inr st | Some s \<Rightarrow> dfuse_parse_options s st) (\<lambda>st.
     rbind (if \<not> dfuse_address_present st then Inr (upload_limit st None, st, d)
            else
              rbind (load_layout dif) (\<lambda>ldif.
              let segment = find_segment (mem_layout ldif) (dfuse_address st) in
              if \<not> readable st segment then Inl (Exit EX_USAGE)
              else
                rbind (dfuse_special_command n U dif (dfuse_address st) SET_ADDRESS st d) (\<lambda>(_, st, d).
                rbind (dfu_abort_to_idle U dif d) (\<lambda>(_, d).
                Inr (upload_limit st segment, st, d))))) (\<lambda>(limit, st, d).
     rbind (dfuse_upload_loop n U dif xfer_size limit xfer_size full 0 2 [] d) (\<lambda>(ret, out, d).
     if ret < 0 then Inr (ret, out, st, d)
     else
       rbind (dfu_abort_to_idle U dif d) (\<lambda>(_, d).
       rbind (if dfuse_leave st then dfuse_do_leave n U dif st d else Inr (st, d)) (\<lambda>(st, d).
       Inr (ret, out, st, d)))))))"

text \<open>All interfaces belong to one configuration and interface of one device.\<close>

definition dfuse_multiple_alt :: "dfu_if list \<Rightarrow> bool" where
  "dfuse_multiple_alt difs =
     (case difs of [] \<Rightarrow> True
      | root # rest \<Rightarrow> list_all (\<lambda>dif. if_dev root = if_dev dif \<and>
          configuration root = configuration dif \<and> interface root = interface dif) rest)"

end
