(* ===== verification/DfuseFlash.thy ===== *)
theory DfuseFlash
  imports Dfuse
begin

unbundle bit_operations_syntax

text \<open>
  What downloading to a DfuSe device achieves.  The device is a flash memory: erasing a page
  sets its bytes to 0xFF, and programming can only clear bits.  On every such device the
  element ends up in the memory byte for byte, because the first pass erases every page the
  element touches, and no page outside is changed.
\<close>

subsection \<open>Flash memory and what the protocol promises of the device\<close>

definition flash_erase :: "nat \<Rightarrow> nat \<Rightarrow> (nat \<Rightarrow> byte) \<Rightarrow> nat \<Rightarrow> byte" where
  "flash_erase ps a m = (\<lambda>x. if x div ps = a div ps then 0xFF else m x)"

definition flash_program :: "nat \<Rightarrow> byte list \<Rightarrow> (nat \<Rightarrow> byte) \<Rightarrow> nat \<Rightarrow> byte" where
  "flash_program a bs m = (\<lambda>x. if a \<le> x \<and> x < a + length bs then m x AND bs ! (x - a) else m x)"

record 'd flash_view =
  f_idle :: "'d \<Rightarrow> bool"
  f_command :: "'d \<Rightarrow> bool"
  f_writing :: "'d \<Rightarrow> bool"
  f_busy :: "'d \<Rightarrow> nat"
  f_mem :: "'d \<Rightarrow> nat \<Rightarrow> byte"
  f_ptr :: "'d \<Rightarrow> u32"

text \<open>The two commands; the device is busy at the first GETSTATUS behind either.\<close>

definition takes_commands :: "'d usb \<Rightarrow> dfu_if \<Rightarrow> nat \<Rightarrow> 'd flash_view \<Rightarrow> bool" where
  "takes_commands U dif ps V \<longleftrightarrow>
     (\<forall>d a. f_idle V d \<longrightarrow>
        (case control U REQ_OUT DFU_DNLOAD 0 (ucast (interface dif)) (0x21 # le32 a) 5 d of
           (rc, _, d') \<Rightarrow> 0 \<le> rc \<and> f_command V d' \<and> 0 < f_busy V d' \<and> f_ptr V d' = a \<and>
             f_mem V d' = f_mem V d)) \<and>
     (\<forall>d a. f_idle V d \<longrightarrow>
        (case control U REQ_OUT DFU_DNLOAD 0 (ucast (interface dif)) (0x41 # le32 a) 5 d of
           (rc, _, d') \<Rightarrow> 0 \<le> rc \<and> f_command V d' \<and> 0 < f_busy V d' \<and>
             f_mem V d' = flash_erase ps (unat a) (f_mem V d)))"

definition reports_command :: "'d usb \<Rightarrow> dfu_if \<Rightarrow> 'd flash_view \<Rightarrow> bool" where
  "reports_command U dif V \<longleftrightarrow>
     (\<forall>d. f_command V d \<longrightarrow>
        (case dfu_get_status U dif d of (rc, dst, d') \<Rightarrow> 0 \<le> rc \<and>
           (let d'' = pause U (bwPollTimeout dst) d' in
            f_mem V d'' = f_mem V d \<and> f_ptr V d'' = f_ptr V d \<and>
            (if f_busy V d = 0
             then bState dst = STATE_DFU_DNLOAD_IDLE \<and> bStatus dst = DFU_STATUS_OK \<and> f_idle V d''
             else bState dst = STATE_DFU_DNBUSY \<and> bwPollTimeout dst \<noteq> 0 \<and> f_command V d'' \<and>
               f_busy V d'' < f_busy V d))))"

definition programs :: "'d usb \<Rightarrow> dfu_if \<Rightarrow> 'd flash_view \<Rightarrow> bool" where
  "programs U dif V \<longleftrightarrow>
     (\<forall>d data. f_idle V d \<longrightarrow> data \<noteq> [] \<longrightarrow> length data \<le> 65535 \<longrightarrow>
        (case control U REQ_OUT DFU_DNLOAD 2 (ucast (interface dif)) data (length data) d of
           (rc, _, d') \<Rightarrow> rc = int (length data) \<and> f_writing V d' \<and>
             f_mem V d' = flash_program (unat (f_ptr V d)) data (f_mem V d))) \<and>
     (\<forall>d. f_writing V d \<longrightarrow>
        (case dfu_get_status U dif d of (rc, dst, d') \<Rightarrow> 0 \<le> rc \<and>
           (let d'' = pause U (bwPollTimeout dst) d' in
            f_mem V d'' = f_mem V d \<and>
            (if f_busy V d = 0
             then bState dst = STATE_DFU_DNLOAD_IDLE \<and> bStatus dst = DFU_STATUS_OK \<and> f_idle V d''
             else bState dst = STATE_DFU_DNBUSY \<and> f_writing V d'' \<and> f_busy V d'' < f_busy V d))))"

definition flash_device :: "'d usb \<Rightarrow> dfu_if \<Rightarrow> nat \<Rightarrow> nat \<Rightarrow> 'd flash_view \<Rightarrow> bool" where
  "flash_device U dif ps n V \<longleftrightarrow>
     takes_commands U dif ps V \<and> reports_command U dif V \<and> programs U dif V \<and> (\<forall>d. f_busy V d < n)"

lemmas flash_deviceD =
  flash_device_def [THEN iffD1, THEN conjunct1]
  flash_device_def [THEN iffD1, THEN conjunct2, THEN conjunct1]
  flash_device_def [THEN iffD1, THEN conjunct2, THEN conjunct2, THEN conjunct1]
  flash_device_def [THEN iffD1, THEN conjunct2, THEN conjunct2, THEN conjunct2, rule_format]

subsection \<open>One command, one chunk\<close>

lemma special_poll_ok:
  assumes "reports_command U dif V" and "cmd = SET_ADDRESS \<or> cmd = ERASE_PAGE"
  shows "f_command V d \<Longrightarrow> f_busy V d < n \<Longrightarrow> (first \<longrightarrow> 0 < f_busy V d) \<Longrightarrow>
    \<exists>ret d'. special_poll n U dif cmd first 0 polltimeout stalls d = Inr (ret, d') \<and> f_idle V d' \<and>
      f_mem V d' = f_mem V d \<and> f_ptr V d' = f_ptr V d"
proof (induction n arbitrary: first polltimeout stalls d)
  case 0
  then show ?case by simp
next
  case (Suc n)
  obtain rc dst d1 where g: "dfu_get_status U dif d = (rc, dst, d1)" by (cases "dfu_get_status U dif d")
  define d2 where "d2 = pause U (bwPollTimeout dst) d1"
  from assms(1) [unfolded reports_command_def, rule_format, OF Suc.prems(1)]
  have *: "0 \<le> rc" "f_mem V d2 = f_mem V d" "f_ptr V d2 = f_ptr V d"
    "if f_busy V d = 0
     then bState dst = STATE_DFU_DNLOAD_IDLE \<and> bStatus dst = DFU_STATUS_OK \<and> f_idle V d2
     else bState dst = STATE_DFU_DNBUSY \<and> bwPollTimeout dst \<noteq> 0 \<and> f_command V d2 \<and> f_busy V d2 < f_busy V d"
    by (simp_all add: g d2_def Let_def)
  have c: "cmd \<noteq> MASS_ERASE" "cmd \<noteq> READ_UNPROTECT" using assms(2) by auto
  have s: "(rc = LIBUSB_ERROR_PIPE \<and> polltimeout \<noteq> 0 \<and> stalls < 3) = False"
    using *(1) by (simp add: LIBUSB_ERROR_PIPE_def)
  show ?case
  proof (cases "f_busy V d = 0")
    case True
    with * have e: "bState dst = STATE_DFU_DNLOAD_IDLE" "bStatus dst = DFU_STATUS_OK" "f_idle V d2" by simp_all
    have "\<not> first" using True Suc.prems(3) by simp
    then have "special_poll (Suc n) U dif cmd first 0 polltimeout stalls d = Inr (rc, d2)"
      unfolding special_poll.simps g prod.case Let_def s if_False
      using c e *(1) by (simp add: d2_def dfu_states)
    then show ?thesis using * e by simp
  next
    case False
    with * have e: "bState dst = STATE_DFU_DNBUSY" "bwPollTimeout dst \<noteq> 0" "f_command V d2"
      "f_busy V d2 < f_busy V d" by simp_all
    have "special_poll (Suc n) U dif cmd first 0 polltimeout stalls d =
        special_poll n U dif cmd False 0 (bwPollTimeout dst) stalls d2"
      unfolding special_poll.simps g prod.case Let_def s if_False
      using c e *(1) by (simp add: d2_def)
    then show ?thesis using Suc.IH [OF e(3), of False "bwPollTimeout dst" stalls] e Suc.prems * by simp
  qed
qed

lemma set_address_ok:
  assumes "flash_device U dif ps n V" and "f_idle V d"
  shows "\<exists>ret d'. dfuse_special_command n U dif a SET_ADDRESS st d = Inr (ret, st, d') \<and> f_idle V d' \<and>
    f_mem V d' = f_mem V d \<and> f_ptr V d' = a"
proof -
  obtain rc b d1 where g: "control U REQ_OUT DFU_DNLOAD 0 (ucast (interface dif)) (0x21 # le32 a) 5 d = (rc, b, d1)"
    by (cases "control U REQ_OUT DFU_DNLOAD 0 (ucast (interface dif)) (0x21 # le32 a) 5 d")
  from flash_deviceD(1) [OF assms(1), unfolded takes_commands_def, THEN conjunct1, rule_format, OF assms(2), of a]
  have *: "0 \<le> rc" "f_command V d1" "0 < f_busy V d1" "f_ptr V d1 = a" "f_mem V d1 = f_mem V d"
    by (simp_all add: g)
  obtain ret d2 where "special_poll n U dif SET_ADDRESS True 0 0 0 d1 = Inr (ret, d2)" "f_idle V d2"
      "f_mem V d2 = f_mem V d1" "f_ptr V d2 = f_ptr V d1"
    using special_poll_ok [OF flash_deviceD(2) [OF assms(1)] _ *(2) flash_deviceD(4) [OF assms(1)]] *(3) by blast
  then show ?thesis
    using * g by (simp add: dfuse_special_command_def special_setup_def dfuse_download_def)
qed

lemma erase_page_ok:
  assumes "flash_device U dif ps n V" and "f_idle V d"
    and "find_segment (mem_layout dif) a = Some seg" and "memtype seg AND DFUSE_ERASABLE \<noteq> 0"
  shows "\<exists>ret d'. dfuse_special_command n U dif a ERASE_PAGE st d
      = Inr (ret, st \<lparr> last_erased_page := page_start a (pagesize seg) \<rparr>, d') \<and> f_idle V d' \<and>
    f_mem V d' = flash_erase ps (unat a) (f_mem V d)"
proof -
  obtain rc b d1 where g: "control U REQ_OUT DFU_DNLOAD 0 (ucast (interface dif)) (0x41 # le32 a) 5 d = (rc, b, d1)"
    by (cases "control U REQ_OUT DFU_DNLOAD 0 (ucast (interface dif)) (0x41 # le32 a) 5 d")
  from flash_deviceD(1) [OF assms(1), unfolded takes_commands_def, THEN conjunct2, rule_format, OF assms(2), of a]
  have *: "0 \<le> rc" "f_command V d1" "0 < f_busy V d1" "f_mem V d1 = flash_erase ps (unat a) (f_mem V d)"
    by (simp_all add: g)
  obtain ret d2 where "special_poll n U dif ERASE_PAGE True 0 0 0 d1 = Inr (ret, d2)" "f_idle V d2"
      "f_mem V d2 = f_mem V d1"
    using special_poll_ok [OF flash_deviceD(2) [OF assms(1)] _ *(2) flash_deviceD(4) [OF assms(1)]] *(3) by blast
  then show ?thesis
    using * g assms(3,4) by (simp add: dfuse_special_command_def special_setup_def dfuse_download_def)
qed

lemma chunk_poll_ok:
  assumes "programs U dif V"
  shows "f_writing V d \<Longrightarrow> f_busy V d < n \<Longrightarrow>
    \<exists>dst d'. chunk_poll n U dif False d = Inr (dst, d') \<and> bStatus dst = DFU_STATUS_OK \<and> f_idle V d' \<and>
      f_mem V d' = f_mem V d"
proof (induction n arbitrary: d)
  case 0
  then show ?case by simp
next
  case (Suc n)
  obtain rc dst d1 where g: "dfu_get_status U dif d = (rc, dst, d1)" by (cases "dfu_get_status U dif d")
  define d2 where "d2 = pause U (bwPollTimeout dst) d1"
  from assms(1) [unfolded programs_def, THEN conjunct2, rule_format, OF Suc.prems(1)]
  have *: "0 \<le> rc" "f_mem V d2 = f_mem V d"
    "if f_busy V d = 0
     then bState dst = STATE_DFU_DNLOAD_IDLE \<and> bStatus dst = DFU_STATUS_OK \<and> f_idle V d2
     else bState dst = STATE_DFU_DNBUSY \<and> f_writing V d2 \<and> f_busy V d2 < f_busy V d"
    by (simp_all add: g d2_def Let_def)
  show ?case
  proof (cases "f_busy V d = 0")
    case True
    with * g show ?thesis by (simp add: d2_def [symmetric] Let_def dfu_states)
  next
    case False
    with * have "chunk_poll (Suc n) U dif False d = chunk_poll n U dif False d2"
      by (simp add: g d2_def Let_def dfu_states)
    then show ?thesis using Suc.IH [of d2] * False Suc.prems by simp
  qed
qed

lemma dnload_chunk_ok:
  assumes "flash_device U dif ps n V" and "f_idle V d" and "data \<noteq> []" and "length data \<le> 65535"
    and "\<not> dfuse_will_reset st"
  shows "\<exists>d'. dfuse_dnload_chunk n U dif data 2 st d = Inr (int (length data), d') \<and> f_idle V d' \<and>
    f_mem V d' = flash_program (unat (f_ptr V d)) data (f_mem V d)"
proof -
  obtain rc b d1 where g: "control U REQ_OUT DFU_DNLOAD 2 (ucast (interface dif)) data (length data) d = (rc, b, d1)"
    by (cases "control U REQ_OUT DFU_DNLOAD 2 (ucast (interface dif)) data (length data) d")
  from flash_deviceD(3) [OF assms(1), unfolded programs_def, THEN conjunct1, rule_format, OF assms(2-4)]
  have *: "rc = int (length data)" "f_writing V d1"
      "f_mem V d1 = flash_program (unat (f_ptr V d)) data (f_mem V d)"
    by (simp_all add: g)
  obtain dst d2 where "chunk_poll n U dif False d1 = Inr (dst, d2)" "bStatus dst = DFU_STATUS_OK"
      "f_idle V d2" "f_mem V d2 = f_mem V d1"
    using chunk_poll_ok [OF flash_deviceD(3) [OF assms(1)] *(2) flash_deviceD(4) [OF assms(1)]] by blast
  then show ?thesis
    using * g assms(5) by (simp add: dfuse_dnload_chunk_def dfuse_download_def)
qed

subsection \<open>Pages\<close>

definition flash_range :: "dfu_if \<Rightarrow> nat \<Rightarrow> nat \<Rightarrow> nat \<Rightarrow> bool" where
  "flash_range dif ps lo hi \<longleftrightarrow>
     (\<forall>x. lo \<le> x \<longrightarrow> x < hi \<longrightarrow>
        (\<exists>seg. find_segment (mem_layout dif) (of_nat x) = Some seg \<and> pagesize seg = int ps \<and>
           memtype seg AND DFUSE_ERASABLE \<noteq> 0 \<and> memtype seg AND DFUSE_WRITEABLE \<noteq> 0))"

definition page_blank :: "nat \<Rightarrow> (nat \<Rightarrow> byte) \<Rightarrow> nat \<Rightarrow> bool" where
  "page_blank ps m x \<longleftrightarrow> (\<forall>y. y div ps = x div ps \<longrightarrow> m y = 0xFF)"

text \<open>Only whole pages of the range were erased.\<close>

definition erased_within :: "nat \<Rightarrow> nat \<Rightarrow> nat \<Rightarrow> (nat \<Rightarrow> byte) \<Rightarrow> (nat \<Rightarrow> byte) \<Rightarrow> bool" where
  "erased_within ps lo hi m m' \<longleftrightarrow>
     (\<forall>y. m' y = m y \<or> m' y = 0xFF \<and> lo div ps \<le> y div ps \<and> y div ps \<le> (hi - 1) div ps)"

text \<open>The page the code remembers is blank.\<close>

definition last_blank :: "nat \<Rightarrow> dfuse_st \<Rightarrow> (nat \<Rightarrow> byte) \<Rightarrow> bool" where
  "last_blank ps st m \<longleftrightarrow> (\<forall>a. page_start a (int ps) = last_erased_page st \<longrightarrow> page_blank ps m (unat a))"

definition same_flags :: "dfuse_st \<Rightarrow> dfuse_st \<Rightarrow> bool" where
  "same_flags st st' \<longleftrightarrow> st' = st \<lparr> last_erased_page := last_erased_page st' \<rparr>"

lemma erased_within_refl: "erased_within ps lo hi m m"
  by (simp add: erased_within_def)

lemma erased_within_trans:
  "erased_within ps lo hi m m1 \<Longrightarrow> erased_within ps lo hi m1 m2 \<Longrightarrow> erased_within ps lo hi m m2"
  unfolding erased_within_def by metis

lemma page_blank_mono: "page_blank ps m x \<Longrightarrow> erased_within ps lo hi m m' \<Longrightarrow> page_blank ps m' x"
  unfolding page_blank_def erased_within_def by metis

lemma same_flags_trans: "same_flags s t \<Longrightarrow> same_flags t u \<Longrightarrow> same_flags s u"
  by (simp add: same_flags_def) (metis dfuse_st.surjective dfuse_st.update_convs(1))

lemma same_flags_refl: "same_flags s s"
  by (simp add: same_flags_def)

lemma page_start_unat:
  assumes "k < 32"
  shows "unat (page_start a (int (2 ^ k))) = unat a div 2 ^ k * 2 ^ k"
proof -
  have m: "(word_of_int (int (2 ^ k) - 1) :: u32) = mask k"
    by (simp add: mask_eq_exp_minus_1)
  have "a AND NOT (mask k) = push_bit k (drop_bit k a)"
    by (intro bit_eqI) (auto simp: bit_simps)
  moreover have "unat (push_bit k (drop_bit k a)) = unat a div 2 ^ k * 2 ^ k"
  proof -
    have "unat a div 2 ^ k * 2 ^ k \<le> unat a" by simp
    then have "unat a div 2 ^ k * 2 ^ k < 4294967296" using unat_u32 [of a] by linarith
    then show ?thesis
      unfolding unsigned_push_bit_eq unsigned_drop_bit_eq
      by (simp add: push_bit_eq_mult drop_bit_eq_div take_bit_nat_eq_self)
  qed
  ultimately show ?thesis by (simp only: page_start_def m)
qed

lemma page_start_eq:
  assumes "ps = 2 ^ k" and "k < 32"
  shows "page_start a (int ps) = page_start b (int ps) \<longleftrightarrow> unat a div ps = unat b div ps"
  using page_start_unat [OF assms(2), of a] page_start_unat [OF assms(2), of b] assms(1)
  by (auto simp: word_unat_eq_iff)

subsection \<open>The erase pass\<close>

lemma erase_unless_last_ok:
  assumes dev: "flash_device U dif ps n V" and range: "flash_range dif ps lo hi"
    and ps: "ps = 2 ^ k" "k < 32" and x: "lo \<le> x" "x < hi" "hi \<le> 4294967296"
    and d: "f_idle V d" "last_blank ps st (f_mem V d)"
  shows "\<exists>st' d'. erase_unless_last n U dif (of_nat x) (int ps) st d = Inr (st', d') \<and> f_idle V d' \<and>
    last_blank ps st' (f_mem V d') \<and> page_blank ps (f_mem V d') x \<and>
    erased_within ps lo hi (f_mem V d) (f_mem V d') \<and> same_flags st st'"
proof (cases "page_start (of_nat x) (int ps) = last_erased_page st")
  case True
  moreover have "unat (of_nat x :: u32) = x" using x by simp
  ultimately have "page_blank ps (f_mem V d) x" using d(2) unfolding last_blank_def by metis
  then show ?thesis using True d by (simp add: erase_unless_last_def erased_within_refl same_flags_refl)
next
  case False
  obtain seg where seg: "find_segment (mem_layout dif) (of_nat x) = Some seg" "pagesize seg = int ps"
      "memtype seg AND DFUSE_ERASABLE \<noteq> 0"
    using range x unfolding flash_range_def by blast
  have ux: "unat (of_nat x :: u32) = x" using x by simp
  define st' where "st' = st \<lparr> last_erased_page := page_start (of_nat x) (int ps) \<rparr>"
  obtain ret d' where e: "dfuse_special_command n U dif (of_nat x) ERASE_PAGE st d = Inr (ret, st', d')"
      "f_idle V d'" "f_mem V d' = flash_erase ps x (f_mem V d)"
    using erase_page_ok [OF dev d(1) seg(1,3), of st] seg(2) unfolding st'_def ux by metis
  have blank: "page_blank ps (f_mem V d') x" by (simp add: page_blank_def e(3) flash_erase_def)
  have "erased_within ps lo hi (f_mem V d) (f_mem V d')"
    using x by (auto simp: erased_within_def e(3) flash_erase_def intro: div_le_mono)
  moreover have "last_blank ps st' (f_mem V d')"
    unfolding last_blank_def st'_def using page_start_eq [OF ps] blank ux
    by (auto simp: page_blank_def)
  ultimately show ?thesis
    using False e blank by (simp add: erase_unless_last_def st'_def same_flags_def)
qed

lemma erase_loop_ok:
  assumes dev: "flash_device U dif ps n V" and range: "flash_range dif ps lo hi"
    and ps: "ps = 2 ^ k" "k < 32" and hi: "b \<le> hi" "hi + ps \<le> 4294967296"
  shows "f_idle V d \<Longrightarrow> last_blank ps st (f_mem V d) \<Longrightarrow> lo \<le> e \<Longrightarrow> e \<le> hi + ps - 1 \<Longrightarrow> b - e \<le> fuel \<Longrightarrow>
    \<exists>st' d'. erase_loop fuel n U dif (of_nat e) (of_nat b) (int ps) st d = Inr (st', d') \<and> f_idle V d' \<and>
      last_blank ps st' (f_mem V d') \<and> erased_within ps lo hi (f_mem V d) (f_mem V d') \<and> same_flags st st' \<and>
      (\<forall>j. e + j * ps < b \<longrightarrow> page_blank ps (f_mem V d') (e + j * ps))"
proof (induction fuel arbitrary: e st d)
  case 0
  then have "\<not> e < b" by simp
  moreover have "\<not> (of_nat e :: u32) < of_nat b"
    using 0 hi ps by (simp add: word_less_nat_alt)
  ultimately show ?case using 0 by (simp add: erased_within_refl same_flags_refl)
next
  case (Suc fuel)
  have pp: "0 < ps" using ps by simp
  have bounds: "b < 4294967296" "e < 4294967296" using hi pp Suc.prems by linarith+
  have less: "(of_nat e :: u32) < of_nat b \<longleftrightarrow> e < b"
    using bounds by (simp add: word_less_nat_alt)
  show ?case
  proof (cases "e < b")
    case False
    then show ?thesis using Suc.prems less by (simp add: erased_within_refl same_flags_refl)
  next
    case True
    have xh: "e < hi" "hi \<le> 4294967296" using True hi by linarith+
    obtain st1 d1 where 1: "erase_unless_last n U dif (of_nat e) (int ps) st d = Inr (st1, d1)" "f_idle V d1"
        "last_blank ps st1 (f_mem V d1)" "page_blank ps (f_mem V d1) e"
        "erased_within ps lo hi (f_mem V d) (f_mem V d1)" "same_flags st st1"
      using erase_unless_last_ok [OF dev range ps Suc.prems(3) xh Suc.prems(1,2)] by blast
    have p: "lo \<le> e + ps" "e + ps \<le> hi + ps - 1" "b - (e + ps) \<le> fuel"
      using Suc.prems True hi pp by linarith+
    obtain st2 d2 where 2: "erase_loop fuel n U dif (of_nat (e + ps)) (of_nat b) (int ps) st1 d1 = Inr (st2, d2)"
        "f_idle V d2" "last_blank ps st2 (f_mem V d2)" "erased_within ps lo hi (f_mem V d1) (f_mem V d2)"
        "same_flags st1 st2" "\<forall>j. e + ps + j * ps < b \<longrightarrow> page_blank ps (f_mem V d2) (e + ps + j * ps)"
      using Suc.IH [OF 1(2,3) p] by blast
    have step: "erase_loop (Suc fuel) n U dif (of_nat e) (of_nat b) (int ps) st d = Inr (st2, d2)"
      using less True 1(1) 2(1) by simp
    have "page_blank ps (f_mem V d2) (e + j * ps)" if "e + j * ps < b" for j
    proof (cases j)
      case 0
      then show ?thesis using page_blank_mono [OF 1(4) 2(4)] by simp
    next
      case (Suc i)
      then show ?thesis using 2(6) that by (metis add.assoc mult_Suc)
    qed
    then show ?thesis
      using step 2 erased_within_trans [OF 1(5) 2(4)] same_flags_trans [OF 1(6) 2(5)] by blast
  qed
qed

text \<open>A chunk: the loop steps from its start by pages, the last byte is looked at on its own.\<close>

lemma page_cover:
  fixes ps :: nat
  assumes "0 < ps" and "e \<le> x" and "x < b"
  shows "\<exists>j. e + j * ps < b \<and> x div ps = (e + j * ps) div ps \<or> x div ps = (b - 1) div ps"
proof -
  define j where "j = (x - e) div ps"
  have ej: "e + j * ps \<le> x" using assms(2) div_times_less_eq_dividend [of "x - e" ps] unfolding j_def by linarith
  have xj: "x < e + (j + 1) * ps"
  proof -
    have "x - e < (j + 1) * ps" using assms(1) by (simp add: j_def dividend_less_div_times)
    then show ?thesis using assms(2) by linarith
  qed
  have d: "(e + i * ps) div ps = e div ps + i" for i using assms(1) by simp
  have lo: "e div ps + j \<le> x div ps" using div_le_mono [OF ej, of ps] d by simp
  have up: "x div ps \<le> e div ps + (j + 1)"
    using div_le_mono [of x "e + (j + 1) * ps" ps] xj d [of "j + 1"] by simp
  show ?thesis
  proof (cases "x div ps = e div ps + j")
    case True
    then show ?thesis using ej assms(3) d [of j] by (intro exI [of _ j]) auto
  next
    case False
    then have xx: "x div ps = e div ps + (j + 1)" using lo up by linarith
    show ?thesis
    proof (cases "e + (j + 1) * ps < b")
      case True
      then show ?thesis using xx d [of "j + 1"] by (intro exI [of _ "j + 1"]) auto
    next
      case False
      then have "b - 1 \<le> e + (j + 1) * ps" by linarith
      then have "(b - 1) div ps \<le> e div ps + (j + 1)" using div_le_mono d [of "j + 1"] by metis
      moreover have "x div ps \<le> (b - 1) div ps" using assms(3) by (intro div_le_mono) simp
      ultimately show ?thesis using xx by simp
    qed
  qed
qed

lemma erase_chunk_ok:
  assumes dev: "flash_device U dif ps n V" and range: "flash_range dif ps lo hi"
    and ps: "ps = 2 ^ k" "k < 32" and e: "lo \<le> e" "0 < c" "e + c \<le> hi" "hi + ps \<le> 4294967296" "c \<le> n"
    and d: "f_idle V d" "last_blank ps st (f_mem V d)"
  shows "\<exists>st' d'. erase_chunk n U dif (of_nat e) (int c) (int ps) st d = Inr (st', d') \<and> f_idle V d' \<and>
    last_blank ps st' (f_mem V d') \<and> erased_within ps lo hi (f_mem V d) (f_mem V d') \<and> same_flags st st' \<and>
    (\<forall>x. e \<le> x \<longrightarrow> x < e + c \<longrightarrow> page_blank ps (f_mem V d') x)"
proof -
  have pp: "0 < ps" using ps by simp
  have bnd: "(of_nat e :: u32) + word_of_int (int c) = of_nat (e + c)" by simp
  have lst: "(of_nat (e + c) :: u32) - 1 = of_nat (e + c - 1)"
    using e by (simp add: of_nat_diff)
  have eh: "e \<le> hi + ps - 1" "e + c - e \<le> n" using e pp by linarith+
  obtain st1 d1 where 1: "erase_loop n n U dif (of_nat e) (of_nat (e + c)) (int ps) st d = Inr (st1, d1)"
      "f_idle V d1" "last_blank ps st1 (f_mem V d1)" "erased_within ps lo hi (f_mem V d) (f_mem V d1)"
      "same_flags st st1" "\<forall>j. e + j * ps < e + c \<longrightarrow> page_blank ps (f_mem V d1) (e + j * ps)"
    using erase_loop_ok [OF dev range ps e(3,4) d e(1) eh] by blast
  have xl: "lo \<le> e + c - 1" "e + c - 1 < hi" "hi \<le> 4294967296" using e pp by linarith+
  obtain st2 d2 where 2: "erase_unless_last n U dif (of_nat (e + c - 1)) (int ps) st1 d1 = Inr (st2, d2)"
      "f_idle V d2" "last_blank ps st2 (f_mem V d2)" "page_blank ps (f_mem V d2) (e + c - 1)"
      "erased_within ps lo hi (f_mem V d1) (f_mem V d2)" "same_flags st1 st2"
    using erase_unless_last_ok [OF dev range ps xl 1(2,3)] by blast
  have "page_blank ps (f_mem V d2) x" if x: "e \<le> x" "x < e + c" for x
  proof -
    from page_cover [OF pp x] obtain j where
      "e + j * ps < e + c \<and> x div ps = (e + j * ps) div ps \<or> x div ps = (e + c - 1) div ps" by blast
    then show ?thesis
      using 1(6) 2(4) page_blank_mono [OF _ 2(5)] unfolding page_blank_def by metis
  qed
  moreover have "erase_chunk n U dif (of_nat e) (int c) (int ps) st d = Inr (st2, d2)"
    unfolding erase_chunk_def bnd lst using 1(1) 2(1) by simp
  ultimately show ?thesis
    using 2 erased_within_trans [OF 1(4) 2(5)] same_flags_trans [OF 1(5) 2(6)] by blast
qed

lemma last_chunk_nat:
  "p < len \<Longrightarrow> last_chunk (int p) (int len) (int xfer) = int (min xfer (len - p))"
  by (auto simp: last_chunk_def)

lemma writeable_Some: "memtype seg AND DFUSE_WRITEABLE \<noteq> 0 \<Longrightarrow> writeable st (Some seg)"
  by (simp add: writeable_def)

lemma erase_pass_ok:
  assumes dev: "flash_device U dif ps n V" and range: "flash_range dif ps A (A + len)"
    and ps: "ps = 2 ^ k" "k < 32" and hi: "A + len + ps \<le> 4294967296" "len \<le> n"
    and x: "0 < xfer" "xfer \<le> 65535" "len + xfer \<le> 2147483647"
  shows "f_idle V d \<Longrightarrow> last_blank ps st (f_mem V d) \<Longrightarrow> \<not> dfuse_mass_erase st \<Longrightarrow> len - p \<le> fuel \<Longrightarrow>
    \<exists>st' d'. erase_pass fuel n U dif (of_nat A) (int len) (int xfer) (int p) st d = Inr (st', d') \<and>
      f_idle V d' \<and> last_blank ps st' (f_mem V d') \<and>
      erased_within ps A (A + len) (f_mem V d) (f_mem V d') \<and> same_flags st st' \<and>
      (\<forall>y. A + p \<le> y \<longrightarrow> y < A + len \<longrightarrow> page_blank ps (f_mem V d') y)"
proof (induction fuel arbitrary: p st d)
  case 0
  then show ?case by (auto simp: erased_within_refl same_flags_refl)
next
  case (Suc fuel)
  show ?case
  proof (cases "p < len")
    case False
    then show ?thesis using Suc.prems by (auto simp: erased_within_refl same_flags_refl)
  next
    case True
    define c where "c = min xfer (len - p)"
    have c: "0 < c" "A + p + c \<le> A + len" "c \<le> n" "A \<le> A + p" using True x hi by (auto simp: c_def)
    obtain seg where seg: "find_segment (mem_layout dif) (of_nat (A + p)) = Some seg" "pagesize seg = int ps"
        "memtype seg AND DFUSE_ERASABLE \<noteq> 0" "memtype seg AND DFUSE_WRITEABLE \<noteq> 0"
      using range True unfolding flash_range_def by (metis le_add1 nat_add_left_cancel_less)
    have ad: "(of_nat A :: u32) + word_of_int (int p) = of_nat (A + p)" by simp
    have nx: "int_ok (int p + int xfer) = Inr (int (p + xfer))"
      using True x by (simp add: int_ok_def)
    obtain st1 d1 where 1: "erase_chunk n U dif (of_nat (A + p)) (int c) (int ps) st d = Inr (st1, d1)"
        "f_idle V d1" "last_blank ps st1 (f_mem V d1)"
        "erased_within ps A (A + len) (f_mem V d) (f_mem V d1)" "same_flags st st1"
        "\<forall>y. A + p \<le> y \<longrightarrow> y < A + p + c \<longrightarrow> page_blank ps (f_mem V d1) y"
      using erase_chunk_ok [OF dev range ps c(4,1,2) hi(1) c(3) Suc.prems(1,2)] by blast
    have nm: "\<not> dfuse_mass_erase st1"
      using 1(5) Suc.prems(3) by (metis dfuse_st.ext_inject dfuse_st.surjective dfuse_st.update_convs(1) same_flags_def)
    have fl: "len - (p + xfer) \<le> fuel" using Suc.prems(4) x True by linarith
    obtain st2 d2 where 2: "erase_pass fuel n U dif (of_nat A) (int len) (int xfer) (int (p + xfer)) st1 d1 = Inr (st2, d2)"
        "f_idle V d2" "last_blank ps st2 (f_mem V d2)"
        "erased_within ps A (A + len) (f_mem V d1) (f_mem V d2)" "same_flags st1 st2"
        "\<forall>y. A + (p + xfer) \<le> y \<longrightarrow> y < A + len \<longrightarrow> page_blank ps (f_mem V d2) y"
      using Suc.IH [OF 1(2,3) nm fl] by blast
    have "erase_pass (Suc fuel) n U dif (of_nat A) (int len) (int xfer) (int p) st d = Inr (st2, d2)"
      unfolding erase_pass.simps ad seg(1) last_chunk_nat [OF True] c_def [symmetric] Let_def nx
      using True seg writeable_Some [OF seg(4), of st] Suc.prems(3) 1(1) 2(1) by simp
    moreover have "page_blank ps (f_mem V d2) y" if y: "A + p \<le> y" "y < A + len" for y
    proof (cases "y < A + p + c")
      case True
      then show ?thesis using 1(6) y page_blank_mono [OF _ 2(4)] by blast
    next
      case False
      then have "A + (p + xfer) \<le> y" using y by (auto simp: c_def)
      then show ?thesis using 2(6) y by blast
    qed
    ultimately show ?thesis
      using 2 erased_within_trans [OF 1(4) 2(4)] same_flags_trans [OF 1(5) 2(5)] by blast
  qed
qed

subsection \<open>The write pass\<close>

text \<open>The memory with an element in it.\<close>

definition overlay :: "nat \<Rightarrow> byte list \<Rightarrow> (nat \<Rightarrow> byte) \<Rightarrow> nat \<Rightarrow> byte" where
  "overlay a bs m = (\<lambda>x. if a \<le> x \<and> x < a + length bs then bs ! (x - a) else m x)"

lemma program_blank:
  assumes "\<forall>y. a \<le> y \<longrightarrow> y < a + length bs \<longrightarrow> m y = 0xFF"
  shows "flash_program a bs m = overlay a bs m"
proof
  fix x
  have "(0xFF :: byte) = - 1" by simp
  then have "(0xFF :: byte) AND b = b" for b by (metis and.left_neutral)
  then show "flash_program a bs m x = overlay a bs m x"
    using assms by (simp add: flash_program_def overlay_def)
qed

lemma overlay_Nil [simp]: "overlay a [] m = m"
  by (rule ext) (auto simp: overlay_def)

lemma overlay_append: "overlay (a + length xs) ys (overlay a xs m) = overlay a (xs @ ys) m"
  by (rule ext) (auto simp: overlay_def nth_append)

lemma write_pass_ok:
  assumes dev: "flash_device U dif ps n V" and hi: "A + len \<le> 4294967296"
    and fw: "data + len \<le> length fw"
    and x: "0 < xfer" "xfer \<le> 65535" "len + xfer \<le> 2147483647"
    and st: "\<not> dfuse_will_reset st"
  shows "f_idle V d \<Longrightarrow> (\<forall>y. A + p \<le> y \<longrightarrow> y < A + len \<longrightarrow> f_mem V d y = 0xFF) \<Longrightarrow> p \<le> len \<Longrightarrow> len - p \<le> fuel \<Longrightarrow>
    \<exists>d'. write_pass fuel n U dif (of_nat A) (int len) fw data (int xfer) (int p) st d = Inr (st, d') \<and>
      f_idle V d' \<and> f_mem V d' = overlay (A + p) (take (len - p) (drop (data + p) fw)) (f_mem V d)"
proof (induction fuel arbitrary: p d)
  case 0
  then show ?case by auto
next
  case (Suc fuel)
  show ?case
  proof (cases "p < len")
    case False
    then show ?thesis using Suc.prems by auto
  next
    case True
    define c where "c = min xfer (len - p)"
    define bs where "bs = take c (drop (data + p) fw)"
    have c: "0 < c" "c \<le> 65535" "p + c \<le> len" using True x by (auto simp: c_def)
    have lb: "length bs = c" using c fw by (simp add: bs_def)
    have ne: "bs \<noteq> []" "length bs \<le> 65535" using lb c by auto
    have ad: "(of_nat A :: u32) + word_of_int (int p) = of_nat (A + p)" by simp
    have ua: "unat (of_nat (A + p) :: u32) = A + p"
      using True hi by (intro unat_of_nat_u32) linarith
    have nx: "int_ok (int p + int xfer) = Inr (int (p + xfer))"
      using True x by (simp add: int_ok_def)
    have uc: "unat (word_of_int (int c) :: u16) = c" using c by (simp add: unat_of_nat)
    have rd: "mread (data + nat (int p)) c fw = Inr bs" using c fw by (simp add: mread_def bs_def)
    obtain ret d1 where 1: "dfuse_special_command n U dif (of_nat (A + p)) SET_ADDRESS st d = Inr (ret, st, d1)"
        "f_idle V d1" "f_mem V d1 = f_mem V d" "f_ptr V d1 = of_nat (A + p)"
      using set_address_ok [OF dev Suc.prems(1)] by blast
    obtain d2 where 2: "dfuse_dnload_chunk n U dif bs 2 st d1 = Inr (int c, d2)" "f_idle V d2"
        "f_mem V d2 = flash_program (A + p) bs (f_mem V d)"
      using dnload_chunk_ok [OF dev 1(2) ne st] unfolding 1(3,4) ua lb by blast
    have m2: "f_mem V d2 = overlay (A + p) bs (f_mem V d)"
      unfolding 2(3) using Suc.prems(2) c lb by (intro program_blank) auto
    show ?thesis
    proof (cases "p + xfer \<le> len")
      case True
      then have cx: "c = xfer" using \<open>p < len\<close> by (simp add: c_def)
      have blank: "\<forall>y. A + (p + xfer) \<le> y \<longrightarrow> y < A + len \<longrightarrow> f_mem V d2 y = 0xFF"
        using Suc.prems(2) lb cx by (simp add: m2 overlay_def)
      have fl: "len - (p + xfer) \<le> fuel" using Suc.prems(4) x True by linarith
      obtain d3 where 3: "write_pass fuel n U dif (of_nat A) (int len) fw data (int xfer) (int (p + xfer)) st d2 = Inr (st, d3)"
          "f_idle V d3" "f_mem V d3 = overlay (A + (p + xfer)) (take (len - (p + xfer)) (drop (data + (p + xfer)) fw)) (f_mem V d2)"
        using Suc.IH [OF 2(2) blank True fl] by blast
      have "write_pass (Suc fuel) n U dif (of_nat A) (int len) fw data (int xfer) (int p) st d = Inr (st, d3)"
        unfolding write_pass.simps ad nx rbind_Inr last_chunk_nat [OF \<open>p < len\<close>] c_def [symmetric] Let_def uc rd
        using \<open>p < len\<close> 1(1) 2(1) 3(1) by simp
      moreover have "f_mem V d3 = overlay (A + p) (take (len - p) (drop (data + p) fw)) (f_mem V d)"
      proof -
        have "bs @ take (len - (p + xfer)) (drop (data + (p + xfer)) fw) = take (len - p) (drop (data + p) fw)"
        proof -
          have l: "len - p = xfer + (len - (p + xfer))" using True by simp
          have "drop (data + (p + xfer)) fw = drop xfer (drop (data + p) fw)" by (simp add: ac_simps)
          then show ?thesis by (subst l) (simp add: bs_def cx take_add)
        qed
        then show ?thesis
          unfolding 3(3) m2 using overlay_append [of "A + p" bs] lb cx by (simp add: add.assoc)
      qed
      ultimately show ?thesis using 3(2) by blast
    next
      case False
      then have cl: "c = len - p" using \<open>p < len\<close> by (simp add: c_def)
      have "write_pass fuel n U dif (of_nat A) (int len) fw data (int xfer) (int (p + xfer)) st d2 = Inr (st, d2)"
        using False by (cases fuel) simp_all
      then have "write_pass (Suc fuel) n U dif (of_nat A) (int len) fw data (int xfer) (int p) st d = Inr (st, d2)"
        unfolding write_pass.simps ad nx rbind_Inr last_chunk_nat [OF \<open>p < len\<close>] c_def [symmetric] Let_def uc rd
        using \<open>p < len\<close> 1(1) 2(1) by simp
      then show ?thesis using 2(2) m2 cl by (simp add: bs_def)
    qed
  qed
qed

subsection \<open>The element\<close>

lemma dnload_element_ok:
  assumes dev: "flash_device U dif ps n V" and range: "flash_range dif ps A (A + len)"
    and ps: "ps = 2 ^ k" "k < 32" and hi: "A + len + ps \<le> 4294967296" "0 < len" "len \<le> n"
    and fw: "data + len \<le> length fw"
    and x: "0 < xfer" "xfer \<le> 65535" "len + xfer \<le> 2147483647"
    and st: "\<not> dfuse_will_reset st" "\<not> dfuse_mass_erase st"
    and d: "f_idle V d" "last_blank ps st (f_mem V d)"
  shows "\<exists>st' d' m. dfuse_dnload_element n U dif (of_nat A) (of_nat len) fw data (int xfer) st d = Inr (st', d') \<and>
    f_idle V d' \<and> same_flags st st' \<and> erased_within ps A (A + len) (f_mem V d) m \<and>
    f_mem V d' = overlay A (take len (drop data fw)) m"
proof -
  have last: "(of_nat A :: u32) + of_nat len - 1 = of_nat (A + len - 1)"
    using hi by (simp add: of_nat_diff)
  obtain seg where seg: "find_segment (mem_layout dif) (of_nat (A + len - 1)) = Some seg"
      "memtype seg AND DFUSE_WRITEABLE \<noteq> 0"
    using range hi(2) unfolding flash_range_def by (metis One_nat_def add_gr_0 diff_Suc_less le_add1 le_diff_conv2
        less_one linorder_not_less nat_add_left_cancel_le not_less_eq_eq)
  have sn: "sint (of_nat len :: u32) = int len"
  proof -
    have "signed_take_bit 31 (int len) = int len"
      using x by (intro signed_take_bit_int_eq_self) simp_all
    then show ?thesis by (simp add: signed_of_nat)
  qed
  obtain st1 d1 where 1: "erase_pass n n U dif (of_nat A) (int len) (int xfer) (int 0) st d = Inr (st1, d1)"
      "f_idle V d1" "erased_within ps A (A + len) (f_mem V d) (f_mem V d1)" "same_flags st st1"
      "\<forall>y. A + 0 \<le> y \<longrightarrow> y < A + len \<longrightarrow> page_blank ps (f_mem V d1) y"
    using erase_pass_ok [OF dev range ps hi(1,3) x d st(2), of 0 n] hi(3) by fastforce
  have nr: "\<not> dfuse_will_reset st1"
    using 1(4) st(1) by (metis dfuse_st.ext_inject dfuse_st.surjective dfuse_st.update_convs(1) same_flags_def)
  have blank: "\<forall>y. A + 0 \<le> y \<longrightarrow> y < A + len \<longrightarrow> f_mem V d1 y = 0xFF"
    using 1(5) unfolding page_blank_def by blast
  have h2: "A + len \<le> 4294967296" using hi(1) by linarith
  obtain d2 where 2: "write_pass n n U dif (of_nat A) (int len) fw data (int xfer) (int 0) st1 d1 = Inr (st1, d2)"
      "f_idle V d2" "f_mem V d2 = overlay (A + 0) (take (len - 0) (drop (data + 0) fw)) (f_mem V d1)"
    using write_pass_ok [OF dev h2 fw x nr 1(2) blank, of n] hi(3) by fastforce
  have "dfuse_dnload_element n U dif (of_nat A) (of_nat len) fw data (int xfer) st d = Inr (st1, d2)"
    unfolding dfuse_dnload_element_def last seg(1) sn
    using writeable_Some [OF seg(2), of st] 1(1) 2(1) by simp
  then show ?thesis using 1(3,4) 2(2,3) by fastforce
qed

subsection \<open>Properties\<close>

text \<open>
  C23. Downloading a raw file to a range of flash pages returns, and then the memory holds the
  payload of the file, without prefix and suffix, byte for byte from the start address on; all
  other bytes are as before or erased, and every page outside the range is as before.
\<close>
theorem bin_dnload_programs_flash:
  assumes "flash_device U dif ps n V" and "ps = 2 ^ k" and "1 \<le> k" and "k < 32"
    and "flash_range dif ps A (A + len)" and "A + len + ps \<le> 4294967296"
    and "len = total file - suffix_size file - prefix_size file" and "0 < len" and "len \<le> n"
    and "prefix_size file + suffix_size file \<le> total file" and "total file \<le> length (firmware file)"
    and "0 < xfer" and "xfer \<le> 65535" and "len + xfer \<le> 2147483647"
    and "last_erased_page st = 1" and "\<not> dfuse_will_reset st" and "\<not> dfuse_mass_erase st"
    and "f_idle V d"
  shows "\<exists>st' d'. dfuse_do_bin_dnload n U dif (int xfer) file (of_nat A) st d = Inr (st', d') \<and>
    (\<forall>i<len. f_mem V d' (A + i) = firmware file ! (prefix_size file + i)) \<and>
    (\<forall>y. y < A \<or> A + len \<le> y \<longrightarrow> f_mem V d' y = f_mem V d y \<or> f_mem V d' y = 0xFF) \<and>
    (\<forall>y. y div ps < A div ps \<or> (A + len - 1) div ps < y div ps \<longrightarrow> f_mem V d' y = f_mem V d y)"
proof -
  have "page_start a (int ps) \<noteq> 1" for a
  proof
    assume e: "page_start a (int ps) = 1"
    have "unat a div 2 ^ k * 2 ^ k = unat (page_start a (int ps))"
      unfolding assms(2) by (rule page_start_unat [OF assms(4), symmetric])
    also have "\<dots> = 1" unfolding e by (rule unsigned_1)
    finally have "unat a div 2 ^ k * 2 ^ k = 1" .
    then have "k = 0" by simp
    then show False using assms(3) by simp
  qed
  then have lb: "last_blank ps st (f_mem V d)" by (simp add: last_blank_def assms(15))
  have fw: "prefix_size file + len \<le> length (firmware file)" using assms(7,10,11) by linarith
  obtain st' d' m where 1: "dfuse_dnload_element n U dif (of_nat A) (of_nat len) (firmware file)
      (prefix_size file) (int xfer) st d = Inr (st', d')"
    and 2: "erased_within ps A (A + len) (f_mem V d) m"
    and 3: "f_mem V d' = overlay A (take len (drop (prefix_size file) (firmware file))) m"
    using dnload_element_ok [OF assms(1,5,2,4,6,8,9) fw assms(12-14,16-18) lb] by blast
  have len: "int (total file) - int (suffix_size file) - int (prefix_size file) = int len"
    using assms(7,10) by linarith
  have lp: "length (take len (drop (prefix_size file) (firmware file))) = len" using fw by simp
  have r: "dfuse_do_bin_dnload n U dif (int xfer) file (of_nat A) st d = Inr (st', d')"
    unfolding dfuse_do_bin_dnload_def len using 1 by simp
  have c: "\<forall>i<len. f_mem V d' (A + i) = firmware file ! (prefix_size file + i)"
    unfolding 3 overlay_def lp using fw by simp
  have o: "f_mem V d' y = m y" if "y < A \<or> A + len \<le> y" for y
    unfolding 3 overlay_def lp using that by auto
  have e: "m y = f_mem V d y \<or> m y = 0xFF \<and> A div ps \<le> y div ps \<and> y div ps \<le> (A + len - 1) div ps" for y
    using 2 by (auto simp: erased_within_def)
  have p: "y < A \<or> A + len \<le> y" if "y div ps < A div ps \<or> (A + len - 1) div ps < y div ps" for y
  proof (rule ccontr)
    assume "\<not> (y < A \<or> A + len \<le> y)"
    then have "A \<le> y" "y \<le> A + len - 1" by linarith+
    then have "A div ps \<le> y div ps" "y div ps \<le> (A + len - 1) div ps" by (simp_all add: div_le_mono)
    then show False using that by linarith
  qed
  have "\<forall>y. y div ps < A div ps \<or> (A + len - 1) div ps < y div ps \<longrightarrow> f_mem V d' y = f_mem V d y"
    using o p e by (metis linorder_not_less)
  then show ?thesis using r c o e by (metis (no_types, lifting))
qed

subsection \<open>Witness\<close>

text \<open>A flash device with pages of 16 KiB that is busy once behind a command or a block.\<close>

record flash_dev =
  fd_phase :: nat           \<comment> \<open>0 idle, 1 executing a command, 2 programming\<close>
  fd_busy :: nat
  fd_mem :: "nat \<Rightarrow> byte"
  fd_ptr :: u32

definition flash_control ::
    "byte \<Rightarrow> byte \<Rightarrow> u16 \<Rightarrow> u16 \<Rightarrow> byte list \<Rightarrow> nat \<Rightarrow> flash_dev \<Rightarrow> int \<times> byte list \<times> flash_dev" where
  "flash_control ty req v ix data len d =
     (if req = DFU_DNLOAD \<and> v = 0 \<and> data ! 0 = 0x21 then
        (int len, [], d \<lparr> fd_phase := 1, fd_busy := 1, fd_ptr := rd32 (drop 1 data) \<rparr>)
      else if req = DFU_DNLOAD \<and> v = 0 \<and> data ! 0 = 0x41 then
        (int len, [], d \<lparr> fd_phase := 1, fd_busy := 1,
           fd_mem := flash_erase 16384 (unat (rd32 (drop 1 data))) (fd_mem d) \<rparr>)
      else if req = DFU_DNLOAD \<and> v = 2 then
        (int len, [], d \<lparr> fd_phase := 2, fd_busy := 1,
           fd_mem := flash_program (unat (fd_ptr d)) data (fd_mem d) \<rparr>)
      else if req = DFU_GETSTATUS \<and> fd_busy d = 0 then
        (6, [0, 0, 0, 0, STATE_DFU_DNLOAD_IDLE, 0], d \<lparr> fd_phase := 0 \<rparr>)
      else if req = DFU_GETSTATUS then
        (6, [0, 1, 0, 0, STATE_DFU_DNBUSY, 0], d \<lparr> fd_busy := 0 \<rparr>)
      else (0, [], d))"

definition flash_usb :: "flash_dev usb" where
  "flash_usb = \<lparr> control = flash_control, milli_sleep = (\<lambda>_ d. d), reset_device = (\<lambda>d. (0, d)),
     set_alt_setting = (\<lambda>_ _ d. (0, d)) \<rparr>"

definition flash_if :: dfu_if where
  "flash_if = \<lparr> quirks = 0, if_vendor = 0x0483, if_product = 0xdf11, if_bcdDevice = 0x2200, if_dev = 1,
     configuration = 1, interface = 0, altsetting = 0, alt_name = ''@Internal Flash  /0x08000000/04*016Kg'',
     serial_name = None,
     mem_layout = [\<lparr> seg_start = 0x08000000, seg_end = 0x0800FFFF, pagesize = 16384, memtype = 7 \<rparr>] \<rparr>"

definition flash_demo_view :: "flash_dev flash_view" where
  "flash_demo_view = \<lparr> f_idle = (\<lambda>d. fd_phase d = 0), f_command = (\<lambda>d. fd_phase d = 1),
     f_writing = (\<lambda>d. fd_phase d = 2), f_busy = (\<lambda>d. min (fd_busy d) 1), f_mem = fd_mem, f_ptr = fd_ptr \<rparr>"

definition flash_demo_start :: flash_dev where
  "flash_demo_start = \<lparr> fd_phase = 0, fd_busy = 0, fd_mem = (\<lambda>_. 0), fd_ptr = 0 \<rparr>"

definition flash_demo_file :: dfu_file where
  "flash_demo_file = \<lparr> fname = ''f'', firmware = [1, 2, 3, 4, 5], total = 5, prefix_size = 0, suffix_size = 0,
     lmdfu_address = 0, prefix_kind = ZERO_PREFIX, dwCRC = 0, bcdDFU = 0, idVendor = 0,
     idProduct = 0, bcdDevice = 0 \<rparr>"

lemma flash_demo_device: "flash_device flash_usb flash_if 16384 100 flash_demo_view"
proof -
  have "takes_commands flash_usb flash_if 16384 flash_demo_view"
    by (simp add: takes_commands_def flash_usb_def flash_demo_view_def flash_control_def dfu_requests)
  moreover have "reports_command flash_usb flash_if flash_demo_view"
    by (auto simp: reports_command_def flash_usb_def flash_demo_view_def flash_control_def dfu_requests
        dfu_get_status_def dfu_states pause_def Let_def flash_if_def has_quirk_def)
  moreover have "programs flash_usb flash_if flash_demo_view"
    by (auto simp: programs_def flash_usb_def flash_demo_view_def flash_control_def dfu_requests
        dfu_get_status_def dfu_states pause_def Let_def)
  ultimately show ?thesis
    by (simp add: flash_device_def flash_demo_view_def min_less_iff_disj)
qed

lemma flash_demo_range: "flash_range flash_if 16384 0x08000000 (0x08000000 + 5)"
  by (auto simp: flash_range_def flash_if_def word_le_nat_alt DFUSE_ERASABLE_def DFUSE_WRITEABLE_def)

theorem bin_dnload_programs_flash_witness:
  "\<exists>st' d'. dfuse_do_bin_dnload 100 flash_usb flash_if (int 2) flash_demo_file (of_nat 0x08000000)
      dfuse_init flash_demo_start = Inr (st', d') \<and> fd_mem d' 0x08000004 = 5 \<and> fd_mem d' 0 = 0"
proof -
  let ?f = flash_demo_file
  have h: "(16384 :: nat) = 2 ^ 14" "1 \<le> (14 :: nat)" "(14 :: nat) < 32"
    "0x08000000 + 5 + 16384 \<le> (4294967296 :: nat)" "0 < (5 :: nat)" "5 \<le> (100 :: nat)"
    "0 < (2 :: nat)" "2 \<le> (65535 :: nat)" "5 + 2 \<le> (2147483647 :: nat)"
    by simp_all
  have f: "5 = total ?f - suffix_size ?f - prefix_size ?f" "prefix_size ?f + suffix_size ?f \<le> total ?f"
    "total ?f \<le> length (firmware ?f)" "prefix_size ?f = 0" "firmware ?f = [1, 2, 3, 4, 5]"
    by (simp_all add: flash_demo_file_def)
  have s: "last_erased_page dfuse_init = 1" "\<not> dfuse_will_reset dfuse_init"
    "\<not> dfuse_mass_erase dfuse_init" "f_idle flash_demo_view flash_demo_start"
    by (simp_all add: dfuse_init_def flash_demo_view_def flash_demo_start_def)
  obtain st' d' where r: "dfuse_do_bin_dnload 100 flash_usb flash_if (int 2) ?f (of_nat 0x08000000)
      dfuse_init flash_demo_start = Inr (st', d')"
    and c: "\<forall>i<5. f_mem flash_demo_view d' (0x08000000 + i) = firmware ?f ! (prefix_size ?f + i)"
    and o: "\<forall>y. y div 16384 < 0x08000000 div 16384 \<or> (0x08000000 + 5 - 1) div 16384 < y div 16384 \<longrightarrow>
      f_mem flash_demo_view d' y = f_mem flash_demo_view flash_demo_start y"
    using bin_dnload_programs_flash [OF flash_demo_device h(1-3) flash_demo_range h(4) f(1) h(5,6) f(2,3)
        h(7-9) s] by blast
  have "fd_mem d' 0x08000004 = 5"
    using c [rule_format, of 4] by (simp add: flash_demo_view_def f(4,5))
  moreover have "fd_mem d' 0 = 0"
    using o [rule_format, of 0] by (simp add: flash_demo_view_def flash_demo_start_def)
  ultimately show ?thesis using r by blast
qed

end
