(* ===== verification/DfuseFiles.thy ===== *)
theory DfuseFiles
  imports DfuLoad Dfuse DfuseLayout
begin

unbundle bit_operations_syntax

text \<open>
  The inputs of the DfuSe download: the option string of the command line, and DfuSe files.
  The parser of the options returns on every string and reads complete keywords; it leaves the
  string on an abbreviated one.  An element whose size is negative as an int passes the check
  on its size and moves the read pointer back.
\<close>

subsection \<open>Options\<close>

lemma strtoul0_shorter: "length (snd (strtoul0 s)) \<le> length s"
proof -
  obtain neg t where t: "scan_sign s = (neg, t)" by fastforce
  have d: "length (dropWhile P u) \<le> length s" if "length u \<le> length s" for P and u :: string
    using that length_dropWhile_le [of P u] by linarith
  show ?thesis
    using scan_sign_length [OF t] by (auto simp: strtoul0_def t Let_def intro!: d)
qed

lemma option_word_ne: "s \<noteq> [] \<Longrightarrow> take 1 s \<noteq> '':'' \<Longrightarrow> option_word s \<noteq> []"
  by (cases s) (auto simp: option_word_def)

lemma parse_option_shorter:
  assumes "parse_option s st = Inr (r, st')" and "s \<noteq> []"
  shows "length r < length s"
proof (cases "take 1 s = '':''")
  case True
  then show ?thesis using assms by (cases s) (auto simp: parse_option_def)
next
  case False
  have w: "0 < length (option_word s)" using option_word_ne [OF assms(2) False] by simp
  then have "length (drop (length (option_word s)) s) < length s" using w assms(2) by simp
  then show ?thesis
    using assms False
    by (auto simp: parse_option_def rbind_eq_Inr dest!: advance_Inr split: if_splits prod.splits)
qed

lemma parse_option_no_fuel: "parse_option s st \<noteq> Inl (Undef OutOfFuel)"
  by (auto simp: parse_option_def rbind_eq_Inl split: if_splits prod.splits)

lemma options_loop_stops: "length s \<le> n \<Longrightarrow> options_loop n s st \<noteq> Inl (Undef OutOfFuel)"
proof (induction n arbitrary: s st)
  case 0
  then show ?case by simp
next
  case (Suc n)
  show ?case
  proof (cases "s = []")
    case False
    then show ?thesis
      using Suc parse_option_no_fuel [of s st] parse_option_shorter [of s st]
      by (auto simp: rbind_eq_Inl)
  qed simp
qed

text \<open>The effect of each keyword.\<close>

definition option_keywords :: "string list" where
  "option_keywords = [''force'', ''leave'', ''unprotect'', ''mass-erase'', ''will-reset'']"

definition apply_keyword :: "string \<Rightarrow> dfuse_st \<Rightarrow> dfuse_st" where
  "apply_keyword k st =
     (if k = ''force'' then st \<lparr> dfuse_force := dfuse_force st + 1 \<rparr>
      else if k = ''leave'' then st \<lparr> dfuse_leave := True \<rparr>
      else if k = ''unprotect'' then st \<lparr> dfuse_unprotect := True \<rparr>
      else if k = ''mass-erase'' then st \<lparr> dfuse_mass_erase := True \<rparr>
      else st \<lparr> dfuse_will_reset := True \<rparr>)"

lemma option_word_keyword:
  assumes "list_all (\<lambda>c. c \<noteq> CHR '':'') w" and "r = [] \<or> hd r = CHR '':''"
  shows "option_word (w @ r) = w"
  using assms takeWhile_stop(1) [of "\<lambda>c. c \<noteq> CHR '':''" w "CHR '':''" "tl r"]
  by (cases r) (auto simp: option_word_def)

text \<open>A non-empty beginning of a keyword is taken for it; the pointer moves by the keyword's length.\<close>

lemma parse_option_prefix:
  assumes "k \<in> set option_keywords" and "w \<noteq> []" and "w = take (length w) k"
    and "r = [] \<or> hd r = CHR '':''"
  shows "parse_option (w @ r) st = rbind (advance (length k) (w @ r)) (\<lambda>s. Inr (s, apply_keyword k st))"
proof -
  have "list_all (\<lambda>c. c \<noteq> CHR '':'') k" using assms(1) by (auto simp: option_keywords_def)
  then have "list_all (\<lambda>c. c \<noteq> CHR '':'') w"
    by (metis assms(3) append_take_drop_id list_all_append)
  then have ow: "option_word (w @ r) = w" using assms(4) by (rule option_word_keyword)
  obtain c w' where w: "w = c # w'" using assms(2) by (cases w) auto
  then have c: "hd k = c" using assms(3) by (cases k) auto
  have kw: "keyword (w @ r) j \<longleftrightarrow> k = j" if j: "j \<in> set option_keywords" for j
  proof
    assume "keyword (w @ r) j"
    then have "take (length w) j = w" by (simp add: keyword_def ow)
    then have "hd j = c" by (cases j) (auto simp: w)
    then show "k = j" using c j assms(1) by (auto simp: option_keywords_def)
  qed (use assms(3) in \<open>simp add: keyword_def ow\<close>)
  have ks: "''force'' \<in> set option_keywords" "''leave'' \<in> set option_keywords"
    "''unprotect'' \<in> set option_keywords" "''mass-erase'' \<in> set option_keywords"
    "''will-reset'' \<in> set option_keywords" by (simp_all add: option_keywords_def)
  have nc: "(take 1 (w @ r) = '':'') = False" using \<open>list_all (\<lambda>c. c \<noteq> CHR '':'') w\<close> by (simp add: w)
  have "k = ''force'' \<or> k = ''leave'' \<or> k = ''unprotect'' \<or> k = ''mass-erase'' \<or> k = ''will-reset''"
    using assms(1) by (simp add: option_keywords_def)
  then show ?thesis
    unfolding parse_option_def nc if_False kw [OF ks(1)] kw [OF ks(2)] kw [OF ks(3)] kw [OF ks(4)] kw [OF ks(5)]
    by (elim disjE) (simp_all add: apply_keyword_def numeral_eq_Suc)
qed

lemma options_loop_keywords:
  "set ks \<subseteq> set option_keywords \<Longrightarrow> length (concat (map ((#) (CHR '':'')) ks)) \<le> n \<Longrightarrow>
   options_loop n (concat (map ((#) (CHR '':'')) ks)) st = Inr (fold apply_keyword ks st)"
proof (induction ks arbitrary: n st)
  case Nil
  then show ?case by (cases n) simp_all
next
  case (Cons k ks)
  define r where "r = concat (map ((#) (CHR '':'')) ks)"
  have k: "k \<in> set option_keywords" "k \<noteq> []" using Cons.prems by (auto simp: option_keywords_def)
  have r: "r = [] \<or> hd r = CHR '':''" by (cases ks) (auto simp: r_def)
  have h: "Suc (Suc (length r)) \<le> n" using Cons.prems(2) k(2) by (cases k) (simp_all add: r_def)
  define n' where "n' = n - 2"
  have n': "n = Suc (Suc n')" "length r \<le> n'" using h unfolding n'_def by linarith+
  have p1: "parse_option (CHR '':'' # k @ r) st = Inr (k @ r, st)" by (simp add: parse_option_def)
  have p2: "parse_option (k @ r) st = Inr (r, apply_keyword k st)"
    using parse_option_prefix [OF k _ r, of st] by (simp add: advance_def)
  have "options_loop n' r (apply_keyword k st) = Inr (fold apply_keyword ks (apply_keyword k st))"
    using Cons.IH [of n' "apply_keyword k st"] Cons.prems(1) n'(2) by (simp add: r_def)
  then show ?case using p1 p2 k(2) by (simp add: n'(1) r_def [symmetric])
qed

text \<open>
  dfuse_parse_options returns on every string, with the options, with an error exit or by
  leaving the string, but it never loops.
\<close>
theorem options_terminate: "dfuse_parse_options s st \<noteq> Inl (Undef OutOfFuel)"
  using options_loop_stops by (auto simp: dfuse_parse_options_def Let_def split: prod.splits)

text \<open>
  A list of keywords, each behind a colon, sets exactly the options it names, in any order
  and number.
\<close>
theorem options_keywords:
  assumes "set ks \<subseteq> set option_keywords"
  shows "dfuse_parse_options (concat (map ((#) (CHR '':'')) ks)) st =
    (if ks = [] then dfuse_parse_options [] st else Inr (fold apply_keyword ks st))"
  using options_loop_keywords [OF assms order_refl, of st]
  by (cases ks) (auto simp: dfuse_parse_options_def)

text \<open>
  An abbreviated keyword at the end of the options is accepted as the keyword, but the
  pointer moves by the length of the whole keyword: the parser reads outside the string.
\<close>
theorem abbreviated_option_leaves_string:
  assumes "k \<in> set option_keywords" and "w \<noteq> []" and "length w < length k" and "w = take (length w) k"
  shows "dfuse_parse_options (CHR '':'' # w) st = Inl (Undef OobRead)"
proof -
  obtain n where n: "length w = Suc n" using assms(2) by (cases w) auto
  have "parse_option w st = Inl (Undef OobRead)"
    using parse_option_prefix [OF assms(1,2,4), of "[]" st] assms(3) by (simp add: advance_def)
  then show ?thesis
    using assms(2) n by (simp add: dfuse_parse_options_def parse_option_def [of "CHR '':'' # w"])
qed

theorem options_keywords_witness:
  "dfuse_parse_options '':force:leave:force'' dfuse_init =
     Inr (dfuse_init \<lparr> dfuse_force := 2, dfuse_leave := True \<rparr>)"
  using options_keywords [of "[''force'', ''leave'', ''force'']" dfuse_init]
  by (simp add: option_keywords_def apply_keyword_def dfuse_init_def)

theorem abbreviated_option_leaves_string_witness:
  "dfuse_parse_options '':leav'' dfuse_init = Inl (Undef OobRead)"
  using abbreviated_option_leaves_string [of "''leave''" "''leav''" dfuse_init]
  by (simp add: option_keywords_def)

subsection \<open>DfuSe files\<close>

text \<open>The start of a DfuSe file: the header, and one image without a name.\<close>

definition dfuse_header :: "byte \<Rightarrow> byte list" where
  "dfuse_header targets = ascii ''DfuSe'' @ [1] @ replicate 4 0 @ [targets]"

definition target_header :: "byte \<Rightarrow> u32 \<Rightarrow> byte list" where
  "target_header alt elements = ascii ''Target'' @ [alt, 0] @ replicate 262 0 @ le32 elements"

lemma target_header_fields:
  "length (target_header alt e) = 274" "take 6 (target_header alt e) = ascii ''Target''"
  "target_header alt e ! 6 = alt" "target_header alt e ! 7 = 0" "drop 270 (target_header alt e) = le32 e"
  by (simp_all add: target_header_def nth_append)

lemma dfuse_header_fields:
  "length (dfuse_header t) = 11" "take 5 (dfuse_header t) = ascii ''DfuSe''"
  "dfuse_header t ! 5 = 1" "dfuse_header t ! 10 = t"
  by (simp_all add: dfuse_header_def nth_append)

lemma quad2uint_le32: "quad2uint (le32 w @ r) = w"
proof -
  have l: "le32 w = [le32 w ! 0, le32 w ! 1, le32 w ! 2, le32 w ! 3]"
    by (intro nth_equalityI) (auto simp: less_Suc_eq numeral_eq_Suc)
  have "quad2uint (le32 w @ r) = rd32 [le32 w ! 0, le32 w ! 1, le32 w ! 2, le32 w ! 3]"
    by (simp add: quad2uint_def nth_append)
  then show ?thesis using l by simp
qed

lemma memcpy_read:
  assumes "fw = pre @ bs @ rest" and "src = int (length pre)" and "len = int (length bs)"
    and "len \<le> rem" and "rem \<le> 2147483647"
  shows "dfuse_memcpy True fw src rem len = Inr (bs, src + len, rem - len)"
  using assms by (simp add: dfuse_memcpy_def mread_def int_ok_def)

text \<open>
  A DfuSe file whose first element has a size that is negative as an int passes the check of
  the size against the bytes left; skipping the element then moves the read pointer back, and
  the next element header is read before the firmware buffer.
\<close>
theorem negative_element_reads_back:
  assumes fw: "firmware f = dfuse_header t @ target_header alt e @ le32 addr @ le32 sz @ rest"
    and f: "prefix_size f = 0" "suffix_size f = 0" "total f = length (firmware f)"
    and t: "0 < unat t" and e: "2 \<le> sint e"
    and alt: "\<forall>dif\<in>set difs. altsetting dif \<noteq> alt"
    and sz: "sint sz < - 293" "int (length rest) - sint sz \<le> 2147483647"
  shows "dfuse_do_dfuse_dnload n U difs xfer f st d = Inl (Undef OobRead)"
proof -
  define fw where "fw = firmware f"
  define L where "L = int (length rest)"
  have L: "0 \<le> L" by (simp add: L_def)
  have tot: "int (total f) = L + 293"
    using f(3) by (simp add: fw L_def dfuse_header_fields target_header_fields)
  obtain k where k: "nat (sint e) = Suc (Suc k)" using e by (metis Suc_nat_eq_nat_zadd1 add_2_eq_Suc int_nat_eq
        le_add_diff_inverse nat_le_iff nat_numeral numeral_le_iff of_nat_numeral order_trans zero_le_numeral nat_mono)
  obtain j where j: "unat t = Suc j" using t by (cases "unat t") auto
  have LL: "L + 293 \<le> 2147483647" using sz L unfolding L_def by linarith
  have rem: "to_int32 (L + 293) = L + 293" using L LL by (intro to_int32_small) linarith+
  have m1: "dfuse_memcpy True fw 0 (L + 293) 11 = Inr (dfuse_header t, 11, L + 282)"
    using memcpy_read [of fw "[]" "dfuse_header t" "target_header alt e @ le32 addr @ le32 sz @ rest" 0 11 "L + 293"] L LL
    by (simp add: fw_def fw dfuse_header_fields)
  have m2: "dfuse_memcpy True fw 11 (L + 282) 274 = Inr (target_header alt e, 285, L + 8)"
    using memcpy_read [of fw "dfuse_header t" "target_header alt e" "le32 addr @ le32 sz @ rest" 11 274 "L + 282"] L LL
    by (simp add: fw_def fw dfuse_header_fields target_header_fields)
  have m3: "dfuse_memcpy True fw 285 (L + 8) 8 = Inr (le32 addr @ le32 sz, 293, L)"
    using memcpy_read [of fw "dfuse_header t @ target_header alt e" "le32 addr @ le32 sz" rest 285 8 "L + 8"] L LL
    by (simp add: fw_def fw dfuse_header_fields target_header_fields)
  have m4: "dfuse_memcpy False fw 293 L (sint sz) = Inr ([], 293 + sint sz, L - sint sz)"
    using sz L unfolding L_def by (simp add: dfuse_memcpy_def int_ok_def)
  have m5: "dfuse_memcpy True fw (293 + sint sz) (L - sint sz) 8 = Inl (Undef OobRead)"
    using sz L by (simp add: dfuse_memcpy_def)
  have s: "\<not> sint sz > L" using sz L by linarith
  have q: "quad2uint (drop 4 (le32 addr @ le32 sz)) = sz"
    using quad2uint_le32 [of sz "[]"] by simp
  have el: "elements_loop (Suc (Suc k)) n U None xfer fw saved 285 (L + 8) st d = Inl (Undef OobRead)" for saved
    unfolding elements_loop.simps(2) [of "Suc k"] m3 rbind_Inr prod.case Let_def q
    using s by (simp add: m4 m5)
  have fnd: "find (\<lambda>dif. alt = altsetting dif) difs = None"
    using alt by (auto simp: find_None_iff)
  have q2: "quad2uint (le32 e) = e" using quad2uint_le32 [of e "[]"] by simp
  have im: "images_loop (Suc j) n U difs xfer fw False 11 (L + 282) st d = Inl (Undef OobRead)"
    unfolding images_loop.simps m2 rbind_Inr prod.case target_header_fields Let_def fnd q2 k
    using el [of False] by (simp del: elements_loop.simps)
  have g: "\<not> L + 293 < 11 + 274 + 8" using L by linarith
  show ?thesis
    unfolding dfuse_do_dfuse_dnload_def fw_def [symmetric] f(1,2) Let_def tot
    using g m1 im by (simp add: rem dfuse_header_fields j del: images_loop.simps)
qed

text \<open>A file of 301 bytes whose only image has two elements, the first of size -1000.\<close>

definition crafted_file :: dfu_file where
  "crafted_file = \<lparr> fname = ''f'', firmware = dfuse_header 1 @ target_header 9 2 @ le32 0 @ le32 (- 1000) @ replicate 8 0,
     total = 301, prefix_size = 0, suffix_size = 0, lmdfu_address = 0, prefix_kind = ZERO_PREFIX,
     dwCRC = 0, bcdDFU = 0x11a, idVendor = 0, idProduct = 0, bcdDevice = 0 \<rparr>"

theorem negative_element_reads_back_witness:
  "dfuse_do_dfuse_dnload 10 demo_usb [demo_if] 1024 crafted_file dfuse_init demo_start = Inl (Undef OobRead)"
proof -
  have s: "sint (- 1000 :: u32) = - 1000" by simp
  have "firmware crafted_file = dfuse_header 1 @ target_header 9 2 @ le32 0 @ le32 (- 1000) @ replicate 8 0"
    by (simp add: crafted_file_def)
  then show ?thesis
    by (rule negative_element_reads_back)
       (simp_all only: s, simp_all add: crafted_file_def dfuse_header_fields target_header_fields demo_if_def)
qed

subsection \<open>The buffer of the upload\<close>

text \<open>
  With a limit that is not negative, an answer no longer than what was asked for stays in the
  buffer: the loop asks for no more than the buffer holds.
\<close>

lemma upload_stays_inside:
  assumes "\<And>v len d. fst (control U REQ_IN DFU_UPLOAD v (ucast (interface dif)) [] len d) \<le> int len"
  shows "0 \<le> xfer_size \<Longrightarrow> xfer_size \<le> room \<Longrightarrow> xfer_size < 65536 \<Longrightarrow> total_bytes \<le> limit \<Longrightarrow>
    dfuse_upload_loop k U dif room limit xfer_size full total_bytes transaction out d \<noteq> Inl (Undef OobWrite)"
proof (induction k arbitrary: xfer_size total_bytes transaction out d)
  case (Suc k)
  define x where "x = (if limit - total_bytes < xfer_size then limit - total_bytes else xfer_size)"
  have x: "0 \<le> x" "x \<le> room" "x < 65536" "x \<le> limit - total_bytes" using Suc.prems by (auto simp: x_def)
  obtain rc buf d1 where a: "dfuse_upload U dif (word_of_int x) transaction d = (rc, buf, d1)" by (metis prod_cases3)
  have "unat (word_of_int x :: u16) = nat x" using x(1,3) by (simp add: unat_eq_nat_uint unsigned_of_int take_bit_int_eq_self)
  then have rc: "rc \<le> x" using assms [of transaction "nat x" d] a x(1) by (simp add: dfuse_upload_def)
  have w: "dfu_file_write_crc full out 0 buf 0 rc \<noteq> Inl (Undef OobWrite)"
    by (auto simp: dfu_file_write_crc_def rbind_def lift_mem_def mread_def split: sum.split)
  show ?case
  proof (cases "dfu_file_write_crc full out 0 buf 0 rc")
    case (Inl f)
    then show ?thesis using w a rc x(2) by (simp add: Let_def flip: x_def)
  next
    case (Inr r)
    have "dfuse_upload_loop k U dif room limit x full (total_bytes + rc) (transaction + 1) (snd r) d1 \<noteq> Inl (Undef OobWrite)"
      using x rc by (intro Suc.IH) auto
    then show ?thesis using Inr a rc x(2) by (cases r) (auto simp add: Let_def int_ok_def simp flip: x_def)
  qed
qed simp

text \<open>
  The length on the command line is read with strtoul and becomes an int: the length -1 (or
  4294967295) is a limit of -1, and the first request asks for 65535 bytes, whatever the buffer holds.
\<close>
theorem negative_limit_overflows:
  assumes "control U REQ_IN DFU_UPLOAD 2 (ucast (interface dif)) [] 65535 d = (rc, buf, d')"
    and "0 \<le> xfer_size" and "xfer_size < rc"
  shows "dfuse_do_upload (Suc k) U dif xfer_size full (Some '':-1'') dfuse_init d = Inl (Undef OobWrite)"
proof -
  have n: "strtoul0 ''-1'' = (- 1, [])"
    by (simp add: strtoul0_def scan_sign_def isspace_def isdigit_def code_def digits_val_def digit_val_def)
  have w: "option_word ''-1'' = ''-1''" by (simp add: option_word_def)
  have p: "parse_option ''-1'' st = Inr ([], st \<lparr> dfuse_length := - 1 \<rparr>)" "parse_option '':-1'' st = Inr (''-1'', st)" for st
    by (simp_all add: parse_option_def keyword_def n w)
  have st: "dfuse_parse_options '':-1'' dfuse_init = Inr (dfuse_init \<lparr> dfuse_length := - 1 \<rparr>)"
    by (simp add: dfuse_parse_options_def p)
  have st': "\<not> dfuse_address_present (dfuse_init \<lparr> dfuse_length := - 1 \<rparr>)" by (simp add: dfuse_init_def)
  have "uint (word_of_int (- 1) :: u16) = 65535" by code_simp
  then have "unat (word_of_int (- 1) :: u16) = 65535" unfolding unat_eq_nat_uint by (simp only: nat_numeral)
  then have up: "dfuse_upload U dif (word_of_int (- 1)) 2 d = (rc, buf, d')" using assms(1) by (simp only: dfuse_upload_def)
  show ?thesis using assms(2,3) st st' up by (simp add: dfuse_do_upload_def upload_limit_def Let_def)
qed

text \<open>A device that fills every request.\<close>

definition demo_generous :: "unit usb" where
  "demo_generous = \<lparr>control = (\<lambda>ty req v ix data len d. (int len, replicate len 0, d)),
     milli_sleep = (\<lambda>_ d. d), reset_device = (\<lambda>d. (0, d)), set_alt_setting = (\<lambda>_ _ d. (0, d))\<rparr>"

theorem negative_limit_overflows_witness:
  "dfuse_do_upload 1 demo_generous demo_if 1024 (\<lambda>_ _. True) (Some '':-1'') dfuse_init () = Inl (Undef OobWrite)"
  using negative_limit_overflows [of demo_generous demo_if "()" 65535 _ "()" 1024 0] by (simp add: demo_generous_def)

end
