(* ===== verification/TextFmt.thy ===== *)
theory TextFmt
  imports DfuseMem
begin

text \<open>
  What printf writes for the conversions %d, %04x and %02x, and how the digits are read back.
\<close>

text \<open>The conversion %d of a number that is not negative.\<close>

fun dec_text :: "nat \<Rightarrow> string" where
  "dec_text n = (if n < 10 then [char_of (48 + n)] else dec_text (n div 10) @ [char_of (48 + n mod 10)])"

declare dec_text.simps [simp del]

definition hexdig :: "nat \<Rightarrow> char" where
  "hexdig n = char_of (if n < 10 then 48 + n else 87 + n)"

text \<open>The conversion %04x of a 16-bit value.\<close>

definition hex4 :: "u16 \<Rightarrow> string" where
  "hex4 w = map (\<lambda>k. hexdig (unat w div 16 ^ k mod 16)) [3, 2, 1, 0]"

text \<open>The conversion %x.\<close>

fun hex_text :: "nat \<Rightarrow> string" where
  "hex_text n = (if n < 16 then [hexdig n] else hex_text (n div 16) @ [hexdig (n mod 16)])"

declare hex_text.simps [simp del]

text \<open>The conversion %02x of a byte.\<close>

definition hex2 :: "byte \<Rightarrow> string" where
  "hex2 b = [hexdig (unat b div 16), hexdig (unat b mod 16)]"

lemma dec_text_length: "n < 10 \<Longrightarrow> length (dec_text n) = 1" "n < 1000 \<Longrightarrow> length (dec_text n) \<le> 3"
  "n < 100 \<Longrightarrow> length (dec_text n) \<le> 2"
proof -
  have div: "n < 100 \<Longrightarrow> n div 10 < 10" by linarith
  show "n < 10 \<Longrightarrow> length (dec_text n) = 1" "n < 1000 \<Longrightarrow> length (dec_text n) \<le> 3"
    "n < 100 \<Longrightarrow> length (dec_text n) \<le> 2"
    using div by (simp_all add: dec_text.simps [of n] dec_text.simps [of "n div 10"] dec_text.simps [of "n div 10 div 10"])
qed

lemma digits_val_snoc: "digits_val base (ds @ [c]) = base * digits_val base ds + digit_val c"
  by (simp add: digits_val_def)

lemma dec_digit: "n < 10 \<Longrightarrow> isdigit (char_of (48 + n)) \<and> digit_val (char_of (48 + n)) = n"
  by (simp add: isdigit_def digit_val_def code_def)

lemma dec_text_reads: "list_all isdigit (dec_text n) \<and> dec_text n \<noteq> [] \<and> digits_val 10 (dec_text n) = n"
proof (induction n rule: dec_text.induct)
  case (1 n)
  show ?case
  proof (cases "n < 10")
    case True
    then show ?thesis using dec_digit [of n] by (simp add: dec_text.simps [of n] digits_val_def)
  next
    case False
    then show ?thesis
      using 1 dec_digit [of "n mod 10"] by (subst (1 2 3) dec_text.simps) (simp add: digits_val_snoc)
  qed
qed

lemma hexdig_val:
  assumes "n < 16"
  shows "isxdigit (hexdig n) \<and> digit_val (hexdig n) = n"
proof -
  have "\<forall>n\<in>set [0..<16]. isxdigit (hexdig n) \<and> digit_val (hexdig n) = n" by code_simp
  then show ?thesis using assms by simp
qed

lemma hex4_val: "digits_val 16 (hex4 w) = unat w" and hex4_xdigits: "list_all isxdigit (hex4 w)"
  and hex4_length: "length (hex4 w) = 4"
proof -
  define n where "n = unat w"
  have "n < 65536" unfolding n_def by (rule unat_u16)
  then have l: "n div 4096 < 16" by (simp add: less_mult_imp_div_less)
  then have t: "n div 4096 mod 16 = n div 4096" by simp
  have r: "m div 16 * 16 + m mod 16 = m" for m :: nat by simp
  have "((n div 4096 * 16 + n div 256 mod 16) * 16 + n div 16 mod 16) * 16 + n mod 16 = n"
    using r [of "n div 256"] r [of "n div 16"] r [of n] by (simp add: div_mult2_eq [symmetric])
  then show "digits_val 16 (hex4 w) = unat w"
    by (simp add: digits_val_def hex4_def hexdig_val hexdig_val [OF l] t mult.commute flip: n_def)
qed (simp_all add: hex4_def hexdig_val)

end
