(* ===== verification/DfuUtil.thy ===== *)
theory DfuUtil
  imports Dfu TextFmt
begin

text \<open>
  Finding DFU devices (external/dfu-util/src/dfu_util.c): find_descriptor, the two readers of
  string descriptors, probe_configuration, get_path and probe_devices, with the options that
  restrict the search.

  What libusb answers about a device is the record \<open>usb_device\<close>.  The list headed by dfu_root is
  a list; a new interface goes to its front.  A functional descriptor is its nine bytes.
\<close>

definition USB_DT_DFU :: byte where "USB_DT_DFU = 0x21"
definition LIBUSB_DT_STRING :: byte where "LIBUSB_DT_STRING = 3"
definition MAX_DESC_STR_LEN :: nat where "MAX_DESC_STR_LEN = 254"
definition DFU_IFF_DFU :: byte where "DFU_IFF_DFU = 1"
definition DFU_IFF_ALT :: byte where "DFU_IFF_ALT = 2"

subsection \<open>find_descriptor\<close>

text \<open>The loop from position \<open>p\<close>: the bytes copied to the result, None for -1.\<close>

function find_from :: "byte list \<Rightarrow> nat \<Rightarrow> byte \<Rightarrow> nat \<Rightarrow> nat \<Rightarrow> fault + byte list option" where
  "find_from desc_list list_len desc_type res_size p =
     (if p + 1 < list_len then
        case mread p 1 desc_list of Inl f \<Rightarrow> Inl f
        | Inr l \<Rightarrow>
          (let desclen = unat (hd l) in
           if desclen = 0 then Inr None
           else rbind (mread (p + 1) 1 desc_list) (\<lambda>t.
                if hd t = desc_type then
                  (let n = min desclen res_size; n = (if p + n > list_len then list_len - p else n) in
                   rbind (mread p n desc_list) (\<lambda>bs. Inr (Some bs)))
                else find_from desc_list list_len desc_type res_size (p + desclen)))
      else Inr None)"
  by auto
termination
  by (relation "measure (\<lambda>(_, n, _, _, p). n - p)") (auto simp: mread_def)

declare find_from.simps [simp del]

definition find_descriptor :: "byte list \<Rightarrow> nat \<Rightarrow> byte \<Rightarrow> nat \<Rightarrow> fault + byte list option" where
  "find_descriptor desc_list list_len desc_type res_size =
     (if list_len < 2 then Inr None else find_from desc_list list_len desc_type res_size 0)"

subsection \<open>What libusb knows of a device\<close>

record altset =
  as_class :: byte
  as_subclass :: byte
  as_protocol :: byte
  as_interface :: byte       \<comment> \<open>bInterfaceNumber\<close>
  as_setting :: byte         \<comment> \<open>bAlternateSetting\<close>
  as_name :: byte            \<comment> \<open>iInterface\<close>
  as_extra :: "byte list"

record usb_config =
  cf_value :: byte           \<comment> \<open>bConfigurationValue\<close>
  cf_extra :: "byte list"
  cf_interfaces :: "altset list list"

record usb_device =
  us_dev :: nat              \<comment> \<open>the pointer\<close>
  us_vendor :: u16
  us_product :: u16
  us_bcd :: u16
  us_serial :: byte          \<comment> \<open>iSerialNumber\<close>
  us_max0 :: byte
  us_configs :: "usb_config option list"
  us_bus :: byte
  us_address :: byte
  us_ports :: "byte list"    \<comment> \<open>libusb_get_port_numbers; empty for none or an error\<close>
  us_opens :: bool
  us_descriptor :: bool      \<comment> \<open>libusb_get_device_descriptor succeeds\<close>
  us_dfu :: "byte list option"                          \<comment> \<open>GET_DESCRIPTOR of the DFU descriptor\<close>
  us_string :: "byte \<Rightarrow> u16 \<Rightarrow> byte list option"     \<comment> \<open>string descriptors as received\<close>

subsection \<open>Strings\<close>

text \<open>get_utf8_string_descriptor: the bytes stored, at most \<open>len\<close>; None for an error.\<close>

definition get_utf8_string_descriptor :: "usb_device \<Rightarrow> byte \<Rightarrow> nat \<Rightarrow> byte list option" where
  "get_utf8_string_descriptor dev desc_index len =
     (case us_string dev 0 0 of None \<Rightarrow> None
      | Some t \<Rightarrow>
        if length t < 4 \<or> t ! 0 < 4 \<or> t ! 1 \<noteq> LIBUSB_DT_STRING then None
        else (let langid = rd16 [t ! 2, t ! 3] in
          case us_string dev desc_index langid of None \<Rightarrow> None
          | Some t \<Rightarrow>
            if length t < 2 \<or> t ! 0 < 2 then None
            else if t ! 1 \<noteq> LIBUSB_DT_STRING then None
            else (let n = min (unat (t ! 0)) (length t); outlen = min (n - 2) len in
                  Some (take outlen (drop 2 t)))))"

text \<open>The 16-bit units of \<open>buf\<close>, a question mark for each that is not ASCII or Latin-1.\<close>

fun units_to_ascii :: "nat \<Rightarrow> byte list \<Rightarrow> byte list" where
  "units_to_ascii (Suc n) (lo # hi # bs) = (if hi \<noteq> 0 then 0x3F else lo) # units_to_ascii n bs"
| "units_to_ascii n bs = []"

definition get_string_descriptor_ascii :: "usb_device \<Rightarrow> byte \<Rightarrow> nat \<Rightarrow> byte list option" where
  "get_string_descriptor_ascii dev desc_index len =
     map_option (units_to_ascii len) (get_utf8_string_descriptor dev desc_index 255)"

text \<open>The C string in the array afterwards: UNKNOWN when nothing was stored.\<close>

definition to_name :: "byte list option \<Rightarrow> string" where
  "to_name r =
     (case r of None \<Rightarrow> ''UNKNOWN''
      | Some bs \<Rightarrow> if bs = [] then ''UNKNOWN'' else map (\<lambda>c. char_of (unat c)) (takeWhile (\<lambda>c. c \<noteq> 0) bs))"

subsection \<open>The functional descriptor\<close>

definition func_zero :: "byte list" where "func_zero = replicate 9 0"

definition set_bytes :: "nat \<Rightarrow> byte list \<Rightarrow> byte list \<Rightarrow> byte list" where
  "set_bytes off bs b = take off b @ bs @ drop (off + length bs) b"

definition func_bcd :: "byte list \<Rightarrow> u16" where "func_bcd f = rd16 (take 2 (drop 7 f))"
definition func_transfer :: "byte list \<Rightarrow> u16" where "func_transfer f = rd16 (take 2 (drop 5 f))"
definition func_attributes :: "byte list \<Rightarrow> byte" where "func_attributes f = f ! 2"

text \<open>The first DFU descriptor behind an alternate setting of class DFU; otherwise whether there is one.\<close>

fun search_alts :: "altset list \<Rightarrow> bool \<Rightarrow> fault + (byte list + bool)" where
  "search_alts [] has_dfu = Inr (Inr has_dfu)"
| "search_alts (i # alts) has_dfu =
     (if as_class i \<noteq> 0xfe \<or> as_subclass i \<noteq> 1 then search_alts alts has_dfu
      else rbind (find_descriptor (as_extra i) (length (as_extra i)) USB_DT_DFU 9) (\<lambda>r.
           case r of Some bs \<Rightarrow> Inr (Inl (set_bytes 0 bs func_zero))
           | None \<Rightarrow> search_alts alts True))"

definition search_func :: "usb_device \<Rightarrow> usb_config \<Rightarrow> fault + byte list option" where
  "search_func dev cfg =
     rbind (find_descriptor (cf_extra cfg) (length (cf_extra cfg)) USB_DT_DFU 9) (\<lambda>r.
     case r of Some bs \<Rightarrow> Inr (Some (set_bytes 0 bs func_zero))
     | None \<Rightarrow>
       rbind (search_alts (concat (cf_interfaces cfg)) False) (\<lambda>r.
       case r of Inl func \<Rightarrow> Inr (Some func)
       | Inr has_dfu \<Rightarrow>
         if \<not> has_dfu then Inr None
         else (case (if us_opens dev then us_dfu dev else None) of
                 Some bs \<Rightarrow> Inr (Some (set_bytes 0 (take 9 bs) func_zero))
               | None \<Rightarrow> Inr (Some (set_bytes 7 (le16 0x0100) (set_bytes 0 [7] func_zero))))))"

text \<open>Behind the label found_dfu.\<close>

definition fix_func :: "byte list \<Rightarrow> byte list" where
  "fix_func f =
     (if unat (f ! 0) = 7 then set_bytes 7 (le16 0x0100) f
      else if unat (f ! 0) < 9 then set_bytes 5 (le16 0) (set_bytes 7 (le16 0x0100) f) else f)"

subsection \<open>Matching\<close>

text \<open>The match_ globals of main.c; -1 (and None) match anything.\<close>

record matching =
  match_path :: "string option"
  match_vendor :: int
  match_product :: int
  match_vendor_dfu :: int
  match_product_dfu :: int
  match_config_index :: int
  match_iface_index :: int
  match_iface_alt_index :: int
  match_devnum :: int
  match_iface_alt_name :: "string option"
  match_serial :: "string option"
  match_serial_dfu :: "string option"

definition match_any :: matching where
  "match_any = \<lparr>match_path = None, match_vendor = - 1, match_product = - 1, match_vendor_dfu = - 1,
     match_product_dfu = - 1, match_config_index = - 1, match_iface_index = - 1,
     match_iface_alt_index = - 1, match_devnum = - 1, match_iface_alt_name = None,
     match_serial = None, match_serial_dfu = None\<rparr>"

definition id_matches :: "int \<Rightarrow> u16 \<Rightarrow> bool" where
  "id_matches m i \<longleftrightarrow> \<not> (m \<ge> 0 \<and> m \<noteq> int (unat i))"

definition string_matches :: "string option \<Rightarrow> string \<Rightarrow> bool" where
  "string_matches m s = (case m of None \<Rightarrow> True | Some t \<Rightarrow> s = t)"

definition is_dfu_mode :: "usb_device \<Rightarrow> usb_config \<Rightarrow> byte list \<Rightarrow> altset \<Rightarrow> bool" where
  "is_dfu_mode dev cfg func i \<longleftrightarrow>
     as_protocol i = 2 \<or>
     func_bcd func = 0x011a \<and> as_protocol i = 0 \<or>
     us_vendor dev = 0x1fc9 \<and> us_product dev = 0x000c \<and> as_protocol i = 1 \<or>
     us_vendor dev = 0x0b0e \<and> as_protocol i = 0 \<and> length (cf_interfaces cfg) = 1"

text \<open>The tests before the device is opened.\<close>

definition ids_match :: "matching \<Rightarrow> usb_device \<Rightarrow> bool \<Rightarrow> altset \<Rightarrow> bool" where
  "ids_match M dev dfu_mode i \<longleftrightarrow>
     \<not> (dfu_mode \<and> match_iface_alt_index M > - 1 \<and> match_iface_alt_index M \<noteq> int (unat (as_setting i))) \<and>
     (if dfu_mode then id_matches (match_vendor_dfu M) (us_vendor dev) \<and> id_matches (match_product_dfu M) (us_product dev)
      else id_matches (match_vendor M) (us_vendor dev) \<and> id_matches (match_product M) (us_product dev)) \<and>
     \<not> (match_devnum M \<ge> 0 \<and> match_devnum M \<noteq> int (unat (us_address dev)))"

definition names_match :: "matching \<Rightarrow> bool \<Rightarrow> string \<Rightarrow> string \<Rightarrow> bool" where
  "names_match M dfu_mode altn serial \<longleftrightarrow>
     (dfu_mode \<longrightarrow> string_matches (match_iface_alt_name M) altn) \<and>
     string_matches (if dfu_mode then match_serial_dfu M else match_serial M) serial"

subsection \<open>probe_configuration\<close>

text \<open>The struct dfu_if as the probe fills it in; the DFU and DfuSe transfers use its first part.\<close>

record dfu_node = dfu_if +
  nd_func :: "byte list"
  nd_flags :: byte
  nd_max0 :: byte
  nd_bus :: byte
  nd_devnum :: byte

definition alt_name_of :: "usb_device \<Rightarrow> altset \<Rightarrow> string" where
  "alt_name_of dev i =
     to_name (if as_name i \<noteq> 0 then get_string_descriptor_ascii dev (as_name i) MAX_DESC_STR_LEN else None)"

definition serial_name_of :: "usb_device \<Rightarrow> u16 \<Rightarrow> string" where
  "serial_name_of dev q =
     to_name (if us_serial dev = 0 then None
              else if q AND QUIRK_UTF8_SERIAL \<noteq> 0
              then get_utf8_string_descriptor dev (us_serial dev) (MAX_DESC_STR_LEN - 1)
              else get_string_descriptor_ascii dev (us_serial dev) MAX_DESC_STR_LEN)"

definition make_node :: "usb_device \<Rightarrow> usb_config \<Rightarrow> byte list \<Rightarrow> altset \<Rightarrow> dfu_node" where
  "make_node dev cfg func i =
     (let q = get_quirks (us_vendor dev) (us_product dev) (us_bcd dev) in
      \<lparr>quirks = q, if_vendor = us_vendor dev, if_product = us_product dev, if_bcdDevice = us_bcd dev,
       if_dev = us_dev dev, configuration = cf_value cfg, interface = as_interface i,
       altsetting = as_setting i, alt_name = alt_name_of dev i, serial_name = Some (serial_name_of dev q),
       mem_layout = [],
       nd_func = (if q AND QUIRK_FORCE_DFU11 \<noteq> 0 then set_bytes 7 (le16 0x0110) func else func),
       nd_flags = (if is_dfu_mode dev cfg func i then DFU_IFF_DFU else 0) OR DFU_IFF_ALT,
       nd_max0 = us_max0 dev, nd_bus = us_bus dev, nd_devnum = us_address dev\<rparr>)"

text \<open>
  The loop over the alternate settings of an interface; the flag DFU_IFF_ALT is set whenever
  there is one.  A device that cannot be opened ends the loop.
\<close>

fun probe_alts ::
  "matching \<Rightarrow> usb_device \<Rightarrow> usb_config \<Rightarrow> byte list \<Rightarrow> altset list \<Rightarrow> dfu_node list \<Rightarrow> dfu_node list" where
  "probe_alts M dev cfg func [] root = root"
| "probe_alts M dev cfg func (i # alts) root =
     (let dfu_mode = is_dfu_mode dev cfg func i in
      if as_class i \<noteq> 0xfe \<or> as_subclass i \<noteq> 1 then probe_alts M dev cfg func alts root
      else if \<not> ids_match M dev dfu_mode i then probe_alts M dev cfg func alts root
      else if \<not> us_opens dev then root
      else if \<not> names_match M dfu_mode (alt_name_of dev i)
             (serial_name_of dev (get_quirks (us_vendor dev) (us_product dev) (us_bcd dev)))
      then probe_alts M dev cfg func alts root
      else probe_alts M dev cfg func alts (make_node dev cfg func i # root))"

fun probe_interfaces ::
  "matching \<Rightarrow> usb_device \<Rightarrow> usb_config \<Rightarrow> byte list \<Rightarrow> nat \<Rightarrow> altset list list \<Rightarrow> dfu_node list \<Rightarrow> dfu_node list" where
  "probe_interfaces M dev cfg func idx [] root = root"
| "probe_interfaces M dev cfg func idx (uif # uifs) root =
     (if match_iface_index M > - 1 \<and> match_iface_index M \<noteq> int idx
      then probe_interfaces M dev cfg func (Suc idx) uifs root
      else probe_interfaces M dev cfg func (Suc idx) uifs (probe_alts M dev cfg func uif root))"

text \<open>The loop over the configurations; a descriptor that cannot be read ends it.\<close>

fun probe_configs ::
  "matching \<Rightarrow> usb_device \<Rightarrow> usb_config option list \<Rightarrow> dfu_node list \<Rightarrow> fault + dfu_node list" where
  "probe_configs M dev [] root = Inr root"
| "probe_configs M dev (None # cfgs) root = Inr root"
| "probe_configs M dev (Some cfg # cfgs) root =
     (if match_config_index M > - 1 \<and> match_config_index M \<noteq> int (unat (cf_value cfg))
      then probe_configs M dev cfgs root
      else rbind (search_func dev cfg) (\<lambda>r.
           case r of None \<Rightarrow> probe_configs M dev cfgs root
           | Some func \<Rightarrow>
               probe_configs M dev cfgs (probe_interfaces M dev cfg (fix_func func) 0 (cf_interfaces cfg) root)))"

definition probe_configuration :: "matching \<Rightarrow> usb_device \<Rightarrow> dfu_node list \<Rightarrow> fault + dfu_node list" where
  "probe_configuration M dev root = probe_configs M dev (us_configs dev) root"

subsection \<open>get_path and probe_devices\<close>

text \<open>
  path_buf has 20 bytes; sprintf writes the text and a NUL.  Without port numbers the buffer
  keeps what it held.
\<close>

definition MAX_PATH_LEN :: nat where "MAX_PATH_LEN = 20"

definition path_text :: "usb_device \<Rightarrow> string" where
  "path_text dev =
     dec_text (unat (us_bus dev)) @ ''-'' @ dec_text (unat (hd (us_ports dev))) @
     concat (map (\<lambda>p. ''.'' @ dec_text (unat p)) (tl (us_ports dev)))"

definition get_path :: "usb_device \<Rightarrow> string \<Rightarrow> fault + string" where
  "get_path dev path_buf =
     (if us_ports dev = [] then Inr path_buf
      else if MAX_PATH_LEN < length (path_text dev) + 1 then Inl OobWrite
      else Inr (path_text dev))"

fun probe_list ::
  "matching \<Rightarrow> usb_device list \<Rightarrow> string \<Rightarrow> dfu_node list \<Rightarrow> fault + string \<times> dfu_node list" where
  "probe_list M [] path_buf root = Inr (path_buf, root)"
| "probe_list M (dev # devs) path_buf root =
     rbind (case match_path M of None \<Rightarrow> Inr (path_buf, True)
            | Some path \<Rightarrow> rbind (get_path dev path_buf) (\<lambda>b. Inr (b, b = path))) (\<lambda>(path_buf, ok).
     if \<not> ok \<or> \<not> us_descriptor dev then probe_list M devs path_buf root
     else rbind (probe_configuration M dev root) (\<lambda>root. probe_list M devs path_buf root))"

text \<open>The text of print_dfu_if names the path of the device, which get_path writes again.\<close>

fun list_paths :: "(nat \<Rightarrow> usb_device) \<Rightarrow> dfu_node list \<Rightarrow> string \<Rightarrow> fault + string list" where
  "list_paths devs [] path_buf = Inr []"
| "list_paths devs (n # ns) path_buf =
     rbind (get_path (devs (if_dev n)) path_buf) (\<lambda>b.
     rbind (list_paths devs ns b) (\<lambda>more. Inr (b # more)))"

end
