(* ===== verification/DfuMain.thy ===== *)
theory DfuMain
  imports DfuUtil DfuLoad Dfuse
begin

text \<open>
  The program dfu-util (external/dfu-util/src/main.c): the options that restrict the search, and
  dfu_main, which loads the file, finds the one device, takes it from run-time to DFU mode,
  brings it to dfuIDLE, settles the transfer size, and runs the transfer.

  getopt_long is the library's: the options are the list of its results with their arguments.
  The bus is the record \<open>usb_host\<close>.  One fuel bounds the waiting for a device, the loop over
  status requests and the loops of the transfers.  Messages are not modelled.
\<close>

subsection \<open>The arguments of options\<close>

text \<open>strtol with base 0: the value, the text behind it, and whether it was out of range.\<close>

definition strtol0 :: "string \<Rightarrow> int \<times> string \<times> bool" where
  "strtol0 s =
     (case scan_sign s of (neg, t) \<Rightarrow>
      let hex = (take 2 t = ''0x'' \<or> take 2 t = ''0X'') \<and> length t > 2 \<and> isxdigit (t ! 2);
          base = (if hex then 16 else if take 1 t = ''0'' then 8 else 10 :: nat);
          isdig = (if hex then isxdigit else (\<lambda>c. isdigit c \<and> digit_val c < base));
          t = (if hex then drop 2 t else t);
          ds = takeWhile isdig t; v = (if neg then - int (digits_val base ds) else int (digits_val base ds)) in
      if ds = [] then (0, s, False)
      else (max (- (2 ^ 63)) (min (2 ^ 63 - 1) v), dropWhile isdig t, v < - (2 ^ 63) \<or> 2 ^ 63 - 1 < v))"

text \<open>An int that is assigned a long.\<close>

definition parse_number :: "string \<Rightarrow> dfu_stop + int" where
  "parse_number nmb =
     (case strtol0 nmb of (val, rest, erange) \<Rightarrow>
      if erange \<or> rest \<noteq> [] then Inl (Exit EX_USAGE)
      else if nmb = [] then Inl (Exit EX_USAGE)
      else Inr (to_int32 val))"

text \<open>
  parse_match_value: the text up to the first character that is no hexadecimal digit, stored in
  an int; an asterisk matches anything, a minus nothing.
\<close>

definition parse_match_value :: "string option \<Rightarrow> int \<Rightarrow> int" where
  "parse_match_value str default_value =
     (case str of None \<Rightarrow> default_value
      | Some s \<Rightarrow>
        if take 1 s = ''*'' then - 1
        else if take 1 s = ''-'' then 0x10000
        else (case scan_x s of None \<Rightarrow>
                (if take 1 (snd (scan_sign s)) = ''0'' then 0 else default_value)
              | Some (v, _) \<Rightarrow> sint v))"

text \<open>strchr: the text from the first occurrence on.\<close>

definition strchr :: "char \<Rightarrow> string \<Rightarrow> string option" where
  "strchr c s = (if c \<in> set s then Some (dropWhile (\<lambda>x. x \<noteq> c) s) else None)"

definition parse_vendprod :: "string \<Rightarrow> matching \<Rightarrow> matching" where
  "parse_vendprod str M =
     (let M = M\<lparr>match_vendor := - 1, match_product := - 1, match_vendor_dfu := - 1, match_product_dfu := - 1\<rparr>;
          comma = strchr CHR '','' str;
          M = (if comma = Some str then M\<lparr>match_vendor := 0x10000, match_product := 0x10000\<rparr>
               else
                 (let colon = (case strchr CHR '':'' str of None \<Rightarrow> None
                       | Some c \<Rightarrow>
                         (case comma of None \<Rightarrow> Some (tl c)
                          | Some k \<Rightarrow> if length (tl c) < length k then None else Some (tl c)));
                      M = M\<lparr>match_vendor := parse_match_value (Some str) (match_vendor M)\<rparr>;
                      M = M\<lparr>match_product := parse_match_value colon (match_product M)\<rparr> in
                  if comma \<noteq> None
                  then M\<lparr>match_vendor_dfu := match_vendor M, match_product_dfu := match_product M\<rparr> else M)) in
      case comma of None \<Rightarrow> M
      | Some k \<Rightarrow>
        (let colon = map_option tl (strchr CHR '':'' (tl k));
             M = M\<lparr>match_vendor_dfu := parse_match_value (Some (tl k)) (match_vendor_dfu M)\<rparr> in
         M\<lparr>match_product_dfu := parse_match_value colon (match_product_dfu M)\<rparr>))"

definition non_empty :: "string \<Rightarrow> string option" where
  "non_empty s = (if s = [] then None else Some s)"

definition parse_serial :: "string \<Rightarrow> matching \<Rightarrow> matching" where
  "parse_serial str M =
     (case strchr CHR '','' str of
        None \<Rightarrow> M\<lparr>match_serial := non_empty str, match_serial_dfu := non_empty str\<rparr>
      | Some k \<Rightarrow> M\<lparr>match_serial := non_empty (takeWhile (\<lambda>x. x \<noteq> CHR '','') str),
                    match_serial_dfu := non_empty (tl k)\<rparr>)"

subsection \<open>The options\<close>

datatype dfu_mode = MODE_NONE | MODE_VERSION | MODE_LIST | MODE_DETACH | MODE_UPLOAD | MODE_DOWNLOAD

record dfu_opts =
  op_match :: matching
  op_mode :: dfu_mode
  op_file :: string
  op_expected :: int
  op_transfer :: u32
  op_reset :: bool
  op_wait :: bool
  op_dfuse :: "string option"
  op_delay :: int

definition opts_zero :: dfu_opts where
  "opts_zero = \<lparr>op_match = match_any, op_mode = MODE_NONE, op_file = [], op_expected = 0, op_transfer = 0,
     op_reset = False, op_wait = False, op_dfuse = None, op_delay = 5\<rparr>"

definition set_match :: "(matching \<Rightarrow> matching) \<Rightarrow> dfu_opts \<Rightarrow> dfu_opts" where
  "set_match f o1 = o1\<lparr>op_match := f (op_match o1)\<rparr>"

definition parse_alt :: "string \<Rightarrow> matching \<Rightarrow> matching" where
  "parse_alt s M =
     (case strtoul0 s of (v, rest) \<Rightarrow>
      if rest \<noteq> [] then M\<lparr>match_iface_alt_name := Some s, match_iface_alt_index := - 1\<rparr>
      else M\<lparr>match_iface_alt_index := sint v\<rparr>)"

text \<open>One turn of the loop over getopt_long; a character that is no option is a question mark.\<close>

definition dfu_option :: "char \<Rightarrow> string \<Rightarrow> dfu_opts \<Rightarrow> dfu_stop + dfu_opts" where
  "dfu_option c arg o1 =
     (if c = CHR ''h'' then Inl (Exit 0)
      else if c = CHR ''V'' then Inr (o1\<lparr>op_mode := MODE_VERSION\<rparr>)
      else if c = CHR ''v'' then Inr o1
      else if c = CHR ''l'' then Inr (o1\<lparr>op_mode := MODE_LIST\<rparr>)
      else if c = CHR ''e'' then Inr (o1\<lparr>op_mode := MODE_DETACH\<rparr>)
      else if c = CHR ''E'' then rbind (parse_number arg) (\<lambda>v. Inr (o1\<lparr>op_delay := v\<rparr>))
      else if c = CHR ''d'' then Inr (set_match (parse_vendprod arg) o1)
      else if c = CHR ''p'' then Inr (set_match (\<lambda>M. M\<lparr>match_path := Some arg\<rparr>) o1)
      else if c = CHR ''c'' then
        rbind (parse_number arg) (\<lambda>v. Inr (set_match (\<lambda>M. M\<lparr>match_config_index := v\<rparr>) o1))
      else if c = CHR ''i'' then
        rbind (parse_number arg) (\<lambda>v. Inr (set_match (\<lambda>M. M\<lparr>match_iface_index := v\<rparr>) o1))
      else if c = CHR ''a'' then Inr (set_match (parse_alt arg) o1)
      else if c = CHR ''n'' then
        Inr (set_match (\<lambda>M. M\<lparr>match_devnum := (case scan_d arg of None \<Rightarrow> 0 | Some (v, _) \<Rightarrow> v)\<rparr>) o1)
      else if c = CHR ''S'' then Inr (set_match (parse_serial arg) o1)
      else if c = CHR ''t'' then rbind (parse_number arg) (\<lambda>v. Inr (o1\<lparr>op_transfer := word_of_int v\<rparr>))
      else if c = CHR ''U'' then Inr (o1\<lparr>op_mode := MODE_UPLOAD, op_file := arg\<rparr>)
      else if c = CHR ''Z'' then rbind (parse_number arg) (\<lambda>v. Inr (o1\<lparr>op_expected := v\<rparr>))
      else if c = CHR ''D'' then Inr (o1\<lparr>op_mode := MODE_DOWNLOAD, op_file := arg\<rparr>)
      else if c = CHR ''R'' then Inr (o1\<lparr>op_reset := True\<rparr>)
      else if c = CHR ''s'' then Inr (o1\<lparr>op_dfuse := Some arg\<rparr>)
      else if c = CHR ''w'' then Inr (o1\<lparr>op_wait := True\<rparr>)
      else Inl (Exit EX_USAGE))"

fun dfu_options :: "(char \<times> string) list \<Rightarrow> dfu_opts \<Rightarrow> dfu_stop + dfu_opts" where
  "dfu_options [] o1 = Inr o1"
| "dfu_options ((c, arg) # os) o1 = rbind (dfu_option c arg o1) (\<lambda>o1. dfu_options os o1)"

subsection \<open>The bus\<close>

text \<open>
  The devices libusb lists in a state, opening one, and claiming and releasing an interface; a
  request goes through the part \<open>uh_usb\<close>.  libusb_open gives 0 when it succeeds.
\<close>

record 'd usb_host =
  uh_usb :: "'d usb"
  uh_init :: int
  uh_list :: "'d \<Rightarrow> usb_device list"
  uh_open :: "nat \<Rightarrow> 'd \<Rightarrow> int \<times> 'd"
  uh_claim :: "byte \<Rightarrow> 'd \<Rightarrow> int \<times> 'd"
  uh_release :: "byte \<Rightarrow> 'd \<Rightarrow> 'd"
  uh_close :: "'d \<Rightarrow> 'd"

abbreviation node_if :: "dfu_node \<Rightarrow> dfu_if" where
  "node_if n \<equiv> dfu_if.truncate n"

definition iface :: "dfu_node \<Rightarrow> u16" where
  "iface n = ucast (interface n)"

definition LIBUSB_ERROR_NOT_FOUND :: int where "LIBUSB_ERROR_NOT_FOUND = - 5"
definition DFU_STATE_appIDLE :: byte where "DFU_STATE_appIDLE = 0"
definition DFU_STATE_appDETACH :: byte where "DFU_STATE_appDETACH = 1"
definition DFU_STATE_dfuUPLOAD_IDLE :: byte where "DFU_STATE_dfuUPLOAD_IDLE = 9"
definition USB_DFU_WILL_DETACH :: byte where "USB_DFU_WILL_DETACH = 8"

text \<open>probe_devices in the state at hand; the list is appended to in front.\<close>

definition probe_devices :: "'d usb_host \<Rightarrow> matching \<Rightarrow> string \<Rightarrow> 'd \<Rightarrow> dfu_stop + string \<times> dfu_node list" where
  "probe_devices U M path_buf d = lift_mem (probe_list M (uh_list U d) path_buf [])"

text \<open>From the label probe on: wait until there is a device, or stop.\<close>

fun probe_wait ::
  "nat \<Rightarrow> 'd usb_host \<Rightarrow> bool \<Rightarrow> matching \<Rightarrow> string \<Rightarrow> 'd \<Rightarrow> dfu_stop + string \<times> dfu_node list \<times> 'd" where
  "probe_wait 0 U wait_device M path_buf d = Inl (Undef OutOfFuel)"
| "probe_wait (Suc n) U wait_device M path_buf d =
     rbind (probe_devices U M path_buf d) (\<lambda>(path_buf, root).
     if root = [] \<and> wait_device then probe_wait n U wait_device M path_buf (milli_sleep (uh_usb U) 20 d)
     else Inr (path_buf, root, d))"

text \<open>Opening the device; any result but 0 ends the program.\<close>

definition open_node :: "'d usb_host \<Rightarrow> dfu_node \<Rightarrow> 'd \<Rightarrow> dfu_stop + 'd" where
  "open_node U n d = (case uh_open U (if_dev n) d of (ret, d) \<Rightarrow> if ret \<noteq> 0 then Inl (Exit EX_IOERR) else Inr d)"

definition claim_node :: "'d usb_host \<Rightarrow> dfu_node \<Rightarrow> 'd \<Rightarrow> dfu_stop + 'd" where
  "claim_node U n d = (case uh_claim U (interface n) d of (ret, d) \<Rightarrow> if ret < 0 then Inl (Exit EX_IOERR) else Inr d)"

definition alt_node :: "'d usb_host \<Rightarrow> dfu_node \<Rightarrow> byte \<Rightarrow> 'd \<Rightarrow> dfu_stop + 'd" where
  "alt_node U n alt d =
     (case set_alt_setting (uh_usb U) (interface n) alt d of (ret, d) \<Rightarrow>
      if ret < 0 then Inl (Exit EX_IOERR) else Inr d)"


subsection \<open>From run-time to DFU mode\<close>

text \<open>
  The state the run-time interface reports behind the claim; a device that stalls GETSTATUS is
  taken to be in appIDLE.
\<close>

definition runtime_state :: "'d usb_host \<Rightarrow> dfu_node \<Rightarrow> 'd \<Rightarrow> dfu_stop + byte \<times> 'd" where
  "runtime_state U n d =
     rbind (claim_node U n d) (\<lambda>d.
     rbind (if interface n > 0 \<or> nd_flags n AND DFU_IFF_ALT \<noteq> 0 then alt_node U n 0 d else Inr d) (\<lambda>d.
     case dfu_get_status (uh_usb U) (node_if n) d of (err, status, d) \<Rightarrow>
     if err = LIBUSB_ERROR_PIPE then Inr (DFU_STATE_appIDLE, d)
     else if err < 0 then Inl (Exit EX_IOERR)
     else Inr (bState status, pause (uh_usb U) (bwPollTimeout status) d)))"

text \<open>The detach request; a device that does not detach of itself is reset.\<close>

definition detach_runtime :: "'d usb_host \<Rightarrow> dfu_node \<Rightarrow> 'd \<Rightarrow> dfu_stop + 'd" where
  "detach_runtime U n d =
     (case dfu_detach (uh_usb U) (iface n) 1000 d of (_, d) \<Rightarrow>
      if func_attributes (nd_func n) AND USB_DFU_WILL_DETACH \<noteq> 0 then Inr d
      else (case reset_device (uh_usb U) d of (ret, d) \<Rightarrow>
        if ret < 0 \<and> ret \<noteq> LIBUSB_ERROR_NOT_FOUND then Inl (Exit EX_IOERR) else Inr d))"

text \<open>The second search, which only DFU mode can match, and the opening of what it finds.\<close>

definition only_dfu_mode :: "matching \<Rightarrow> matching" where
  "only_dfu_mode M = M\<lparr>match_vendor := 0x10000, match_product := 0x10000\<rparr>"

definition reprobe :: "'d usb_host \<Rightarrow> matching \<Rightarrow> string \<Rightarrow> 'd \<Rightarrow> dfu_stop + dfu_node list \<times> 'd" where
  "reprobe U M path_buf d =
     rbind (probe_devices U (only_dfu_mode M) path_buf d) (\<lambda>(path_buf, root).
     if root = [] then Inl (Exit EX_IOERR)
     else if tl root \<noteq> [] then Inl (Exit EX_IOERR)
     else if nd_flags (hd root) OR DFU_IFF_DFU = 0 then Inl (Exit EX_PROTOCOL)
     else rbind (open_node U (hd root) d) (\<lambda>d. Inr (root, d)))"

text \<open>
  The device open in DFU mode, with the vendor and the product a file may also be for; None is
  the end of a detach.
\<close>

definition dfu_state_of ::
  "'d usb_host \<Rightarrow> dfu_opts \<Rightarrow> matching \<Rightarrow> string \<Rightarrow> dfu_node list \<Rightarrow> 'd
   \<Rightarrow> dfu_stop + (dfu_node list \<times> int \<times> int) option \<times> 'd" where
  "dfu_state_of U o1 M path_buf root d =
     (let n = hd root in
      if nd_flags n AND DFU_IFF_DFU \<noteq> 0 then
        (let rv = (if match_vendor M < 0 then int (unat (if_vendor n)) else int (unat (word_of_int (match_vendor M) :: u16)));
             rp = (if match_product M < 0 then int (unat (if_product n)) else int (unat (word_of_int (match_product M) :: u16))) in
         Inr (Some (root, rv, rp), d))
      else
        (let rv = int (unat (if_vendor n)); rp = int (unat (if_product n)) in
         rbind (runtime_state U n d) (\<lambda>(st, d).
         if st = DFU_STATE_appIDLE \<or> st = DFU_STATE_appDETACH then
           rbind (detach_runtime U n d) (\<lambda>d.
           let d = uh_close U (uh_release U (interface n) d) in
           if op_mode o1 = MODE_DETACH then Inr (None, d)
           else
             rbind (int_ok (op_delay o1 * 1000)) (\<lambda>ms.
             rbind (reprobe U M path_buf (pause (uh_usb U) (nat ms) d)) (\<lambda>(root, d).
             Inr (Some (root, rv, rp), d))))
         else
           rbind (if st = STATE_DFU_ERROR
                  then (case dfu_clear_status (uh_usb U) (iface n) d of (ret, d) \<Rightarrow>
                        if ret < 0 then Inl (Exit EX_IOERR) else Inr d)
                  else Inr d) (\<lambda>d.
           Inr (Some (root, rv, rp), uh_release U (interface n) d)))))"

subsection \<open>To dfuIDLE\<close>

text \<open>From the label status_again on: clear an error, abort a transfer, until neither is there.\<close>

fun status_again :: "nat \<Rightarrow> 'd usb \<Rightarrow> dfu_if \<Rightarrow> 'd \<Rightarrow> dfu_stop + dfu_status \<times> 'd" where
  "status_again 0 U dif d = Inl (Undef OutOfFuel)"
| "status_again (Suc n) U dif d =
     (case dfu_get_status U dif d of (ret, status, d) \<Rightarrow>
      if ret < 0 then Inl (Exit EX_IOERR)
      else
        (let d = pause U (bwPollTimeout status) d; st = bState status in
         if st = DFU_STATE_appIDLE \<or> st = DFU_STATE_appDETACH then Inl (Exit EX_PROTOCOL)
         else if st = STATE_DFU_ERROR then
           (case dfu_clear_status U (ucast (interface dif)) d of (ret, d) \<Rightarrow>
            if ret < 0 then Inl (Exit EX_IOERR) else status_again n U dif d)
         else if st = STATE_DFU_DNLOAD_IDLE \<or> st = DFU_STATE_dfuUPLOAD_IDLE then
           (case dfu_abort U (ucast (interface dif)) d of (ret, d) \<Rightarrow>
            if ret < 0 then Inl (Exit EX_IOERR) else status_again n U dif d)
         else Inr (status, d)))"

definition status_ok :: "'d usb \<Rightarrow> dfu_if \<Rightarrow> dfu_status \<Rightarrow> 'd \<Rightarrow> dfu_stop + 'd" where
  "status_ok U dif status d =
     (if bStatus status = DFU_STATUS_OK then Inr d
      else (case dfu_clear_status U (ucast (interface dif)) d of (ret, d) \<Rightarrow>
        if ret < 0 then Inl (Exit EX_IOERR)
        else (case dfu_get_status U dif d of (ret, status, d) \<Rightarrow>
          if ret < 0 then Inl (Exit EX_IOERR)
          else if bStatus status \<noteq> DFU_STATUS_OK then Inl (Exit EX_PROTOCOL)
          else Inr (pause U (bwPollTimeout status) d))))"

definition settle_device :: "nat \<Rightarrow> 'd usb_host \<Rightarrow> dfu_node \<Rightarrow> 'd \<Rightarrow> dfu_stop + 'd" where
  "settle_device polls U n d =
     rbind (claim_node U n d) (\<lambda>d.
     rbind (if nd_flags n AND DFU_IFF_ALT \<noteq> 0 then alt_node U n (altsetting n) d else Inr d) (\<lambda>d.
     rbind (status_again polls (uh_usb U) (node_if n) d) (\<lambda>(status, d).
     status_ok (uh_usb U) (node_if n) status d)))"

text \<open>The transfer size: what the device says unless the option is given, and the two limits (on Linux).\<close>

definition choose_size :: "u16 \<Rightarrow> u32 \<Rightarrow> byte \<Rightarrow> dfu_stop + u32" where
  "choose_size func_size transfer_size max0 =
     rbind (if transfer_size \<noteq> 0 then Inr transfer_size
            else if func_size \<noteq> 0 then Inr (ucast func_size)
            else Inl (Exit EX_USAGE)) (\<lambda>transfer_size.
     let transfer_size = (if sint transfer_size > 4096 then 4096 else transfer_size) in
     Inr (if transfer_size < ucast max0 then ucast max0 else transfer_size))"


subsection \<open>The transfer\<close>

definition file_zero :: dfu_file where
  "file_zero = \<lparr>fname = [], firmware = [], total = 0, prefix_size = 0, suffix_size = 0, lmdfu_address = 0,
     prefix_kind = ZERO_PREFIX, dwCRC = 0, bcdDFU = 0, idVendor = 0, idProduct = 0, bcdDevice = 0\<rparr>"

definition id_differs :: "u16 \<Rightarrow> int \<Rightarrow> bool" where
  "id_differs i v \<longleftrightarrow> i \<noteq> 0xffff \<and> int (unat i) \<noteq> v"

definition file_mismatch :: "dfu_file \<Rightarrow> int \<Rightarrow> int \<Rightarrow> dfu_node \<Rightarrow> bool" where
  "file_mismatch file rv rp n \<longleftrightarrow>
     (id_differs (idVendor file) rv \<or> id_differs (idProduct file) rp) \<and>
     (id_differs (idVendor file) (int (unat (if_vendor n))) \<or> id_differs (idProduct file) (int (unat (if_product n))))"

text \<open>What the program is started with besides the options: the files, and the arguments left over.\<close>

record dfu_env =
  en_load :: load_env
  en_create :: bool                                 \<comment> \<open>open for exclusive writing succeeds\<close>
  en_full :: "byte list \<Rightarrow> nat \<Rightarrow> bool"             \<comment> \<open>a write is complete\<close>
  en_rest :: "string list"

text \<open>
  The switch over the mode: the value of ret, what was written to the file of an upload, and the
  device.  The file is None where it has no name.
\<close>

definition transfer ::
  "nat \<Rightarrow> nat \<Rightarrow> 'd usb_host \<Rightarrow> dfu_env \<Rightarrow> dfu_opts \<Rightarrow> dfu_mode \<Rightarrow> dfu_file \<Rightarrow> bool \<Rightarrow> u32 \<Rightarrow> dfu_node list \<Rightarrow>
   int \<Rightarrow> int \<Rightarrow> 'd \<Rightarrow> dfu_stop + int \<times> byte list option \<times> 'd" where
  "transfer n polls U E o1 mode file named xfer root rv rp d =
     (let n1 = hd root; dif = node_if n1; dfuse_device = (func_bcd (nd_func n1) = 0x11a) in
      case mode of
        MODE_UPLOAD \<Rightarrow>
          if \<not> en_create E then Inr (int EX_CANTCREAT, None, d)
          else
            rbind (if dfuse_device \<or> op_dfuse o1 \<noteq> None
                   then rbind (dfuse_do_upload n (uh_usb U) dif (sint xfer) (en_full E) (op_dfuse o1) dfuse_init d)
                          (\<lambda>(ret, out, _, d). Inr (ret, out, d))
                   else dfuload_do_upload n (uh_usb U) dif (sint xfer) (en_full E) d) (\<lambda>(ret, out, d).
            Inr (if ret < 0 then int EX_IOERR else 0, Some out, d))
      | MODE_DOWNLOAD \<Rightarrow>
          if file_mismatch file rv rp n1 then Inl (Exit EX_USAGE)
          else if dfuse_device \<or> op_dfuse o1 \<noteq> None \<or> bcdDFU file = 0x11a then
            rbind (dfuse_do_dnload n (uh_usb U) (map dfu_if.truncate root) (sint xfer)
                     (if named then Some file else None) (op_dfuse o1) dfuse_init d) (\<lambda>(_, d).
            Inr (0, None, d))
          else
            rbind (dfuload_do_dnload n polls (uh_usb U) dif (sint xfer) file d) (\<lambda>(ret, d).
            Inr (if ret < 0 then int EX_IOERR else 0, None, d))
      | MODE_DETACH \<Rightarrow>
          (case dfu_detach (uh_usb U) (iface n1) 1000 d of (ret, d) \<Rightarrow> Inr (if ret < 0 then 0 else ret, None, d))
      | _ \<Rightarrow> Inr (int EX_SOFTWARE, None, d))"

definition final_reset :: "'d usb_host \<Rightarrow> dfu_node \<Rightarrow> 'd \<Rightarrow> int \<times> 'd" where
  "final_reset U n d =
     (case dfu_detach (uh_usb U) (iface n) 1000 d of (_, d) \<Rightarrow>
      case reset_device (uh_usb U) d of (ret, d) \<Rightarrow>
      (if ret < 0 \<and> ret \<noteq> LIBUSB_ERROR_NOT_FOUND then int EX_IOERR else ret, d))"

subsection \<open>dfu_main\<close>

text \<open>Before the bus: the mode, the file and what to match.\<close>

definition prepare ::
  "dfu_env \<Rightarrow> dfu_opts \<Rightarrow> dfu_stop + dfu_mode \<times> dfu_file \<times> bool \<times> matching" where
  "prepare E o1 =
     (if en_rest E \<noteq> [] then Inl (Exit EX_USAGE)
      else if op_mode o1 = MODE_VERSION then Inl (Exit 0)
      else if op_mode o1 = MODE_NONE \<and> op_dfuse o1 = None then Inl (Exit EX_USAGE)
      else
        (let M = op_match o1;
             M = (if match_config_index M = 0 then M\<lparr>match_config_index := - 1\<rparr> else M);
             file = file_zero\<lparr>fname := op_file o1\<rparr> in
         if op_mode o1 = MODE_DOWNLOAD then
           rbind (dfu_load_file (en_load E) MAYBE_SUFFIX MAYBE_PREFIX file) (\<lambda>file.
           let M = (if match_vendor M < 0 \<and> idVendor file \<noteq> 0xffff
                    then M\<lparr>match_vendor := int (unat (idVendor file))\<rparr> else M);
               M = (if match_product M < 0 \<and> idProduct file \<noteq> 0xffff
                    then M\<lparr>match_product := int (unat (idProduct file))\<rparr> else M) in
           Inr (MODE_DOWNLOAD, file, True, M))
         else if op_mode o1 = MODE_NONE then
           Inr (MODE_DOWNLOAD, file\<lparr>idVendor := 0xffff, idProduct := 0xffff\<rparr>, False, M)
         else Inr (op_mode o1, file, True, M)))"

text \<open>From the one device found on: what dfu_main returns.\<close>

definition with_device ::
  "nat \<Rightarrow> nat \<Rightarrow> 'd usb_host \<Rightarrow> dfu_env \<Rightarrow> dfu_opts \<Rightarrow> dfu_mode \<Rightarrow> dfu_file \<Rightarrow> bool \<Rightarrow> matching \<Rightarrow>
   string \<Rightarrow> dfu_node list \<Rightarrow> 'd \<Rightarrow> dfu_stop + int \<times> byte list option \<times> 'd" where
  "with_device n polls U E o1 mode file named M path_buf root d =
     rbind (open_node U (hd root) d) (\<lambda>d.
     rbind (dfu_state_of U o1 M path_buf root d) (\<lambda>(r, d).
     case r of None \<Rightarrow> Inr (0, None, d)
     | Some (root, rv, rp) \<Rightarrow>
       (let n1 = hd root in
        rbind (settle_device polls U n1 d) (\<lambda>d.
        rbind (choose_size (func_transfer (nd_func n1)) (op_transfer o1) (nd_max0 n1)) (\<lambda>xfer.
        rbind (transfer n polls U E o1 mode file named xfer root rv rp d) (\<lambda>(ret, out, d).
        case (if ret = 0 \<and> op_reset o1 then final_reset U n1 d else (ret, d)) of (ret, d) \<Rightarrow>
        Inr (ret, out, uh_close U d)))))))"

text \<open>The device of an interface in the list, for print_dfu_if.\<close>

definition device_of :: "usb_device list \<Rightarrow> nat \<Rightarrow> usb_device" where
  "device_of devs p = (case filter (\<lambda>u. us_dev u = p) devs of [] \<Rightarrow> hd devs | u # _ \<Rightarrow> u)"

definition dfu_main ::
  "nat \<Rightarrow> nat \<Rightarrow> 'd usb_host \<Rightarrow> dfu_env \<Rightarrow> (char \<times> string) list \<Rightarrow> 'd \<Rightarrow> dfu_stop + int \<times> byte list option \<times> 'd" where
  "dfu_main n polls U E args d =
     rbind (dfu_options args opts_zero) (\<lambda>o1.
     rbind (prepare E o1) (\<lambda>(mode, file, named, M).
     if uh_init U \<noteq> 0 then Inl (Exit EX_IOERR)
     else
       rbind (if mode = MODE_LIST
              then rbind (probe_devices U M [] d) (\<lambda>(path_buf, root). Inr (path_buf, root, d))
              else probe_wait polls U (op_wait o1) M [] d) (\<lambda>(path_buf, root, d).
       if mode = MODE_LIST then
         rbind (lift_mem (list_paths (device_of (uh_list U d)) root path_buf)) (\<lambda>_. Inr (0, None, d))
       else if root = [] then Inr (int EX_IOERR, None, d)
       else if bcdDFU file = 0x11a \<and> dfuse_multiple_alt (map dfu_if.truncate root) \<or> tl root = []
       then with_device n polls U E o1 mode file named M path_buf root d
       else Inl (Exit EX_IOERR))))"

end
