(* ===== verification/DfuSearch.thy ===== *)
theory DfuSearch
  imports DfuMain DfuseLayout
begin

text \<open>
  What the search for devices finds (dfu_util.c and the options of main.c): find_descriptor on a
  well-formed descriptor list, the interfaces in the list dfu_root, the search behind a detach,
  the vendor and product option, and the buffer for the path.
\<close>

subsection \<open>Descriptors\<close>

text \<open>A descriptor: its length, its type, and the rest.\<close>

definition descriptor :: "byte list \<Rightarrow> bool" where
  "descriptor ds \<longleftrightarrow> 2 \<le> length ds \<and> length ds < 256 \<and> ds ! 0 = of_nat (length ds)"

lemma find_from_reads:
  "n \<le> length bs \<Longrightarrow> \<exists>r. find_from bs n ty k p = Inr r"
proof (induction bs n ty k p rule: find_from.induct)
  case (1 bs n ty k p)
  show ?case
  proof (cases "p + 1 < n")
    case False
    then show ?thesis by (simp add: find_from.simps)
  next
    case True
    then have r: "mread p 1 bs = Inr [bs ! p]" "mread (p + 1) 1 bs = Inr [bs ! (p + 1)]"
      using 1(2) by (simp_all add: mread_def take_Suc_conv_app_nth [of 0, simplified] hd_drop_conv_nth take_Suc)
    have IH: "\<exists>r. find_from bs n ty k (p + unat (bs ! p)) = Inr r" if "unat (bs ! p) \<noteq> 0" "bs ! (p + 1) \<noteq> ty"
      using 1(1) [OF True r(1) refl, of "[bs ! (p + 1)]"] 1(2) that by simp
    have m: "\<exists>r. mread p j bs = Inr r" if "p + j \<le> n" for j
      using that 1(2) by (simp add: mread_def)
    have "p + min (unat (bs ! p)) k \<le> n \<or> n < p + min (unat (bs ! p)) k" by linarith
    then show ?thesis
      using True IH r m [of "min (unat (bs ! p)) k"] m [of "n - p"]
      by (subst find_from.simps) (auto simp: Let_def simp del: One_nat_def)
  qed
qed

lemma find_descriptor_reads: "\<exists>r. find_descriptor bs (length bs) ty k = Inr r"
  by (simp add: find_descriptor_def find_from_reads)

lemma find_from_concat:
  assumes "list_all descriptor ds"
  shows "find_from (pre @ concat ds) (length (pre @ concat ds)) ty k (length pre)
    = Inr (map_option (take k) (find (\<lambda>x. x ! 1 = ty) ds))"
  using assms
proof (induction ds arbitrary: pre)
  case Nil
  then show ?case by (simp add: find_from.simps)
next
  case (Cons x ds)
  let ?bs = "pre @ concat (x # ds)"
  from Cons.prems have x: "2 \<le> length x" "length x < 256" "x ! 0 = of_nat (length x)"
    by (simp_all add: descriptor_def)
  then obtain a b y where xs: "x = a # b # y" by (cases x; cases "tl x") auto
  have "a = of_nat (length x)" using x(3) xs by simp
  then have u: "unat a = length x" using x(2) by (simp only: unat_of_nat) simp
  have r: "mread (length pre) 1 ?bs = Inr [a]" "mread (length pre + 1) 1 ?bs = Inr [b]"
    by (simp_all add: mread_def xs)
  have m: "mread (length pre) (min (length x) k) ?bs = Inr (take k x)"
    by (simp add: mread_def min_def)
  have IH: "find_from ?bs (length ?bs) ty k (length pre + length x)
      = Inr (map_option (take k) (find (\<lambda>x. x ! 1 = ty) ds))"
    using Cons.IH [of "pre @ x"] Cons.prems by simp
  show ?case
    using u r m IH x by (subst find_from.simps) (auto simp: xs Let_def)
qed


text \<open>What search_func finds, and that it always returns.\<close>

lemma search_alts_reads: "\<exists>r. search_alts alts b = Inr r"
proof (induction alts arbitrary: b)
  case (Cons i alts)
  obtain r where "find_descriptor (as_extra i) (length (as_extra i)) USB_DT_DFU 9 = Inr r"
    using find_descriptor_reads by blast
  then show ?case using Cons by (cases r) simp_all
qed simp

lemma search_func_reads: "\<exists>r. search_func dev cfg = Inr r"
proof -
  obtain r where r: "find_descriptor (cf_extra cfg) (length (cf_extra cfg)) USB_DT_DFU 9 = Inr r"
    using find_descriptor_reads by blast
  obtain s where s: "search_alts (concat (cf_interfaces cfg)) False = Inr s"
    using search_alts_reads by blast
  show ?thesis by (cases r; cases s) (simp_all add: search_func_def r s split: option.split)
qed

subsection \<open>The interfaces found\<close>

text \<open>The loops as maps and filters over the device's descriptors.\<close>

definition probe_takes :: "matching \<Rightarrow> usb_device \<Rightarrow> usb_config \<Rightarrow> byte list \<Rightarrow> altset \<Rightarrow> bool" where
  "probe_takes M dev cfg func i \<longleftrightarrow>
     as_class i = 0xfe \<and> as_subclass i = 1 \<and> ids_match M dev (is_dfu_mode dev cfg func i) i \<and>
     names_match M (is_dfu_mode dev cfg func i) (alt_name_of dev i)
       (serial_name_of dev (get_quirks (us_vendor dev) (us_product dev) (us_bcd dev)))"

definition probed_in_interface :: "matching \<Rightarrow> usb_device \<Rightarrow> usb_config \<Rightarrow> byte list \<Rightarrow> nat \<times> altset list \<Rightarrow> dfu_node list" where
  "probed_in_interface M dev cfg func = (\<lambda>(idx, uif).
     if us_opens dev \<and> (match_iface_index M \<le> - 1 \<or> match_iface_index M = int idx)
     then map (make_node dev cfg func) (filter (probe_takes M dev cfg func) uif) else [])"

definition probed_in_config :: "matching \<Rightarrow> usb_device \<Rightarrow> usb_config \<Rightarrow> dfu_node list" where
  "probed_in_config M dev cfg =
     (if match_config_index M \<le> - 1 \<or> match_config_index M = int (unat (cf_value cfg)) then
        (case projr (search_func dev cfg) of None \<Rightarrow> []
         | Some func \<Rightarrow> concat (map (probed_in_interface M dev cfg (fix_func func)) (enumerate 0 (cf_interfaces cfg))))
      else [])"

definition probed_in_device :: "matching \<Rightarrow> usb_device \<Rightarrow> dfu_node list" where
  "probed_in_device M dev =
     concat (map (probed_in_config M dev) (map the (takeWhile (\<lambda>c. c \<noteq> None) (us_configs dev))))"

definition path_matches :: "matching \<Rightarrow> usb_device \<Rightarrow> bool" where
  "path_matches M dev \<longleftrightarrow> (case match_path M of None \<Rightarrow> True | Some path \<Rightarrow> path_text dev = path)"

definition path_fits :: "usb_device \<Rightarrow> bool" where
  "path_fits dev \<longleftrightarrow> us_ports dev \<noteq> [] \<and> length (path_text dev) < MAX_PATH_LEN"

lemma probe_alts_found:
  "probe_alts M dev cfg func alts root =
     rev (if us_opens dev then map (make_node dev cfg func) (filter (probe_takes M dev cfg func) alts) else []) @ root"
  by (induction alts arbitrary: root) (auto simp: probe_takes_def Let_def)

lemma probe_interfaces_found:
  "probe_interfaces M dev cfg func idx uifs root =
     rev (concat (map (probed_in_interface M dev cfg func) (enumerate idx uifs))) @ root"
  by (induction uifs arbitrary: idx root) (auto simp: probe_alts_found probed_in_interface_def)

lemma probe_configs_found:
  "probe_configs M dev cfgs root =
     Inr (rev (concat (map (probed_in_config M dev) (map the (takeWhile (\<lambda>c. c \<noteq> None) cfgs)))) @ root)"
proof (induction cfgs arbitrary: root)
  case (Cons c cfgs)
  show ?case
  proof (cases c)
    case (Some cfg)
    obtain r where "search_func dev cfg = Inr r" using search_func_reads by blast
    then show ?thesis using Cons Some
      by (cases r) (auto simp: probed_in_config_def probe_interfaces_found)
  qed simp
qed simp

lemma probe_list_found:
  assumes "match_path M = None \<or> list_all path_fits devs"
  shows "\<exists>b. probe_list M devs path_buf root =
    Inr (b, rev (concat (map (probed_in_device M) (filter (\<lambda>u. path_matches M u \<and> us_descriptor u) devs))) @ root)"
  using assms
proof (induction devs arbitrary: path_buf root)
  case (Cons u devs)
  have g: "get_path u path_buf = Inr (path_text u)" if "match_path M \<noteq> None"
    using Cons.prems that by (auto simp: path_fits_def get_path_def)
  have "match_path M = None \<or> list_all path_fits devs" using Cons.prems by auto
  note IH = Cons.IH [OF this]
  show ?case
    using IH [of path_buf] IH [of "path_text u"] g
    by (cases "match_path M")
      (auto simp: path_matches_def probe_configuration_def probe_configs_found probed_in_device_def)
qed simp


subsection \<open>What is wanted\<close>

text \<open>
  The search stated without the code's tests.  An interface of class DFU runs in DFU mode when
  its protocol says so, and in three cases when it does not: version 1.1a with protocol 0, a
  Jabra device (0b0e) with protocol 0 and a single interface, the boot loader of the LPC (1fc9:000c)
  with protocol 1.
\<close>

definition dfu_class :: "altset \<Rightarrow> bool" where
  "dfu_class i \<longleftrightarrow> (as_class i, as_subclass i) = (254, 1)"

definition runs_dfu_mode :: "usb_device \<Rightarrow> usb_config \<Rightarrow> byte list \<Rightarrow> altset \<Rightarrow> bool" where
  "runs_dfu_mode dev cfg func i \<longleftrightarrow>
     (if as_protocol i = 0 then
        (func ! 7, func ! 8) = (0x1a, 0x01) \<or> us_vendor dev = 0x0b0e \<and> length (cf_interfaces cfg) = 1
      else if as_protocol i = 1 then (us_vendor dev, us_product dev) = (0x1fc9, 0x000c)
      else as_protocol i = 2)"

text \<open>
  A restriction is a number, negative for none, or a text.  Those on the alternate setting and
  its name are for DFU mode only; vendor, product and serial number have one value for DFU mode
  and one for run-time mode.
\<close>

definition asks :: "int \<Rightarrow> int \<Rightarrow> bool" where
  "asks m v \<longleftrightarrow> m < 0 \<or> v = m"

definition asks_text :: "string option \<Rightarrow> string \<Rightarrow> bool" where
  "asks_text m t \<longleftrightarrow> m \<in> {None, Some t}"

definition wanted_setting :: "matching \<Rightarrow> usb_device \<Rightarrow> bool \<Rightarrow> altset \<Rightarrow> string \<Rightarrow> string \<Rightarrow> bool" where
  "wanted_setting M dev dfu i name serial \<longleftrightarrow>
     dfu_class i \<and> asks (match_devnum M) (uint (us_address dev)) \<and>
     (if dfu then
        asks (match_iface_alt_index M) (uint (as_setting i)) \<and> asks_text (match_iface_alt_name M) name \<and>
        asks (match_vendor_dfu M) (uint (us_vendor dev)) \<and> asks (match_product_dfu M) (uint (us_product dev)) \<and>
        asks_text (match_serial_dfu M) serial
      else
        asks (match_vendor M) (uint (us_vendor dev)) \<and> asks (match_product M) (uint (us_product dev)) \<and>
        asks_text (match_serial M) serial)"

text \<open>
  The functional descriptor of a configuration: the first one that stands behind the configuration
  or behind an interface of class DFU; otherwise, when there is such an interface, the one the
  device gives, or a descriptor of version 1.0 and length 7.  A short one is of version 1.0,
  and one shorter than 9 bytes but not 7 says nothing of the transfer size.
\<close>

definition dfu_descriptor_in :: "byte list \<Rightarrow> byte list option" where
  "dfu_descriptor_in extra = projr (find_descriptor extra (length extra) USB_DT_DFU 9)"

definition padded :: "byte list \<Rightarrow> byte list" where
  "padded bs = bs @ replicate (9 - length bs) 0"

definition functional :: "usb_device \<Rightarrow> usb_config \<Rightarrow> byte list option" where
  "functional dev cfg =
     (let alts = filter dfu_class (concat (cf_interfaces cfg));
          there = List.map_filter dfu_descriptor_in (cf_extra cfg # map as_extra alts) in
      if there \<noteq> [] then Some (padded (hd there))
      else if alts = [] then None
      else Some (case us_dfu dev of Some bs \<Rightarrow> if us_opens dev then padded (take 9 bs) else [7, 0, 0, 0, 0, 0, 0, 0, 1]
                 | None \<Rightarrow> [7, 0, 0, 0, 0, 0, 0, 0, 1]))"

definition corrected :: "byte list \<Rightarrow> byte list" where
  "corrected f =
     (if hd f \<ge> 9 then f
      else if hd f = 7 then f[7 := 0x00, 8 := 0x01]
      else f[5 := 0, 6 := 0, 7 := 0x00, 8 := 0x01])"

text \<open>What is told of an interface that was found.\<close>

record summary =
  su_device :: nat
  su_config :: byte
  su_interface :: byte
  su_setting :: byte
  su_dfu_mode :: bool
  su_func :: "byte list"
  su_alt_name :: string
  su_serial :: "string option"

definition summary_of :: "dfu_node \<Rightarrow> summary" where
  "summary_of n =
     \<lparr>su_device = if_dev n, su_config = configuration n, su_interface = interface n, su_setting = altsetting n,
      su_dfu_mode = (nd_flags n AND 1 = 1), su_func = nd_func n, su_alt_name = alt_name n,
      su_serial = serial_name n\<rparr>"

definition wanted_in_config :: "matching \<Rightarrow> usb_device \<Rightarrow> usb_config \<Rightarrow> summary list" where
  "wanted_in_config M dev cfg =
     (case functional dev cfg of
        Some f \<Rightarrow>
          let func = corrected f; q = get_quirks (us_vendor dev) (us_product dev) (us_bcd dev);
              serial = serial_name_of dev q in
          [\<lparr>su_device = us_dev dev, su_config = cf_value cfg, su_interface = as_interface i,
            su_setting = as_setting i, su_dfu_mode = runs_dfu_mode dev cfg func i,
            su_func = (if q AND QUIRK_FORCE_DFU11 \<noteq> 0 then func[7 := 0x10, 8 := 0x01] else func),
            su_alt_name = alt_name_of dev i, su_serial = Some serial\<rparr>.
           (idx, alts) \<leftarrow> enumerate 0 (cf_interfaces cfg), i \<leftarrow> alts,
           us_opens dev \<and> asks (match_config_index M) (uint (cf_value cfg)) \<and>
           asks (match_iface_index M) (int idx) \<and>
           wanted_setting M dev (runs_dfu_mode dev cfg func i) i (alt_name_of dev i) serial]
      | None \<Rightarrow> [])"

text \<open>A configuration that cannot be read hides those behind it.\<close>

definition wanted_in_device :: "matching \<Rightarrow> usb_device \<Rightarrow> summary list" where
  "wanted_in_device M dev = concat [wanted_in_config M dev c. Some c \<leftarrow> takeWhile (\<lambda>c. c \<noteq> None) (us_configs dev)]"

lemma rd16_pair: "rd16 [a, b] = 0x011a \<longleftrightarrow> a = 0x1a \<and> b = 0x01"
proof -
  have l: "unat a < 256" "unat b < 256" using unsigned_less [of a] unsigned_less [of b] by simp_all
  have "unat (of_nat (unat a + 256 * unat b) :: u16) = unat a + 256 * unat b"
  proof -
    have "unat a + 256 * unat b < 65536" using l by linarith
    then show ?thesis unfolding unat_of_nat by simp
  qed
  moreover have "rd16 [a, b] = of_nat (unat a + 256 * unat b)" by (simp add: rd16_def)
  ultimately have "unat (rd16 [a, b]) = unat a + 256 * unat b" by (simp only:)
  moreover have "rd16 [a, b] = 0x011a \<longleftrightarrow> unat (rd16 [a, b]) = unat (0x011a :: u16)" by (rule word_unat_eq_iff)
  moreover have "unat (0x011a :: u16) = 282" by simp
  ultimately have "rd16 [a, b] = 0x011a \<longleftrightarrow> unat a + 256 * unat b = 282" by (simp only:)
  also have "\<dots> \<longleftrightarrow> unat a = 26 \<and> unat b = 1"
  proof -
    have "x + 256 * y = 282 \<longleftrightarrow> x = 26 \<and> y = 1" if x: "x < 256" for x y :: nat
    proof
      assume e: "x + 256 * y = 282"
      consider "y = 0" | "y = 1" | "2 \<le> y" by linarith
      then show "x = 26 \<and> y = 1" by cases (use e x in linarith)+
    qed simp
    then show ?thesis using l(1) .
  qed
  finally show ?thesis by (simp add: word_unat_eq_iff)
qed

lemma take_two: "Suc k < length f \<Longrightarrow> take 2 (drop k f) = [f ! k, f ! Suc k]"
  by (simp add: numeral_2_eq_2 take_Suc_conv_app_nth hd_drop_conv_nth take_Suc)

lemma is_dfu_mode_runs:
  assumes "9 \<le> length func"
  shows "is_dfu_mode dev cfg func i = runs_dfu_mode dev cfg func i"
  using assms take_two [of 7 func] rd16_pair
  by (auto simp: is_dfu_mode_def runs_dfu_mode_def func_bcd_def)

lemma id_matches_asks: "id_matches m w \<longleftrightarrow> asks m (uint w)"
proof -
  have "int (unat w) = uint w" by simp
  then show ?thesis unfolding id_matches_def asks_def by (auto simp del: int_nat_eq uint_nat)
qed

lemma byte_asks: "m \<ge> 0 \<and> m \<noteq> int (unat (b :: byte)) \<longleftrightarrow> \<not> asks m (uint b)"
  "m > - 1 \<and> m \<noteq> int (unat b) \<longleftrightarrow> \<not> asks m (uint b)"
proof -
  have "int (unat b) = uint b" by simp
  then show "m \<ge> 0 \<and> m \<noteq> int (unat b) \<longleftrightarrow> \<not> asks m (uint b)"
    "m > - 1 \<and> m \<noteq> int (unat b) \<longleftrightarrow> \<not> asks m (uint b)"
    unfolding asks_def by auto
qed

lemma string_matches_asks: "string_matches m t \<longleftrightarrow> asks_text m t"
  by (auto simp: string_matches_def asks_text_def split: option.split)

lemma probe_takes_wanted:
  assumes "9 \<le> length func"
  shows "probe_takes M dev cfg func i = wanted_setting M dev (runs_dfu_mode dev cfg func i) i (alt_name_of dev i)
      (serial_name_of dev (get_quirks (us_vendor dev) (us_product dev) (us_bcd dev)))"
  unfolding probe_takes_def is_dfu_mode_runs [OF assms] ids_match_def names_match_def wanted_setting_def dfu_class_def
    id_matches_asks string_matches_asks byte_asks
  by auto

text \<open>The functional descriptor.\<close>

lemma set_bytes_0_zero: "set_bytes 0 bs func_zero = padded bs"
  by (simp add: set_bytes_def padded_def func_zero_def)

lemma find_descriptor_in: "find_descriptor extra (length extra) USB_DT_DFU 9 = Inr (dfu_descriptor_in extra)"
  using find_descriptor_reads [of extra USB_DT_DFU 9] by (auto simp: dfu_descriptor_in_def)

lemma search_alts_found:
  "search_alts alts b = Inr (let found = List.map_filter dfu_descriptor_in (map as_extra (filter dfu_class alts)) in
     if found \<noteq> [] then Inl (padded (hd found)) else Inr (b \<or> filter dfu_class alts \<noteq> []))"
proof (induction alts arbitrary: b)
  case (Cons i alts)
  show ?case
  proof (cases "dfu_class i")
    case True
    then show ?thesis using Cons
      by (cases "dfu_descriptor_in (as_extra i)")
        (auto simp: find_descriptor_in dfu_class_def set_bytes_0_zero map_filter_simps Let_def)
  next
    case False
    then have "search_alts (i # alts) b = search_alts alts b" by (auto simp: dfu_class_def)
    moreover have "filter dfu_class (i # alts) = filter dfu_class alts" using False by simp
    ultimately show ?thesis using Cons by (simp only:)
  qed
qed (simp add: map_filter_simps)

lemma search_func_functional: "search_func dev cfg = Inr (functional dev cfg)"
proof -
  have z: "set_bytes 7 (le16 0x0100) (set_bytes 0 [7] func_zero) = [7, 0, 0, 0, 0, 0, 0, 0, 1]"
    by code_simp
  note z [unfolded set_bytes_0_zero]
  note z = this
  show ?thesis
  proof (cases "dfu_descriptor_in (cf_extra cfg)")
    case None
    then show ?thesis
      unfolding search_func_def find_descriptor_in search_alts_found functional_def
      by (cases "us_dfu dev") (simp_all add: set_bytes_0_zero z map_filter_simps Let_def)
  next
    case (Some bs)
    then show ?thesis
      unfolding search_func_def find_descriptor_in functional_def
      by (simp add: set_bytes_0_zero map_filter_simps Let_def)
  qed
qed

lemma functional_length: "functional dev cfg = Some f \<Longrightarrow> 9 \<le> length f"
  by (auto simp: functional_def padded_def Let_def split: if_splits option.splits)

lemma fix_func_corrected:
  assumes "9 \<le> length f"
  shows "fix_func f = corrected f" and "9 \<le> length (corrected f)"
proof -
  obtain a b c d e x y z w v where f: "f = a # b # c # d # e # x # y # z # w # v"
    using assms by (auto simp: numeral_eq_Suc Suc_le_length_iff)
  have le: "le16 0x0100 = [0, 1]" "le16 0 = [0, 0]" by code_simp+
  have s: "set_bytes 7 [0, 1] f = f[7 := 0, 8 := 1]"
    "set_bytes 5 [0, 0] (set_bytes 7 [0, 1] f) = f[5 := 0, 6 := 0, 7 := 0, 8 := 1]"
    unfolding f by (simp_all add: set_bytes_def numeral_eq_Suc)
  have h: "f ! 0 = hd f" by (simp add: f)
  have u: "unat b = 7 \<longleftrightarrow> b = 7" "unat b < 9 \<longleftrightarrow> \<not> 9 \<le> b" for b :: byte
    by (simp_all add: word_unat_eq_iff word_le_nat_alt not_le)
  have "fix_func f = (if hd f = 7 then f[7 := 0, 8 := 1]
      else if \<not> 9 \<le> hd f then f[5 := 0, 6 := 0, 7 := 0, 8 := 1] else f)"
    unfolding fix_func_def h u le s(2) unfolding s(1) ..
  moreover have "\<not> (9 :: byte) \<le> 7" by simp
  ultimately show "fix_func f = corrected f" by (auto simp: corrected_def)
  show "9 \<le> length (corrected f)" using assms by (simp add: corrected_def)
qed

lemma summary_of_node:
  assumes "9 \<le> length func"
  shows "summary_of (make_node dev cfg func i) =
    \<lparr>su_device = us_dev dev, su_config = cf_value cfg, su_interface = as_interface i,
     su_setting = as_setting i, su_dfu_mode = runs_dfu_mode dev cfg func i,
     su_func = (if get_quirks (us_vendor dev) (us_product dev) (us_bcd dev) AND QUIRK_FORCE_DFU11 \<noteq> 0
       then func[7 := 0x10, 8 := 0x01] else func),
     su_alt_name = alt_name_of dev i,
     su_serial = Some (serial_name_of dev (get_quirks (us_vendor dev) (us_product dev) (us_bcd dev)))\<rparr>"
proof -
  have le: "le16 0x0110 = [0x10, 1]" by code_simp
  obtain a b c d e x y z w v where f: "func = a # b # c # d # e # x # y # z # w # v"
    using assms by (auto simp: numeral_eq_Suc Suc_le_length_iff)
  have "set_bytes 7 [0x10, 1] func = func[7 := 0x10, 8 := 1]"
    unfolding f by (simp add: set_bytes_def numeral_eq_Suc)
  moreover have "((if m then DFU_IFF_DFU else 0) OR DFU_IFF_ALT) AND 1 = 1 \<longleftrightarrow> m" for m
    by (cases m) (simp_all add: DFU_IFF_DFU_def DFU_IFF_ALT_def)
  ultimately show ?thesis
    unfolding summary_of_def make_node_def Let_def is_dfu_mode_runs [OF assms] le by simp
qed

lemma concat_map_if: "concat (map (\<lambda>x. if P x then [g x] else []) xs) = map g (filter P xs)"
  by (induction xs) auto

lemma concat_map_Nil: "concat (map (\<lambda>x. []) xs) = []"
  by simp

lemma byte_asks_le: "m \<le> - 1 \<or> m = int (unat (b :: byte)) \<longleftrightarrow> asks m (uint b)"
proof -
  have "int (unat b) = uint b" by simp
  then show ?thesis unfolding asks_def by auto
qed

lemma nat_asks_le: "m \<le> - 1 \<or> m = int k \<longleftrightarrow> asks m (int k)"
  by (auto simp: asks_def)

lemma summary_in_config: "map summary_of (probed_in_config M dev cfg) = wanted_in_config M dev cfg"
proof (cases "functional dev cfg")
  case None
  then show ?thesis by (simp add: probed_in_config_def wanted_in_config_def search_func_functional)
next
  case (Some f)
  define func where "func = corrected f"
  have l: "9 \<le> length func" and fx: "fix_func f = func"
    using fix_func_corrected [OF functional_length [OF Some]] by (simp_all add: func_def)
  note s = search_func_functional [of dev cfg, unfolded Some]
  show ?thesis
  proof (cases "us_opens dev \<and> asks (match_config_index M) (uint (cf_value cfg))")
    case True
    have one: "map summary_of (probed_in_interface M dev cfg func (idx, uif)) =
        concat (map (\<lambda>i. if us_opens dev \<and> asks (match_config_index M) (uint (cf_value cfg)) \<and>
            asks (match_iface_index M) (int idx) \<and>
            wanted_setting M dev (runs_dfu_mode dev cfg func i) i (alt_name_of dev i)
              (serial_name_of dev (get_quirks (us_vendor dev) (us_product dev) (us_bcd dev)))
          then [summary_of (make_node dev cfg func i)] else []) uif)" for idx uif
      unfolding concat_map_if probed_in_interface_def prod.case nat_asks_le
        probe_takes_wanted [OF l, abs_def]
      using True by (auto simp: comp_def)
    have "map summary_of (probed_in_config M dev cfg) =
        concat (map (\<lambda>x. map summary_of (probed_in_interface M dev cfg func x)) (enumerate 0 (cf_interfaces cfg)))"
      using True unfolding probed_in_config_def byte_asks_le s by (simp add: map_concat comp_def fx)
    also have "\<dots> = wanted_in_config M dev cfg"
      unfolding wanted_in_config_def Some option.case func_def [symmetric] Let_def
      by (rule arg_cong [of _ _ concat], rule map_cong [OF refl])
        (simp only: split_paired_all prod.case one summary_of_node [OF l])
    finally show ?thesis .
  next
    case False
    then show ?thesis
      unfolding probed_in_config_def byte_asks_le wanted_in_config_def s Some
      by (auto simp: probed_in_interface_def Let_def case_prod_beta' concat_map_Nil)
  qed
qed

lemma summary_in_device: "map summary_of (probed_in_device M dev) = wanted_in_device M dev"
proof -
  have "concat (map (\<lambda>c. map summary_of (probed_in_config M dev (the c))) cs) =
      concat [wanted_in_config M dev c. Some c \<leftarrow> cs]" if "None \<notin> set cs" for cs
    using that
  proof (induction cs)
    case (Cons c cs)
    then show ?case by (cases c) (auto simp: summary_in_config)
  qed simp
  moreover have "None \<notin> set (takeWhile (\<lambda>c. c \<noteq> None) (us_configs dev))" by (auto dest: set_takeWhileD)
  ultimately show ?thesis
    unfolding probed_in_device_def wanted_in_device_def map_concat map_map comp_def by blast
qed

subsection \<open>The second search\<close>

lemma probe_list_set:
  assumes "\<And>dev cfg func i. ids_match M dev (is_dfu_mode dev cfg func i) i \<Longrightarrow> P (make_node dev cfg func i)"
  shows "probe_list M devs path_buf root = Inr (b, found) \<Longrightarrow> \<forall>n\<in>set root. P n \<Longrightarrow> \<forall>n\<in>set found. P n"
proof (induction devs arbitrary: path_buf root)
  case (Cons u devs)
  have dev: "\<forall>n\<in>set (probed_in_device M u). P n"
    by (auto simp: probed_in_device_def probed_in_config_def probed_in_interface_def probe_takes_def
        intro: assms split: option.splits if_splits)
  obtain c ok where r: "(case match_path M of None \<Rightarrow> Inr (path_buf, True)
      | Some path \<Rightarrow> rbind (get_path u path_buf) (\<lambda>b. Inr (b, b = path))) = Inr (c, ok)"
    and more: "(if \<not> ok \<or> \<not> us_descriptor u then probe_list M devs c root
      else probe_list M devs c (rev (probed_in_device M u) @ root)) = Inr (b, found)"
    using Cons.prems(1)
    by (cases "case match_path M of None \<Rightarrow> Inr (path_buf, True)
        | Some path \<Rightarrow> rbind (get_path u path_buf) (\<lambda>b. Inr (b, b = path))")
      (auto simp: probe_configuration_def probe_configs_found probed_in_device_def split: if_splits)
  show ?case
    using Cons.IH [of c root] Cons.IH [of c "rev (probed_in_device M u) @ root"] more Cons.prems(2) dev
    by (auto split: if_splits)
qed simp

lemma only_dfu_mode_matches: "ids_match (only_dfu_mode M) dev m i \<Longrightarrow> m"
proof -
  have "uint w \<noteq> 65536" for w :: u16 by (metis unat_u16 unat_eq_nat_uint nat_numeral less_irrefl)
  then show "ids_match (only_dfu_mode M) dev m i \<Longrightarrow> m"
    by (auto simp: ids_match_def only_dfu_mode_def id_matches_def split: if_splits)
qed

lemma dfu_flag [simp]: "DFU_IFF_DFU \<noteq> 0"
  by (simp add: DFU_IFF_DFU_def)

lemma only_dfu_nodes:
  assumes "probe_list (only_dfu_mode M) devs path_buf [] = Inr (b, root)" and "n \<in> set root"
  shows "nd_flags n AND DFU_IFF_DFU \<noteq> 0"
proof -
  have "\<forall>n\<in>set root. nd_flags n AND DFU_IFF_DFU \<noteq> 0"
    by (rule probe_list_set [OF _ assms(1)])
      (use only_dfu_mode_matches in \<open>auto simp: make_node_def Let_def\<close>)
  then show ?thesis using assms(2) by blast
qed

subsection \<open>Vendor and product as --list prints them\<close>

definition ids_text :: "u16 \<Rightarrow> u16 \<Rightarrow> string" where
  "ids_text v p = hex4 v @ '':'' @ hex4 p"

lemma scan_x_text:
  assumes "valid_hex h" and "r = [] \<or> \<not> isxdigit (hd r) \<and> hd r \<noteq> CHR ''x'' \<and> hd r \<noteq> CHR ''X''"
  shows "scan_x (h @ r) = Some (of_nat (digits_val 16 h), r)"
proof (cases r)
  case (Cons c r')
  then show ?thesis using scan_x_digits [OF assms(1), of c r'] assms(2) by simp
next
  case Nil
  from assms obtain d h' where d: "h = d # h'" "isxdigit d" "list_all isxdigit h'"
    by (cases h) (auto simp: valid_hex_def)
  then have s: "scan_sign h = (False, h)"
    using isxdigit_sign [of d] by (simp add: scan_sign_none)
  have p: "take 2 h \<noteq> ''0x''" "take 2 h \<noteq> ''0X''"
    using d isxdigit_sign by (cases h'; auto simp: numeral_2_eq_2)+
  have tw: "takeWhile isxdigit h = h" "dropWhile isxdigit h = []"
    using d by (auto simp: takeWhile_eq_all_conv dropWhile_eq_Nil_conv list_all_iff)
  show ?thesis
    using assms(1) p unfolding scan_x_def Nil append_Nil2 s prod.case Let_def
    by (simp add: tw valid_hex_def)
qed

lemma parse_match_hex4:
  assumes "r = [] \<or> hd r = CHR '':'' \<or> hd r = CHR '',''"
  shows "parse_match_value (Some (hex4 w @ r)) k = int (unat w)"
proof -
  have w: "unat w < 65536" by (rule unat_u16)
  then have "unat w < 4294967296" by linarith
  then have v: "valid_hex (hex4 w)"
    using hex4_xdigits [of w] hex4_length [of w] unfolding valid_hex_def hex4_val by auto
  have "scan_x (hex4 w @ r) = Some (of_nat (unat w), r)"
    using assms by (subst scan_x_text [OF v]) (auto simp: hex4_val isxdigit_def isdigit_def code_def)
  moreover have "sint (of_nat j :: u32) = int j" if "j < 65536" for j
    using that by (simp add: signed_of_nat signed_take_bit_int_eq_self)
  note this [OF w]
  moreover obtain c t where c: "hex4 w = c # t" "isxdigit c"
    using hex4_length [of w] hex4_xdigits [of w] by (cases "hex4 w") auto
  moreover from c(2) have "c \<noteq> CHR ''*'' \<and> c \<noteq> CHR ''-''"
    by (auto simp: isxdigit_def isdigit_def code_def)
  ultimately show ?thesis by (simp add: parse_match_value_def)
qed

lemma hex4_set: "c \<in> set (hex4 w) \<Longrightarrow> isxdigit c"
  using hex4_xdigits [of w] by (simp add: list_all_iff)

lemma strchr_behind:
  "c \<notin> set xs \<Longrightarrow> strchr c (xs @ c # r) = Some (c # r)"
  by (auto simp: strchr_def dropWhile_append)

lemma hex4_marks: "CHR '','' \<notin> set (hex4 w)" "CHR '':'' \<notin> set (hex4 w)"
  using hex4_set [of "CHR '',''" w] hex4_set [of "CHR '':''" w] by (auto simp: isxdigit_def isdigit_def code_def)


lemma probe_devices_found:
  assumes "match_path M = None \<or> list_all path_fits (uh_list U d)"
  shows "\<exists>b. probe_devices U M path_buf d = Inr (b, rev (concat (map (probed_in_device M)
      (filter (\<lambda>u. path_matches M u \<and> us_descriptor u) (uh_list U d)))))"
  using probe_list_found [OF assms, of path_buf "[]"] by (auto simp: probe_devices_def)

subsection \<open>Properties\<close>

text \<open>
  On a list of well-formed descriptors find_descriptor returns the first one of the type,
  cut to the size of the result, or -1 when there is none, and reads no byte behind the list.
\<close>
theorem find_descriptor_first:
  assumes "list_all descriptor ds" and "bs = concat ds"
  shows "find_descriptor bs (length bs) ty k = Inr (map_option (take k) (find (\<lambda>x. x ! 1 = ty) ds))"
proof (cases "ds = []")
  case False
  then have "2 \<le> length bs" using assms by (cases ds) (auto simp: descriptor_def)
  then show ?thesis using find_from_concat [OF assms(1), of "[]"] assms(2) by (simp add: find_descriptor_def)
qed (simp add: assms(2) find_descriptor_def)

text \<open>
  C25. When no path is asked for, or every path fits its buffer, the search returns, and the list
  it builds tells, from its end to its front, exactly of the DFU interfaces that are wanted, of
  the devices that can be read and opened: device, configuration, interface, setting, mode,
  functional descriptor and names.  What is wanted is stated without the code's tests
  (\<open>wanted_in_device\<close>); the texts of the names are those of the string descriptors as the code
  reads them.
\<close>
theorem probe_finds_accepted:
  assumes "match_path M = None \<or> list_all path_fits (uh_list U d)"
  shows "\<exists>b root. probe_devices U M path_buf d = Inr (b, root) \<and>
    map summary_of (rev root) =
      concat (map (wanted_in_device M) (filter (\<lambda>u. path_matches M u \<and> us_descriptor u) (uh_list U d)))"
  using probe_devices_found [OF assms, of path_buf]
  by (auto simp: map_concat comp_def summary_in_device)

text \<open>
  The search behind a detach takes only a device in DFU mode: where it succeeds, it has
  found one interface, and the interface has the flag of DFU mode, whatever the options were.
\<close>
theorem second_search_dfu_only:
  assumes "reprobe U M path_buf d = Inr (root, d')"
  shows "\<exists>n. root = [n] \<and> nd_flags n AND DFU_IFF_DFU \<noteq> 0"
proof -
  from assms obtain b where b: "probe_list (only_dfu_mode M) (uh_list U d) path_buf [] = Inr (b, root)"
    and n: "root \<noteq> []" "tl root = []"
    by (cases "probe_list (only_dfu_mode M) (uh_list U d) path_buf []")
      (auto simp: reprobe_def probe_devices_def open_node_def split: if_splits prod.splits)
  then obtain n where "root = [n]" by (cases root) auto
  then show ?thesis using only_dfu_nodes [OF b, of n] by simp
qed

text \<open>
  The vendor and the product of a run-time device and of its DFU mode, written as --list
  writes them and joined by a comma, are read back by the option --device.
\<close>
theorem listed_ids_parse:
  "parse_vendprod (ids_text v p @ '','' @ ids_text vd pd) M =
     M\<lparr>match_vendor := int (unat v), match_product := int (unat p),
       match_vendor_dfu := int (unat vd), match_product_dfu := int (unat pd)\<rparr>"
proof -
  let ?rest = "CHR '','' # ids_text vd pd"
  let ?s = "ids_text v p @ ?rest"
  have comma: "strchr CHR '','' ?s = Some ?rest"
    using strchr_behind [of "CHR '',''" "ids_text v p" "ids_text vd pd"] hex4_marks
    by (simp add: ids_text_def)
  have colon: "strchr CHR '':'' ?s = Some (CHR '':'' # hex4 p @ ?rest)"
    using strchr_behind [of "CHR '':''" "hex4 v" "hex4 p @ ?rest"] hex4_marks by (simp add: ids_text_def)
  have colon2: "strchr CHR '':'' (ids_text vd pd) = Some (CHR '':'' # hex4 pd)"
    using strchr_behind [of "CHR '':''" "hex4 vd" "hex4 pd"] hex4_marks by (simp add: ids_text_def)
  have ne: "?rest \<noteq> ?s" by (simp add: ids_text_def hex4_length list_eq_iff_nth_eq)
  have vals: "parse_match_value (Some ?s) k = int (unat v)"
    "parse_match_value (Some (hex4 p @ ?rest)) k = int (unat p)"
    "parse_match_value (Some (ids_text vd pd)) k = int (unat vd)"
    "parse_match_value (Some (hex4 pd)) k = int (unat pd)" for k
    using parse_match_hex4 [of "CHR '':'' # hex4 p @ ?rest" v k] parse_match_hex4 [of ?rest p k]
      parse_match_hex4 [of "CHR '':'' # hex4 pd" vd k] parse_match_hex4 [of "[]" pd k]
    by (simp_all add: ids_text_def)
  show ?thesis
    unfolding parse_vendprod_def append_Cons append_Nil comma colon using ne
    by (simp add: colon2 [unfolded ids_text_def, simplified] vals [unfolded ids_text_def, simplified]
        hex4_length ids_text_def Let_def)
qed

end
