(* ===== verification/DfuRuns.thy ===== *)
theory DfuRuns
  imports DfuSearch FirmwareFile
begin

text \<open>
  Runs of dfu-util: the transfer size, the loop over status requests, a download from the command
  line to the memory of the device, the test of the identifiers in the file, and the listing.
\<close>

subsection \<open>The transfer size\<close>

lemma unat_ucast_byte: "unat (ucast m :: u32) = unat (m :: byte)"
proof -
  have "unat m < 4294967296" using unat_byte [of m] by linarith
  then show ?thesis by (simp add: unsigned_ucast_eq take_bit_nat_eq_self)
qed

lemma choose_size_returns: "func_size \<noteq> 0 \<Longrightarrow> \<exists>x. choose_size func_size t max0 = Inr x"
  by (cases "t = 0") (simp_all add: choose_size_def Let_def)

lemma sint_small: "0 \<le> sint w \<Longrightarrow> sint w = int (unat w)" for w :: u32
proof -
  assume "0 \<le> sint w"
  moreover have "sint w < 2 ^ 31" using sint_less [of w] by simp
  ultimately have "take_bit 32 (sint w) = sint w" by (simp add: take_bit_int_eq_self)
  then show ?thesis using uint_sint [of w] by simp
qed

lemma sint_u32_small: "unat w < 2147483648 \<Longrightarrow> sint w = int (unat w)" for w :: u32
proof -
  assume "unat w < 2147483648"
  then have "uint w < 2147483648" unfolding uint_nat by linarith
  moreover have "0 \<le> uint w" by (rule unsigned_greater_eq)
  moreover have "(2 :: int) ^ 31 = 2147483648" by simp
  ultimately have "- (2 ^ 31) \<le> uint w" and "uint w < 2 ^ 31" by (linarith, linarith)
  then have "signed_take_bit 31 (uint w) = uint w" by (rule signed_take_bit_int_eq_self)
  then show ?thesis by (simp add: sint_uint)
qed

text \<open>
  C26. With a size that is not negative as an int, the size settled on is positive, at least the
  packet size of endpoint zero, and at most 4096.
\<close>
theorem transfer_size_bounds:
  assumes "choose_size func_size t max0 = Inr x" and "0 \<le> sint t"
  shows "0 < unat x \<and> unat max0 \<le> unat x \<and> unat x \<le> 4096"
proof -
  have m: "unat max0 \<le> 4096" using unat_byte [of max0] by linarith
  define y where "y = (if t \<noteq> 0 then t else ucast func_size)"
  define z where "z = (if sint y > 4096 then 4096 else y)"
  have c: "t \<noteq> 0 \<or> func_size \<noteq> 0" and x: "x = (if z < ucast max0 then ucast max0 else z)"
    using assms(1) by (auto simp: choose_size_def y_def z_def Let_def split: if_splits)
  have "(ucast func_size :: u32) \<noteq> 0" if "func_size \<noteq> 0"
    using that unat_ucast_u16 [of func_size] by (metis unat_eq_zero unsigned_0)
  then have "unat y \<noteq> 0" using c by (auto simp: y_def unat_eq_zero)
  moreover have "0 \<le> sint y"
    using assms(2) by (simp add: y_def signed_ucast_eq unsigned_ucast_eq bit_uint_iff)
  ultimately have z: "0 < unat z" "unat z \<le> 4096" using sint_small [of y] by (auto simp: z_def simp del: int_nat_eq of_nat_unat)
  show ?thesis
    using z m by (auto simp: x word_less_nat_alt unat_ucast_byte)
qed

text \<open>
  A size of -1 passes both limits, and the download of a file that is smaller than 64 KiB
  then reads the 65535 bytes of the first block out of the buffer that holds the file.
\<close>
theorem negative_size_reads_outside:
  assumes "suffix_size file < total file" and "length (firmware file) < 65535"
  shows "dfu_option CHR ''t'' ''-1'' opts_zero = Inr (opts_zero\<lparr>op_transfer := - 1\<rparr>) \<and>
    choose_size func_size (- 1) max0 = Inr (- 1) \<and>
    dfuload_do_dnload (Suc n) polls U dif (sint (- 1 :: u32)) file d = Inl (Undef OobRead)"
proof (intro conjI)
  show "dfu_option CHR ''t'' ''-1'' opts_zero = Inr (opts_zero\<lparr>op_transfer := - 1\<rparr>)"
    by (simp add: dfu_option_def parse_number_def strtol0_def scan_sign_def isspace_def isdigit_def code_def
        digits_val_def digit_val_def to_int32_def isxdigit_def)
  have "\<not> (- 1 :: u32) < ucast max0" by (simp add: not_less)
  then show "choose_size func_size (- 1) max0 = Inr (- 1)"
    by (simp add: choose_size_def)
  show "dfuload_do_dnload (Suc n) polls U dif (sint (- 1 :: u32)) file d = Inl (Undef OobRead)"
    using assms by (simp add: dfuload_do_dnload_def dnload_chunk_size_def mread_def Let_def unsigned_minus_1_eq_mask
        mask_eq_exp_minus_1)
qed

subsection \<open>The status loop\<close>

text \<open>
  A device whose requests succeed: \<open>rank\<close> counts the status requests until it is neither in
  dfuERROR nor in a transfer, each followed by the request the program answers with.
\<close>

definition recovers :: "'d usb \<Rightarrow> dfu_if \<Rightarrow> ('d \<Rightarrow> nat) \<Rightarrow> bool" where
  "recovers U dif rank \<longleftrightarrow>
     (\<forall>d. case dfu_get_status U dif d of (ret, status, d1) \<Rightarrow> 0 \<le> ret \<and>
        (let d2 = pause U (bwPollTimeout status) d1 in
         (bState status = STATE_DFU_ERROR \<longrightarrow>
            (case dfu_clear_status U (ucast (interface dif)) d2 of (ret, d3) \<Rightarrow> 0 \<le> ret \<and> rank d3 < rank d)) \<and>
         (bState status = STATE_DFU_DNLOAD_IDLE \<or> bState status = DFU_STATE_dfuUPLOAD_IDLE \<longrightarrow>
            (case dfu_abort U (ucast (interface dif)) d2 of (ret, d3) \<Rightarrow> 0 \<le> ret \<and> rank d3 < rank d))))"

text \<open>A device that reports dfuERROR whatever it is asked.\<close>

definition stays_in_error :: "'d usb \<Rightarrow> dfu_if \<Rightarrow> bool" where
  "stays_in_error U dif \<longleftrightarrow>
     (\<forall>d. case dfu_get_status U dif d of (ret, status, d1) \<Rightarrow> 0 \<le> ret \<and> bState status = STATE_DFU_ERROR) \<and>
     (\<forall>d. case dfu_clear_status U (ucast (interface dif)) d of (ret, _) \<Rightarrow> 0 \<le> ret)"

lemmas dfu_more_states = DFU_STATE_appIDLE_def DFU_STATE_appDETACH_def DFU_STATE_dfuUPLOAD_IDLE_def

text \<open>
  The loop from status_again on ends within the number of turns the device needs to recover,
  in an error message or in a state that is neither dfuERROR nor a transfer left over.
\<close>
theorem status_loop_ends:
  assumes "recovers U dif rank" and "rank d < n"
  shows "status_again n U dif d = Inl (Exit EX_PROTOCOL) \<or>
    (\<exists>status d'. status_again n U dif d = Inr (status, d') \<and>
      bState status \<notin> {STATE_DFU_ERROR, STATE_DFU_DNLOAD_IDLE, DFU_STATE_dfuUPLOAD_IDLE})"
  using assms(2)
proof (induction n arbitrary: d)
  case (Suc n)
  obtain ret status d1 where g: "dfu_get_status U dif d = (ret, status, d1)"
    by (cases "dfu_get_status U dif d")
  define d2 where "d2 = pause U (bwPollTimeout status) d1"
  from assms(1) [unfolded recovers_def, rule_format, of d] have r: "0 \<le> ret"
    and e: "bState status = STATE_DFU_ERROR \<Longrightarrow>
      case dfu_clear_status U (ucast (interface dif)) d2 of (ret, d3) \<Rightarrow> 0 \<le> ret \<and> rank d3 < rank d"
    and a: "bState status = STATE_DFU_DNLOAD_IDLE \<or> bState status = DFU_STATE_dfuUPLOAD_IDLE \<Longrightarrow>
      case dfu_abort U (ucast (interface dif)) d2 of (ret, d3) \<Rightarrow> 0 \<le> ret \<and> rank d3 < rank d"
    by (auto simp: g d2_def Let_def)
  have IH: "rank d3 < rank d \<Longrightarrow> status_again n U dif d3 = Inl (Exit EX_PROTOCOL) \<or>
    (\<exists>status d'. status_again n U dif d3 = Inr (status, d') \<and>
      bState status \<notin> {STATE_DFU_ERROR, STATE_DFU_DNLOAD_IDLE, DFU_STATE_dfuUPLOAD_IDLE})" for d3
    using Suc by simp
  show ?case
    using r e a IH unfolding status_again.simps g prod.case Let_def d2_def [symmetric]
    by (cases "dfu_clear_status U (ucast (interface dif)) d2"; cases "dfu_abort U (ucast (interface dif)) d2")
      (auto simp: not_less dfu_states dfu_more_states)
qed simp

text \<open>
  While the device stays in dfuERROR the program asks it for its status and clears the status
  for ever: no number of turns ends the loop.
\<close>
theorem status_loop_never_ends:
  assumes "stays_in_error U dif"
  shows "status_again n U dif d = Inl (Undef OutOfFuel)"
proof (induction n arbitrary: d)
  case (Suc n)
  obtain ret status d1 where g: "dfu_get_status U dif d = (ret, status, d1)"
    by (cases "dfu_get_status U dif d")
  define d2 where "d2 = pause U (bwPollTimeout status) d1"
  obtain r2 d3 where c: "dfu_clear_status U (ucast (interface dif)) d2 = (r2, d3)"
    by (cases "dfu_clear_status U (ucast (interface dif)) d2")
  have "\<not> ret < 0" "bState status = STATE_DFU_ERROR" "\<not> r2 < 0"
    using assms [unfolded stays_in_error_def, THEN conjunct1, rule_format, of d]
      assms [unfolded stays_in_error_def, THEN conjunct2, rule_format, of d2] by (simp_all add: g c)
  then show ?case
    using Suc c unfolding status_again.simps g prod.case Let_def d2_def [symmetric]
    by (simp add: dfu_states dfu_more_states)
qed simp


subsection \<open>A download from the command line\<close>

text \<open>The command line names no vendor, no product: what the file's suffix says is searched for.\<close>

definition no_ids :: "dfu_opts \<Rightarrow> bool" where
  "no_ids o1 \<longleftrightarrow> match_vendor (op_match o1) < 0 \<and> match_product (op_match o1) < 0"

lemma prepare_download:
  assumes "prepare E o1 = Inr (MODE_DOWNLOAD, file, True, M)"
  shows "op_mode o1 = MODE_DOWNLOAD \<and>
    dfu_load_file (en_load E) MAYBE_SUFFIX MAYBE_PREFIX (file_zero\<lparr>fname := op_file o1\<rparr>) = Inr file \<and>
    (match_vendor (op_match o1) < 0 \<longrightarrow>
       match_vendor M = (if idVendor file \<noteq> 0xffff then int (unat (idVendor file)) else match_vendor (op_match o1))) \<and>
    (match_product (op_match o1) < 0 \<longrightarrow>
       match_product M = (if idProduct file \<noteq> 0xffff then int (unat (idProduct file)) else match_product (op_match o1)))"
  using assms
  by (cases "dfu_load_file (en_load E) MAYBE_SUFFIX MAYBE_PREFIX (file_zero\<lparr>fname := op_file o1\<rparr>)")
    (auto simp: prepare_def Let_def split: if_splits)

lemma dfu_mode_ids:
  assumes "nd_flags (hd root) AND DFU_IFF_DFU \<noteq> 0" and "prepare E o1 = Inr (MODE_DOWNLOAD, file, True, M)"
    and "no_ids o1"
  shows "\<exists>rv rp. dfu_state_of U o1 M path_buf root d = Inr (Some (root, rv, rp), d) \<and>
    \<not> file_mismatch file rv rp (hd root)"
proof -
  have w: "word_of_int (int (unat w)) = w" for w :: u16 by simp
  show ?thesis
    using assms(1,3) prepare_download [OF assms(2)]
    by (auto simp: dfu_state_of_def file_mismatch_def id_differs_def no_ids_def Let_def w)
qed

text \<open>
  Without the option --device, the test that compares the identifiers in the file with those
  of the device cannot fail for a device that is in DFU mode: the identifiers of the file have
  become what is searched for, and that has become what the file is compared with.  The
  vendor and the product of the device do not occur in it.
\<close>
theorem file_ids_not_compared:
  assumes "nd_flags (hd root) AND DFU_IFF_DFU \<noteq> 0" and "prepare E o1 = Inr (MODE_DOWNLOAD, file, True, M)"
    and "no_ids o1" and "dfu_state_of U o1 M path_buf root d = Inr (Some (root', rv, rp), d')"
  shows "root' = root \<and> \<not> file_mismatch file rv rp (hd root')"
  using dfu_mode_ids [OF assms(1-3), of U path_buf d] assms(4) by auto

text \<open>
  The device at hand: it can be opened and claimed, takes the alternate setting, and reports
  dfuIDLE and no error.  Then it is ready for the first block and has nothing of an image yet.
\<close>

definition opens_idle :: "'d usb_host \<Rightarrow> dfu_node \<Rightarrow> 'd dnload_view \<Rightarrow> 'd \<Rightarrow> bool" where
  "opens_idle U n V d \<longleftrightarrow>
     (case uh_open U (if_dev n) d of (r0, d) \<Rightarrow> r0 = 0 \<and>
      (case uh_claim U (interface n) d of (r1, d) \<Rightarrow> 0 \<le> r1 \<and>
       (case set_alt_setting (uh_usb U) (interface n) (altsetting n) d of (r2, d) \<Rightarrow> 0 \<le> r2 \<and>
        (case dfu_get_status (uh_usb U) (node_if n) d of (r3, status, d) \<Rightarrow> 0 \<le> r3 \<and>
           bState status = STATE_DFU_IDLE \<and> bStatus status = DFU_STATUS_OK \<and>
           (let d = pause (uh_usb U) (bwPollTimeout status) d in ready V d \<and> blocks V d = 0 \<and> image V d = [])))))"

lemma opens_settles:
  assumes "opens_idle U n1 V d" and "nd_flags n1 AND DFU_IFF_ALT \<noteq> 0"
  shows "\<exists>d0 d1. open_node U n1 d = Inr d0 \<and> settle_device (Suc p) U n1 d0 = Inr d1 \<and>
    ready V d1 \<and> blocks V d1 = 0 \<and> image V d1 = []"
proof -
  obtain r0 d0 where c0: "uh_open U (if_dev n1) d = (r0, d0)" by (cases "uh_open U (if_dev n1) d")
  obtain r1 d1 where c1: "uh_claim U (interface n1) d0 = (r1, d1)" by (cases "uh_claim U (interface n1) d0")
  obtain r2 d2 where c2: "set_alt_setting (uh_usb U) (interface n1) (altsetting n1) d1 = (r2, d2)"
    by (cases "set_alt_setting (uh_usb U) (interface n1) (altsetting n1) d1")
  obtain r3 status d3 where c3: "dfu_get_status (uh_usb U) (node_if n1) d2 = (r3, status, d3)"
    by (cases "dfu_get_status (uh_usb U) (node_if n1) d2")
  define d4 where "d4 = pause (uh_usb U) (bwPollTimeout status) d3"
  from assms(1) have r: "r0 = 0" "\<not> r1 < 0" "\<not> r2 < 0" "\<not> r3 < 0"
    "bState status = STATE_DFU_IDLE" "bStatus status = DFU_STATUS_OK" "ready V d4" "blocks V d4 = 0" "image V d4 = []"
    unfolding opens_idle_def c0 prod.case c1 c2 c3 d4_def Let_def by simp_all
  have "status_again (Suc p) (uh_usb U) (node_if n1) d2 = Inr (status, d4)"
    using r unfolding status_again.simps c3 prod.case Let_def d4_def [symmetric]
    by (simp add: dfu_states dfu_more_states)
  then have "settle_device (Suc p) U n1 d0 = Inr d4"
    using r assms(2) by (simp add: settle_device_def claim_node_def alt_node_def status_ok_def c1 c2 del: status_again.simps)
  then show ?thesis using r by (auto simp: open_node_def c0)
qed

lemma dnload_transfers:
  assumes "takes_blocks (uh_usb U) (node_if n1) V" and "reports_written (uh_usb U) (node_if n1) V"
    and "manifests (uh_usb U) (node_if n1) V" and "\<forall>d. busy V d < polls"
    and "dfu_load_file e cs cp f0 = Inr file" and "total file \<le> n"
    and "choose_size func_size t max0 = Inr xfer" and "0 \<le> sint t"
    and "ready V d" and "blocks V d = 0" and "image V d = []"
    and "\<not> file_mismatch file rv rp n1" and "op_dfuse o1 = None"
    and "func_bcd (nd_func n1) \<noteq> 0x11a" and "bcdDFU file \<noteq> 0x11a"
  shows "\<exists>d'. transfer n polls U E o1 MODE_DOWNLOAD file True xfer [n1] rv rp d = Inr (0, None, d') \<and>
    image V d' = take (total file - suffix_size file) (firmware file)"
proof -
  have f: "suffix_size file \<le> total file" "total file \<le> length (firmware file)"
    using loaded_file_bounds [OF assms(5)] by simp_all
  have x: "0 < unat xfer" "unat xfer \<le> 4096" using transfer_size_bounds [OF assms(7,8)] by simp_all
  then have s: "sint xfer = int (unat xfer)" by (intro sint_u32_small) linarith
  obtain ret d' where "dfuload_do_dnload n polls (uh_usb U) (node_if n1) (int (unat xfer)) file d = Inr (ret, d')"
    "0 \<le> ret" "image V d' = image V d @ take (total file - suffix_size file) (firmware file)"
    using dnload_sends_firmware [OF assms(1-4) f, of "unat xfer" n d] x assms(6,9,10) by auto
  then show ?thesis
    using assms(11-15) unfolding transfer_def s by (auto simp: Let_def)
qed


lemma probed_alt:
  assumes "probe_devices U M path_buf d = Inr (b, root)" and "n \<in> set root"
  shows "nd_flags n AND DFU_IFF_ALT \<noteq> 0"
proof -
  have "probe_list M (uh_list U d) path_buf [] = Inr (b, root)"
    using assms(1) by (cases "probe_list M (uh_list U d) path_buf []") (auto simp: probe_devices_def)
  then have "\<forall>n\<in>set root. nd_flags n AND DFU_IFF_ALT \<noteq> 0"
    by (rule probe_list_set [rotated]) (simp_all add: make_node_def Let_def DFU_IFF_ALT_def)
  then show ?thesis using assms(2) by blast
qed

text \<open>
  C24. From the command line to the memory of the device: dfu-util --download with a file that is
  no DfuSe file, one DFU interface on the bus that meets the restrictions, and a device in DFU
  mode that follows the protocol, returns EX_OK, and the device has been sent the file up to its
  suffix, in order and nothing else.
\<close>
theorem dfu_util_downloads:
  assumes "dfu_options args opts_zero = Inr o1" and "prepare E o1 = Inr (MODE_DOWNLOAD, file, True, M)"
    and "no_ids o1" and "op_dfuse o1 = None" and "\<not> op_reset o1" and "0 \<le> sint (op_transfer o1)"
    and "bcdDFU file \<noteq> 0x11a" and "total file \<le> n"
    and "uh_init U = 0" and "probe_devices U M [] d = Inr (b, [n1])"
    and "nd_flags n1 AND DFU_IFF_DFU \<noteq> 0" and "func_bcd (nd_func n1) \<noteq> 0x11a" and "func_transfer (nd_func n1) \<noteq> 0"
    and "takes_blocks (uh_usb U) (node_if n1) V" and "reports_written (uh_usb U) (node_if n1) V"
    and "manifests (uh_usb U) (node_if n1) V" and "\<forall>d. busy V d < polls" and "opens_idle U n1 V d"
  shows "\<exists>d'. dfu_main n polls U E args d = Inr (0, None, uh_close U d') \<and>
    image V d' = take (total file - suffix_size file) (firmware file)"
proof -
  obtain p where p: "polls = Suc p" using assms(17) by (cases polls) auto
  have alt: "nd_flags n1 AND DFU_IFF_ALT \<noteq> 0" using probed_alt [OF assms(10)] by simp
  obtain d0 d1 where d: "open_node U n1 d = Inr d0" "settle_device polls U n1 d0 = Inr d1"
    "ready V d1" "blocks V d1 = 0" "image V d1 = []"
    using opens_settles [OF assms(18) alt, of p] p by auto
  obtain rv rp where ids: "dfu_state_of U o1 M b [n1] d0 = Inr (Some ([n1], rv, rp), d0)"
    "\<not> file_mismatch file rv rp n1"
    using dfu_mode_ids [of "[n1]", OF _ assms(2,3), of U b d0] assms(11) by auto
  obtain xfer where x: "choose_size (func_transfer (nd_func n1)) (op_transfer o1) (nd_max0 n1) = Inr xfer"
    using choose_size_returns [OF assms(13)] by blast
  have "dfu_load_file (en_load E) MAYBE_SUFFIX MAYBE_PREFIX (file_zero\<lparr>fname := op_file o1\<rparr>) = Inr file"
    using prepare_download [OF assms(2)] by simp
  from dnload_transfers [OF assms(14-17) this assms(8) x assms(6) d(3-5) ids(2) assms(4,12,7)]
  obtain d' where t: "transfer n polls U E o1 MODE_DOWNLOAD file True xfer [n1] rv rp d1 = Inr (0, None, d')"
    "image V d' = take (total file - suffix_size file) (firmware file)" by blast
  have "with_device n polls U E o1 MODE_DOWNLOAD file True M b [n1] d = Inr (0, None, uh_close U d')"
    using d(1,2) ids x t(1) assms(5) by (simp add: with_device_def Let_def)
  then have "dfu_main n polls U E args d = Inr (0, None, uh_close U d')"
    using assms(1,2,9,10) by (simp add: dfu_main_def p)
  then show ?thesis using t(2) by blast
qed

subsection \<open>The listing\<close>

lemma list_paths_overflow:
  assumes "n \<in> set ns" and "us_ports (devs (if_dev n)) \<noteq> []" and "MAX_PATH_LEN \<le> length (path_text (devs (if_dev n)))"
  shows "list_paths devs ns path_buf = Inl OobWrite"
  using assms(1)
proof (induction ns arbitrary: path_buf)
  case (Cons m ns)
  show ?case
  proof (cases "m = n")
    case True
    then show ?thesis using assms(2,3) by (simp add: get_path_def)
  next
    case False
    then show ?thesis using Cons by (simp add: get_path_def)
  qed
qed simp

lemma probed_in_device_dev: "n \<in> set (probed_in_device M u) \<Longrightarrow> if_dev n = us_dev u"
  by (auto simp: probed_in_device_def probed_in_config_def probed_in_interface_def make_node_def Let_def
      split: option.splits if_splits)

lemma device_of_unique:
  assumes "u \<in> set devs" and "distinct (map us_dev devs)"
  shows "device_of devs (us_dev u) = u"
proof -
  obtain v vs where v: "filter (\<lambda>w. us_dev w = us_dev u) devs = v # vs"
    using assms(1) by (cases "filter (\<lambda>w. us_dev w = us_dev u) devs") (auto simp: filter_empty_conv)
  then have "v \<in> set devs" "us_dev v = us_dev u" by (auto simp: filter_eq_Cons_iff)
  then have "v = u" using assms by (auto simp: distinct_map inj_on_def)
  then show ?thesis using v by (simp add: device_of_def)
qed

text \<open>
  dfu-util --list with a DFU interface of a device whose path has 20 characters or more
  writes behind the end of path_buf.
\<close>
theorem listing_overflows:
  assumes "en_rest E = []" and "uh_init U = 0" and "distinct (map us_dev (uh_list U d))"
    and "u \<in> set (uh_list U d)" and "us_descriptor u" and "probed_in_device match_any u \<noteq> []"
    and "us_ports u \<noteq> []" and "MAX_PATH_LEN \<le> length (path_text u)"
  shows "dfu_main n polls U E [(CHR ''l'', [])] d = Inl (Undef OobWrite)"
proof -
  define o1 where "o1 = opts_zero\<lparr>op_mode := MODE_LIST\<rparr>"
  have p: "prepare E o1 = Inr (MODE_LIST, file_zero, True, match_any)"
    using assms(1) by (simp add: prepare_def o1_def opts_zero_def match_any_def file_zero_def Let_def)
  obtain b root where r: "probe_devices U match_any [] d = Inr (b, root)"
    and root: "root = rev (concat (map (probed_in_device match_any)
      (filter (\<lambda>u. path_matches match_any u \<and> us_descriptor u) (uh_list U d))))"
    using probe_list_found [of match_any "uh_list U d" "[]" "[]"] by (auto simp: probe_devices_def match_any_def)
  obtain m where m: "m \<in> set (probed_in_device match_any u)"
    using assms(6) by (cases "probed_in_device match_any u") auto
  then have "m \<in> set root"
    using assms(4,5) by (auto simp: root path_matches_def match_any_def)
  moreover have "device_of (uh_list U d) (if_dev m) = u"
    using probed_in_device_dev [OF m] device_of_unique [OF assms(4,3)] by simp
  ultimately have "list_paths (device_of (uh_list U d)) root b = Inl OobWrite"
    using assms(7,8) by (intro list_paths_overflow [of m]) simp_all
  moreover have "dfu_options [(CHR ''l'', [])] opts_zero = Inr o1" by (simp add: dfu_option_def o1_def)
  ultimately show ?thesis using p r assms(2) by (simp add: dfu_main_def)
qed

text \<open>
  The path of a device below at most seven hubs, as many as USB allows, fits its buffer when
  every port number has one digit.
\<close>
theorem short_paths_fit:
  assumes "us_ports u \<noteq> []" and "length (us_ports u) \<le> 7" and "\<forall>p\<in>set (us_ports u). unat p < 10"
  shows "get_path u path_buf = Inr (path_text u) \<and> length (path_text u) \<le> 17"
proof -
  obtain p ps where ps: "us_ports u = p # ps" using assms(1) by (cases "us_ports u") auto
  have "length (concat (map (\<lambda>p. ''.'' @ dec_text (unat p)) qs)) = 2 * length qs"
    if "\<forall>p\<in>set qs. unat p < 10" for qs :: "byte list"
    using that by (induction qs) (simp_all add: dec_text_length)
  then have "length (concat (map (\<lambda>p. ''.'' @ dec_text (unat p)) ps)) = 2 * length ps" using assms(3) ps by simp
  moreover have "length (dec_text (unat p)) = 1" using assms(3) ps by (simp add: dec_text_length)
  moreover have "length (dec_text (unat (us_bus u))) \<le> 3"
    using unat_byte [of "us_bus u"] by (intro dec_text_length) linarith
  ultimately have "length (path_text u) \<le> 17" using assms(2) ps by (simp add: path_text_def)
  then show ?thesis using assms(1) by (simp add: get_path_def MAX_PATH_LEN_def)
qed


subsection \<open>Witnesses\<close>

text \<open>
  A bus with one device in DFU mode, six hubs down on bus 10: 0483:df11 with a block size of two
  bytes; and the file of the firmware 1, 2, 3 for 1cbe:00ff.
\<close>

definition demo_func :: "byte list" where "demo_func = [9, 0x21, 0x0b, 0xff, 0, 2, 0, 0x10, 1]"

definition demo_alt :: altset where
  "demo_alt = \<lparr>as_class = 0xfe, as_subclass = 1, as_protocol = 2, as_interface = 0, as_setting = 0,
     as_name = 0, as_extra = demo_func\<rparr>"

definition demo_config :: usb_config where
  "demo_config = \<lparr>cf_value = 1, cf_extra = [], cf_interfaces = [[demo_alt]]\<rparr>"

definition demo_usb_device :: usb_device where
  "demo_usb_device = \<lparr>us_dev = 1, us_vendor = 0x0483, us_product = 0xdf11, us_bcd = 0x2200, us_serial = 0,
     us_max0 = 64, us_configs = [Some demo_config], us_bus = 10, us_address = 5,
     us_ports = [10, 11, 12, 13, 14, 15], us_opens = True, us_descriptor = True, us_dfu = None,
     us_string = (\<lambda>_ _. None)\<rparr>"

definition demo_bus :: "demo_dev usb_host" where
  "demo_bus = \<lparr>uh_usb = demo_usb, uh_init = 0, uh_list = (\<lambda>_. [demo_usb_device]), uh_open = (\<lambda>_ d. (0, d)),
     uh_claim = (\<lambda>_ d. (0, d)), uh_release = (\<lambda>_ d. d), uh_close = (\<lambda>d. d)\<rparr>"

definition demo_node :: dfu_node where
  "demo_node = make_node demo_usb_device demo_config demo_func demo_alt"

definition demo_image :: "byte list" where
  "demo_image = [1, 2, 3] @ stored_suffix demo_fw [1, 2, 3]"

definition demo_started :: dfu_env where
  "demo_started = \<lparr>en_load = demo_load demo_image, en_create = True, en_full = (\<lambda>_ _. True), en_rest = []\<rparr>"

lemma demo_func_found: "search_func demo_usb_device demo_config = Inr (Some demo_func)"
  by (simp add: search_func_def demo_config_def demo_alt_def demo_func_def find_descriptor_def
      find_from.simps mread_def USB_DT_DFU_def set_bytes_def func_zero_def)

lemma demo_func_fixed: "fix_func demo_func = demo_func"
  by (simp add: fix_func_def demo_func_def)

lemma demo_found:
  assumes "M = match_any \<or> M = only_dfu_mode match_any \<or>
    M = match_any\<lparr>match_vendor := 0x1cbe, match_product := 0xff\<rparr>"
  shows "probed_in_device M demo_usb_device = [demo_node]"
proof -
  have m: "is_dfu_mode demo_usb_device demo_config demo_func demo_alt = True" by (simp add: is_dfu_mode_def demo_alt_def)
  have "probe_takes M demo_usb_device demo_config demo_func demo_alt"
    using assms unfolding probe_takes_def m
    by (auto simp: ids_match_def names_match_def id_matches_def string_matches_def match_any_def
        only_dfu_mode_def demo_alt_def)
  moreover have "match_config_index M = - 1" "match_iface_index M = - 1"
    using assms by (auto simp: match_any_def only_dfu_mode_def)
  moreover have "us_configs demo_usb_device = [Some demo_config]" "us_opens demo_usb_device"
    "cf_interfaces demo_config = [[demo_alt]]"
    by (simp_all add: demo_usb_device_def demo_config_def)
  ultimately show ?thesis
    by (simp add: probed_in_device_def probed_in_config_def probed_in_interface_def demo_func_found
        demo_func_fixed demo_node_def)
qed

lemma demo_probe:
  assumes "M = match_any \<or> M = only_dfu_mode match_any \<or>
    M = match_any\<lparr>match_vendor := 0x1cbe, match_product := 0xff\<rparr>"
  shows "probe_devices demo_bus M [] d = Inr ([], [demo_node])"
proof -
  have p: "match_path M = None" using assms by (auto simp: match_any_def only_dfu_mode_def)
  then show ?thesis
    using probe_configs_found [of M demo_usb_device "us_configs demo_usb_device" "[]"] demo_found [OF assms]
    by (simp add: probe_devices_def demo_bus_def probe_configuration_def probed_in_device_def demo_usb_device_def)
qed

lemma demo_node_flags: "nd_flags demo_node = 3" "func_bcd (nd_func demo_node) = 0x110" "func_transfer (nd_func demo_node) = 2"
  by (simp_all add: demo_node_def make_node_def is_dfu_mode_def demo_alt_def Let_def DFU_IFF_DFU_def
      DFU_IFF_ALT_def get_quirks_def demo_usb_device_def func_bcd_def func_transfer_def demo_func_def rd16_def)


definition demo_opts :: dfu_opts where
  "demo_opts = opts_zero\<lparr>op_mode := MODE_DOWNLOAD, op_file := ''fw.dfu''\<rparr>"

lemma demo_options: "dfu_options [(CHR ''D'', ''fw.dfu'')] opts_zero = Inr demo_opts"
  by (simp add: dfu_option_def demo_opts_def)

lemma demo_file_loads:
  "\<exists>f. prepare demo_started demo_opts = Inr (MODE_DOWNLOAD, f, True, match_any\<lparr>match_vendor := 0x1cbe, match_product := 0xff\<rparr>) \<and>
    firmware f = demo_image \<and> total f = 19 \<and> suffix_size f = 16 \<and> bcdDFU f = 0x100"
proof -
  define f0 where "f0 = file_zero\<lparr>fname := ''fw.dfu''\<rparr>"
  define f1 where "f1 = load_defaults f0\<lparr>firmware := demo_image, total := 19\<rparr>"
  define f2 where "f2 = f1\<lparr>dwCRC := crc32 0xffffffff ([1, 2, 3] @ dfu_suffix_head demo_fw), bcdDFU := 0x100,
      suffix_size := 16, idVendor := 0x1cbe, idProduct := 0xff, bcdDevice := 0\<rparr>"
  have len: "length demo_image = 19" by (simp add: demo_image_def)
  have p: "parse_suffix f1 = Inr (False, f2)"
    using parse_suffix_stored [of f1 "[1, 2, 3]" demo_fw]
    by (simp add: f1_def f2_def demo_image_def INT_MAX_def demo_fw_def)
  have "demo_image ! 0 = 1" "demo_image ! 1 = 2" by (simp_all add: demo_image_def)
  then have q: "probe_prefix f2 = (False, f2)"
    by (simp add: probe_prefix_def f2_def f1_def dfu_lengths load_defaults_def f0_def file_zero_def)
  have "dfu_load_file (demo_load demo_image) MAYBE_SUFFIX MAYBE_PREFIX f0 = Inr f2"
    using load_plain_file [OF demo_plain, of f0 demo_image MAYBE_SUFFIX MAYBE_PREFIX] p q len
    by (simp add: f0_def f1_def [unfolded f0_def] file_zero_def check_requirements_def load_defaults_def f2_def)
  then have "prepare demo_started demo_opts =
      Inr (MODE_DOWNLOAD, f2, True, match_any\<lparr>match_vendor := 0x1cbe, match_product := 0xff\<rparr>)"
    by (simp add: prepare_def demo_started_def demo_opts_def opts_zero_def match_any_def f0_def f2_def Let_def)
  then show ?thesis by (auto simp: f2_def f1_def)
qed

lemma demo_opens: "opens_idle demo_bus demo_node demo_view demo_start"
  by (simp add: opens_idle_def demo_bus_def demo_usb_def dfu_get_status_def demo_control_def dfu_requests
      dfu_states demo_start_def demo_view_def pause_def Let_def)

theorem dfu_util_downloads_witness:
  "\<exists>d'. dfu_main 19 4 demo_bus demo_started [(CHR ''D'', ''fw.dfu'')] demo_start = Inr (0, None, d') \<and>
    dv_image d' = [1, 2, 3]"
proof -
  obtain f where f: "prepare demo_started demo_opts =
      Inr (MODE_DOWNLOAD, f, True, match_any\<lparr>match_vendor := 0x1cbe, match_product := 0xff\<rparr>)"
    "firmware f = demo_image" "total f = 19" "suffix_size f = 16" "bcdDFU f = 0x100"
    using demo_file_loads by blast
  have h: "uh_usb demo_bus = demo_usb" "uh_close demo_bus = (\<lambda>d. d)" "uh_init demo_bus = 0"
    "image demo_view = dv_image" by (simp_all add: demo_bus_def demo_view_def)
  have b: "\<forall>d. busy demo_view d < 4" by (simp add: demo_view_def min_less_iff_disj)
  have o: "no_ids demo_opts" "op_dfuse demo_opts = None" "\<not> op_reset demo_opts" "op_transfer demo_opts = 0"
    by (simp_all add: demo_opts_def opts_zero_def no_ids_def match_any_def)
  have t: "take 3 demo_image = [1, 2, 3]" by (simp add: demo_image_def)
  show ?thesis
    using dfu_util_downloads [OF demo_options f(1) o(1-3) _ _ _ h(3) demo_probe _ _ _ _ _ _ b demo_opens,
        of 19] f h o t demo_takes_blocks demo_reports_written demo_manifests demo_node_flags
    by (auto simp: DFU_IFF_DFU_def)
qed

theorem file_ids_not_compared_witness:
  "\<exists>f M rv rp. prepare demo_started demo_opts = Inr (MODE_DOWNLOAD, f, True, M) \<and>
    dfu_state_of demo_bus demo_opts M [] [demo_node] demo_start = Inr (Some ([demo_node], rv, rp), demo_start) \<and>
    if_vendor demo_node = 0x0483 \<and> M = match_any\<lparr>match_vendor := 0x1cbe, match_product := 0xff\<rparr> \<and>
    \<not> file_mismatch f rv rp demo_node"
proof -
  obtain f where f: "prepare demo_started demo_opts =
      Inr (MODE_DOWNLOAD, f, True, match_any\<lparr>match_vendor := 0x1cbe, match_product := 0xff\<rparr>)"
    using demo_file_loads by blast
  have o: "no_ids demo_opts" by (simp add: demo_opts_def opts_zero_def no_ids_def match_any_def)
  have v: "if_vendor demo_node = 0x0483" by (simp add: demo_node_def make_node_def demo_usb_device_def Let_def)
  have k: "nd_flags (hd [demo_node]) AND DFU_IFF_DFU \<noteq> 0" by (simp add: demo_node_flags DFU_IFF_DFU_def)
  obtain rv rp where r: "dfu_state_of demo_bus demo_opts (match_any\<lparr>match_vendor := 0x1cbe, match_product := 0xff\<rparr>)
      [] [demo_node] demo_start = Inr (Some ([demo_node], rv, rp), demo_start)"
    using dfu_mode_ids [OF k f o, of demo_bus "[]" demo_start] by auto
  show ?thesis using file_ids_not_compared [OF k f o r] f r v by auto
qed

theorem listing_overflows_witness:
  "dfu_main 1 1 demo_bus demo_started [(CHR ''l'', [])] demo_start = Inl (Undef OobWrite)"
proof -
  have p: "path_text demo_usb_device = ''10-10.11.12.13.14.15''"
    by code_simp
  show ?thesis
    by (rule listing_overflows [where u = demo_usb_device])
      (use demo_found [of match_any] p in \<open>simp_all add: demo_started_def demo_bus_def MAX_PATH_LEN_def demo_usb_device_def [THEN arg_cong, of us_descriptor] demo_usb_device_def [THEN arg_cong, of us_ports]\<close>)
qed

theorem transfer_size_bounds_witness: "choose_size 2 0 64 = Inr 64 \<and> unat (64 :: u32) \<le> 4096"
proof -
  have c: "choose_size 2 0 64 = Inr 64" by (simp add: choose_size_def)
  then show ?thesis using transfer_size_bounds [OF c] by simp
qed

theorem negative_size_reads_outside_witness:
  "dfuload_do_dnload 1 1 demo_usb demo_if (- 1) (file_zero\<lparr>firmware := [1, 2, 3], total := 3\<rparr>) demo_start
     = Inl (Undef OobRead)"
  using negative_size_reads_outside [of "file_zero\<lparr>firmware := [1, 2, 3], total := 3\<rparr>" 0 0 0 1 demo_usb demo_if demo_start]
  by (simp add: file_zero_def)

text \<open>A device that needs its status cleared as often as its state says, and one that is never cleared.\<close>

definition demo_errors :: "nat usb" where
  "demo_errors = \<lparr>control = (\<lambda>ty req v ix data len d.
      if req = DFU_GETSTATUS then (6, [0, 0, 0, 0, if d = 0 then STATE_DFU_IDLE else STATE_DFU_ERROR, 0], d)
      else (0, [], d - 1)),
     milli_sleep = (\<lambda>_ d. d), reset_device = (\<lambda>d. (0, d)), set_alt_setting = (\<lambda>_ _ d. (0, d))\<rparr>"

definition demo_stuck :: "unit usb" where
  "demo_stuck = \<lparr>control = (\<lambda>ty req v ix data len d.
      if req = DFU_GETSTATUS then (6, [0, 0, 0, 0, STATE_DFU_ERROR, 0], d) else (0, [], d)),
     milli_sleep = (\<lambda>_ d. d), reset_device = (\<lambda>d. (0, d)), set_alt_setting = (\<lambda>_ _ d. (0, d))\<rparr>"

theorem status_loop_ends_witness:
  "status_again 3 demo_errors demo_if 2 = Inl (Exit EX_PROTOCOL) \<or>
    (\<exists>status d'. status_again 3 demo_errors demo_if 2 = Inr (status, d') \<and> bState status \<noteq> STATE_DFU_ERROR)"
proof -
  have "recovers demo_errors demo_if (\<lambda>d. d)"
    by (auto simp: recovers_def demo_errors_def dfu_get_status_def dfu_clear_status_def dfu_abort_def
        dfu_requests dfu_states dfu_more_states pause_def Let_def)
  then show ?thesis using status_loop_ends [of demo_errors demo_if "\<lambda>d. d" 2 3] by auto
qed

theorem status_loop_never_ends_witness: "status_again 1000 demo_stuck demo_if () = Inl (Undef OutOfFuel)"
proof -
  have "stays_in_error demo_stuck demo_if"
    by (simp add: stays_in_error_def demo_stuck_def dfu_get_status_def dfu_clear_status_def dfu_requests)
  then show ?thesis by (rule status_loop_never_ends)
qed

theorem short_paths_fit_witness:
  "get_path (demo_usb_device\<lparr>us_ports := [1, 2, 3, 4, 5, 6, 7]\<rparr>) [] =
     Inr (path_text (demo_usb_device\<lparr>us_ports := [1, 2, 3, 4, 5, 6, 7]\<rparr>))"
  using short_paths_fit [of "demo_usb_device\<lparr>us_ports := [1, 2, 3, 4, 5, 6, 7]\<rparr>"] by simp

theorem find_descriptor_first_witness:
  "find_descriptor [2, 5, 3, 0x21, 7] 5 0x21 9 = Inr (Some [3, 0x21, 7])"
proof -
  have l: "(5 :: nat) = length [2, 5, 3, 0x21, 7 :: byte]" by simp
  show ?thesis
    unfolding l using find_descriptor_first [of "[[2, 5], [3, 0x21, 7]]" "[2, 5, 3, 0x21, 7]" "0x21" 9]
    by (simp add: descriptor_def)
qed

theorem probe_finds_accepted_witness:
  "\<exists>b root. probe_devices demo_bus match_any [] demo_start = Inr (b, root) \<and>
    map summary_of (rev root) = [summary_of demo_node] \<and> su_dfu_mode (summary_of demo_node)"
proof -
  have "filter (\<lambda>u. path_matches match_any u \<and> us_descriptor u) (uh_list demo_bus demo_start) = [demo_usb_device]"
    by (simp add: demo_bus_def path_matches_def match_any_def demo_usb_device_def)
  moreover have "wanted_in_device match_any demo_usb_device = [summary_of demo_node]"
    using summary_in_device [of match_any demo_usb_device] demo_found [of match_any] by simp
  moreover have "su_dfu_mode (summary_of demo_node)" by (simp add: summary_of_def demo_node_flags)
  ultimately show ?thesis
    using probe_finds_accepted [of match_any demo_bus demo_start "[]"] by (simp add: match_any_def)
qed

theorem second_search_dfu_only_witness:
  "reprobe demo_bus match_any [] demo_start = Inr ([demo_node], demo_start) \<and>
    nd_flags demo_node AND DFU_IFF_DFU \<noteq> 0"
proof -
  have r: "reprobe demo_bus match_any [] demo_start = Inr ([demo_node], demo_start)"
    using demo_probe [of "only_dfu_mode match_any" demo_start]
    by (simp add: reprobe_def demo_node_flags DFU_IFF_DFU_def open_node_def demo_bus_def)
  then show ?thesis using second_search_dfu_only [OF r] by simp
qed

end
