(* ===== verification/HubOpts.thy ===== *)
theory HubOpts
  imports DfuFile TextFmt
begin

text \<open>
  uhubctl (external/uhubctl/uhubctl.c), which switches the power of hub ports: the command line.
  getopt_long is the library's: the options are the list of its results with their arguments.
  The delay, a double, is kept as the milliseconds (int)(opt_delay * 1000) that are slept; what
  atof makes of an argument is the parameter \<open>atof_ms\<close>.
\<close>

unbundle bit_operations_syntax

definition MAX_HUB_PORTS :: nat where "MAX_HUB_PORTS = 14"
definition ALL_HUB_PORTS :: u32 where "ALL_HUB_PORTS = push_bit MAX_HUB_PORTS 1 - 1"
definition POWER_KEEP :: int where "POWER_KEEP = - 1"
definition POWER_OFF :: int where "POWER_OFF = 0"
definition POWER_ON :: int where "POWER_ON = 1"
definition POWER_CYCLE :: int where "POWER_CYCLE = 2"
definition POWER_TOGGLE :: int where "POWER_TOGGLE = 3"

lemmas power_actions = POWER_KEEP_def POWER_OFF_def POWER_ON_def POWER_CYCLE_def POWER_TOGGLE_def

record hub_opts =
  opt_vendor :: string
  opt_search :: string
  opt_location :: string
  opt_level :: int
  opt_ports :: u32
  opt_action :: int
  opt_delay :: int          \<comment> \<open>in milliseconds\<close>
  opt_repeat :: int
  opt_wait :: int
  opt_exact :: bool
  opt_reset :: bool
  opt_force :: bool
  opt_nodesc :: bool
  opt_nosysfs :: bool

definition hub_defaults :: hub_opts where
  "hub_defaults = \<lparr>opt_vendor = [], opt_search = [], opt_location = [], opt_level = 0, opt_ports = ALL_HUB_PORTS,
     opt_action = POWER_KEEP, opt_delay = 2000, opt_repeat = 1, opt_wait = 20, opt_exact = False,
     opt_reset = False, opt_force = False, opt_nodesc = False, opt_nosysfs = False\<rparr>"

subsection \<open>Strings\<close>

definition lower :: "char \<Rightarrow> char" where
  "lower c = (if 65 \<le> code c \<and> code c \<le> 90 then char_of (code c + 32) else c)"

text \<open>strcasecmp and strncasecmp give 0.\<close>

definition case_eq :: "string \<Rightarrow> string \<Rightarrow> bool" where
  "case_eq s t \<longleftrightarrow> map lower s = map lower t"

definition case_prefix :: "string \<Rightarrow> string \<Rightarrow> bool" where
  "case_prefix s t \<longleftrightarrow> map lower s = map lower (take (length s) t)"

definition atoi :: "string \<Rightarrow> int" where
  "atoi s = (case scan_d s of None \<Rightarrow> 0 | Some (v, _) \<Rightarrow> v)"

text \<open>The text behind the first occurrence of a character.\<close>

definition behind :: "char \<Rightarrow> string \<Rightarrow> string option" where
  "behind c s = (if c \<in> set s then Some (tl (dropWhile (\<lambda>x. x \<noteq> c) s)) else None)"

lemma behind_shorter: "behind c s = Some t \<Longrightarrow> length t < length s"
proof -
  assume "behind c s = Some t"
  then have m: "c \<in> set s" and t: "t = tl (dropWhile (\<lambda>x. x \<noteq> c) s)"
    by (auto simp: behind_def split: if_splits)
  have "dropWhile (\<lambda>x. x \<noteq> c) s \<noteq> []" using m by (auto simp: dropWhile_eq_Nil_conv)
  then show ?thesis using t length_dropWhile_le [of "\<lambda>x. x \<noteq> c" s] by (cases "dropWhile (\<lambda>x. x \<noteq> c) s") auto
qed

subsection \<open>The port list\<close>

text \<open>One entry, of which at most seven characters are looked at.\<close>

definition port_range :: "string \<Rightarrow> dfu_stop + nat \<times> nat" where
  "port_range position =
     (let buf = take 7 (takeWhile (\<lambda>c. c \<noteq> CHR '','') position); a = atoi buf;
          b = (case behind CHR ''-'' buf of None \<Rightarrow> a | Some t \<Rightarrow> atoi t) in
      if a > b then Inl (Exit 1)
      else if a \<le> 0 \<or> a > int MAX_HUB_PORTS \<or> b \<le> 0 \<or> b > int MAX_HUB_PORTS then Inl (Exit 1)
      else Inr (nat a, nat b))"

definition set_ports :: "nat \<Rightarrow> nat \<Rightarrow> u32 \<Rightarrow> u32" where
  "set_ports a b ports = fold (\<lambda>i m. m OR push_bit (i - 1) 1) [a..<Suc b] ports"

function ports_loop :: "string \<Rightarrow> u32 \<Rightarrow> dfu_stop + u32" where
  "ports_loop position ports =
     (case port_range position of Inl stop \<Rightarrow> Inl stop
      | Inr (a, b) \<Rightarrow>
        (case behind CHR '','' position of None \<Rightarrow> Inr (set_ports a b ports)
         | Some rest \<Rightarrow> ports_loop rest (set_ports a b ports)))"
  by pat_completeness auto
termination
  by (relation "measure (\<lambda>(position, _). length position)") (simp_all add: behind_shorter)

declare ports_loop.simps [simp del]

definition ports2bitmap :: "string \<Rightarrow> dfu_stop + u32" where
  "ports2bitmap portlist = ports_loop portlist 0"

subsection \<open>The options\<close>

definition power_action :: "string \<Rightarrow> int \<Rightarrow> int" where
  "power_action arg action =
     (let action = (if case_eq arg ''off'' \<or> case_eq arg ''0'' then POWER_OFF else action);
          action = (if case_eq arg ''on'' \<or> case_eq arg ''1'' then POWER_ON else action);
          action = (if case_eq arg ''cycle'' \<or> case_eq arg ''2'' then POWER_CYCLE else action) in
      if case_eq arg ''toggle'' \<or> case_eq arg ''3'' then POWER_TOGGLE else action)"

text \<open>One turn of the loop over getopt_long; the fixed arrays cut the argument.\<close>

definition hub_option :: "(string \<Rightarrow> int) \<Rightarrow> char \<Rightarrow> string \<Rightarrow> hub_opts \<Rightarrow> dfu_stop + hub_opts" where
  "hub_option atof_ms c arg o1 =
     (if c = CHR ''l'' then Inr (o1\<lparr>opt_location := take 31 arg\<rparr>)
      else if c = CHR ''L'' then Inr (o1\<lparr>opt_level := atoi arg\<rparr>)
      else if c = CHR ''n'' then Inr (o1\<lparr>opt_vendor := take 15 arg\<rparr>)
      else if c = CHR ''s'' then Inr (o1\<lparr>opt_search := take 63 arg\<rparr>)
      else if c = CHR ''p'' then
        (if case_eq arg ''all'' then Inr o1
         else if arg \<noteq> [] then rbind (ports2bitmap arg) (\<lambda>p. Inr (o1\<lparr>opt_ports := p\<rparr>)) else Inr o1)
      else if c = CHR ''a'' then Inr (o1\<lparr>opt_action := power_action arg (opt_action o1)\<rparr>)
      else if c = CHR ''d'' then Inr (o1\<lparr>opt_delay := atof_ms arg\<rparr>)
      else if c = CHR ''r'' then Inr (o1\<lparr>opt_repeat := atoi arg\<rparr>)
      else if c = CHR ''f'' then Inr (o1\<lparr>opt_force := True\<rparr>)
      else if c = CHR ''N'' then Inr (o1\<lparr>opt_nodesc := True\<rparr>)
      else if c = CHR ''S'' then Inr (o1\<lparr>opt_nosysfs := True\<rparr>)
      else if c = CHR ''e'' then Inr (o1\<lparr>opt_exact := True\<rparr>)
      else if c = CHR ''R'' then Inr (o1\<lparr>opt_reset := True\<rparr>)
      else if c = CHR ''w'' then Inr (o1\<lparr>opt_wait := atoi arg\<rparr>)
      else if c = CHR ''v'' then Inl (Exit 0)
      else Inl (Exit 1))"

fun hub_options :: "(string \<Rightarrow> int) \<Rightarrow> (char \<times> string) list \<Rightarrow> hub_opts \<Rightarrow> dfu_stop + hub_opts" where
  "hub_options atof_ms [] o1 = Inr o1"
| "hub_options atof_ms ((c, arg) # os) o1 = rbind (hub_option atof_ms c arg o1) (hub_options atof_ms os)"

end
