(* ===== verification/HubInfo.thy ===== *)
theory HubInfo
  imports HubOpts
begin

text \<open>
  uhubctl: what it reads of a device (get_hub_info, get_device_description).  libusb's answers
  about a device that is enumerated are the record \<open>hub_dev\<close>; a device is its position in the
  list usb_devs.
\<close>

unbundle bit_operations_syntax

definition LIBUSB_CLASS_HUB :: byte where "LIBUSB_CLASS_HUB = 9"
definition LIBUSB_BT_CONTAINER_ID :: byte where "LIBUSB_BT_CONTAINER_ID = 4"
definition LIBUSB_ERROR_INVALID_PARAM :: int where "LIBUSB_ERROR_INVALID_PARAM = - 2"
definition USB_SS_BCD :: u16 where "USB_SS_BCD = 0x0300"
definition HUB_CHAR_LPSM :: byte where "HUB_CHAR_LPSM = 3"
definition HUB_CHAR_COMMON_LPSM :: byte where "HUB_CHAR_COMMON_LPSM = 0"
definition HUB_CHAR_INDV_PORT_LPSM :: byte where "HUB_CHAR_INDV_PORT_LPSM = 1"
definition MAX_HUB_CHAIN :: nat where "MAX_HUB_CHAIN = 8"

lemmas lpsm_modes = HUB_CHAR_LPSM_def HUB_CHAR_COMMON_LPSM_def HUB_CHAR_INDV_PORT_LPSM_def

record hub_dev =
  hd_desc :: bool                             \<comment> \<open>libusb_get_device_descriptor succeeds\<close>
  hd_class :: byte
  hd_bcd :: u16
  hd_vid :: u16
  hd_pid :: u16
  hd_open :: int                              \<comment> \<open>libusb_open\<close>
  hd_hub :: "u16 \<Rightarrow> int \<times> byte list"         \<comment> \<open>GET_DESCRIPTOR of the hub for a wValue: the result and the buffer of 12\<close>
  hd_bus :: byte
  hd_count :: int                             \<comment> \<open>libusb_get_port_numbers: the result and the buffer of 8\<close>
  hd_path :: "byte list"
  hd_port :: byte                             \<comment> \<open>libusb_get_port_number\<close>
  hd_bos :: "(byte \<times> byte list option) list option"  \<comment> \<open>the capabilities: type and container ID\<close>
  hd_manufacturer :: byte
  hd_product :: byte
  hd_serial :: byte
  hd_string :: "byte \<Rightarrow> int \<times> string"         \<comment> \<open>libusb_get_string_descriptor_ascii: the result and the C string\<close>

record descriptor_strings =
  ds_vendor :: string
  ds_product :: string
  ds_serial :: string
  ds_description :: string

record hub_info =
  hi_dev :: "nat option"
  hi_bcd :: u16
  hi_super :: bool
  hi_nports :: nat
  hi_lpsm :: byte
  hi_actionable :: nat
  hi_container :: string
  hi_vendor :: string
  hi_location :: string
  hi_bus :: byte
  hi_path :: "byte list"
  hi_len :: int                               \<comment> \<open>pn_len\<close>
  hi_ds :: descriptor_strings

definition ds_zero :: descriptor_strings where
  "ds_zero = \<lparr>ds_vendor = [], ds_product = [], ds_serial = [], ds_description = []\<rparr>"

definition info_zero :: hub_info where
  "info_zero = \<lparr>hi_dev = None, hi_bcd = 0, hi_super = False, hi_nports = 0, hi_lpsm = 0, hi_actionable = 0,
     hi_container = [], hi_vendor = [], hi_location = [], hi_bus = 0, hi_path = replicate 8 0, hi_len = 0,
     hi_ds = ds_zero\<rparr>"

subsection \<open>get_hub_info\<close>

text \<open>The location a-b.c.d, built with strcat in an array of 32.\<close>

definition location_text :: "byte \<Rightarrow> byte list \<Rightarrow> string" where
  "location_text bus path =
     dec_text (unat bus) @
     (case path of [] \<Rightarrow> [] | p # ps \<Rightarrow> ''-'' @ dec_text (unat p) @ concat (map (\<lambda>q. ''.'' @ dec_text (unat q)) ps))"

definition hub_location :: "hub_dev \<Rightarrow> fault + string" where
  "hub_location dev =
     (let t = location_text (hd_bus dev) (take (nat (hd_count dev)) (hd_path dev)) in
      if length t < 32 then Inr t else Inl OobWrite)"

text \<open>The container ID of the last capability that has one, in hexadecimal digits.\<close>

definition container_text :: "(byte \<times> byte list option) list \<Rightarrow> string" where
  "container_text caps =
     fold (\<lambda>(ty, i) t. case i of None \<Rightarrow> t
        | Some bs \<Rightarrow> if ty = LIBUSB_BT_CONTAINER_ID then concat (map hex2 (take 16 bs)) else t) caps []"

definition container_of :: "hub_dev \<Rightarrow> string \<Rightarrow> nat \<Rightarrow> string" where
  "container_of dev vendor nports =
     (case hd_bos dev of None \<Rightarrow> []
      | Some caps \<Rightarrow>
        (let t = container_text caps in
         if t = [] \<and> case_eq vendor ''1d6b:0003'' \<and> hd_count dev = 0 \<and> nports = 4 \<and> hd_bcd dev = USB_SS_BCD
         then ''5cf3ee30d5074925b001802d79434c30'' else t))"

definition lpsm_of :: "byte \<Rightarrow> nat \<Rightarrow> string \<Rightarrow> byte" where
  "lpsm_of characteristics nports vendor =
     (let lpsm = characteristics AND HUB_CHAR_LPSM;
          lpsm = (if lpsm = HUB_CHAR_COMMON_LPSM \<and> nports = 1 then HUB_CHAR_INDV_PORT_LPSM else lpsm) in
      if lpsm = HUB_CHAR_COMMON_LPSM \<and> case_eq vendor ''2109:3431'' then HUB_CHAR_INDV_PORT_LPSM else lpsm)"

definition hub_vendor :: "hub_dev \<Rightarrow> string" where
  "hub_vendor dev = hex4 (hd_vid dev) @ '':'' @ hex4 (hd_pid dev)"

text \<open>
  The result and the structure, of which nothing is written unless the descriptor has at least
  nine bytes.  A descriptor of no bytes at all gives the result 0, as if it had succeeded.
\<close>

definition get_hub_info :: "nat \<Rightarrow> hub_dev \<Rightarrow> hub_info \<Rightarrow> fault + int \<times> hub_info" where
  "get_hub_info k dev info =
     (if \<not> hd_desc dev then Inr (- 1, info)
      else if hd_class dev \<noteq> LIBUSB_CLASS_HUB then Inr (LIBUSB_ERROR_INVALID_PARAM, info)
      else if hd_open dev \<noteq> 0 then Inr (hd_open dev, info)
      else
        (case hd_hub dev (if hd_bcd dev \<ge> USB_SS_BCD then 0x2a00 else 0x2900) of (len, uhd) \<Rightarrow>
         if len < 9 then Inr (len, info)
         else
           rbind (hub_location dev) (\<lambda>location.
           let nports = unat (uhd ! 2); vendor = hub_vendor dev in
           Inr (0, info\<lparr>hi_dev := Some k, hi_bcd := hd_bcd dev, hi_super := hd_bcd dev \<ge> USB_SS_BCD,
                        hi_nports := nports, hi_lpsm := lpsm_of (uhd ! 3) nports vendor,
                        hi_container := container_of dev vendor nports, hi_vendor := vendor,
                        hi_location := location, hi_bus := hd_bus dev, hi_path := hd_path dev,
                        hi_len := hd_count dev\<rparr>))))"

subsection \<open>get_device_description\<close>

definition rtrim :: "string \<Rightarrow> string" where
  "rtrim str = rev (dropWhile isspace (rev str))"

text \<open>The three strings, each read only while the one before could be.\<close>

definition read_strings :: "hub_dev \<Rightarrow> descriptor_strings" where
  "read_strings dev =
     (case (if hd_manufacturer dev \<noteq> 0 then hd_string dev (hd_manufacturer dev) else (0, [])) of (rc, v) \<Rightarrow>
      case (if rc \<ge> 0 \<and> hd_product dev \<noteq> 0 then hd_string dev (hd_product dev) else (rc, [])) of (rc, p) \<Rightarrow>
      case (if rc \<ge> 0 \<and> hd_serial dev \<noteq> 0 then hd_string dev (hd_serial dev) else (rc, [])) of (rc, s) \<Rightarrow>
      ds_zero\<lparr>ds_vendor := rtrim v, ds_product := rtrim p, ds_serial := rtrim s\<rparr>)"

definition hub_specific :: "hub_info \<Rightarrow> string" where
  "hub_specific info =
     '', USB '' @ hex_text (unat (hi_bcd info) div 256) @ ''.'' @ hex2 (ucast (hi_bcd info)) @ '', '' @
     dec_text (hi_nports info) @ '' ports, '' @
     (if hi_lpsm info = HUB_CHAR_INDV_PORT_LPSM then ''ppps''
      else if hi_lpsm info = HUB_CHAR_COMMON_LPSM then ''ganged'' else ''nops'')"

definition spaced :: "string \<Rightarrow> string" where
  "spaced s = (if s = [] then [] else '' '' @ s)"

text \<open>
  When the hub descriptor has no bytes, the text about the hub is made of a structure that was
  never written.
\<close>

definition get_device_description :: "bool \<Rightarrow> nat \<Rightarrow> hub_dev \<Rightarrow> descriptor_strings \<Rightarrow> fault + int \<times> descriptor_strings" where
  "get_device_description nodesc k dev ds =
     (if \<not> hd_desc dev then Inr (- 1, ds)
      else
        (let s = (if hd_open dev = 0 \<and> \<not> nodesc then read_strings dev else ds_zero) in
         rbind (if hd_open dev = 0 \<and> hd_class dev = LIBUSB_CLASS_HUB
                then rbind (get_hub_info k dev info_zero) (\<lambda>(rc, info).
                     if rc \<noteq> 0 then Inr []
                     else if hi_dev info = None then Inl OobRead else Inr (hub_specific info))
                else Inr []) (\<lambda>specific.
         Inr (0, s\<lparr>ds_description := take 511 (hub_vendor dev @ spaced (ds_vendor s) @ spaced (ds_product s) @
                spaced (ds_serial s) @ specific)\<rparr>))))"

end
