(* ===== verification/HubFind.thy ===== *)
theory HubFind
  imports HubInfo
begin

text \<open>
  uhubctl: usb_find_hubs, which collects the hubs to work on, and pairs the two halves of a USB 3
  hub, which are two devices.  The array hubs is a list; the loops over it are recursions over
  positions.
\<close>

unbundle bit_operations_syntax

definition MAX_HUBS :: nat where "MAX_HUBS = 128"
definition LIBUSB_ERROR_ACCESS :: int where "LIBUSB_ERROR_ACCESS = - 3"

subsection \<open>Comparing paths\<close>

text \<open>memcmp of \<open>n\<close> bytes behind two offsets of the arrays of 8 is 0; a negative length is huge.\<close>

definition same_bytes :: "nat \<Rightarrow> byte list \<Rightarrow> nat \<Rightarrow> byte list \<Rightarrow> int \<Rightarrow> fault + bool" where
  "same_bytes i p j q n =
     (if n < 0 then Inl OobRead
      else rbind (mread i (nat n) p) (\<lambda>xs. rbind (mread j (nat n) q) (\<lambda>ys. Inr (xs = ys))))"

text \<open>The device is attached to the hub.\<close>

definition attached :: "hub_info \<Rightarrow> hub_dev \<Rightarrow> fault + bool" where
  "attached hub u =
     (if hd_bus u \<noteq> hi_bus hub then Inr False
      else if hd_count u \<noteq> hi_len hub + 1 then Inr False
      else same_bytes 0 (hi_path hub) 0 (hd_path u) (hi_len hub))"

text \<open>1 << (port - 1); a shift of 31 or more bits, or of a negative number, is undefined.\<close>

definition port_bit :: "nat \<Rightarrow> dfu_stop + u32" where
  "port_bit port = (if 1 \<le> port \<and> port \<le> 31 then Inr (push_bit (port - 1) 1) else Inl IntOverflow)"

subsection \<open>The hubs\<close>

fun strstr :: "string \<Rightarrow> string \<Rightarrow> bool" where
  "strstr [] t \<longleftrightarrow> t = []"
| "strstr (c # s) t \<longleftrightarrow> take (length t) (c # s) = t \<or> strstr s t"

text \<open>The loop that looks for an attached device with the text in its description.\<close>

fun search_devices ::
  "hub_opts \<Rightarrow> hub_info \<Rightarrow> nat \<Rightarrow> hub_dev list \<Rightarrow> dfu_stop + bool \<times> u32" where
  "search_devices o1 info k [] = Inr (False, opt_ports o1)"
| "search_devices o1 info k (u # us) =
     rbind (lift_mem (attached info u)) (\<lambda>a.
     if \<not> a then search_devices o1 info (Suc k) us
     else
       rbind (lift_mem (get_device_description (opt_nodesc o1) k u ds_zero)) (\<lambda>(rc, ds).
       if rc \<noteq> 0 then Inr (False, opt_ports o1)
       else if strstr (ds_description ds) (opt_search o1) then
         rbind (port_bit (unat (hd_path u ! nat (hd_count u - 1)))) (\<lambda>m. Inr (True, opt_ports o1 AND m))
       else search_devices o1 info (Suc k) us))"

definition meets_limits :: "hub_opts \<Rightarrow> hub_info \<Rightarrow> bool" where
  "meets_limits o1 info \<longleftrightarrow>
     (opt_location o1 \<noteq> [] \<longrightarrow> case_eq (opt_location o1) (hi_location info)) \<and>
     (opt_level o1 > 0 \<longrightarrow> opt_level o1 = hi_len info + 1) \<and>
     (opt_vendor o1 \<noteq> [] \<longrightarrow> case_prefix (opt_vendor o1) (hi_vendor info))"

text \<open>
  The loop over the devices, from position \<open>k\<close> on: opt_ports, perm_ok, the hubs.  The structure
  is copied to the array before the test whether there is room for it.
\<close>

fun collect_hubs ::
  "hub_opts \<Rightarrow> hub_dev list \<Rightarrow> nat \<Rightarrow> hub_dev list \<Rightarrow> u32 \<Rightarrow> bool \<Rightarrow> hub_info list \<Rightarrow>
   dfu_stop + u32 \<times> bool \<times> hub_info list" where
  "collect_hubs o1 devs k [] ports perm_ok hubs = Inr (ports, perm_ok, hubs)"
| "collect_hubs o1 devs k (u # us) ports perm_ok hubs =
     (if hd_desc u \<and> hd_class u \<noteq> LIBUSB_CLASS_HUB then collect_hubs o1 devs (Suc k) us ports perm_ok hubs
      else
        rbind (lift_mem (get_hub_info k u info_zero)) (\<lambda>(rc, info).
        if rc \<noteq> 0 then collect_hubs o1 devs (Suc k) us ports False hubs
        else
          rbind (lift_mem (get_device_description (opt_nodesc o1) k u ds_zero)) (\<lambda>(_, ds).
          let info = info\<lparr>hi_ds := ds\<rparr> in
          if hi_lpsm info \<noteq> HUB_CHAR_INDV_PORT_LPSM \<and> \<not> opt_force o1
          then collect_hubs o1 devs (Suc k) us ports perm_ok hubs
          else
            rbind (if opt_search o1 \<noteq> [] then search_devices (o1\<lparr>opt_ports := ports\<rparr>) info 0 devs
                   else Inr (True, ports)) (\<lambda>(found, ports).
            let info = info\<lparr>hi_actionable := (if found \<and> meets_limits o1 info then 1 else 0)\<rparr> in
            if length hubs \<ge> MAX_HUBS then Inl (Undef OobWrite)
            else collect_hubs o1 devs (Suc k) us ports perm_ok (hubs @ [info])))))"

subsection \<open>USB 2 and USB 3\<close>

text \<open>The tests a partner must pass, up to the first candidate.\<close>

definition may_be_dual :: "hub_info \<Rightarrow> hub_info \<Rightarrow> bool" where
  "may_be_dual a b \<longleftrightarrow>
     hi_super a \<noteq> hi_super b \<and> hi_container b \<noteq> [] \<and> hi_container a = hi_container b \<and>
     \<not> (hi_nports a \<noteq> hi_nports b \<and> hi_nports a + hi_nports b > 3) \<and>
     \<not> (ds_serial (hi_ds a) \<noteq> [] \<and> ds_serial (hi_ds b) \<noteq> [] \<and> ds_serial (hi_ds a) \<noteq> ds_serial (hi_ds b))"

definition super_num :: "hub_info \<Rightarrow> nat" where
  "super_num h = (if hi_super h then 1 else 0)"

definition same_below_top :: "hub_info \<Rightarrow> hub_info \<Rightarrow> fault + bool" where
  "same_below_top a b =
     (if hi_len a \<ge> 1 \<and> hi_len a = hi_len b then same_bytes 1 (hi_path a) 1 (hi_path b) (hi_len a - 1) else Inr False)"

definition one_deeper :: "hub_info \<Rightarrow> hub_info \<Rightarrow> fault + bool" where
  "one_deeper a b =
     (if hi_len a + int (super_num a) = hi_len b + int (super_num b) \<and> hi_len a \<ge> int (super_num b)
      then same_bytes (super_num b) (hi_path a) (super_num a) (hi_path b) (hi_len a - int (super_num b))
      else Inr False)"

definition same_path :: "hub_info \<Rightarrow> hub_info \<Rightarrow> fault + bool" where
  "same_path a b =
     (if hi_len a = hi_len b then same_bytes 0 (hi_path a) 0 (hi_path b) (hi_len a) else Inr False)"

definition next_bus :: "hub_info \<Rightarrow> hub_info \<Rightarrow> bool" where
  "next_bus a b \<longleftrightarrow> int (unat (hi_bus a)) - int (super_num a) = int (unat (hi_bus b)) - int (super_num b)"

text \<open>if (cond && best_score < level) { best_score = level; best_match = j; }\<close>

definition raise_score :: "bool \<Rightarrow> int \<Rightarrow> int \<Rightarrow> int \<times> int \<Rightarrow> int \<times> int" where
  "raise_score cond level j best = (if cond \<and> snd best < level then (j, level) else best)"

text \<open>One turn of the loop over j, with best_match and best_score.\<close>

definition dual_turn :: "hub_info \<Rightarrow> hub_info \<Rightarrow> int \<Rightarrow> int \<times> int \<Rightarrow> fault + int \<times> int" where
  "dual_turn a b j best =
     (if \<not> may_be_dual a b then Inr best
      else
        (let best = raise_score True 1 j best in
         rbind (same_below_top a b) (\<lambda>s2. let best = raise_score s2 2 j best in
         rbind (one_deeper a b) (\<lambda>s3. let best = raise_score s3 3 j best in
         rbind (same_path a b) (\<lambda>s4. let best = raise_score s4 4 j best in
         Inr (raise_score (s4 \<and> next_bus a b) 5 j best))))))"

fun dual_loop :: "hub_info \<Rightarrow> nat \<Rightarrow> nat \<Rightarrow> hub_info list \<Rightarrow> int \<times> int \<Rightarrow> fault + int \<times> int" where
  "dual_loop a i j [] best = Inr best"
| "dual_loop a i j (b # bs) best =
     (if i = j then dual_loop a i (Suc j) bs best
      else rbind (dual_turn a b (int j) best) (\<lambda>best. dual_loop a i (Suc j) bs best))"

definition dual_of :: "hub_info list \<Rightarrow> nat \<Rightarrow> fault + int" where
  "dual_of hubs i = rbind (dual_loop (hubs ! i) i 0 hubs (- 1, - 1)) (\<lambda>(best_match, _). Inr best_match)"

definition mark_dual :: "nat \<Rightarrow> hub_info list \<Rightarrow> fault + hub_info list" where
  "mark_dual i hubs =
     (if hi_actionable (hubs ! i) \<noteq> 1 \<or> hi_container (hubs ! i) = [] then Inr hubs
      else rbind (dual_of hubs i) (\<lambda>m.
        Inr (if m \<ge> 0 \<and> hi_actionable (hubs ! nat m) = 0
             then hubs[nat m := (hubs ! nat m)\<lparr>hi_actionable := 2\<rparr>] else hubs)))"

fun mark_duals :: "nat list \<Rightarrow> hub_info list \<Rightarrow> fault + hub_info list" where
  "mark_duals [] hubs = Inr hubs"
| "mark_duals (i # is) hubs = rbind (mark_dual i hubs) (mark_duals is)"

definition phys_count :: "bool \<Rightarrow> hub_info list \<Rightarrow> nat" where
  "phys_count exact hubs = length (filter (\<lambda>h. hi_actionable h \<noteq> 0 \<and> (\<not> hi_super h \<or> exact)) hubs)"

text \<open>The result, with opt_ports and the hubs.\<close>

definition usb_find_hubs :: "hub_opts \<Rightarrow> hub_dev list \<Rightarrow> dfu_stop + int \<times> u32 \<times> hub_info list" where
  "usb_find_hubs o1 devs =
     rbind (collect_hubs o1 devs 0 devs (opt_ports o1) True []) (\<lambda>(ports, perm_ok, hubs).
     rbind (if opt_exact o1 then Inr hubs else lift_mem (mark_duals [0..<length hubs] hubs)) (\<lambda>hubs.
     let n = phys_count (opt_exact o1) hubs in
     Inr (if \<not> perm_ok \<and> n = 0 then LIBUSB_ERROR_ACCESS else int n, ports, hubs)))"

end
