(* ===== verification/HubChoice.thy ===== *)
theory HubChoice
  imports HubFind
begin

text \<open>
  Which hubs uhubctl works on: what the search keeps of a device, which hubs are actionable, and
  which one is taken for the other half of a USB 3 hub.
\<close>

unbundle bit_operations_syntax

subsection \<open>Devices as libusb enumerates them\<close>

text \<open>
  A device below at most seven hubs, with its port numbers in the array of eight; a hub that
  answers with a descriptor sends at least a byte of it.
\<close>

definition dev_ok :: "hub_dev \<Rightarrow> bool" where
  "dev_ok u \<longleftrightarrow> length (hd_path u) = MAX_HUB_CHAIN \<and> 0 \<le> hd_count u \<and> hd_count u \<le> 7 \<and>
     (\<forall>v. fst (hd_hub u v) \<noteq> 0)"

definition hub_ok :: "hub_info \<Rightarrow> bool" where
  "hub_ok h \<longleftrightarrow> length (hi_path h) = MAX_HUB_CHAIN \<and> 0 \<le> hi_len h \<and> hi_len h \<le> 7"

definition path_of :: "hub_info \<Rightarrow> byte list" where
  "path_of h = take (nat (hi_len h)) (hi_path h)"

lemma location_length: "length (location_text bus path) \<le> 3 + 4 * length path"
proof -
  have d: "length (dec_text (unat b)) \<le> 3" for b :: byte
    using unat_byte [of b] by (intro dec_text_length) linarith
  have c: "length (concat (map (\<lambda>q. ''.'' @ dec_text (unat q)) ps)) \<le> 4 * length ps" for ps :: "byte list"
  proof (induction ps)
    case (Cons q ps)
    then show ?case using d [of q] by simp
  qed simp
  show ?thesis
  proof (cases path)
    case Nil
    then show ?thesis using d [of bus] by (simp add: location_text_def)
  next
    case (Cons p ps)
    then show ?thesis using d [of bus] d [of p] c [of ps] by (simp add: location_text_def)
  qed
qed

lemma location_short:
  assumes "dev_ok u"
  shows "length (location_text (hd_bus u) (take (nat (hd_count u)) (hd_path u))) \<le> 31"
proof -
  have "length (take (nat (hd_count u)) (hd_path u)) \<le> 7" using assms by (auto simp: dev_ok_def)
  then show ?thesis using location_length [of "hd_bus u" "take (nat (hd_count u)) (hd_path u)"] by linarith
qed

text \<open>
  With the at most seven port numbers that USB allows, the location of a hub fits its array
  of 32 characters, the terminating NUL included.
\<close>
theorem location_fits:
  assumes "dev_ok u"
  shows "hub_location u = Inr (location_text (hd_bus u) (take (nat (hd_count u)) (hd_path u))) \<and>
    length (location_text (hd_bus u) (take (nat (hd_count u)) (hd_path u))) + 1 \<le> 32"
  using location_short [OF assms] by (simp add: hub_location_def Let_def)

lemma hub_location_ok: "dev_ok u \<Longrightarrow> \<exists>t. hub_location u = Inr t"
  using location_short [of u] by (simp add: hub_location_def Let_def)

lemma get_hub_info_ok:
  assumes "dev_ok u"
  obtains rc info where "get_hub_info k u info_zero = Inr (rc, info)"
    and "rc = 0 \<Longrightarrow> hi_dev info = Some k \<and> hub_ok info"
proof -
  obtain t where t: "hub_location u = Inr t" using hub_location_ok [OF assms] by blast
  obtain len uhd where h: "hd_hub u (if hd_bcd u \<ge> USB_SS_BCD then 0x2a00 else 0x2900) = (len, uhd)"
    by (cases "hd_hub u (if hd_bcd u \<ge> USB_SS_BCD then 0x2a00 else 0x2900)")
  have "fst (hd_hub u (if hd_bcd u \<ge> USB_SS_BCD then 0x2a00 else 0x2900)) \<noteq> 0"
    using assms unfolding dev_ok_def by blast
  then have "len \<noteq> 0" using h by simp
  then have "\<exists>rc info. get_hub_info k u info_zero = Inr (rc, info) \<and>
      (rc = 0 \<longrightarrow> hi_dev info = Some k \<and> hub_ok info)"
    using assms unfolding get_hub_info_def h by (simp add: t Let_def hub_ok_def dev_ok_def LIBUSB_ERROR_INVALID_PARAM_def)
  then show thesis using that by blast
qed

lemma description_ok:
  assumes "dev_ok u"
  shows "\<exists>rc ds. get_device_description nodesc k u ds0 = Inr (rc, ds)"
proof -
  obtain rc info where "get_hub_info k u info_zero = Inr (rc, info)" "rc = 0 \<Longrightarrow> hi_dev info = Some k \<and> hub_ok info"
    using get_hub_info_ok [OF assms] by blast
  then show ?thesis by (cases "rc = 0") (simp_all add: get_device_description_def Let_def)
qed

lemma attached_ok:
  assumes "dev_ok u" and "hub_ok h"
  shows "\<exists>a. attached h u = Inr a"
  using assms by (auto simp: attached_def same_bytes_def dev_ok_def hub_ok_def mread_def MAX_HUB_CHAIN_def)

subsection \<open>The hubs that are collected\<close>

definition hub_from :: "hub_opts \<Rightarrow> hub_info \<Rightarrow> bool" where
  "hub_from o1 h \<longleftrightarrow> hub_ok h \<and> hi_dev h \<noteq> None \<and> (hi_lpsm h = HUB_CHAR_INDV_PORT_LPSM \<or> opt_force o1) \<and>
     (hi_actionable h = 0 \<or> hi_actionable h = 1 \<and> meets_limits o1 h)"

lemma collect_hubs_from:
  assumes "collect_hubs o1 devs k us ports perm_ok hubs = Inr (p', q', hubs')"
    and "list_all dev_ok us" and "list_all (hub_from o1) hubs"
    and "distinct (map hi_dev hubs)" and "\<forall>h\<in>set hubs. \<forall>j. hi_dev h = Some j \<longrightarrow> j < k"
    and "length hubs \<le> MAX_HUBS"
  shows "list_all (hub_from o1) hubs' \<and> distinct (map hi_dev hubs') \<and> length hubs' \<le> MAX_HUBS"
  using assms
proof (induction us arbitrary: k ports perm_ok hubs)
  case (Cons u us)
  have k: "\<forall>h\<in>set hubs. \<forall>j. hi_dev h = Some j \<longrightarrow> j < Suc k" using Cons.prems(5) by (simp add: less_SucI)
  note skip = Cons.IH [OF _ _ Cons.prems(3,4) k Cons.prems(6)]
  obtain rc info where i: "get_hub_info k u info_zero = Inr (rc, info)" "rc = 0 \<Longrightarrow> hi_dev info = Some k \<and> hub_ok info"
    using get_hub_info_ok [of u k] Cons.prems(2) by auto
  obtain r ds where ds: "get_device_description (opt_nodesc o1) k u ds_zero = Inr (r, ds)"
    using description_ok [of u "opt_nodesc o1" k ds_zero] Cons.prems(2) by auto
  define info1 where "info1 = info\<lparr>hi_ds := ds\<rparr>"
  show ?case
  proof (cases "hd_desc u \<and> hd_class u \<noteq> LIBUSB_CLASS_HUB \<or> rc \<noteq> 0 \<or> hi_lpsm info1 \<noteq> HUB_CHAR_INDV_PORT_LPSM \<and> \<not> opt_force o1")
    case True
    then show ?thesis
      using Cons.prems(1,2) skip by (auto simp: i ds info1_def Let_def split: if_splits)
  next
    case False
    define S where "S = (if opt_search o1 \<noteq> [] then search_devices (o1\<lparr>opt_ports := ports\<rparr>) info1 0 devs else Inr (True, ports))"
    define act where "act = (\<lambda>found. info1\<lparr>hi_actionable := (if found \<and> meets_limits o1 info1 then 1 else 0 :: nat)\<rparr>)"
    have c: "rbind S (\<lambda>(found, p2). if length hubs \<ge> MAX_HUBS then Inl (Undef OobWrite)
        else collect_hubs o1 devs (Suc k) us p2 perm_ok (hubs @ [act found])) = Inr (p', q', hubs')"
      using Cons.prems(1) False by (auto simp: i ds info1_def S_def act_def Let_def)
    then obtain found p2 where S: "S = Inr (found, p2)" by (cases S) auto
    define info2 where "info2 = act found"
    from S c have more: "collect_hubs o1 devs (Suc k) us p2 perm_ok (hubs @ [info2]) = Inr (p', q', hubs')"
      and room: "length hubs < MAX_HUBS"
      by (auto simp: info2_def split: if_splits)
    have m: "meets_limits o1 info2 = meets_limits o1 info1" by (simp add: meets_limits_def info2_def act_def)
    have info: "hub_ok info" "hi_dev info = Some k" using False i(2) by auto
    have new: "hub_from o1 info2"
      using info False m by (auto simp: hub_from_def info2_def act_def info1_def hub_ok_def)
    have "hi_dev info2 = Some k" using info by (simp add: info2_def act_def info1_def)
    then have "hi_dev info2 \<notin> hi_dev ` set hubs"
      using Cons.prems(5) by (metis imageE less_irrefl)
    then show ?thesis
      using Cons.IH [OF more] Cons.prems(2-5) new room k info
      by (simp add: info2_def act_def info1_def)
  qed
qed simp


subsection \<open>The other half of a USB 3 hub\<close>

text \<open>
  How well \<open>b\<close> fits as the other half of \<open>a\<close>: 0 for not at all, 1 for any candidate, 2 for the
  same path below the top, 3 for a path one level deeper on the USB 2 side, 4 for the same path,
  5 for the same path on neighbouring buses.
\<close>

definition dual_rank :: "hub_info \<Rightarrow> hub_info \<Rightarrow> nat" where
  "dual_rank a b =
     (let p = path_of a; q = path_of b in
      if \<not> may_be_dual a b then 0
      else if p = q then (if next_bus a b then 5 else 4)
      else if length p + super_num a = length q + super_num b \<and> super_num b \<le> length p \<and>
              drop (super_num b) p = drop (super_num a) q then 3
      else if p \<noteq> [] \<and> length p = length q \<and> tl p = tl q then 2 else 1)"

lemma path_length: "hub_ok h \<Longrightarrow> int (length (path_of h)) = hi_len h"
  by (auto simp: path_of_def hub_ok_def MAX_HUB_CHAIN_def min_def)

lemma same_bytes_path:
  assumes "hub_ok a" and "hub_ok b" and "int i + n = hi_len a" and "int j + n = hi_len b" and "0 \<le> n"
  shows "same_bytes i (hi_path a) j (hi_path b) n = Inr (drop i (path_of a) = drop j (path_of b))"
proof -
  have l: "i + nat n = nat (hi_len a)" "j + nat n = nat (hi_len b)" using assms(3-5) by linarith+
  have "i + nat n \<le> 8" "j + nat n \<le> 8" using l assms(1,2) by (auto simp: hub_ok_def)
  moreover have "drop i (path_of a) = take (nat n) (drop i (hi_path a))"
    "drop j (path_of b) = take (nat n) (drop j (hi_path b))"
    using l by (simp_all add: path_of_def drop_take flip: l)
  ultimately show ?thesis
    using assms by (simp add: same_bytes_def hub_ok_def mread_def MAX_HUB_CHAIN_def)
qed

lemma same_path_eq:
  assumes "hub_ok a" and "hub_ok b"
  shows "same_path a b = Inr (path_of a = path_of b)"
proof (cases "hi_len a = hi_len b")
  case True
  then show ?thesis using same_bytes_path [OF assms, of 0 "hi_len a" 0] assms by (simp add: same_path_def hub_ok_def)
next
  case False
  then have "path_of a \<noteq> path_of b" using path_length [OF assms(1)] path_length [OF assms(2)] by auto
  then show ?thesis using False by (simp add: same_path_def)
qed

lemma one_deeper_eq:
  assumes "hub_ok a" and "hub_ok b"
  shows "one_deeper a b = Inr (length (path_of a) + super_num a = length (path_of b) + super_num b \<and>
    super_num b \<le> length (path_of a) \<and> drop (super_num b) (path_of a) = drop (super_num a) (path_of b))"
proof -
  note l = path_length [OF assms(1)] path_length [OF assms(2)]
  have "hi_len a + int (super_num a) = hi_len b + int (super_num b) \<longleftrightarrow>
      length (path_of a) + super_num a = length (path_of b) + super_num b"
    "int (super_num b) \<le> hi_len a \<longleftrightarrow> super_num b \<le> length (path_of a)"
    using l by linarith+
  then show ?thesis
    using same_bytes_path [OF assms, of "super_num b" "hi_len a - int (super_num b)" "super_num a"]
    by (auto simp: one_deeper_def)
qed

lemma same_below_top_eq:
  assumes "hub_ok a" and "hub_ok b"
  shows "same_below_top a b = Inr (path_of a \<noteq> [] \<and> length (path_of a) = length (path_of b) \<and>
    tl (path_of a) = tl (path_of b))"
proof -
  note l = path_length [OF assms(1)] path_length [OF assms(2)]
  have "hi_len a \<ge> 1 \<and> hi_len a = hi_len b \<longleftrightarrow> path_of a \<noteq> [] \<and> length (path_of a) = length (path_of b)"
    using l by (cases "path_of a"; cases "path_of b") auto
  then show ?thesis
    using same_bytes_path [OF assms, of 1 "hi_len a - 1" 1] by (auto simp: same_below_top_def drop_Suc)
qed

text \<open>One turn takes the hub where it fits better than the best one so far.\<close>

definition score_of :: "nat \<Rightarrow> int" where
  "score_of r = (if r = 0 then - 1 else int r)"

lemma raise_chain:
  "raise_score (b4 \<and> n) 5 j (raise_score b4 4 j (raise_score b3 3 j (raise_score b2 2 j (raise_score True 1 j best)))) =
   (let r = (if b4 then (if n then 5 else 4) else if b3 then 3 else if b2 then 2 else 1) in
    if snd best < r then (j, r) else best)"
  by (cases b4; cases b3; cases b2; cases n) (auto simp: raise_score_def)

lemma dual_turn_rank:
  assumes "hub_ok a" and "hub_ok b" and "- 1 \<le> snd best"
  shows "dual_turn a b j best = Inr (if snd best < score_of (dual_rank a b) then (j, score_of (dual_rank a b)) else best)"
proof (cases "may_be_dual a b")
  case False
  then show ?thesis using assms(3) by (simp add: dual_turn_def dual_rank_def score_of_def)
next
  case True
  define b4 b3 b2 where "b4 \<longleftrightarrow> path_of a = path_of b"
    and "b3 \<longleftrightarrow> length (path_of a) + super_num a = length (path_of b) + super_num b \<and>
      super_num b \<le> length (path_of a) \<and> drop (super_num b) (path_of a) = drop (super_num a) (path_of b)"
    and "b2 \<longleftrightarrow> path_of a \<noteq> [] \<and> length (path_of a) = length (path_of b) \<and> tl (path_of a) = tl (path_of b)"
  define r where "r = (if b4 then (if next_bus a b then 5 else 4) else if b3 then 3 else if b2 then 2 else 1 :: int)"
  have "score_of (dual_rank a b) = r"
    using True by (simp add: dual_rank_def score_of_def r_def Let_def flip: b4_def b3_def b2_def)
  then show ?thesis
    using True same_path_eq [OF assms(1,2)] one_deeper_eq [OF assms(1,2)] same_below_top_eq [OF assms(1,2)]
      raise_chain [of b4 "next_bus a b" j b3 b2 best]
    by (simp add: dual_turn_def r_def Let_def flip: b4_def b3_def b2_def)
qed


text \<open>Among the first \<open>n\<close> hubs, the best one so far: its position and its score.\<close>

definition best_so_far :: "hub_info list \<Rightarrow> nat \<Rightarrow> nat \<Rightarrow> int \<times> int \<Rightarrow> bool" where
  "best_so_far hubs i n best \<longleftrightarrow>
     (let f = (\<lambda>j. score_of (dual_rank (hubs ! i) (hubs ! j))) in
      best = (- 1, - 1) \<and> (\<forall>j<n. j \<noteq> i \<longrightarrow> f j = - 1) \<or>
      (\<exists>k<n. k \<noteq> i \<and> best = (int k, f k) \<and> - 1 < f k \<and> (\<forall>j<n. j \<noteq> i \<longrightarrow> f j \<le> f k) \<and>
         (\<forall>j<k. j \<noteq> i \<longrightarrow> f j < f k)))"

lemma score_ge: "- 1 \<le> score_of r" by (simp add: score_of_def)

lemma best_so_far_step:
  assumes "best_so_far hubs i n best" and "n \<noteq> i"
  shows "best_so_far hubs i (Suc n) (if snd best < score_of (dual_rank (hubs ! i) (hubs ! n))
    then (int n, score_of (dual_rank (hubs ! i) (hubs ! n))) else best)"
proof -
  define f where "f = (\<lambda>j. score_of (dual_rank (hubs ! i) (hubs ! j)))"
  have ge: "- 1 \<le> f j" for j by (simp add: f_def score_ge)
  from assms(1) consider "best = (- 1, - 1)" "\<forall>j<n. j \<noteq> i \<longrightarrow> f j = - 1"
    | k where "k < n" "k \<noteq> i" "best = (int k, f k)" "- 1 < f k" "\<forall>j<n. j \<noteq> i \<longrightarrow> f j \<le> f k"
        "\<forall>j<k. j \<noteq> i \<longrightarrow> f j < f k"
    unfolding best_so_far_def Let_def f_def [symmetric] by blast
  then show ?thesis
  proof cases
    case 1
    then show ?thesis
      using ge [of n] assms(2) unfolding best_so_far_def Let_def f_def [symmetric]
      by (auto simp: less_Suc_eq f_def intro!: exI [of _ n])
  next
    case 2
    show ?thesis
    proof (cases "f k < f n")
      case True
      then have "\<forall>j<n. j \<noteq> i \<longrightarrow> f j < f n" using 2(5) by (meson le_less_trans)
      then show ?thesis
        using True 2(3,4) assms(2) unfolding best_so_far_def Let_def
        by (auto simp: less_Suc_eq f_def [symmetric] f_def [THEN fun_cong, symmetric] intro!: exI [of _ n] less_imp_le)
    next
      case False
      then show ?thesis
        using 2 unfolding best_so_far_def Let_def
        by (auto simp: less_Suc_eq f_def [THEN fun_cong, symmetric] intro!: exI [of _ k])
    qed
  qed
qed

lemma best_so_far_skip: "best_so_far hubs i i best \<Longrightarrow> best_so_far hubs i (Suc i) best"
  by (auto simp: best_so_far_def Let_def less_Suc_eq)

lemma dual_loop_best:
  assumes "list_all hub_ok hubs" and "i < length hubs"
  shows "n \<le> length hubs \<Longrightarrow> best_so_far hubs i n best \<Longrightarrow>
    \<exists>best'. dual_loop (hubs ! i) i n (drop n hubs) best = Inr best' \<and> best_so_far hubs i (length hubs) best'"
proof (induction "length hubs - n" arbitrary: n best)
  case 0
  then show ?case by simp
next
  case (Suc m)
  then have n: "n < length hubs" by simp
  then have d: "drop n hubs = hubs ! n # drop (Suc n) hubs" by (simp add: Cons_nth_drop_Suc)
  have ok: "hub_ok (hubs ! i)" "hub_ok (hubs ! n)" using assms n by (simp_all add: list_all_length)
  have sc: "- 1 \<le> snd best" using Suc.prems(2) score_ge by (auto simp: best_so_far_def Let_def)
  note IH = Suc.hyps(1) [of "Suc n"]
  show ?case
  proof (cases "i = n")
    case True
    then show ?thesis using IH [of best] Suc.hyps(2) n best_so_far_skip Suc.prems(2) by (simp add: d)
  next
    case False
    then show ?thesis
      using IH [OF _ _ best_so_far_step [OF Suc.prems(2)]] Suc.hyps(2) n
      by (simp add: d dual_turn_rank [OF ok sc])
  qed
qed

text \<open>
  C28. The loop that looks for the other half of a hub picks, of all other hubs, the first of those
  that fit best in the order of \<open>dual_rank\<close>, and none exactly when no hub fits at all.
\<close>
theorem dual_is_best:
  assumes "list_all hub_ok hubs" and "i < length hubs"
  shows "\<exists>m. dual_of hubs i = Inr m \<and>
    (m = - 1 \<and> (\<forall>j<length hubs. j \<noteq> i \<longrightarrow> dual_rank (hubs ! i) (hubs ! j) = 0) \<or>
     (\<exists>k<length hubs. m = int k \<and> k \<noteq> i \<and> 0 < dual_rank (hubs ! i) (hubs ! k) \<and>
        (\<forall>j<length hubs. j \<noteq> i \<longrightarrow> dual_rank (hubs ! i) (hubs ! j) \<le> dual_rank (hubs ! i) (hubs ! k)) \<and>
        (\<forall>j<k. j \<noteq> i \<longrightarrow> dual_rank (hubs ! i) (hubs ! j) < dual_rank (hubs ! i) (hubs ! k))))"
proof -
  have "\<exists>best. dual_loop (hubs ! i) i 0 (drop 0 hubs) (- 1, - 1) = Inr best \<and> best_so_far hubs i (length hubs) best"
    by (rule dual_loop_best [OF assms]) (simp_all add: best_so_far_def)
  then obtain best where b: "dual_loop (hubs ! i) i 0 hubs (- 1, - 1) = Inr best" "best_so_far hubs i (length hubs) best"
    by auto
  have s: "score_of r = - 1 \<longleftrightarrow> r = 0" "- 1 < score_of r \<longleftrightarrow> 0 < r" "score_of r \<le> score_of q \<longleftrightarrow> r \<le> q"
    "score_of r < score_of q \<longleftrightarrow> r < q" for r q by (auto simp: score_of_def)
  show ?thesis using b by (auto simp: dual_of_def best_so_far_def Let_def s)
qed


lemma dual_of_cases:
  assumes "list_all hub_ok hubs" and "i < length hubs"
  obtains "dual_of hubs i = Inr (- 1)"
    | k where "dual_of hubs i = Inr (int k)" and "k < length hubs" and "may_be_dual (hubs ! i) (hubs ! k)"
proof -
  have "\<exists>best. dual_loop (hubs ! i) i 0 (drop 0 hubs) (- 1, - 1) = Inr best \<and> best_so_far hubs i (length hubs) best"
    by (rule dual_loop_best [OF assms]) (simp_all add: best_so_far_def)
  then obtain best where b: "dual_loop (hubs ! i) i 0 hubs (- 1, - 1) = Inr best" "best_so_far hubs i (length hubs) best"
    by auto
  have "\<not> may_be_dual (hubs ! i) (hubs ! k) \<Longrightarrow> \<not> - 1 < score_of (dual_rank (hubs ! i) (hubs ! k))" for k
    by (simp add: dual_rank_def score_of_def)
  then show thesis using b that by (auto simp: dual_of_def best_so_far_def Let_def)
qed

subsection \<open>Which hubs are actionable\<close>

text \<open>The hubs after the pairing: only halves of hubs to work on have become actionable.\<close>

definition paired :: "hub_info list \<Rightarrow> hub_info list \<Rightarrow> bool" where
  "paired hubs0 hubs \<longleftrightarrow> length hubs = length hubs0 \<and>
     (\<forall>j<length hubs0. hubs ! j = hubs0 ! j \<or>
        hi_actionable (hubs0 ! j) = 0 \<and> hubs ! j = (hubs0 ! j)\<lparr>hi_actionable := 2\<rparr> \<and>
        (\<exists>i<length hubs0. hi_actionable (hubs0 ! i) = 1 \<and> may_be_dual (hubs0 ! i) (hubs0 ! j)))"

lemma paired_nth:
  assumes "paired hubs0 hubs" and "j < length hubs0"
  obtains n where "hubs ! j = (hubs0 ! j)\<lparr>hi_actionable := n\<rparr>"
    and "n = 1 \<longleftrightarrow> hi_actionable (hubs0 ! j) = 1" and "n = 0 \<Longrightarrow> hi_actionable (hubs0 ! j) = 0"
proof -
  have "hubs ! j = hubs0 ! j \<or> hi_actionable (hubs0 ! j) = 0 \<and> hubs ! j = (hubs0 ! j)\<lparr>hi_actionable := 2\<rparr>"
    using assms(1) [unfolded paired_def, THEN conjunct2, rule_format, OF assms(2)] by auto
  then consider "hubs ! j = hubs0 ! j"
    | "hi_actionable (hubs0 ! j) = 0" "hubs ! j = (hubs0 ! j)\<lparr>hi_actionable := 2\<rparr>" by auto
  then show thesis
  proof cases
    case 1
    show thesis by (rule that [of "hi_actionable (hubs0 ! j)"]) (simp_all add: 1)
  next
    case 2
    show thesis by (rule that [of 2]) (simp_all add: 2)
  qed
qed

lemma may_be_dual_actionable [simp]:
  "may_be_dual (a\<lparr>hi_actionable := n\<rparr>) (b\<lparr>hi_actionable := m\<rparr>) = may_be_dual a b"
  by (simp add: may_be_dual_def)

lemma hub_ok_actionable [simp]: "hub_ok (h\<lparr>hi_actionable := n\<rparr>) = hub_ok h"
  by (simp add: hub_ok_def)

lemma mark_dual_paired:
  assumes "paired hubs0 hubs" and "list_all hub_ok hubs0" and "i < length hubs0"
  shows "\<exists>hubs'. mark_dual i hubs = Inr hubs' \<and> paired hubs0 hubs'"
proof -
  have len: "length hubs = length hubs0" using assms(1) by (simp add: paired_def)
  have "hub_ok (hubs ! j)" if "j < length hubs" for j
    using paired_nth [OF assms(1), of j] that assms(2) len by (metis hub_ok_actionable list_all_length)
  then have ok: "list_all hub_ok hubs" by (simp add: list_all_length)
  show ?thesis
  proof (cases "hi_actionable (hubs ! i) \<noteq> 1 \<or> hi_container (hubs ! i) = []")
    case True
    then show ?thesis using assms(1) by (simp add: mark_dual_def)
  next
    case False
    have i1: "hi_actionable (hubs0 ! i) = 1" and hi: "\<exists>n. hubs ! i = (hubs0 ! i)\<lparr>hi_actionable := n\<rparr>"
      using paired_nth [OF assms(1,3)] False by (metis hub_info.select_convs(6) hub_info.surjective hub_info.update_convs(6))+
    show ?thesis
    proof (rule dual_of_cases [OF ok, of i])
      show "i < length hubs" using assms(3) len by simp
    next
      assume "dual_of hubs i = Inr (- 1)"
      then show ?thesis using False assms(1) by (simp add: mark_dual_def)
    next
      fix k assume k: "dual_of hubs i = Inr (int k)" "k < length hubs" "may_be_dual (hubs ! i) (hubs ! k)"
      obtain n where n: "hubs ! k = (hubs0 ! k)\<lparr>hi_actionable := n\<rparr>" "n = 0 \<Longrightarrow> hi_actionable (hubs0 ! k) = 0"
        using paired_nth [OF assms(1), of k] k(2) len by metis
      have d: "may_be_dual (hubs0 ! i) (hubs0 ! k)" using k(3) hi n(1) by auto
      show ?thesis
      proof (cases "hi_actionable (hubs ! k) = 0")
        case True
        then have "n = 0" using n(1) by simp
        then have "paired hubs0 (hubs[k := (hubs ! k)\<lparr>hi_actionable := 2\<rparr>])"
          using assms(1,3) d i1 k(2) n unfolding paired_def by (auto simp: nth_list_update)
        then show ?thesis using False k True by (simp add: mark_dual_def)
      next
        case nz: False
        then show ?thesis using False k assms(1) by (simp add: mark_dual_def)
      qed
    qed
  qed
qed

lemma mark_duals_paired:
  "\<forall>i\<in>set is. i < length hubs0 \<Longrightarrow> list_all hub_ok hubs0 \<Longrightarrow> paired hubs0 hubs \<Longrightarrow>
   \<exists>hubs'. mark_duals is hubs = Inr hubs' \<and> paired hubs0 hubs'"
proof (induction "is" arbitrary: hubs)
  case (Cons i "is")
  obtain h where "mark_dual i hubs = Inr h" "paired hubs0 h"
    using mark_dual_paired [OF Cons.prems(3,2)] Cons.prems(1) by auto
  then show ?case using Cons.IH [of h] Cons.prems(1,2) by simp
qed simp


lemma find_hubs_from:
  assumes "usb_find_hubs o1 devs = Inr (rc, ports, hubs)" and "list_all dev_ok devs"
  obtains hubs0 where "list_all (hub_from o1) hubs0" and "distinct (map hi_dev hubs0)" and "paired hubs0 hubs"
    and "opt_exact o1 \<Longrightarrow> hubs = hubs0" and "rc \<ge> 0 \<Longrightarrow> rc = int (phys_count (opt_exact o1) hubs)"
proof -
  from assms(1) obtain p perm_ok hubs0 where c: "collect_hubs o1 devs 0 devs (opt_ports o1) True [] = Inr (p, perm_ok, hubs0)"
    and r: "rbind (if opt_exact o1 then Inr hubs0 else lift_mem (mark_duals [0..<length hubs0] hubs0)) (\<lambda>hubs.
      Inr (if \<not> perm_ok \<and> phys_count (opt_exact o1) hubs = 0 then LIBUSB_ERROR_ACCESS
           else int (phys_count (opt_exact o1) hubs), p, hubs)) = Inr (rc, ports, hubs)"
    unfolding usb_find_hubs_def Let_def by (auto simp: rbind_eq_Inr)
  have h: "list_all (hub_from o1) hubs0" "distinct (map hi_dev hubs0)"
    using collect_hubs_from [OF c assms(2)] by simp_all
  have ok: "list_all hub_ok hubs0" using h(1) by (auto simp: list_all_iff hub_from_def)
  have p0: "paired hubs0 hubs0" by (simp add: paired_def)
  obtain hubs1 where m: "mark_duals [0..<length hubs0] hubs0 = Inr hubs1" "paired hubs0 hubs1"
    using mark_duals_paired [OF _ ok p0, of "[0..<length hubs0]"] by auto
  show thesis
    using that [OF h] r m p0
    by (auto simp: LIBUSB_ERROR_ACCESS_def split: if_splits)
qed

lemma meets_limits_actionable [simp]: "meets_limits o1 (h\<lparr>hi_actionable := n\<rparr>) = meets_limits o1 h"
  by (simp add: meets_limits_def)

text \<open>
  C29. The program works only on hubs that switch every port by itself, or with --force, and of
  these only on hubs that meet the limits of the command line (location, level, vendor), and,
  without --exact, on hubs that pass for the USB 2 or USB 3 half of one that does.
\<close>
theorem actionable_hubs:
  assumes "usb_find_hubs o1 devs = Inr (rc, ports, hubs)" and "list_all dev_ok devs"
    and "h \<in> set hubs" and "hi_actionable h \<noteq> 0"
  shows "(hi_lpsm h = HUB_CHAR_INDV_PORT_LPSM \<or> opt_force o1) \<and>
    (hi_actionable h = 1 \<and> meets_limits o1 h \<or>
     hi_actionable h = 2 \<and> \<not> opt_exact o1 \<and>
       (\<exists>g\<in>set hubs. hi_actionable g = 1 \<and> meets_limits o1 g \<and> may_be_dual g h))"
proof -
  obtain hubs0 where h: "list_all (hub_from o1) hubs0" "paired hubs0 hubs" "opt_exact o1 \<Longrightarrow> hubs = hubs0"
    using find_hubs_from [OF assms(1,2)] by metis
  have len: "length hubs = length hubs0" using h(2) by (simp add: paired_def)
  obtain j where j: "j < length hubs0" "h = hubs ! j" using assms(3) len by (auto simp: in_set_conv_nth)
  have fj: "hub_from o1 (hubs0 ! j)" using h(1) j(1) by (simp add: list_all_length)
  consider "h = hubs0 ! j" | i where "hi_actionable (hubs0 ! j) = 0" "h = (hubs0 ! j)\<lparr>hi_actionable := 2\<rparr>"
      "i < length hubs0" "hi_actionable (hubs0 ! i) = 1" "may_be_dual (hubs0 ! i) (hubs0 ! j)"
    using h(2) [unfolded paired_def, THEN conjunct2, rule_format, OF j(1)] j(2) by auto
  then show ?thesis
  proof cases
    case 1
    then show ?thesis using fj assms(4) by (simp add: hub_from_def)
  next
    case 2
    have ne: "\<not> opt_exact o1" using h(3) 2(1,2) j(2) by (metis hub_info.select_convs(6) hub_info.surjective hub_info.update_convs(6) zero_neq_numeral)
    obtain n where n: "hubs ! i = (hubs0 ! i)\<lparr>hi_actionable := n\<rparr>" "n = 1"
      using paired_nth [OF h(2) 2(3)] 2(4) by metis
    have "hub_from o1 (hubs0 ! i)" using h(1) 2(3) by (simp add: list_all_length)
    then have "meets_limits o1 (hubs0 ! i)" using 2(4) by (simp add: hub_from_def)
    then have "hi_actionable (hubs ! i) = 1 \<and> meets_limits o1 (hubs ! i) \<and> may_be_dual (hubs ! i) h"
      using n 2(2,5) by simp
    moreover have "hubs ! i \<in> set hubs" using 2(3) len by simp
    ultimately show ?thesis using fj 2(2) ne by (auto simp: hub_from_def)
  qed
qed

text \<open>
  With more than 128 hubs that are kept the program writes behind the array hubs: the
  structure is copied before the test whether there is room.
\<close>
theorem too_many_hubs_overflow:
  assumes "list_all (\<lambda>u. hd_desc u \<and> hd_class u = LIBUSB_CLASS_HUB \<and> dev_ok u \<and>
      (\<exists>rc info. get_hub_info 0 u info_zero = Inr (0, info) \<and> hi_lpsm info = HUB_CHAR_INDV_PORT_LPSM)) devs"
    and "MAX_HUBS < length devs" and "opt_search o1 = []"
  shows "usb_find_hubs o1 devs = Inl (Undef OobWrite)"
proof -
  have k: "\<exists>info. get_hub_info k u info_zero = Inr (0, info) \<and> hi_lpsm info = HUB_CHAR_INDV_PORT_LPSM"
    if "\<exists>info. get_hub_info 0 u info_zero = Inr (0, info) \<and> hi_lpsm info = HUB_CHAR_INDV_PORT_LPSM" for k u
    using that unfolding get_hub_info_def
    by (cases "hd_hub u (if hd_bcd u \<ge> USB_SS_BCD then 0x2a00 else 0x2900)"; cases "hub_location u")
      (auto simp: Let_def LIBUSB_ERROR_INVALID_PARAM_def split: if_splits)
  have "collect_hubs o1 all n us ports q hubs = Inl (Undef OobWrite)"
    if "list_all (\<lambda>u. hd_desc u \<and> hd_class u = LIBUSB_CLASS_HUB \<and> dev_ok u \<and>
        (\<exists>rc info. get_hub_info 0 u info_zero = Inr (0, info) \<and> hi_lpsm info = HUB_CHAR_INDV_PORT_LPSM)) us"
      and "MAX_HUBS < length us + length hubs" and "length hubs \<le> MAX_HUBS" for all n us ports q hubs
    using that
  proof (induction us arbitrary: n ports q hubs)
    case (Cons u us)
    obtain info where i: "get_hub_info n u info_zero = Inr (0, info)" "hi_lpsm info = HUB_CHAR_INDV_PORT_LPSM"
      using k [of u n] Cons.prems(1) by auto
    obtain rc ds where d: "get_device_description (opt_nodesc o1) n u ds_zero = Inr (rc, ds)"
      using description_ok [of u "opt_nodesc o1" n ds_zero] Cons.prems(1) by auto
    show ?case using Cons i d assms(3) by (simp add: Let_def)
  qed simp
  then show ?thesis using assms(1,2) by (simp add: usb_find_hubs_def)
qed

end
