(* ===== verification/HubPower.thy ===== *)
theory HubPower
  imports HubFind
begin

text \<open>
  uhubctl: the status of ports, switching them, and main.  libusb and the kernel are the record
  \<open>hub_bus\<close> over the state of the bus.  A 32-bit int that is used as a set of bits is a u32.
\<close>

unbundle bit_operations_syntax

record 'd hub_bus =
  hb_init :: int
  hb_list :: int                              \<comment> \<open>libusb_get_device_list\<close>
  hb_devs :: "hub_dev list"
  hb_open :: "nat \<Rightarrow> 'd \<Rightarrow> int \<times> 'd"
  hb_control :: "nat \<Rightarrow> byte \<Rightarrow> byte \<Rightarrow> u16 \<Rightarrow> u16 \<Rightarrow> nat \<Rightarrow> 'd \<Rightarrow> int \<times> byte list \<times> 'd"
  hb_config :: "nat \<Rightarrow> 'd \<Rightarrow> int \<times> int \<times> 'd"     \<comment> \<open>libusb_get_configuration\<close>
  hb_write :: "string \<Rightarrow> string \<Rightarrow> 'd \<Rightarrow> int option \<times> 'd"  \<comment> \<open>open and write: None when it cannot be opened\<close>
  hb_reset :: "nat \<Rightarrow> 'd \<Rightarrow> int \<times> 'd"
  hb_sleep :: "int \<Rightarrow> 'd \<Rightarrow> 'd"

definition LIBUSB_REQUEST_GET_STATUS :: byte where "LIBUSB_REQUEST_GET_STATUS = 0"
definition LIBUSB_REQUEST_CLEAR_FEATURE :: byte where "LIBUSB_REQUEST_CLEAR_FEATURE = 1"
definition LIBUSB_REQUEST_SET_FEATURE :: byte where "LIBUSB_REQUEST_SET_FEATURE = 3"
definition USB_PORT_FEAT_POWER :: u16 where "USB_PORT_FEAT_POWER = 8"
definition PORT_IN :: byte where "PORT_IN = 0xa3"    \<comment> \<open>class request, recipient other, to the host\<close>
definition PORT_OUT :: byte where "PORT_OUT = 0x23"
definition USB_PORT_STAT_POWER :: u32 where "USB_PORT_STAT_POWER = 0x0100"
definition USB_SS_PORT_STAT_POWER :: u32 where "USB_SS_PORT_STAT_POWER = 0x0200"
definition USB_PORT_STAT_CONNECTION :: u32 where "USB_PORT_STAT_CONNECTION = 1"
definition USB_PORT_STAT_LINK_STATE :: u32 where "USB_PORT_STAT_LINK_STATE = 0x01e0"
definition USB_SS_PORT_STAT_SPEED :: u32 where "USB_SS_PORT_STAT_SPEED = 0x1c00"

lemmas hub_requests = LIBUSB_REQUEST_GET_STATUS_def LIBUSB_REQUEST_CLEAR_FEATURE_def
  LIBUSB_REQUEST_SET_FEATURE_def USB_PORT_FEAT_POWER_def PORT_IN_def PORT_OUT_def

subsection \<open>Reading and setting a port\<close>

text \<open>
  get_port_status: the status as an int, sign-extended, or the negative result.  Of an answer
  shorter than two bytes the status was never written.
\<close>

definition get_port_status :: "'d hub_bus \<Rightarrow> nat \<Rightarrow> nat \<Rightarrow> 'd \<Rightarrow> dfu_stop + u32 \<times> 'd" where
  "get_port_status U k port d =
     (case hb_control U k PORT_IN LIBUSB_REQUEST_GET_STATUS 0 (of_nat port) 4 d of (rc, ust, d) \<Rightarrow>
      if rc < 0 then Inr (word_of_int rc, d)
      else if length ust < 2 then Inl (Undef OobRead)
      else Inr (scast (rd16 (take 2 ust)), d))"

definition disable_path :: "string \<Rightarrow> int \<Rightarrow> nat \<Rightarrow> string" where
  "disable_path location configuration port =
     ''/sys/bus/usb/devices/'' @ location @ '':'' @
     (if configuration < 0 then ''-'' @ dec_text (nat (- configuration)) else dec_text (nat configuration)) @
     ''.0/'' @ location @ ''-port'' @ dec_text port @ ''/disable''"

definition set_port_status_linux :: "'d hub_bus \<Rightarrow> nat \<Rightarrow> hub_info \<Rightarrow> nat \<Rightarrow> bool \<Rightarrow> 'd \<Rightarrow> int \<times> 'd" where
  "set_port_status_linux U k hub port on d =
     (case hb_config U k d of (rc, configuration, d) \<Rightarrow>
      if rc < 0 then (rc, d)
      else
        (case hb_write U (disable_path (hi_location hub) configuration port) (if on then ''0'' else ''1'') d of
           (None, d) \<Rightarrow> (- 1, d)
         | (Some rc, d) \<Rightarrow> (if rc < 0 then - 1 else 0, d)))"

text \<open>The loop over repeat, with the last result.\<close>

primrec power_requests :: "nat \<Rightarrow> 'd hub_bus \<Rightarrow> hub_opts \<Rightarrow> nat \<Rightarrow> nat \<Rightarrow> bool \<Rightarrow> int \<Rightarrow> 'd \<Rightarrow> int \<times> 'd" where
  "power_requests 0 U o1 k port on rc d = (rc, d)"
| "power_requests (Suc n) U o1 k port on rc d =
     (case hb_control U k PORT_OUT (if on then LIBUSB_REQUEST_SET_FEATURE else LIBUSB_REQUEST_CLEAR_FEATURE)
             USB_PORT_FEAT_POWER (of_nat port) 0 d of (rc, _, d) \<Rightarrow>
      power_requests n U o1 k port on rc (if n > 0 then hb_sleep U (opt_wait o1) d else d))"

definition set_port_status_libusb :: "'d hub_bus \<Rightarrow> hub_opts \<Rightarrow> nat \<Rightarrow> nat \<Rightarrow> bool \<Rightarrow> 'd \<Rightarrow> int \<times> 'd" where
  "set_port_status_libusb U o1 k port on d =
     power_requests (if on then 1 else nat (opt_repeat o1)) U o1 k port on 0 d"

definition set_port_status :: "'d hub_bus \<Rightarrow> hub_opts \<Rightarrow> nat \<Rightarrow> hub_info \<Rightarrow> nat \<Rightarrow> bool \<Rightarrow> 'd \<Rightarrow> int \<times> 'd" where
  "set_port_status U o1 k hub port on d =
     (if opt_nosysfs o1 then set_port_status_libusb U o1 k port on d
      else
        (case set_port_status_linux U k hub port on d of (rc, d) \<Rightarrow>
         if rc = 0 then (0, d) else set_port_status_libusb U o1 k port on d))"

subsection \<open>Showing the ports\<close>

definition shows_bit :: "u32 \<Rightarrow> u32 \<Rightarrow> string \<Rightarrow> string" where
  "shows_bit status bits text = (if status AND bits \<noteq> 0 then text else [])"

definition link_text :: "u32 \<Rightarrow> string" where
  "link_text s =
     (if s = 0 then '' U0'' else if s = 0x20 then '' U1'' else if s = 0x40 then '' U2''
      else if s = 0x60 then '' U3'' else if s = 0x80 then '' SS.Disabled'' else if s = 0xa0 then '' Rx.Detect''
      else if s = 0xc0 then '' SS.Inactive'' else if s = 0xe0 then '' Polling'' else if s = 0x100 then '' Recovery''
      else if s = 0x120 then '' HotReset'' else if s = 0x140 then '' Compliance''
      else if s = 0x160 then '' Loopback'' else [])"

definition status_text :: "bool \<Rightarrow> u32 \<Rightarrow> string \<Rightarrow> string" where
  "status_text super_speed s description =
     (if \<not> super_speed then
        (if s = 0 then '' off''
         else shows_bit s USB_PORT_STAT_POWER '' power'' @ shows_bit s 0x1000 '' indicator'' @
              shows_bit s 0x0800 '' test'' @ shows_bit s 0x0400 '' highspeed'' @
              shows_bit s 0x0200 '' lowspeed'' @ shows_bit s 0x0004 '' suspend'')
      else if s AND USB_SS_PORT_STAT_POWER = 0 then '' off''
      else '' power'' @ (if s AND USB_SS_PORT_STAT_SPEED = 0 then '' 5gbps'' else []) @
           link_text (s AND USB_PORT_STAT_LINK_STATE)) @
     shows_bit s 0x0010 '' reset'' @ shows_bit s 0x0008 '' oc'' @ shows_bit s 0x0002 '' enable'' @
     shows_bit s USB_PORT_STAT_CONNECTION '' connect'' @
     shows_bit s USB_PORT_STAT_CONNECTION ('' ['' @ description @ '']'')"

text \<open>The description of the device at a port: the first one that can be described.\<close>

primrec find_attached :: "hub_opts \<Rightarrow> hub_info \<Rightarrow> nat \<Rightarrow> nat \<Rightarrow> hub_dev list \<Rightarrow> descriptor_strings \<Rightarrow> fault + descriptor_strings" where
  "find_attached o1 hub port k [] ds = Inr ds"
| "find_attached o1 hub port k (u # us) ds =
     rbind (attached hub u) (\<lambda>a.
     if a \<and> unat (hd_port u) = port then
       rbind (get_device_description (opt_nodesc o1) k u ds) (\<lambda>(rc, ds).
       if rc = 0 then Inr ds else find_attached o1 hub port (Suc k) us ds)
     else find_attached o1 hub port (Suc k) us ds)"

text \<open>The loop over the ports; the lines of the ports shown.\<close>

primrec show_ports ::
  "'d hub_bus \<Rightarrow> hub_opts \<Rightarrow> nat \<Rightarrow> hub_info \<Rightarrow> u32 \<Rightarrow> nat list \<Rightarrow> 'd \<Rightarrow> dfu_stop + (nat \<times> u32 \<times> string) list \<times> 'd" where
  "show_ports U o1 k hub shown [] d = Inr ([], d)"
| "show_ports U o1 k hub shown (port # ports) d =
     rbind (if 0 <s shown then rbind (port_bit port) (\<lambda>m. Inr (shown AND m = 0)) else Inr False) (\<lambda>skip.
     if skip then show_ports U o1 k hub shown ports d
     else
       rbind (get_port_status U k port d) (\<lambda>(s, d).
       if s = - 1 then Inr ([], d)
       else
         rbind (lift_mem (find_attached o1 hub port 0 (hb_devs U) ds_zero)) (\<lambda>ds.
         rbind (show_ports U o1 k hub shown ports d) (\<lambda>(lines, d).
         Inr ((port, s, status_text (hi_super hub) s (ds_description ds)) # lines, d)))))"

definition print_port_status :: "'d hub_bus \<Rightarrow> hub_opts \<Rightarrow> hub_info \<Rightarrow> u32 \<Rightarrow> 'd \<Rightarrow> dfu_stop + (nat \<times> u32 \<times> string) list \<times> 'd" where
  "print_port_status U o1 hub shown d =
     (case hi_dev hub of None \<Rightarrow> Inl (Undef NullDeref)
      | Some k \<Rightarrow>
        (case hb_open U k d of (rc, d) \<Rightarrow>
         if rc = 0 then show_ports U o1 k hub shown [1..<Suc (hi_nports hub)] d else Inr ([], d)))"

subsection \<open>Switching the ports\<close>

definition power_mask :: "hub_info \<Rightarrow> u32" where
  "power_mask hub = (if hi_super hub then USB_SS_PORT_STAT_POWER else USB_PORT_STAT_POWER)"

text \<open>The loop over the ports in main, with should_be_on.\<close>

primrec switch_ports ::
  "'d hub_bus \<Rightarrow> hub_opts \<Rightarrow> nat \<Rightarrow> hub_info \<Rightarrow> u32 \<Rightarrow> nat list \<Rightarrow> bool \<Rightarrow> 'd \<Rightarrow> dfu_stop + bool \<times> 'd" where
  "switch_ports U o1 k hub ports [] should_be_on d = Inr (should_be_on, d)"
| "switch_ports U o1 k hub ports (port # rest) should_be_on d =
     rbind (port_bit port) (\<lambda>m.
     if m AND ports = 0 then switch_ports U o1 k hub ports rest should_be_on d
     else
       rbind (get_port_status U k port d) (\<lambda>(s, d).
       let is_on = (s AND power_mask hub \<noteq> 0);
           should_be_on = (if opt_action o1 = POWER_TOGGLE then \<not> is_on else should_be_on);
           d = (if is_on \<noteq> should_be_on then snd (set_port_status U o1 k hub port should_be_on d) else d) in
       switch_ports U o1 k hub ports rest should_be_on d))"

text \<open>(1 << nports) - 1, undefined from 31 ports on.\<close>

definition all_ports :: "nat \<Rightarrow> dfu_stop + u32" where
  "all_ports nports = (if nports \<le> 30 then Inr (push_bit nports 1 - 1) else Inl IntOverflow)"

text \<open>One hub in the phase \<open>on\<close> (k of the code): what is printed is left out of the result but for the status.\<close>

definition hub_phase :: "'d hub_bus \<Rightarrow> hub_opts \<Rightarrow> bool \<Rightarrow> hub_info \<Rightarrow> 'd \<Rightarrow> dfu_stop + 'd" where
  "hub_phase U o1 on hub d =
     (if hi_actionable hub = 0 then Inr d
      else
        rbind (print_port_status U o1 hub (opt_ports o1) d) (\<lambda>(_, d).
        if opt_action o1 = POWER_KEEP then Inr d
        else
          (case hi_dev hub of None \<Rightarrow> Inl (Undef NullDeref)
           | Some k \<Rightarrow>
             (case hb_open U k d of (rc, d) \<Rightarrow>
              if rc \<noteq> 0 then Inr d
              else
                rbind (all_ports (hi_nports hub)) (\<lambda>m.
                rbind (switch_ports U o1 k hub (m AND opt_ports o1) [1..<Suc (hi_nports hub)] on d) (\<lambda>(_, d).
                let d = (if \<not> on \<and> hi_super hub then hb_sleep U 150 d else d) in
                rbind (print_port_status U o1 hub (opt_ports o1) d) (\<lambda>(_, d).
                Inr (if on \<and> opt_reset o1 then snd (hb_reset U k d) else d))))))))"

primrec hubs_phase :: "'d hub_bus \<Rightarrow> hub_opts \<Rightarrow> bool \<Rightarrow> hub_info list \<Rightarrow> 'd \<Rightarrow> dfu_stop + 'd" where
  "hubs_phase U o1 on [] d = Inr d"
| "hubs_phase U o1 on (h # hs) d = rbind (hub_phase U o1 on h d) (hubs_phase U o1 on hs)"

text \<open>The two phases, off and on.\<close>

definition phase_off :: "'d hub_bus \<Rightarrow> hub_opts \<Rightarrow> hub_info list \<Rightarrow> 'd \<Rightarrow> dfu_stop + 'd" where
  "phase_off U o1 hubs d =
     (if opt_action o1 = POWER_ON then Inr d
      else rbind (hubs_phase U o1 False hubs d) (\<lambda>d.
        Inr (if opt_action o1 = POWER_CYCLE then hb_sleep U (opt_delay o1) d else d)))"

definition phase_on :: "'d hub_bus \<Rightarrow> hub_opts \<Rightarrow> hub_info list \<Rightarrow> 'd \<Rightarrow> dfu_stop + 'd" where
  "phase_on U o1 hubs d =
     (if opt_action o1 = POWER_OFF \<or> opt_action o1 = POWER_KEEP \<or> opt_action o1 = POWER_TOGGLE then Inr d
      else hubs_phase U o1 True hubs d)"

definition uhubctl_main ::
  "'d hub_bus \<Rightarrow> (string \<Rightarrow> int) \<Rightarrow> (char \<times> string) list \<Rightarrow> string list \<Rightarrow> 'd \<Rightarrow> dfu_stop + int \<times> 'd" where
  "uhubctl_main U atof_ms args rest d =
     rbind (hub_options atof_ms args hub_defaults) (\<lambda>o1.
     if rest \<noteq> [] then Inl (Exit 1)
     else if hb_init U < 0 then Inl (Exit 1)
     else if hb_list U < 0 then Inr (1, d)
     else
       rbind (usb_find_hubs o1 (hb_devs U)) (\<lambda>(rc, ports, hubs).
       if rc \<le> 0 then Inr (1, d)
       else if phys_count (opt_exact o1) hubs > 1 \<and> opt_action o1 \<ge> 0 then Inl (Exit 1)
       else
         (let o1 = o1\<lparr>opt_ports := ports\<rparr> in
          rbind (phase_off U o1 hubs d) (\<lambda>d.
          rbind (phase_on U o1 hubs d) (\<lambda>d. Inr (0, d))))))"

end
