(* ===== verification/HubRuns.thy ===== *)
theory HubRuns
  imports HubChoice HubPower DfuseLayout
begin

text \<open>
  Runs of uhubctl: the port list of the command line, and what a run does to the power of the
  ports of the bus.
\<close>

unbundle bit_operations_syntax

subsection \<open>The port list\<close>

definition range_text :: "nat \<times> nat \<Rightarrow> string" where
  "range_text r = dec_text (fst r) @ ''-'' @ dec_text (snd r)"

fun ports_text :: "(nat \<times> nat) list \<Rightarrow> string" where
  "ports_text [] = []"
| "ports_text [r] = range_text r"
| "ports_text (r # rs) = range_text r @ '','' @ ports_text rs"

definition range_ok :: "nat \<times> nat \<Rightarrow> bool" where
  "range_ok r \<longleftrightarrow> 1 \<le> fst r \<and> fst r \<le> snd r \<and> snd r \<le> MAX_HUB_PORTS"

lemma scan_d_text:
  assumes "n < 2147483648" and "r = [] \<or> \<not> isdigit (hd r)"
  shows "scan_d (dec_text n @ r) = Some (int n, r)"
proof -
  have d: "list_all isdigit (dec_text n)" "dec_text n \<noteq> []" "digits_val 10 (dec_text n) = n"
    using dec_text_reads by simp_all
  obtain c ds where c: "dec_text n = c # ds" using d(2) by (cases "dec_text n") auto
  then have s: "scan_sign (dec_text n @ r) = (False, dec_text n @ r)"
    using d(1) isdigit_sign [of c] by (simp add: scan_sign_none)
  have t: "takeWhile isdigit (dec_text n @ r) = dec_text n" "dropWhile isdigit (dec_text n @ r) = r"
    using d(1) assms(2) by (cases r; auto simp: takeWhile_append dropWhile_append list_all_iff)+
  show ?thesis
    using assms(1) d unfolding scan_d_def s prod.case Let_def t by (simp add: to_int32_small)
qed

lemma range_text_reads:
  assumes "range_ok r"
  shows "port_range (range_text r) = Inr r" and "CHR '','' \<notin> set (range_text r)"
proof -
  obtain a b where r: "r = (a, b)" by (cases r)
  have ab: "1 \<le> a" "a \<le> b" "b \<le> 14" using assms r by (simp_all add: range_ok_def MAX_HUB_PORTS_def)
  have no: "c \<in> set (dec_text n) \<Longrightarrow> c \<noteq> CHR '','' \<and> c \<noteq> CHR ''-''" for c n
    using dec_text_reads [of n] by (auto simp: list_all_iff isdigit_def code_def)
  have two: "length (dec_text n) \<le> 2" if "n < 100" for n
    using that by (rule dec_text_length)
  have len: "length (range_text r) \<le> 7" using two [of a] two [of b] ab by (simp add: range_text_def r)
  show c: "CHR '','' \<notin> set (range_text r)" using no by (auto simp: range_text_def r)
  then have w: "takeWhile (\<lambda>c. c \<noteq> CHR '','') (range_text r) = range_text r"
    by (auto simp: takeWhile_eq_all_conv)
  have t: "take 7 (takeWhile (\<lambda>c. c \<noteq> CHR '','') (range_text r)) = range_text r"
    unfolding w using len by simp
  have "behind CHR ''-'' (range_text r) = Some (dec_text b)"
    using no by (auto simp: behind_def range_text_def r dropWhile_append)
  moreover have "atoi (range_text r) = int a" "atoi (dec_text b) = int b"
    using scan_d_text [of a "''-'' @ dec_text b"] scan_d_text [of b "[]"] ab
    by (simp_all add: atoi_def range_text_def r isdigit_def code_def)
  ultimately show "port_range (range_text r) = Inr r"
    using ab unfolding port_range_def t Let_def by (simp add: r MAX_HUB_PORTS_def)
qed

lemma port_range_comma:
  "CHR '','' \<notin> set x \<Longrightarrow> port_range (x @ CHR '','' # rest) = port_range x"
  "CHR '','' \<notin> set x \<Longrightarrow> behind CHR '','' (x @ CHR '','' # rest) = Some rest"
  "CHR '','' \<notin> set x \<Longrightarrow> behind CHR '','' x = None"
proof -
  assume x: "CHR '','' \<notin> set x"
  then have t: "takeWhile (\<lambda>c. c \<noteq> CHR '','') x = x" "takeWhile (\<lambda>c. c \<noteq> CHR '','') (x @ CHR '','' # rest) = x"
    by (auto simp: takeWhile_append takeWhile_eq_all_conv)
  then show "port_range (x @ CHR '','' # rest) = port_range x" by (simp only: port_range_def t)
  show "behind CHR '','' (x @ CHR '','' # rest) = Some rest" "behind CHR '','' x = None"
    using x by (auto simp: behind_def dropWhile_append)
qed

lemma bit_fold_ports:
  "bit (fold (\<lambda>i m. m OR push_bit (i - 1) 1) is m) n \<longleftrightarrow> bit m n \<or> n < 32 \<and> (\<exists>i\<in>set is. n = i - 1)" for m :: u32
  by (induction "is" arbitrary: m) (auto simp: bit_simps)

lemma bit_set_ports:
  assumes "range_ok (a, b)"
  shows "bit (set_ports a b m) n \<longleftrightarrow> bit m n \<or> a \<le> n + 1 \<and> n + 1 \<le> b"
  using assms unfolding set_ports_def bit_fold_ports range_ok_def MAX_HUB_PORTS_def
  by (auto intro!: bexI [of _ "Suc n"])

lemma ports_loop_ranges:
  assumes "rs \<noteq> []" and "list_all range_ok rs"
  shows "\<exists>m'. ports_loop (ports_text rs) m = Inr m' \<and>
    (\<forall>n. bit m' n \<longleftrightarrow> bit m n \<or> (\<exists>(a, b)\<in>set rs. a \<le> n + 1 \<and> n + 1 \<le> b))"
  using assms
proof (induction rs arbitrary: m rule: ports_text.induct)
  case (2 r)
  obtain a b where r: "r = (a, b)" by (cases r)
  then show ?case
    using range_text_reads [of r] port_range_comma(3) [of "range_text r"] bit_set_ports 2
    by (subst ports_loop.simps) auto
next
  case (3 r r2 rs)
  obtain a b where r: "r = (a, b)" by (cases r)
  have ok: "range_ok (a, b)" "list_all range_ok (r2 # rs)" using 3(3) r by simp_all
  obtain m' where m': "ports_loop (ports_text (r2 # rs)) (set_ports a b m) = Inr m'"
    "\<forall>n. bit m' n \<longleftrightarrow> bit (set_ports a b m) n \<or> (\<exists>(a, b)\<in>set (r2 # rs). a \<le> n + 1 \<and> n + 1 \<le> b)"
    using 3(1) [OF _ ok(2), of "set_ports a b m"] by auto
  have "ports_loop (ports_text (r # r2 # rs)) m = Inr m'"
    using range_text_reads [of r] port_range_comma(1,2) [of "range_text r" "ports_text (r2 # rs)"] ok m'(1) r
    by (subst ports_loop.simps) simp
  then show ?case using m'(2) bit_set_ports [OF ok(1)] r by auto
qed simp

text \<open>
  A port list such as 1-3,5-5,11-14 of ranges within the ports 1 to 14 is read as the set of
  exactly the ports in one of the ranges.
\<close>
theorem port_list_read:
  assumes "rs \<noteq> []" and "list_all range_ok rs"
  shows "\<exists>m. ports2bitmap (ports_text rs) = Inr m \<and>
    (\<forall>p. 1 \<le> p \<longrightarrow> (bit m (p - 1) \<longleftrightarrow> (\<exists>(a, b)\<in>set rs. a \<le> p \<and> p \<le> b)))"
  using ports_loop_ranges [OF assms, of 0] by (auto simp: ports2bitmap_def)

subsection \<open>What a run does to the power of the ports\<close>

text \<open>
  A bus whose hubs do as they are asked: \<open>pw d k p\<close> says whether port \<open>p\<close> of the device \<open>k\<close> has
  power.  The status of a port has the power bit of its hub set exactly if the port has power; the
  requests for the feature PORT_POWER and a successful write to the file disable of the port set
  its power; everything else leaves all power as it is.
\<close>

type_synonym 'd power_view = "'d \<Rightarrow> nat \<Rightarrow> nat \<Rightarrow> bool"

definition with_power :: "nat \<Rightarrow> nat \<Rightarrow> bool \<Rightarrow> (nat \<Rightarrow> nat \<Rightarrow> bool) \<Rightarrow> nat \<Rightarrow> nat \<Rightarrow> bool" where
  "with_power k p b f = (\<lambda>k' p'. if k' = k \<and> p' = p then b else f k' p')"

definition hub_obeys :: "'d hub_bus \<Rightarrow> 'd power_view \<Rightarrow> hub_info \<Rightarrow> nat \<Rightarrow> bool" where
  "hub_obeys U pw h k \<longleftrightarrow>
     (\<forall>d. fst (hb_open U k d) = 0 \<and> pw (snd (hb_open U k d)) = pw d) \<and>
     (\<forall>d. pw (snd (snd (hb_config U k d))) = pw d) \<and>
     (\<forall>d p. case hb_control U k PORT_IN LIBUSB_REQUEST_GET_STATUS 0 (of_nat p) 4 d of (rc, ust, d') \<Rightarrow>
        1 \<le> p \<and> p \<le> hi_nports h \<longrightarrow> rc = 4 \<and> length ust = 4 \<and> pw d' = pw d \<and>
        ((scast (rd16 (take 2 ust)) :: u32) AND power_mask h \<noteq> 0 \<longleftrightarrow> pw d k p)) \<and>
     (\<forall>d p on. 1 \<le> p \<and> p \<le> hi_nports h \<longrightarrow>
        pw (snd (snd (hb_control U k PORT_OUT (if on then LIBUSB_REQUEST_SET_FEATURE else LIBUSB_REQUEST_CLEAR_FEATURE)
             USB_PORT_FEAT_POWER (of_nat p) 0 d))) = with_power k p on (pw d)) \<and>
     (\<forall>d p on configuration.
        (case hb_write U (disable_path (hi_location h) configuration p) (if on then ''0'' else ''1'') d of
           (Some rc, d') \<Rightarrow> pw d' = (if rc < 0 then pw d else with_power k p on (pw d))
         | (None, d') \<Rightarrow> pw d' = pw d))"

definition obeys :: "'d hub_bus \<Rightarrow> 'd power_view \<Rightarrow> hub_info list \<Rightarrow> bool" where
  "obeys U pw hubs \<longleftrightarrow> (\<forall>ms d. pw (hb_sleep U ms d) = pw d) \<and>
     (\<forall>h\<in>set hubs. \<forall>k. hi_dev h = Some k \<longrightarrow> hub_obeys U pw h k)"

lemma get_status:
  assumes "hub_obeys U pw h k" and "1 \<le> p" and "p \<le> hi_nports h"
  obtains s d' where "get_port_status U k p d = Inr (s, d')" and "pw d' = pw d"
    and "s AND power_mask h \<noteq> 0 \<longleftrightarrow> pw d k p"
proof -
  obtain rc ust d' where c: "hb_control U k PORT_IN LIBUSB_REQUEST_GET_STATUS 0 (of_nat p) 4 d = (rc, ust, d')"
    by (metis surj_pair)
  have "rc = 4 \<and> length ust = 4 \<and> pw d' = pw d \<and>
      ((scast (rd16 (take 2 ust)) :: u32) AND power_mask h \<noteq> 0 \<longleftrightarrow> pw d k p)"
    using assms(1) [unfolded hub_obeys_def, THEN conjunct2, THEN conjunct2, THEN conjunct1, rule_format, of p d] assms(2,3)
    by (simp add: c)
  then show thesis using that by (simp add: get_port_status_def c)
qed

lemma power_requests_pw:
  assumes "hub_obeys U pw h k" and "\<And>ms d. pw (hb_sleep U ms d) = pw d" and "1 \<le> p" and "p \<le> hi_nports h"
  shows "pw (snd (power_requests n U o1 k p on rc d)) = (if n = 0 then pw d else with_power k p on (pw d))"
proof (induction n arbitrary: rc d)
  case (Suc n)
  obtain rc' xs d' where c: "hb_control U k PORT_OUT (if on then LIBUSB_REQUEST_SET_FEATURE else LIBUSB_REQUEST_CLEAR_FEATURE)
      USB_PORT_FEAT_POWER (of_nat p) 0 d = (rc', xs, d')" by (metis surj_pair)
  have p: "1 \<le> p \<and> p \<le> hi_nports h" using assms(3,4) by simp
  have "pw d' = with_power k p on (pw d)"
    using assms(1) [unfolded hub_obeys_def, THEN conjunct2, THEN conjunct2, THEN conjunct2, THEN conjunct1, rule_format, OF p, of on d]
    unfolding c by simp
  then show ?case
    unfolding power_requests.simps c prod.case Suc.IH
    by (auto simp: assms(2) with_power_def fun_eq_iff)
qed simp

lemma set_port_status_pw:
  assumes "hub_obeys U pw h k" and "\<And>ms d. pw (hb_sleep U ms d) = pw d" and "1 \<le> p" and "p \<le> hi_nports h"
    and "1 \<le> opt_repeat o1"
  shows "pw (snd (set_port_status U o1 k h p on d)) = with_power k p on (pw d)"
proof -
  have r: "(if on then 1 else nat (opt_repeat o1)) \<noteq> 0" using assms(5) by auto
  have lib: "pw (snd (set_port_status_libusb U o1 k p on d)) = with_power k p on (pw d)" for d
    unfolding set_port_status_libusb_def power_requests_pw [OF assms(1-4)] using r by simp
  obtain rc cfg d1 where c: "hb_config U k d = (rc, cfg, d1)" by (metis surj_pair)
  have d1: "pw d1 = pw d"
    using assms(1) [unfolded hub_obeys_def, THEN conjunct2, THEN conjunct1, rule_format, of d] by (simp add: c)
  obtain w d2 where w: "hb_write U (disable_path (hi_location h) cfg p) (if on then ''0'' else ''1'') d1 = (w, d2)"
    by (metis surj_pair)
  have d2: "case w of Some rc \<Rightarrow> pw d2 = (if rc < 0 then pw d1 else with_power k p on (pw d1)) | None \<Rightarrow> pw d2 = pw d1"
    using assms(1) [unfolded hub_obeys_def, THEN conjunct2, THEN conjunct2, THEN conjunct2, THEN conjunct2, rule_format, where configuration = cfg and p = p and on = on and d = d1]
    unfolding w prod.case by (cases w) simp_all
  show ?thesis
    using d1 d2 lib by (auto simp: set_port_status_def set_port_status_linux_def c w split: option.splits)
qed

text \<open>Showing the ports needs the devices to be as libusb enumerates them, and changes no power.\<close>

lemma find_attached_ok:
  assumes "list_all dev_ok us" and "hub_ok h"
  shows "\<exists>ds'. find_attached o1 h p k us ds = Inr ds'"
  using assms(1)
proof (induction us arbitrary: k ds)
  case (Cons u us)
  obtain a where a: "attached h u = Inr a" using attached_ok Cons.prems assms(2) by auto
  obtain rc ds1 where d: "get_device_description (opt_nodesc o1) k u ds = Inr (rc, ds1)"
    using description_ok [of u "opt_nodesc o1" k ds] Cons.prems by auto
  show ?case using Cons by (auto simp: a d)
qed simp

lemma show_ports_pw:
  assumes "hub_obeys U pw h k" and "list_all dev_ok (hb_devs U)" and "hub_ok h"
    and "\<forall>p\<in>set ps. 1 \<le> p \<and> p \<le> hi_nports h \<and> p \<le> 30"
  shows "\<exists>l d'. show_ports U o1 k h shown ps d = Inr (l, d') \<and> pw d' = pw d"
  using assms(4)
proof (induction ps arbitrary: d)
  case (Cons p ps)
  have p: "1 \<le> p" "p \<le> hi_nports h" using Cons.prems by simp_all
  obtain s d1 where s: "get_port_status U k p d = Inr (s, d1)" "pw d1 = pw d"
    using get_status [OF assms(1) p] by metis
  obtain ds where ds: "find_attached o1 h p 0 (hb_devs U) ds_zero = Inr ds"
    using find_attached_ok [OF assms(2,3)] by blast
  obtain l d2 where r: "show_ports U o1 k h shown ps d1 = Inr (l, d2)" "pw d2 = pw d1"
    using Cons by (metis list.set_intros(2))
  obtain l3 d3 where q: "show_ports U o1 k h shown ps d = Inr (l3, d3)" "pw d3 = pw d"
    using Cons by (metis list.set_intros(2))
  have b: "port_bit p = Inr (push_bit (p - 1) 1)" using Cons.prems by (simp add: port_bit_def)
  show ?case using s r q by (auto simp: b ds)
qed simp

lemma print_port_status_pw:
  assumes "hub_obeys U pw h k" and "hi_dev h = Some k" and "list_all dev_ok (hb_devs U)" and "hub_ok h"
    and "hi_nports h \<le> 30"
  shows "\<exists>l d'. print_port_status U o1 h shown d = Inr (l, d') \<and> pw d' = pw d"
proof -
  obtain rc d1 where o: "hb_open U k d = (rc, d1)" by (cases "hb_open U k d")
  have "rc = 0" "pw d1 = pw d" using assms(1) unfolding hub_obeys_def by (metis fst_conv o, metis o snd_conv)
  moreover have "\<forall>p\<in>set [1..<Suc (hi_nports h)]. 1 \<le> p \<and> p \<le> hi_nports h \<and> p \<le> 30" using assms(5) by auto
  note show_ports_pw [OF assms(1,3,4) this, of o1 shown d1]
  ultimately show ?thesis using assms(2) by (simp add: print_port_status_def o)
qed

definition new_power :: "hub_opts \<Rightarrow> bool \<Rightarrow> bool \<Rightarrow> bool" where
  "new_power o1 on old = (if opt_action o1 = POWER_TOGGLE then \<not> old else on)"

lemma push_bit_and: "2 ^ n AND w = 0 \<longleftrightarrow> \<not> bit w n" for w :: u32
  using and_exp_eq_0_iff_not_bit [of w n] by (simp add: and.commute)

lemma switch_ports_pw:
  assumes "hub_obeys U pw h k" and "\<And>ms d. pw (hb_sleep U ms d) = pw d" and "1 \<le> opt_repeat o1"
    and "distinct ps" and "\<forall>p\<in>set ps. 1 \<le> p \<and> p \<le> hi_nports h \<and> p \<le> 30"
    and "opt_action o1 \<noteq> POWER_TOGGLE \<Longrightarrow> should = on"
  shows "\<exists>b d'. switch_ports U o1 k h m ps should d = Inr (b, d') \<and>
    pw d' = (\<lambda>k' p. if k' = k \<and> p \<in> set ps \<and> bit m (p - 1) then new_power o1 on (pw d k p) else pw d k' p)"
  using assms(4-6)
proof (induction ps arbitrary: d should)
  case (Cons p ps)
  have p: "1 \<le> p" "p \<le> hi_nports h" "p \<le> 30" and ps: "distinct ps" "p \<notin> set ps"
    "\<forall>p\<in>set ps. 1 \<le> p \<and> p \<le> hi_nports h \<and> p \<le> 30" using Cons.prems(1,2) by auto
  have b: "port_bit p = Inr (push_bit (p - 1) 1)" using p by (simp add: port_bit_def)
  show ?case
  proof (cases "bit m (p - 1)")
    case False
    obtain q d2 where r: "switch_ports U o1 k h m ps should d = Inr (q, d2)"
      "pw d2 = (\<lambda>k' p. if k' = k \<and> p \<in> set ps \<and> bit m (p - 1) then new_power o1 on (pw d k p) else pw d k' p)"
      using Cons.IH [OF ps(1,3) Cons.prems(3), of d] by blast
    have "switch_ports U o1 k h m (p # ps) should d = Inr (q, d2)"
      using False r(1) by (simp add: b push_bit_and)
    moreover have "pw d2 = (\<lambda>k' p'. if k' = k \<and> p' \<in> set (p # ps) \<and> bit m (p' - 1)
        then new_power o1 on (pw d k p') else pw d k' p')"
      using False unfolding r(2) by (auto simp: fun_eq_iff)
    ultimately show ?thesis by blast
  next
    case True
    obtain s d1 where s: "get_port_status U k p d = Inr (s, d1)" "pw d1 = pw d"
      "s AND power_mask h \<noteq> 0 \<longleftrightarrow> pw d k p"
      using get_status [OF assms(1) p(1,2)] by metis
    have m: "push_bit (p - 1) 1 AND m \<noteq> 0" using True by (simp add: push_bit_and)
    define want where "want = (if opt_action o1 = POWER_TOGGLE then \<not> pw d k p else should)"
    have want: "want = new_power o1 on (pw d k p)" using Cons.prems(3) by (simp add: want_def new_power_def)
    define d2 where "d2 = (if pw d k p \<noteq> want then snd (set_port_status U o1 k h p want d1) else d1)"
    have d2: "pw d2 = with_power k p want (pw d)"
      using set_port_status_pw [OF assms(1,2) p(1,2) assms(3), of want d1] s(2)
      by (auto simp: d2_def with_power_def fun_eq_iff)
    have "opt_action o1 \<noteq> POWER_TOGGLE \<Longrightarrow> want = on" using Cons.prems(3) by (simp add: want_def)
    then obtain q d3 where r: "switch_ports U o1 k h m ps want d2 = Inr (q, d3)"
      "pw d3 = (\<lambda>k' p. if k' = k \<and> p \<in> set ps \<and> bit m (p - 1) then new_power o1 on (pw d2 k p) else pw d2 k' p)"
      using Cons.IH [OF ps(1,3), of want d2] by blast
    have "switch_ports U o1 k h m (p # ps) should d = Inr (q, d3)"
      unfolding switch_ports.simps b rbind_Inr if_not_P [OF m] s(1) prod.case Let_def s(3)
        want_def [symmetric] d2_def [symmetric] by (rule r(1))
    moreover have "pw d3 = (\<lambda>k' p'. if k' = k \<and> p' \<in> set (p # ps) \<and> bit m (p' - 1)
        then new_power o1 on (pw d k p') else pw d k' p')"
      using ps(2) True unfolding r(2) d2 want by (auto simp: with_power_def fun_eq_iff)
    ultimately show ?thesis by blast
  qed
qed simp

text \<open>The ports that a run works on.\<close>

definition chosen :: "u32 \<Rightarrow> hub_info list \<Rightarrow> nat \<Rightarrow> nat \<Rightarrow> bool" where
  "chosen ports hubs k p \<longleftrightarrow> 1 \<le> p \<and> bit ports (p - 1) \<and>
     (\<exists>h\<in>set hubs. hi_actionable h \<noteq> 0 \<and> hi_dev h = Some k \<and> p \<le> hi_nports h)"

definition runnable :: "hub_info \<Rightarrow> bool" where
  "runnable h \<longleftrightarrow> hub_ok h \<and> hi_dev h \<noteq> None \<and> hi_nports h \<le> 30"

lemma bit_all_ports: "all_ports n = Inr m \<Longrightarrow> bit (m AND w) i \<longleftrightarrow> i < n \<and> bit w i"
  by (auto simp: all_ports_def bit_simps simp flip: mask_eq_exp_minus_1 dest: bit_imp_le_length split: if_splits)

lemma hub_phase_pw:
  assumes "\<And>k. hi_dev h = Some k \<Longrightarrow> hub_obeys U pw h k" and "\<And>ms d. pw (hb_sleep U ms d) = pw d"
    and "1 \<le> opt_repeat o1" and "list_all dev_ok (hb_devs U)" and "runnable h"
    and "opt_action o1 \<noteq> POWER_KEEP" and "\<not> opt_reset o1"
  shows "\<exists>d'. hub_phase U o1 on h d = Inr d' \<and>
    pw d' = (\<lambda>k p. if chosen (opt_ports o1) [h] k p then new_power o1 on (pw d k p) else pw d k p)"
proof (cases "hi_actionable h = 0")
  case True
  then show ?thesis by (simp add: hub_phase_def chosen_def)
next
  case False
  obtain k where k: "hi_dev h = Some k" using assms(5) by (auto simp: runnable_def)
  have h: "hub_obeys U pw h k" "hub_ok h" "hi_nports h \<le> 30" using assms(1,5) k by (simp_all add: runnable_def)
  note show_keeps = print_port_status_pw [OF h(1) k assms(4) h(2,3), of o1 "opt_ports o1"]
  obtain l1 d1 where s1: "print_port_status U o1 h (opt_ports o1) d = Inr (l1, d1)" "pw d1 = pw d"
    using show_keeps by blast
  obtain rc d2 where o: "hb_open U k d1 = (rc, d2)" by (cases "hb_open U k d1")
  have o1: "rc = 0" "pw d2 = pw d1" using h(1) unfolding hub_obeys_def by (metis fst_conv o, metis o snd_conv)
  obtain m where m: "all_ports (hi_nports h) = Inr m" using h(3) by (simp add: all_ports_def)
  have r: "\<forall>p\<in>set [1..<Suc (hi_nports h)]. 1 \<le> p \<and> p \<le> hi_nports h \<and> p \<le> 30" using h(3) by auto
  obtain b d3 where w: "switch_ports U o1 k h (m AND opt_ports o1) [1..<Suc (hi_nports h)] on d2 = Inr (b, d3)"
    "pw d3 = (\<lambda>k' p. if k' = k \<and> p \<in> set [1..<Suc (hi_nports h)] \<and> bit (m AND opt_ports o1) (p - 1)
       then new_power o1 on (pw d2 k p) else pw d2 k' p)"
    using switch_ports_pw [OF h(1) assms(2,3) distinct_upt r, where should = on and on = on and m = "m AND opt_ports o1" and d = d2]
    by blast
  define d4 where "d4 = (if \<not> on \<and> hi_super h then hb_sleep U 150 d3 else d3)"
  obtain l5 d5 where s5: "print_port_status U o1 h (opt_ports o1) d4 = Inr (l5, d5)" "pw d5 = pw d4"
    using show_keeps by blast
  have no: "(hi_actionable h = 0) = False" "(opt_action o1 = POWER_KEEP) = False" "(rc \<noteq> 0) = False"
    "(on \<and> opt_reset o1) = False" using False assms(6,7) o1(1) by simp_all
  have "hub_phase U o1 on h d = Inr d5"
    by (simp only: hub_phase_def no if_False s1(1) rbind_Inr prod.case k option.case o m w(1) Let_def s5(1)
      flip: d4_def)
  moreover have "pw d4 = pw d3" by (simp add: d4_def assms(2))
  then have "pw d5 = (\<lambda>k p. if chosen (opt_ports o1) [h] k p then new_power o1 on (pw d k p) else pw d k p)"
    using False by (auto simp: s5(2) w(2) o1(2) s1(2) chosen_def k bit_all_ports [OF m] fun_eq_iff)
  ultimately show ?thesis by blast
qed

lemma hubs_phase_pw:
  assumes "obeys U pw hubs" and "1 \<le> opt_repeat o1" and "list_all dev_ok (hb_devs U)" and "list_all runnable hubs"
    and "opt_action o1 \<noteq> POWER_KEEP" and "\<not> opt_reset o1" and "distinct (map hi_dev hubs)"
  shows "\<exists>d'. hubs_phase U o1 on hubs d = Inr d' \<and>
    pw d' = (\<lambda>k p. if chosen (opt_ports o1) hubs k p then new_power o1 on (pw d k p) else pw d k p)"
  using assms(1,4,7)
proof (induction hubs arbitrary: d)
  case Nil
  then show ?case by (simp add: chosen_def)
next
  case (Cons h hs)
  have s: "pw (hb_sleep U ms d) = pw d" for ms d using Cons.prems(1) by (simp add: obeys_def)
  have c: "hi_dev h = Some k \<Longrightarrow> hub_obeys U pw h k" for k using Cons.prems(1) by (simp add: obeys_def)
  obtain d1 where d1: "hub_phase U o1 on h d = Inr d1"
    "pw d1 = (\<lambda>k p. if chosen (opt_ports o1) [h] k p then new_power o1 on (pw d k p) else pw d k p)"
    using hub_phase_pw [OF c s assms(2,3) _ assms(5,6), where d = d and on = on] Cons.prems(2) by auto
  have "obeys U pw hs" using Cons.prems(1) by (simp add: obeys_def)
  then obtain d2 where d2: "hubs_phase U o1 on hs d1 = Inr d2"
    "pw d2 = (\<lambda>k p. if chosen (opt_ports o1) hs k p then new_power o1 on (pw d1 k p) else pw d1 k p)"
    using Cons.IH [of d1] Cons.prems(2,3) by auto
  have "\<not> (chosen (opt_ports o1) [h] k p \<and> chosen (opt_ports o1) hs k p)" for k p
    using Cons.prems(3) by (auto simp: chosen_def) (metis image_eqI)
  moreover have "chosen (opt_ports o1) (h # hs) k p \<longleftrightarrow> chosen (opt_ports o1) [h] k p \<or> chosen (opt_ports o1) hs k p" for k p
    by (auto simp: chosen_def)
  ultimately have "pw d2 = (\<lambda>k p. if chosen (opt_ports o1) (h # hs) k p then new_power o1 on (pw d k p) else pw d k p)"
    unfolding d2(2) d1(2) by (auto simp: fun_eq_iff)
  then show ?case using d1(1) d2(1) by simp
qed

lemma found_runnable:
  assumes "usb_find_hubs o1 devs = Inr (rc, ports, hubs)" and "list_all dev_ok devs"
    and "\<forall>h\<in>set hubs. hi_nports h \<le> 30"
  shows "list_all runnable hubs \<and> distinct (map hi_dev hubs)"
proof -
  obtain hubs0 where h0: "list_all (hub_from o1) hubs0" "distinct (map hi_dev hubs0)" "paired hubs0 hubs"
    using find_hubs_from [OF assms(1,2)] by metis
  have len: "length hubs = length hubs0" using h0(3) by (simp add: paired_def)
  have nth: "hi_dev (hubs ! j) = hi_dev (hubs0 ! j) \<and> hub_ok (hubs ! j) \<and> hi_dev (hubs ! j) \<noteq> None"
    if j: "j < length hubs0" for j
  proof -
    obtain n where "hubs ! j = (hubs0 ! j)\<lparr>hi_actionable := n\<rparr>" using paired_nth [OF h0(3) j] by metis
    then show ?thesis using h0(1) j by (simp add: list_all_length hub_from_def)
  qed
  then have "map hi_dev hubs = map hi_dev hubs0" using len by (simp add: list_eq_iff_nth_eq)
  moreover have "list_all runnable hubs"
    using nth len assms(3) unfolding list_all_length runnable_def by (metis nth_mem)
  ultimately show ?thesis using h0(2) by simp
qed

definition wanted :: "int \<Rightarrow> bool \<Rightarrow> bool" where
  "wanted action old = (if action = POWER_TOGGLE then \<not> old else action \<noteq> POWER_OFF)"

text \<open>
  C27. On a bus that does as it is asked, a run with one hub to work on ends with exit code 0; the
  power of exactly the ports of the command line on the actionable hubs is then what the action
  asks for (off, on, on after a cycle, the opposite), and all other power is as it was.
\<close>
theorem power_switched:
  assumes "hub_options atof_ms args hub_defaults = Inr o0" and "0 \<le> hb_init U" and "0 \<le> hb_list U"
    and "usb_find_hubs o0 (hb_devs U) = Inr (1, ports, hubs)" and "list_all dev_ok (hb_devs U)"
    and "\<forall>h\<in>set hubs. hi_nports h \<le> 30" and "obeys U pw hubs"
    and "opt_action o0 \<in> {POWER_OFF, POWER_ON, POWER_CYCLE, POWER_TOGGLE}"
    and "1 \<le> opt_repeat o0" and "\<not> opt_reset o0"
  shows "\<exists>d'. uhubctl_main U atof_ms args [] d = Inr (0, d') \<and>
    pw d' = (\<lambda>k p. if chosen ports hubs k p then wanted (opt_action o0) (pw d k p) else pw d k p)"
proof -
  define o1 where "o1 = o0\<lparr>opt_ports := ports\<rparr>"
  have o1: "opt_action o1 = opt_action o0" "1 \<le> opt_repeat o1" "\<not> opt_reset o1" "opt_ports o1 = ports"
    "opt_action o1 \<noteq> POWER_KEEP" using assms(8-10) by (auto simp: o1_def power_actions)
  have r: "list_all runnable hubs" "distinct (map hi_dev hubs)" using found_runnable [OF assms(4-6)] by simp_all
  have s: "pw (hb_sleep U ms d) = pw d" for ms d using assms(7) by (simp add: obeys_def)
  note phase = hubs_phase_pw [OF assms(7) o1(2) assms(5) r(1) o1(5,3) r(2), unfolded o1(4)]
  have one: "phys_count (opt_exact o0) hubs = 1"
    using find_hubs_from [OF assms(4,5)] by (metis of_nat_eq_1_iff zero_less_one_class.zero_le_one)
  have main: "uhubctl_main U atof_ms args [] d = rbind (phase_off U o1 hubs d) (\<lambda>d. rbind (phase_on U o1 hubs d) (\<lambda>d. Inr (0, d)))"
    using assms(1-4) one by (simp add: uhubctl_main_def o1_def Let_def)
  obtain d1 where d1: "hubs_phase U o1 False hubs d = Inr d1"
    "pw d1 = (\<lambda>k p. if chosen ports hubs k p then new_power o1 False (pw d k p) else pw d k p)"
    using phase by blast
  obtain d2 where d2: "hubs_phase U o1 True hubs d = Inr d2"
    "pw d2 = (\<lambda>k p. if chosen ports hubs k p then new_power o1 True (pw d k p) else pw d k p)"
    using phase by blast
  obtain d3 where d3: "hubs_phase U o1 True hubs (hb_sleep U (opt_delay o1) d1) = Inr d3"
    "pw d3 = (\<lambda>k p. if chosen ports hubs k p then new_power o1 True (pw (hb_sleep U (opt_delay o1) d1) k p)
       else pw (hb_sleep U (opt_delay o1) d1) k p)"
    using phase by blast
  consider "opt_action o0 = POWER_ON" | "opt_action o0 = POWER_CYCLE" | "opt_action o0 = POWER_OFF \<or> opt_action o0 = POWER_TOGGLE"
    using assms(8) by auto
  then show ?thesis
  proof cases
    case 1
    then show ?thesis
      using d2 by (auto simp: main phase_off_def phase_on_def o1(1) wanted_def power_actions new_power_def fun_eq_iff)
  next
    case 2
    then show ?thesis
      using d1 d3 by (auto simp: main phase_off_def phase_on_def o1(1) wanted_def power_actions s new_power_def fun_eq_iff)
  next
    case 3
    then show ?thesis
      using d1 by (auto simp: main phase_off_def phase_on_def o1(1) wanted_def power_actions new_power_def fun_eq_iff)
  qed
qed

subsection \<open>A bus\<close>

text \<open>A USB 2 hub with four ports, and a device without a description at its second port.\<close>

definition demo_hub_dev :: hub_dev where
  "demo_hub_dev = \<lparr>hd_desc = True, hd_class = 9, hd_bcd = 0x0200, hd_vid = 0x05e3, hd_pid = 0x0608, hd_open = 0,
     hd_hub = (\<lambda>_. (9, [9, 0x29, 4, 1, 0, 50, 0, 0, 255, 0, 0, 0])), hd_bus = 1, hd_count = 1,
     hd_path = [3, 0, 0, 0, 0, 0, 0, 0], hd_port = 3, hd_bos = None, hd_manufacturer = 0, hd_product = 0,
     hd_serial = 0, hd_string = (\<lambda>_. (- 1, []))\<rparr>"

definition demo_drive :: hub_dev where
  "demo_drive = demo_hub_dev\<lparr>hd_class := 8, hd_count := 2, hd_path := [3, 2, 0, 0, 0, 0, 0, 0], hd_port := 2\<rparr>"

definition demo_ports :: "(nat \<Rightarrow> bool) hub_bus" where
  "demo_ports = \<lparr>hb_init = 0, hb_list = 2, hb_devs = [demo_hub_dev, demo_drive], hb_open = (\<lambda>k d. (0, d)),
     hb_control = (\<lambda>k rt req val port n d.
       if rt = PORT_IN then (4, [0, if d (unat port) then 1 else 0, 0, 0], d)
       else (0, [], d(unat port := (req = LIBUSB_REQUEST_SET_FEATURE)))),
     hb_config = (\<lambda>k d. (0, 1, d)), hb_write = (\<lambda>path text d. (None, d)), hb_reset = (\<lambda>k d. (0, d)),
     hb_sleep = (\<lambda>ms d. d)\<rparr>"

definition demo_power :: "(nat \<Rightarrow> bool) \<Rightarrow> nat \<Rightarrow> nat \<Rightarrow> bool" where
  "demo_power d k p \<longleftrightarrow> k = 0 \<and> d p"

definition demo_args :: "(char \<times> string) list" where
  "demo_args = [(CHR ''a'', ''toggle''), (CHR ''p'', ''1-2'')]"

definition demo_hub :: hub_info where
  "demo_hub = \<lparr>hi_dev = Some 0, hi_bcd = 0x0200, hi_super = False, hi_nports = 4, hi_lpsm = 1, hi_actionable = 1,
     hi_container = [], hi_vendor = ''05e3:0608'', hi_location = ''1-3'', hi_bus = 1,
     hi_path = [3, 0, 0, 0, 0, 0, 0, 0], hi_len = 1,
     hi_ds = ds_zero\<lparr>ds_description := ''05e3:0608, USB 2.00, 4 ports, ppps''\<rparr>\<rparr>"

lemma demo_hub_options:
  "hub_options (\<lambda>_. 0) demo_args hub_defaults = Inr (hub_defaults\<lparr>opt_action := POWER_TOGGLE, opt_ports := 3\<rparr>)"
  by code_simp

lemma demo_hub_fields:
  "hd_desc demo_hub_dev" "hd_class demo_hub_dev = LIBUSB_CLASS_HUB" "hd_bcd demo_hub_dev = 0x0200" "hd_open demo_hub_dev = 0"
  "hd_hub demo_hub_dev v = (9, [9, 0x29, 4, 1, 0, 50, 0, 0, 255, 0, 0, 0])" "hd_bus demo_hub_dev = 1" "hd_count demo_hub_dev = 1"
  "hd_path demo_hub_dev = [3, 0, 0, 0, 0, 0, 0, 0]" "hd_bos demo_hub_dev = None" "hd_vid demo_hub_dev = 0x05e3"
  "hd_pid demo_hub_dev = 0x0608" "hd_manufacturer demo_hub_dev = 0" "hd_product demo_hub_dev = 0" "hd_serial demo_hub_dev = 0"
  "hd_desc demo_drive" "hd_class demo_drive \<noteq> LIBUSB_CLASS_HUB"
  by (simp_all add: demo_hub_dev_def demo_drive_def LIBUSB_CLASS_HUB_def)

lemma demo_texts:
  "hex4 0x05e3 = ''05e3''" "hex4 0x0608 = ''0608''" "location_text 1 [3] = ''1-3''" "lpsm_of 1 4 v = 1"
  "hub_specific (demo_hub\<lparr>hi_actionable := n, hi_ds := ds_zero\<rparr>) = '', USB 2.00, 4 ports, ppps''"
proof -
  have x: "hexdig 0 = CHR ''0''" "hexdig 2 = CHR ''2''" "hexdig 3 = CHR ''3''" "hexdig 5 = CHR ''5''"
    "hexdig 6 = CHR ''6''" "hexdig 8 = CHR ''8''" "hexdig 14 = CHR ''e''" by code_simp+
  have d: "dec_text 1 = ''1''" "dec_text 3 = ''3''" by code_simp+
  show "hex4 0x05e3 = ''05e3''" "hex4 0x0608 = ''0608''" using x by (simp_all add: hex4_def)
  show "location_text 1 [3] = ''1-3''" using d by (simp add: location_text_def)
  show "lpsm_of 1 4 v = 1" by (simp add: lpsm_of_def lpsm_modes)
  have t: "hex_text 2 = ''2''" "dec_text 4 = ''4''" by code_simp+
  have "hex2 (ucast (0x0200 :: u16)) = ''00''" using x by (simp add: hex2_def)
  with t show "hub_specific (demo_hub\<lparr>hi_actionable := n, hi_ds := ds_zero\<rparr>) = '', USB 2.00, 4 ports, ppps''"
    by (simp add: hub_specific_def demo_hub_def lpsm_modes)
qed

lemma demo_info: "get_hub_info 0 demo_hub_dev info_zero = Inr (0, demo_hub\<lparr>hi_actionable := 0, hi_ds := ds_zero\<rparr>)"
  by (simp add: get_hub_info_def demo_hub_fields hub_location_def demo_texts container_of_def hub_vendor_def Let_def
      demo_hub_def info_zero_def USB_SS_BCD_def)

lemma demo_description: "get_device_description False 0 demo_hub_dev ds_zero = Inr (0, hi_ds demo_hub)"
proof -
  have "hi_dev (demo_hub\<lparr>hi_actionable := 0, hi_ds := ds_zero\<rparr>) \<noteq> None" by (simp add: demo_hub_def)
  moreover have "hi_ds demo_hub = ds_zero\<lparr>ds_description := ''05e3:0608, USB 2.00, 4 ports, ppps''\<rparr>"
    by (simp add: demo_hub_def)
  ultimately show ?thesis
    using demo_texts(5) [of 0]
    by (simp add: get_device_description_def demo_info demo_hub_fields demo_texts(1-4) read_strings_def rtrim_def spaced_def
        hub_vendor_def Let_def ds_zero_def)
qed

lemma demo_hub_found:
  "usb_find_hubs (hub_defaults\<lparr>opt_action := POWER_TOGGLE, opt_ports := 3\<rparr>) [demo_hub_dev, demo_drive] = Inr (1, 3, [demo_hub])"
proof -
  have o: "opt_nodesc hub_defaults = False" "opt_search hub_defaults = []" "opt_exact hub_defaults = False"
    "meets_limits (hub_defaults\<lparr>opt_action := POWER_TOGGLE, opt_ports := 3\<rparr>) h" for h
    by (simp_all add: hub_defaults_def meets_limits_def)
  have h: "demo_hub\<lparr>hi_actionable := Suc 0, hi_ds := hi_ds demo_hub\<rparr> = demo_hub" "hi_lpsm demo_hub = HUB_CHAR_INDV_PORT_LPSM"
    "hi_container demo_hub = []" "hi_actionable demo_hub = 1" "\<not> hi_super demo_hub"
    by (simp_all add: demo_hub_def lpsm_modes)
  show ?thesis
    by (simp add: usb_find_hubs_def demo_hub_fields demo_info demo_description Let_def o h MAX_HUBS_def mark_dual_def phys_count_def)
qed

lemma demo_obeys: "obeys demo_ports demo_power [demo_hub]"
proof -
  have u: "p \<le> 4 \<Longrightarrow> unat (of_nat p :: u16) = p" for p by (simp add: unat_of_nat)
  have st: "(scast (rd16 [0, 1]) :: u32) AND USB_PORT_STAT_POWER \<noteq> 0" "(scast (rd16 [0, 0]) :: u32) AND USB_PORT_STAT_POWER = 0"
    by code_simp+
  have m: "power_mask demo_hub = USB_PORT_STAT_POWER" by (simp add: power_mask_def demo_hub_def)
  have out: "PORT_OUT \<noteq> PORT_IN" "LIBUSB_REQUEST_CLEAR_FEATURE \<noteq> LIBUSB_REQUEST_SET_FEATURE" by (simp_all add: hub_requests)
  have n: "hi_nports demo_hub = 4" "hi_dev demo_hub = Some 0" by (simp_all add: demo_hub_def)
  have status: "case hb_control demo_ports 0 PORT_IN LIBUSB_REQUEST_GET_STATUS 0 (of_nat p) 4 d of (rc, ust, d') \<Rightarrow>
      1 \<le> p \<and> p \<le> 4 \<longrightarrow> rc = 4 \<and> length ust = 4 \<and> demo_power d' = demo_power d \<and>
      ((scast (rd16 (take 2 ust)) :: u32) AND USB_PORT_STAT_POWER \<noteq> 0 \<longleftrightarrow> demo_power d 0 p)" for p d
    using st by (cases "d p") (simp_all add: demo_ports_def demo_power_def u)
  have switch: "demo_power (snd (snd (hb_control demo_ports 0 PORT_OUT
      (if on then LIBUSB_REQUEST_SET_FEATURE else LIBUSB_REQUEST_CLEAR_FEATURE) USB_PORT_FEAT_POWER (of_nat p) 0 d)))
      = with_power 0 p on (demo_power d)" if "p \<le> 4" for p on d
    using that out by (simp add: demo_ports_def demo_power_def with_power_def u fun_eq_iff)
  show ?thesis
    unfolding obeys_def
  proof (intro conjI allI ballI impI)
    fix h k assume "h \<in> set [demo_hub]" and k: "hi_dev h = Some k"
    then have h: "h = demo_hub" and k: "k = 0" using n(2) by simp_all
    show "hub_obeys demo_ports demo_power h k"
      unfolding hub_obeys_def h k n(1) m
      using status switch by (intro conjI allI impI; (elim conjE)?; (assumption | simp add: demo_ports_def))
  qed (simp add: demo_ports_def)
qed

lemma demo_hub_dev_ok: "dev_ok demo_hub_dev" "dev_ok demo_drive"
  by (simp_all add: dev_ok_def demo_hub_dev_def demo_drive_def MAX_HUB_CHAIN_def)

theorem power_switched_witness:
  "\<exists>d'. uhubctl_main demo_ports (\<lambda>_. 0) demo_args [] (\<lambda>p. p = 2 \<or> p = 3) = Inr (0, d') \<and>
     demo_power d' 0 1 \<and> \<not> demo_power d' 0 2 \<and> demo_power d' 0 3 \<and> \<not> demo_power d' 0 4"
proof -
  have devs: "hb_devs demo_ports = [demo_hub_dev, demo_drive]" by (simp add: demo_ports_def)
  have b: "bit (3 :: u32) 0" "bit (3 :: u32) 1" "\<not> bit (3 :: u32) 2" "\<not> bit (3 :: u32) 3" by (simp_all add: bit_numeral_simps)
  have "\<exists>d'. uhubctl_main demo_ports (\<lambda>_. 0) demo_args [] (\<lambda>p. p = 2 \<or> p = 3) = Inr (0, d') \<and>
      demo_power d' = (\<lambda>k p. if chosen 3 [demo_hub] k p
        then wanted POWER_TOGGLE (demo_power (\<lambda>p. p = 2 \<or> p = 3) k p) else demo_power (\<lambda>p. p = 2 \<or> p = 3) k p)"
  proof -
    have f: "opt_action (hub_defaults\<lparr>opt_action := POWER_TOGGLE, opt_ports := 3\<rparr>) = POWER_TOGGLE"
      "1 \<le> opt_repeat (hub_defaults\<lparr>opt_action := POWER_TOGGLE, opt_ports := 3\<rparr>)"
      "\<not> opt_reset (hub_defaults\<lparr>opt_action := POWER_TOGGLE, opt_ports := 3\<rparr>)"
      by (simp_all add: hub_defaults_def)
    have c: "0 \<le> hb_init demo_ports" "0 \<le> hb_list demo_ports" "list_all dev_ok (hb_devs demo_ports)"
      "\<forall>h\<in>set [demo_hub]. hi_nports h \<le> 30"
      by (simp_all add: devs demo_hub_dev_ok) (simp_all add: demo_ports_def demo_hub_def)
    show ?thesis
      using power_switched [OF demo_hub_options c(1,2) demo_hub_found [folded devs] c(3,4) demo_obeys _ f(2,3), unfolded f(1),
          of "\<lambda>p. p = 2 \<or> p = 3"] by simp
  qed
  then obtain d' where d': "uhubctl_main demo_ports (\<lambda>_. 0) demo_args [] (\<lambda>p. p = 2 \<or> p = 3) = Inr (0, d')"
    "demo_power d' = (\<lambda>k p. if chosen 3 [demo_hub] k p
      then wanted POWER_TOGGLE (demo_power (\<lambda>p. p = 2 \<or> p = 3) k p) else demo_power (\<lambda>p. p = 2 \<or> p = 3) k p)" by blast
  have "chosen 3 [demo_hub] 0 1" "chosen 3 [demo_hub] 0 2" "\<not> chosen 3 [demo_hub] 0 3" "\<not> chosen 3 [demo_hub] 0 4"
    using b by (simp_all add: chosen_def demo_hub_def)
  then have "demo_power d' 0 1 \<and> \<not> demo_power d' 0 2 \<and> demo_power d' 0 3 \<and> \<not> demo_power d' 0 4"
    unfolding d'(2) by (simp add: wanted_def) (simp add: demo_power_def)
  then show ?thesis using d'(1) by blast
qed

theorem port_list_read_witness:
  "\<exists>m. ports2bitmap (ports_text [(1, 3), (5, 5), (11, 14)]) = Inr m \<and> bit m 4 \<and> \<not> bit m 3"
proof -
  obtain m where m: "ports2bitmap (ports_text [(1, 3), (5, 5), (11, 14)]) = Inr m"
    "\<forall>p. 1 \<le> p \<longrightarrow> (bit m (p - 1) \<longleftrightarrow> (\<exists>(a, b)\<in>set [(1, 3), (5, 5), (11, 14)]. a \<le> p \<and> p \<le> b))"
    using port_list_read [of "[(1, 3), (5, 5), (11, 14)]"] by (auto simp: range_ok_def MAX_HUB_PORTS_def)
  have "bit m (5 - 1)" "\<not> bit m (4 - 1)" using m(2) [rule_format, of 5] m(2) [rule_format, of 4] by simp_all
  then show ?thesis using m(1) by auto
qed

theorem location_fits_witness:
  "hub_location demo_drive = Inr (location_text 1 [3, 2]) \<and> length (location_text 1 [3, 2]) + 1 \<le> 32"
  using location_fits [OF demo_hub_dev_ok(2)] by (simp add: demo_drive_def demo_hub_dev_def)

theorem actionable_hubs_witness: "hi_lpsm demo_hub = HUB_CHAR_INDV_PORT_LPSM"
  using actionable_hubs [OF demo_hub_found, of demo_hub] demo_hub_dev_ok by (simp add: demo_hub_def hub_defaults_def lpsm_modes)

theorem too_many_hubs_overflow_witness: "usb_find_hubs hub_defaults (replicate 129 demo_hub_dev) = Inl (Undef OobWrite)"
proof (rule too_many_hubs_overflow)
  have "get_hub_info 0 demo_hub_dev info_zero = Inr (0, demo_hub\<lparr>hi_actionable := 0, hi_ds := ds_zero\<rparr>)" by (rule demo_info)
  moreover have "hi_lpsm (demo_hub\<lparr>hi_actionable := 0, hi_ds := ds_zero\<rparr>) = HUB_CHAR_INDV_PORT_LPSM"
    by (simp add: demo_hub_def lpsm_modes)
  ultimately show "list_all (\<lambda>u. hd_desc u \<and> hd_class u = LIBUSB_CLASS_HUB \<and> dev_ok u \<and>
      (\<exists>rc info. get_hub_info 0 u info_zero = Inr (0, info) \<and> hi_lpsm info = HUB_CHAR_INDV_PORT_LPSM)) (replicate 129 demo_hub_dev)"
    using demo_hub_dev_ok(1) demo_hub_fields(1,2) by (auto simp: list_all_iff)
qed (simp_all add: MAX_HUBS_def hub_defaults_def)

text \<open>A USB 3 hub on the neighbouring bus, in the same container and at the same place.\<close>

definition demo_usb2 :: hub_info where
  "demo_usb2 = demo_hub\<lparr>hi_container := ''5cf3''\<rparr>"

definition demo_usb3 :: hub_info where
  "demo_usb3 = demo_usb2\<lparr>hi_super := True, hi_bcd := 0x0300, hi_bus := 2, hi_dev := Some 1, hi_actionable := 0\<rparr>"

theorem dual_is_best_witness: "dual_of [demo_usb2, demo_usb3] 0 = Inr 1"
proof -
  have ok: "list_all hub_ok [demo_usb2, demo_usb3]"
    by (simp add: hub_ok_def demo_usb2_def demo_usb3_def demo_hub_def MAX_HUB_CHAIN_def)
  have r: "dual_rank demo_usb2 demo_usb3 = 5"
    by (simp add: dual_rank_def may_be_dual_def next_bus_def super_num_def path_of_def demo_usb2_def demo_usb3_def demo_hub_def)
  have one: "k < 2 \<and> k \<noteq> 0 \<longleftrightarrow> k = (1 :: nat)" for k by auto
  show ?thesis using dual_is_best [OF ok, of 0] r by (auto simp: less_2_cases_iff)
qed

end
