(* ===== verification/UsbDesc.thy ===== *)
theory UsbDesc
  imports HubInfo
begin

text \<open>
  libusb (external/libusb/libusb/descriptor.c): the parsers of the descriptors that a device
  sends.  A pointer into the buffer is the list of the bytes from there to the end of the memory
  block, beside the int \<open>size\<close> that the code keeps; a read behind the block is \<open>Inl OobRead\<close>.
  Fields are written to the structs at their offsets on a machine with little-endian numbers.
  malloc is the parameter \<open>alloc\<close>: whether a request of so many bytes succeeds.
\<close>

definition LIBUSB_DT_DEVICE :: byte where "LIBUSB_DT_DEVICE = 1"
definition LIBUSB_DT_CONFIG :: byte where "LIBUSB_DT_CONFIG = 2"
definition LIBUSB_DT_INTERFACE :: byte where "LIBUSB_DT_INTERFACE = 4"
definition LIBUSB_DT_ENDPOINT :: byte where "LIBUSB_DT_ENDPOINT = 5"
definition LIBUSB_ERROR_IO :: int where "LIBUSB_ERROR_IO = - 1"
definition LIBUSB_ERROR_NO_MEM :: int where "LIBUSB_ERROR_NO_MEM = - 11"
definition USB_MAXENDPOINTS :: nat where "USB_MAXENDPOINTS = 32"
definition USB_MAXINTERFACES :: nat where "USB_MAXINTERFACES = 32"

lemmas desc_types = LIBUSB_DT_DEVICE_def LIBUSB_DT_CONFIG_def LIBUSB_DT_INTERFACE_def LIBUSB_DT_ENDPOINT_def
lemmas desc_errors = LIBUSB_ERROR_IO_def LIBUSB_ERROR_NO_MEM_def

record libusb_endpoint_descriptor =
  ep_bLength :: byte
  ep_bDescriptorType :: byte
  ep_bEndpointAddress :: byte
  ep_bmAttributes :: byte
  ep_wMaxPacketSize :: u16
  ep_bInterval :: byte
  ep_bRefresh :: byte
  ep_bSynchAddress :: byte
  ep_extra :: "byte list"                     \<comment> \<open>extra and extra_length; NULL is the empty list\<close>

record libusb_interface_descriptor =
  if_bLength :: byte
  if_bDescriptorType :: byte
  if_bInterfaceNumber :: byte
  if_bAlternateSetting :: byte
  if_bNumEndpoints :: byte
  if_bInterfaceClass :: byte
  if_bInterfaceSubClass :: byte
  if_bInterfaceProtocol :: byte
  if_iInterface :: byte
  if_endpoint :: "libusb_endpoint_descriptor list option"  \<comment> \<open>the array, or NULL\<close>
  if_extra :: "byte list"

type_synonym libusb_interface = "libusb_interface_descriptor list"   \<comment> \<open>altsetting\<close>

record libusb_config_descriptor =
  cf_bLength :: byte
  cf_bDescriptorType :: byte
  cf_wTotalLength :: u16
  cf_bNumInterfaces :: byte
  cf_bConfigurationValue :: byte
  cf_iConfiguration :: byte
  cf_bmAttributes :: byte
  cf_MaxPower :: byte
  cf_interface :: "libusb_interface list"
  cf_extra :: "byte list"

subsection \<open>Fields\<close>

text \<open>One field: from the source to offset \<open>dp\<close> of the struct, then the rest of the format.\<close>

primrec parse_descriptor :: "string \<Rightarrow> byte list \<Rightarrow> nat \<Rightarrow> byte list \<Rightarrow> fault + byte list" where
  "parse_descriptor [] sp dp dest = Inr dest"
| "parse_descriptor (field_type # descriptor) sp dp dest =
     (if field_type = CHR ''b'' then
        rbind (mread 0 1 sp) (\<lambda>v. rbind (mwrite dp v dest) (parse_descriptor descriptor (drop 1 sp) (dp + 1)))
      else if field_type = CHR ''w'' then
        (let dp = dp + dp mod 2 in
         rbind (mread 0 2 sp) (\<lambda>v. rbind (mwrite dp (le16 (rd16 v)) dest) (parse_descriptor descriptor (drop 2 sp) (dp + 2))))
      else if field_type = CHR ''d'' then
        (let dp = dp + (4 - dp mod 4) in
         rbind (mread 0 4 sp) (\<lambda>v. rbind (mwrite dp (le32 (rd32 v)) dest) (parse_descriptor descriptor (drop 4 sp) (dp + 4))))
      else if field_type = CHR ''u'' then
        rbind (mread 0 16 sp) (\<lambda>v. rbind (mwrite dp v dest) (parse_descriptor descriptor (drop 16 sp) (dp + 16)))
      else parse_descriptor descriptor sp dp dest)"

declare parse_descriptor.simps [simp del]

text \<open>The structs, from the bytes of their fields.\<close>

definition endpoint_at :: "byte list \<Rightarrow> libusb_endpoint_descriptor" where
  "endpoint_at d = \<lparr>ep_bLength = d ! 0, ep_bDescriptorType = d ! 1, ep_bEndpointAddress = d ! 2, ep_bmAttributes = d ! 3,
     ep_wMaxPacketSize = rd16 [d ! 4, d ! 5], ep_bInterval = d ! 6, ep_bRefresh = d ! 7, ep_bSynchAddress = d ! 8,
     ep_extra = []\<rparr>"

definition alt_at :: "byte list \<Rightarrow> libusb_interface_descriptor" where
  "alt_at d = \<lparr>if_bLength = d ! 0, if_bDescriptorType = d ! 1, if_bInterfaceNumber = d ! 2, if_bAlternateSetting = d ! 3,
     if_bNumEndpoints = d ! 4, if_bInterfaceClass = d ! 5, if_bInterfaceSubClass = d ! 6, if_bInterfaceProtocol = d ! 7,
     if_iInterface = d ! 8, if_endpoint = None, if_extra = []\<rparr>"

definition config_at :: "byte list \<Rightarrow> libusb_config_descriptor" where
  "config_at d = \<lparr>cf_bLength = d ! 0, cf_bDescriptorType = d ! 1, cf_wTotalLength = rd16 [d ! 2, d ! 3],
     cf_bNumInterfaces = d ! 4, cf_bConfigurationValue = d ! 5, cf_iConfiguration = d ! 6, cf_bmAttributes = d ! 7,
     cf_MaxPower = d ! 8, cf_interface = [], cf_extra = []\<rparr>"

subsection \<open>The loop that skips class and vendor descriptors\<close>

datatype skip_end =
    SkipInvalid      \<comment> \<open>a length below that of the header\<close>
  | SkipShort        \<comment> \<open>a descriptor longer than what is left\<close>
  | SkipDone

definition proper :: "byte \<Rightarrow> bool" where
  "proper ty \<longleftrightarrow> ty = LIBUSB_DT_ENDPOINT \<or> ty = LIBUSB_DT_INTERFACE \<or> ty = LIBUSB_DT_CONFIG \<or> ty = LIBUSB_DT_DEVICE"

lemma rbind_cong [fundef_cong]:
  "m = m' \<Longrightarrow> (\<And>a. m' = Inr a \<Longrightarrow> k a = k' a) \<Longrightarrow> rbind m k = rbind m' k'"
  by (cases m') auto

text \<open>How it ends, and how many bytes it skipped.\<close>

lemma len_ge_2: "\<not> unat b < 2 \<Longrightarrow> 2 \<le> uint b" for b :: byte
  using of_nat_unat [of b, where ?'a = int] by linarith

function skip_descs :: "byte list \<Rightarrow> int \<Rightarrow> fault + skip_end \<times> nat" where
  "skip_descs buffer sz =
     (if sz < 2 then Inr (SkipDone, 0)
      else
        rbind (mread 0 2 buffer) (\<lambda>header.
        let len = unat (header ! 0) in
        if len < 2 then Inr (SkipInvalid, 0)
        else if int len > sz then Inr (SkipShort, 0)
        else if proper (header ! 1) then Inr (SkipDone, 0)
        else rbind (skip_descs (drop len buffer) (sz - int len)) (\<lambda>(e, n). Inr (e, len + n))))"
  by pat_completeness auto
termination
  by (relation "measure (\<lambda>(buffer, sz). nat sz)") (auto dest!: len_ge_2)

declare skip_descs.simps [simp del]

subsection \<open>parse_endpoint\<close>

definition ep_zero :: libusb_endpoint_descriptor where
  "ep_zero = endpoint_at (replicate 9 0)"

text \<open>The result, and the element of the array, which calloc has cleared.\<close>

definition parse_endpoint :: "(nat \<Rightarrow> bool) \<Rightarrow> byte list \<Rightarrow> int \<Rightarrow> fault + int \<times> libusb_endpoint_descriptor" where
  "parse_endpoint alloc buffer sz =
     (if sz < 2 then Inr (LIBUSB_ERROR_IO, ep_zero)
      else
        rbind (mread 0 2 buffer) (\<lambda>header.
        let len = unat (header ! 0) in
        if header ! 1 \<noteq> LIBUSB_DT_ENDPOINT then Inr (0, ep_zero)
        else if len < 7 then Inr (LIBUSB_ERROR_IO, ep_zero)
        else if int len > sz then Inr (0, ep_zero)
        else
          rbind (parse_descriptor (if len \<ge> 9 then ''bbbbwbbb'' else ''bbbbwb'') buffer 0 (replicate 9 0)) (\<lambda>d.
          let endpoint = endpoint_at d; rest = drop len buffer in
          rbind (skip_descs rest (sz - int len)) (\<lambda>(e, n).
          case e of SkipInvalid \<Rightarrow> Inr (LIBUSB_ERROR_IO, endpoint)
          | SkipShort \<Rightarrow> Inr (int (len + n), endpoint)
          | SkipDone \<Rightarrow>
              if n = 0 then Inr (int len, endpoint)
              else if \<not> alloc n then Inr (LIBUSB_ERROR_NO_MEM, endpoint)
              else rbind (mread 0 n rest) (\<lambda>extra. Inr (int (len + n), endpoint\<lparr>ep_extra := extra\<rparr>))))))"

text \<open>
  The loop over the endpoints of an interface: a negative result, or 0; the elements that were
  parsed; the bytes they took.  It ends before an endpoint of which nothing was parsed.
\<close>

primrec parse_endpoints ::
  "(nat \<Rightarrow> bool) \<Rightarrow> nat \<Rightarrow> byte list \<Rightarrow> int \<Rightarrow> fault + int \<times> libusb_endpoint_descriptor list \<times> nat" where
  "parse_endpoints alloc 0 buffer sz = Inr (0, [], 0)"
| "parse_endpoints alloc (Suc i) buffer sz =
     rbind (parse_endpoint alloc buffer sz) (\<lambda>(r, endpoint).
     if r < 0 then Inr (r, [], 0)
     else if r = 0 then Inr (0, [], 0)
     else
       rbind (parse_endpoints alloc i (drop (nat r) buffer) (sz - r)) (\<lambda>(q, endpoints, n).
       Inr (q, endpoint # endpoints, nat r + n)))"

subsection \<open>parse_interface\<close>

text \<open>sizeof on a 64-bit machine.\<close>

definition SIZEOF_ENDPOINT :: nat where "SIZEOF_ENDPOINT = 32"
definition SIZEOF_ALTSETTING :: nat where "SIZEOF_ALTSETTING = 40"
definition SIZEOF_INTERFACE :: nat where "SIZEOF_INTERFACE = 16"
definition SIZEOF_CONFIG :: nat where "SIZEOF_CONFIG = 40"

datatype alt_end =
    AltErr int                                           \<comment> \<open>goto err\<close>
  | AltReturn nat "libusb_interface_descriptor option"   \<comment> \<open>return, with the bytes parsed by this turn\<close>
  | AltNext nat libusb_interface_descriptor              \<comment> \<open>the end of the turn is reached\<close>

text \<open>One turn of the loop, behind realloc and up to the look at the next descriptor.\<close>

definition parse_alt :: "(nat \<Rightarrow> bool) \<Rightarrow> byte list \<Rightarrow> int \<Rightarrow> fault + alt_end" where
  "parse_alt alloc buffer sz =
     rbind (parse_descriptor ''bbbbbbbbb'' buffer 0 (replicate 9 0)) (\<lambda>d.
     let ifp = alt_at d; len = unat (if_bLength ifp); num = unat (if_bNumEndpoints ifp) in
     if if_bDescriptorType ifp \<noteq> LIBUSB_DT_INTERFACE then Inr (AltReturn 0 None)
     else if len < 9 then Inr (AltErr LIBUSB_ERROR_IO)
     else if int len > sz then Inr (AltReturn 0 None)
     else if num > USB_MAXENDPOINTS then Inr (AltErr LIBUSB_ERROR_IO)
     else
       rbind (skip_descs (drop len buffer) (sz - int len)) (\<lambda>(e, n).
       case e of SkipInvalid \<Rightarrow> Inr (AltErr LIBUSB_ERROR_IO)
       | SkipShort \<Rightarrow> Inr (AltReturn (len + n) (Some ifp))
       | SkipDone \<Rightarrow>
           if n > 0 \<and> \<not> alloc n then Inr (AltErr LIBUSB_ERROR_NO_MEM)
           else
             rbind (mread 0 n (drop len buffer)) (\<lambda>extra.
             let ifp = ifp\<lparr>if_extra := extra\<rparr> in
             if num = 0 then Inr (AltNext (len + n) ifp)
             else if \<not> alloc (num * SIZEOF_ENDPOINT) then Inr (AltErr LIBUSB_ERROR_NO_MEM)
             else
               rbind (parse_endpoints alloc num (drop (len + n) buffer) (sz - int (len + n))) (\<lambda>(r, endpoints, m).
               if r < 0 then Inr (AltErr r)
               else
                 Inr (AltNext (len + n + m)
                   (ifp\<lparr>if_endpoint := Some (endpoints @ replicate (num - length endpoints) ep_zero),
                        if_bNumEndpoints := of_nat (length endpoints)\<rparr>))))))"

lemma parse_alt_next: "parse_alt alloc buffer sz = Inr (AltNext n ifp) \<Longrightarrow> 9 \<le> n"
  by (auto simp: parse_alt_def rbind_eq_Inr Let_def split: if_splits skip_end.splits)

text \<open>
  The loop.  After an error the alternate settings have been freed; \<open>interface_number\<close> is that of
  the first one, and - 1 before.
\<close>

function parse_alts ::
  "(nat \<Rightarrow> bool) \<Rightarrow> int \<Rightarrow> libusb_interface \<Rightarrow> byte list \<Rightarrow> int \<Rightarrow> nat \<Rightarrow> fault + int \<times> libusb_interface" where
  "parse_alts alloc interface_number alts buffer sz parsed =
     (if sz < 9 then Inr (int parsed, alts)
      else if \<not> alloc (SIZEOF_ALTSETTING * (length alts + 1)) then Inr (LIBUSB_ERROR_NO_MEM, [])
      else
        rbind (parse_alt alloc buffer sz) (\<lambda>turn.
        case turn of AltErr r \<Rightarrow> Inr (r, [])
        | AltReturn n ifp \<Rightarrow> Inr (int (parsed + n), alts @ (case ifp of None \<Rightarrow> [] | Some a \<Rightarrow> [a]))
        | AltNext n ifp \<Rightarrow>
            let number = (if interface_number = - 1 then int (unat (if_bInterfaceNumber ifp)) else interface_number) in
            if sz - int n < 9 then Inr (int (parsed + n), alts @ [ifp])
            else
              rbind (mread 0 3 (drop n buffer)) (\<lambda>next.
              if next ! 1 \<noteq> LIBUSB_DT_INTERFACE \<or> int (unat (next ! 2)) \<noteq> number
              then Inr (int (parsed + n), alts @ [ifp])
              else parse_alts alloc number (alts @ [ifp]) (drop n buffer) (sz - int n) (parsed + n))))"
  by pat_completeness auto
termination
  by (relation "measure (\<lambda>(alloc, number, alts, buffer, sz, parsed). nat sz)") (auto dest!: parse_alt_next)

declare parse_alts.simps [simp del]

definition parse_interface :: "(nat \<Rightarrow> bool) \<Rightarrow> byte list \<Rightarrow> int \<Rightarrow> fault + int \<times> libusb_interface" where
  "parse_interface alloc buffer sz = parse_alts alloc (- 1) [] buffer sz 0"

subsection \<open>parse_configuration\<close>

text \<open>
  The loop over the interfaces: the result, which is an error or the bytes that are left; the
  extra bytes with those of before; the interfaces, whose number is then bNumInterfaces.
\<close>

primrec parse_interfaces ::
  "(nat \<Rightarrow> bool) \<Rightarrow> nat \<Rightarrow> byte list \<Rightarrow> byte list \<Rightarrow> int \<Rightarrow> fault + int \<times> byte list \<times> libusb_interface list" where
  "parse_interfaces alloc 0 extra buffer sz = Inr (sz, extra, [])"
| "parse_interfaces alloc (Suc i) extra buffer sz =
     rbind (skip_descs buffer sz) (\<lambda>(e, n).
     case e of SkipInvalid \<Rightarrow> Inr (LIBUSB_ERROR_IO, [], [])
     | SkipShort \<Rightarrow> Inr (sz - int n, extra, [])
     | SkipDone \<Rightarrow>
         if n > 0 \<and> \<not> alloc (length extra + n) then Inr (LIBUSB_ERROR_NO_MEM, [], [])
         else
           rbind (mread 0 n buffer) (\<lambda>skipped.
           rbind (parse_interface alloc (drop n buffer) (sz - int n)) (\<lambda>(r, alts).
           if r < 0 then Inr (r, [], [])
           else if r = 0 then Inr (sz - int n, extra @ skipped, [])
           else
             rbind (parse_interfaces alloc i (extra @ skipped) (drop (n + nat r) buffer) (sz - int n - r)) (\<lambda>(q, x, is).
             Inr (q, x, alts # is)))))"

definition parse_configuration :: "(nat \<Rightarrow> bool) \<Rightarrow> byte list \<Rightarrow> int \<Rightarrow> fault + int \<times> libusb_config_descriptor" where
  "parse_configuration alloc buffer sz =
     (let config = config_at (replicate 9 0) in
      if sz < 9 then Inr (LIBUSB_ERROR_IO, config)
      else
        rbind (parse_descriptor ''bbwbbbbb'' buffer 0 (replicate 9 0)) (\<lambda>d.
        let config = config_at d; len = unat (cf_bLength config); num = unat (cf_bNumInterfaces config) in
        if cf_bDescriptorType config \<noteq> LIBUSB_DT_CONFIG then Inr (LIBUSB_ERROR_IO, config)
        else if len < 9 then Inr (LIBUSB_ERROR_IO, config)
        else if int len > sz then Inr (LIBUSB_ERROR_IO, config)
        else if num > USB_MAXINTERFACES then Inr (LIBUSB_ERROR_IO, config)
        else if \<not> alloc (num * SIZEOF_INTERFACE) then Inr (LIBUSB_ERROR_NO_MEM, config)
        else
          rbind (parse_interfaces alloc num [] (drop len buffer) (sz - int len)) (\<lambda>(r, extra, is).
          Inr (r, config\<lparr>cf_bNumInterfaces := of_nat (length is), cf_interface := is, cf_extra := extra\<rparr>))))"

definition raw_desc_to_config :: "(nat \<Rightarrow> bool) \<Rightarrow> byte list \<Rightarrow> int \<Rightarrow> fault + int \<times> libusb_config_descriptor option" where
  "raw_desc_to_config alloc buf sz =
     (if \<not> alloc SIZEOF_CONFIG then Inr (LIBUSB_ERROR_NO_MEM, None)
      else
        rbind (parse_configuration alloc buf sz) (\<lambda>(r, config).
        if r < 0 then Inr (r, None) else Inr (0, Some config)))"

end
