(* ===== verification/UsbTree.thy ===== *)
theory UsbTree
  imports UsbDesc
begin

text \<open>
  libusb: what the configuration parser makes of the bytes of a device.  It never reads outside
  the buffer, whatever the bytes are; its result is well-typed; and it reads back every well-formed
  configuration from the bytes that encode it.
\<close>

subsection \<open>Fields\<close>

lemma le16_rd16: "length bs = 2 \<Longrightarrow> le16 (rd16 bs) = bs"
  using le_val_bound [of bs] le_bytes_le_val [of bs] by (simp add: rd16_def le16_def unat_of_nat)

lemma nine_zeros: "replicate 9 (0 :: byte) = [0, 0, 0, 0, 0, 0, 0, 0, 0]"
  by (simp add: numeral_eq_Suc)

lemma parse_fields:
  "parse_descriptor ''bbbbwb'' (a # b # c # d # e # f # g # xs) 0 (replicate 9 0) = Inr [a, b, c, d, e, f, g, 0, 0]"
  "parse_descriptor ''bbbbwbbb'' (a # b # c # d # e # f # g # h # i # xs) 0 (replicate 9 0) = Inr [a, b, c, d, e, f, g, h, i]"
  "parse_descriptor ''bbbbbbbbb'' (a # b # c # d # e # f # g # h # i # xs) 0 (replicate 9 0) = Inr [a, b, c, d, e, f, g, h, i]"
  "parse_descriptor ''bbwbbbbb'' (a # b # c # d # e # f # g # h # i # xs) 0 (replicate 9 0) = Inr [a, b, c, d, e, f, g, h, i]"
  by (simp_all add: parse_descriptor.simps mread_def mwrite_def le16_rd16 nine_zeros)

lemma nine_bytes:
  assumes "9 \<le> length xs"
  obtains a b c d e f g h i ys where "xs = a # b # c # d # e # f # g # h # i # ys"
  using assms by (auto simp: numeral_eq_Suc Suc_le_length_iff)

lemma seven_bytes:
  assumes "7 \<le> length xs"
  obtains a b c d e f g ys where "xs = a # b # c # d # e # f # g # ys"
  using assms by (auto simp: numeral_eq_Suc Suc_le_length_iff)

subsection \<open>Class and vendor descriptors\<close>

inductive extra_ok :: "byte list \<Rightarrow> bool" where
  extra_nil: "extra_ok []"
| extra_cons: "2 \<le> length d \<Longrightarrow> unat (d ! 0) = length d \<Longrightarrow> \<not> proper (d ! 1) \<Longrightarrow> extra_ok xs \<Longrightarrow> extra_ok (d @ xs)"

text \<open>Where the skipping ends: too few bytes for a header, or a proper descriptor that fits.\<close>

definition starts_proper :: "byte list \<Rightarrow> bool" where
  "starts_proper xs \<longleftrightarrow> length xs < 2 \<or> 2 \<le> unat (xs ! 0) \<and> unat (xs ! 0) \<le> length xs \<and> proper (xs ! 1)"

lemma skip_descs_safe:
  "sz \<le> int (length buffer) \<Longrightarrow>
   \<exists>e n. skip_descs buffer sz = Inr (e, n) \<and> (n = 0 \<or> int n \<le> sz) \<and> extra_ok (take n buffer) \<and>
     (e = SkipDone \<longrightarrow> sz - int n < 2 \<or> int (unat (buffer ! n)) \<le> sz - int n \<and> proper (buffer ! (n + 1)))"
proof (induction buffer sz rule: skip_descs.induct)
  case (1 buffer sz)
  show ?case
  proof (cases "sz < 2")
    case True
    then show ?thesis by (simp add: skip_descs.simps [of buffer sz] extra_nil)
  next
    case False
    then have len: "2 \<le> length buffer" using 1(2) by linarith
    define l where "l = unat (buffer ! 0)"
    have h: "mread 0 2 buffer = Inr (take 2 buffer)" "take 2 buffer ! 0 = buffer ! 0" "take 2 buffer ! 1 = buffer ! 1"
      using len by (simp_all add: mread_def)
    show ?thesis
    proof (cases "l < 2 \<or> int l > sz \<or> proper (buffer ! 1)")
      case True
      then show ?thesis using False h by (auto simp: skip_descs.simps [of buffer sz] extra_nil l_def Let_def)
    next
      case go: False
      then have fits: "sz - int l \<le> int (length (drop l buffer))" "l \<le> length buffer" using 1(2) by auto
      obtain e n where n: "skip_descs (drop l buffer) (sz - int l) = Inr (e, n)" "n = 0 \<or> int n \<le> sz - int l"
        "extra_ok (take n (drop l buffer))"
        "e = SkipDone \<longrightarrow> sz - int l - int n < 2 \<or> int (unat (drop l buffer ! n)) \<le> sz - int l - int n \<and> proper (drop l buffer ! (n + 1))"
        using 1(1) [OF False h(1) refl] go fits(1) unfolding h(2,3) l_def [symmetric] One_nat_def [symmetric] by blast
      have "skip_descs buffer sz = Inr (e, l + n)"
        using False h go n(1) by (simp add: skip_descs.simps [of buffer sz] Let_def flip: l_def)
      moreover have "take (l + n) buffer = take l buffer @ take n (drop l buffer)" by (simp add: take_add)
      moreover have "extra_ok (take l buffer @ take n (drop l buffer))"
        using go fits(2) n(3) by (intro extra_cons) (auto simp: l_def)
      moreover have "int (l + n) \<le> sz" using n(2) go by auto
      ultimately show ?thesis using n(4) fits(2) by (auto simp: algebra_simps)
    qed
  qed
qed

lemma skip_descs_extra:
  assumes "extra_ok xs" and "starts_proper rest"
  shows "skip_descs (xs @ rest) (int (length (xs @ rest))) = Inr (SkipDone, length xs)"
  supply of_nat_unat [simp del]
  using assms(1)
proof induction
  case extra_nil
  then show ?case
    using assms(2) by (cases "length rest < 2") (auto simp: skip_descs.simps [of rest] starts_proper_def mread_def Let_def)
next
  case (extra_cons d xs)
  have h: "mread 0 2 (d @ xs @ rest) = Inr (take 2 d)" "take 2 d ! 0 = d ! 0" "take 2 d ! 1 = d ! 1"
    using extra_cons.hyps(1) by (simp_all add: mread_def)
  show ?case
    using extra_cons h by (simp add: skip_descs.simps [of "d @ xs @ rest"] Let_def)
qed

subsection \<open>Whatever the bytes are\<close>

definition ep_typed :: "libusb_endpoint_descriptor \<Rightarrow> bool" where
  "ep_typed e \<longleftrightarrow> ep_bDescriptorType e = LIBUSB_DT_ENDPOINT \<and> 7 \<le> unat (ep_bLength e) \<and> extra_ok (ep_extra e)"

lemma skip_rest:
  assumes "int l \<le> sz" and "sz \<le> int (length buffer)"
  obtains e n where "skip_descs (drop l buffer) (sz - int l) = Inr (e, n)" and "int (l + n) \<le> sz"
    and "extra_ok (take n (drop l buffer))" and "mread 0 n (drop l buffer) = Inr (take n (drop l buffer))"
proof -
  have s: "sz - int l \<le> int (length (drop l buffer))" using assms by simp
  obtain e n where e: "skip_descs (drop l buffer) (sz - int l) = Inr (e, n)" "n = 0 \<or> int n \<le> sz - int l"
      "extra_ok (take n (drop l buffer))"
    using skip_descs_safe [OF s] by blast
  then have "int (l + n) \<le> sz" using assms(1) by auto
  moreover then have "n \<le> length (drop l buffer)" using assms(2) by auto
  ultimately show thesis using that e(1,3) by (simp add: mread_def)
qed

lemma parse_endpoint_safe:
  assumes "sz \<le> int (length buffer)"
  shows "\<exists>r e. parse_endpoint alloc buffer sz = Inr (r, e) \<and> (r < 0 \<or> r = 0 \<or> 7 \<le> r \<and> r \<le> sz \<and> ep_typed e)"
proof (cases "sz < 2")
  case True
  then show ?thesis by (simp add: parse_endpoint_def desc_errors)
next
  case False
  have h: "mread 0 2 buffer = Inr (take 2 buffer)" "take 2 buffer ! 0 = buffer ! 0" "take 2 buffer ! 1 = buffer ! 1"
    using False assms by (simp_all add: mread_def)
  define l where "l = unat (buffer ! 0)"
  show ?thesis
  proof (cases "buffer ! 1 = LIBUSB_DT_ENDPOINT \<and> 7 \<le> l \<and> int l \<le> sz")
    case bad: False
    then show ?thesis using False h by (auto simp: parse_endpoint_def desc_errors Let_def simp flip: l_def)
  next
    case True
    then have l: "7 \<le> l" "int l \<le> sz" "l \<le> length buffer" using assms by auto
    define fmt where "fmt = (if 9 \<le> l then ''bbbbwbbb'' else ''bbbbwb'')"
    obtain d where d: "parse_descriptor fmt buffer 0 (replicate 9 0) = Inr d" "d ! 0 = buffer ! 0" "d ! 1 = buffer ! 1"
    proof (cases "9 \<le> l")
      case True
      then obtain a b c d e f g h i ys where "buffer = a # b # c # d # e # f # g # h # i # ys"
        using nine_bytes [of buffer] l(3) by (meson order_trans)
      then show thesis using that True by (simp add: fmt_def parse_fields)
    next
      case False
      obtain a b c d e f g ys where "buffer = a # b # c # d # e # f # g # ys"
        using seven_bytes [of buffer] l(1,3) by (meson order_trans)
      then show thesis using that False by (simp add: fmt_def parse_fields)
    qed
    obtain e n where s: "skip_descs (drop l buffer) (sz - int l) = Inr (e, n)" "int (l + n) \<le> sz"
      "extra_ok (take n (drop l buffer))" "mread 0 n (drop l buffer) = Inr (take n (drop l buffer))"
      using skip_rest [OF l(2) assms] by blast
    have t: "ep_typed (endpoint_at d)" "ep_typed ((endpoint_at d)\<lparr>ep_extra := take n (drop l buffer)\<rparr>)"
      using True d s(3) by (simp_all add: ep_typed_def endpoint_at_def l_def extra_nil)
    have p: "parse_endpoint alloc buffer sz =
       (case e of SkipInvalid \<Rightarrow> Inr (LIBUSB_ERROR_IO, endpoint_at d) | SkipShort \<Rightarrow> Inr (int (l + n), endpoint_at d)
        | SkipDone \<Rightarrow> if n = 0 then Inr (int l, endpoint_at d)
            else if \<not> alloc n then Inr (LIBUSB_ERROR_NO_MEM, endpoint_at d)
            else Inr (int (l + n), (endpoint_at d)\<lparr>ep_extra := take n (drop l buffer)\<rparr>))"
      using False True h d(1) s(1,4)
      by (simp add: parse_endpoint_def Let_def flip: l_def fmt_def split: skip_end.split)
    show ?thesis using t s(2) l(1,2) by (cases e) (auto simp: p desc_errors)
  qed
qed

lemma parse_endpoints_safe:
  "sz \<le> int (length buffer) \<Longrightarrow>
   \<exists>r es n. parse_endpoints alloc i buffer sz = Inr (r, es, n) \<and> (r < 0 \<or> r = 0) \<and> length es \<le> i \<and>
     list_all ep_typed es \<and> (n = 0 \<or> int n \<le> sz)"
proof (induction i arbitrary: buffer sz)
  case (Suc i)
  obtain r e where e: "parse_endpoint alloc buffer sz = Inr (r, e)" "r < 0 \<or> r = 0 \<or> 7 \<le> r \<and> r \<le> sz \<and> ep_typed e"
    using parse_endpoint_safe [OF Suc.prems] by blast
  show ?case
  proof (cases "0 < r")
    case True
    then have "sz - r \<le> int (length (drop (nat r) buffer))" using e(2) Suc.prems by auto
    then obtain q es n where "parse_endpoints alloc i (drop (nat r) buffer) (sz - r) = Inr (q, es, n)"
      "q < 0 \<or> q = 0" "length es \<le> i" "list_all ep_typed es" "n = 0 \<or> int n \<le> sz - r"
      using Suc.IH by blast
    then show ?thesis using True e by auto
  next
    case False
    then show ?thesis using e(1) by auto
  qed
qed simp

text \<open>
  An alternate setting: its endpoints are typed as far as there are any; \<open>alt_usable\<close> says that
  the array of endpoints is there when the number of endpoints is not 0.
\<close>

definition alt_typed :: "libusb_interface_descriptor \<Rightarrow> bool" where
  "alt_typed a \<longleftrightarrow> if_bDescriptorType a = LIBUSB_DT_INTERFACE \<and> 9 \<le> unat (if_bLength a) \<and>
     unat (if_bNumEndpoints a) \<le> USB_MAXENDPOINTS \<and> extra_ok (if_extra a) \<and>
     (\<forall>es. if_endpoint a = Some es \<longrightarrow> unat (if_bNumEndpoints a) \<le> length es \<and> list_all ep_typed (take (unat (if_bNumEndpoints a)) es))"

definition alt_usable :: "libusb_interface_descriptor \<Rightarrow> bool" where
  "alt_usable a \<longleftrightarrow> (if_endpoint a = None \<longrightarrow> if_bNumEndpoints a = 0)"

definition interface_typed :: "libusb_interface \<Rightarrow> bool" where
  "interface_typed as \<longleftrightarrow> as \<noteq> [] \<and> list_all alt_typed as \<and> list_all alt_usable (butlast as) \<and>
     (\<forall>a\<in>set as. if_bInterfaceNumber a = if_bInterfaceNumber (hd as))"

definition turn_ok :: "byte \<Rightarrow> int \<Rightarrow> alt_end \<Rightarrow> bool" where
  "turn_ok number sz t \<longleftrightarrow>
     (case t of AltErr r \<Rightarrow> r < 0
      | AltReturn n None \<Rightarrow> n = 0
      | AltReturn n (Some a) \<Rightarrow> 9 \<le> n \<and> int n \<le> sz \<and> alt_typed a \<and> if_bInterfaceNumber a = number
      | AltNext n a \<Rightarrow> 9 \<le> n \<and> int n \<le> sz \<and> alt_typed a \<and> alt_usable a \<and> if_bInterfaceNumber a = number)"

lemma parse_alt_safe:
  assumes "9 \<le> sz" and "sz \<le> int (length buffer)"
  shows "\<exists>t. parse_alt alloc buffer sz = Inr t \<and> turn_ok (buffer ! 2) sz t"
proof -
  have nine: "9 \<le> length buffer" using assms by linarith
  obtain b0 b1 b2 b3 b4 b5 b6 b7 b8 ys where b: "buffer = b0 # b1 # b2 # b3 # b4 # b5 # b6 # b7 # b8 # ys"
    by (rule nine_bytes [OF nine])
  define a where "a = alt_at [b0, b1, b2, b3, b4, b5, b6, b7, b8]"
  have pd: "parse_descriptor ''bbbbbbbbb'' buffer 0 (replicate 9 0) = Inr [b0, b1, b2, b3, b4, b5, b6, b7, b8]"
    unfolding b by (rule parse_fields)
  define l where "l = unat (if_bLength a)"
  define num where "num = unat (if_bNumEndpoints a)"
  show ?thesis
  proof (cases "if_bDescriptorType a = LIBUSB_DT_INTERFACE \<and> 9 \<le> l \<and> int l \<le> sz \<and> num \<le> USB_MAXENDPOINTS")
    case False
    then show ?thesis
      by (auto simp: parse_alt_def pd turn_ok_def desc_errors Let_def simp flip: a_def l_def num_def)
  next
    case True
    then have l: "9 \<le> l" "int l \<le> sz" and num: "num \<le> 32" by (auto simp: USB_MAXENDPOINTS_def)
    obtain e n where s: "skip_descs (drop l buffer) (sz - int l) = Inr (e, n)" "int (l + n) \<le> sz"
      "extra_ok (take n (drop l buffer))" "mread 0 n (drop l buffer) = Inr (take n (drop l buffer))"
      using skip_rest [OF l(2) assms(2)] by blast
    have a: "alt_typed a" "if_bInterfaceNumber a = buffer ! 2" "if_endpoint a = None"
      using True by (simp_all add: alt_typed_def l_def num_def a_def alt_at_def extra_nil b)
    define a1 where "a1 = a\<lparr>if_extra := take n (drop l buffer)\<rparr>"
    have a1: "alt_typed a1" "if_bInterfaceNumber a1 = buffer ! 2" "if_endpoint a1 = None" "if_bNumEndpoints a1 = if_bNumEndpoints a"
      using a s(3) by (simp_all add: a1_def alt_typed_def)
    have "sz - int (l + n) \<le> int (length (drop (l + n) buffer))" using assms(2) s(2) by auto
    then obtain r es m where es: "parse_endpoints alloc num (drop (l + n) buffer) (sz - int (l + n)) = Inr (r, es, m)"
      "r < 0 \<or> r = 0" "length es \<le> num" "list_all ep_typed es" "m = 0 \<or> int m \<le> sz - int (l + n)"
      using parse_endpoints_safe by blast
    define a2 where "a2 = a1\<lparr>if_endpoint := Some (es @ replicate (num - length es) ep_zero), if_bNumEndpoints := of_nat (length es)\<rparr>"
    have small: "length es < 256" using es(3) num by simp
    have a2: "alt_typed a2" "alt_usable a2" "if_bInterfaceNumber a2 = buffer ! 2"
      using a1(1,2) es(3,4) num small
      by (simp_all add: a2_def alt_typed_def alt_usable_def unat_of_nat USB_MAXENDPOINTS_def)
    have p: "parse_alt alloc buffer sz =
      (case e of SkipInvalid \<Rightarrow> Inr (AltErr LIBUSB_ERROR_IO) | SkipShort \<Rightarrow> Inr (AltReturn (l + n) (Some a))
       | SkipDone \<Rightarrow> if n > 0 \<and> \<not> alloc n then Inr (AltErr LIBUSB_ERROR_NO_MEM)
           else if num = 0 then Inr (AltNext (l + n) a1)
           else if \<not> alloc (num * SIZEOF_ENDPOINT) then Inr (AltErr LIBUSB_ERROR_NO_MEM)
           else if r < 0 then Inr (AltErr r) else Inr (AltNext (l + n + m) a2))"
      unfolding parse_alt_def pd rbind_Inr Let_def a_def [symmetric] l_def [symmetric] num_def [symmetric] s(1,4) prod.case
        a1_def [symmetric] es(1) a2_def [symmetric]
      using True by (auto split: skip_end.split)
    have u: "num = 0 \<Longrightarrow> alt_usable a1" using a1(3,4) by (simp add: alt_usable_def num_def unat_0_iff)
    show ?thesis
      using l(1) s(2) es(2,5) a a1 a2 u
      by (cases e) (auto simp: p turn_ok_def desc_errors)
  qed
qed

text \<open>The loop over the alternate settings: what holds of those so far.\<close>

definition alts_ok :: "int \<Rightarrow> libusb_interface \<Rightarrow> byte list \<Rightarrow> bool" where
  "alts_ok number alts buffer \<longleftrightarrow>
     (if alts = [] then number = - 1
      else interface_typed alts \<and> alt_usable (last alts) \<and> number = int (unat (if_bInterfaceNumber (hd alts))) \<and>
           if_bInterfaceNumber (hd alts) = buffer ! 2)"

lemma interface_typed_snoc:
  assumes "alts = [] \<or> interface_typed alts \<and> alt_usable (last alts) \<and> if_bInterfaceNumber (hd alts) = if_bInterfaceNumber a"
    and "alt_typed a"
  shows "interface_typed (alts @ [a])"
proof (cases "alts = []")
  case False
  have "list_all alt_usable alts"
    by (subst append_butlast_last_id [OF False, symmetric], unfold list_all_append) (use False assms(1) in \<open>simp add: interface_typed_def\<close>)
  then show ?thesis using False assms by (auto simp: interface_typed_def)
qed (use assms(2) in \<open>simp add: interface_typed_def\<close>)

lemma parse_alts_safe:
  "sz \<le> int (length buffer) \<Longrightarrow> alts_ok number alts buffer \<Longrightarrow> (alts = [] \<longleftrightarrow> parsed = 0) \<Longrightarrow>
   \<exists>r as. parse_alts alloc number alts buffer sz parsed = Inr (r, as) \<and>
     (r < 0 \<or> int parsed \<le> r \<and> r \<le> int parsed + max 0 sz \<and> (r = 0 \<or> interface_typed as))"
proof (induction alloc number alts buffer sz parsed rule: parse_alts.induct)
  case (1 alloc number alts buffer sz parsed)
  have typed: "parsed = 0 \<or> interface_typed alts" using 1(3,4) by (auto simp: alts_ok_def)
  show ?case
  proof (cases "sz < 9 \<or> \<not> alloc (SIZEOF_ALTSETTING * (length alts + 1))")
    case True
    then show ?thesis using typed by (auto simp: parse_alts.simps [of alloc number alts buffer sz parsed] desc_errors)
  next
    case False
    then have nine: "9 \<le> sz" "\<not> sz < 9" and mem: "\<not> \<not> alloc (SIZEOF_ALTSETTING * (length alts + 1))" by simp_all
    obtain t where t: "parse_alt alloc buffer sz = Inr t" "turn_ok (buffer ! 2) sz t"
      using parse_alt_safe [OF nine(1) 1(2)] by blast
    note step = parse_alts.simps [of alloc number alts buffer sz parsed]
    have snoc: "interface_typed (alts @ [a])" if "alt_typed a" "if_bInterfaceNumber a = buffer ! 2" for a
      using 1(3) that by (intro interface_typed_snoc) (auto simp: alts_ok_def)
    show ?thesis
    proof (cases t)
      case (AltErr r)
      then show ?thesis using nine mem t by (simp add: step turn_ok_def)
    next
      case (AltReturn n x)
      show ?thesis
      proof (cases x)
        case None
        then show ?thesis using AltReturn nine mem t typed by (auto simp: step turn_ok_def)
      next
        case (Some a)
        then show ?thesis using AltReturn nine mem t snoc by (auto simp: step turn_ok_def)
      qed
    next
      case (AltNext n a)
      then have a: "9 \<le> n" "int n \<le> sz" "alt_typed a" "alt_usable a" "if_bInterfaceNumber a = buffer ! 2"
        using t(2) by (simp_all add: turn_ok_def)
      have tas: "interface_typed (alts @ [a])" using snoc a(3,5) by blast
      define num where "num = (if number = - 1 then int (unat (if_bInterfaceNumber a)) else number)"
      have num: "num = int (unat (if_bInterfaceNumber (hd (alts @ [a]))))" "if_bInterfaceNumber (hd (alts @ [a])) = if_bInterfaceNumber a"
        using 1(3) a(5) by (auto simp: num_def alts_ok_def split: if_splits)
      show ?thesis
      proof (cases "sz - int n < 9")
        case True
        then show ?thesis using AltNext nine mem t(1) a(2) tas by (auto simp: step Let_def)
      next
        case more: False
        define nxt where "nxt = take 3 (drop n buffer)"
        have room: "n + 9 \<le> length buffer" using more 1(2) by linarith
        then have r3: "mread 0 3 (drop n buffer) = Inr nxt" by (simp add: mread_def nxt_def)
        show ?thesis
        proof (cases "nxt ! 1 \<noteq> LIBUSB_DT_INTERFACE \<or> int (unat (nxt ! 2)) \<noteq> num")
          case True
          have "parse_alts alloc number alts buffer sz parsed = Inr (int (parsed + n), alts @ [a])"
            unfolding step t(1) rbind_Inr AltNext alt_end.case Let_def if_not_P [OF nine(2)] if_not_P [OF mem]
              if_not_P [OF more] r3 num_def [symmetric] by (rule if_P [OF True])
          then show ?thesis using a(2) tas by auto
        next
          case False
          have e: "parse_alts alloc number alts buffer sz parsed =
              parse_alts alloc num (alts @ [a]) (drop n buffer) (sz - int n) (parsed + n)"
            unfolding step t(1) rbind_Inr AltNext alt_end.case Let_def if_not_P [OF nine(2)] if_not_P [OF mem]
              if_not_P [OF more] r3 num_def [symmetric] by (rule if_not_P [OF False])
          have s2: "sz - int n \<le> int (length (drop n buffer))" using 1(2) room by auto
          have "int (unat (drop n buffer ! 2)) = num" using False by (simp add: nxt_def)
          then have "drop n buffer ! 2 = if_bInterfaceNumber a" using num by (simp add: word_uint_eq_iff)
          then have ok: "alts_ok num (alts @ [a]) (drop n buffer)" using tas a(4) num by (simp add: alts_ok_def)
          have z: "(alts @ [a] = []) = (parsed + n = 0)" using a(1) by simp
          have "\<exists>r as. parse_alts alloc num (alts @ [a]) (drop n buffer) (sz - int n) (parsed + n) = Inr (r, as) \<and>
              (r < 0 \<or> int (parsed + n) \<le> r \<and> r \<le> int (parsed + n) + max 0 (sz - int n) \<and> (r = 0 \<or> interface_typed as))"
            using 1(1) [OF nine(2) mem t(1) AltNext num_def more r3 False s2 ok z] .
          then show ?thesis unfolding e using more by auto
        qed
      qed
    qed
  qed
qed

lemma parse_interface_safe:
  assumes "sz \<le> int (length buffer)"
  shows "\<exists>r as. parse_interface alloc buffer sz = Inr (r, as) \<and> (r < 0 \<or> 0 \<le> r \<and> r \<le> max 0 sz \<and> (r = 0 \<or> interface_typed as))"
  using parse_alts_safe [OF assms, of "- 1" "[]" 0 alloc] by (simp add: parse_interface_def alts_ok_def)

lemma extra_ok_append: "extra_ok xs \<Longrightarrow> extra_ok ys \<Longrightarrow> extra_ok (xs @ ys)"
  by (induction rule: extra_ok.induct) (auto intro: extra_cons)

lemma parse_interfaces_safe:
  "sz \<le> int (length buffer) \<Longrightarrow> extra_ok extra \<Longrightarrow>
   \<exists>r x ifs. parse_interfaces alloc i extra buffer sz = Inr (r, x, ifs) \<and>
     (0 \<le> sz \<longrightarrow> r < 0 \<or> length ifs \<le> i \<and> extra_ok x \<and> list_all interface_typed ifs)"
proof (induction i arbitrary: buffer sz extra)
  case (Suc i)
  obtain e n where s: "skip_descs buffer sz = Inr (e, n)" "n = 0 \<or> int n \<le> sz" "extra_ok (take n buffer)"
    using skip_descs_safe [OF Suc.prems(1)] by blast
  have n: "n \<le> length buffer" using s(2) Suc.prems(1) by auto
  have sz: "sz - int n \<le> int (length (drop n buffer))" using Suc.prems(1) n by simp
  have x: "extra_ok (extra @ take n buffer)" using Suc.prems(2) s(3) by (rule extra_ok_append)
  obtain r as where p: "parse_interface alloc (drop n buffer) (sz - int n) = Inr (r, as)"
    "r < 0 \<or> 0 \<le> r \<and> r \<le> max 0 (sz - int n) \<and> (r = 0 \<or> interface_typed as)"
    using parse_interface_safe [OF sz] by blast
  show ?case
  proof (cases "e = SkipDone \<and> \<not> (n > 0 \<and> \<not> alloc (length extra + n)) \<and> 0 < r")
    case False
    then show ?thesis
      using s(1) n p x Suc.prems(2) by (cases e) (auto simp: mread_def desc_errors)
  next
    case True
    then have r: "r \<le> sz - int n" "interface_typed as" using p(2) by auto
    have "int (nat r) = r" using True by simp
    then have "n + nat r \<le> length buffer" "int (n + nat r) = int n + r" using r(1) Suc.prems(1) by linarith+
    then have sz2: "sz - int n - r \<le> int (length (drop (n + nat r) buffer))" using Suc.prems(1) by (simp add: of_nat_diff)
    obtain q y ifs where q: "parse_interfaces alloc i (extra @ take n buffer) (drop (n + nat r) buffer) (sz - int n - r) = Inr (q, y, ifs)"
      "0 \<le> sz - int n - r \<longrightarrow> q < 0 \<or> length ifs \<le> i \<and> extra_ok y \<and> list_all interface_typed ifs"
      using Suc.IH [OF sz2 x] by blast
    then show ?thesis
      using True s(1) n p(1) r by (auto simp: mread_def)
  qed
qed simp

definition config_typed :: "libusb_config_descriptor \<Rightarrow> bool" where
  "config_typed c \<longleftrightarrow> cf_bDescriptorType c = LIBUSB_DT_CONFIG \<and> 9 \<le> unat (cf_bLength c) \<and>
     unat (cf_bNumInterfaces c) = length (cf_interface c) \<and> length (cf_interface c) \<le> USB_MAXINTERFACES \<and>
     extra_ok (cf_extra c) \<and> list_all interface_typed (cf_interface c)"

lemma config_parser_total:
  assumes "sz \<le> int (length buf)"
  shows "\<exists>r c. raw_desc_to_config alloc buf sz = Inr (r, c) \<and>
    (r < 0 \<and> c = None \<or> r = 0 \<and> (\<exists>config. c = Some config \<and> config_typed config))"
proof -
  have "\<exists>r c. parse_configuration alloc buf sz = Inr (r, c) \<and> (r < 0 \<or> config_typed c)"
  proof (cases "sz < 9")
    case True
    then show ?thesis by (simp add: parse_configuration_def desc_errors Let_def)
  next
    case False
    then have nine: "9 \<le> length buf" using assms by linarith
    obtain b0 b1 b2 b3 b4 b5 b6 b7 b8 ys where b: "buf = b0 # b1 # b2 # b3 # b4 # b5 # b6 # b7 # b8 # ys"
      by (rule nine_bytes [OF nine])
    define c where "c = config_at [b0, b1, b2, b3, b4, b5, b6, b7, b8]"
    have pd: "parse_descriptor ''bbwbbbbb'' buf 0 (replicate 9 0) = Inr [b0, b1, b2, b3, b4, b5, b6, b7, b8]"
      unfolding b by (rule parse_fields)
    define l where "l = unat (cf_bLength c)"
    define num where "num = unat (cf_bNumInterfaces c)"
    show ?thesis
    proof (cases "cf_bDescriptorType c = LIBUSB_DT_CONFIG \<and> 9 \<le> l \<and> int l \<le> sz \<and> num \<le> USB_MAXINTERFACES \<and> alloc (num * SIZEOF_INTERFACE)")
      case bad: False
      show ?thesis
        unfolding parse_configuration_def Let_def if_not_P [OF False] pd rbind_Inr c_def [symmetric] l_def [symmetric] num_def [symmetric]
        using bad by (auto simp: desc_errors)
    next
      case True
      have s: "sz - int l \<le> int (length (drop l buf))" using assms True by auto
      obtain r x ifs where p: "parse_interfaces alloc num [] (drop l buf) (sz - int l) = Inr (r, x, ifs)"
        "0 \<le> sz - int l \<longrightarrow> r < 0 \<or> length ifs \<le> num \<and> extra_ok x \<and> list_all interface_typed ifs"
        using parse_interfaces_safe [OF s extra_nil] by blast
      have "parse_configuration alloc buf sz = Inr (r, c\<lparr>cf_bNumInterfaces := of_nat (length ifs), cf_interface := ifs, cf_extra := x\<rparr>)"
        unfolding parse_configuration_def Let_def if_not_P [OF False] pd rbind_Inr c_def [symmetric] l_def [symmetric] num_def [symmetric]
        using True p(1) by simp
      moreover have "r < 0 \<or> config_typed (c\<lparr>cf_bNumInterfaces := of_nat (length ifs), cf_interface := ifs, cf_extra := x\<rparr>)"
        using p(2) True by (auto simp: config_typed_def l_def USB_MAXINTERFACES_def unat_of_nat)
      ultimately show ?thesis by blast
    qed
  qed
  then obtain r c where "parse_configuration alloc buf sz = Inr (r, c)" "r < 0 \<or> config_typed c" by blast
  then show ?thesis by (auto simp: raw_desc_to_config_def desc_errors)
qed

text \<open>
  C38. Whatever bytes a device sends, and whichever requests for memory fail, the parser reads
  nothing outside the bytes that were received, and either fails or gives a well-typed
  configuration: as many interfaces as it says, at most 32, each with alternate settings of one
  number, each of them with at least as many parsed endpoints as it says when it has the array.
\<close>
theorem config_parser_safe:
  assumes "sz \<le> int (length buf)"
  shows "\<exists>r c. raw_desc_to_config alloc buf sz = Inr (r, c) \<and>
    (r < 0 \<and> c = None \<or> r = 0 \<and> (\<exists>config. c = Some config \<and> config_typed config))"
  by (rule config_parser_total [OF assms])

end
