(* ===== verification/UsbRound.thy ===== *)
theory UsbRound
  imports UsbTree
begin

text \<open>
  libusb: the bytes of a well-formed configuration, which the parser reads back; and what it makes
  of one that is cut short.
\<close>

subsection \<open>The bytes of descriptors\<close>

definition ep_bytes :: "libusb_endpoint_descriptor \<Rightarrow> byte list" where
  "ep_bytes e = [ep_bLength e, ep_bDescriptorType e, ep_bEndpointAddress e, ep_bmAttributes e] @ le16 (ep_wMaxPacketSize e) @
     [ep_bInterval e] @ (if ep_bLength e = 9 then [ep_bRefresh e, ep_bSynchAddress e] else []) @ ep_extra e"

definition endpoints_of :: "libusb_interface_descriptor \<Rightarrow> libusb_endpoint_descriptor list" where
  "endpoints_of a = (case if_endpoint a of None \<Rightarrow> [] | Some es \<Rightarrow> es)"

definition alt_bytes :: "libusb_interface_descriptor \<Rightarrow> byte list" where
  "alt_bytes a = [if_bLength a, if_bDescriptorType a, if_bInterfaceNumber a, if_bAlternateSetting a, if_bNumEndpoints a,
     if_bInterfaceClass a, if_bInterfaceSubClass a, if_bInterfaceProtocol a, if_iInterface a] @ if_extra a @
     concat (map ep_bytes (endpoints_of a))"

definition interface_bytes :: "libusb_interface \<Rightarrow> byte list" where
  "interface_bytes as = concat (map alt_bytes as)"

definition config_bytes :: "libusb_config_descriptor \<Rightarrow> byte list" where
  "config_bytes c = [cf_bLength c, cf_bDescriptorType c] @ le16 (cf_wTotalLength c) @ [cf_bNumInterfaces c,
     cf_bConfigurationValue c, cf_iConfiguration c, cf_bmAttributes c, cf_MaxPower c] @ cf_extra c @
     concat (map interface_bytes (cf_interface c))"

text \<open>Well-formed descriptors; two interfaces in a row have different numbers.\<close>

definition ep_fit :: "libusb_endpoint_descriptor \<Rightarrow> bool" where
  "ep_fit e \<longleftrightarrow> ep_bDescriptorType e = LIBUSB_DT_ENDPOINT \<and> extra_ok (ep_extra e) \<and>
     (ep_bLength e = 9 \<or> ep_bLength e = 7 \<and> ep_bRefresh e = 0 \<and> ep_bSynchAddress e = 0)"

definition alt_fit :: "libusb_interface_descriptor \<Rightarrow> bool" where
  "alt_fit a \<longleftrightarrow> if_bDescriptorType a = LIBUSB_DT_INTERFACE \<and> if_bLength a = 9 \<and> extra_ok (if_extra a) \<and>
     unat (if_bNumEndpoints a) = length (endpoints_of a) \<and> length (endpoints_of a) \<le> USB_MAXENDPOINTS \<and>
     if_endpoint a \<noteq> Some [] \<and> list_all ep_fit (endpoints_of a)"

definition interface_fit :: "libusb_interface \<Rightarrow> bool" where
  "interface_fit as \<longleftrightarrow> as \<noteq> [] \<and> list_all alt_fit as \<and> (\<forall>a\<in>set as. if_bInterfaceNumber a = if_bInterfaceNumber (hd as))"

fun numbers_change :: "libusb_interface list \<Rightarrow> bool" where
  "numbers_change (as # bs # rest) \<longleftrightarrow> if_bInterfaceNumber (hd as) \<noteq> if_bInterfaceNumber (hd bs) \<and> numbers_change (bs # rest)"
| "numbers_change _ \<longleftrightarrow> True"

definition config_fit :: "libusb_config_descriptor \<Rightarrow> bool" where
  "config_fit c \<longleftrightarrow> cf_bDescriptorType c = LIBUSB_DT_CONFIG \<and> cf_bLength c = 9 \<and> extra_ok (cf_extra c) \<and>
     (cf_interface c = [] \<longrightarrow> cf_extra c = []) \<and> unat (cf_bNumInterfaces c) = length (cf_interface c) \<and>
     length (cf_interface c) \<le> USB_MAXINTERFACES \<and> list_all interface_fit (cf_interface c) \<and> numbers_change (cf_interface c)"

subsection \<open>Reading them back\<close>

lemma le16_two: obtains x y where "le16 w = [x, y]"
  using length_le16 [of w] by (metis length_0_conv length_Suc_conv numeral_2_eq_2)

lemma starts_proper_ep: "ep_fit e \<Longrightarrow> starts_proper (ep_bytes e @ xs)"
  by (auto simp: starts_proper_def ep_bytes_def ep_fit_def proper_def)

lemma starts_proper_alt: "alt_fit a \<Longrightarrow> starts_proper (alt_bytes a @ xs)"
  by (auto simp: starts_proper_def alt_bytes_def alt_fit_def proper_def)

lemma starts_proper_interface: "interface_fit as \<Longrightarrow> starts_proper (interface_bytes as @ xs)"
  using starts_proper_alt by (cases as) (auto simp: interface_fit_def interface_bytes_def)

lemma starts_proper_nil: "starts_proper []"
  by (simp add: starts_proper_def)

lemma parse_endpoint_bytes:
  assumes "ep_fit e" and "starts_proper rest" and "\<And>n. alloc n"
  shows "parse_endpoint alloc (ep_bytes e @ rest) (int (length (ep_bytes e @ rest))) = Inr (int (length (ep_bytes e)), e)"
proof -
  obtain x y where w: "le16 (ep_wMaxPacketSize e) = [x, y]" by (rule le16_two)
  then have rd: "rd16 [x, y] = ep_wMaxPacketSize e" using rd16_le16 [of "ep_wMaxPacketSize e"] by simp
  have ty: "ep_bDescriptorType e = LIBUSB_DT_ENDPOINT" and ex: "extra_ok (ep_extra e)" using assms(1) by (simp_all add: ep_fit_def)
  note sk = skip_descs_extra [OF ex assms(2)]
  have e: "e = \<lparr>ep_bLength = ep_bLength e, ep_bDescriptorType = ep_bDescriptorType e, ep_bEndpointAddress = ep_bEndpointAddress e,
      ep_bmAttributes = ep_bmAttributes e, ep_wMaxPacketSize = ep_wMaxPacketSize e, ep_bInterval = ep_bInterval e,
      ep_bRefresh = ep_bRefresh e, ep_bSynchAddress = ep_bSynchAddress e, ep_extra = ep_extra e\<rparr>" by simp
  consider "ep_bLength e = 9" | "ep_bLength e = 7" "ep_bRefresh e = 0" "ep_bSynchAddress e = 0"
    using assms(1) by (auto simp: ep_fit_def)
  then show ?thesis
  proof cases
    case 1
    then show ?thesis
      using sk ty rd assms(3) e
      by (simp add: parse_endpoint_def ep_bytes_def w mread_def parse_fields endpoint_at_def Let_def)
  next
    case 2
    then show ?thesis
      using sk ty rd assms(3) e
      by (simp add: parse_endpoint_def ep_bytes_def w mread_def parse_fields endpoint_at_def Let_def)
  qed
qed

lemma ep_bytes_length: "7 \<le> length (ep_bytes e)" "ep_bytes e \<noteq> []"
  by (simp_all add: ep_bytes_def)

lemma starts_proper_eps: "list_all ep_fit es \<Longrightarrow> starts_proper rest \<Longrightarrow> starts_proper (concat (map ep_bytes es) @ rest)"
  using starts_proper_ep by (cases es) auto

lemma parse_endpoints_bytes:
  assumes "starts_proper rest" and "\<And>n. alloc n"
  shows "list_all ep_fit es \<Longrightarrow>
    parse_endpoints alloc (length es) (concat (map ep_bytes es) @ rest) (int (length (concat (map ep_bytes es) @ rest))) =
    Inr (0, es, length (concat (map ep_bytes es)))"
proof (induction es)
  case (Cons e es)
  define tl where "tl = concat (map ep_bytes es) @ rest"
  have p: "parse_endpoint alloc (ep_bytes e @ tl) (int (length (ep_bytes e @ tl))) = Inr (int (length (ep_bytes e)), e)"
    using Cons.prems starts_proper_eps [OF _ assms(1), of es] by (intro parse_endpoint_bytes assms(2)) (simp_all add: tl_def)
  have "parse_endpoints alloc (length es) tl (int (length tl)) = Inr (0, es, length (concat (map ep_bytes es)))"
    using Cons by (simp add: tl_def)
  then have "parse_endpoints alloc (Suc (length es)) (ep_bytes e @ tl) (int (length (ep_bytes e @ tl))) =
      Inr (0, e # es, length (ep_bytes e) + length (concat (map ep_bytes es)))"
    unfolding parse_endpoints.simps p rbind_Inr prod.case using ep_bytes_length by simp
  then show ?case by (simp add: tl_def)
qed simp

definition alt_head :: "libusb_interface_descriptor \<Rightarrow> byte list" where
  "alt_head a = [if_bLength a, if_bDescriptorType a, if_bInterfaceNumber a, if_bAlternateSetting a, if_bNumEndpoints a,
     if_bInterfaceClass a, if_bInterfaceSubClass a, if_bInterfaceProtocol a, if_iInterface a]"

lemma alt_bytes_head: "alt_bytes a = alt_head a @ if_extra a @ concat (map ep_bytes (endpoints_of a))"
  by (simp add: alt_bytes_def alt_head_def)

lemma parse_alt_bytes:
  assumes "alt_fit a" and "starts_proper rest" and "\<And>n. alloc n"
  shows "parse_alt alloc (alt_bytes a @ rest) (int (length (alt_bytes a @ rest))) = Inr (AltNext (length (alt_bytes a)) a)"
proof -
  define es where "es = endpoints_of a"
  define eps where "eps = concat (map ep_bytes es) @ rest"
  define buf where "buf = alt_bytes a @ rest"
  have buf: "buf = alt_head a @ if_extra a @ eps" by (simp add: buf_def eps_def es_def alt_bytes_head)
  have fit: "if_bDescriptorType a = LIBUSB_DT_INTERFACE" "if_bLength a = 9" "extra_ok (if_extra a)"
    "unat (if_bNumEndpoints a) = length es" "length es \<le> 32" "list_all ep_fit es" "if_endpoint a \<noteq> Some []"
    using assms(1) by (simp_all add: alt_fit_def es_def USB_MAXENDPOINTS_def)
  have pd: "parse_descriptor ''bbbbbbbbb'' buf 0 (replicate 9 0) = Inr (alt_head a)"
    by (simp add: buf alt_head_def parse_fields)
  define a0 where "a0 = alt_at (alt_head a)"
  have a0: "if_bDescriptorType a0 = LIBUSB_DT_INTERFACE" "if_bLength a0 = 9" "unat (if_bNumEndpoints a0) = length es"
    using fit by (simp_all add: a0_def alt_at_def alt_head_def)
  have l: "length (alt_head a) = 9" by (simp add: alt_head_def)
  have len: "int (length buf) - 9 = int (length (if_extra a @ eps))" "drop 9 buf = if_extra a @ eps"
    using l by (simp_all add: buf)
  have sk: "skip_descs (drop 9 buf) (int (length buf) - 9) = Inr (SkipDone, length (if_extra a))"
    unfolding len using fit(3,6) starts_proper_eps [OF _ assms(2)] by (intro skip_descs_extra) (simp_all add: eps_def)
  have rd: "mread 0 (length (if_extra a)) (drop 9 buf) = Inr (if_extra a)" by (simp add: len mread_def)
  have dr: "drop (9 + length (if_extra a)) buf = eps" "int (length buf) - int (9 + length (if_extra a)) = int (length eps)"
    using l by (simp_all add: buf)
  have pe: "parse_endpoints alloc (length es) eps (int (length eps)) = Inr (0, es, length (concat (map ep_bytes es)))"
    unfolding eps_def by (rule parse_endpoints_bytes [OF assms(2,3) fit(6)])
  have small: "of_nat (length es) = if_bNumEndpoints a" by (simp flip: fit(4))
  have zero: "es = [] \<longleftrightarrow> if_endpoint a = None" using fit(7) by (auto simp: es_def endpoints_of_def split: option.splits)
  have whole: "a0\<lparr>if_extra := if_extra a, if_endpoint := Some es, if_bNumEndpoints := if_bNumEndpoints a\<rparr> = a" if "es \<noteq> []"
    using that zero by (auto simp: a0_def alt_at_def alt_head_def es_def endpoints_of_def split: option.splits)
  have whole0: "a0\<lparr>if_extra := if_extra a\<rparr> = a" if "es = []"
    using that zero by (simp add: a0_def alt_at_def alt_head_def)
  have lb: "length (alt_bytes a) = 9 + length (if_extra a) + length (concat (map ep_bytes es))"
    using l by (simp add: alt_bytes_head es_def)
  have nine: "unat (9 :: byte) = 9" by simp
  have c: "int 9 \<le> int (length buf)" using l by (simp add: buf)
  have "parse_alt alloc buf (int (length buf)) = Inr (AltNext (length (alt_bytes a)) a)"
    unfolding parse_alt_def pd rbind_Inr Let_def a0_def [symmetric] a0 nine
    using assms(3) fit(5) c sk rd dr pe whole whole0 small lb
    by (simp add: USB_MAXENDPOINTS_def)
  then show ?thesis by (simp add: buf_def)
qed

text \<open>What follows an interface is no further alternate setting of it.\<close>

definition other_follows :: "byte \<Rightarrow> byte list \<Rightarrow> bool" where
  "other_follows n rest \<longleftrightarrow> length rest < 9 \<or> rest ! 1 \<noteq> LIBUSB_DT_INTERFACE \<or> rest ! 2 \<noteq> n"

lemma alt_bytes_start: "9 \<le> length (alt_bytes a)" "(alt_bytes a @ xs) ! 1 = if_bDescriptorType a"
  "(alt_bytes a @ xs) ! 2 = if_bInterfaceNumber a"
  by (simp_all add: alt_bytes_def)

lemma parse_alts_bytes:
  assumes "starts_proper rest" and "\<And>n. alloc n" and "other_follows n rest"
  shows "as \<noteq> [] \<Longrightarrow> list_all alt_fit as \<Longrightarrow> \<forall>a\<in>set as. if_bInterfaceNumber a = n \<Longrightarrow>
    number = - 1 \<or> number = int (unat n) \<Longrightarrow>
    parse_alts alloc number acc (interface_bytes as @ rest) (int (length (interface_bytes as @ rest))) parsed =
    Inr (int (parsed + length (interface_bytes as)), acc @ as)"
proof (induction as arbitrary: number acc parsed)
  case (Cons a as)
  define tl where "tl = interface_bytes as @ rest"
  define buf where "buf = alt_bytes a @ tl"
  have buf: "interface_bytes (a # as) @ rest = buf" by (simp add: interface_bytes_def buf_def tl_def)
  have sp: "starts_proper tl"
    using assms(1) Cons.prems(2) starts_proper_alt by (cases as) (auto simp: tl_def interface_bytes_def)
  have p: "parse_alt alloc buf (int (length buf)) = Inr (AltNext (length (alt_bytes a)) a)"
    unfolding buf_def using Cons.prems(2) sp assms(2) by (intro parse_alt_bytes) simp_all
  have more: "\<not> int (length buf) < 9" "\<not> \<not> alloc (SIZEOF_ALTSETTING * (length acc + 1))"
    using alt_bytes_start(1) [of a] assms(2) by (simp_all add: buf_def)
  have left: "int (length buf) - int (length (alt_bytes a)) = int (length tl)" "drop (length (alt_bytes a)) buf = tl"
    by (simp_all add: buf_def)
  define num where "num = (if number = - 1 then int (unat (if_bInterfaceNumber a)) else number)"
  have num: "num = int (unat n)" using Cons.prems(3,4) by (auto simp: num_def)
  note step = parse_alts.simps [of alloc number acc buf "int (length buf)" parsed, unfolded p rbind_Inr alt_end.case Let_def
      if_not_P [OF more(1)] if_not_P [OF more(2)] left num_def [symmetric]]
  show ?case
  proof (cases "as = []")
    case True
    have stop: "int (length tl) < 9 \<or> tl ! 1 \<noteq> LIBUSB_DT_INTERFACE \<or> tl ! 2 \<noteq> n"
      using assms(3) True by (simp add: tl_def other_follows_def interface_bytes_def)
    show ?thesis
    proof (cases "int (length tl) < 9")
      case t: True
      then show ?thesis unfolding buf step using True by (simp add: interface_bytes_def)
    next
      case False
      then have "mread 0 3 tl = Inr (take 3 tl)" "take 3 tl ! 1 = tl ! 1" "take 3 tl ! 2 = tl ! 2"
        by (simp_all add: mread_def)
      moreover have "tl ! 1 \<noteq> LIBUSB_DT_INTERFACE \<or> int (unat (tl ! 2)) \<noteq> num"
        using stop False num by (auto simp: word_uint_eq_iff)
      ultimately show ?thesis unfolding buf step using True False by (simp add: interface_bytes_def)
    qed
  next
    case False
    then obtain b bs where as: "as = b # bs" by (cases as) auto
    have b: "alt_fit b" "if_bInterfaceNumber b = n" using Cons.prems(2,3) by (simp_all add: as)
    have tl: "tl = alt_bytes b @ interface_bytes bs @ rest" by (simp add: tl_def as interface_bytes_def)
    have nine: "\<not> int (length tl) < 9" using alt_bytes_start(1) [of b] by (simp add: tl)
    have r: "mread 0 3 tl = Inr (take 3 tl)" "take 3 tl ! 1 = tl ! 1" "take 3 tl ! 2 = tl ! 2"
      using nine by (simp_all add: mread_def)
    have go: "\<not> (tl ! 1 \<noteq> LIBUSB_DT_INTERFACE \<or> int (unat (tl ! 2)) \<noteq> num)"
      using b num alt_bytes_start(2,3) [of b] by (simp add: tl alt_fit_def)
    have "parse_alts alloc number acc buf (int (length buf)) parsed =
        parse_alts alloc num (acc @ [a]) tl (int (length tl)) (parsed + length (alt_bytes a))"
      unfolding step if_not_P [OF nine] r rbind_Inr if_not_P [OF go] ..
    also have "\<dots> = Inr (int (parsed + length (alt_bytes a) + length (interface_bytes as)), (acc @ [a]) @ as)"
      unfolding tl_def using Cons.prems(2,3) num False by (intro Cons.IH) simp_all
    finally show ?thesis unfolding buf by (simp add: interface_bytes_def)
  qed
qed simp

lemma parse_interface_bytes:
  assumes "interface_fit as" and "starts_proper rest" and "other_follows (if_bInterfaceNumber (hd as)) rest" and "\<And>n. alloc n"
  shows "parse_interface alloc (interface_bytes as @ rest) (int (length (interface_bytes as @ rest))) =
    Inr (int (length (interface_bytes as)), as)"
proof -
  have fit: "as \<noteq> []" "list_all alt_fit as" "\<forall>a\<in>set as. if_bInterfaceNumber a = if_bInterfaceNumber (hd as)"
    using assms(1) unfolding interface_fit_def by blast+
  show ?thesis
    unfolding parse_interface_def
    using parse_alts_bytes [OF assms(2,4,3) fit, where number = "- 1" and acc = "[]" and parsed = 0] by simp
qed

lemma interface_bytes_length: "interface_fit as \<Longrightarrow> 9 \<le> length (interface_bytes as)"
  using alt_bytes_start(1) by (cases as) (auto simp: interface_fit_def interface_bytes_def intro: trans_le_add1)

lemma parse_interfaces_bytes:
  assumes "\<And>n. alloc n"
  shows "list_all interface_fit ifs \<Longrightarrow> numbers_change ifs \<Longrightarrow> extra_ok e \<Longrightarrow> (ifs = [] \<Longrightarrow> e = []) \<Longrightarrow>
    parse_interfaces alloc (length ifs) x (e @ concat (map interface_bytes ifs)) (int (length (e @ concat (map interface_bytes ifs)))) =
    Inr (0, x @ e, ifs)"
proof (induction ifs arbitrary: e x)
  case (Cons as ifs)
  define tl where "tl = concat (map interface_bytes ifs)"
  have sp: "starts_proper tl" using Cons.prems(1) starts_proper_interface starts_proper_nil by (cases ifs) (auto simp: tl_def)
  have sp2: "starts_proper (interface_bytes as @ tl)" using Cons.prems(1) by (intro starts_proper_interface) simp
  have other: "other_follows (if_bInterfaceNumber (hd as)) tl"
  proof (cases ifs)
    case (Cons bs rest)
    obtain b cs where b: "bs = b # cs" using Cons.prems(1) Cons by (cases bs) (auto simp: interface_fit_def)
    have "tl = alt_bytes b @ interface_bytes cs @ concat (map interface_bytes rest)"
      by (simp add: tl_def Cons b interface_bytes_def)
    then show ?thesis using Cons.prems(2) Cons b alt_bytes_start(3) [of b] by (auto simp: other_follows_def)
  qed (simp add: tl_def other_follows_def)
  have sk: "skip_descs (e @ interface_bytes as @ tl) (int (length (e @ interface_bytes as @ tl))) = Inr (SkipDone, length e)"
    by (rule skip_descs_extra [OF Cons.prems(3) sp2])
  have pi: "parse_interface alloc (interface_bytes as @ tl) (int (length (interface_bytes as @ tl))) = Inr (int (length (interface_bytes as)), as)"
    using Cons.prems(1) sp other assms by (intro parse_interface_bytes) simp_all
  have more: "parse_interfaces alloc (length ifs) (x @ e) tl (int (length tl)) = Inr (0, x @ e, ifs)"
    using Cons.IH [of "[]" "x @ e"] Cons.prems(1,2) extra_nil by (cases ifs) (simp_all add: tl_def)
  have "interface_fit as" using Cons.prems(1) by simp
  then have pos: "0 < length (interface_bytes as)" using interface_bytes_length [of as] by linarith
  have "parse_interfaces alloc (Suc (length ifs)) x (e @ interface_bytes as @ tl) (int (length (e @ interface_bytes as @ tl))) =
      Inr (0, x @ e, as # ifs)"
    unfolding parse_interfaces.simps sk rbind_Inr prod.case skip_end.case
    using assms pi more pos by (simp add: mread_def)
  then show ?case by (simp add: tl_def)
qed simp

lemma config_parsed:
  assumes "config_fit c" and "\<And>n. alloc n"
  shows "raw_desc_to_config alloc (config_bytes c) (int (length (config_bytes c))) = Inr (0, Some c)"
proof -
  define rest where "rest = cf_extra c @ concat (map interface_bytes (cf_interface c))"
  obtain x y where w: "le16 (cf_wTotalLength c) = [x, y]" by (rule le16_two)
  then have rd: "rd16 [x, y] = cf_wTotalLength c" using rd16_le16 [of "cf_wTotalLength c"] by simp
  define head where "head = [cf_bLength c, cf_bDescriptorType c, x, y, cf_bNumInterfaces c,
     cf_bConfigurationValue c, cf_iConfiguration c, cf_bmAttributes c, cf_MaxPower c]"
  define buf where "buf = config_bytes c"
  have buf: "buf = head @ rest" by (simp add: buf_def config_bytes_def w head_def rest_def)
  have pd: "parse_descriptor ''bbwbbbbb'' buf 0 (replicate 9 0) = Inr head" by (simp add: buf head_def parse_fields)
  define c0 where "c0 = config_at head"
  have fit: "cf_bDescriptorType c = LIBUSB_DT_CONFIG" "cf_bLength c = 9" "unat (cf_bNumInterfaces c) = length (cf_interface c)"
    "length (cf_interface c) \<le> 32" "list_all interface_fit (cf_interface c)" "numbers_change (cf_interface c)"
    "extra_ok (cf_extra c)" "cf_interface c = [] \<Longrightarrow> cf_extra c = []"
    using assms(1) by (simp_all add: config_fit_def USB_MAXINTERFACES_def)
  have c0: "cf_bDescriptorType c0 = LIBUSB_DT_CONFIG" "cf_bLength c0 = 9" "unat (cf_bNumInterfaces c0) = length (cf_interface c)"
    using fit by (simp_all add: c0_def config_at_def head_def)
  have l: "length head = 9" by (simp add: head_def)
  have dr: "drop 9 buf = rest" "int (length buf) - 9 = int (length rest)" using l by (simp_all add: buf)
  have pi: "parse_interfaces alloc (length (cf_interface c)) [] rest (int (length rest)) = Inr (0, cf_extra c, cf_interface c)"
    using parse_interfaces_bytes [OF assms(2) fit(5,6,7,8), where x = "[]"] by (simp add: rest_def)
  have small: "of_nat (length (cf_interface c)) = cf_bNumInterfaces c" by (simp flip: fit(3))
  have whole: "c0\<lparr>cf_bNumInterfaces := cf_bNumInterfaces c, cf_interface := cf_interface c, cf_extra := cf_extra c\<rparr> = c"
    by (simp add: c0_def config_at_def head_def rd)
  have nine: "unat (9 :: byte) = 9" "\<not> int (length buf) < 9" using l by (simp_all add: buf)
  have "parse_configuration alloc buf (int (length buf)) = Inr (0, c)"
    unfolding parse_configuration_def Let_def if_not_P [OF nine(2)] pd rbind_Inr c0_def [symmetric] c0 nine(1)
    using assms(2) fit(4) nine(2) dr pi small whole by (simp add: USB_MAXINTERFACES_def)
  then show ?thesis using assms(2) by (simp add: raw_desc_to_config_def flip: buf_def)
qed

text \<open>
  C39. Every well-formed configuration (a chain of interfaces with their alternate settings, their
  endpoints and the class and vendor descriptors between them) is read back from its bytes.
\<close>
theorem config_reads_back:
  assumes "config_fit c" and "\<And>n. alloc n"
  shows "raw_desc_to_config alloc (config_bytes c) (int (length (config_bytes c))) = Inr (0, Some c)"
  by (rule config_parsed [OF assms])

subsection \<open>A configuration that is cut short\<close>

text \<open>
  When the bytes end inside the descriptor behind that of an alternate setting, the parser
  succeeds, and the setting it returns says that it has endpoints while the pointer to them is
  NULL: a program that goes through them as the documentation shows reads through NULL.
\<close>
theorem cut_short_null_endpoints:
  assumes "config_fit c" and "cf_interface c = [[a]]" and "cf_extra c = []" and "if_bNumEndpoints a \<noteq> 0"
    and "2 \<le> length trunc" and "length trunc < unat (trunc ! 0)" and "\<And>n. alloc n"
    and "buf = take 9 (config_bytes c) @ alt_head a @ trunc"
  shows "\<exists>config. raw_desc_to_config alloc buf (int (length buf)) = Inr (0, Some config) \<and>
    (\<exists>a'. cf_interface config = [[a']] \<and> if_bNumEndpoints a' = if_bNumEndpoints a \<and> if_endpoint a' = None \<and> \<not> alt_usable a')"
proof -
  obtain x y where w: "le16 (cf_wTotalLength c) = [x, y]" by (rule le16_two)
  define head where "head = [cf_bLength c, cf_bDescriptorType c, x, y, cf_bNumInterfaces c,
     cf_bConfigurationValue c, cf_iConfiguration c, cf_bmAttributes c, cf_MaxPower c]"
  define rest where "rest = alt_head a @ trunc"
  have buf: "buf = head @ rest" by (simp add: assms(8) config_bytes_def w head_def rest_def)
  have pd: "parse_descriptor ''bbwbbbbb'' buf 0 (replicate 9 0) = Inr head" by (simp add: buf head_def parse_fields)
  define c0 where "c0 = config_at head"
  have fit: "cf_bDescriptorType c = LIBUSB_DT_CONFIG" "cf_bLength c = 9" "unat (cf_bNumInterfaces c) = 1" "alt_fit a"
    using assms(1,2) by (simp_all add: config_fit_def interface_fit_def)
  have c0: "cf_bDescriptorType c0 = LIBUSB_DT_CONFIG" "cf_bLength c0 = 9" "unat (cf_bNumInterfaces c0) = 1"
    using fit by (simp_all add: c0_def config_at_def head_def)
  have l: "length head = 9" "length (alt_head a) = 9" by (simp_all add: head_def alt_head_def)
  have dr: "drop 9 buf = rest" "int (length buf) - 9 = int (length rest)" using l by (simp_all add: buf)
  have a: "if_bDescriptorType a = LIBUSB_DT_INTERFACE" "if_bLength a = 9" "unat (if_bNumEndpoints a) \<le> 32"
    using fit(4) by (simp_all add: alt_fit_def USB_MAXENDPOINTS_def)
  have sk0: "skip_descs rest (int (length rest)) = Inr (SkipDone, 0)"
    using skip_descs_extra [OF extra_nil, of rest] a(1,2) l(2)
    by (simp add: starts_proper_def rest_def alt_head_def proper_def)
  have pa: "parse_descriptor ''bbbbbbbbb'' rest 0 (replicate 9 0) = Inr (alt_head a)"
    by (simp add: rest_def alt_head_def parse_fields)
  define a0 where "a0 = alt_at (alt_head a)"
  have a0: "if_bDescriptorType a0 = LIBUSB_DT_INTERFACE" "if_bLength a0 = 9" "if_bNumEndpoints a0 = if_bNumEndpoints a"
    "if_endpoint a0 = None" using a by (simp_all add: a0_def alt_at_def alt_head_def)
  have cutoff: "drop 9 rest = trunc" "int (length rest) - 9 = int (length trunc)" using l by (simp_all add: rest_def)
  have sk: "skip_descs trunc (int (length trunc)) = Inr (SkipShort, 0)"
    supply of_nat_unat [simp del] using assms(5,6) by (simp add: skip_descs.simps [of trunc] mread_def Let_def)
  have nine: "unat (9 :: byte) = 9" "\<not> int (length buf) < 9" "int 9 \<le> int (length rest)" "\<not> int (length rest) < 9"
    using l by (simp_all add: buf rest_def)
  have alt: "parse_alt alloc rest (int (length rest)) = Inr (AltReturn 9 (Some a0))"
    unfolding parse_alt_def pa rbind_Inr Let_def a0_def [symmetric] a0 nine(1)
    using a(3) nine(3) cutoff sk by (simp add: USB_MAXENDPOINTS_def)
  have ifc: "parse_interface alloc rest (int (length rest)) = Inr (9, [a0])"
    unfolding parse_interface_def parse_alts.simps [of alloc _ _ rest] alt rbind_Inr using nine(4) assms(7) by simp
  have "parse_interfaces alloc 1 [] rest (int (length rest)) = Inr (int (length rest) - 9, [], [[a0]])"
    using sk0 ifc by (simp add: mread_def)
  then have "parse_configuration alloc buf (int (length buf)) =
      Inr (int (length rest) - 9, c0\<lparr>cf_bNumInterfaces := 1, cf_interface := [[a0]], cf_extra := []\<rparr>)"
    unfolding parse_configuration_def Let_def if_not_P [OF nine(2)] pd rbind_Inr c0_def [symmetric] c0 nine(1)
    using assms(7) nine(2) dr by (simp add: USB_MAXINTERFACES_def)
  moreover have "\<not> alt_usable a0" using a0 assms(4) by (simp add: alt_usable_def)
  ultimately show ?thesis using assms(7) a0 nine(4) by (simp add: raw_desc_to_config_def)
qed

end
