(* ===== verification/UsbApi.thy ===== *)
theory UsbApi
  imports UsbDesc
begin

text \<open>
  libusb (descriptor.c): the functions a program calls.  What the operating system's backend and
  the device answer is the record \<open>desc_backend\<close>: a result, and the buffer of the size asked for.
\<close>

definition LIBUSB_DT_BOS :: byte where "LIBUSB_DT_BOS = 0x0f"
definition LIBUSB_DT_DEVICE_CAPABILITY :: byte where "LIBUSB_DT_DEVICE_CAPABILITY = 0x10"
definition LIBUSB_DT_SS_ENDPOINT_COMPANION :: byte where "LIBUSB_DT_SS_ENDPOINT_COMPANION = 0x30"
definition LIBUSB_BT_USB_2_0_EXTENSION :: byte where "LIBUSB_BT_USB_2_0_EXTENSION = 2"
definition LIBUSB_BT_SS_USB_DEVICE_CAPABILITY :: byte where "LIBUSB_BT_SS_USB_DEVICE_CAPABILITY = 3"
definition STRING_TYPE :: byte where "STRING_TYPE = 3"            \<comment> \<open>LIBUSB_DT_STRING\<close>
definition ERROR_NOT_FOUND :: int where "ERROR_NOT_FOUND = - 5"   \<comment> \<open>LIBUSB_ERROR_NOT_FOUND\<close>

record desc_backend =
  db_num_configs :: byte                                     \<comment> \<open>dev->device_descriptor.bNumConfigurations\<close>
  db_active :: "nat \<Rightarrow> int \<times> byte list"
  db_config :: "byte \<Rightarrow> nat \<Rightarrow> int \<times> byte list"
  db_by_value :: "(byte \<Rightarrow> int \<times> byte list) option"          \<comment> \<open>not every backend has it\<close>
  db_descriptor :: "byte \<Rightarrow> byte \<Rightarrow> u16 \<Rightarrow> nat \<Rightarrow> int \<times> byte list"  \<comment> \<open>GET_DESCRIPTOR: type, index, wIndex, size\<close>

subsection \<open>Configurations\<close>

text \<open>get_active_config_descriptor and get_config_descriptor behind the call of the backend.\<close>

definition long_enough :: "int \<times> byte list \<Rightarrow> int \<times> byte list" where
  "long_enough answer =
     (case answer of (r, buffer) \<Rightarrow> if r < 0 then (r, buffer) else if r < 9 then (LIBUSB_ERROR_IO, buffer) else (r, buffer))"

definition get_active_config_descriptor :: "desc_backend \<Rightarrow> nat \<Rightarrow> int \<times> byte list" where
  "get_active_config_descriptor B sz = long_enough (db_active B sz)"

definition get_config_descriptor :: "desc_backend \<Rightarrow> byte \<Rightarrow> nat \<Rightarrow> int \<times> byte list" where
  "get_config_descriptor B config_idx sz = long_enough (db_config B config_idx sz)"

definition libusb_get_active_config_descriptor ::
  "(nat \<Rightarrow> bool) \<Rightarrow> desc_backend \<Rightarrow> fault + int \<times> libusb_config_descriptor option" where
  "libusb_get_active_config_descriptor alloc B =
     (case get_active_config_descriptor B 9 of (r, config) \<Rightarrow>
      if r < 0 then Inr (r, None)
      else
        rbind (mread 2 2 config) (\<lambda>w.
        let config_len = unat (rd16 w) in
        if \<not> alloc config_len then Inr (LIBUSB_ERROR_NO_MEM, None)
        else
          (case get_active_config_descriptor B config_len of (r, buf) \<Rightarrow>
           if r \<ge> 0 then raw_desc_to_config alloc buf r else Inr (r, None))))"

definition libusb_get_config_descriptor ::
  "(nat \<Rightarrow> bool) \<Rightarrow> desc_backend \<Rightarrow> byte \<Rightarrow> fault + int \<times> libusb_config_descriptor option" where
  "libusb_get_config_descriptor alloc B config_index =
     (if config_index \<ge> db_num_configs B then Inr (ERROR_NOT_FOUND, None)
      else
        (case get_config_descriptor B config_index 9 of (r, config) \<Rightarrow>
         if r < 0 then Inr (r, None)
         else
           rbind (mread 2 2 config) (\<lambda>w.
           let config_len = unat (rd16 w) in
           if \<not> alloc config_len then Inr (LIBUSB_ERROR_NO_MEM, None)
           else
             (case get_config_descriptor B config_index config_len of (r, buf) \<Rightarrow>
              if r \<ge> 0 then raw_desc_to_config alloc buf r else Inr (r, None)))))"

text \<open>The loop over the configurations from \<open>idx\<close> on, \<open>n\<close> of which are left.\<close>

primrec config_by_value ::
  "(nat \<Rightarrow> bool) \<Rightarrow> desc_backend \<Rightarrow> byte \<Rightarrow> byte \<Rightarrow> nat \<Rightarrow> fault + int \<times> libusb_config_descriptor option" where
  "config_by_value alloc B v idx 0 = Inr (ERROR_NOT_FOUND, None)"
| "config_by_value alloc B v idx (Suc n) =
     (case get_config_descriptor B idx 9 of (r, config) \<Rightarrow>
      if r < 0 then Inr (r, None)
      else
        rbind (mread 5 1 config) (\<lambda>w.
        if w ! 0 = v then libusb_get_config_descriptor alloc B idx
        else config_by_value alloc B v (idx + 1) n))"

definition libusb_get_config_descriptor_by_value ::
  "(nat \<Rightarrow> bool) \<Rightarrow> desc_backend \<Rightarrow> byte \<Rightarrow> fault + int \<times> libusb_config_descriptor option" where
  "libusb_get_config_descriptor_by_value alloc B v =
     (case db_by_value B of
        Some f \<Rightarrow> (case f v of (r, buf) \<Rightarrow> if r < 0 then Inr (r, None) else raw_desc_to_config alloc buf r)
      | None \<Rightarrow> config_by_value alloc B v 0 (unat (db_num_configs B)))"

subsection \<open>The SuperSpeed companion of an endpoint\<close>

record libusb_ss_endpoint_companion_descriptor =
  sc_bLength :: byte
  sc_bDescriptorType :: byte
  sc_bMaxBurst :: byte
  sc_bmAttributes :: byte
  sc_wBytesPerInterval :: u16

definition companion_at :: "byte list \<Rightarrow> libusb_ss_endpoint_companion_descriptor" where
  "companion_at d = \<lparr>sc_bLength = d ! 0, sc_bDescriptorType = d ! 1, sc_bMaxBurst = d ! 2, sc_bmAttributes = d ! 3,
     sc_wBytesPerInterval = rd16 [d ! 4, d ! 5]\<rparr>"

function find_companion ::
  "(nat \<Rightarrow> bool) \<Rightarrow> byte list \<Rightarrow> int \<Rightarrow> fault + int \<times> libusb_ss_endpoint_companion_descriptor option" where
  "find_companion alloc buffer sz =
     (if sz < 2 then Inr (ERROR_NOT_FOUND, None)
      else
        rbind (mread 0 2 buffer) (\<lambda>header.
        let len = unat (header ! 0) in
        if header ! 1 \<noteq> LIBUSB_DT_SS_ENDPOINT_COMPANION then
          (if len < 2 then Inr (LIBUSB_ERROR_IO, None) else find_companion alloc (drop len buffer) (sz - int len))
        else if len < 6 then Inr (LIBUSB_ERROR_IO, None)
        else if int len > sz then Inr (LIBUSB_ERROR_IO, None)
        else if \<not> alloc 6 then Inr (LIBUSB_ERROR_NO_MEM, None)
        else rbind (parse_descriptor ''bbbbw'' buffer 0 (replicate 6 0)) (\<lambda>d. Inr (0, Some (companion_at d)))))"
  by pat_completeness auto
termination
  by (relation "measure (\<lambda>(alloc, buffer, sz). nat sz)") (auto dest!: len_ge_2)

declare find_companion.simps [simp del]

definition libusb_get_ss_endpoint_companion_descriptor ::
  "(nat \<Rightarrow> bool) \<Rightarrow> libusb_endpoint_descriptor \<Rightarrow> fault + int \<times> libusb_ss_endpoint_companion_descriptor option" where
  "libusb_get_ss_endpoint_companion_descriptor alloc endpoint =
     find_companion alloc (ep_extra endpoint) (int (length (ep_extra endpoint)))"

subsection \<open>The binary object store\<close>

record libusb_bos_descriptor =
  bos_bLength :: byte
  bos_bDescriptorType :: byte
  bos_wTotalLength :: u16
  bos_bNumDeviceCaps :: byte
  bos_dev_capability :: "byte list list"      \<comment> \<open>a memory block for each capability\<close>

definition bos_at :: "byte list \<Rightarrow> libusb_bos_descriptor" where
  "bos_at d = \<lparr>bos_bLength = d ! 0, bos_bDescriptorType = d ! 1, bos_wTotalLength = rd16 [d ! 2, d ! 3],
     bos_bNumDeviceCaps = d ! 4, bos_dev_capability = []\<rparr>"

text \<open>The loop over the capabilities: a negative result, or 0 and the blocks.\<close>

primrec parse_caps :: "(nat \<Rightarrow> bool) \<Rightarrow> nat \<Rightarrow> byte list \<Rightarrow> int \<Rightarrow> fault + int \<times> byte list list" where
  "parse_caps alloc 0 buffer sz = Inr (0, [])"
| "parse_caps alloc (Suc i) buffer sz =
     (if sz < 3 then Inr (0, [])
      else
        rbind (mread 0 2 buffer) (\<lambda>header.
        let len = unat (header ! 0) in
        if header ! 1 \<noteq> LIBUSB_DT_DEVICE_CAPABILITY then Inr (0, [])
        else if len < 3 then Inr (LIBUSB_ERROR_IO, [])
        else if int len > sz then Inr (0, [])
        else if \<not> alloc len then Inr (LIBUSB_ERROR_NO_MEM, [])
        else
          rbind (mread 0 len buffer) (\<lambda>cap.
          rbind (parse_caps alloc i (drop len buffer) (sz - int len)) (\<lambda>(r, caps). Inr (r, cap # caps)))))"

definition parse_bos :: "(nat \<Rightarrow> bool) \<Rightarrow> byte list \<Rightarrow> int \<Rightarrow> fault + int \<times> libusb_bos_descriptor option" where
  "parse_bos alloc buffer sz =
     (if sz < 5 then Inr (LIBUSB_ERROR_IO, None)
      else
        rbind (mread 0 5 buffer) (\<lambda>bos_desc.
        let len = unat (bos_desc ! 0); num = unat (bos_desc ! 4) in
        if bos_desc ! 1 \<noteq> LIBUSB_DT_BOS then Inr (LIBUSB_ERROR_IO, None)
        else if len < 5 then Inr (LIBUSB_ERROR_IO, None)
        else if int len > sz then Inr (LIBUSB_ERROR_IO, None)
        else if \<not> alloc (8 + num * 8) then Inr (LIBUSB_ERROR_NO_MEM, None)
        else
          rbind (parse_descriptor ''bbwb'' buffer 0 (replicate 5 0)) (\<lambda>d.
          rbind (parse_caps alloc num (drop len buffer) (sz - int len)) (\<lambda>(r, caps).
          if r < 0 then Inr (r, None)
          else Inr (0, Some ((bos_at d)\<lparr>bos_bNumDeviceCaps := of_nat (length caps), bos_dev_capability := caps\<rparr>))))))"

definition libusb_get_bos_descriptor ::
  "(nat \<Rightarrow> bool) \<Rightarrow> desc_backend \<Rightarrow> fault + int \<times> libusb_bos_descriptor option" where
  "libusb_get_bos_descriptor alloc B =
     (case db_descriptor B LIBUSB_DT_BOS 0 0 5 of (r, bos) \<Rightarrow>
      if r < 0 then Inr (r, None)
      else if r < 5 then Inr (LIBUSB_ERROR_IO, None)
      else
        rbind (mread 2 2 bos) (\<lambda>w.
        let bos_len = unat (rd16 w) in
        if \<not> alloc bos_len then Inr (LIBUSB_ERROR_NO_MEM, None)
        else
          (case db_descriptor B LIBUSB_DT_BOS 0 0 bos_len of (r, bos_data) \<Rightarrow>
           if r \<ge> 0 then parse_bos alloc bos_data r else Inr (r, None))))"

subsection \<open>Capabilities\<close>

record libusb_usb_2_0_extension_descriptor =
  ue_bLength :: byte
  ue_bDescriptorType :: byte
  ue_bDevCapabilityType :: byte
  ue_bmAttributes :: u32

record libusb_ss_usb_device_capability_descriptor =
  ss_bLength :: byte
  ss_bDescriptorType :: byte
  ss_bDevCapabilityType :: byte
  ss_bmAttributes :: byte
  ss_wSpeedSupported :: u16
  ss_bFunctionalitySupport :: byte
  ss_bU1DevExitLat :: byte
  ss_bU2DevExitLat :: u16

record libusb_container_id_descriptor =
  ci_bLength :: byte
  ci_bDescriptorType :: byte
  ci_bDevCapabilityType :: byte
  ci_bReserved :: byte
  ci_ContainerID :: "byte list"

definition extension_at :: "byte list \<Rightarrow> libusb_usb_2_0_extension_descriptor" where
  "extension_at d = \<lparr>ue_bLength = d ! 0, ue_bDescriptorType = d ! 1, ue_bDevCapabilityType = d ! 2,
     ue_bmAttributes = rd32 (take 4 (drop 4 d))\<rparr>"

definition ss_cap_at :: "byte list \<Rightarrow> libusb_ss_usb_device_capability_descriptor" where
  "ss_cap_at d = \<lparr>ss_bLength = d ! 0, ss_bDescriptorType = d ! 1, ss_bDevCapabilityType = d ! 2, ss_bmAttributes = d ! 3,
     ss_wSpeedSupported = rd16 [d ! 4, d ! 5], ss_bFunctionalitySupport = d ! 6, ss_bU1DevExitLat = d ! 7,
     ss_bU2DevExitLat = rd16 [d ! 8, d ! 9]\<rparr>"

definition container_at :: "byte list \<Rightarrow> libusb_container_id_descriptor" where
  "container_at d = \<lparr>ci_bLength = d ! 0, ci_bDescriptorType = d ! 1, ci_bDevCapabilityType = d ! 2, ci_bReserved = d ! 3,
     ci_ContainerID = take 16 (drop 4 d)\<rparr>"

text \<open>
  The three functions differ in the type, the least length, the format and the size of the struct;
  they look at bLength of the block, and not at how large the block is.
\<close>

definition capability :: "byte \<Rightarrow> nat \<Rightarrow> string \<Rightarrow> nat \<Rightarrow> (nat \<Rightarrow> bool) \<Rightarrow> byte list \<Rightarrow> fault + int \<times> byte list option" where
  "capability ty least format struct_size alloc dev_cap =
     rbind (mread 0 3 dev_cap) (\<lambda>h.
     if h ! 2 \<noteq> ty then Inr (LIBUSB_ERROR_INVALID_PARAM, None)
     else if unat (h ! 0) < least then Inr (LIBUSB_ERROR_IO, None)
     else if \<not> alloc struct_size then Inr (LIBUSB_ERROR_NO_MEM, None)
     else rbind (parse_descriptor format dev_cap 0 (replicate struct_size 0)) (\<lambda>d. Inr (0, Some d)))"

definition libusb_get_usb_2_0_extension_descriptor ::
  "(nat \<Rightarrow> bool) \<Rightarrow> byte list \<Rightarrow> fault + int \<times> libusb_usb_2_0_extension_descriptor option" where
  "libusb_get_usb_2_0_extension_descriptor alloc dev_cap =
     rbind (capability LIBUSB_BT_USB_2_0_EXTENSION 7 ''bbbd'' 8 alloc dev_cap) (\<lambda>(r, d). Inr (r, map_option extension_at d))"

definition libusb_get_ss_usb_device_capability_descriptor ::
  "(nat \<Rightarrow> bool) \<Rightarrow> byte list \<Rightarrow> fault + int \<times> libusb_ss_usb_device_capability_descriptor option" where
  "libusb_get_ss_usb_device_capability_descriptor alloc dev_cap =
     rbind (capability LIBUSB_BT_SS_USB_DEVICE_CAPABILITY 10 ''bbbbwbbw'' 10 alloc dev_cap) (\<lambda>(r, d). Inr (r, map_option ss_cap_at d))"

definition libusb_get_container_id_descriptor ::
  "(nat \<Rightarrow> bool) \<Rightarrow> byte list \<Rightarrow> fault + int \<times> libusb_container_id_descriptor option" where
  "libusb_get_container_id_descriptor alloc dev_cap =
     rbind (capability LIBUSB_BT_CONTAINER_ID 20 ''bbbbu'' 20 alloc dev_cap) (\<lambda>(r, d). Inr (r, map_option container_at d))"

subsection \<open>Strings\<close>

text \<open>
  The loop over the units: \<open>data\<close> is the caller's buffer, \<open>di\<close> the number of characters stored in it,
  \<open>n\<close> the number of units that are left.  \<open>str\<close> is the union, with its byte of padding; what is in
  it behind the answer is what the stack held.
\<close>

fun ascii_units :: "byte list \<Rightarrow> int \<Rightarrow> nat \<Rightarrow> nat \<Rightarrow> byte list \<Rightarrow> fault + nat \<times> byte list" where
  "ascii_units str len di n data =
     (if n = 0 then Inr (di, data)
      else if int di \<ge> len - 1 then Inr (di, data)
      else
        rbind (mread (2 + 2 * di) 2 str) (\<lambda>w.
        rbind (mwrite di [if rd16 w < 0x80 then ucast (rd16 w) else 63] data) (\<lambda>data.
        ascii_units str len (di + 1) (n - 1) data)))"

declare ascii_units.simps [simp del]

text \<open>The result and the caller's buffer, of which the caller says that it has \<open>len\<close> bytes.\<close>

definition libusb_get_string_descriptor_ascii ::
  "desc_backend \<Rightarrow> byte \<Rightarrow> byte \<Rightarrow> byte list \<Rightarrow> int \<Rightarrow> fault + int \<times> byte list" where
  "libusb_get_string_descriptor_ascii B padding desc_index data len =
     (if desc_index = 0 then Inr (LIBUSB_ERROR_INVALID_PARAM, data)
      else
        (case db_descriptor B STRING_TYPE 0 0 4 of (r, str) \<Rightarrow>
         if r < 0 then Inr (r, data)
         else if r \<noteq> 4 then Inr (LIBUSB_ERROR_IO, data)
         else
           rbind (mread 0 4 str) (\<lambda>h.
           if h ! 0 < 4 then Inr (LIBUSB_ERROR_IO, data)
           else if h ! 1 \<noteq> STRING_TYPE then Inr (LIBUSB_ERROR_IO, data)
           else
             (case db_descriptor B STRING_TYPE desc_index (rd16 (drop 2 h)) 255 of (r, str) \<Rightarrow>
              if r < 0 then Inr (r, data)
              else if r < 2 then Inr (LIBUSB_ERROR_IO, data)
              else
                rbind (mread 0 2 str) (\<lambda>h.
                if int (unat (h ! 0)) > r then Inr (LIBUSB_ERROR_IO, data)
                else if h ! 1 \<noteq> STRING_TYPE then Inr (LIBUSB_ERROR_IO, data)
                else
                  rbind (ascii_units (str @ [padding]) len 0 ((unat (h ! 0) - 1) div 2) data) (\<lambda>(di, data).
                  rbind (mwrite di [0] data) (\<lambda>data. Inr (int di, data))))))))"

end
