(* ===== verification/UsbRuns.thy ===== *)
theory UsbRuns
  imports UsbRound UsbApi
begin

text \<open>
  libusb: what a program gets from the functions for descriptors when the device answers as it
  should, and that no answer makes them read or write outside their buffers.
\<close>

subsection \<open>Configurations of a device that answers as it should\<close>

text \<open>A descriptor is sent up to the size asked for; the rest of the buffer is as it was.\<close>

definition serves :: "(nat \<Rightarrow> int \<times> byte list) \<Rightarrow> byte list \<Rightarrow> bool" where
  "serves f bytes \<longleftrightarrow> (\<forall>sz. f sz = (int (min sz (length bytes)), take sz bytes @ replicate (sz - length bytes) 0))"

text \<open>A device with a list of configurations, each of which says its own length.\<close>

definition has_configs :: "desc_backend \<Rightarrow> libusb_config_descriptor list \<Rightarrow> bool" where
  "has_configs B cs \<longleftrightarrow> unat (db_num_configs B) = length cs \<and> db_by_value B = None \<and>
     (\<forall>i<length cs. serves (db_config B (of_nat i)) (config_bytes (cs ! i)) \<and> config_fit (cs ! i) \<and>
        unat (cf_wTotalLength (cs ! i)) = length (config_bytes (cs ! i)))"

lemma config_bytes_length: "9 \<le> length (config_bytes c)"
  by (simp add: config_bytes_def)

lemma config_bytes_fields:
  "mread 2 2 (take 9 (config_bytes c)) = Inr (le16 (cf_wTotalLength c))"
  "mread 5 1 (take 9 (config_bytes c)) = Inr [cf_bConfigurationValue c]"
proof -
  obtain x y where w: "le16 (cf_wTotalLength c) = [x, y]" by (rule le16_two)
  show "mread 2 2 (take 9 (config_bytes c)) = Inr (le16 (cf_wTotalLength c))"
    "mread 5 1 (take 9 (config_bytes c)) = Inr [cf_bConfigurationValue c]"
    by (simp_all add: mread_def config_bytes_def w)
qed

lemma configs_short: "has_configs B cs \<Longrightarrow> length cs < 256"
  by (metis has_configs_def unat_byte)

lemma get_config_reads:
  assumes "has_configs B cs" and "i < length cs" and "\<And>n. alloc n"
  shows "get_config_descriptor B (of_nat i) 9 = (9, take 9 (config_bytes (cs ! i)))"
    and "libusb_get_config_descriptor alloc B (of_nat i) = Inr (0, Some (cs ! i))"
proof -
  define c where "c = cs ! i"
  have c: "serves (db_config B (of_nat i)) (config_bytes c)" "config_fit c"
    "unat (cf_wTotalLength c) = length (config_bytes c)"
    using assms(1,2) by (simp_all add: has_configs_def c_def)
  have s: "get_config_descriptor B (of_nat i) 9 = (9, take 9 (config_bytes c))"
    "get_config_descriptor B (of_nat i) (length (config_bytes c)) = (int (length (config_bytes c)), config_bytes c)"
    using c(1) config_bytes_length [of c] by (simp_all add: get_config_descriptor_def long_enough_def serves_def)
  then show "get_config_descriptor B (of_nat i) 9 = (9, take 9 (config_bytes (cs ! i)))" by (simp add: c_def)
  have "unat (of_nat i :: byte) = i" using assms(2) configs_short [OF assms(1)] by (simp add: unat_of_nat)
  then have i: "\<not> db_num_configs B \<le> of_nat i"
    using assms(1,2) by (simp add: has_configs_def word_le_nat_alt)
  have "raw_desc_to_config alloc (config_bytes c) (int (length (config_bytes c))) = Inr (0, Some c)"
    by (rule config_parsed [OF c(2) assms(3)])
  then show "libusb_get_config_descriptor alloc B (of_nat i) = Inr (0, Some (cs ! i))"
    using c(3) assms(3) s i
    by (simp add: libusb_get_config_descriptor_def config_bytes_fields Let_def flip: c_def)
qed

lemma by_value_reads:
  assumes "has_configs B cs" and "\<And>n. alloc n"
  shows "k + n = length cs \<Longrightarrow>
    config_by_value alloc B v (of_nat k) n =
      (case find (\<lambda>c. cf_bConfigurationValue c = v) (drop k cs) of
         None \<Rightarrow> Inr (ERROR_NOT_FOUND, None) | Some c \<Rightarrow> Inr (0, Some c))"
proof (induction n arbitrary: k)
  case (Suc n)
  then have k: "k < length cs" by simp
  then have "drop k cs = cs ! k # drop (Suc k) cs" by (simp add: Cons_nth_drop_Suc)
  then show ?case
    using get_config_reads [OF assms(1) k assms(2)] Suc.IH [of "Suc k"] Suc.prems
    by (simp add: config_bytes_fields(2) [simplified] add.commute)
qed simp

text \<open>
  On a device that serves a list of well-formed configurations, asking for one by its number
  gives it exactly as it is, and asking for one by its value gives the first one with the value, or
  the result LIBUSB_ERROR_NOT_FOUND exactly when there is none.
\<close>
theorem configs_served:
  assumes "has_configs B cs" and "\<And>n. alloc n"
  shows "(\<forall>i<length cs. libusb_get_config_descriptor alloc B (of_nat i) = Inr (0, Some (cs ! i))) \<and>
    libusb_get_config_descriptor_by_value alloc B v =
      (case find (\<lambda>c. cf_bConfigurationValue c = v) cs of
         None \<Rightarrow> Inr (ERROR_NOT_FOUND, None) | Some c \<Rightarrow> Inr (0, Some c))"
proof -
  have "unat (db_num_configs B) = length cs" "db_by_value B = None" using assms(1) by (simp_all add: has_configs_def)
  then show ?thesis
    using get_config_reads(2) [OF assms(1) _ assms(2)] by_value_reads [OF assms, where k = 0 and n = "length cs" and v = v]
    by (simp add: libusb_get_config_descriptor_by_value_def)
qed

subsection \<open>Whatever the device answers\<close>

text \<open>
  The backend fills a buffer of the size asked for and never claims more; a buffer that the backend
  allocates itself has at least the bytes it claims.
\<close>

definition bounded :: "(nat \<Rightarrow> int \<times> byte list) \<Rightarrow> bool" where
  "bounded f \<longleftrightarrow> (\<forall>sz. length (snd (f sz)) = sz \<and> fst (f sz) \<le> int sz)"

definition backend_bounded :: "desc_backend \<Rightarrow> bool" where
  "backend_bounded B \<longleftrightarrow> bounded (db_active B) \<and> (\<forall>i. bounded (db_config B i)) \<and> (\<forall>ty i w. bounded (db_descriptor B ty i w)) \<and>
     (\<forall>f v. db_by_value B = Some f \<longrightarrow> fst (f v) \<le> int (length (snd (f v))))"

lemma boundedD: "bounded f \<Longrightarrow> f sz = (r, buf) \<Longrightarrow> length buf = sz \<and> r \<le> int sz"
  by (metis bounded_def fst_conv snd_conv)

lemma raw_config_safe: "sz \<le> int (length buf) \<Longrightarrow> \<exists>x. raw_desc_to_config alloc buf sz = Inr x"
  using config_parser_total by blast

lemma long_enough_cases:
  assumes "bounded f" and "long_enough (f sz) = (r, buf)"
  shows "length buf = sz" and "r \<le> int sz \<or> r < 0"
proof -
  obtain r0 b0 where f: "f sz = (r0, b0)" by (cases "f sz")
  then have "length b0 = sz \<and> r0 \<le> int sz" by (rule boundedD [OF assms(1)])
  then show "length buf = sz" "r \<le> int sz \<or> r < 0"
    using assms(2) f by (auto simp: long_enough_def desc_errors split: if_splits)
qed

lemma read_config_safe:
  assumes "bounded f" and "long_enough (f 9) = (r, config)"
  shows "\<exists>x. (if r < 0 then Inr (r, None)
    else rbind (mread 2 2 config) (\<lambda>w. let config_len = unat (rd16 w) in
      if \<not> alloc config_len then Inr (LIBUSB_ERROR_NO_MEM, None)
      else (case long_enough (f config_len) of (r, buf) \<Rightarrow>
        if r \<ge> 0 then raw_desc_to_config alloc buf r else Inr (r, None)))) = Inr x"
proof -
  have l: "length config = 9" by (rule long_enough_cases(1) [OF assms])
  define n where "n = unat (rd16 (take 2 (drop 2 config)))"
  obtain q buf where q: "long_enough (f n) = (q, buf)" by (cases "long_enough (f n)")
  have "\<exists>x. raw_desc_to_config alloc buf q = Inr x" if "q \<ge> 0"
    using long_enough_cases [OF assms(1) q] that by (intro raw_config_safe) auto
  then show ?thesis using l q by (auto simp: mread_def Let_def simp flip: n_def)
qed

lemma config_safe:
  assumes "backend_bounded B"
  shows "\<exists>x. libusb_get_active_config_descriptor alloc B = Inr x" and "\<exists>x. libusb_get_config_descriptor alloc B i = Inr x"
proof -
  have b: "bounded (db_active B)" "bounded (db_config B i)" using assms by (simp_all add: backend_bounded_def)
  obtain r c where a: "long_enough (db_active B 9) = (r, c)" by (cases "long_enough (db_active B 9)")
  show "\<exists>x. libusb_get_active_config_descriptor alloc B = Inr x"
    unfolding libusb_get_active_config_descriptor_def get_active_config_descriptor_def a prod.case
    by (rule read_config_safe [OF b(1) a])
  obtain r c where a: "long_enough (db_config B i 9) = (r, c)" by (cases "long_enough (db_config B i 9)")
  show "\<exists>x. libusb_get_config_descriptor alloc B i = Inr x"
    using read_config_safe [OF b(2) a, of alloc]
    unfolding libusb_get_config_descriptor_def get_config_descriptor_def a prod.case by auto
qed

lemma config_by_value_safe:
  assumes "backend_bounded B"
  shows "\<exists>x. config_by_value alloc B v idx n = Inr x"
proof (induction n arbitrary: idx)
  case (Suc n)
  have b: "bounded (db_config B idx)" using assms by (simp add: backend_bounded_def)
  obtain r c where a: "long_enough (db_config B idx 9) = (r, c)" by (cases "long_enough (db_config B idx 9)")
  have l: "length c = 9" by (rule long_enough_cases(1) [OF b a])
  show ?case
    using l config_safe(2) [OF assms, of alloc idx] Suc.IH [of "idx + 1"]
    by (auto simp: get_config_descriptor_def a mread_def)
qed simp

lemma by_value_safe:
  assumes "backend_bounded B"
  shows "\<exists>x. libusb_get_config_descriptor_by_value alloc B v = Inr x"
proof (cases "db_by_value B")
  case None
  then show ?thesis using config_by_value_safe [OF assms] by (simp add: libusb_get_config_descriptor_by_value_def)
next
  case (Some f)
  obtain r buf where f: "f v = (r, buf)" by (cases "f v")
  then have "r \<le> int (length buf)" using assms Some by (metis backend_bounded_def fst_conv snd_conv)
  then show ?thesis
    using raw_config_safe [of r buf alloc] Some f by (simp add: libusb_get_config_descriptor_by_value_def)
qed

subsection \<open>The binary object store and its capabilities\<close>

definition cap_ok :: "byte list \<Rightarrow> bool" where
  "cap_ok cap \<longleftrightarrow> 3 \<le> length cap \<and> unat (cap ! 0) = length cap \<and> cap ! 1 = LIBUSB_DT_DEVICE_CAPABILITY"

lemma parse_caps_safe:
  "sz \<le> int (length buffer) \<Longrightarrow>
   \<exists>r caps. parse_caps alloc i buffer sz = Inr (r, caps) \<and> length caps \<le> i \<and> list_all cap_ok caps"
proof (induction i arbitrary: buffer sz)
  case (Suc i)
  show ?case
  proof (cases "sz < 3")
    case False
    then have h: "mread 0 2 buffer = Inr (take 2 buffer)" "take 2 buffer ! 0 = buffer ! 0" "take 2 buffer ! 1 = buffer ! 1"
      using Suc.prems by (simp_all add: mread_def)
    define l where "l = unat (buffer ! 0)"
    show ?thesis
    proof (cases "buffer ! 1 = LIBUSB_DT_DEVICE_CAPABILITY \<and> 3 \<le> l \<and> int l \<le> sz \<and> alloc l")
      case bad: False
      then show ?thesis using False h by (auto simp: Let_def simp flip: l_def)
    next
      case True
      then have l: "l \<le> length buffer" "sz - int l \<le> int (length (drop l buffer))" using Suc.prems by auto
      obtain r caps where c: "parse_caps alloc i (drop l buffer) (sz - int l) = Inr (r, caps)" "length caps \<le> i" "list_all cap_ok caps"
        using Suc.IH [OF l(2)] by blast
      have "cap_ok (take l buffer)" using True l(1) by (simp add: cap_ok_def l_def)
      then show ?thesis using False True h l(1) c by (simp add: mread_def Let_def flip: l_def)
    qed
  qed simp
qed simp

lemma five_bytes:
  assumes "5 \<le> length xs"
  obtains a b c d e ys where "xs = a # b # c # d # e # ys"
  using assms by (auto simp: numeral_eq_Suc Suc_le_length_iff)

lemma parse_bos_fields: "parse_descriptor ''bbwb'' (a # b # c # d # e # xs) 0 (replicate 5 0) = Inr [a, b, c, d, e]"
proof -
  have r: "replicate 5 (0 :: byte) = [0, 0, 0, 0, 0]" by (simp add: numeral_eq_Suc)
  show ?thesis by (simp add: parse_descriptor.simps mread_def mwrite_def le16_rd16 r)
qed

lemma parse_bos_safe:
  assumes "sz \<le> int (length buffer)"
  shows "\<exists>r bos. parse_bos alloc buffer sz = Inr (r, bos) \<and> (\<forall>b. bos = Some b \<longrightarrow>
    unat (bos_bNumDeviceCaps b) = length (bos_dev_capability b) \<and> list_all cap_ok (bos_dev_capability b))"
proof (cases "sz < 5")
  case True
  then show ?thesis by (simp add: parse_bos_def)
next
  case False
  then have "5 \<le> length buffer" using assms by linarith
  then obtain b0 b1 b2 b3 b4 ys where b: "buffer = b0 # b1 # b2 # b3 # b4 # ys" by (rule five_bytes)
  have h: "mread 0 5 buffer = Inr [b0, b1, b2, b3, b4]" by (simp add: mread_def b)
  have d: "parse_descriptor ''bbwb'' buffer 0 (replicate 5 0) = Inr [b0, b1, b2, b3, b4]" unfolding b by (rule parse_bos_fields)
  define l where "l = unat b0"
  define num where "num = unat b4"
  show ?thesis
  proof (cases "b1 = LIBUSB_DT_BOS \<and> 5 \<le> l \<and> int l \<le> sz \<and> alloc (8 + num * 8)")
    case bad: False
    then show ?thesis using False h by (auto simp: parse_bos_def Let_def simp flip: l_def num_def)
  next
    case True
    then have s: "sz - int l \<le> int (length (drop l buffer))" using assms by auto
    obtain r caps where c: "parse_caps alloc num (drop l buffer) (sz - int l) = Inr (r, caps)" "length caps \<le> num" "list_all cap_ok caps"
      using parse_caps_safe [OF s] by blast
    have "num < 256" by (simp add: num_def)
    then have "length caps < 256" using c(2) by linarith
    then show ?thesis
      using False True h d c by (auto simp: parse_bos_def Let_def unat_of_nat simp flip: l_def num_def)
  qed
qed

lemma bos_safe:
  assumes "backend_bounded B"
  shows "\<exists>r bos. libusb_get_bos_descriptor alloc B = Inr (r, bos) \<and> (\<forall>b. bos = Some b \<longrightarrow> list_all cap_ok (bos_dev_capability b))"
proof -
  have bd: "bounded (db_descriptor B LIBUSB_DT_BOS 0 0)" using assms by (simp add: backend_bounded_def)
  obtain r bos where a: "db_descriptor B LIBUSB_DT_BOS 0 0 5 = (r, bos)" by (cases "db_descriptor B LIBUSB_DT_BOS 0 0 5")
  have l: "length bos = 5" using boundedD [OF bd a] by simp
  define n where "n = unat (rd16 (take 2 (drop 2 bos)))"
  obtain q buf where q: "db_descriptor B LIBUSB_DT_BOS 0 0 n = (q, buf)" by (cases "db_descriptor B LIBUSB_DT_BOS 0 0 n")
  have "q \<le> int (length buf)" using boundedD [OF bd q] by simp
  from parse_bos_safe [OF this, of alloc] obtain r' bos' where "parse_bos alloc buf q = Inr (r', bos')"
    "\<forall>b. bos' = Some b \<longrightarrow> list_all cap_ok (bos_dev_capability b)" by blast
  then show ?thesis
    using l q by (auto simp: libusb_get_bos_descriptor_def a mread_def Let_def simp flip: n_def)
qed

lemma capability_fields:
  "parse_descriptor ''bbbd'' (a # b # c # d # e # f # g # xs) 0 (replicate 8 0) = Inr [a, b, c, 0, d, e, f, g]"
  "parse_descriptor ''bbbbwbbw'' (a # b # c # d # e # f # g # h # i # j # xs) 0 (replicate 10 0) = Inr [a, b, c, d, e, f, g, h, i, j]"
  "16 \<le> length ys \<Longrightarrow> parse_descriptor ''bbbbu'' (a # b # c # d # ys) 0 (replicate 20 0) = Inr (a # b # c # d # take 16 ys)"
proof -
  have r: "replicate 8 (0 :: byte) = [0, 0, 0, 0, 0, 0, 0, 0]" "replicate 10 (0 :: byte) = [0, 0, 0, 0, 0, 0, 0, 0, 0, 0]"
    "replicate 20 (0 :: byte) = [0, 0, 0, 0] @ replicate 16 0"
    by (simp_all add: numeral_eq_Suc)
  show "parse_descriptor ''bbbd'' (a # b # c # d # e # f # g # xs) 0 (replicate 8 0) = Inr [a, b, c, 0, d, e, f, g]"
    by (simp add: parse_descriptor.simps mread_def mwrite_def le32_rd32 r)
  show "parse_descriptor ''bbbbwbbw'' (a # b # c # d # e # f # g # h # i # j # xs) 0 (replicate 10 0) = Inr [a, b, c, d, e, f, g, h, i, j]"
    by (simp add: parse_descriptor.simps mread_def mwrite_def le16_rd16 r)
  show "16 \<le> length ys \<Longrightarrow> parse_descriptor ''bbbbu'' (a # b # c # d # ys) 0 (replicate 20 0) = Inr (a # b # c # d # take 16 ys)"
    by (simp add: parse_descriptor.simps mread_def mwrite_def r)
qed

lemma ten_bytes:
  assumes "10 \<le> length xs"
  obtains a b c d e f g h i j ys where "xs = a # b # c # d # e # f # g # h # i # j # ys"
  using assms by (auto simp: numeral_eq_Suc Suc_le_length_iff)

lemma four_bytes:
  assumes "4 \<le> length xs"
  obtains a b c d ys where "xs = a # b # c # d # ys"
  using assms by (auto simp: numeral_eq_Suc Suc_le_length_iff)

lemma capabilities_safe:
  assumes "cap_ok cap"
  shows "\<exists>x. libusb_get_usb_2_0_extension_descriptor alloc cap = Inr x"
    and "\<exists>x. libusb_get_ss_usb_device_capability_descriptor alloc cap = Inr x"
    and "\<exists>x. libusb_get_container_id_descriptor alloc cap = Inr x"
proof -
  have h: "mread 0 3 cap = Inr (take 3 cap)" "take 3 cap ! 0 = cap ! 0" "take 3 cap ! 2 = cap ! 2" "unat (cap ! 0) = length cap"
    using assms by (simp_all add: cap_ok_def mread_def)
  have ue: "\<exists>d. parse_descriptor ''bbbd'' cap 0 (replicate 8 0) = Inr d" if l: "7 \<le> length cap"
  proof -
    obtain a b c d e f g ys where "cap = a # b # c # d # e # f # g # ys" by (rule seven_bytes [OF l])
    then show ?thesis using capability_fields(1) by blast
  qed
  have ss: "\<exists>d. parse_descriptor ''bbbbwbbw'' cap 0 (replicate 10 0) = Inr d" if l: "10 \<le> length cap"
  proof -
    obtain a b c d e f g h i j ys where "cap = a # b # c # d # e # f # g # h # i # j # ys" by (rule ten_bytes [OF l])
    then show ?thesis using capability_fields(2) by blast
  qed
  have ci: "\<exists>d. parse_descriptor ''bbbbu'' cap 0 (replicate 20 0) = Inr d" if l: "20 \<le> length cap"
  proof -
    have "4 \<le> length cap" using l by simp
    then obtain a b c d ys where c: "cap = a # b # c # d # ys" by (rule four_bytes)
    then have "16 \<le> length ys" using l by simp
    then show ?thesis using capability_fields(3) c by blast
  qed
  show "\<exists>x. libusb_get_usb_2_0_extension_descriptor alloc cap = Inr x"
    using ue by (auto simp: libusb_get_usb_2_0_extension_descriptor_def capability_def h)
  show "\<exists>x. libusb_get_ss_usb_device_capability_descriptor alloc cap = Inr x"
    using ss by (auto simp: libusb_get_ss_usb_device_capability_descriptor_def capability_def h)
  show "\<exists>x. libusb_get_container_id_descriptor alloc cap = Inr x"
    using ci by (auto simp: libusb_get_container_id_descriptor_def capability_def h)
qed

lemma find_companion_safe:
  "sz \<le> int (length buffer) \<Longrightarrow> \<exists>x. find_companion alloc buffer sz = Inr x"
proof (induction alloc buffer sz rule: find_companion.induct)
  case (1 alloc buffer sz)
  show ?case
  proof (cases "sz < 2")
    case True
    then show ?thesis by (simp add: find_companion.simps [of alloc buffer sz])
  next
    case False
    then have h: "mread 0 2 buffer = Inr (take 2 buffer)" "take 2 buffer ! 0 = buffer ! 0" "take 2 buffer ! 1 = buffer ! 1"
      using 1(2) by (simp_all add: mread_def)
    define l where "l = unat (buffer ! 0)"
    show ?thesis
    proof (cases "buffer ! 1 = LIBUSB_DT_SS_ENDPOINT_COMPANION")
      case True
      have "\<exists>d. parse_descriptor ''bbbbw'' buffer 0 (replicate 6 0) = Inr d" if "6 \<le> length buffer"
      proof -
        have r: "replicate 6 (0 :: byte) = [0, 0, 0, 0, 0, 0]" by (simp add: numeral_eq_Suc)
        obtain a b c d e f ys where "buffer = a # b # c # d # e # f # ys"
          using \<open>6 \<le> length buffer\<close> by (auto simp: numeral_eq_Suc Suc_le_length_iff)
        then show ?thesis by (simp add: parse_descriptor.simps mread_def mwrite_def le16_rd16 r)
      qed
      then show ?thesis
        using False True h 1(2) by (auto simp: find_companion.simps [of alloc buffer sz] Let_def simp flip: l_def)
    next
      case other: False
      show ?thesis
      proof (cases "l < 2")
        case True
        then show ?thesis
          using False other h by (simp add: find_companion.simps [of alloc buffer sz] Let_def flip: l_def)
      next
        case go: False
        have "\<exists>x. find_companion alloc (drop l buffer) (sz - int l) = Inr x"
        proof (cases "l \<le> length buffer")
          case True
          then have "sz - int l \<le> int (length (drop l buffer))" using 1(2) by simp
          then show ?thesis
            using 1(1) [OF False h(1) refl] other go unfolding h(2,3) l_def [symmetric] by blast
        next
          case False
          then have "sz - int l < 2" using 1(2) by linarith
          then show ?thesis by (simp add: find_companion.simps [of alloc "drop l buffer"])
        qed
        then show ?thesis
          using False other h go by (auto simp: find_companion.simps [of alloc buffer sz] Let_def simp flip: l_def)
      qed
    qed
  qed
qed

subsection \<open>Strings\<close>

lemma drop_behind: "k < m \<Longrightarrow> k < length xs \<Longrightarrow> drop m (take k xs @ [c] @ drop (Suc k) xs) = drop m xs"
  by (simp add: drop_Cons' min_def not_le)

text \<open>The characters stay in front of the last byte the caller offers, where the NUL still fits.\<close>

lemma ascii_units_safe:
  "2 + 2 * (di + n) \<le> length str \<Longrightarrow> int di \<le> len - 1 \<Longrightarrow> len \<le> int (length data) \<Longrightarrow>
   \<exists>k data'. ascii_units str len di n data = Inr (k, data') \<and> int k \<le> len - 1 \<and> length data' = length data \<and>
     drop (nat len) data' = drop (nat len) data"
proof (induction n arbitrary: di data)
  case 0
  then show ?case by (simp add: ascii_units.simps)
next
  case (Suc n)
  show ?case
  proof (cases "int di \<ge> len - 1")
    case True
    then show ?thesis using Suc.prems by (simp add: ascii_units.simps)
  next
    case False
    define w where "w = take 2 (drop (2 + 2 * di) str)"
    define c :: byte where "c = (if rd16 w < 0x80 then ucast (rd16 w) else 63)"
    define data1 where "data1 = take di data @ [c] @ drop (Suc di) data"
    have r: "mread (2 + 2 * di) 2 str = Inr w" using Suc.prems(1) by (simp add: mread_def w_def)
    have wr: "mwrite di [c] data = Inr data1" using Suc.prems False by (simp add: mwrite_def data1_def)
    have l: "length data1 = length data" using Suc.prems False by (simp add: data1_def)
    have d: "drop (nat len) data1 = drop (nat len) data" unfolding data1_def by (rule drop_behind) (use Suc.prems False in linarith)+
    have "ascii_units str len di (Suc n) data = ascii_units str len (di + 1) n data1"
      using False r wr by (simp add: ascii_units.simps [of str len di "Suc n"] c_def)
    then show ?thesis using Suc.IH [of "di + 1" data1] Suc.prems False l d by simp
  qed
qed

lemma string_safe:
  assumes "backend_bounded B" and "1 \<le> len" and "len \<le> int (length data)"
  shows "\<exists>r data'. libusb_get_string_descriptor_ascii B padding i data len = Inr (r, data') \<and>
    length data' = length data \<and> drop (nat len) data' = drop (nat len) data"
proof -
  have bd: "bounded (db_descriptor B ty j w)" for ty j w using assms(1) by (simp add: backend_bounded_def)
  obtain r str where a: "db_descriptor B STRING_TYPE 0 0 4 = (r, str)" by (cases "db_descriptor B STRING_TYPE 0 0 4")
  have l: "length str = 4" using boundedD [OF bd a] by simp
  define w where "w = rd16 (drop 2 str)"
  obtain q buf where q: "db_descriptor B STRING_TYPE i w 255 = (q, buf)" by (cases "db_descriptor B STRING_TYPE i w 255")
  have lb: "length buf = 255" "q \<le> 255" using boundedD [OF bd q] by simp_all
  have "unat (buf ! 0) < 256" by simp
  then have "(unat (buf ! 0) - 1) div 2 \<le> 127" by linarith
  then obtain k data1 where k: "ascii_units (buf @ [padding]) len 0 ((unat (buf ! 0) - 1) div 2) data = Inr (k, data1)"
    "int k \<le> len - 1" "length data1 = length data" "drop (nat len) data1 = drop (nat len) data"
    using ascii_units_safe [of 0 "(unat (buf ! 0) - 1) div 2" "buf @ [padding]" len data] lb assms(2,3) by auto
  define data2 where "data2 = take k data1 @ [0] @ drop (Suc k) data1"
  have wr: "mwrite k [0] data1 = Inr data2" using k(2,3) assms(3) by (simp add: mwrite_def data2_def)
  have l2: "length data2 = length data" using k(2,3) assms(3) by (simp add: data2_def)
  have "drop (nat len) data2 = drop (nat len) data1" unfolding data2_def by (rule drop_behind) (use k(2,3) assms(3) in linarith)+
  then have d2: "drop (nat len) data2 = drop (nat len) data" using k(4) by simp
  show ?thesis
    using l lb k(1) wr l2 d2 by (auto simp: libusb_get_string_descriptor_ascii_def a mread_def q simp flip: w_def)
qed

text \<open>
  C40. Whatever a device answers, within the size it was asked for, none of the functions for
  descriptors accesses memory outside its buffers, and every capability of the object store they
  return can be given to the functions for capabilities.  The caller's buffer for a string may be
  of any length: of its \<open>len\<close> bytes at least one, none behind them is written.
\<close>
theorem no_answer_faults:
  assumes "backend_bounded B" and "1 \<le> len" and "len \<le> int (length data)"
  shows "(\<exists>x. libusb_get_active_config_descriptor alloc B = Inr x) \<and>
    (\<exists>x. libusb_get_config_descriptor alloc B i = Inr x) \<and>
    (\<exists>x. libusb_get_config_descriptor_by_value alloc B v = Inr x) \<and>
    (\<exists>x. libusb_get_ss_endpoint_companion_descriptor alloc e = Inr x) \<and>
    (\<exists>r data'. libusb_get_string_descriptor_ascii B padding i data len = Inr (r, data') \<and>
      length data' = length data \<and> drop (nat len) data' = drop (nat len) data) \<and>
    (\<exists>r bos. libusb_get_bos_descriptor alloc B = Inr (r, bos) \<and>
      (\<forall>b cap. bos = Some b \<longrightarrow> cap \<in> set (bos_dev_capability b) \<longrightarrow>
        (\<exists>x. libusb_get_usb_2_0_extension_descriptor alloc cap = Inr x) \<and>
        (\<exists>x. libusb_get_ss_usb_device_capability_descriptor alloc cap = Inr x) \<and>
        (\<exists>x. libusb_get_container_id_descriptor alloc cap = Inr x)))"
proof -
  obtain r bos where bos: "libusb_get_bos_descriptor alloc B = Inr (r, bos)" "\<forall>b. bos = Some b \<longrightarrow> list_all cap_ok (bos_dev_capability b)"
    using bos_safe [OF assms(1)] by blast
  have caps: "cap_ok cap" if "bos = Some b" "cap \<in> set (bos_dev_capability b)" for b cap
    using bos(2) that by (simp add: list_all_iff)
  have sc: "\<exists>x. libusb_get_ss_endpoint_companion_descriptor alloc e = Inr x"
    unfolding libusb_get_ss_endpoint_companion_descriptor_def by (rule find_companion_safe) simp
  show ?thesis
    using config_safe [OF assms(1)] by_value_safe [OF assms(1)] string_safe [OF assms] sc bos(1) capabilities_safe caps
    by (intro conjI) blast+
qed

text \<open>A character of a unit: itself, or a question mark when it is not ASCII.\<close>

definition ascii_of :: "u16 \<Rightarrow> byte" where
  "ascii_of w = (if w < 0x80 then ucast w else 63)"

lemma ascii_units_reads:
  "ascii_units (pre @ concat (map le16 ws) @ post) len (length done) (length ws) (done @ room) =
     Inr (length done + min (length ws) (nat (len - 1 - int (length done))),
       done @ map ascii_of (take (nat (len - 1 - int (length done))) ws) @
         drop (min (length ws) (nat (len - 1 - int (length done)))) room)"
  if "length pre = 2 + 2 * length done" and "len \<le> int (length (done @ room))"
  using that
proof (induction ws arbitrary: pre "done" room)
  case Nil
  then show ?case by (simp add: ascii_units.simps)
next
  case (Cons w ws)
  show ?case
  proof (cases "int (length done) \<ge> len - 1")
    case True
    then show ?thesis by (simp add: ascii_units.simps)
  next
    case False
    then obtain x room' where room: "room = x # room'" using Cons.prems(2) by (cases room) auto
    have rd: "mread (2 + 2 * length done) 2 (pre @ le16 w @ concat (map le16 ws) @ post) = Inr (le16 w)"
      using Cons.prems(1) by (simp add: mread_def)
    have wr: "mwrite (length done) [ascii_of w] (done @ room) = Inr ((done @ [ascii_of w]) @ room')"
      by (simp add: mwrite_def room)
    have ih: "ascii_units ((pre @ le16 w) @ concat (map le16 ws) @ post) len (length (done @ [ascii_of w])) (length ws)
        ((done @ [ascii_of w]) @ room') =
      Inr (length (done @ [ascii_of w]) + min (length ws) (nat (len - 1 - int (length (done @ [ascii_of w])))),
        (done @ [ascii_of w]) @ map ascii_of (take (nat (len - 1 - int (length (done @ [ascii_of w])))) ws) @
          drop (min (length ws) (nat (len - 1 - int (length (done @ [ascii_of w]))))) room')"
      using Cons.prems by (intro Cons.IH) (simp_all add: room)
    have left: "nat (len - 1 - int (length done)) = Suc (nat (len - 1 - int (length (done @ [ascii_of w]))))"
      using False by simp
    have "ascii_units (pre @ concat (map le16 (w # ws)) @ post) len (length done) (length (w # ws)) (done @ room) =
        ascii_units ((pre @ le16 w) @ concat (map le16 ws) @ post) len (length (done @ [ascii_of w])) (length ws)
          ((done @ [ascii_of w]) @ room')"
      using False rd wr
      by (subst ascii_units.simps) (simp flip: ascii_of_def)
    then show ?thesis unfolding ih left room by simp
  qed
qed

text \<open>
  When the device serves a string descriptor of at most 126 units in its first language, the
  caller gets the characters, a question mark for each that is not ASCII, as many as its buffer
  has room for beside the NUL, and their number; the rest of the buffer keeps its bytes.
\<close>
theorem string_served:
  assumes "db_descriptor B STRING_TYPE 0 0 4 = (4, [l0, STRING_TYPE] @ le16 language)" and "4 \<le> l0"
    and "serves (db_descriptor B STRING_TYPE i language) ([of_nat (2 + 2 * length ws), STRING_TYPE] @ concat (map le16 ws))"
    and "length ws \<le> 126" and "i \<noteq> 0" and "1 \<le> len" and "len \<le> int (length data)" and "n = min (length ws) (nat (len - 1))"
  shows "libusb_get_string_descriptor_ascii B padding i data len =
    Inr (int n, map ascii_of (take n ws) @ [0] @ drop (Suc n) data)"
proof -
  define bytes where "bytes = [of_nat (2 + 2 * length ws), STRING_TYPE] @ concat (map le16 ws)"
  have "length (concat (map le16 ws)) = 2 * length ws" by (induction ws) simp_all
  then have lb: "length bytes = 2 + 2 * length ws" by (simp add: bytes_def)
  have s: "db_descriptor B STRING_TYPE i language 255 = (int (length bytes), bytes @ replicate (255 - length bytes) 0)"
    using assms(3,4) lb unfolding serves_def bytes_def [symmetric] by simp
  have u: "unat (of_nat (2 + 2 * length ws) :: byte) = 2 + 2 * length ws"
    by (subst unat_of_nat) (use assms(4) in simp)
  have b: "(bytes @ xs) ! 0 = of_nat (2 + 2 * length ws)" "(bytes @ xs) ! 1 = STRING_TYPE" for xs by (simp_all add: bytes_def)
  have n: "n \<le> length ws" "n < length data" "take (nat (len - 1)) ws = take n ws" using assms(6-8) by (auto simp: min_def)
  have units: "ascii_units ((bytes @ replicate (255 - length bytes) 0) @ [padding]) len 0 (length ws) data =
      Inr (n, map ascii_of (take n ws) @ drop n data)"
    using ascii_units_reads [of "[of_nat (2 + 2 * length ws), STRING_TYPE]" "[]" len data ws] assms(7,8) n(3)
    by (simp add: bytes_def)
  have nul: "mwrite n [0] (map ascii_of (take n ws) @ drop n data) = Inr (map ascii_of (take n ws) @ [0] @ drop (Suc n) data)"
    using n(1,2) by (simp add: mwrite_def)
  obtain x y where w: "le16 language = [x, y]" by (rule le16_two)
  then have rd: "rd16 [x, y] = language" using rd16_le16 [of language] by simp
  have first: "mread 0 4 ([l0, STRING_TYPE] @ le16 language) = Inr [l0, STRING_TYPE, x, y]" by (simp add: mread_def w)
  have second: "mread 0 2 (bytes @ replicate (255 - length bytes) 0) = Inr [of_nat (2 + 2 * length ws), STRING_TYPE]"
    by (simp add: mread_def bytes_def)
  have cnt: "(2 + 2 * length ws - 1) div 2 = length ws" by simp
  have l0: "\<not> l0 < 4" using assms(2) by simp
  show ?thesis
    supply of_nat_unat [simp del]
    unfolding libusb_get_string_descriptor_ascii_def assms(1) prod.case first rbind_Inr
    using assms(5) l0 s second u units nul lb by (simp add: rd cnt del: of_nat_add of_nat_mult)
qed

subsection \<open>An object store that is served\<close>

definition bos_bytes :: "libusb_bos_descriptor \<Rightarrow> byte list" where
  "bos_bytes b = [bos_bLength b, bos_bDescriptorType b] @ le16 (bos_wTotalLength b) @ [bos_bNumDeviceCaps b] @
     concat (bos_dev_capability b)"

definition bos_fit :: "libusb_bos_descriptor \<Rightarrow> bool" where
  "bos_fit b \<longleftrightarrow> bos_bLength b = 5 \<and> bos_bDescriptorType b = LIBUSB_DT_BOS \<and>
     unat (bos_wTotalLength b) = length (bos_bytes b) \<and> unat (bos_bNumDeviceCaps b) = length (bos_dev_capability b) \<and>
     list_all cap_ok (bos_dev_capability b)"

lemma parse_caps_bytes:
  assumes "\<And>n. alloc n"
  shows "list_all cap_ok caps \<Longrightarrow> parse_caps alloc (length caps) (concat caps) (int (length (concat caps))) = Inr (0, caps)"
proof (induction caps)
  case (Cons cap caps)
  then have c: "3 \<le> length cap" "unat (cap ! 0) = length cap" "cap ! 1 = LIBUSB_DT_DEVICE_CAPABILITY" by (simp_all add: cap_ok_def)
  have h: "mread 0 2 (cap @ concat caps) = Inr (take 2 cap)" "take 2 cap ! 0 = cap ! 0" "take 2 cap ! 1 = cap ! 1"
    "mread 0 (length cap) (cap @ concat caps) = Inr cap"
    using c(1) by (simp_all add: mread_def)
  have "\<not> int (length (cap @ concat caps)) < 3" "\<not> int (length cap) > int (length (cap @ concat caps))" using c(1) by simp_all
  then show ?case
    using assms c h Cons by (simp add: Let_def)
qed simp

text \<open>A well-formed object store that a device serves is what libusb_get_bos_descriptor returns.\<close>
theorem bos_served:
  assumes "bos_fit b" and "serves (db_descriptor B LIBUSB_DT_BOS 0 0) (bos_bytes b)" and "\<And>n. alloc n"
  shows "libusb_get_bos_descriptor alloc B = Inr (0, Some b)"
proof -
  obtain x y where w: "le16 (bos_wTotalLength b) = [x, y]" by (rule le16_two)
  then have rd: "rd16 [x, y] = bos_wTotalLength b" using rd16_le16 [of "bos_wTotalLength b"] by simp
  define n where "n = length (bos_bytes b)"
  define caps where "caps = bos_dev_capability b"
  have bytes: "bos_bytes b = [5, LIBUSB_DT_BOS, x, y, bos_bNumDeviceCaps b] @ concat caps"
    using assms(1) by (simp add: bos_bytes_def bos_fit_def w caps_def)
  have fit: "unat (bos_wTotalLength b) = n" "unat (bos_bNumDeviceCaps b) = length caps" "list_all cap_ok caps"
    "bos_bLength b = 5" "bos_bDescriptorType b = LIBUSB_DT_BOS"
    using assms(1) by (simp_all add: bos_fit_def n_def caps_def)
  have n5: "5 \<le> n" by (simp add: n_def bytes)
  have s: "db_descriptor B LIBUSB_DT_BOS 0 0 5 = (5, [5, LIBUSB_DT_BOS, x, y, bos_bNumDeviceCaps b])"
    "db_descriptor B LIBUSB_DT_BOS 0 0 n = (int n, bos_bytes b)"
    using assms(2) n5 by (simp_all add: serves_def n_def bytes)
  have h: "mread 0 5 (bos_bytes b) = Inr [5, LIBUSB_DT_BOS, x, y, bos_bNumDeviceCaps b]" by (simp add: mread_def bytes)
  have d: "parse_descriptor ''bbwb'' (bos_bytes b) 0 (replicate 5 0) = Inr [5, LIBUSB_DT_BOS, x, y, bos_bNumDeviceCaps b]"
    unfolding bytes append.simps by (rule parse_bos_fields)
  have rest: "drop 5 (bos_bytes b) = concat caps" "int n - 5 = int (length (concat caps))" by (simp_all add: bytes n_def)
  have small: "of_nat (length caps) = bos_bNumDeviceCaps b" by (simp flip: fit(2))
  have whole: "(bos_at [5, LIBUSB_DT_BOS, x, y, bos_bNumDeviceCaps b])\<lparr>bos_bNumDeviceCaps := bos_bNumDeviceCaps b, bos_dev_capability := caps\<rparr> = b"
    using fit(4,5) rd by (simp add: bos_at_def caps_def)
  have "parse_bos alloc (bos_bytes b) (int n) = Inr (0, Some b)"
    using assms(3) n5 parse_caps_bytes [of alloc caps, OF assms(3) fit(3)] fit(2)
    by (simp add: parse_bos_def h d rest small whole)
  then show ?thesis
    using assms(3) s fit(1) rd by (simp add: libusb_get_bos_descriptor_def mread_def)
qed

subsection \<open>A device\<close>

text \<open>An interface with a vendor descriptor and two endpoints, one of which has a companion.\<close>

definition serve :: "byte list \<Rightarrow> nat \<Rightarrow> int \<times> byte list" where
  "serve bytes sz = (int (min sz (length bytes)), take sz bytes @ replicate (sz - length bytes) 0)"

definition demo_ep :: libusb_endpoint_descriptor where
  "demo_ep = \<lparr>ep_bLength = 7, ep_bDescriptorType = 5, ep_bEndpointAddress = 0x81, ep_bmAttributes = 2, ep_wMaxPacketSize = 512,
     ep_bInterval = 0, ep_bRefresh = 0, ep_bSynchAddress = 0, ep_extra = []\<rparr>"

definition demo_alt :: libusb_interface_descriptor where
  "demo_alt = \<lparr>if_bLength = 9, if_bDescriptorType = 4, if_bInterfaceNumber = 0, if_bAlternateSetting = 0, if_bNumEndpoints = 2,
     if_bInterfaceClass = 255, if_bInterfaceSubClass = 0, if_bInterfaceProtocol = 0, if_iInterface = 0,
     if_endpoint = Some [demo_ep, demo_ep\<lparr>ep_bEndpointAddress := 1, ep_extra := [6, 0x30, 0, 0, 0, 0]\<rparr>],
     if_extra = [3, 0x24, 1]\<rparr>"

definition demo_usb_config :: libusb_config_descriptor where
  "demo_usb_config = \<lparr>cf_bLength = 9, cf_bDescriptorType = 2, cf_wTotalLength = 41, cf_bNumInterfaces = 1,
     cf_bConfigurationValue = 1, cf_iConfiguration = 0, cf_bmAttributes = 0x80, cf_MaxPower = 50,
     cf_interface = [[demo_alt]], cf_extra = []\<rparr>"

definition demo_container :: "byte list" where
  "demo_container = [20, 0x10, 4, 0] @ map of_nat [1..<17]"

definition demo_bos :: libusb_bos_descriptor where
  "demo_bos = \<lparr>bos_bLength = 5, bos_bDescriptorType = 15, bos_wTotalLength = 25, bos_bNumDeviceCaps = 1,
     bos_dev_capability = [demo_container]\<rparr>"

definition demo_units :: "u16 list" where
  "demo_units = [117, 100, 98, 0x3b1]"

definition demo_backend :: desc_backend where
  "demo_backend = \<lparr>db_num_configs = 1, db_active = serve (config_bytes demo_usb_config),
     db_config = (\<lambda>i. serve (config_bytes demo_usb_config)), db_by_value = None,
     db_descriptor = (\<lambda>ty i w. if ty = LIBUSB_DT_BOS then serve (bos_bytes demo_bos)
       else if i = 0 then serve ([4, STRING_TYPE] @ le16 0x409)
       else serve ([10, STRING_TYPE] @ concat (map le16 demo_units)))\<rparr>"

lemma serves_serve: "serves (serve bytes) bytes"
  by (simp add: serves_def serve_def)

lemma bounded_serve: "bounded (serve bytes)"
  by (auto simp: bounded_def serve_def min_def)

lemma extra_one: "2 \<le> length d \<Longrightarrow> unat (d ! 0) = length d \<Longrightarrow> \<not> proper (d ! 1) \<Longrightarrow> extra_ok d"
  using extra_cons [of d "[]"] extra_nil by simp

lemma demo_config_fit: "config_fit demo_usb_config"
proof -
  have "extra_ok [6, 0x30, 0, 0, 0, 0]" "extra_ok [3, 0x24, 1]" by (rule extra_one; simp add: proper_def desc_types)+
  then have "alt_fit demo_alt"
    by (simp add: alt_fit_def demo_alt_def endpoints_of_def ep_fit_def demo_ep_def desc_types extra_nil USB_MAXENDPOINTS_def)
  then show ?thesis
    by (simp add: config_fit_def demo_usb_config_def interface_fit_def desc_types extra_nil USB_MAXINTERFACES_def)
qed

lemma demo_config_length: "length (config_bytes demo_usb_config) = 41"
  by (simp add: config_bytes_def demo_usb_config_def interface_bytes_def alt_bytes_def demo_alt_def endpoints_of_def ep_bytes_def demo_ep_def)

lemma demo_has_configs: "has_configs demo_backend [demo_usb_config]"
  using demo_config_fit demo_config_length
  by (simp add: has_configs_def demo_backend_def serves_serve) (simp add: demo_usb_config_def)

lemma demo_bounded: "backend_bounded demo_backend"
  by (simp add: backend_bounded_def demo_backend_def bounded_serve)

theorem config_reads_back_witness:
  "raw_desc_to_config (\<lambda>_. True) (config_bytes demo_usb_config) 41 = Inr (0, Some demo_usb_config)"
  using config_reads_back [OF demo_config_fit, of "\<lambda>_. True"] demo_config_length by simp

theorem config_parser_safe_witness:
  "\<exists>r c. raw_desc_to_config (\<lambda>n. n < 100) [9, 2, 0, 9, 1] 5 = Inr (r, c) \<and>
     (r < 0 \<and> c = None \<or> r = 0 \<and> (\<exists>config. c = Some config \<and> config_typed config))"
  by (rule config_parser_safe) simp

theorem cut_short_null_endpoints_witness:
  "\<exists>config. raw_desc_to_config (\<lambda>_. True) (take 9 (config_bytes demo_usb_config) @ alt_head demo_alt @ [7, 5]) 20 = Inr (0, Some config) \<and>
     (\<exists>a. cf_interface config = [[a]] \<and> if_bNumEndpoints a = 2 \<and> if_endpoint a = None \<and> \<not> alt_usable a)"
proof -
  have i: "cf_interface demo_usb_config = [[demo_alt]]" "cf_extra demo_usb_config = []" "if_bNumEndpoints demo_alt = 2"
    by (simp_all add: demo_usb_config_def demo_alt_def)
  have "length (take 9 (config_bytes demo_usb_config) @ alt_head demo_alt @ [7, 5]) = 20"
    using demo_config_length by (simp add: alt_head_def)
  then show ?thesis
    using cut_short_null_endpoints [OF demo_config_fit i(1,2) _ _ _ _ refl, of "[7, 5]" "\<lambda>_. True"] i(3) by simp
qed

theorem configs_served_witness:
  "libusb_get_config_descriptor_by_value (\<lambda>_. True) demo_backend 1 = Inr (0, Some demo_usb_config)"
  using configs_served [OF demo_has_configs, of "\<lambda>_. True" 1] by (simp add: demo_usb_config_def)

theorem no_answer_faults_witness:
  "\<exists>r data'. libusb_get_string_descriptor_ascii demo_backend 0 9 [1, 2, 3, 4, 5] 3 = Inr (r, data') \<and> drop 3 data' = [4, 5]"
  using no_answer_faults [OF demo_bounded, of 3 "[1, 2, 3, 4, 5]" "\<lambda>_. True" 9 0 demo_ep 0] by auto

theorem bos_served_witness: "libusb_get_bos_descriptor (\<lambda>_. True) demo_backend = Inr (0, Some demo_bos)"
proof (rule bos_served)
  have l: "length (bos_bytes demo_bos) = 25" by (simp add: bos_bytes_def demo_bos_def demo_container_def)
  have "cap_ok demo_container" by (simp add: cap_ok_def demo_container_def LIBUSB_DT_DEVICE_CAPABILITY_def)
  then show "bos_fit demo_bos" using l by (simp add: bos_fit_def) (simp add: demo_bos_def LIBUSB_DT_BOS_def)
  show "serves (db_descriptor demo_backend LIBUSB_DT_BOS 0 0) (bos_bytes demo_bos)" by (simp add: demo_backend_def serves_serve)
qed simp

theorem string_served_witness:
  "libusb_get_string_descriptor_ascii demo_backend 0 1 [1, 2, 3, 4, 5, 6, 7] 6 = Inr (4, [117, 100, 98, 63, 0, 6, 7])"
proof -
  have ne: "STRING_TYPE \<noteq> LIBUSB_DT_BOS" by (simp add: STRING_TYPE_def LIBUSB_DT_BOS_def)
  have "libusb_get_string_descriptor_ascii demo_backend 0 1 [1, 2, 3, 4, 5, 6, 7] 6 =
      Inr (int 4, map ascii_of (take 4 demo_units) @ [0] @ drop (Suc 4) [1, 2, 3, 4, 5, 6, 7])"
  proof (rule string_served)
    show "db_descriptor demo_backend STRING_TYPE 0 0 4 = (4, [4, STRING_TYPE] @ le16 0x409)"
      using ne by (simp add: demo_backend_def serve_def)
    show "serves (db_descriptor demo_backend STRING_TYPE 1 0x409)
        ([of_nat (2 + 2 * length demo_units), STRING_TYPE] @ concat (map le16 demo_units))"
      using ne by (simp add: demo_backend_def serves_serve demo_units_def)
  qed (simp_all add: demo_units_def)
  then show ?thesis by (simp add: demo_units_def ascii_of_def)
qed

end
