(* ===== verification/UpnpWire.thy ===== *)
theory UpnpWire
  imports UsbDesc
begin

text \<open>
  The language of the daemon minissdpd, which miniupnpc (external/miniupnp/miniupnpc) asks for devices
  before it searches the network itself: the lengths of codelength.h, the request and the reply of
  minissdpc.c.  The socket is the library's: what read gives is a list of chunks, an empty chunk or
  the end of the list a read that fails or finds the end of the stream.
\<close>

unbundle bit_operations_syntax

subsection \<open>Lengths\<close>

text \<open>CODELENGTH: seven bits in a byte, the most significant first; a byte stores the low eight bits.\<close>

definition CODELENGTH :: "u32 \<Rightarrow> byte list" where
  "CODELENGTH n =
     (if n \<ge> 268435456 then [ucast (drop_bit 28 n OR 0x80)] else []) @
     (if n \<ge> 2097152 then [ucast (drop_bit 21 n OR 0x80)] else []) @
     (if n \<ge> 16384 then [ucast (drop_bit 14 n OR 0x80)] else []) @
     (if n \<ge> 128 then [ucast (drop_bit 7 n OR 0x80)] else []) @ [ucast (n AND 0x7f)]"

text \<open>What is unread: the rest of the buffer, and the chunks that read will give.\<close>

type_synonym unread = "byte list \<times> byte list list"

primrec next_byte :: "unread \<Rightarrow> (byte \<times> unread) option" where
  "next_byte (buf, rs) =
     (case buf of c # cs \<Rightarrow> Some (c, cs, rs)
      | [] \<Rightarrow> (case rs of [] \<Rightarrow> None | r # rs' \<Rightarrow> (case r of [] \<Rightarrow> None | c # cs \<Rightarrow> Some (c, cs, rs'))))"

definition unread_size :: "unread \<Rightarrow> nat" where
  "unread_size u = length (fst u @ concat (snd u))"

lemma next_byte_smaller: "next_byte u = Some (c, u') \<Longrightarrow> unread_size u' < unread_size u"
  by (cases u) (auto simp: unread_size_def split: list.splits)

text \<open>DECODELENGTH_READ over READ_BYTE_BUFFER.\<close>

function decode_length :: "u32 \<Rightarrow> unread \<Rightarrow> (u32 \<times> unread) option" where
  "decode_length n u =
     (case next_byte u of None \<Rightarrow> None
      | Some (c, u') \<Rightarrow>
        let n' = push_bit 7 n OR (ucast c AND 0x7f) in
        if c AND 0x80 = 0 then Some (n', u')
        else if n' < 33554432 then decode_length n' u' else Some (n', u'))"
  by pat_completeness auto
termination by (relation "measure (\<lambda>(n, u). unread_size u)") (auto simp: next_byte_smaller)

declare decode_length.simps [simp del]

text \<open>READ_COPY_BUFFER.\<close>

primrec copy_chunks :: "byte list list \<Rightarrow> nat \<Rightarrow> byte list \<Rightarrow> (byte list \<times> unread) option" where
  "copy_chunks [] l buf = (if l \<le> length buf then Some (take l buf, drop l buf, []) else None)"
| "copy_chunks (r # rs) l buf =
     (if l \<le> length buf then Some (take l buf, drop l buf, r # rs)
      else if r = [] then None
      else (case copy_chunks rs (l - length buf) r of None \<Rightarrow> None
            | Some (d, u) \<Rightarrow> Some (buf @ d, u)))"

definition copy_buffer :: "nat \<Rightarrow> unread \<Rightarrow> (byte list \<times> unread) option" where
  "copy_buffer l u = copy_chunks (snd u) l (fst u)"

subsection \<open>Devices\<close>

text \<open>
  struct UPNPDev: the three strings are stored one behind the other, each with a NUL; \<open>dev_buffer\<close>
  is the buffer as it lies in memory.  The scope stays 0: the build does not define
  MINIUPNPC_GET_SRC_ADDR.
\<close>

record upnp_dev =
  dev_descURL :: string
  dev_st :: string
  dev_usn :: string

definition NUL :: char where "NUL = CHR 0x00"

definition dev_buffer :: "upnp_dev \<Rightarrow> string" where
  "dev_buffer d = dev_descURL d @ NUL # dev_st d @ NUL # dev_usn d @ [NUL]"

text \<open>A string of C ends at the first NUL.\<close>

definition c_str :: "string \<Rightarrow> string" where
  "c_str s = takeWhile (\<lambda>c. c \<noteq> NUL) s"

lemma c_str_clean [simp]: "NUL \<notin> set s \<Longrightarrow> c_str s = s"
  unfolding c_str_def by (induction s) auto

lemma c_str_no_nul [simp]: "NUL \<notin> set (c_str s)"
  unfolding c_str_def by (auto dest: set_takeWhileD)

definition chars :: "byte list \<Rightarrow> string" where
  "chars bs = map (\<lambda>b. char_of (unat b)) bs"

definition bytes_of :: "string \<Rightarrow> byte list" where
  "bytes_of s = map (\<lambda>c. of_nat (of_char c)) s"

lemma chars_bytes_of [simp]: "chars (bytes_of s) = s"
  by (induction s) (simp_all add: chars_def bytes_of_def unat_of_nat)

lemma length_bytes_of [simp]: "length (bytes_of s) = length s"
  by (simp add: bytes_of_def)

subsection \<open>Asking minissdpd\<close>

definition MINISSDPC_SUCCESS :: int where "MINISSDPC_SUCCESS = 0"
definition MINISSDPC_UNKNOWN_ERROR :: int where "MINISSDPC_UNKNOWN_ERROR = - 1"
definition MINISSDPC_SOCKET_ERROR :: int where "MINISSDPC_SOCKET_ERROR = - 101"
definition MINISSDPC_MEMORY_ERROR :: int where "MINISSDPC_MEMORY_ERROR = - 102"
definition MINISSDPC_INVALID_INPUT :: int where "MINISSDPC_INVALID_INPUT = - 103"
definition MINISSDPC_INVALID_SERVER_REPLY :: int where "MINISSDPC_INVALID_SERVER_REPLY = - 104"

text \<open>
  requestDevicesFromMiniSSDPD: what is written to the socket, from a buffer of 256 bytes.  A length
  of strlen fits an unsigned int for every string that is shorter than the address space.
\<close>

definition request_devices :: "string \<Rightarrow> int + byte list" where
  "request_devices devtype =
     (let stsize = length devtype; kind = (if devtype = ''ssdp:all'' then 3 else 1);
          len = CODELENGTH (of_nat stsize) in
      if 1 + length len + stsize > 256 then Inl MINISSDPC_INVALID_INPUT
      else Inr (kind # len @ bytes_of devtype))"

text \<open>
  The devices of the reply, each put in front of the list; the result has the code for *error.
  malloc succeeds for the sizes \<open>alloc\<close> names.
\<close>

primrec receive_devs :: "(nat \<Rightarrow> bool) \<Rightarrow> nat \<Rightarrow> unread \<Rightarrow> upnp_dev list \<Rightarrow> upnp_dev list \<times> int" where
  "receive_devs alloc 0 u devlist = (devlist, MINISSDPC_SUCCESS)"
| "receive_devs alloc (Suc k) u devlist =
     (case decode_length 0 u of None \<Rightarrow> (devlist, MINISSDPC_INVALID_SERVER_REPLY)
      | Some (urlsize, u) \<Rightarrow>
      if \<not> alloc (unat urlsize) then (devlist, MINISSDPC_MEMORY_ERROR)
      else case copy_buffer (unat urlsize) u of None \<Rightarrow> (devlist, MINISSDPC_INVALID_SERVER_REPLY)
      | Some (url, u) \<Rightarrow>
      case decode_length 0 u of None \<Rightarrow> (devlist, MINISSDPC_INVALID_SERVER_REPLY)
      | Some (stsize, u) \<Rightarrow>
      if \<not> alloc (unat stsize) then (devlist, MINISSDPC_MEMORY_ERROR)
      else case copy_buffer (unat stsize) u of None \<Rightarrow> (devlist, MINISSDPC_INVALID_SERVER_REPLY)
      | Some (st, u) \<Rightarrow>
      case decode_length 0 u of None \<Rightarrow> (devlist, MINISSDPC_INVALID_SERVER_REPLY)
      | Some (usnsize, u) \<Rightarrow>
      if \<not> alloc (40 + unat urlsize + unat stsize + unat usnsize) then (devlist, MINISSDPC_MEMORY_ERROR)
      else case copy_buffer (unat usnsize) u of None \<Rightarrow> (devlist, MINISSDPC_INVALID_SERVER_REPLY)
      | Some (usn, u) \<Rightarrow>
        receive_devs alloc k u
          (\<lparr>dev_descURL = chars url, dev_st = chars st, dev_usn = chars usn\<rparr> # devlist))"

definition receive_devices :: "(nat \<Rightarrow> bool) \<Rightarrow> byte list list \<Rightarrow> upnp_dev list \<times> int" where
  "receive_devices alloc reads =
     (case reads of [] \<Rightarrow> ([], MINISSDPC_SOCKET_ERROR)
      | r # rs \<Rightarrow> (case r of [] \<Rightarrow> ([], MINISSDPC_SOCKET_ERROR)
                | c # cs \<Rightarrow> receive_devs alloc (unat c) (cs, rs) []))"

text \<open>
  getDevicesFromMiniSSDPD: what connect, write and read do is the parameter \<open>daemon\<close>: None when the
  socket cannot be connected, or the answer to a request, None when write fails.
\<close>

definition devices_from_daemon ::
  "(nat \<Rightarrow> bool) \<Rightarrow> (byte list \<Rightarrow> byte list list option) option \<Rightarrow> string \<Rightarrow> upnp_dev list \<times> int" where
  "devices_from_daemon alloc daemon devtype =
     (case daemon of None \<Rightarrow> ([], MINISSDPC_SOCKET_ERROR)
      | Some answer \<Rightarrow>
        (case request_devices devtype of Inl e \<Rightarrow> ([], e)
         | Inr req \<Rightarrow> (case answer req of None \<Rightarrow> ([], MINISSDPC_SOCKET_ERROR)
                     | Some reads \<Rightarrow> receive_devices alloc reads)))"

subsection \<open>How the stream is cut does not matter\<close>

definition unread_flat :: "unread \<Rightarrow> byte list" where
  "unread_flat u = fst u @ concat (snd u)"

definition unread_live :: "unread \<Rightarrow> bool" where
  "unread_live u \<longleftrightarrow> [] \<notin> set (snd u)"

definition same_stream :: "unread \<Rightarrow> unread \<Rightarrow> bool" where
  "same_stream u v \<longleftrightarrow> unread_live u \<and> unread_live v \<and> unread_flat u = unread_flat v"

lemma next_byte_end: "unread_live u \<Longrightarrow> unread_flat u = [] \<Longrightarrow> next_byte u = None"
  by (cases u) (auto simp: unread_flat_def unread_live_def split: list.splits)

lemma next_byte_flat:
  "unread_live u \<Longrightarrow> unread_flat u = c # cs \<Longrightarrow>
   \<exists>u'. next_byte u = Some (c, u') \<and> unread_live u' \<and> unread_flat u' = cs"
  by (cases u) (auto simp: unread_flat_def unread_live_def split: list.splits)

lemma copy_chunks_flat:
  assumes "[] \<notin> set rs" "l \<le> length (buf @ concat rs)"
  shows "\<exists>u'. copy_chunks rs l buf = Some (take l (buf @ concat rs), u') \<and> unread_live u' \<and>
           unread_flat u' = drop l (buf @ concat rs)"
  using assms
proof (induction rs arbitrary: l buf)
  case Nil
  then show ?case by (simp add: unread_live_def unread_flat_def)
next
  case (Cons r rs)
  show ?case
  proof (cases "l \<le> length buf")
    case True
    then show ?thesis using Cons.prems by (simp add: unread_live_def unread_flat_def)
  next
    case False
    have "[] \<notin> set rs" "l - length buf \<le> length (r @ concat rs)" using Cons.prems by auto
    from Cons.IH [OF this] obtain u' where "copy_chunks rs (l - length buf) r = Some (take (l - length buf) (r @ concat rs), u')"
      "unread_live u'" "unread_flat u' = drop (l - length buf) (r @ concat rs)" by blast
    then show ?thesis using False Cons.prems by (cases u') auto
  qed
qed

lemma copy_chunks_short: "l > length (buf @ concat rs) \<Longrightarrow> copy_chunks rs l buf = None"
proof (induction rs arbitrary: l buf)
  case (Cons r rs)
  have "copy_chunks rs (l - length buf) r = None" using Cons.prems by (intro Cons.IH) simp
  then show ?case using Cons.prems by simp
qed simp

lemma copy_buffer_flat:
  assumes "unread_live u" "unread_flat u = d @ rest" "length d = l"
  shows "\<exists>u'. copy_buffer l u = Some (d, u') \<and> unread_live u' \<and> unread_flat u' = rest"
proof -
  have e: "fst u @ concat (snd u) = d @ rest" using assms(2) by (simp add: unread_flat_def)
  have "[] \<notin> set (snd u)" "l \<le> length (fst u @ concat (snd u))"
    using assms by (simp_all add: unread_live_def e)
  from copy_chunks_flat [OF this] show ?thesis using assms(3) by (simp add: e copy_buffer_def)
qed

lemma copy_buffer_short: "unread_flat u = d \<Longrightarrow> length d < l \<Longrightarrow> copy_buffer l u = None"
  unfolding copy_buffer_def by (rule copy_chunks_short) (auto simp: unread_flat_def)

text \<open>Two readers of the same stream read the same, and go on with the same stream.\<close>

definition same_read :: "('a \<times> unread) option \<Rightarrow> ('a \<times> unread) option \<Rightarrow> bool" where
  "same_read r s \<longleftrightarrow>
     (case r of None \<Rightarrow> s = None
      | Some (a, u) \<Rightarrow> (case s of None \<Rightarrow> False | Some (b, v) \<Rightarrow> a = b \<and> same_stream u v))"

lemma same_readE:
  assumes "same_read r s"
  obtains "r = None" "s = None"
  | a u v where "r = Some (a, u)" "s = Some (a, v)" "same_stream u v"
  using assms by (auto simp: same_read_def split: option.splits)

lemma next_byte_same: "same_stream u v \<Longrightarrow> same_read (next_byte u) (next_byte v)"
proof (cases "unread_flat u")
  case Nil
  moreover assume "same_stream u v"
  ultimately show ?thesis
    using next_byte_end [of u] next_byte_end [of v] by (simp add: same_stream_def same_read_def)
next
  case (Cons c cs)
  moreover assume "same_stream u v"
  ultimately show ?thesis
    using next_byte_flat [of u c cs] next_byte_flat [of v c cs] by (auto simp: same_stream_def same_read_def)
qed

lemma decode_length_same: "same_stream u v \<Longrightarrow> same_read (decode_length n u) (decode_length n v)"
proof (induction n u arbitrary: v rule: decode_length.induct)
  case (1 n u)
  from next_byte_same [OF "1.prems"] show ?case
  proof (cases rule: same_readE)
    case 1
    then show ?thesis by (simp add: decode_length.simps [of n u] decode_length.simps [of n v] same_read_def)
  next
    case (2 c u' v')
    with "1.IH" [of "(c, u')" c u' "push_bit 7 n OR (ucast c AND 0x7f)" v'] show ?thesis
      by (simp add: decode_length.simps [of n u] decode_length.simps [of n v] Let_def same_read_def)
  qed
qed

lemma copy_buffer_same: "same_stream u v \<Longrightarrow> same_read (copy_buffer l u) (copy_buffer l v)"
proof (cases "l \<le> length (unread_flat u)")
  case True
  define d rest where "d = take l (unread_flat u)" and "rest = drop l (unread_flat u)"
  have "unread_flat u = d @ rest" "length d = l" using True by (simp_all add: d_def rest_def)
  moreover assume "same_stream u v"
  ultimately show ?thesis
    using copy_buffer_flat [of u d rest l] copy_buffer_flat [of v d rest l] by (auto simp: same_stream_def same_read_def)
next
  case False
  moreover assume "same_stream u v"
  ultimately show ?thesis
    using copy_buffer_short [of u _ l] copy_buffer_short [of v _ l] by (simp add: same_stream_def same_read_def)
qed

lemma same_case:
  assumes "same_read r s" "\<And>a u v. same_stream u v \<Longrightarrow> f a u = g a v"
  shows "(case r of None \<Rightarrow> X | Some (a, u) \<Rightarrow> f a u) = (case s of None \<Rightarrow> X | Some (a, u) \<Rightarrow> g a u)"
  using assms by (elim same_readE) auto

lemma receive_devs_same:
  "same_stream u v \<Longrightarrow> receive_devs alloc k u devlist = receive_devs alloc k v devlist"
proof (induction k arbitrary: u v devlist)
  case (Suc k)
  show ?case unfolding receive_devs.simps
    by (intro same_case decode_length_same copy_buffer_same if_cong refl Suc; assumption)
qed simp

theorem daemon_chunks:
  assumes "[] \<notin> set reads"
  shows "receive_devices alloc reads = receive_devices alloc (if reads = [] then [] else [concat reads])"
proof (cases reads)
  case (Cons r rs)
  then obtain c cs where r: "r = c # cs" using assms by (cases r) auto
  have "same_stream (cs, rs) (cs @ concat rs, [])"
    using assms Cons by (simp add: same_stream_def unread_live_def unread_flat_def)
  then show ?thesis using Cons r by (simp add: receive_devices_def receive_devs_same)
qed (simp add: receive_devices_def)

subsection \<open>What the daemon sends is what is received\<close>

lemma decode_step:
  assumes "c AND 0x80 \<noteq> 0" "unread_live u" "unread_flat u = c # cs" "push_bit 7 n OR (ucast c AND 0x7f) < 33554432"
  shows "\<exists>u'. unread_live u' \<and> unread_flat u' = cs \<and>
           decode_length n u = decode_length (push_bit 7 n OR (ucast c AND 0x7f)) u'"
proof -
  obtain u' where "next_byte u = Some (c, u')" "unread_live u'" "unread_flat u' = cs"
    using next_byte_flat [OF assms(2,3)] by blast
  then show ?thesis using assms(1,4) by (intro exI [of _ u']) (simp add: decode_length.simps [of n u])
qed

lemma decode_last:
  assumes "c AND 0x80 = 0" "unread_live u" "unread_flat u = c # cs"
  shows "\<exists>u'. unread_live u' \<and> unread_flat u' = cs \<and>
           decode_length n u = Some (push_bit 7 n OR (ucast c AND 0x7f), u')"
proof -
  obtain u' where "next_byte u = Some (c, u')" "unread_live u'" "unread_flat u' = cs"
    using next_byte_flat [OF assms(2,3)] by blast
  then show ?thesis using assms(1) by (intro exI [of _ u']) (simp add: decode_length.simps [of n u])
qed

lemma code_bits:
  fixes n :: u32
  shows "push_bit 7 (drop_bit (k + 7) n) OR (ucast (ucast (drop_bit k n OR 0x80) :: byte) AND 0x7f) = drop_bit k n"
    and "(ucast (drop_bit k n OR 0x80) :: byte) AND 0x80 \<noteq> 0"
    and "push_bit 7 (drop_bit 7 n) OR (ucast (ucast (n AND 0x7f) :: byte) AND 0x7f) = n"
    and "(ucast (n AND 0x7f) :: byte) AND 0x80 = 0"
proof -
  have w: "(0x80 :: u32) = push_bit 7 1" "(0x7f :: u32) = mask 7" "(0x80 :: byte) = push_bit 7 1"
    by (simp_all add: mask_eq_exp_minus_1)
  show "push_bit 7 (drop_bit (k + 7) n) OR (ucast (ucast (drop_bit k n OR 0x80) :: byte) AND 0x7f) = drop_bit k n"
    unfolding w
  proof (rule bit_word_eqI)
    fix i assume "i < LENGTH(32)"
    moreover have "bit (push_bit 7 1 :: u32) i \<longleftrightarrow> i = 7" if "i < 32" for i
      using that by (auto simp only: bit_push_bit_iff bit_1_iff) auto
    moreover have "7 \<le> i \<Longrightarrow> k + 7 + (i - 7) = k + i" by simp
    ultimately show "bit (push_bit 7 (drop_bit (k + 7) n) OR (ucast (ucast (drop_bit k n OR push_bit 7 1) :: byte) AND mask 7)) i =
        bit (drop_bit k n) i"
      by (cases "i < 7") (simp_all add: bit_simps del: push_bit_of_1)
  qed
  show "push_bit 7 (drop_bit 7 n) OR (ucast (ucast (n AND 0x7f) :: byte) AND 0x7f) = n"
    unfolding w by (rule bit_word_eqI) (auto simp: bit_simps, metis le_add_diff_inverse not_less)
  show "(ucast (n AND 0x7f) :: byte) AND 0x80 = 0"
    unfolding w by (rule bit_word_eqI) (auto simp: bit_simps simp del: push_bit_of_1)
  have "bit ((ucast (drop_bit k n OR 0x80) :: byte) AND 0x80) 7"
    unfolding w by (simp add: bit_simps)
  then show "(ucast (drop_bit k n OR 0x80) :: byte) AND 0x80 \<noteq> 0" by auto
qed

definition decodes :: "u32 \<Rightarrow> unread \<Rightarrow> u32 \<Rightarrow> byte list \<Rightarrow> bool" where
  "decodes acc u n rest \<longleftrightarrow>
     (\<exists>u'. decode_length acc u = Some (n, u') \<and> unread_live u' \<and> unread_flat u' = rest)"

lemma decodes_last:
  "unread_live u \<Longrightarrow> unread_flat u = ucast (n AND 0x7f) # rest \<Longrightarrow> decodes (drop_bit 7 n) u n rest"
  using decode_last [of "ucast (n AND 0x7f)" u rest "drop_bit 7 n"] code_bits (3,4) [of n]
  unfolding decodes_def by metis

lemma unat_drop:
  fixes n :: u32
  shows "unat (drop_bit j n) = unat n div 2 ^ j"
  unfolding unat_drop_bit_eq by (rule drop_bit_eq_div)

lemma drop_bit_small:
  fixes n :: u32
  shows "unat n < 2 ^ j \<Longrightarrow> drop_bit j n = 0"
  by (simp add: word_unat_eq_iff unat_drop)

lemma drop_bit_below:
  fixes n :: u32
  shows "7 \<le> k \<Longrightarrow> drop_bit k n < 33554432"
proof -
  assume k: "7 \<le> k"
  have "unat n div 2 ^ k \<le> unat n div 2 ^ 7" using k by (intro div_le_mono2 power_increasing) auto
  also have "\<dots> < 33554432" using unat_u32 [of n] by (simp add: less_mult_imp_div_less)
  finally show ?thesis by (simp add: word_less_nat_alt unat_drop)
qed

lemma decodes_more:
  assumes "unread_live u" "unread_flat u = ucast (drop_bit k n OR 0x80) # cs" "7 \<le> k"
    and next_bytes: "\<And>u'. unread_live u' \<Longrightarrow> unread_flat u' = cs \<Longrightarrow> decodes (drop_bit k n) u' n rest"
  shows "decodes (drop_bit (k + 7) n) u n rest"
proof -
  note bits = code_bits (1) [of k n] code_bits (2) [of k n]
  have "push_bit 7 (drop_bit (k + 7) n) OR (ucast (ucast (drop_bit k n OR 0x80) :: byte) AND 0x7f) < 33554432"
    unfolding bits (1) by (rule drop_bit_below [OF assms(3)])
  from decode_step [OF bits (2) assms(1,2) this] obtain u' where
    "unread_live u'" "unread_flat u' = cs" "decode_length (drop_bit (k + 7) n) u = decode_length (drop_bit k n) u'"
    unfolding bits (1) by blast
  then show ?thesis using next_bytes [of u'] by (simp add: decodes_def)
qed

lemma decodes_CODELENGTH:
  assumes "unread_live u" "unread_flat u = CODELENGTH n @ rest"
  shows "decodes 0 u n rest"
proof -
  note m7 = decodes_more [where k = 7 and n = n and rest = rest, simplified]
    and m14 = decodes_more [where k = 14 and n = n and rest = rest, simplified]
    and m21 = decodes_more [where k = 21 and n = n and rest = rest, simplified]
    and m28 = decodes_more [where k = 28 and n = n and rest = rest, simplified]
  note m = decodes_last m7 [OF _ _ decodes_last] m14 [OF _ _ m7 [OF _ _ decodes_last]]
    m21 [OF _ _ m14 [OF _ _ m7 [OF _ _ decodes_last]]] m28 [OF _ _ m21 [OF _ _ m14 [OF _ _ m7 [OF _ _ decodes_last]]]]
  note z = drop_bit_small [of n 7] drop_bit_small [of n 14] drop_bit_small [of n 21] drop_bit_small [of n 28]
    drop_bit_small [of n 35] unat_u32 [of n]
  note code = assms(2) [unfolded CODELENGTH_def word_le_nat_alt]
  consider "unat n < 128" | "128 \<le> unat n" "unat n < 16384" | "16384 \<le> unat n" "unat n < 2097152"
    | "2097152 \<le> unat n" "unat n < 268435456" | "268435456 \<le> unat n" by linarith
  then show ?thesis
  proof cases
    case 1
    then show ?thesis using m(1) [OF assms(1), of n rest] code z by simp
  next
    case 2
    then show ?thesis using m(2) [OF assms(1)] code z by simp
  next
    case 3
    then show ?thesis using m(3) [OF assms(1)] code z by simp
  next
    case 4
    then show ?thesis using m(4) [OF assms(1)] code z by simp
  next
    case 5
    then show ?thesis using m(5) [OF assms(1)] code z by simp
  qed
qed

text \<open>The reply that a daemon with these devices, at most 255, sends.\<close>

definition daemon_device :: "upnp_dev \<Rightarrow> byte list" where
  "daemon_device d =
     CODELENGTH (of_nat (length (dev_descURL d))) @ bytes_of (dev_descURL d) @
     CODELENGTH (of_nat (length (dev_st d))) @ bytes_of (dev_st d) @
     CODELENGTH (of_nat (length (dev_usn d))) @ bytes_of (dev_usn d)"

definition daemon_reply :: "upnp_dev list \<Rightarrow> byte list" where
  "daemon_reply ds = of_nat (length ds) # concat (map daemon_device ds)"

definition dev_fits :: "upnp_dev \<Rightarrow> bool" where
  "dev_fits d \<longleftrightarrow> length (dev_descURL d) + length (dev_st d) + length (dev_usn d) < 4294967290"

lemma field_received:
  assumes "unread_live u" "unread_flat u = CODELENGTH (of_nat (length s)) @ bytes_of s @ rest" "length s < 4294967296"
  obtains v w where "decode_length 0 u = Some (of_nat (length s), v)"
    "copy_buffer (length s) v = Some (bytes_of s, w)" "unread_live w" "unread_flat w = rest"
proof -
  obtain v where v: "decode_length 0 u = Some (of_nat (length s), v)" "unread_live v" "unread_flat v = bytes_of s @ rest"
    using decodes_CODELENGTH [OF assms(1,2)] by (auto simp: decodes_def)
  from copy_buffer_flat [OF v (2,3), of "length s"] obtain w where
    "copy_buffer (length s) v = Some (bytes_of s, w)" "unread_live w" "unread_flat w = rest" by auto
  with v (1) show ?thesis by (rule that)
qed

lemma devices_received:
  assumes "unread_live u" "unread_flat u = concat (map daemon_device ds) @ rest" "list_all dev_fits ds" "\<And>n. alloc n"
  shows "receive_devs alloc (length ds) u devlist = (rev ds @ devlist, MINISSDPC_SUCCESS)"
  using assms(1-3)
proof (induction ds arbitrary: u devlist)
  case (Cons d ds)
  have fits: "length (dev_descURL d) < 4294967296" "length (dev_st d) < 4294967296" "length (dev_usn d) < 4294967296"
    using Cons.prems by (simp_all add: dev_fits_def)
  have first: "unread_flat u = CODELENGTH (of_nat (length (dev_descURL d))) @ bytes_of (dev_descURL d) @
      CODELENGTH (of_nat (length (dev_st d))) @ bytes_of (dev_st d) @ CODELENGTH (of_nat (length (dev_usn d))) @
      bytes_of (dev_usn d) @ concat (map daemon_device ds) @ rest"
    using Cons.prems by (simp add: daemon_device_def [of d])
  obtain v1 w1 where 1: "decode_length 0 u = Some (of_nat (length (dev_descURL d)), v1)"
    "copy_buffer (length (dev_descURL d)) v1 = Some (bytes_of (dev_descURL d), w1)"
    and w1: "unread_live w1" "unread_flat w1 = CODELENGTH (of_nat (length (dev_st d))) @ bytes_of (dev_st d) @
      CODELENGTH (of_nat (length (dev_usn d))) @ bytes_of (dev_usn d) @ concat (map daemon_device ds) @ rest"
    using field_received [OF Cons.prems (1) first fits (1)] by metis
  obtain v2 w2 where 2: "decode_length 0 w1 = Some (of_nat (length (dev_st d)), v2)"
    "copy_buffer (length (dev_st d)) v2 = Some (bytes_of (dev_st d), w2)"
    and w2: "unread_live w2" "unread_flat w2 = CODELENGTH (of_nat (length (dev_usn d))) @ bytes_of (dev_usn d) @
      concat (map daemon_device ds) @ rest"
    using field_received [OF w1 fits (2)] by metis
  obtain v3 w3 where 3: "decode_length 0 w2 = Some (of_nat (length (dev_usn d)), v3)"
    "copy_buffer (length (dev_usn d)) v3 = Some (bytes_of (dev_usn d), w3)"
    and w3: "unread_live w3" "unread_flat w3 = concat (map daemon_device ds) @ rest"
    using field_received [OF w2 fits (3)] by metis
  show ?case using Cons.IH [OF w3] Cons.prems by (simp add: 1 2 3 fits assms(4))
qed simp

text \<open>
  C34. The devices a daemon writes, up to 255, are the devices received, the last one first, however
  the stream of the socket is cut into reads.
\<close>

theorem daemon_reply_received:
  assumes "length ds < 256" "list_all dev_fits ds" "\<And>n. alloc n" "[] \<notin> set reads" "concat reads = daemon_reply ds"
  shows "receive_devices alloc reads = (rev ds, MINISSDPC_SUCCESS)"
proof -
  have "unread_live (concat (map daemon_device ds), [])" by (simp add: unread_live_def)
  from devices_received [OF this _ assms(2,3), of "[]"] have
    "receive_devs alloc (length ds) (concat (map daemon_device ds), []) [] = (rev ds, MINISSDPC_SUCCESS)"
    by (simp add: unread_flat_def)
  moreover have "reads \<noteq> []" using assms(5) by (auto simp: daemon_reply_def)
  ultimately show ?thesis
    using assms(1) by (subst daemon_chunks [OF assms(4)])
      (simp add: assms(5) receive_devices_def daemon_reply_def unat_of_nat)
qed

definition demo_known :: "upnp_dev list" where
  "demo_known = [\<lparr>dev_descURL = ''http://10.0.0.2/a'', dev_st = ''upnp:rootdevice'', dev_usn = ''uuid:1''\<rparr>,
     \<lparr>dev_descURL = ''http://10.0.0.3/b'', dev_st = ''urn:x'', dev_usn = []\<rparr>]"

theorem daemon_reply_received_witness:
  "receive_devices (\<lambda>_. True) [take 5 (daemon_reply demo_known), drop 5 (daemon_reply demo_known)] =
    (rev demo_known, MINISSDPC_SUCCESS)"
proof (rule daemon_reply_received)
  show "length demo_known < 256" "list_all dev_fits demo_known" by (simp_all add: demo_known_def dev_fits_def)
  have "5 < length (daemon_reply demo_known)" by (simp add: daemon_reply_def daemon_device_def demo_known_def)
  then show "[] \<notin> set [take 5 (daemon_reply demo_known), drop 5 (daemon_reply demo_known)]" by auto
qed simp_all

end
