(* ===== verification/Ssdp.thy ===== *)
theory Ssdp
  imports UpnpWire HubOpts TextFmt
begin

text \<open>
  The search for UPnP devices of miniupnpc: the reader of a reply to M-SEARCH (parseMSEARCHReply of
  external/miniupnp/miniupnpc/minissdpc.c).  The reply lies at the start of the reception buffer, and
  behind it what the buffer held before; a byte is read where the code reads it, and a read outside
  the buffer is a fault.
\<close>

definition rdc :: "string \<Rightarrow> nat \<Rightarrow> fault + char" where
  "rdc m p = (if p < length m then Inr (m ! p) else Inl OobRead)"

lemma rdc_Inr [simp]: "p < length m \<Longrightarrow> rdc m p = Inr (m ! p)"
  by (simp add: rdc_def)

text \<open>do b++; while (reply[b] == ' ')\<close>

function skip_blanks :: "string \<Rightarrow> nat \<Rightarrow> fault + nat" where
  "skip_blanks m b =
     (if Suc b < length m then (if m ! Suc b = CHR '' '' then skip_blanks m (Suc b) else Inr (Suc b))
      else Inl OobRead)"
  by pat_completeness auto
termination by (relation "measure (\<lambda>(m, b). length m - b)") auto

declare skip_blanks.simps [simp del]

text \<open>strncasecmp with a name of lower-case letters is 0: it reads up to the first difference.\<close>

primrec name_at :: "string \<Rightarrow> string \<Rightarrow> nat \<Rightarrow> fault + bool" where
  "name_at [] m p = Inr True"
| "name_at (x # xs) m p = rbind (rdc m p) (\<lambda>c. if lower c = x then name_at xs m (Suc p) else Inr False)"

text \<open>The three results, each a position in the reply and a size.\<close>

record msearch =
  ms_location :: "(nat \<times> nat) option"
  ms_st :: "(nat \<times> nat) option"
  ms_usn :: "(nat \<times> nat) option"

definition msearch_none :: msearch where
  "msearch_none = \<lparr>ms_location = None, ms_st = None, ms_usn = None\<rparr>"

definition msearch_line :: "string \<Rightarrow> nat \<Rightarrow> nat \<Rightarrow> nat \<Rightarrow> msearch \<Rightarrow> fault + msearch" where
  "msearch_line reply a b i r =
     rbind (skip_blanks reply b) (\<lambda>b.
     rbind (name_at ''location'' reply a) (\<lambda>loc.
       if loc then Inr (r\<lparr>ms_location := Some (b, i - b)\<rparr>)
       else rbind (name_at ''st'' reply a) (\<lambda>st.
         if st then Inr (r\<lparr>ms_st := Some (b, i - b)\<rparr>)
         else rbind (name_at ''usn'' reply a) (\<lambda>usn.
           if usn then Inr (r\<lparr>ms_usn := Some (b, i - b)\<rparr>) else Inr r))))"

definition line_end :: "char \<Rightarrow> bool" where
  "line_end c \<longleftrightarrow> c = CHR 0x0A \<or> c = CHR 0x0D"

text \<open>
  The loop: \<open>a\<close> is the start of the line and \<open>b\<close> the position of its colon, 0 while there is none.
\<close>

function msearch_loop :: "string \<Rightarrow> nat \<Rightarrow> nat \<Rightarrow> nat \<Rightarrow> nat \<Rightarrow> msearch \<Rightarrow> fault + msearch" where
  "msearch_loop reply sz a b i r =
     (if i < sz then
        rbind (rdc reply i) (\<lambda>c.
          if c = CHR '':'' then msearch_loop reply sz a (if b = 0 then i else b) (Suc i) r
          else if line_end c then
            (if b \<noteq> 0 then rbind (msearch_line reply a b i r) (msearch_loop reply sz (Suc i) 0 (Suc i))
             else msearch_loop reply sz (Suc i) b (Suc i) r)
          else msearch_loop reply sz a b (Suc i) r)
      else Inr r)"
  by pat_completeness auto
termination by (relation "measure (\<lambda>(reply, sz, a, b, i, r). sz - i)") auto

declare msearch_loop.simps [simp del]

definition parseMSEARCHReply :: "string \<Rightarrow> nat \<Rightarrow> fault + msearch" where
  "parseMSEARCHReply reply sz = msearch_loop reply sz 0 0 0 msearch_none"

subsection \<open>The reader by lines\<close>

text \<open>The lines of a reply that have an end: text behind the last one is not looked at.\<close>

function reply_lines :: "string \<Rightarrow> string list" where
  "reply_lines s =
     (case dropWhile (\<lambda>c. \<not> line_end c) s of [] \<Rightarrow> []
      | e # rest \<Rightarrow> takeWhile (\<lambda>c. \<not> line_end c) s # reply_lines rest)"
  by pat_completeness auto
termination
proof (relation "measure length")
  fix s rest :: string and e
  assume "dropWhile (\<lambda>c. \<not> line_end c) s = e # rest"
  then show "(rest, s) \<in> measure length"
    using length_dropWhile_le [of "\<lambda>c. \<not> line_end c" s] by simp
qed simp

declare reply_lines.simps [simp del]

record reply =
  re_location :: "string option"
  re_st :: "string option"
  re_usn :: "string option"

text \<open>A line with a colon sets the field whose name it begins with; blanks behind the colon are dropped.\<close>

definition reply_line :: "string \<Rightarrow> reply \<Rightarrow> reply" where
  "reply_line l r =
     (case behind CHR '':'' l of None \<Rightarrow> r
      | Some t \<Rightarrow>
        let v = dropWhile (\<lambda>c. c = CHR '' '') t in
        if case_prefix ''location'' l then r\<lparr>re_location := Some v\<rparr>
        else if case_prefix ''st'' l then r\<lparr>re_st := Some v\<rparr>
        else if case_prefix ''usn'' l then r\<lparr>re_usn := Some v\<rparr> else r)"

definition read_reply :: "string \<Rightarrow> reply" where
  "read_reply s = fold reply_line (reply_lines s) \<lparr>re_location = None, re_st = None, re_usn = None\<rparr>"

definition piece :: "string \<Rightarrow> nat \<times> nat \<Rightarrow> string" where
  "piece m bn = take (snd bn) (drop (fst bn) m)"

definition reply_of :: "string \<Rightarrow> msearch \<Rightarrow> reply" where
  "reply_of m r = \<lparr>re_location = map_option (piece m) (ms_location r), re_st = map_option (piece m) (ms_st r),
     re_usn = map_option (piece m) (ms_usn r)\<rparr>"

subsection \<open>The loop reads the lines\<close>

lemma lower_line_end [simp]: "line_end e \<Longrightarrow> lower e = e"
  unfolding line_end_def by (elim disjE; hypsubst; code_simp)

lemma header_names:
  "list_all (\<lambda>x. lower x = x \<and> \<not> line_end x) ''location''" "list_all (\<lambda>x. lower x = x \<and> \<not> line_end x) ''st''"
  "list_all (\<lambda>x. lower x = x \<and> \<not> line_end x) ''usn''"
  by code_simp+

lemma name_at_line:
  assumes "drop a m = l @ e # rest" "line_end e" "list_all (\<lambda>x. lower x = x \<and> \<not> line_end x) xs"
  shows "name_at xs m a = Inr (case_prefix xs l)"
  using assms
proof (induction xs arbitrary: a l)
  case Nil
  then show ?case by (simp add: case_prefix_def)
next
  case (Cons x xs)
  have a: "a < length m" using Cons.prems by (cases "a < length m") auto
  have d: "m ! a # drop (Suc a) m = l @ e # rest" using Cons.prems a by (simp add: Cons_nth_drop_Suc)
  show ?case
  proof (cases l)
    case Nil
    then have "m ! a = e" using d by simp
    then show ?thesis using Nil a Cons.prems by (auto simp: case_prefix_def)
  next
    case (Cons y ys)
    then have "m ! a = y" "drop (Suc a) m = ys @ e # rest" using d by auto
    then show ?thesis using Cons a Cons.prems Cons.IH [of "Suc a" ys] by (auto simp: case_prefix_def)
  qed
qed

lemma skip_blanks_line:
  assumes "drop (Suc b) m = t @ e # rest" "e \<noteq> CHR '' ''"
  shows "skip_blanks m b = Inr (Suc b + length (takeWhile (\<lambda>c. c = CHR '' '') t))"
  using assms
proof (induction t arbitrary: b)
  case Nil
  then have "Suc b < length m" by (cases "Suc b < length m") auto
  moreover have "m ! Suc b = e" using Nil.prems calculation by (metis append_Nil hd_drop_conv_nth list.sel(1))
  ultimately show ?case using Nil.prems by (simp add: skip_blanks.simps [of m b])
next
  case (Cons y ys)
  then have l: "Suc b < length m" by (cases "Suc b < length m") auto
  then have "m ! Suc b = y" "drop (Suc (Suc b)) m = ys @ e # rest"
    using Cons.prems Cons_nth_drop_Suc [OF l] by auto
  then show ?case using l Cons.IH [of "Suc b"] Cons.prems by (simp add: skip_blanks.simps [of m b])
qed

lemma loop_scan:
  assumes "drop i m = xs @ rest" "i + length xs \<le> sz" "sz \<le> length m" "list_all (\<lambda>c. \<not> line_end c) xs"
    "b \<noteq> 0 \<or> CHR '':'' \<notin> set xs"
  shows "msearch_loop m sz a b i r = msearch_loop m sz a b (i + length xs) r"
  using assms
proof (induction xs arbitrary: i)
  case (Cons x xs)
  have i: "i < length m" using Cons.prems by simp
  then have "m ! i = x" "drop (Suc i) m = xs @ rest" using Cons.prems Cons_nth_drop_Suc [OF i] by auto
  then show ?case using Cons.prems Cons.IH [of "Suc i"] i by (auto simp: msearch_loop.simps [of m sz a b i])
qed simp

lemma loop_last:
  assumes "drop i m = xs @ rest" "i + length xs = sz" "sz \<le> length m" "list_all (\<lambda>c. \<not> line_end c) xs"
  shows "msearch_loop m sz a b i r = Inr r"
  using assms
proof (induction xs arbitrary: i b)
  case Nil
  then show ?case by (simp add: msearch_loop.simps)
next
  case (Cons x xs)
  have i: "i < length m" using Cons.prems by simp
  then have "m ! i = x" "drop (Suc i) m = xs @ rest" using Cons.prems Cons_nth_drop_Suc [OF i] by auto
  then show ?case using Cons.prems Cons.IH [of "Suc i"] i by (auto simp: msearch_loop.simps [of m sz a b i])
qed

text \<open>The positions lie in the first bytes of the buffer.\<close>

definition pieces_in :: "nat \<Rightarrow> msearch \<Rightarrow> bool" where
  "pieces_in sz r \<longleftrightarrow>
     list_all (\<lambda>x. case x of None \<Rightarrow> True | Some (b, k) \<Rightarrow> b + k \<le> sz) [ms_location r, ms_st r, ms_usn r]"

lemma msearch_line_reads:
  assumes "drop a m = n @ CHR '':'' # t @ e # rest" "line_end e" "CHR '':'' \<notin> set n"
    "i = a + length n + Suc (length t)"
  shows "\<exists>r'. msearch_line m a (a + length n) i r = Inr r' \<and>
    reply_of m r' = reply_line (n @ CHR '':'' # t) (reply_of m r) \<and> (pieces_in sz r \<and> i \<le> sz \<longrightarrow> pieces_in sz r')"
proof -
  have "drop (length n + a) m = CHR '':'' # t @ e # rest"
    using assms(1) by (simp flip: drop_drop)
  then have d: "drop (Suc (a + length n)) m = t @ e # rest"
    by (metis add.commute add_Suc_right drop_Suc list.sel(3) tl_drop)
  have e: "e \<noteq> CHR '' ''" using assms(2) by (auto simp: line_end_def)
  have names: "name_at ''location'' m a = Inr (case_prefix ''location'' (n @ CHR '':'' # t))"
    "name_at ''st'' m a = Inr (case_prefix ''st'' (n @ CHR '':'' # t))"
    "name_at ''usn'' m a = Inr (case_prefix ''usn'' (n @ CHR '':'' # t))"
    using assms(1,2) by (simp_all add: name_at_line [OF _ _ header_names (1)] name_at_line [OF _ _ header_names (2)]
        name_at_line [OF _ _ header_names (3)] del: name_at.simps)
  have b: "behind CHR '':'' (n @ CHR '':'' # t) = Some t"
  proof -
    have "dropWhile (\<lambda>x. x \<noteq> CHR '':'') (n @ CHR '':'' # t) = CHR '':'' # t" using assms(3) by (induction n) auto
    then show ?thesis by (simp add: behind_def)
  qed
  define k where "k = length (takeWhile (\<lambda>c. c = CHR '' '') t)"
  have k: "k \<le> length t" by (simp add: k_def length_takeWhile_le)
  have p: "piece m (Suc (a + length n + k), i - Suc (a + length n + k)) = dropWhile (\<lambda>c. c = CHR '' '') t"
  proof -
    have "drop (Suc (a + length n + k)) m = drop k (t @ e # rest)"
      using arg_cong [OF d, of "drop k"] by (simp add: add.commute add.left_commute)
    then show ?thesis using k assms(4) by (simp add: piece_def dropWhile_eq_drop k_def)
  qed
  define bk where "bk = (Suc (a + length n + k), i - Suc (a + length n + k))"
  have in_sz: "i \<le> sz \<Longrightarrow> fst bk + snd bk \<le> sz" using k assms(4) by (simp add: bk_def)
  have line: "msearch_line m a (a + length n) i r =
      Inr (if case_prefix ''location'' (n @ CHR '':'' # t) then r\<lparr>ms_location := Some bk\<rparr>
           else if case_prefix ''st'' (n @ CHR '':'' # t) then r\<lparr>ms_st := Some bk\<rparr>
           else if case_prefix ''usn'' (n @ CHR '':'' # t) then r\<lparr>ms_usn := Some bk\<rparr> else r)"
    by (simp add: msearch_line_def skip_blanks_line [OF d e] names bk_def del: name_at.simps flip: k_def)
  show ?thesis unfolding line
    using in_sz by (auto simp: reply_line_def b reply_of_def p [folded bk_def] pieces_in_def case_prod_beta)
qed

lemma reply_lines_step:
  assumes "list_all (\<lambda>c. \<not> line_end c) l" "line_end e"
  shows "reply_lines (l @ e # rest) = l # reply_lines rest"
proof -
  have "dropWhile (\<lambda>c. \<not> line_end c) (l @ e # rest) = e # rest"
    "takeWhile (\<lambda>c. \<not> line_end c) (l @ e # rest) = l"
    using assms by (induction l) auto
  then show ?thesis by (simp add: reply_lines.simps [of "l @ e # rest"])
qed

lemma reply_lines_last:
  "list_all (\<lambda>c. \<not> line_end c) l \<Longrightarrow> reply_lines l = []"
proof -
  assume "list_all (\<lambda>c. \<not> line_end c) l"
  then have "dropWhile (\<lambda>c. \<not> line_end c) l = []" by (induction l) auto
  then show ?thesis by (subst reply_lines.simps) (simp only: list.case)
qed

lemma split_line:
  obtains "list_all (\<lambda>c. \<not> line_end c) s"
  | l e rest where "s = l @ e # rest" "list_all (\<lambda>c. \<not> line_end c) l" "line_end e"
proof (cases "list_all (\<lambda>c. \<not> line_end c) s")
  case False
  then have "\<exists>x\<in>set s. line_end x" by (auto simp: list_all_iff)
  from split_list_first_propE [OF this] show ?thesis using that(2) by (metis (no_types, lifting) Ball_set)
qed (rule that(1))

lemma loop_line_end:
  "i < sz \<Longrightarrow> sz \<le> length m \<Longrightarrow> line_end (m ! i) \<Longrightarrow> b \<noteq> 0 \<Longrightarrow>
   msearch_loop m sz a b i r = rbind (msearch_line m a b i r) (msearch_loop m sz (Suc i) 0 (Suc i))"
  "i < sz \<Longrightarrow> sz \<le> length m \<Longrightarrow> line_end (m ! i) \<Longrightarrow>
   msearch_loop m sz a 0 i r = msearch_loop m sz (Suc i) 0 (Suc i) r"
  by (auto simp: msearch_loop.simps [of m sz a b i] msearch_loop.simps [of m sz a 0 i] line_end_def)

lemma loop_colon:
  "i < sz \<Longrightarrow> sz \<le> length m \<Longrightarrow> m ! i = CHR '':'' \<Longrightarrow> msearch_loop m sz a 0 i r = msearch_loop m sz a i (Suc i) r"
  by (simp add: msearch_loop.simps [of m sz a 0 i])

lemma nth_of_drop: "drop i m = xs @ y # ys \<Longrightarrow> m ! (i + length xs) = y \<and> drop (Suc (i + length xs)) m = ys"
proof -
  assume a: "drop i m = xs @ y # ys"
  then have "i \<le> length m" by (cases "i \<le> length m") auto
  with a show ?thesis
    by (metis add.commute add_Suc_right drop_drop drop_Suc list.sel(3) nth_append_length nth_drop tl_drop append_eq_conv_conj)
qed

lemma loop_line:
  assumes d: "drop i m = l @ e # rest" and l: "list_all (\<lambda>c. \<not> line_end c) l" and e: "line_end e"
    and sz: "i + length l < sz" "sz \<le> length m" and first: "i = 0 \<longrightarrow> take 1 l \<noteq> '':''"
  shows "\<exists>r'. msearch_loop m sz i 0 i r =
      msearch_loop m sz (Suc (i + length l)) 0 (Suc (i + length l)) r' \<and>
    reply_of m r' = reply_line l (reply_of m r) \<and> (pieces_in sz r \<longrightarrow> pieces_in sz r')"
proof (cases "CHR '':'' \<in> set l")
  case False
  have "msearch_loop m sz i 0 i r = msearch_loop m sz i 0 (i + length l) r"
    using d sz l False by (intro loop_scan) auto
  also have "\<dots> = msearch_loop m sz (Suc (i + length l)) 0 (Suc (i + length l)) r"
    using sz e nth_of_drop [OF d] by (intro loop_line_end) auto
  finally show ?thesis using False by (auto simp: reply_line_def behind_def)
next
  case True
  then obtain n t where nt: "l = n @ CHR '':'' # t" "CHR '':'' \<notin> set n" by (metis split_list_first)
  have pos: "i + length n \<noteq> 0" using first nt by (cases n) auto
  have dn: "drop i m = n @ CHR '':'' # (t @ e # rest)" using d nt by simp
  note at = nth_of_drop [OF dn] nth_of_drop [OF d]
  have "msearch_loop m sz i 0 i r = msearch_loop m sz i 0 (i + length n) r"
    using dn sz l nt by (intro loop_scan) auto
  also have "\<dots> = msearch_loop m sz i (i + length n) (Suc (i + length n)) r"
    using sz nt at by (intro loop_colon) auto
  also have "\<dots> = msearch_loop m sz i (i + length n) (i + length l) r"
    using loop_scan [of "Suc (i + length n)" m t "e # rest" sz "i + length n" i r] at sz l nt pos by (auto simp: add.assoc)
  also have "\<dots> = rbind (msearch_line m i (i + length n) (i + length l) r)
      (msearch_loop m sz (Suc (i + length l)) 0 (Suc (i + length l)))"
    using sz e at pos by (intro loop_line_end) auto
  finally show ?thesis
    using msearch_line_reads [of i m n t e rest "i + length l" r sz] dn e nt sz by auto
qed

lemma msearch_loop_reads:
  assumes "i \<le> sz" "sz \<le> length m" "i = 0 \<longrightarrow> take 1 m \<noteq> '':''"
  shows "\<exists>r'. msearch_loop m sz i 0 i r = Inr r' \<and>
    reply_of m r' = fold reply_line (reply_lines (drop i (take sz m))) (reply_of m r) \<and>
    (pieces_in sz r \<longrightarrow> pieces_in sz r')"
  using assms
proof (induction "sz - i" arbitrary: i r rule: less_induct)
  case less
  have d: "drop i m = drop i (take sz m) @ drop sz m"
    using less.prems by (metis append_take_drop_id drop_append drop_take length_take min.absorb2 diff_is_0_eq drop_0)
  show ?case
  proof (cases rule: split_line [of "drop i (take sz m)"])
    case 1
    then have "msearch_loop m sz i 0 i r = Inr r"
      using d less.prems by (intro loop_last [of i m "drop i (take sz m)" "drop sz m"]) auto
    then show ?thesis using 1 by (simp add: reply_lines_last)
  next
    case (2 l e rest)
    have "length (drop i (take sz m)) = length (l @ e # rest)" using 2(1) by simp
    then have len: "i + length l < sz" using less.prems by (simp del: drop_take)
    have dl: "drop i m = l @ e # (rest @ drop sz m)" using d 2(1) by simp
    have first: "i = 0 \<longrightarrow> take 1 l \<noteq> '':''"
      using less.prems arg_cong [OF dl, of "take 1"] by (cases l) auto
    obtain r1 where r1: "msearch_loop m sz i 0 i r = msearch_loop m sz (Suc (i + length l)) 0 (Suc (i + length l)) r1"
      "reply_of m r1 = reply_line l (reply_of m r)" "pieces_in sz r \<longrightarrow> pieces_in sz r1"
      using loop_line [OF dl 2(2,3) len less.prems(2) first] by blast
    have rest: "drop (Suc (i + length l)) (take sz m) = rest"
      using nth_of_drop [OF 2(1)] by simp
    have "sz - Suc (i + length l) < sz - i" using len by linarith
    from less.hyps [OF this, of r1] obtain r2 where
      "msearch_loop m sz (Suc (i + length l)) 0 (Suc (i + length l)) r1 = Inr r2"
      "reply_of m r2 = fold reply_line (reply_lines rest) (reply_of m r1)" "pieces_in sz r1 \<longrightarrow> pieces_in sz r2"
      using len less.prems by (auto simp: rest)
    then show ?thesis using r1 2 by (simp add: reply_lines_step)
  qed
qed

lemma reply_is_parsed:
  assumes "sz \<le> length m" "take 1 m \<noteq> '':''"
  shows "\<exists>r. parseMSEARCHReply m sz = Inr r \<and> reply_of m r = read_reply (take sz m) \<and> pieces_in sz r"
  using msearch_loop_reads [of 0 sz m msearch_none] assms
  by (auto simp: parseMSEARCHReply_def read_reply_def reply_of_def msearch_none_def pieces_in_def)

subsection \<open>A reply as a device sends it\<close>

definition crlf :: string where "crlf = [CHR 0x0D, CHR 0x0A]"

definition header_line :: "string \<Rightarrow> string \<Rightarrow> string" where
  "header_line n v = n @ '': '' @ v @ crlf"

definition device_reply :: "upnp_dev \<Rightarrow> string" where
  "device_reply d = ''HTTP/1.1 200 OK'' @ crlf @ header_line ''ST'' (dev_st d) @ header_line ''USN'' (dev_usn d) @
     header_line ''Location'' (dev_descURL d) @ crlf"

definition value_ok :: "string \<Rightarrow> bool" where
  "value_ok v \<longleftrightarrow> list_all (\<lambda>c. \<not> line_end c) v \<and> take 1 v \<noteq> '' ''"

definition advert_ok :: "upnp_dev \<Rightarrow> bool" where
  "advert_ok d \<longleftrightarrow> value_ok (dev_descURL d) \<and> value_ok (dev_st d) \<and> value_ok (dev_usn d)"

lemma lines_header:
  assumes "value_ok v" "list_all (\<lambda>c. \<not> line_end c) n"
  shows "reply_lines (header_line n v @ s) = (n @ '': '' @ v) # [] # reply_lines s"
proof -
  have e: "line_end CHR 0x0D" "line_end CHR 0x0A" "\<not> line_end CHR '':''" "\<not> line_end CHR '' ''" by code_simp+
  have "reply_lines ((n @ '': '' @ v) @ CHR 0x0D # ([] @ CHR 0x0A # s)) = (n @ '': '' @ v) # [] # reply_lines s"
    using assms e by (subst reply_lines_step reply_lines_step [of "[]"]; simp add: value_ok_def reply_lines_step [of "[]", simplified])+
  then show ?thesis by (simp add: header_line_def crlf_def)
qed

lemma reply_line_header:
  assumes "value_ok v" "CHR '':'' \<notin> set n"
  shows "reply_line (n @ '': '' @ v) r =
    (if case_prefix ''location'' (n @ '': '' @ v) then r\<lparr>re_location := Some v\<rparr>
     else if case_prefix ''st'' (n @ '': '' @ v) then r\<lparr>re_st := Some v\<rparr>
     else if case_prefix ''usn'' (n @ '': '' @ v) then r\<lparr>re_usn := Some v\<rparr> else r)"
proof -
  have "dropWhile (\<lambda>x. x \<noteq> CHR '':'') (n @ CHR '':'' # CHR '' '' # v) = CHR '':'' # CHR '' '' # v"
    using assms(2) by (induction n) auto
  moreover have "dropWhile (\<lambda>c. c = CHR '' '') v = v" using assms(1) by (cases v) (auto simp: value_ok_def)
  ultimately show ?thesis by (simp add: reply_line_def behind_def)
qed

lemma reply_line_blank [simp]: "reply_line [] r = r"
  by (simp add: reply_line_def behind_def)

theorem device_reply_read:
  assumes "advert_ok d"
  shows "read_reply (device_reply d) =
    \<lparr>re_location = Some (dev_descURL d), re_st = Some (dev_st d), re_usn = Some (dev_usn d)\<rparr>"
proof -
  have v: "value_ok (dev_descURL d)" "value_ok (dev_st d)" "value_ok (dev_usn d)"
    using assms by (simp_all add: advert_ok_def)
  have e: "line_end CHR 0x0D" "line_end CHR 0x0A" by code_simp+
  have n: "list_all (\<lambda>c. \<not> line_end c) ''ST''" "list_all (\<lambda>c. \<not> line_end c) ''USN''"
    "list_all (\<lambda>c. \<not> line_end c) ''Location''" "list_all (\<lambda>c. \<not> line_end c) ''HTTP/1.1 200 OK''" by code_simp+
  have "reply_lines (device_reply d) =
      [''HTTP/1.1 200 OK'', [], ''ST'' @ '': '' @ dev_st d, [], ''USN'' @ '': '' @ dev_usn d, [],
       ''Location'' @ '': '' @ dev_descURL d, [], [], []]"
    using reply_lines_step [OF n (4) e (1)] reply_lines_step [of "[]" "CHR 0x0A"] reply_lines_step [of "[]" "CHR 0x0D"]
    by (simp add: device_reply_def crlf_def lines_header [OF v (2) n (1)] lines_header [OF v (3) n (2)]
        lines_header [OF v (1) n (3)] e reply_lines_last)
  moreover have low: "lower CHR ''S'' = CHR ''s''" "lower CHR ''T'' = CHR ''t''" "lower CHR ''U'' = CHR ''u''"
    "lower CHR ''N'' = CHR ''n''" "lower CHR ''L'' = CHR ''l''" "lower CHR ''o'' = CHR ''o''" "lower CHR ''c'' = CHR ''c''"
    "lower CHR ''a'' = CHR ''a''" "lower CHR ''t'' = CHR ''t''" "lower CHR ''i'' = CHR ''i''" "lower CHR ''n'' = CHR ''n''"
    "lower CHR ''l'' = CHR ''l''" "lower CHR ''s'' = CHR ''s''" "lower CHR ''u'' = CHR ''u''"
    by code_simp+
  moreover have "reply_line ''HTTP/1.1 200 OK'' r = r" for r by (simp add: reply_line_def behind_def)
  ultimately show ?thesis
    by (simp add: read_reply_def reply_line_header [OF v (1), of "''Location''", simplified]
        reply_line_header [OF v (2), of "''ST''", simplified] reply_line_header [OF v (3), of "''USN''", simplified]
        case_prefix_def low)
qed

text \<open>
  C33. The reader of a reply looks at no byte outside the bytes received, whatever the buffer holds
  behind them, and finds what the reading line by line finds: the last line that begins with
  location, st or usn in any case, and the text behind its first colon and the blanks there.
\<close>

theorem reply_parsed:
  assumes "sz \<le> length m" "take 1 m \<noteq> '':''"
  shows "\<exists>r. parseMSEARCHReply m sz = Inr r \<and> reply_of m r = read_reply (take sz m) \<and> pieces_in sz r"
  using assms by (rule reply_is_parsed)

text \<open>The example of a reply that runs on into what the buffer held before.\<close>

theorem reply_parsed_witness:
  "\<exists>r. parseMSEARCHReply (''ST: a'' @ crlf @ ''LOCATION:b'' @ crlf @ ''USN: c'' @ crlf) 18 = Inr r \<and>
    reply_of (''ST: a'' @ crlf @ ''LOCATION:b'' @ crlf @ ''USN: c'' @ crlf) r =
      \<lparr>re_location = Some ''b'', re_st = Some ''a'', re_usn = None\<rparr>"
proof -
  let ?m = "''ST: a'' @ crlf @ ''LOCATION:b'' @ crlf @ ''USN: c'' @ crlf"
  have "18 \<le> length ?m" "take 1 ?m \<noteq> '':''" by code_simp+
  moreover have "read_reply (take 18 ?m) = \<lparr>re_location = Some ''b'', re_st = Some ''a'', re_usn = None\<rparr>" by code_simp
  ultimately show ?thesis using reply_parsed [of 18 ?m] by metis
qed

end
