(* ===== verification/Discover.thy ===== *)
theory Discover
  imports Ssdp HubFind
begin

text \<open>
  The search of miniupnpc for devices: ssdpDiscoverDevices (minissdpc.c), receivedata (receivedata.c)
  and upnpDiscoverDevices with its callers (miniupnpc.c).  The network is the record \<open>ssdp_env\<close> and the
  list of what the socket will receive, behind whose end there is silence; the port, the interface and
  the time to live only set socket options and are not modelled.
\<close>

datatype rx = Datagram string | Timeout | Failure

record ssdp_env =
  se_socket :: bool
  se_reuse :: bool
  se_bind :: bool
  se_resolve :: "string \<Rightarrow> nat option"   \<comment> \<open>getaddrinfo: the number of addresses\<close>
  se_sent :: "nat \<Rightarrow> bool"               \<comment> \<open>whether the k-th sendto succeeds\<close>
  se_alloc :: "nat \<Rightarrow> bool"

record ssdp_state =
  sd_bufr :: string
  sd_devlist :: "upnp_dev list"
  sd_error :: int
  sd_sends :: "(int \<times> string) list"     \<comment> \<open>length and text of each sendto\<close>
  sd_rx :: "rx list"

definition BUFR_SIZE :: nat where "BUFR_SIZE = 1536"

text \<open>receivedata: the number of bytes, 0 at a timeout and -1 after an error.\<close>

fun receivedata :: "rx list \<Rightarrow> string \<Rightarrow> int \<times> string \<times> rx list" where
  "receivedata [] buf = (0, buf, [])"
| "receivedata (Timeout # rs) buf = (0, buf, rs)"
| "receivedata (Failure # rs) buf = (- 1, buf, rs)"
| "receivedata (Datagram d # rs) buf =
     (let d = take (length buf) d in (int (length d), d @ drop (length d) buf, rs))"

lemma receivedata_shorter: "receivedata rs buf = (n, buf', rs') \<Longrightarrow> 0 < n \<Longrightarrow> length rs' < length rs"
  by (cases "(rs, buf)" rule: receivedata.cases) (auto simp: Let_def)

subsection \<open>The devices found so far\<close>

text \<open>memcmp gives 0: the memory is read up to the first difference.\<close>

primrec mem_eq :: "string \<Rightarrow> string \<Rightarrow> nat \<Rightarrow> fault + bool" where
  "mem_eq [] m p = Inr True"
| "mem_eq (x # xs) m p = rbind (rdc m p) (\<lambda>c. if c = x then mem_eq xs m (Suc p) else Inr False)"

text \<open>The member at an offset is the text followed by its NUL.\<close>

definition member_eq :: "string \<Rightarrow> string \<Rightarrow> nat \<Rightarrow> fault + bool" where
  "member_eq s m p =
     rbind (mem_eq s m p) (\<lambda>b. if b then rbind (rdc m (p + length s)) (\<lambda>c. Inr (c = NUL)) else Inr False)"

definition same_dev :: "upnp_dev \<Rightarrow> upnp_dev \<Rightarrow> fault + bool" where
  "same_dev tmp d =
     (let m = dev_buffer tmp; st = 1 + length (dev_descURL tmp); usn = st + 1 + length (dev_st tmp) in
      rbind (member_eq (dev_descURL d) m 0) (\<lambda>b. if \<not> b then Inr False
      else rbind (member_eq (dev_st d) m st) (\<lambda>b. if \<not> b then Inr False
      else member_eq (dev_usn d) m usn)))"

primrec known_dev :: "upnp_dev list \<Rightarrow> upnp_dev \<Rightarrow> fault + bool" where
  "known_dev [] d = Inr False"
| "known_dev (tmp # ds) d = rbind (same_dev tmp d) (\<lambda>b. if b then Inr True else known_dev ds d)"

text \<open>What a reply describes, when it has a location and a type; a missing USN is an empty one.\<close>

definition dev_of_reply :: "string \<Rightarrow> msearch \<Rightarrow> upnp_dev option" where
  "dev_of_reply buf r =
     (case ms_location r of None \<Rightarrow> None
      | Some url \<Rightarrow>
        (case ms_st r of None \<Rightarrow> None
         | Some st \<Rightarrow> Some \<lparr>dev_descURL = piece buf url, dev_st = piece buf st,
             dev_usn = (case ms_usn r of None \<Rightarrow> [] | Some u \<Rightarrow> piece buf u)\<rparr>))"

definition dev_bytes :: "upnp_dev \<Rightarrow> nat" where
  "dev_bytes d = 40 + length (dev_descURL d) + length (dev_st d) + length (dev_usn d)"

text \<open>The do-while loop over the replies; the flag says that the code goes to \<open>error\<close>.\<close>

function rx_loop :: "ssdp_env \<Rightarrow> bool \<Rightarrow> ssdp_state \<Rightarrow> fault + ssdp_state \<times> bool" where
  "rx_loop E searchall S =
     (case receivedata (sd_rx S) (sd_bufr S) of (n, buf, rs) \<Rightarrow>
      let S1 = S\<lparr>sd_bufr := buf, sd_rx := rs\<rparr> in
      if n < 0 then Inr (S1\<lparr>sd_error := MINISSDPC_SOCKET_ERROR\<rparr>, True)
      else if n = 0 then
        (if sd_devlist S \<noteq> [] \<and> \<not> searchall then Inr (S1\<lparr>sd_error := MINISSDPC_SUCCESS\<rparr>, True) else Inr (S1, False))
      else rbind (parseMSEARCHReply buf (nat n)) (\<lambda>r.
        case dev_of_reply buf r of None \<Rightarrow> rx_loop E searchall S1
        | Some d \<Rightarrow>
          rbind (known_dev (sd_devlist S) d) (\<lambda>known.
            if known then rx_loop E searchall S1
            else if \<not> se_alloc E (dev_bytes d) then Inr (S1\<lparr>sd_error := MINISSDPC_MEMORY_ERROR\<rparr>, True)
            else rx_loop E searchall (S1\<lparr>sd_devlist := d # sd_devlist S\<rparr>))))"
  by pat_completeness auto
termination
  by (relation "measure (\<lambda>(E, searchall, S). length (sd_rx S))")
    (auto simp: receivedata_shorter dest!: sym [of "(_, _, _)"])

declare rx_loop.simps [simp del]

subsection \<open>The request\<close>

definition UPNP_MCAST_ADDR :: string where "UPNP_MCAST_ADDR = ''239.255.255.250''"
definition UPNP_MCAST_LL_ADDR :: string where "UPNP_MCAST_LL_ADDR = ''FF02::C''"
definition UPNP_MCAST_SL_ADDR :: string where "UPNP_MCAST_SL_ADDR = ''FF05::C''"

definition mcast_addr :: "bool \<Rightarrow> bool \<Rightarrow> string" where
  "mcast_addr ipv6 linklocal =
     (if ipv6 then (if linklocal then UPNP_MCAST_LL_ADDR else UPNP_MCAST_SL_ADDR) else UPNP_MCAST_ADDR)"

definition msearch_msg :: "bool \<Rightarrow> bool \<Rightarrow> string \<Rightarrow> nat \<Rightarrow> string" where
  "msearch_msg ipv6 linklocal devtype mx =
     ''M-SEARCH * HTTP/1.1'' @ crlf @
     header_line ''HOST'' ((if ipv6 then ''['' @ mcast_addr ipv6 linklocal @ '']'' else mcast_addr ipv6 linklocal) @ '':1900'') @
     header_line ''ST'' devtype @ header_line ''MAN'' [CHR 0x22, CHR ''s'', CHR ''s'', CHR ''d'', CHR ''p'', CHR '':'',
       CHR ''d'', CHR ''i'', CHR ''s'', CHR ''c'', CHR ''o'', CHR ''v'', CHR ''e'', CHR ''r'', CHR 0x22] @
     header_line ''MX'' (dec_text mx) @ crlf"

text \<open>The seconds a device may wait: at least one.\<close>

definition mx_of_delay :: "int \<Rightarrow> nat" where
  "mx_of_delay delay = (let mx = unat ((of_int delay :: u32) div 1000) in if mx = 0 then 1 else mx)"

text \<open>
  The loop over the addresses.  The variable n is the length to be sent and takes the result of
  sendto, so that after a failure it is -1.
\<close>

primrec send_all :: "ssdp_env \<Rightarrow> nat \<Rightarrow> int \<Rightarrow> bool \<Rightarrow> ssdp_state \<Rightarrow> bool \<times> ssdp_state" where
  "send_all E 0 n sentok S = (sentok, S)"
| "send_all E (Suc k) n sentok S =
     (let res = (if se_sent E (length (sd_sends S)) then n else - 1);
          S1 = S\<lparr>sd_sends := sd_sends S @ [(n, take (nat n) (sd_bufr S))]\<rparr> in
      send_all E k res (sentok \<or> \<not> res < 0) S1)"

function device_loop :: "ssdp_env \<Rightarrow> bool \<Rightarrow> bool \<Rightarrow> nat \<Rightarrow> bool \<Rightarrow> string list \<Rightarrow> ssdp_state \<Rightarrow> fault + ssdp_state" where
  "device_loop E ipv6 searchall mx linklocal [] S = Inr S"
| "device_loop E ipv6 searchall mx linklocal (t # ts) S =
     (let msg = msearch_msg ipv6 linklocal t mx in
      if length msg \<ge> BUFR_SIZE then Inr (S\<lparr>sd_error := MINISSDPC_MEMORY_ERROR\<rparr>)
      else case se_resolve E (mcast_addr ipv6 linklocal) of None \<Rightarrow> Inr (S\<lparr>sd_error := MINISSDPC_SOCKET_ERROR\<rparr>)
      | Some k \<Rightarrow>
        (case send_all E k (int (length msg)) False (S\<lparr>sd_bufr := msg @ NUL # drop (Suc (length msg)) (sd_bufr S)\<rparr>) of
         (sentok, S1) \<Rightarrow>
         let S2 = (if sentok then S1 else S1\<lparr>sd_error := MINISSDPC_SOCKET_ERROR\<rparr>) in
         rbind (if (sentok \<and> \<not> searchall) \<or> ts = [] then rx_loop E searchall S2 else Inr (S2, False)) (\<lambda>(S3, stop).
           if stop then Inr S3
           else if ipv6 \<and> linklocal then device_loop E ipv6 searchall mx False (t # ts) S3
           else device_loop E ipv6 searchall mx True ts S3)))"
  by pat_completeness auto
termination
  by (relation "measure (\<lambda>(E, ipv6, searchall, mx, linklocal, ts, S). 2 * length ts + (if linklocal then 1 else 0))") auto

declare device_loop.simps (2) [simp del]

text \<open>The result: the devices and the code for *error, with what was sent.  \<open>junk\<close> is what bufr holds at first.\<close>

definition ssdpDiscoverDevices ::
  "ssdp_env \<Rightarrow> string \<Rightarrow> string list \<Rightarrow> int \<Rightarrow> bool \<Rightarrow> bool \<Rightarrow> rx list \<Rightarrow> fault + ssdp_state" where
  "ssdpDiscoverDevices E junk types delay ipv6 searchall rx =
     (let S = \<lparr>sd_bufr = junk, sd_devlist = [], sd_error = MINISSDPC_SOCKET_ERROR, sd_sends = [], sd_rx = rx\<rparr> in
      if \<not> se_socket E then Inr S
      else if \<not> se_reuse E then Inr S
      else if \<not> se_bind E then Inr S
      else device_loop E ipv6 searchall (mx_of_delay delay) True types (S\<lparr>sd_error := MINISSDPC_SUCCESS\<rparr>))"

subsection \<open>upnpDiscoverDevices\<close>

definition is_root :: "upnp_dev \<Rightarrow> bool" where
  "is_root d = strstr (c_str (dev_st d)) ''rootdevice''"

text \<open>
  What minissdpd knows, type by type.  The loop that looks for anything but root devices ends at the
  last device without looking at it, unless it is the first.
\<close>

primrec daemon_loop ::
  "(nat \<Rightarrow> bool) \<Rightarrow> (byte list \<Rightarrow> byte list list option) option \<Rightarrow> bool \<Rightarrow> string list \<Rightarrow> upnp_dev list \<Rightarrow> upnp_dev list" where
  "daemon_loop alloc daemon searchall [] devlist = devlist"
| "daemon_loop alloc daemon searchall (t # ts) devlist =
     (case fst (devices_from_daemon alloc daemon t) of [] \<Rightarrow> daemon_loop alloc daemon searchall ts devlist
      | d # ds \<Rightarrow>
        let only_rootdevice = (is_root d \<and> list_all is_root (butlast (d # ds))) in
        if \<not> searchall \<and> \<not> only_rootdevice then (d # ds) @ devlist
        else daemon_loop alloc daemon searchall ts ((d # ds) @ devlist))"

definition UPNPDISCOVER_SUCCESS :: int where "UPNPDISCOVER_SUCCESS = 0"

definition upnpDiscoverDevices ::
  "ssdp_env \<Rightarrow> (byte list \<Rightarrow> byte list list option) option \<Rightarrow> string \<Rightarrow> string list \<Rightarrow> int \<Rightarrow> bool \<Rightarrow> bool \<Rightarrow> rx list \<Rightarrow>
    fault + upnp_dev list \<times> int" where
  "upnpDiscoverDevices E daemon junk types delay ipv6 searchall rx =
     (let devlist = daemon_loop (se_alloc E) daemon searchall types [] in
      if list_ex (\<lambda>d. \<not> is_root d) devlist then Inr (devlist, UPNPDISCOVER_SUCCESS)
      else rbind (ssdpDiscoverDevices E junk types delay ipv6 searchall rx) (\<lambda>S.
        Inr (devlist @ sd_devlist S, sd_error S)))"

definition upnpDiscoverAll where
  "upnpDiscoverAll E daemon junk delay ipv6 rx = upnpDiscoverDevices E daemon junk [''ssdp:all''] delay ipv6 False rx"

definition upnpDiscoverDevice where
  "upnpDiscoverDevice E daemon junk device delay ipv6 rx = upnpDiscoverDevices E daemon junk [device] delay ipv6 False rx"

definition igd_types :: "string list" where
  "igd_types = [''urn:schemas-upnp-org:device:InternetGatewayDevice:1'', ''urn:schemas-upnp-org:service:WANIPConnection:1'',
     ''urn:schemas-upnp-org:service:WANPPPConnection:1'', ''upnp:rootdevice'']"

definition upnpDiscover where
  "upnpDiscover E daemon junk delay ipv6 rx = upnpDiscoverDevices E daemon junk igd_types delay ipv6 False rx"

subsection \<open>Devices that are the same\<close>

definition dev_clean :: "upnp_dev \<Rightarrow> bool" where
  "dev_clean d \<longleftrightarrow> NUL \<notin> set (dev_descURL d) \<and> NUL \<notin> set (dev_st d) \<and> NUL \<notin> set (dev_usn d)"

lemma mem_eq_text:
  assumes "drop p m = t @ NUL # rest" "NUL \<notin> set s"
  shows "mem_eq s m p = Inr (s = take (length s) t)"
  using assms
proof (induction s arbitrary: p t)
  case (Cons x xs)
  have p: "p < length m" using Cons.prems by (cases "p < length m") auto
  have d: "m ! p # drop (Suc p) m = t @ NUL # rest" using Cons.prems p by (simp add: Cons_nth_drop_Suc)
  show ?case
  proof (cases t)
    case Nil
    then have "m ! p = NUL" using d by simp
    then show ?thesis using Nil p Cons.prems by auto
  next
    case (Cons y ys)
    then have "m ! p = y" "drop (Suc p) m = ys @ NUL # rest" using d by auto
    then show ?thesis using Cons p Cons.prems Cons.IH [of "Suc p" ys] by auto
  qed
qed simp

lemma member_eq_text:
  assumes "drop p m = t @ NUL # rest" "NUL \<notin> set s" "NUL \<notin> set t"
  shows "member_eq s m p = Inr (s = t)"
proof (cases "s = take (length s) t")
  case False
  then have "s \<noteq> t" by auto
  then show ?thesis using False by (simp add: member_eq_def mem_eq_text [OF assms(1,2)])
next
  case True
  then have le: "length s \<le> length t" by (metis length_take min.cobounded1 min.commute)
  have l: "p + length t < length m"
    using arg_cong [OF assms(1), of length] by simp
  have "m ! (p + length s) = (t @ NUL # rest) ! length s"
    using assms(1) l le by (metis add_leD1 add_le_mono1 less_imp_le_nat nth_drop order.trans)
  then have "m ! (p + length s) = NUL \<longleftrightarrow> length s = length t"
    using le assms(3) by (auto simp: nth_append) (metis nth_mem)
  moreover have "length s = length t \<longleftrightarrow> s = t" using True by (metis take_all_iff order_refl)
  ultimately show ?thesis using True l le by (simp add: member_eq_def mem_eq_text [OF assms(1,2)])
qed

lemma same_dev_eq: "dev_clean tmp \<Longrightarrow> dev_clean d \<Longrightarrow> same_dev tmp d = Inr (tmp = d)"
proof -
  assume c: "dev_clean tmp" "dev_clean d"
  let ?m = "dev_buffer tmp"
  have "drop 0 ?m = dev_descURL tmp @ NUL # (dev_st tmp @ NUL # dev_usn tmp @ [NUL])"
    "drop (1 + length (dev_descURL tmp)) ?m = dev_st tmp @ NUL # (dev_usn tmp @ [NUL])"
    "drop (1 + length (dev_descURL tmp) + 1 + length (dev_st tmp)) ?m = dev_usn tmp @ NUL # []"
    by (simp_all add: dev_buffer_def)
  note m = member_eq_text [OF this(1), of "dev_descURL d"] member_eq_text [OF this(2), of "dev_st d"]
    member_eq_text [OF this(3), of "dev_usn d"]
  have eq: "member_eq (dev_descURL d) ?m 0 = Inr (dev_descURL d = dev_descURL tmp)"
    "member_eq (dev_st d) ?m (1 + length (dev_descURL tmp)) = Inr (dev_st d = dev_st tmp)"
    "member_eq (dev_usn d) ?m (1 + length (dev_descURL tmp) + 1 + length (dev_st tmp)) = Inr (dev_usn d = dev_usn tmp)"
    using c m by (simp_all add: dev_clean_def)
  show ?thesis unfolding same_dev_def Let_def eq by (auto intro: upnp_dev.equality)
qed

lemma known_dev_in: "list_all dev_clean ds \<Longrightarrow> dev_clean d \<Longrightarrow> known_dev ds d = Inr (d \<in> set ds)"
  by (induction ds) (auto simp: same_dev_eq)

subsection \<open>What is heard\<close>

definition reply_dev :: "string \<Rightarrow> upnp_dev option" where
  "reply_dev pkt =
     (case re_location (read_reply pkt) of None \<Rightarrow> None
      | Some url \<Rightarrow>
        (case re_st (read_reply pkt) of None \<Rightarrow> None
         | Some st \<Rightarrow> Some \<lparr>dev_descURL = url, dev_st = st,
             dev_usn = (case re_usn (read_reply pkt) of None \<Rightarrow> [] | Some u \<Rightarrow> u)\<rparr>))"

text \<open>The set of devices, newest first, that some replies describe.\<close>

definition heard :: "string list \<Rightarrow> upnp_dev list \<Rightarrow> upnp_dev list" where
  "heard = fold (\<lambda>pkt ds. case reply_dev pkt of None \<Rightarrow> ds | Some d \<Rightarrow> List.insert d ds)"

definition pkt_ok :: "string \<Rightarrow> bool" where
  "pkt_ok p \<longleftrightarrow> p \<noteq> [] \<and> length p \<le> BUFR_SIZE \<and> NUL \<notin> set p \<and> take 1 p \<noteq> '':''"

lemma piece_within: "b + k \<le> sz \<Longrightarrow> set (piece m (b, k)) \<subseteq> set (take sz m)"
proof -
  assume "b + k \<le> sz"
  then have "piece m (b, k) = take k (drop b (take sz m))"
    by (simp add: piece_def drop_take min_def)
  then show ?thesis by (metis set_drop_subset set_take_subset subset_trans)
qed

lemma dev_of_reply_eq:
  assumes "reply_of buf r = read_reply pkt"
  shows "dev_of_reply buf r = reply_dev pkt"
proof -
  have "re_location (read_reply pkt) = map_option (piece buf) (ms_location r)"
    "re_st (read_reply pkt) = map_option (piece buf) (ms_st r)" "re_usn (read_reply pkt) = map_option (piece buf) (ms_usn r)"
    unfolding assms [symmetric] by (simp_all add: reply_of_def)
  then show ?thesis by (auto simp: dev_of_reply_def reply_dev_def split: option.splits)
qed

lemma dev_of_reply_clean:
  assumes "pieces_in sz r" "NUL \<notin> set (take sz buf)" "dev_of_reply buf r = Some d"
  shows "dev_clean d"
proof -
  have "NUL \<notin> set (piece buf u)" if "ms_location r = Some u \<or> ms_st r = Some u \<or> ms_usn r = Some u" for u
    using that assms(1,2) piece_within [of "fst u" "snd u" sz buf]
    by (auto simp: pieces_in_def) blast+
  then show ?thesis using assms(3) by (auto simp: dev_of_reply_def dev_clean_def split: option.splits)
qed

lemma packet_received:
  assumes "pkt_ok pkt" "length buf = BUFR_SIZE"
  obtains buf' r where "receivedata (Datagram pkt # rs) buf = (int (length pkt), buf', rs)" "length buf' = BUFR_SIZE"
    "parseMSEARCHReply buf' (length pkt) = Inr r" "dev_of_reply buf' r = reply_dev pkt"
    "\<And>d. reply_dev pkt = Some d \<Longrightarrow> dev_clean d"
proof -
  define buf' where "buf' = pkt @ drop (length pkt) buf"
  have t: "take (length pkt) buf' = pkt" "length buf' = BUFR_SIZE" "length pkt \<le> length buf'"
    using assms by (simp_all add: buf'_def pkt_ok_def)
  have "take 1 buf' \<noteq> '':''" using assms by (cases pkt) (auto simp: buf'_def pkt_ok_def)
  from reply_is_parsed [OF t(3) this] obtain r where
    r: "parseMSEARCHReply buf' (length pkt) = Inr r" "reply_of buf' r = read_reply pkt" "pieces_in (length pkt) r"
    by (auto simp: t)
  have "receivedata (Datagram pkt # rs) buf = (int (length pkt), buf', rs)"
    using assms by (simp add: buf'_def pkt_ok_def Let_def)
  moreover have "dev_of_reply buf' r = reply_dev pkt" using r(2) by (rule dev_of_reply_eq)
  moreover have "reply_dev pkt = Some d \<Longrightarrow> dev_clean d" for d
    using dev_of_reply_clean [OF r(3), of buf' d] calculation(2) assms t by (simp add: pkt_ok_def)
  ultimately show ?thesis using that r t by blast
qed

lemma heard_clean:
  assumes "list_all pkt_ok pkts" "list_all dev_clean ds"
  shows "list_all dev_clean (heard pkts ds)"
  using assms
proof (induction pkts arbitrary: ds)
  case (Cons p ps)
  have "dev_clean d" if "reply_dev p = Some d" for d
  proof -
    have "length (replicate BUFR_SIZE NUL) = BUFR_SIZE" by simp
    then obtain buf' r where "\<And>d. reply_dev p = Some d \<Longrightarrow> dev_clean d"
      using packet_received [of p "replicate BUFR_SIZE NUL" "[]"] Cons.prems by force
    then show ?thesis using that by blast
  qed
  then have "list_all dev_clean (case reply_dev p of None \<Rightarrow> ds | Some d \<Rightarrow> List.insert d ds)"
    using Cons.prems by (auto simp: list_all_iff split: option.splits)
  then show ?case using Cons.IH [of "case reply_dev p of None \<Rightarrow> ds | Some d \<Rightarrow> List.insert d ds"] Cons.prems
    by (simp add: heard_def)
qed (simp add: heard_def)

lemma heard_Cons: "heard (p # ps) ds = heard ps (case reply_dev p of None \<Rightarrow> ds | Some d \<Rightarrow> List.insert d ds)"
  by (simp add: heard_def)

lemma rx_loop_packets:
  assumes "list_all pkt_ok pkts" "length (sd_bufr S) = BUFR_SIZE" "list_all dev_clean (sd_devlist S)"
    "sd_rx S = map Datagram pkts @ tail" "\<And>n. se_alloc E n"
  shows "\<exists>buf. length buf = BUFR_SIZE \<and> rx_loop E searchall S =
    rx_loop E searchall (S\<lparr>sd_bufr := buf, sd_rx := tail, sd_devlist := heard pkts (sd_devlist S)\<rparr>)"
  using assms(1-4)
proof (induction pkts arbitrary: S)
  case Nil
  then show ?case by (intro exI [of _ "sd_bufr S"], cases S) (simp add: heard_def)
next
  case (Cons p ps)
  let ?rs = "map Datagram ps @ tail"
  have p: "pkt_ok p" and ps: "list_all pkt_ok ps" using Cons.prems by simp_all
  obtain buf r where r: "receivedata (Datagram p # ?rs) (sd_bufr S) = (int (length p), buf, ?rs)"
    "length buf = BUFR_SIZE" "parseMSEARCHReply buf (length p) = Inr r" "dev_of_reply buf r = reply_dev p"
    and clean: "\<And>d. reply_dev p = Some d \<Longrightarrow> dev_clean d"
    using packet_received [OF p Cons.prems(2), of ?rs] by blast
  define ds where "ds = (case reply_dev p of None \<Rightarrow> sd_devlist S | Some d \<Rightarrow> List.insert d (sd_devlist S))"
  have "p \<noteq> []" using p by (simp add: pkt_ok_def)
  then have step: "rx_loop E searchall S = rx_loop E searchall (S\<lparr>sd_bufr := buf, sd_rx := ?rs, sd_devlist := ds\<rparr>)"
  proof -
    have rcv: "receivedata (sd_rx S) (sd_bufr S) = (int (length p), buf, ?rs)"
      using r(1) Cons.prems(4) by (simp del: receivedata.simps)
    have len: "\<not> int (length p) < 0" "int (length p) \<noteq> 0" using \<open>p \<noteq> []\<close> by simp_all
    show ?thesis
      unfolding rx_loop.simps [of E searchall S] rcv prod.case Let_def if_not_P [OF len(1)] if_not_P [OF len(2)] nat_int r(3)
        rbind_Inr r(4)
      using Cons.prems(3) clean assms(5)
      by (auto simp: ds_def known_dev_in List.insert_def split: option.splits)
  qed
  have "list_all dev_clean ds"
    using Cons.prems clean by (auto simp: ds_def list_all_iff split: option.splits)
  then show ?case unfolding step
    using Cons.IH [of "S\<lparr>sd_bufr := buf, sd_rx := ?rs, sd_devlist := ds\<rparr>"] ps r(2)
    by (simp add: heard_Cons ds_def)
qed

lemma rx_loop_silence:
  "sd_rx S = [] \<Longrightarrow> rx_loop E searchall S =
    (if sd_devlist S \<noteq> [] \<and> \<not> searchall then Inr (S\<lparr>sd_error := MINISSDPC_SUCCESS\<rparr>, True) else Inr (S, False))"
  by (simp add: rx_loop.simps [of E searchall S])

lemma send_all_keeps: "send_all E k n sentok S = (ok, S') \<Longrightarrow>
    sd_devlist S' = sd_devlist S \<and> sd_bufr S' = sd_bufr S \<and> sd_rx S' = sd_rx S \<and> sd_error S' = sd_error S"
  by (induction k arbitrary: n sentok S) (auto simp: Let_def)

theorem one_type_heard:
  assumes "se_socket E" "se_reuse E" "se_bind E" "se_resolve E UPNP_MCAST_ADDR = Some k" "\<And>n. se_alloc E n"
    "length junk = BUFR_SIZE" "length (msearch_msg False True t (mx_of_delay delay)) < BUFR_SIZE"
    "list_all pkt_ok pkts" "heard pkts [] \<noteq> []"
  shows "\<exists>S. ssdpDiscoverDevices E junk [t] delay False False (map Datagram pkts) = Inr S \<and>
    sd_devlist S = heard pkts [] \<and> sd_error S = MINISSDPC_SUCCESS"
proof -
  let ?msg = "msearch_msg False True t (mx_of_delay delay)"
  define S0 where "S0 = \<lparr>sd_bufr = ?msg @ NUL # drop (Suc (length ?msg)) junk, sd_devlist = [],
    sd_error = MINISSDPC_SUCCESS, sd_sends = [], sd_rx = map Datagram pkts\<rparr>"
  obtain ok S1 where s: "send_all E k (int (length ?msg)) False S0 = (ok, S1)" by force
  define S2 where "S2 = (if ok then S1 else S1\<lparr>sd_error := MINISSDPC_SOCKET_ERROR\<rparr>)"
  have S2: "sd_devlist S2 = []" "sd_rx S2 = map Datagram pkts @ []" "length (sd_bufr S2) = BUFR_SIZE"
    using send_all_keeps [OF s] assms(6,7) by (simp_all add: S2_def S0_def)
  then obtain buf where "rx_loop E False S2 = rx_loop E False (S2\<lparr>sd_bufr := buf, sd_rx := [], sd_devlist := heard pkts []\<rparr>)"
    using rx_loop_packets [OF assms(8) S2(3) _ S2(2) assms(5), of False] by auto
  then have loop: "rx_loop E False S2 =
      Inr (S2\<lparr>sd_bufr := buf, sd_rx := [], sd_devlist := heard pkts [], sd_error := MINISSDPC_SUCCESS\<rparr>, True)"
    using assms(9) by (simp add: rx_loop_silence)
  have "ssdpDiscoverDevices E junk [t] delay False False (map Datagram pkts) =
      Inr (S2\<lparr>sd_bufr := buf, sd_rx := [], sd_devlist := heard pkts [], sd_error := MINISSDPC_SUCCESS\<rparr>)"
    using assms(1-4,7) s loop
    by (simp add: ssdpDiscoverDevices_def device_loop.simps mcast_addr_def S2_def [symmetric] flip: S0_def)
  then show ?thesis by simp
qed

text \<open>Devices that send their own descriptions, each once, are all found, the last that answers first.\<close>

lemma heard_replies:
  assumes "list_all advert_ok ds" "distinct ds" "set ds \<inter> set acc = {}"
  shows "heard (map device_reply ds) acc = rev ds @ acc"
  using assms
proof (induction ds arbitrary: acc)
  case (Cons d ds)
  have "reply_dev (device_reply d) = Some d"
    using Cons.prems by (simp add: reply_dev_def device_reply_read)
  then show ?case using Cons.prems Cons.IH [of "d # acc"] by (simp add: heard_Cons)
qed (simp add: heard_def)

lemma daemon_absent [simp]: "daemon_loop alloc None searchall ts ds = ds"
  by (induction ts arbitrary: ds) (simp_all add: devices_from_daemon_def)

theorem all_devices_found:
  assumes "se_socket E" "se_reuse E" "se_bind E" "se_resolve E UPNP_MCAST_ADDR = Some k" "\<And>n. se_alloc E n"
    "length junk = BUFR_SIZE" "ds \<noteq> []" "distinct ds" "list_all advert_ok ds" "list_all (\<lambda>d. pkt_ok (device_reply d)) ds"
  shows "upnpDiscoverAll E None junk 2000 False (map (\<lambda>d. Datagram (device_reply d)) ds) = Inr (rev ds, UPNPDISCOVER_SUCCESS)"
proof -
  have short: "length (msearch_msg False True ''ssdp:all'' (mx_of_delay 2000)) < BUFR_SIZE" by code_simp
  have h: "heard (map device_reply ds) [] = rev ds" using heard_replies [of ds "[]"] assms by simp
  have "list_all pkt_ok (map device_reply ds)" using assms(10) by (simp add: list_all_iff)
  from one_type_heard [OF assms(1-6) short this] assms(7) show ?thesis
    unfolding upnpDiscoverAll_def upnpDiscoverDevices_def daemon_absent Let_def
    by (auto simp: h comp_def MINISSDPC_SUCCESS_def UPNPDISCOVER_SUCCESS_def)
qed

text \<open>
  When the first of two addresses cannot be sent to, the second is handed the length -1 instead of
  that of the request, and nothing is sent at all.
\<close>

theorem failed_send_spoils_next:
  assumes "se_socket E" "se_reuse E" "se_bind E" "se_resolve E UPNP_MCAST_ADDR = Some 2" "\<not> se_sent E 0"
    "length junk = BUFR_SIZE"
  shows "\<exists>S msg. ssdpDiscoverDevices E junk [''ssdp:all''] 2000 False False [] = Inr S \<and>
    sd_sends S = [(int (length msg), msg), (- 1, [])] \<and> sd_error S = MINISSDPC_SOCKET_ERROR"
proof -
  let ?msg = "msearch_msg False True ''ssdp:all'' (mx_of_delay 2000)"
  have short: "length ?msg < BUFR_SIZE" by code_simp
  show ?thesis using assms short
    by (simp add: ssdpDiscoverDevices_def device_loop.simps mcast_addr_def rx_loop_silence numeral_2_eq_2 Let_def)
qed

text \<open>
  minissdpd knows a root device and a device of another kind, in this order: only the first is looked
  at, so that the search for the next type goes on although something was found.
\<close>

theorem last_device_overlooked:
  assumes "fst (devices_from_daemon alloc daemon t) = [r, d]" "is_root r" "\<not> is_root d"
  shows "daemon_loop alloc daemon False (t # ts) [] = daemon_loop alloc daemon False ts [r, d]"
  using assms by simp

end
