(* ===== verification/ListDevices.thy ===== *)
theory ListDevices
  imports Discover "HOL-Library.Signed_Division"
begin

text \<open>
  The command udb upnp, list_upnpc_main of external/miniupnp/miniupnpc/listdevices.c: the devices
  found are grouped by the URL of their description, the URLs are printed, and the description of a
  device with "berxel" in its URL is fetched over HTTP and printed.  The HTTP connection is the
  record \<open>http_env\<close>.
\<close>

subsection \<open>Groups of devices\<close>

text \<open>
  struct upnp_dev_list: \<open>g_cap\<close> is the number of elements the array has memory for, which is not
  \<open>g_allocated\<close> after a realloc that failed.
\<close>

record dev_group =
  g_url :: string
  g_devs :: "upnp_dev list"
  g_allocated :: nat
  g_cap :: nat

definition ADD_DEVICE_COUNT_STEP :: nat where "ADD_DEVICE_COUNT_STEP = 16"

definition same_st_usn :: "upnp_dev \<Rightarrow> upnp_dev \<Rightarrow> bool" where
  "same_st_usn a b \<longleftrightarrow> c_str (dev_st a) = c_str (dev_st b) \<and> c_str (dev_usn a) = c_str (dev_usn b)"

definition group_add :: "(nat \<Rightarrow> bool) \<Rightarrow> dev_group \<Rightarrow> upnp_dev \<Rightarrow> fault + dev_group" where
  "group_add alloc g d =
     (if list_ex (\<lambda>e. same_st_usn e d) (g_devs g) then Inr g
      else
        let full = length (g_devs g) \<ge> g_allocated g; n = g_allocated g + ADD_DEVICE_COUNT_STEP in
        if full \<and> \<not> alloc (n * 8) then Inr (g\<lparr>g_allocated := n\<rparr>)
        else
          let g = (if full then g\<lparr>g_allocated := n, g_cap := n\<rparr> else g) in
          if length (g_devs g) < g_cap g then Inr (g\<lparr>g_devs := g_devs g @ [d]\<rparr>) else Inl OobWrite)"

text \<open>The groups with the device in the group of its URL, None when there is none.\<close>

primrec groups_add :: "(nat \<Rightarrow> bool) \<Rightarrow> dev_group list \<Rightarrow> upnp_dev \<Rightarrow> fault + dev_group list option" where
  "groups_add alloc [] d = Inr None"
| "groups_add alloc (g # gs) d =
     (if g_url g = c_str (dev_descURL d) then rbind (group_add alloc g d) (\<lambda>g. Inr (Some (g # gs)))
      else rbind (groups_add alloc gs d) (\<lambda>r. Inr (map_option (Cons g) r)))"

definition add_device :: "(nat \<Rightarrow> bool) \<Rightarrow> upnp_dev \<Rightarrow> dev_group list \<Rightarrow> fault + dev_group list" where
  "add_device alloc d list_head =
     rbind (groups_add alloc list_head d) (\<lambda>r.
     case r of Some gs \<Rightarrow> Inr gs
     | None \<Rightarrow>
       let url = c_str (dev_descURL d) in
       if \<not> alloc 40 then Inr list_head
       else if \<not> alloc (length url + 1) then Inr list_head
       else if \<not> alloc (ADD_DEVICE_COUNT_STEP * 8) then Inr list_head
       else Inr (\<lparr>g_url = url, g_devs = [d], g_allocated = ADD_DEVICE_COUNT_STEP, g_cap = ADD_DEVICE_COUNT_STEP\<rparr> # list_head))"

primrec add_devices :: "(nat \<Rightarrow> bool) \<Rightarrow> upnp_dev list \<Rightarrow> dev_group list \<Rightarrow> fault + dev_group list" where
  "add_devices alloc [] gs = Inr gs"
| "add_devices alloc (d # ds) gs = rbind (add_device alloc d gs) (add_devices alloc ds)"

subsection \<open>The HTTP client\<close>

text \<open>
  The address, the port and the path are strings copied without their NUL into zeroed arrays of 255
  bytes: a longer one leaves its array, and one of 255 bytes has no NUL where the array is read as a
  string.
\<close>

definition ARR :: nat where "ARR = 255"

definition arr_copy :: "string \<Rightarrow> fault + string" where
  "arr_copy s = (if length s > ARR then Inl OobWrite else Inr s)"

definition arr_read :: "string \<Rightarrow> fault + string" where
  "arr_read s = (if length s = ARR then Inl OobRead else Inr s)"

definition ERR_GENERAL :: int where "ERR_GENERAL = 1"
definition ERR_SOCKET :: int where "ERR_SOCKET = 2"
definition ERR_GETADDRINFO :: int where "ERR_GETADDRINFO = 3"
definition ERR_CONNECT :: int where "ERR_CONNECT = 4"
definition ERR_SEND :: int where "ERR_SEND = 5"

datatype addr_result = NoSocket | NoConnect | Connected

record http_env =
  he_addrs :: "string \<Rightarrow> string \<Rightarrow> addr_result list option"   \<comment> \<open>getaddrinfo, and what each address gives\<close>
  he_sent :: "string \<Rightarrow> int"                                  \<comment> \<open>the result of send\<close>
  he_recv :: "string \<Rightarrow> string \<Rightarrow> string option list"         \<comment> \<open>what recv gives: None for -1\<close>
  he_junk :: string                                            \<comment> \<open>what the buffer holds at first\<close>

primrec connect_loop :: "int \<Rightarrow> addr_result list \<Rightarrow> int + unit" where
  "connect_loop ret [] = Inl ret"
| "connect_loop ret (a # as) =
     (case a of NoSocket \<Rightarrow> connect_loop ERR_SOCKET as | NoConnect \<Rightarrow> connect_loop ERR_CONNECT as
      | Connected \<Rightarrow> Inr ())"

definition HTTP_BUF :: nat where "HTTP_BUF = 4096"

text \<open>strncat (buf, t, sizeof(buf) - strlen(buf) - 1)\<close>

definition strncat_buf :: "string \<Rightarrow> string \<Rightarrow> string" where
  "strncat_buf s t = s @ take (HTTP_BUF - length s - 1) t"

definition http_request :: "string \<Rightarrow> string \<Rightarrow> string" where
  "http_request ip uri =
     strncat_buf (strncat_buf (strncat_buf (strncat_buf ''GET /'' uri) ('' HTTP/1.0'' @ crlf @ ''Host: '')) ip) (crlf @ crlf)"

text \<open>strstr (buf, "\r\n\r\n"): the search ends at a NUL, and leaves a buffer without one.\<close>

fun find_end :: "string \<Rightarrow> fault + nat option" where
  "find_end [] = Inl OobRead"
| "find_end (c # cs) =
     (if c = NUL then Inr None
      else if take 4 (c # cs) = crlf @ crlf then Inr (Some 0)
      else rbind (find_end cs) (\<lambda>r. Inr (map_option Suc r)))"

text \<open>
  sscanf (inpbuf, "%s %d %s", ...): the words fit their arrays of 4096 bytes, since they are
  words of the buffer; a conversion that comes to the end of a buffer without NUL leaves it.
\<close>

definition get_http_respcode :: "string \<Rightarrow> fault + int" where
  "get_http_respcode inpbuf =
     (let t = c_str inpbuf; ends = NUL \<in> set inpbuf; word = (\<lambda>s. dropWhile (\<lambda>c. \<not> isspace c) (dropWhile isspace s));
          r1 = word t in
      if dropWhile isspace r1 = [] \<and> \<not> ends then Inl OobRead
      else if dropWhile isspace t = [] then Inr (- 1)
      else case scan_d r1 of None \<Rightarrow> Inr (- 1)
      | Some (n, r2) \<Rightarrow> if word r2 = [] \<and> \<not> ends then Inl OobRead else Inr n)"

text \<open>write (writefd, buf + off, n): a negative n is a huge size.\<close>

definition write_buf :: "string \<Rightarrow> nat \<Rightarrow> int \<Rightarrow> fault + string" where
  "write_buf buf off n = (if n < 0 \<or> off + nat n > length buf then Inl OobRead else Inr (take (nat n) (drop off buf)))"

text \<open>One turn of the loop: the number of bytes, the buffer; the result says what is written or that it ends.\<close>

datatype http_step = Again bool string | Return int

definition http_chunk :: "bool \<Rightarrow> int \<Rightarrow> string \<Rightarrow> fault + http_step" where
  "http_chunk header nrecvd buf =
     (if header then
        rbind (find_end buf) (\<lambda>r. case r of None \<Rightarrow> Inr (Again True [])
        | Some off \<Rightarrow>
          rbind (get_http_respcode buf) (\<lambda>rcode.
            if rcode sdiv 100 \<noteq> 2 then Inr (Return (rcode sdiv 100 * 10 + rcode smod 10))
            else rbind (write_buf buf (off + 4) (nrecvd - int (off + 4))) (\<lambda>out. Inr (Again False out))))
      else rbind (write_buf buf 0 nrecvd) (\<lambda>out. Inr (Again False out)))"

text \<open>The loop over recv, which gives 0 behind the end of the list: the text written and the result.\<close>

primrec recv_loop :: "string option list \<Rightarrow> bool \<Rightarrow> string \<Rightarrow> fault + string \<times> int" where
  "recv_loop [] header buf = Inr ([], 0)"
| "recv_loop (r # rs) header buf =
     (let chunk = (case r of None \<Rightarrow> [] | Some c \<Rightarrow> take HTTP_BUF c);
          nrecvd = (case r of None \<Rightarrow> - 1 | Some c \<Rightarrow> int (length chunk));
          buf = chunk @ drop (length chunk) buf in
      if nrecvd = 0 then Inr ([], 0)
      else rbind (http_chunk header nrecvd buf) (\<lambda>step.
        case step of Return v \<Rightarrow> Inr ([], v)
        | Again header out \<Rightarrow> rbind (recv_loop rs header buf) (\<lambda>(out2, v). Inr (out @ out2, v))))"

definition download_http :: "http_env \<Rightarrow> string \<Rightarrow> string \<Rightarrow> string \<Rightarrow> fault + string \<times> int" where
  "download_http H ip port uri =
     rbind (arr_read ip) (\<lambda>ip.
     case he_addrs H ip port of None \<Rightarrow> Inr ([], ERR_GETADDRINFO)
     | Some as \<Rightarrow>
       (case connect_loop ERR_GENERAL as of Inl ret \<Rightarrow> Inr ([], ret)
        | Inr _ \<Rightarrow>
          rbind (arr_read uri) (\<lambda>uri.
          let req = http_request ip uri in
          if he_sent H req \<noteq> int (length req) then Inr ([], ERR_SEND)
          else recv_loop (he_recv H ip req) True (req @ NUL # drop (Suc (length req)) (he_junk H)))))"

subsection \<open>The parts of a URL\<close>

definition from_char :: "char \<Rightarrow> string \<Rightarrow> string option" where
  "from_char c s = (if c \<in> set s then Some (dropWhile (\<lambda>x. x \<noteq> c) s) else None)"

definition url_parts :: "string \<Rightarrow> fault + string \<times> string \<times> string" where
  "url_parts oristr =
     (let input = (if take 7 oristr = ''http://'' then drop 7 oristr else oristr) in
      case from_char CHR '':'' input of
        None \<Rightarrow>
          (case from_char CHR ''/'' input of None \<Rightarrow> Inl NullDeref
           | Some p \<Rightarrow>
             rbind (arr_copy p) (\<lambda>uri.
             rbind (arr_copy (take (length input - length p) input)) (\<lambda>ip. Inr (ip, ''80'', uri))))
      | Some tag \<Rightarrow>
          rbind (arr_copy (take (length input - length tag) input)) (\<lambda>ip.
          rbind (arr_copy (tl tag)) (\<lambda>input2.
          case from_char CHR ''/'' (tl tag) of None \<Rightarrow> Inl NullDeref
          | Some p \<Rightarrow>
            rbind (arr_copy p) (\<lambda>uri.
            rbind (arr_read input2) (\<lambda>input2.
            rbind (arr_read uri) (\<lambda>uri. Inr (ip, take (length input2 - length uri) input2, uri)))))))"

definition berxel_ssdp_print :: "http_env \<Rightarrow> string \<Rightarrow> fault + string \<times> int" where
  "berxel_ssdp_print H oristr = rbind (url_parts oristr) (\<lambda>(ip, port, uri). download_http H ip port uri)"

subsection \<open>list_upnpc_main\<close>

record list_opts =
  lo_device :: "string option"
  lo_devices :: "string list option"
  lo_multicast :: "string option"
  lo_ipv6 :: bool
  lo_ttl :: int

definition list_defaults :: list_opts where
  "list_defaults = \<lparr>lo_device = None, lo_devices = None, lo_multicast = None, lo_ipv6 = False, lo_ttl = 2\<rparr>"

text \<open>The arguments behind the program's name; anything unknown prints the usage.\<close>

fun list_args :: "string list \<Rightarrow> list_opts \<Rightarrow> int + list_opts" where
  "list_args [] p = Inr p"
| "list_args (a # as) p =
     (if a = ''-6'' then list_args as (p\<lparr>lo_ipv6 := True\<rparr>)
      else if a = ''-d'' then (case as of [] \<Rightarrow> Inl 1 | v # as' \<Rightarrow> list_args as' (p\<lparr>lo_device := Some v\<rparr>))
      else if a = ''-t'' then (case as of [] \<Rightarrow> Inl 1 | v # as' \<Rightarrow> list_args as' (p\<lparr>lo_ttl := atoi v mod 256\<rparr>))
      else if a = ''-l'' then (case as of [] \<Rightarrow> Inl 1 | v # as' \<Rightarrow> Inr (p\<lparr>lo_devices := Some as\<rparr>))
      else if a = ''-m'' then (case as of [] \<Rightarrow> Inl 1 | v # as' \<Rightarrow> list_args as' (p\<lparr>lo_multicast := Some v\<rparr>))
      else Inl 1)"

definition line :: "string \<Rightarrow> string" where
  "line s = s @ [CHR 0x0A]"

text \<open>
  What is printed for the groups, in the order of the calls: as on a terminal, where each line of
  printf is out before the description is written to the descriptor.
\<close>

primrec print_groups :: "http_env \<Rightarrow> dev_group list \<Rightarrow> fault + string" where
  "print_groups H [] = Inr []"
| "print_groups H (g # gs) =
     rbind (if strstr (g_url g) ''berxel'' then berxel_ssdp_print H (g_url g) else Inr ([], 0)) (\<lambda>(out, _).
     rbind (print_groups H gs) (\<lambda>rest. Inr (line (g_url g @ '' :'') @ out @ line [] @ rest)))"

text \<open>The search and what is printed before it.\<close>

definition list_search where
  "list_search E daemon junk p rx =
     (case lo_device p of
        Some d \<Rightarrow> (line (''searching UPnP device type '' @ d), upnpDiscoverDevice E daemon junk d 2000 (lo_ipv6 p) rx)
      | None \<Rightarrow>
        (case lo_devices p of
           Some ds \<Rightarrow> (line ''searching UPnP device types :'' @ concat (map (\<lambda>d. line (CHR 0x09 # d)) ds),
             upnpDiscoverDevices E daemon junk ds 2000 (lo_ipv6 p) True rx)
         | None \<Rightarrow> (line ''searching all UPnP devices'', upnpDiscoverAll E daemon junk 2000 (lo_ipv6 p) rx)))"

text \<open>The output, without the usage, and the result.\<close>

definition list_upnpc_main ::
  "ssdp_env \<Rightarrow> (byte list \<Rightarrow> byte list list option) option \<Rightarrow> http_env \<Rightarrow> string \<Rightarrow> string list \<Rightarrow> rx list \<Rightarrow> fault + string \<times> int" where
  "list_upnpc_main E daemon H junk args rx =
     (case list_args args list_defaults of Inl v \<Rightarrow> Inr ([], v)
      | Inr p \<Rightarrow>
        (case list_search E daemon junk p rx of (out, found) \<Rightarrow>
         rbind found (\<lambda>(devlist, _).
           if devlist = [] then Inr (out @ line ''no device found.'', 0)
           else
             rbind (add_devices (se_alloc E) devlist []) (\<lambda>gs.
             rbind (print_groups H gs) (\<lambda>text. Inr (out @ line [] @ text, 0))))))"

end
