(* ===== verification/UpnpRuns.thy ===== *)
theory UpnpRuns
  imports ListDevices HubRuns
begin

text \<open>
  Results on udb upnp: how devices are grouped, what a URL is cut into, what is fetched, and whole
  runs of the command, with the devices of a small network as the example.
\<close>

subsection \<open>The groups\<close>

definition group_ok :: "dev_group \<Rightarrow> bool" where
  "group_ok g \<longleftrightarrow> length (g_devs g) \<le> g_allocated g \<and> g_cap g = g_allocated g"

text \<open>A list without a second device of the same type and name.\<close>

definition uniq_devs :: "upnp_dev list \<Rightarrow> upnp_dev list" where
  "uniq_devs ds = fold (\<lambda>d acc. if list_ex (\<lambda>e. same_st_usn e d) acc then acc else acc @ [d]) ds []"

definition dev_url :: "upnp_dev \<Rightarrow> string" where
  "dev_url d = c_str (dev_descURL d)"

lemma uniq_devs_snoc:
  "uniq_devs (ds @ [d]) = (if list_ex (\<lambda>e. same_st_usn e d) (uniq_devs ds) then uniq_devs ds else uniq_devs ds @ [d])"
  by (simp add: uniq_devs_def)

lemma group_add_ok:
  assumes "group_ok g" "\<And>n. alloc n"
  obtains g' where "group_add alloc g d = Inr g'" "group_ok g'" "g_url g' = g_url g"
    "g_devs g' = (if list_ex (\<lambda>e. same_st_usn e d) (g_devs g) then g_devs g else g_devs g @ [d])"
proof -
  have "\<exists>g'. group_add alloc g d = Inr g' \<and> group_ok g' \<and> g_url g' = g_url g \<and>
      g_devs g' = (if list_ex (\<lambda>e. same_st_usn e d) (g_devs g) then g_devs g else g_devs g @ [d])"
    using assms by (auto simp: group_add_def group_ok_def Let_def ADD_DEVICE_COUNT_STEP_def)
  then show ?thesis using that by blast
qed

text \<open>The groups of a list of devices that came in this order.\<close>

definition groups_of :: "upnp_dev list \<Rightarrow> dev_group list \<Rightarrow> bool" where
  "groups_of ds gs \<longleftrightarrow>
     map g_url gs = fold List.insert (map dev_url ds) [] \<and>
     list_all (\<lambda>g. group_ok g \<and> g_devs g = uniq_devs (filter (\<lambda>d. dev_url d = g_url g) ds)) gs"

lemma set_fold_insert: "set (fold List.insert xs acc) = set xs \<union> set acc"
  by (induction xs arbitrary: acc) auto

lemma distinct_fold_insert: "distinct acc \<Longrightarrow> distinct (fold List.insert xs acc)"
  by (induction xs arbitrary: acc) auto

lemma groups_add_found:
  assumes "distinct (map g_url gs)" "dev_url d \<in> set (map g_url gs)" "list_all group_ok gs" "\<And>n. alloc n"
  shows "\<exists>gs'. groups_add alloc gs d = Inr (Some gs') \<and> map g_url gs' = map g_url gs \<and>
    list_all2 (\<lambda>g g'. group_ok g' \<and> g_url g' = g_url g \<and> g_devs g' =
      (if g_url g = dev_url d \<and> \<not> list_ex (\<lambda>e. same_st_usn e d) (g_devs g) then g_devs g @ [d] else g_devs g)) gs gs'"
  using assms(1-3)
proof (induction gs)
  case (Cons g gs)
  show ?case
  proof (cases "g_url g = dev_url d")
    case True
    obtain g' where g': "group_add alloc g d = Inr g'" "group_ok g'" "g_url g' = g_url g"
      "g_devs g' = (if list_ex (\<lambda>e. same_st_usn e d) (g_devs g) then g_devs g else g_devs g @ [d])"
      using group_add_ok [of g alloc d] Cons.prems assms(4) by auto
    have "list_all2 (\<lambda>g g'. group_ok g' \<and> g_url g' = g_url g \<and> g_devs g' =
        (if g_url g = dev_url d \<and> \<not> list_ex (\<lambda>e. same_st_usn e d) (g_devs g) then g_devs g @ [d] else g_devs g)) gs gs"
      using Cons.prems True by (auto simp: list_all2_same list_all_iff image_iff)
    then show ?thesis using True g' by (simp add: dev_url_def)
  next
    case False
    then show ?thesis using Cons by (auto simp: dev_url_def)
  qed
qed simp

lemma groups_add_new: "dev_url d \<notin> set (map g_url gs) \<Longrightarrow> groups_add alloc gs d = Inr None"
  by (induction gs) (auto simp: dev_url_def)

lemma add_device_groups:
  assumes g: "groups_of ds gs" and alloc: "\<And>n. alloc n"
  shows "\<exists>gs'. add_device alloc d gs = Inr gs' \<and> groups_of (ds @ [d]) gs'"
proof (cases "dev_url d \<in> set (map g_url gs)")
  case True
  have "distinct (map g_url gs)" using g by (simp add: groups_of_def distinct_fold_insert)
  moreover have "list_all group_ok gs" using g by (auto simp: groups_of_def list_all_iff)
  ultimately obtain gs' where gs': "groups_add alloc gs d = Inr (Some gs')" "map g_url gs' = map g_url gs"
    "list_all2 (\<lambda>g g'. group_ok g' \<and> g_url g' = g_url g \<and> g_devs g' =
      (if g_url g = dev_url d \<and> \<not> list_ex (\<lambda>e. same_st_usn e d) (g_devs g) then g_devs g @ [d] else g_devs g)) gs gs'"
    using groups_add_found [of gs d alloc] True alloc by blast
  have "map g_url gs = fold List.insert (map dev_url ds) []" using g by (simp add: groups_of_def)
  then have "dev_url d \<in> set (fold List.insert (map dev_url ds) [])" using True by (simp only:)
  moreover have "list_all (\<lambda>g. group_ok g \<and> g_devs g = uniq_devs (filter (\<lambda>d. dev_url d = g_url g) (ds @ [d]))) gs'"
    using g gs'(3) by (auto simp: groups_of_def list_all_length list_all2_conv_all_nth uniq_devs_snoc)
  ultimately show ?thesis using g gs' by (auto simp: add_device_def groups_of_def)
next
  case False
  let ?g = "\<lparr>g_url = dev_url d, g_devs = [d], g_allocated = ADD_DEVICE_COUNT_STEP, g_cap = ADD_DEVICE_COUNT_STEP\<rparr>"
  have add: "add_device alloc d gs = Inr (?g # gs)"
    using groups_add_new [OF False] alloc by (simp add: add_device_def dev_url_def)
  have "map g_url gs = fold List.insert (map dev_url ds) []" using g by (simp add: groups_of_def)
  then have new: "dev_url d \<notin> set (fold List.insert (map dev_url ds) [])" using False by (simp only:) simp
  then have "filter (\<lambda>x. dev_url x = dev_url d) ds = []" by (auto simp: set_fold_insert filter_empty_conv image_iff)
  moreover have "group_ok ?g" by (simp add: group_ok_def ADD_DEVICE_COUNT_STEP_def)
  moreover have "\<forall>g\<in>set gs. dev_url d \<noteq> g_url g" using False by auto
  ultimately have "list_all (\<lambda>g. group_ok g \<and> g_devs g = uniq_devs (filter (\<lambda>d. dev_url d = g_url g) (ds @ [d]))) (?g # gs)"
    using g by (auto simp: groups_of_def list_all_iff uniq_devs_def)
  then show ?thesis using g new by (simp add: add groups_of_def)
qed

lemma add_devices_append:
  "add_devices alloc (ds @ es) gs = rbind (add_devices alloc ds gs) (add_devices alloc es)"
proof (induction ds arbitrary: gs)
  case (Cons d ds)
  then show ?case by (cases "add_device alloc d gs") simp_all
qed simp

lemma devices_are_grouped:
  assumes "\<And>n. alloc n"
  shows "\<exists>gs. add_devices alloc ds [] = Inr gs \<and> groups_of ds gs"
proof (induction ds rule: rev_induct)
  case Nil
  then show ?case by (simp add: groups_of_def)
next
  case (snoc d ds)
  then obtain gs where gs: "add_devices alloc ds [] = Inr gs" "groups_of ds gs" by blast
  obtain gs' where "add_device alloc d gs = Inr gs'" "groups_of (ds @ [d]) gs'"
    using add_device_groups [of ds gs alloc d, OF gs (2) assms] by blast
  then show ?case using gs (1) by (intro exI [of _ gs']) (simp add: add_devices_append del: fold_simps)
qed

text \<open>
  The devices found fall into one group for each URL, in the reverse order of the first
  appearance of the URLs, and each group holds the devices with its URL in the order they came,
  without a second one of the same type and name; no write leaves an array.
\<close>

theorem devices_grouped:
  assumes "\<And>n. alloc n"
  shows "\<exists>gs. add_devices alloc ds [] = Inr gs \<and> groups_of ds gs"
  using assms by (rule devices_are_grouped)

text \<open>
  A realloc that fails leaves the array but not the count of its elements: the second device that
  does not fit is written behind it.
\<close>

theorem failed_realloc_overflows:
  assumes "group_ok g" "length (g_devs g) = g_allocated g" "\<not> alloc ((g_allocated g + ADD_DEVICE_COUNT_STEP) * 8)"
    "\<not> list_ex (\<lambda>e. same_st_usn e d) (g_devs g)" "\<not> list_ex (\<lambda>e. same_st_usn e d') (g_devs g)"
  shows "\<exists>g'. group_add alloc g d = Inr g' \<and> group_add alloc g' d' = Inl OobWrite"
  using assms by (auto simp: group_add_def group_ok_def Let_def ADD_DEVICE_COUNT_STEP_def)

subsection \<open>The parts of a URL\<close>

lemma from_char_first: "c \<notin> set xs \<Longrightarrow> from_char c (xs @ c # ys) = Some (c # ys)"
  by (induction xs) (auto simp: from_char_def)

lemma from_char_none: "c \<notin> set xs \<Longrightarrow> from_char c xs = None"
  by (simp add: from_char_def)

theorem url_split:
  assumes "set host \<inter> {CHR '':'', CHR ''/''} = {}" "set port \<inter> {CHR ''/''} = {}" "length host \<le> ARR"
    "length port + length path < ARR - 1"
  shows "url_parts (''http://'' @ host @ '':'' @ port @ ''/'' @ path) = Inr (host, port, ''/'' @ path)"
    and "CHR '':'' \<notin> set path \<Longrightarrow> url_parts (''http://'' @ host @ ''/'' @ path) = Inr (host, ''80'', ''/'' @ path)"
proof -
  have h: "CHR '':'' \<notin> set host" "CHR ''/'' \<notin> set host" "CHR ''/'' \<notin> set port" using assms by auto
  show "url_parts (''http://'' @ host @ '':'' @ port @ ''/'' @ path) = Inr (host, port, ''/'' @ path)"
    using assms(3,4) h
    by (simp add: url_parts_def from_char_first [of "CHR '':''" host "port @ CHR ''/'' # path", simplified]
        from_char_first [of "CHR ''/''" port path] arr_copy_def arr_read_def ARR_def)
  show "url_parts (''http://'' @ host @ ''/'' @ path) = Inr (host, ''80'', ''/'' @ path)" if "CHR '':'' \<notin> set path"
    using assms(3,4) h that
    by (simp add: url_parts_def from_char_none [of "CHR '':''" "host @ CHR ''/'' # path"]
        from_char_first [of "CHR ''/''" host path] arr_copy_def arr_read_def ARR_def)
qed

text \<open>A URL without a path ends the program, and so does one with a colon behind the last slash.\<close>

theorem url_without_path:
  assumes "CHR ''/'' \<notin> set rest" "length pre \<le> ARR" "length rest \<le> ARR" "CHR '':'' \<notin> set pre"
  shows "url_parts (''http://'' @ pre @ '':'' @ rest) = Inl NullDeref"
  using assms
  by (simp add: url_parts_def from_char_first [of "CHR '':''" pre rest] from_char_none [of "CHR ''/''" rest] arr_copy_def ARR_def)

subsection \<open>What is fetched\<close>

definition plain_line :: "string \<Rightarrow> bool" where
  "plain_line l \<longleftrightarrow> l \<noteq> [] \<and> list_all (\<lambda>c. c \<noteq> NUL \<and> c \<noteq> CHR 0x0D \<and> c \<noteq> CHR 0x0A) l"

definition head_lines :: "string list \<Rightarrow> string" where
  "head_lines ls = concat (map (\<lambda>l. l @ crlf) ls)"

lemma find_end_skip:
  assumes "list_all (\<lambda>c. c \<noteq> NUL \<and> c \<noteq> CHR 0x0D \<and> c \<noteq> CHR 0x0A) l"
  shows "find_end (l @ s) = rbind (find_end s) (\<lambda>r. Inr (map_option (\<lambda>n. length l + n) r))"
  using assms
proof (induction l)
  case Nil
  then show ?case by (cases "find_end s") (auto simp: option.map_id0 [unfolded id_def])
next
  case (Cons c cs)
  then show ?case by (cases "find_end s") (auto simp: crlf_def option.map_comp comp_def)
qed

lemma find_end_line_end:
  assumes "c \<noteq> CHR 0x0D"
  shows "find_end (crlf @ c # s) = rbind (find_end (c # s)) (\<lambda>r. Inr (map_option (\<lambda>n. 2 + n) r))"
  using assms by (cases "find_end (c # s)") (auto simp: crlf_def NUL_def option.map_comp comp_def)

lemma find_end_head:
  assumes "ls \<noteq> []" "list_all plain_line ls"
  shows "find_end (head_lines ls @ crlf @ s) = Inr (Some (length (head_lines ls) - 2))"
  using assms
proof (induction ls)
  case (Cons l ls)
  have l: "list_all (\<lambda>c. c \<noteq> NUL \<and> c \<noteq> CHR 0x0D \<and> c \<noteq> CHR 0x0A) l" using Cons.prems by (simp add: plain_line_def)
  show ?case
  proof (cases ls)
    case Nil
    have "find_end (crlf @ crlf @ s) = Inr (Some 0)" by (simp add: crlf_def NUL_def)
    then show ?thesis using find_end_skip [OF l, of "crlf @ crlf @ s"] Nil
      by (simp add: head_lines_def) (simp add: crlf_def)
  next
    case (Cons k ks)
    then obtain c cs where c: "k = c # cs" "c \<noteq> CHR 0x0D" using Cons.prems by (cases k) (auto simp: plain_line_def)
    then have h: "head_lines ls @ crlf @ s = c # (cs @ crlf @ head_lines ks @ crlf @ s)"
      by (simp add: Cons head_lines_def)
    define t where "t = cs @ crlf @ head_lines ks @ crlf @ s"
    have n: "length (head_lines ls) \<ge> 2" using Cons by (simp add: head_lines_def crlf_def)
    have ih: "find_end (c # t) = Inr (Some (length (head_lines ls) - 2))"
      using Cons.IH Cons.prems Cons h by (simp add: t_def)
    have "find_end (crlf @ c # t) = Inr (Some (2 + (length (head_lines ls) - 2)))"
      by (simp only: find_end_line_end [OF c (2)] ih rbind_Inr option.map)
    then have "find_end (l @ crlf @ c # t) = Inr (Some (length l + (2 + (length (head_lines ls) - 2))))"
      by (simp only: find_end_skip [OF l] rbind_Inr option.map)
    moreover have "head_lines (l # ls) @ crlf @ s = l @ crlf @ c # t" using h by (simp add: head_lines_def t_def)
    moreover have "length (head_lines (l # ls)) = length l + 2 + length (head_lines ls)"
      by (simp add: head_lines_def crlf_def)
    ultimately show ?thesis using n by simp
  qed
qed simp

definition status_line :: "string \<Rightarrow> nat \<Rightarrow> string \<Rightarrow> string" where
  "status_line proto n phrase = proto @ '' '' @ dec_text n @ '' '' @ phrase"

definition good_status :: "string \<Rightarrow> nat \<Rightarrow> string \<Rightarrow> bool" where
  "good_status proto n phrase \<longleftrightarrow>
     proto \<noteq> [] \<and> list_all (\<lambda>c. \<not> isspace c \<and> c \<noteq> NUL) proto \<and> n < 2147483648 \<and>
     plain_line phrase \<and> \<not> isspace (hd phrase)"

lemma space_chars [simp]: "isspace CHR '' ''" "isspace CHR 0x0D" "isspace CHR 0x0A" "\<not> isspace NUL" "\<not> isdigit CHR '' ''"
  by code_simp+

lemma dec_chars: "c \<in> set (dec_text n) \<Longrightarrow> c \<noteq> NUL \<and> c \<noteq> CHR 0x0D \<and> c \<noteq> CHR 0x0A \<and> \<not> isspace c"
  using dec_text_reads [of n] isdigit_sign [of c] by (auto simp: list_all_iff isdigit_def code_def NUL_def)

lemma status_plain: "good_status proto n phrase \<Longrightarrow> plain_line (status_line proto n phrase)"
proof -
  assume s: "good_status proto n phrase"
  let ?P = "\<lambda>c. c \<noteq> NUL \<and> c \<noteq> CHR 0x0D \<and> c \<noteq> CHR 0x0A"
  have "list_all ?P proto" using s space_chars by (auto simp: good_status_def list_all_iff)
  moreover have "list_all ?P (dec_text n)" using dec_chars [of _ n] by (simp add: list_all_iff)
  moreover have "list_all ?P phrase" using s by (simp add: good_status_def plain_line_def)
  moreover have "?P CHR '' ''" by (simp add: NUL_def)
  ultimately show ?thesis by (simp add: plain_line_def status_line_def)
qed

lemma c_str_prefix: "list_all (\<lambda>c. c \<noteq> NUL) s \<Longrightarrow> c_str (s @ t) = s @ c_str t"
  unfolding c_str_def by (induction s) auto

lemma scan_d_blank: "scan_d (CHR '' '' # s) = scan_d s"
  by (simp add: scan_d_def scan_sign_def)

lemma respcode_status:
  assumes "good_status proto n phrase"
  shows "get_http_respcode (status_line proto n phrase @ crlf @ rest) = Inr (int n)"
proof -
  let ?tail = "crlf @ c_str rest" and ?buf = "status_line proto n phrase @ crlf @ rest"
  have "list_all (\<lambda>c. c \<noteq> NUL) (status_line proto n phrase @ crlf)"
    using status_plain [OF assms] by (auto simp: plain_line_def list_all_iff crlf_def NUL_def)
  from c_str_prefix [OF this, of rest] have t: "c_str ?buf = proto @ CHR '' '' # dec_text n @ CHR '' '' # phrase @ ?tail"
    by (simp add: status_line_def)
  obtain p ps where p: "proto = p # ps" "\<not> isspace p" using assms by (cases proto) (auto simp: good_status_def)
  obtain q qs where q: "phrase = q # qs" "\<not> isspace q" using assms by (cases phrase) (auto simp: good_status_def plain_line_def)
  obtain d ds where d: "dec_text n = d # ds" "\<not> isspace d"
    using dec_text_reads [of n] dec_chars [of _ n] by (cases "dec_text n") auto
  have t1: "dropWhile isspace (c_str ?buf) = c_str ?buf" unfolding t using p by simp
  have w1: "dropWhile (\<lambda>c. \<not> isspace c) (c_str ?buf) = CHR '' '' # dec_text n @ CHR '' '' # phrase @ ?tail"
  proof -
    have "list_all (\<lambda>c. \<not> isspace c) proto" using assms by (auto simp: good_status_def list_all_iff)
    then show ?thesis unfolding t by (induction proto) auto
  qed
  have r1: "dropWhile isspace (CHR '' '' # dec_text n @ CHR '' '' # phrase @ ?tail) \<noteq> []" using d by simp
  have sc: "scan_d (CHR '' '' # dec_text n @ CHR '' '' # phrase @ ?tail) = Some (int n, CHR '' '' # phrase @ ?tail)"
    unfolding scan_d_blank using assms by (intro scan_d_text) (auto simp: good_status_def)
  have w2: "dropWhile (\<lambda>c. \<not> isspace c) (dropWhile isspace (CHR '' '' # phrase @ ?tail)) \<noteq> []"
    using q by (simp add: dropWhile_eq_Nil_conv crlf_def)
  have ne: "c_str ?buf \<noteq> []" unfolding t using p by simp
  show ?thesis
    unfolding get_http_respcode_def Let_def t1 w1 sc option.case prod.case
    using r1 w2 ne by simp
qed

lemma recv_bodies:
  assumes "list_all (\<lambda>c. c \<noteq> [] \<and> length c \<le> HTTP_BUF) cs" "length buf = HTTP_BUF"
  shows "recv_loop (map Some cs) False buf = Inr (concat cs, 0)"
  using assms
proof (induction cs arbitrary: buf)
  case (Cons c cs)
  have "length (c @ drop (length c) buf) = HTTP_BUF" using Cons.prems by simp
  from Cons.IH [OF _ this] show ?case using Cons.prems by (simp add: http_chunk_def write_buf_def)
qed simp

lemma recv_step:
  "c \<noteq> [] \<Longrightarrow> length c \<le> HTTP_BUF \<Longrightarrow>
   recv_loop (Some c # rs) header buf =
     rbind (http_chunk header (int (length c)) (c @ drop (length c) buf)) (\<lambda>step.
       case step of Return v \<Rightarrow> Inr ([], v)
       | Again header out \<Rightarrow>
         rbind (recv_loop rs header (c @ drop (length c) buf)) (\<lambda>(out2, v). Inr (out @ out2, v)))"
  by (simp add: Let_def)

lemma length_http_request: "length (http_request ip uri) < HTTP_BUF"
proof -
  have "length s < HTTP_BUF \<Longrightarrow> length (strncat_buf s t) < HTTP_BUF" for s t by (simp add: strncat_buf_def)
  then show ?thesis by (simp add: http_request_def HTTP_BUF_def)
qed

lemma http_request_text:
  assumes "length ip < ARR" "length uri < ARR"
  shows "http_request ip uri = ''GET /'' @ uri @ '' HTTP/1.0'' @ crlf @ ''Host: '' @ ip @ crlf @ crlf"
  using assms by (simp add: http_request_def strncat_buf_def HTTP_BUF_def ARR_def crlf_def)

definition reachable_at :: "http_env \<Rightarrow> string \<Rightarrow> string \<Rightarrow> string \<Rightarrow> bool" where
  "reachable_at H ip port uri \<longleftrightarrow>
     (\<exists>as. he_addrs H ip port = Some as \<and> connect_loop ERR_GENERAL as = Inr ()) \<and>
     he_sent H (http_request ip uri) = int (length (http_request ip uri)) \<and> length (he_junk H) = HTTP_BUF \<and>
     length ip < ARR \<and> length uri < ARR"

lemma download_loop:
  assumes "reachable_at H ip port uri"
  obtains buf where "length buf = HTTP_BUF" "take (length (http_request ip uri)) buf = http_request ip uri"
    "download_http H ip port uri = recv_loop (he_recv H ip (http_request ip uri)) True buf"
proof -
  let ?req = "http_request ip uri"
  have "length (?req @ NUL # drop (Suc (length ?req)) (he_junk H)) = HTTP_BUF"
    using assms length_http_request [of ip uri] by (simp add: reachable_at_def)
  moreover have "download_http H ip port uri =
      recv_loop (he_recv H ip ?req) True (?req @ NUL # drop (Suc (length ?req)) (he_junk H))"
    using assms by (auto simp: reachable_at_def download_http_def arr_read_def Let_def)
  ultimately show ?thesis by (intro that) auto
qed

lemma body_is_fetched:
  assumes H: "reachable_at H ip port uri" and s: "good_status proto n phrase" "n div 100 = 2" and hs: "list_all plain_line hs"
    and recv: "he_recv H ip (http_request ip uri) =
      Some (head_lines (status_line proto n phrase # hs) @ crlf @ body) # map Some cs"
    and len: "length (head_lines (status_line proto n phrase # hs) @ crlf @ body) \<le> HTTP_BUF"
      "list_all (\<lambda>c. c \<noteq> [] \<and> length c \<le> HTTP_BUF) cs"
  shows "download_http H ip port uri = Inr (body @ concat cs, 0)"
proof -
  let ?head = "head_lines (status_line proto n phrase # hs)"
  let ?first = "?head @ crlf @ body"
  obtain buf where buf: "length buf = HTTP_BUF"
    "download_http H ip port uri = recv_loop (he_recv H ip (http_request ip uri)) True buf"
    by (rule download_loop [OF H]) 
  define buf2 where "buf2 = ?first @ drop (length ?first) buf"
  have l2: "length buf2 = HTTP_BUF" using buf len by (simp add: buf2_def)
  have ge: "length ?head \<ge> 2" by (simp add: head_lines_def crlf_def)
  have find: "find_end buf2 = Inr (Some (length ?head - 2))"
    using find_end_head [of "status_line proto n phrase # hs" "body @ drop (length ?first) buf"] hs status_plain [OF s(1)]
    by (simp add: buf2_def)
  have code: "get_http_respcode buf2 = Inr (int n)"
    using respcode_status [OF s(1)] by (simp add: buf2_def head_lines_def)
  have "0 < n" using s(2) by (cases n) auto
  moreover have "int n div 100 = 2" using s(2) zdiv_int [of n 100] by simp
  ultimately have "int n sdiv 100 = 2" by (simp add: signed_divide_int_def)
  then have "http_chunk True (int (length ?first)) buf2 = Inr (Again False body)"
    using ge l2 len(1) by (simp add: http_chunk_def find code write_buf_def) (simp add: buf2_def crlf_def)
  moreover have "?first \<noteq> []" by (simp add: crlf_def)
  ultimately show ?thesis
    unfolding buf(2) recv recv_step [OF \<open>?first \<noteq> []\<close> len(1)] buf2_def [symmetric]
    by (simp add: recv_bodies [OF len(2) l2])
qed

text \<open>
  C32. A description that is answered with a status of 200 to 299 and a header of lines, the whole header
  in the first packet, is printed as it is, the rest of the first packet and all that follow.
\<close>

theorem body_fetched:
  assumes H: "reachable_at H ip port uri" and s: "good_status proto n phrase" "n div 100 = 2" and hs: "list_all plain_line hs"
    and recv: "he_recv H ip (http_request ip uri) =
      Some (head_lines (status_line proto n phrase # hs) @ crlf @ body) # map Some cs"
    and len: "length (head_lines (status_line proto n phrase # hs) @ crlf @ body) \<le> HTTP_BUF"
      "list_all (\<lambda>c. c \<noteq> [] \<and> length c \<le> HTTP_BUF) cs"
  shows "download_http H ip port uri = Inr (body @ concat cs, 0)"
  by (rule body_is_fetched [OF assms])

text \<open>Another status ends the program's part: its last digit behind its first is the result.\<close>

theorem status_refused:
  assumes H: "reachable_at H ip port uri" and s: "good_status proto n phrase" "n div 100 \<noteq> 2" and hs: "list_all plain_line hs"
    and recv: "he_recv H ip (http_request ip uri) = Some (head_lines (status_line proto n phrase # hs) @ crlf @ body) # rs"
    and len: "length (head_lines (status_line proto n phrase # hs) @ crlf @ body) \<le> HTTP_BUF"
  shows "download_http H ip port uri = Inr ([], int (n div 100 * 10 + n mod 10))"
proof -
  let ?first = "head_lines (status_line proto n phrase # hs) @ crlf @ body"
  obtain buf where buf: "length buf = HTTP_BUF"
    "download_http H ip port uri = recv_loop (he_recv H ip (http_request ip uri)) True buf"
    by (rule download_loop [OF H])
  define buf2 where "buf2 = ?first @ drop (length ?first) buf"
  have find: "find_end buf2 = Inr (Some (length (head_lines (status_line proto n phrase # hs)) - 2))"
    using find_end_head [of "status_line proto n phrase # hs" "body @ drop (length ?first) buf"] hs status_plain [OF s(1)]
    by (simp add: buf2_def)
  have code: "get_http_respcode buf2 = Inr (int n)"
    using respcode_status [OF s(1)] by (simp add: buf2_def head_lines_def)
  have q: "int n sdiv 100 = int (n div 100)" "int n smod 10 = int (n mod 10)"
    by (cases "n = 0"; simp add: signed_divide_int_def signed_modulo_int_def zdiv_int zmod_int)+
  have "http_chunk True (int (length ?first)) buf2 = Inr (Return (int (n div 100 * 10 + n mod 10)))"
    using s(2) by (simp add: http_chunk_def find code q)
  moreover have "?first \<noteq> []" by (simp add: crlf_def)
  ultimately show ?thesis
    unfolding buf(2) recv recv_step [OF \<open>?first \<noteq> []\<close> len] buf2_def [symmetric] by simp
qed

text \<open>
  When the status line comes alone, the end of the header is found in the rest of the program's own
  request, which still lies in the buffer behind it: a negative number of bytes is to be written.
\<close>

theorem split_header_faults:
  assumes H: "reachable_at H ip port uri" and s: "good_status proto n phrase" "n div 100 = 2"
    and plain: "plain_line ip" "plain_line uri"
    and len: "length (status_line proto n phrase) < 3 + length uri"
    and recv: "he_recv H ip (http_request ip uri) = Some (status_line proto n phrase @ crlf) # rs"
  shows "download_http H ip port uri = Inl OobRead"
proof -
  let ?first = "status_line proto n phrase @ crlf" and ?k = "length (status_line proto n phrase) + 2"
  let ?req = "http_request ip uri"
  obtain buf where buf: "length buf = HTTP_BUF" "take (length ?req) buf = ?req"
    "download_http H ip port uri = recv_loop (he_recv H ip ?req) True buf"
    by (rule download_loop [OF H])
  have req: "?req = (''GET /'' @ uri @ '' HTTP/1.0'') @ crlf @ ''Host: '' @ ip @ crlf @ crlf"
    using H http_request_text [of ip uri] by (simp add: reachable_at_def)
  define rest where "rest = drop ?k (''GET /'' @ uri @ '' HTTP/1.0'')"
  have fk: "length ?first = ?k" by (simp add: crlf_def)
  define buf2 where "buf2 = ?first @ drop (length ?first) buf"
  have lk: "?k < length (''GET /'' @ uri @ '' HTTP/1.0'')" using len by simp
  have "drop ?k ?req = rest @ crlf @ ''Host: '' @ ip @ crlf @ crlf"
    using lk unfolding req rest_def by (simp add: drop_append del: append.simps)
  moreover have "drop ?k buf = drop ?k ?req @ drop (length ?req) buf"
  proof -
    have "?k \<le> length ?req" using lk by (simp add: req)
    then show ?thesis using buf(2) by (metis append_take_drop_id drop_append diff_is_0_eq drop_0)
  qed
  ultimately have b2: "buf2 = head_lines [status_line proto n phrase, rest, ''Host: '' @ ip] @ crlf @ drop (length ?req) buf"
    unfolding buf2_def fk by (simp add: head_lines_def)
  have "plain_line (''GET /'' @ uri @ '' HTTP/1.0'')" "plain_line (''Host: '' @ ip)"
    using plain by (simp_all add: plain_line_def NUL_def)
  moreover from this(1) have "plain_line rest"
    using lk unfolding rest_def plain_line_def list_all_iff by (meson in_set_dropD drop_eq_Nil leD)
  ultimately have find: "find_end buf2 = Inr (Some (length (head_lines [status_line proto n phrase, rest, ''Host: '' @ ip]) - 2))"
    unfolding b2 using status_plain [OF s(1)] by (intro find_end_head) simp_all
  have code: "get_http_respcode buf2 = Inr (int n)"
    using respcode_status [OF s(1)] by (simp add: buf2_def)
  have "0 < n" using s(2) by (cases n) auto
  then have "int n sdiv 100 = 2" using s(2) zdiv_int [of n 100] by (simp add: signed_divide_int_def)
  moreover have "length (head_lines [status_line proto n phrase, rest, ''Host: '' @ ip]) \<ge> ?k"
    by (simp add: head_lines_def crlf_def)
  ultimately have "http_chunk True (int (length ?first)) buf2 = Inl OobRead"
    unfolding fk by (simp add: http_chunk_def find code write_buf_def)
  moreover have "?first \<noteq> []" "length ?first \<le> HTTP_BUF"
    using len H by (simp_all add: crlf_def HTTP_BUF_def reachable_at_def ARR_def)
  ultimately show ?thesis
    unfolding buf(3) recv recv_step [OF \<open>?first \<noteq> []\<close> \<open>length ?first \<le> HTTP_BUF\<close>] buf2_def [symmetric] by simp
qed

subsection \<open>Whole runs\<close>

definition quiet_net :: "ssdp_env \<Rightarrow> string \<Rightarrow> bool" where
  "quiet_net E junk \<longleftrightarrow> se_socket E \<and> se_reuse E \<and> se_bind E \<and> se_resolve E UPNP_MCAST_ADDR \<noteq> None \<and>
     length junk = BUFR_SIZE"

text \<open>What a run prints for the URLs, with \<open>page\<close> the descriptions fetched.\<close>

definition listing :: "(string \<Rightarrow> string) \<Rightarrow> string list \<Rightarrow> string" where
  "listing page us =
     concat (map (\<lambda>u. line (u @ '' :'') @ (if strstr u ''berxel'' then page u else []) @ line []) us)"

lemma print_groups_listing:
  assumes "\<forall>u\<in>set (map g_url gs). strstr u ''berxel'' \<longrightarrow> (\<exists>r. berxel_ssdp_print H u = Inr (page u, r))"
  shows "print_groups H gs = Inr (listing page (map g_url gs))"
  using assms
proof (induction gs)
  case (Cons g gs)
  then obtain r where "strstr (g_url g) ''berxel'' \<Longrightarrow> berxel_ssdp_print H (g_url g) = Inr (page (g_url g), r)" by auto
  then show ?case using Cons by (simp add: listing_def)
qed (simp add: listing_def)

lemma reply_clean: "pkt_ok (device_reply d) \<Longrightarrow> dev_url d = dev_descURL d"
  by (auto simp: pkt_ok_def device_reply_def header_line_def dev_url_def)

lemma main_found:
  assumes "quiet_net E junk" "\<And>n. se_alloc E n" "ds \<noteq> []" "distinct ds" "list_all advert_ok ds"
    "list_all (\<lambda>d. pkt_ok (device_reply d)) ds"
  shows "\<exists>gs. groups_of (rev ds) gs \<and> map g_url gs = fold List.insert (map dev_descURL (rev ds)) [] \<and>
    list_upnpc_main E None H junk [] (map (\<lambda>d. Datagram (device_reply d)) ds) =
      rbind (print_groups H gs) (\<lambda>text. Inr (line ''searching all UPnP devices'' @ line [] @ text, 0))"
proof -
  obtain k where k: "se_resolve E UPNP_MCAST_ADDR = Some k" using assms(1) by (auto simp: quiet_net_def)
  have found: "upnpDiscoverAll E None junk 2000 False (map (\<lambda>d. Datagram (device_reply d)) ds) = Inr (rev ds, UPNPDISCOVER_SUCCESS)"
    using assms k by (intro all_devices_found) (auto simp: quiet_net_def)
  obtain gs where gs: "add_devices (se_alloc E) (rev ds) [] = Inr gs" "groups_of (rev ds) gs"
    using devices_are_grouped [of "se_alloc E" "rev ds", OF assms(2)] by blast
  have "map dev_url (rev ds) = map dev_descURL (rev ds)"
    using assms(6) by (auto simp: list_all_iff reply_clean)
  then have "map g_url gs = fold List.insert (map dev_descURL (rev ds)) []" using gs(2) by (simp only: groups_of_def)
  then show ?thesis using gs assms(3)
    by (intro exI [of _ gs]) (simp add: list_upnpc_main_def list_defaults_def list_search_def found)
qed

text \<open>
  C30. In a network where devices answer with their own descriptions, udb upnp prints each URL once, in
  the order of the last answers with it, and behind the URLs with "berxel" the description fetched from there.
\<close>

theorem upnp_lists_devices:
  assumes "quiet_net E junk" "\<And>n. se_alloc E n" "ds \<noteq> []" "distinct ds" "list_all advert_ok ds"
    "list_all (\<lambda>d. pkt_ok (device_reply d)) ds"
    "\<forall>d\<in>set ds. strstr (dev_descURL d) ''berxel'' \<longrightarrow>
       (\<exists>r. berxel_ssdp_print H (dev_descURL d) = Inr (page (dev_descURL d), r))"
  shows "list_upnpc_main E None H junk [] (map (\<lambda>d. Datagram (device_reply d)) ds) =
    Inr (line ''searching all UPnP devices'' @ line [] @
         listing page (fold List.insert (map dev_descURL (rev ds)) []), 0)"
proof -
  obtain gs where gs: "map g_url gs = fold List.insert (map dev_descURL (rev ds)) []"
    "list_upnpc_main E None H junk [] (map (\<lambda>d. Datagram (device_reply d)) ds) =
      rbind (print_groups H gs) (\<lambda>text. Inr (line ''searching all UPnP devices'' @ line [] @ text, 0))"
    using main_found [OF assms(1-6)] by blast
  have "\<forall>u\<in>set (map g_url gs). strstr u ''berxel'' \<longrightarrow> (\<exists>r. berxel_ssdp_print H u = Inr (page u, r))"
    unfolding gs(1) using assms(7) by (auto simp: set_fold_insert)
  from print_groups_listing [OF this] show ?thesis by (simp add: gs)
qed

lemma print_groups_crash:
  assumes "url \<in> g_url ` set gs" and "strstr url ''berxel''" and "berxel_ssdp_print H url = Inl f"
    and "\<forall>u\<in>g_url ` set gs. u \<noteq> url \<and> strstr u ''berxel'' \<longrightarrow> (\<exists>r. berxel_ssdp_print H u = Inr r)"
  shows "print_groups H gs = Inl f"
  using assms
proof (induction gs)
  case (Cons g gs)
  show ?case
  proof (cases "g_url g = url")
    case True
    then show ?thesis using Cons.prems(2,3) by simp
  next
    case False
    then have "\<exists>r. (if strstr (g_url g) ''berxel'' then berxel_ssdp_print H (g_url g) else Inr ([], 0)) = Inr r"
      using Cons.prems(4) by auto
    then obtain r where r: "(if strstr (g_url g) ''berxel'' then berxel_ssdp_print H (g_url g) else Inr ([], 0)) = Inr r" ..
    have "print_groups H gs = Inl f" by (rule Cons.IH) (use Cons.prems False in auto)
    then show ?thesis using r by (cases r) simp
  qed
qed simp

text \<open>
  C31. Any host of the network can end the program of whoever searches.  Among the devices that
  answer let one advertise a URL that starts with http://, contains "berxel" (the command only
  fetches those), and has a colon with no slash behind it, host and rest within the 255 bytes
  of their buffers; when the pages of the other devices are fetched, the search dereferences
  NULL.
\<close>

theorem advert_crashes:
  assumes "quiet_net E junk" "\<And>n. se_alloc E n" "distinct ds" "list_all advert_ok ds"
    "list_all (\<lambda>d. pkt_ok (device_reply d)) ds" "d \<in> set ds"
    "dev_descURL d = ''http://'' @ pre @ '':'' @ rest" "CHR ''/'' \<notin> set rest" "CHR '':'' \<notin> set pre" "length pre \<le> ARR"
    "length rest \<le> ARR" "strstr (dev_descURL d) ''berxel''"
    "\<forall>d'\<in>set ds. dev_descURL d' \<noteq> dev_descURL d \<and> strstr (dev_descURL d') ''berxel'' \<longrightarrow>
       (\<exists>r. berxel_ssdp_print H (dev_descURL d') = Inr r)"
  shows "list_upnpc_main E None H junk [] (map (\<lambda>d. Datagram (device_reply d)) ds) = Inl NullDeref"
proof -
  have ne: "ds \<noteq> []" using assms(6) by auto
  obtain gs where gs: "map g_url gs = fold List.insert (map dev_descURL (rev ds)) []"
    "list_upnpc_main E None H junk [] (map (\<lambda>d. Datagram (device_reply d)) ds) =
      rbind (print_groups H gs) (\<lambda>text. Inr (line ''searching all UPnP devices'' @ line [] @ text, 0))"
    using main_found [OF assms(1,2) ne assms(3-5)] by blast
  have fi: "set (fold List.insert xs ys) = set xs \<union> set ys" for xs ys :: "string list"
    by (induction xs arbitrary: ys) auto
  have "g_url ` set gs = set (map g_url gs)" by simp
  then have urls: "g_url ` set gs = dev_descURL ` set ds" unfolding gs(1) fi by simp
  have "berxel_ssdp_print H (dev_descURL d) = Inl NullDeref"
    using url_without_path [OF assms(8,10,11,9)] unfolding berxel_ssdp_print_def assms(7) by simp
  then have "print_groups H gs = Inl NullDeref"
    using assms(6,12,13) by (intro print_groups_crash [of "dev_descURL d"]) (auto simp: urls)
  then show ?thesis using gs(2) by simp
qed

text \<open>The command's arguments: a wrong one, or one whose value is missing, ends the program with 1.\<close>

theorem bad_arguments:
  "list_upnpc_main E daemon H junk (pre @ [a]) rx = Inr ([], 1)"
  if "list_all (\<lambda>x. x = ''-6'') pre" "a \<noteq> ''-6''"
  using that
proof -
  have "list_args (pre @ [a]) p = Inl 1" for p
    using that by (induction pre arbitrary: p) auto
  then show ?thesis by (simp add: list_upnpc_main_def)
qed

subsection \<open>A small network\<close>

definition demo_ssdp :: ssdp_env where
  "demo_ssdp = \<lparr>se_socket = True, se_reuse = True, se_bind = True, se_resolve = (\<lambda>_. Some 1), se_sent = (\<lambda>_. True),
     se_alloc = (\<lambda>_. True)\<rparr>"

definition demo_printer :: upnp_dev where
  "demo_printer = \<lparr>dev_descURL = ''http://10.0.0.2:80/d.xml'', dev_st = ''upnp:rootdevice'', dev_usn = ''uuid:1''\<rparr>"

definition demo_camera :: upnp_dev where
  "demo_camera = \<lparr>dev_descURL = ''http://10.0.0.3/berxel/d.xml'', dev_st = ''upnp:rootdevice'', dev_usn = ''uuid:2''\<rparr>"

definition demo_bad :: upnp_dev where
  "demo_bad = \<lparr>dev_descURL = ''http://berxel:80'', dev_st = ''x'', dev_usn = []\<rparr>"

definition demo_http :: http_env where
  "demo_http = \<lparr>he_addrs = (\<lambda>_ _. Some [NoConnect, Connected]), he_sent = (\<lambda>r. int (length r)),
     he_recv = (\<lambda>_ _. [Some (''HTTP/1.0 200 OK'' @ crlf @ ''Server: x'' @ crlf @ crlf @ ''<root>''), Some ''</root>'']),
     he_junk = replicate HTTP_BUF NUL\<rparr>"

definition demo_slow :: http_env where
  "demo_slow = demo_http\<lparr>he_recv := (\<lambda>_ _. [Some (''HTTP/1.0 200 OK'' @ crlf), Some (crlf @ ''<root></root>'')])\<rparr>"

lemma demo_reachable:
  "length ip < ARR \<Longrightarrow> length uri < ARR \<Longrightarrow> reachable_at demo_http ip port uri"
  "length ip < ARR \<Longrightarrow> length uri < ARR \<Longrightarrow> reachable_at demo_slow ip port uri"
  by (simp_all add: reachable_at_def demo_http_def demo_slow_def)

lemma demo_status: "''HTTP/1.0 200 OK'' = status_line ''HTTP/1.0'' 200 ''OK''" "good_status ''HTTP/1.0'' 200 ''OK''"
proof -
  show "''HTTP/1.0 200 OK'' = status_line ''HTTP/1.0'' 200 ''OK''" by code_simp
  have "list_all (\<lambda>c. \<not> isspace c \<and> c \<noteq> NUL) ''HTTP/1.0''" "plain_line ''OK''" "\<not> isspace (hd ''OK'')" by code_simp+
  then show "good_status ''HTTP/1.0'' 200 ''OK''" by (simp add: good_status_def)
qed

lemma demo_fetch:
  "good_status ''HTTP/1.0'' 200 ''OK''" "200 div 100 = (2 :: nat)" "list_all plain_line [''Server: x'']"
  "he_recv demo_http ip req =
    Some (head_lines (status_line ''HTTP/1.0'' 200 ''OK'' # [''Server: x'']) @ crlf @ ''<root>'') # map Some [''</root>'']"
  "length (head_lines (status_line ''HTTP/1.0'' 200 ''OK'' # [''Server: x'']) @ crlf @ ''<root>'') \<le> HTTP_BUF"
  "list_all (\<lambda>c. c \<noteq> [] \<and> length c \<le> HTTP_BUF) [''</root>'']"
proof -
  show "list_all plain_line [''Server: x'']" by code_simp
qed (simp_all add: demo_status(2) demo_http_def head_lines_def crlf_def HTTP_BUF_def flip: demo_status(1))

theorem body_fetched_witness:
  "download_http demo_http ''10.0.0.3'' ''80'' ''/berxel/d.xml'' = Inr (''<root>'' @ concat [''</root>''], 0)"
proof (rule body_fetched)
  show "reachable_at demo_http ''10.0.0.3'' ''80'' ''/berxel/d.xml''" by (rule demo_reachable) (simp_all add: ARR_def)
qed (rule demo_fetch)+

theorem split_header_faults_witness:
  "download_http demo_slow ''10.0.0.3'' ''80'' ''/berxel/d.xml'' = Inl OobRead"
proof (rule split_header_faults)
  show "reachable_at demo_slow ''10.0.0.3'' ''80'' ''/berxel/d.xml''" by (rule demo_reachable) (simp_all add: ARR_def)
  show "good_status ''HTTP/1.0'' 200 ''OK''" by (rule demo_status)
  show "plain_line ''10.0.0.3''" "plain_line ''/berxel/d.xml''" by code_simp+
  show "length (status_line ''HTTP/1.0'' 200 ''OK'') < 3 + length ''/berxel/d.xml''" by (simp flip: demo_status(1))
  show "he_recv demo_slow ''10.0.0.3'' (http_request ''10.0.0.3'' ''/berxel/d.xml'') =
    Some (status_line ''HTTP/1.0'' 200 ''OK'' @ crlf) # [Some (crlf @ ''<root></root>'')]"
    by (simp add: demo_slow_def flip: demo_status(1))
qed simp

lemma demo_quiet: "quiet_net demo_ssdp (replicate BUFR_SIZE NUL)" "se_alloc demo_ssdp n"
  by (simp_all add: quiet_net_def demo_ssdp_def)

lemma demo_adverts:
  "list_all advert_ok [demo_printer, demo_camera, demo_bad]"
  "list_all (\<lambda>d. pkt_ok (device_reply d)) [demo_printer, demo_camera, demo_bad]"
  by code_simp+

theorem devices_grouped_witness:
  "\<exists>gs. add_devices (\<lambda>_. True) [demo_printer, demo_camera, demo_printer\<lparr>dev_st := ''upnp:x''\<rparr>, demo_camera] [] = Inr gs \<and>
    groups_of [demo_printer, demo_camera, demo_printer\<lparr>dev_st := ''upnp:x''\<rparr>, demo_camera] gs"
  by (rule devices_grouped) simp

lemma demo_page: "berxel_ssdp_print demo_http ''http://10.0.0.3/berxel/d.xml'' = Inr (''<root></root>'', 0)"
proof -
  have "url_parts (''http://'' @ ''10.0.0.3'' @ ''/'' @ ''berxel/d.xml'') = Inr (''10.0.0.3'', ''80'', ''/'' @ ''berxel/d.xml'')"
    by (rule url_split(2) [where port = "[]"]) (simp_all add: ARR_def)
  moreover have "download_http demo_http ''10.0.0.3'' ''80'' ''/berxel/d.xml'' = Inr (''<root>'' @ concat [''</root>''], 0)"
  proof (rule body_is_fetched)
    show "reachable_at demo_http ''10.0.0.3'' ''80'' ''/berxel/d.xml''" by (rule demo_reachable) (simp_all add: ARR_def)
  qed (rule demo_fetch refl)+
  ultimately show ?thesis by (simp add: berxel_ssdp_print_def)
qed

theorem advert_crashes_witness:
  "list_upnpc_main demo_ssdp None demo_http (replicate BUFR_SIZE NUL) []
     [Datagram (device_reply demo_bad), Datagram (device_reply demo_camera)] = Inl NullDeref"
proof -
  let ?ds = "[demo_bad, demo_camera]"
  have "list_upnpc_main demo_ssdp None demo_http (replicate BUFR_SIZE NUL) [] (map (\<lambda>d. Datagram (device_reply d)) ?ds) =
    Inl NullDeref"
  proof (rule advert_crashes [OF demo_quiet])
    show "distinct ?ds" by (simp add: demo_bad_def demo_camera_def)
    show "list_all advert_ok ?ds" "list_all (\<lambda>d. pkt_ok (device_reply d)) ?ds" using demo_adverts by simp_all
    show "demo_bad \<in> set ?ds" by simp
    show "dev_descURL demo_bad = ''http://'' @ ''berxel'' @ '':'' @ ''80''" by (simp add: demo_bad_def)
    show "strstr (dev_descURL demo_bad) ''berxel''" by code_simp
    show "\<forall>d'\<in>set ?ds. dev_descURL d' \<noteq> dev_descURL demo_bad \<and> strstr (dev_descURL d') ''berxel'' \<longrightarrow>
       (\<exists>r. berxel_ssdp_print demo_http (dev_descURL d') = Inr r)"
      using demo_page by (auto simp: demo_camera_def)
  qed (simp_all add: ARR_def)
  then show ?thesis by simp
qed

theorem upnp_lists_devices_witness:
  "list_upnpc_main demo_ssdp None demo_http (replicate BUFR_SIZE NUL) []
     [Datagram (device_reply demo_printer), Datagram (device_reply demo_camera)] =
   Inr (line ''searching all UPnP devices'' @ line [] @
     line ''http://10.0.0.2:80/d.xml :'' @ line [] @
     line ''http://10.0.0.3/berxel/d.xml :'' @ ''<root></root>'' @ line [], 0)"
proof -
  let ?ds = "[demo_printer, demo_camera]"
  have "list_upnpc_main demo_ssdp None demo_http (replicate BUFR_SIZE NUL) [] (map (\<lambda>d. Datagram (device_reply d)) ?ds) =
    Inr (line ''searching all UPnP devices'' @ line [] @
      listing (\<lambda>_. ''<root></root>'') (fold List.insert (map dev_descURL (rev ?ds)) []), 0)"
  proof (rule upnp_lists_devices [OF demo_quiet])
    show "distinct ?ds" by (simp add: demo_printer_def demo_camera_def)
    show "list_all advert_ok ?ds" "list_all (\<lambda>d. pkt_ok (device_reply d)) ?ds" using demo_adverts by simp_all
    have "\<not> strstr (dev_descURL demo_printer) ''berxel''" by code_simp
    then show "\<forall>d\<in>set ?ds. strstr (dev_descURL d) ''berxel'' \<longrightarrow>
        (\<exists>r. berxel_ssdp_print demo_http (dev_descURL d) = Inr (''<root></root>'', r))"
      using demo_page by (auto simp: demo_camera_def)
  qed simp
  moreover have "fold List.insert (map dev_descURL (rev ?ds)) [] = [dev_descURL demo_printer, dev_descURL demo_camera]"
    by (simp add: demo_printer_def demo_camera_def)
  moreover have "\<not> strstr (dev_descURL demo_printer) ''berxel''" "strstr (dev_descURL demo_camera) ''berxel''" by code_simp+
  ultimately show ?thesis by (simp add: listing_def) (simp add: demo_printer_def demo_camera_def)
qed

end
