(* ===== verification/MiniXml.thy ===== *)
theory MiniXml
  imports Ssdp
begin

text \<open>
  The XML parser of miniupnpc (external/miniupnp/miniupnpc/minixml.c).  The text is the first
  \<open>n\<close> bytes of a memory block, from which each byte is read where the code reads it; a position is the
  offset of \<open>p->xml\<close>.  The callbacks do not touch the parser, so that a run is the list of the calls
  it makes.  A scan gives None where the code returns because the end is reached.
\<close>

datatype xml_event =
    StartElt string
  | EndElt string
  | CData string
  | Att string string

definition xspace :: "char \<Rightarrow> bool" where
  "xspace c \<longleftrightarrow> c = CHR '' '' \<or> c = CHR 0x09 \<or> c = CHR 0x0D \<or> c = CHR 0x0A"

definition span :: "string \<Rightarrow> nat \<Rightarrow> nat \<Rightarrow> string" where
  "span m a b = take (b - a) (drop a m)"

text \<open>while (P( *p->xml)) { p->xml++; if (p->xml >= end) return; }\<close>

function scan :: "(char \<Rightarrow> bool) \<Rightarrow> string \<Rightarrow> nat \<Rightarrow> nat \<Rightarrow> fault + nat option" where
  "scan P m e p =
     rbind (rdc m p) (\<lambda>c. if P c then (if Suc p \<ge> e then Inr None else scan P m e (Suc p)) else Inr (Some p))"
  by pat_completeness auto
termination by (relation "measure (\<lambda>(P, m, e, p). e - p)") auto

declare scan.simps [simp del]

text \<open>memcmp of a text with the memory at a position.\<close>

definition text_at :: "string \<Rightarrow> string \<Rightarrow> nat \<Rightarrow> fault + bool" where
  "text_at t m p = (if p + length t \<le> length m then Inr (take (length t) (drop p m) = t) else Inl OobRead)"

text \<open>while (memcmp(p->xml, t, 3) != 0) { p->xml++; if (p->xml + 3 >= end) return; }\<close>

function scan_text :: "string \<Rightarrow> string \<Rightarrow> nat \<Rightarrow> nat \<Rightarrow> fault + nat option" where
  "scan_text t m e p =
     rbind (text_at t m p) (\<lambda>b. if b then Inr (Some p)
       else if Suc p + 3 \<ge> e then Inr None else scan_text t m e (Suc p))"
  by pat_completeness auto
termination by (relation "measure (\<lambda>(t, m, e, p). e - p)") auto

declare scan_text.simps [simp del]

text \<open>Going on only when the end is not reached.\<close>

definition on :: "fault + nat option \<Rightarrow> (nat \<Rightarrow> fault + 'a option) \<Rightarrow> fault + 'a option" where
  "on r k = rbind r (\<lambda>x. case x of None \<Rightarrow> Inr None | Some p \<Rightarrow> k p)"

definition step_on :: "nat \<Rightarrow> nat \<Rightarrow> (nat \<Rightarrow> fault + 'a option) \<Rightarrow> fault + 'a option" where
  "step_on e p k = (if Suc p \<ge> e then Inr None else k (Suc p))"

subsection \<open>Attributes\<close>

text \<open>
  One attribute from its first byte on: the call for it and the position from which the loop steps on,
  which behind a value without quotes is the byte that ends the value.
\<close>

definition parse_one_att :: "string \<Rightarrow> nat \<Rightarrow> nat \<Rightarrow> fault + (xml_event \<times> nat) option" where
  "parse_one_att m e p =
     on (scan (\<lambda>c. c \<noteq> CHR ''='' \<and> \<not> xspace c) m e p) (\<lambda>q.
     on (scan (\<lambda>c. c \<noteq> CHR ''='') m e q) (\<lambda>r.
     on (scan xspace m e (Suc r)) (\<lambda>v.
     rbind (rdc m v) (\<lambda>sep.
       if sep = CHR 0x27 \<or> sep = CHR 0x22 then
         step_on e v (\<lambda>v.
         on (scan (\<lambda>c. c \<noteq> sep) m e v) (\<lambda>w.
         Inr (Some (Att (span m p q) (span m v w), w))))
       else
         on (scan (\<lambda>c. \<not> xspace c \<and> c \<noteq> CHR ''>'' \<and> c \<noteq> CHR ''/'') m e v) (\<lambda>w.
         Inr (Some (Att (span m p q) (span m v w), w)))))))"

lemma scan_ge: "scan P m e p = Inr (Some q) \<Longrightarrow> p \<le> q"
proof (induction P m e p rule: scan.induct)
  case (1 P m e p)
  show ?case
  proof (cases "rdc m p")
    case (Inr c)
    then show ?thesis
      using 1 (1) [of c] 1 (2) by (auto simp: scan.simps [of P m e p] split: if_splits)
  qed (use 1 in \<open>simp add: scan.simps [of P m e p]\<close>)
qed

lemma on_eq: "on r k = Inr (Some y) \<longleftrightarrow> (\<exists>p. r = Inr (Some p) \<and> k p = Inr (Some y))"
  by (auto simp: on_def rbind_eq_Inr split: option.splits)

lemma step_on_eq: "step_on e p k = Inr (Some y) \<longleftrightarrow> Suc p < e \<and> k (Suc p) = Inr (Some y)"
  by (auto simp: step_on_def)

lemma parse_one_att_ge: "parse_one_att m e p = Inr (Some (ev, q)) \<Longrightarrow> p < q"
  by (auto simp: parse_one_att_def on_eq step_on_eq rbind_eq_Inr split: if_splits dest!: scan_ge)

text \<open>parseatt: the calls, and the position where the list ends, None when the text does.\<close>

function parseatt :: "string \<Rightarrow> nat \<Rightarrow> nat \<Rightarrow> fault + xml_event list \<times> nat option" where
  "parseatt m e p =
     (if p < e then
        rbind (rdc m p) (\<lambda>c.
          if c = CHR ''/'' \<or> c = CHR ''>'' then Inr ([], Some p)
          else if \<not> xspace c then
            rbind (parse_one_att m e p) (\<lambda>r. case r of None \<Rightarrow> Inr ([], None)
            | Some (ev, q) \<Rightarrow> rbind (parseatt m e (Suc q)) (\<lambda>(evs, z). Inr (ev # evs, z)))
          else parseatt m e (Suc p))
      else Inr ([], None))"
  by pat_completeness auto
termination
  by (relation "measure (\<lambda>(m, e, p). e - p)") (auto dest: parse_one_att_ge)

declare parseatt.simps [simp del]

subsection \<open>Elements\<close>

text \<open>A comment is skipped from its first byte on.\<close>

definition skip_comment :: "string \<Rightarrow> nat \<Rightarrow> nat \<Rightarrow> fault + nat option" where
  "skip_comment m e p =
     (if p + 4 + 3 \<ge> e then Inr None
      else on (scan_text ''-->'' m e (p + 4)) (\<lambda>q. Inr (Some (q + 3))))"

text \<open>
  The name behind the opening bracket: where it starts and where it ends; a colon that is not the
  first byte starts it anew, and the byte behind the colon is not compared with the end.
\<close>

function elt_name :: "string \<Rightarrow> nat \<Rightarrow> nat \<Rightarrow> nat \<Rightarrow> fault + (nat \<times> nat) option" where
  "elt_name m e start p =
     rbind (rdc m p) (\<lambda>c.
       if xspace c \<or> c = CHR ''>'' \<or> c = CHR ''/'' then Inr (Some (start, p))
       else if Suc p \<ge> e then Inr None
       else rbind (rdc m (Suc p)) (\<lambda>d.
         if d = CHR '':'' then elt_name m e (Suc (Suc p)) (Suc (Suc p)) else elt_name m e start (Suc p)))"
  by pat_completeness auto
termination by (relation "measure (\<lambda>(m, e, start, p). e - p)") auto

declare elt_name.simps [simp del]

text \<open>What follows a start tag, from the byte behind it on: a CDATA section, or text up to the next bracket.\<close>

definition elt_content :: "string \<Rightarrow> nat \<Rightarrow> nat \<Rightarrow> fault + xml_event list \<times> nat option" where
  "elt_content m e d =
     rbind (scan xspace m e d) (\<lambda>x. case x of None \<Rightarrow> Inr ([], None)
     | Some p \<Rightarrow>
       rbind (if p + 12 \<le> e then text_at ''<![CDATA['' m p else Inr False) (\<lambda>cdata.
       if cdata then
         rbind (scan_text '']]>'' m e (p + 9)) (\<lambda>y. case y of None \<Rightarrow> Inr ([], None)
         | Some q \<Rightarrow>
           rbind (scan (\<lambda>c. c \<noteq> CHR ''<'') m e q) (\<lambda>z.
             Inr (if p + 9 < q then [CData (span m (p + 9) q)] else [], z)))
       else
         rbind (scan (\<lambda>c. c \<noteq> CHR ''<'') m (e - 1) p) (\<lambda>y. case y of None \<Rightarrow> Inr ([], None)
         | Some q \<Rightarrow>
           if d < q then
             rbind (rdc m (Suc q)) (\<lambda>c. Inr (if c = CHR ''/'' then [CData (span m d q)] else [], Some q))
           else Inr ([], Some q))))"

text \<open>A tag from its opening bracket on.\<close>

definition parse_tag :: "string \<Rightarrow> nat \<Rightarrow> nat \<Rightarrow> fault + xml_event list \<times> nat option" where
  "parse_tag m e p =
     rbind (elt_name m e (Suc p) (Suc p)) (\<lambda>x. case x of None \<Rightarrow> Inr ([], None)
     | Some (start, q) \<Rightarrow>
       if start < q then
         rbind (parseatt m e q) (\<lambda>(atts, y).
         let evs = StartElt (span m start q) # atts in
         case y of None \<Rightarrow> Inr (evs, None)
         | Some a \<Rightarrow>
           rbind (rdc m a) (\<lambda>c.
             if c = CHR ''/'' then Inr (evs, Some a)
             else if Suc a \<ge> e then Inr (evs, None)
             else rbind (elt_content m e (Suc a)) (\<lambda>(data, z). Inr (evs @ data, z))))
       else
         rbind (rdc m q) (\<lambda>c.
           if c = CHR ''/'' then
             (if Suc q \<ge> e then Inr ([], None)
              else rbind (scan (\<lambda>c. c \<noteq> CHR ''>'') m e (Suc q)) (\<lambda>y. case y of None \<Rightarrow> Inr ([], None)
              | Some r \<Rightarrow> Inr ([EndElt (span m (Suc q) r)], Some (Suc r))))
           else Inr ([], Some q)))"

lemma scan_text_ge: "scan_text t m e p = Inr (Some q) \<Longrightarrow> p \<le> q"
proof (induction t m e p rule: scan_text.induct)
  case (1 t m e p)
  show ?case
  proof (cases "text_at t m p")
    case (Inr b)
    then show ?thesis
      using 1 (1) [of b] 1 (2) by (auto simp: scan_text.simps [of t m e p] split: if_splits)
  qed (use 1 in \<open>simp add: scan_text.simps [of t m e p]\<close>)
qed

lemma skip_comment_ge: "skip_comment m e p = Inr (Some q) \<Longrightarrow> p < q"
  by (auto simp: skip_comment_def on_eq split: if_splits dest!: scan_text_ge)

lemma elt_name_ge: "elt_name m e start p = Inr (Some (s, q)) \<Longrightarrow> p \<le> q"
proof (induction m e start p rule: elt_name.induct)
  case (1 m e start p)
  show ?case
  proof (cases "rdc m p")
    case (Inr c)
    show ?thesis
    proof (cases "rdc m (Suc p)")
      case (Inl f)
      then show ?thesis using Inr 1 (3) by (auto simp: elt_name.simps [of m e start p] split: if_splits)
    next
      case (Inr d)
      then show ?thesis using \<open>rdc m p = Inr c\<close> 1 (1) [of c d] 1 (2) [of c d] 1 (3)
        by (auto simp: elt_name.simps [of m e start p] split: if_splits)
    qed
  qed (use 1 (3) in \<open>simp add: elt_name.simps [of m e start p]\<close>)
qed

lemma parseatt_ge: "parseatt m e p = Inr (evs, Some q) \<Longrightarrow> p \<le> q"
proof (induction m e p arbitrary: evs rule: parseatt.induct)
  case (1 m e p)
  have main: "p < e" "\<exists>c. rdc m p = Inr c" using 1 (3) by (auto simp: parseatt.simps [of m e p] rdc_def split: if_splits)
  then obtain c where c: "rdc m p = Inr c" by blast
  consider "c = CHR ''/'' \<or> c = CHR ''>''" | "\<not> (c = CHR ''/'' \<or> c = CHR ''>'')" "\<not> xspace c"
    | "\<not> (c = CHR ''/'' \<or> c = CHR ''>'')" "xspace c" by blast
  then show ?case
  proof cases
    case 1
    then show ?thesis using "1.prems" main c by (auto simp: parseatt.simps [of m e p])
  next
    case 2
    then obtain ev r evs' where "parse_one_att m e p = Inr (Some (ev, r))" "parseatt m e (Suc r) = Inr (evs', Some q)"
      using "1.prems" main c by (auto simp: parseatt.simps [of m e p] rbind_eq_Inr split: option.splits)
    then show ?thesis
      using "1.IH" (1) [OF main(1) c, of "Some (ev, r)" "(ev, r)" ev r] 2 parse_one_att_ge by fastforce
  next
    case 3
    then show ?thesis using "1.prems" main c "1.IH" (2) [OF main(1) c] by (auto simp: parseatt.simps [of m e p])
  qed
qed

lemma opt_Some:
  "(case x of None \<Rightarrow> Inr (evs0, None) | Some p \<Rightarrow> k p) = Inr (evs, Some q) \<longleftrightarrow> (\<exists>p. x = Some p \<and> k p = Inr (evs, Some q))"
  by (cases x) auto

lemma if_None:
  "(if b then Inr (evs0, None) else r) = Inr (evs, Some q) \<longleftrightarrow> \<not> b \<and> r = Inr (evs, Some q)"
  by simp

lemma elt_content_ge: "elt_content m e d = Inr (evs, Some q) \<Longrightarrow> d \<le> q"
  unfolding elt_content_def rbind_eq_Inr opt_Some
  by (auto simp: rbind_eq_Inr opt_Some split: if_splits dest!: scan_ge scan_text_ge)

lemma parse_tag_ge: "parse_tag m e p = Inr (evs, Some q) \<Longrightarrow> p < q"
  unfolding parse_tag_def rbind_eq_Inr opt_Some Let_def
  by (auto simp: rbind_eq_Inr opt_Some if_None split: if_splits
      dest!: scan_ge elt_name_ge parseatt_ge elt_content_ge)

text \<open>parseelt and parsexml: the calls made.\<close>

function parseelt :: "string \<Rightarrow> nat \<Rightarrow> nat \<Rightarrow> fault + xml_event list" where
  "parseelt m e p =
     (if Suc p < e then
        rbind (if p + 4 \<le> e then text_at ''<!--'' m p else Inr False) (\<lambda>comment.
        if comment then
          rbind (skip_comment m e p) (\<lambda>x. case x of None \<Rightarrow> Inr [] | Some q \<Rightarrow> parseelt m e q)
        else
          rbind (rdc m p) (\<lambda>c. rbind (rdc m (Suc p)) (\<lambda>d.
            if c = CHR ''<'' \<and> d \<noteq> CHR ''?'' then
              rbind (parse_tag m e p) (\<lambda>(evs, x). case x of None \<Rightarrow> Inr evs
              | Some q \<Rightarrow> rbind (parseelt m e q) (\<lambda>evs'. Inr (evs @ evs')))
            else parseelt m e (Suc p))))
      else Inr [])"
  by pat_completeness auto
termination
  by (relation "measure (\<lambda>(m, e, p). e - p)") (auto dest: skip_comment_ge parse_tag_ge)

declare parseelt.simps [simp del]

definition parsexml :: "string \<Rightarrow> nat \<Rightarrow> fault + xml_event list" where
  "parsexml m n = parseelt m n 0"

subsection \<open>Where the parser reads\<close>

text \<open>
  The byte behind the text is read only when the text ends with a colon, an equals sign or an opening
  bracket.
\<close>

definition xml_readable :: "string \<Rightarrow> nat \<Rightarrow> bool" where
  "xml_readable m e \<longleftrightarrow> e \<le> length m \<and> (e < length m \<or> (0 < e \<longrightarrow> m ! (e - 1) \<notin> {CHR '':'', CHR ''='', CHR ''<''}))"

lemma readable_next:
  "xml_readable m e \<Longrightarrow> p < e \<Longrightarrow> m ! p \<in> {CHR '':'', CHR ''='', CHR ''<''} \<Longrightarrow> Suc p < length m"
  by (cases "Suc p = e") (auto simp: xml_readable_def)

lemma scan_total:
  assumes "p < length m" "e \<le> length m"
  shows "\<exists>x. scan P m e p = Inr x \<and> (\<forall>q. x = Some q \<longrightarrow> p \<le> q \<and> (q = p \<or> q < e) \<and> \<not> P (m ! q))"
  using assms
proof (induction P m e p rule: scan.induct)
  case (1 P m e p)
  have c: "rdc m p = Inr (m ! p)" using 1 (2) by simp
  show ?case
  proof (cases "P (m ! p) \<and> \<not> Suc p \<ge> e")
    case True
    then obtain x where "scan P m e (Suc p) = Inr x"
      "\<forall>q. x = Some q \<longrightarrow> Suc p \<le> q \<and> (q = Suc p \<or> q < e) \<and> \<not> P (m ! q)"
      using 1 (1) [OF c] 1 (3) by auto
    then show ?thesis using True by (auto simp: scan.simps [of P m e p] c)
  next
    case False
    then show ?thesis by (auto simp: scan.simps [of P m e p] c)
  qed
qed

lemma scanE:
  assumes "p < length m" "e \<le> length m"
  obtains "scan P m e p = Inr None"
  | q where "scan P m e p = Inr (Some q)" "p \<le> q" "q = p \<or> q < e" "\<not> P (m ! q)" "q < length m"
  using scan_total [OF assms, of P] assms by fastforce

lemma scan_textE:
  assumes "p + length t \<le> length m" "e \<le> length m" "length t = 3"
  obtains "scan_text t m e p = Inr None"
  | q where "scan_text t m e p = Inr (Some q)" "p \<le> q" "q = p \<or> q + 3 < e"
proof -
  have "\<exists>x. scan_text t m e p = Inr x \<and> (\<forall>q. x = Some q \<longrightarrow> p \<le> q \<and> (q = p \<or> q + 3 < e))"
    using assms
  proof (induction t m e p rule: scan_text.induct)
    case (1 t m e p)
    have c: "text_at t m p = Inr (take (length t) (drop p m) = t)" using 1 (2) by (simp add: text_at_def)
    show ?case
    proof (cases "take (length t) (drop p m) \<noteq> t \<and> \<not> Suc p + 3 \<ge> e")
      case True
      then obtain x where "scan_text t m e (Suc p) = Inr x"
        "\<forall>q. x = Some q \<longrightarrow> Suc p \<le> q \<and> (q = Suc p \<or> q + 3 < e)"
        using 1 (1) [OF c] 1 (3,4) by auto
      then show ?thesis using True by (auto simp: scan_text.simps [of t m e p] c)
    next
      case False
      then show ?thesis by (auto simp: scan_text.simps [of t m e p] c)
    qed
  qed
  then show ?thesis using that by (metis not_None_eq)
qed

lemma on_None [simp]: "on (Inr None) k = Inr None"
  and on_Some [simp]: "on (Inr (Some p)) k = k p"
  by (simp_all add: on_def)

lemma att_value_total:
  assumes "v < length m" "e \<le> length m"
  shows "\<exists>x. on (scan P m e v) (\<lambda>w. Inr (Some (Att (span m p q) (span m u w), w))) = Inr x"
  by (rule scanE [OF assms, of P]) simp_all

lemma parse_one_att_total:
  assumes r: "xml_readable m e" and p: "p < e"
  shows "\<exists>x. parse_one_att m e p = Inr x"
proof -
  have e: "e \<le> length m" using r by (simp add: xml_readable_def)
  let ?V = "\<lambda>q v. rbind (rdc m v) (\<lambda>sep.
       if sep = CHR 0x27 \<or> sep = CHR 0x22 then
         step_on e v (\<lambda>v. on (scan (\<lambda>c. c \<noteq> sep) m e v) (\<lambda>w. Inr (Some (Att (span m p q) (span m v w), w))))
       else on (scan (\<lambda>c. \<not> xspace c \<and> c \<noteq> CHR ''>'' \<and> c \<noteq> CHR ''/'') m e v) (\<lambda>w.
         Inr (Some (Att (span m p q) (span m v w), w))))"
  have val: "\<exists>x. ?V q v = Inr x" if "v < length m" for q v
    using that e by (auto simp: step_on_def intro!: att_value_total)
  have eq: "\<exists>x. on (scan xspace m e (Suc k)) (?V q) = Inr x" if "k < e" "m ! k = CHR ''=''" for q k
  proof -
    have "Suc k < length m" using readable_next [OF r that(1)] that(2) by simp
    then show ?thesis
    proof (rule scanE [OF _ e, of "Suc k" xspace])
      fix v assume "scan xspace m e (Suc k) = Inr (Some v)" "v < length m"
      then show ?thesis using val [of v q] by (simp only: on_Some)
    qed simp
  qed
  have name: "\<exists>x. on (scan (\<lambda>c. c \<noteq> CHR ''='') m e q) (\<lambda>k. on (scan xspace m e (Suc k)) (?V q)) = Inr x" if "q < e" for q
    by (rule scanE [of q m e "\<lambda>c. c \<noteq> CHR ''=''"]) (use that e in \<open>auto intro: eq\<close>)
  show ?thesis unfolding parse_one_att_def
    by (rule scanE [of p m e "\<lambda>c. c \<noteq> CHR ''='' \<and> \<not> xspace c"]) (use p e in \<open>auto intro: name\<close>)
qed

lemma parseatt_total:
  assumes "xml_readable m e"
  shows "\<exists>evs y. parseatt m e p = Inr (evs, y) \<and> (\<forall>a. y = Some a \<longrightarrow> a < e)"
  using assms
proof (induction m e p rule: parseatt.induct)
  case (1 m e p)
  show ?case
  proof (cases "p < e")
    case True
    then have c: "rdc m p = Inr (m ! p)" using 1 (3) by (simp add: xml_readable_def)
    obtain x where x: "parse_one_att m e p = Inr x" using parse_one_att_total [OF 1 (3) True] by blast
    consider "m ! p = CHR ''/'' \<or> m ! p = CHR ''>''" | "\<not> (m ! p = CHR ''/'' \<or> m ! p = CHR ''>'')" "xspace (m ! p)"
      | "\<not> (m ! p = CHR ''/'' \<or> m ! p = CHR ''>'')" "\<not> xspace (m ! p)" by blast
    then show ?thesis
    proof cases
      case 1
      then show ?thesis using True by (auto simp: parseatt.simps [of m e p] c)
    next
      case 2
      then show ?thesis using "1.IH" (2) [OF True c] "1.prems" True by (auto simp: parseatt.simps [of m e p] c)
    next
      case 3
      show ?thesis
      proof (cases x)
        case None
        then show ?thesis using 3 True x by (auto simp: parseatt.simps [of m e p] c)
      next
        case (Some z)
        obtain ev q where z: "z = (ev, q)" by (cases z)
        obtain evs y where "parseatt m e (Suc q) = Inr (evs, y)" "\<forall>a. y = Some a \<longrightarrow> a < e"
          using "1.IH" (1) [OF True c 3 x Some z [symmetric] "1.prems"] by blast
        then show ?thesis using 3 True x Some z by (auto simp: parseatt.simps [of m e p] c)
      qed
    qed
  qed (simp add: parseatt.simps [of m e p])
qed

lemma elt_name_total:
  assumes "xml_readable m e" "p \<le> e" "p < length m"
  shows "\<exists>x. elt_name m e start p = Inr x \<and> (\<forall>s q. x = Some (s, q) \<longrightarrow> q \<le> e \<and> q < length m)"
  using assms
proof (induction m e start p rule: elt_name.induct)
  case (1 m e start p)
  have c: "rdc m p = Inr (m ! p)" using 1 (5) by simp
  consider "xspace (m ! p) \<or> m ! p = CHR ''>'' \<or> m ! p = CHR ''/''"
    | "\<not> (xspace (m ! p) \<or> m ! p = CHR ''>'' \<or> m ! p = CHR ''/'')" "Suc p \<ge> e"
    | "\<not> (xspace (m ! p) \<or> m ! p = CHR ''>'' \<or> m ! p = CHR ''/'')" "\<not> Suc p \<ge> e" by blast
  then show ?case
  proof cases
    case 1
    then show ?thesis using "1.prems" by (auto simp: elt_name.simps [of m e start p] c)
  next
    case 2
    then show ?thesis by (auto simp: elt_name.simps [of m e start p] c)
  next
    case 3
    then have d: "rdc m (Suc p) = Inr (m ! Suc p)" using "1.prems" by (simp add: xml_readable_def)
    show ?thesis
    proof (cases "m ! Suc p = CHR '':''")
      case True
      then have "Suc (Suc p) < length m" using readable_next [OF "1.prems" (1), of "Suc p"] 3 by simp
      then show ?thesis using "1.IH" (1) [OF c 3 d True "1.prems" (1)] 3 True by (simp add: elt_name.simps [of m e start p] c d)
    next
      case False
      have "Suc p < length m" using 3 "1.prems" by (simp add: xml_readable_def)
      then show ?thesis using "1.IH" (2) [OF c 3 d False "1.prems" (1)] 3 False by (simp add: elt_name.simps [of m e start p] c d)
    qed
  qed
qed

lemma elt_content_total:
  assumes r: "xml_readable m e" and d: "d < e"
  shows "\<exists>evs y. elt_content m e d = Inr (evs, y)"
proof -
  have e: "e \<le> length m" using r by (simp add: xml_readable_def)
  let ?cd = "\<lambda>p. rbind (scan_text '']]>'' m e (p + 9)) (\<lambda>y. case y of None \<Rightarrow> Inr ([], None)
         | Some q \<Rightarrow>
           rbind (scan (\<lambda>c. c \<noteq> CHR ''<'') m e q) (\<lambda>z.
             Inr (if p + 9 < q then [CData (span m (p + 9) q)] else [], z)))"
  let ?tx = "\<lambda>p. rbind (scan (\<lambda>c. c \<noteq> CHR ''<'') m (e - 1) p) (\<lambda>y. case y of None \<Rightarrow> Inr ([], None)
         | Some q \<Rightarrow>
           if d < q then
             rbind (rdc m (Suc q)) (\<lambda>c. Inr (if c = CHR ''/'' then [CData (span m d q)] else [], Some q))
           else Inr ([], Some q))"
  have cd: "\<exists>evs y. ?cd p = Inr (evs, y)" if "p + 12 \<le> e" for p
  proof (rule scan_textE [of "p + 9" "'']]>''" m e])
    fix q assume q: "scan_text '']]>'' m e (p + 9) = Inr (Some q)" "q = p + 9 \<or> q + 3 < e"
    then have "q < length m" using that e by auto
    then show ?thesis by (rule scanE [OF _ e, of q "\<lambda>c. c \<noteq> CHR ''<''"]) (simp_all add: q)
  qed (use that e in auto)
  have tx: "\<exists>evs y. ?tx p = Inr (evs, y)" if "p < e" for p
  proof (rule scanE [of p m "e - 1" "\<lambda>c. c \<noteq> CHR ''<''"])
    fix q assume q: "scan (\<lambda>c. c \<noteq> CHR ''<'') m (e - 1) p = Inr (Some q)" "q = p \<or> q < e - 1" "\<not> m ! q \<noteq> CHR ''<''"
    then have "Suc q < length m" using readable_next [OF r, of q] that by auto
    then show ?thesis unfolding q(1) rbind_Inr option.case by simp
  qed (use that e in auto)
  have "\<exists>evs y. rbind (if p + 12 \<le> e then text_at ''<![CDATA['' m p else Inr False) (\<lambda>cdata. if cdata then ?cd p else ?tx p) = Inr (evs, y)"
    if "p < e" for p
  proof (cases "p + 12 \<le> e \<and> take 9 (drop p m) = ''<![CDATA[''")
    case True
    have nine: "length ''<![CDATA['' = 9" by simp
    have "(if p + 12 \<le> e then text_at ''<![CDATA['' m p else Inr False) = Inr True"
      using True e unfolding text_at_def nine by simp
    then show ?thesis using cd [of p] True by (simp only: rbind_Inr if_True)
  next
    case False
    have nine: "length ''<![CDATA['' = 9" by simp
    have "(if p + 12 \<le> e then text_at ''<![CDATA['' m p else Inr False) = Inr False"
      using False e unfolding text_at_def nine by simp
    then show ?thesis using tx [OF that] by (simp only: rbind_Inr if_False)
  qed
  note body = this
  have "d < length m" using d e by simp
  then show ?thesis
  proof (rule scanE [OF _ e, of d xspace])
    fix p assume "scan xspace m e d = Inr (Some p)" "p = d \<or> p < e"
    then show ?thesis unfolding elt_content_def using body [of p] d by (auto simp only: rbind_Inr option.case)
  qed (simp add: elt_content_def)
qed

lemma parse_tag_total:
  assumes r: "xml_readable m e" and p: "Suc p < e"
  shows "\<exists>evs y. parse_tag m e p = Inr (evs, y)"
proof -
  have e: "e \<le> length m" using r by (simp add: xml_readable_def)
  obtain x where x: "elt_name m e (Suc p) (Suc p) = Inr x" "\<forall>s q. x = Some (s, q) \<longrightarrow> q \<le> e \<and> q < length m"
    using elt_name_total [OF r, of "Suc p" "Suc p"] p e by auto
  show ?thesis
  proof (cases x)
    case None
    then show ?thesis by (simp add: parse_tag_def x)
  next
    case (Some sq)
    obtain s q where sq: "sq = (s, q)" by (cases sq)
    then have q: "q \<le> e" "q < length m" using x Some by auto
    show ?thesis
    proof (cases "s < q")
      case True
      obtain atts y where y: "parseatt m e q = Inr (atts, y)" "\<forall>a. y = Some a \<longrightarrow> a < e"
        using parseatt_total [OF r] by blast
      show ?thesis
      proof (cases y)
        case None
        then show ?thesis using True Some sq by (simp add: parse_tag_def x y Let_def)
      next
        case (Some a)
        then have a: "a < length m" using y e by auto
        have "\<exists>evs y. elt_content m e (Suc a) = Inr (evs, y)" if "\<not> Suc a \<ge> e"
          using elt_content_total [OF r] that by simp
        then show ?thesis using True Some \<open>x = Some sq\<close> sq a by (auto simp: parse_tag_def x y Let_def)
      qed
    next
      case False
      have "\<exists>z. scan (\<lambda>c. c \<noteq> CHR ''>'') m e (Suc q) = Inr z" if "\<not> Suc q \<ge> e"
        using scan_total [of "Suc q" m e] that e by auto
      then show ?thesis using False Some sq q by (auto simp: parse_tag_def x split: option.splits)
    qed
  qed
qed

lemma parseelt_total:
  "xml_readable m e \<Longrightarrow> \<exists>evs. parseelt m e p = Inr evs"
proof (induction m e p rule: parseelt.induct)
  case (1 m e p)
  have e: "e \<le> length m" using "1.prems" by (simp add: xml_readable_def)
  show ?case
  proof (cases "Suc p < e")
    case True
    then have c: "rdc m p = Inr (m ! p)" "rdc m (Suc p) = Inr (m ! Suc p)" using e by simp_all
    have "\<exists>b. (if p + 4 \<le> e then text_at ''<!--'' m p else Inr False) = Inr b"
      using e by (cases "p + 4 \<le> e") (simp_all add: text_at_def, blast)
    then obtain b where b: "(if p + 4 \<le> e then text_at ''<!--'' m p else Inr False) = Inr b" by blast
    consider b | "\<not> b" "m ! p = CHR ''<'' \<and> m ! Suc p \<noteq> CHR ''?''" | "\<not> b" "\<not> (m ! p = CHR ''<'' \<and> m ! Suc p \<noteq> CHR ''?'')"
      by blast
    then show ?thesis
    proof cases
      case 1
      obtain x where x: "skip_comment m e p = Inr x"
      proof (cases "p + 4 + 3 \<ge> e")
        case False
        then show ?thesis using that
          by (rule_tac scan_textE [of "p + 4" "''-->''" m e]) (use e in \<open>auto simp: skip_comment_def\<close>)
      qed (use that in \<open>simp add: skip_comment_def\<close>)
      show ?thesis
        using "1.IH" (1) [OF True b 1 x] "1.prems" True
        by (cases x) (simp_all add: parseelt.simps [of m e p] b 1 x)
    next
      case 2
      obtain evs y where t: "parse_tag m e p = Inr (evs, y)" using parse_tag_total [OF "1.prems" True] by blast
      show ?thesis
      proof (cases y)
        case None
        then show ?thesis using 2 True by (simp add: parseelt.simps [of m e p] b c t)
      next
        case (Some q)
        then obtain evs' where "parseelt m e q = Inr evs'"
          using "1.IH" (2) [OF True b 2 (1) c 2 (2) t refl Some "1.prems"] by blast
        then show ?thesis using 2 True Some by (simp add: parseelt.simps [of m e p] b c t)
      qed
    next
      case 3
      then show ?thesis using "1.IH" (3) [OF True b 3 (1) c 3 (2) "1.prems"] True
        by (subst parseelt.simps) (auto simp: b c)
    qed
  qed (simp add: parseelt.simps [of m e p])
qed

text \<open>
  C35. The parser ends on every text, and looks at no byte outside the buffer when a byte follows the
  text there or the text does not end with a colon, an equals sign or an opening bracket.
\<close>

theorem xml_reads_inside:
  "xml_readable m n \<Longrightarrow> \<exists>evs. parsexml m n = Inr evs"
  by (simp add: parsexml_def parseelt_total)

theorem xml_reads_inside_witness: "\<exists>evs. parsexml ''<a b='' 4 = Inr evs"
  by (rule xml_reads_inside) (simp add: xml_readable_def)

end
