(* ===== verification/XmlRound.thy ===== *)
theory XmlRound
  imports MiniXml
begin

text \<open>
  Documents as trees: what the parser of miniupnpc calls back for the text of a tree.  Names have an
  optional prefix, values of attributes are in double quotes, and elements hold either text or
  elements with text between them, which the parser does not report.
\<close>

type_synonym qname = "string option \<times> string"

datatype xml_tree =
    Leaf qname "(string \<times> string) list" string
  | Node qname "(string \<times> string) list" string xml_tree xml_kids
and xml_kids =
    Last string
  | Kid string xml_tree xml_kids

definition qtext :: "qname \<Rightarrow> string" where
  "qtext q = (case fst q of None \<Rightarrow> snd q | Some pr \<Rightarrow> pr @ '':'' @ snd q)"

definition att_text :: "string \<times> string \<Rightarrow> string" where
  "att_text a = '' '' @ fst a @ ''='' @ [CHR 0x22] @ snd a @ [CHR 0x22]"

definition start_text :: "qname \<Rightarrow> (string \<times> string) list \<Rightarrow> string" where
  "start_text q as = ''<'' @ qtext q @ concat (map att_text as) @ ''>''"

definition end_text :: "qname \<Rightarrow> string" where
  "end_text q = ''</'' @ qtext q @ ''>''"

primrec xml_text :: "xml_tree \<Rightarrow> string" and kids_text :: "xml_kids \<Rightarrow> string" where
  "xml_text (Leaf q as t) = start_text q as @ t @ end_text q"
| "xml_text (Node q as g t ks) = start_text q as @ g @ xml_text t @ kids_text ks @ end_text q"
| "kids_text (Last g) = g"
| "kids_text (Kid g t ks) = g @ xml_text t @ kids_text ks"

definition att_event :: "string \<times> string \<Rightarrow> xml_event" where
  "att_event a = Att (fst a) (snd a)"

text \<open>The prefix is cut from the name of a start tag, but not from that of an end tag.\<close>

primrec xml_events :: "xml_tree \<Rightarrow> xml_event list" and kids_events :: "xml_kids \<Rightarrow> xml_event list" where
  "xml_events (Leaf q as t) = StartElt (snd q) # map att_event as @ (if t = [] then [] else [CData t]) @ [EndElt (qtext q)]"
| "xml_events (Node q as g t ks) = StartElt (snd q) # map att_event as @ xml_events t @ kids_events ks @ [EndElt (qtext q)]"
| "kids_events (Last g) = []"
| "kids_events (Kid g t ks) = xml_events t @ kids_events ks"

definition name_char :: "char \<Rightarrow> bool" where
  "name_char c \<longleftrightarrow> \<not> xspace c \<and> c \<noteq> CHR ''>'' \<and> c \<noteq> CHR ''/'' \<and> c \<noteq> CHR '':''"

definition xname_ok :: "string \<Rightarrow> bool" where
  "xname_ok n \<longleftrightarrow> n \<noteq> [] \<and> list_all name_char n \<and> hd n \<noteq> CHR ''!'' \<and> hd n \<noteq> CHR ''?''"

definition qname_ok :: "qname \<Rightarrow> bool" where
  "qname_ok q \<longleftrightarrow> xname_ok (snd q) \<and> (case fst q of None \<Rightarrow> True | Some pr \<Rightarrow> xname_ok pr)"

definition att_ok :: "string \<times> string \<Rightarrow> bool" where
  "att_ok a \<longleftrightarrow> fst a \<noteq> [] \<and> list_all (\<lambda>c. c \<noteq> CHR ''='' \<and> \<not> xspace c) (fst a) \<and> hd (fst a) \<noteq> CHR ''/'' \<and>
     hd (fst a) \<noteq> CHR ''>'' \<and> CHR 0x22 \<notin> set (snd a)"

definition text_ok :: "string \<Rightarrow> bool" where
  "text_ok t \<longleftrightarrow> CHR ''<'' \<notin> set t"

primrec tree_ok :: "xml_tree \<Rightarrow> bool" and kids_ok :: "xml_kids \<Rightarrow> bool" where
  "tree_ok (Leaf q as t) \<longleftrightarrow> qname_ok q \<and> list_all att_ok as \<and> text_ok t"
| "tree_ok (Node q as g t ks) \<longleftrightarrow> qname_ok q \<and> list_all att_ok as \<and> text_ok g \<and> tree_ok t \<and> kids_ok ks"
| "kids_ok (Last g) \<longleftrightarrow> text_ok g"
| "kids_ok (Kid g t ks) \<longleftrightarrow> text_ok g \<and> tree_ok t \<and> kids_ok ks"

subsection \<open>Scanning known text\<close>

lemma at_drop: "drop p m = x # xs \<Longrightarrow> p < length m \<and> m ! p = x \<and> drop (Suc p) m = xs"
  by (metis Cons_nth_drop_Suc drop_all leI list.distinct(1) list.inject)

lemma at_drop_append: "drop p m = xs @ ys \<Longrightarrow> drop (p + length xs) m = ys"
  by (metis add.commute append_eq_conv_conj drop_drop)

lemma at_next: "drop p m = x # xs \<Longrightarrow> drop (Suc p) m = xs"
  and at_char: "drop p m = x # xs \<Longrightarrow> rdc m p = Inr x"
  using at_drop [of p m x xs] by simp_all

lemma scan_known:
  assumes "drop p m = xs @ y # rest" "list_all P xs" "\<not> P y" "xs = [] \<or> p + length xs < e"
  shows "scan P m e p = Inr (Some (p + length xs))"
  using assms
proof (induction xs arbitrary: p)
  case Nil
  then show ?case using at_drop [of p m y rest] by (simp add: scan.simps [of P m e p])
next
  case (Cons x xs)
  note at = at_drop [of p m x "xs @ y # rest"]
  then show ?case using Cons.prems Cons.IH [of "Suc p"] by (simp add: scan.simps [of P m e p])
qed

lemma elt_name_known:
  assumes "drop p m = n @ y # rest" "list_all name_char n" "xspace y \<or> y = CHR ''>'' \<or> y = CHR ''/''" "p + length n < e"
  shows "elt_name m e s p = Inr (Some (s, p + length n))"
  using assms
proof (induction n arbitrary: p)
  case Nil
  then show ?case using at_drop [of p m y rest] by (simp add: elt_name.simps [of m e s p])
next
  case (Cons x xs)
  note at = at_drop [of p m x "xs @ y # rest"]
  have y: "y \<noteq> CHR '':''" using Cons.prems(3) by (auto simp: xspace_def)
  obtain z zs where z: "xs @ y # rest = z # zs" "z \<noteq> CHR '':''"
  proof (cases xs)
    case Nil
    then show ?thesis using that y by simp
  next
    case (Cons z zs)
    then show ?thesis using that \<open>list_all name_char (x # xs)\<close> by (simp add: name_char_def)
  qed
  then have "rdc m (Suc p) = Inr z" using at at_drop [of "Suc p" m z zs] Cons.prems(1) by simp
  then show ?case using at Cons.prems Cons.IH [of "Suc p"] z(2)
    by (simp add: elt_name.simps [of m e s p] name_char_def)
qed

lemma elt_name_prefix:
  assumes "drop p m = pr @ CHR '':'' # rest" "pr \<noteq> []" "list_all name_char pr" "p + length pr < e"
  shows "elt_name m e s p = elt_name m e (p + length pr + 1) (p + length pr + 1)"
  using assms
proof (induction pr arbitrary: p)
  case (Cons x xs)
  note at = at_drop [of p m x "xs @ CHR '':'' # rest"]
  show ?case
  proof (cases xs)
    case Nil
    then have "rdc m (Suc p) = Inr CHR '':''" using at at_drop [of "Suc p" m "CHR '':''" rest] Cons.prems(1) by simp
    then show ?thesis using at Cons.prems Nil by (subst elt_name.simps) (simp add: name_char_def)
  next
    case (Cons z zs)
    have zc: "z \<noteq> CHR '':''" using \<open>list_all name_char (x # xs)\<close> Cons by (simp add: name_char_def)
    have "rdc m (Suc p) = Inr z" using at at_drop [of "Suc p" m z] \<open>drop p m = _\<close> Cons by simp
    then have "elt_name m e s p = elt_name m e s (Suc p)"
      using at Cons.prems zc by (subst elt_name.simps) (simp add: name_char_def)
    also have "\<dots> = elt_name m e (Suc p + length xs + 1) (Suc p + length xs + 1)"
      using Cons.IH [of "Suc p"] Cons.prems at Cons by simp
    finally show ?thesis by simp
  qed
qed simp

lemma elt_name_qname:
  assumes "drop p m = qtext q @ y # rest" "qname_ok q" "xspace y \<or> y = CHR ''>'' \<or> y = CHR ''/''" "p + length (qtext q) < e"
  shows "elt_name m e p p = Inr (Some (p + length (qtext q) - length (snd q), p + length (qtext q)))"
proof (cases "fst q")
  case None
  then show ?thesis using elt_name_known [of p m "snd q" y rest e p] assms by (simp add: qtext_def qname_ok_def xname_ok_def)
next
  case (Some pr)
  have d: "drop p m = pr @ CHR '':'' # (snd q @ y # rest)" using assms(1) Some by (simp add: qtext_def)
  have len: "length (qtext q) = length pr + 1 + length (snd q)" using Some by (simp add: qtext_def)
  have ok: "pr \<noteq> []" "list_all name_char pr" "list_all name_char (snd q)"
    using assms(2) Some by (simp_all add: qname_ok_def xname_ok_def)
  have d2: "drop (p + length pr + 1) m = snd q @ y # rest" using at_drop_append [OF d] at_drop by fastforce
  show ?thesis
    using elt_name_prefix [OF d ok(1,2), of e p] elt_name_known [OF d2 ok(3) assms(3), of e] assms(4)
    by (simp add: len)
qed

lemma span_known: "drop p m = xs @ rest \<Longrightarrow> span m p (p + length xs) = xs"
  by (simp add: span_def)

lemma xspace_quote: "\<not> xspace CHR 0x22" "\<not> xspace CHR ''=''" "xspace CHR '' ''" "\<not> xspace CHR ''>''"
    "\<not> xspace CHR ''/''" "\<not> xspace CHR ''<''"
  by (simp_all add: xspace_def)

lemma parse_one_att_known:
  assumes d: "drop p m = n @ ''='' @ [CHR 0x22] @ v @ CHR 0x22 # rest" and ok: "att_ok (n, v)"
    and e: "p + length n + length v + 2 < e"
  shows "parse_one_att m e p = Inr (Some (Att n v, p + length n + length v + 2))"
proof -
  let ?r = "p + length n"
  have n: "list_all (\<lambda>c. c \<noteq> CHR ''='' \<and> \<not> xspace c) n" and v: "list_all (\<lambda>c. c \<noteq> CHR 0x22) v"
    using ok by (auto simp: att_ok_def list_all_iff)
  have d1: "drop p m = n @ CHR ''='' # (CHR 0x22 # v @ CHR 0x22 # rest)" using d by simp
  have d2: "drop ?r m = CHR ''='' # (CHR 0x22 # v @ CHR 0x22 # rest)" by (rule at_drop_append [OF d1])
  have d3: "drop (Suc ?r) m = CHR 0x22 # (v @ CHR 0x22 # rest)" by (rule at_next [OF d2])
  have d4: "drop (Suc (Suc ?r)) m = v @ CHR 0x22 # rest" by (rule at_next [OF d3])
  note q = at_char [OF d3]
  have s1: "scan (\<lambda>c. c \<noteq> CHR ''='' \<and> \<not> xspace c) m e p = Inr (Some ?r)"
    using scan_known [OF d1 n] e by simp
  have s2: "scan (\<lambda>c. c \<noteq> CHR ''='') m e ?r = Inr (Some ?r)" using scan_known [of ?r m "[]"] d2 by simp
  have s3: "scan xspace m e (Suc ?r) = Inr (Some (Suc ?r))" using scan_known [of "Suc ?r" m "[]"] d3 by (simp add: xspace_quote)
  have s4: "scan (\<lambda>c. c \<noteq> CHR 0x22) m e (Suc (Suc ?r)) = Inr (Some (Suc (Suc ?r) + length v))"
    using scan_known [OF d4 v] e by simp
  show ?thesis
    using e span_known [OF d1] span_known [OF d4] by (simp add: parse_one_att_def s1 s2 s3 s4 q step_on_def add.commute add.left_commute)
qed

lemma parseatt_known:
  assumes "drop p m = concat (map att_text as) @ CHR ''>'' # rest" "list_all att_ok as"
    "p + length (concat (map att_text as)) < e"
  shows "parseatt m e p = Inr (map att_event as, Some (p + length (concat (map att_text as))))"
  using assms
proof (induction as arbitrary: p)
  case Nil
  then show ?case using at_drop [of p m "CHR ''>''" rest] by (simp add: parseatt.simps [of m e p])
next
  case (Cons a as)
  obtain n v where a: "a = (n, v)" by (cases a)
  let ?tail = "concat (map att_text as) @ CHR ''>'' # rest"
  let ?q = "Suc p + length n + length v + 2"
  have d0: "drop p m = CHR '' '' # (n @ ''='' @ [CHR 0x22] @ v @ CHR 0x22 # ?tail)"
    using Cons.prems(1) a by (simp add: att_text_def [of "(n, v)"])
  note at0 = at_drop [OF d0]
  have d1: "drop (Suc p) m = n @ ''='' @ [CHR 0x22] @ v @ CHR 0x22 # ?tail" using at0 by simp
  have ok: "att_ok (n, v)" using Cons.prems a by simp
  have len: "length (att_text a) = Suc (length n + length v + 3)" by (simp add: a att_text_def)
  obtain c cs where n: "n = c # cs" using ok by (cases n) (auto simp: att_ok_def)
  have c: "c \<noteq> CHR ''/''" "c \<noteq> CHR ''>''" "\<not> xspace c" using ok n by (simp_all add: att_ok_def)
  have c1: "rdc m (Suc p) = Inr c" using at_drop [of "Suc p" m c] d1 n by simp
  have lt: "Suc p + length n + length v + 2 < e" using Cons.prems(3) len by simp
  have att: "parse_one_att m e (Suc p) = Inr (Some (Att n v, ?q))"
    by (rule parse_one_att_known [OF d1 ok lt])
  have "drop (Suc p + length (n @ ''='' @ [CHR 0x22] @ v)) m = CHR 0x22 # ?tail"
    by (rule at_drop_append) (use d1 in simp)
  moreover have "Suc p + length (n @ ''='' @ [CHR 0x22] @ v) = ?q" by simp
  ultimately have d2: "drop (Suc ?q) m = ?tail" by (metis at_next)
  have ih: "parseatt m e (Suc ?q) = Inr (map att_event as, Some (Suc ?q + length (concat (map att_text as))))"
    using Cons.IH [OF d2] Cons.prems len by simp
  have "parseatt m e p = parseatt m e (Suc p)"
    using at0 lt by (subst parseatt.simps) (simp add: xspace_quote)
  also have "\<dots> = rbind (parseatt m e (Suc ?q)) (\<lambda>(evs, z). Inr (Att n v # evs, z))"
    using c c1 lt att by (subst parseatt.simps) simp
  finally show ?case using ih len by (simp add: a att_event_def)
qed

lemma elt_content_known:
  assumes d: "drop p m = g @ CHR ''<'' # c # rest" and g: "text_ok g" and c: "c \<noteq> CHR ''!''"
    and e: "p + length g + 1 < e" "e \<le> length m"
  shows "elt_content m e p = Inr (if g \<noteq> [] \<and> c = CHR ''/'' then [CData g] else [], Some (p + length g))"
proof -
  define w u where "w = takeWhile xspace g" and "u = dropWhile xspace g"
  have wu: "g = w @ u" "list_all xspace w" by (simp_all add: w_def u_def list_all_iff) (auto dest: set_takeWhileD)
  obtain y ys where y: "u @ CHR ''<'' # c # rest = y # ys" "\<not> xspace y"
  proof (cases u)
    case Nil
    then show ?thesis using that by (simp add: xspace_quote)
  next
    case (Cons z zs)
    then have "\<not> xspace z" by (simp add: u_def dropWhile_eq_Cons_conv)
    then show ?thesis using that Cons by simp
  qed
  let ?p = "p + length w"
  have d1: "drop p m = w @ y # ys" using d wu y by simp
  have s1: "scan xspace m e p = Inr (Some ?p)"
    using scan_known [OF d1 wu(2) y(2)] e wu by auto
  have d2: "drop ?p m = u @ CHR ''<'' # c # rest" using at_drop_append [OF d1] y by simp
  have no: "take 9 (drop ?p m) \<noteq> ''<![CDATA[''"
  proof (cases u)
    case Nil
    then show ?thesis using d2 c by simp
  next
    case (Cons z zs)
    then have "z \<noteq> CHR ''<''" using g wu by (auto simp: text_ok_def)
    then show ?thesis using d2 Cons by simp
  qed
  have nine: "length ''<![CDATA['' = 9" by simp
  have cd: "(if ?p + 12 \<le> e then text_at ''<![CDATA['' m ?p else Inr False) = Inr False"
    using no e unfolding text_at_def nine by simp
  have u: "list_all (\<lambda>c. c \<noteq> CHR ''<'') u" using g wu by (auto simp: text_ok_def list_all_iff)
  let ?q = "?p + length u"
  have s2: "scan (\<lambda>c. c \<noteq> CHR ''<'') m (e - 1) ?p = Inr (Some ?q)"
    by (rule scan_known [OF d2 u]) (use e wu in auto)
  have q: "?q = p + length g" using wu by simp
  have r: "rdc m (Suc ?q) = Inr c" by (rule at_char [OF at_next [OF at_drop_append [OF d2]]])
  have "elt_content m e p = (if p < ?q then Inr (if c = CHR ''/'' then [CData (span m p ?q)] else [], Some ?q) else Inr ([], Some ?q))"
    unfolding elt_content_def s1 rbind_Inr option.case cd if_False s2 by (simp add: r)
  then show ?thesis using span_known [OF d] unfolding q by simp
qed

subsection \<open>Tags and trees\<close>

lemma qtext_first:
  assumes "qname_ok q"
  obtains c cs where "qtext q = c # cs" "c \<noteq> CHR ''/''" "c \<noteq> CHR ''!''" "c \<noteq> CHR ''?''" "\<not> xspace c" "c \<noteq> CHR ''>''"
proof (cases "fst q")
  case None
  then obtain c cs where "snd q = c # cs" using assms by (cases "snd q") (auto simp: qname_ok_def xname_ok_def)
  then show ?thesis using that [of c cs] None assms by (simp add: qtext_def qname_ok_def xname_ok_def name_char_def)
next
  case (Some pr)
  then obtain c cs where "pr = c # cs" using assms by (cases pr) (auto simp: qname_ok_def xname_ok_def)
  then show ?thesis using that [of c "cs @ CHR '':'' # snd q"] Some assms
    by (simp add: qtext_def qname_ok_def xname_ok_def name_char_def)
qed

lemma qtext_chars: "qname_ok q \<Longrightarrow> list_all (\<lambda>c. c \<noteq> CHR ''>'') (qtext q)"
  by (auto simp: qname_ok_def qtext_def xname_ok_def name_char_def list_all_iff split: option.splits)

lemma parse_start:
  assumes d: "drop p m = start_text q as @ g @ CHR ''<'' # c # rest" and q: "qname_ok q" and as: "list_all att_ok as"
    and g: "text_ok g" and c: "c \<noteq> CHR ''!''" and e: "p + length (start_text q as) + length g + 1 < e" "e \<le> length m"
  shows "parse_tag m e p = Inr (StartElt (snd q) # map att_event as @ (if g \<noteq> [] \<and> c = CHR ''/'' then [CData g] else []),
    Some (p + length (start_text q as) + length g))"
proof -
  let ?as = "concat (map att_text as)" and ?n = "length (qtext q)"
  let ?rest = "g @ CHR ''<'' # c # rest"
  have len: "length (start_text q as) = ?n + length ?as + 2" by (simp add: start_text_def)
  obtain y ys where y: "?as @ CHR ''>'' # ?rest = y # ys" "xspace y \<or> y = CHR ''>''"
    by (cases as) (auto simp: att_text_def xspace_quote)
  have d1: "drop (Suc p) m = qtext q @ ?as @ CHR ''>'' # ?rest"
    by (rule at_next) (use d in \<open>simp add: start_text_def\<close>)
  have d2: "drop (Suc p + ?n) m = ?as @ CHR ''>'' # ?rest" by (rule at_drop_append [OF d1])
  have d3: "drop (Suc p + ?n + length ?as) m = CHR ''>'' # ?rest" by (rule at_drop_append [OF d2])
  have ne: "snd q \<noteq> []" "length (snd q) \<le> ?n" using q by (auto simp: qname_ok_def xname_ok_def qtext_def split: option.splits)
  have name: "elt_name m e (Suc p) (Suc p) = Inr (Some (Suc p + ?n - length (snd q), Suc p + ?n))"
    by (rule elt_name_qname [of "Suc p" m q y ys e]) (use d1 y q e len in auto)
  have att: "parseatt m e (Suc p + ?n) = Inr (map att_event as, Some (Suc p + ?n + length ?as))"
    using parseatt_known [OF d2 as] e len by simp
  have d4: "drop (Suc (Suc p + ?n + length ?as)) m = ?rest" by (rule at_next [OF d3])
  have con: "elt_content m e (Suc (Suc p + ?n + length ?as)) =
      Inr (if g \<noteq> [] \<and> c = CHR ''/'' then [CData g] else [], Some (p + length (start_text q as) + length g))"
    using elt_content_known [OF d4 g c] e len by (simp add: add.commute add.left_commute)
  have sp: "span m (Suc p + ?n - length (snd q)) (Suc p + ?n) = snd q"
  proof (cases "fst q")
    case None
    then show ?thesis using span_known [OF d1] by (simp add: qtext_def)
  next
    case (Some pr)
    then have d5: "drop (Suc p) m = (pr @ '':'') @ snd q @ ?as @ CHR ''>'' # ?rest" using d1 by (simp add: qtext_def)
    show ?thesis using span_known [OF at_drop_append [OF d5]] Some by (simp add: qtext_def add.assoc)
  qed
  show ?thesis
    unfolding parse_tag_def name rbind_Inr option.case prod.case att Let_def sp at_char [OF d3]
    using ne e len con by simp
qed

lemma parse_end:
  assumes d: "drop p m = end_text q @ rest" and q: "qname_ok q" and e: "p + length (end_text q) \<le> e"
  shows "parse_tag m e p = Inr ([EndElt (qtext q)], Some (p + length (end_text q)))"
proof -
  have len: "length (end_text q) = length (qtext q) + 3" by (simp add: end_text_def)
  have d1: "drop (Suc p) m = CHR ''/'' # (qtext q @ CHR ''>'' # rest)"
    by (rule at_next) (use d in \<open>simp add: end_text_def\<close>)
  note d2 = at_next [OF d1]
  have name: "elt_name m e (Suc p) (Suc p) = Inr (Some (Suc p, Suc p))"
    using at_char [OF d1] by (subst elt_name.simps) simp
  have sc: "scan (\<lambda>c. c \<noteq> CHR ''>'') m e (Suc (Suc p)) = Inr (Some (Suc (Suc p) + length (qtext q)))"
    using scan_known [OF d2 qtext_chars [OF q]] e len by simp
  show ?thesis
    unfolding parse_tag_def name rbind_Inr option.case prod.case
    using e len at_char [OF d1] sc span_known [OF d2] by (simp add: add.commute add.left_commute)
qed

lemma parseelt_skip1:
  assumes "drop p m = c # rest" "c \<noteq> CHR ''<''" "e \<le> length m"
  shows "parseelt m e p = parseelt m e (Suc p)"
proof (cases "Suc p < e")
  case True
  have "(if p + 4 \<le> e then text_at ''<!--'' m p else Inr False) = Inr False"
    using assms True by (simp add: text_at_def take_Cons')
  then show ?thesis using True assms at_char [OF assms(1)] by (subst parseelt.simps) simp
next
  case False
  then show ?thesis by (simp add: parseelt.simps)
qed

lemma parseelt_skip:
  assumes "drop p m = g @ rest" "text_ok g" "e \<le> length m"
  shows "parseelt m e p = parseelt m e (p + length g)"
  using assms
proof (induction g arbitrary: p)
  case (Cons c g)
  then have "parseelt m e p = parseelt m e (Suc p)" by (intro parseelt_skip1 [of p m c "g @ rest"]) (auto simp: text_ok_def)
  then show ?case using Cons at_next [of p m c "g @ rest"] by (simp add: text_ok_def)
qed simp

lemma parseelt_tag:
  assumes "drop p m = CHR ''<'' # d # rest" "d \<noteq> CHR ''?''" "d \<noteq> CHR ''!''" "Suc p < e" "e \<le> length m"
    "parse_tag m e p = Inr (evs, Some q)"
  shows "parseelt m e p = rbind (parseelt m e q) (\<lambda>evs'. Inr (evs @ evs'))"
proof -
  have "(if p + 4 \<le> e then text_at ''<!--'' m p else Inr False) = Inr False"
    using assms by (simp add: text_at_def take_Cons')
  then show ?thesis
    using assms at_char [OF assms(1)] at_char [OF at_next [OF assms(1)]] by (subst parseelt.simps) simp
qed

lemma xml_text_first:
  assumes "tree_ok t"
  obtains c cs where "xml_text t = CHR ''<'' # c # cs" "c \<noteq> CHR ''/''" "c \<noteq> CHR ''!''" "c \<noteq> CHR ''?''"
proof -
  obtain q as r where t: "xml_text t = start_text q as @ r" "qname_ok q" using assms by (cases t) auto
  obtain c cs where "qtext q = c # cs" "c \<noteq> CHR ''/''" "c \<noteq> CHR ''!''" "c \<noteq> CHR ''?''" by (rule qtext_first [OF t(2)])
  then show ?thesis using that t(1) by (simp add: start_text_def)
qed

lemma end_parsed:
  assumes d: "drop p m = end_text q @ rest" and q: "qname_ok q" and e: "p + length (end_text q) \<le> e" "e \<le> length m"
  shows "parseelt m e p = rbind (parseelt m e (p + length (end_text q))) (\<lambda>evs. Inr (EndElt (qtext q) # evs))"
proof -
  have len: "length (end_text q) = length (qtext q) + 3" by (simp add: end_text_def)
  have d1: "drop p m = CHR ''<'' # CHR ''/'' # (qtext q @ CHR ''>'' # rest)" using d by (simp add: end_text_def)
  have "Suc p < e" using e len by linarith
  from parseelt_tag [OF d1 _ _ this e(2) parse_end [OF d q e(1)]] show ?thesis by simp
qed

lemma start_parsed:
  assumes d: "drop p m = start_text q as @ g @ CHR ''<'' # c # rest" and q: "qname_ok q" and as: "list_all att_ok as"
    and g: "text_ok g" and c: "c \<noteq> CHR ''!''" and e: "p + length (start_text q as) + length g + 1 < e" "e \<le> length m"
  shows "parseelt m e p = rbind (parseelt m e (p + length (start_text q as) + length g)) (\<lambda>evs.
    Inr ((StartElt (snd q) # map att_event as @ (if g \<noteq> [] \<and> c = CHR ''/'' then [CData g] else [])) @ evs))"
proof -
  obtain x xs where x: "qtext q = x # xs" "x \<noteq> CHR ''?''" "x \<noteq> CHR ''!''" by (rule qtext_first [OF q])
  have d1: "drop p m = CHR ''<'' # x # (xs @ concat (map att_text as) @ CHR ''>'' # g @ CHR ''<'' # c # rest)"
    using d x by (simp add: start_text_def)
  have "Suc p < e" using e by linarith
  then show ?thesis by (rule parseelt_tag [OF d1 x(2,3) _ e(2) parse_start [OF d q as g c e]])
qed

lemma tree_parsed:
  "drop p m = xml_text t @ rest \<Longrightarrow> tree_ok t \<Longrightarrow> p + length (xml_text t) \<le> e \<Longrightarrow> e \<le> length m \<Longrightarrow>
   parseelt m e p = rbind (parseelt m e (p + length (xml_text t))) (\<lambda>evs. Inr (xml_events t @ evs))"
  "drop p m = kids_text ks @ rest \<Longrightarrow> kids_ok ks \<Longrightarrow> p + length (kids_text ks) \<le> e \<Longrightarrow> e \<le> length m \<Longrightarrow>
   parseelt m e p = rbind (parseelt m e (p + length (kids_text ks))) (\<lambda>evs. Inr (kids_events ks @ evs))"
proof (induction t and ks arbitrary: p rest and p rest)
  case (Leaf q as t)
  let ?q = "p + length (start_text q as) + length t"
  have ends: "end_text q = CHR ''<'' # CHR ''/'' # (qtext q @ ''>'')" by (simp add: end_text_def)
  have d: "drop p m = start_text q as @ t @ CHR ''<'' # CHR ''/'' # ((qtext q @ ''>'') @ rest)"
    using Leaf.prems by (simp add: ends)
  have "drop (p + length (start_text q as @ t)) m = end_text q @ rest"
    by (rule at_drop_append) (use Leaf.prems in simp)
  then have d2: "drop ?q m = end_text q @ rest" by (simp add: add.assoc)
  have e: "?q + length (end_text q) \<le> e" using Leaf.prems by simp
  then have e1: "?q + 1 < e" by (simp add: ends)
  have "parseelt m e p = rbind (parseelt m e ?q) (\<lambda>evs.
      Inr ((StartElt (snd q) # map att_event as @ (if t \<noteq> [] \<and> CHR ''/'' = CHR ''/'' then [CData t] else [])) @ evs))"
    using Leaf.prems by (intro start_parsed [OF d _ _ _ _ e1]) simp_all
  moreover have "parseelt m e ?q = rbind (parseelt m e (?q + length (end_text q))) (\<lambda>evs. Inr (EndElt (qtext q) # evs))"
    using Leaf.prems by (intro end_parsed [OF d2 _ e]) simp_all
  ultimately show ?case by (simp add: rbind_assoc add.assoc)
next
  case (Node q as g t ks)
  let ?q = "p + length (start_text q as) + length g"
  obtain c cs where c: "xml_text t = CHR ''<'' # c # cs" "c \<noteq> CHR ''/''" "c \<noteq> CHR ''!''"
    by (rule xml_text_first [of t]) (use Node.prems in auto)
  have d: "drop p m = start_text q as @ g @ CHR ''<'' # c # (cs @ kids_text ks @ end_text q @ rest)"
    using Node.prems c by simp
  have "drop (p + length (start_text q as @ g)) m = xml_text t @ (kids_text ks @ end_text q @ rest)"
    by (rule at_drop_append) (use Node.prems in simp)
  then have d2: "drop ?q m = xml_text t @ (kids_text ks @ end_text q @ rest)" by (simp add: add.assoc)
  let ?r = "?q + length (xml_text t)" and ?s = "?q + length (xml_text t) + length (kids_text ks)"
  have d3: "drop ?r m = kids_text ks @ (end_text q @ rest)" by (rule at_drop_append [OF d2])
  have d4: "drop ?s m = end_text q @ rest" by (rule at_drop_append [OF d3])
  have e: "?s + length (end_text q) \<le> e" using Node.prems by simp
  then have e1: "?q + 1 < e" and e2: "?r \<le> e" "?s \<le> e" using c by simp_all
  have s1: "parseelt m e p = rbind (parseelt m e ?q) (\<lambda>evs.
      Inr ((StartElt (snd q) # map att_event as @ (if g \<noteq> [] \<and> c = CHR ''/'' then [CData g] else [])) @ evs))"
    using Node.prems c by (intro start_parsed [OF d _ _ _ _ e1]) simp_all
  have s2: "parseelt m e ?q = rbind (parseelt m e ?r) (\<lambda>evs. Inr (xml_events t @ evs))"
    using Node.prems by (intro Node.IH (1) [OF d2 _ e2(1)]) simp_all
  have s3: "parseelt m e ?r = rbind (parseelt m e ?s) (\<lambda>evs. Inr (kids_events ks @ evs))"
    using Node.prems by (intro Node.IH (2) [OF d3 _ e2(2)]) simp_all
  have s4: "parseelt m e ?s = rbind (parseelt m e (?s + length (end_text q))) (\<lambda>evs. Inr (EndElt (qtext q) # evs))"
    using Node.prems by (intro end_parsed [OF d4 _ e]) simp_all
  show ?case unfolding s1 s2 s3 s4 using c(2) by (simp add: rbind_assoc add.assoc)
next
  case (Last g)
  then show ?case using parseelt_skip [of p m g rest e] by (cases "parseelt m e (p + length g)") simp_all
next
  case (Kid g t ks)
  have d0: "drop p m = g @ (xml_text t @ kids_text ks @ rest)" using Kid.prems by simp
  have d2: "drop (p + length g) m = xml_text t @ (kids_text ks @ rest)" by (rule at_drop_append [OF d0])
  have d3: "drop (p + length g + length (xml_text t)) m = kids_text ks @ rest" by (rule at_drop_append [OF d2])
  have s1: "parseelt m e p = parseelt m e (p + length g)" using Kid.prems by (intro parseelt_skip [OF d0]) simp_all
  have s2: "parseelt m e (p + length g) = rbind (parseelt m e (p + length g + length (xml_text t))) (\<lambda>evs. Inr (xml_events t @ evs))"
    using Kid.prems by (intro Kid.IH (1) [OF d2]) simp_all
  have s3: "parseelt m e (p + length g + length (xml_text t)) =
      rbind (parseelt m e (p + length g + length (xml_text t) + length (kids_text ks))) (\<lambda>evs. Inr (kids_events ks @ evs))"
    using Kid.prems by (intro Kid.IH (2) [OF d3]) simp_all
  show ?case unfolding s1 s2 s3 by (simp add: rbind_assoc add.assoc)
qed

text \<open>A document: a declaration or none, text without brackets, one element, and text without brackets.\<close>

definition prolog_ok :: "string \<Rightarrow> bool" where
  "prolog_ok p \<longleftrightarrow> text_ok p \<or> (\<exists>s. p = CHR ''<'' # CHR ''?'' # s \<and> text_ok s)"

lemma parseelt_end: "e \<le> Suc p \<Longrightarrow> parseelt m e p = Inr []"
  by (simp add: parseelt.simps)

lemma document_parsed:
  assumes "prolog_ok pre" "tree_ok t" "text_ok post"
  shows "parsexml (pre @ xml_text t @ post @ mem) (length (pre @ xml_text t @ post)) = Inr (xml_events t)"
proof -
  let ?m = "pre @ xml_text t @ post @ mem" and ?e = "length (pre @ xml_text t @ post)"
  have e: "?e \<le> length ?m" by simp
  obtain c cs where c: "xml_text t = CHR ''<'' # c # cs" by (rule xml_text_first [OF assms(2)])
  have 1: "parseelt ?m ?e 0 = parseelt ?m ?e (length pre)"
  proof (cases "text_ok pre")
    case True
    then show ?thesis using parseelt_skip [of 0 ?m pre "xml_text t @ post @ mem" ?e] by simp
  next
    case False
    then obtain s where s: "pre = CHR ''<'' # CHR ''?'' # s" "text_ok s" using assms(1) by (auto simp: prolog_ok_def)
    have "parseelt ?m ?e 0 = parseelt ?m ?e 1"
      using s by (subst parseelt.simps) (simp add: text_at_def)
    also have "\<dots> = parseelt ?m ?e (1 + length (CHR ''?'' # s))"
      using s by (intro parseelt_skip [of 1 ?m "CHR ''?'' # s" "xml_text t @ post @ mem"]) (auto simp: text_ok_def)
    finally show ?thesis using s by simp
  qed
  have 2: "parseelt ?m ?e (length pre) =
      rbind (parseelt ?m ?e (length pre + length (xml_text t))) (\<lambda>evs. Inr (xml_events t @ evs))"
    using assms(2) by (intro tree_parsed (1) [of _ ?m t "post @ mem"]) simp_all
  have "parseelt ?m ?e (length pre + length (xml_text t)) = parseelt ?m ?e (length pre + length (xml_text t) + length post)"
    using assms(3) by (intro parseelt_skip [of _ ?m post mem]) simp_all
  then have 3: "parseelt ?m ?e (length pre + length (xml_text t)) = Inr []" by (simp add: parseelt_end)
  show ?thesis unfolding parsexml_def 1 2 3 by simp
qed

end
