(* ===== verification/UpnpXml.thy ===== *)
theory UpnpXml
  imports XmlRound
begin

text \<open>
  What miniupnpc reads from XML documents: the description of a gateway (igd_desc_parse.c), the values
  of a SOAP reply (upnpreplyparse.c) and a list of port mappings (portlistingparse.c).  Each reader is
  the fold of its callbacks over the calls of the parser; it sets no callback for attributes.  The
  members are arrays of characters, kept as the string up to the first NUL.
\<close>

unbundle bit_operations_syntax

definition member :: "nat \<Rightarrow> string \<Rightarrow> string" where
  "member n s = c_str (take n s)"

lemma member_short: "length s \<le> n \<Longrightarrow> NUL \<notin> set s \<Longrightarrow> member n s = s"
  by (simp add: member_def)

definition begins :: "string \<Rightarrow> string \<Rightarrow> bool" where
  "begins pre s \<longleftrightarrow> take (length pre) s = pre"

subsection \<open>The description of a gateway\<close>

definition URL_MAX :: nat where "URL_MAX = 127"   \<comment> \<open>MINIUPNPC_URL_MAXSIZE less the NUL\<close>

record igd_service =
  is_controlurl :: string
  is_eventsuburl :: string
  is_scpdurl :: string
  is_servicetype :: string

definition service_zero :: igd_service where
  "service_zero = \<lparr>is_controlurl = [], is_eventsuburl = [], is_scpdurl = [], is_servicetype = []\<rparr>"

record igd_data =
  ig_cureltname :: string
  ig_urlbase :: string
  ig_presentationurl :: string
  ig_level :: int
  ig_CIF :: igd_service
  ig_first :: igd_service
  ig_second :: igd_service
  ig_IPv6FC :: igd_service
  ig_tmp :: igd_service

definition igd_zero :: igd_data where
  "igd_zero = \<lparr>ig_cureltname = [], ig_urlbase = [], ig_presentationurl = [], ig_level = 0, ig_CIF = service_zero,
     ig_first = service_zero, ig_second = service_zero, ig_IPv6FC = service_zero, ig_tmp = service_zero\<rparr>"

definition IGDstartelt :: "string \<Rightarrow> igd_data \<Rightarrow> igd_data" where
  "IGDstartelt name d =
     (let d = d\<lparr>ig_cureltname := member URL_MAX name, ig_level := ig_level d + 1\<rparr> in
      if name = ''service'' then d\<lparr>ig_tmp := service_zero\<rparr> else d)"

definition CIF_TYPE :: string where "CIF_TYPE = ''urn:schemas-upnp-org:service:WANCommonInterfaceConfig:''"
definition IPV6_TYPE :: string where "IPV6_TYPE = ''urn:schemas-upnp-org:service:WANIPv6FirewallControl:''"
definition WANIP_TYPE :: string where "WANIP_TYPE = ''urn:schemas-upnp-org:service:WANIPConnection:''"
definition WANPPP_TYPE :: string where "WANPPP_TYPE = ''urn:schemas-upnp-org:service:WANPPPConnection:''"

text \<open>Where a finished service is kept.\<close>

definition keep_service :: "igd_service \<Rightarrow> igd_data \<Rightarrow> igd_data" where
  "keep_service s d =
     (if begins CIF_TYPE (is_servicetype s) then d\<lparr>ig_CIF := s\<rparr>
      else if begins IPV6_TYPE (is_servicetype s) then d\<lparr>ig_IPv6FC := s\<rparr>
      else if begins WANIP_TYPE (is_servicetype s) \<or> begins WANPPP_TYPE (is_servicetype s) then
        (if is_servicetype (ig_first d) = [] then d\<lparr>ig_first := s\<rparr> else d\<lparr>ig_second := s\<rparr>)
      else d)"

definition IGDendelt :: "string \<Rightarrow> igd_data \<Rightarrow> igd_data" where
  "IGDendelt name d =
     (let d = d\<lparr>ig_level := ig_level d - 1\<rparr> in
      if name = ''service'' then keep_service (ig_tmp d) d else d)"

text \<open>The member of a service that an element names.\<close>

definition service_field :: "string \<Rightarrow> string \<Rightarrow> igd_service \<Rightarrow> igd_service" where
  "service_field name v s =
     (if name = ''serviceType'' then s\<lparr>is_servicetype := v\<rparr>
      else if name = ''controlURL'' then s\<lparr>is_controlurl := v\<rparr>
      else if name = ''eventSubURL'' then s\<lparr>is_eventsuburl := v\<rparr>
      else if name = ''SCPDURL'' then s\<lparr>is_scpdurl := v\<rparr> else s)"

definition IGDdata :: "string \<Rightarrow> igd_data \<Rightarrow> igd_data" where
  "IGDdata data d =
     (let v = member URL_MAX data in
      if ig_cureltname d = ''URLBase'' then d\<lparr>ig_urlbase := v\<rparr>
      else if ig_cureltname d = ''presentationURL'' then d\<lparr>ig_presentationurl := v\<rparr>
      else d\<lparr>ig_tmp := service_field (ig_cureltname d) v (ig_tmp d)\<rparr>)"

primrec igd_event :: "xml_event \<Rightarrow> igd_data \<Rightarrow> igd_data" where
  "igd_event (StartElt n) d = IGDstartelt n d"
| "igd_event (EndElt n) d = IGDendelt n d"
| "igd_event (CData t) d = IGDdata t d"
| "igd_event (Att n v) d = d"

definition parserootdesc :: "string \<Rightarrow> nat \<Rightarrow> igd_data \<Rightarrow> fault + igd_data" where
  "parserootdesc buffer bufsize d = rbind (parsexml buffer bufsize) (\<lambda>evs. Inr (fold igd_event evs d))"

subsection \<open>The values of a reply\<close>

record nv_data =
  nv_list :: "(string \<times> string) list"     \<comment> \<open>l_head and what follows it\<close>
  nv_curelt :: string
  nv_portListing :: "string option"
  nv_topelt :: bool
  nv_cdata :: "string option"

definition nv_zero :: nv_data where
  "nv_zero = \<lparr>nv_list = [], nv_curelt = [], nv_portListing = None, nv_topelt = False, nv_cdata = None\<rparr>"

definition NV_NAME :: nat where "NV_NAME = 63"
definition NV_VALUE :: nat where "NV_VALUE = 127"
definition SIZEOF_NameValue :: nat where "SIZEOF_NameValue = 200"

definition NameValueParserStartElt :: "string \<Rightarrow> nv_data \<Rightarrow> nv_data" where
  "NameValueParserStartElt name d =
     d\<lparr>nv_topelt := True, nv_curelt := member NV_NAME name, nv_cdata := None\<rparr>"

definition NameValueParserEndElt :: "(nat \<Rightarrow> bool) \<Rightarrow> string \<Rightarrow> nv_data \<Rightarrow> nv_data" where
  "NameValueParserEndElt alloc name d =
     (if \<not> nv_topelt d then d
      else if nv_curelt d \<noteq> ''NewPortListing'' \<and> \<not> alloc SIZEOF_NameValue then d
      else
        let v = (case nv_cdata d of None \<Rightarrow> [] | Some t \<Rightarrow> member NV_VALUE t);
            d = (if nv_curelt d \<noteq> ''NewPortListing'' then d\<lparr>nv_list := (nv_curelt d, v) # nv_list d\<rparr> else d) in
        d\<lparr>nv_cdata := None, nv_topelt := False\<rparr>)"

definition NameValueParserGetData :: "(nat \<Rightarrow> bool) \<Rightarrow> string \<Rightarrow> nv_data \<Rightarrow> nv_data" where
  "NameValueParserGetData alloc datas d =
     (if nv_curelt d = ''NewPortListing'' then
        d\<lparr>nv_portListing := (if alloc (length datas + 1) then Some datas else None)\<rparr>
      else d\<lparr>nv_cdata := Some datas\<rparr>)"

primrec nv_event :: "(nat \<Rightarrow> bool) \<Rightarrow> xml_event \<Rightarrow> nv_data \<Rightarrow> nv_data" where
  "nv_event alloc (StartElt n) d = NameValueParserStartElt n d"
| "nv_event alloc (EndElt n) d = NameValueParserEndElt alloc n d"
| "nv_event alloc (CData t) d = NameValueParserGetData alloc t d"
| "nv_event alloc (Att n v) d = d"

definition ParseNameValue :: "(nat \<Rightarrow> bool) \<Rightarrow> string \<Rightarrow> nat \<Rightarrow> fault + nv_data" where
  "ParseNameValue alloc buffer bufsize = rbind (parsexml buffer bufsize) (\<lambda>evs. Inr (fold (nv_event alloc) evs nv_zero))"

primrec nv_lookup :: "(string \<times> string) list \<Rightarrow> string \<Rightarrow> string option" where
  "nv_lookup [] name = None"
| "nv_lookup (nv # nvs) name = (if fst nv = name then Some (snd nv) else nv_lookup nvs name)"

definition GetValueFromNameValueList :: "nv_data \<Rightarrow> string \<Rightarrow> string option" where
  "GetValueFromNameValueList d name = nv_lookup (nv_list d) name"

subsection \<open>A list of port mappings\<close>

datatype port_elt = PortMappingEltNone | PortMappingEntry | NewRemoteHost | NewExternalPort | NewProtocol
  | NewInternalPort | NewInternalClient | NewEnabled | NewDescription | NewLeaseTime

definition port_elements :: "(port_elt \<times> string) list" where
  "port_elements =
     [(PortMappingEntry, ''PortMappingEntry''), (NewRemoteHost, ''NewRemoteHost''), (NewExternalPort, ''NewExternalPort''),
      (NewProtocol, ''NewProtocol''), (NewInternalPort, ''NewInternalPort''), (NewInternalClient, ''NewInternalClient''),
      (NewEnabled, ''NewEnabled''), (NewDescription, ''NewDescription''), (NewLeaseTime, ''NewLeaseTime'')]"

record port_mapping =
  pm_leaseTime :: "64 word"   \<comment> \<open>UNSIGNED_INTEGER\<close>
  pm_externalPort :: u16
  pm_internalPort :: u16
  pm_remoteHost :: string
  pm_internalClient :: string
  pm_description :: string
  pm_protocol :: string
  pm_enabled :: byte

definition SIZEOF_PortMapping :: nat where "SIZEOF_PortMapping = 224"

definition mapping_zero :: port_mapping where
  "mapping_zero = \<lparr>pm_leaseTime = 0, pm_externalPort = 0, pm_internalPort = 0, pm_remoteHost = [], pm_internalClient = [],
     pm_description = [], pm_protocol = [], pm_enabled = 0\<rparr>"

record port_data =
  pd_list :: "port_mapping list"
  pd_curelt :: port_elt

text \<open>atoui: the digits at the start, in an unsigned long long, which wraps.\<close>

primrec atoui_from :: "string \<Rightarrow> 64 word \<Rightarrow> 64 word" where
  "atoui_from [] r = r"
| "atoui_from (c # cs) r = (if isdigit c then atoui_from cs (r * 10 + of_nat (code c - 48)) else r)"

definition atoui :: "string \<Rightarrow> 64 word" where
  "atoui s = atoui_from s 0"

definition port_startelt :: "(nat \<Rightarrow> bool) \<Rightarrow> string \<Rightarrow> port_data \<Rightarrow> port_data" where
  "port_startelt alloc name d =
     (let e = (case find (\<lambda>x. snd x = name) port_elements of None \<Rightarrow> PortMappingEltNone | Some x \<Rightarrow> fst x);
          d = d\<lparr>pd_curelt := e\<rparr> in
      if e = PortMappingEntry \<and> alloc SIZEOF_PortMapping then d\<lparr>pd_list := mapping_zero # pd_list d\<rparr> else d)"

definition port_set :: "port_elt \<Rightarrow> string \<Rightarrow> port_mapping \<Rightarrow> port_mapping" where
  "port_set e data pm =
     (let data = take 63 data in
      case e of NewRemoteHost \<Rightarrow> pm\<lparr>pm_remoteHost := c_str data\<rparr>
      | NewExternalPort \<Rightarrow> pm\<lparr>pm_externalPort := ucast (atoui data)\<rparr>
      | NewProtocol \<Rightarrow> pm\<lparr>pm_protocol := c_str (take 3 data)\<rparr>
      | NewInternalPort \<Rightarrow> pm\<lparr>pm_internalPort := ucast (atoui data)\<rparr>
      | NewInternalClient \<Rightarrow> pm\<lparr>pm_internalClient := c_str data\<rparr>
      | NewEnabled \<Rightarrow> pm\<lparr>pm_enabled := ucast (atoui data)\<rparr>
      | NewDescription \<Rightarrow> pm\<lparr>pm_description := c_str data\<rparr>
      | NewLeaseTime \<Rightarrow> pm\<lparr>pm_leaseTime := atoui data\<rparr>
      | _ \<Rightarrow> pm)"

primrec port_event :: "(nat \<Rightarrow> bool) \<Rightarrow> xml_event \<Rightarrow> port_data \<Rightarrow> port_data" where
  "port_event alloc (StartElt n) d = port_startelt alloc n d"
| "port_event alloc (EndElt n) d = d\<lparr>pd_curelt := PortMappingEltNone\<rparr>"
| "port_event alloc (CData t) d =
     (case pd_list d of [] \<Rightarrow> d | pm # pms \<Rightarrow> d\<lparr>pd_list := port_set (pd_curelt d) t pm # pms\<rparr>)"
| "port_event alloc (Att n v) d = d"

definition ParsePortListing :: "(nat \<Rightarrow> bool) \<Rightarrow> string \<Rightarrow> nat \<Rightarrow> fault + port_data" where
  "ParsePortListing alloc buffer bufsize =
     rbind (parsexml buffer bufsize) (\<lambda>evs.
       Inr (fold (port_event alloc) evs \<lparr>pd_list = [], pd_curelt = PortMappingEltNone\<rparr>))"

end
