(* ===== verification/UpnpRead.thy ===== *)
theory UpnpRead
  imports UpnpXml
begin

text \<open>
  What the readers of \<open>UpnpXml\<close> find in the document of a tree: the services of a gateway, the values of
  a SOAP reply, and the mappings of a list of ports.
\<close>

subsection \<open>The services of a description\<close>

text \<open>The text of the last leaf of a name.\<close>

primrec tree_text :: "string \<Rightarrow> xml_tree \<Rightarrow> string \<Rightarrow> string" and kids_last :: "string \<Rightarrow> xml_kids \<Rightarrow> string \<Rightarrow> string" where
  "tree_text n (Leaf q as t) x = (if t \<noteq> [] \<and> member URL_MAX (snd q) = n then member URL_MAX t else x)"
| "tree_text n (Node q as g t ks) x = kids_last n ks (tree_text n t x)"
| "kids_last n (Last g) x = x"
| "kids_last n (Kid g t ks) x = kids_last n ks (tree_text n t x)"

text \<open>
  The reference: each field of a service is the text of the last leaf of its name below the
  service, in the order of the document, and only an element named service without a prefix is kept.
\<close>

definition service_texts :: "(string \<Rightarrow> string \<Rightarrow> string) \<Rightarrow> igd_service \<Rightarrow> igd_service" where
  "service_texts x s = \<lparr>is_controlurl = x ''controlURL'' (is_controlurl s), is_eventsuburl = x ''eventSubURL'' (is_eventsuburl s),
     is_scpdurl = x ''SCPDURL'' (is_scpdurl s), is_servicetype = x ''serviceType'' (is_servicetype s)\<rparr>"

primrec tree_services :: "xml_tree \<Rightarrow> igd_service list" and kids_services :: "xml_kids \<Rightarrow> igd_service list" where
  "tree_services (Leaf q as t) = []"
| "tree_services (Node q as g t ks) =
     (if snd q = ''service'' then (if fst q = None then [service_texts (\<lambda>n x. kids_last n ks (tree_text n t x)) service_zero] else [])
      else tree_services t @ kids_services ks)"
| "kids_services (Last g) = []"
| "kids_services (Kid g t ks) = tree_services t @ kids_services ks"

text \<open>No service inside a service.\<close>

primrec no_service :: "xml_tree \<Rightarrow> bool" and no_service_kids :: "xml_kids \<Rightarrow> bool" where
  "no_service (Leaf q as t) \<longleftrightarrow> snd q \<noteq> ''service''"
| "no_service (Node q as g t ks) \<longleftrightarrow> snd q \<noteq> ''service'' \<and> no_service t \<and> no_service_kids ks"
| "no_service_kids (Last g) \<longleftrightarrow> True"
| "no_service_kids (Kid g t ks) \<longleftrightarrow> no_service t \<and> no_service_kids ks"

primrec services_ok :: "xml_tree \<Rightarrow> bool" and services_ok_kids :: "xml_kids \<Rightarrow> bool" where
  "services_ok (Leaf q as t) \<longleftrightarrow> True"
| "services_ok (Node q as g t ks) \<longleftrightarrow>
     (if snd q = ''service'' then no_service t \<and> no_service_kids ks else services_ok t \<and> services_ok_kids ks)"
| "services_ok_kids (Last g) \<longleftrightarrow> True"
| "services_ok_kids (Kid g t ks) \<longleftrightarrow> services_ok t \<and> services_ok_kids ks"

lemma fold_atts [simp]: "fold igd_event (map att_event as) d = d"
  by (induction "as" arbitrary: d) (simp_all add: att_event_def)

lemma qtext_service:
  assumes "qname_ok q"
  shows "qtext q = ''service'' \<longleftrightarrow> fst q = None \<and> snd q = ''service''"
proof (cases "fst q")
  case (Some pr)
  have "CHR '':'' \<in> set (qtext q)" using Some by (simp add: qtext_def)
  then have "qtext q \<noteq> ''service''" by auto
  then show ?thesis using Some by simp
qed (simp add: qtext_def)

text \<open>What is left of a description besides the services kept.\<close>

definition rest_read :: "string \<Rightarrow> igd_service \<Rightarrow> string \<Rightarrow> string \<Rightarrow> igd_data \<Rightarrow> igd_data" where
  "rest_read c s u p d = d\<lparr>ig_cureltname := c, ig_tmp := s, ig_urlbase := u, ig_presentationurl := p\<rparr>"

lemma keep_rest: "keep_service s (rest_read c s' u p d) = rest_read c s' u p (keep_service s d)"
  by (simp add: keep_service_def rest_read_def)

lemma fold_keep_rest: "fold keep_service ss (rest_read c s' u p d) = rest_read c s' u p (fold keep_service ss d)"
  by (induction ss arbitrary: d) (simp_all add: keep_rest)

lemma rest_rest [simp]: "rest_read c s u p (rest_read c' s' u' p' d) = rest_read c s u p d"
  by (simp add: rest_read_def)

lemma rest_sel [simp]:
  "ig_tmp (rest_read c s u p d) = s" "ig_urlbase (rest_read c s u p d) = u" "ig_presentationurl (rest_read c s u p d) = p"
  "ig_CIF (rest_read c s u p d) = ig_CIF d" "ig_first (rest_read c s u p d) = ig_first d"
  "ig_second (rest_read c s u p d) = ig_second d" "ig_IPv6FC (rest_read c s u p d) = ig_IPv6FC d"
  by (simp_all add: rest_read_def)

lemma keep_sel [simp]:
  "ig_urlbase (keep_service s d) = ig_urlbase d" "ig_presentationurl (keep_service s d) = ig_presentationurl d"
  by (simp_all add: keep_service_def)

lemma fold_keep_sel [simp]:
  "ig_urlbase (fold keep_service ss d) = ig_urlbase d" "ig_presentationurl (fold keep_service ss d) = ig_presentationurl d"
  by (induction ss arbitrary: d) simp_all

text \<open>The calls for a tag and the text in it.\<close>

definition deeper :: "igd_data \<Rightarrow> igd_data" where
  "deeper d = d\<lparr>ig_level := ig_level d + 1\<rparr>"

lemma deeper_sel [simp]:
  "ig_tmp (deeper d) = ig_tmp d" "ig_urlbase (deeper d) = ig_urlbase d" "ig_presentationurl (deeper d) = ig_presentationurl d"
  by (simp_all add: deeper_def)

lemma start_read: "IGDstartelt n d = rest_read (member URL_MAX n) (if n = ''service'' then service_zero else ig_tmp d)
    (ig_urlbase d) (ig_presentationurl d) (deeper d)"
  by (simp add: IGDstartelt_def rest_read_def deeper_def Let_def)

lemma data_read: "IGDdata t (rest_read n s u p d) = rest_read n (service_field n (member URL_MAX t) s)
    (if n = ''URLBase'' then member URL_MAX t else u) (if n = ''presentationURL'' then member URL_MAX t else p) d"
proof -
  have "service_field ''URLBase'' v s = s" "service_field ''presentationURL'' v s = s" for v
    by (simp_all add: service_field_def)
  then show ?thesis by (simp add: IGDdata_def rest_read_def Let_def)
qed

lemma end_read: "n \<noteq> ''service'' \<Longrightarrow> IGDendelt n (rest_read c s u p (fold keep_service ss (deeper d))) =
    rest_read c s u p (fold keep_service ss d)"
proof -
  have k: "keep_service v (d\<lparr>ig_level := l\<rparr>) = (keep_service v d)\<lparr>ig_level := l\<rparr>" "ig_level (keep_service v d) = ig_level d" for v d l
    by (simp_all add: keep_service_def)
  have "fold keep_service ss (d\<lparr>ig_level := l\<rparr>) = (fold keep_service ss d)\<lparr>ig_level := l\<rparr>"
      "ig_level (fold keep_service ss d) = ig_level d" for l
    by (induction ss arbitrary: d) (simp_all add: k)
  then show "n \<noteq> ''service'' \<Longrightarrow> ?thesis" by (simp add: IGDendelt_def Let_def rest_read_def deeper_def)
qed

lemma service_end_read: "IGDendelt ''service'' (rest_read c s u p (deeper d)) = rest_read c s u p (keep_service s d)"
  by (simp add: IGDendelt_def Let_def rest_read_def deeper_def keep_service_def)

lemma keep_zero: "keep_service service_zero d = d"
  by (simp add: keep_service_def service_zero_def begins_def CIF_TYPE_def IPV6_TYPE_def WANIP_TYPE_def WANPPP_TYPE_def)

text \<open>Below a service, and anywhere.\<close>

definition fields_read :: "igd_data \<Rightarrow> (string \<Rightarrow> string \<Rightarrow> string) \<Rightarrow> igd_data \<Rightarrow> bool" where
  "fields_read d x d' \<longleftrightarrow> (\<exists>c. d' = rest_read c (service_texts x (ig_tmp d)) (x ''URLBase'' (ig_urlbase d))
     (x ''presentationURL'' (ig_presentationurl d)) d)"

definition services_read :: "igd_data \<Rightarrow> igd_service list \<Rightarrow> (string \<Rightarrow> string \<Rightarrow> string) \<Rightarrow> igd_data \<Rightarrow> bool" where
  "services_read d ss x d' \<longleftrightarrow> (\<exists>c s. d' = rest_read c s (x ''URLBase'' (ig_urlbase d))
     (x ''presentationURL'' (ig_presentationurl d)) (fold keep_service ss d))"

lemma fields_read_trans:
  "fields_read d x d' \<Longrightarrow> fields_read d' y d'' \<Longrightarrow> fields_read d (\<lambda>n v. y n (x n v)) d''"
  by (auto simp: fields_read_def service_texts_def)

lemma services_read_trans:
  assumes "services_read d ss x d'" "services_read d' ss' y d''"
  shows "services_read d (ss @ ss') (\<lambda>n v. y n (x n v)) d''"
proof -
  obtain c s where 1: "d' = rest_read c s (x ''URLBase'' (ig_urlbase d)) (x ''presentationURL'' (ig_presentationurl d)) (fold keep_service ss d)"
    using assms(1) unfolding services_read_def by blast
  obtain c' s' where "d'' = rest_read c' s' (y ''URLBase'' (ig_urlbase d')) (y ''presentationURL'' (ig_presentationurl d')) (fold keep_service ss' d')"
    using assms(2) unfolding services_read_def by blast
  then show ?thesis unfolding services_read_def
    by (intro exI [of _ c'] exI [of _ s']) (simp add: 1 fold_keep_rest)
qed

lemma node_events:
  "fold igd_event (xml_events (Node q as g t ks)) d =
    IGDendelt (qtext q) (fold igd_event (kids_events ks) (fold igd_event (xml_events t) (IGDstartelt (snd q) d)))"
  by simp

lemma leaf_events:
  "fold igd_event (xml_events (Leaf q as t)) d =
    IGDendelt (qtext q) ((if t = [] then id else IGDdata t) (IGDstartelt (snd q) d))"
  by simp

lemma leaf_texts:
  "service_texts (\<lambda>n. tree_text n (Leaf q as t)) s =
    (if t = [] then s else service_field (member URL_MAX (snd q)) (member URL_MAX t) s)"
  by (cases s) (simp add: service_texts_def service_field_def)

lemma leaf_fields:
  assumes "qname_ok q" "snd q \<noteq> ''service''"
  shows "fields_read d (\<lambda>n. tree_text n (Leaf q as t)) (fold igd_event (xml_events (Leaf q as t)) d)"
proof -
  have "qtext q \<noteq> ''service''" using assms by (simp add: qtext_service)
  from end_read [OF this, where ss = "[]"] show ?thesis using assms
    unfolding leaf_events fields_read_def
    by (intro exI [of _ "member URL_MAX (snd q)"]) (simp add: start_read data_read leaf_texts)
qed

lemma leaf_service:
  assumes "qname_ok q" "snd q = ''service''"
  shows "services_read d [] (\<lambda>n. tree_text n (Leaf q as t)) (fold igd_event (xml_events (Leaf q as t)) d)"
proof -
  have m: "member URL_MAX ''service'' = ''service''" by (rule member_short) (simp_all add: URL_MAX_def NUL_def)
  have f: "service_field ''service'' v s = s" for v s by (simp add: service_field_def)
  show ?thesis
  proof (cases "fst q")
    case None
    then have "qtext q = ''service''" using assms by (simp add: qtext_service)
    then show ?thesis unfolding leaf_events services_read_def
      by (intro exI [of _ "''service''"] exI [of _ service_zero])
        (simp add: start_read data_read assms(2) m f service_end_read keep_zero)
  next
    case (Some pr)
    then have "qtext q \<noteq> ''service''" using assms by (simp add: qtext_service)
    from end_read [OF this, where ss = "[]"] show ?thesis unfolding leaf_events services_read_def
      by (intro exI [of _ "''service''"] exI [of _ service_zero]) (simp add: start_read data_read assms(2) m f)
  qed
qed

lemma fields_are_read:
  "tree_ok t \<Longrightarrow> no_service t \<Longrightarrow> fields_read d (\<lambda>n. tree_text n t) (fold igd_event (xml_events t) d)"
  "kids_ok ks \<Longrightarrow> no_service_kids ks \<Longrightarrow>
     fields_read d (\<lambda>n. kids_last n ks) (fold igd_event (kids_events ks) d)"
proof (induction t and ks arbitrary: d and d)
  case (Leaf q as t)
  then show ?case by (intro leaf_fields) simp_all
next
  case (Node q as g t ks)
  let ?d1 = "IGDstartelt (snd q) d"
  have 1: "fields_read ?d1 (\<lambda>n. tree_text n t) (fold igd_event (xml_events t) ?d1)"
    by (rule Node.IH(1)) (use Node.prems in simp_all)
  have 2: "fields_read (fold igd_event (xml_events t) ?d1) (\<lambda>n. kids_last n ks)
      (fold igd_event (kids_events ks) (fold igd_event (xml_events t) ?d1))"
    by (rule Node.IH(2)) (use Node.prems in simp_all)
  obtain c where c: "fold igd_event (kids_events ks) (fold igd_event (xml_events t) ?d1) =
      rest_read c (service_texts (\<lambda>n x. kids_last n ks (tree_text n t x)) (ig_tmp ?d1)) (kids_last ''URLBase'' ks (tree_text ''URLBase'' t (ig_urlbase ?d1)))
        (kids_last ''presentationURL'' ks (tree_text ''presentationURL'' t (ig_presentationurl ?d1))) ?d1"
    using fields_read_trans [OF 1 2] unfolding fields_read_def by blast
  have "qtext q \<noteq> ''service''" using Node.prems by (simp add: qtext_service)
  from end_read [OF this, where ss = "[]"] show ?case
    unfolding node_events fields_read_def c using Node.prems
    by (intro exI [of _ c]) (simp add: start_read service_texts_def)
next
  case (Last g)
  then show ?case unfolding fields_read_def by (intro exI [of _ "ig_cureltname d"]) (simp add: rest_read_def service_texts_def)
next
  case (Kid g t ks)
  have 1: "fields_read d (\<lambda>n. tree_text n t) (fold igd_event (xml_events t) d)"
    by (rule Kid.IH(1)) (use Kid.prems in simp_all)
  have 2: "fields_read (fold igd_event (xml_events t) d) (\<lambda>n. kids_last n ks)
      (fold igd_event (kids_events ks) (fold igd_event (xml_events t) d))"
    by (rule Kid.IH(2)) (use Kid.prems in simp_all)
  show ?case using fields_read_trans [OF 1 2] by simp
qed


lemma services_are_read:
  "tree_ok t \<Longrightarrow> services_ok t \<Longrightarrow>
     services_read d (tree_services t) (\<lambda>n. tree_text n t) (fold igd_event (xml_events t) d)"
  "kids_ok ks \<Longrightarrow> services_ok_kids ks \<Longrightarrow>
     services_read d (kids_services ks) (\<lambda>n. kids_last n ks) (fold igd_event (kids_events ks) d)"
proof (induction t and ks arbitrary: d and d)
  case (Leaf q as t)
  show ?case
  proof (cases "snd q = ''service''")
    case True
    then show ?thesis using leaf_service [of q d "as" t] Leaf.prems unfolding tree_services.simps tree_ok.simps by blast
  next
    case False
    then have "fields_read d (\<lambda>n. tree_text n (Leaf q as t)) (fold igd_event (xml_events (Leaf q as t)) d)"
      using Leaf by (intro leaf_fields) simp_all
    then show ?thesis unfolding fields_read_def services_read_def tree_services.simps fold.simps id_apply by blast
  qed
next
  case (Node q as g t ks)
  let ?d1 = "IGDstartelt (snd q) d"
  let ?d2 = "fold igd_event (kids_events ks) (fold igd_event (xml_events t) ?d1)"
  show ?case
  proof (cases "snd q = ''service''")
    case True
    have "fields_read ?d1 (\<lambda>n. tree_text n t) (fold igd_event (xml_events t) ?d1)"
      "fields_read (fold igd_event (xml_events t) ?d1) (\<lambda>n. kids_last n ks) ?d2"
      by (rule fields_are_read; use Node.prems True in simp)+
    from fields_read_trans [OF this] obtain c where c: "?d2 =
        rest_read c (service_texts (\<lambda>n x. kids_last n ks (tree_text n t x)) service_zero) (kids_last ''URLBase'' ks (tree_text ''URLBase'' t (ig_urlbase d)))
          (kids_last ''presentationURL'' ks (tree_text ''presentationURL'' t (ig_presentationurl d))) (deeper d)"
      unfolding fields_read_def by (auto simp: start_read True)
    show ?thesis
    proof (cases "fst q")
      case None
      then have "qtext q = ''service''" using True Node.prems by (simp add: qtext_service)
      then show ?thesis unfolding node_events services_read_def c
        by (intro exI [of _ c] exI [of _ "service_texts (\<lambda>n x. kids_last n ks (tree_text n t x)) service_zero"]) (simp add: service_end_read True None)
    next
      case (Some pr)
      then have "qtext q \<noteq> ''service''" using Node.prems by (simp add: qtext_service)
      from end_read [OF this, where ss = "[]"] show ?thesis unfolding node_events services_read_def c
        by (intro exI [of _ c] exI [of _ "service_texts (\<lambda>n x. kids_last n ks (tree_text n t x)) service_zero"]) (simp add: True Some)
    qed
  next
    case False
    have 1: "services_read ?d1 (tree_services t) (\<lambda>n. tree_text n t) (fold igd_event (xml_events t) ?d1)"
      by (rule Node.IH(1)) (use Node.prems False in simp_all)
    have 2: "services_read (fold igd_event (xml_events t) ?d1) (kids_services ks) (\<lambda>n. kids_last n ks) ?d2"
      by (rule Node.IH(2)) (use Node.prems False in simp_all)
    obtain c s where c: "?d2 = rest_read c s (kids_last ''URLBase'' ks (tree_text ''URLBase'' t (ig_urlbase ?d1)))
        (kids_last ''presentationURL'' ks (tree_text ''presentationURL'' t (ig_presentationurl ?d1)))
        (fold keep_service (tree_services t @ kids_services ks) ?d1)"
      using services_read_trans [OF 1 2] unfolding services_read_def by blast
    have "qtext q \<noteq> ''service''" using Node.prems False by (simp add: qtext_service)
    note e = end_read [OF this, of c s _ _ "tree_services t @ kids_services ks"]
    have "fold igd_event (xml_events (Node q as g t ks)) d =
        rest_read c s (kids_last ''URLBase'' ks (tree_text ''URLBase'' t (ig_urlbase d)))
          (kids_last ''presentationURL'' ks (tree_text ''presentationURL'' t (ig_presentationurl d)))
          (fold keep_service (tree_services t @ kids_services ks) d)"
      unfolding node_events unfolding c unfolding start_read fold_keep_rest rest_rest rest_sel deeper_sel by (rule e)
    then show ?thesis unfolding services_read_def
      by (intro exI [of _ c] exI [of _ s]) (simp only: tree_services.simps tree_text.simps False if_False)
  qed
next
  case (Last g)
  then show ?case unfolding services_read_def
    by (intro exI [of _ "ig_cureltname d"] exI [of _ "ig_tmp d"]) (simp add: rest_read_def)
next
  case (Kid g t ks)
  have 1: "services_read d (tree_services t) (\<lambda>n. tree_text n t) (fold igd_event (xml_events t) d)"
    by (rule Kid.IH(1)) (use Kid.prems in simp_all)
  have 2: "services_read (fold igd_event (xml_events t) d) (kids_services ks) (\<lambda>n. kids_last n ks)
      (fold igd_event (kids_events ks) (fold igd_event (xml_events t) d))"
    by (rule Kid.IH(2)) (use Kid.prems in simp_all)
  show ?case using services_read_trans [OF 1 2] by simp
qed

text \<open>Which of the services are kept, and where.\<close>

definition is_CIF :: "igd_service \<Rightarrow> bool" where "is_CIF s \<longleftrightarrow> begins CIF_TYPE (is_servicetype s)"
definition is_6FC :: "igd_service \<Rightarrow> bool" where "is_6FC s \<longleftrightarrow> begins IPV6_TYPE (is_servicetype s)"
definition is_WAN :: "igd_service \<Rightarrow> bool" where
  "is_WAN s \<longleftrightarrow> begins WANIP_TYPE (is_servicetype s) \<or> begins WANPPP_TYPE (is_servicetype s)"

definition last_or :: "'a \<Rightarrow> 'a list \<Rightarrow> 'a" where
  "last_or x xs = (if xs = [] then x else last xs)"

lemma begins_both: "begins a s \<Longrightarrow> begins b s \<Longrightarrow> length a \<le> length b \<Longrightarrow> begins a b"
  unfolding begins_def by (metis min.absorb1 take_take)

lemma kinds_exclude:
  "is_CIF s \<Longrightarrow> \<not> is_6FC s" "is_CIF s \<Longrightarrow> \<not> is_WAN s" "is_6FC s \<Longrightarrow> \<not> is_WAN s" "is_WAN s \<Longrightarrow> is_servicetype s \<noteq> []"
  unfolding is_CIF_def is_6FC_def is_WAN_def
  using begins_both [of CIF_TYPE "is_servicetype s" IPV6_TYPE] begins_both [of IPV6_TYPE "is_servicetype s" CIF_TYPE]
    begins_both [of WANIP_TYPE "is_servicetype s" CIF_TYPE] begins_both [of WANPPP_TYPE "is_servicetype s" CIF_TYPE]
    begins_both [of WANIP_TYPE "is_servicetype s" IPV6_TYPE] begins_both [of WANPPP_TYPE "is_servicetype s" IPV6_TYPE]
  by (auto simp: begins_def CIF_TYPE_def IPV6_TYPE_def WANIP_TYPE_def WANPPP_TYPE_def)

lemma last_or_Cons: "last_or x (y # ys) = last_or y ys"
  by (simp add: last_or_def)

lemma kept_services:
  "ig_CIF (fold keep_service ss d) = last_or (ig_CIF d) (filter is_CIF ss)"
  "ig_IPv6FC (fold keep_service ss d) = last_or (ig_IPv6FC d) (filter is_6FC ss)"
  "is_servicetype (ig_first d) \<noteq> [] \<Longrightarrow> ig_first (fold keep_service ss d) = ig_first d"
  "is_servicetype (ig_first d) \<noteq> [] \<Longrightarrow> ig_second (fold keep_service ss d) = last_or (ig_second d) (filter is_WAN ss)"
  by (induction ss arbitrary: d)
    (auto simp: keep_service_def last_or_Cons kinds_exclude is_CIF_def [symmetric] is_6FC_def [symmetric] is_WAN_def [symmetric],
      simp_all add: last_or_def)

lemma kept_connections:
  "is_servicetype (ig_first d) = [] \<Longrightarrow> ig_first (fold keep_service ss d) = (case filter is_WAN ss of [] \<Rightarrow> ig_first d | s # _ \<Rightarrow> s)"
  "is_servicetype (ig_first d) = [] \<Longrightarrow> ig_second (fold keep_service ss d) = last_or (ig_second d) (tl (filter is_WAN ss))"
proof (induction ss arbitrary: d)
  case (Cons s ss)
  have k: "keep_service s d = (if is_CIF s then d\<lparr>ig_CIF := s\<rparr> else if is_6FC s then d\<lparr>ig_IPv6FC := s\<rparr>
      else if is_WAN s then d\<lparr>ig_first := s\<rparr> else d)" if "is_servicetype (ig_first d) = []" for d
    using that by (simp add: keep_service_def is_CIF_def is_6FC_def is_WAN_def)
  { case 1
    then show ?case using Cons.IH(1) kept_services(3) [of "d\<lparr>ig_first := s\<rparr>" ss] kinds_exclude [of s]
      by (simp add: k split: list.split) }
  { case 2
    then show ?case using Cons.IH(2) kept_services(4) [of "d\<lparr>ig_first := s\<rparr>" ss] kinds_exclude [of s] by (simp add: k) }
qed (simp_all add: last_or_def)

lemma description_is_read:
  assumes "prolog_ok pre" "tree_ok t" "text_ok post" "services_ok t"
  shows "\<exists>d. parserootdesc (pre @ xml_text t @ post @ mem) (length (pre @ xml_text t @ post)) igd_zero = Inr d \<and>
    ig_CIF d = last_or service_zero (filter is_CIF (tree_services t)) \<and>
    ig_IPv6FC d = last_or service_zero (filter is_6FC (tree_services t)) \<and>
    ig_first d = (case filter is_WAN (tree_services t) of [] \<Rightarrow> service_zero | s # _ \<Rightarrow> s) \<and>
    ig_second d = last_or service_zero (tl (filter is_WAN (tree_services t))) \<and>
    ig_urlbase d = tree_text ''URLBase'' t [] \<and> ig_presentationurl d = tree_text ''presentationURL'' t []"
proof -
  have z: "is_servicetype (ig_first igd_zero) = []" "ig_CIF igd_zero = service_zero" "ig_IPv6FC igd_zero = service_zero"
    "ig_first igd_zero = service_zero" "ig_second igd_zero = service_zero" "ig_urlbase igd_zero = []" "ig_presentationurl igd_zero = []"
    by (simp_all add: igd_zero_def service_zero_def)
  obtain c s where "fold igd_event (xml_events t) igd_zero = rest_read c s (tree_text ''URLBase'' t [])
      (tree_text ''presentationURL'' t []) (fold keep_service (tree_services t) igd_zero)"
    using services_are_read(1) [OF assms(2,4), of igd_zero] unfolding services_read_def z by blast
  then show ?thesis
    unfolding parserootdesc_def document_parsed [OF assms(1-3)] rbind_Inr
    by (simp add: kept_services kept_connections [OF z(1)] z cong: list.case_cong)
qed

end
