(* ===== verification/UpnpReply.thy ===== *)
theory UpnpReply
  imports UpnpRead TextFmt
begin

text \<open>
  The values of a SOAP reply and the mappings of a list of ports, against the documents that hold
  them, with the properties of the readers of \<open>UpnpXml\<close>.
\<close>

subsection \<open>The values of a reply\<close>

definition PORT_LISTING :: string where "PORT_LISTING = ''NewPortListing''"

text \<open>The reference: a leaf is a value, by its name and text, cut to the members; a port listing is kept whole.\<close>

primrec tree_values :: "xml_tree \<Rightarrow> (string \<times> string) list" and kids_values :: "xml_kids \<Rightarrow> (string \<times> string) list" where
  "tree_values (Leaf q as t) =
     (if member NV_NAME (snd q) = PORT_LISTING then [] else [(member NV_NAME (snd q), member NV_VALUE t)])"
| "tree_values (Node q as g t ks) = tree_values t @ kids_values ks"
| "kids_values (Last g) = []"
| "kids_values (Kid g t ks) = tree_values t @ kids_values ks"

primrec tree_listing :: "xml_tree \<Rightarrow> string option \<Rightarrow> string option" and kids_listing :: "xml_kids \<Rightarrow> string option \<Rightarrow> string option" where
  "tree_listing (Leaf q as t) x = (if member NV_NAME (snd q) = PORT_LISTING \<and> t \<noteq> [] then Some t else x)"
| "tree_listing (Node q as g t ks) x = kids_listing ks (tree_listing t x)"
| "kids_listing (Last g) x = x"
| "kids_listing (Kid g t ks) x = kids_listing ks (tree_listing t x)"

lemma fold_nv_atts [simp]: "fold (nv_event alloc) (map att_event as) d = d"
  by (induction "as" arbitrary: d) (simp_all add: att_event_def)

definition values_read :: "nv_data \<Rightarrow> (string \<times> string) list \<Rightarrow> (string option \<Rightarrow> string option) \<Rightarrow> nv_data \<Rightarrow> bool" where
  "values_read d vs l d' \<longleftrightarrow> (\<exists>c. d' = \<lparr>nv_list = rev vs @ nv_list d, nv_curelt = c, nv_portListing = l (nv_portListing d),
     nv_topelt = False, nv_cdata = None\<rparr>)"

lemma values_read_trans:
  assumes "values_read d vs l d'" "values_read d' vs' l' d''"
  shows "values_read d (vs @ vs') (\<lambda>x. l' (l x)) d''"
  using assms by (auto simp: values_read_def)

lemma leaf_values:
  assumes "\<And>n. alloc n"
  shows "values_read d (tree_values (Leaf q as t)) (tree_listing (Leaf q as t)) (fold (nv_event alloc) (xml_events (Leaf q as t)) d)"
  using assms unfolding values_read_def
  by (intro exI [of _ "member NV_NAME (snd q)"])
    (simp add: NameValueParserStartElt_def NameValueParserGetData_def NameValueParserEndElt_def Let_def PORT_LISTING_def member_def)

text \<open>Behind an element the end of another one changes nothing.\<close>

definition settled :: "nv_data \<Rightarrow> bool" where
  "settled d \<longleftrightarrow> \<not> nv_topelt d \<and> nv_cdata d = None"

lemma values_settled: "values_read d vs l d' \<Longrightarrow> settled d'"
  by (auto simp: values_read_def settled_def)

lemma values_end: "values_read d vs l d' \<Longrightarrow> NameValueParserEndElt alloc n d' = d'"
  by (auto simp: values_read_def NameValueParserEndElt_def)

lemma start_values: "values_read (NameValueParserStartElt n d) vs l d' = values_read d vs l d'"
  by (simp add: values_read_def NameValueParserStartElt_def)

lemma values_are_read:
  assumes "\<And>n. alloc n"
  shows "values_read d (tree_values t) (tree_listing t) (fold (nv_event alloc) (xml_events t) d)"
    and "settled d \<Longrightarrow> values_read d (kids_values ks) (kids_listing ks) (fold (nv_event alloc) (kids_events ks) d)"
proof (induction t and ks arbitrary: d and d)
  case (Leaf q as t)
  show ?case by (rule leaf_values [OF assms])
next
  case (Node q as g t ks)
  let ?d1 = "NameValueParserStartElt (snd q) d"
  let ?d2 = "fold (nv_event alloc) (xml_events t) ?d1"
  have 1: "values_read ?d1 (tree_values t) (tree_listing t) ?d2" by (rule Node.IH)
  then have 2: "values_read ?d2 (kids_values ks) (kids_listing ks) (fold (nv_event alloc) (kids_events ks) ?d2)"
    by (intro Node.IH(2) values_settled)
  note 3 = values_read_trans [OF 1 2]
  show ?case using 3 values_end [OF 3, of alloc "qtext q"] by (simp add: start_values)
next
  case (Last g)
  then show ?case unfolding settled_def values_read_def by (intro exI [of _ "nv_curelt d"]) simp
next
  case (Kid g t ks)
  have 1: "values_read d (tree_values t) (tree_listing t) (fold (nv_event alloc) (xml_events t) d)" by (rule Kid.IH)
  then have 2: "values_read (fold (nv_event alloc) (xml_events t) d) (kids_values ks) (kids_listing ks)
      (fold (nv_event alloc) (kids_events ks) (fold (nv_event alloc) (xml_events t) d))"
    by (intro Kid.IH(2) values_settled)
  show ?case using values_read_trans [OF 1 2] by simp
qed

lemma nv_lookup_map_of: "nv_lookup nvs name = map_of nvs name"
  by (induction nvs) auto

lemma reply_is_read:
  assumes "prolog_ok pre" "tree_ok t" "text_ok post" "\<And>n. alloc n"
  shows "\<exists>d. ParseNameValue alloc (pre @ xml_text t @ post @ mem) (length (pre @ xml_text t @ post)) = Inr d \<and>
    (\<forall>name. GetValueFromNameValueList d name = map_of (rev (tree_values t)) name) \<and> nv_portListing d = tree_listing t None"
proof -
  obtain c where "fold (nv_event alloc) (xml_events t) nv_zero = \<lparr>nv_list = rev (tree_values t) @ nv_list nv_zero, nv_curelt = c,
      nv_portListing = tree_listing t (nv_portListing nv_zero), nv_topelt = False, nv_cdata = None\<rparr>"
    using values_are_read(1) [where alloc = alloc, OF assms(4), of nv_zero t] unfolding values_read_def by blast
  then show ?thesis
    unfolding ParseNameValue_def document_parsed [OF assms(1-3)] rbind_Inr
    by (simp add: GetValueFromNameValueList_def nv_lookup_map_of nv_zero_def)
qed

subsection \<open>A list of ports\<close>

lemma atoui_digits: "list_all isdigit ds \<Longrightarrow> atoui_from ds r = r * 10 ^ length ds + of_nat (digits_val 10 ds)"
proof (induction ds rule: rev_induct)
  case (snoc c ds)
  have app: "list_all isdigit xs \<Longrightarrow> atoui_from (xs @ ys) r = atoui_from ys (atoui_from xs r)" for xs ys r
    by (induction xs arbitrary: r) auto
  show ?case using snoc by (simp add: app digits_val_snoc digit_val_def algebra_simps)
qed (simp add: digits_val_def)

lemma dec_text_short: "n < 10 ^ k \<Longrightarrow> 0 < k \<Longrightarrow> length (dec_text n) \<le> k"
proof (induction k arbitrary: n)
  case (Suc k)
  show ?case
  proof (cases "n < 10 \<or> k = 0")
    case True
    then have "n < 10" using Suc.prems by auto
    then show ?thesis by (simp add: dec_text.simps [of n])
  next
    case False
    then have "n div 10 < 10 ^ k" using Suc.prems by (simp add: less_mult_imp_div_less mult.commute)
    then show ?thesis using Suc.IH [of "n div 10"] False by (simp add: dec_text.simps [of n])
  qed
qed simp

lemma atoui_dec:
  assumes "n < 2 ^ 64"
  shows "atoui (take 63 (dec_text n)) = of_nat n"
proof -
  have "n < 10 ^ 63" using assms by (rule less_le_trans) simp
  then have "length (dec_text n) \<le> 63" by (rule dec_text_short) simp
  then show ?thesis using atoui_digits [of "dec_text n" 0] dec_text_reads [of n] by (simp add: atoui_def)
qed

text \<open>The document a gateway sends for its mappings: the prefix, the gaps, the attributes of the list are its own.\<close>

definition mapping_values :: "port_mapping \<Rightarrow> (string \<times> string) list" where
  "mapping_values m =
     [(''NewRemoteHost'', pm_remoteHost m), (''NewExternalPort'', dec_text (unat (pm_externalPort m))),
      (''NewProtocol'', pm_protocol m), (''NewInternalPort'', dec_text (unat (pm_internalPort m))),
      (''NewInternalClient'', pm_internalClient m), (''NewEnabled'', dec_text (unat (pm_enabled m))),
      (''NewDescription'', pm_description m), (''NewLeaseTime'', dec_text (unat (pm_leaseTime m)))]"

primrec leaves :: "string option \<Rightarrow> string \<Rightarrow> (string \<times> string) list \<Rightarrow> xml_kids" where
  "leaves pr g [] = Last g"
| "leaves pr g (v # vs) = Kid g (Leaf (pr, fst v) [] (snd v)) (leaves pr g vs)"

definition entry :: "string option \<Rightarrow> string \<Rightarrow> port_mapping \<Rightarrow> xml_tree" where
  "entry pr g m = (case mapping_values m of v # vs \<Rightarrow>
     Node (pr, ''PortMappingEntry'') [] g (Leaf (pr, fst v) [] (snd v)) (leaves pr g vs))"

primrec entries :: "string option \<Rightarrow> string \<Rightarrow> port_mapping list \<Rightarrow> xml_kids" where
  "entries pr g [] = Last g"
| "entries pr g (m # ms) = Kid g (entry pr g m) (entries pr g ms)"

fun port_list :: "string option \<Rightarrow> (string \<times> string) list \<Rightarrow> string \<Rightarrow> port_mapping list \<Rightarrow> xml_tree" where
  "port_list pr as g [] = Leaf (pr, ''PortMappingList'') as g"
| "port_list pr as g (m # ms) = Node (pr, ''PortMappingList'') as g (entry pr g m) (entries pr g ms)"

definition plain_text :: "string \<Rightarrow> bool" where
  "plain_text t \<longleftrightarrow> CHR ''<'' \<notin> set t \<and> NUL \<notin> set t"

definition mapping_ok :: "port_mapping \<Rightarrow> bool" where
  "mapping_ok m \<longleftrightarrow> plain_text (pm_remoteHost m) \<and> length (pm_remoteHost m) \<le> 63 \<and>
     plain_text (pm_internalClient m) \<and> length (pm_internalClient m) \<le> 63 \<and>
     plain_text (pm_description m) \<and> length (pm_description m) \<le> 63 \<and>
     plain_text (pm_protocol m) \<and> length (pm_protocol m) \<le> 3"

lemma fold_port_atts [simp]: "fold (port_event alloc) (map att_event as) d = d"
  by (induction "as" arbitrary: d) (simp_all add: att_event_def)

text \<open>The element of a name other than that of an entry, and what its text sets.\<close>

definition elt_of :: "string \<Rightarrow> port_elt" where
  "elt_of n = (case find (\<lambda>x. snd x = n) port_elements of None \<Rightarrow> PortMappingEltNone | Some x \<Rightarrow> fst x)"

definition set_text :: "string \<Rightarrow> string \<Rightarrow> port_mapping \<Rightarrow> port_mapping" where
  "set_text n t m = (if t = [] then m else port_set (elt_of n) t m)"

lemma leaf_port:
  assumes "elt_of n \<noteq> PortMappingEntry" "pd_list d = m # ms"
  shows "fold (port_event alloc) (xml_events (Leaf (pr, n) as t)) d =
    \<lparr>pd_list = set_text n t m # ms, pd_curelt = PortMappingEltNone\<rparr>"
  using assms by (simp add: port_startelt_def elt_of_def set_text_def Let_def)

lemma leaves_port:
  assumes "list_all (\<lambda>v. elt_of (fst v) \<noteq> PortMappingEntry) vs" "pd_list d = m # ms" "pd_curelt d = PortMappingEltNone"
  shows "fold (port_event alloc) (kids_events (leaves pr g vs)) d =
    \<lparr>pd_list = fold (\<lambda>v. set_text (fst v) (snd v)) vs m # ms, pd_curelt = PortMappingEltNone\<rparr>"
  using assms
proof (induction vs arbitrary: d m)
  case (Cons v vs)
  have "fold (port_event alloc) (xml_events (Leaf (pr, fst v) [] (snd v))) d =
      \<lparr>pd_list = set_text (fst v) (snd v) m # ms, pd_curelt = PortMappingEltNone\<rparr>"
    by (rule leaf_port) (use Cons.prems in simp_all)
  then show ?case using Cons.IH Cons.prems by (simp del: xml_events.simps)
qed simp

lemma elts:
  "elt_of ''NewRemoteHost'' = NewRemoteHost" "elt_of ''NewExternalPort'' = NewExternalPort" "elt_of ''NewProtocol'' = NewProtocol"
  "elt_of ''NewInternalPort'' = NewInternalPort" "elt_of ''NewInternalClient'' = NewInternalClient"
  "elt_of ''NewEnabled'' = NewEnabled" "elt_of ''NewDescription'' = NewDescription" "elt_of ''NewLeaseTime'' = NewLeaseTime"
  "elt_of ''PortMappingEntry'' = PortMappingEntry" "elt_of ''PortMappingList'' = PortMappingEltNone"
  by (simp_all add: elt_of_def port_elements_def)

lemma plain_cut: "plain_text t \<Longrightarrow> length t \<le> n \<Longrightarrow> c_str (take n t) = t"
  using member_short [of t n] by (simp add: member_def plain_text_def)

lemma values_set:
  assumes "mapping_ok m"
  shows "fold (\<lambda>v. set_text (fst v) (snd v)) (mapping_values m) mapping_zero = m"
proof -
  have n: "unat (w :: u16) < 2 ^ 64" "unat (b :: byte) < 2 ^ 64" "unat (x :: 64 word) < 2 ^ 64" for w b x
    by (rule less_le_trans [OF unsigned_less]; simp)+
  have down: "ucast (ucast w :: 64 word) = w" "ucast (ucast b :: 64 word) = b" for w :: u16 and b :: byte
    by (rule bit_word_eqI; auto simp: bit_simps)+
  have d: "dec_text k \<noteq> []" for k using dec_text_reads by simp
  note ok = assms [unfolded mapping_ok_def]
  have cut: "c_str (take 63 (pm_remoteHost m)) = pm_remoteHost m" "c_str (take 63 (pm_internalClient m)) = pm_internalClient m"
    "c_str (take 63 (pm_description m)) = pm_description m" "c_str (take 3 (pm_protocol m)) = pm_protocol m"
    by (rule plain_cut; use ok in simp)+
  have text1: "set_text ''NewRemoteHost'' (pm_remoteHost m) x = x\<lparr>pm_remoteHost := pm_remoteHost m\<rparr>"
    if "pm_remoteHost x = []" for x using that by (simp add: set_text_def elts port_set_def cut)
  have text2: "set_text ''NewInternalClient'' (pm_internalClient m) x = x\<lparr>pm_internalClient := pm_internalClient m\<rparr>"
    if "pm_internalClient x = []" for x using that by (simp add: set_text_def elts port_set_def cut)
  have text3: "set_text ''NewDescription'' (pm_description m) x = x\<lparr>pm_description := pm_description m\<rparr>"
    if "pm_description x = []" for x using that by (simp add: set_text_def elts port_set_def cut)
  have text4: "set_text ''NewProtocol'' (pm_protocol m) x = x\<lparr>pm_protocol := pm_protocol m\<rparr>"
    if "pm_protocol x = []" for x using that cut by (simp add: set_text_def elts port_set_def min_def)
  have num: "set_text ''NewExternalPort'' (dec_text (unat (pm_externalPort m))) x = x\<lparr>pm_externalPort := pm_externalPort m\<rparr>"
    "set_text ''NewInternalPort'' (dec_text (unat (pm_internalPort m))) x = x\<lparr>pm_internalPort := pm_internalPort m\<rparr>"
    "set_text ''NewEnabled'' (dec_text (unat (pm_enabled m))) x = x\<lparr>pm_enabled := pm_enabled m\<rparr>"
    "set_text ''NewLeaseTime'' (dec_text (unat (pm_leaseTime m))) x = x\<lparr>pm_leaseTime := pm_leaseTime m\<rparr>" for x
    by (simp_all add: set_text_def elts port_set_def atoui_dec [OF n(1)] atoui_dec [OF n(2)] atoui_dec [OF n(3)] d down)
  show ?thesis
    by (simp add: mapping_values_def mapping_zero_def text1 text2 text3 text4 num)
qed

lemma mapping_elts: "list_all (\<lambda>v. elt_of (fst v) \<noteq> PortMappingEntry) (mapping_values m)"
  by (simp add: mapping_values_def elts)

lemma entry_port:
  assumes "mapping_ok m" "\<And>n. alloc n"
  shows "fold (port_event alloc) (xml_events (entry pr g m)) d = \<lparr>pd_list = m # pd_list d, pd_curelt = PortMappingEltNone\<rparr>"
proof -
  let ?d1 = "\<lparr>pd_list = mapping_zero # pd_list d, pd_curelt = PortMappingEntry\<rparr>"
  obtain v vs where vs: "mapping_values m = v # vs" by (simp add: mapping_values_def)
  have start: "port_startelt alloc ''PortMappingEntry'' d = ?d1"
    using assms(2) by (simp add: port_startelt_def elt_of_def [symmetric] elts Let_def)
  have ve: "elt_of (fst v) \<noteq> PortMappingEntry" "list_all (\<lambda>v. elt_of (fst v) \<noteq> PortMappingEntry) vs"
    using mapping_elts [of m] vs by simp_all
  have one: "fold (port_event alloc) (xml_events (Leaf (pr, fst v) [] (snd v))) ?d1 =
      \<lparr>pd_list = set_text (fst v) (snd v) mapping_zero # pd_list d, pd_curelt = PortMappingEltNone\<rparr>"
    by (rule leaf_port [OF ve(1)]) simp
  have "fold (port_event alloc) (kids_events (leaves pr g vs)) \<lparr>pd_list = set_text (fst v) (snd v) mapping_zero # pd_list d, pd_curelt = PortMappingEltNone\<rparr> =
      \<lparr>pd_list = fold (\<lambda>v. set_text (fst v) (snd v)) vs (set_text (fst v) (snd v) mapping_zero) # pd_list d, pd_curelt = PortMappingEltNone\<rparr>"
    by (rule leaves_port [OF ve(2)]) simp_all
  moreover have "fold (\<lambda>v. set_text (fst v) (snd v)) vs (set_text (fst v) (snd v) mapping_zero) = m"
    using values_set [OF assms(1)] by (simp add: vs)
  ultimately show ?thesis using start one unfolding entry_def vs by (simp del: xml_events.simps(1))
qed

lemma entries_port:
  assumes "list_all mapping_ok ms" "\<And>n. alloc n" "pd_curelt d = PortMappingEltNone"
  shows "fold (port_event alloc) (kids_events (entries pr g ms)) d =
    \<lparr>pd_list = rev ms @ pd_list d, pd_curelt = PortMappingEltNone\<rparr>"
  using assms(1,3)
proof (induction ms arbitrary: d)
  case (Cons m ms)
  have "fold (port_event alloc) (xml_events (entry pr g m)) d = \<lparr>pd_list = m # pd_list d, pd_curelt = PortMappingEltNone\<rparr>"
    by (rule entry_port) (use Cons.prems assms(2) in simp_all)
  then show ?case using Cons.IH Cons.prems by simp
qed simp

lemma ports_are_read:
  assumes "list_all mapping_ok ms" "\<And>n. alloc n"
  shows "pd_list (fold (port_event alloc) (xml_events (port_list pr as g ms)) \<lparr>pd_list = [], pd_curelt = e\<rparr>) = rev ms"
proof (cases ms)
  case Nil
  then show ?thesis by (simp add: port_startelt_def elt_of_def [symmetric] elts)
next
  case (Cons m ms')
  have s: "port_startelt alloc ''PortMappingList'' \<lparr>pd_list = [], pd_curelt = e\<rparr> = \<lparr>pd_list = [], pd_curelt = PortMappingEltNone\<rparr>"
    by (simp add: port_startelt_def elt_of_def [symmetric] elts)
  show ?thesis
    using assms Cons entry_port [where alloc = alloc and m = m and pr = pr and g = g and d = "\<lparr>pd_list = [], pd_curelt = PortMappingEltNone\<rparr>"]
      entries_port [where alloc = alloc and ms = ms' and pr = pr and g = g and d = "\<lparr>pd_list = [m], pd_curelt = PortMappingEltNone\<rparr>"]
    by (simp add: s)
qed

text \<open>The document is one that the parser reads.\<close>

lemma digits_plain: "text_ok (dec_text n)"
  using dec_text_reads [of n] by (auto simp: text_ok_def list_all_iff isdigit_def code_def)

lemma values_plain:
  assumes "mapping_ok m"
  shows "list_all (\<lambda>v. text_ok (snd v) \<and> xname_ok (fst v)) (mapping_values m)"
proof -
  have "list_all (\<lambda>v. xname_ok (fst v)) (mapping_values m)"
    by (simp add: mapping_values_def xname_ok_def name_char_def xspace_def)
  moreover have "list_all (\<lambda>v. text_ok (snd v)) (mapping_values m)"
    using assms by (simp add: mapping_values_def mapping_ok_def plain_text_def digits_plain) (simp add: text_ok_def)
  ultimately show ?thesis by (auto simp: list_all_iff)
qed

lemma leaves_ok: "list_all (\<lambda>v. text_ok (snd v) \<and> xname_ok (fst v)) vs \<Longrightarrow> text_ok g \<Longrightarrow>
    (\<And>p. pr = Some p \<Longrightarrow> xname_ok p) \<Longrightarrow> kids_ok (leaves pr g vs)"
  by (induction vs) (auto simp: qname_ok_def split: option.splits)

lemma entry_ok:
  assumes "mapping_ok m" "text_ok g" "\<And>p. pr = Some p \<Longrightarrow> xname_ok p"
  shows "tree_ok (entry pr g m)"
proof -
  obtain v vs where vs: "mapping_values m = v # vs" by (simp add: mapping_values_def)
  have "qname_ok (pr, n)" if "xname_ok n" for n using that assms(3) by (auto simp: qname_ok_def split: option.splits)
  moreover have "xname_ok ''PortMappingEntry''" by (simp add: xname_ok_def name_char_def xspace_def)
  ultimately show ?thesis using values_plain [OF assms(1)] assms(2,3) leaves_ok [of vs g pr] by (simp add: entry_def vs)
qed

lemma port_list_ok:
  assumes "list_all mapping_ok ms" "text_ok g" "list_all att_ok as" "\<And>p. pr = Some p \<Longrightarrow> xname_ok p"
  shows "tree_ok (port_list pr as g ms)"
proof -
  have k: "kids_ok (entries pr g ms')" if "list_all mapping_ok ms'" for ms'
    using that assms(2,4) by (induction ms') (simp_all add: entry_ok)
  have "qname_ok (pr, ''PortMappingList'')"
    using assms(4) by (auto simp: qname_ok_def xname_ok_def name_char_def xspace_def split: option.splits)
  then show ?thesis using assms k by (cases ms) (simp_all add: entry_ok)
qed

subsection \<open>What the documents give\<close>

text \<open>
  C36. In the description of a gateway, in which no service lies inside a service, the parser finds the
  control of the common interface, the firewall control, the first connection and the last of the
  other connections, wherever they are, and the last URL base and presentation URL.  A service with
  a prefix is not among them, for the end of its element is not recognised.
\<close>

theorem description_read:
  assumes "prolog_ok pre" "tree_ok t" "text_ok post" "services_ok t"
  shows "\<exists>d. parserootdesc (pre @ xml_text t @ post @ mem) (length (pre @ xml_text t @ post)) igd_zero = Inr d \<and>
    ig_CIF d = last_or service_zero (filter is_CIF (tree_services t)) \<and>
    ig_IPv6FC d = last_or service_zero (filter is_6FC (tree_services t)) \<and>
    ig_first d = (case filter is_WAN (tree_services t) of [] \<Rightarrow> service_zero | s # _ \<Rightarrow> s) \<and>
    ig_second d = last_or service_zero (tl (filter is_WAN (tree_services t))) \<and>
    ig_urlbase d = tree_text ''URLBase'' t [] \<and> ig_presentationurl d = tree_text ''presentationURL'' t []"
  using assms by (rule description_is_read)

definition demo_service :: "string option \<Rightarrow> string \<Rightarrow> string \<Rightarrow> xml_tree" where
  "demo_service pr ty ctl = Node (pr, ''service'') [] [] (Leaf (None, ''serviceType'') [] ty)
     (Kid '' '' (Leaf (None, ''controlURL'') [] ctl) (Last []))"

definition demo_gateway :: xml_tree where
  "demo_gateway = Node (None, ''root'') [(''xmlns'', ''urn:x'')] [] (Leaf (None, ''URLBase'') [] ''http://10.0.0.1/'')
     (Kid [] (Node (None, ''device'') [] [] (demo_service None (WANPPP_TYPE @ ''1'') ''/ppp'')
       (Kid [] (demo_service (Some ''n'') (CIF_TYPE @ ''1'') ''/lost'')
       (Kid [] (demo_service None (WANIP_TYPE @ ''1'') ''/ip'')
       (Kid [] (demo_service None (CIF_TYPE @ ''1'') ''/cif'') (Last []))))) (Last []))"

theorem description_read_witness:
  "\<exists>d. parserootdesc (''<?xml?>'' @ xml_text demo_gateway @ [] @ []) (length (''<?xml?>'' @ xml_text demo_gateway @ [])) igd_zero = Inr d \<and>
    is_controlurl (ig_CIF d) = ''/cif'' \<and> is_controlurl (ig_first d) = ''/ppp'' \<and> is_controlurl (ig_second d) = ''/ip'' \<and>
    ig_urlbase d = ''http://10.0.0.1/''"
proof -
  have p: "prolog_ok ''<?xml?>''" by (simp add: prolog_ok_def text_ok_def)
  have t: "tree_ok demo_gateway" "text_ok []" "services_ok demo_gateway" by code_simp+
  have v: "is_controlurl (last_or service_zero (filter is_CIF (tree_services demo_gateway))) = ''/cif''"
    "is_controlurl (case filter is_WAN (tree_services demo_gateway) of [] \<Rightarrow> service_zero | s # _ \<Rightarrow> s) = ''/ppp''"
    "is_controlurl (last_or service_zero (tl (filter is_WAN (tree_services demo_gateway)))) = ''/ip''"
    "tree_text ''URLBase'' demo_gateway [] = ''http://10.0.0.1/''"
    by code_simp+
  show ?thesis using description_read [OF p t, of "[]"] v by metis
qed

text \<open>
  C37. A list of port mappings is read back from its document, the last mapping first, whatever the
  prefix, the attributes and the text between the elements are.
\<close>

theorem ports_read_back:
  assumes "prolog_ok pre" "list_all mapping_ok ms" "text_ok g" "list_all att_ok as" "\<And>p. pr = Some p \<Longrightarrow> xname_ok p"
    "text_ok post" "\<And>n. alloc n"
  shows "\<exists>d. ParsePortListing alloc (pre @ xml_text (port_list pr as g ms) @ post @ mem)
      (length (pre @ xml_text (port_list pr as g ms) @ post)) = Inr d \<and> pd_list d = rev ms"
proof -
  have t: "tree_ok (port_list pr as g ms)" by (rule port_list_ok) (use assms in simp_all)
  show ?thesis
    unfolding ParsePortListing_def document_parsed [OF assms(1) t assms(6)] rbind_Inr
    using ports_are_read [where alloc = alloc, OF assms(2,7)] by simp
qed

definition demo_mappings :: "port_mapping list" where
  "demo_mappings = [mapping_zero\<lparr>pm_externalPort := 2345, pm_internalPort := 2345, pm_protocol := ''TCP'',
     pm_internalClient := ''192.168.1.137'', pm_enabled := 1, pm_description := ''dooom'', pm_leaseTime := 345\<rparr>, mapping_zero]"

theorem ports_read_back_witness:
  "\<exists>d. ParsePortListing (\<lambda>_. True) ([] @ xml_text (port_list (Some ''p'') [(''xmlns:p'', ''urn:x'')] '' '' demo_mappings) @ [] @ [])
      (length ([] @ xml_text (port_list (Some ''p'') [(''xmlns:p'', ''urn:x'')] '' '' demo_mappings) @ [])) = Inr d \<and>
    pd_list d = rev demo_mappings"
proof (rule ports_read_back)
  show "prolog_ok []" by (simp add: prolog_ok_def text_ok_def)
  show "list_all mapping_ok demo_mappings"
    by (simp add: demo_mappings_def mapping_ok_def mapping_zero_def plain_text_def NUL_def)
  show "text_ok '' ''" "list_all att_ok [(''xmlns:p'', ''urn:x'')]" "text_ok []" by code_simp+
  show "xname_ok p" if "Some ''p'' = Some p" for p
  proof -
    have "xname_ok ''p''" by code_simp
    then show ?thesis using that by simp
  qed
qed simp

end
