(* ===== verification/SupportList.thy ===== *)
theory SupportList
  imports UdbState
begin

text \<open>
  The table of supported USB devices and its lookups, client/src/list.cpp with the constants of
  config.h.  Every lookup of the source is the same loop over the table; the loop is
  \<open>support_entry\<close>, and a lookup that finds nothing gives 0 (or NULL, here \<open>None\<close>).
\<close>

definition UDB_NET_UDP_SERVER_PORT :: u16 where "UDB_NET_UDP_SERVER_PORT = 5164"
definition UDB_BACKEND_STD :: byte where "UDB_BACKEND_STD = 0x01"
definition USB_CLASS_UVC :: byte where "USB_CLASS_UVC = 0x01"
definition USB_CLASS_CDC :: byte where "USB_CLASS_CDC = 0x02"
definition USB_CLASS_HID :: byte where "USB_CLASS_HID = 0x03"
definition NET_CLASS_UDP :: byte where "NET_CLASS_UDP = 0x04"
definition USB_XFER_CTRL :: byte where "USB_XFER_CTRL = 0x01"

record guid_t =
  data1 :: "64 word"
  data2 :: u16
  data3 :: u16
  data4 :: "byte list"

record support_dev =
  sl_vid :: u16
  sl_pid :: u16
  sl_model :: "byte list"
  sl_usbclass :: byte
  sl_backend :: byte
  sl_prot_size :: u16
  sl_selector :: byte
  sl_uintid :: byte
  sl_xfer_type :: byte
  sl_ep_write :: byte
  sl_ep_read :: byte
  sl_guid :: guid_t

definition NOVATEK_NT9856X_UVC_GUID :: guid_t where
  "NOVATEK_NT9856X_UVC_GUID =
     \<lparr>data1 = 0xc987a729, data2 = 0x59d3, data3 = 0x4569,
      data4 = [0x84, 0x67, 0xff, 0x08, 0x49, 0xfc, 0x19, 0xe8]\<rparr>"

definition usb_support_list :: "support_dev list" where
  "usb_support_list =
     [\<lparr>sl_vid = 0x0603, sl_pid = 0x8612, sl_model = ascii ''NovatekCam'', sl_usbclass = USB_CLASS_UVC,
       sl_backend = UDB_BACKEND_STD, sl_prot_size = 64, sl_selector = 0x01, sl_uintid = 0x05,
       sl_xfer_type = USB_XFER_CTRL, sl_ep_write = 0x00, sl_ep_read = 0x00,
       sl_guid = NOVATEK_NT9856X_UVC_GUID\<rparr>]"

subsection \<open>Lookups\<close>

definition support_entry :: "u16 \<Rightarrow> u16 \<Rightarrow> support_dev option" where
  "support_entry vid pid = find (\<lambda>d. vid = sl_vid d \<and> pid = sl_pid d) usb_support_list"

definition in_support_list :: "u16 \<Rightarrow> u16 \<Rightarrow> bool" where
  "in_support_list vid pid = (support_entry vid pid \<noteq> None)"

definition in_support_list_only_vid :: "u16 \<Rightarrow> bool" where
  "in_support_list_only_vid vid = list_ex (\<lambda>d. vid = sl_vid d) usb_support_list"

definition in_support_list_all :: "u16 \<Rightarrow> u16 \<Rightarrow> byte \<Rightarrow> bool" where
  "in_support_list_all vid pid usbclass =
     list_ex (\<lambda>d. vid = sl_vid d \<and> pid = sl_pid d \<and> usbclass = sl_usbclass d) usb_support_list"

definition get_support_list_guid :: "u16 \<Rightarrow> u16 \<Rightarrow> guid_t option" where
  "get_support_list_guid vid pid = map_option sl_guid (support_entry vid pid)"

definition get_support_list_usbclass :: "u16 \<Rightarrow> u16 \<Rightarrow> byte" where
  "get_support_list_usbclass vid pid =
     (case support_entry vid pid of Some d \<Rightarrow> sl_usbclass d | None \<Rightarrow> 0)"

definition get_support_list_backend :: "u16 \<Rightarrow> u16 \<Rightarrow> byte" where
  "get_support_list_backend vid pid =
     (case support_entry vid pid of Some d \<Rightarrow> sl_backend d | None \<Rightarrow> 0)"

definition get_support_list_prot_size :: "u16 \<Rightarrow> u16 \<Rightarrow> u16" where
  "get_support_list_prot_size vid pid =
     (case support_entry vid pid of Some d \<Rightarrow> sl_prot_size d | None \<Rightarrow> 0)"

definition get_support_list_selector :: "u16 \<Rightarrow> u16 \<Rightarrow> byte" where
  "get_support_list_selector vid pid =
     (case support_entry vid pid of Some d \<Rightarrow> sl_selector d | None \<Rightarrow> 0)"

definition get_support_list_unitid :: "u16 \<Rightarrow> u16 \<Rightarrow> byte" where
  "get_support_list_unitid vid pid =
     (case support_entry vid pid of Some d \<Rightarrow> sl_uintid d | None \<Rightarrow> 0)"

text \<open>%04x: four digits, more when the number needs them.\<close>

definition fmt_04x :: "nat \<Rightarrow> byte list" where
  "fmt_04x n = (let ds = hex_digits n in replicate (4 - length ds) 0x30 @ ds)"

definition print_support_list :: "byte list" where
  "print_support_list =
     concat (map (\<lambda>d. ascii ''vid 0x'' @ fmt_04x (unat (sl_vid d)) @ ascii '' pid 0x'' @
       fmt_04x (unat (sl_pid d)) @ ascii '': '' @ sl_model d @ [NEWLINE]) usb_support_list)"

subsection \<open>What the rest of the client relies on\<close>

lemma support_entry_eq:
  "support_entry vid pid =
     (if vid = 0x0603 \<and> pid = 0x8612 then Some (hd usb_support_list) else None)"
  by (simp add: support_entry_def usb_support_list_def)

text \<open>
  No device has the same number as vendor and product: the two numbers read from one stale
  buffer are never taken for a supported device.
\<close>

lemma in_support_list_same [simp]: "\<not> in_support_list v v"
  by (simp add: in_support_list_def support_entry_eq)

text \<open>Every device of the table is a UVC device: the two lists of the client agree.\<close>

lemma in_support_list_all_UVC: "in_support_list_all vid pid USB_CLASS_UVC = in_support_list vid pid"
  by (simp add: in_support_list_all_def in_support_list_def support_entry_def usb_support_list_def)

lemma in_support_list_vid: "in_support_list vid pid \<Longrightarrow> in_support_list_only_vid vid"
  by (auto simp: in_support_list_def support_entry_def in_support_list_only_vid_def usb_support_list_def
      split: if_splits)

lemma supported_get:
  assumes "in_support_list vid pid"
  shows "get_support_list_usbclass vid pid = USB_CLASS_UVC"
    and "get_support_list_backend vid pid = UDB_BACKEND_STD"
    and "get_support_list_prot_size vid pid = 64"
    and "get_support_list_selector vid pid = 1"
    and "get_support_list_unitid vid pid = 5"
  using assms
  by (simp_all add: in_support_list_def support_entry_eq get_support_list_usbclass_def
      get_support_list_backend_def get_support_list_prot_size_def get_support_list_selector_def
      get_support_list_unitid_def usb_support_list_def split: if_splits)

lemma unsupported_get:
  assumes "\<not> in_support_list vid pid"
  shows "get_support_list_guid vid pid = None"
    and "get_support_list_usbclass vid pid = 0"
    and "get_support_list_prot_size vid pid = 0"
    and "get_support_list_selector vid pid = 0"
    and "get_support_list_unitid vid pid = 0"
  using assms
  by (simp_all add: in_support_list_def get_support_list_guid_def get_support_list_usbclass_def
      get_support_list_prot_size_def get_support_list_selector_def get_support_list_unitid_def)

end
