(* ===== verification/Sysfs.thy ===== *)
theory Sysfs
  imports SupportList
begin

text \<open>
  Finding devices in sysfs, client/src/platform_linux.cpp: read_sysfs_node, get_v4l2_index,
  convert_sn_to_index, select_usb_dev_by_index, print_connected_list and print_lsusb_list.

  What the kernel shows is the record \<open>host\<close>: the names in /sys/bus/usb/devices in the order
  readdir gives them, the contents of files, and the links below /sys/class/video4linux.  It
  does not change while the program runs.  A local array that the code does not initialise
  (\<open>line\<close>, \<open>sysfs_sn\<close>, \<open>sysfs_product\<close>) starts with the bytes \<open>h_stack\<close>; read_sysfs_node leaves
  it alone when the file does not exist, so the loops carry it from one entry to the next.
\<close>

definition PATH_MAX :: nat where "PATH_MAX = 4096"
definition V4L2_DEVICES_ID_MAX :: nat where "V4L2_DEVICES_ID_MAX = 255"

record host =
  h_devices :: "byte list list option"               \<comment> \<open>opendir and readdir\<close>
  h_file :: "byte list \<Rightarrow> byte list option"           \<comment> \<open>fopen and fread\<close>
  h_open :: "byte list \<Rightarrow> bool"                       \<comment> \<open>open\<close>
  h_readlink :: "byte list \<Rightarrow> byte list option"
  h_getdriver :: "byte list \<Rightarrow> bool"                  \<comment> \<open>a kernel driver has interface 0\<close>
  h_socket :: bool                                    \<comment> \<open>socket and bind succeed\<close>
  h_gethostbyname :: "byte list \<Rightarrow> byte list option"
  h_stack :: "byte list"

subsection \<open>Numbers in text\<close>

text \<open>The value of a digit in bases up to 36, and strtoul; a string without digits gives 0.\<close>

definition digit_of :: "byte \<Rightarrow> nat" where
  "digit_of c =
     (if 0x30 \<le> c \<and> c \<le> 0x39 then unat c - 48
      else if 0x61 \<le> c \<and> c \<le> 0x7A then unat c - 87
      else if 0x41 \<le> c \<and> c \<le> 0x5A then unat c - 55 else 36)"

definition num_of :: "nat \<Rightarrow> byte list \<Rightarrow> nat" where
  "num_of base ds = fold (\<lambda>c v. base * v + digit_of c) ds 0"

definition skip_0x :: "nat \<Rightarrow> byte list \<Rightarrow> byte list" where
  "skip_0x base s =
     (if base = 16 \<and> (take 2 s = ascii ''0x'' \<or> take 2 s = ascii ''0X'') \<and>
         takeWhile (\<lambda>c. digit_of c < 16) (drop 2 s) \<noteq> []
      then drop 2 s else s)"

definition strtoul :: "nat \<Rightarrow> byte list \<Rightarrow> 64 word" where
  "strtoul base s =
     (let s = dropWhile isspace s;
          neg = (take 1 s = [0x2D]);
          s = (if neg \<or> take 1 s = [0x2B] then drop 1 s else s);
          v = num_of base (takeWhile (\<lambda>c. digit_of c < base) (skip_0x base s)) in
      if v > 18446744073709551615 then - 1 else if neg then - of_nat v else of_nat v)"

subsection \<open>read_sysfs_node\<close>

text \<open>
  The result and the buffer afterwards.  fread is asked for one item of \<open>size\<close> bytes, so it
  counts 1 only when the file fills the buffer; the last byte of the string read is removed,
  which on an empty file is the byte before the buffer.
\<close>

definition read_sysfs_node :: "host \<Rightarrow> byte list \<Rightarrow> byte list \<Rightarrow> nat \<Rightarrow> fault + int \<times> byte list" where
  "read_sysfs_node H path buf n =
     (case h_file H path of
        None \<Rightarrow> Inr (- 1, buf)
      | Some content \<Rightarrow>
          rbind (mzero n buf) (\<lambda>buf.
          rbind (mwrite 0 (take n content) buf) (\<lambda>buf.
          rbind (cstr 0 buf) (\<lambda>t.
          if t = [] then Inl OobWrite
          else rbind (mwrite (length t - 1) [0] buf) (\<lambda>buf.
               Inr ((if n \<le> length content then 1 else 0) - 1, buf))))))"

definition USB_DEVICES :: "byte list" where
  "USB_DEVICES = ascii ''/sys/bus/usb/devices''"

definition sysfs_path :: "byte list \<Rightarrow> string \<Rightarrow> byte list" where
  "sysfs_path d attr = USB_DEVICES @ ascii ''/'' @ d @ ascii ''/'' @ ascii attr"

text \<open>sprintf of the path, read_sysfs_node (filename, line, 1024), strtoul (line, NULL, base).\<close>

definition sysfs_num :: "host \<Rightarrow> byte list \<Rightarrow> string \<Rightarrow> nat \<Rightarrow> byte list \<Rightarrow> fault + 64 word \<times> byte list" where
  "sysfs_num H d attr base line =
     rbind (read_sysfs_node H (sysfs_path d attr) line 1024) (\<lambda>(_, line).
     rbind (cstr 0 line) (\<lambda>t.
     Inr (strtoul base t, line)))"

text \<open>The numbers of one entry: vendor and product, which every scan reads first.\<close>

definition entry_ids :: "host \<Rightarrow> byte list \<Rightarrow> byte list \<Rightarrow> fault + u16 \<times> u16 \<times> byte list" where
  "entry_ids H d line =
     rbind (sysfs_num H d ''idVendor'' 16 line) (\<lambda>(v, line).
     rbind (sysfs_num H d ''idProduct'' 16 line) (\<lambda>(p, line).
     Inr (ucast v, ucast p, line)))"

text \<open>Bus and device number.\<close>

definition entry_pos :: "host \<Rightarrow> byte list \<Rightarrow> byte list \<Rightarrow> fault + byte \<times> byte \<times> byte list" where
  "entry_pos H d line =
     rbind (sysfs_num H d ''busnum'' 10 line) (\<lambda>(b, line).
     rbind (sysfs_num H d ''devnum'' 10 line) (\<lambda>(n, line).
     Inr (ucast b, ucast n, line)))"

subsection \<open>convert_sn_to_index\<close>

text \<open>strncmp (sysfs_sn, sn, strlen (sn)) == 0; \<open>sn\<close> is NULL when the argument is missing.\<close>

definition sn_matches :: "byte list option \<Rightarrow> byte list \<Rightarrow> fault + bool" where
  "sn_matches sn buf = (case sn of None \<Rightarrow> Inl NullDeref | Some sn \<Rightarrow> has_prefix sn buf)"

fun sn_scan :: "host \<Rightarrow> byte list option \<Rightarrow> byte list list \<Rightarrow> nat \<Rightarrow> byte list \<Rightarrow> byte list \<Rightarrow> fault + nat" where
  "sn_scan H sn [] found line sysfs_sn = Inr found"
| "sn_scan H sn (d # ds) found line sysfs_sn =
     (if take 1 d = ascii ''.'' then sn_scan H sn ds found line sysfs_sn
      else rbind (entry_ids H d line) (\<lambda>(vid, pid, line).
           if in_support_list vid pid then
             rbind (entry_pos H d line) (\<lambda>(busnum, devnum, line).
             rbind (read_sysfs_node H (sysfs_path d ''serial'') sysfs_sn 1024) (\<lambda>(_, sysfs_sn).
             rbind (sn_matches sn sysfs_sn) (\<lambda>b.
             if b then Inr (Suc found) else sn_scan H sn ds (Suc found) line sysfs_sn)))
           else sn_scan H sn ds found line sysfs_sn))"

definition convert_sn_to_index :: "host \<Rightarrow> byte list option \<Rightarrow> fault + nat" where
  "convert_sn_to_index H sn =
     (case h_devices H of
        None \<Rightarrow> Inl ExitCall
      | Some ds \<Rightarrow> rbind (sn_scan H sn ds 0 (h_stack H) (h_stack H)) (\<lambda>found.
                  if found = 0 then Inl ExitCall else Inr found))"

subsection \<open>select_usb_dev_by_index\<close>

record usb_dev_t =
  ud_vid :: u16
  ud_pid :: u16
  ud_busnum :: byte
  ud_devnum :: byte
  ud_usbclass :: byte
  ud_backend :: byte
  ud_sn :: "byte list"

text \<open>The global usb_dev before anything is selected.\<close>

definition usb_dev_zero :: usb_dev_t where
  "usb_dev_zero = \<lparr>ud_vid = 0, ud_pid = 0, ud_busnum = 0, ud_devnum = 0, ud_usbclass = 0,
     ud_backend = 0, ud_sn = replicate PATH_MAX 0\<rparr>"

text \<open>The result is the number of supported devices seen and the record filled in.\<close>

fun select_scan ::
  "host \<Rightarrow> int \<Rightarrow> byte list list \<Rightarrow> nat \<Rightarrow> byte list \<Rightarrow> usb_dev_t \<Rightarrow> fault + nat \<times> usb_dev_t" where
  "select_scan H idx [] found line ud = Inr (found, ud)"
| "select_scan H idx (d # ds) found line ud =
     (if take 1 d = ascii ''.'' then select_scan H idx ds found line ud
      else rbind (entry_ids H d line) (\<lambda>(vid, pid, line).
           if in_support_list vid pid then
             rbind (entry_pos H d line) (\<lambda>(busnum, devnum, line).
             if idx = int (Suc found) then
               rbind (mzero PATH_MAX (ud_sn ud)) (\<lambda>sn.
               rbind (read_sysfs_node H (sysfs_path d ''serial'') sn PATH_MAX) (\<lambda>(_, sn).
               Inr (Suc found,
                    \<lparr>ud_vid = vid, ud_pid = pid, ud_busnum = busnum, ud_devnum = devnum,
                     ud_usbclass = get_support_list_usbclass vid pid,
                     ud_backend = get_support_list_backend vid pid, ud_sn = sn\<rparr>)))
             else select_scan H idx ds (Suc found) line ud)
           else select_scan H idx ds found line ud))"

definition select_usb_dev_by_index :: "host \<Rightarrow> int \<Rightarrow> usb_dev_t \<Rightarrow> fault + usb_dev_t" where
  "select_usb_dev_by_index H idx ud =
     (case h_devices H of
        None \<Rightarrow> Inr ud
      | Some ds \<Rightarrow> rbind (select_scan H idx ds 0 (h_stack H) ud) (\<lambda>(found, ud).
                  if found = 0 then Inl ExitCall else Inr ud))"

subsection \<open>get_v4l2_index\<close>

text \<open>
  The path of the device behind a video node: the link target up to the second but last slash
  (the count of slashes is an int, and \<open>stop\<close> is negative for a target with one slash or none).
  The array \<open>interface_path\<close> is cleared once, before the loop, and readlink does not add a NUL.
\<close>

definition slashes :: "byte list \<Rightarrow> int" where
  "slashes p = int (length (filter (\<lambda>c. c = 0x2F) p))"

fun cut_at :: "int \<Rightarrow> int \<Rightarrow> byte list \<Rightarrow> byte list" where
  "cut_at stop k [] = []"
| "cut_at stop k (c # cs) =
     (let k = (if c = 0x2F then k + 1 else k) in
      if k = stop then [] else c # cut_at stop k cs)"

definition V4L2_CLASS :: "byte list" where
  "V4L2_CLASS = ascii ''/sys/class/video4linux/''"

text \<open>snprintf (sys_node, strlen (dev_path) + 8, "%s/busnum", dev_path) and the number read.\<close>

definition v4l2_node :: "host \<Rightarrow> byte list \<Rightarrow> string \<Rightarrow> byte list \<Rightarrow> fault + byte \<times> byte list" where
  "v4l2_node H dev_path attr line =
     rbind (cstr 0 dev_path) (\<lambda>p.
     if PATH_MAX < length p + 8 then Inl OobWrite
     else rbind (read_sysfs_node H (p @ ascii ''/'' @ ascii attr) line 1024) (\<lambda>(_, line).
          rbind (cstr 0 line) (\<lambda>t. Inr (ucast (strtoul 10 t), line))))"

fun v4l2_scan ::
  "host \<Rightarrow> byte \<Rightarrow> byte \<Rightarrow> nat list \<Rightarrow> byte list \<Rightarrow> byte list \<Rightarrow> byte list \<Rightarrow> fault + int" where
  "v4l2_scan H busnr devnr [] interface_path dev_path line = Inr (- 1)"
| "v4l2_scan H busnr devnr (i # is) interface_path dev_path line =
     (let cam_path = V4L2_CLASS @ ascii ''video'' @ fmt_d (int i) in
      if \<not> h_open H cam_path then v4l2_scan H busnr devnr is interface_path dev_path line
      else rbind (case h_readlink H cam_path of
                    None \<Rightarrow> Inr interface_path
                  | Some target \<Rightarrow> mwrite 0 (take PATH_MAX target) interface_path) (\<lambda>interface_path.
           rbind (cstr 0 interface_path) (\<lambda>p.
           rbind (mwrite 0 (V4L2_CLASS @ cut_at (slashes p - 2) 0 p) dev_path) (\<lambda>dev_path.
           rbind (v4l2_node H dev_path ''busnum'' line) (\<lambda>(busnum, line).
           rbind (v4l2_node H dev_path ''devnum'' line) (\<lambda>(devnum, line).
           if devnum = devnr \<and> busnum = busnr then Inr (int i)
           else v4l2_scan H busnr devnr is interface_path dev_path line))))))"

definition get_v4l2_index :: "host \<Rightarrow> byte \<Rightarrow> byte \<Rightarrow> fault + int" where
  "get_v4l2_index H busnr devnr =
     v4l2_scan H busnr devnr [0..<V4L2_DEVICES_ID_MAX]
       (replicate PATH_MAX 0) (replicate PATH_MAX 0) (replicate PATH_MAX 0)"

subsection \<open>The two lists\<close>

text \<open>%02d, %03d and %04X of small numbers; %5d of the speed, an unsigned int.\<close>

definition fmt_0d :: "nat \<Rightarrow> nat \<Rightarrow> byte list" where
  "fmt_0d w n = (let ds = dec_digits n in replicate (w - length ds) 0x30 @ ds)"

definition fmt_04X :: "u16 \<Rightarrow> byte list" where
  "fmt_04X v =
     (let d = (\<lambda>k. (of_nat (if k < 10 then 48 + k else 55 + k) :: byte)); n = unat v in
      [d (n div 4096), d (n div 256 mod 16), d (n div 16 mod 16), d (n mod 16)])"

definition fmt_5d :: "u32 \<Rightarrow> byte list" where
  "fmt_5d v = (let t = fmt_d (sint v) in replicate (5 - length t) SPACE @ t)"

definition fmt_bus :: "byte \<Rightarrow> byte \<Rightarrow> byte \<Rightarrow> u16 \<Rightarrow> u16 \<Rightarrow> byte list" where
  "fmt_bus busnum devpath devnum vid pid =
     ascii ''[Bus '' @ fmt_0d 3 (unat busnum) @ ascii '' Port '' @ fmt_0d 3 (unat devpath) @
     ascii '' Dev '' @ fmt_0d 3 (unat devnum) @ ascii '' ID '' @ fmt_04X vid @ ascii '':'' @ fmt_04X pid"

text \<open>One line of print_connected_list.\<close>

definition connected_line ::
  "nat \<Rightarrow> byte list \<Rightarrow> byte \<Rightarrow> byte \<Rightarrow> byte \<Rightarrow> u16 \<Rightarrow> u16 \<Rightarrow> byte list \<Rightarrow> int \<Rightarrow> byte list" where
  "connected_line found product busnum devpath devnum vid pid sn video_index =
     fmt_0d 2 found @ ascii '' '' @ product @ ascii '' '' @ [0x09] @ ascii '' '' @
     fmt_bus busnum devpath devnum vid pid @ ascii ''] '' @ [0x09] @ ascii '' SN:'' @ sn @ ascii '' '' @
     [0x09] @ ascii '' '' @
     (if video_index \<ge> 0 then ascii ''[video'' @ fmt_d video_index @ ascii '']'' else ascii ''[usbfs]'') @
     [NEWLINE]"

text \<open>Bus, port and device number, as print_connected_list and print_lsusb_list read them.\<close>

definition entry_port :: "host \<Rightarrow> byte list \<Rightarrow> byte list \<Rightarrow> fault + byte \<times> byte \<times> byte \<times> byte list" where
  "entry_port H d line =
     rbind (sysfs_num H d ''busnum'' 10 line) (\<lambda>(b, line).
     rbind (sysfs_num H d ''devpath'' 10 line) (\<lambda>(p, line).
     rbind (sysfs_num H d ''devnum'' 10 line) (\<lambda>(n, line).
     Inr (ucast b, ucast p, ucast n, line))))"

fun connected_scan ::
  "host \<Rightarrow> byte list list \<Rightarrow> nat \<Rightarrow> byte list \<Rightarrow> byte list \<Rightarrow> byte list \<Rightarrow> byte list list
   \<Rightarrow> fault + nat \<times> byte list list" where
  "connected_scan H [] found line product sn out = Inr (found, out)"
| "connected_scan H (d # ds) found line product sn out =
     (if take 1 d = ascii ''.'' then connected_scan H ds found line product sn out
      else rbind (entry_ids H d line) (\<lambda>(vid, pid, line).
           if in_support_list_all vid pid USB_CLASS_UVC then
             rbind (entry_port H d line) (\<lambda>(busnum, devpath, devnum, line).
             rbind (read_sysfs_node H (sysfs_path d ''product'') product 1024) (\<lambda>(_, product).
             rbind (read_sysfs_node H (sysfs_path d ''serial'') sn 1024) (\<lambda>(_, sn).
             rbind (get_v4l2_index H busnum devnum) (\<lambda>video_index.
             rbind (cstr 0 product) (\<lambda>p.
             rbind (cstr 0 sn) (\<lambda>t.
             connected_scan H ds (Suc found) line product sn
               (out @ [connected_line (Suc found) p busnum devpath devnum vid pid t video_index])))))))
           else connected_scan H ds found line product sn out))"

text \<open>The lines printed.\<close>

definition print_connected_list :: "host \<Rightarrow> fault + byte list list" where
  "print_connected_list H =
     (case h_devices H of
        None \<Rightarrow> Inr [ascii ''sysfs not mount?'' @ [NEWLINE]]
      | Some ds \<Rightarrow>
          rbind (connected_scan H ds 0 (h_stack H) (h_stack H) (h_stack H) []) (\<lambda>(found, out).
          if found = 0 then Inl ExitCall else Inr out))"

text \<open>print_lsusb_list clears its arrays before every read.\<close>

definition clean_num :: "host \<Rightarrow> byte list \<Rightarrow> string \<Rightarrow> nat \<Rightarrow> byte list \<Rightarrow> fault + 64 word \<times> byte list" where
  "clean_num H d attr base line =
     rbind (mzero 1024 line) (\<lambda>line. sysfs_num H d attr base line)"

definition clean_text :: "host \<Rightarrow> byte list \<Rightarrow> string \<Rightarrow> byte list \<Rightarrow> fault + byte list \<times> byte list" where
  "clean_text H d attr buf =
     rbind (mzero 1024 buf) (\<lambda>buf.
     rbind (read_sysfs_node H (sysfs_path d attr) buf 1024) (\<lambda>(_, buf).
     rbind (cstr 0 buf) (\<lambda>t. Inr (t, buf))))"

fun lsusb_scan ::
  "host \<Rightarrow> byte list list \<Rightarrow> byte list \<Rightarrow> byte list \<Rightarrow> byte list \<Rightarrow> fault + byte list list" where
  "lsusb_scan H [] line product sn = Inr []"
| "lsusb_scan H (d # ds) line product sn =
     (if take 1 d = ascii ''.'' then lsusb_scan H ds line product sn
      else rbind (clean_num H d ''idVendor'' 16 line) (\<lambda>(v, line).
           if (ucast v :: u16) = 0 then lsusb_scan H ds line product sn
           else rbind (clean_num H d ''idProduct'' 16 line) (\<lambda>(p, line).
                rbind (clean_num H d ''busnum'' 10 line) (\<lambda>(b, line).
                rbind (clean_num H d ''devpath'' 10 line) (\<lambda>(q, line).
                rbind (clean_num H d ''devnum'' 10 line) (\<lambda>(n, line).
                rbind (clean_num H d ''speed'' 10 line) (\<lambda>(s, line).
                rbind (clean_text H d ''product'' product) (\<lambda>(pt, product).
                rbind (clean_text H d ''serial'' sn) (\<lambda>(st, sn).
                rbind (lsusb_scan H ds line product sn) (\<lambda>more.
                Inr ((fmt_bus (ucast b) (ucast q) (ucast n) (ucast v) (ucast p) @ ascii '' Sp:'' @
                      fmt_5d (ucast s) @ ascii '']  ['' @ pt @ ascii ''] '' @ [0x09] @ ascii '' SN:'' @ st @
                      [NEWLINE]) # more)))))))))))"

definition print_lsusb_list :: "host \<Rightarrow> fault + byte list list" where
  "print_lsusb_list H =
     (case h_devices H of
        None \<Rightarrow> Inr [ascii ''sysfs not mount?'' @ [NEWLINE]]
      | Some ds \<Rightarrow> lsusb_scan H ds (h_stack H) (h_stack H) (h_stack H))"

end
