(* ===== verification/HexDump.thy ===== *)
theory HexDump
  imports UdbState
begin

text \<open>
  dumphex, client/src/utils.cpp: the bytes of an answer as rows of sixteen, in hexadecimal and
  as text.  The reference is \<open>dump_rows\<close>: each row is fifty columns of hexadecimal, then the
  text.  get_time of the file reads the clock and is not modelled.
\<close>

definition upper_hex :: "nat \<Rightarrow> byte" where
  "upper_hex d = of_nat (if d < 10 then 48 + d else 55 + d)"

text \<open>printf ("%02X ").\<close>

definition fmt_02X :: "byte \<Rightarrow> byte list" where
  "fmt_02X b = [upper_hex (unat b div 16), upper_hex (unat b mod 16), SPACE]"

definition printable :: "byte \<Rightarrow> byte" where
  "printable b = (if 0x20 \<le> b \<and> b \<le> 0x7E then b else 0x2E)"

text \<open>
  One turn of the loop: the new contents of the array \<open>ascii\<close> (17 bytes) and what is printed.
\<close>

definition dump_turn :: "nat \<Rightarrow> nat \<Rightarrow> byte \<Rightarrow> byte list \<Rightarrow> fault + byte list \<times> byte list" where
  "dump_turn n i b asc =
     rbind (mwrite (i mod 16) [printable b] asc) (\<lambda>asc.
     if (i + 1) mod 8 = 0 \<or> i + 1 = n then
       (if (i + 1) mod 16 = 0 then
          rbind (cstr 0 asc) (\<lambda>t.
          Inr (asc, fmt_02X b @ [SPACE] @ ascii ''|  '' @ t @ [SPACE, NEWLINE]))
        else if i + 1 = n then
          rbind (mwrite ((i + 1) mod 16) [0] asc) (\<lambda>asc.
          rbind (cstr 0 asc) (\<lambda>t.
          Inr (asc, fmt_02X b @ [SPACE] @ (if (i + 1) mod 16 \<le> 8 then [SPACE] else []) @
               replicate (3 * (16 - (i + 1) mod 16)) SPACE @ ascii ''|  '' @ t @ [SPACE, NEWLINE])))
        else Inr (asc, fmt_02X b @ [SPACE]))
     else Inr (asc, fmt_02X b))"

fun dump_loop :: "byte list \<Rightarrow> nat \<Rightarrow> nat list \<Rightarrow> byte list \<Rightarrow> fault + byte list" where
  "dump_loop data n [] asc = Inr []"
| "dump_loop data n (i # is) asc =
     rbind (mread i 1 data) (\<lambda>b.
     rbind (dump_turn n i (hd b) asc) (\<lambda>(asc, out).
     rbind (dump_loop data n is asc) (\<lambda>more. Inr (out @ more))))"

text \<open>\<open>junk\<close> is what the stack holds where \<open>ascii\<close> lies.\<close>

definition dumphex :: "byte list \<Rightarrow> byte list \<Rightarrow> u32 \<Rightarrow> fault + byte list" where
  "dumphex junk data n =
     rbind (mwrite 16 [0] junk) (\<lambda>asc. dump_loop data (unat n) [0..<unat n] asc)"

subsection \<open>The reference\<close>

text \<open>
  A row has sixteen cells of three columns, blank where the data ends, and a blank behind each
  group of eight; then the text.
\<close>

definition cell :: "byte list \<Rightarrow> byte list" where
  "cell bs = (case bs of [] \<Rightarrow> replicate 3 SPACE | b # _ \<Rightarrow> fmt_02X b)"

function row_from :: "nat \<Rightarrow> byte list \<Rightarrow> byte list" where
  "row_from r bs =
     (if r < 16 then cell bs @ (if r mod 8 = 7 then [SPACE] else []) @ row_from (r + 1) (tl bs)
      else [])"
  by auto
termination by (relation "measure (\<lambda>(r, _). 16 - r)") auto

definition dump_row :: "byte list \<Rightarrow> byte list" where
  "dump_row bs = row_from 0 bs @ ascii ''|  '' @ map printable bs @ [SPACE, NEWLINE]"

function dump_rows :: "byte list \<Rightarrow> byte list" where
  "dump_rows bs = (if bs = [] then [] else dump_row (take 16 bs) @ dump_rows (drop 16 bs))"
  by auto
termination by (relation "measure length") auto

declare dump_rows.simps [simp del] row_from.simps [simp del]

lemma length_cell [simp]: "length (cell bs) = 3"
  by (simp add: cell_def fmt_02X_def split: list.split)

lemma length_row_from:
  "length (row_from r bs) = 3 * (16 - r) + (if r \<le> 7 then 2 else if r \<le> 15 then 1 else 0)"
proof (induction r bs rule: row_from.induct)
  case (1 r bs)
  show ?case
  proof (cases "r < 16")
    case True
    then have "r mod 8 = 7 \<longleftrightarrow> r = 7 \<or> r = 15" by presburger
    with 1 True show ?thesis by (subst row_from.simps) auto
  qed (simp add: row_from.simps)
qed

lemma row_from_blank:
  "row_from r [] = replicate (3 * (16 - r) + (if r \<le> 7 then 2 else if r \<le> 15 then 1 else 0)) SPACE"
proof -
  have "set (row_from r bs) \<subseteq> {SPACE}" if "bs = []" for bs
    using that
  proof (induction r bs rule: row_from.induct)
    case (1 r bs)
    then show ?case by (subst row_from.simps) (auto simp: cell_def)
  qed
  from this [OF refl] show ?thesis
    by (intro replicate_eqI) (auto simp: length_row_from)
qed

text \<open>The text column starts at the same place in every row.\<close>

lemma length_dump_row: "length (dump_row bs) = 55 + length bs"
  by (simp add: dump_row_def length_row_from)

lemma printable_nonzero [simp]: "printable b \<noteq> 0"
proof (cases "0x20 \<le> b")
  case True
  then have "b \<noteq> 0" by auto
  then show ?thesis by (simp add: printable_def)
qed (simp add: printable_def)

lemma printable_no_nul [simp]: "0 \<notin> printable ` X"
  by (metis imageE printable_nonzero)

subsection \<open>The loop prints the reference\<close>

text \<open>\<open>ascii\<close> while a row is printed: the text so far, and the NUL at the end.\<close>

definition row_text :: "nat \<Rightarrow> byte list \<Rightarrow> byte list \<Rightarrow> bool" where
  "row_text r bs asc \<longleftrightarrow> (\<exists>rest. asc = map printable (take r bs) @ rest @ [0] \<and> length rest = 16 - r)"

lemma row_textI:
  "asc = map printable (take r bs) @ rest @ [0] \<Longrightarrow> length rest = 16 - r \<Longrightarrow> row_text r bs asc"
  by (auto simp: row_text_def)

lemma row_text_step:
  assumes "row_text r bs asc" and "r < length bs" and "length bs \<le> 16"
  obtains asc' where "mwrite r [printable (bs ! r)] asc = Inr asc'" and "row_text (Suc r) bs asc'"
proof -
  obtain rest where a: "asc = map printable (take r bs) @ rest @ [0]" "length rest = 16 - r"
    using assms(1) by (auto simp: row_text_def)
  then obtain x rest' where r: "rest = x # rest'" using assms(2,3) by (cases rest) auto
  have t: "take (Suc r) bs = take r bs @ [bs ! r]" using assms(2) by (simp add: take_Suc_conv_app_nth)
  have "mwrite r [printable (bs ! r)] asc
      = Inr (map printable (take (Suc r) bs) @ rest' @ [0])"
    using a r assms(2,3) by (simp add: mwrite_def t)
  moreover have "row_text (Suc r) bs (map printable (take (Suc r) bs) @ rest' @ [0])"
    using a r assms(2,3) by (intro row_textI) auto
  ultimately show ?thesis by (rule that)
qed

lemma row_text_full:
  assumes "row_text 16 bs asc"
  shows "cstr 0 asc = Inr (map printable (take 16 bs))"
proof -
  have "asc = [] @ map printable (take 16 bs) @ 0 # []"
    using assms by (auto simp: row_text_def)
  then show ?thesis using cstr_terminated [of "[]" 0 "map printable (take 16 bs)" "[]"] by auto
qed

lemma row_text_end:
  assumes "row_text r bs asc" and "r < 16" and "length bs = r"
  obtains asc' where "mwrite r [0] asc = Inr asc'" and "cstr 0 asc' = Inr (map printable bs)"
proof -
  obtain rest where a: "asc = map printable bs @ rest @ [0]" "length rest = 16 - r"
    using assms(1,3) by (auto simp: row_text_def)
  then obtain x rest' where r: "rest = x # rest'" using assms(2) by (cases rest) auto
  have "mwrite r [0] asc = Inr (map printable bs @ 0 # rest' @ [0])"
    using a r assms(3) by (simp add: mwrite_def)
  moreover have "cstr 0 (map printable bs @ 0 # rest' @ [0]) = Inr (map printable bs)"
    using cstr_terminated [of "[]" 0 "map printable bs" "rest' @ [0]"] by auto
  ultimately show ?thesis by (rule that)
qed

text \<open>One turn in the middle of a row, at its sixteenth byte, and at the end of the data.\<close>

lemma dump_turn_middle:
  assumes "row_text r bs asc" and "Suc r < length bs" and "length bs \<le> 16"
    and "16 * q + Suc r < n"
  obtains asc' where
    "dump_turn n (16 * q + r) (bs ! r) asc
       = Inr (asc', fmt_02X (bs ! r) @ (if r mod 8 = 7 then [SPACE] else []))"
    "row_text (Suc r) bs asc'"
proof -
  have r: "r < length bs" "Suc r < 16" using assms by auto
  obtain asc' where a: "mwrite r [printable (bs ! r)] asc = Inr asc'" "row_text (Suc r) bs asc'"
    using row_text_step [OF assms(1) r(1) assms(3)] by blast
  have m: "(16 * q + r) mod 16 = r" "(16 * q + r + 1) mod 16 = Suc r"
    using r(2) by (simp_all add: mod_Suc)
  have e: "(16 * q + r + 1) mod 8 = 0 \<longleftrightarrow> r mod 8 = 7" by presburger
  have "dump_turn n (16 * q + r) (bs ! r) asc
      = Inr (asc', fmt_02X (bs ! r) @ (if r mod 8 = 7 then [SPACE] else []))"
    unfolding dump_turn_def m e using a(1) assms(4) by simp
  then show ?thesis using a(2) by (rule that)
qed

lemma dump_turn_last:
  assumes "row_text r bs asc" and "Suc r = length bs" and "length bs \<le> 16"
    and "length bs = 16 \<or> 16 * q + Suc r = n"
  obtains asc' where
    "dump_turn n (16 * q + r) (bs ! r) asc
       = Inr (asc', row_from r (drop r bs) @ ascii ''|  '' @ map printable bs @ [SPACE, NEWLINE])"
    "length bs = 16 \<longrightarrow> row_text 16 bs asc'"
proof -
  have r: "r < length bs" "r < 16" using assms by auto
  obtain asc1 where a: "mwrite r [printable (bs ! r)] asc = Inr asc1" "row_text (Suc r) bs asc1"
    using row_text_step [OF assms(1) r(1) assms(3)] by blast
  have m: "(16 * q + r) mod 16 = r" using r(2) by simp
  have d: "drop r bs = [bs ! r]" using assms(2) by (simp add: Cons_nth_drop_Suc [symmetric])
  have row: "row_from r (drop r bs)
      = fmt_02X (bs ! r) @ (if r mod 8 = 7 then [SPACE] else []) @ row_from (Suc r) []"
    unfolding d using r(2) by (subst row_from.simps) (simp add: cell_def)
  show ?thesis
  proof (cases "length bs = 16")
    case True
    then have 15: "r = 15" using assms(2) by simp
    have e: "(16 * q + r + 1) mod 8 = 0" "(16 * q + r + 1) mod 16 = 0" unfolding 15 by presburger+
    have "cstr 0 asc1 = Inr (map printable bs)" using row_text_full [of bs asc1] a(2) 15 True by simp
    then have "dump_turn n (16 * q + r) (bs ! r) asc
        = Inr (asc1, row_from r (drop r bs) @ ascii ''|  '' @ map printable bs @ [SPACE, NEWLINE])"
      unfolding dump_turn_def m e row using a(1) by (simp add: 15 row_from.simps)
    then show ?thesis by (rule that) (use a(2) 15 in simp)
  next
    case False
    then have n: "16 * q + r + 1 = n" and s: "Suc r < 16" using assms by auto
    have e: "(16 * q + r + 1) mod 16 = Suc r" using s by (simp add: mod_Suc)
    obtain asc2 where c: "mwrite (Suc r) [0] asc1 = Inr asc2" "cstr 0 asc2 = Inr (map printable bs)"
      using row_text_end [OF a(2) s] assms(2) by metis
    have blank: "(if r mod 8 = 7 then [SPACE] else []) @ row_from (Suc r) []
        = [SPACE] @ (if Suc r \<le> 8 then [SPACE] else []) @ replicate (3 * (16 - Suc r)) SPACE"
      using s by (cases "r = 7") (auto simp: row_from_blank simp flip: replicate_Suc, presburger+)
    have "dump_turn n (16 * q + r) (bs ! r) asc
        = Inr (asc2, row_from r (drop r bs) @ ascii ''|  '' @ map printable bs @ [SPACE, NEWLINE])"
      unfolding dump_turn_def m e row blank using a(1) c n by simp
    then show ?thesis by (rule that) (use False in simp)
  qed
qed

lemma dump_loop_row:
  assumes "row_text r bs asc" and "r < length bs" and "bs = take 16 (drop (16 * q) (take n d))"
    and "n \<le> length d"
  shows "\<exists>asc'. (length bs = 16 \<longrightarrow> row_text 16 bs asc') \<and>
    dump_loop d n [16 * q + r..<n] asc =
      rbind (dump_loop d n [16 * q + length bs..<n] asc') (\<lambda>more.
      Inr (row_from r (drop r bs) @ ascii ''|  '' @ map printable bs @ [SPACE, NEWLINE] @ more))"
  using assms(1,2)
proof (induction "length bs - r" arbitrary: r asc)
  case 0
  then show ?case by simp
next
  case (Suc k)
  have le: "length bs \<le> 16" and lb: "length bs = min 16 (n - 16 * q)"
    using assms(3,4) by simp_all
  have i: "16 * q + r < n" using lb Suc.prems(2) by linarith
  then have ne: "[16 * q + r..<n] = (16 * q + r) # [16 * q + Suc r..<n]"
    by (simp add: upt_conv_Cons)
  have b: "mread (16 * q + r) 1 d = Inr [bs ! r]"
    using i assms(3,4) Suc.prems(2) by (simp add: mread_def take_Suc_conv_app_nth hd_drop_conv_nth
        flip: hd_conv_nth)
  show ?case
  proof (cases "Suc r < length bs")
    case True
    with lb have "16 * q + Suc r < n" by linarith
    with True obtain asc1 where t:
      "dump_turn n (16 * q + r) (bs ! r) asc
         = Inr (asc1, fmt_02X (bs ! r) @ (if r mod 8 = 7 then [SPACE] else []))"
      "row_text (Suc r) bs asc1"
      using dump_turn_middle [OF Suc.prems(1) _ le] by blast
    have "k = length bs - Suc r" using Suc.hyps(2) by simp
    from Suc.hyps(1) [OF this t(2) True] obtain asc' where
      ih: "length bs = 16 \<longrightarrow> row_text 16 bs asc'"
      "dump_loop d n [16 * q + Suc r..<n] asc1 =
         rbind (dump_loop d n [16 * q + length bs..<n] asc') (\<lambda>more.
         Inr (row_from (Suc r) (drop (Suc r) bs) @ ascii ''|  '' @ map printable bs @
              [SPACE, NEWLINE] @ more))"
      by blast
    have row: "row_from r (drop r bs) = fmt_02X (bs ! r) @ (if r mod 8 = 7 then [SPACE] else []) @
        row_from (Suc r) (drop (Suc r) bs)"
      using Suc.prems(2) True le by (subst row_from.simps) (simp add: cell_def Cons_nth_drop_Suc [symmetric])
    show ?thesis
      by (intro exI [of _ asc'] conjI ih(1)) (simp add: ne b [simplified] t(1) [simplified] ih(2) [simplified] rbind_assoc row)
  next
    case False
    then have l: "Suc r = length bs" using Suc.prems(2) by simp
    have "length bs = 16 \<or> 16 * q + Suc r = n" using lb l by linarith
    with dump_turn_last [OF Suc.prems(1) l le] obtain asc1 where
      t: "dump_turn n (16 * q + r) (bs ! r) asc
         = Inr (asc1, row_from r (drop r bs) @ ascii ''|  '' @ map printable bs @ [SPACE, NEWLINE])"
        "length bs = 16 \<longrightarrow> row_text 16 bs asc1"
      by blast
    show ?thesis
      by (intro exI [of _ asc1] conjI t(2)) (simp add: ne b [simplified] t(1) [simplified] l)
  qed
qed

lemma dump_loop_rows:
  assumes "length rest = 16" and "n \<le> length d"
  shows "dump_loop d n [16 * q..<n] (rest @ [0]) = Inr (dump_rows (drop (16 * q) (take n d)))"
  using assms(1)
proof (induction "n - 16 * q" arbitrary: q rest rule: less_induct)
  case less
  define bs where bs: "bs = take 16 (drop (16 * q) (take n d))"
  show ?case
  proof (cases "16 * q < n")
    case False
    then show ?thesis by (simp add: dump_rows.simps)
  next
    case True
    then have lb: "length bs = min 16 (n - 16 * q)" "0 < length bs" using assms(2) bs by auto
    have "row_text 0 bs (rest @ [0])" using less.prems by (intro row_textI) auto
    from dump_loop_row [OF this lb(2) bs assms(2)] obtain asc' where
      a: "length bs = 16 \<longrightarrow> row_text 16 bs asc'"
      "dump_loop d n [16 * q..<n] (rest @ [0]) =
         rbind (dump_loop d n [16 * q + length bs..<n] asc') (\<lambda>more. Inr (dump_row bs @ more))"
      by (auto simp: dump_row_def)
    have rows: "dump_rows (drop (16 * q) (take n d)) = dump_row bs @ dump_rows (drop (16 * Suc q) (take n d))"
      using True assms(2) by (subst dump_rows.simps) (auto simp: bs add.commute)
    show ?thesis
    proof (cases "length bs = 16")
      case full: True
      then obtain rest' where r: "asc' = rest' @ [0]" "length rest' = 16"
        using a(1) bs by (auto simp: row_text_def)
      have "dump_loop d n [16 * Suc q..<n] asc' = Inr (dump_rows (drop (16 * Suc q) (take n d)))"
        unfolding r(1) by (rule less.hyps) (use True r(2) in simp_all)
      then show ?thesis using a(2) full rows by (simp add: add.commute)
    next
      case False
      then have "16 * q + length bs = n" using lb by linarith
      moreover from this lb have "drop (16 * Suc q) (take n d) = []" using False by simp
      ultimately show ?thesis using a(2) rows by (simp add: dump_rows.simps)
    qed
  qed
qed

theorem dumphex_prints_rows:
  assumes "length junk = 17" and "unat n \<le> length data"
  shows "dumphex junk data n = Inr (dump_rows (take (unat n) data))"
proof -
  have "mwrite 16 [0] junk = Inr (take 16 junk @ [0])" using assms(1) by (simp add: mwrite_def)
  then show ?thesis
    using dump_loop_rows [of "take 16 junk" "unat n" data 0] assms by (simp add: dumphex_def)
qed

text \<open>A length beyond the data is not caught: the loop reads on.\<close>

lemma mwrite_one: "k < length b \<Longrightarrow> mwrite k [x] b = Inr (b[k := x])"
  by (simp add: mwrite_def upd_conv_take_nth_drop)

lemma cstr_nul: "0 \<in> set b \<Longrightarrow> \<exists>t. cstr 0 b = Inr t"
  by (simp add: cstr_def)

lemma dump_turn_Inr:
  assumes "length asc = 17" and "asc ! 16 = 0"
  shows "\<exists>asc' out. dump_turn n i b asc = Inr (asc', out) \<and> length asc' = 17 \<and> asc' ! 16 = 0"
proof -
  have k: "i mod 16 < 16" "Suc i mod 16 < 16" by simp_all
  have nul: "\<exists>t. cstr 0 a = Inr t" if "length a = 17" "a ! 16 = 0" for a :: "byte list"
    using that by (intro cstr_nul) (auto simp: in_set_conv_nth intro: exI [of _ 16])
  define a1 where "a1 = asc[i mod 16 := printable b]"
  have a1: "length a1 = 17" "a1 ! 16 = 0" using assms k(1) by (auto simp: a1_def)
  define a2 where "a2 = a1[Suc i mod 16 := 0]"
  have a2: "length a2 = 17" "a2 ! 16 = 0" using a1 k(2) by (auto simp: a2_def)
  obtain t1 where t1: "cstr 0 a1 = Inr t1" using nul [OF a1] by blast
  obtain t2 where t2: "cstr 0 a2 = Inr t2" using nul [OF a2] by blast
  have w1: "mwrite (i mod 16) [printable b] asc = Inr a1"
    using assms(1) k(1) by (simp add: mwrite_one a1_def)
  have w2: "mwrite (Suc i mod 16) [0] a1 = Inr a2"
    using a1(1) k(2) by (simp add: mwrite_one a2_def)
  show ?thesis
  proof (cases "Suc i = n")
    case True
    then show ?thesis using a1 a2 w2 [unfolded True] by (simp add: dump_turn_def w1 t1 t2)
  next
    case False
    then show ?thesis using a1 by (simp add: dump_turn_def w1 t1)
  qed
qed

lemma dump_loop_overread:
  assumes "i \<le> length d" and "length d < n" and "length asc = 17" and "asc ! 16 = 0"
  shows "dump_loop d n [i..<n] asc = Inl OobRead"
  using assms
proof (induction "length d - i" arbitrary: i asc)
  case 0
  then show ?case by (simp add: upt_conv_Cons mread_def)
next
  case (Suc k)
  obtain asc' out where t: "dump_turn n i (hd (take 1 (drop i d))) asc = Inr (asc', out)"
    "length asc' = 17" "asc' ! 16 = 0"
    using dump_turn_Inr [OF Suc.prems(3,4)] by blast
  have "dump_loop d n [Suc i..<n] asc' = Inl OobRead"
    by (rule Suc.hyps(1)) (use Suc.hyps(2) Suc.prems t(2,3) in simp_all)
  then show ?case using Suc.prems Suc.hyps(2) t(1) by (simp add: upt_conv_Cons mread_def)
qed

theorem dumphex_overread:
  assumes "length junk = 17" and "length data < unat n"
  shows "dumphex junk data n = Inl OobRead"
proof -
  have "mwrite 16 [0] junk = Inr (junk[16 := 0])" using assms(1) by (simp add: mwrite_one)
  then show ?thesis
    using dump_loop_overread [of 0 data "unat n" "junk[16 := 0]"] assms by (simp add: dumphex_def)
qed

end
