(* ===== verification/CtrlIo.thy ===== *)
theory CtrlIo
  imports Sysfs Client HexDump
begin

text \<open>
  The control channel of the client, client/src/platform_linux.cpp: the handle and how it is
  opened (get_udb_ctrl_handle_from_usb, get_udb_ctrl_handle_from_net), and the two calls
  every command makes, udb_ctrl_write and udb_ctrl_read, over a video node (V4L2 extension
  unit), usbdevfs or a UDP socket.

  What the ioctls and the socket do is the record \<open>kernel\<close> over a world of type \<open>'w\<close>.  A
  descriptor is the path it was opened with.  recvfrom blocks until a datagram comes (the
  kernel's \<open>NoReply\<close> when none ever does) or fails; sendto has no result that is looked at.
\<close>

record ctrl_handle =
  ch_devclass :: byte
  ch_prot_size :: u16
  ch_driver :: nat
  ch_fd :: "byte list"
  ch_unitid :: byte
  ch_selector :: byte
  ch_dev_name :: "byte list"
  ch_server :: "byte list \<times> u16"

definition DEV_DRIVR_V4L2 :: nat where "DEV_DRIVR_V4L2 = 1"
definition DEV_DRIVR_USBDEVFS :: nat where "DEV_DRIVR_USBDEVFS = 2"

definition ctrl_handle_zero :: ctrl_handle where
  "ctrl_handle_zero = \<lparr>ch_devclass = 0, ch_prot_size = 0, ch_driver = 0, ch_fd = [], ch_unitid = 0,
     ch_selector = 0, ch_dev_name = [], ch_server = ([], 0)\<rparr>"

subsection \<open>Opening\<close>

definition video_path :: "int \<Rightarrow> byte list" where
  "video_path i = ascii ''/dev/video'' @ fmt_d i"

definition usbfs_path :: "usb_dev_t \<Rightarrow> byte list" where
  "usbfs_path ud = ascii ''/dev/bus/usb/'' @ fmt_0d 3 (unat (ud_busnum ud)) @ ascii ''/'' @
     fmt_0d 3 (unat (ud_devnum ud))"

definition usb_handle :: "usb_dev_t \<Rightarrow> nat \<Rightarrow> byte list \<Rightarrow> ctrl_handle \<Rightarrow> ctrl_handle" where
  "usb_handle ud driver path h =
     h\<lparr>ch_driver := driver, ch_devclass := ud_usbclass ud, ch_fd := path,
       ch_unitid := get_support_list_unitid (ud_vid ud) (ud_pid ud),
       ch_selector := get_support_list_selector (ud_vid ud) (ud_pid ud),
       ch_prot_size := get_support_list_prot_size (ud_vid ud) (ud_pid ud), ch_dev_name := path\<rparr>"

definition get_udb_ctrl_handle_from_usb :: "host \<Rightarrow> usb_dev_t \<Rightarrow> ctrl_handle \<Rightarrow> fault + ctrl_handle" where
  "get_udb_ctrl_handle_from_usb H ud h =
     rbind (get_v4l2_index H (ud_busnum ud) (ud_devnum ud)) (\<lambda>video_index.
     if video_index \<ge> 0 then
       (if \<not> h_open H (video_path video_index) then Inl ExitCall
        else Inr (usb_handle ud DEV_DRIVR_V4L2 (video_path video_index) h))
     else if \<not> h_open H (usbfs_path ud) then Inl ExitCall
     else if h_getdriver H (usbfs_path ud) then Inl ExitCall
     else Inr (usb_handle ud DEV_DRIVR_USBDEVFS (usbfs_path ud) h))"

text \<open>When the name is not resolved the handle stays as it was and the result is -1, which is true.\<close>

definition get_udb_ctrl_handle_from_net :: "host \<Rightarrow> byte list option \<Rightarrow> ctrl_handle \<Rightarrow> fault + ctrl_handle \<times> bool" where
  "get_udb_ctrl_handle_from_net H hostip h =
     (if \<not> h_socket H then Inl ExitCall
      else case hostip of None \<Rightarrow> Inl NullDeref
      | Some name \<Rightarrow>
          (case h_gethostbyname H name of
             None \<Rightarrow> Inr (h, True)
           | Some addr \<Rightarrow>
               Inr (h\<lparr>ch_devclass := NET_CLASS_UDP, ch_prot_size := of_nat UDB_PROT_SIZE_NET_UDP,
                      ch_server := (addr, UDB_NET_UDP_SERVER_PORT)\<rparr>, True)))"

subsection \<open>The kernel\<close>

text \<open>The set-up of a control transfer.\<close>

record usb_ctrl_setup =
  bRequestType :: byte
  bRequest :: byte
  wValue :: u16
  wIndex :: u16
  wLength :: u16

text \<open>
  An ioctl that fails gives \<open>None\<close>: it leaves the buffer alone and returns -1.  recvfrom gets
  the size of the buffer and the length it finds in addrlen; it gives the datagram with the
  address of the sender, or fails, with what it stored in the buffer before.  addrlen is a local
  that is never set: \<open>k_stack_word\<close> is what the stack holds there.
\<close>

datatype recv_outcome = Received "byte list" "byte list \<times> u16" | RecvFailed "byte list"

record 'w kernel =
  k_xu_set :: "byte list \<Rightarrow> byte \<Rightarrow> byte \<Rightarrow> byte list \<Rightarrow> 'w \<Rightarrow> fault + 'w"
  k_xu_get :: "byte list \<Rightarrow> byte \<Rightarrow> byte \<Rightarrow> nat \<Rightarrow> 'w \<Rightarrow> fault + 'w \<times> byte list option"
  k_control_out :: "byte list \<Rightarrow> usb_ctrl_setup \<Rightarrow> byte list \<Rightarrow> 'w \<Rightarrow> fault + 'w"
  k_control_in :: "byte list \<Rightarrow> usb_ctrl_setup \<Rightarrow> 'w \<Rightarrow> fault + 'w \<times> byte list option"
  k_sendto :: "byte list \<times> u16 \<Rightarrow> byte list \<Rightarrow> 'w \<Rightarrow> fault + 'w"
  k_recvfrom :: "nat \<Rightarrow> u32 \<Rightarrow> 'w \<Rightarrow> fault + 'w \<times> recv_outcome"
  k_stack_word :: "'w \<Rightarrow> u32"

subsection \<open>udb_ctrl_write and udb_ctrl_read\<close>

definition ctrl_setup :: "ctrl_handle \<Rightarrow> byte \<Rightarrow> byte \<Rightarrow> nat \<Rightarrow> usb_ctrl_setup" where
  "ctrl_setup h t r n =
     \<lparr>bRequestType = t, bRequest = r, wValue = push_bit 8 (ucast (ch_selector h)),
      wIndex = push_bit 8 (ucast (ch_unitid h)), wLength = of_nat n\<rparr>"

definition uvc_hal_write :: "'w kernel \<Rightarrow> ctrl_handle \<Rightarrow> byte list \<Rightarrow> 'w \<Rightarrow> fault + 'w" where
  "uvc_hal_write K h buf w =
     (if ch_driver h = DEV_DRIVR_USBDEVFS then
        k_control_out K (ch_fd h) (ctrl_setup h 0x21 0x01 (length buf)) buf w
      else if ch_driver h = DEV_DRIVR_V4L2 then
        k_xu_set K (ch_fd h) (ch_selector h) (ch_unitid h) buf w
      else Inr w)"

text \<open>The bytes stored at the start of the buffer, and BytesReturned; -1 is the largest number.\<close>

definition uvc_hal_read :: "'w kernel \<Rightarrow> ctrl_handle \<Rightarrow> nat \<Rightarrow> 'w \<Rightarrow> fault + 'w \<times> byte list \<times> 64 word" where
  "uvc_hal_read K h n w =
     (if ch_driver h = DEV_DRIVR_USBDEVFS then
        rbind (k_control_in K (ch_fd h) (ctrl_setup h 0xa1 0x81 n) w) (\<lambda>(w, r).
        case r of None \<Rightarrow> Inr (w, [], - 1)
        | Some d \<Rightarrow> let d = take n d in Inr (w, d, of_nat (length d)))
      else if ch_driver h = DEV_DRIVR_V4L2 then
        rbind (k_xu_get K (ch_fd h) (ch_selector h) (ch_unitid h) n w) (\<lambda>(w, r).
        Inr (w, (case r of None \<Rightarrow> [] | Some d \<Rightarrow> take n d), of_nat n))
      else Inr (w, [], 0))"

definition net_hal_write :: "'w kernel \<Rightarrow> ctrl_handle \<Rightarrow> byte list \<Rightarrow> 'w \<Rightarrow> fault + 'w" where
  "net_hal_write K h buf w = k_sendto K (ch_server h) buf w"

text \<open>
  The address of the sender goes over the server's in the handle, as far as addrlen allows; a
  sockaddr_in is family, port and address.
\<close>

definition sockaddr_bytes :: "byte list \<times> u16 \<Rightarrow> byte list" where
  "sockaddr_bytes a = [2, 0, ucast (drop_bit 8 (snd a)), ucast (snd a)] @ fst a"

definition sockaddr_store :: "nat \<Rightarrow> byte list \<times> u16 \<Rightarrow> byte list \<times> u16 \<Rightarrow> byte list \<times> u16" where
  "sockaddr_store n sender old =
     (let b = take n (sockaddr_bytes sender) @ drop n (sockaddr_bytes old) in
      (drop 4 b, push_bit 8 (ucast (b ! 2)) + ucast (b ! 3)))"

text \<open>The result of recvfrom goes to BytesReturned unseen, -1 included, and the function returns true.\<close>

definition net_hal_read ::
  "'w kernel \<Rightarrow> ctrl_handle \<Rightarrow> nat \<Rightarrow> 'w \<Rightarrow> fault + 'w \<times> ctrl_handle \<times> byte list \<times> 64 word" where
  "net_hal_read K h n w =
     (let addrlen = k_stack_word K w in
      rbind (k_recvfrom K n addrlen w) (\<lambda>(w, r).
      case r of
        Received d sender \<Rightarrow>
          let d = take n d in
          Inr (w, h\<lparr>ch_server := sockaddr_store (unat addrlen) sender (ch_server h)\<rparr>, d, of_nat (length d))
      | RecvFailed d \<Rightarrow> Inr (w, h, take n d, - 1)))"

text \<open>The result tells whether the class of the device is one the client can talk to; no caller looks.\<close>

definition udb_ctrl_write :: "'w kernel \<Rightarrow> ctrl_handle \<Rightarrow> byte list \<Rightarrow> 'w \<Rightarrow> fault + 'w \<times> bool" where
  "udb_ctrl_write K h buf w =
     (if ch_devclass h = USB_CLASS_UVC then rbind (uvc_hal_write K h buf w) (\<lambda>w. Inr (w, True))
      else if ch_devclass h = NET_CLASS_UDP then rbind (net_hal_write K h buf w) (\<lambda>w. Inr (w, True))
      else Inr (w, False))"

definition udb_ctrl_read ::
  "'w kernel \<Rightarrow> ctrl_handle \<Rightarrow> nat \<Rightarrow> 'w \<Rightarrow> fault + 'w \<times> ctrl_handle \<times> byte list \<times> 64 word \<times> bool" where
  "udb_ctrl_read K h n w =
     (if ch_devclass h = USB_CLASS_UVC then
        rbind (uvc_hal_read K h n w) (\<lambda>(w, d, nr). Inr (w, h, d, nr, True))
      else if ch_devclass h = NET_CLASS_UDP then
        rbind (net_hal_read K h n w) (\<lambda>(w, h, d, nr). Inr (w, h, d, nr, True))
      else Inr (w, h, [], 0, False))"

text \<open>
  The device of \<open>Client\<close> behind a handle: a write and the read that follows it.  The commands
  that use only the bytes of the buffer see nothing else of the channel.  The handle is a
  global that a read changes, so it is part of the state.
\<close>

fun ctrl_device :: "'w kernel \<Rightarrow> ('w \<times> ctrl_handle) device" where
  "ctrl_device K (w, h) wb =
     rbind (udb_ctrl_write K h wb w) (\<lambda>(w, _).
     rbind (udb_ctrl_read K h (unat (ch_prot_size h)) w) (\<lambda>(w, h, d, _).
     Inr ((w, h), Some d)))"

text \<open>
  auth and raw_set also show what was written and what was read: dumphex of the request, then
  dumphex of BytesReturned bytes (as a 32-bit length) of the read buffer.
\<close>

definition dump_xfer :: "'w kernel \<Rightarrow> ctrl_handle \<Rightarrow> byte list \<Rightarrow> byte list \<Rightarrow> 'w \<Rightarrow> fault + 'w \<times> byte list" where
  "dump_xfer K h junk wb w =
     (let P = unat (ch_prot_size h) in
      rbind (udb_ctrl_write K h wb w) (\<lambda>(w, _).
      rbind (udb_ctrl_read K h P w) (\<lambda>(w, _, d, nr_read, _).
      rbind (dumphex junk wb (of_nat P)) (\<lambda>sent.
      rbind (dumphex junk (d @ drop (length d) (replicate (P + 1) 0)) (ucast nr_read)) (\<lambda>got.
      Inr (w, sent @ got))))))"

definition auth_dump :: "'w kernel \<Rightarrow> ctrl_handle \<Rightarrow> byte list \<Rightarrow> 'w \<Rightarrow> fault + 'w \<times> byte list" where
  "auth_dump K h junk w =
     rbind (new_request (unat (ch_prot_size h)) UDB_AUTH) (\<lambda>wb.
     rbind (mwrite 4 auth_cmd wb) (\<lambda>wb.
     dump_xfer K h junk wb w))"

definition raw_set_dump :: "'w kernel \<Rightarrow> ctrl_handle \<Rightarrow> byte list \<Rightarrow> byte list list \<Rightarrow> 'w \<Rightarrow> fault + 'w \<times> byte list" where
  "raw_set_dump K h junk args w =
     rbind (raw_fill (map (\<lambda>a. ucast (strtoul 16 a)) args) 0 (replicate (unat (ch_prot_size h)) 0)) (\<lambda>wb.
     dump_xfer K h junk wb w)"

end
