(* ===== verification/ClientMain.thy ===== *)
theory ClientMain
  imports CtrlIo
begin

text \<open>
  The client program, client/src/udb.cpp: main takes the device from -i, -d or -s, then runs the
  command.  argv is the list of its arguments; \<open>argv[argc]\<close> is NULL, and a read behind it is
  \<open>OobRead\<close>.  Every command of udb first opens the control handle (\<open>open_ctrl\<close>), ignoring what
  that returned, and works on the channel of \<open>CtrlIo\<close>.

  The commands that belong to other programs (cap, view, dfu, hub, lsusb, adb, upnp, usbmon) are
  named in the outcome with the arguments they get.  Progress lines, build times and times are
  not modelled; the local files of push and pull are the arguments \<open>local\<close> and \<open>can_create\<close>.
\<close>

record client =
  cl_dev_index :: int
  cl_net_dev :: "byte list option"
  cl_usb_dev :: usb_dev_t
  cl_udb_ctrl :: ctrl_handle

definition client_start :: client where
  "client_start = \<lparr>cl_dev_index = 1, cl_net_dev = None, cl_usb_dev = usb_dev_zero,
     cl_udb_ctrl = ctrl_handle_zero\<rparr>"

text \<open>What a run leaves: text on the terminal, a local file, or the hand-over to another program.\<close>

datatype outcome =
    PrintUsage
  | Printed "byte list"
  | PrintedLines "byte list list"
  | WroteFile "byte list" "byte list"
  | CannotOpen "byte list"
  | Silent
  | Runs string "byte list list"

text \<open>The surroundings of a run: host, kernel, stack bytes, standard input and local files.\<close>

record 'w setting =
  se_host :: host
  se_kernel :: "'w kernel"
  se_junk :: "byte list"
  se_stdin :: "byte list list"
  se_local :: "byte list \<Rightarrow> byte list option"
  se_can_create :: "byte list \<Rightarrow> bool"
  se_disconnect :: "byte list \<Rightarrow> 'w \<Rightarrow> 'w \<times> bool"
  se_connect :: "byte list \<Rightarrow> 'w \<Rightarrow> 'w \<times> bool"
  se_reset :: "byte list \<Rightarrow> 'w \<Rightarrow> 'w \<times> bool"
  se_strerror :: "byte list"

subsection \<open>Opening the device\<close>

definition open_usb :: "host \<Rightarrow> client \<Rightarrow> fault + client" where
  "open_usb H c =
     rbind (select_usb_dev_by_index H (cl_dev_index c) (cl_usb_dev c)) (\<lambda>ud.
     rbind (get_udb_ctrl_handle_from_usb H ud (cl_udb_ctrl c)) (\<lambda>h.
     Inr (c\<lparr>cl_usb_dev := ud, cl_udb_ctrl := h\<rparr>)))"

definition open_ctrl :: "host \<Rightarrow> client \<Rightarrow> fault + client" where
  "open_ctrl H c =
     (if cl_dev_index c > 0 then open_usb H c
      else rbind (get_udb_ctrl_handle_from_net H (cl_net_dev c) (cl_udb_ctrl c)) (\<lambda>(h, _).
           Inr (c\<lparr>cl_udb_ctrl := h\<rparr>)))"

text \<open>The kernel-driver commands open the device only when an index is set.\<close>

definition open_index :: "host \<Rightarrow> client \<Rightarrow> fault + client" where
  "open_index H c = (if cl_dev_index c > 0 then open_usb H c else Inr c)"

subsection \<open>detach, attach and usbreset\<close>

definition uvc_detach_kernel_driver :: "'w setting \<Rightarrow> usb_dev_t \<Rightarrow> 'w \<Rightarrow> fault + 'w \<times> byte list \<times> bool" where
  "uvc_detach_kernel_driver S ud w =
     rbind (get_v4l2_index (se_host S) (ud_busnum ud) (ud_devnum ud)) (\<lambda>video_index.
     if video_index < 0 then Inl ExitCall
     else if \<not> h_open (se_host S) (usbfs_path ud) then Inl ExitCall
     else let (w, ok) = (if h_getdriver (se_host S) (usbfs_path ud) then se_disconnect S (usbfs_path ud) w
                         else (w, True)) in
       if \<not> ok then Inr (w, ascii ''detach kernel driver failed'', False)
       else Inr (w, ascii ''Detach uvc /dev/video'' @ fmt_d video_index @ ascii '' from kernel'' @ [NEWLINE], True))"

text \<open>
  The ioctl that connects gives 0 when no driver took the interface, which is the failure the
  code reports; an error (-1) counts as success, so \<open>se_connect\<close> tells only whether the result
  was different from 0.
\<close>

definition uvc_attach_kernel_driver :: "'w setting \<Rightarrow> usb_dev_t \<Rightarrow> 'w \<Rightarrow> fault + 'w \<times> byte list \<times> bool" where
  "uvc_attach_kernel_driver S ud w =
     (let head = ascii ''Attach uvc '' @ usbfs_path ud @ ascii '' to kernel'' @ [NEWLINE] in
      if \<not> h_open (se_host S) (usbfs_path ud) then Inl ExitCall
      else let (w, nonzero) = (if h_getdriver (se_host S) (usbfs_path ud) then (w, True)
                               else se_connect S (usbfs_path ud) w) in
        if \<not> nonzero then Inr (w, head @ ascii ''attach kernel driver failed'', False)
        else rbind (get_v4l2_index (se_host S) (ud_busnum ud) (ud_devnum ud)) (\<lambda>video_index.
             Inr (w, head @ (if video_index \<ge> 0
                             then ascii ''Attach uvc /dev/video'' @ fmt_d video_index @ ascii '' to kernel'' @ [NEWLINE]
                             else []), True)))"

definition detach :: "'w setting \<Rightarrow> client \<Rightarrow> 'w \<Rightarrow> fault + 'w \<times> outcome" where
  "detach S c w =
     rbind (open_index (se_host S) c) (\<lambda>c.
     if ud_usbclass (cl_usb_dev c) = USB_CLASS_UVC then
       rbind (uvc_detach_kernel_driver S (cl_usb_dev c) w) (\<lambda>(w, t, _). Inr (w, Printed t))
     else Inr (w, Silent))"

definition attach :: "'w setting \<Rightarrow> client \<Rightarrow> 'w \<Rightarrow> fault + 'w \<times> outcome" where
  "attach S c w =
     rbind (open_index (se_host S) c) (\<lambda>c.
     if ud_usbclass (cl_usb_dev c) = USB_CLASS_UVC then
       rbind (uvc_attach_kernel_driver S (cl_usb_dev c) w) (\<lambda>(w, t, _). Inr (w, Printed t))
     else Inr (w, Silent))"

definition usbreset :: "'w setting \<Rightarrow> client \<Rightarrow> 'w \<Rightarrow> fault + 'w \<times> outcome" where
  "usbreset S c w =
     rbind (open_index (se_host S) c) (\<lambda>c.
     rbind (cstr 0 (ud_sn (cl_usb_dev c))) (\<lambda>sn.
     let path = usbfs_path (cl_usb_dev c); head = ascii ''Resetting '' @ sn @ ascii '' ... '' in
     if h_open (se_host S) path then
       (case se_reset S path w of (w, ok) \<Rightarrow>
         Inr (w, Printed (head @ (if ok then ascii ''ok'' else ascii ''failed ['' @ se_strerror S @ ascii '']'') @
           [NEWLINE])))
     else Inr (w, Printed (head @ ascii ''can't open ['' @ se_strerror S @ ascii '']'' @ [NEWLINE]))))"

subsection \<open>The commands of udb\<close>

definition arg_at :: "byte list list \<Rightarrow> nat \<Rightarrow> fault + byte list option" where
  "arg_at argv i =
     (if i < length argv then Inr (Some (argv ! i)) else if i = length argv then Inr None else Inl OobRead)"

text \<open>An argument that is passed to strcmp or strtoul: NULL is dereferenced.\<close>

definition str_arg :: "byte list list \<Rightarrow> nat \<Rightarrow> fault + byte list" where
  "str_arg argv i =
     rbind (arg_at argv i) (\<lambda>a. case a of None \<Rightarrow> Inl NullDeref | Some t \<Rightarrow> Inr t)"

text \<open>The device and the protocol size of an opened client; the handle goes along as a part of the state.\<close>

definition cl_device :: "'w setting \<Rightarrow> ('w \<times> ctrl_handle) device" where
  "cl_device S = ctrl_device (se_kernel S)"

definition cl_prot :: "client \<Rightarrow> nat" where
  "cl_prot c = unat (ch_prot_size (cl_udb_ctrl c))"

definition on_handle :: "fault + ('w \<times> ctrl_handle) \<times> byte list \<Rightarrow> fault + 'w \<times> byte list" where
  "on_handle r = rbind r (\<lambda>((w, _), t). Inr (w, t))"

definition printed :: "fault + 'w \<times> byte list \<Rightarrow> fault + 'w \<times> outcome" where
  "printed r = rbind r (\<lambda>(w, t). Inr (w, Printed t))"

text \<open>pull_file and push_file of file.cpp from their arguments on.\<close>

definition pull_main :: "nat \<Rightarrow> 'w setting \<Rightarrow> byte list list \<Rightarrow> client \<Rightarrow> 'w \<Rightarrow> fault + 'w \<times> outcome" where
  "pull_main fuel S argv c w =
     rbind (arg_at argv 0) (\<lambda>local_path.
     rbind (arg_at argv 1) (\<lambda>dev_path.
     case (local_path, dev_path) of
       (Some l, Some d) \<Rightarrow>
         rbind (open_ctrl (se_host S) c) (\<lambda>c.
         if \<not> se_can_create S l then Inr (w, CannotOpen l)
         else rbind (pull_file fuel (cl_device S) (cl_prot c) d (w, cl_udb_ctrl c)) (\<lambda>((w, _), content).
              Inr (w, WroteFile l content)))
     | _ \<Rightarrow> Inr (w, PrintUsage)))"

definition push_main :: "nat \<Rightarrow> 'w setting \<Rightarrow> byte list list \<Rightarrow> client \<Rightarrow> 'w \<Rightarrow> fault + 'w \<times> outcome" where
  "push_main fuel S argv c w =
     rbind (arg_at argv 0) (\<lambda>local_path.
     rbind (arg_at argv 1) (\<lambda>dev_path.
     case (local_path, dev_path) of
       (Some l, Some d) \<Rightarrow>
         rbind (open_ctrl (se_host S) c) (\<lambda>c.
         case se_local S l of
           None \<Rightarrow> Inr (w, CannotOpen l)
         | Some content \<Rightarrow>
             rbind (push_file fuel (cl_device S) (cl_prot c) content d (w, cl_udb_ctrl c)) (\<lambda>(w, _).
             Inr (w, Silent)))
     | _ \<Rightarrow> Inr (w, PrintUsage)))"

text \<open>The commands that only talk over the channel.\<close>

definition talk_main ::
  "nat \<Rightarrow> 'w setting \<Rightarrow> string \<Rightarrow> byte list list \<Rightarrow> client \<Rightarrow> 'w \<Rightarrow> fault + 'w \<times> outcome" where
  "talk_main fuel S cmd argv c w =
     rbind (open_ctrl (se_host S) c) (\<lambda>c.
     let dev = cl_device S; P = cl_prot c; h = cl_udb_ctrl c in
     printed
       (if cmd = ''auth'' then auth_dump (se_kernel S) h (se_junk S) w
        else if cmd = ''rawset'' then raw_set_dump (se_kernel S) h (se_junk S) argv w
        else if cmd = ''interactive'' then on_handle (interactive_shell fuel dev P (se_stdin S) (w, h))
        else if cmd = ''shell'' then on_handle (exec_cmd fuel dev P argv (w, h))
        else if cmd = ''runcmd'' then on_handle (exec_cmd_wait fuel dev P argv (w, h))
        else on_handle (msh_exec_cmd fuel dev P argv (w, h))))"

text \<open>
  The chain of comparisons behind the label \<open>main_handle\<close>.  The other programs get the
  arguments from the command on; lsusb -t is followed by the list of the client.
\<close>

definition lsusb_main :: "'w setting \<Rightarrow> byte list list \<Rightarrow> 'w \<Rightarrow> fault + 'w \<times> outcome list" where
  "lsusb_main S argv w =
     (if 1 < length argv \<and> take 2 (argv ! 1) = ascii ''-t'' then
        rbind (print_lsusb_list (se_host S)) (\<lambda>ls. Inr (w, [Runs ''lsusb'' argv, PrintedLines ls]))
      else Inr (w, [Runs ''lsusb'' argv]))"

definition one :: "fault + 'w \<times> outcome \<Rightarrow> fault + 'w \<times> outcome list" where
  "one r = rbind r (\<lambda>(w, out). Inr (w, [out]))"

definition main_handle ::
  "nat \<Rightarrow> 'w setting \<Rightarrow> byte list list \<Rightarrow> client \<Rightarrow> 'w \<Rightarrow> fault + 'w \<times> outcome list" where
  "main_handle fuel S argv c w =
     rbind (str_arg argv 1) (\<lambda>cmd.
     let rest = drop 1 argv; args = drop 2 argv in
     if cmd = ascii ''detach'' then one (detach S c w)
     else if cmd = ascii ''attach'' then one (attach S c w)
     else if cmd = ascii ''usbreset'' then one (usbreset S c w)
     else if cmd = ascii ''usbmon'' then Inr (w, [Runs ''usbmon'' []])
     else if cmd = ascii ''cap'' then Inr (w, [Runs ''capture'' rest])
     else if cmd = ascii ''view'' then Inr (w, [Runs ''view'' rest])
     else if cmd = ascii ''dfu'' then Inr (w, [Runs ''dfu_main'' rest])
     else if cmd = ascii ''hub'' then Inr (w, [Runs ''uhubctl_main'' rest])
     else if cmd = ascii ''lsusb'' then lsusb_main S rest w
     else if cmd = ascii ''adb'' then Inr (w, [Runs ''adb_main_func'' rest])
     else if cmd = ascii ''upnp'' then Inr (w, [Runs ''list_upnpc_main'' rest])
     else if cmd = ascii ''auth'' then one (talk_main fuel S ''auth'' args c w)
     else if cmd = ascii ''push'' then one (push_main fuel S args c w)
     else if cmd = ascii ''pull'' then one (pull_main fuel S args c w)
     else if cmd = ascii ''shell'' then
       (if length argv = 2 then one (talk_main fuel S ''interactive'' [] c w)
        else one (talk_main fuel S ''shell'' args c w))
     else if cmd = ascii ''runcmd'' then one (talk_main fuel S ''runcmd'' args c w)
     else if cmd = ascii ''msh'' then one (talk_main fuel S ''msh'' args c w)
     else if cmd = ascii ''rawset'' then one (talk_main fuel S ''rawset'' args c w)
     else if cmd = ascii ''rawget'' then Inr (w, [Printed (ascii ''not support right now'' @ [NEWLINE])])
     else Inr (w, [PrintUsage]))"

subsection \<open>main\<close>

text \<open>The number of -d, an unsigned long stored in an int.\<close>

definition clamp_index :: "int \<Rightarrow> int" where
  "clamp_index i = (if i < 1 then 1 else i)"

definition udb_main :: "nat \<Rightarrow> 'w setting \<Rightarrow> byte list list \<Rightarrow> 'w \<Rightarrow> fault + 'w \<times> outcome list" where
  "udb_main fuel S argv w =
     (if length argv \<le> 1 then Inr (w, [PrintUsage])
      else
        let opt = argv ! 1; H = se_host S; c = client_start in
        if opt = ascii ''-i'' then
          (if length argv < 4 then Inr (w, [PrintUsage])
           else main_handle fuel S (drop 2 argv)
                  (c\<lparr>cl_dev_index := 0, cl_net_dev := Some (argv ! 2)\<rparr>) w)
        else if opt = ascii ''-d'' then
          rbind (str_arg argv 2) (\<lambda>t.
          main_handle fuel S (drop 2 argv)
            (c\<lparr>cl_dev_index := clamp_index (sint (ucast (strtoul 10 t) :: u32))\<rparr>) w)
        else if opt = ascii ''-s'' then
          rbind (arg_at argv 2) (\<lambda>sn.
          rbind (convert_sn_to_index H sn) (\<lambda>i.
          main_handle fuel S (drop 2 argv) (c\<lparr>cl_dev_index := clamp_index (int i)\<rparr>) w))
        else if opt = ascii ''list'' then
          rbind (print_connected_list H) (\<lambda>ls.
          Inr (w, [Printed (ascii ''Support USB list'' @ [NEWLINE] @ print_support_list @ [NEWLINE] @
                            ascii ''Connected USB list'' @ [NEWLINE]), PrintedLines ls]))
        else main_handle fuel S argv c w)"

end
