(* ===== verification/DeviceSim.thy ===== *)
theory DeviceSim
  imports CtrlIo NetDevice
begin

text \<open>
  The client on two devices that answer alike.  \<open>device_sim\<close> is the contract: a round trip on
  the second device, in the image of a state of the first, is the round trip on the first.
  Every operation of the client then does the same on both.  The UDP socket of the client,
  with the daemon at the other end, is such a device for \<open>net_device\<close>.
\<close>

text \<open>Outcomes carried over to the second state space.\<close>

definition lift_st :: "('s \<Rightarrow> 't) \<Rightarrow> fault + 's \<times> 'a \<Rightarrow> fault + 't \<times> 'a" where
  "lift_st wrap r = rbind r (\<lambda>(s, a). Inr (wrap s, a))"

lemma lift_st_simps [simp]:
  "lift_st wrap (Inl e) = Inl e" "lift_st wrap (Inr (s, a)) = Inr (wrap s, a)"
  by (simp_all add: lift_st_def)

text \<open>The same for an outcome that is a state alone.\<close>

definition lift_s :: "('s \<Rightarrow> 't) \<Rightarrow> fault + 's \<Rightarrow> fault + 't" where
  "lift_s wrap r = rbind r (\<lambda>s. Inr (wrap s))"

lemma lift_s_simps [simp]: "lift_s wrap (Inl e) = Inl e" "lift_s wrap (Inr s) = Inr (wrap s)"
  by (simp_all add: lift_s_def)

text \<open>
  Two programs are related step by step: a step that does not touch the device is the same on
  both sides, a branch is taken on both sides, a round trip is the contract of the locale.
\<close>

named_theorems sim_intros

lemma sim_pure [sim_intros]:
  "(\<And>a. k a = lift_st wrap (k' a)) \<Longrightarrow> rbind m k = lift_st wrap (rbind m k')"
  "(\<And>a. l a = lift_s wrap (l' a)) \<Longrightarrow> rbind m l = lift_s wrap (rbind m l')"
  by (cases m; simp)+

lemma sim_pair [sim_intros]:
  "(\<And>a b. k a b = lift_st wrap (k' a b)) \<Longrightarrow>
     rbind m (\<lambda>(a, b). k a b) = lift_st wrap (rbind m (\<lambda>(a, b). k' a b))"
  "(\<And>a b. l a b = lift_s wrap (l' a b)) \<Longrightarrow>
     rbind m (\<lambda>(a, b). l a b) = lift_s wrap (rbind m (\<lambda>(a, b). l' a b))"
  by (cases m; auto)+

lemma sim_if [sim_intros]:
  "(b \<Longrightarrow> x = lift_st wrap x') \<Longrightarrow> (\<not> b \<Longrightarrow> y = lift_st wrap y') \<Longrightarrow>
     (if b then x else y) = lift_st wrap (if b then x' else y')"
  "(b \<Longrightarrow> u = lift_s wrap u') \<Longrightarrow> (\<not> b \<Longrightarrow> v = lift_s wrap v') \<Longrightarrow>
     (if b then u else v) = lift_s wrap (if b then u' else v')"
  by simp_all

lemma sim_ret [sim_intros]:
  "Inr (wrap s, a) = lift_st wrap (Inr (s, a))" "Inr (wrap s) = lift_s wrap (Inr s)"
  "Inl e = lift_st wrap (Inl e)" "Inl e = lift_s wrap (Inl e)"
  by simp_all

lemma sim_then:
  assumes "r = lift_st wrap r'" and "\<And>s a. k (wrap s) a = lift_st wrap (k' s a)"
  shows "rbind r (\<lambda>(s, a). k s a) = lift_st wrap (rbind r' (\<lambda>(s, a). k' s a))"
  using assms by (cases r') auto

lemma sim_then_s:
  assumes "r = lift_s wrap r'" and "\<And>s. k (wrap s) = lift_s wrap (k' s)"
  shows "rbind r k = lift_s wrap (rbind r' k')"
  using assms by (cases r') auto

locale device_sim =
  fixes xfer :: "'s device" and xfer' :: "'t device" and P :: nat and wrap :: "'s \<Rightarrow> 't"
  assumes xfer_sim: "udb_xfer xfer' P (wrap s) wb = lift_st wrap (udb_xfer xfer P s wb)"
begin

lemma sim_xfer:
  assumes "\<And>s rb n. k (wrap s) rb n = lift_st wrap (k' s rb n)"
  shows "rbind (udb_xfer xfer' P (wrap s) wb) (\<lambda>(s, rb, n). k s rb n)
    = lift_st wrap (rbind (udb_xfer xfer P s wb) (\<lambda>(s, rb, n). k' s rb n))"
  unfolding xfer_sim using assms by (cases "udb_xfer xfer P s wb") auto

lemma sim_xfer_s:
  assumes "\<And>s. k (wrap s) = lift_s wrap (k' s)"
  shows "rbind (udb_xfer xfer' P (wrap s) wb) (\<lambda>(s, _). k s)
    = lift_s wrap (rbind (udb_xfer xfer P s wb) (\<lambda>(s, _). k' s))"
  unfolding xfer_sim using assms by (cases "udb_xfer xfer P s wb") auto

lemma pullout_loop_sim:
  "pullout_loop fuel sink xfer' P chan n (wrap s) out = lift_st wrap (pullout_loop fuel sink xfer P chan n s out)"
proof (induction fuel arbitrary: n s out)
  case (Suc fuel)
  show ?case
    unfolding pullout_loop.simps Let_def by (intro sim_xfer Suc.IH sim_intros)
qed simp

lemma pull_file_sim: "pull_file fuel xfer' P path (wrap s) = lift_st wrap (pull_file fuel xfer P path s)"
  unfolding pull_file_def by (intro sim_xfer pullout_loop_sim sim_intros)

lemma push_loop_sim: "push_loop fuel xfer' P n rest (wrap s) = lift_s wrap (push_loop fuel xfer P n rest s)"
proof (induction fuel arbitrary: n rest s)
  case (Suc fuel)
  show ?case
    unfolding push_loop.simps Let_def by (intro sim_xfer_s Suc.IH sim_intros)
qed simp

lemma push_file_sim:
  "push_file fuel xfer' P content path (wrap s) = lift_s wrap (push_file fuel xfer P content path s)"
  unfolding push_file_def Let_def
  by (intro sim_xfer_s sim_then_s [OF push_loop_sim] sim_intros)

lemma exec_on_sim:
  "exec_on c p fuel xfer' P args (wrap s) = lift_st wrap (exec_on c p fuel xfer P args s)"
  unfolding exec_on_def by (intro sim_xfer pullout_loop_sim sim_intros)

lemma exec_cmd_sim: "exec_cmd fuel xfer' P args (wrap s) = lift_st wrap (exec_cmd fuel xfer P args s)"
  unfolding exec_cmd_def by (rule exec_on_sim)

lemma msh_exec_cmd_sim:
  "msh_exec_cmd fuel xfer' P args (wrap s) = lift_st wrap (msh_exec_cmd fuel xfer P args s)"
  unfolding msh_exec_cmd_def by (rule exec_on_sim)

lemma wait_loop_sim:
  "wait_loop_client fuel xfer' P (wrap s) out = lift_st wrap (wait_loop_client fuel xfer P s out)"
proof (induction fuel arbitrary: s out)
  case (Suc fuel)
  show ?case
    unfolding wait_loop_client.simps by (intro sim_xfer Suc.IH sim_intros)
qed simp

lemma exec_cmd_wait_sim:
  "exec_cmd_wait fuel xfer' P args (wrap s) = lift_st wrap (exec_cmd_wait fuel xfer P args s)"
  unfolding exec_cmd_wait_def by (intro sim_xfer wait_loop_sim sim_intros)

lemma shell_cmd_sim:
  "shell_cmd fuel sink xfer' P payload (wrap s) = lift_st wrap (shell_cmd fuel sink xfer P payload s)"
  unfolding shell_cmd_def by (intro sim_xfer pullout_loop_sim sim_intros)

lemma shell_lines_sim:
  "shell_lines fuel xfer' P ls (wrap s) = lift_st wrap (shell_lines fuel xfer P ls s)"
proof (induction ls arbitrary: s)
  case (Cons l ls)
  show ?case
    unfolding shell_lines.simps by (intro sim_then [OF shell_cmd_sim] sim_then [OF Cons.IH] sim_intros)
qed simp

lemma interactive_shell_sim:
  "interactive_shell fuel xfer' P ls (wrap s) = lift_st wrap (interactive_shell fuel xfer P ls s)"
  unfolding interactive_shell_def
  by (intro sim_then [OF shell_cmd_sim] sim_then [OF shell_lines_sim] sim_intros)

end

subsection \<open>The daemon behind a UDP socket\<close>

text \<open>The daemon, and the datagrams that have come back to the client's socket.\<close>

record net_world =
  nw_daemon :: udbd
  nw_inbox :: "byte list list"

definition idle_world :: "udbd \<Rightarrow> net_world" where
  "idle_world s = \<lparr>nw_daemon = s, nw_inbox = []\<rparr>"

text \<open>
  A network that loses nothing: a datagram for the server is a turn of the daemon's loop.
  recvfrom takes the first datagram and fails behind that (EINVAL) when the length in addrlen is
  negative; \<open>kept\<close> says whether the bytes are in the buffer then.  \<open>len\<close> is what the stack holds
  for addrlen.
\<close>

definition udp_kernel :: "env \<Rightarrow> byte list \<times> u16 \<Rightarrow> u32 \<Rightarrow> bool \<Rightarrow> net_world kernel" where
  "udp_kernel E server len kept =
     \<lparr>k_xu_set = (\<lambda>_ _ _ _ w. Inr w), k_xu_get = (\<lambda>_ _ _ _ w. Inr (w, None)),
      k_control_out = (\<lambda>_ _ _ w. Inr w), k_control_in = (\<lambda>_ _ w. Inr (w, None)),
      k_sendto = (\<lambda>dst d w.
        if dst = server then
          rbind (net_debugd_step E (RecvMsg d) (nw_daemon w)) (\<lambda>(s, reply).
          Inr (w\<lparr>nw_daemon := s, nw_inbox := nw_inbox w @ (case reply of None \<Rightarrow> [] | Some r \<Rightarrow> [r])\<rparr>))
        else Inr w),
      k_recvfrom = (\<lambda>n addrlen w.
        case nw_inbox w of [] \<Rightarrow> Inl NoReply
        | d # ds \<Rightarrow>
            Inr (w\<lparr>nw_inbox := ds\<rparr>,
              if sint addrlen < 0 then RecvFailed (if kept then take n d else [])
              else Received (take n d) server)),
      k_stack_word = (\<lambda>w. len)\<rparr>"

definition net_handle_at :: "byte list \<Rightarrow> ctrl_handle" where
  "net_handle_at addr =
     ctrl_handle_zero\<lparr>ch_devclass := NET_CLASS_UDP, ch_prot_size := of_nat UDB_PROT_SIZE_NET_UDP,
       ch_server := (addr, UDB_NET_UDP_SERVER_PORT)\<rparr>"

lemma net_handle_at_simps [simp]:
  "ch_devclass (net_handle_at a) = NET_CLASS_UDP" "ch_server (net_handle_at a) = (a, UDB_NET_UDP_SERVER_PORT)"
  "unat (ch_prot_size (net_handle_at a)) = 1470"
  by (simp_all add: net_handle_at_def UDB_PROT_SIZE_NET_UDP_def)

lemma net_class_not_uvc [simp]: "NET_CLASS_UDP \<noteq> USB_CLASS_UVC"
  by (simp add: NET_CLASS_UDP_def USB_CLASS_UVC_def)

text \<open>The sender is the server: its address goes over itself, whole or in part.\<close>

lemma sockaddr_store_same [simp]: "sockaddr_store n a a = a"
proof -
  have "(push_bit 8 (ucast (ucast (drop_bit 8 p) :: byte)) + ucast (ucast p :: byte)) = p" for p :: u16
  proof -
    have d: "push_bit 8 (drop_bit 8 p) + take_bit 8 p = p"
      by (simp add: push_bit_eq_mult drop_bit_eq_div take_bit_eq_mod div_mult_mod_eq)
    have "(ucast (ucast (drop_bit 8 p) :: byte) :: u16) = drop_bit 8 p"
      by (rule bit_word_eqI) (auto simp: bit_unsigned_iff bit_drop_bit_eq dest: bit_imp_le_length)
    moreover have "(ucast (ucast p :: byte) :: u16) = take_bit 8 p"
      by (rule bit_word_eqI) (auto simp: bit_unsigned_iff bit_take_bit_iff)
    ultimately show ?thesis using d by simp
  qed
  then show ?thesis
    by (simp add: sockaddr_store_def sockaddr_bytes_def Let_def prod_eq_iff)
qed

lemma ch_server_same [simp]: "h\<lparr>ch_server := ch_server h\<rparr> = h"
  by (cases h) simp

text \<open>A length that is not negative has 31 bits.\<close>

lemma sint_neg_bit: "sint (w :: u32) < 0 \<longleftrightarrow> bit w 31"
  by (simp add: sint_uint bit_uint_iff flip: not_le)

lemma sint_ucast_31: "\<not> sint (ucast (l :: 31 word) :: u32) < 0"
  unfolding sint_neg_bit by (auto simp: bit_unsigned_iff dest: bit_imp_le_length)

lemma nonneg_31: "0 \<le> sint (len :: u32) \<Longrightarrow> \<exists>l :: 31 word. len = ucast l"
proof (rule exI [of _ "ucast len"], rule bit_word_eqI)
  fix n assume s: "0 \<le> sint len" and n: "n < LENGTH(32)"
  then have "\<not> bit len 31" using sint_neg_bit [of len] by simp
  moreover have "n < 31 \<or> n = 31" using n by auto
  ultimately show "bit len n \<longleftrightarrow> bit (ucast (ucast len :: 31 word) :: u32) n" by (auto simp: bit_unsigned_iff)
qed

definition net_wrap :: "byte list \<Rightarrow> udbd \<Rightarrow> net_world \<times> ctrl_handle" where
  "net_wrap addr s = (idle_world s, net_handle_at addr)"

interpretation udp: device_sim "net_device E"
    "ctrl_device (udp_kernel E (addr, UDB_NET_UDP_SERVER_PORT) (ucast (l :: 31 word)) kept)" 1470 "net_wrap addr"
  for E addr l kept
proof
  fix s wb
  have n: "\<not> sint (ucast l :: u32) < 0" by (rule sint_ucast_31)
  have h: "net_handle_at addr\<lparr>ch_server := sockaddr_store k (addr, UDB_NET_UDP_SERVER_PORT)
      (ch_server (net_handle_at addr))\<rparr> = net_handle_at addr" for k
    by (simp add: net_handle_at_def)
  show "udb_xfer (ctrl_device (udp_kernel E (addr, UDB_NET_UDP_SERVER_PORT) (ucast l) kept)) 1470
      (net_wrap addr s) wb = lift_st (net_wrap addr) (udb_xfer (net_device E) 1470 s wb)"
    by (cases "net_debugd_step E (RecvMsg wb) s")
      (auto simp: udb_xfer_def udb_ctrl_write_def udb_ctrl_read_def net_hal_write_def net_wrap_def n h [simplified]
        net_hal_read_def udp_kernel_def net_device_def idle_world_def Let_def split: option.splits)
qed

end
