(* ===== verification/DeviceChoice.thy ===== *)
theory DeviceChoice
  imports Sysfs
begin

text \<open>
  Which device the client works on.  \<open>sysfs_shows H nodes\<close> says what the kernel documents of
  /sys/bus/usb/devices: an entry is a device, with its numbers in the formats of the USB core
  (vendor and product %04x, bus and device %d, a serial number when the device has one), or an
  interface, without these files.  Over such a directory the scans of platform_linux.cpp are
  functions of the list of supported devices, in the order of the directory.
\<close>

record usb_info =
  ui_vid :: u16
  ui_pid :: u16
  ui_bus :: byte
  ui_dev :: byte
  ui_devpath :: "byte list"
  ui_serial :: "byte list option"
  ui_product :: "byte list option"

type_synonym usb_node = "byte list \<times> usb_info option"

subsection \<open>Numbers read back\<close>

lemma num_of_append: "num_of base (xs @ ys) = fold (\<lambda>c v. base * v + digit_of c) ys (num_of base xs)"
  by (simp add: num_of_def)

lemma num_of_snoc: "num_of base (xs @ [c]) = base * num_of base xs + digit_of c"
  by (simp add: num_of_append)

lemma num_of_zeros: "num_of base (replicate k 0x30 @ ds) = num_of base ds"
  by (induction k) (simp_all add: num_of_def digit_of_def)

lemma digit_of_hex_digit [simp]:
  assumes "d < 16"
  shows "digit_of (hex_digit d) = d"
proof -
  have "\<forall>d\<in>set [0..<16]. digit_of (hex_digit d) = d" by code_simp
  with assms show ?thesis by simp
qed

lemma digit_of_dec [simp]:
  assumes "d < 10"
  shows "digit_of (of_nat (48 + d)) = d"
proof -
  have "\<forall>d\<in>set [0..<10]. digit_of (of_nat (48 + d)) = d" by code_simp
  with assms show ?thesis by simp
qed

lemma num_of_hex: "num_of 16 (hex_digits n) = n"
proof (induction n rule: hex_digits.induct)
  case (1 n)
  then show ?case
    by (subst hex_digits.simps) (auto simp: num_of_snoc, simp add: num_of_def)
qed

lemma num_of_dec: "num_of 10 (dec_digits n) = n"
proof (induction n rule: dec_digits.induct)
  case (1 n)
  have d: "digit_of (of_nat (48 + n mod 10)) = n mod 10" by (rule digit_of_dec) simp
  show ?case
  proof (cases "n < 10")
    case True
    then show ?thesis using digit_of_dec [OF True] by (subst dec_digits.simps) (simp add: num_of_def)
  next
    case False
    then show ?thesis using 1 d by (subst dec_digits.simps) (simp add: num_of_snoc)
  qed
qed

lemma hex_digits_digits: "c \<in> set (hex_digits n) \<Longrightarrow> digit_of c < 16"
proof (induction n rule: hex_digits.induct)
  case (1 n)
  then show ?case by (subst (asm) hex_digits.simps) (auto split: if_splits)
qed

lemma dec_digits_digits: "c \<in> set (dec_digits n) \<Longrightarrow> digit_of c < 10"
proof (induction n rule: dec_digits.induct)
  case (1 n)
  have d: "digit_of (of_nat (48 + n mod 10)) < 10" by (subst digit_of_dec) simp_all
  show ?case
  proof (cases "n < 10")
    case True
    then have "c = of_nat (48 + n)" using 1(2) by (subst (asm) dec_digits.simps) simp
    then show ?thesis using True digit_of_dec [OF True] by simp
  next
    case False
    then show ?thesis using 1 d by (subst (asm) dec_digits.simps) auto
  qed
qed

lemma hex_digits_nonempty [simp]: "hex_digits n \<noteq> []"
  by (subst hex_digits.simps) auto

lemma dec_digits_nonempty [simp]: "dec_digits n \<noteq> []"
  by (subst dec_digits.simps) auto

text \<open>A digit is no blank and no sign, and x is none.\<close>

lemma digit_byte:
  assumes "digit_of c < 16"
  shows "\<not> isspace c" and "c \<noteq> 0x2D" and "c \<noteq> 0x2B" and "c \<noteq> 0" and "c \<noteq> 0x78" and "c \<noteq> 0x58"
    and "c \<noteq> NEWLINE"
proof -
  have "(0x30 \<le> c \<and> c \<le> 0x39) \<or> (0x61 \<le> c \<and> c \<le> 0x66) \<or> (0x41 \<le> c \<and> c \<le> 0x46)"
    using assms by (auto simp: digit_of_def word_le_nat_alt split: if_splits)
  then show "\<not> isspace c" "c \<noteq> 0x2D" "c \<noteq> 0x2B" "c \<noteq> 0" "c \<noteq> 0x78" "c \<noteq> 0x58" "c \<noteq> NEWLINE"
    by (auto simp: isspace_def word_le_nat_alt)
qed

lemma strtoul_digits:
  assumes "ds \<noteq> []" and d: "\<And>c. c \<in> set ds \<Longrightarrow> digit_of c < base" and "base \<le> 16"
    and "num_of base ds \<le> 18446744073709551615"
  shows "strtoul base ds = of_nat (num_of base ds)"
proof -
  obtain c cs where c: "ds = c # cs" using assms(1) by (cases ds) auto
  have b: "digit_of c' < 16" if "c' \<in> set ds" for c' using d [OF that] assms(3) by simp
  have s: "dropWhile isspace ds = ds" "take 1 ds \<noteq> [0x2D]" "take 1 ds \<noteq> [0x2B]"
    using digit_byte [OF b [of c]] by (simp_all add: c)
  have x: "skip_0x base ds = ds"
  proof (cases cs)
    case Nil
    then show ?thesis by (simp add: skip_0x_def c ascii_def)
  next
    case (Cons c2 cs2)
    then show ?thesis using digit_byte(5,6) [OF b [of c2]] by (simp add: skip_0x_def c ascii_def)
  qed
  have t: "takeWhile (\<lambda>c. digit_of c < base) ds = ds" using d by (simp add: takeWhile_eq_all_conv)
  have "\<not> 18446744073709551615 < num_of base ds" using assms(4) by simp
  then show ?thesis unfolding strtoul_def Let_def s(1) using s(2,3) by (simp only: if_False simp_thms x t)
qed

lemma strtoul_hex4: "strtoul 16 (fmt_04x (unat (v :: u16))) = of_nat (unat v)"
proof -
  define ds where "ds = fmt_04x (unat v)"
  have ds: "ds = replicate (4 - length (hex_digits (unat v))) 0x30 @ hex_digits (unat v)"
    by (simp add: ds_def fmt_04x_def Let_def)
  have n: "num_of 16 ds = unat v" by (simp add: ds num_of_zeros num_of_hex)
  have b: "unat v < 65536" by (rule unat_u16)
  have "strtoul 16 ds = of_nat (num_of 16 ds)"
  proof (rule strtoul_digits)
    show "ds \<noteq> []" by (simp add: ds)
    show "digit_of c < 16" if "c \<in> set ds" for c
      using that hex_digits_digits [of c] digit_of_dec [of 0] by (auto simp: ds)
    show "num_of 16 ds \<le> 18446744073709551615" unfolding n using b by linarith
  qed simp
  then show ?thesis by (simp only: n flip: ds_def)
qed

lemma strtoul_dec: "n < 18446744073709551616 \<Longrightarrow> strtoul 10 (dec_digits n) = of_nat n"
  using strtoul_digits [of "dec_digits n" 10] dec_digits_digits [of _ n] by (simp add: num_of_dec)

subsection \<open>Reading a node\<close>

text \<open>A block that holds the string \<open>s\<close>.\<close>

definition holds :: "nat \<Rightarrow> byte list \<Rightarrow> byte list" where
  "holds n s = s @ replicate (n - length s) 0"

lemma length_holds [simp]: "length s \<le> n \<Longrightarrow> length (holds n s) = n"
  by (simp add: holds_def)

lemma cstr_holds: "0 \<notin> set s \<Longrightarrow> length s < n \<Longrightarrow> cstr 0 (holds n s @ rest) = Inr s"
proof -
  assume a: "0 \<notin> set s" "length s < n"
  then have "holds n s @ rest = [] @ s @ 0 # (replicate (n - Suc (length s)) 0 @ rest)"
    by (simp add: holds_def Suc_diff_Suc flip: replicate_Suc append_Cons)
  then show ?thesis using cstr_terminated [OF _ a(1), of "[]" 0] by simp
qed

lemma read_node_missing: "h_file H path = None \<Longrightarrow> read_sysfs_node H path buf n = Inr (- 1, buf)"
  by (simp add: read_sysfs_node_def)

lemma read_node_line:
  assumes f: "h_file H path = Some (s @ [NEWLINE])" and s: "0 \<notin> set s" "Suc (length s) < n"
    and n: "n \<le> length buf"
  shows "read_sysfs_node H path buf n = Inr (- 1, holds n s @ drop n buf)"
proof -
  have w: "mwrite 0 (s @ [NEWLINE]) (replicate n 0 @ drop n buf) = Inr (holds n (s @ [NEWLINE]) @ drop n buf)"
    using s(2) n by (simp add: mwrite_def holds_def drop_replicate)
  have c: "cstr 0 (holds n (s @ [NEWLINE]) @ drop n buf) = Inr (s @ [NEWLINE])"
    using s by (intro cstr_holds) auto
  have l: "length s < length (holds n (s @ [NEWLINE]))" using s(2) by (simp add: holds_def)
  have z: "mwrite (length s) [0] (holds n (s @ [NEWLINE]) @ drop n buf) = Inr (holds n s @ drop n buf)"
    using s(2) by (simp add: mwrite_def holds_def replicate_Suc [symmetric] Suc_diff_Suc del: replicate_Suc)
  have "take n (s @ [NEWLINE]) = s @ [NEWLINE]" using s(2) by simp
  then show ?thesis
    unfolding read_sysfs_node_def f option.case mzero_Inr [OF n] rbind_Inr
    using s(2) by (simp add: w c z)
qed

subsection \<open>The directory\<close>

definition shown_text :: "host \<Rightarrow> byte list \<Rightarrow> string \<Rightarrow> byte list \<Rightarrow> bool" where
  "shown_text H d attr t \<longleftrightarrow>
     h_file H (sysfs_path d attr) = Some (t @ [NEWLINE]) \<and> 0 \<notin> set t \<and> length t < 1023"

definition shown_opt :: "host \<Rightarrow> byte list \<Rightarrow> string \<Rightarrow> byte list option \<Rightarrow> bool" where
  "shown_opt H d attr x =
     (case x of None \<Rightarrow> h_file H (sysfs_path d attr) = None | Some t \<Rightarrow> shown_text H d attr t)"

definition device_shown :: "host \<Rightarrow> byte list \<Rightarrow> usb_info \<Rightarrow> bool" where
  "device_shown H d u \<longleftrightarrow>
     shown_text H d ''idVendor'' (fmt_04x (unat (ui_vid u))) \<and>
     shown_text H d ''idProduct'' (fmt_04x (unat (ui_pid u))) \<and>
     shown_text H d ''busnum'' (dec_digits (unat (ui_bus u))) \<and>
     shown_text H d ''devnum'' (dec_digits (unat (ui_dev u))) \<and>
     shown_text H d ''devpath'' (ui_devpath u) \<and>
     shown_opt H d ''serial'' (ui_serial u) \<and> shown_opt H d ''product'' (ui_product u)"

fun node_shown :: "host \<Rightarrow> usb_node \<Rightarrow> bool" where
  "node_shown H (d, Some u) = device_shown H d u"
| "node_shown H (d, None) \<longleftrightarrow>
     h_file H (sysfs_path d ''idVendor'') = None \<and> h_file H (sysfs_path d ''idProduct'') = None"

definition line_ok :: "byte list \<Rightarrow> bool" where
  "line_ok buf \<longleftrightarrow> length buf = 1024 \<and> 0 \<in> set buf"

definition visible :: "byte list list \<Rightarrow> byte list list" where
  "visible ds = filter (\<lambda>d. take 1 d \<noteq> ascii ''.'') ds"

definition sysfs_shows :: "host \<Rightarrow> usb_node list \<Rightarrow> bool" where
  "sysfs_shows H nodes \<longleftrightarrow>
     (\<exists>ds. h_devices H = Some ds \<and> map fst nodes = visible ds) \<and> list_all (node_shown H) nodes \<and>
     line_ok (h_stack H)"

definition supported :: "usb_node list \<Rightarrow> usb_info list" where
  "supported nodes =
     filter (\<lambda>u. in_support_list (ui_vid u) (ui_pid u)) (List.map_filter snd nodes)"

lemma supported_simps [simp]:
  "supported [] = []"
  "supported ((d, None) # nodes) = supported nodes"
  "supported ((d, Some u) # nodes) =
     (if in_support_list (ui_vid u) (ui_pid u) then u # supported nodes else supported nodes)"
  by (simp_all add: supported_def map_filter_simps)

subsection \<open>One entry\<close>

lemma line_ok_holds [simp]: "length t < 1024 \<Longrightarrow> line_ok (holds 1024 t)"
  by (simp add: line_ok_def holds_def)

lemma line_ok_cstr: "line_ok line \<Longrightarrow> \<exists>t. cstr 0 line = Inr t"
  by (simp add: line_ok_def cstr_def)

lemma read_shown:
  assumes "shown_text H d attr t" and "line_ok buf"
  shows "read_sysfs_node H (sysfs_path d attr) buf 1024 = Inr (- 1, holds 1024 t)"
  using assms read_node_line [of H "sysfs_path d attr" t 1024 buf]
  by (simp add: shown_text_def line_ok_def)

lemma sysfs_num_shown:
  assumes "shown_text H d attr t" and "line_ok line"
  shows "sysfs_num H d attr base line = Inr (strtoul base t, holds 1024 t)"
proof -
  have "cstr 0 (holds 1024 t) = Inr t"
    using assms(1) cstr_holds [of t 1024 "[]"] by (simp add: shown_text_def)
  then show ?thesis by (simp add: sysfs_num_def read_shown [OF assms])
qed

lemma shown_text_line [simp]: "shown_text H d attr t \<Longrightarrow> line_ok (holds 1024 t)"
  by (simp add: shown_text_def)

lemma ucast_64_u16 [simp]: "(ucast (ucast (v :: u16) :: 64 word) :: u16) = v"
  by (rule ucast_up_ucast_id) (simp add: is_up)

lemma ucast_64_byte [simp]: "(ucast (ucast (v :: byte) :: 64 word) :: byte) = v"
  by (rule ucast_up_ucast_id) (simp add: is_up)

lemma strtoul_dec8: "strtoul 10 (dec_digits (unat (v :: byte))) = of_nat (unat v)"
proof (rule strtoul_dec)
  have "unat v < 256" by (rule unat_byte)
  then show "unat v < 18446744073709551616" by linarith
qed

lemma device_shownD:
  assumes "device_shown H d u"
  shows "shown_text H d ''idVendor'' (fmt_04x (unat (ui_vid u)))"
    and "shown_text H d ''idProduct'' (fmt_04x (unat (ui_pid u)))"
    and "shown_text H d ''busnum'' (dec_digits (unat (ui_bus u)))"
    and "shown_text H d ''devnum'' (dec_digits (unat (ui_dev u)))"
    and "shown_text H d ''devpath'' (ui_devpath u)"
    and "shown_opt H d ''serial'' (ui_serial u)"
    and "shown_opt H d ''product'' (ui_product u)"
  using assms by (simp_all add: device_shown_def)

lemma entry_ids_device:
  assumes d: "device_shown H d u" and l: "line_ok line"
  shows "\<exists>line'. entry_ids H d line = Inr (ui_vid u, ui_pid u, line') \<and> line_ok line'"
proof -
  note s = device_shownD [OF d]
  show ?thesis
    by (simp add: entry_ids_def sysfs_num_shown [OF s(1) l] sysfs_num_shown [OF s(2)]
        shown_text_line [OF s(1)] shown_text_line [OF s(2)] strtoul_hex4)
qed

lemma entry_ids_interface:
  assumes "node_shown H (d, None)" and "line_ok line"
  shows "\<exists>v. entry_ids H d line = Inr (v, v, line)"
  using assms line_ok_cstr [OF assms(2)]
  by (auto simp: entry_ids_def sysfs_num_def read_node_missing)

lemma entry_pos_device:
  assumes d: "device_shown H d u" and l: "line_ok line"
  shows "\<exists>line'. entry_pos H d line = Inr (ui_bus u, ui_dev u, line') \<and> line_ok line'"
proof -
  note s = device_shownD [OF d]
  show ?thesis
    by (simp add: entry_pos_def sysfs_num_shown [OF s(3) l] sysfs_num_shown [OF s(4)]
        shown_text_line [OF s(3)] shown_text_line [OF s(4)] strtoul_dec8)
qed

text \<open>The buffer after reading an attribute that may be missing.\<close>

lemma read_opt:
  assumes "shown_opt H d attr x" and "line_ok buf"
  shows "\<exists>r. read_sysfs_node H (sysfs_path d attr) buf 1024 =
    Inr (r, case x of None \<Rightarrow> buf | Some t \<Rightarrow> holds 1024 t)"
  using assms by (cases x) (auto simp: shown_opt_def read_node_missing read_shown)

lemma opt_line_ok:
  "shown_opt H d attr x \<Longrightarrow> line_ok buf \<Longrightarrow> line_ok (case x of None \<Rightarrow> buf | Some t \<Rightarrow> holds 1024 t)"
  by (cases x) (auto simp: shown_opt_def shown_text_def)

subsection \<open>Selecting by number\<close>

definition dev_of :: "usb_info \<Rightarrow> usb_dev_t" where
  "dev_of u = \<lparr>ud_vid = ui_vid u, ud_pid = ui_pid u, ud_busnum = ui_bus u, ud_devnum = ui_dev u,
     ud_usbclass = USB_CLASS_UVC, ud_backend = UDB_BACKEND_STD,
     ud_sn = holds PATH_MAX (case ui_serial u of None \<Rightarrow> [] | Some t \<Rightarrow> t)\<rparr>"

lemma select_serial:
  assumes "shown_opt H d ''serial'' x" and "length sn = PATH_MAX"
  shows "\<exists>r. rbind (mzero PATH_MAX sn) (\<lambda>sn. read_sysfs_node H (sysfs_path d ''serial'') sn PATH_MAX) =
    Inr (r, holds PATH_MAX (case x of None \<Rightarrow> [] | Some t \<Rightarrow> t))"
proof (cases x)
  case None
  then show ?thesis
    using assms by (simp add: mem_simps shown_opt_def read_node_missing holds_def)
next
  case (Some t)
  then have "shown_text H d ''serial'' t" using assms(1) by (simp add: shown_opt_def)
  then show ?thesis
    using Some assms(2) read_node_line [of H "sysfs_path d ''serial''" t PATH_MAX "replicate PATH_MAX 0"]
    by (simp add: mem_simps shown_text_def PATH_MAX_def)
qed

lemma select_scan_shown:
  assumes "map fst nodes = visible ds" and "list_all (node_shown H) nodes" and "line_ok line"
    and "found < i" and "length (ud_sn ud) = PATH_MAX"
  shows "select_scan H (int i) ds found line ud =
    (if i - found - 1 < length (supported nodes)
     then Inr (i, dev_of (supported nodes ! (i - found - 1)))
     else Inr (found + length (supported nodes), ud))"
  using assms(1-4)
proof (induction ds arbitrary: nodes found line)
  case Nil
  then show ?case by (simp add: visible_def)
next
  case (Cons d ds)
  show ?case
  proof (cases "take 1 d = ascii ''.''")
    case True
    then have "map fst nodes = visible ds" using Cons.prems(1) by (simp add: visible_def)
    with True show ?thesis using Cons.IH [OF _ Cons.prems(2,3,4)] by simp
  next
    case vis: False
    then obtain x ns where n: "nodes = (d, x) # ns" "map fst ns = visible ds"
      using Cons.prems(1) by (cases nodes) (auto simp: visible_def)
    have ns: "list_all (node_shown H) ns" using Cons.prems(2) n by simp
    show ?thesis
    proof (cases x)
      case None
      then obtain v where "entry_ids H d line = Inr (v, v, line)"
        using entry_ids_interface [OF _ Cons.prems(3)] Cons.prems(2) n(1) by auto
      then show ?thesis using vis None n Cons.IH [OF n(2) ns Cons.prems(3,4)] by simp
    next
      case (Some u)
      then have u: "device_shown H d u" using Cons.prems(2) n(1) by simp
      obtain l1 where l1: "entry_ids H d line = Inr (ui_vid u, ui_pid u, l1)" "line_ok l1"
        using entry_ids_device [OF u Cons.prems(3)] by blast
      obtain l2 where l2: "entry_pos H d l1 = Inr (ui_bus u, ui_dev u, l2)" "line_ok l2"
        using entry_pos_device [OF u l1(2)] by blast
      show ?thesis
      proof (cases "in_support_list (ui_vid u) (ui_pid u)")
        case False
        then show ?thesis using vis Some n l1 Cons.IH [OF n(2) ns l1(2) Cons.prems(4)] by simp
      next
        case True
        note sup = True
        show ?thesis
        proof (cases "i = Suc found")
          case True
          obtain r where "rbind (mzero PATH_MAX (ud_sn ud)) (\<lambda>sn. read_sysfs_node H (sysfs_path d ''serial'') sn PATH_MAX)
              = Inr (r, holds PATH_MAX (case ui_serial u of None \<Rightarrow> [] | Some t \<Rightarrow> t))"
            using select_serial [OF device_shownD(6) [OF u] assms(5)] by blast
          then show ?thesis
            using vis Some n l1(1) l2(1) sup True supported_get [OF sup]
            by (auto simp: dev_of_def rbind_eq_Inr)
        next
          case False
          then have f: "Suc found < i" using Cons.prems(4) by simp
          have "i - found - 1 = Suc (i - Suc found - 1)" using f by simp
          then show ?thesis
            using vis Some n l1(1) l2(1) sup False Cons.IH [OF n(2) ns l2(2) f] by simp
        qed
      qed
    qed
  qed
qed

lemma select_shown:
  assumes "sysfs_shows H nodes" and "0 < i" and "length (ud_sn ud) = PATH_MAX"
  shows "select_usb_dev_by_index H (int i) ud =
    (if supported nodes = [] then Inl ExitCall
     else if i \<le> length (supported nodes) then Inr (dev_of (supported nodes ! (i - 1))) else Inr ud)"
proof -
  obtain ds where d: "h_devices H = Some ds" "map fst nodes = visible ds"
    and n: "list_all (node_shown H) nodes" "line_ok (h_stack H)"
    using assms(1) by (auto simp: sysfs_shows_def)
  show ?thesis
    using select_scan_shown [OF d(2) n assms(2,3)] assms(2) d(1)
    by (auto simp: select_usb_dev_by_index_def)
qed

subsection \<open>Selecting by serial number\<close>

definition serial_of :: "usb_info \<Rightarrow> byte list" where
  "serial_of u = (case ui_serial u of None \<Rightarrow> [] | Some t \<Rightarrow> t)"

definition starts_with :: "byte list \<Rightarrow> byte list \<Rightarrow> bool" where
  "starts_with p t \<longleftrightarrow> take (length p) t = p"

lemma has_prefix_holds:
  assumes "0 \<notin> set p" and "length t < n"
  shows "has_prefix p (holds n t) = Inr (starts_with p t)"
proof -
  have "has_prefix p (t @ replicate (Suc k) 0) = Inr (starts_with p t)" for k
    using assms(1) by (induction p t rule: has_prefix.induct) (auto simp: starts_with_def)
  from this [of "n - length t - 1"] show ?thesis using assms(2) by (simp add: holds_def Suc_diff_Suc)
qed

text \<open>The scan stops at the first match; without one it has counted every supported device.\<close>

definition match_number :: "byte list \<Rightarrow> usb_info list \<Rightarrow> nat" where
  "match_number sn us =
     min (length us) (Suc (length (takeWhile (\<lambda>u. \<not> starts_with sn (serial_of u)) us)))"

lemma match_number_simps [simp]:
  "match_number sn [] = 0"
  "match_number sn (u # us) =
     (if starts_with sn (serial_of u) then 1 else Suc (match_number sn us))"
  by (auto simp: match_number_def)

lemma match_number_le: "match_number sn us \<le> length us"
  by (simp add: match_number_def)

lemma match_number_pos: "us \<noteq> [] \<Longrightarrow> 0 < match_number sn us"
  by (cases us) auto

lemma sn_scan_shown:
  assumes "map fst nodes = visible ds" and "list_all (node_shown H) nodes" and "line_ok line"
    and "line_ok buf" and "\<forall>u\<in>set (supported nodes). ui_serial u \<noteq> None" and "0 \<notin> set sn"
  shows "sn_scan H (Some sn) ds found line buf = Inr (found + match_number sn (supported nodes))"
  using assms(1-5)
proof (induction ds arbitrary: nodes found line buf)
  case Nil
  then show ?case by (simp add: visible_def)
next
  case (Cons d ds)
  show ?case
  proof (cases "take 1 d = ascii ''.''")
    case True
    then have "map fst nodes = visible ds" using Cons.prems(1) by (simp add: visible_def)
    with True show ?thesis using Cons.IH [OF _ Cons.prems(2-5)] by simp
  next
    case vis: False
    then obtain x ns where n: "nodes = (d, x) # ns" "map fst ns = visible ds"
      using Cons.prems(1) by (cases nodes) (auto simp: visible_def)
    have ns: "list_all (node_shown H) ns" using Cons.prems(2) n by simp
    have ser: "\<forall>u\<in>set (supported ns). ui_serial u \<noteq> None"
      using Cons.prems(5) n(1) by (cases x) (auto split: if_splits)
    note IH = Cons.IH [OF n(2) ns]
    show ?thesis
    proof (cases x)
      case None
      then obtain v where "entry_ids H d line = Inr (v, v, line)"
        using entry_ids_interface [OF _ Cons.prems(3)] Cons.prems(2) n(1) by auto
      then show ?thesis using vis None n IH [OF Cons.prems(3,4) ser] by simp
    next
      case (Some u)
      then have u: "device_shown H d u" using Cons.prems(2) n(1) by simp
      obtain l1 where l1: "entry_ids H d line = Inr (ui_vid u, ui_pid u, l1)" "line_ok l1"
        using entry_ids_device [OF u Cons.prems(3)] by blast
      obtain l2 where l2: "entry_pos H d l1 = Inr (ui_bus u, ui_dev u, l2)" "line_ok l2"
        using entry_pos_device [OF u l1(2)] by blast
      show ?thesis
      proof (cases "in_support_list (ui_vid u) (ui_pid u)")
        case False
        then show ?thesis using vis Some n l1 IH [OF l1(2) Cons.prems(4) ser] by simp
      next
        case True
        then obtain t where t: "ui_serial u = Some t" using Cons.prems(5) n(1) Some by auto
        then have st: "shown_text H d ''serial'' t" using device_shownD(6) [OF u] by (simp add: shown_opt_def)
        have m: "sn_matches (Some sn) (holds 1024 t) = Inr (starts_with sn (serial_of u))"
          using st t assms(6) by (simp add: sn_matches_def shown_text_def has_prefix_holds serial_of_def)
        show ?thesis
          using vis Some n l1(1) l2(1) True m IH [OF l2(2) shown_text_line [OF st] ser]
          by (simp add: read_shown [OF st Cons.prems(4)])
      qed
    qed
  qed
qed

lemma convert_sn_shown:
  assumes "sysfs_shows H nodes" and "\<forall>u\<in>set (supported nodes). ui_serial u \<noteq> None" and "0 \<notin> set sn"
  shows "convert_sn_to_index H (Some sn) =
    (if supported nodes = [] then Inl ExitCall else Inr (match_number sn (supported nodes)))"
proof -
  obtain ds where d: "h_devices H = Some ds" "map fst nodes = visible ds"
    and n: "list_all (node_shown H) nodes" "line_ok (h_stack H)"
    using assms(1) by (auto simp: sysfs_shows_def)
  have "match_number sn (supported nodes) = 0 \<longleftrightarrow> supported nodes = []"
    by (cases "supported nodes = []") (use match_number_pos [of "supported nodes" sn] in auto)
  then show ?thesis
    using sn_scan_shown [OF d(2) n n(2) assms(2,3)] d(1) by (simp add: convert_sn_to_index_def)
qed

text \<open>The device chosen: the first whose serial number begins with the argument, else the last one.\<close>

definition choose_sn :: "byte list \<Rightarrow> usb_info list \<Rightarrow> usb_info" where
  "choose_sn sn us =
     (case find (\<lambda>u. starts_with sn (serial_of u)) us of Some u \<Rightarrow> u | None \<Rightarrow> last us)"

lemma nth_match_number: "us \<noteq> [] \<Longrightarrow> us ! (match_number sn us - 1) = choose_sn sn us"
proof (induction us)
  case Nil
  then show ?case by simp
next
  case (Cons u us)
  then show ?case
    using match_number_pos [of us sn] by (cases us) (auto simp: choose_sn_def nth_Cons' split: option.splits)
qed

lemma select_by_sn:
  assumes "sysfs_shows H nodes" and "\<forall>u\<in>set (supported nodes). ui_serial u \<noteq> None" and "0 \<notin> set sn"
    and "supported nodes \<noteq> []" and "length (ud_sn ud) = PATH_MAX"
  shows "rbind (convert_sn_to_index H (Some sn)) (\<lambda>i. select_usb_dev_by_index H (int i) ud)
    = Inr (dev_of (choose_sn sn (supported nodes)))"
  using convert_sn_shown [OF assms(1,2,3)] match_number_pos [OF assms(4), of sn]
    match_number_le [of sn "supported nodes"] nth_match_number [OF assms(4), of sn]
    select_shown [OF assms(1) _ assms(5), of "match_number sn (supported nodes)"] assms(4)
  by simp

end
