(* ===== verification/DeviceList.thy ===== *)
theory DeviceList
  imports DeviceChoice
begin

text \<open>
  The list of connected devices: get_v4l2_index returns for every bus and device number when
  the links of the video nodes are not longer than 4000 bytes, and print_connected_list prints
  one line for each supported device, with the number that select_usb_dev_by_index takes.
\<close>

subsection \<open>get_v4l2_index returns\<close>

text \<open>Attributes are not empty and hold text; links fit the arrays.\<close>

definition files_ok :: "host \<Rightarrow> bool" where
  "files_ok H \<longleftrightarrow> (\<forall>p c. h_file H p = Some c \<longrightarrow> c \<noteq> [] \<and> 0 \<notin> set c)"

definition links_ok :: "host \<Rightarrow> bool" where
  "links_ok H \<longleftrightarrow> (\<forall>p t. h_readlink H p = Some t \<longrightarrow> length t \<le> 4000)"

text \<open>A block of \<open>PATH_MAX\<close> bytes that is zero from \<open>k\<close> on.\<close>

definition zero_from :: "nat \<Rightarrow> byte list \<Rightarrow> bool" where
  "zero_from k b \<longleftrightarrow> length b = PATH_MAX \<and> (\<forall>i. k \<le> i \<longrightarrow> i < PATH_MAX \<longrightarrow> b ! i = 0)"

lemma zero_from_replicate [simp]: "zero_from k (replicate PATH_MAX 0)"
  by (simp add: zero_from_def)

lemma zero_from_cstr:
  assumes "zero_from k b" and "k < PATH_MAX"
  shows "\<exists>p. cstr 0 b = Inr p \<and> length p \<le> k"
proof -
  have "b ! k = 0" "k < length b" using assms by (simp_all add: zero_from_def)
  then have z: "0 \<in> set b" using nth_mem [of k b] by simp
  have "length (takeWhile (\<lambda>c. c \<noteq> 0) b) \<le> k"
  proof (rule ccontr)
    assume "\<not> ?thesis"
    then have k: "k < length (takeWhile (\<lambda>c. c \<noteq> 0) b)" by simp
    then have "takeWhile (\<lambda>c. c \<noteq> 0) b ! k \<noteq> 0"
      using set_takeWhileD [OF nth_mem [OF k]] by simp
    moreover have "takeWhile (\<lambda>c. c \<noteq> 0) b ! k = b ! k" using k by (rule takeWhile_nth)
    ultimately show False using assms by (simp add: zero_from_def)
  qed
  with z show ?thesis by (simp add: cstr_def)
qed

lemma zero_from_mwrite:
  assumes "zero_from k b" and "length src \<le> k" and "k < PATH_MAX"
  shows "\<exists>b'. mwrite 0 src b = Inr b' \<and> zero_from k b'"
proof -
  have l: "length b = PATH_MAX" using assms(1) by (simp add: zero_from_def)
  then have "mwrite 0 src b = Inr (src @ drop (length src) b)"
    using assms(2,3) by (simp add: mwrite_def)
  moreover have "zero_from k (src @ drop (length src) b)"
    using assms l by (auto simp: zero_from_def nth_append)
  ultimately show ?thesis by blast
qed

lemma cut_at_length: "length (cut_at stop k p) \<le> length p"
  by (induction stop k p rule: cut_at.induct) (auto simp: Let_def)

lemma read_node_ok:
  assumes f: "files_ok H" and b: "zero_from 1024 buf"
  shows "\<exists>r buf'. read_sysfs_node H path buf 1024 = Inr (r, buf') \<and> zero_from 1024 buf'"
proof (cases "h_file H path")
  case None
  then show ?thesis using b by (simp add: read_node_missing)
next
  case (Some c)
  then have c: "c \<noteq> []" "0 \<notin> set c" using f by (auto simp: files_ok_def)
  have P: "(1024::nat) < PATH_MAX" by (simp add: PATH_MAX_def)
  obtain b1 where b1: "mzero 1024 buf = Inr b1" "zero_from 1024 b1"
    using zero_from_mwrite [OF b _ P, of "replicate 1024 0"] by (auto simp: mzero_def)
  obtain b2 where b2: "mwrite 0 (take 1024 c) b1 = Inr b2" "zero_from 1024 b2"
    using zero_from_mwrite [OF b1(2) _ P, of "take 1024 c"] by auto
  obtain t where t: "cstr 0 b2 = Inr t" "length t \<le> 1024" using zero_from_cstr [OF b2(2) P] by blast
  obtain x xs where x: "c = x # xs" "x \<noteq> 0" using c by (cases c) auto
  have b2x: "hd b2 \<noteq> 0" "b2 \<noteq> []"
    using b2(1) x by (auto simp: mwrite_def split: if_splits)
  then have ne: "t \<noteq> []" using t(1) by (cases b2) (auto simp: cstr_def split: if_splits)
  have l: "length b2 = PATH_MAX" using b2(2) by (simp add: zero_from_def)
  have b3: "mwrite (length t - 1) [0] b2 = Inr (b2[length t - 1 := 0])"
    using t(2) l by (simp add: mwrite_def upd_conv_take_nth_drop PATH_MAX_def)
  have "(b2[length t - 1 := 0]) ! i = 0" if "1024 \<le> i" "i < PATH_MAX" for i
    using b2(2) that by (cases "i = length t - 1") (auto simp: zero_from_def)
  then have "zero_from 1024 (b2[length t - 1 := 0])"
    using l by (simp add: zero_from_def)
  then show ?thesis
    unfolding read_sysfs_node_def Some option.case b1(1) rbind_Inr b2(1) t(1) using ne b3 by simp
qed

lemma v4l2_node_ok:
  assumes f: "files_ok H" and d: "zero_from 4023 dev_path" and b: "zero_from 1024 line"
  shows "\<exists>n line'. v4l2_node H dev_path attr line = Inr (n, line') \<and> zero_from 1024 line'"
proof -
  obtain p where p: "cstr 0 dev_path = Inr p" "length p \<le> 4023"
    using zero_from_cstr [OF d] by (auto simp: PATH_MAX_def)
  obtain r line' where l: "read_sysfs_node H (p @ ascii ''/'' @ ascii attr) line 1024 = Inr (r, line')"
    "zero_from 1024 line'"
    using read_node_ok [OF f b] by blast
  obtain t where "cstr 0 line' = Inr t" using zero_from_cstr [OF l(2)] by (auto simp: PATH_MAX_def)
  then show ?thesis using p l by (simp add: v4l2_node_def PATH_MAX_def)
qed

lemma v4l2_scan_ok:
  assumes "files_ok H" and "links_ok H"
    and "zero_from 4000 ip" and "zero_from 4023 dp" and "zero_from 1024 line"
  shows "\<exists>i. v4l2_scan H busnr devnr is ip dp line = Inr i"
  using assms(3-5)
proof (induction "is" arbitrary: ip dp line)
  case Nil
  then show ?case by simp
next
  case (Cons i "is")
  define cam where "cam = V4L2_CLASS @ ascii ''video'' @ fmt_d (int i)"
  show ?case
  proof (cases "h_open H cam")
    case False
    then show ?thesis using Cons.IH [OF Cons.prems] by (simp add: Let_def cam_def)
  next
    case True
    have P: "(4000::nat) < PATH_MAX" "(4023::nat) < PATH_MAX" by (simp_all add: PATH_MAX_def)
    obtain ip' where ip: "(case h_readlink H cam of None \<Rightarrow> Inr ip
        | Some target \<Rightarrow> mwrite 0 (take PATH_MAX target) ip) = Inr ip'" "zero_from 4000 ip'"
    proof (cases "h_readlink H cam")
      case None
      then show ?thesis using that Cons.prems(1) by simp
    next
      case (Some t)
      then have "length (take PATH_MAX t) \<le> 4000" using assms(2) by (force simp: links_ok_def)
      then show ?thesis using that zero_from_mwrite [OF Cons.prems(1) _ P(1)] Some by fastforce
    qed
    obtain p where p: "cstr 0 ip' = Inr p" "length p \<le> 4000" using zero_from_cstr [OF ip(2) P(1)] by blast
    have c: "length (V4L2_CLASS @ cut_at (slashes p - 2) 0 p) \<le> 4023"
      using cut_at_length [of "slashes p - 2" 0 p] p(2) by (simp add: V4L2_CLASS_def)
    obtain dp' where dp: "mwrite 0 (V4L2_CLASS @ cut_at (slashes p - 2) 0 p) dp = Inr dp'" "zero_from 4023 dp'"
      using zero_from_mwrite [OF Cons.prems(2) c P(2)] by blast
    obtain n l1 where l1: "v4l2_node H dp' ''busnum'' line = Inr (n, l1)" "zero_from 1024 l1"
      using v4l2_node_ok [OF assms(1) dp(2) Cons.prems(3)] by blast
    obtain m l2 where l2: "v4l2_node H dp' ''devnum'' l1 = Inr (m, l2)" "zero_from 1024 l2"
      using v4l2_node_ok [OF assms(1) dp(2) l1(2)] by blast
    show ?thesis
      using True ip(1) p(1) dp(1) l1(1) l2(1) Cons.IH [OF ip(2) dp(2) l2(2)] by (simp add: Let_def cam_def)
  qed
qed

lemma get_v4l2_index_returns:
  "files_ok H \<Longrightarrow> links_ok H \<Longrightarrow> \<exists>i. get_v4l2_index H busnr devnr = Inr i"
  by (simp add: get_v4l2_index_def v4l2_scan_ok)

subsection \<open>The list that is printed\<close>

text \<open>A line names the device: its number, position, identity and serial number.\<close>

definition lists_device :: "nat \<Rightarrow> usb_info \<Rightarrow> byte list \<Rightarrow> bool" where
  "lists_device k u l \<longleftrightarrow>
     (\<exists>product port video. l = connected_line k product (ui_bus u) port (ui_dev u)
        (ui_vid u) (ui_pid u) (serial_of u) video)"

lemma entry_port_device:
  assumes d: "device_shown H d u" and l: "line_ok line"
  shows "\<exists>port line'. entry_port H d line = Inr (ui_bus u, port, ui_dev u, line') \<and> line_ok line'"
proof -
  note s = device_shownD [OF d]
  show ?thesis
    by (simp add: entry_port_def sysfs_num_shown [OF s(3) l] sysfs_num_shown [OF s(5)]
        sysfs_num_shown [OF s(4)] shown_text_line [OF s(3)] shown_text_line [OF s(4)]
        shown_text_line [OF s(5)] strtoul_dec8)
qed

lemma connected_scan_shown:
  assumes "files_ok H" and "links_ok H"
    and "map fst nodes = visible ds" and "list_all (node_shown H) nodes"
    and "\<forall>u\<in>set (supported nodes). ui_serial u \<noteq> None"
    and "line_ok line" and "line_ok product" and "line_ok sn"
  shows "\<exists>ls. connected_scan H ds found line product sn out = Inr (found + length (supported nodes), out @ ls) \<and>
    length ls = length (supported nodes) \<and>
    (\<forall>i<length (supported nodes). lists_device (Suc (found + i)) (supported nodes ! i) (ls ! i))"
  using assms(3-)
proof (induction ds arbitrary: nodes found line product sn out)
  case Nil
  then show ?case by (simp add: visible_def)
next
  case (Cons d ds)
  show ?case
  proof (cases "take 1 d = ascii ''.''")
    case True
    then have "map fst nodes = visible ds" using Cons.prems(1) by (simp add: visible_def)
    with True show ?thesis using Cons.IH [OF _ Cons.prems(2-6)] by simp
  next
    case vis: False
    then obtain x ns where n: "nodes = (d, x) # ns" "map fst ns = visible ds"
      using Cons.prems(1) by (cases nodes) (auto simp: visible_def)
    have ns: "list_all (node_shown H) ns" using Cons.prems(2) n by simp
    have ser: "\<forall>u\<in>set (supported ns). ui_serial u \<noteq> None"
      using Cons.prems(3) n(1) by (cases x) (auto split: if_splits)
    note IH = Cons.IH [OF n(2) ns ser]
    show ?thesis
    proof (cases x)
      case None
      then obtain v where "entry_ids H d line = Inr (v, v, line)"
        using entry_ids_interface [OF _ Cons.prems(4)] Cons.prems(2) n(1) by auto
      then show ?thesis
        using vis None n IH [OF Cons.prems(4-6)] by (simp add: in_support_list_all_UVC)
    next
      case (Some u)
      then have u: "device_shown H d u" using Cons.prems(2) n(1) by simp
      obtain l1 where l1: "entry_ids H d line = Inr (ui_vid u, ui_pid u, l1)" "line_ok l1"
        using entry_ids_device [OF u Cons.prems(4)] by blast
      show ?thesis
      proof (cases "in_support_list (ui_vid u) (ui_pid u)")
        case False
        then show ?thesis
          using vis Some n l1 IH [OF l1(2) Cons.prems(5,6)] by (simp add: in_support_list_all_UVC)
      next
        case True
        obtain port l2 where l2: "entry_port H d l1 = Inr (ui_bus u, port, ui_dev u, l2)" "line_ok l2"
          using entry_port_device [OF u l1(2)] by blast
        obtain r product' where pr: "read_sysfs_node H (sysfs_path d ''product'') product 1024 = Inr (r, product')"
          "line_ok product'"
          using read_opt [OF device_shownD(7) [OF u] Cons.prems(5)] opt_line_ok [OF device_shownD(7) [OF u] Cons.prems(5)]
          by blast
        obtain pt where pt: "cstr 0 product' = Inr pt" using line_ok_cstr [OF pr(2)] by blast
        obtain t where t: "ui_serial u = Some t" using Cons.prems(3) n(1) Some True by auto
        then have st: "shown_text H d ''serial'' t" using device_shownD(6) [OF u] by (simp add: shown_opt_def)
        have ct: "cstr 0 (holds 1024 t) = Inr (serial_of u)"
          using st t cstr_holds [of t 1024 "[]"] by (simp add: shown_text_def serial_of_def)
        obtain v where v: "get_v4l2_index H (ui_bus u) (ui_dev u) = Inr v"
          using get_v4l2_index_returns [OF assms(1,2)] by blast
        define l where "l = connected_line (Suc found) pt (ui_bus u) port (ui_dev u) (ui_vid u) (ui_pid u) (serial_of u) v"
        have ld: "lists_device (Suc found) u l" by (auto simp: lists_device_def l_def)
        obtain ls where ls:
          "connected_scan H ds (Suc found) l2 product' (holds 1024 t) (out @ [l])
             = Inr (Suc found + length (supported ns), out @ [l] @ ls)"
          "length ls = length (supported ns)"
          "\<forall>i<length (supported ns). lists_device (Suc (Suc found + i)) (supported ns ! i) (ls ! i)"
          using IH [OF l2(2) pr(2) shown_text_line [OF st], of "Suc found" "out @ [l]"] by auto
        have step: "connected_scan H (d # ds) found line product sn out
            = connected_scan H ds (Suc found) l2 product' (holds 1024 t) (out @ [l])"
          using vis l1(1) True l2(1)
          by (simp add: in_support_list_all_UVC pr(1) read_shown [OF st Cons.prems(6)] v pt ct l_def)
        show ?thesis
          unfolding step ls(1) using n Some True ls(2,3) ld
          by (intro exI [of _ "l # ls"]) (auto simp: nth_Cons' less_Suc_eq_0_disj)
      qed
    qed
  qed
qed

lemma print_connected_shown:
  assumes "sysfs_shows H nodes" and "\<forall>u\<in>set (supported nodes). ui_serial u \<noteq> None"
    and "files_ok H" and "links_ok H" and "supported nodes \<noteq> []"
  shows "\<exists>ls. print_connected_list H = Inr ls \<and> length ls = length (supported nodes) \<and>
    (\<forall>i<length (supported nodes). lists_device (Suc i) (supported nodes ! i) (ls ! i))"
proof -
  obtain ds where d: "h_devices H = Some ds" "map fst nodes = visible ds"
    and n: "list_all (node_shown H) nodes" "line_ok (h_stack H)"
    using assms(1) by (auto simp: sysfs_shows_def)
  show ?thesis
    using connected_scan_shown [OF assms(3,4) d(2) n(1) assms(2) n(2) n(2) n(2), of 0 "[]"] d(1) assms(5)
    by (auto simp: print_connected_list_def)
qed

end
