(* ===== verification/ClientRuns.thy ===== *)
theory ClientRuns
  imports ClientMain DeviceSim DeviceList Demo
begin

text \<open>
  Runs of the client program from its command line: over the network against the daemon, with a
  host name that is not resolved, and with arguments missing; and which device the options -d
  and -s choose among those connected.
\<close>

subsection \<open>Over the network\<close>

text \<open>
  The host resolves the name, and the network leads to the daemon; \<open>len\<close> is what the stack of the
  client holds for addrlen, \<open>kept\<close> what a recvfrom that fails behind the datagram leaves.
\<close>

definition reaches :: "'w setting \<Rightarrow> byte list \<Rightarrow> byte list \<Rightarrow> bool" where
  "reaches S ip addr \<longleftrightarrow> h_socket (se_host S) \<and> h_gethostbyname (se_host S) ip = Some addr \<and>
     length (se_junk S) = 17"

definition daemon_at :: "net_world setting \<Rightarrow> env \<Rightarrow> byte list \<Rightarrow> u32 \<Rightarrow> bool \<Rightarrow> bool" where
  "daemon_at S E addr len kept \<longleftrightarrow> se_kernel S = udp_kernel E (addr, UDB_NET_UDP_SERVER_PORT) len kept"

lemma open_ctrl_net:
  assumes "reaches S ip addr"
  shows "open_ctrl (se_host S) (client_start\<lparr>cl_dev_index := 0, cl_net_dev := Some ip\<rparr>)
    = Inr (client_start\<lparr>cl_dev_index := 0, cl_net_dev := Some ip, cl_udb_ctrl := net_handle_at addr\<rparr>)"
  using assms
  by (simp add: reaches_def open_ctrl_def get_udb_ctrl_handle_from_net_def client_start_def net_handle_at_def)

lemma udb_main_net:
  "udb_main fuel S (prog # ascii ''-i'' # ip # cmd # args) w =
     main_handle fuel S (ip # cmd # args) (client_start\<lparr>cl_dev_index := 0, cl_net_dev := Some ip\<rparr>) w"
  by (simp add: udb_main_def)

lemma main_handle_pull:
  "main_handle fuel S (p # ascii ''pull'' # args) c w = one (pull_main fuel S args c w)"
  by (simp add: main_handle_def str_arg_def arg_at_def) (simp add: ascii_def)

lemma main_handle_auth:
  "main_handle fuel S (p # ascii ''auth'' # args) c w = one (talk_main fuel S ''auth'' args c w)"
  by (simp add: main_handle_def str_arg_def arg_at_def) (simp add: ascii_def)

lemma main_handle_push:
  "main_handle fuel S (p # ascii ''push'' # args) c w = one (push_main fuel S args c w)"
  by (simp add: main_handle_def str_arg_def arg_at_def) (simp add: ascii_def)

lemma udb_pull_run:
  assumes "reaches S ip addr" and "daemon_at S E addr len kept" and len: "0 \<le> sint len" and "se_can_create S local"
    and "udbd_inv s" and "udb_auth_ok s" and "0 \<notin> set path" and "length path < 1466"
    and "files s (e_resolve E (cwd s) path) = Some content"
    and "e_malloc E (length content)" and "length content < 2 ^ 32"
    and "0 < fuel" and "length content \<le> fuel * 1470"
  shows "\<exists>s'. udb_main fuel S [prog, ascii ''-i'', ip, ascii ''pull'', local, path] (idle_world s)
    = Inr (idle_world s', [WroteFile local content])"
proof -
  obtain s' where p: "pull_file fuel (net_device E) 1470 path s = Inr (s', content)"
    using pull_file_content [OF assms(5,6,7,8,9), of content fuel] assms(10-) by auto
  obtain l :: "31 word" where l: "len = ucast l" using nonneg_31 [OF len] by blast
  have q: "pull_file fuel (ctrl_device (se_kernel S)) 1470 path (idle_world s, net_handle_at addr)
      = Inr ((idle_world s', net_handle_at addr), content)"
    using udp.pull_file_sim [of fuel E addr l kept path s] assms(2) by (simp add: p daemon_at_def l net_wrap_def)
  show ?thesis
    using assms(4) q
    by (intro exI [of _ s']) (simp add: udb_main_net main_handle_pull pull_main_def arg_at_def open_ctrl_net [OF assms(1)]
        cl_device_def cl_prot_def one_def)
qed

text \<open>What auth shows: its request and the answer, as hexadecimal rows.\<close>

lemma ucast_len_u32: "length d \<le> 1470 \<Longrightarrow> unat (ucast (of_nat (length d) :: 64 word) :: u32) = length d"
proof -
  assume "length d \<le> 1470"
  then have l: "length d < 18446744073709551616" "length d < 4294967296" by auto
  then have "unat (of_nat (length d) :: 64 word) = length d" by (simp add: unat_of_nat)
  then show ?thesis using l(2) by (simp add: unsigned_ucast_eq take_bit_nat_def)
qed

lemma dump_xfer_net:
  assumes x: "net_device E s wb = Inr (s', Some d)" and w: "length wb = 1470" and j: "length junk = 17"
    and len: "0 \<le> sint len"
  shows "dump_xfer (udp_kernel E (addr, UDB_NET_UDP_SERVER_PORT) len kept) (net_handle_at addr) junk wb (idle_world s)
    = Inr (idle_world s', dump_rows wb @ dump_rows (take 1470 d))"
proof -
  define r where "r = take 1470 d"
  have l: "length r \<le> 1470" and t: "take 1470 r = r" by (simp_all add: r_def)
  have sent: "dumphex junk wb (of_nat 1470) = Inr (dump_rows wb)"
    using dumphex_prints_rows [OF j, of "of_nat 1470" wb] w by simp
  have got: "dumphex junk (r @ drop (length r) (replicate (1470 + 1) 0)) (ucast (of_nat (length r) :: 64 word))
      = Inr (dump_rows r)"
    using dumphex_prints_rows [OF j, of "ucast (of_nat (length r) :: 64 word)"
        "r @ drop (length r) (replicate (1470 + 1) 0)"] ucast_len_u32 [OF l] by simp
  have wr: "udb_ctrl_write (udp_kernel E (addr, UDB_NET_UDP_SERVER_PORT) len kept) (net_handle_at addr) wb
      (idle_world s) = Inr (\<lparr>nw_daemon = s', nw_inbox = [d]\<rparr>, True)"
    using x by (simp add: udb_ctrl_write_def net_hal_write_def udp_kernel_def net_device_def idle_world_def)
  have rd: "udb_ctrl_read (udp_kernel E (addr, UDB_NET_UDP_SERVER_PORT) len kept) (net_handle_at addr) 1470
        \<lparr>nw_daemon = s', nw_inbox = [d]\<rparr>
      = Inr (idle_world s', net_handle_at addr\<lparr>ch_server := (addr, UDB_NET_UDP_SERVER_PORT)\<rparr>, r, of_nat (length r), True)"
    using len by (simp add: udb_ctrl_read_def net_hal_read_def udp_kernel_def idle_world_def Let_def t
        min_absorb1 [OF l] flip: r_def)
  show ?thesis
    unfolding dump_xfer_def Let_def net_handle_at_simps wr rd rbind_Inr prod.case sent got
    by (simp add: r_def)
qed

lemma auth_reply:
  assumes "auth (net_device E) 1470 s = Inr (s', d)"
  obtains d' where "net_device E s (payload_msg UDB_AUTH auth_cmd) = Inr (s', Some d')" and "take 1470 d' = d"
proof -
  have r: "rbind (new_request 1470 UDB_AUTH) (mwrite 4 auth_cmd) = Inr (payload_msg UDB_AUTH auth_cmd)"
    using payload_request [of auth_cmd UDB_AUTH] by (simp add: auth_cmd_def)
  have "rbind (udb_xfer (net_device E) 1470 s (payload_msg UDB_AUTH auth_cmd)) (\<lambda>(s, rb, n). Inr (s, take n rb))
      = Inr (s', d)"
    using assms unfolding auth_def rbind_assoc [symmetric] r by simp
  then obtain d' where n: "net_device E s (payload_msg UDB_AUTH auth_cmd) = Inr (s', Some d')"
    and t: "take (length (take 1470 d')) (take 1470 d' @ drop (length (take 1470 d')) (replicate 1471 0)) = d"
    by (auto simp: udb_xfer_def rbind_eq_Inr Let_def split: option.splits simp del: length_take)
  from t have "take 1470 d' = d" by (simp add: min_def split: if_splits)
  with n show ?thesis by (rule that)
qed

lemma udb_auth_run:
  assumes r: "reaches S ip addr" and e: "daemon_at S E addr len kept" and len: "0 \<le> sint len"
    and s: "udbd_inv s" "net_waiting s"
  shows "\<exists>s'. udb_main fuel S [prog, ascii ''-i'', ip, ascii ''auth''] (idle_world s)
      = Inr (idle_world s', [Printed (dump_rows (payload_msg UDB_AUTH auth_cmd) @
                                      dump_rows (ascii ''AUTHOK'' @ replicate 1464 0))]) \<and>
    udb_auth_ok s' \<and> udbd_inv s' \<and> files s' = files s \<and> cwd s' = cwd s"
proof -
  obtain s' where a: "auth (net_device E) 1470 s = Inr (s', ascii ''AUTHOK'' @ replicate 1464 0)"
    and s': "udb_auth_ok s'" "udbd_inv s'" "files s' = files s" "cwd s' = cwd s"
    using auth_key_session [of s E] s by (auto simp: net_waiting_def MAX_MSG_LENGTH_def)
  obtain d where d: "net_device E s (payload_msg UDB_AUTH auth_cmd) = Inr (s', Some d)"
    "take 1470 d = ascii ''AUTHOK'' @ replicate 1464 0"
    using auth_reply [OF a] by blast
  have rq: "rbind (new_request 1470 UDB_AUTH) (mwrite 4 auth_cmd) = Inr (payload_msg UDB_AUTH auth_cmd)"
    using payload_request [of auth_cmd UDB_AUTH] by (simp add: auth_cmd_def)
  have "auth_dump (se_kernel S) (net_handle_at addr) (se_junk S) (idle_world s)
      = Inr (idle_world s', dump_rows (payload_msg UDB_AUTH auth_cmd) @
             dump_rows (ascii ''AUTHOK'' @ replicate 1464 0))"
    unfolding auth_dump_def net_handle_at_simps rbind_assoc [symmetric] rq
    using dump_xfer_net [OF d(1), of "se_junk S" len addr kept] len r e d(2)
    by (simp add: reaches_def daemon_at_def auth_cmd_def)
  then show ?thesis
    using s'
    by (intro exI [of _ s']) (simp add: udb_main_net main_handle_auth talk_main_def Let_def
        open_ctrl_net [OF r] one_def printed_def)
qed

text \<open>
  With a negative length on the stack the call fails, and auth dumps -1 bytes of its answer, as
  an unsigned number; the daemon has opened the session.
\<close>

lemma dump_xfer_negative:
  assumes x: "net_device E s wb = Inr (s', Some d)" and w: "length wb = 1470" and j: "length junk = 17"
    and len: "sint len < 0"
  shows "dump_xfer (udp_kernel E (addr, UDB_NET_UDP_SERVER_PORT) len kept) (net_handle_at addr) junk wb (idle_world s)
    = Inl OobRead"
proof -
  define r where "r = (if kept then take 1470 (take 1470 d) else [])"
  have lr: "length r \<le> 1470" by (simp add: r_def)
  have sent: "dumphex junk wb (of_nat 1470) = Inr (dump_rows wb)"
    using dumphex_prints_rows [OF j, of "of_nat 1470" wb] w by simp
  have got: "dumphex junk (r @ drop (length r) (replicate (1470 + 1) 0)) (ucast (- 1 :: 64 word)) = Inl OobRead"
  proof (rule dumphex_overread [OF j])
    have m: "(ucast (- 1 :: 64 word) :: u32) = - 1" by (rule bit_word_eqI) (simp add: bit_unsigned_iff)
    have u: "unat (- 1 :: u32) = 4294967295" by (simp add: unsigned_minus_1_eq_mask mask_eq_exp_minus_1)
    show "length (r @ drop (length r) (replicate (1470 + 1) 0)) < unat (ucast (- 1 :: 64 word) :: u32)"
      unfolding m u using lr by simp
  qed
  have wr: "udb_ctrl_write (udp_kernel E (addr, UDB_NET_UDP_SERVER_PORT) len kept) (net_handle_at addr) wb
      (idle_world s) = Inr (\<lparr>nw_daemon = s', nw_inbox = [d]\<rparr>, True)"
    using x by (simp add: udb_ctrl_write_def net_hal_write_def udp_kernel_def net_device_def idle_world_def)
  have rd: "udb_ctrl_read (udp_kernel E (addr, UDB_NET_UDP_SERVER_PORT) len kept) (net_handle_at addr) 1470
        \<lparr>nw_daemon = s', nw_inbox = [d]\<rparr> = Inr (idle_world s', net_handle_at addr, r, - 1, True)"
    using len by (simp add: udb_ctrl_read_def net_hal_read_def udp_kernel_def idle_world_def Let_def r_def)
  show ?thesis
    unfolding dump_xfer_def Let_def net_handle_at_simps wr rd rbind_Inr prod.case sent got by simp
qed

theorem negative_addrlen_crashes:
  assumes r: "reaches S ip addr" and e: "daemon_at S E addr len kept" and len: "sint len < 0"
    and s: "udbd_inv s" "net_waiting s"
  shows "udb_main fuel S [prog, ascii ''-i'', ip, ascii ''auth''] (idle_world s) = Inl OobRead"
proof -
  obtain s' where a: "auth (net_device E) 1470 s = Inr (s', ascii ''AUTHOK'' @ replicate 1464 0)"
    using auth_key_session [of s E] s by (auto simp: net_waiting_def MAX_MSG_LENGTH_def)
  obtain d where d: "net_device E s (payload_msg UDB_AUTH auth_cmd) = Inr (s', Some d)"
    using auth_reply [OF a] by blast
  have rq: "rbind (new_request 1470 UDB_AUTH) (mwrite 4 auth_cmd) = Inr (payload_msg UDB_AUTH auth_cmd)"
    using payload_request [of auth_cmd UDB_AUTH] by (simp add: auth_cmd_def)
  have "auth_dump (se_kernel S) (net_handle_at addr) (se_junk S) (idle_world s) = Inl OobRead"
    unfolding auth_dump_def net_handle_at_simps rbind_assoc [symmetric] rq
    using dump_xfer_negative [OF d, of "se_junk S" len addr kept] len r e
    by (simp add: reaches_def daemon_at_def auth_cmd_def)
  then show ?thesis
    by (simp add: udb_main_net main_handle_auth talk_main_def Let_def open_ctrl_net [OF r] one_def printed_def)
qed

subsection \<open>A host name that is not resolved\<close>

text \<open>
  The handle keeps its zeros: the request buffer has no bytes, and the first write into it, the
  header, is outside.
\<close>

lemma open_ctrl_unresolved:
  assumes "h_socket H" and "h_gethostbyname H ip = None" and "cl_dev_index c = 0" and "cl_net_dev c = Some ip"
  shows "open_ctrl H c = Inr c"
  using assms by (simp add: open_ctrl_def get_udb_ctrl_handle_from_net_def)

lemma new_request_0: "new_request 0 ch = Inl OobWrite"
  by (simp add: new_request_def set_udb_channel_header_def mwrite_def)

lemma talk_main_prot_0:
  assumes "open_ctrl (se_host S) c = Inr c" and "unat (ch_prot_size (cl_udb_ctrl c)) = 0"
    and "cmd \<noteq> ''rawset''"
  shows "talk_main fuel S cmd args c w = Inl OobWrite"
  using assms
  by (simp add: talk_main_def Let_def cl_prot_def auth_dump_def new_request_0 printed_def on_handle_def
      interactive_shell_def shell_cmd_def exec_cmd_def msh_exec_cmd_def exec_on_def exec_cmd_wait_def
      command_request_def)

definition talk_commands :: "byte list set" where
  "talk_commands = {ascii ''auth'', ascii ''shell'', ascii ''runcmd'', ascii ''msh''}"

lemma udb_unresolved:
  assumes "h_socket (se_host S)" and "h_gethostbyname (se_host S) ip = None" and "cmd \<in> talk_commands"
  shows "udb_main fuel S (prog # ascii ''-i'' # ip # cmd # args) w = Inl OobWrite"
proof -
  define c where "c = client_start\<lparr>cl_dev_index := 0, cl_net_dev := Some ip\<rparr>"
  have o: "open_ctrl (se_host S) c = Inr c"
    using assms(1,2) by (intro open_ctrl_unresolved) (simp_all add: c_def)
  have p: "unat (ch_prot_size (cl_udb_ctrl c)) = 0"
    by (simp add: c_def client_start_def ctrl_handle_zero_def)
  have t: "talk_main fuel S cmd' as c w = Inl OobWrite" if "cmd' \<noteq> ''rawset''" for cmd' as
    using talk_main_prot_0 [OF o p that] .
  have "cmd = ascii ''auth'' \<or> cmd = ascii ''shell'' \<or> cmd = ascii ''runcmd'' \<or> cmd = ascii ''msh''"
    using assms(3) by (auto simp: talk_commands_def)
  then have "main_handle fuel S (ip # cmd # args) c w = Inl OobWrite"
    by (elim disjE; simp add: main_handle_def str_arg_def arg_at_def; simp add: ascii_def t one_def)
  then show ?thesis by (simp add: udb_main_net c_def)
qed

subsection \<open>Missing arguments\<close>

text \<open>-d or -s with nothing behind it, and a device without a command.\<close>

lemma udb_main_d_missing:
  "udb_main fuel S [prog, ascii ''-d''] w = Inl NullDeref"
  "udb_main fuel S [prog, ascii ''-d'', n] w = Inl NullDeref"
  by (simp_all add: udb_main_def Let_def str_arg_def arg_at_def main_handle_def)
    (simp_all add: ascii_def)

text \<open>pull and push without any argument look behind the end of argv.\<close>

lemma pull_main_no_args: "pull_main fuel S [] c w = Inl OobRead"
  by (simp add: pull_main_def arg_at_def)

lemma push_main_no_args: "push_main fuel S [] c w = Inl OobRead"
  by (simp add: push_main_def arg_at_def)

lemma pull_main_one_arg: "pull_main fuel S [l] c w = Inr (w, PrintUsage)"
  by (simp add: pull_main_def arg_at_def)

end
