(* ===== verification/ClientChoices.thy ===== *)
theory ClientChoices
  imports ClientRuns
begin

text \<open>
  The properties of the client program with their witnesses: a session from the command line,
  an unresolved host, the device chosen by number and by serial number, and the hexadecimal
  dump of the answers.
\<close>

subsection \<open>A concrete host\<close>

text \<open>Two supported devices, an interface of the first, and a hub.\<close>

definition cam :: "string \<Rightarrow> byte \<Rightarrow> usb_info" where
  "cam sn n = \<lparr>ui_vid = 0x0603, ui_pid = 0x8612, ui_bus = 1, ui_dev = n, ui_devpath = ascii ''1'',
     ui_serial = Some (ascii sn), ui_product = Some (ascii ''cam'')\<rparr>"

definition hub :: usb_info where
  "hub = \<lparr>ui_vid = 0x1d6b, ui_pid = 0x0002, ui_bus = 1, ui_dev = 1, ui_devpath = ascii ''0'',
     ui_serial = None, ui_product = None\<rparr>"

definition demo_nodes :: "usb_node list" where
  "demo_nodes = [(ascii ''1-1:1.0'', None), (ascii ''usb1'', Some hub), (ascii ''1-1'', Some (cam ''A1'' 4)),
     (ascii ''1-2'', Some (cam ''B2'' 5))]"

text \<open>The attribute files of a device.\<close>

definition attrs :: "string \<Rightarrow> (string \<times> string) list \<Rightarrow> (byte list \<times> byte list) list" where
  "attrs d kvs = map (\<lambda>(k, v). (sysfs_path (ascii d) k, ascii v @ [NEWLINE])) kvs"

definition demo_sysfs :: "(byte list \<times> byte list) list" where
  "demo_sysfs =
     attrs ''usb1'' [(''idVendor'', ''1d6b''), (''idProduct'', ''0002''), (''busnum'', ''1''), (''devnum'', ''1''),
       (''devpath'', ''0'')] @
     attrs ''1-1'' [(''idVendor'', ''0603''), (''idProduct'', ''8612''), (''busnum'', ''1''), (''devnum'', ''4''),
       (''devpath'', ''1''), (''serial'', ''A1''), (''product'', ''cam'')] @
     attrs ''1-2'' [(''idVendor'', ''0603''), (''idProduct'', ''8612''), (''busnum'', ''1''), (''devnum'', ''5''),
       (''devpath'', ''1''), (''serial'', ''B2''), (''product'', ''cam'')]"

definition demo_host :: host where
  "demo_host = \<lparr>h_devices = Some (ascii ''.'' # ascii ''..'' # map fst demo_nodes), h_file = map_of demo_sysfs,
     h_open = (\<lambda>p. False), h_readlink = (\<lambda>p. None), h_getdriver = (\<lambda>p. False), h_socket = True,
     h_gethostbyname = (\<lambda>n. if n = ascii ''cam'' then Some [10, 0, 0, 7] else None),
     h_stack = replicate 1024 0\<rparr>"

lemma hex_digits_demo:
  "fmt_04x 1539 = ascii ''0603''" "fmt_04x 34322 = ascii ''8612''" "fmt_04x 7531 = ascii ''1d6b''"
  "fmt_04x 2 = ascii ''0002''"
  by (simp_all add: fmt_04x_def hex_digits.simps hex_digit_def ascii_def Let_def numeral_3_eq_3)

lemma dec_digits_demo:
  "dec_digits (Suc 0) = ascii ''1''" "dec_digits 4 = ascii ''4''" "dec_digits 5 = ascii ''5''"
  by (simp_all add: dec_digits.simps ascii_def)

lemma byte_of_char_eq: "(of_char c :: byte) = of_char d \<longleftrightarrow> c = d"
proof
  assume "(of_char c :: byte) = of_char d"
  then have "(of_nat (of_char c) :: byte) = of_nat (of_char d)" by (simp only: of_nat_of_char)
  then have "unat (of_nat (of_char c) :: byte) = unat (of_nat (of_char d) :: byte)" by (simp only:)
  then have "(of_char c :: nat) = of_char d"
    using nat_of_char_less_256 [of c] nat_of_char_less_256 [of d] by (simp only: unat_of_nat) simp
  then show "c = d" by simp
qed simp

lemma ascii_eq_iff [simp]: "ascii s = ascii t \<longleftrightarrow> s = t"
  by (simp add: ascii_def byte_of_char_eq inj_map_eq_map inj_def)

lemma sysfs_path_eq_iff:
  "CHR ''/'' \<notin> set d \<Longrightarrow> CHR ''/'' \<notin> set d' \<Longrightarrow>
     sysfs_path (ascii d) a = sysfs_path (ascii d') a' \<longleftrightarrow> d = d' \<and> a = a'"
proof -
  assume d: "CHR ''/'' \<notin> set d" "CHR ''/'' \<notin> set d'"
  have "d @ CHR ''/'' # a = d' @ CHR ''/'' # a' \<longleftrightarrow> d = d' \<and> a = a'"
    using d by (auto simp: append_eq_Cons_conv append_eq_append_conv2 Cons_eq_append_conv)
  moreover have "ascii d @ ascii ''/'' @ ascii a = ascii (d @ CHR ''/'' # a)" for d a
    by (simp add: ascii_def)
  ultimately show ?thesis by (simp add: sysfs_path_def)
qed

lemma demo_shows: "sysfs_shows demo_host demo_nodes"
proof -
  have "list_all (node_shown demo_host) demo_nodes"
    by (simp add: demo_nodes_def device_shown_def shown_text_def shown_opt_def demo_host_def demo_sysfs_def
        attrs_def sysfs_path_eq_iff cam_def hub_def hex_digits_demo dec_digits_demo)
      (simp add: ascii_def)
  moreover have "map fst demo_nodes = visible (ascii ''.'' # ascii ''..'' # map fst demo_nodes)"
    by (simp add: visible_def demo_nodes_def) (simp add: ascii_def)
  ultimately show ?thesis by (simp add: sysfs_shows_def line_ok_def demo_host_def)
qed

lemma demo_supported: "supported demo_nodes = [cam ''A1'' 4, cam ''B2'' 5]"
  by (simp add: demo_nodes_def cam_def hub_def in_support_list_def support_entry_eq)

lemma demo_host_ok: "files_ok demo_host" "links_ok demo_host"
proof -
  have "c \<noteq> [] \<and> 0 \<notin> set c" if "(p, c) \<in> set demo_sysfs" for p c
    using that by (auto simp: demo_sysfs_def attrs_def ascii_def)
  then show "files_ok demo_host" by (auto simp: files_ok_def demo_host_def dest!: map_of_SomeD)
  show "links_ok demo_host" by (simp add: links_ok_def demo_host_def)
qed

lemma demo_serials: "\<forall>u\<in>set (supported demo_nodes). ui_serial u \<noteq> None"
  by (simp add: demo_supported cam_def)

subsection \<open>The command line over the network\<close>

definition demo_setting :: "net_world setting" where
  "demo_setting = \<lparr>se_host = demo_host, se_kernel = udp_kernel demo_env ([10, 0, 0, 7], UDB_NET_UDP_SERVER_PORT) 16 False,
     se_junk = replicate 17 0, se_stdin = [], se_local = (\<lambda>p. None), se_can_create = (\<lambda>p. True),
     se_disconnect = (\<lambda>p w. (w, True)), se_connect = (\<lambda>p w. (w, True)), se_reset = (\<lambda>p w. (w, True)),
     se_strerror = []\<rparr>"

lemma demo_setting_simps [simp]:
  "se_host demo_setting = demo_host" "se_can_create demo_setting l"
  by (simp_all add: demo_setting_def)

lemma demo_reaches: "reaches demo_setting (ascii ''cam'') [10, 0, 0, 7]"
  by (simp add: reaches_def demo_setting_def demo_host_def)

lemma demo_daemon_at: "daemon_at demo_setting demo_env [10, 0, 0, 7] 16 False"
  by (simp add: daemon_at_def demo_setting_def)

text \<open>
  C17. A session from the command line: on a daemon nobody has authenticated to, "udb -i host
  auth" prints the rows of its request and of the answer AUTHOK, and "udb -i host pull local
  path" then writes exactly the bytes of the daemon's file to the local file.  The run covers
  main, the resolution of the host, the control handle, the UDP socket, and the daemon.  The
  length that recvfrom finds in the uninitialised addrlen must not be negative; where it is, the
  call fails and auth reads far behind its buffer (\<open>negative_addrlen_crashes\<close>).
\<close>

theorem udb_session_over_network:
  assumes "reaches S ip addr" and "daemon_at S E addr len kept" and "0 \<le> sint len" and "se_can_create S local"
    and "udbd_inv s" and "net_waiting s" and "0 \<notin> set path" and "length path < 1466"
    and "files s (e_resolve E (cwd s) path) = Some content"
    and "e_malloc E (length content)" and "length content < 2 ^ 32"
    and "0 < fuel" and "length content \<le> fuel * 1470"
  shows "\<exists>s1 s2.
    udb_main fuel S [prog, ascii ''-i'', ip, ascii ''auth''] (idle_world s)
      = Inr (idle_world s1, [Printed (dump_rows (payload_msg UDB_AUTH auth_cmd) @
                                      dump_rows (ascii ''AUTHOK'' @ replicate 1464 0))]) \<and>
    udb_main fuel S [prog, ascii ''-i'', ip, ascii ''pull'', local, path] (idle_world s1)
      = Inr (idle_world s2, [WroteFile local content])"
proof -
  obtain s1 where a: "udb_main fuel S [prog, ascii ''-i'', ip, ascii ''auth''] (idle_world s)
      = Inr (idle_world s1, [Printed (dump_rows (payload_msg UDB_AUTH auth_cmd) @
                                      dump_rows (ascii ''AUTHOK'' @ replicate 1464 0))])"
    and s1: "udb_auth_ok s1" "udbd_inv s1" "files s1 = files s" "cwd s1 = cwd s"
    using udb_auth_run [OF assms(1,2,3,5,6)] by blast
  show ?thesis
    using a udb_pull_run [OF assms(1-4) s1(2,1) assms(7,8) _ assms(10-)] assms(9) s1(3,4) by fastforce
qed

lemma udb_session_over_network_witness:
  "\<exists>s1 s2.
    udb_main 1 demo_setting [[], ascii ''-i'', ascii ''cam'', ascii ''auth''] (idle_world demo_boot)
      = Inr (idle_world s1, [Printed (dump_rows (payload_msg UDB_AUTH auth_cmd) @
                                      dump_rows (ascii ''AUTHOK'' @ replicate 1464 0))]) \<and>
    udb_main 1 demo_setting [[], ascii ''-i'', ascii ''cam'', ascii ''pull'', ascii ''/b'', ascii ''/a''] (idle_world s1)
      = Inr (idle_world s2, [WroteFile (ascii ''/b'') (ascii ''contents'')])"
  by (rule udb_session_over_network [OF demo_reaches demo_daemon_at])
    (simp_all add: demo_files_def, simp_all add: ascii_def)

text \<open>
  A host name that is not resolved is not noticed: every command of the channel writes the
  header of its request behind a buffer of size 0.
\<close>

theorem unresolved_host_overflows:
  assumes "h_socket (se_host S)" and "h_gethostbyname (se_host S) ip = None" and "cmd \<in> talk_commands"
  shows "udb_main fuel S (prog # ascii ''-i'' # ip # cmd # args) w = Inl OobWrite"
  by (rule udb_unresolved [OF assms])

lemma unresolved_host_overflows_witness:
  "udb_main 1 demo_setting [[], ascii ''-i'', ascii ''nohost'', ascii ''auth''] (idle_world demo_boot) = Inl OobWrite"
  by (rule unresolved_host_overflows) (simp_all add: demo_host_def talk_commands_def)

subsection \<open>The device chosen\<close>

text \<open>
  The numbers on the list are the numbers of -d: print_connected_list prints one line for
  each supported device, and the device on line i is the one select_usb_dev_by_index fills in
  for i, although the scans read the attributes of interfaces from a stale buffer.
\<close>

theorem listed_number_selects:
  assumes "sysfs_shows H nodes" and "\<forall>u\<in>set (supported nodes). ui_serial u \<noteq> None"
    and "files_ok H" and "links_ok H" and "supported nodes \<noteq> []" and "length (ud_sn ud) = PATH_MAX"
  shows "\<exists>ls. print_connected_list H = Inr ls \<and> length ls = length (supported nodes) \<and>
    (\<forall>i<length ls. lists_device (Suc i) (supported nodes ! i) (ls ! i) \<and>
       select_usb_dev_by_index H (int (Suc i)) ud = Inr (dev_of (supported nodes ! i)))"
proof -
  have "select_usb_dev_by_index H (int (Suc i)) ud = Inr (dev_of (supported nodes ! i))"
    if "i < length (supported nodes)" for i
    using select_shown [OF assms(1) _ assms(6), of "Suc i"] that assms(5) by simp
  then show ?thesis using print_connected_shown [OF assms(1-5)] by fastforce
qed

lemma listed_number_selects_witness:
  "\<exists>ls. print_connected_list demo_host = Inr ls \<and> length ls = length (supported demo_nodes) \<and>
    (\<forall>i<length ls. lists_device (Suc i) (supported demo_nodes ! i) (ls ! i) \<and>
       select_usb_dev_by_index demo_host (int (Suc i)) usb_dev_zero = Inr (dev_of (supported demo_nodes ! i)))"
  by (rule listed_number_selects [OF demo_shows demo_serials demo_host_ok])
    (simp_all add: demo_supported usb_dev_zero_def)

text \<open>
  -s chooses the first connected device whose serial number begins with the argument; when
  no serial number does, it chooses the last device instead of failing.
\<close>

theorem sn_selects_device:
  assumes "sysfs_shows H nodes" and "\<forall>u\<in>set (supported nodes). ui_serial u \<noteq> None" and "0 \<notin> set sn"
    and "supported nodes \<noteq> []" and "length (ud_sn ud) = PATH_MAX"
  shows "rbind (convert_sn_to_index H (Some sn)) (\<lambda>i. select_usb_dev_by_index H (int i) ud)
    = Inr (dev_of (case find (\<lambda>u. starts_with sn (serial_of u)) (supported nodes) of
        Some u \<Rightarrow> u | None \<Rightarrow> last (supported nodes)))"
  using select_by_sn [OF assms] by (simp add: choose_sn_def)

lemma sn_selects_device_witness:
  "rbind (convert_sn_to_index demo_host (Some (ascii ''B''))) (\<lambda>i. select_usb_dev_by_index demo_host (int i) usb_dev_zero)
    = Inr (dev_of (cam ''B2'' 5)) \<and>
   rbind (convert_sn_to_index demo_host (Some (ascii ''Z''))) (\<lambda>i. select_usb_dev_by_index demo_host (int i) usb_dev_zero)
    = Inr (dev_of (cam ''B2'' 5))"
proof -
  have b: "find (\<lambda>u. starts_with (ascii ''B'') (serial_of u)) (supported demo_nodes) = Some (cam ''B2'' 5)"
    unfolding demo_supported by (simp add: cam_def serial_of_def starts_with_def) (simp add: ascii_def)
  have z: "find (\<lambda>u. starts_with (ascii ''Z'') (serial_of u)) (supported demo_nodes) = None"
    unfolding demo_supported by (simp add: cam_def serial_of_def starts_with_def) (simp add: ascii_def)
  have l: "last (supported demo_nodes) = cam ''B2'' 5" "supported demo_nodes \<noteq> []"
    by (simp_all add: demo_supported)
  have n: "0 \<notin> set (ascii ''B'')" "0 \<notin> set (ascii ''Z'')" "length (ud_sn usb_dev_zero) = PATH_MAX"
    by (simp_all add: ascii_def usb_dev_zero_def)
  show ?thesis
    using sn_selects_device [OF demo_shows demo_serials n(1) l(2) n(3)]
      sn_selects_device [OF demo_shows demo_serials n(2) l(2) n(3)]
    by (simp only: b z l(1) option.case)
qed

subsection \<open>The dump of an answer\<close>

text \<open>
  dumphex prints the rows of the reference for the bytes of its length: sixteen cells a row,
  blanks where the data ends, and the text in the same column everywhere; the bytes that were in
  its array before do not show.
\<close>

theorem dumphex_is_rows:
  assumes "length junk = 17" and "unat n \<le> length data"
  shows "dumphex junk data n = Inr (dump_rows (take (unat n) data))"
  by (rule dumphex_prints_rows [OF assms])

lemma dumphex_is_rows_witness:
  "dumphex (replicate 17 7) (ascii ''hello'') 5 = Inr (dump_rows (ascii ''hello''))"
  using dumphex_is_rows [of "replicate 17 7" 5 "ascii ''hello''"] by simp

end
