(* ===== verification/Spec2Isabelle.thy ===== *)
theory Spec2Isabelle
  imports Prelude Rlog CmdParse Popen UdbState RunCmd RunWait FileXfer MshCmd Bridge UdbInv Client
    ChunkService NetDevice PushService EndToEnd NoFault Session WaitQueue Demo Hazards Guarantees
    FirmwareFile DfuseLayout DfuLoad DfuseFlash DfuseFiles DfuRuns HubRuns UsbRuns UpnpRuns UpnpReply ClientChoices
begin

text \<open>
  A verification development for udb, the Universal Debug Bridge: a daemon on an embedded Linux
  device (src/server) that runs commands and moves files for a client on the host (src/client),
  over UDP or over the control endpoint of a USB camera, and the tools the client carries with it:
  dfu-util, which downloads firmware, uhubctl, which switches the power of hub ports, and the search
  for devices of miniupnpc, with the part of libusb that reads the descriptors of devices
  (src/client/src/external).

  \<^bold>\<open>How the parts interact.\<close>  A request is one datagram: "udb", a channel number, the payload.
  The daemon's UDP loop (net_debugd.c) hands it to the dispatcher udb_debug_bridge, which
  refuses everything but authentication until a client has sent the key, and then calls the
  handler of the channel; the answer is one datagram of the protocol size.  Output that is longer
  than an answer stays in static buffers, and the client pulls it out piece by piece.  Commands
  that run while the client polls are read by a thread, which shares those buffers with the
  handlers.  Every message the daemon prints goes to a ring buffer that the client can dump.  The
  client's main chooses a device, opens a control handle, and runs one of the protocol's
  operations over it.

  \<^bold>\<open>Conventions.\<close>  Bytes, 16-bit and 32-bit numbers are words; a C object is a list of bytes of
  its size, or a record for a struct.  Each access names its offset and size; one that leaves the
  object is \<open>Inl OobRead\<close> or \<open>Inl OobWrite\<close>, an access through NULL is \<open>Inl NullDeref\<close>, a call
  of exit is \<open>Inl ExitCall\<close>.  So a theorem with a result \<open>Inr\<close> says that the code has no undefined
  behaviour there.  What the code does not define (kernel, file system, other processes, libusb,
  devices) is a parameter: records of functions (\<open>env\<close>, \<open>popen_sys\<close>, \<open>host\<close>, \<open>kernel\<close>, \<open>usb\<close>),
  with what the code relies on as hypotheses of the theorems.  A loop of the client that ends only
  by what the device answers runs on fuel, one unit a turn; the theorems state how much is enough
  (one unit for each packet of 1470 bytes pulled or 1464 bytes pushed, at least one).

  \<^bold>\<open>The daemon\<close> (src/server/src).
  \<^item> \<open>Prelude\<close>: bytes, memory blocks, C strings, little-endian numbers, sequencing of fallible steps.
  \<^item> \<open>Rlog\<close>: rlog.c, the ring buffer and the log; it is a list of which the last 512 bytes are kept.
  \<^item> \<open>CmdParse\<close>, \<open>Popen\<close>: udb_debug.c, the command parser with the strtok it calls, uvc_popen and
    uvc_pclose with the table of children.
  \<^item> \<open>UdbState\<close>: the globals of udb_debug.c with the static buffers, as one record; pulling a piece.
  \<^item> \<open>RunCmd\<close>, \<open>RunWait\<close>, \<open>FileXfer\<close>, \<open>MshCmd\<close>: the handlers; a step of the thread is a function.
  \<^item> \<open>Bridge\<close>: authentication, dispatcher, a turn of the UDP loop, start; the daemon as a step
    relation \<open>udbd_step\<close> over the phases of a turn, with its reachable states.
  \<^item> \<open>UdbInv\<close> (the invariant and its preservation by every handler), \<open>NoFault\<close> (which requests
    are handled without undefined behaviour), \<open>Session\<close> (runs over lists of datagrams),
    \<open>WaitQueue\<close> (the queue between thread and polls under every interleaving, with the time of
    each step), \<open>Hazards\<close> (the requests that break the daemon, and the races of the waiting command,
    the one for the request buffer among them), \<open>Guarantees\<close>.

  \<^bold>\<open>The client\<close> (src/client/src).
  \<^item> \<open>Client\<close>: udb.h, auth.cpp, raw.cpp, file.cpp, shell.cpp over a device given as a function.
  \<^item> \<open>ChunkService\<close>, \<open>PushService\<close>: what the loops of the client rely on, as locales: a channel
    on which pulling hands out the pending bytes in order, and one on which pushing appends.
  \<^item> \<open>NetDevice\<close>: the daemon behind a UDP socket as that device; its three pull-out channels and
    its push channel are interpretations of the locales.  \<open>EndToEnd\<close>: the whole operations.
  \<^item> \<open>SupportList\<close> (list.cpp, config.h), \<open>HexDump\<close> (utils.cpp), \<open>Sysfs\<close> and \<open>CtrlIo\<close>
    (platform_linux.cpp: the search for devices, the handle, V4L2, usbdevfs and UDP transport, with
    the failing recvfrom and the length it is given, which the code leaves uninitialised),
    \<open>ClientMain\<close> (udb.cpp and the kernel-driver commands).
  \<^item> \<open>DeviceSim\<close>: the locale of two devices that answer alike, in which every operation of the
    client is shown to do the same on both; the socket of \<open>CtrlIo\<close> in front of the daemon is an
    interpretation of it.  \<open>DeviceChoice\<close>, \<open>DeviceList\<close>: the scans of sysfs as functions of the
    list of supported devices.  \<open>ClientRuns\<close>, \<open>ClientChoices\<close>: runs from the command line.

  \<^bold>\<open>dfu-util\<close> (src/client/src/external/dfu-util/src).
  \<^item> \<open>DfuCrc\<close>, \<open>DfuFile\<close>: dfu_file.c, loading and storing firmware files with prefix, suffix and
    checksum; \<open>FirmwareFile\<close>: they read each other, and a changed byte is found.
  \<^item> \<open>DfuseMem\<close>: dfuse_mem.c, the memory map and its parser with the sscanf calls;
    \<open>DfuseLayout\<close>: against a grammar of layout strings.
  \<^item> \<open>Dfu\<close>, \<open>DfuLoad\<close>: dfu.c, quirks.c and dfu_load.c; \<open>Dfuse\<close>: dfuse.c; \<open>DfuseFlash\<close>: against a flash
    memory in which erasing sets a page and programming clears bits; \<open>DfuseFiles\<close>: the option
    string, DfuSe files, and the buffer of the upload.
  \<^item> \<open>TextFmt\<close>: the printf conversions.  \<open>DfuUtil\<close>: dfu_util.c, the search for DFU interfaces;
    \<open>DfuMain\<close>: main.c, the options and the whole of dfu_main; \<open>DfuSearch\<close>: the search against what
    the options and the descriptors ask for, stated without the code's tests; \<open>DfuRuns\<close>: runs from the command line.  The loop over the
    status of the device runs on fuel; \<open>DfuRuns\<close> shows how much a device that recovers needs.

  \<^bold>\<open>uhubctl\<close> (src/client/src/external/uhubctl/uhubctl.c).
  \<^item> \<open>HubOpts\<close>: the options and the port list; \<open>HubInfo\<close>: what is read of a device; \<open>HubFind\<close>: the
    hubs to work on and the pairing of the two halves of a USB 3 hub; \<open>HubPower\<close>: port status, the
    requests and the file disable of sysfs, main.
  \<^item> \<open>HubChoice\<close>: which hubs are worked on, and the scoring loop against an order of fits;
    \<open>HubRuns\<close>: the port list, and the power of every port after a run, for a bus whose hubs do as
    they are asked.  A shift by more than 30 bits is \<open>Inl IntOverflow\<close>: the theorem on runs asks for
    hubs of at most 30 ports.

  \<^bold>\<open>libusb's descriptors\<close> (src/client/src/external/libusb/libusb/descriptor.c).
  \<^item> \<open>UsbDesc\<close>: the parser of configurations; a pointer is the list of the bytes from there on, and
    every loop ends because the bytes left become fewer.  \<open>UsbApi\<close>: the functions a program calls,
    over the answers of a backend.
  \<^item> \<open>UsbTree\<close>: for any bytes, nothing outside them is read and the result is well-typed;
    \<open>UsbRound\<close>: well-formed configurations against their encoding; \<open>UsbRuns\<close>: the functions on
    devices that answer as they should, and on any others.

  \<^bold>\<open>The UPnP search\<close> (src/client/src/external/miniupnp/miniupnpc), which is udb upnp.
  \<^item> \<open>UpnpWire\<close>: codelength.h and minissdpc.c, the devices that the daemon minissdpd knows; \<open>Ssdp\<close>: the
    reader of the replies of devices, against a reading line by line; \<open>Discover\<close>: the search of
    minissdpc.c and miniupnpc.c, over the list of what the socket will receive; \<open>ListDevices\<close>:
    listdevices.c, the grouping of the devices, the HTTP client and the command; \<open>UpnpRuns\<close>: whole
    runs of the command, and what one answer of a device can do to it.
  \<^item> \<open>MiniXml\<close>: minixml.c, as the list of the callbacks it makes; every loop ends because the position
    grows.  \<open>XmlRound\<close>: the parser on the text of a tree.  \<open>UpnpXml\<close>: the readers igd_desc_parse.c,
    upnpreplyparse.c and portlistingparse.c, as folds over the callbacks; \<open>UpnpRead\<close> and \<open>UpnpReply\<close>:
    what they find in the document of a tree.

  \<^bold>\<open>What the properties show.\<close>  C1 to C10, here, are the end-to-end statements: files and command
  output arrive byte for byte, nothing happens without the key, every reachable state satisfies
  the invariant, well-formed datagrams are handled without undefined behaviour, and the log keeps
  the last bytes printed.  The properties of the components are in the theories named above, at
  their ends or in \<open>Hazards\<close>, \<open>Guarantees\<close>, \<open>FirmwareFile\<close>, \<open>DfuseLayout\<close>, \<open>DfuLoad\<close>,
  \<open>DfuseFlash\<close>, \<open>DfuSearch\<close>, \<open>DfuRuns\<close>, \<open>HubChoice\<close>, \<open>HubRuns\<close>, \<open>UsbTree\<close>, \<open>UsbRound\<close>, \<open>UsbRuns\<close>,
  \<open>UpnpWire\<close>, \<open>Ssdp\<close>, \<open>UpnpRuns\<close>, \<open>MiniXml\<close>, \<open>UpnpReply\<close> and \<open>ClientChoices\<close>; where the code does not do what it means to, the property states what it does instead.

  \<^bold>\<open>Not modelled.\<close>  Progress and error messages of the tools, times and build times; socket set-up
  of the daemon; a sendto that fails, which no caller notices (in the daemon's steps it is the same
  as one that succeeds, in the client's it is not considered); the Windows platform layer; capture, view and
  usbmon with V4L2, libuvc and terminal output (they copy between the kernel and the terminal);
  adb, the rest of libusb, libuvc, usbutils and stb, which are vendored: the modelled code calls
  libusb only, and its answers are parameters (\<open>usb\<close>, \<open>usb_host\<close>, \<open>dfu_env\<close>, \<open>hub_bus\<close>); the SOAP client
  of miniupnpc (miniwget.c, minisoap.c, upnpcommands.c), which no command of udb calls, and the UPnP
  daemons, which its build leaves out; socket options and the reading of addresses.
\<close>

section \<open>The client and the daemon together\<close>

text \<open>
  C1. Pulling a file: whatever the file on the device, the client's pull_file writes exactly
  its bytes to the local file and the daemon has nothing left to hand out; one turn of the
  loop for each 1470 bytes is enough.
\<close>

theorem pull_file_correct:
  assumes "udbd_inv s" and "udb_auth_ok s" and "0 \<notin> set path" and "length path < 1466"
    and "files s (e_resolve E (cwd s) path) = Some content"
    and "e_malloc E (length content)" and "length content < 2 ^ 32"
    and "0 < fuel" and "length content \<le> fuel * 1470"
  shows "\<exists>s'. pull_file fuel (net_device E) 1470 path s = Inr (s', content) \<and> pull_pending s' []"
  by (rule pull_file_content [where r = "Some content"]) (use assms in simp_all)

lemma pull_file_correct_witness:
  "\<exists>s'. pull_file 1 (net_device demo_env) 1470 (ascii ''/a'') demo_auth = Inr (s', ascii ''contents'') \<and>
     pull_pending s' []"
  by (rule pull_file_correct) (simp_all add: demo_files_def, simp_all add: ascii_def)

text \<open>
  C2. Pushing a file: when the daemon can create it, the file holds exactly the bytes of the
  local file after push_file, however stdio splits its writes (\<open>e_spill\<close> is arbitrary).
\<close>

theorem push_file_correct:
  assumes "udbd_inv s" and "udb_auth_ok s" and "push_fp s = None"
    and "0 \<notin> set path" and "length path < 1462" and "k = e_resolve E (cwd s) path" and "e_creat E k"
    and "length content < 2 ^ 32" and "0 < fuel" and "length content \<le> fuel * 1464"
  shows "\<exists>s'. push_file fuel (net_device E) 1470 content path s = Inr s' \<and>
    files s' k = Some content \<and> push_fp s' = None \<and> udbd_inv s'"
  by (rule push_file_content) (use assms in simp_all)

lemma push_file_correct_witness:
  "\<exists>s'. push_file 1 (net_device demo_env) 1470 (ascii ''data'') (ascii ''/b'') demo_auth = Inr s' \<and>
     files s' (ascii ''/b'') = Some (ascii ''data'') \<and> push_fp s' = None \<and> udbd_inv s'"
  by (rule push_file_correct) (simp_all, simp_all add: ascii_def)

text \<open>
  C3. Running a command: exec_cmd prints the output of the command line it sent (the first
  655359 bytes of it), for a command that is not built into the daemon and output without
  NUL bytes.
\<close>

theorem exec_cmd_correct:
  assumes "udbd_inv s" and "udb_auth_ok s"
    and "cmd = cmd_line (sent_args 4 args)" and "0 \<notin> set cmd" and "length cmd < 1466" and "external_cmd cmd"
    and "popen_sys_ok (e_popen E (popen_st s)) (popen_st s)"
    and "e_exec E (files s) (cwd s) (popen_argv True cmd) = (out, fs)" and "0 \<notin> set out"
    and "0 < fuel" and "length (take 655359 out) \<le> fuel * 1470"
  shows "\<exists>s'. exec_cmd fuel (net_device E) 1470 args s = Inr (s', take 655359 out) \<and> run_pending s' []"
  by (rule exec_cmd_output) (use assms in simp_all)

lemma exec_cmd_correct_witness:
  "\<exists>s'. exec_cmd 1 (net_device demo_env) 1470 [ascii ''echo'', ascii ''hello''] demo_auth
      = Inr (s', take 655359 (ascii ''hello'' @ [NEWLINE])) \<and> run_pending s' []"
proof -
  have c: "cmd_line (sent_args 4 [ascii ''echo'', ascii ''hello'']) = ascii ''echo hello ''"
    by (simp add: ascii_def)
  have x: "external_cmd (ascii ''echo hello '')"
    by (simp add: external_cmd_def Let_def ascii_def is_blank_def is_multi_cmd_def)
  show ?thesis
    by (rule exec_cmd_correct [OF demo_auth_inv, where fs = demo_files and cmd = "ascii ''echo hello ''"])
      (simp_all add: c x, simp_all add: ascii_def)
qed

text \<open>
  C4. The log command: msh_exec_cmd of a line that starts with "log" prints the last 512
  bytes of the daemon's log (the whole log while it is shorter).
\<close>

theorem msh_log_correct:
  assumes "udbd_inv s" and "udb_auth_ok s"
    and "cmd_line (sent_args 4 args) = ascii ''log'' @ rest" and "length rest < 1463"
    and "log_repr h (rlog s)" and "0 \<notin> set h" and "0 < fuel"
  shows "\<exists>s'. msh_exec_cmd fuel (net_device E) 1470 args s = Inr (s', drop (length h - 512) h) \<and>
    msh_pending s' []"
  by (rule msh_log_output) (use assms in simp_all)

lemma msh_log_correct_witness:
  "\<exists>s'. msh_exec_cmd 1 (net_device demo_env) 1470 [ascii ''log''] demo_auth = Inr (s', drop (length [] - 512) []) \<and>
    msh_pending s' []"
proof -
  have "log_repr [] (rlog demo_auth)"
    using log_repr_init [of "replicate (RLOG_MAX_LOG_BUF_SIZE + 1) 0" rbuf_zero]
    by (simp add: demo_auth_def demo_boot_def udbd_start_def RLOG_MAX_LOG_BUF_SIZE_def)
  from msh_log_correct [OF demo_auth_inv _ _ _ this, of "[ascii ''log'']" "[SPACE]" 1 demo_env] show ?thesis
    by simp
qed

section \<open>Sessions\<close>

text \<open>
  C5. A client without the key is harmless: in any sequence of datagrams none of which
  carries the key, an unauthenticated daemon changes nothing but its log and the protocol
  size in use (no file, no command, no transfer, no authentication), and its answers are
  refusals.
\<close>

theorem unauthenticated_harmless:
  assumes "net_waiting s" and "\<not> udb_auth_ok s"
    and "\<forall>msg. RecvMsg msg \<in> set rs \<longrightarrow> \<not> auth_datagram (take 1470 msg)"
    and "net_run E rs s = Inr (s', replies)"
  shows "protected s' = protected s \<and> set replies \<subseteq> refusals"
  by (rule unauth_run [OF assms])

lemma unauthenticated_harmless_witness:
  "\<exists>s' replies. net_run demo_env [RecvErr, RecvMsg (ascii ''udb'')] demo_boot = Inr (s', replies) \<and>
     protected s' = protected demo_boot \<and> set replies \<subseteq> refusals"
proof -
  have r: "net_run demo_env [RecvErr, RecvMsg (ascii ''udb'')] demo_boot
      = Inr (net_clear (net_store (ascii ''udb'') (net_clear demo_boot)), [None, None])"
    by (simp add: net_debugd_step_def Let_def MAX_MSG_LENGTH_def)
  moreover have "\<forall>msg. RecvMsg msg \<in> set [RecvErr, RecvMsg (ascii ''udb'')] \<longrightarrow> \<not> auth_datagram (take 1470 msg)"
    by (simp add: auth_datagram_def)
  ultimately show ?thesis
    using unauthenticated_harmless [of demo_boot "[RecvErr, RecvMsg (ascii ''udb'')]" demo_env] by simp
qed

text \<open>
  C6. A session opens exactly when a datagram with the key arrives, and never closes: after
  any sequence of datagrams the flag is set if and only if it was, or one of them carried
  the 16-byte key behind the header of UDB_AUTH.
\<close>

theorem session_opens_iff_key:
  assumes "net_waiting s" and "net_run E rs s = Inr (s', replies)"
  shows "udb_auth_ok s' \<longleftrightarrow>
    udb_auth_ok s \<or> (\<exists>msg. RecvMsg msg \<in> set rs \<and> auth_datagram (take 1470 msg))"
  using assms
proof (induction rs arbitrary: s replies)
  case Nil
  then show ?case by simp
next
  case (Cons r rs)
  obtain s1 reply rest where t: "net_debugd_step E r s = Inr (s1, reply)" and k: "net_run E rs s1 = Inr (s', rest)"
    using Cons.prems(2) by (auto simp: rbind_eq_Inr)
  have "udb_auth_ok s1 \<longleftrightarrow> udb_auth_ok s \<or> (\<exists>msg. r = RecvMsg msg \<and> auth_datagram (take 1470 msg))"
  proof (cases r)
    case RecvErr
    with t show ?thesis by (auto simp: net_debugd_step_def net_clear_def)
  next
    case (RecvMsg msg)
    with net_turn_auth [OF Cons.prems(1)] t show ?thesis by auto
  qed
  with Cons.IH [OF net_waiting_after [OF t Cons.prems(1)] k] show ?case by auto
qed

lemma session_opens_iff_key_witness:
  "\<exists>s' replies. net_run demo_env [RecvErr] demo_boot = Inr (s', replies) \<and> \<not> udb_auth_ok s'"
proof -
  have r: "net_run demo_env [RecvErr] demo_boot = Inr (net_clear demo_boot, [None])"
    by (simp add: net_debugd_step_def)
  from session_opens_iff_key [OF _ r] show ?thesis using r by simp
qed

text \<open>
  C7. Authenticating: auth with the key of the client is answered by AUTHOK and opens the
  session.
\<close>

theorem auth_correct:
  assumes "udbd_inv s" and "net_waiting s"
  shows "\<exists>s'. auth (net_device E) 1470 s = Inr (s', ascii ''AUTHOK'' @ replicate 1464 0) \<and>
    udb_auth_ok s' \<and> udbd_inv s'"
  by (rule auth_key_answer) (use assms in \<open>simp_all add: net_waiting_def MAX_MSG_LENGTH_def\<close>)

lemma auth_correct_witness:
  "\<exists>s'. auth (net_device demo_env) 1470 demo_boot = Inr (s', ascii ''AUTHOK'' @ replicate 1464 0) \<and>
    udb_auth_ok s' \<and> udbd_inv s'"
  by (rule auth_correct) simp_all

section \<open>The daemon\<close>

text \<open>
  C8. The invariant of the daemon (buffers of their sizes, every control block inside its
  buffer, the log a log, the thread and its flag in step) holds in every state reachable
  from start.  The steps of the UDP loop are: a datagram (any) or an error is received, the
  request is handled, the answer is sent, the buffers are cleared; those of the thread of a
  waiting command: its start with the copy of its command, one line read, its end.  The
  thread takes its steps between any two of the loop; none of these steps is split further.
\<close>

theorem reachable_states_ok:
  assumes "udbd_reachable (phase, s)"
  shows "udbd_inv s"
  using udbd_reachable_inv [OF assms] by simp

text \<open>The thread has copied its command while the loop still has the answer to send.\<close>

lemma reachable_states_ok_witness:
  "\<exists>s fd out. udbd_reachable (NetSending, s) \<and> wait_thr s = Some (WtReading (ascii ''ls'') fd out) \<and> udbd_inv s"
proof -
  obtain s fd out where "udbd_reachable (NetSending, s)" "wait_thr s = Some (WtReading (ascii ''ls'') fd out)"
    using demo_thread_first by blast
  with reachable_states_ok show ?thesis by blast
qed

text \<open>
  C9. Progress: a turn of the UDP loop returns (it neither reads nor writes outside a
  buffer, dereferences no NULL and waits for no child forever) on every datagram that is no
  request, is not authenticated, authenticates, or is a request that satisfies
  \<open>request_ok\<close>; the new state satisfies the invariant again.
\<close>

theorem datagram_handled:
  assumes "udbd_inv s" and "datagram_ok E s msg"
  shows "\<exists>s' reply. net_debugd_step E (RecvMsg msg) s = Inr (s', reply) \<and> udbd_inv s'"
  using net_debugd_step_returns [OF assms] net_debugd_step_inv [OF _ assms(1)] by blast

lemma datagram_handled_witness:
  "\<exists>s' reply. net_debugd_step demo_env (RecvMsg (payload_msg UDB_PULL_FILE_INIT (ascii ''/a''))) demo_auth
     = Inr (s', reply) \<and> udbd_inv s'"
proof (rule datagram_handled [OF demo_auth_inv])
  have "net_store (take 1470 (payload_msg UDB_PULL_FILE_INIT (ascii ''/a''))) demo_auth
      = demo_auth\<lparr>req := payload_msg UDB_PULL_FILE_INIT (ascii ''/a'')\<rparr>"
    using net_store_waiting [of demo_auth "payload_msg UDB_PULL_FILE_INIT (ascii ''/a'')"] by simp
  then show "datagram_ok demo_env demo_auth (payload_msg UDB_PULL_FILE_INIT (ascii ''/a''))"
    by (simp add: datagram_ok_def Let_def MAX_MSG_LENGTH_def request_ok_def request_string_def
        payload_msg_def ascii_def)
qed

text \<open>
  C10. The log holds what was printed: after rlog_init and any sequence of messages,
  dumping the used size gives the last 512 bytes of the concatenation of the messages as
  vsnprintf truncates them.
\<close>

fun rlog_run :: "byte list list \<Rightarrow> rbuf \<Rightarrow> fault + rbuf" where
  "rlog_run [] rb = Inr rb"
| "rlog_run (m # ms) rb = rbind (rlog_printf2buf m rb) (\<lambda>(rb, _). rlog_run ms rb)"

lemma rlog_run_repr:
  "log_repr h rb \<Longrightarrow> \<exists>rb'. rlog_run ms rb = Inr rb' \<and> log_repr (h @ concat (map rlog_tmp_buf ms)) rb'"
proof (induction ms arbitrary: h rb)
  case (Cons m ms)
  obtain rb1 where "rlog_printf2buf m rb = Inr (rb1, length (rlog_tmp_buf m))" "log_repr (h @ rlog_tmp_buf m) rb1"
    using rlog_printf2buf_log_repr [OF Cons.prems] by blast
  with Cons.IH [OF this(2)] show ?case by auto
qed simp

theorem rlog_keeps_last_bytes:
  "rbind (rlog_run ms (rlog_init (replicate 513 0) hdl)) (\<lambda>rb. rlog_dump rb (rlog_size rb) 0)
   = Inr (Some (let h = concat (map rlog_tmp_buf ms) in drop (length h - 512) h))"
proof -
  have "log_repr [] (rlog_init (replicate 513 0) hdl)" by (rule log_repr_init) simp
  from rlog_run_repr [OF this, of ms] show ?thesis
    using rlog_dump_log_repr by (auto simp: Let_def)
qed

end
